(* ===== verification/Prelude.thy ===== *)
theory Prelude
  imports Main "HOL-Library.Word" "HOL-Library.Signed_Division" "HOL-Library.Monad_Syntax"
begin

section \<open>Shared types, status codes and automation\<close>

text \<open>
  What every component of the kernel model shares: the machine types, the status codes of
  \<open>status.h\<close>, the constants of \<open>config.h\<close> the modelled code uses, and the generic lemmas
  on words, lists and the option monad the component proofs rest on.

  Conventions. A pointer and a \<open>size_t\<close> are a 64-bit word, and the null pointer is \<open>0\<close>.
  A C function that may stop the kernel (a panic, an access outside an object, a signed
  overflow) returns an option, and \<open>None\<close> means that it did; an ordinary error return is a
  negative number, as in the code.
\<close>

subsection \<open>Machine types\<close>

type_synonym u8 = "8 word"
type_synonym u16 = "16 word"
type_synonym u32 = "32 word"
type_synonym u64 = "64 word"

text \<open>
  Components whose structures are not placed in byte memory take the kernel heap as a parameter: a
  state and, for a request of some size, whether \<open>kzalloc\<close> gives memory.
\<close>

type_synonym 'a allocator = "'a \<Rightarrow> u64 \<Rightarrow> 'a \<times> bool"

definition never_fails :: "'a allocator \<Rightarrow> bool" where
  "never_fails kz \<longleftrightarrow> (\<forall>a n. snd (kz a n))"

lemma never_fails_D: "never_fails kz \<Longrightarrow> \<exists>a'. kz a n = (a', True)"
  unfolding never_fails_def by (metis prod.collapse)

unbundle bit_operations_syntax

subsection \<open>Status codes\<close>

abbreviation (input) PEACHOS_ALL_OK :: int where "PEACHOS_ALL_OK \<equiv> 0"
abbreviation (input) EIO :: int where "EIO \<equiv> 1"
abbreviation (input) EINVARG :: int where "EINVARG \<equiv> 2"
abbreviation (input) ENOMEM :: int where "ENOMEM \<equiv> 3"
abbreviation (input) EBADPATH :: int where "EBADPATH \<equiv> 4"
abbreviation (input) EFSNOTUS :: int where "EFSNOTUS \<equiv> 5"
abbreviation (input) ERDONLY :: int where "ERDONLY \<equiv> 6"
abbreviation (input) EUNIMP :: int where "EUNIMP \<equiv> 7"
abbreviation (input) EISTKN :: int where "EISTKN \<equiv> 8"
abbreviation (input) EINFORMAT :: int where "EINFORMAT \<equiv> 9"
abbreviation (input) EOUTOFRANGE :: int where "EOUTOFRANGE \<equiv> 10"
abbreviation (input) ENOTFOUND :: int where "ENOTFOUND \<equiv> 11"
abbreviation (input) ETIMEOUT :: int where "ETIMEOUT \<equiv> 12"
abbreviation (input) EINVAL :: int where "EINVAL \<equiv> 13"
abbreviation (input) ENOENT :: int where "ENOENT \<equiv> 14"

subsection \<open>Constants of config.h\<close>

abbreviation (input) PEACHOS_MAX_PATH :: int where "PEACHOS_MAX_PATH \<equiv> 108"
abbreviation (input) PEACHOS_SECTOR_SIZE :: int where "PEACHOS_SECTOR_SIZE \<equiv> 512"
abbreviation (input) PEACHOS_MAX_FILESYSTEMS :: int where "PEACHOS_MAX_FILESYSTEMS \<equiv> 12"
abbreviation (input) PEACHOS_MAX_FILE_DESCRIPTORS :: int where "PEACHOS_MAX_FILE_DESCRIPTORS \<equiv> 512"
abbreviation (input) PEACHOS_MAX_PROCESSES :: int where "PEACHOS_MAX_PROCESSES \<equiv> 12"
abbreviation (input) PEACHOS_KEYBOARD_BUFFER_SIZE :: int where "PEACHOS_KEYBOARD_BUFFER_SIZE \<equiv> 1024"

subsection \<open>Conversions between C integer types\<close>

text \<open>A \<open>size_t\<close> passed where the callee takes an \<open>int\<close>, and back.\<close>

definition int_of_size :: "u64 \<Rightarrow> int" where
  "int_of_size n = sint (ucast n :: u32)"

definition size_of_int :: "int \<Rightarrow> u64" where
  "size_of_int i = word_of_int i"

lemma int_of_size_uint:
  assumes lt: "uint n < 2 ^ 31"
  shows "int_of_size n = uint n"
proof -
  have "0 \<le> uint n" by simp
  then have ge: "- (2 ^ 31) \<le> uint n" by (rule order_trans [rotated]) simp
  from lt have "take_bit 32 (uint n) = uint n" by (simp add: take_bit_int_eq_self)
  then have u: "uint (ucast n :: u32) = uint n" by (simp add: unsigned_ucast_eq)
  have "sint (ucast n :: u32) = signed_take_bit 31 (uint n)"
    by (simp add: sint_uint u)
  also have "\<dots> = uint n" using ge lt by (rule signed_take_bit_int_eq_self)
  finally show ?thesis by (simp add: int_of_size_def)
qed

lemma int_of_size_small:
  assumes "unat n < 2 ^ 31"
  shows "int_of_size n = uint n"
proof (rule int_of_size_uint)
  have "int (unat n) < int (2 ^ 31)"
    using assms by (simp only: of_nat_less_iff)
  then show "uint n < 2 ^ 31" by simp
qed

lemma size_of_int_of_size: "unat n < 2 ^ 31 \<Longrightarrow> size_of_int (int_of_size n) = n"
  by (simp add: int_of_size_small size_of_int_def)

subsection \<open>Offsets from an address\<close>

text \<open>Two offsets below \<open>2 ^ 64\<close> from one address name one byte only when they are equal.\<close>

lemma offset_eq_iff:
  fixes p :: u64
  assumes "i < 2 ^ 64" "j < 2 ^ 64"
  shows "p + of_nat i = p + of_nat j \<longleftrightarrow> i = j"
proof
  assume "p + of_nat i = p + of_nat j"
  then have "unat (of_nat i :: u64) = unat (of_nat j :: u64)" by simp
  with assms show "i = j" by (simp add: unat_of_nat)
qed simp

lemma offset_self_iff:
  fixes p :: u64
  assumes "i < 2 ^ 64"
  shows "p = p + of_nat i \<longleftrightarrow> i = 0"
  using offset_eq_iff [of 0 i p] assms by auto

lemma unat_of_nat_u64 [simp]: "n < 2 ^ 64 \<Longrightarrow> unat (of_nat n :: u64) = n"
  by (simp add: unat_of_nat)

subsection \<open>Loops over a list\<close>

text \<open>
  A loop whose body may fault, and a search that stops at the first answer that is not null. Both may stand around a
  recursive call of a partial function.
\<close>

primrec for_each :: "('x \<Rightarrow> 's \<Rightarrow> 's option) \<Rightarrow> 'x list \<Rightarrow> 's \<Rightarrow> 's option" where
  "for_each f [] s = Some s"
| "for_each f (x # xs) s = do { s' \<leftarrow> f x s; for_each f xs s' }"

primrec first_result :: "('x \<Rightarrow> u64 option) \<Rightarrow> 'x list \<Rightarrow> u64 option" where
  "first_result f [] = Some 0"
| "first_result f (x # xs) = do { r \<leftarrow> f x; if r \<noteq> 0 then Some r else first_result f xs }"

lemma for_each_mono [partial_function_mono]:
  assumes "\<And>x s. mono_option (\<lambda>g. F g x s)"
  shows "mono_option (\<lambda>g. for_each (F g) xs s)"
proof (induction xs arbitrary: s)
  case (Cons x xs)
  show ?case unfolding for_each.simps by (rule bind_mono [OF assms Cons.IH])
qed (simp add: monotone_def flat_ord_def)

lemma first_result_mono [partial_function_mono]:
  assumes "\<And>x. mono_option (\<lambda>g. F g x)"
  shows "mono_option (\<lambda>g. first_result (F g) xs)"
proof (induction xs)
  case (Cons x xs)
  have "mono_option (\<lambda>g. if r \<noteq> 0 then Some r else first_result (F g) xs)" for r
    by (cases "r = 0") (simp add: Cons.IH, simp add: monotone_def flat_ord_def)
  then show ?case unfolding first_result.simps by (rule bind_mono [OF assms])
qed (simp add: monotone_def flat_ord_def)

lemma for_each_append: "for_each f (xs @ ys) s = do { s' \<leftarrow> for_each f xs s; for_each f ys s' }"
  by (induction xs arbitrary: s) (auto simp: bind_eq_None_conv split: bind_splits)

lemma for_each_inv:
  assumes "for_each f xs s = Some s'" "P s" "\<And>x s s'. x \<in> set xs \<Longrightarrow> P s \<Longrightarrow> f x s = Some s' \<Longrightarrow> P s'"
  shows "P s'"
  using assms by (induction xs arbitrary: s) (auto simp: bind_eq_Some_conv)

end
