(* ===== verification/Memory.thy ===== *)
theory Memory
  imports Prelude
begin

section \<open>Physical memory and the routines of memory.c\<close>

text \<open>
  The bytes the kernel reads and writes, and the routines of \<open>memory/memory.c\<close> on them.
  \<open>kstate\<close> is the part of the kernel's state every component with raw memory shares; the
  components extend it with their own fields.
\<close>

type_synonym memory = "u64 \<Rightarrow> u8"

record kstate =
  kmem :: memory

subsection \<open>memset, memcmp and memcpy\<close>

primrec memset_bytes :: "memory \<Rightarrow> u64 \<Rightarrow> u8 \<Rightarrow> nat \<Rightarrow> memory" where
  "memset_bytes m p c 0 = m"
| "memset_bytes m p c (Suc n) = (memset_bytes m p c n)(p + of_nat n := c)"

text \<open>The counter of \<open>memset\<close> is an \<open>int\<close>: beyond \<open>2 ^ 31 - 1\<close> bytes it overflows.\<close>

definition memset :: "memory \<Rightarrow> u64 \<Rightarrow> int \<Rightarrow> u64 \<Rightarrow> memory option" where
  "memset m p c sz =
     (if unat sz < 2 ^ 31 then Some (memset_bytes m p (word_of_int c) (unat sz)) else None)"

primrec memcmp_bytes :: "memory \<Rightarrow> u64 \<Rightarrow> u64 \<Rightarrow> nat \<Rightarrow> int" where
  "memcmp_bytes m a b 0 = 0"
| "memcmp_bytes m a b (Suc n) =
     (if m a \<noteq> m b then (if sint (m a) < sint (m b) then -1 else 1)
      else memcmp_bytes m (a + 1) (b + 1) n)"

definition memcmp :: "memory \<Rightarrow> u64 \<Rightarrow> u64 \<Rightarrow> int \<Rightarrow> int" where
  "memcmp m a b count = memcmp_bytes m a b (nat count)"

primrec memcpy_bytes :: "memory \<Rightarrow> u64 \<Rightarrow> u64 \<Rightarrow> nat \<Rightarrow> memory" where
  "memcpy_bytes m d s 0 = m"
| "memcpy_bytes m d s (Suc n) = memcpy_bytes (m(d := m s)) (d + 1) (s + 1) n"

text \<open>The loop of \<open>memcpy\<close> counts an \<open>int\<close> down to zero: a negative length runs past it.\<close>

definition memcpy :: "memory \<Rightarrow> u64 \<Rightarrow> u64 \<Rightarrow> int \<Rightarrow> memory option" where
  "memcpy m d s len = (if 0 \<le> len then Some (memcpy_bytes m d s (nat len)) else None)"

subsection \<open>The memory map of the firmware (E820)\<close>

record e820_entry =
  base_addr :: u64
  e820_length :: u64
  e820_type :: u32
  extended_attr :: u32

text \<open>
  The loader leaves the number of entries (16 bits) and the entries at fixed addresses. The
  model takes them as the list \<open>es\<close>, so \<open>e820_total_entries\<close> is its length.
\<close>

definition e820_total_entries :: "e820_entry list \<Rightarrow> nat" where
  "e820_total_entries es = length es"

definition e820_entry_at :: "e820_entry list \<Rightarrow> nat \<Rightarrow> e820_entry option" where
  "e820_entry_at es i = (if i \<ge> e820_total_entries es then None else Some (es ! i))"

primrec largest_free_loop :: "e820_entry list \<Rightarrow> e820_entry option \<Rightarrow> e820_entry option" where
  "largest_free_loop [] chosen = chosen"
| "largest_free_loop (e # es) chosen =
     (if e820_type e = 1 then
        (case chosen of
           None \<Rightarrow> largest_free_loop es (Some e)
         | Some c \<Rightarrow>
             if e820_length e > e820_length c then largest_free_loop es (Some e)
             else largest_free_loop es chosen)
      else largest_free_loop es chosen)"

definition e820_largest_free_entry :: "e820_entry list \<Rightarrow> e820_entry option" where
  "e820_largest_free_entry es = largest_free_loop es None"

primrec accessible_loop :: "e820_entry list \<Rightarrow> u64 \<Rightarrow> u64" where
  "accessible_loop [] acc = acc"
| "accessible_loop (e # es) acc =
     accessible_loop es (if e820_type e = 1 then acc + e820_length e else acc)"

definition e820_total_accessible_memory :: "e820_entry list \<Rightarrow> u64" where
  "e820_total_accessible_memory es = accessible_loop es 0"

subsection \<open>What the routines compute\<close>

definition read_bytes :: "memory \<Rightarrow> u64 \<Rightarrow> nat \<Rightarrow> u8 list" where
  "read_bytes m p n = map (\<lambda>i. m (p + of_nat i)) [0..<n]"

text \<open>Two regions with no byte in common.\<close>

definition separate :: "u64 \<Rightarrow> nat \<Rightarrow> u64 \<Rightarrow> nat \<Rightarrow> bool" where
  "separate p n q k \<longleftrightarrow> (\<forall>i<n. \<forall>j<k. p + of_nat i \<noteq> q + of_nat j)"

lemma separate_sym: "separate p n q k \<longleftrightarrow> separate q k p n"
  by (auto simp: separate_def) metis+

lemma separate_mono: "separate p n q k \<Longrightarrow> n' \<le> n \<Longrightarrow> k' \<le> k \<Longrightarrow> separate p n' q k'"
  by (auto simp: separate_def)

lemma length_read_bytes [simp]: "length (read_bytes m p n) = n"
  by (simp add: read_bytes_def)

lemma nth_read_bytes [simp]: "i < n \<Longrightarrow> read_bytes m p n ! i = m (p + of_nat i)"
  by (simp add: read_bytes_def)

lemma read_bytes_cong:
  "(\<And>i. i < n \<Longrightarrow> m (p + of_nat i) = m' (q + of_nat i)) \<Longrightarrow> read_bytes m p n = read_bytes m' q n"
  by (simp add: read_bytes_def)

lemma memset_bytes_apply:
  "memset_bytes m p c n x = (if \<exists>i<n. x = p + of_nat i then c else m x)"
  by (induction n) (auto simp: less_Suc_eq)

lemma read_bytes_memset:
  "k \<le> n \<Longrightarrow> read_bytes (memset_bytes m p c n) p k = replicate k c"
  by (auto simp: list_eq_iff_nth_eq memset_bytes_apply dest: order.strict_trans2)

lemma memcpy_bytes_outside:
  "(\<And>i. i < n \<Longrightarrow> x \<noteq> d + of_nat i) \<Longrightarrow> memcpy_bytes m d s n x = m x"
proof (induction n arbitrary: m d s)
  case 0
  then show ?case by simp
next
  case (Suc n)
  have "x \<noteq> d" using Suc.prems [of 0] by simp
  moreover have "x \<noteq> d + 1 + of_nat i" if "i < n" for i
    using Suc.prems [of "Suc i"] that by (simp add: add.assoc)
  ultimately show ?case using Suc.IH by simp
qed

text \<open>
  A forward copy is right when no byte is overwritten before it is read. That covers
  separate regions, and an overlap where the destination comes first.
\<close>

lemma memcpy_bytes_inside:
  assumes "\<And>i j. i < j \<Longrightarrow> j < n \<Longrightarrow> d + of_nat i \<noteq> s + of_nat j"
    and "n \<le> 2 ^ 64" "k < n"
  shows "memcpy_bytes m d s n (d + of_nat k) = m (s + of_nat k)"
  using assms
proof (induction n arbitrary: m d s k)
  case 0
  then show ?case by simp
next
  case (Suc n)
  let ?m = "m(d := m s)"
  have fwd: "d + 1 + of_nat i \<noteq> s + 1 + of_nat j" if "i < j" "j < n" for i j
    using Suc.prems(1) [of "Suc i" "Suc j"] that by (simp add: add.assoc)
  show ?case
  proof (cases k)
    case 0
    have "d \<noteq> d + 1 + of_nat i" if "i < n" for i
      using offset_self_iff [of "Suc i" d] that Suc.prems(2) by (simp add: add.assoc)
    then show ?thesis using 0 by (simp add: memcpy_bytes_outside)
  next
    case (Suc k')
    then have k': "k' < n" using Suc.prems(3) by simp
    have "memcpy_bytes m d s (Suc n) (d + of_nat k)
        = memcpy_bytes ?m (d + 1) (s + 1) n (d + 1 + of_nat k')"
      using Suc by (simp add: add.assoc)
    also have "\<dots> = ?m (s + 1 + of_nat k')"
      by (rule Suc.IH) (use fwd k' Suc.prems(2) in simp_all)
    also have "\<dots> = m (s + 1 + of_nat k')"
      using Suc.prems(1) [of 0 "Suc k'"] k' by (simp add: add.assoc)
    finally show ?thesis using Suc by (simp add: add.assoc)
  qed
qed

lemma memcpy_bytes_separate:
  assumes "separate d n s n" "n \<le> 2 ^ 64"
  shows "read_bytes (memcpy_bytes m d s n) d n = read_bytes m s n"
  using assms
  by (auto simp: list_eq_iff_nth_eq separate_def intro!: memcpy_bytes_inside)

lemma read_bytes_memcpy_other:
  assumes "separate d n q k"
  shows "read_bytes (memcpy_bytes m d s n) q k = read_bytes m q k"
  using assms
  by (auto simp: list_eq_iff_nth_eq separate_def intro!: memcpy_bytes_outside) metis

lemma memcmp_bytes_eq_0_iff:
  "memcmp_bytes m a b n = 0 \<longleftrightarrow> read_bytes m a n = read_bytes m b n"
proof (induction n arbitrary: a b)
  case 0
  then show ?case by (simp add: read_bytes_def)
next
  case (Suc n)
  have step: "read_bytes m p (Suc n) = m p # read_bytes m (p + 1) n" for p
    by (auto simp: list_eq_iff_nth_eq nth_Cons add.assoc split: nat.splits)
  show ?case using Suc by (simp add: step)
qed

subsection \<open>The interface of the allocator\<close>

text \<open>
  What the clients of \<open>krealloc\<close> and \<open>kzalloc\<close> rely on. \<open>own s p n\<close> says that \<open>p\<close> is an allocation
  of \<open>n\<close> bytes, \<open>can s p sz\<close> that its reallocation to \<open>sz\<close> bytes is defined, and \<open>pool s\<close> are the
  addresses the allocator manages.

  \<open>alloc_step\<close> is what a successful call does: it returns an allocation of at least \<open>sz\<close> bytes,
  and leaves every other allocation and its bytes alone, as well as all memory outside the pool.
  \<open>p\<close> is the allocation it takes the place of, or null.
\<close>

definition alloc_step ::
  "('s kstate_scheme \<Rightarrow> bool) \<Rightarrow> ('s kstate_scheme \<Rightarrow> u64 \<Rightarrow> nat \<Rightarrow> bool) \<Rightarrow>
   ('s kstate_scheme \<Rightarrow> u64 set) \<Rightarrow> 's kstate_scheme \<Rightarrow> 's kstate_scheme \<Rightarrow> u64 \<Rightarrow> u64 \<Rightarrow> nat \<Rightarrow> bool" where
  "alloc_step ok own pool s s' p q sz \<longleftrightarrow>
     q \<noteq> 0 \<and> ok s' \<and> pool s' = pool s \<and> (\<forall>x. x \<notin> pool s \<longrightarrow> kmem s' x = kmem s x) \<and>
     (\<exists>n'. sz \<le> n' \<and> own s' q n') \<and>
     (\<forall>p2 n2. own s p2 n2 \<longrightarrow> p2 \<noteq> p \<longrightarrow> own s' p2 n2 \<and> p2 \<noteq> q \<and>
        read_bytes (kmem s') p2 n2 = read_bytes (kmem s) p2 n2)"

locale realloc_provider =
  fixes kre :: "'s kstate_scheme \<Rightarrow> u64 \<Rightarrow> u64 \<Rightarrow> ('s kstate_scheme \<times> u64) option"
    and inv :: "'s kstate_scheme \<Rightarrow> bool"
    and own :: "'s kstate_scheme \<Rightarrow> u64 \<Rightarrow> nat \<Rightarrow> bool"
    and can :: "'s kstate_scheme \<Rightarrow> u64 \<Rightarrow> u64 \<Rightarrow> bool"
    and pool :: "'s kstate_scheme \<Rightarrow> u64 set"
  assumes realloc: "inv s \<Longrightarrow> own s p n \<Longrightarrow> can s p sz \<Longrightarrow>
      \<exists>s' q. kre s p sz = Some (s', q) \<and>
        (q = 0 \<and> s' = s \<or>
         alloc_step inv own pool s s' p q (unat sz) \<and>
         (\<forall>i<min n (unat sz). kmem s' (q + of_nat i) = kmem s (p + of_nat i)))"
    and alloc: "inv s \<Longrightarrow> sz \<noteq> 0 \<Longrightarrow> unat sz < 2 ^ 30 \<Longrightarrow>
      \<exists>s' q. kre s 0 sz = Some (s', q) \<and>
        (q = 0 \<and> s' = s \<or> alloc_step inv own pool s s' 0 q (unat sz))"
    and own_separate: "inv s \<Longrightarrow> own s p n \<Longrightarrow> own s q k \<Longrightarrow> p \<noteq> q \<Longrightarrow> separate p n q k"
    and own_range: "inv s \<Longrightarrow> own s p n \<Longrightarrow> 0 < p \<and> unat p + n < 2 ^ 63"
    and own_pool: "inv s \<Longrightarrow> own s p n \<Longrightarrow> i < n \<Longrightarrow> p + of_nat i \<in> pool s"
    and can_size: "can s p sz \<Longrightarrow> sz \<noteq> 0 \<and> unat sz < 2 ^ 30"
    and mem_frame: "inv (s\<lparr>kmem := m\<rparr>) = inv s" "own (s\<lparr>kmem := m\<rparr>) = own s"
      "can (s\<lparr>kmem := m\<rparr>) = can s" "pool (s\<lparr>kmem := m\<rparr>) = pool s"

locale zalloc_provider = realloc_provider +
  fixes kz :: "'a kstate_scheme \<Rightarrow> u64 \<Rightarrow> ('a kstate_scheme \<times> u64) option"
  assumes zalloc: "inv s \<Longrightarrow> sz \<noteq> 0 \<Longrightarrow> unat sz < 2 ^ 30 \<Longrightarrow>
      \<exists>s' q. kz s sz = Some (s', q) \<and>
        (q = 0 \<and> s' = s \<or> alloc_step inv own pool s s' 0 q (unat sz))"

end
