(* ===== verification/Heap.thy ===== *)
theory Heap
  imports Memory
begin

section \<open>The block heap of heap.c\<close>

text \<open>
  One heap: a table with one byte per 4096-byte block, the address range of its data pool and
  its counters. The table lives outside the pool; the model keeps it as the list
  \<open>heap_entries\<close>, whose length is \<open>table->total\<close>. A read or write of the table outside that
  list is an access outside the object and makes the operation \<open>None\<close>.

  The heap's two callbacks are function pointers the multiheap installs. \<open>heap.c\<close> ignores what
  they return, so the model records the calls, in order, in the ghost field \<open>heap_calls\<close>, and
  the multiheap carries them out.
\<close>

subsection \<open>Constants and state\<close>

abbreviation (input) PEACHOS_HEAP_BLOCK_SIZE :: u64 where "PEACHOS_HEAP_BLOCK_SIZE \<equiv> 4096"

abbreviation (input) HEAP_BLOCK_TABLE_ENTRY_TAKEN :: u8 where "HEAP_BLOCK_TABLE_ENTRY_TAKEN \<equiv> 0x01"
abbreviation (input) HEAP_BLOCK_TABLE_ENTRY_FREE :: u8 where "HEAP_BLOCK_TABLE_ENTRY_FREE \<equiv> 0x00"
abbreviation (input) HEAP_BLOCK_HAS_NEXT :: u8 where "HEAP_BLOCK_HAS_NEXT \<equiv> 0x80"
abbreviation (input) HEAP_BLOCK_IS_FIRST :: u8 where "HEAP_BLOCK_IS_FIRST \<equiv> 0x40"

datatype heap_call = Block_allocated u64 u64 | Block_freed u64

record heap =
  heap_entries :: "u8 list"
  saddr :: u64
  eaddr :: u64
  total_blocks :: u64
  free_blocks :: u64
  used_blocks :: u64
  block_allocated_callback :: bool
  block_free_callback :: bool
  heap_calls :: "heap_call list"

definition table_get :: "u8 list \<Rightarrow> int \<Rightarrow> u8 option" where
  "table_get es i = (if 0 \<le> i \<and> i < int (length es) then Some (es ! nat i) else None)"

definition table_set :: "u8 list \<Rightarrow> int \<Rightarrow> u8 \<Rightarrow> u8 list option" where
  "table_set es i e = (if 0 \<le> i \<and> i < int (length es) then Some (es[nat i := e]) else None)"

subsection \<open>Creation and alignment\<close>

definition heap_validate_table :: "u64 \<Rightarrow> u64 \<Rightarrow> u8 list \<Rightarrow> int" where
  "heap_validate_table ptr endp tbl =
     (let table_size = endp - ptr;
          blocks = table_size div PEACHOS_HEAP_BLOCK_SIZE
      in if of_nat (length tbl) \<noteq> blocks then - EINVARG else 0)"

definition heap_validate_alignment :: "u64 \<Rightarrow> bool" where
  "heap_validate_alignment ptr \<longleftrightarrow> ptr mod PEACHOS_HEAP_BLOCK_SIZE = 0"

definition heap_create :: "heap \<Rightarrow> u64 \<Rightarrow> u64 \<Rightarrow> u8 list \<Rightarrow> int \<times> heap" where
  "heap_create h ptr endp tbl =
     (if \<not> heap_validate_alignment ptr \<or> \<not> heap_validate_alignment endp then (- EINVARG, h)
      else
        let h' = \<lparr>heap_entries = tbl, saddr = ptr, eaddr = endp,
                  total_blocks = of_nat (length tbl), free_blocks = of_nat (length tbl),
                  used_blocks = 0, block_allocated_callback = False,
                  block_free_callback = False, heap_calls = []\<rparr>;
            res = heap_validate_table ptr endp tbl
        in if res < 0 then (res, h')
           else (res, h'\<lparr>heap_entries := replicate (length tbl) HEAP_BLOCK_TABLE_ENTRY_FREE\<rparr>))"

definition heap_align_value_to_upper :: "u64 \<Rightarrow> u64" where
  "heap_align_value_to_upper v =
     (if v mod PEACHOS_HEAP_BLOCK_SIZE = 0 then v
      else v - v mod PEACHOS_HEAP_BLOCK_SIZE + PEACHOS_HEAP_BLOCK_SIZE)"

definition heap_align_value_to_lower :: "u64 \<Rightarrow> u64" where
  "heap_align_value_to_lower v =
     (if v mod PEACHOS_HEAP_BLOCK_SIZE = 0 then v else v - v mod PEACHOS_HEAP_BLOCK_SIZE)"

definition heap_get_entry_type :: "u8 \<Rightarrow> u8" where
  "heap_get_entry_type e = e AND 0x0f"

definition heap_is_address_within_heap :: "heap \<Rightarrow> u64 \<Rightarrow> bool" where
  "heap_is_address_within_heap h ptr \<longleftrightarrow> ptr \<ge> saddr h \<and> ptr \<le> eaddr h"

definition heap_callbacks_set :: "heap \<Rightarrow> bool \<Rightarrow> bool \<Rightarrow> heap" where
  "heap_callbacks_set h alloc_func free_func =
     h\<lparr>block_allocated_callback := alloc_func, block_free_callback := free_func\<rparr>"

subsection \<open>Blocks and addresses\<close>

definition heap_block_to_address :: "heap \<Rightarrow> int \<Rightarrow> u64" where
  "heap_block_to_address h block = saddr h + word_of_int (block * 4096)"

definition heap_address_to_block :: "heap \<Rightarrow> u64 \<Rightarrow> int" where
  "heap_address_to_block h address = sint (address - saddr h) sdiv 4096"

subsection \<open>Allocation\<close>

text \<open>The search loop, over the entries still to look at: block number, run length, run start.\<close>

fun get_start_block_loop :: "u8 list \<Rightarrow> nat \<Rightarrow> nat \<Rightarrow> nat \<Rightarrow> int \<Rightarrow> nat \<times> int" where
  "get_start_block_loop [] blocks i bc bs = (bc, bs)"
| "get_start_block_loop (e # es) blocks i bc bs =
     (if heap_get_entry_type e \<noteq> HEAP_BLOCK_TABLE_ENTRY_FREE
      then get_start_block_loop es blocks (Suc i) 0 (-1)
      else
        let bs' = (if bs = -1 then int i else bs);
            bc' = Suc bc
        in if bc' = blocks then (bc', bs')
           else get_start_block_loop es blocks (Suc i) bc' bs')"

definition heap_get_start_block :: "heap \<Rightarrow> nat \<Rightarrow> int" where
  "heap_get_start_block h blocks =
     (case get_start_block_loop (heap_entries h) blocks 0 0 (-1) of
        (bc, bs) \<Rightarrow> if bc \<noteq> blocks then - ENOMEM else bs)"

function mark_blocks_taken_loop :: "heap \<Rightarrow> int \<Rightarrow> int \<Rightarrow> u8 \<Rightarrow> heap option" where
  "mark_blocks_taken_loop h end_block i entry =
     (if i \<le> end_block then do {
        es \<leftarrow> table_set (heap_entries h) i entry;
        let entry' = (if i \<noteq> end_block then HEAP_BLOCK_TABLE_ENTRY_TAKEN OR HEAP_BLOCK_HAS_NEXT
                      else HEAP_BLOCK_TABLE_ENTRY_TAKEN);
        let calls = (if block_allocated_callback h
                     then heap_calls h @ [Block_allocated (heap_block_to_address h i)
                                            PEACHOS_HEAP_BLOCK_SIZE]
                     else heap_calls h);
        mark_blocks_taken_loop (h\<lparr>heap_entries := es, heap_calls := calls\<rparr>) end_block (i + 1) entry'
      } else Some h)"
  by pat_completeness auto
termination
  by (relation "measure (\<lambda>(h, end_block, i, entry). nat (end_block + 1 - i))") auto

definition heap_mark_blocks_taken :: "heap \<Rightarrow> int \<Rightarrow> int \<Rightarrow> heap option" where
  "heap_mark_blocks_taken h start_block blocks =
     (let end_block = (start_block + blocks) - 1;
          entry = HEAP_BLOCK_TABLE_ENTRY_TAKEN OR HEAP_BLOCK_IS_FIRST;
          entry = (if blocks > 1 then entry OR HEAP_BLOCK_HAS_NEXT else entry)
      in mark_blocks_taken_loop h end_block start_block entry)"

definition heap_malloc_blocks :: "heap \<Rightarrow> nat \<Rightarrow> (heap \<times> u64) option" where
  "heap_malloc_blocks h blocks =
     (let start_block = heap_get_start_block h blocks in
      if start_block < 0 then Some (h, 0)
      else do {
        let address = heap_block_to_address h start_block;
        h' \<leftarrow> heap_mark_blocks_taken h start_block (int blocks);
        Some (h'\<lparr>used_blocks := used_blocks h' + of_nat blocks,
                 free_blocks := free_blocks h' - of_nat blocks\<rparr>, address)
      })"

definition heap_malloc :: "heap \<Rightarrow> u64 \<Rightarrow> (heap \<times> u64) option" where
  "heap_malloc h sz =
     (let aligned_size = heap_align_value_to_upper sz;
          blocks = aligned_size div PEACHOS_HEAP_BLOCK_SIZE
      in heap_malloc_blocks h (unat blocks))"

text \<open>\<open>heap_zalloc\<close> also clears the \<open>sz\<close> bytes it was asked for.\<close>

definition heap_zalloc :: "memory \<Rightarrow> heap \<Rightarrow> u64 \<Rightarrow> (memory \<times> heap \<times> u64) option" where
  "heap_zalloc m h sz = do {
     (h', ptr) \<leftarrow> heap_malloc h sz;
     if ptr = 0 then Some (m, h', 0)
     else do {
       m' \<leftarrow> memset m ptr 0 sz;
       Some (m', h', ptr)
     }
   }"

subsection \<open>Release\<close>

function mark_blocks_free_loop :: "heap \<Rightarrow> int \<Rightarrow> nat \<Rightarrow> nat \<Rightarrow> (heap \<times> nat) option" where
  "mark_blocks_free_loop h i freed tot =
     (if i < int tot then do {
        entry \<leftarrow> table_get (heap_entries h) i;
        es \<leftarrow> table_set (heap_entries h) i HEAP_BLOCK_TABLE_ENTRY_FREE;
        let calls = (if block_free_callback h
                     then heap_calls h @ [Block_freed (heap_block_to_address h i)]
                     else heap_calls h);
        let h' = h\<lparr>heap_entries := es, heap_calls := calls\<rparr>;
        if entry AND HEAP_BLOCK_HAS_NEXT = 0 then Some (h', Suc freed)
        else mark_blocks_free_loop h' (i + 1) (Suc freed) tot
      } else Some (h, freed))"
  by pat_completeness auto
termination
  by (relation "measure (\<lambda>(h, i, freed, tot). nat (int tot - i))") auto

definition heap_mark_blocks_free :: "heap \<Rightarrow> int \<Rightarrow> heap option" where
  "heap_mark_blocks_free h starting_block = do {
     (h', freed) \<leftarrow> mark_blocks_free_loop h starting_block 0 (length (heap_entries h));
     Some (h'\<lparr>used_blocks := used_blocks h' - of_nat freed,
              free_blocks := free_blocks h' + of_nat freed\<rparr>)
   }"

definition heap_free :: "heap \<Rightarrow> u64 \<Rightarrow> heap option" where
  "heap_free h ptr = heap_mark_blocks_free h (heap_address_to_block h ptr)"

subsection \<open>Reallocation\<close>

function is_block_range_free_loop :: "u8 list \<Rightarrow> int \<Rightarrow> int \<Rightarrow> bool option" where
  "is_block_range_free_loop es i ending_block =
     (if i \<le> ending_block then do {
        e \<leftarrow> table_get es i;
        if e AND HEAP_BLOCK_TABLE_ENTRY_TAKEN \<noteq> 0 then Some False
        else is_block_range_free_loop es (i + 1) ending_block
      } else Some True)"
  by pat_completeness auto
termination
  by (relation "measure (\<lambda>(es, i, ending_block). nat (ending_block + 1 - i))") auto

definition heap_is_block_range_free :: "heap \<Rightarrow> int \<Rightarrow> int \<Rightarrow> bool option" where
  "heap_is_block_range_free h starting_block ending_block =
     is_block_range_free_loop (heap_entries h) starting_block ending_block"

function allocation_block_count_loop :: "u8 list \<Rightarrow> nat \<Rightarrow> nat \<Rightarrow> nat" where
  "allocation_block_count_loop es i count =
     (if i < length es then
        let entry = es ! i;
            count' = (if entry AND HEAP_BLOCK_TABLE_ENTRY_TAKEN \<noteq> 0 then Suc count else count)
        in if entry AND HEAP_BLOCK_HAS_NEXT = 0 then count'
           else allocation_block_count_loop es (Suc i) count'
      else count)"
  by pat_completeness auto
termination
  by (relation "measure (\<lambda>(es, i, count). length es - i)") auto

definition heap_allocation_block_count :: "heap \<Rightarrow> u64 \<Rightarrow> nat" where
  "heap_allocation_block_count h starting_address =
     (let starting_block = heap_address_to_block h starting_address in
      if starting_block < 0 then 0
      else allocation_block_count_loop (heap_entries h) (nat starting_block) 0)"

text \<open>The blocks of an extension, all but the last, in ascending order.\<close>

function extend_loop :: "u8 list \<Rightarrow> int \<Rightarrow> int \<Rightarrow> u8 list option" where
  "extend_loop es i extension_end =
     (if i < extension_end then do {
        es' \<leftarrow> table_set es i (HEAP_BLOCK_TABLE_ENTRY_TAKEN OR HEAP_BLOCK_HAS_NEXT);
        extend_loop es' (i + 1) extension_end
      } else Some es)"
  by pat_completeness auto
termination
  by (relation "measure (\<lambda>(es, i, extension_end). nat (extension_end - i))") auto

definition heap_realloc ::
  "memory \<Rightarrow> heap \<Rightarrow> u64 \<Rightarrow> u64 \<Rightarrow> (memory \<times> heap \<times> u64) option" where
  "heap_realloc m h old_ptr new_size =
     (if old_ptr = 0 then do {
        (h', p) \<leftarrow> heap_malloc h new_size;
        Some (m, h', p)
      }
      else if new_size = 0 then do {
        h' \<leftarrow> heap_free h old_ptr;
        Some (m, h', 0)
      }
      else
        let current_alloc_blocks = heap_allocation_block_count h old_ptr;
            starting_block = heap_address_to_block h old_ptr;
            ending_block = starting_block + int current_alloc_blocks - 1;
            new_size_aligned = heap_align_value_to_upper new_size;
            new_total_blocks = unat (new_size_aligned div PEACHOS_HEAP_BLOCK_SIZE);
            old_total_size = of_nat current_alloc_blocks * PEACHOS_HEAP_BLOCK_SIZE
        in if current_alloc_blocks \<ge> new_total_blocks then
             (if current_alloc_blocks = new_total_blocks then Some (m, h, old_ptr)
              else do {
                let block_to_free = starting_block + int new_total_blocks;
                h1 \<leftarrow> heap_mark_blocks_free h block_to_free;
                h2 \<leftarrow> (if new_total_blocks > 0 then do {
                         e \<leftarrow> table_get (heap_entries h1) (starting_block + int new_total_blocks - 1);
                         es \<leftarrow> table_set (heap_entries h1) (starting_block + int new_total_blocks - 1)
                                (e AND NOT HEAP_BLOCK_HAS_NEXT);
                         Some (h1\<lparr>heap_entries := es\<rparr>)
                       } else Some h1);
                let freed_blocks = of_nat (current_alloc_blocks - new_total_blocks);
                Some (m, h2\<lparr>used_blocks := used_blocks h2 - freed_blocks,
                            free_blocks := free_blocks h2 + freed_blocks\<rparr>, old_ptr)
              })
           else do {
             let extra_blocks = new_total_blocks - current_alloc_blocks;
             let extension_start = ending_block + 1;
             let extension_end = extension_start + int extra_blocks - 1;
             range_free \<leftarrow> heap_is_block_range_free h extension_start extension_end;
             if range_free then do {
               es1 \<leftarrow> extend_loop (heap_entries h) extension_start extension_end;
               es2 \<leftarrow> table_set es1 extension_end HEAP_BLOCK_TABLE_ENTRY_TAKEN;
               e \<leftarrow> table_get es2 ending_block;
               es3 \<leftarrow> table_set es2 ending_block (e OR HEAP_BLOCK_HAS_NEXT);
               Some (m, h\<lparr>heap_entries := es3,
                          used_blocks := used_blocks h + of_nat extra_blocks,
                          free_blocks := free_blocks h - of_nat extra_blocks\<rparr>, old_ptr)
             } else do {
               (m1, h1, new_addr) \<leftarrow> heap_zalloc m h new_size_aligned;
               if new_addr = 0 then Some (m1, h1, 0)
               else do {
                 m2 \<leftarrow> memcpy m1 new_addr old_ptr (int_of_size old_total_size);
                 h2 \<leftarrow> heap_free h1 old_ptr;
                 Some (m2, h2, new_addr)
               }
             }
           })"

subsection \<open>Totals\<close>

definition heap_total_size :: "heap \<Rightarrow> u64" where
  "heap_total_size h = of_nat (length (heap_entries h)) * PEACHOS_HEAP_BLOCK_SIZE"

primrec total_used_loop :: "u8 list \<Rightarrow> u64 \<Rightarrow> u64" where
  "total_used_loop [] acc = acc"
| "total_used_loop (e # es) acc =
     total_used_loop es
       (if heap_get_entry_type e = HEAP_BLOCK_TABLE_ENTRY_TAKEN
        then acc + PEACHOS_HEAP_BLOCK_SIZE else acc)"

definition heap_total_used :: "heap \<Rightarrow> u64" where
  "heap_total_used h = total_used_loop (heap_entries h) 0"

definition heap_total_available :: "heap \<Rightarrow> u64" where
  "heap_total_available h = heap_total_size h - heap_total_used h"

subsection \<open>The search for a free run\<close>

definition block_free :: "u8 \<Rightarrow> bool" where
  "block_free e \<longleftrightarrow> heap_get_entry_type e = HEAP_BLOCK_TABLE_ENTRY_FREE"

definition free_run :: "u8 list \<Rightarrow> nat \<Rightarrow> nat \<Rightarrow> bool" where
  "free_run es n b \<longleftrightarrow> b + n \<le> length es \<and> (\<forall>j<n. block_free (es ! (b + j)))"

lemma get_start_block_loop_spec:
  assumes "xs = pre @ es" "i = length pre" "bc \<le> i" "bc < n"
    and "bs = (if bc = 0 then -1 else int (i - bc))"
    and "\<forall>k. i - bc \<le> k \<longrightarrow> k < i \<longrightarrow> block_free (xs ! k)"
    and "bc < i \<longrightarrow> \<not> block_free (xs ! (i - bc - 1))"
    and "\<forall>b. b + n \<le> i \<longrightarrow> \<not> free_run xs n b"
  shows "case get_start_block_loop es n i bc bs of (bc', bs') \<Rightarrow>
           if bc' = n then \<exists>b. bs' = int b \<and> free_run xs n b \<and> (\<forall>b'<b. \<not> free_run xs n b')
           else \<forall>b. \<not> free_run xs n b"
  using assms
proof (induction es n i bc bs arbitrary: pre rule: get_start_block_loop.induct)
  case (1 n i bc bs)
  then show ?case by (auto simp: free_run_def)
next
  case (2 e es n i bc bs)
  have xs: "xs = (pre @ [e]) @ es" "Suc i = length (pre @ [e])" using "2.prems" by auto
  have e: "xs ! i = e" using "2.prems"(1,2) by simp
  have ilen: "i < length xs" using "2.prems"(1,2) by simp
  show ?case
  proof (cases "block_free e")
    case False
    have "\<not> free_run xs n b" if "b + n \<le> Suc i" for b
    proof (cases "b + n = Suc i")
      case True
      then have "b + (n - 1) = i" "n - 1 < n" using "2.prems"(4) by auto
      then show ?thesis using e False by (metis free_run_def)
    next
      case neq: False
      with that "2.prems"(8) show ?thesis by auto
    qed
    with False show ?thesis
      using "2.IH"(1) [OF _ xs] "2.prems"(4) e by (auto simp: block_free_def)
  next
    case True
    define bs' where "bs' = (if bs = -1 then int i else bs)"
    have bs': "bs' = int (Suc i - Suc bc)"
      using "2.prems"(3,5) by (auto simp: bs'_def)
    have run: "\<forall>k. Suc i - Suc bc \<le> k \<longrightarrow> k < Suc i \<longrightarrow> block_free (xs ! k)"
      using "2.prems"(6) True e by (auto simp: less_Suc_eq)
    have unfold: "get_start_block_loop (e # es) n i bc bs =
        (if Suc bc = n then (Suc bc, bs') else get_start_block_loop es n (Suc i) (Suc bc) bs')"
      using True by (simp add: block_free_def bs'_def Let_def)
    show ?thesis
    proof (cases "Suc bc = n")
      case n: True
      have "free_run xs n (i - bc)"
        unfolding free_run_def using run ilen n "2.prems"(3)
        by (auto simp del: diff_Suc_Suc)
      moreover have "\<not> free_run xs n b'" if "b' < i - bc" for b'
        using "2.prems"(8) that n by simp
      ultimately show ?thesis using unfold n bs' by auto
    next
      case n: False
      have "\<not> free_run xs n b" if b: "b + n \<le> Suc i" for b
      proof (cases "b + n = Suc i")
        case True
        then have lt: "bc < i" and k: "b \<le> i - bc - 1" "i - bc - 1 - b < n"
          using n "2.prems"(3,4) by auto
        have "\<not> block_free (xs ! (b + (i - bc - 1 - b)))" using "2.prems"(7) lt k by simp
        then show ?thesis using k by (auto simp: free_run_def)
      next
        case False
        with b "2.prems"(8) show ?thesis by auto
      qed
      then show ?thesis
        unfolding unfold using n
          "2.IH"(2) [OF _ bs'_def refl n xs] True "2.prems"(3,4,7) bs' run
        by (auto simp: block_free_def)
    qed
  qed
qed

lemma heap_get_start_block_cases:
  assumes "0 < n"
  shows "(\<exists>b. heap_get_start_block h n = int b \<and> free_run (heap_entries h) n b
             \<and> (\<forall>b'<b. \<not> free_run (heap_entries h) n b'))
       \<or> (heap_get_start_block h n = - ENOMEM \<and> (\<forall>b. \<not> free_run (heap_entries h) n b))"
  using get_start_block_loop_spec [of "heap_entries h" "[]" "heap_entries h" 0 0 n "-1"] assms
  by (auto simp: heap_get_start_block_def split: prod.splits if_splits)

subsection \<open>What the loops do to the table\<close>

lemma get_start_block_loop_zero:
  "get_start_block_loop es 0 i bc bs = (bc', bs') \<Longrightarrow> (bc = 0 \<longrightarrow> bs = -1) \<Longrightarrow> bc' = 0 \<Longrightarrow> bs' = -1"
  by (induction es "0::nat" i bc bs rule: get_start_block_loop.induct)
     (auto simp: Let_def split: if_splits)

lemma heap_get_start_block_zero: "heap_get_start_block h 0 < 0"
  using get_start_block_loop_zero [of "heap_entries h" 0 0 "-1"]
  by (auto simp: heap_get_start_block_def split: prod.splits)

lemma sint_word_of_int_small:
  assumes "0 \<le> k" "k < 2 ^ 63"
  shows "sint (word_of_int k :: u64) = k"
proof -
  have "- (2 ^ 63) \<le> k" using assms by simp
  then show ?thesis using assms by (simp add: sint_uint uint_word_of_int take_bit_int_eq_self signed_take_bit_int_eq_self)
qed

lemma heap_address_to_block_to_address:
  assumes "0 \<le> b" "b < 2 ^ 51"
  shows "heap_address_to_block h (heap_block_to_address h b) = b"
proof -
  have "sint (word_of_int (b * 4096) :: u64) = b * 4096"
    by (rule sint_word_of_int_small) (use assms in auto)
  then show ?thesis
    using assms(1) unfolding heap_address_to_block_def heap_block_to_address_def
    by (simp only: add_diff_cancel_left' signed_divide_int_def)
       (simp add: sgn_mult abs_mult sgn_if)
qed

declare mark_blocks_taken_loop.simps [simp del] mark_blocks_free_loop.simps [simp del]
  is_block_range_free_loop.simps [simp del] allocation_block_count_loop.simps [simp del]
  extend_loop.simps [simp del]

definition marked :: "u8 list \<Rightarrow> int \<Rightarrow> int \<Rightarrow> u8 \<Rightarrow> u8 list" where
  "marked es i e entry =
     map (\<lambda>k. if int k = i \<and> i \<le> e then entry
              else if i < int k \<and> int k \<le> e then HEAP_BLOCK_TABLE_ENTRY_TAKEN OR HEAP_BLOCK_HAS_NEXT
              else es ! k) [0..<length es]"

lemma length_marked [simp]: "length (marked es i e entry) = length es"
  by (simp add: marked_def)

lemma nth_marked:
  "k < length es \<Longrightarrow> marked es i e entry ! k =
     (if int k = i \<and> i \<le> e then entry
      else if i < int k \<and> int k \<le> e then HEAP_BLOCK_TABLE_ENTRY_TAKEN OR HEAP_BLOCK_HAS_NEXT
      else es ! k)"
  by (simp add: marked_def)

lemma marked_step:
  assumes "0 \<le> i" "i \<le> e"
  shows "marked (es[nat i := x]) (i + 1) e
           (if i \<noteq> e then HEAP_BLOCK_TABLE_ENTRY_TAKEN OR HEAP_BLOCK_HAS_NEXT
            else HEAP_BLOCK_TABLE_ENTRY_TAKEN) = marked es i e x"
  using assms by (auto simp: list_eq_iff_nth_eq nth_marked nth_list_update)

lemma marked_empty: "e < i \<Longrightarrow> marked es i e x = es"
  by (auto simp: list_eq_iff_nth_eq nth_marked)

lemma mark_blocks_taken_loop_eq:
  assumes "0 \<le> i" "e < int (length (heap_entries h))"
  shows "mark_blocks_taken_loop h e i entry =
    Some (h\<lparr>heap_entries := marked (heap_entries h) i e entry,
            heap_calls := heap_calls h @
              (if block_allocated_callback h
               then map (\<lambda>b. Block_allocated (heap_block_to_address h b) PEACHOS_HEAP_BLOCK_SIZE) [i..e]
               else [])\<rparr>)"
  using assms
proof (induction h e i entry rule: mark_blocks_taken_loop.induct)
  case (1 h e i entry)
  show ?case
  proof (cases "i \<le> e")
    case False
    then show ?thesis
      by (subst mark_blocks_taken_loop.simps) (simp add: marked_empty)
  next
    case True
    have set: "table_set (heap_entries h) i entry = Some ((heap_entries h)[nat i := entry])"
      using "1.prems" True by (simp add: table_set_def)
    show ?thesis
      using "1.IH" [OF True set refl refl] "1.prems" True set
      by (subst mark_blocks_taken_loop.simps)
         (simp add: marked_step upto_rec1 heap_block_to_address_def)
  qed
qed

text \<open>The number of blocks a walk along the \<open>HAS_NEXT\<close> flags visits from block \<open>i\<close> on.\<close>

function chain_len :: "u8 list \<Rightarrow> nat \<Rightarrow> nat" where
  "chain_len es i =
     (if i < length es then
        if es ! i AND HEAP_BLOCK_HAS_NEXT = 0 then 1 else Suc (chain_len es (Suc i))
      else 0)"
  by pat_completeness auto
termination by (relation "measure (\<lambda>(es, i). length es - i)") auto

declare chain_len.simps [simp del]

lemma chain_len_bound: "i \<le> length es \<Longrightarrow> i + chain_len es i \<le> length es"
  by (induction es i rule: chain_len.induct) (simp add: chain_len.simps [of _ i for i])

lemma chain_len_update: "j < i \<Longrightarrow> chain_len (es[j := x]) i = chain_len es i"
proof (induction es i rule: chain_len.induct)
  case (1 es i)
  then show ?case by (simp add: chain_len.simps [of _ i])
qed

definition cleared :: "u8 list \<Rightarrow> nat \<Rightarrow> nat \<Rightarrow> u8 list" where
  "cleared es i k =
     map (\<lambda>j. if i \<le> j \<and> j < i + k then HEAP_BLOCK_TABLE_ENTRY_FREE else es ! j) [0..<length es]"

lemma length_cleared [simp]: "length (cleared es i k) = length es"
  by (simp add: cleared_def)

lemma nth_cleared:
  "j < length es \<Longrightarrow> cleared es i k ! j =
     (if i \<le> j \<and> j < i + k then HEAP_BLOCK_TABLE_ENTRY_FREE else es ! j)"
  by (simp add: cleared_def)

lemma cleared_step: "cleared (es[i := HEAP_BLOCK_TABLE_ENTRY_FREE]) (Suc i) k = cleared es i (Suc k)"
  by (auto simp: list_eq_iff_nth_eq nth_cleared nth_list_update)

lemma mark_blocks_free_loop_eq:
  assumes "i \<le> length (heap_entries h)" "tot = length (heap_entries h)"
  shows "mark_blocks_free_loop h (int i) freed tot =
    Some (h\<lparr>heap_entries := cleared (heap_entries h) i (chain_len (heap_entries h) i),
            heap_calls := heap_calls h @
              (if block_free_callback h
               then map (\<lambda>b. Block_freed (heap_block_to_address h b))
                      [int i..int (i + chain_len (heap_entries h) i) - 1]
               else [])\<rparr>,
          freed + chain_len (heap_entries h) i)"
  using assms
proof (induction "tot - i" arbitrary: h i freed)
  case 0
  then have "chain_len (heap_entries h) i = 0" by (simp add: chain_len.simps)
  moreover have "cleared (heap_entries h) i 0 = heap_entries h"
    by (auto simp: list_eq_iff_nth_eq nth_cleared)
  ultimately show ?case using 0 by (subst mark_blocks_free_loop.simps) simp
next
  case (Suc d)
  let ?es = "heap_entries h"
  let ?h = "h\<lparr>heap_entries := ?es[i := HEAP_BLOCK_TABLE_ENTRY_FREE],
      heap_calls := (if block_free_callback h
         then heap_calls h @ [Block_freed (heap_block_to_address h (int i))] else heap_calls h)\<rparr>"
  have i: "i < length ?es" using Suc by simp
  have acc: "table_get ?es (int i) = Some (?es ! i)"
    "table_set ?es (int i) HEAP_BLOCK_TABLE_ENTRY_FREE = Some (?es[i := HEAP_BLOCK_TABLE_ENTRY_FREE])"
    using i by (simp_all add: table_get_def table_set_def)
  have unfold: "mark_blocks_free_loop h (int i) freed tot =
      (if ?es ! i AND HEAP_BLOCK_HAS_NEXT = 0 then Some (?h, Suc freed)
       else mark_blocks_free_loop ?h (int (Suc i)) (Suc freed) tot)"
    using i acc Suc.prems by (subst mark_blocks_free_loop.simps) (simp add: Let_def add.commute)
  show ?case
  proof (cases "?es ! i AND HEAP_BLOCK_HAS_NEXT = 0")
    case True
    then have "chain_len ?es i = 1" using i by (simp add: chain_len.simps)
    moreover have "cleared ?es i 1 = ?es[i := HEAP_BLOCK_TABLE_ENTRY_FREE]"
      using i by (auto simp: list_eq_iff_nth_eq nth_cleared nth_list_update)
    ultimately show ?thesis using unfold True by simp
  next
    case False
    then have c: "chain_len ?es i = Suc (chain_len ?es (Suc i))"
      using i by (simp add: chain_len.simps [of _ i])
    have "mark_blocks_free_loop ?h (int (Suc i)) (Suc freed) tot =
      Some (?h\<lparr>heap_entries := cleared (heap_entries ?h) (Suc i) (chain_len (heap_entries ?h) (Suc i)),
            heap_calls := heap_calls ?h @
              (if block_free_callback ?h
               then map (\<lambda>b. Block_freed (heap_block_to_address ?h b))
                      [int (Suc i)..int (Suc i + chain_len (heap_entries ?h) (Suc i)) - 1]
               else [])\<rparr>,
          Suc freed + chain_len (heap_entries ?h) (Suc i))"
      by (rule Suc.hyps(1)) (use Suc i in auto)
    then show ?thesis
      using unfold False
      by (simp add: c chain_len_update cleared_step heap_block_to_address_def upto_rec1 add.commute)
  qed
qed

subsection \<open>The table and the allocations it records\<close>

definition entry_ok :: "nat \<Rightarrow> nat \<Rightarrow> u8 \<Rightarrow> bool" where
  "entry_ok n j e \<longleftrightarrow>
     e = (HEAP_BLOCK_TABLE_ENTRY_TAKEN OR (if j = 0 then HEAP_BLOCK_IS_FIRST else 0)
          OR (if Suc j < n then HEAP_BLOCK_HAS_NEXT else 0))
     \<or> 0 < j \<and> Suc j = n \<and> e = HEAP_BLOCK_TABLE_ENTRY_TAKEN OR HEAP_BLOCK_HAS_NEXT"

lemma entry_ok_facts:
  assumes "entry_ok n j e"
  shows "e AND HEAP_BLOCK_TABLE_ENTRY_TAKEN \<noteq> 0" and "\<not> block_free e"
    and "Suc j < n \<Longrightarrow> e AND HEAP_BLOCK_HAS_NEXT \<noteq> 0"
    and "n = 1 \<Longrightarrow> j = 0 \<Longrightarrow> e AND HEAP_BLOCK_HAS_NEXT = 0"
  using assms by (auto simp: entry_ok_def block_free_def heap_get_entry_type_def split: if_splits)

type_synonym allocs = "nat \<rightharpoonup> nat"

definition covered :: "allocs \<Rightarrow> nat \<Rightarrow> bool" where
  "covered A i \<longleftrightarrow> (\<exists>b n. A b = Some n \<and> b \<le> i \<and> i < b + n)"

definition heap_rep :: "allocs \<Rightarrow> u8 list \<Rightarrow> bool" where
  "heap_rep A es \<longleftrightarrow>
     (\<forall>b n. A b = Some n \<longrightarrow> 0 < n \<and> b + n \<le> length es \<and> (\<forall>j<n. entry_ok n j (es ! (b + j)))) \<and>
     (\<forall>b n b' n'. A b = Some n \<longrightarrow> A b' = Some n' \<longrightarrow> b < b' \<longrightarrow> b + n \<le> b') \<and>
     (\<forall>i<length es. \<not> covered A i \<longrightarrow> es ! i = HEAP_BLOCK_TABLE_ENTRY_FREE)"

lemma heap_repD:
  assumes "heap_rep A es" "A b = Some n"
  shows "0 < n" "b + n \<le> length es" "j < n \<Longrightarrow> entry_ok n j (es ! (b + j))"
    "b \<le> i \<Longrightarrow> i < b + n \<Longrightarrow> entry_ok n (i - b) (es ! i)"
proof -
  have ok: "\<And>j. j < n \<Longrightarrow> entry_ok n j (es ! (b + j))"
    using assms unfolding heap_rep_def by blast
  show "0 < n" "b + n \<le> length es" using assms unfolding heap_rep_def by blast+
  show "j < n \<Longrightarrow> entry_ok n j (es ! (b + j))" by (rule ok)
  show "b \<le> i \<Longrightarrow> i < b + n \<Longrightarrow> entry_ok n (i - b) (es ! i)" using ok [of "i - b"] by simp
qed

lemma heap_rep_free_iff:
  assumes "heap_rep A es" "i < length es"
  shows "block_free (es ! i) \<longleftrightarrow> \<not> covered A i"
proof
  assume f: "block_free (es ! i)"
  show "\<not> covered A i"
  proof
    assume "covered A i"
    then obtain b n where "A b = Some n" "b \<le> i" "i < b + n" by (auto simp: covered_def)
    then have "entry_ok n (i - b) (es ! i)" using assms(1) heap_repD(4) by blast
    then show False using f entry_ok_facts(2) by blast
  qed
next
  assume "\<not> covered A i"
  then show "block_free (es ! i)"
    using assms by (simp add: heap_rep_def block_free_def heap_get_entry_type_def)
qed

lemma heap_rep_disjoint:
  assumes "heap_rep A es" "A b = Some n" "A b' = Some n'" "b \<noteq> b'"
  shows "b + n \<le> b' \<or> b' + n' \<le> b"
  using assms by (auto simp: heap_rep_def neq_iff)

text \<open>A chain walk over an allocation visits its blocks, and goes on when the last one has a next.\<close>

lemma chain_len_allocation:
  assumes "b + n \<le> length es" "\<forall>j<n. entry_ok n j (es ! (b + j))" "k < n"
  shows "chain_len es (b + k) =
           (if es ! (b + n - 1) AND HEAP_BLOCK_HAS_NEXT = 0 then n - k
            else n - k + chain_len es (b + n))"
  using assms(3)
proof (induction "n - k" arbitrary: k)
  case 0
  then show ?case by simp
next
  case (Suc d)
  have ok: "entry_ok n k (es ! (b + k))" "b + k < length es" using assms Suc.prems by auto
  show ?case
  proof (cases "Suc k < n")
    case True
    moreover have "d = n - Suc k" using Suc.hyps(2) by simp
    moreover have "\<And>x. Suc (n + x - Suc k) = n + x - k" "\<And>x. Suc (x + n - Suc k) = x + n - k"
        "Suc (n - Suc k) = n - k"
      using True by simp_all
    ultimately show ?thesis
      using Suc.hyps(1) [of "Suc k"] ok entry_ok_facts(3) [OF ok(1)]
      by (simp add: chain_len.simps [of es "b + k"])
  next
    case False
    then have n: "n = Suc k" using Suc.prems by simp
    show ?thesis using ok by (simp add: n chain_len.simps [of es "b + k"])
  qed
qed

lemma count_allocation:
  assumes "b + n \<le> length es" "\<forall>j<n. entry_ok n j (es ! (b + j))" "k < n"
  shows "allocation_block_count_loop es (b + k) c =
           (if es ! (b + n - 1) AND HEAP_BLOCK_HAS_NEXT = 0 then c + (n - k)
            else allocation_block_count_loop es (b + n) (c + (n - k)))"
  using assms(3)
proof (induction "n - k" arbitrary: k c)
  case 0
  then show ?case by simp
next
  case (Suc d)
  have ok: "entry_ok n k (es ! (b + k))" "b + k < length es" using assms Suc.prems by auto
  show ?case
  proof (cases "Suc k < n")
    case True
    moreover have "d = n - Suc k" using Suc.hyps(2) by simp
    moreover have "\<And>x. Suc (n + x - Suc k) = n + x - k" "\<And>x. Suc (x + n - Suc k) = x + n - k"
        "Suc (n - Suc k) = n - k"
      using True by simp_all
    ultimately show ?thesis
      using Suc.hyps(1) [of "Suc k" "Suc c"] ok entry_ok_facts(1,3) [OF ok(1)]
      by (simp add: allocation_block_count_loop.simps [of es "b + k"] Let_def)
  next
    case False
    then have n: "n = Suc k" using Suc.prems by simp
    show ?thesis using ok entry_ok_facts(1) [OF ok(1)]
      by (simp add: n allocation_block_count_loop.simps [of es "b + k"] Let_def)
  qed
qed

subsection \<open>malloc and free on the table\<close>

lemma free_runD: "free_run es n b \<Longrightarrow> b \<le> i \<Longrightarrow> i < b + n \<Longrightarrow> block_free (es ! i)"
  unfolding free_run_def by (metis le_add_diff_inverse nat_add_left_cancel_less)

lemma coveredI: "A b = Some n \<Longrightarrow> b \<le> i \<Longrightarrow> i < b + n \<Longrightarrow> covered A i"
  by (auto simp: covered_def)

lemma coveredE:
  assumes "covered A i"
  obtains b n where "A b = Some n" "b \<le> i" "i < b + n"
  using assms by (auto simp: covered_def)

lemma heap_rep_marked:
  assumes rep: "heap_rep A es" and run: "free_run es n b" and "0 < n"
  shows "heap_rep (A(b \<mapsto> n)) (marked es (int b) (int (b + n) - 1)
           (if n > 1 then HEAP_BLOCK_TABLE_ENTRY_TAKEN OR HEAP_BLOCK_IS_FIRST OR HEAP_BLOCK_HAS_NEXT
            else HEAP_BLOCK_TABLE_ENTRY_TAKEN OR HEAP_BLOCK_IS_FIRST))"
    (is "heap_rep ?A ?es")
proof -
  have len: "b + n \<le> length es" using run by (simp add: free_run_def)
  have unc: "\<not> covered A i" if "b \<le> i" "i < b + n" for i
    using free_runD [OF run that] heap_rep_free_iff [OF rep, of i] that len by simp
  have same: "?es ! i = es ! i" if "i < length es" "i < b \<or> b + n \<le> i" for i
    using that by (auto simp: nth_marked)
  have far: "b' + n' \<le> b \<or> b + n \<le> b'" if "A b' = Some n'" for b' n'
  proof (rule ccontr)
    assume "\<not> ?thesis"
    then have o: "b < b' + n'" "b' < b + n" by auto
    have "covered A (max b b')"
      using coveredI [of A b' n' "max b b'"] that o heap_repD(1) [OF rep that] by auto
    then show False using unc [of "max b b'"] o assms(3) by auto
  qed
  show ?thesis
    unfolding heap_rep_def
  proof (intro conjI allI impI)
    fix b' n' assume A': "?A b' = Some n'"
    show "0 < n'" "b' + n' \<le> length ?es"
      using A' len assms(3) heap_repD [OF rep, of b' n'] by (auto split: if_splits)
    fix j assume j: "j < n'"
    show "entry_ok n' j (?es ! (b' + j))"
    proof (cases "b' = b")
      case True
      then show ?thesis using A' j len by (auto simp: entry_ok_def nth_marked)
    next
      case False
      then have a: "A b' = Some n'" using A' by simp
      have "?es ! (b' + j) = es ! (b' + j)"
        using far [OF a] j heap_repD(2) [OF rep a] by (intro same) auto
      then show ?thesis using heap_repD(3) [OF rep a j] by simp
    qed
  next
    fix b1 n1 b2 n2
    assume "?A b1 = Some n1" "?A b2 = Some n2" "b1 < b2"
    then show "b1 + n1 \<le> b2"
      using far heap_rep_disjoint [OF rep, of b1 n1 b2 n2] heap_repD(1) [OF rep, of b1] heap_repD(1) [OF rep, of b2]
        assms(3) by (auto split: if_splits) fastforce+
  next
    fix i assume i: "i < length ?es" "\<not> covered ?A i"
    have "\<not> (b \<le> i \<and> i < b + n)" using i(2) by (auto simp: covered_def)
    moreover have "\<not> covered A i"
    proof
      assume "covered A i"
      then obtain b' n' where c: "A b' = Some n'" "b' \<le> i" "i < b' + n'" by (rule coveredE)
      then have "b' \<noteq> b" using unc [of b] assms(3) coveredI [of A b' n' b] by auto
      then show False using i(2) c coveredI [of ?A b' n' i] by simp
    qed
    ultimately show "?es ! i = HEAP_BLOCK_TABLE_ENTRY_FREE"
      using i(1) same [of i] rep by (auto simp: heap_rep_def not_le not_less)
  qed
qed

lemma heap_rep_cleared:
  assumes rep: "heap_rep A es" and "A b = Some n"
  shows "heap_rep (A(b := None)) (cleared es b n)"
  unfolding heap_rep_def
proof (intro conjI allI impI)
  fix b' n' assume "(A(b := None)) b' = Some n'"
  then have a: "A b' = Some n'" "b' \<noteq> b" by (auto split: if_splits)
  show "0 < n'" "b' + n' \<le> length (cleared es b n)" using heap_repD [OF rep a(1)] by auto
  fix j assume j: "j < n'"
  have "cleared es b n ! (b' + j) = es ! (b' + j)"
    using heap_rep_disjoint [OF rep a(1) assms(2) a(2)] heap_repD(2) [OF rep a(1)] j
    by (auto simp: nth_cleared)
  then show "entry_ok n' j (cleared es b n ! (b' + j))" using heap_repD(3) [OF rep a(1) j] by simp
next
  fix b1 n1 b2 n2
  assume "(A(b := None)) b1 = Some n1" "(A(b := None)) b2 = Some n2" "b1 < b2"
  then show "b1 + n1 \<le> b2" using rep by (auto simp: heap_rep_def split: if_splits)
next
  fix i assume i: "i < length (cleared es b n)" "\<not> covered (A(b := None)) i"
  show "cleared es b n ! i = HEAP_BLOCK_TABLE_ENTRY_FREE"
  proof (cases "covered A i")
    case True
    then obtain b' n' where c: "A b' = Some n'" "b' \<le> i" "i < b' + n'" by (rule coveredE)
    then have "b' = b" using i(2) coveredI [of "A(b := None)" b' n' i] by (cases "b' = b") auto
    then show ?thesis using c assms(2) i(1) by (simp add: nth_cleared)
  next
    case False
    then show ?thesis using rep i(1) by (auto simp: nth_cleared heap_rep_def)
  qed
qed

definition malloc_result :: "heap \<Rightarrow> nat \<Rightarrow> nat \<Rightarrow> heap" where
  "malloc_result h n b =
     h\<lparr>heap_entries := marked (heap_entries h) (int b) (int (b + n) - 1)
         (if n > 1 then HEAP_BLOCK_TABLE_ENTRY_TAKEN OR HEAP_BLOCK_IS_FIRST OR HEAP_BLOCK_HAS_NEXT
          else HEAP_BLOCK_TABLE_ENTRY_TAKEN OR HEAP_BLOCK_IS_FIRST),
       used_blocks := used_blocks h + of_nat n, free_blocks := free_blocks h - of_nat n,
       heap_calls := heap_calls h @
         (if block_allocated_callback h
          then map (\<lambda>k. Block_allocated (heap_block_to_address h k) PEACHOS_HEAP_BLOCK_SIZE)
                 [int b..int (b + n) - 1]
          else [])\<rparr>"

lemma malloc_result_simps [simp]:
  "saddr (malloc_result h n b) = saddr h" "eaddr (malloc_result h n b) = eaddr h"
  "length (heap_entries (malloc_result h n b)) = length (heap_entries h)"
  "used_blocks (malloc_result h n b) = used_blocks h + of_nat n"
  "free_blocks (malloc_result h n b) = free_blocks h - of_nat n"
  "heap_block_to_address (malloc_result h n b) = heap_block_to_address h"
  "heap_address_to_block (malloc_result h n b) = heap_address_to_block h"
  by (simp_all add: malloc_result_def heap_block_to_address_def heap_address_to_block_def fun_eq_iff)

lemma heap_malloc_blocks_found:
  assumes "0 < n" "free_run (heap_entries h) n b" "\<forall>b'<b. \<not> free_run (heap_entries h) n b'"
  shows "heap_malloc_blocks h n = Some (malloc_result h n b, heap_block_to_address h (int b))"
proof -
  have s: "heap_get_start_block h n = int b"
  proof (rule disjE [OF heap_get_start_block_cases [OF assms(1), of h]])
    assume "\<exists>b. heap_get_start_block h n = int b \<and> free_run (heap_entries h) n b \<and>
        (\<forall>b'<b. \<not> free_run (heap_entries h) n b')"
    then show ?thesis using assms(2,3) by (metis linorder_neqE_nat)
  qed (use assms(2) in auto)
  have "int b + int n - 1 < int (length (heap_entries h))"
    using assms(2) by (simp add: free_run_def)
  then show ?thesis
    using assms(1) s
    by (simp add: heap_malloc_blocks_def heap_mark_blocks_taken_def mark_blocks_taken_loop_eq
        malloc_result_def Let_def)
qed

lemma heap_malloc_blocks_none:
  assumes "n = 0 \<or> (\<forall>b. \<not> free_run (heap_entries h) n b)"
  shows "heap_malloc_blocks h n = Some (h, 0)"
proof -
  have "heap_get_start_block h n < 0"
  proof (cases "n = 0")
    case True
    then show ?thesis by (simp add: heap_get_start_block_zero)
  next
    case False
    then show ?thesis using heap_get_start_block_cases [of n h] assms by auto
  qed
  then show ?thesis by (simp add: heap_malloc_blocks_def)
qed

lemma heap_malloc_blocks_cases:
  obtains (found) b where "0 < n" "free_run (heap_entries h) n b"
      "\<forall>b'<b. \<not> free_run (heap_entries h) n b'"
      "heap_malloc_blocks h n = Some (malloc_result h n b, heap_block_to_address h (int b))"
  | (none) "n = 0 \<or> (\<forall>b. \<not> free_run (heap_entries h) n b)" "heap_malloc_blocks h n = Some (h, 0)"
proof (cases "n = 0 \<or> (\<forall>b. \<not> free_run (heap_entries h) n b)")
  case True
  then show ?thesis using none heap_malloc_blocks_none by blast
next
  case False
  then have "free_run (heap_entries h) n (LEAST b. free_run (heap_entries h) n b)"
    "\<forall>b'<(LEAST b. free_run (heap_entries h) n b). \<not> free_run (heap_entries h) n b'"
    by (auto intro: LeastI dest: not_less_Least)
  then show ?thesis using found False heap_malloc_blocks_found by blast
qed

lemma heap_rep_malloc_result:
  "heap_rep A (heap_entries h) \<Longrightarrow> free_run (heap_entries h) n b \<Longrightarrow> 0 < n \<Longrightarrow>
   heap_rep (A(b \<mapsto> n)) (heap_entries (malloc_result h n b))"
  using heap_rep_marked [of A "heap_entries h" n b] by (simp add: malloc_result_def)

subsection \<open>Well-formed heaps and release\<close>

subsection \<open>Alignment and addresses\<close>

definition blocks_for :: "u64 \<Rightarrow> nat" where
  "blocks_for sz = unat (heap_align_value_to_upper sz div PEACHOS_HEAP_BLOCK_SIZE)"

lemma unat_align_upper:
  assumes "unat sz \<le> 2 ^ 64 - 4096"
  shows "unat (heap_align_value_to_upper sz) = (unat sz + 4095) div 4096 * 4096"
proof -
  have m: "unat (sz mod 4096) = unat sz mod 4096" by (simp add: unat_mod)
  show ?thesis
  proof (cases "sz mod 4096 = 0")
    case True
    then have "unat sz mod 4096 = 0" using m by simp
    then obtain q where q: "unat sz = 4096 * q" by auto
    have "(unat sz + 4095) div 4096 = q" using q by simp
    then show ?thesis using True q by (simp add: heap_align_value_to_upper_def)
  next
    case False
    then have ne: "unat sz mod 4096 \<noteq> 0" using m by (metis unat_0_iff)
    define q r where "q = unat sz div 4096" and "r = unat sz mod 4096"
    have sz: "unat sz = 4096 * q + r" "0 < r" "r < 4096"
      using ne by (auto simp: q_def r_def)
    have sub: "unat (sz - sz mod 4096) = 4096 * q"
    proof -
      have "sz mod 4096 \<le> sz" using m by (simp add: word_le_nat_alt)
      then have "unat (sz - sz mod 4096) = unat sz - unat (sz mod 4096)" by (rule unat_sub)
      also have "\<dots> = unat sz - unat sz mod 4096" by (simp only: m)
      also have "\<dots> = 4096 * q" by (simp only: q_def minus_mod_eq_mult_div)
      finally show ?thesis .
    qed
    have "unat (sz - sz mod 4096 + 4096) = 4096 * q + 4096"
    proof -
      have c: "unat (4096 :: u64) = 4096" by simp
      have "4096 * q + 4096 < 2 ^ 64" using assms sz by linarith
      then have "unat (sz - sz mod 4096) + unat (4096 :: u64) < 2 ^ LENGTH(64)"
        unfolding sub c by simp
      then have "unat (sz - sz mod 4096 + 4096) = unat (sz - sz mod 4096) + unat (4096 :: u64)"
        by (simp only: unat_add_lem)
      then show ?thesis unfolding sub c .
    qed
    moreover have "(unat sz + 4095) div 4096 = q + 1" using sz by auto
    ultimately show ?thesis using False by (simp add: heap_align_value_to_upper_def)
  qed
qed

lemma unat_align_upper_eq:
  assumes "unat sz \<le> 2 ^ 64 - 4096"
  shows "unat (heap_align_value_to_upper sz) = blocks_for sz * 4096"
  using unat_align_upper [OF assms] by (simp add: blocks_for_def unat_div)

lemma blocks_for_eq:
  assumes "unat sz \<le> 2 ^ 64 - 4096"
  shows "blocks_for sz = (unat sz + 4095) div 4096"
  using unat_align_upper [OF assms] by (simp add: blocks_for_def unat_div)

lemma blocks_for_pos: "sz \<noteq> 0 \<Longrightarrow> unat sz \<le> 2 ^ 64 - 4096 \<Longrightarrow> 0 < blocks_for sz"
  by (simp add: blocks_for_eq unat_gt_0 [symmetric] div_greater_zero_iff)

lemma align_upper_idem:
  assumes "unat sz \<le> 2 ^ 64 - 4096"
  shows "heap_align_value_to_upper (heap_align_value_to_upper sz) = heap_align_value_to_upper sz"
proof -
  have "unat (heap_align_value_to_upper sz mod 4096) = 0"
    using unat_align_upper [OF assms] by (simp add: unat_mod)
  then have "heap_align_value_to_upper sz mod 4096 = 0" by (simp add: unat_0_iff)
  then show ?thesis by (subst heap_align_value_to_upper_def) simp
qed

definition heap_wf :: "heap \<Rightarrow> bool" where
  "heap_wf h \<longleftrightarrow> 0 < saddr h \<and> unat (saddr h) + length (heap_entries h) * 4096 < 2 ^ 63
     \<and> eaddr h = saddr h + of_nat (length (heap_entries h) * 4096)"

definition same_pool :: "heap \<Rightarrow> heap \<Rightarrow> bool" where
  "same_pool h h' \<longleftrightarrow> saddr h' = saddr h \<and> eaddr h' = eaddr h
     \<and> length (heap_entries h') = length (heap_entries h)
     \<and> block_free_callback h' = block_free_callback h
     \<and> block_allocated_callback h' = block_allocated_callback h"

lemma same_pool_refl [simp]: "same_pool h h"
  by (simp add: same_pool_def)

lemma same_pool_trans: "same_pool h h' \<Longrightarrow> same_pool h' h'' \<Longrightarrow> same_pool h h''"
  by (simp add: same_pool_def)

lemma same_pool_malloc_result [simp]: "same_pool h (malloc_result h n b)"
  by (simp add: same_pool_def malloc_result_def)

lemma same_pool_wf: "same_pool h h' \<Longrightarrow> heap_wf h' \<longleftrightarrow> heap_wf h"
  by (simp add: same_pool_def heap_wf_def)

lemma same_pool_addr: "same_pool h h' \<Longrightarrow> heap_block_to_address h' = heap_block_to_address h"
  by (auto simp: same_pool_def heap_block_to_address_def)

lemma block_addr_offset: "heap_block_to_address h (int b) = saddr h + of_nat (b * 4096)"
  by (simp add: heap_block_to_address_def)

lemma unat_block_addr:
  assumes "heap_wf h" "b \<le> length (heap_entries h)"
  shows "unat (heap_block_to_address h (int b)) = unat (saddr h) + b * 4096"
  using assms unfolding heap_wf_def block_addr_offset
  by (subst unat_add_lem [THEN iffD1]) (auto simp del: of_nat_mult)

lemma block_addr_neq_0 [simp]:
  assumes "heap_wf h" "b \<le> length (heap_entries h)"
  shows "heap_block_to_address h (int b) \<noteq> 0"
proof
  assume "heap_block_to_address h (int b) = 0"
  then have "unat (saddr h) + b * 4096 = 0" using unat_block_addr [OF assms] by simp
  then show False using assms(1) by (simp add: heap_wf_def unat_0_iff word_less_nat_alt)
qed

lemma block_of_addr [simp]:
  assumes "heap_wf h" "b \<le> length (heap_entries h)"
  shows "heap_address_to_block h (heap_block_to_address h (int b)) = int b"
  by (rule heap_address_to_block_to_address) (use assms in \<open>auto simp: heap_wf_def\<close>)

lemma separate_blocks:
  assumes "heap_wf h" "b + n \<le> length (heap_entries h)" "b' + n' \<le> length (heap_entries h)"
    and "b + n \<le> b' \<or> b' + n' \<le> b"
  shows "separate (heap_block_to_address h (int b)) (n * 4096)
           (heap_block_to_address h (int b')) (n' * 4096)"
proof -
  have "saddr h + of_nat (b * 4096 + i) \<noteq> saddr h + of_nat (b' * 4096 + j)"
    if "i < n * 4096" "j < n' * 4096" for i j
  proof -
    have "b * 4096 + i < 2 ^ 64" "b' * 4096 + j < 2 ^ 64"
      using that assms(1-3) by (auto simp: heap_wf_def)
    moreover have "b * 4096 + i \<noteq> b' * 4096 + j" using that assms(4) by auto
    ultimately show ?thesis by (simp only: offset_eq_iff not_False_eq_True)
  qed
  then show ?thesis unfolding separate_def block_addr_offset by (simp add: add.assoc)
qed

subsection \<open>Release\<close>

text \<open>
  A walk along the chain of \<open>b\<close> stays in the allocation when its last block has no
  \<open>HAS_NEXT\<close> flag, or when no allocation starts right behind it.
\<close>

definition contained :: "allocs \<Rightarrow> u8 list \<Rightarrow> nat \<Rightarrow> nat \<Rightarrow> bool" where
  "contained A es b n \<longleftrightarrow> es ! (b + n - 1) AND HEAP_BLOCK_HAS_NEXT = 0 \<or> \<not> covered A (b + n)"

lemma chain_len_contained:
  assumes rep: "heap_rep A es" and A: "A b = Some n" and "contained A es b n" "k < n"
  shows "chain_len es (b + k) =
     (if es ! (b + n - 1) AND HEAP_BLOCK_HAS_NEXT = 0 \<or> b + n = length es then n - k
      else Suc (n - k))"
proof -
  have "chain_len es (b + n) = (if b + n = length es then 0 else 1)"
    if "\<not> covered A (b + n)"
    using rep that heap_repD(2) [OF rep A]
    by (auto simp: chain_len.simps [of es "b + n"] heap_rep_def)
  then show ?thesis
    using assms(3) chain_len_allocation [of b n es k] heap_repD [OF rep A] assms(4)
    by (auto simp: contained_def)
qed

lemma count_contained:
  assumes rep: "heap_rep A es" and A: "A b = Some n" and "contained A es b n"
  shows "allocation_block_count_loop es b 0 = n"
proof -
  have "allocation_block_count_loop es (b + n) n = n" if "\<not> covered A (b + n)"
    using rep that heap_repD(2) [OF rep A]
    by (auto simp: allocation_block_count_loop.simps [of es "b + n"] heap_rep_def)
  then show ?thesis
    using assms(3) count_allocation [of b n es 0 0] heap_repD [OF rep A]
    by (auto simp: contained_def)
qed

lemma cleared_contained:
  assumes rep: "heap_rep A es" and A: "A b = Some n" and c: "contained A es b n" and "k < n"
  shows "cleared es (b + k) (chain_len es (b + k)) = cleared es (b + k) (n - k)"
proof (cases "es ! (b + n - 1) AND HEAP_BLOCK_HAS_NEXT = 0 \<or> b + n = length es")
  case True
  then show ?thesis using chain_len_contained [OF assms] by simp
next
  case False
  then have "\<not> covered A (b + n)" "b + n < length es"
    using c heap_repD(2) [OF rep A] by (auto simp: contained_def)
  then have "es ! (b + n) = HEAP_BLOCK_TABLE_ENTRY_FREE" using rep by (auto simp: heap_rep_def)
  moreover have "b + k + Suc (n - k) = Suc (b + n)" using assms(4) by simp
  ultimately show ?thesis
    using chain_len_contained [OF assms] False assms(4)
    by (auto simp: list_eq_iff_nth_eq nth_cleared less_Suc_eq)
qed

lemma heap_mark_blocks_free_eq:
  assumes "i \<le> length (heap_entries h)"
  shows "\<exists>h'. heap_mark_blocks_free h (int i) = Some h' \<and> same_pool h h' \<and>
    heap_entries h' = cleared (heap_entries h) i (chain_len (heap_entries h) i) \<and>
    used_blocks h' = used_blocks h - of_nat (chain_len (heap_entries h) i) \<and>
    free_blocks h' = free_blocks h + of_nat (chain_len (heap_entries h) i)"
  using assms
  by (simp add: heap_mark_blocks_free_def mark_blocks_free_loop_eq same_pool_def)

lemma heap_free_contained:
  assumes wf: "heap_wf h" and rep: "heap_rep A (heap_entries h)" and A: "A b = Some n"
    and c: "contained A (heap_entries h) b n"
  shows "\<exists>h'. heap_free h (heap_block_to_address h (int b)) = Some h' \<and> same_pool h h' \<and>
    heap_rep (A(b := None)) (heap_entries h') \<and>
    used_blocks h' = used_blocks h - of_nat (chain_len (heap_entries h) b) \<and>
    free_blocks h' = free_blocks h + of_nat (chain_len (heap_entries h) b)"
proof -
  have b: "b \<le> length (heap_entries h)" "0 < n" using heap_repD [OF rep A] by auto
  then show ?thesis
    using heap_mark_blocks_free_eq [OF b(1)] cleared_contained [OF rep A c, of 0]
      heap_rep_cleared [OF rep A] wf
    by (auto simp: heap_free_def)
qed

subsection \<open>Reallocation\<close>

subsection \<open>Reallocation\<close>

lemma heap_rep_resize:
  assumes rep: "heap_rep A es" and A: "A b = Some n" and k: "0 < k" "b + k \<le> length es"
    and len: "length es' = length es"
    and ok: "\<And>j. j < k \<Longrightarrow> entry_ok k j (es' ! (b + j))"
    and ext: "\<And>i. b + n \<le> i \<Longrightarrow> i < b + k \<Longrightarrow> \<not> covered A i"
    and out: "\<And>i. i < length es \<Longrightarrow> i < b \<or> b + max n k \<le> i \<Longrightarrow> es' ! i = es ! i"
    and tail: "\<And>i. b + k \<le> i \<Longrightarrow> i < b + n \<Longrightarrow> es' ! i = HEAP_BLOCK_TABLE_ENTRY_FREE"
  shows "heap_rep (A(b \<mapsto> k)) es'"
proof -
  note n = heap_repD(1,2) [OF rep A]
  have far: "b' + n' \<le> b \<or> b + max n k \<le> b'" if "A b' = Some n'" "b' \<noteq> b" for b' n'
  proof (rule ccontr)
    assume "\<not> ?thesis"
    then have o: "b < b' + n'" "b' < b + max n k" by auto
    have d: "b' + n' \<le> b \<or> b + n \<le> b'"
      using heap_rep_disjoint [OF rep that(1) A that(2)] by auto
    then have "b + n \<le> b'" using o by auto
    moreover have "b' < b + k" using o calculation by (auto simp: max_def split: if_splits)
    moreover have "covered A b'" using coveredI [of A b' n' b'] that heap_repD(1) [OF rep that(1)] by simp
    ultimately show False using ext by blast
  qed
  show ?thesis
    unfolding heap_rep_def
  proof (intro conjI allI impI)
    fix b' n' assume A': "(A(b \<mapsto> k)) b' = Some n'"
    show "0 < n'" "b' + n' \<le> length es'"
      using A' k len heap_repD [OF rep, of b' n'] by (auto split: if_splits)
    fix j assume j: "j < n'"
    show "entry_ok n' j (es' ! (b' + j))"
    proof (cases "b' = b")
      case True
      then show ?thesis using A' j ok by simp
    next
      case False
      then have a: "A b' = Some n'" using A' by simp
      have "es' ! (b' + j) = es ! (b' + j)"
        using far [OF a False] j heap_repD(2) [OF rep a] by (intro out) auto
      then show ?thesis using heap_repD(3) [OF rep a j] by simp
    qed
  next
    fix b1 n1 b2 n2
    assume "(A(b \<mapsto> k)) b1 = Some n1" "(A(b \<mapsto> k)) b2 = Some n2" "b1 < b2"
    then show "b1 + n1 \<le> b2"
      using far [of b1 n1] far [of b2 n2] heap_rep_disjoint [OF rep, of b1 n1 b2 n2]
        heap_repD(1) [OF rep, of b1] heap_repD(1) [OF rep, of b2]
      by (auto split: if_splits)
  next
    fix i assume i: "i < length es'" "\<not> covered (A(b \<mapsto> k)) i"
    have nk: "\<not> (b \<le> i \<and> i < b + k)" using i(2) coveredI [of "A(b \<mapsto> k)" b k i] by auto
    show "es' ! i = HEAP_BLOCK_TABLE_ENTRY_FREE"
    proof (cases "b \<le> i \<and> i < b + n")
      case True
      then show ?thesis using tail [of i] nk by auto
    next
      case False
      have "\<not> covered A i"
      proof
        assume "covered A i"
        then obtain b' n' where c: "A b' = Some n'" "b' \<le> i" "i < b' + n'" by (rule coveredE)
        then have "b' \<noteq> b" using A False by auto
        then show False using i(2) c coveredI [of "A(b \<mapsto> k)" b' n' i] by simp
      qed
      moreover have "es' ! i = es ! i"
        using out [of i] nk False i(1) len by (auto simp: max_def)
      ultimately show ?thesis using rep i(1) len by (simp add: heap_rep_def)
    qed
  qed
qed

lemma is_block_range_free_loop_eq:
  assumes "e < int (length es)"
  shows "is_block_range_free_loop es (int i) e =
    Some (\<forall>j. i \<le> j \<longrightarrow> int j \<le> e \<longrightarrow> es ! j AND HEAP_BLOCK_TABLE_ENTRY_TAKEN = 0)"
proof (induction "nat (e + 1 - int i)" arbitrary: i)
  case 0
  then show ?case by (subst is_block_range_free_loop.simps) auto
next
  case (Suc d)
  have i: "int i \<le> e" using Suc(2) by simp
  have g: "table_get es (int i) = Some (es ! i)" using i assms by (simp add: table_get_def)
  have IH: "is_block_range_free_loop es (int (Suc i)) e =
    Some (\<forall>j. Suc i \<le> j \<longrightarrow> int j \<le> e \<longrightarrow> es ! j AND HEAP_BLOCK_TABLE_ENTRY_TAKEN = 0)"
    by (rule Suc.hyps(1)) (use Suc(2) in simp)
  show ?case
  proof (cases "es ! i AND HEAP_BLOCK_TABLE_ENTRY_TAKEN = 0")
    case True
    have "(\<forall>j. i \<le> j \<longrightarrow> int j \<le> e \<longrightarrow> es ! j AND HEAP_BLOCK_TABLE_ENTRY_TAKEN = 0) =
      (\<forall>j. Suc i \<le> j \<longrightarrow> int j \<le> e \<longrightarrow> es ! j AND HEAP_BLOCK_TABLE_ENTRY_TAKEN = 0)"
      using True by (metis Suc_leD Suc_leI le_neq_implies_less)
    then show ?thesis
      using True g i IH by (subst is_block_range_free_loop.simps) (simp add: add.commute)
  next
    case False
    then show ?thesis using g i by (subst is_block_range_free_loop.simps) auto
  qed
qed

definition extended :: "u8 list \<Rightarrow> nat \<Rightarrow> nat \<Rightarrow> u8 list" where
  "extended es i e =
     map (\<lambda>j. if i \<le> j \<and> j < e then HEAP_BLOCK_TABLE_ENTRY_TAKEN OR HEAP_BLOCK_HAS_NEXT else es ! j)
       [0..<length es]"

lemma length_extended [simp]: "length (extended es i e) = length es"
  by (simp add: extended_def)

lemma nth_extended:
  "j < length es \<Longrightarrow> extended es i e ! j =
     (if i \<le> j \<and> j < e then HEAP_BLOCK_TABLE_ENTRY_TAKEN OR HEAP_BLOCK_HAS_NEXT else es ! j)"
  by (simp add: extended_def)

lemma extend_loop_eq:
  "e \<le> length es \<Longrightarrow> extend_loop es (int i) (int e) = Some (extended es i e)"
proof (induction "e - i" arbitrary: es i)
  case 0
  then have "extended es i e = es" by (auto simp: list_eq_iff_nth_eq nth_extended)
  then show ?case using 0 by (subst extend_loop.simps) simp
next
  case (Suc d)
  let ?es = "es[i := HEAP_BLOCK_TABLE_ENTRY_TAKEN OR HEAP_BLOCK_HAS_NEXT]"
  have i: "i < e" using Suc(2) by simp
  have s: "table_set es (int i) (HEAP_BLOCK_TABLE_ENTRY_TAKEN OR HEAP_BLOCK_HAS_NEXT) = Some ?es"
    using i Suc.prems by (simp add: table_set_def)
  have IH: "extend_loop ?es (int (Suc i)) (int e) = Some (extended ?es (Suc i) e)"
    by (rule Suc.hyps(1)) (use Suc in simp_all)
  moreover have "extended ?es (Suc i) e = extended es i e"
    using i Suc.prems by (auto simp: list_eq_iff_nth_eq nth_extended nth_list_update)
  ultimately show ?case
    using i s by (subst extend_loop.simps) (simp add: add.commute)
qed

lemma taken_bit_iff:
  assumes "heap_rep A es" "i < length es"
  shows "es ! i AND HEAP_BLOCK_TABLE_ENTRY_TAKEN = 0 \<longleftrightarrow> \<not> covered A i"
proof
  assume z: "es ! i AND HEAP_BLOCK_TABLE_ENTRY_TAKEN = 0"
  show "\<not> covered A i"
  proof
    assume "covered A i"
    then obtain b n where "A b = Some n" "b \<le> i" "i < b + n" by (rule coveredE)
    then show False using heap_repD(4) [OF assms(1)] entry_ok_facts(1) z by blast
  qed
next
  assume "\<not> covered A i"
  then show "es ! i AND HEAP_BLOCK_TABLE_ENTRY_TAKEN = 0" using assms by (simp add: heap_rep_def)
qed

lemma entry_ok_shrink:
  assumes "entry_ok n j e" "k < n" "j < k"
  shows "entry_ok k j (if Suc j = k then e AND NOT HEAP_BLOCK_HAS_NEXT else e)"
  using assms by (auto simp: entry_ok_def)

lemma entry_ok_grow:
  assumes "entry_ok n j e" "n < k" "j < n"
  shows "entry_ok k j (if Suc j = n then e OR HEAP_BLOCK_HAS_NEXT else e)"
  using assms by (auto simp: entry_ok_def)

lemma realloc_prelude:
  assumes wf: "heap_wf h" and rep: "heap_rep A (heap_entries h)" and A: "A b = Some n"
    and c: "contained A (heap_entries h) b n"
  shows "heap_allocation_block_count h (heap_block_to_address h (int b)) = n"
    "heap_address_to_block h (heap_block_to_address h (int b)) = int b"
    "heap_block_to_address h (int b) \<noteq> 0"
proof -
  have b: "b \<le> length (heap_entries h)" using heap_repD [OF rep A] by simp
  show "heap_address_to_block h (heap_block_to_address h (int b)) = int b"
    "heap_block_to_address h (int b) \<noteq> 0"
    using wf b by simp_all
  then show "heap_allocation_block_count h (heap_block_to_address h (int b)) = n"
    using count_contained [OF rep A c] by (simp add: heap_allocation_block_count_def)
qed

lemma heap_realloc_same:
  assumes "heap_wf h" "heap_rep A (heap_entries h)" "A b = Some n"
    "contained A (heap_entries h) b n" "new_size \<noteq> 0" "blocks_for new_size = n"
  shows "heap_realloc m h (heap_block_to_address h (int b)) new_size =
    Some (m, h, heap_block_to_address h (int b))"
  using realloc_prelude [OF assms(1-4)] assms(5,6)
  by (simp add: heap_realloc_def blocks_for_def Let_def)

text \<open>A shrink gives the tail back, and takes the freed blocks off \<open>used_blocks\<close> a second time.\<close>

lemma heap_realloc_shrink:
  assumes wf: "heap_wf h" and rep: "heap_rep A (heap_entries h)" and A: "A b = Some n"
    and c: "contained A (heap_entries h) b n"
    and k: "new_size \<noteq> 0" "blocks_for new_size = k" "0 < k" "k < n"
  shows "\<exists>h'. heap_realloc m h (heap_block_to_address h (int b)) new_size =
      Some (m, h', heap_block_to_address h (int b)) \<and> same_pool h h' \<and>
      heap_rep (A(b \<mapsto> k)) (heap_entries h') \<and>
      used_blocks h' = used_blocks h - of_nat (chain_len (heap_entries h) (b + k)) - of_nat (n - k) \<and>
      free_blocks h' = free_blocks h + of_nat (chain_len (heap_entries h) (b + k)) + of_nat (n - k)"
proof -
  let ?es = "heap_entries h"
  have bn: "b + n \<le> length ?es" using heap_repD [OF rep A] by simp
  obtain h1 where h1: "heap_mark_blocks_free h (int (b + k)) = Some h1" "same_pool h h1"
    "heap_entries h1 = cleared ?es (b + k) (n - k)"
    "used_blocks h1 = used_blocks h - of_nat (chain_len ?es (b + k))"
    "free_blocks h1 = free_blocks h + of_nat (chain_len ?es (b + k))"
    using heap_mark_blocks_free_eq [of "b + k" h] cleared_contained [OF rep A c k(4)] bn k(4) by auto
  define es' where "es' = (cleared ?es (b + k) (n - k))[b + k - 1 := ?es ! (b + k - 1) AND NOT HEAP_BLOCK_HAS_NEXT]"
  let ?h = "h1\<lparr>heap_entries := es', used_blocks := used_blocks h1 - of_nat (n - k),
      free_blocks := free_blocks h1 + of_nat (n - k)\<rparr>"
  have not_le: "\<not> b + k \<le> b + k - Suc 0" using k(3) by simp
  have idx: "nat (int b + int k - 1) = b + k - 1" "0 \<le> int b + int k - 1"
    "int b + int k - 1 < int (length ?es)" using k bn by auto
  have "heap_realloc m h (heap_block_to_address h (int b)) new_size = Some (m, ?h, heap_block_to_address h (int b))"
    using realloc_prelude [OF wf rep A c] k h1(1,3) idx bn not_le
    by (simp add: heap_realloc_def blocks_for_def Let_def table_get_def table_set_def nth_cleared es'_def)
  moreover have "same_pool h ?h" using h1(2,3) by (simp add: same_pool_def es'_def)
  moreover have "heap_rep (A(b \<mapsto> k)) es'"
  proof (rule heap_rep_resize [OF rep A k(3)])
    show "b + k \<le> length ?es" using bn k(4) by simp
    fix j assume j: "j < k"
    have "es' ! (b + j) = (if Suc j = k then ?es ! (b + j) AND NOT HEAP_BLOCK_HAS_NEXT else ?es ! (b + j))"
      using j bn k by (auto simp: es'_def nth_list_update nth_cleared)
    then show "entry_ok k j (es' ! (b + j))"
      using entry_ok_shrink [OF heap_repD(3) [OF rep A], of j k] j k(4) by simp
  qed (use bn k in \<open>auto simp: es'_def nth_list_update nth_cleared\<close>)
  ultimately show ?thesis using h1(4,5) by auto
qed

lemma heap_realloc_grow:
  assumes wf: "heap_wf h" and rep: "heap_rep A (heap_entries h)" and A: "A b = Some n"
    and c: "contained A (heap_entries h) b n"
    and k: "new_size \<noteq> 0" "blocks_for new_size = k" "n < k" "b + k \<le> length (heap_entries h)"
    and free: "\<forall>i. b + n \<le> i \<longrightarrow> i < b + k \<longrightarrow> \<not> covered A i"
  shows "\<exists>h'. heap_realloc m h (heap_block_to_address h (int b)) new_size =
      Some (m, h', heap_block_to_address h (int b)) \<and> same_pool h h' \<and>
      heap_rep (A(b \<mapsto> k)) (heap_entries h') \<and>
      contained (A(b \<mapsto> k)) (heap_entries h') b k \<and>
      used_blocks h' = used_blocks h + of_nat (k - n) \<and>
      free_blocks h' = free_blocks h - of_nat (k - n)"
proof -
  let ?es = "heap_entries h"
  have n: "0 < n" using heap_repD [OF rep A] by simp
  define es2 where "es2 = (extended ?es (b + n) (b + k - 1))[b + k - 1 := HEAP_BLOCK_TABLE_ENTRY_TAKEN]"
  define es' where "es' = es2[b + n - 1 := ?es ! (b + n - 1) OR HEAP_BLOCK_HAS_NEXT]"
  let ?h = "h\<lparr>heap_entries := es', used_blocks := used_blocks h + of_nat (k - n),
      free_blocks := free_blocks h - of_nat (k - n)\<rparr>"
  have int_k: "int (b + k - 1) = int b + int k - 1" "int (b + k - Suc 0) = int b + int k - 1"
    using k(3) by auto
  have nat_k: "nat (int b + int k - 1) = b + k - Suc 0" using k(3) by simp
  have nat_n: "nat (int b + int n - 1) = b + n - Suc 0" using n by simp
  have rng: "is_block_range_free_loop ?es (int (b + n)) (int (b + k - 1)) = Some True"
    using is_block_range_free_loop_eq [of "int (b + k - 1)" ?es "b + n"] k(3,4) free taken_bit_iff [OF rep]
    by auto
  have ext: "extend_loop ?es (int (b + n)) (int (b + k - 1)) = Some (extended ?es (b + n) (b + k - 1))"
    using extend_loop_eq [of "b + k - 1" ?es "b + n"] k(4) by simp
  have s1: "table_set (extended ?es (b + n) (b + k - 1)) (int b + int k - 1) HEAP_BLOCK_TABLE_ENTRY_TAKEN = Some es2"
    using k(3,4) nat_k by (simp add: table_set_def es2_def)
  have g: "table_get es2 (int b + int n - 1) = Some (?es ! (b + n - 1))"
    using k(3,4) n nat_n by (auto simp: table_get_def es2_def nth_extended nth_list_update)
  have s2: "table_set es2 (int b + int n - 1) (?es ! (b + n - 1) OR HEAP_BLOCK_HAS_NEXT) = Some es'"
    using k(3,4) n nat_n by (simp add: table_set_def es'_def es2_def)
  have "heap_realloc m h (heap_block_to_address h (int b)) new_size = Some (m, ?h, heap_block_to_address h (int b))"
    using k(1-3) rng ext s1 g s2 realloc_prelude [OF wf rep A c] int_k
    by (simp add: heap_realloc_def Let_def blocks_for_def heap_is_block_range_free_def)
  moreover have "same_pool h ?h" by (simp add: same_pool_def es'_def es2_def)
  moreover have nth: "es' ! (b + j) = (if Suc j = n then ?es ! (b + j) OR HEAP_BLOCK_HAS_NEXT
      else if Suc j = k then HEAP_BLOCK_TABLE_ENTRY_TAKEN
      else if n \<le> j then HEAP_BLOCK_TABLE_ENTRY_TAKEN OR HEAP_BLOCK_HAS_NEXT
      else ?es ! (b + j))" if "j < k" for j
    using that k(3,4) n by (auto simp: es'_def es2_def nth_list_update nth_extended)
  have "heap_rep (A(b \<mapsto> k)) es'"
  proof (rule heap_rep_resize [OF rep A _ k(4)])
    fix j assume j: "j < k"
    show "entry_ok k j (es' ! (b + j))"
    proof (cases "j < n")
      case True
      then show ?thesis
        using entry_ok_grow [OF heap_repD(3) [OF rep A True] k(3) True] nth [OF j] k(3) True
        by (auto split: if_splits)
    next
      case False
      then show ?thesis using nth [OF j] n j by (auto simp: entry_ok_def)
    qed
  qed (use k n free in \<open>auto simp: es'_def es2_def nth_list_update nth_extended\<close>)
  moreover have "contained (A(b \<mapsto> k)) es' b k"
    using nth [of "k - 1"] k(3) n by (simp add: contained_def)
  ultimately show ?thesis by auto
qed

lemma heap_zalloc_aligned:
  assumes "unat sz \<le> 2 ^ 64 - 4096" "blocks_for sz * 4096 < 2 ^ 31"
    and "heap_malloc_blocks h (blocks_for sz) = Some (h', p)"
  shows "heap_zalloc m h (heap_align_value_to_upper sz) =
    (if p = 0 then Some (m, h', 0)
     else Some (memset_bytes m p 0 (blocks_for sz * 4096), h', p))"
  using assms unat_align_upper_eq [OF assms(1)]
  by (simp add: heap_zalloc_def heap_malloc_def align_upper_idem blocks_for_def memset_def Let_def)

lemma free_run_uncovered:
  assumes "heap_rep A es" "free_run es n b" "b \<le> i" "i < b + n"
  shows "\<not> covered A i"
  using free_runD [OF assms(2-4)] heap_rep_free_iff [OF assms(1), of i] assms(2,4)
  by (simp add: free_run_def)

lemma heap_realloc_move:
  assumes wf: "heap_wf h" and rep: "heap_rep A (heap_entries h)" and A: "A b = Some n"
    and c: "contained A (heap_entries h) b n"
    and k: "new_size \<noteq> 0" "unat new_size \<le> 2 ^ 64 - 4096" "blocks_for new_size = k" "n < k"
      "b + k \<le> length (heap_entries h)" "k * 4096 < 2 ^ 31"
    and taken: "\<exists>i. b + n \<le> i \<and> i < b + k \<and> covered A i"
    and run: "free_run (heap_entries h) k b'" "\<forall>b''<b'. \<not> free_run (heap_entries h) k b''"
  shows "\<exists>h'. heap_realloc m h (heap_block_to_address h (int b)) new_size =
      Some (memcpy_bytes (memset_bytes m (heap_block_to_address h (int b')) 0 (k * 4096))
              (heap_block_to_address h (int b')) (heap_block_to_address h (int b)) (n * 4096),
            h', heap_block_to_address h (int b')) \<and> same_pool h h' \<and>
      heap_rep (A(b' \<mapsto> k, b := None)) (heap_entries h')"
proof -
  let ?es = "heap_entries h"
  let ?p = "heap_block_to_address h (int b)" and ?q = "heap_block_to_address h (int b')"
  have n: "0 < n" "b + n \<le> length ?es" using heap_repD [OF rep A] by simp_all
  have k0: "0 < k" using k(4) by simp
  have b': "b' + k \<le> length ?es" using run(1) by (simp add: free_run_def)
  have q: "?q \<noteq> 0" using block_addr_neq_0 [OF wf, of b'] b' by simp
  let ?h1 = "malloc_result h k b'"
  have rep1: "heap_rep (A(b' \<mapsto> k)) (heap_entries ?h1)"
    by (rule heap_rep_malloc_result [OF rep run(1) k0])
  have apart: "b + n \<le> b' \<or> b' + k \<le> b"
  proof (rule ccontr)
    assume "\<not> ?thesis"
    then have "covered A (max b b')" "b' \<le> max b b'" "max b b' < b' + k"
      using coveredI [of A b n "max b b'"] A n k0 by auto
    then show False using free_run_uncovered [OF rep run(1)] by blast
  qed
  have nb: "b' \<noteq> b" using apart n k0 by auto
  have nbn: "b + n \<noteq> b'"
  proof
    assume e: "b + n = b'"
    obtain i where "b + n \<le> i" "i < b + k" "covered A i" using taken by blast
    then show False using free_run_uncovered [OF rep run(1), of i] e n by auto
  qed
  have c1: "contained (A(b' \<mapsto> k)) (heap_entries ?h1) b n"
  proof -
    have "covered (A(b' \<mapsto> k)) (b + n) \<Longrightarrow> covered A (b + n)"
    proof (erule coveredE)
      fix b'' n'' assume x: "(A(b' \<mapsto> k)) b'' = Some n''" "b'' \<le> b + n" "b + n < b'' + n''"
      show "covered A (b + n)"
      proof (cases "b'' = b'")
        case True
        then show ?thesis using x apart nbn n by auto
      next
        case False
        then show ?thesis using x coveredI [of A b'' n''] by simp
      qed
    qed
    moreover have "heap_entries ?h1 ! (b + n - 1) = ?es ! (b + n - 1)"
      using apart n by (auto simp: malloc_result_def nth_marked)
    ultimately show ?thesis using c by (auto simp: contained_def)
  qed
  have A1: "(A(b' \<mapsto> k)) b = Some n" using A nb by simp
  obtain h2 where h2: "heap_free ?h1 ?p = Some h2" "same_pool ?h1 h2"
    "heap_rep (A(b' \<mapsto> k, b := None)) (heap_entries h2)"
    using heap_free_contained [OF _ rep1 A1 c1] wf same_pool_wf [OF same_pool_malloc_result] by auto
  have za: "heap_zalloc m h (heap_align_value_to_upper new_size) =
      Some (memset_bytes m ?q 0 (k * 4096), ?h1, ?q)"
    using heap_zalloc_aligned [OF k(2) _ heap_malloc_blocks_found, of h b' m] k(3,6) k0 run q by simp
  have rng: "is_block_range_free_loop ?es (int (b + n)) (int (b + k - 1)) = Some False"
    using is_block_range_free_loop_eq [of "int (b + k - 1)" ?es "b + n"] k(4,5) taken taken_bit_iff [OF rep]
    by (auto simp del: int_ops(1-5))
  have int_k: "int (b + k - 1) = int b + int k - 1" "int (b + k - Suc 0) = int b + int k - 1"
    using k0 by auto
  have len: "int_of_size (of_nat n * 4096) = int (n * 4096)"
  proof -
    have "unat (of_nat (n * 4096) :: u64) = n * 4096" using k(4,6) by (subst unat_of_nat_u64) simp_all
    then have "int_of_size (of_nat (n * 4096)) = uint (of_nat (n * 4096) :: u64)"
      using k(4,6) by (intro int_of_size_small) simp
    also have "\<dots> = int (n * 4096)"
      using \<open>unat (of_nat (n * 4096) :: u64) = n * 4096\<close> by (metis uint_nat)
    finally show ?thesis by simp
  qed
  have "heap_realloc m h ?p new_size =
      Some (memcpy_bytes (memset_bytes m ?q 0 (k * 4096)) ?q ?p (n * 4096), h2, ?q)"
    using k(1-4) rng za q h2(1) realloc_prelude [OF wf rep A c] int_k
    by (simp add: heap_realloc_def Let_def blocks_for_def heap_is_block_range_free_def memcpy_def len
        nat_mult_distrib)
  then show ?thesis using h2 same_pool_trans [OF same_pool_malloc_result h2(2)] by blast
qed

lemma heap_realloc_out_of_memory:
  assumes wf: "heap_wf h" and rep: "heap_rep A (heap_entries h)" and A: "A b = Some n"
    and c: "contained A (heap_entries h) b n"
    and k: "new_size \<noteq> 0" "unat new_size \<le> 2 ^ 64 - 4096" "blocks_for new_size = k" "n < k"
      "b + k \<le> length (heap_entries h)" "k * 4096 < 2 ^ 31"
    and taken: "\<exists>i. b + n \<le> i \<and> i < b + k \<and> covered A i"
    and none: "\<forall>b'. \<not> free_run (heap_entries h) k b'"
  shows "heap_realloc m h (heap_block_to_address h (int b)) new_size = Some (m, h, 0)"
proof -
  let ?es = "heap_entries h"
  have n: "0 < n" using heap_repD [OF rep A] by simp
  have za: "heap_zalloc m h (heap_align_value_to_upper new_size) = Some (m, h, 0)"
    using heap_zalloc_aligned [OF k(2) _ heap_malloc_blocks_none, of h m] k(3,6) none by simp
  have rng: "is_block_range_free_loop ?es (int (b + n)) (int (b + k - 1)) = Some False"
    using is_block_range_free_loop_eq [of "int (b + k - 1)" ?es "b + n"] k(4,5) taken taken_bit_iff [OF rep]
    by (auto simp del: int_ops(1-5))
  have int_k: "int (b + k - 1) = int b + int k - 1" "int (b + k - Suc 0) = int b + int k - 1"
    using k(4) n by auto
  show ?thesis
    using k(1-4) rng za realloc_prelude [OF wf rep A c] int_k
    by (simp add: heap_realloc_def Let_def blocks_for_def heap_is_block_range_free_def)
qed

text \<open>
  The memory after a move: the new region starts with the old bytes, and nothing outside it
  has changed.
\<close>

lemma move_memory:
  assumes "separate q (k * 4096) p (n * 4096)" "n \<le> k" "k * 4096 \<le> 2 ^ 64"
  shows "i < n * 4096 \<Longrightarrow>
      memcpy_bytes (memset_bytes m q 0 (k * 4096)) q p (n * 4096) (q + of_nat i) = m (p + of_nat i)"
    and "(\<And>j. j < k * 4096 \<Longrightarrow> x \<noteq> q + of_nat j) \<Longrightarrow>
      memcpy_bytes (memset_bytes m q 0 (k * 4096)) q p (n * 4096) x = m x"
proof -
  assume i: "i < n * 4096"
  have "memcpy_bytes (memset_bytes m q 0 (k * 4096)) q p (n * 4096) (q + of_nat i)
      = memset_bytes m q 0 (k * 4096) (p + of_nat i)"
    by (rule memcpy_bytes_inside) (use assms i in \<open>auto simp: separate_def\<close>)
  also have "\<dots> = m (p + of_nat i)"
    using assms(1) i by (auto simp: memset_bytes_apply separate_def) metis
  finally show "memcpy_bytes (memset_bytes m q 0 (k * 4096)) q p (n * 4096) (q + of_nat i) = m (p + of_nat i)" .
next
  assume o: "\<And>j. j < k * 4096 \<Longrightarrow> x \<noteq> q + of_nat j"
  then have "memcpy_bytes (memset_bytes m q 0 (k * 4096)) q p (n * 4096) x
      = memset_bytes m q 0 (k * 4096) x"
    using assms(2) by (intro memcpy_bytes_outside) simp
  then show "memcpy_bytes (memset_bytes m q 0 (k * 4096)) q p (n * 4096) x = m x"
    using o by (auto simp: memset_bytes_apply)
qed

text \<open>What a reallocation of an allocation of \<open>n\<close> blocks to \<open>k\<close> blocks may have done.\<close>

definition realloc_outcome ::
  "allocs \<Rightarrow> memory \<Rightarrow> heap \<Rightarrow> nat \<Rightarrow> nat \<Rightarrow> nat \<Rightarrow> memory \<Rightarrow> heap \<Rightarrow> u64 \<Rightarrow> bool" where
  "realloc_outcome A m h b n k m' h' p \<longleftrightarrow>
     p = 0 \<and> m' = m \<and> h' = h \<and> n < k \<or>
     (\<exists>b'. p = heap_block_to_address h (int b') \<and> p \<noteq> 0 \<and> same_pool h h' \<and>
        heap_rep (A(b := None, b' \<mapsto> k)) (heap_entries h') \<and> (b' = b \<or> A b' = None) \<and>
        (\<forall>i<min n k * 4096. m' (p + of_nat i) = m (heap_block_to_address h (int b) + of_nat i)) \<and>
        (\<forall>x. (\<forall>i<k * 4096. x \<noteq> p + of_nat i) \<longrightarrow> m' x = m x))"

lemma heap_realloc_outcome:
  assumes wf: "heap_wf h" and rep: "heap_rep A (heap_entries h)" and A: "A b = Some n"
    and c: "contained A (heap_entries h) b n"
    and k: "new_size \<noteq> 0" "unat new_size \<le> 2 ^ 64 - 4096" "blocks_for new_size = k"
      "b + k \<le> length (heap_entries h)" "k * 4096 < 2 ^ 31"
  shows "\<exists>m' h' p. heap_realloc m h (heap_block_to_address h (int b)) new_size = Some (m', h', p) \<and>
    realloc_outcome A m h b n k m' h' p"
proof -
  let ?p = "heap_block_to_address h (int b)"
  have k0: "0 < k" using blocks_for_pos [OF k(1,2)] k(3) by simp
  have n: "b + n \<le> length (heap_entries h)" using heap_repD [OF rep A] by simp
  have p0: "?p \<noteq> 0" using block_addr_neq_0 [OF wf, of b] n by simp
  have upd: "A(b := None, b \<mapsto> k) = A(b \<mapsto> k)" by auto
  consider "k = n" | "k < n"
    | "n < k" "\<forall>i. b + n \<le> i \<longrightarrow> i < b + k \<longrightarrow> \<not> covered A i"
    | "n < k" "\<exists>i. b + n \<le> i \<and> i < b + k \<and> covered A i"
    by (meson linorder_neqE_nat)
  then show ?thesis
  proof cases
    case 1
    have "A(b := None, b \<mapsto> k) = A" using A 1 by auto
    then have "realloc_outcome A m h b n k m h ?p"
      unfolding realloc_outcome_def using rep p0 by (intro disjI2 exI [of _ b]) simp
    then show ?thesis using heap_realloc_same [OF wf rep A c k(1)] k(3) 1 by blast
  next
    case 2
    obtain h' where h': "heap_realloc m h ?p new_size = Some (m, h', ?p)" "same_pool h h'"
      "heap_rep (A(b \<mapsto> k)) (heap_entries h')"
      using heap_realloc_shrink [OF wf rep A c k(1,3) k0 2] by blast
    then have "realloc_outcome A m h b n k m h' ?p"
      unfolding realloc_outcome_def using p0 by (intro disjI2 exI [of _ b]) (simp add: upd)
    then show ?thesis using h'(1) by blast
  next
    case 3
    obtain h' where h': "heap_realloc m h ?p new_size = Some (m, h', ?p)" "same_pool h h'"
      "heap_rep (A(b \<mapsto> k)) (heap_entries h')"
      using heap_realloc_grow [OF wf rep A c k(1,3) 3(1) k(4) 3(2)] by blast
    then have "realloc_outcome A m h b n k m h' ?p"
      unfolding realloc_outcome_def using p0 by (intro disjI2 exI [of _ b]) (simp add: upd)
    then show ?thesis using h'(1) by blast
  next
    case 4
    show ?thesis
    proof (cases "\<forall>b'. \<not> free_run (heap_entries h) k b'")
      case True
      then show ?thesis
        using heap_realloc_out_of_memory [OF wf rep A c k(1-3) 4(1) k(4,5) 4(2)] 4(1)
        by (auto simp: realloc_outcome_def)
    next
      case False
      define b' where "b' = (LEAST b'. free_run (heap_entries h) k b')"
      have run: "free_run (heap_entries h) k b'" "\<forall>b''<b'. \<not> free_run (heap_entries h) k b''"
        using False by (auto simp: b'_def intro: LeastI dest: not_less_Least)
      let ?q = "heap_block_to_address h (int b')"
      let ?m = "memcpy_bytes (memset_bytes m ?q 0 (k * 4096)) ?q ?p (n * 4096)"
      obtain h' where h': "heap_realloc m h ?p new_size = Some (?m, h', ?q)" "same_pool h h'"
        "heap_rep (A(b' \<mapsto> k, b := None)) (heap_entries h')"
        using heap_realloc_move [OF wf rep A c k(1-3) 4(1) k(4,5) 4(2) run] by blast
      have b': "b' + k \<le> length (heap_entries h)" using run(1) by (simp add: free_run_def)
      have apart: "b + n \<le> b' \<or> b' + k \<le> b"
      proof (rule ccontr)
        assume "\<not> ?thesis"
        then have "covered A (max b b')" "b' \<le> max b b'" "max b b' < b' + k"
          using coveredI [of A b n "max b b'"] A heap_repD(1) [OF rep A] k0 by auto
        then show False using free_run_uncovered [OF rep run(1)] by blast
      qed
      then have nb: "b' \<noteq> b" using heap_repD(1) [OF rep A] k0 by auto
      have "\<not> covered A b'" using free_run_uncovered [OF rep run(1), of b'] k0 by simp
      then have fresh: "A b' = None"
        using coveredI [of A b' _ b'] heap_repD(1) [OF rep, of b'] by (cases "A b'") auto
      have "separate ?q (k * 4096) ?p (n * 4096)"
        by (rule separate_blocks [OF wf b' n]) (use apart in auto)
      note mem = move_memory [OF this, where m = m] and q0 = block_addr_neq_0 [OF wf, of b']
      have "A(b' \<mapsto> k, b := None) = A(b := None, b' \<mapsto> k)" using nb by (simp add: fun_upd_twist)
      then have "realloc_outcome A m h b n k ?m h' ?q"
        unfolding realloc_outcome_def
        using h'(2,3) mem k(5) 4(1) q0 b' fresh
        by (intro disjI2 exI [of _ b']) (simp add: min_def)
      then show ?thesis using h'(1) by blast
    qed
  qed
qed

subsection \<open>Properties of the heap\<close>

lemma heap_rep_empty: "heap_rep Map.empty (replicate n HEAP_BLOCK_TABLE_ENTRY_FREE)"
  by (simp add: heap_rep_def)

text \<open>A pool of eight blocks at address 4096, used by the witnesses.\<close>

definition heap8 :: heap where
  "heap8 = snd (heap_create
     \<lparr>heap_entries = [], saddr = 0, eaddr = 0, total_blocks = 0, free_blocks = 0, used_blocks = 0,
      block_allocated_callback = False, block_free_callback = False, heap_calls = []\<rparr>
     0x1000 0x9000 (replicate 8 0xff))"

lemma heap8_simps [simp]:
  "heap_entries heap8 = replicate 8 HEAP_BLOCK_TABLE_ENTRY_FREE" "saddr heap8 = 0x1000"
  "eaddr heap8 = 0x9000" "used_blocks heap8 = 0" "free_blocks heap8 = 8"
  "block_allocated_callback heap8 = False"
  by (simp_all add: heap8_def heap_create_def heap_validate_alignment_def heap_validate_table_def)

lemma heap8_wf: "heap_wf heap8"
  by (simp add: heap_wf_def word_less_nat_alt)

lemma heap8_rep: "heap_rep Map.empty (heap_entries heap8)"
  unfolding heap8_simps by (rule heap_rep_empty)

text \<open>
  C18. \<^bold>\<open>Allocation is first fit.\<close> For a non-zero size, \<open>heap_malloc\<close> never stops the kernel. If the
  table has a run of free blocks for the request, it returns the address of the first such
  run, the table then records exactly that allocation beside the old ones, and the counters
  move by its length. If it has none, the result is null and the heap is unchanged.
\<close>

theorem heap_malloc_first_fit:
  assumes "heap_rep A (heap_entries h)" "sz \<noteq> 0" "unat sz \<le> 2 ^ 64 - 4096"
  shows "\<exists>h' p. heap_malloc h sz = Some (h', p) \<and>
    (if \<exists>b. free_run (heap_entries h) (blocks_for sz) b
     then \<exists>b. free_run (heap_entries h) (blocks_for sz) b \<and>
            (\<forall>b'<b. \<not> free_run (heap_entries h) (blocks_for sz) b') \<and>
            p = heap_block_to_address h (int b) \<and>
            heap_rep (A(b \<mapsto> blocks_for sz)) (heap_entries h') \<and> same_pool h h' \<and>
            used_blocks h' = used_blocks h + of_nat (blocks_for sz) \<and>
            free_blocks h' = free_blocks h - of_nat (blocks_for sz)
     else p = 0 \<and> h' = h)"
proof -
  have m: "heap_malloc h sz = heap_malloc_blocks h (blocks_for sz)"
    by (simp add: heap_malloc_def blocks_for_def Let_def)
  show ?thesis
  proof (cases rule: heap_malloc_blocks_cases [of "blocks_for sz" h])
    case (found b)
    then show ?thesis using m heap_rep_malloc_result [OF assms(1) found(2,1)] by auto
  next
    case none
    then show ?thesis using m blocks_for_pos [OF assms(2,3)] by auto
  qed
qed

lemma heap8_free_run: "free_run (replicate 8 HEAP_BLOCK_TABLE_ENTRY_FREE) 2 b \<longleftrightarrow> b \<le> 6"
  by (auto simp: free_run_def block_free_def heap_get_entry_type_def)

theorem heap_malloc_first_fit_witness:
  "\<exists>h' p. heap_malloc heap8 5000 = Some (h', p) \<and> p = 0x1000 \<and> heap_rep [0 \<mapsto> 2] (heap_entries h')"
proof -
  have b: "blocks_for 5000 = 2" by (simp add: blocks_for_eq)
  obtain h' p b where r: "heap_malloc heap8 5000 = Some (h', p)"
    "\<forall>b'<b. \<not> free_run (replicate 8 HEAP_BLOCK_TABLE_ENTRY_FREE) 2 b'" "p = heap_block_to_address heap8 (int b)"
    "heap_rep (Map.empty(b \<mapsto> 2)) (heap_entries h')"
    using heap_malloc_first_fit [OF heap8_rep, of 5000] unfolding b
    by (auto simp: heap8_free_run split: if_splits)
  then have "b = 0" unfolding heap8_free_run by (metis gr0I le0)
  then show ?thesis using r by (auto simp: heap_block_to_address_def)
qed

text \<open>
  C36. \<^bold>\<open>Release of an allocation whose chain ends in it.\<close> When the chain of an allocation ends
  with its last block, \<open>heap_free\<close> drops exactly that allocation from the table and moves the
  counters by its length.
\<close>

theorem heap_free_releases_exactly:
  assumes "heap_wf h" "heap_rep A (heap_entries h)" "A b = Some n"
    and "heap_entries h ! (b + n - 1) AND HEAP_BLOCK_HAS_NEXT = 0"
  shows "\<exists>h'. heap_free h (heap_block_to_address h (int b)) = Some h' \<and> same_pool h h' \<and>
    heap_rep (A(b := None)) (heap_entries h') \<and>
    used_blocks h' = used_blocks h - of_nat n \<and> free_blocks h' = free_blocks h + of_nat n"
proof -
  have c: "contained A (heap_entries h) b n" using assms(4) by (simp add: contained_def)
  have "chain_len (heap_entries h) (b + 0) = n"
    using chain_len_contained [OF assms(2,3) c, of 0] assms(4) heap_repD(1) [OF assms(2,3)] by simp
  then show ?thesis using heap_free_contained [OF assms(1-3) c] by simp
qed

lemma heap8_free_run_1: "free_run (heap_entries heap8) 1 0"
  by (simp add: free_run_def block_free_def heap_get_entry_type_def)

theorem heap_free_releases_exactly_witness:
  "\<exists>h'. heap_free (malloc_result heap8 1 0) 0x1000 = Some h' \<and> heap_rep Map.empty (heap_entries h')
     \<and> used_blocks h' = 0"
proof -
  have "heap_rep [0 \<mapsto> 1] (heap_entries (malloc_result heap8 1 0))"
    using heap_rep_malloc_result [OF heap8_rep heap8_free_run_1] by simp
  moreover have "heap_wf (malloc_result heap8 1 0)"
    using heap8_wf same_pool_wf [OF same_pool_malloc_result] by blast
  moreover have "heap_entries (malloc_result heap8 1 0) ! 0 AND HEAP_BLOCK_HAS_NEXT = 0"
    by (simp add: malloc_result_def nth_marked)
  ultimately show ?thesis
    using heap_free_releases_exactly [of "malloc_result heap8 1 0" "[0 \<mapsto> 1]" 0 1]
    by (auto simp: heap_block_to_address_def)
qed

lemma malloc_result_last_has_next:
  assumes "free_run (heap_entries h) n b" "1 < n"
  shows "heap_entries (malloc_result h n b) ! (b + n - 1) AND HEAP_BLOCK_HAS_NEXT \<noteq> 0"
proof -
  have "b + n - 1 < length (heap_entries h)" "int (b + n - 1) \<noteq> int b" "int b < int (b + n - 1)"
    "int (b + n - 1) \<le> int (b + n) - 1"
    using assms by (auto simp: free_run_def)
  then show ?thesis unfolding malloc_result_def by (simp add: nth_marked)
qed

lemma chain_len_step:
  assumes rep: "heap_rep A es" and A: "A b = Some n"
    and "es ! (b + n - 1) AND HEAP_BLOCK_HAS_NEXT \<noteq> 0"
  shows "chain_len es b = n + chain_len es (b + n)"
  using assms(3) chain_len_allocation [of b n es 0] heap_repD [OF rep A] by simp

lemma free_run_start_iff:
  assumes "heap_rep A es" "free_run es n b" "A b' = Some n'" "0 < n"
  shows "b' \<noteq> b"
  using free_run_uncovered [OF assms(1,2), of b] coveredI [of A b' n' b]
    heap_repD(1) [OF assms(1,3)] assms(3,4) by auto

text \<open>
  \<^bold>\<open>Release of a fresh allocation of several blocks frees its neighbour.\<close> \<open>heap_mark_blocks_taken\<close>
  sets \<open>HAS_NEXT\<close> on the last block of an allocation of two or more blocks. So when the next
  allocation is placed right behind it, \<open>heap_free\<close> on the first walks into the second and
  frees it as well.
\<close>

theorem heap_free_releases_neighbour:
  assumes wf: "heap_wf h" and rep: "heap_rep A (heap_entries h)"
    and s1: "blocks_for s1 = n" "1 < n" and s2: "0 < blocks_for s2"
    and p: "heap_malloc h s1 = Some (h1, p)" "p \<noteq> 0"
    and q: "heap_malloc h1 s2 = Some (h2, q)" "q = p + of_nat (n * 4096)" "q \<noteq> 0"
  shows "\<exists>h3. heap_free h2 p = Some h3 \<and> heap_allocation_block_count h3 q = 0"
proof -
  have m: "heap_malloc h1 s = heap_malloc_blocks h1 (blocks_for s)" for h1 s
    by (simp add: heap_malloc_def blocks_for_def Let_def)
  obtain b where b: "free_run (heap_entries h) n b" "h1 = malloc_result h n b"
    "p = heap_block_to_address h (int b)"
    using p s1 by (cases rule: heap_malloc_blocks_cases [of n h]) (auto simp: m)
  obtain b2 where b2: "free_run (heap_entries h1) (blocks_for s2) b2"
    "h2 = malloc_result h1 (blocks_for s2) b2" "q = heap_block_to_address h (int b2)"
    using q s2 b(2) by (cases rule: heap_malloc_blocks_cases [of "blocks_for s2" h1]) (auto simp: m)
  have rep1: "heap_rep (A(b \<mapsto> n)) (heap_entries h1)"
    unfolding b(2) by (rule heap_rep_malloc_result [OF rep b(1)]) (use s1 in simp)
  have rep2: "heap_rep (A(b \<mapsto> n, b2 \<mapsto> blocks_for s2)) (heap_entries h2)"
    unfolding b2(2) by (rule heap_rep_malloc_result [OF rep1 b2(1) s2])
  have len: "b + n \<le> length (heap_entries h)" "b2 + blocks_for s2 \<le> length (heap_entries h)"
    using b(1,2) b2(1) by (auto simp: free_run_def)
  have b2_eq: "b2 = b + n"
  proof -
    have "saddr h + of_nat (b2 * 4096) = saddr h + of_nat (b * 4096 + n * 4096)"
      using q(2) b(3) b2(3) by (simp add: block_addr_offset)
    moreover have "b2 * 4096 < 2 ^ 64" "b * 4096 + n * 4096 < 2 ^ 64"
      using wf len s2 by (auto simp: heap_wf_def)
    ultimately have "b2 * 4096 = b * 4096 + n * 4096" by (simp only: offset_eq_iff)
    then show ?thesis by simp
  qed
  have nb: "b2 \<noteq> b" using b2_eq s1(2) by simp
  have last: "heap_entries h2 ! (b + n - 1) AND HEAP_BLOCK_HAS_NEXT \<noteq> 0"
    using malloc_result_last_has_next [OF b(1) s1(2)] b2_eq len s1(2) b(2)
    unfolding b2(2) by (subst malloc_result_def) (simp add: nth_marked)
  have c: "chain_len (heap_entries h2) b = n + chain_len (heap_entries h2) b2"
    using chain_len_step [OF rep2 _ last] nb b2_eq by simp
  have c2: "0 < chain_len (heap_entries h2) b2"
    using len(2) s2 b2(2) b(2) by (subst chain_len.simps) auto
  have pool: "same_pool h h2" using b(2) b2(2) by (simp add: same_pool_def malloc_result_def)
  have wf2: "heap_wf h2" using same_pool_wf [OF pool] wf by simp
  have l2: "length (heap_entries h2) = length (heap_entries h)" using b(2) b2(2) by simp
  have ab: "heap_address_to_block h2 p = int b" "heap_address_to_block h2 q = int b2"
    using block_of_addr [OF wf2, of b] block_of_addr [OF wf2, of b2] l2 len b(3) b2(3)
      same_pool_addr [OF pool] by simp_all
  obtain h3 where h3: "heap_free h2 p = Some h3" "same_pool h2 h3"
    "heap_entries h3 = cleared (heap_entries h2) b (chain_len (heap_entries h2) b)"
    using heap_mark_blocks_free_eq [of b h2] l2 len ab(1) by (auto simp: heap_free_def)
  have "heap_entries h3 ! b2 = HEAP_BLOCK_TABLE_ENTRY_FREE"
    using h3(3) c c2 b2_eq l2 len s2 by (simp add: nth_cleared)
  moreover have "heap_address_to_block h3 q = int b2"
    using ab(2) h3(2) by (simp add: heap_address_to_block_def same_pool_def)
  ultimately have "heap_allocation_block_count h3 q = 0"
    by (simp add: heap_allocation_block_count_def allocation_block_count_loop.simps)
  then show ?thesis using h3(1) by blast
qed

theorem heap_free_releases_neighbour_witness:
  "\<exists>h1 h2 h3. heap_malloc heap8 8192 = Some (h1, 0x1000) \<and> heap_malloc h1 4096 = Some (h2, 0x3000) \<and>
     heap_free h2 0x1000 = Some h3 \<and> heap_allocation_block_count h3 0x3000 = 0"
proof -
  have b: "blocks_for 8192 = 2" "blocks_for 4096 = 1" by (simp_all add: blocks_for_eq)
  let ?h1 = "malloc_result heap8 2 0"
  have m: "heap_malloc h s = heap_malloc_blocks h (blocks_for s)" for h s
    by (simp add: heap_malloc_def blocks_for_def Let_def)
  have 1: "heap_malloc heap8 8192 = Some (?h1, 0x1000)"
    using heap_malloc_blocks_found [of 2 heap8 0] heap8_free_run [of 0]
    by (simp add: m b heap_block_to_address_def)
  have "free_run (heap_entries ?h1) 1 j \<longleftrightarrow> 2 \<le> j \<and> j \<le> 7" for j
    by (cases "j = 0 \<or> j = 1")
      (auto simp: malloc_result_def free_run_def nth_marked block_free_def heap_get_entry_type_def)
  then have 2: "heap_malloc ?h1 4096 = Some (malloc_result ?h1 1 2, 0x3000)"
    using heap_malloc_blocks_found [of 1 ?h1 2] by (simp add: m b heap_block_to_address_def)
  show ?thesis
    using heap_free_releases_neighbour [OF heap8_wf heap8_rep b(1) _ _ 1 _ 2] 1 2 by (auto simp: b)
qed

lemma read_bytes_allocation:
  assumes wf: "heap_wf h" and rep: "heap_rep B es" "length es = length (heap_entries h)"
    and B: "B b' = Some k" "B b2 = Some n2" "b2 \<noteq> b'"
    and out: "\<forall>x. (\<forall>i<k * 4096. x \<noteq> heap_block_to_address h (int b') + of_nat i) \<longrightarrow> m' x = m x"
  shows "read_bytes m' (heap_block_to_address h (int b2)) (n2 * 4096)
       = read_bytes m (heap_block_to_address h (int b2)) (n2 * 4096)"
proof -
  have "separate (heap_block_to_address h (int b2)) (n2 * 4096)
          (heap_block_to_address h (int b')) (k * 4096)"
    using separate_blocks [OF wf, of b2 n2 b' k] heap_repD(2) [OF rep(1)] B rep(2)
      heap_rep_disjoint [OF rep(1) B(2,1,3)] by auto
  then show ?thesis using out by (intro read_bytes_cong) (auto simp: separate_def)
qed

text \<open>
  C19. \<^bold>\<open>Reallocation keeps the data.\<close> When \<open>heap_realloc\<close> of an allocation whose chain does not
  run into a neighbour returns a pointer, the block there starts with the old bytes, as many as
  both sizes have, the table records the resized allocation in place of the old one, and every
  other allocation is still there with its bytes unchanged. The chain stops in the allocation when it is of one block, when it
  was grown in place, or when no allocation starts right behind it; a fresh allocation of several blocks with a neighbour behind it is
  excluded, because the mark on its last block makes the neighbour part of the chain. The new size is not zero and below \<open>2 ^ 31\<close>, and that many blocks from the
  old one on end in the table.
\<close>

theorem heap_realloc_preserves_data:
  assumes "heap_wf h" "heap_rep A (heap_entries h)" "A b = Some n"
    and "contained A (heap_entries h) b n"
    and "new_size \<noteq> 0" "unat new_size \<le> 2 ^ 64 - 4096" "blocks_for new_size = k"
      "b + k \<le> length (heap_entries h)" "k * 4096 < 2 ^ 31"
    and "heap_realloc m h (heap_block_to_address h (int b)) new_size = Some (m', h', p)" "p \<noteq> 0"
  shows "\<exists>b'. p = heap_block_to_address h (int b') \<and>
      heap_rep (A(b := None, b' \<mapsto> k)) (heap_entries h') \<and>
      read_bytes m' p (min n k * 4096) = read_bytes m (heap_block_to_address h (int b)) (min n k * 4096) \<and>
      (\<forall>b2 n2. A b2 = Some n2 \<longrightarrow> b2 \<noteq> b \<longrightarrow>
         (A(b := None, b' \<mapsto> k)) b2 = Some n2 \<and>
         read_bytes m' (heap_block_to_address h (int b2)) (n2 * 4096)
           = read_bytes m (heap_block_to_address h (int b2)) (n2 * 4096))"
proof -
  have "realloc_outcome A m h b n k m' h' p"
    using heap_realloc_outcome [OF assms(1-9), where m = m] assms(10) by auto
  then obtain b' where b': "p = heap_block_to_address h (int b')" "same_pool h h'"
    "heap_rep (A(b := None, b' \<mapsto> k)) (heap_entries h')" "b' = b \<or> A b' = None"
    "\<forall>i<min n k * 4096. m' (p + of_nat i) = m (heap_block_to_address h (int b) + of_nat i)"
    "\<forall>x. (\<forall>i<k * 4096. x \<noteq> p + of_nat i) \<longrightarrow> m' x = m x"
    using assms(11) unfolding realloc_outcome_def by blast
  have len: "length (heap_entries h') = length (heap_entries h)"
    using b'(2) by (simp add: same_pool_def)
  have other: "(A(b := None, b' \<mapsto> k)) b2 = Some n2 \<and>
      read_bytes m' (heap_block_to_address h (int b2)) (n2 * 4096)
        = read_bytes m (heap_block_to_address h (int b2)) (n2 * 4096)"
    if "A b2 = Some n2" "b2 \<noteq> b" for b2 n2
  proof -
    have b2: "b2 \<noteq> b'" using that b'(4) by auto
    then have A2: "(A(b := None, b' \<mapsto> k)) b2 = Some n2" using that by simp
    show ?thesis
      using A2 read_bytes_allocation [OF assms(1) b'(3) len _ A2 b2, of k m' m] b'(1,6) by simp
  qed
  have "read_bytes m' p (min n k * 4096)
      = read_bytes m (heap_block_to_address h (int b)) (min n k * 4096)"
    using b'(5) by (intro read_bytes_cong) blast
  then show ?thesis using b'(1,3) other by blast
qed


text \<open>\<open>heap8\<close> with one block allocated at its start.\<close>

lemma heap8_malloc_1:
  "heap_rep [0 \<mapsto> 1] (heap_entries (malloc_result heap8 1 0))"
  "heap_wf (malloc_result heap8 1 0)"
  using heap_rep_malloc_result [OF heap8_rep heap8_free_run_1] heap8_wf
    same_pool_wf [OF same_pool_malloc_result, of heap8 1 0] by simp_all

theorem heap_realloc_preserves_data_witness:
  "\<exists>h'. heap_realloc (\<lambda>_. 7) (malloc_result heap8 1 0) 0x1000 8000 = Some (\<lambda>_. 7, h', 0x1000) \<and>
     (\<exists>b'. 0x1000 = heap_block_to_address heap8 (int b') \<and> heap_rep [b' \<mapsto> 2] (heap_entries h'))"
proof -
  let ?h = "malloc_result heap8 1 0"
  have c: "contained [0 \<mapsto> 1] (heap_entries ?h) 0 1"
    by (simp add: contained_def malloc_result_def nth_marked)
  have b: "blocks_for 8000 = 2" by (simp add: blocks_for_eq)
  have a0: "heap_block_to_address ?h (int 0) = 0x1000" by (simp add: heap_block_to_address_def)
  have f: "\<forall>i. 0 + 1 \<le> i \<longrightarrow> i < 0 + 2 \<longrightarrow> \<not> covered [0 \<mapsto> 1] i"
    by (auto simp: covered_def split: if_splits)
  obtain h' where r: "heap_realloc (\<lambda>_. 7) ?h 0x1000 8000 = Some (\<lambda>_. 7, h', 0x1000)"
    using heap_realloc_grow [OF heap8_malloc_1(2,1) _ c _ b _ _ f, of "\<lambda>_. 7"] a0 by auto
  have u: "[0 \<mapsto> 1](0 := None, b' \<mapsto> 2) = [b' \<mapsto> 2]" for b' :: nat by auto
  show ?thesis
    using heap_realloc_preserves_data [OF heap8_malloc_1(2,1) _ c _ _ b, of "\<lambda>_. 7" "\<lambda>_. 7" h' "0x1000"] r a0
    unfolding u by (auto simp: a0)
qed

text \<open>
  \<^bold>\<open>A shrinking reallocation moves the counters twice.\<close> \<open>heap_mark_blocks_free\<close> already takes
  the freed blocks off \<open>used_blocks\<close>, and \<open>heap_realloc\<close> takes them off again: the table is
  right, the counters are off by the number of freed blocks.
\<close>

theorem heap_realloc_shrink_counts_twice:
  assumes "heap_wf h" "heap_rep A (heap_entries h)" "A b = Some n"
    and "heap_entries h ! (b + n - 1) AND HEAP_BLOCK_HAS_NEXT = 0"
    and "new_size \<noteq> 0" "blocks_for new_size = k" "0 < k" "k < n"
  shows "\<exists>h'. heap_realloc m h (heap_block_to_address h (int b)) new_size =
      Some (m, h', heap_block_to_address h (int b)) \<and>
      heap_rep (A(b \<mapsto> k)) (heap_entries h') \<and>
      used_blocks h' = used_blocks h - 2 * of_nat (n - k) \<and>
      free_blocks h' = free_blocks h + 2 * of_nat (n - k)"
proof -
  have c: "contained A (heap_entries h) b n" using assms(4) by (simp add: contained_def)
  have "chain_len (heap_entries h) (b + k) = n - k"
    using chain_len_contained [OF assms(2,3) c assms(8)] assms(4) by simp
  then show ?thesis
    using heap_realloc_shrink [OF assms(1-3) c assms(5-8), of m] by (auto simp: algebra_simps)
qed

lemma heap8_grown:
  "\<exists>h. heap_wf h \<and> heap_rep [0 \<mapsto> 2] (heap_entries h) \<and>
     heap_entries h ! 1 AND HEAP_BLOCK_HAS_NEXT = 0 \<and> used_blocks h = 2 \<and> saddr h = 0x1000"
proof -
  let ?es = "0xC1 # 1 # replicate 6 0 :: u8 list"
  have n: "j < 2 \<longleftrightarrow> j = 0 \<or> j = 1" for j :: nat by auto
  have s: "covered [0 \<mapsto> 2] i \<longleftrightarrow> i < 2" for i
    by (auto simp: covered_def split: if_splits)
  have z: "?es ! i = 0" if "i < 8" "\<not> i < 2" for i
    using that by (simp add: nth_Cons')
  have "heap_rep [0 \<mapsto> 2] ?es"
    unfolding heap_rep_def by (auto simp: s z n entry_ok_def nth_Cons' split: if_splits)
  then show ?thesis
    by (intro exI [of _ "heap8\<lparr>heap_entries := ?es, used_blocks := 2\<rparr>"])
      (simp add: heap_wf_def word_less_nat_alt)
qed

theorem heap_realloc_shrink_counts_twice_witness:
  "\<exists>h h'. used_blocks h = 2 \<and> heap_realloc (\<lambda>_. 0) h 0x1000 4096 = Some ((\<lambda>_. 0), h', 0x1000) \<and>
     heap_rep [0 \<mapsto> 1] (heap_entries h') \<and> used_blocks h' = 0"
proof -
  obtain h where h: "heap_wf h" "heap_rep [0 \<mapsto> 2] (heap_entries h)"
    "heap_entries h ! 1 AND HEAP_BLOCK_HAS_NEXT = 0" "used_blocks h = 2" "saddr h = 0x1000"
    using heap8_grown by blast
  have b: "blocks_for 4096 = 1" by (simp add: blocks_for_eq)
  have "heap_block_to_address h (int 0) = 0x1000" using h(5) by (simp add: heap_block_to_address_def)
  then show ?thesis
    using heap_realloc_shrink_counts_twice [OF h(1,2), of 0 2 4096 1 "\<lambda>_. 0"] h(3-5) b
    by auto
qed

lemma heap_create_result:
  assumes "0 < ptr" "ptr \<le> endp" "unat endp < 2 ^ 63" "length tbl < 2 ^ 52"
  shows "\<exists>res h'. heap_create h ptr endp tbl = (res, h') \<and>
    (if ptr mod 4096 = 0 \<and> endp mod 4096 = 0 \<and> unat endp = unat ptr + length tbl * 4096
     then res = 0 \<and> heap_wf h' \<and> heap_rep Map.empty (heap_entries h') \<and>
          used_blocks h' = 0 \<and> unat (free_blocks h') = length tbl
     else res = - EINVARG)"
proof -
  have al: "ptr mod 4096 = 0 \<longleftrightarrow> 4096 dvd unat ptr" "endp mod 4096 = 0 \<longleftrightarrow> 4096 dvd unat endp"
    by (simp_all add: word_eq_iff_unsigned unat_mod dvd_eq_mod_eq_0 unat_eq_0 flip: unat_eq_0)
  have sub: "unat (endp - ptr) = unat endp - unat ptr" using assms(2) by (rule unat_sub)
  have le: "unat ptr \<le> unat endp" using assms(2) by (simp add: word_le_nat_alt)
  have blk: "of_nat (length tbl) = (endp - ptr) div 4096 \<longleftrightarrow> length tbl = (unat endp - unat ptr) div 4096"
    using assms(4) by (simp add: word_unat_eq_iff unat_div sub)
  show ?thesis
  proof (cases "4096 dvd unat ptr \<and> 4096 dvd unat endp")
    case True
    then obtain a c where ac: "unat ptr = 4096 * a" "unat endp = 4096 * c" by (auto elim!: dvdE)
    then have q: "(unat endp - unat ptr) div 4096 = c - a" by (simp flip: diff_mult_distrib2)
    have eq: "unat endp = unat ptr + length tbl * 4096 \<longleftrightarrow> length tbl = c - a"
      using le ac by auto
    have e: "endp = ptr + of_nat (length tbl * 4096)" if "unat endp = unat ptr + length tbl * 4096"
    proof -
      have "endp = of_nat (unat endp)" by simp
      also have "\<dots> = ptr + of_nat (length tbl * 4096)" unfolding that by simp
      finally show ?thesis .
    qed
    show ?thesis
      using True al blk q eq e assms(1,3,4)
      by (auto simp: heap_create_def heap_validate_alignment_def heap_validate_table_def Let_def
          heap_wf_def heap_rep_empty)
  next
    case False
    then show ?thesis using al by (auto simp: heap_create_def heap_validate_alignment_def)
  qed
qed

text \<open>
  \<^bold>\<open>Creation.\<close> \<open>heap_create\<close> succeeds exactly when both ends of the pool are block aligned and
  the table has one entry per block of the pool. It then leaves a well-formed heap with no
  allocation and counters that say so; otherwise it returns \<open>- EINVARG\<close>.
\<close>

theorem heap_create_establishes_invariant:
  assumes "0 < ptr" "ptr \<le> endp" "unat endp < 2 ^ 63" "length tbl < 2 ^ 52"
  shows "\<exists>res h'. heap_create h ptr endp tbl = (res, h') \<and>
    (if ptr mod 4096 = 0 \<and> endp mod 4096 = 0 \<and> unat endp = unat ptr + length tbl * 4096
     then res = 0 \<and> heap_wf h' \<and> heap_rep Map.empty (heap_entries h') \<and>
          used_blocks h' = 0 \<and> unat (free_blocks h') = length tbl
     else res = - EINVARG)"
  using assms by (rule heap_create_result)

theorem heap_create_establishes_invariant_witness:
  "\<exists>h'. heap_create heap8 0x1000 0x9000 (replicate 8 0xff) = (0, h') \<and> heap_wf h' \<and>
     heap_rep Map.empty (heap_entries h') \<and> unat (free_blocks h') = 8"
  using heap_create_establishes_invariant [where ptr = "0x1000" and endp = "0x9000" and tbl = "replicate 8 0xff" and h = heap8]
  by (auto simp: word_le_nat_alt word_less_nat_alt)

end
