(* ===== verification/Paging.thy ===== *)
theory Paging
  imports Memory
begin

section \<open>Page tables: paging.c\<close>

text \<open>
  The four-level page tables of \<open>memory/paging/paging.c\<close>. A table is 512 entries at a
  page-aligned address. The model keeps the tables in a typed store, from the base address of
  a table and an index to the entry there, beside the bytes of \<open>kmem\<close>; an entry is the record of
  the bit fields of \<open>struct paging_desc_entry\<close>.

  The functions that need new tables take the kernel's \<open>kzalloc\<close> as a parameter \<open>kz\<close>, because
  the allocator itself uses paging. What they rely on is the locale \<open>page_allocator\<close>, which the
  kernel heap discharges. \<open>kfree\<close> has an empty body in \<open>kheap.c\<close>, so the routines that free tables
  return the addresses they pass to it. The two assembly routines are the ghost fields
  \<open>tlb_invalidated\<close> (the arguments of \<open>paging_invalidate_tlb_entry\<close>, in order) and \<open>cr3\<close>.
\<close>

subsection \<open>Entries and state\<close>

abbreviation (input) PAGING_MAP_LEVEL_4 :: u8 where "PAGING_MAP_LEVEL_4 \<equiv> 4"
abbreviation (input) PAGING_CACHE_DISABLED :: u32 where "PAGING_CACHE_DISABLED \<equiv> 0x10"
abbreviation (input) PAGING_WRITE_THROUGH :: u32 where "PAGING_WRITE_THROUGH \<equiv> 0x08"
abbreviation (input) PAGING_ACCESS_FROM_ALL :: u32 where "PAGING_ACCESS_FROM_ALL \<equiv> 0x04"
abbreviation (input) PAGING_IS_WRITEABLE :: u32 where "PAGING_IS_WRITEABLE \<equiv> 0x02"
abbreviation (input) PAGING_IS_PRESENT :: u32 where "PAGING_IS_PRESENT \<equiv> 0x01"
abbreviation (input) PAGING_TOTAL_ENTRIES_PER_TABLE :: nat where
  "PAGING_TOTAL_ENTRIES_PER_TABLE \<equiv> 512"
abbreviation (input) PAGING_PAGE_SIZE :: u64 where "PAGING_PAGE_SIZE \<equiv> 4096"

record paging_desc_entry =
  present :: bool
  read_write :: bool
  user_supervisor :: bool
  pwt :: bool
  pcd :: bool
  accessed :: bool
  ignored :: bool
  reserved0 :: bool
  reserved1 :: "4 word"
  entry_address :: "40 word"
  available :: "11 word"
  execute_disable :: bool

type_synonym page_tables = "u64 \<Rightarrow> nat \<Rightarrow> paging_desc_entry"

record paging_desc =
  pml :: u64
  level :: u8

record kpaging = kstate +
  tables :: page_tables
  current_paging_desc :: "paging_desc option"
  cr3 :: u64
  tlb_invalidated :: "u64 list"

definition null_desc :: paging_desc_entry where
  "null_desc = \<lparr>present = False, read_write = False, user_supervisor = False, pwt = False,
     pcd = False, accessed = False, ignored = False, reserved0 = False, reserved1 = 0,
     entry_address = 0, available = 0, execute_disable = False\<rparr>"

definition paging_null_entry :: "paging_desc_entry \<Rightarrow> bool" where
  "paging_null_entry e \<longleftrightarrow> e = null_desc"

text \<open>The table or frame an entry points to, and the field for a pointer.\<close>

definition entry_base :: "paging_desc_entry \<Rightarrow> u64" where
  "entry_base e = push_bit 12 (ucast (entry_address e))"

definition address_field :: "u64 \<Rightarrow> 40 word" where
  "address_field p = ucast (drop_bit 12 p)"

subsection \<open>Alignment\<close>

definition paging_is_aligned :: "u64 \<Rightarrow> bool" where
  "paging_is_aligned addr \<longleftrightarrow> addr mod PAGING_PAGE_SIZE = 0"

definition paging_align_address :: "u64 \<Rightarrow> u64" where
  "paging_align_address ptr =
     (if ptr mod PAGING_PAGE_SIZE \<noteq> 0 then ptr + PAGING_PAGE_SIZE - ptr mod PAGING_PAGE_SIZE
      else ptr)"

definition paging_align_to_lower_page :: "u64 \<Rightarrow> u64" where
  "paging_align_to_lower_page addr = addr - addr mod PAGING_PAGE_SIZE"

definition paging_align_value_to_upper_page :: "u64 \<Rightarrow> u64" where
  "paging_align_value_to_upper_page val_in =
     (if val_in mod PAGING_PAGE_SIZE \<noteq> 0
      then val_in + PAGING_PAGE_SIZE - val_in mod PAGING_PAGE_SIZE else val_in)"

subsection \<open>Descriptors\<close>

definition paging_map_level_is_valid :: "u8 \<Rightarrow> bool" where
  "paging_map_level_is_valid lev \<longleftrightarrow> lev = PAGING_MAP_LEVEL_4"

definition paging_current_descriptor :: "'s kpaging_scheme \<Rightarrow> paging_desc option" where
  "paging_current_descriptor s = current_paging_desc s"

definition paging_switch :: "'s kpaging_scheme \<Rightarrow> paging_desc \<Rightarrow> 's kpaging_scheme" where
  "paging_switch s desc = s\<lparr>current_paging_desc := Some desc, cr3 := pml desc\<rparr>"

text \<open>A zeroed page seen as a table: all its entries are null.\<close>

definition kzalloc_table ::
  "('s kpaging_scheme \<Rightarrow> u64 \<Rightarrow> ('s kpaging_scheme \<times> u64) option) \<Rightarrow>
   's kpaging_scheme \<Rightarrow> ('s kpaging_scheme \<times> u64) option" where
  "kzalloc_table kz s = do {
     (s', p) \<leftarrow> kz s 4096;
     Some (if p = 0 then s' else s'\<lparr>tables := (tables s')(p := \<lambda>_. null_desc)\<rparr>, p)
   }"

definition paging_pml4_entries_new ::
  "('s kpaging_scheme \<Rightarrow> u64 \<Rightarrow> ('s kpaging_scheme \<times> u64) option) \<Rightarrow>
   's kpaging_scheme \<Rightarrow> ('s kpaging_scheme \<times> u64) option" where
  "paging_pml4_entries_new kz s = kzalloc_table kz s"

definition paging_desc_new ::
  "('s kpaging_scheme \<Rightarrow> u64 \<Rightarrow> ('s kpaging_scheme \<times> u64) option) \<Rightarrow>
   's kpaging_scheme \<Rightarrow> u8 \<Rightarrow> ('s kpaging_scheme \<times> paging_desc option) option" where
  "paging_desc_new kz s root_map_level =
     (if \<not> paging_map_level_is_valid root_map_level then Some (s, None)
      else do {
        (s1, desc) \<leftarrow> kz s 9;
        if desc = 0 then Some (s1, None)
        else do {
          (s2, p) \<leftarrow> paging_pml4_entries_new kz s1;
          Some (s2, Some \<lparr>pml = p, level = root_map_level\<rparr>)
        }
      })"

subsection \<open>Mapping\<close>

definition table_index :: "u64 \<Rightarrow> nat \<Rightarrow> nat" where
  "table_index va shift = unat (drop_bit shift va AND 0x1FF)"

definition entry_set :: "page_tables \<Rightarrow> u64 \<Rightarrow> nat \<Rightarrow> paging_desc_entry \<Rightarrow> page_tables" where
  "entry_set T t i e = T(t := (T t)(i := e))"

text \<open>
  The step \<open>paging_map\<close> takes at each of the three upper levels: allocate the child table when
  the entry is null, and go on with the table the entry points to. When the allocation fails the
  code goes on with a table at the null pointer, which is \<open>None\<close> here.
\<close>

definition paging_child_table ::
  "('s kpaging_scheme \<Rightarrow> u64 \<Rightarrow> ('s kpaging_scheme \<times> u64) option) \<Rightarrow>
   's kpaging_scheme \<Rightarrow> u64 \<Rightarrow> nat \<Rightarrow> ('s kpaging_scheme \<times> u64) option" where
  "paging_child_table kz s t i =
     (if paging_null_entry (tables s t i) then do {
        (s1, new_table) \<leftarrow> kzalloc_table kz s;
        let e = (tables s1 t i)\<lparr>entry_address := address_field new_table, present := True,
                                read_write := True, user_supervisor := True\<rparr>;
        let s2 = s1\<lparr>tables := entry_set (tables s1) t i e\<rparr>;
        if entry_base e = 0 then None else Some (s2, entry_base e)
      } else Some (s, entry_base (tables s t i)))"

definition paging_map ::
  "('s kpaging_scheme \<Rightarrow> u64 \<Rightarrow> ('s kpaging_scheme \<times> u64) option) \<Rightarrow>
   's kpaging_scheme \<Rightarrow> paging_desc \<Rightarrow> u64 \<Rightarrow> u64 \<Rightarrow> u32 \<Rightarrow> ('s kpaging_scheme \<times> int) option" where
  "paging_map kz s desc virt phys flags = do {
     let pml4_index = table_index virt 39;
     let pdpt_index = table_index virt 30;
     let pd_index = table_index virt 21;
     let pt_index = table_index virt 12;
     (s1, pdpt_entries) \<leftarrow> paging_child_table kz s (pml desc) pml4_index;
     (s2, pd_entries) \<leftarrow> paging_child_table kz s1 pdpt_entries pdpt_index;
     (s3, pt_entries) \<leftarrow> paging_child_table kz s2 pd_entries pd_index;
     let pt_entry = tables s3 pt_entries pt_index;
     let s4 = (if \<not> paging_null_entry pt_entry
               then s3\<lparr>tlb_invalidated := tlb_invalidated s3 @ [virt]\<rparr> else s3);
     let e = pt_entry\<lparr>entry_address := address_field phys,
                      present := (flags AND PAGING_IS_PRESENT \<noteq> 0),
                      read_write := (flags AND PAGING_IS_WRITEABLE \<noteq> 0),
                      user_supervisor := (flags AND PAGING_ACCESS_FROM_ALL \<noteq> 0)\<rparr>;
     Some (s4\<lparr>tables := entry_set (tables s4) pt_entries pt_index e\<rparr>, 0)
   }"

primrec map_range_loop ::
  "('s kpaging_scheme \<Rightarrow> u64 \<Rightarrow> ('s kpaging_scheme \<times> u64) option) \<Rightarrow>
   's kpaging_scheme \<Rightarrow> paging_desc \<Rightarrow> u64 \<Rightarrow> u64 \<Rightarrow> nat \<Rightarrow> u32 \<Rightarrow> int \<Rightarrow>
   ('s kpaging_scheme \<times> int) option" where
  "map_range_loop kz s desc virt phys 0 flags res = Some (s, res)"
| "map_range_loop kz s desc virt phys (Suc n) flags res = do {
     (s', res') \<leftarrow> paging_map kz s desc virt phys flags;
     if res' < 0 then Some (s', res')
     else map_range_loop kz s' desc (virt + PAGING_PAGE_SIZE) (phys + PAGING_PAGE_SIZE) n flags res'
   }"

text \<open>The loop counter is an \<open>int\<close>: it overflows for more than \<open>2 ^ 31\<close> pages.\<close>

definition paging_map_range ::
  "('s kpaging_scheme \<Rightarrow> u64 \<Rightarrow> ('s kpaging_scheme \<times> u64) option) \<Rightarrow>
   's kpaging_scheme \<Rightarrow> paging_desc \<Rightarrow> u64 \<Rightarrow> u64 \<Rightarrow> u64 \<Rightarrow> u32 \<Rightarrow>
   ('s kpaging_scheme \<times> int) option" where
  "paging_map_range kz s desc virt phys count flags =
     (if unat count < 2 ^ 31 then map_range_loop kz s desc virt phys (unat count) flags 0 else None)"

definition paging_map_to ::
  "('s kpaging_scheme \<Rightarrow> u64 \<Rightarrow> ('s kpaging_scheme \<times> u64) option) \<Rightarrow>
   's kpaging_scheme \<Rightarrow> paging_desc \<Rightarrow> u64 \<Rightarrow> u64 \<Rightarrow> u64 \<Rightarrow> u32 \<Rightarrow>
   ('s kpaging_scheme \<times> int) option" where
  "paging_map_to kz s desc virt phys phys_end flags =
     (if virt mod PAGING_PAGE_SIZE \<noteq> 0 then Some (s, - EINVARG)
      else if phys mod PAGING_PAGE_SIZE \<noteq> 0 then Some (s, - EINVARG)
      else if phys_end mod PAGING_PAGE_SIZE \<noteq> 0 then Some (s, - EINVARG)
      else if phys_end < phys then Some (s, - EINVARG)
      else
        let total_bytes = phys_end - phys;
            total_pages = total_bytes div PAGING_PAGE_SIZE
        in paging_map_range kz s desc virt phys total_pages flags)"

primrec map_e820_loop ::
  "('s kpaging_scheme \<Rightarrow> u64 \<Rightarrow> ('s kpaging_scheme \<times> u64) option) \<Rightarrow>
   's kpaging_scheme \<Rightarrow> paging_desc \<Rightarrow> e820_entry list \<Rightarrow> 's kpaging_scheme option" where
  "map_e820_loop kz s desc [] = Some s"
| "map_e820_loop kz s desc (entry # es) =
     (if e820_type entry = 1 then do {
        let base = base_addr entry;
        let end_addr = base_addr entry + e820_length entry;
        let base = (if \<not> paging_is_aligned base then paging_align_address base else base);
        let end_addr = (if \<not> paging_is_aligned end_addr then paging_align_to_lower_page end_addr
                        else end_addr);
        (s', _) \<leftarrow> paging_map_to kz s desc base base end_addr (PAGING_IS_WRITEABLE OR PAGING_IS_PRESENT);
        map_e820_loop kz s' desc es
      } else map_e820_loop kz s desc es)"

definition paging_map_e820_memory_regions ::
  "('s kpaging_scheme \<Rightarrow> u64 \<Rightarrow> ('s kpaging_scheme \<times> u64) option) \<Rightarrow>
   's kpaging_scheme \<Rightarrow> e820_entry list \<Rightarrow> paging_desc \<Rightarrow> ('s kpaging_scheme \<times> int) option" where
  "paging_map_e820_memory_regions kz s es desc = do {
     (s1, _) \<leftarrow> paging_map_to kz s desc 0 0 0x100000 (PAGING_IS_WRITEABLE OR PAGING_IS_PRESENT);
     s2 \<leftarrow> map_e820_loop kz s1 desc es;
     Some (s2, 0)
   }"

subsection \<open>Lookup\<close>

text \<open>
  The pointer \<open>paging_get\<close> returns is a table and an index. The code tests entry \<open>0\<close> of the next
  table after each level, as written here.
\<close>

definition paging_get :: "page_tables \<Rightarrow> paging_desc \<Rightarrow> u64 \<Rightarrow> (u64 \<times> nat) option" where
  "paging_get T desc virt =
     (let pml4_index = table_index virt 39;
          pdpt_index = table_index virt 30;
          pd_index = table_index virt 21;
          pt_index = table_index virt 12;
          pml4_entry = T (pml desc) pml4_index
      in if paging_null_entry pml4_entry then None
      else let pdpt_entries = entry_base pml4_entry
      in if paging_null_entry (T pdpt_entries 0) then None
      else let pdpt_entry = T pdpt_entries pdpt_index
      in if paging_null_entry pdpt_entry then None
      else let pd_entries = entry_base pdpt_entry
      in if paging_null_entry (T pd_entries 0) then None
      else let pd_entry = T pd_entries pd_index
      in if paging_null_entry pd_entry then None
      else let pt_entries = entry_base pd_entry
      in if paging_null_entry (T pd_entries 0) then None
      else Some (pt_entries, pt_index))"

definition paging_get_physical_address :: "page_tables \<Rightarrow> paging_desc \<Rightarrow> u64 \<Rightarrow> u64" where
  "paging_get_physical_address T desc va =
     (case paging_get T desc va of
        None \<Rightarrow> 0
      | Some (t, i) \<Rightarrow> entry_base (T t i) + (va AND 0xFFF))"

subsection \<open>Release\<close>

text \<open>
  The addresses passed to \<open>kfree\<close>, in order; the fuel is the level, which the code counts down.
  A call with level \<open>0\<close> panics.
\<close>

primrec concat_option :: "'a list option list \<Rightarrow> 'a list option" where
  "concat_option [] = Some []"
| "concat_option (x # xs) = do { a \<leftarrow> x; b \<leftarrow> concat_option xs; Some (a @ b) }"

fun desc_entry_free_loop :: "page_tables \<Rightarrow> u64 \<Rightarrow> nat \<Rightarrow> u64 list option" where
  "desc_entry_free_loop T t 0 = (if paging_null_entry (T t 0) then Some [] else None)"
| "desc_entry_free_loop T t (Suc lev) =
     (if paging_null_entry (T t 0) then Some []
      else do {
        children \<leftarrow>
          (if lev > 0
           then concat_option (map (\<lambda>i.
                  if \<not> paging_null_entry (T t i) \<and> entry_base (T t i) \<noteq> 0
                  then desc_entry_free_loop T (entry_base (T t i)) lev else Some [])
                [0..<PAGING_TOTAL_ENTRIES_PER_TABLE])
           else Some []);
        Some (children @ [t])
      })"

definition paging_desc_entry_free :: "page_tables \<Rightarrow> u64 \<Rightarrow> u8 \<Rightarrow> u64 list option" where
  "paging_desc_entry_free T t lev =
     (if paging_null_entry (T t 0) then Some []
      else if lev = 0 then None
      else if lev > PAGING_MAP_LEVEL_4 then None
      else desc_entry_free_loop T t (unat lev))"

text \<open>\<open>desc_ptr\<close> is the address of the descriptor itself, freed last.\<close>

definition paging_desc_free :: "page_tables \<Rightarrow> u64 \<Rightarrow> paging_desc \<Rightarrow> u64 list option" where
  "paging_desc_free T desc_ptr desc = do {
     children \<leftarrow> concat_option (map (\<lambda>i.
       if \<not> paging_null_entry (T (pml desc) i) \<and> entry_base (T (pml desc) i) \<noteq> 0
       then paging_desc_entry_free T (entry_base (T (pml desc) i)) (level desc - 1) else Some [])
       [0..<PAGING_TOTAL_ENTRIES_PER_TABLE]);
     Some (children @ [pml desc, desc_ptr])
   }"

subsection \<open>The tree of tables\<close>

text \<open>The table reached from \<open>t\<close> along a list of indices.\<close>

primrec table_at :: "page_tables \<Rightarrow> u64 \<Rightarrow> nat list \<Rightarrow> u64 option" where
  "table_at T t [] = Some t"
| "table_at T t (i # is) =
     (if paging_null_entry (T t i) then None else table_at T (entry_base (T t i)) is)"

lemma table_at_append:
  "table_at T t (is @ js) =
     (case table_at T t is of None \<Rightarrow> None | Some u \<Rightarrow> table_at T u js)"
  by (induction "is" arbitrary: t) auto

text \<open>
  A page-table tree: all tables are in \<open>L\<close>, no table is reached along two paths, and the entries
  above the last level grant everything, as \<open>paging_map\<close> writes them.
\<close>

definition pt_tree :: "page_tables \<Rightarrow> u64 \<Rightarrow> u64 set \<Rightarrow> bool" where
  "pt_tree T root L \<longleftrightarrow>
     (\<forall>p u. length p \<le> 3 \<longrightarrow> table_at T root p = Some u \<longrightarrow> u \<in> L) \<and>
     (\<forall>p q u. length p \<le> 3 \<longrightarrow> length q \<le> 3 \<longrightarrow> table_at T root p = Some u \<longrightarrow>
        table_at T root q = Some u \<longrightarrow> p = q) \<and>
     (\<forall>p u i. length p < 3 \<longrightarrow> table_at T root p = Some u \<longrightarrow> \<not> paging_null_entry (T u i) \<longrightarrow>
        present (T u i) \<and> read_write (T u i) \<and> user_supervisor (T u i))"

lemma pt_treeD:
  assumes "pt_tree T root L"
  shows "length p \<le> 3 \<Longrightarrow> table_at T root p = Some u \<Longrightarrow> u \<in> L"
    and "length p \<le> 3 \<Longrightarrow> length q \<le> 3 \<Longrightarrow> table_at T root p = Some u \<Longrightarrow>
      table_at T root q = Some u \<Longrightarrow> p = q"
    and "length p < 3 \<Longrightarrow> table_at T root p = Some u \<Longrightarrow> \<not> paging_null_entry (T u i) \<Longrightarrow>
      present (T u i) \<and> read_write (T u i) \<and> user_supervisor (T u i)"
  using assms unfolding pt_tree_def by blast+

lemma entry_set_apply: "entry_set T t i e u j = (if u = t \<and> j = i then e else T u j)"
  by (simp add: entry_set_def)

text \<open>A change of one entry leaves every path that does not go through it.\<close>

lemma table_at_entry_set:
  assumes "pt_tree T root L" "length p \<le> 3" "table_at T root p = Some u"
    and "length q \<le> 3" "\<forall>r. q \<noteq> p @ i # r"
  shows "table_at (entry_set T u i e) root q = table_at T root q"
  using assms(4,5)
proof (induction q rule: rev_induct)
  case Nil
  then show ?case by simp
next
  case (snoc j q)
  have IH: "table_at (entry_set T u i e) root q = table_at T root q"
  proof (rule snoc.IH)
    show "length q \<le> 3" using snoc.prems(1) by simp
    show "\<forall>r. q \<noteq> p @ i # r" using snoc.prems(2) by auto
  qed
  have "\<not> (v = u \<and> j = i)" if "table_at T root q = Some v" for v
    using pt_treeD(2) [OF assms(1,2) _ assms(3), of q] that snoc.prems by auto
  then have "entry_set T u i e v j = T v j" if "table_at T root q = Some v" for v
    using that by (auto simp: entry_set_apply)
  then show ?case
    using IH by (auto simp: table_at_append split: option.splits)
qed

lemma table_at_fresh:
  assumes "pt_tree T root L" "c \<notin> L" "length q \<le> 3"
  shows "table_at (T(c := t)) root q = table_at T root q"
  using assms(3)
proof (induction q rule: rev_induct)
  case Nil
  then show ?case by simp
next
  case (snoc j q)
  have "v \<noteq> c" if "table_at T root q = Some v" for v
    using pt_treeD(1) [OF assms(1), of q v] that snoc.prems assms(2) by auto
  then show ?case
    using snoc by (auto simp: table_at_append split: option.splits)
qed

lemma pt_tree_fresh:
  assumes "pt_tree T root L" "c \<notin> L" "L \<subseteq> L'"
  shows "pt_tree (T(c := t)) root L'"
proof -
  have at: "table_at (T(c := t)) root q = table_at T root q" if "length q \<le> 3" for q
    by (rule table_at_fresh [OF assms(1,2) that])
  have c: "table_at T root p \<noteq> Some c" if "length p \<le> 3" for p
    using pt_treeD(1) [OF assms(1) that] assms(2) by auto
  show ?thesis
    unfolding pt_tree_def
  proof (intro conjI allI impI)
    fix p u assume "length p \<le> 3" "table_at (T(c := t)) root p = Some u"
    then show "u \<in> L'" using at pt_treeD(1) [OF assms(1)] assms(3) by auto
  next
    fix p q u assume "length p \<le> 3" "length q \<le> 3" "table_at (T(c := t)) root p = Some u"
      "table_at (T(c := t)) root q = Some u"
    then show "p = q" using at pt_treeD(2) [OF assms(1)] by simp
  next
    fix p u i assume p: "length p < 3" "table_at (T(c := t)) root p = Some u"
      "\<not> paging_null_entry ((T(c := t)) u i)"
    then have "table_at T root p = Some u" "u \<noteq> c" using at c [of p] by auto
    then show "present ((T(c := t)) u i)" "read_write ((T(c := t)) u i)" "user_supervisor ((T(c := t)) u i)"
      using pt_treeD(3) [OF assms(1) p(1)] p(3) by auto
  qed
qed

text \<open>A new null table hung into a null entry above the last level.\<close>

lemma pt_tree_grow:
  assumes tree: "pt_tree T root L" and p: "length p < 3" "table_at T root p = Some u"
    and n: "paging_null_entry (T u i)" and c: "c \<in> L" "\<And>q. length q \<le> 3 \<Longrightarrow> table_at T root q \<noteq> Some c"
    and tc: "T c = (\<lambda>_. null_desc)"
    and e: "entry_base e = c" "present e" "read_write e" "user_supervisor e"
  defines "T' \<equiv> entry_set T u i e"
  shows "pt_tree T' root L" "table_at T' root (p @ [i]) = Some c"
    and "\<And>q. length q \<le> 3 \<Longrightarrow> table_at T' root q =
      (if q = p @ [i] then Some c else if \<exists>r. q = p @ i # r then None else table_at T root q)"
proof -
  have ne: "\<not> paging_null_entry e" using e(2) by (auto simp: paging_null_entry_def null_desc_def)
  have tp: "table_at T' root p = Some u"
    using table_at_entry_set [OF tree _ p(2), of p i e] p by (simp add: T'_def)
  have cu: "c \<noteq> u" using c(2) [of p] p by auto
  have below: "table_at T' root (p @ i # r) = (if r = [] then Some c else None)" for r
    using tp ne e(1) cu tc
    by (cases r) (auto simp: table_at_append T'_def entry_set_apply paging_null_entry_def)
  show at: "table_at T' root q =
      (if q = p @ [i] then Some c else if \<exists>r. q = p @ i # r then None else table_at T root q)"
    if "length q \<le> 3" for q
  proof (cases "\<exists>r. q = p @ i # r")
    case True
    then show ?thesis using below by (auto split: if_splits)
  next
    case False
    then show ?thesis
      using table_at_entry_set [OF tree _ p(2) that, of i e] p(1) by (auto simp: T'_def)
  qed
  show "table_at T' root (p @ [i]) = Some c" using below by simp
  have old: "table_at T root q = Some v \<and> v \<noteq> c"
    if "length q \<le> 3" "table_at T' root q = Some v" "q \<noteq> p @ [i]" for q v
    using that at [of q] c(2) [of q] by (auto split: if_splits)
  show "pt_tree T' root L"
    unfolding pt_tree_def
  proof (intro conjI allI impI)
    fix q v assume "length q \<le> 3" "table_at T' root q = Some v"
    then show "v \<in> L" using old at [of q] pt_treeD(1) [OF tree] c(1) by (metis option.inject)
  next
    fix q q' v assume q: "length q \<le> 3" "length q' \<le> 3" "table_at T' root q = Some v"
      "table_at T' root q' = Some v"
    then show "q = q'"
      using old [of q v] old [of q' v] pt_treeD(2) [OF tree q(1,2)] below [of "[]"]
      by (cases "q = p @ [i]"; cases "q' = p @ [i]") auto
  next
    fix q v j assume q: "length q < 3" "table_at T' root q = Some v" "\<not> paging_null_entry (T' v j)"
    show "present (T' v j)" "read_write (T' v j)" "user_supervisor (T' v j)"
    proof (atomize (full), cases "v = u \<and> j = i")
      case True
      then show "present (T' v j) \<and> read_write (T' v j) \<and> user_supervisor (T' v j)"
        using e by (simp add: T'_def entry_set_apply)
    next
      case False
      then have t: "T' v j = T v j" by (auto simp: T'_def entry_set_apply)
      have "q \<noteq> p @ [i]" using q(2,3) t tc below [of "[]"] by (auto simp: paging_null_entry_def)
      then show "present (T' v j) \<and> read_write (T' v j) \<and> user_supervisor (T' v j)"
        using old [of q v] q t pt_treeD(3) [OF tree q(1)] by simp
    qed
  qed
qed

text \<open>A change in a table of the last level changes no path.\<close>

lemma pt_tree_leaf:
  assumes tree: "pt_tree T root L" and p: "length p = 3" "table_at T root p = Some u"
  shows "length q \<le> 3 \<Longrightarrow> table_at (entry_set T u i e) root q = table_at T root q"
    and "pt_tree (entry_set T u i e) root L"
proof -
  have at: "table_at (entry_set T u i e) root q = table_at T root q" if "length q \<le> 3" for q
    by (rule table_at_entry_set [OF tree _ p(2) that]) (use p(1) that in auto)
  then show "length q \<le> 3 \<Longrightarrow> table_at (entry_set T u i e) root q = table_at T root q" .
  have "v \<noteq> u" if "length q < 3" "table_at T root q = Some v" for q v
    using pt_treeD(2) [OF tree, of q p u] that p by auto
  then have "entry_set T u i e v j = T v j" if "length q < 3" "table_at T root q = Some v" for q v j
    using that by (auto simp: entry_set_apply)
  then show "pt_tree (entry_set T u i e) root L"
    unfolding pt_tree_def using at pt_treeD [OF tree] by (auto dest: less_imp_le)
qed

subsection \<open>The hardware walk\<close>

text \<open>
  What the processor does with the tables: follow present entries for the four indices of an
  address, and combine the rights of the entries. The result is the physical address and whether
  the page may be written, and used from user mode.
\<close>

primrec mmu_walk :: "page_tables \<Rightarrow> u64 \<Rightarrow> nat list \<Rightarrow> bool \<Rightarrow> bool \<Rightarrow> (u64 \<times> bool \<times> bool) option" where
  "mmu_walk T t [] w u = Some (t, w, u)"
| "mmu_walk T t (i # is) w u =
     (let e = T t i in
      if present e then mmu_walk T (entry_base e) is (w \<and> read_write e) (u \<and> user_supervisor e)
      else None)"

definition walk_indices :: "u64 \<Rightarrow> nat list" where
  "walk_indices va = [table_index va 39, table_index va 30, table_index va 21]"

definition mmu_translate :: "page_tables \<Rightarrow> u64 \<Rightarrow> u64 \<Rightarrow> (u64 \<times> bool \<times> bool) option" where
  "mmu_translate T root va =
     (case mmu_walk T root (walk_indices va @ [table_index va 12]) True True of
        None \<Rightarrow> None
      | Some (f, w, u) \<Rightarrow> Some (f + (va AND 0xFFF), w, u))"

text \<open>The entry of the last level for a path, null when the path ends early.\<close>

definition leaf_entry :: "page_tables \<Rightarrow> u64 \<Rightarrow> nat list \<Rightarrow> nat \<Rightarrow> paging_desc_entry" where
  "leaf_entry T root is i = (case table_at T root is of None \<Rightarrow> null_desc | Some t \<Rightarrow> T t i)"

lemma null_desc_simps [simp]:
  "present null_desc = False" "paging_null_entry null_desc"
  by (simp_all add: null_desc_def paging_null_entry_def)

lemma leaf_entry_fresh:
  assumes "pt_tree T root L" "c \<notin> L" "length is = 3"
  shows "leaf_entry (T(c := t)) root is j = leaf_entry T root is j"
proof -
  have "v \<noteq> c" if "table_at T root is = Some v" for v
    using pt_treeD(1) [OF assms(1) _ that] assms(2,3) by auto
  then show ?thesis
    using table_at_fresh [OF assms(1,2), of "is" t] assms(3)
    by (auto simp: leaf_entry_def split: option.splits)
qed

lemma leaf_entry_grow:
  assumes tree: "pt_tree T root L" and p: "length p < 3" "table_at T root p = Some u"
    and n: "paging_null_entry (T u i)" and c: "c \<in> L" "\<And>q. length q \<le> 3 \<Longrightarrow> table_at T root q \<noteq> Some c"
    and tc: "T c = (\<lambda>_. null_desc)"
    and e: "entry_base e = c" "present e" "read_write e" "user_supervisor e"
    and l: "length is = 3"
  shows "leaf_entry (entry_set T u i e) root is j = leaf_entry T root is j"
proof -
  have at: "table_at (entry_set T u i e) root is =
      (if is = p @ [i] then Some c else if \<exists>r. is = p @ i # r then None else table_at T root is)"
    by (rule pt_tree_grow(3) [OF tree p n c tc e]) (simp_all add: l)
  have cu: "c \<noteq> u" using c(2) [of p] p by auto
  have none: "table_at T root (p @ i # r) = None" for r using p(2) n by (simp add: table_at_append)
  show ?thesis
  proof (cases "\<exists>r. is = p @ i # r")
    case True
    then have "table_at T root is = None" using none by auto
    moreover have "entry_set T u i e c j = null_desc" using cu tc by (simp add: entry_set_apply)
    ultimately show ?thesis using at True by (simp add: leaf_entry_def)
  next
    case False
    then have same: "table_at (entry_set T u i e) root is = table_at T root is" using at by auto
    have "v \<noteq> u" if "table_at T root is = Some v" for v
      using pt_treeD(2) [OF tree _ _ that, of p] p l by auto
    then have "entry_set T u i e v j = T v j" if "table_at T root is = Some v" for v
      using that by (auto simp: entry_set_apply)
    then show ?thesis using same by (simp add: leaf_entry_def split: option.splits)
  qed
qed

lemma mmu_walk_tree:
  assumes "\<And>p u i. length p < length is \<Longrightarrow> table_at T t p = Some u \<Longrightarrow>
      \<not> paging_null_entry (T u i) \<Longrightarrow> present (T u i) \<and> read_write (T u i) \<and> user_supervisor (T u i)"
  shows "mmu_walk T t (is @ [i]) True True =
    (if present (leaf_entry T t is i)
     then Some (entry_base (leaf_entry T t is i), read_write (leaf_entry T t is i),
                user_supervisor (leaf_entry T t is i))
     else None)"
  using assms
proof (induction "is" arbitrary: t)
  case Nil
  then show ?case by (simp add: leaf_entry_def Let_def)
next
  case (Cons j js)
  show ?case
  proof (cases "paging_null_entry (T t j)")
    case True
    then show ?thesis by (simp add: leaf_entry_def paging_null_entry_def)
  next
    case False
    have g: "present (T t j) \<and> read_write (T t j) \<and> user_supervisor (T t j)"
      using Cons.prems [of "[]" t j] False by simp
    have "present (T u i) \<and> read_write (T u i) \<and> user_supervisor (T u i)"
      if "length p < length js" "table_at T (entry_base (T t j)) p = Some u"
        "\<not> paging_null_entry (T u i)" for p u i
      using Cons.prems [of "j # p" u i] that False by simp
    then show ?thesis
      using Cons.IH [of "entry_base (T t j)"] g False by (simp add: leaf_entry_def Let_def)
  qed
qed

lemma mmu_translate_leaf:
  assumes "pt_tree T root L"
  shows "mmu_translate T root va =
    (let e = leaf_entry T root (walk_indices va) (table_index va 12) in
     if present e then Some (entry_base e + (va AND 0xFFF), read_write e, user_supervisor e) else None)"
proof -
  have "present (T u i) \<and> read_write (T u i) \<and> user_supervisor (T u i)"
    if "length p < length (walk_indices va)" "table_at T root p = Some u" "\<not> paging_null_entry (T u i)" for p u i
    by (rule pt_treeD(3) [OF assms _ that(2,3)]) (use that(1) in \<open>simp add: walk_indices_def\<close>)
  then show ?thesis
    unfolding mmu_translate_def by (subst mmu_walk_tree) (auto simp: Let_def)
qed

subsection \<open>Pages of an address\<close>

definition same_page :: "u64 \<Rightarrow> u64 \<Rightarrow> bool" where
  "same_page va va' \<longleftrightarrow> drop_bit 12 (take_bit 48 va) = drop_bit 12 (take_bit 48 va')"

lemma word_bits_iff: "a = b \<longleftrightarrow> (\<forall>n. bit a n \<longleftrightarrow> bit b n)" for a b :: u64
  by (auto intro: bit_word_eqI)

lemma table_index_eq_iff:
  "table_index va s = table_index va' s \<longleftrightarrow> (\<forall>n<9. bit va (s + n) \<longleftrightarrow> bit va' (s + n))"
proof -
  have m: "bit (0x1FF :: u64) n \<longleftrightarrow> n < 9" for n
  proof -
    have "(0x1FF :: u64) = mask 9" by (simp add: mask_eq_exp_minus_1)
    then show ?thesis by (simp only: bit_mask_iff) auto
  qed
  have b: "bit (drop_bit s v AND 0x1FF) n \<longleftrightarrow> n < 9 \<and> bit v (s + n)" for v :: u64 and n
    by (simp only: bit_and_iff bit_drop_bit_eq m comp_def conj_commute)
  have "table_index va s = table_index va' s \<longleftrightarrow>
      drop_bit s va AND 0x1FF = drop_bit s va' AND 0x1FF"
    unfolding table_index_def by (simp add: word_unat_eq_iff)
  also have "\<dots> \<longleftrightarrow> (\<forall>n. n < 9 \<and> bit va (s + n) \<longleftrightarrow> n < 9 \<and> bit va' (s + n))"
    by (simp only: word_bits_iff b)
  finally show ?thesis by auto
qed

lemma same_page_iff:
  "same_page va va' \<longleftrightarrow> walk_indices va = walk_indices va' \<and> table_index va 12 = table_index va' 12"
proof -
  have "same_page va va' \<longleftrightarrow> (\<forall>n. 12 \<le> n \<longrightarrow> n < 48 \<longrightarrow> (bit va n \<longleftrightarrow> bit va' n))"
  proof -
    have b: "bit (drop_bit 12 (take_bit 48 v)) n \<longleftrightarrow> 12 + n < 48 \<and> bit v (12 + n)" for v :: u64 and n
      by (simp only: bit_drop_bit_eq bit_take_bit_iff comp_def)
    have "same_page va va' \<longleftrightarrow> (\<forall>n. 12 + n < 48 \<and> bit va (12 + n) \<longleftrightarrow> 12 + n < 48 \<and> bit va' (12 + n))"
      unfolding same_page_def by (simp only: word_bits_iff b)
    also have "\<dots> \<longleftrightarrow> (\<forall>n. 12 \<le> n \<longrightarrow> n < 48 \<longrightarrow> (bit va n \<longleftrightarrow> bit va' n))"
    proof (rule iffI, intro allI impI)
      fix n :: nat
      assume a: "\<forall>n. 12 + n < 48 \<and> bit va (12 + n) \<longleftrightarrow> 12 + n < 48 \<and> bit va' (12 + n)" "12 \<le> n" "n < 48"
      then show "bit va n \<longleftrightarrow> bit va' n" using spec [OF a(1), of "n - 12"] by simp
    qed auto
    finally show ?thesis .
  qed
  also have "\<dots> \<longleftrightarrow> (\<forall>n<9. \<forall>s\<in>{12,21,30,39}. bit va (s + n) \<longleftrightarrow> bit va' (s + n))"
  proof (rule iffI; intro allI impI ballI)
    fix n s :: nat assume "\<forall>n. 12 \<le> n \<longrightarrow> n < 48 \<longrightarrow> (bit va n \<longleftrightarrow> bit va' n)" "n < 9" "s \<in> {12,21,30,39}"
    then show "bit va (s + n) \<longleftrightarrow> bit va' (s + n)" by auto
  next
    fix n :: nat assume a: "\<forall>n<9. \<forall>s\<in>{12,21,30,39}. bit va (s + n) \<longleftrightarrow> bit va' (s + n)" "12 \<le> n" "n < 48"
    define s where "s = (if n < 21 then 12 else if n < 30 then 21 else if n < 39 then 30 else 39 :: nat)"
    have "s \<in> {12,21,30,39}" "n - s < 9" "s + (n - s) = n" using a(2,3) by (auto simp: s_def)
    then show "bit va n \<longleftrightarrow> bit va' n" using a(1) by metis
  qed
  also have "\<dots> \<longleftrightarrow> walk_indices va = walk_indices va' \<and> table_index va 12 = table_index va' 12"
    by (auto simp: walk_indices_def table_index_eq_iff)
  finally show ?thesis .
qed

lemma entry_base_address_field:
  assumes "p mod 4096 = 0" "p < 2 ^ 52"
  shows "push_bit 12 (ucast (address_field p)) = p"
proof -
  have a: "\<not> bit p n" if "n < 12" for n
  proof -
    have "take_bit 12 p = 0" using assms(1) by (simp add: take_bit_eq_mod)
    then show ?thesis using that by (metis bit_0_eq bit_take_bit_iff bot_apply bot_bool_def)
  qed
  have "take_bit 52 p = p" using assms(2) by (simp add: take_bit_eq_mod word_unat_eq_iff unat_mod word_less_nat_alt)
  then have b: "n < 52" if "bit p n" for n using that by (metis bit_take_bit_iff)
  show ?thesis
    unfolding address_field_def
  proof (rule bit_word_eqI)
    fix n
    have "12 \<le> n" if "bit p n" using a [of n] that by (meson not_le)
    then show "bit (push_bit 12 (ucast (ucast (drop_bit 12 p) :: 40 word)) :: u64) n \<longleftrightarrow> bit p n"
      using b [of n] by (auto simp: bit_simps le_iff_add)
  qed
qed

subsection \<open>Mapping a page\<close>

text \<open>
  The interface to the allocator: a page it returns is fresh, page aligned and below \<open>2 ^ 52\<close>, so
  that an entry can hold its address. \<open>live\<close> are the pages handed out and \<open>room\<close> counts the pages
  still to be had; neither depends on the tables.
\<close>

locale page_allocator =
  fixes kz :: "'s kpaging_scheme \<Rightarrow> u64 \<Rightarrow> ('s kpaging_scheme \<times> u64) option"
    and inv :: "'s kpaging_scheme \<Rightarrow> bool"
    and live :: "'s kpaging_scheme \<Rightarrow> u64 set"
    and room :: "'s kpaging_scheme \<Rightarrow> nat"
  assumes kz_page: "inv s \<Longrightarrow> 0 < room s \<Longrightarrow>
      \<exists>s' p. kz s 4096 = Some (s', p) \<and> inv s' \<and> tables s' = tables s \<and>
        tlb_invalidated s' = tlb_invalidated s \<and>
        p \<notin> live s \<and> live s' = insert p (live s) \<and> room s = Suc (room s') \<and>
        p \<noteq> 0 \<and> p mod 4096 = 0 \<and> p < 2 ^ 52"
    and inv_tables: "inv (s\<lparr>tables := T\<rparr>) = inv s"
    and live_tables: "live (s\<lparr>tables := T\<rparr>) = live s"
    and room_tables: "room (s\<lparr>tables := T\<rparr>) = room s"
    and inv_tlb: "inv (s\<lparr>tlb_invalidated := l\<rparr>) = inv s"
    and live_tlb: "live (s\<lparr>tlb_invalidated := l\<rparr>) = live s"
    and room_tlb: "room (s\<lparr>tlb_invalidated := l\<rparr>) = room s"
begin

lemmas frame = inv_tables live_tables room_tables inv_tlb live_tlb room_tlb

definition ready :: "'s kpaging_scheme \<Rightarrow> u64 \<Rightarrow> bool" where
  "ready s root \<longleftrightarrow> inv s \<and> pt_tree (tables s) root (live s)"

lemma child_table:
  assumes r: "ready s root" and p: "length p < 3" "table_at (tables s) root p = Some t"
    and "0 < room s"
  shows "\<exists>s' c. paging_child_table kz s t i = Some (s', c) \<and> ready s' root \<and>
    room s \<le> Suc (room s') \<and> live s \<subseteq> live s' \<and> tlb_invalidated s' = tlb_invalidated s \<and>
    table_at (tables s') root (p @ [i]) = Some c \<and>
    (\<forall>is j. length is = 3 \<longrightarrow> leaf_entry (tables s') root is j = leaf_entry (tables s) root is j)"
proof (cases "paging_null_entry (tables s t i)")
  case False
  then show ?thesis
    using r p by (auto simp: paging_child_table_def table_at_append)
next
  case True
  let ?T = "tables s"
  have inv: "inv s" and tree: "pt_tree ?T root (live s)" using r by (auto simp: ready_def)
  obtain s1 c where z: "kz s 4096 = Some (s1, c)" "inv s1" "tables s1 = ?T"
    "tlb_invalidated s1 = tlb_invalidated s" "c \<notin> live s" "live s1 = insert c (live s)"
    "room s = Suc (room s1)" "c \<noteq> 0" "c mod 4096 = 0" "c < 2 ^ 52"
    using kz_page [OF inv assms(4)] by (elim exE conjE) (rule that)
  let ?T1 = "?T(c := \<lambda>_. null_desc)"
  let ?e = "null_desc\<lparr>entry_address := address_field c, present := True, read_write := True,
      user_supervisor := True\<rparr>"
  let ?s' = "s1\<lparr>tables := entry_set ?T1 t i ?e\<rparr>"
  have tree1: "pt_tree ?T1 root (live s1)"
    using pt_tree_fresh [OF tree z(5)] z(6) by blast
  have at1: "table_at ?T1 root q = table_at ?T root q" if "length q \<le> 3" for q
    by (rule table_at_fresh [OF tree z(5) that])
  have tc: "t \<noteq> c" using pt_treeD(1) [OF tree _ p(2)] p(1) z(5) by auto
  have base: "entry_base ?e = c"
    unfolding entry_base_def using entry_base_address_field [OF z(9,10)] by simp
  have nc: "table_at ?T1 root q \<noteq> Some c" if "length q \<le> 3" for q
    using at1 [OF that] pt_treeD(1) [OF tree that, of c] z(5) by auto
  have g: "table_at ?T1 root p = Some t" "paging_null_entry (?T1 t i)" "c \<in> live s1"
    using at1 [of p] p tc True z(6) by auto
  have c0: "?T1 c = (\<lambda>_. null_desc)" "present ?e" "read_write ?e" "user_supervisor ?e" by simp_all
  note grow = pt_tree_grow [OF tree1 p(1) g nc c0(1) base c0(2-4)]
  have e0: "?T1 t i = null_desc" using True tc by (simp add: paging_null_entry_def)
  have res: "paging_child_table kz s t i = Some (?s', c)"
    using True z e0 base
    by (simp add: paging_child_table_def kzalloc_table_def Let_def)
  have rdy: "ready ?s' root"
    using grow(1) z(2) by (simp add: ready_def frame del: fun_upd_apply)
  have leaf: "leaf_entry (tables ?s') root is j = leaf_entry ?T root is j" if "length is = 3" for "is" j
    using leaf_entry_grow [OF tree1 p(1) g nc c0(1) base c0(2-4) that]
      leaf_entry_fresh [OF tree z(5) that] by (simp del: fun_upd_apply)
  have at2: "table_at (tables ?s') root (p @ [i]) = Some c" using grow(2) by (simp del: fun_upd_apply)
  have rm: "room s \<le> Suc (room ?s')" "live s \<subseteq> live ?s'" "tlb_invalidated ?s' = tlb_invalidated s"
    using z(4,6,7) by (auto simp: frame)
  show ?thesis
    by (intro exI [of _ ?s'] exI [of _ c] conjI allI impI) (fact res rdy rm at2 | rule leaf, assumption)+
qed

definition mapped_entry :: "paging_desc_entry \<Rightarrow> u64 \<Rightarrow> u32 \<Rightarrow> paging_desc_entry" where
  "mapped_entry e phys flags =
     e\<lparr>entry_address := address_field phys, present := (flags AND PAGING_IS_PRESENT \<noteq> 0),
       read_write := (flags AND PAGING_IS_WRITEABLE \<noteq> 0),
       user_supervisor := (flags AND PAGING_ACCESS_FROM_ALL \<noteq> 0)\<rparr>"

lemma mapped_entry_simps [simp]:
  "present (mapped_entry e phys flags) = (flags AND PAGING_IS_PRESENT \<noteq> 0)"
  "read_write (mapped_entry e phys flags) = (flags AND PAGING_IS_WRITEABLE \<noteq> 0)"
  "user_supervisor (mapped_entry e phys flags) = (flags AND PAGING_ACCESS_FROM_ALL \<noteq> 0)"
  "entry_address (mapped_entry e phys flags) = address_field phys"
  by (simp_all add: mapped_entry_def)

lemma paging_map_leaf:
  assumes r: "ready s (pml desc)" and "3 \<le> room s"
  shows "\<exists>s'. paging_map kz s desc va pa flags = Some (s', 0) \<and> ready s' (pml desc) \<and>
    room s \<le> room s' + 3 \<and> live s \<subseteq> live s' \<and>
    tlb_invalidated s' = tlb_invalidated s @
      (if paging_null_entry (leaf_entry (tables s) (pml desc) (walk_indices va) (table_index va 12))
       then [] else [va]) \<and>
    (\<forall>is j. length is = 3 \<longrightarrow> leaf_entry (tables s') (pml desc) is j =
       (if is = walk_indices va \<and> j = table_index va 12
        then mapped_entry (leaf_entry (tables s) (pml desc) is j) pa flags
        else leaf_entry (tables s) (pml desc) is j))"
proof -
  let ?r = "pml desc" and ?a = "table_index va 39" and ?b = "table_index va 30"
    and ?c = "table_index va 21" and ?d = "table_index va 12"
  obtain s1 t1 where s1: "paging_child_table kz s ?r ?a = Some (s1, t1)" "ready s1 ?r"
    "room s \<le> Suc (room s1)" "live s \<subseteq> live s1" "tlb_invalidated s1 = tlb_invalidated s"
    "table_at (tables s1) ?r [?a] = Some t1"
    "\<forall>is j. length is = 3 \<longrightarrow> leaf_entry (tables s1) ?r is j = leaf_entry (tables s) ?r is j"
    using child_table [OF r, of "[]" ?r ?a] assms(2) by fastforce
  obtain s2 t2 where s2: "paging_child_table kz s1 t1 ?b = Some (s2, t2)" "ready s2 ?r"
    "room s1 \<le> Suc (room s2)" "live s1 \<subseteq> live s2" "tlb_invalidated s2 = tlb_invalidated s1"
    "table_at (tables s2) ?r [?a, ?b] = Some t2"
    "\<forall>is j. length is = 3 \<longrightarrow> leaf_entry (tables s2) ?r is j = leaf_entry (tables s1) ?r is j"
    using child_table [OF s1(2) _ s1(6), of ?b] s1(3) assms(2) by fastforce
  obtain s3 t3 where s3: "paging_child_table kz s2 t2 ?c = Some (s3, t3)" "ready s3 ?r"
    "room s2 \<le> Suc (room s3)" "live s2 \<subseteq> live s3" "tlb_invalidated s3 = tlb_invalidated s2"
    "table_at (tables s3) ?r [?a, ?b, ?c] = Some t3"
    "\<forall>is j. length is = 3 \<longrightarrow> leaf_entry (tables s3) ?r is j = leaf_entry (tables s2) ?r is j"
    using child_table [OF s2(2) _ s2(6), of ?c] s1(3) s2(3) assms(2) by fastforce
  have w: "walk_indices va = [?a, ?b, ?c]" by (simp add: walk_indices_def)
  have same: "leaf_entry (tables s3) ?r is j = leaf_entry (tables s) ?r is j" if "length is = 3" for "is" j
    using that s1(7) s2(7) s3(7) by simp
  have old: "leaf_entry (tables s) ?r (walk_indices va) ?d = tables s3 t3 ?d"
    using same [of "walk_indices va" ?d] s3(6) w by (simp add: leaf_entry_def)
  let ?e = "mapped_entry (tables s3 t3 ?d) pa flags"
  let ?T = "entry_set (tables s3) t3 ?d ?e"
  define s' where "s' = s3\<lparr>tlb_invalidated := tlb_invalidated s3 @
      (if paging_null_entry (tables s3 t3 ?d) then [] else [va]), tables := ?T\<rparr>"
  have tree: "pt_tree (tables s3) ?r (live s3)" using s3(2) by (simp add: ready_def)
  note leaf = pt_tree_leaf [OF tree _ s3(6), simplified]
  have res: "paging_map kz s desc va pa flags = Some (s', 0)"
    using s1(1) s2(1) s3(1)
    by (simp add: paging_map_def Let_def mapped_entry_def s'_def)
  have rdy: "ready s' ?r" using leaf(2) s3(2) by (simp add: ready_def frame s'_def)
  have rm: "room s \<le> room s' + 3" "live s \<subseteq> live s'" using s1(3,4) s2(3,4) s3(3,4) by (auto simp: frame s'_def)
  have tlb: "tlb_invalidated s' = tlb_invalidated s @
      (if paging_null_entry (leaf_entry (tables s) ?r (walk_indices va) ?d) then [] else [va])"
    unfolding old s'_def using s1(5) s2(5) s3(5) by simp
  have "leaf_entry (tables s') ?r is j =
       (if is = walk_indices va \<and> j = ?d then mapped_entry (leaf_entry (tables s) ?r is j) pa flags
        else leaf_entry (tables s) ?r is j)" if l: "length is = 3" for "is" j
  proof -
    have at: "table_at ?T ?r is = table_at (tables s3) ?r is" using leaf(1) [of "is"] l by simp
    have "v \<noteq> t3" if "table_at (tables s3) ?r is = Some v" "is \<noteq> walk_indices va" for v
      using pt_treeD(2) [OF tree _ _ that(1), of "walk_indices va"] s3(6) l w that(2) by auto
    then have "leaf_entry ?T ?r is j = (if is = walk_indices va \<and> j = ?d
        then mapped_entry (leaf_entry (tables s3) ?r is j) pa flags else leaf_entry (tables s3) ?r is j)"
      using s3(6) w unfolding leaf_entry_def at by (auto simp: entry_set_apply split: option.splits)
    then show ?thesis unfolding same [OF l] s'_def by simp
  qed
  then show ?thesis using res rdy rm tlb by blast
qed

text \<open>
  After \<open>paging_map\<close> the processor translates the page as asked, and every other page as before.
\<close>

lemma paging_map_translates:
  assumes r: "ready s (pml desc)" and "3 \<le> room s"
    and pa: "pa mod 4096 = 0" "pa < 2 ^ 52"
  shows "\<exists>s'. paging_map kz s desc va pa flags = Some (s', 0) \<and> ready s' (pml desc) \<and>
    room s \<le> room s' + 3 \<and> live s \<subseteq> live s' \<and>
    (\<forall>va'. mmu_translate (tables s') (pml desc) va' =
       (if same_page va' va
        then if flags AND PAGING_IS_PRESENT \<noteq> 0
             then Some (pa + (va' AND 0xFFF), flags AND PAGING_IS_WRITEABLE \<noteq> 0,
                        flags AND PAGING_ACCESS_FROM_ALL \<noteq> 0)
             else None
        else mmu_translate (tables s) (pml desc) va')) \<and>
    (mmu_translate (tables s) (pml desc) va \<noteq> None \<longrightarrow>
       tlb_invalidated s' = tlb_invalidated s @ [va])"
proof -
  obtain s' where s': "paging_map kz s desc va pa flags = Some (s', 0)" "ready s' (pml desc)"
    "room s \<le> room s' + 3" "live s \<subseteq> live s'"
    "tlb_invalidated s' = tlb_invalidated s @
      (if paging_null_entry (leaf_entry (tables s) (pml desc) (walk_indices va) (table_index va 12))
       then [] else [va])"
    "\<And>is j. length is = 3 \<Longrightarrow> leaf_entry (tables s') (pml desc) is j =
       (if is = walk_indices va \<and> j = table_index va 12
        then mapped_entry (leaf_entry (tables s) (pml desc) is j) pa flags
        else leaf_entry (tables s) (pml desc) is j)"
    using paging_map_leaf [OF assms(1,2), of va pa flags] by blast
  have tree: "pt_tree (tables s) (pml desc) (live s)" "pt_tree (tables s') (pml desc) (live s')"
    using r s'(2) by (simp_all add: ready_def)
  have base: "entry_base (mapped_entry e pa flags) = pa" for e
    using entry_base_address_field [OF pa] by (simp add: entry_base_def)
  have l: "length (walk_indices va') = 3" for va' by (simp add: walk_indices_def)
  have tr: "mmu_translate (tables s') (pml desc) va' =
       (if same_page va' va
        then if flags AND PAGING_IS_PRESENT \<noteq> 0
             then Some (pa + (va' AND 0xFFF), flags AND PAGING_IS_WRITEABLE \<noteq> 0,
                        flags AND PAGING_ACCESS_FROM_ALL \<noteq> 0)
             else None
        else mmu_translate (tables s) (pml desc) va')" for va'
  proof (cases "same_page va' va")
    case True
    then show ?thesis
      unfolding mmu_translate_leaf [OF tree(2)] s'(6) [OF l] using base
      by (simp add: same_page_iff Let_def)
  next
    case False
    then show ?thesis
      unfolding mmu_translate_leaf [OF tree(2)] mmu_translate_leaf [OF tree(1)] s'(6) [OF l]
      by (auto simp: same_page_iff)
  qed
  have "\<not> paging_null_entry (leaf_entry (tables s) (pml desc) (walk_indices va) (table_index va 12))"
    if "mmu_translate (tables s) (pml desc) va \<noteq> None"
    using that unfolding mmu_translate_leaf [OF tree(1)]
    by (auto simp: Let_def paging_null_entry_def split: if_splits)
  then show ?thesis using s'(1-5) tr by auto
qed

end

lemma same_page_refl [simp]: "same_page va va"
  by (simp add: same_page_def)

lemma same_page_trans: "same_page a b \<Longrightarrow> same_page b c \<Longrightarrow> same_page a c"
  by (simp add: same_page_def)

lemma same_page_sym: "same_page a b \<longleftrightarrow> same_page b a"
  by (auto simp: same_page_def)

lemma same_page_unat:
  "same_page a b \<longleftrightarrow> unat a mod 2 ^ 48 div 4096 = unat b mod 2 ^ 48 div 4096"
proof -
  have "unat (drop_bit 12 (take_bit 48 v)) = unat v mod 2 ^ 48 div 4096" for v :: u64
    by (simp add: take_bit_eq_mod drop_bit_eq_div unat_div unat_mod)
  then show ?thesis unfolding same_page_def by (metis word_unat_eq_iff)
qed

lemma same_page_step:
  assumes "0 < k" "k < 2 ^ 36"
  shows "\<not> same_page va (va + of_nat k * 4096)"
proof
  let ?a = "unat va"
  have m: "unat (va + of_nat k * 4096) mod 2 ^ 48 = (?a + k * 4096) mod 2 ^ 48"
  proof -
    have "unat (va + of_nat k * 4096) = (?a + k * 4096) mod 2 ^ 64"
    proof -
      have "va + of_nat k * 4096 = of_nat (?a + k * 4096)" by simp
      then show ?thesis by (simp only: unat_of_nat) simp
    qed
    then show ?thesis by (simp add: mod_mod_cancel)
  qed
  have d: "x mod 2 ^ 48 div 4096 = (x div 4096) mod 2 ^ 36" for x :: nat
    using mod_mult2_eq [of x 4096 "2 ^ 36"] by simp
  assume "same_page va (va + of_nat k * 4096)"
  then have "?a div 4096 mod 2 ^ 36 = (?a + k * 4096) div 4096 mod 2 ^ 36"
    unfolding same_page_unat m d .
  also have "(?a + k * 4096) div 4096 = ?a div 4096 + k" by simp
  finally have "(2 :: nat) ^ 36 dvd k"
    by (metis add_diff_cancel_left' le_add1 mod_eq_dvd_iff_nat)
  then show False using assms by (auto dest: dvd_imp_le)
qed

text \<open>A page of the range \<open>va\<close>, \<open>va + 4096\<close>, and so on for \<open>n\<close> pages.\<close>

definition page_in_range :: "u64 \<Rightarrow> u64 \<Rightarrow> nat \<Rightarrow> bool" where
  "page_in_range x va n \<longleftrightarrow> (\<exists>i<n. same_page x (va + of_nat i * 4096))"

context page_allocator begin

lemma map_range_loop_translates:
  assumes "ready s (pml desc)" "3 * n \<le> room s" "n \<le> 2 ^ 36"
    and "pa mod 4096 = 0" "unat pa + n * 4096 \<le> 2 ^ 52" "flags AND PAGING_IS_PRESENT \<noteq> 0"
  shows "\<exists>s'. map_range_loop kz s desc va pa n flags 0 = Some (s', 0) \<and> ready s' (pml desc) \<and>
    room s \<le> room s' + 3 * n \<and>
    (\<forall>x. \<not> page_in_range x va n \<longrightarrow>
      mmu_translate (tables s') (pml desc) x = mmu_translate (tables s) (pml desc) x) \<and>
    (\<forall>i x. i < n \<longrightarrow> same_page x (va + of_nat i * 4096) \<longrightarrow>
      mmu_translate (tables s') (pml desc) x =
        Some (pa + of_nat i * 4096 + (x AND 0xFFF), flags AND PAGING_IS_WRITEABLE \<noteq> 0,
              flags AND PAGING_ACCESS_FROM_ALL \<noteq> 0))"
  using assms
proof (induction n arbitrary: s va pa)
  case 0
  then show ?case by (auto simp: page_in_range_def)
next
  case (Suc n)
  have pa: "pa < 2 ^ 52" using Suc.prems(5) by (simp add: word_less_nat_alt)
  obtain s1 where s1: "paging_map kz s desc va pa flags = Some (s1, 0)" "ready s1 (pml desc)"
    "room s \<le> room s1 + 3"
    "\<And>x. mmu_translate (tables s1) (pml desc) x =
       (if same_page x va
        then Some (pa + (x AND 0xFFF), flags AND PAGING_IS_WRITEABLE \<noteq> 0,
                   flags AND PAGING_ACCESS_FROM_ALL \<noteq> 0)
        else mmu_translate (tables s) (pml desc) x)"
    using paging_map_translates [OF Suc.prems(1) _ Suc.prems(4) pa, of va flags] Suc.prems(2,6)
    by auto
  have u: "unat (pa + 4096) = unat pa + 4096"
    using Suc.prems(5) by (subst unat_add_lem [THEN iffD1]) simp_all
  have al: "(pa + 4096) mod 4096 = 0"
    using Suc.prems(4) u by (simp add: word_unat_eq_iff unat_mod)
  let ?W = "flags AND PAGING_IS_WRITEABLE \<noteq> 0" and ?U = "flags AND PAGING_ACCESS_FROM_ALL \<noteq> 0"
  obtain s' where s': "map_range_loop kz s1 desc (va + 4096) (pa + 4096) n flags 0 = Some (s', 0)"
    "ready s' (pml desc)" "room s1 \<le> room s' + 3 * n"
    "\<And>x. \<not> page_in_range x (va + 4096) n \<Longrightarrow>
      mmu_translate (tables s') (pml desc) x = mmu_translate (tables s1) (pml desc) x"
    "\<And>i x. i < n \<Longrightarrow> same_page x (va + 4096 + of_nat i * 4096) \<Longrightarrow>
      mmu_translate (tables s') (pml desc) x = Some (pa + 4096 + of_nat i * 4096 + (x AND 0xFFF), ?W, ?U)"
    using Suc.IH [OF s1(2) _ _ al, of "va + 4096"] Suc.prems(2,3,5,6) s1(3) u by auto
  have shift: "va + 4096 + of_nat i * 4096 = va + of_nat (Suc i) * 4096"
    "pa + 4096 + of_nat i * 4096 = pa + of_nat (Suc i) * 4096" for i
    by (simp_all add: algebra_simps)
  have res: "map_range_loop kz s desc va pa (Suc n) flags 0 = Some (s', 0)"
    using s1(1) s'(1) by simp
  have out: "mmu_translate (tables s') (pml desc) x = mmu_translate (tables s) (pml desc) x"
    if "\<not> page_in_range x va (Suc n)" for x
  proof -
    have "\<not> same_page x (va + of_nat 0 * 4096)"
      "\<And>i. i < n \<Longrightarrow> \<not> same_page x (va + of_nat (Suc i) * 4096)"
      using that unfolding page_in_range_def by blast+
    then show ?thesis
      using s'(4) [of x] s1(4) [of x] unfolding page_in_range_def shift by auto
  qed
  have into: "mmu_translate (tables s') (pml desc) x = Some (pa + of_nat i * 4096 + (x AND 0xFFF), ?W, ?U)"
    if "i < Suc n" "same_page x (va + of_nat i * 4096)" for i x
  proof (cases i)
    case 0
    have "\<not> same_page x (va + of_nat (Suc j) * 4096)" if "j < n" for j
      using same_page_step [of "Suc j" va] that Suc.prems(3) \<open>same_page x (va + of_nat i * 4096)\<close> 0
        same_page_trans [of va x "va + of_nat (Suc j) * 4096"] same_page_sym [of va x] by auto
    then have "\<not> page_in_range x (va + 4096) n" unfolding page_in_range_def shift by blast
    then show ?thesis using s'(4) [of x] s1(4) [of x] that 0 by simp
  next
    case (Suc j)
    then show ?thesis using s'(5) [of j x] that unfolding shift by simp
  qed
  show ?case
    using res s'(2,3) s1(3) out into by (intro exI [of _ s'] conjI allI impI) auto
qed

lemma paging_map_to_translates:
  assumes "ready s (pml desc)" "3 * n \<le> room s" "n < 2 ^ 31"
    and "va mod 4096 = 0" "pa mod 4096 = 0" "unat pa + n * 4096 \<le> 2 ^ 52"
    and "flags AND PAGING_IS_PRESENT \<noteq> 0"
  shows "\<exists>s'. paging_map_to kz s desc va pa (pa + of_nat n * 4096) flags = Some (s', 0) \<and>
    ready s' (pml desc) \<and> room s \<le> room s' + 3 * n \<and>
    (\<forall>x. \<not> page_in_range x va n \<longrightarrow>
      mmu_translate (tables s') (pml desc) x = mmu_translate (tables s) (pml desc) x) \<and>
    (\<forall>i x. i < n \<longrightarrow> same_page x (va + of_nat i * 4096) \<longrightarrow>
      mmu_translate (tables s') (pml desc) x =
        Some (pa + of_nat i * 4096 + (x AND 0xFFF), flags AND PAGING_IS_WRITEABLE \<noteq> 0,
              flags AND PAGING_ACCESS_FROM_ALL \<noteq> 0))"
proof -
  have u: "unat (pa + of_nat n * 4096) = unat pa + n * 4096"
  proof -
    have "unat (of_nat n * 4096 :: u64) = n * 4096"
      using unat_of_nat_u64 [of "n * 4096"] assms(3) by simp
    then show ?thesis using assms(6) by (subst unat_add_lem [THEN iffD1]) simp_all
  qed
  have al: "(pa + of_nat n * 4096) mod 4096 = 0"
    using assms(5) u by (simp add: word_unat_eq_iff unat_mod)
  have le: "\<not> pa + of_nat n * 4096 < pa" using u by (simp add: word_less_nat_alt)
  have cnt: "unat ((of_nat n * 4096 :: u64) div 4096) = n"
    using unat_of_nat_u64 [of "n * 4096"] assms(3) by (simp add: unat_div)
  have "paging_map_to kz s desc va pa (pa + of_nat n * 4096) flags
      = map_range_loop kz s desc va pa n flags 0"
    using assms(3-5) al le cnt by (simp add: paging_map_to_def paging_map_range_def Let_def)
  then show ?thesis
    using map_range_loop_translates [OF assms(1,2) _ assms(5-7), of va] assms(3) by simp
qed

end

subsection \<open>Lookup against the hardware walk\<close>

text \<open>Entry \<open>0\<close> is in use in the second- and third-level tables on the way to \<open>va\<close>.\<close>

definition first_entries_used :: "page_tables \<Rightarrow> u64 \<Rightarrow> u64 \<Rightarrow> bool" where
  "first_entries_used T root va \<longleftrightarrow>
     (\<forall>is \<in> {[table_index va 39], [table_index va 39, table_index va 30]}.
        case table_at T root is of None \<Rightarrow> True | Some t \<Rightarrow> \<not> paging_null_entry (T t 0))"

text \<open>
  C35. \<^bold>\<open>Lookup against the processor.\<close> For an address the processor translates,
  \<open>paging_get_physical_address\<close> gives the same physical address when entry \<open>0\<close> of the second- and
  third-level tables on the way is in use, and null otherwise: the code tests entry \<open>0\<close> of those
  tables in place of the entry it looks up.
\<close>

theorem paging_get_against_hardware:
  assumes "mmu_translate T (pml desc) va = Some (p, w, u)"
  shows "paging_get_physical_address T desc va = (if first_entries_used T (pml desc) va then p else 0)"
  using assms
  by (auto simp: mmu_translate_def walk_indices_def Let_def first_entries_used_def
      paging_get_physical_address_def paging_get_def paging_null_entry_def split: if_splits)

text \<open>Tables that map the page at 1 GiB, whose second-level entry is entry \<open>1\<close>, to \<open>0x5000\<close>.\<close>

definition gib_entry :: "u64 \<Rightarrow> paging_desc_entry" where
  "gib_entry p = null_desc\<lparr>entry_address := address_field p, present := True, read_write := True\<rparr>"

definition gib_tables :: page_tables where
  "gib_tables =
     entry_set (entry_set (entry_set (entry_set (\<lambda>_ _. null_desc)
       0x1000 0 (gib_entry 0x2000)) 0x2000 1 (gib_entry 0x3000))
       0x3000 0 (gib_entry 0x4000)) 0x4000 0 (gib_entry 0x5000)"

lemma gib_entry_simps [simp]:
  "present (gib_entry p)" "read_write (gib_entry p)" "\<not> user_supervisor (gib_entry p)"
  "\<not> paging_null_entry (gib_entry p)"
  "p mod 4096 = 0 \<Longrightarrow> p < 2 ^ 52 \<Longrightarrow> entry_base (gib_entry p) = p"
  using entry_base_address_field [of p]
  by (auto simp: gib_entry_def null_desc_def paging_null_entry_def entry_base_def)

theorem paging_get_against_hardware_witness:
  "mmu_translate gib_tables 0x1000 0x40000123 = Some (0x5123, True, False) \<and>
   paging_get_physical_address gib_tables \<lparr>pml = 0x1000, level = 4\<rparr> 0x40000123 = 0"
proof -
  have i: "table_index 0x40000123 39 = 0" "table_index 0x40000123 30 = 1"
    "table_index 0x40000123 21 = 0" "table_index 0x40000123 12 = 0"
    by (simp_all add: table_index_def)
  have t: "mmu_translate gib_tables (pml \<lparr>pml = 0x1000, level = 4\<rparr>) 0x40000123 = Some (0x5123, True, False)"
    by (simp add: mmu_translate_def walk_indices_def i Let_def gib_tables_def entry_set_apply word_less_nat_alt)
  have "\<not> first_entries_used gib_tables 0x1000 0x40000123"
    by (simp add: first_entries_used_def i gib_tables_def entry_set_apply word_less_nat_alt)
  then show ?thesis using paging_get_against_hardware [OF t] t by simp
qed

end
