(* ===== verification/MultiHeap.thy ===== *)
theory MultiHeap
  imports Heap Paging
begin

section \<open>The kernel allocator: multiheap.c and kheap.c\<close>

text \<open>
  The multiheap is the list of heaps the kernel allocates from. A \<open>struct heap\<close> is named by its
  address and \<open>heap_at\<close> is its contents, because heaps are shared: the first heap of the list is
  also the heap the multiheap's own structures come from. The linked list of
  \<open>struct multiheap_single_heap\<close> is a list in the same order. The kernel has one multiheap,
  \<open>kernel_multiheap\<close>, and every function here works on it.

  Section one holds the allocation without paging, which gives \<open>kmalloc\<close> and \<open>kzalloc\<close>. The
  functions that map pages come after it and hand that \<open>kzalloc\<close> to \<open>paging_map\<close>.
\<close>

subsection \<open>State\<close>

abbreviation (input) MULTIHEAP_HEAP_FLAG_EXTERNALLY_OWNED :: u32 where
  "MULTIHEAP_HEAP_FLAG_EXTERNALLY_OWNED \<equiv> 1"
abbreviation (input) MULTIHEAP_HEAP_FLAG_DEFRAGMENT_WITH_PAGING :: u32 where
  "MULTIHEAP_HEAP_FLAG_DEFRAGMENT_WITH_PAGING \<equiv> 2"
abbreviation (input) MULTIHEAP_FLAG_IS_READY :: u32 where "MULTIHEAP_FLAG_IS_READY \<equiv> 1"

record multiheap_single_heap =
  mh_heap :: u64
  mh_paging_heap :: u64
  mh_flags :: u32

record multiheap =
  mh_address :: u64
  starting_heap :: u64
  first_multiheap :: "multiheap_single_heap list"
  max_end_data_addr :: u64
  multiheap_flags :: u32
  total_heaps :: u64

record kernel = kpaging +
  heap_at :: "u64 \<Rightarrow> heap"
  kernel_multiheap :: multiheap

subsection \<open>The operations of heap.c on a heap named by its address\<close>

definition malloc_at :: "'s kernel_scheme \<Rightarrow> u64 \<Rightarrow> u64 \<Rightarrow> ('s kernel_scheme \<times> u64) option" where
  "malloc_at s hp sz = do {
     (h, p) \<leftarrow> heap_malloc (heap_at s hp) sz;
     Some (s\<lparr>heap_at := (heap_at s)(hp := h)\<rparr>, p)
   }"

definition zalloc_at :: "'s kernel_scheme \<Rightarrow> u64 \<Rightarrow> u64 \<Rightarrow> ('s kernel_scheme \<times> u64) option" where
  "zalloc_at s hp sz = do {
     (m, h, p) \<leftarrow> heap_zalloc (kmem s) (heap_at s hp) sz;
     Some (s\<lparr>kmem := m, heap_at := (heap_at s)(hp := h)\<rparr>, p)
   }"

definition free_at :: "'s kernel_scheme \<Rightarrow> u64 \<Rightarrow> u64 \<Rightarrow> 's kernel_scheme option" where
  "free_at s hp ptr = do {
     h \<leftarrow> heap_free (heap_at s hp) ptr;
     Some (s\<lparr>heap_at := (heap_at s)(hp := h)\<rparr>)
   }"

definition realloc_at ::
  "'s kernel_scheme \<Rightarrow> u64 \<Rightarrow> u64 \<Rightarrow> u64 \<Rightarrow> ('s kernel_scheme \<times> u64) option" where
  "realloc_at s hp old_ptr new_size = do {
     (m, h, p) \<leftarrow> heap_realloc (kmem s) (heap_at s hp) old_ptr new_size;
     Some (s\<lparr>kmem := m, heap_at := (heap_at s)(hp := h)\<rparr>, p)
   }"

subsection \<open>The list of heaps\<close>

definition multiheap_new :: "'s kernel_scheme \<Rightarrow> u64 \<Rightarrow> ('s kernel_scheme \<times> multiheap option) option" where
  "multiheap_new s starting = do {
     (s', p) \<leftarrow> zalloc_at s starting 40;
     Some (s', if p = 0 then None
               else Some \<lparr>mh_address = p, starting_heap = starting, first_multiheap = [],
                          max_end_data_addr = 0, multiheap_flags = 0, total_heaps = 0\<rparr>)
   }"

text \<open>\<open>None\<close> on an empty list, where the code reads through the null pointer.\<close>

fun multiheap_get_last_heap :: "multiheap_single_heap list \<Rightarrow> multiheap_single_heap option" where
  "multiheap_get_last_heap [] = None"
| "multiheap_get_last_heap [current] = Some current"
| "multiheap_get_last_heap (current # shs) = multiheap_get_last_heap shs"

definition multiheap_heap_allows_paging :: "multiheap_single_heap \<Rightarrow> bool" where
  "multiheap_heap_allows_paging sh \<longleftrightarrow> mh_flags sh AND MULTIHEAP_HEAP_FLAG_DEFRAGMENT_WITH_PAGING \<noteq> 0"

primrec max_memory_end_loop :: "(u64 \<Rightarrow> heap) \<Rightarrow> multiheap_single_heap list \<Rightarrow> u64 \<Rightarrow> u64" where
  "max_memory_end_loop hs [] max_addr = max_addr"
| "max_memory_end_loop hs (current # shs) max_addr =
     max_memory_end_loop hs shs
       (if eaddr (hs (mh_heap current)) \<ge> max_addr then eaddr (hs (mh_heap current)) else max_addr)"

definition multiheap_get_max_memory_end_address :: "'s kernel_scheme \<Rightarrow> u64" where
  "multiheap_get_max_memory_end_address s =
     max_memory_end_loop (heap_at s) (first_multiheap (kernel_multiheap s)) 0"

primrec heap_for_address_loop ::
  "(u64 \<Rightarrow> heap) \<Rightarrow> multiheap_single_heap list \<Rightarrow> u64 \<Rightarrow> multiheap_single_heap option" where
  "heap_for_address_loop hs [] addr = None"
| "heap_for_address_loop hs (current # shs) addr =
     (if heap_is_address_within_heap (hs (mh_heap current)) addr then Some current
      else heap_for_address_loop hs shs addr)"

definition multiheap_get_heap_for_address ::
  "'s kernel_scheme \<Rightarrow> u64 \<Rightarrow> multiheap_single_heap option" where
  "multiheap_get_heap_for_address s addr =
     heap_for_address_loop (heap_at s) (first_multiheap (kernel_multiheap s)) addr"

definition multiheap_is_address_virtual :: "multiheap \<Rightarrow> u64 \<Rightarrow> bool" where
  "multiheap_is_address_virtual mh ptr \<longleftrightarrow> ptr \<ge> max_end_data_addr mh"

definition multiheap_is_ready :: "multiheap \<Rightarrow> bool" where
  "multiheap_is_ready mh \<longleftrightarrow> multiheap_flags mh AND MULTIHEAP_FLAG_IS_READY \<noteq> 0"

definition multiheap_can_add_heap :: "multiheap \<Rightarrow> bool" where
  "multiheap_can_add_heap mh \<longleftrightarrow> \<not> multiheap_is_ready mh"

definition multiheap_virtual_address_to_physical :: "multiheap \<Rightarrow> u64 \<Rightarrow> u64" where
  "multiheap_virtual_address_to_physical mh ptr = ptr - max_end_data_addr mh"

text \<open>A heap that allows paging and has no paging heap yet is a null pointer read: \<open>None\<close>.\<close>

primrec paging_heap_for_address_loop ::
  "(u64 \<Rightarrow> heap) \<Rightarrow> multiheap_single_heap list \<Rightarrow> u64 \<Rightarrow> multiheap_single_heap option option" where
  "paging_heap_for_address_loop hs [] addr = Some None"
| "paging_heap_for_address_loop hs (current # shs) addr =
     (if \<not> multiheap_heap_allows_paging current then paging_heap_for_address_loop hs shs addr
      else if mh_paging_heap current = 0 then None
      else if heap_is_address_within_heap (hs (mh_paging_heap current)) addr then Some (Some current)
      else paging_heap_for_address_loop hs shs addr)"

definition multiheap_get_paging_heap_for_address ::
  "'s kernel_scheme \<Rightarrow> u64 \<Rightarrow> multiheap_single_heap option option" where
  "multiheap_get_paging_heap_for_address s addr =
     paging_heap_for_address_loop (heap_at s) (first_multiheap (kernel_multiheap s)) addr"

definition multiheap_get_heap_and_paging_heap_for_address ::
  "'s kernel_scheme \<Rightarrow> u64 \<Rightarrow>
   (multiheap_single_heap option \<times> multiheap_single_heap option \<times> u64) option" where
  "multiheap_get_heap_and_paging_heap_for_address s ptr =
     (let mh = kernel_multiheap s in
      if multiheap_is_address_virtual mh ptr then do {
        paging_heap_out \<leftarrow> multiheap_get_paging_heap_for_address s ptr;
        let real_addr = multiheap_virtual_address_to_physical mh ptr;
        Some (multiheap_get_heap_for_address s real_addr, paging_heap_out, real_addr)
      } else Some (multiheap_get_heap_for_address s ptr, None, ptr))"

definition multiheap_add_heap :: "'s kernel_scheme \<Rightarrow> u64 \<Rightarrow> u32 \<Rightarrow> ('s kernel_scheme \<times> int) option" where
  "multiheap_add_heap s hp flags =
     (if \<not> multiheap_can_add_heap (kernel_multiheap s) then Some (s, - EINVARG)
      else do {
        (s', p) \<leftarrow> zalloc_at s (starting_heap (kernel_multiheap s)) 32;
        if p = 0 then Some (s', - ENOMEM)
        else
          let mh = kernel_multiheap s';
              new_heap = \<lparr>mh_heap = hp, mh_paging_heap = 0, mh_flags = flags\<rparr>
          in Some (s'\<lparr>kernel_multiheap := mh\<lparr>first_multiheap := first_multiheap mh @ [new_heap],
                                            total_heaps := total_heaps mh + 1\<rparr>\<rparr>, 0)
      })"

definition multiheap_add_existing_heap ::
  "'s kernel_scheme \<Rightarrow> u64 \<Rightarrow> u32 \<Rightarrow> ('s kernel_scheme \<times> int) option" where
  "multiheap_add_existing_heap s hp flags =
     multiheap_add_heap s hp (flags OR MULTIHEAP_HEAP_FLAG_EXTERNALLY_OWNED)"

text \<open>
  The new table comes zeroed from \<open>heap_zalloc\<close>, so its \<open>total\<close> is \<open>0\<close> when \<open>heap_create\<close>
  validates it: the table is the empty list.
\<close>

definition multiheap_add ::
  "'s kernel_scheme \<Rightarrow> u64 \<Rightarrow> u64 \<Rightarrow> u32 \<Rightarrow> ('s kernel_scheme \<times> int) option" where
  "multiheap_add s start end_addr flags = do {
     let starting = starting_heap (kernel_multiheap s);
     (s1, hp) \<leftarrow> zalloc_at s starting 64;
     (s2, table) \<leftarrow> zalloc_at s1 starting 16;
     if hp = 0 \<or> table = 0 then Some (s2, - ENOMEM)
     else
       let (res, h) = heap_create (heap_at s2 hp) start end_addr [];
           s3 = s2\<lparr>heap_at := (heap_at s2)(hp := h)\<rparr>
       in if res < 0 then do {
            s4 \<leftarrow> free_at s3 starting hp;
            s5 \<leftarrow> free_at s4 starting table;
            Some (s5, res)
          } else multiheap_add_heap s3 hp flags
   }"

primrec free_heap_loop :: "'s kernel_scheme \<Rightarrow> multiheap_single_heap list \<Rightarrow> 's kernel_scheme option" where
  "free_heap_loop s [] = Some s"
| "free_heap_loop s (current # shs) = do {
     s' \<leftarrow> (if mh_flags current AND MULTIHEAP_HEAP_FLAG_EXTERNALLY_OWNED = 0
           then free_at s (starting_heap (kernel_multiheap s)) (mh_heap current) else Some s);
     free_heap_loop s' shs
   }"

definition multiheap_free_heap :: "'s kernel_scheme \<Rightarrow> 's kernel_scheme option" where
  "multiheap_free_heap s = do {
     s' \<leftarrow> free_heap_loop s (first_multiheap (kernel_multiheap s));
     free_at s' (starting_heap (kernel_multiheap s')) (mh_address (kernel_multiheap s'))
   }"

subsection \<open>Allocation without paging\<close>

primrec alloc_first_pass_loop ::
  "'s kernel_scheme \<Rightarrow> multiheap_single_heap list \<Rightarrow> u64 \<Rightarrow> ('s kernel_scheme \<times> u64) option" where
  "alloc_first_pass_loop s [] sz = Some (s, 0)"
| "alloc_first_pass_loop s (current # shs) sz = do {
     (s', p) \<leftarrow> malloc_at s (mh_heap current) sz;
     if p \<noteq> 0 then Some (s', p) else alloc_first_pass_loop s' shs sz
   }"

definition multiheap_alloc_first_pass :: "'s kernel_scheme \<Rightarrow> u64 \<Rightarrow> ('s kernel_scheme \<times> u64) option" where
  "multiheap_alloc_first_pass s sz = alloc_first_pass_loop s (first_multiheap (kernel_multiheap s)) sz"

definition multiheap_alloc :: "'s kernel_scheme \<Rightarrow> u64 \<Rightarrow> ('s kernel_scheme \<times> u64) option" where
  "multiheap_alloc s sz = multiheap_alloc_first_pass s sz"

definition kmalloc :: "'s kernel_scheme \<Rightarrow> u64 \<Rightarrow> ('s kernel_scheme \<times> u64) option" where
  "kmalloc s sz = multiheap_alloc s sz"

definition kzalloc :: "'s kernel_scheme \<Rightarrow> u64 \<Rightarrow> ('s kernel_scheme \<times> u64) option" where
  "kzalloc s sz = do {
     (s', ptr) \<leftarrow> kmalloc s sz;
     if ptr = 0 then Some (s', 0)
     else do {
       m \<leftarrow> memset (kmem s') ptr 0 sz;
       Some (s'\<lparr>kmem := m\<rparr>, ptr)
     }
   }"

text \<open>\<open>kfree\<close> has an empty body.\<close>

definition kfree :: "'s kernel_scheme \<Rightarrow> u64 \<Rightarrow> 's kernel_scheme" where
  "kfree s ptr = s"

subsection \<open>Reallocation and sizes\<close>

text \<open>An address of a paging heap panics.\<close>

definition multiheap_realloc ::
  "'s kernel_scheme \<Rightarrow> u64 \<Rightarrow> u64 \<Rightarrow> ('s kernel_scheme \<times> u64) option" where
  "multiheap_realloc s old_ptr new_size = do {
     (phys_heap, paging_heap, real_phys_addr) \<leftarrow>
       multiheap_get_heap_and_paging_heap_for_address s old_ptr;
     (case paging_heap of
        Some _ \<Rightarrow> None
      | None \<Rightarrow>
          (case phys_heap of
             None \<Rightarrow> multiheap_alloc s new_size
           | Some sh \<Rightarrow> realloc_at s (mh_heap sh) old_ptr new_size))
   }"

definition krealloc :: "'s kernel_scheme \<Rightarrow> u64 \<Rightarrow> u64 \<Rightarrow> ('s kernel_scheme \<times> u64) option" where
  "krealloc s old_ptr new_size = multiheap_realloc s old_ptr new_size"

text \<open>The count is taken in the heap behind the paging heap, as the code does.\<close>

definition multiheap_allocation_block_count :: "'s kernel_scheme \<Rightarrow> u64 \<Rightarrow> nat option" where
  "multiheap_allocation_block_count s ptr = do {
     (phys_heap, paging_heap, real_phys_addr) \<leftarrow>
       multiheap_get_heap_and_paging_heap_for_address s ptr;
     Some (case paging_heap of
             None \<Rightarrow> 0
           | Some sh \<Rightarrow> heap_allocation_block_count (heap_at s (mh_heap sh)) ptr)
   }"

definition multiheap_allocation_byte_count :: "'s kernel_scheme \<Rightarrow> u64 \<Rightarrow> u64 option" where
  "multiheap_allocation_byte_count s ptr = do {
     n \<leftarrow> multiheap_allocation_block_count s ptr;
     Some (of_nat n * PEACHOS_HEAP_BLOCK_SIZE)
   }"

subsection \<open>Allocation with paging\<close>

primrec alloc_paging_loop ::
  "'s kernel_scheme \<Rightarrow> multiheap_single_heap list \<Rightarrow> u64 \<Rightarrow> u64 \<Rightarrow>
   ('s kernel_scheme \<times> u64 \<times> multiheap_single_heap option) option" where
  "alloc_paging_loop s [] sz total_required_blocks = Some (s, 0, None)"
| "alloc_paging_loop s (current # shs) sz total_required_blocks =
     (if \<not> multiheap_heap_allows_paging current then alloc_paging_loop s shs sz total_required_blocks
      else if free_blocks (heap_at s (mh_heap current)) < total_required_blocks
      then alloc_paging_loop s shs sz total_required_blocks
      else if mh_paging_heap current = 0 then None
      else do {
        (s', p) \<leftarrow> malloc_at s (mh_paging_heap current) sz;
        if p \<noteq> 0 then Some (s', p, Some current)
        else alloc_paging_loop s' shs sz total_required_blocks
      })"

definition multiheap_alloc_paging ::
  "'s kernel_scheme \<Rightarrow> u64 \<Rightarrow> ('s kernel_scheme \<times> u64 \<times> multiheap_single_heap option) option" where
  "multiheap_alloc_paging s sz =
     alloc_paging_loop s (first_multiheap (kernel_multiheap s)) sz (sz div PEACHOS_HEAP_BLOCK_SIZE)"

text \<open>The loop that backs the virtual blocks: one physical block at a time.\<close>

primrec second_pass_loop ::
  "'s kernel_scheme \<Rightarrow> paging_desc \<Rightarrow> u64 \<Rightarrow> u64 \<Rightarrow> nat \<Rightarrow> 's kernel_scheme option" where
  "second_pass_loop s desc real_heap current_addr 0 = Some s"
| "second_pass_loop s desc real_heap current_addr (Suc n) = do {
     (s1, block_addr) \<leftarrow> zalloc_at s real_heap PEACHOS_HEAP_BLOCK_SIZE;
     if block_addr = 0 then None
     else do {
       (s2, _) \<leftarrow> paging_map kzalloc s1 desc current_addr block_addr
                   (PAGING_IS_WRITEABLE OR PAGING_IS_PRESENT);
       second_pass_loop s2 desc real_heap (current_addr + PEACHOS_HEAP_BLOCK_SIZE) n
     }
   }"

definition multiheap_alloc_second_pass ::
  "'s kernel_scheme \<Rightarrow> u64 \<Rightarrow> ('s kernel_scheme \<times> u64) option" where
  "multiheap_alloc_second_pass s sz =
     (case paging_current_descriptor s of
        None \<Rightarrow> None
      | Some desc \<Rightarrow> do {
          let sz = heap_align_value_to_upper sz;
          let total_blocks = unat (sz div PEACHOS_HEAP_BLOCK_SIZE);
          (s1, saddr, chosen) \<leftarrow> multiheap_alloc_paging s sz;
          (case chosen of
             None \<Rightarrow> Some (s1, 0)
           | Some sh \<Rightarrow> do {
               s2 \<leftarrow> second_pass_loop s1 desc (mh_heap sh) saddr total_blocks;
               Some (s2, saddr)
             })
        })"

definition multiheap_palloc :: "'s kernel_scheme \<Rightarrow> u64 \<Rightarrow> ('s kernel_scheme \<times> u64) option" where
  "multiheap_palloc s sz = do {
     (s', p) \<leftarrow> multiheap_alloc_first_pass s sz;
     if p \<noteq> 0 then Some (s', p) else multiheap_alloc_second_pass s' sz
   }"

definition kpalloc :: "'s kernel_scheme \<Rightarrow> u64 \<Rightarrow> ('s kernel_scheme \<times> u64) option" where
  "kpalloc s sz = do {
     (s', p) \<leftarrow> multiheap_palloc s sz;
     if p = 0 then None else Some (s', p)
   }"

definition kpzalloc :: "'s kernel_scheme \<Rightarrow> u64 \<Rightarrow> ('s kernel_scheme \<times> u64) option" where
  "kpzalloc s sz = do {
     (s', p) \<leftarrow> kpalloc s sz;
     m \<leftarrow> memset (kmem s') p 0 sz;
     Some (s'\<lparr>kmem := m\<rparr>, p)
   }"

text \<open>Called for each block a paging heap frees.\<close>

definition multiheap_paging_heap_free_block :: "'s kernel_scheme \<Rightarrow> u64 \<Rightarrow> 's kernel_scheme option" where
  "multiheap_paging_heap_free_block s ptr =
     (case paging_current_descriptor s of
        None \<Rightarrow> None
      | Some desc \<Rightarrow> do { (s', _) \<leftarrow> paging_map kzalloc s desc ptr 0 0; Some s' })"

text \<open>The recorded calls of a heap's callbacks, carried out in order.\<close>

primrec deliver_calls :: "'s kernel_scheme \<Rightarrow> heap_call list \<Rightarrow> 's kernel_scheme option" where
  "deliver_calls s [] = Some s"
| "deliver_calls s (c # cs) = do {
     s' \<leftarrow> (case c of Block_allocated p n \<Rightarrow> Some s
                   | Block_freed p \<Rightarrow> multiheap_paging_heap_free_block s p);
     deliver_calls s' cs
   }"

definition free_at_paging :: "'s kernel_scheme \<Rightarrow> u64 \<Rightarrow> u64 \<Rightarrow> 's kernel_scheme option" where
  "free_at_paging s hp ptr = do {
     let before = length (heap_calls (heap_at s hp));
     s' \<leftarrow> free_at s hp ptr;
     deliver_calls s' (drop before (heap_calls (heap_at s' hp)))
   }"

text \<open>
  \<open>multiheap_free\<close> calls itself for the physical block behind each virtual one. The virtual address of
  block \<open>i\<close> is computed from the block number in the heap, as the code does.
\<close>

partial_function (option) multiheap_free :: "u64 \<Rightarrow> 's kernel_scheme \<Rightarrow> 's kernel_scheme option" where
  "multiheap_free ptr s = do {
     (phys_heap, paging_heap, real_phys_addr) \<leftarrow>
       multiheap_get_heap_and_paging_heap_for_address s ptr;
     (case paging_heap of
        Some sh \<Rightarrow> do {
          let h = heap_at s (mh_paging_heap sh);
          let total = heap_allocation_block_count h ptr;
          let starting_block = nat (heap_address_to_block h ptr);
          s' \<leftarrow> for_each (\<lambda>i s.
            case paging_current_descriptor s of
              None \<Rightarrow> None
            | Some desc \<Rightarrow>
                let va = ptr + of_nat i * PEACHOS_HEAP_BLOCK_SIZE
                in multiheap_free (paging_get_physical_address (tables s) desc va) s)
            [starting_block..<starting_block + total] s;
          free_at_paging s' (mh_paging_heap sh) ptr
        }
      | None \<Rightarrow>
          (case phys_heap of
             None \<Rightarrow> Some s
           | Some sh \<Rightarrow> free_at s (mh_heap sh) real_phys_addr))
   }"

subsection \<open>Getting ready\<close>

text \<open>A paging heap for each heap that allows one, above the highest physical address.\<close>

primrec ready_loop ::
  "'s kernel_scheme \<Rightarrow> u64 \<Rightarrow> multiheap_single_heap list \<Rightarrow>
   ('s kernel_scheme \<times> multiheap_single_heap list) option" where
  "ready_loop s max_end [] = Some (s, [])"
| "ready_loop s max_end (current # shs) = do {
     (s', current') \<leftarrow>
       (if multiheap_heap_allows_paging current then do {
          let starting = starting_heap (kernel_multiheap s);
          let h = heap_at s (mh_heap current);
          let pstart = max_end + saddr h;
          let pend = max_end + eaddr h;
          let blocks = length (heap_entries h);
          (s1, table) \<leftarrow> zalloc_at s starting 16;
          (s2, entries) \<leftarrow> zalloc_at s1 starting (of_nat blocks);
          (s3, php) \<leftarrow> zalloc_at s2 starting 64;
          if table = 0 \<or> entries = 0 \<or> php = 0 then None
          else do {
            let (_, ph) = heap_create (heap_at s3 php) pstart pend (replicate blocks 0);
            let s4 = s3\<lparr>heap_at := (heap_at s3)(php := ph)\<rparr>;
            desc \<leftarrow> paging_current_descriptor s4;
            (s5, _) \<leftarrow> paging_map_to kzalloc s4 desc pstart pstart pend 0;
            let s6 = s5\<lparr>heap_at := (heap_at s5)(php := heap_callbacks_set (heap_at s5 php) False True)\<rparr>;
            Some (s6, current\<lparr>mh_paging_heap := php\<rparr>)
          }
        } else Some (s, current));
     (s'', shs') \<leftarrow> ready_loop s' max_end shs;
     Some (s'', current' # shs')
   }"

definition multiheap_ready :: "'s kernel_scheme \<Rightarrow> ('s kernel_scheme \<times> int) option" where
  "multiheap_ready s =
     (let mh = kernel_multiheap s;
          s1 = s\<lparr>kernel_multiheap := mh\<lparr>multiheap_flags := multiheap_flags mh OR MULTIHEAP_FLAG_IS_READY\<rparr>\<rparr>
      in case paging_current_descriptor s1 of
           None \<Rightarrow> None
         | Some desc \<Rightarrow> do {
             let max_end = multiheap_get_max_memory_end_address s1;
             let s2 = s1\<lparr>kernel_multiheap := (kernel_multiheap s1)\<lparr>max_end_data_addr := max_end\<rparr>\<rparr>;
             (s3, shs) \<leftarrow> ready_loop s2 max_end (first_multiheap (kernel_multiheap s2));
             Some (s3\<lparr>kernel_multiheap := (kernel_multiheap s3)\<lparr>first_multiheap := shs\<rparr>\<rparr>, 0)
           })"

definition kheap_post_paging :: "'s kernel_scheme \<Rightarrow> 's kernel_scheme option" where
  "kheap_post_paging s = do { (s', _) \<leftarrow> multiheap_ready s; Some s' }"

subsection \<open>The start of the kernel heap\<close>

abbreviation (input) PEACHOS_HEAP_MINIMUM_SIZE_BYTES :: u64 where
  "PEACHOS_HEAP_MINIMUM_SIZE_BYTES \<equiv> 104857600"
abbreviation (input) PEACHOS_MINIMAL_HEAP_ADDRESS :: u64 where
  "PEACHOS_MINIMAL_HEAP_ADDRESS \<equiv> 0x01100000"
abbreviation (input) PEACHOS_MINIMAL_HEAP_TABLE_ADDRESS :: u64 where
  "PEACHOS_MINIMAL_HEAP_TABLE_ADDRESS \<equiv> 0x01000000"

text \<open>The index of the first usable region that is large enough.\<close>

primrec allowable_region_loop :: "e820_entry list \<Rightarrow> nat \<Rightarrow> (nat \<times> e820_entry) option" where
  "allowable_region_loop [] i = None"
| "allowable_region_loop (current # es) i =
     (if e820_type current = 1 \<and> e820_length current > PEACHOS_HEAP_MINIMUM_SIZE_BYTES
      then Some (i, current) else allowable_region_loop es (Suc i))"

definition kheap_get_allowable_memory_region_for_minimal_heap ::
  "e820_entry list \<Rightarrow> (nat \<times> e820_entry) option" where
  "kheap_get_allowable_memory_region_for_minimal_heap es = allowable_region_loop es 0"

primrec kheap_add_loop ::
  "'s kernel_scheme \<Rightarrow> nat \<Rightarrow> nat \<Rightarrow> e820_entry list \<Rightarrow> 's kernel_scheme option" where
  "kheap_add_loop s used i [] = Some s"
| "kheap_add_loop s used i (current # es) =
     (if i \<noteq> used \<and> e820_type current = 1 then do {
        let base = base_addr current;
        let end_addr = base_addr current + e820_length current;
        let base = (if \<not> paging_is_aligned base then paging_align_address base else base);
        let end_addr = (if \<not> paging_is_aligned end_addr then paging_align_to_lower_page end_addr
                        else end_addr);
        let base = (if base < PEACHOS_MINIMAL_HEAP_ADDRESS then PEACHOS_MINIMAL_HEAP_ADDRESS else base);
        if end_addr \<le> base then kheap_add_loop s used (Suc i) es
        else do {
          (s', _) \<leftarrow> multiheap_add s base end_addr MULTIHEAP_HEAP_FLAG_DEFRAGMENT_WITH_PAGING;
          kheap_add_loop s' used (Suc i) es
        }
      } else kheap_add_loop s used (Suc i) es)"

text \<open>
  Where the first heap goes in its region: the table, then the pool behind it. The result is the
  address of the table, both ends of the pool and the number of table entries.
\<close>

definition minimal_heap_layout :: "u64 \<Rightarrow> u64 \<Rightarrow> u64 \<times> u64 \<times> u64 \<times> u64" where
  "minimal_heap_layout address end_address =
     (let table_address = (if address < PEACHOS_MINIMAL_HEAP_TABLE_ADDRESS
                           then PEACHOS_MINIMAL_HEAP_TABLE_ADDRESS else address);
          total_heap_size = end_address - table_address;
          total_heap_blocks = total_heap_size div PEACHOS_HEAP_BLOCK_SIZE;
          table_size = total_heap_blocks;
          heap_data_size = total_heap_size - table_size;
          data_blocks = heap_data_size div PEACHOS_HEAP_BLOCK_SIZE;
          table_size = data_blocks;
          heap_address = table_address + table_size;
          heap_end = end_address;
          heap_address = (if \<not> paging_is_aligned heap_address then paging_align_address heap_address
                          else heap_address);
          heap_end = (if \<not> paging_is_aligned heap_end then paging_align_to_lower_page heap_end
                      else heap_end);
          sz = heap_end - heap_address
      in (table_address, heap_address, heap_end, sz div PEACHOS_HEAP_BLOCK_SIZE))"

text \<open>The table must end before the pool: a table that reaches into the pool is overwritten by the first block handed out.\<close>

definition minimal_table_fits :: "e820_entry \<Rightarrow> bool" where
  "minimal_table_fits entry \<longleftrightarrow>
     (let (table_address, heap_address, heap_end, entries) = minimal_heap_layout (base_addr entry) (base_addr entry + e820_length entry)
      in unat table_address + unat entries \<le> unat heap_address)"

text \<open>
  \<open>hp\<close> is the address of the static \<open>kernel_minimal_heap\<close>. The table of a heap is a list beside the byte memory, so the model says nothing of
  a first heap whose table does not fit: the result is \<open>None\<close>.
\<close>

definition kheap_init :: "'s kernel_scheme \<Rightarrow> u64 \<Rightarrow> e820_entry list \<Rightarrow> 's kernel_scheme option" where
  "kheap_init s hp es =
     (case kheap_get_allowable_memory_region_for_minimal_heap es of
        None \<Rightarrow> None
      | Some (used, entry) \<Rightarrow> if \<not> minimal_table_fits entry then None else do {
          let (table_address, heap_address, heap_end, entries) =
            minimal_heap_layout (base_addr entry) (base_addr entry + e820_length entry);
          let (res, h) = heap_create (heap_at s hp) heap_address heap_end
                           (read_bytes (kmem s) table_address (unat entries));
          if res < 0 then None
          else do {
            let s1 = s\<lparr>heap_at := (heap_at s)(hp := h)\<rparr>;
            (s2, mh_opt) \<leftarrow> multiheap_new s1 hp;
            mh \<leftarrow> mh_opt;
            let s3 = s2\<lparr>kernel_multiheap := mh\<rparr>;
            (s4, _) \<leftarrow> multiheap_add_existing_heap s3 hp MULTIHEAP_HEAP_FLAG_EXTERNALLY_OWNED;
            kheap_add_loop s4 used 0 es
          }
        })"

subsection \<open>The invariant of the kernel allocator\<close>

text \<open>A pool below \<open>2 ^ 52\<close> without callbacks whose table records a set of allocations.\<close>

definition pool_ok :: "heap \<Rightarrow> bool" where
  "pool_ok h \<longleftrightarrow> heap_wf h \<and> saddr h mod 4096 = 0 \<and> unat (eaddr h) < 2 ^ 52 \<and>
     \<not> block_allocated_callback h \<and> \<not> block_free_callback h \<and> (\<exists>A. heap_rep A (heap_entries h))"

definition heap_list :: "'s kernel_scheme \<Rightarrow> u64 list" where
  "heap_list s = map mh_heap (first_multiheap (kernel_multiheap s))"

text \<open>
  \<open>heap_is_address_within_heap\<close> counts the end address in, so two pools have to be apart by a gap.
\<close>

definition kernel_inv :: "'s kernel_scheme \<Rightarrow> bool" where
  "kernel_inv s \<longleftrightarrow> distinct (heap_list s) \<and> (\<forall>hp\<in>set (heap_list s). pool_ok (heap_at s hp)) \<and>
     (\<forall>hp\<in>set (heap_list s). \<forall>hp'\<in>set (heap_list s). hp \<noteq> hp' \<longrightarrow>
        eaddr (heap_at s hp) < saddr (heap_at s hp') \<or> eaddr (heap_at s hp') < saddr (heap_at s hp))"

definition live_blocks :: "heap \<Rightarrow> u64 set" where
  "live_blocks h = {heap_block_to_address h (int b) | b.
     b < length (heap_entries h) \<and> \<not> block_free (heap_entries h ! b)}"

definition live_pages :: "'s kernel_scheme \<Rightarrow> u64 set" where
  "live_pages s = (\<Union>hp\<in>set (heap_list s). live_blocks (heap_at s hp))"

definition free_pages :: "'s kernel_scheme \<Rightarrow> nat" where
  "free_pages s = sum_list (map (\<lambda>hp. length (filter block_free (heap_entries (heap_at s hp)))) (heap_list s))"

lemma pool_ok_malloc:
  assumes "pool_ok h" "free_run (heap_entries h) n b" "0 < n"
  shows "pool_ok (malloc_result h n b)"
proof -
  obtain A where "heap_rep A (heap_entries h)" using assms(1) by (auto simp: pool_ok_def)
  then have "heap_rep (A(b \<mapsto> n)) (heap_entries (malloc_result h n b))"
    by (rule heap_rep_malloc_result [OF _ assms(2,3)])
  moreover have "heap_wf (malloc_result h n b)"
    using same_pool_wf [OF same_pool_malloc_result, of h n b] assms(1) by (simp add: pool_ok_def)
  ultimately show ?thesis
    using assms(1) by (auto simp: pool_ok_def malloc_result_def)
qed

text \<open>The first pass takes the first heap that has a run, and its first run there.\<close>

lemma alloc_first_pass_loop_cases:
  assumes "\<forall>sh\<in>set shs. heap_wf (heap_at s (mh_heap sh))" "blocks_for sz = n" "0 < n"
  obtains (found) hp b where "hp \<in> mh_heap ` set shs"
      "free_run (heap_entries (heap_at s hp)) n b" "\<forall>b'<b. \<not> free_run (heap_entries (heap_at s hp)) n b'"
      "alloc_first_pass_loop s shs sz =
         Some (s\<lparr>heap_at := (heap_at s)(hp := malloc_result (heap_at s hp) n b)\<rparr>,
               heap_block_to_address (heap_at s hp) (int b))"
      "heap_block_to_address (heap_at s hp) (int b) \<noteq> 0"
  | (none) "\<forall>sh\<in>set shs. \<forall>b. \<not> free_run (heap_entries (heap_at s (mh_heap sh))) n b"
      "alloc_first_pass_loop s shs sz = Some (s, 0)"
  using assms(1)
proof (induction shs arbitrary: thesis)
  case Nil
  then show ?case by simp
next
  case (Cons sh shs)
  let ?h = "heap_at s (mh_heap sh)"
  have m: "heap_malloc ?h sz = heap_malloc_blocks ?h n"
    using assms(2) by (simp add: heap_malloc_def blocks_for_def Let_def)
  show ?case
  proof (cases rule: heap_malloc_blocks_cases [of n ?h])
    case (found b)
    have "heap_block_to_address ?h (int b) \<noteq> 0"
      using Cons.prems(3) found(2) by (intro block_addr_neq_0) (auto simp: free_run_def)
    then show ?thesis
      using found m Cons.prems(1) [of "mh_heap sh" b] by (simp add: malloc_at_def del: fun_upd_apply)
  next
    case none
    have step: "alloc_first_pass_loop s (sh # shs) sz = alloc_first_pass_loop s shs sz"
      using none(2) m by (simp add: malloc_at_def)
    have nofit: "\<forall>b. \<not> free_run (heap_entries ?h) n b" using none(1) assms(3) by simp
    have wf: "\<forall>sh\<in>set shs. heap_wf (heap_at s (mh_heap sh))" using Cons.prems(3) by simp
    show ?thesis
    proof (rule Cons.IH [OF _ _ wf])
      fix hp b
      assume f: "hp \<in> mh_heap ` set shs" "free_run (heap_entries (heap_at s hp)) n b"
        "\<forall>b'<b. \<not> free_run (heap_entries (heap_at s hp)) n b'"
        "alloc_first_pass_loop s shs sz =
         Some (s\<lparr>heap_at := (heap_at s)(hp := malloc_result (heap_at s hp) n b)\<rparr>,
               heap_block_to_address (heap_at s hp) (int b))"
        "heap_block_to_address (heap_at s hp) (int b) \<noteq> 0"
      have "hp \<in> mh_heap ` set (sh # shs)" using f(1) by simp
      from Cons.prems(1) [OF this f(2,3) trans [OF step f(4)] f(5)] show thesis .
    next
      assume "\<forall>sh\<in>set shs. \<forall>b. \<not> free_run (heap_entries (heap_at s (mh_heap sh))) n b"
        "alloc_first_pass_loop s shs sz = Some (s, 0)"
      then show thesis using Cons.prems(2) step nofit by simp
    qed
  qed
qed

lemma heap_list_update [simp]:
  "heap_list (s\<lparr>heap_at := f\<rparr>) = heap_list s" "heap_list (s\<lparr>kmem := m\<rparr>) = heap_list s"
  "heap_list (s\<lparr>tables := T\<rparr>) = heap_list s" "heap_list (s\<lparr>tlb_invalidated := l\<rparr>) = heap_list s"
  by (simp_all add: heap_list_def)

lemma kernel_inv_update [simp]:
  "kernel_inv (s\<lparr>kmem := m\<rparr>) = kernel_inv s" "kernel_inv (s\<lparr>tables := T\<rparr>) = kernel_inv s"
  "kernel_inv (s\<lparr>tlb_invalidated := l\<rparr>) = kernel_inv s"
  by (simp_all add: kernel_inv_def)

lemma pages_update [simp]:
  "live_pages (s\<lparr>kmem := m\<rparr>) = live_pages s" "live_pages (s\<lparr>tables := T\<rparr>) = live_pages s"
  "live_pages (s\<lparr>tlb_invalidated := l\<rparr>) = live_pages s"
  "free_pages (s\<lparr>kmem := m\<rparr>) = free_pages s" "free_pages (s\<lparr>tables := T\<rparr>) = free_pages s"
  "free_pages (s\<lparr>tlb_invalidated := l\<rparr>) = free_pages s"
  by (simp_all add: live_pages_def free_pages_def)

lemma kernel_inv_heap_at:
  assumes "kernel_inv s" "hp \<in> set (heap_list s)" "pool_ok h'" "same_pool (heap_at s hp) h'"
  shows "kernel_inv (s\<lparr>heap_at := (heap_at s)(hp := h')\<rparr>)"
  using assms by (auto simp: kernel_inv_def same_pool_def)

lemma kernel_inv_wf:
  "kernel_inv s \<Longrightarrow> \<forall>sh\<in>set (first_multiheap (kernel_multiheap s)). heap_wf (heap_at s (mh_heap sh))"
  by (simp add: kernel_inv_def heap_list_def pool_ok_def)

text \<open>One block is found when any heap has a free one.\<close>

lemma free_run_one: "free_run es 1 b \<longleftrightarrow> b < length es \<and> block_free (es ! b)"
  by (auto simp: free_run_def)

lemma free_pages_pos:
  assumes "0 < free_pages s"
  shows "\<exists>sh\<in>set (first_multiheap (kernel_multiheap s)).
    \<exists>b. free_run (heap_entries (heap_at s (mh_heap sh))) 1 b"
proof (rule ccontr)
  assume "\<not> ?thesis"
  then have "length (filter block_free (heap_entries (heap_at s hp))) = 0" if "hp \<in> set (heap_list s)" for hp
    using that unfolding free_run_one heap_list_def
    by (simp add: filter_empty_conv all_set_conv_all_nth [of "heap_entries _"]) auto
  then show False using assms by (simp add: free_pages_def cong: map_cong)
qed

lemma length_filter_update:
  assumes "i < length xs" "P (xs ! i)" "\<not> P x"
  shows "length (filter P xs) = Suc (length (filter P (xs[i := x])))"
proof -
  have "xs = take i xs @ xs ! i # drop (Suc i) xs" using assms(1) by (simp add: id_take_nth_drop)
  then have "length (filter P xs) = length (filter P (take i xs @ xs ! i # drop (Suc i) xs))" by simp
  then show ?thesis using assms by (simp add: upd_conv_take_nth_drop)
qed

lemma sum_list_update_one:
  assumes "distinct xs" "x \<in> set xs" "f x = Suc (g x)" "\<And>y. y \<noteq> x \<Longrightarrow> f y = g y"
  shows "sum_list (map f xs) = Suc (sum_list (map g xs))"
proof -
  obtain ys zs where xs: "xs = ys @ x # zs" "x \<notin> set ys" "x \<notin> set zs"
    using assms(1,2) by (metis distinct.simps(2) distinct_append not_distinct_conv_prefix split_list disjoint_iff list.set_intros(1))
  have "f y = g y" if "y \<in> set ys \<union> set zs" for y
    by (rule assms(4)) (use that xs in auto)
  then have "map f ys = map g ys" "map f zs = map g zs" by (simp_all cong: map_cong)
  then show ?thesis unfolding xs(1) by (simp only: map_append list.map sum_list_append sum_list.Cons assms(3))
qed

lemma marked_one:
  "b < length es \<Longrightarrow> marked es (int b) (int (b + 1) - 1) e = es[b := e]"
  by (auto simp: list_eq_iff_nth_eq nth_marked nth_list_update)

lemma malloc_one:
  assumes "free_run (heap_entries h) 1 b"
  defines "h' \<equiv> malloc_result h 1 b"
  shows "live_blocks h' = insert (heap_block_to_address h (int b)) (live_blocks h)"
    and "length (filter block_free (heap_entries h)) = Suc (length (filter block_free (heap_entries h')))"
proof -
  let ?e = "HEAP_BLOCK_TABLE_ENTRY_TAKEN OR HEAP_BLOCK_IS_FIRST"
  have b: "b < length (heap_entries h)" "block_free (heap_entries h ! b)"
    using assms(1) by (simp_all only: free_run_one)
  have es: "heap_entries h' = (heap_entries h)[b := ?e]"
    using marked_one [OF b(1)] by (simp add: h'_def malloc_result_def)
  have ne: "\<not> block_free ?e" by (simp add: block_free_def heap_get_entry_type_def)
  show "live_blocks h' = insert (heap_block_to_address h (int b)) (live_blocks h)"
    unfolding live_blocks_def es using b ne
    by (auto simp: h'_def nth_list_update split: if_splits)
  show "length (filter block_free (heap_entries h)) = Suc (length (filter block_free (heap_entries h')))"
    unfolding es by (rule length_filter_update [OF b ne])
qed

lemma unat_eaddr: "heap_wf h \<Longrightarrow> unat (eaddr h) = unat (saddr h) + length (heap_entries h) * 4096"
  using unat_block_addr [of h "length (heap_entries h)"]
  by (simp add: heap_wf_def block_addr_offset)

lemma block_addr_range:
  assumes "heap_wf h" "b < length (heap_entries h)"
  shows "saddr h \<le> heap_block_to_address h (int b)" "heap_block_to_address h (int b) < eaddr h"
  using assms unat_block_addr [of h b] unat_eaddr [of h]
  by (simp_all add: word_le_nat_alt word_less_nat_alt)

lemma block_addr_inj:
  assumes "heap_wf h" "b \<le> length (heap_entries h)" "b' \<le> length (heap_entries h)"
    and "heap_block_to_address h (int b) = heap_block_to_address h (int b')"
  shows "b = b'"
proof -
  have "unat (saddr h) + b * 4096 = unat (saddr h) + b' * 4096"
    using unat_block_addr [OF assms(1,2)] unat_block_addr [OF assms(1,3)] assms(4) by metis
  then show ?thesis by linarith
qed

lemma block_addr_page:
  assumes "pool_ok h" "b < length (heap_entries h)"
  shows "heap_block_to_address h (int b) mod 4096 = 0" "heap_block_to_address h (int b) < 2 ^ 52"
proof -
  have wf: "heap_wf h" and al: "unat (saddr h) mod 4096 = 0" and e: "unat (eaddr h) < 2 ^ 52"
    using assms(1) by (simp_all add: pool_ok_def word_unat_eq_iff unat_mod)
  have "unat (heap_block_to_address h (int b)) mod 4096 = 0"
    using unat_block_addr [OF wf, of b] assms(2) al by simp
  then show "heap_block_to_address h (int b) mod 4096 = 0"
    by (simp add: word_unat_eq_iff unat_mod)
  show "heap_block_to_address h (int b) < 2 ^ 52"
    using block_addr_range(2) [OF wf assms(2)] e by (simp add: word_less_nat_alt)
qed

text \<open>An address of a pool lies in no other pool.\<close>

lemma pools_apart:
  assumes "kernel_inv s" "hp \<in> set (heap_list s)" "hp' \<in> set (heap_list s)"
    and "saddr (heap_at s hp) \<le> p" "p \<le> eaddr (heap_at s hp)"
    and "saddr (heap_at s hp') \<le> p" "p \<le> eaddr (heap_at s hp')"
  shows "hp = hp'"
proof (rule ccontr)
  assume "hp \<noteq> hp'"
  then have "eaddr (heap_at s hp) < saddr (heap_at s hp') \<or> eaddr (heap_at s hp') < saddr (heap_at s hp)"
    using assms(1-3) unfolding kernel_inv_def by blast
  then show False using assms(4-7) by (meson leD le_less_trans less_le_trans order_trans)
qed

lemma kernel_invD:
  assumes "kernel_inv s" "hp \<in> set (heap_list s)"
  shows "pool_ok (heap_at s hp)" "heap_wf (heap_at s hp)"
  using assms by (auto simp: kernel_inv_def pool_ok_def)

lemma fresh_page:
  assumes inv: "kernel_inv s" and hp: "hp \<in> set (heap_list s)"
    and b: "b < length (heap_entries (heap_at s hp))" "block_free (heap_entries (heap_at s hp) ! b)"
  shows "heap_block_to_address (heap_at s hp) (int b) \<notin> live_pages s"
proof
  let ?p = "heap_block_to_address (heap_at s hp) (int b)"
  assume "?p \<in> live_pages s"
  then obtain hp' b' where o: "hp' \<in> set (heap_list s)" "?p = heap_block_to_address (heap_at s hp') (int b')"
    "b' < length (heap_entries (heap_at s hp'))" "\<not> block_free (heap_entries (heap_at s hp') ! b')"
    by (auto simp: live_pages_def live_blocks_def)
  have "hp = hp'"
    using pools_apart [OF inv hp o(1), of ?p] block_addr_range [OF kernel_invD(2) [OF inv hp] b(1)]
      block_addr_range [OF kernel_invD(2) [OF inv o(1)] o(3)] o(2) by (simp add: less_imp_le)
  then show False
    using block_addr_inj [OF kernel_invD(2) [OF inv hp], of b b'] b o by simp
qed

lemma blocks_for_page: "blocks_for 4096 = 1"
  by (simp add: blocks_for_eq)

lemma kzalloc_block_state:
  assumes inv: "kernel_inv s" and "0 < free_pages s" and sz: "blocks_for sz = 1" "unat sz < 2 ^ 31"
  shows "\<exists>s' p. kzalloc s sz = Some (s', p) \<and> kernel_inv s' \<and> tables s' = tables s \<and>
    tlb_invalidated s' = tlb_invalidated s \<and>
    p \<notin> live_pages s \<and> live_pages s' = insert p (live_pages s) \<and>
    free_pages s = Suc (free_pages s') \<and> p \<noteq> 0 \<and> p mod 4096 = 0 \<and> p < 2 ^ 52 \<and>
    kmem s' = memset_bytes (kmem s) p 0 (unat sz) \<and> current_paging_desc s' = current_paging_desc s \<and>
    (\<exists>h m. s' = s\<lparr>heap_at := h, kmem := m\<rparr>)"
proof -
  let ?shs = "first_multiheap (kernel_multiheap s)"
  obtain hp b where f: "hp \<in> mh_heap ` set ?shs" "free_run (heap_entries (heap_at s hp)) 1 b"
    "alloc_first_pass_loop s ?shs sz =
       Some (s\<lparr>heap_at := (heap_at s)(hp := malloc_result (heap_at s hp) 1 b)\<rparr>,
             heap_block_to_address (heap_at s hp) (int b))"
    "heap_block_to_address (heap_at s hp) (int b) \<noteq> 0"
    by (rule alloc_first_pass_loop_cases [OF kernel_inv_wf [OF inv] sz(1)])
      (use free_pages_pos [OF assms(2)] in auto)
  let ?h = "heap_at s hp" and ?p = "heap_block_to_address (heap_at s hp) (int b)"
  let ?h' = "malloc_result ?h 1 b"
  let ?s = "s\<lparr>heap_at := (heap_at s)(hp := ?h')\<rparr>"
  let ?s' = "?s\<lparr>kmem := memset_bytes (kmem s) ?p 0 (unat sz)\<rparr>"
  have hp: "hp \<in> set (heap_list s)" using f(1) by (auto simp: heap_list_def)
  have b: "b < length (heap_entries ?h)" "block_free (heap_entries ?h ! b)"
    using f(2) by (simp_all only: free_run_one)
  have res: "kzalloc s sz = Some (?s', ?p)"
    using f(3,4) sz(2) by (simp add: kzalloc_def kmalloc_def multiheap_alloc_def
        multiheap_alloc_first_pass_def memset_def)
  have "kernel_inv ?s'"
    using kernel_inv_heap_at [OF inv hp pool_ok_malloc [OF kernel_invD(1) [OF inv hp] f(2)]] by simp
  moreover have "live_pages ?s' = insert ?p (live_pages s)"
    using malloc_one(1) [OF f(2)] hp by (auto simp: live_pages_def split: if_splits)
  moreover have "free_pages s = Suc (free_pages ?s')"
    unfolding free_pages_def
    using sum_list_update_one [of "heap_list s" hp "\<lambda>hp. length (filter block_free (heap_entries (heap_at s hp)))"
      "\<lambda>hp. length (filter block_free (heap_entries (heap_at ?s' hp)))"] malloc_one(2) [OF f(2)] hp inv
    by (simp add: kernel_inv_def)
  moreover have "?p \<notin> live_pages s" by (rule fresh_page [OF inv hp b])
  ultimately show ?thesis
    using res f(4) block_addr_page [OF kernel_invD(1) [OF inv hp] b(1)]
    by (intro exI [of _ ?s'] exI [of _ ?p]) (simp, blast)
qed

lemma kzalloc_block:
  assumes inv: "kernel_inv s" and "0 < free_pages s" and sz: "blocks_for sz = 1" "unat sz < 2 ^ 31"
  shows "\<exists>s' p. kzalloc s sz = Some (s', p) \<and> kernel_inv s' \<and> tables s' = tables s \<and>
    tlb_invalidated s' = tlb_invalidated s \<and>
    p \<notin> live_pages s \<and> live_pages s' = insert p (live_pages s) \<and>
    free_pages s = Suc (free_pages s') \<and> p \<noteq> 0 \<and> p mod 4096 = 0 \<and> p < 2 ^ 52 \<and>
    kmem s' = memset_bytes (kmem s) p 0 (unat sz) \<and> current_paging_desc s' = current_paging_desc s"
  using kzalloc_block_state [OF assms] by (elim exE conjE) (intro exI conjI; assumption)

lemma kzalloc_page:
  assumes "kernel_inv s" "0 < free_pages s"
  shows "\<exists>s' p. kzalloc s 4096 = Some (s', p) \<and> kernel_inv s' \<and> tables s' = tables s \<and>
    tlb_invalidated s' = tlb_invalidated s \<and>
    p \<notin> live_pages s \<and> live_pages s' = insert p (live_pages s) \<and>
    free_pages s = Suc (free_pages s') \<and> p \<noteq> 0 \<and> p mod 4096 = 0 \<and> p < 2 ^ 52 \<and>
    kmem s' = memset_bytes (kmem s) p 0 4096 \<and> current_paging_desc s' = current_paging_desc s"
  using kzalloc_block [OF assms blocks_for_page] by simp

interpretation kpages: page_allocator kzalloc kernel_inv live_pages free_pages
proof unfold_locales
  fix s :: "'s kernel_scheme"
  assume "kernel_inv s" "0 < free_pages s"
  from kzalloc_page [OF this]
  show "\<exists>s' p. kzalloc s 4096 = Some (s', p) \<and> kernel_inv s' \<and> tables s' = tables s \<and>
      tlb_invalidated s' = tlb_invalidated s \<and> p \<notin> live_pages s \<and>
      live_pages s' = insert p (live_pages s) \<and> free_pages s = Suc (free_pages s') \<and>
      p \<noteq> 0 \<and> p mod 4096 = 0 \<and> p < 2 ^ 52"
    by (elim exE conjE) (intro exI conjI; assumption)
qed simp_all

subsection \<open>Ownership and reallocation\<close>

text \<open>The table determines its allocations: each starts at an \<open>IS_FIRST\<close> entry.\<close>

lemma entry_ok_first: "entry_ok n j e \<Longrightarrow> e AND HEAP_BLOCK_IS_FIRST \<noteq> 0 \<longleftrightarrow> j = 0"
  by (auto simp: entry_ok_def split: if_splits)

lemma heap_rep_le:
  assumes "heap_rep A es" "heap_rep A' es" "A b = Some n"
  shows "\<exists>n'. A' b = Some n' \<and> n' \<le> n"
proof -
  note n = heap_repD [OF assms(1,3)]
  have first: "es ! b AND HEAP_BLOCK_IS_FIRST \<noteq> 0"
    using entry_ok_first [OF n(3) [of 0]] n(1) by simp
  have "covered A' b"
    using heap_rep_free_iff [OF assms(2), of b] entry_ok_facts(2) [OF n(3) [of 0]] n(1,2) by simp
  then obtain b' n' where b': "A' b' = Some n'" "b' \<le> b" "b < b' + n'" by (rule coveredE)
  then have "b' = b"
    using entry_ok_first [OF heap_repD(4) [OF assms(2) b'(1), of b]] first by simp
  moreover have "n' \<le> n"
  proof (rule ccontr)
    assume "\<not> n' \<le> n"
    then have in': "entry_ok n' n (es ! (b + n))" "b + n < length es"
      using heap_repD(2,3) [OF assms(2) b'(1)] \<open>b' = b\<close> by (simp_all add: not_le)
    then have nf: "es ! (b + n) AND HEAP_BLOCK_IS_FIRST = 0" using entry_ok_first n(1) by blast
    have "covered A (b + n)"
      using heap_rep_free_iff [OF assms(1) in'(2)] entry_ok_facts(2) [OF in'(1)] by simp
    then obtain c k where c: "A c = Some k" "c \<le> b + n" "b + n < c + k" by (rule coveredE)
    have "c \<noteq> b" using c assms(3) by auto
    then have "c = b + n" using heap_rep_disjoint [OF assms(1) c(1) assms(3)] c n(1) by auto
    then have "es ! (b + n) AND HEAP_BLOCK_IS_FIRST \<noteq> 0"
      using entry_ok_first [OF heap_repD(3) [OF assms(1) c(1), of 0]] heap_repD(1) [OF assms(1) c(1)] by simp
    then show False using nf by simp
  qed
  ultimately show ?thesis using b'(1) by auto
qed

lemma heap_rep_unique:
  assumes "heap_rep A es" "heap_rep A' es"
  shows "A = A'"
proof (rule ext)
  fix b
  show "A b = A' b"
    using heap_rep_le [OF assms] heap_rep_le [OF assms(2,1)]
    by (cases "A b"; cases "A' b") (fastforce dest: le_antisym)+
qed

text \<open>\<open>p\<close> is the start of an allocation of \<open>n\<close> bytes of a pool.\<close>

definition owns_in :: "heap \<Rightarrow> u64 \<Rightarrow> nat \<Rightarrow> bool" where
  "owns_in h p n \<longleftrightarrow> (\<exists>A b k. heap_rep A (heap_entries h) \<and> A b = Some k \<and>
     p = heap_block_to_address h (int b) \<and> n = k * 4096)"

definition owns :: "'s kernel_scheme \<Rightarrow> u64 \<Rightarrow> nat \<Rightarrow> bool" where
  "owns s p n \<longleftrightarrow> (\<exists>hp\<in>set (heap_list s). owns_in (heap_at s hp) p n)"

text \<open>
  When a reallocation is defined: the chain of the allocation stops in it (an allocation of one
  block, or one that was grown in place, or with no neighbour behind it), the new size fits the
  counters of \<open>memset\<close> and \<open>memcpy\<close>, and the search for room behind the block stays in the table.
\<close>

definition can_realloc :: "'s kernel_scheme \<Rightarrow> u64 \<Rightarrow> u64 \<Rightarrow> bool" where
  "can_realloc s p sz \<longleftrightarrow> sz \<noteq> 0 \<and> unat sz < 2 ^ 30 \<and>
     (\<exists>hp\<in>set (heap_list s). \<exists>A b n. heap_rep A (heap_entries (heap_at s hp)) \<and> A b = Some n \<and>
        p = heap_block_to_address (heap_at s hp) (int b) \<and>
        contained A (heap_entries (heap_at s hp)) b n \<and>
        b + blocks_for sz \<le> length (heap_entries (heap_at s hp)))"

text \<open>Addresses of the pools are not taken for virtual ones.\<close>

definition physical_pools :: "'s kernel_scheme \<Rightarrow> bool" where
  "physical_pools s \<longleftrightarrow>
     max_end_data_addr (kernel_multiheap s) = 0 \<and>
       (\<forall>sh\<in>set (first_multiheap (kernel_multiheap s)). \<not> multiheap_heap_allows_paging sh) \<or>
     (\<forall>hp\<in>set (heap_list s). eaddr (heap_at s hp) \<le> max_end_data_addr (kernel_multiheap s))"

lemma heap_for_address:
  assumes inv: "kernel_inv s" and hp: "hp \<in> set (heap_list s)"
    and p: "saddr (heap_at s hp) \<le> p" "p \<le> eaddr (heap_at s hp)"
  shows "\<exists>sh. multiheap_get_heap_for_address s p = Some sh \<and> mh_heap sh = hp"
proof -
  have "\<exists>sh. heap_for_address_loop (heap_at s) shs p = Some sh \<and> mh_heap sh = hp"
    if "mh_heap ` set shs \<subseteq> set (heap_list s)" "hp \<in> mh_heap ` set shs" for shs
    using that
  proof (induction shs)
    case Nil
    then show ?case by simp
  next
    case (Cons sh shs)
    show ?case
    proof (cases "heap_is_address_within_heap (heap_at s (mh_heap sh)) p")
      case True
      then have "mh_heap sh = hp"
        using pools_apart [OF inv _ hp, of "mh_heap sh" p] p Cons.prems(1)
        by (auto simp: heap_is_address_within_heap_def)
      then show ?thesis using True by simp
    next
      case False
      then show ?thesis using Cons p by (auto simp: heap_is_address_within_heap_def)
    qed
  qed
  then show ?thesis using hp by (simp add: multiheap_get_heap_for_address_def heap_list_def)
qed

lemma no_paging_heap:
  "\<forall>sh\<in>set shs. \<not> multiheap_heap_allows_paging sh \<Longrightarrow>
   paging_heap_for_address_loop hs shs p = Some None"
  by (induction shs) simp_all

lemma heap_of_pool_address:
  assumes inv: "kernel_inv s" "physical_pools s" and hp: "hp \<in> set (heap_list s)"
    and p: "saddr (heap_at s hp) \<le> p" "p < eaddr (heap_at s hp)"
  shows "\<exists>sh. multiheap_get_heap_and_paging_heap_for_address s p = Some (Some sh, None, p) \<and>
    mh_heap sh = hp"
proof -
  obtain sh where sh: "multiheap_get_heap_for_address s p = Some sh" "mh_heap sh = hp"
    using heap_for_address [OF inv(1) hp p(1)] p(2) by (auto simp: less_imp_le)
  show ?thesis
  proof (cases "max_end_data_addr (kernel_multiheap s) = 0 \<and>
       (\<forall>sh\<in>set (first_multiheap (kernel_multiheap s)). \<not> multiheap_heap_allows_paging sh)")
    case True
    then show ?thesis
      using sh no_paging_heap by (simp add: multiheap_get_heap_and_paging_heap_for_address_def
          multiheap_is_address_virtual_def multiheap_virtual_address_to_physical_def
          multiheap_get_paging_heap_for_address_def Let_def)
  next
    case False
    then have "\<not> max_end_data_addr (kernel_multiheap s) \<le> p"
      using inv(2) hp p(2) by (force simp: physical_pools_def)
    then show ?thesis
      using sh by (simp add: multiheap_get_heap_and_paging_heap_for_address_def
          multiheap_is_address_virtual_def Let_def)
  qed
qed

lemma owns_in_separate:
  assumes "heap_wf h" "owns_in h p n" "owns_in h q k" "p \<noteq> q"
  shows "separate p n q k"
proof -
  obtain A b i where a: "heap_rep A (heap_entries h)" "A b = Some i"
    "p = heap_block_to_address h (int b)" "n = i * 4096"
    using assms(2) unfolding owns_in_def by blast
  obtain c j where c: "A c = Some j" "q = heap_block_to_address h (int c)" "k = j * 4096"
    using assms(3) heap_rep_unique [OF a(1)] unfolding owns_in_def by blast
  have "b \<noteq> c" using a(3) c(2) assms(4) by auto
  then show ?thesis
    unfolding a(3,4) c(2,3)
    using separate_blocks [OF assms(1)] heap_repD(2) [OF a(1)] a(2) c(1)
      heap_rep_disjoint [OF a(1,2) c(1)] by auto
qed

lemma owns_in_range:
  assumes "heap_wf h" "owns_in h p n" "i < n"
  shows "saddr h \<le> p + of_nat i" "p + of_nat i < eaddr h" "saddr h \<le> p" "p < eaddr h"
    "0 < p" "unat p + n < 2 ^ 63"
proof -
  obtain A b k where a: "heap_rep A (heap_entries h)" "A b = Some k"
    "p = heap_block_to_address h (int b)" "n = k * 4096"
    using assms(2) unfolding owns_in_def by blast
  have len: "b + k \<le> length (heap_entries h)" "0 < k" using heap_repD [OF a(1,2)] by auto
  have u: "unat p = unat (saddr h) + b * 4096" using unat_block_addr [OF assms(1), of b] a(3) len by simp
  have e: "unat (eaddr h) = unat (saddr h) + length (heap_entries h) * 4096" by (rule unat_eaddr [OF assms(1)])
  have lt: "unat (saddr h) + length (heap_entries h) * 4096 < 2 ^ 63" using assms(1) by (simp add: heap_wf_def)
  have "unat (p + of_nat i) = unat p + i"
    using u lt len a(4) assms(3) by (subst unat_add_lem [THEN iffD1]) simp_all
  then show "saddr h \<le> p + of_nat i" "p + of_nat i < eaddr h" "saddr h \<le> p" "p < eaddr h"
    "unat p + n < 2 ^ 63"
    using u e lt len a(4) assms(3) by (simp_all add: word_le_nat_alt word_less_nat_alt)
  have "p \<noteq> 0" using block_addr_neq_0 [OF assms(1), of b] a(3) len by simp
  then show "0 < p" by (simp add: word_neq_0_conv)
qed

lemma owns_separate:
  assumes "kernel_inv s" "owns s p n" "owns s q k" "p \<noteq> q"
  shows "separate p n q k"
proof -
  obtain hp hq where h: "hp \<in> set (heap_list s)" "owns_in (heap_at s hp) p n"
    "hq \<in> set (heap_list s)" "owns_in (heap_at s hq) q k"
    using assms(2,3) by (auto simp: owns_def)
  note wf = kernel_invD(2) [OF assms(1) h(1)] kernel_invD(2) [OF assms(1) h(3)]
  show ?thesis
  proof (cases "hp = hq")
    case True
    then show ?thesis using owns_in_separate [OF wf(1)] h assms(4) by simp
  next
    case False
    show ?thesis
      unfolding separate_def
    proof (intro allI impI notI)
      fix i j assume ij: "i < n" "j < k" "p + of_nat i = q + of_nat j"
      then show False
        using False pools_apart [OF assms(1) h(1,3), of "p + of_nat i"]
          owns_in_range(1,2) [OF wf(1) h(2) ij(1)] owns_in_range(1,2) [OF wf(2) h(4) ij(2)]
        by (simp add: less_imp_le)
    qed
  qed
qed

lemma owns_inI:
  "heap_rep A (heap_entries h) \<Longrightarrow> A b = Some k \<Longrightarrow> p = heap_block_to_address h (int b) \<Longrightarrow>
   n = k * 4096 \<Longrightarrow> owns_in h p n"
  unfolding owns_in_def by blast

lemma owns_in_rep:
  assumes "heap_rep A (heap_entries h)" "owns_in h p n"
  obtains b k where "A b = Some k" "p = heap_block_to_address h (int b)" "n = k * 4096"
  using assms heap_rep_unique [OF assms(1)] unfolding owns_in_def by blast

lemma owns_in_other_pool:
  assumes "kernel_inv s" "hp \<in> set (heap_list s)" "hq \<in> set (heap_list s)"
    and "owns_in (heap_at s hp) p n" "owns_in (heap_at s hq) p k" "0 < n" "0 < k"
  shows "hp = hq"
  using pools_apart [OF assms(1-3), of p]
    owns_in_range(3,4) [OF kernel_invD(2) [OF assms(1,2)] assms(4,6)]
    owns_in_range(3,4) [OF kernel_invD(2) [OF assms(1,3)] assms(5,7)] by (simp add: less_imp_le)

lemma owns_pos: "owns_in h p n \<Longrightarrow> 0 < n"
  by (auto simp: owns_in_def dest: heap_repD(1))

lemma read_bytes_min: "read_bytes m p n = read_bytes m' q n \<Longrightarrow> k \<le> n \<Longrightarrow> read_bytes m p k = read_bytes m' q k"
proof -
  assume a: "read_bytes m p n = read_bytes m' q n" "k \<le> n"
  have "m (p + of_nat i) = m' (q + of_nat i)" if "i < k" for i
    using arg_cong [OF a(1), of "\<lambda>xs. xs ! i"] that a(2) by simp
  then show ?thesis by (rule read_bytes_cong)
qed

definition pool_addresses :: "'s kernel_scheme \<Rightarrow> u64 set" where
  "pool_addresses s = {x. \<exists>hp\<in>set (heap_list s). saddr (heap_at s hp) \<le> x \<and> x < eaddr (heap_at s hp)}"

abbreviation (input) heap_ready :: "'s kernel_scheme \<Rightarrow> bool" where
  "heap_ready s \<equiv> kernel_inv s \<and> physical_pools s"

lemma owns_in_pool_addresses:
  assumes "kernel_inv s" "owns s p n" "i < n"
  shows "p + of_nat i \<in> pool_addresses s"
proof -
  obtain hp where hp: "hp \<in> set (heap_list s)" "owns_in (heap_at s hp) p n"
    using assms(2) by (auto simp: owns_def)
  show ?thesis
    using owns_in_range(1,2) [OF kernel_invD(2) [OF assms(1) hp(1)] hp(2) assms(3)] hp(1)
    by (auto simp: pool_addresses_def)
qed

lemma pool_addresses_update:
  assumes "same_pool (heap_at s hp) h'"
  shows "pool_addresses (s\<lparr>kmem := m, heap_at := (heap_at s)(hp := h')\<rparr>) = pool_addresses s"
proof -
  have "saddr (((heap_at s)(hp := h')) x) = saddr (heap_at s x)"
    "eaddr (((heap_at s)(hp := h')) x) = eaddr (heap_at s x)" for x
    using assms by (simp_all add: same_pool_def)
  then show ?thesis by (simp add: pool_addresses_def del: fun_upd_apply)
qed

lemma krealloc_outcome:
  assumes inv: "kernel_inv s" "physical_pools s" and own: "owns s p n" and can: "can_realloc s p sz"
  shows "\<exists>s' q. krealloc s p sz = Some (s', q) \<and>
    (q = 0 \<and> s' = s \<or>
     alloc_step heap_ready owns pool_addresses s s' p q (unat sz) \<and>
     (\<forall>i<min n (unat sz). kmem s' (q + of_nat i) = kmem s (p + of_nat i)))"
proof -
  obtain hp A b i where c: "sz \<noteq> 0" "unat sz < 2 ^ 30" "hp \<in> set (heap_list s)"
    "heap_rep A (heap_entries (heap_at s hp))" "A b = Some i"
    "p = heap_block_to_address (heap_at s hp) (int b)" "contained A (heap_entries (heap_at s hp)) b i"
    "b + blocks_for sz \<le> length (heap_entries (heap_at s hp))"
    using can unfolding can_realloc_def by blast
  let ?h = "heap_at s hp" and ?k = "blocks_for sz"
  note ok = kernel_invD [OF inv(1) c(3)]
  have sz: "unat sz \<le> 2 ^ 64 - 4096" "?k * 4096 < 2 ^ 31" "unat sz \<le> ?k * 4096" "0 < ?k"
    using c(1,2) blocks_for_pos [of sz] blocks_for_eq [of sz] by simp_all
  have i0: "0 < i" "b + i \<le> length (heap_entries ?h)" using heap_repD [OF c(4,5)] by simp_all
  have own_p: "owns_in ?h p (i * 4096)" by (rule owns_inI [OF c(4-6)]) simp
  have n: "n = i * 4096"
  proof -
    obtain hq where hq: "hq \<in> set (heap_list s)" "owns_in (heap_at s hq) p n"
      using own by (auto simp: owns_def)
    have "hq = hp" using owns_in_other_pool [OF inv(1) hq(1) c(3) hq(2) own_p] owns_pos hq(2) i0 by simp
    then obtain b' k' where "A b' = Some k'" "p = heap_block_to_address ?h (int b')" "n = k' * 4096"
      using owns_in_rep [OF c(4)] hq(2) by blast
    then show ?thesis
      using block_addr_inj [OF ok(2), of b' b] c(5,6) heap_repD(2) [OF c(4)] i0 by fastforce
  qed
  obtain m' h' q where r: "heap_realloc (kmem s) ?h p sz = Some (m', h', q)"
    "realloc_outcome A (kmem s) ?h b i ?k m' h' q"
    using heap_realloc_outcome [OF ok(2) c(4,5,7,1) sz(1) refl c(8) sz(2), of "kmem s"] c(6) by auto
  let ?s' = "s\<lparr>kmem := m', heap_at := (heap_at s)(hp := h')\<rparr>"
  have res: "krealloc s p sz = Some (?s', q)"
    using heap_of_pool_address [OF inv c(3), of p] owns_in_range(3,4) [OF ok(2) own_p, of 0] i0 r(1)
    by (auto simp: krealloc_def multiheap_realloc_def realloc_at_def)
  show ?thesis
  proof (cases "q = 0")
    case True
    then have "?s' = s" using r(2) by (auto simp: realloc_outcome_def)
    then show ?thesis using res True by auto
  next
    case False
    then obtain b' where o: "q = heap_block_to_address ?h (int b')" "same_pool ?h h'"
      "heap_rep (A(b := None, b' \<mapsto> ?k)) (heap_entries h')" "b' = b \<or> A b' = None"
      "\<forall>j<min i ?k * 4096. m' (q + of_nat j) = kmem s (p + of_nat j)"
      "\<forall>x. (\<forall>j<?k * 4096. x \<noteq> q + of_nat j) \<longrightarrow> m' x = kmem s x"
      using r(2) c(6) unfolding realloc_outcome_def by blast
    have addr: "heap_block_to_address h' = heap_block_to_address ?h" by (rule same_pool_addr [OF o(2)])
    have wf': "heap_wf h'" using same_pool_wf [OF o(2)] ok(2) by simp
    have "pool_ok h'" using ok(1) o(2,3) wf' by (auto simp: pool_ok_def same_pool_def)
    then have kinv: "kernel_inv ?s'"
      using kernel_inv_heap_at [of "s\<lparr>kmem := m'\<rparr>" hp h'] inv(1) c(3) o(2) by simp
    have phys: "physical_pools ?s'" using inv(2) o(2) by (auto simp: physical_pools_def same_pool_def)
    have own_q: "owns_in h' q (?k * 4096)" by (rule owns_inI [OF o(3), of b']) (use o(1) addr in simp_all)
    have q: "owns ?s' q (?k * 4096)" using own_q c(3) by (auto simp: owns_def)
    have bytes: "m' (q + of_nat j) = kmem s (p + of_nat j)" if "j < min n (unat sz)" for j
      using that sz(3) o(5) by (simp add: n min_def split: if_splits)
    have outside: "m' x = kmem s x" if "x \<notin> pool_addresses s" for x
    proof -
      have "x \<noteq> q + of_nat j" if "j < ?k * 4096" for j
        using owns_in_pool_addresses [OF kinv q that] \<open>x \<notin> pool_addresses s\<close>
          pool_addresses_update [OF o(2), of m'] by auto
      then show ?thesis using o(6) by blast
    qed
    have other: "owns ?s' p2 n2 \<and> p2 \<noteq> q \<and> read_bytes m' p2 n2 = read_bytes (kmem s) p2 n2"
      if p2: "owns s p2 n2" "p2 \<noteq> p" for p2 n2
    proof -
      obtain hq where hq: "hq \<in> set (heap_list s)" "owns_in (heap_at s hq) p2 n2"
        using p2(1) by (auto simp: owns_def)
      have own2: "owns ?s' p2 n2 \<and> p2 \<noteq> q"
      proof (cases "hq = hp")
        case True
        then obtain b2 k2 where b2: "A b2 = Some k2" "p2 = heap_block_to_address ?h (int b2)" "n2 = k2 * 4096"
          using owns_in_rep [OF c(4)] hq(2) by blast
        have "b2 \<noteq> b" using b2(2) p2(2) c(6) by auto
        then have A2: "(A(b := None, b' \<mapsto> ?k)) b2 = Some k2" "b2 \<noteq> b'" using b2(1) o(4) by auto
        have "owns_in h' p2 n2"
          by (rule owns_inI [OF o(3) A2(1)]) (use b2(2,3) addr in simp_all)
        moreover have "p2 \<noteq> q"
          using block_addr_inj [OF ok(2), of b2 b'] b2(2) o(1) A2(2) heap_repD(2) [OF c(4) b2(1)]
            heap_repD(2) [OF o(3), of b' ?k] o(2) by (auto simp: same_pool_def)
        ultimately show ?thesis using c(3) by (auto simp: owns_def)
      next
        case False
        then have "owns ?s' p2 n2" using hq by (auto simp: owns_def)
        moreover have "p2 \<noteq> q"
        proof
          assume "p2 = q"
          moreover have "owns_in (heap_at ?s' hq) p2 n2" "owns_in (heap_at ?s' hp) q (?k * 4096)"
            using hq(2) own_q False by simp_all
          ultimately show False
            using owns_in_other_pool [OF kinv, of hq hp p2 n2 "?k * 4096"] hq c(3) owns_pos sz(4) False by auto
        qed
        ultimately show ?thesis by simp
      qed
      then have "separate p2 n2 q (?k * 4096)" using owns_separate [OF kinv _ q] by blast
      then have "read_bytes m' p2 n2 = read_bytes (kmem s) p2 n2"
        using o(6) by (intro read_bytes_cong) (auto simp: separate_def)
      then show ?thesis using own2 by simp
    qed
    have "alloc_step heap_ready owns pool_addresses s ?s' p q (unat sz)"
      unfolding alloc_step_def
      using False kinv phys q sz(3) outside other pool_addresses_update [OF o(2), of m'] by auto
    then show ?thesis using res bytes by auto
  qed
qed

text \<open>A fresh allocation of any size.\<close>

lemma kmalloc_outcome:
  assumes inv: "kernel_inv s" "physical_pools s" and sz: "sz \<noteq> 0" "unat sz < 2 ^ 30"
  shows "\<exists>s' q. kmalloc s sz = Some (s', q) \<and> kmem s' = kmem s \<and>
    (q = 0 \<and> s' = s \<or> alloc_step heap_ready owns pool_addresses s s' 0 q (unat sz))"
proof -
  let ?k = "blocks_for sz" and ?shs = "first_multiheap (kernel_multiheap s)"
  have k: "0 < ?k" "unat sz \<le> ?k * 4096" using sz blocks_for_pos [of sz] blocks_for_eq [of sz] by simp_all
  have kz: "kmalloc s sz = alloc_first_pass_loop s ?shs sz"
    by (simp add: kmalloc_def multiheap_alloc_def multiheap_alloc_first_pass_def)
  show ?thesis
  proof (rule alloc_first_pass_loop_cases [OF kernel_inv_wf [OF inv(1)] refl k(1)])
    fix hp b
    let ?h = "heap_at s hp"
    let ?q = "heap_block_to_address ?h (int b)" and ?h' = "malloc_result ?h ?k b"
    let ?s' = "s\<lparr>heap_at := (heap_at s)(hp := ?h')\<rparr>"
    assume f: "hp \<in> mh_heap ` set ?shs" "free_run (heap_entries ?h) ?k b"
      "alloc_first_pass_loop s ?shs sz = Some (?s', ?q)" "?q \<noteq> 0"
    have hp: "hp \<in> set (heap_list s)" using f(1) by (auto simp: heap_list_def)
    note ok = kernel_invD [OF inv(1) hp]
    obtain A where A: "heap_rep A (heap_entries ?h)" using ok(1) by (auto simp: pool_ok_def)
    have A': "heap_rep (A(b \<mapsto> ?k)) (heap_entries ?h')" by (rule heap_rep_malloc_result [OF A f(2) k(1)])
    have kinv: "kernel_inv ?s'"
      by (rule kernel_inv_heap_at [OF inv(1) hp pool_ok_malloc [OF ok(1) f(2) k(1)]]) simp
    have phys: "physical_pools ?s'" using inv(2) by (auto simp: physical_pools_def)
    have own_q: "owns_in ?h' ?q (?k * 4096)" by (rule owns_inI [OF A', of b]) simp_all
    then have q: "owns ?s' ?q (?k * 4096)" using hp by (auto simp: owns_def)
    have other: "owns ?s' p2 n2 \<and> p2 \<noteq> ?q" if p2: "owns s p2 n2" for p2 n2
    proof -
      obtain hq where hq: "hq \<in> set (heap_list s)" "owns_in (heap_at s hq) p2 n2"
        using p2 by (auto simp: owns_def)
      show ?thesis
      proof (cases "hq = hp")
        case True
        then obtain b2 k2 where b2: "A b2 = Some k2" "p2 = heap_block_to_address ?h (int b2)" "n2 = k2 * 4096"
          using owns_in_rep [OF A] hq(2) by blast
        have nb: "b2 \<noteq> b" by (rule free_run_start_iff [OF A f(2) b2(1) k(1)])
        then have "owns_in ?h' p2 n2" by (intro owns_inI [OF A', of b2]) (use b2 in simp_all)
        moreover have "p2 \<noteq> ?q"
          using block_addr_inj [OF ok(2), of b2 b] b2(2) nb heap_repD(2) [OF A b2(1)] f(2)
          by (auto simp: free_run_def)
        ultimately show ?thesis using hp by (auto simp: owns_def)
      next
        case False
        then have "owns ?s' p2 n2" using hq by (auto simp: owns_def)
        moreover have "p2 \<noteq> ?q"
        proof
          assume "p2 = ?q"
          moreover have "owns_in (heap_at ?s' hq) p2 n2" "owns_in (heap_at ?s' hp) ?q (?k * 4096)"
            using hq(2) own_q False by simp_all
          ultimately show False
            using owns_in_other_pool [OF kinv, of hq hp p2 n2 "?k * 4096"] hq hp owns_pos k(1) False by auto
        qed
        ultimately show ?thesis by simp
      qed
    qed
    have "pool_addresses ?s' = pool_addresses s"
      using pool_addresses_update [of s hp ?h' "kmem s"] by simp
    then have "alloc_step heap_ready owns pool_addresses s ?s' 0 ?q (unat sz)"
      unfolding alloc_step_def using f(4) kinv phys q k(2) other by auto
    then show ?thesis using kz f(3) by simp
  next
    assume "alloc_first_pass_loop s ?shs sz = Some (s, 0)"
    then show ?thesis using kz by simp
  qed
qed

lemma kzalloc_outcome:
  assumes inv: "kernel_inv s" "physical_pools s" and sz: "sz \<noteq> 0" "unat sz < 2 ^ 30"
  shows "\<exists>s' q. kzalloc s sz = Some (s', q) \<and>
    (q = 0 \<and> s' = s \<or> alloc_step heap_ready owns pool_addresses s s' 0 q (unat sz) \<and>
       read_bytes (kmem s') q (unat sz) = replicate (unat sz) 0)"
proof -
  obtain s1 q where s1: "kmalloc s sz = Some (s1, q)" "kmem s1 = kmem s"
    "q = 0 \<and> s1 = s \<or> alloc_step heap_ready owns pool_addresses s s1 0 q (unat sz)"
    using kmalloc_outcome [OF assms] by blast
  show ?thesis
  proof (cases "q = 0")
    case True
    then show ?thesis using s1 by (simp add: kzalloc_def alloc_step_def)
  next
    case False
    then have st: "alloc_step heap_ready owns pool_addresses s s1 0 q (unat sz)" using s1(3) by simp
    then obtain n' where n': "unat sz \<le> n'" "owns s1 q n'" "kernel_inv s1" "physical_pools s1"
      "pool_addresses s1 = pool_addresses s"
      by (auto simp: alloc_step_def)
    let ?m = "memset_bytes (kmem s1) q 0 (unat sz)"
    let ?s' = "s1\<lparr>kmem := ?m\<rparr>"
    have own: "owns ?s' p n = owns s1 p n" for p n by (simp add: owns_def)
    have outside: "?m x = kmem s1 x" if "x \<notin> pool_addresses s" for x
    proof -
      have "x \<noteq> q + of_nat i" if "i < unat sz" for i
        using owns_in_pool_addresses [OF n'(3,2), of i] that n'(1,5) \<open>x \<notin> pool_addresses s\<close> by auto
      then show ?thesis by (auto simp: memset_bytes_apply)
    qed
    have other: "read_bytes ?m p2 n2 = read_bytes (kmem s1) p2 n2" if "owns s1 p2 n2" "p2 \<noteq> q" for p2 n2
    proof -
      have "separate p2 n2 q n'" by (rule owns_separate [OF n'(3) that(1) n'(2) that(2)])
      then have "separate p2 n2 q (unat sz)" by (rule separate_mono) (use n'(1) in simp_all)
      then show ?thesis by (intro read_bytes_cong) (auto simp: separate_def memset_bytes_apply)
    qed
    have "alloc_step heap_ready owns pool_addresses s ?s' 0 q (unat sz)"
      unfolding alloc_step_def
    proof (intro conjI allI impI)
      show "q \<noteq> 0" by fact
      show "kernel_inv ?s'" "physical_pools ?s'" "pool_addresses ?s' = pool_addresses s"
        using n' by (simp_all add: physical_pools_def pool_addresses_def)
      show "\<exists>n'\<ge>unat sz. owns ?s' q n'" using n'(1,2) own by blast
      show "kmem ?s' x = kmem s x" if "x \<notin> pool_addresses s" for x
        using outside that s1(2) by simp
      fix p2 n2 assume p2: "owns s p2 n2" "p2 \<noteq> 0"
      then have "owns s1 p2 n2" "p2 \<noteq> q" using st by (auto simp: alloc_step_def)
      then show "owns ?s' p2 n2" "p2 \<noteq> q" "read_bytes (kmem ?s') p2 n2 = read_bytes (kmem s) p2 n2"
        using own other s1(2) by simp_all
    qed
    moreover have "kzalloc s sz = Some (?s', q)"
      using s1(1) False sz(2) by (simp add: kzalloc_def memset_def)
    ultimately show ?thesis by (auto simp: read_bytes_memset)
  qed
qed

text \<open>A reallocation of the null pointer is an allocation.\<close>

lemma krealloc_null:
  assumes "kernel_inv s" "physical_pools s"
  shows "krealloc s 0 sz = kmalloc s sz"
proof -
  have none: "heap_for_address_loop (heap_at s) shs 0 = None"
    if "\<forall>sh\<in>set shs. heap_wf (heap_at s (mh_heap sh))" for shs
    using that
    by (induction shs) (auto simp: heap_is_address_within_heap_def heap_wf_def)
  have n0: "multiheap_get_heap_for_address s 0 = None"
    unfolding multiheap_get_heap_for_address_def by (rule none [OF kernel_inv_wf [OF assms(1)]])
  have pos: "0 < eaddr (heap_at s hp)" if "hp \<in> set (heap_list s)" for hp
    using kernel_invD(2) [OF assms(1) that] unat_eaddr [of "heap_at s hp"]
    by (simp add: word_less_nat_alt heap_wf_def)
  have "multiheap_get_heap_and_paging_heap_for_address s 0 = Some (None, None, 0)"
  proof (cases "max_end_data_addr (kernel_multiheap s) = 0")
    case True
    then have "\<forall>sh\<in>set (first_multiheap (kernel_multiheap s)). \<not> multiheap_heap_allows_paging sh"
      using assms(2) pos unfolding physical_pools_def heap_list_def by fastforce
    then show ?thesis
      using True n0 no_paging_heap
      by (simp add: multiheap_get_heap_and_paging_heap_for_address_def Let_def
          multiheap_is_address_virtual_def multiheap_virtual_address_to_physical_def
          multiheap_get_paging_heap_for_address_def)
  next
    case False
    then show ?thesis
      using n0 by (simp add: multiheap_get_heap_and_paging_heap_for_address_def Let_def
          multiheap_is_address_virtual_def)
  qed
  then show ?thesis by (simp add: krealloc_def multiheap_realloc_def kmalloc_def)
qed

lemma owns_range:
  assumes "kernel_inv s" "owns s p n"
  shows "0 < p \<and> unat p + n < 2 ^ 63"
proof -
  obtain hp where hp: "hp \<in> set (heap_list s)" "owns_in (heap_at s hp) p n"
    using assms(2) by (auto simp: owns_def)
  show ?thesis
    using owns_in_range(5,6) [OF kernel_invD(2) [OF assms(1) hp(1)] hp(2), of 0] owns_pos [OF hp(2)] by simp
qed

interpretation kheap: zalloc_provider krealloc "\<lambda>s. kernel_inv s \<and> physical_pools s" owns can_realloc
  pool_addresses kzalloc
proof unfold_locales
  fix s :: "'s kernel_scheme" and p n sz
  assume "kernel_inv s \<and> physical_pools s" "owns s p n" "can_realloc s p sz"
  then show "\<exists>s' q. krealloc s p sz = Some (s', q) \<and>
    (q = 0 \<and> s' = s \<or>
     alloc_step heap_ready owns pool_addresses s s' p q (unat sz) \<and>
     (\<forall>i<min n (unat sz). kmem s' (q + of_nat i) = kmem s (p + of_nat i)))"
    by (elim conjE) (rule krealloc_outcome)
next
  fix s :: "'s kernel_scheme" and sz :: u64
  assume s: "kernel_inv s \<and> physical_pools s" "sz \<noteq> 0" "unat sz < 2 ^ 30"
  then show "\<exists>s' q. krealloc s 0 sz = Some (s', q) \<and>
      (q = 0 \<and> s' = s \<or> alloc_step heap_ready owns pool_addresses s s' 0 q (unat sz))"
    using kmalloc_outcome [of s sz] krealloc_null [of s sz] by auto
  show "\<exists>s' q. kzalloc s sz = Some (s', q) \<and>
      (q = 0 \<and> s' = s \<or> alloc_step heap_ready owns pool_addresses s s' 0 q (unat sz))"
    using kzalloc_outcome [of s sz] s by blast
next
  fix s :: "'s kernel_scheme" and p n q k
  assume "kernel_inv s \<and> physical_pools s" "owns s p n" "owns s q k" "p \<noteq> q"
  then show "separate p n q k" using owns_separate by blast
next
  fix s :: "'s kernel_scheme" and p n
  assume "kernel_inv s \<and> physical_pools s" "owns s p n"
  then show "0 < p \<and> unat p + n < 2 ^ 63" using owns_range by blast
next
  fix s :: "'s kernel_scheme" and p n i
  assume "kernel_inv s \<and> physical_pools s" "owns s p n" "i < n"
  then show "p + of_nat i \<in> pool_addresses s" using owns_in_pool_addresses by blast
qed (simp_all add: physical_pools_def owns_def can_realloc_def pool_addresses_def fun_eq_iff)

subsection \<open>Adding heaps and the start of the kernel heap\<close>

abbreviation (input) SINGLE_BLOCK :: u8 where
  "SINGLE_BLOCK \<equiv> HEAP_BLOCK_TABLE_ENTRY_TAKEN OR HEAP_BLOCK_IS_FIRST"

lemma malloc_one_entries:
  assumes "b < length (heap_entries h)"
  shows "heap_entries (malloc_result h 1 b) = (heap_entries h)[b := SINGLE_BLOCK]"
  using marked_one [OF assms] by (simp add: malloc_result_def)

text \<open>An allocation of one block can be given back, whatever lies behind it.\<close>

lemma heap_free_single:
  assumes ok: "pool_ok h" and b: "b < length (heap_entries h)" "heap_entries h ! b = SINGLE_BLOCK"
  shows "\<exists>h'. heap_free h (heap_block_to_address h (int b)) = Some h' \<and> pool_ok h' \<and>
    same_pool h h' \<and> heap_entries h' = (heap_entries h)[b := HEAP_BLOCK_TABLE_ENTRY_FREE]"
proof -
  have wf: "heap_wf h" using ok by (simp add: pool_ok_def)
  obtain A where rep: "heap_rep A (heap_entries h)" using ok by (auto simp: pool_ok_def)
  have "covered A b"
    using heap_rep_free_iff [OF rep b(1)] b(2) by (simp add: block_free_def heap_get_entry_type_def)
  then obtain c n where c: "A c = Some n" "c \<le> b" "b < c + n" by (rule coveredE)
  have e: "entry_ok n (b - c) SINGLE_BLOCK" using heap_repD(4) [OF rep c] b(2) by simp
  have "b - c = 0" using entry_ok_first [OF e] by simp
  then have cb: "c = b" using c(2) by simp
  have n1: "n = 1" using entry_ok_facts(3) [OF e] cb c(3) by (cases "Suc 0 < n") auto
  have len: "chain_len (heap_entries h) b = 1" using b by (subst chain_len.simps) simp
  have cl: "cleared (heap_entries h) b 1 = (heap_entries h)[b := HEAP_BLOCK_TABLE_ENTRY_FREE]"
    using b(1) by (auto simp: list_eq_iff_nth_eq nth_cleared nth_list_update)
  have blk: "heap_address_to_block h (heap_block_to_address h (int b)) = int b"
    using block_of_addr [OF wf, of b] b(1) by simp
  obtain h' where h': "heap_mark_blocks_free h (int b) = Some h'" "same_pool h h'"
    "heap_entries h' = cleared (heap_entries h) b (chain_len (heap_entries h) b)"
    using heap_mark_blocks_free_eq [of b h] b(1) by auto
  have "heap_rep (A(b := None)) (heap_entries h')"
    using heap_rep_cleared [OF rep c(1)] h'(3) len n1 cb by simp
  then have "pool_ok h'"
    using ok h'(2) same_pool_wf [OF h'(2)] by (auto simp: pool_ok_def same_pool_def)
  then show ?thesis using h' blk len cl by (auto simp: heap_free_def)
qed

lemma heap_zalloc_single:
  assumes ok: "pool_ok h" and sz: "blocks_for sz = 1" "unat sz < 2 ^ 31"
  obtains (none) "heap_zalloc m h sz = Some (m, h, 0)"
      "\<forall>b<length (heap_entries h). \<not> block_free (heap_entries h ! b)"
  | (found) m' b where "heap_zalloc m h sz = Some (m', malloc_result h 1 b, heap_block_to_address h (int b))"
      "b < length (heap_entries h)" "block_free (heap_entries h ! b)" "pool_ok (malloc_result h 1 b)"
      "heap_block_to_address h (int b) \<noteq> 0"
proof (cases rule: heap_malloc_blocks_cases [of 1 h])
  case (found b)
  have "heap_wf h" using ok by (simp add: pool_ok_def)
  then have "heap_block_to_address h (int b) \<noteq> 0"
    using found(2) by (intro block_addr_neq_0) (auto simp: free_run_def)
  moreover have "b < length (heap_entries h)" "block_free (heap_entries h ! b)"
    using found(2) by (simp_all only: free_run_one)
  ultimately show ?thesis
    using that(2) found pool_ok_malloc [OF ok found(2)] sz
    by (simp add: heap_zalloc_def heap_malloc_def blocks_for_def Let_def memset_def)
next
  case none
  have "\<forall>b<length (heap_entries h). \<not> block_free (heap_entries h ! b)"
    using none(1) by (simp add: free_run_one [unfolded One_nat_def])
  then show ?thesis
    using none(2) that(1) sz(1) by (simp add: heap_zalloc_def heap_malloc_def blocks_for_def Let_def)
qed

text \<open>No \<open>struct heap\<close> of the list lies in a pool.\<close>

definition structs_outside :: "'s kernel_scheme \<Rightarrow> bool" where
  "structs_outside s \<longleftrightarrow> (\<forall>hp\<in>set (heap_list s). \<forall>hq\<in>set (heap_list s).
     \<not> (saddr (heap_at s hq) \<le> hp \<and> hp < eaddr (heap_at s hq)))"

definition kernel_ready :: "'s kernel_scheme \<Rightarrow> bool" where
  "kernel_ready s \<longleftrightarrow> kernel_inv s \<and> physical_pools s \<and> structs_outside s \<and>
     starting_heap (kernel_multiheap s) \<in> set (heap_list s)"

text \<open>A change of one listed heap to another state of the same pool, and of anything else.\<close>

lemma kernel_ready_update:
  assumes "kernel_ready s" "kernel_multiheap s' = kernel_multiheap s"
    and "\<forall>hp\<in>set (heap_list s). same_pool (heap_at s hp) (heap_at s' hp) \<and> pool_ok (heap_at s' hp)"
  shows "kernel_ready s'"
proof -
  have l: "heap_list s' = heap_list s" using assms(2) by (simp add: heap_list_def)
  have p: "saddr (heap_at s' hp) = saddr (heap_at s hp)" "eaddr (heap_at s' hp) = eaddr (heap_at s hp)"
    "pool_ok (heap_at s' hp)" if "hp \<in> set (heap_list s)" for hp
    using assms(3) that by (auto simp: same_pool_def)
  show ?thesis
    using assms(1) p unfolding kernel_ready_def kernel_inv_def physical_pools_def structs_outside_def l assms(2)
    by simp
qed

lemma page_gap:
  fixes a b :: nat
  assumes "a mod 4096 = 0 \<and> b mod 4096 = 0" "a < b"
  shows "a + 4096 \<le> b"
proof -
  have "4096 dvd a" "4096 dvd b" using assms(1) by (simp_all add: mod_eq_0_iff_dvd)
  then obtain k l where kl: "a = 4096 * k" "b = 4096 * l" by (elim dvdE)
  then have "Suc k \<le> l" using assms(2) by simp
  then have "4096 * Suc k \<le> 4096 * l" by (rule mult_le_mono2)
  then show ?thesis using kl by simp
qed

lemma multiheap_add_fails:
  assumes rdy: "kernel_ready s" and r: "start mod 4096 = 0" "end_addr mod 4096 = 0" "start < end_addr"
  shows "\<exists>s' res. multiheap_add s start end_addr flags = Some (s', res) \<and> res < 0 \<and>
    kernel_ready s' \<and> kernel_multiheap s' = kernel_multiheap s"
proof -
  let ?st = "starting_heap (kernel_multiheap s)"
  let ?h = "heap_at s ?st"
  have st: "?st \<in> set (heap_list s)" and inv: "kernel_inv s" using rdy by (simp_all add: kernel_ready_def)
  note ok = kernel_invD [OF inv st]
  have oks: "\<forall>hp\<in>set (heap_list s). pool_ok (heap_at s hp)" using inv by (simp add: kernel_inv_def)
  have bf: "blocks_for 64 = 1" "blocks_for 16 = 1" "unat (64 :: u64) < 2 ^ 31" "unat (16 :: u64) < 2 ^ 31"
    by (simp_all add: blocks_for_eq)
  have out: "heap_block_to_address ?h (int b) \<notin> set (heap_list s)" if "b < length (heap_entries ?h)" for b
    using rdy st block_addr_range [OF ok(2) that] by (auto simp: kernel_ready_def structs_outside_def)
  have tsize: "(end_addr - start) div 4096 \<noteq> 0"
  proof -
    have "unat start mod 4096 = 0 \<and> unat end_addr mod 4096 = 0"
      using r(1,2) by (simp_all add: word_unat_eq_iff unat_mod)
    moreover have "unat start < unat end_addr" using r(3) by (simp add: word_less_nat_alt)
    ultimately have "unat start + 4096 \<le> unat end_addr" by (rule page_gap)
    moreover have "unat (end_addr - start) = unat end_addr - unat start"
      using r(3) by (intro unat_sub) simp
    ultimately have "4096 \<le> unat (end_addr - start)" by simp
    then have "0 < unat (end_addr - start) div 4096" by (simp add: div_greater_zero_iff)
    then have "unat ((end_addr - start) div 4096) \<noteq> 0" by (simp add: unat_div)
    then show ?thesis by auto
  qed
  have create: "\<exists>h'. heap_create h start end_addr [] = (- EINVARG, h')" for h
    using r(1,2) tsize by (simp add: heap_create_def heap_validate_alignment_def heap_validate_table_def Let_def)
  show ?thesis
    using ok(1) bf(1,3)
  proof (cases rule: heap_zalloc_single [where m = "kmem s"])
    case none
    then have z1: "zalloc_at s ?st 64 = Some (s, 0)" by (simp add: zalloc_at_def)
    show ?thesis
      using ok(1) bf(2,4)
    proof (cases rule: heap_zalloc_single [where m = "kmem s"])
      case none
      then have "zalloc_at s ?st 16 = Some (s, 0)" by (simp add: zalloc_at_def)
      then show ?thesis using z1 rdy by (simp add: multiheap_add_def Let_def)
    next
      case (found m' b)
      let ?s = "s\<lparr>kmem := m', heap_at := (heap_at s)(?st := malloc_result ?h 1 b)\<rparr>"
      have "kernel_ready ?s" by (rule kernel_ready_update [OF rdy]) (use found oks in simp_all)
      moreover have "zalloc_at s ?st 16 = Some (?s, heap_block_to_address ?h (int b))"
        using found by (simp add: zalloc_at_def)
      ultimately show ?thesis using z1 by (simp add: multiheap_add_def Let_def)
    qed
  next
    case (found m1 b1)
    let ?h1 = "malloc_result ?h 1 b1" and ?p1 = "heap_block_to_address ?h (int b1)"
    let ?s1 = "s\<lparr>kmem := m1, heap_at := (heap_at s)(?st := ?h1)\<rparr>"
    have z1: "zalloc_at s ?st 64 = Some (?s1, ?p1)" using found by (simp add: zalloc_at_def)
    show ?thesis
      using found(4) bf(2,4)
    proof (cases rule: heap_zalloc_single [where m = m1])
      case none
      have "kernel_ready ?s1" by (rule kernel_ready_update [OF rdy]) (use found oks in simp_all)
      moreover have "zalloc_at ?s1 ?st 16 = Some (?s1, 0)" using none by (simp add: zalloc_at_def)
      ultimately show ?thesis using z1 by (simp add: multiheap_add_def Let_def)
    next
      case f2: (found m2 b2)
      let ?h2 = "malloc_result ?h1 1 b2" and ?p2 = "heap_block_to_address ?h (int b2)"
      let ?s2 = "s\<lparr>kmem := m2, heap_at := (heap_at s)(?st := ?h2)\<rparr>"
      have z2: "zalloc_at ?s1 ?st 16 = Some (?s2, ?p2)" using f2(1) by (simp add: zalloc_at_def)
      have len: "b1 < length (heap_entries ?h)" "b2 < length (heap_entries ?h)" using found(2) f2(2) by simp_all
      have es1: "heap_entries ?h1 = (heap_entries ?h)[b1 := SINGLE_BLOCK]"
        by (rule malloc_one_entries [OF found(2)])
      have ne: "b2 \<noteq> b1"
        using f2(3) found(2) unfolding es1 by (auto simp: block_free_def heap_get_entry_type_def)
      have es2: "heap_entries ?h2 = (heap_entries ?h1)[b2 := SINGLE_BLOCK]"
        by (rule malloc_one_entries) (use len in simp)
      obtain h3 where h3: "heap_free ?h2 ?p1 = Some h3" "pool_ok h3" "same_pool ?h2 h3"
        "heap_entries h3 = (heap_entries ?h2)[b1 := HEAP_BLOCK_TABLE_ENTRY_FREE]"
        using heap_free_single [OF f2(4), of b1] len ne unfolding es2 es1 by auto
      have a3: "heap_block_to_address h3 (int b2) = ?p2" using same_pool_addr [OF h3(3)] by simp
      obtain h4 where h4: "heap_free h3 ?p2 = Some h4" "pool_ok h4" "same_pool h3 h4"
        using heap_free_single [OF h3(2), of b2] len ne a3 unfolding h3(4) es2 es1 by auto
      have pool4: "same_pool ?h h4"
        using same_pool_trans [OF same_pool_trans [OF same_pool_malloc_result same_pool_malloc_result]
          same_pool_trans [OF h3(3) h4(3)]] .
      obtain hx where hx: "heap_create (heap_at ?s2 ?p1) start end_addr [] = (- EINVARG, hx)"
        using create by blast
      have p1: "?p1 \<notin> set (heap_list s)" "?p1 \<noteq> ?st" using out [OF len(1)] st by auto
      let ?s4 = "s\<lparr>kmem := m2, heap_at := (heap_at s)(?st := h4, ?p1 := hx)\<rparr>"
      have res: "multiheap_add s start end_addr flags = Some (?s4, - EINVARG)"
        using z1 z2 found(5) f2(5) hx p1(2) h3(1) h4(1)
        by (simp add: multiheap_add_def Let_def free_at_def fun_upd_twist)
      have "kernel_ready ?s4" by (rule kernel_ready_update [OF rdy]) (use h4(2) pool4 oks p1 in auto)
      then show ?thesis using res by (intro exI [of _ ?s4] exI [of _ "- EINVARG"]) simp
    qed
  qed
qed

lemma unat_align_lower_page:
  "unat (if \<not> paging_is_aligned x then paging_align_to_lower_page x else x) = unat x div 4096 * 4096"
proof -
  have m: "unat (x mod 4096) = unat x mod 4096" by (simp add: unat_mod)
  have le: "x mod 4096 \<le> x" using m by (simp add: word_le_nat_alt)
  have "unat (x - x mod 4096) = unat x - unat x mod 4096" using unat_sub [OF le] m by simp
  also have "\<dots> = unat x div 4096 * 4096" by (simp add: minus_mod_eq_div_mult)
  finally have d: "unat (x - x mod 4096) = unat x div 4096 * 4096" .
  show ?thesis
  proof (cases "x mod 4096 = 0")
    case True
    then have "x - x mod 4096 = x" by simp
    then show ?thesis using True d by (simp only: paging_is_aligned_def simp_thms if_True if_False)
  next
    case False
    then show ?thesis using d by (simp only: paging_is_aligned_def paging_align_to_lower_page_def simp_thms if_True)
  qed
qed

lemma unat_align_upper_page:
  assumes "unat x < 2 ^ 63"
  shows "unat (if \<not> paging_is_aligned x then paging_align_address x else x) = (unat x + 4095) div 4096 * 4096"
proof -
  have "heap_align_value_to_upper x = (if \<not> paging_is_aligned x then paging_align_address x else x)"
    by (simp add: heap_align_value_to_upper_def paging_is_aligned_def paging_align_address_def algebra_simps)
  then show ?thesis using unat_align_upper [of x] assms by simp
qed

text \<open>
  In a region with more than 100 MiB of memory the pool is not empty, lies behind the start of the
  table, and the table has one entry per block of it.
\<close>

lemma minimal_heap_layout_ok:
  assumes "unat b + unat l < 2 ^ 52" "PEACHOS_HEAP_MINIMUM_SIZE_BYTES < l"
  shows "\<exists>t a e n. minimal_heap_layout b (b + l) = (t, a, e, n) \<and>
    a mod 4096 = 0 \<and> e mod 4096 = 0 \<and> a < e \<and> 2 \<le> unat n \<and> unat e = unat a + unat n * 4096 \<and>
    PEACHOS_MINIMAL_HEAP_TABLE_ADDRESS \<le> a \<and> unat e \<le> unat b + unat l \<and>
    unat n < 2 ^ 52"
proof -
  let ?E = "b + l" and ?T = "if b < PEACHOS_MINIMAL_HEAP_TABLE_ADDRESS then PEACHOS_MINIMAL_HEAP_TABLE_ADDRESS else b"
  have E: "unat ?E = unat b + unat l" using assms(1) by (subst unat_add_lem [THEN iffD1]) simp_all
  have l: "104857600 < unat l" using assms(2) by (simp add: word_less_nat_alt)
  have T: "unat ?T = max (unat b) 16777216" by (simp add: word_less_nat_alt)
  have TE: "?T \<le> ?E" using T E l by (simp add: word_le_nat_alt)
  define S where "S = ?E - ?T"
  have S: "unat S = unat b + unat l - max (unat b) 16777216" using unat_sub [OF TE] E T by (simp add: S_def)
  have S_big: "88080384 < unat S" "unat S < 2 ^ 52" using S l assms(1) by auto
  have q: "unat (S div 4096) = unat S div 4096" by (simp add: unat_div)
  have qle: "S div 4096 \<le> S" using q by (simp add: word_le_nat_alt)
  define D where "D = (S - S div 4096) div 4096"
  have D: "unat D = (unat S - unat S div 4096) div 4096"
    using unat_sub [OF qle] q by (simp add: D_def unat_div)
  have D_le: "unat D \<le> unat S div 4096" unfolding D by (rule div_le_mono) simp
  have TD: "unat (?T + D) = unat ?T + unat D"
    using T D_le S_big assms(1) by (subst unat_add_lem [THEN iffD1]) auto
  define a where "a = (if \<not> paging_is_aligned (?T + D) then paging_align_address (?T + D) else ?T + D)"
  define e where "e = (if \<not> paging_is_aligned ?E then paging_align_to_lower_page ?E else ?E)"
  define n where "n = (e - a) div 4096"
  have lay: "minimal_heap_layout b ?E = (?T, a, e, n)"
    unfolding minimal_heap_layout_def Let_def a_def e_def n_def D_def S_def by (rule refl)
  have a: "unat a = (unat ?T + unat D + 4095) div 4096 * 4096"
    unfolding a_def TD [symmetric]
    by (rule unat_align_upper_page) (use TD T D_le S_big assms(1) in auto)
  have e: "unat e = unat ?E div 4096 * 4096" unfolding e_def by (rule unat_align_lower_page)
  have D_small: "unat D * 4096 \<le> unat S" using D_le by linarith
  have ae: "unat a + 8192 \<le> unat e"
  proof -
    have "unat a \<le> unat ?T + unat D + 4095" unfolding a by linarith
    moreover have "unat ?E < unat e + 4096" unfolding e by linarith
    moreover have "unat ?E = unat ?T + unat S" using S E T l by simp
    ultimately show ?thesis using D_small S_big(1) by linarith
  qed
  have sub: "unat (e - a) = unat e - unat a" using ae by (intro unat_sub) (simp add: word_le_nat_alt)
  have n: "unat n = (unat e - unat a) div 4096" using sub by (simp add: n_def unat_div)
  have ne: "unat e = unat a + unat n * 4096"
  proof -
    have "unat e - unat a = 4096 * ((unat ?E div 4096) - (unat ?T + unat D + 4095) div 4096)"
      unfolding a e by (simp add: diff_mult_distrib2 mult.commute)
    then have "unat n * 4096 = unat e - unat a" unfolding n by simp
    then show ?thesis using ae by simp
  qed
  have "unat e \<le> unat ?E" unfolding e by simp
  moreover have "a mod 4096 = 0" "e mod 4096 = 0" using a e by (simp_all add: word_unat_eq_iff unat_mod)
  moreover have "16777216 \<le> a" using a T by (simp add: word_le_nat_alt)
  moreover have "unat n < 2 ^ 52" using n E assms(1) \<open>unat e \<le> unat ?E\<close>
    by (metis div_le_dividend diff_le_self le_less_trans le_trans)
  moreover have "2 \<le> unat n" using ae ne by linarith
  ultimately show ?thesis
    using lay ae ne E
    by (intro exI [of _ ?T] exI [of _ a] exI [of _ e] exI [of _ n]) (simp add: word_less_nat_alt)
qed


lemma minimal_heap_layout_overlap:
  "minimal_heap_layout 0x1000000 0x8008000 = (0x1000000, 0x1007000, 0x8008000, 0x7001)"
  by (simp add: minimal_heap_layout_def Let_def paging_is_aligned_def paging_align_address_def)

lemma kheap_add_loop_ok:
  assumes "kernel_ready s" "\<forall>e\<in>set es. unat (base_addr e) + unat (e820_length e) < 2 ^ 52"
  shows "\<exists>s'. kheap_add_loop s used i es = Some s' \<and> kernel_ready s' \<and>
    kernel_multiheap s' = kernel_multiheap s"
  using assms
proof (induction es arbitrary: s i)
  case Nil
  then show ?case by simp
next
  case (Cons e es)
  let ?b = "base_addr e" and ?E = "base_addr e + e820_length e"
  let ?b1 = "if \<not> paging_is_aligned ?b then paging_align_address ?b else ?b"
  let ?e1 = "if \<not> paging_is_aligned ?E then paging_align_to_lower_page ?E else ?E"
  let ?b2 = "if ?b1 < PEACHOS_MINIMAL_HEAP_ADDRESS then PEACHOS_MINIMAL_HEAP_ADDRESS else ?b1"
  have b1: "unat ?b1 = (unat ?b + 4095) div 4096 * 4096"
    by (rule unat_align_upper_page) (use Cons.prems(2) in auto)
  have al: "?b2 mod 4096 = 0" "?e1 mod 4096 = 0"
  proof -
    have "unat ?b1 mod 4096 = 0" unfolding b1 by simp
    then have "?b1 mod 4096 = 0" by (simp only: word_unat_eq_iff unat_mod) simp
    then show "?b2 mod 4096 = 0" by simp
    have "unat ?e1 mod 4096 = 0" unfolding unat_align_lower_page by simp
    then show "?e1 mod 4096 = 0" by (simp only: word_unat_eq_iff unat_mod) simp
  qed
  have step: "kheap_add_loop s used i (e # es) =
    (if i \<noteq> used \<and> e820_type e = 1 then
       if ?e1 \<le> ?b2 then kheap_add_loop s used (Suc i) es
       else multiheap_add s ?b2 ?e1 MULTIHEAP_HEAP_FLAG_DEFRAGMENT_WITH_PAGING \<bind>
              (\<lambda>(s', _). kheap_add_loop s' used (Suc i) es)
     else kheap_add_loop s used (Suc i) es)"
    by (simp only: kheap_add_loop.simps Let_def)
  show ?case
  proof (cases "i \<noteq> used \<and> e820_type e = 1 \<and> \<not> ?e1 \<le> ?b2")
    case True
    then have "?b2 < ?e1" by (simp only: not_le)
    then obtain s1 res where s1:
      "multiheap_add s ?b2 ?e1 MULTIHEAP_HEAP_FLAG_DEFRAGMENT_WITH_PAGING = Some (s1, res)"
      "kernel_ready s1" "kernel_multiheap s1 = kernel_multiheap s"
      using multiheap_add_fails [OF Cons.prems(1) al] by blast
    have "kheap_add_loop s used i (e # es) = kheap_add_loop s1 used (Suc i) es"
      unfolding step s1(1) using True by (simp only: simp_thms if_True if_False Option.bind.bind_lunit prod.case)
    then show ?thesis
      using Cons.IH [OF s1(2), of "Suc i"] Cons.prems(2) s1(3) by auto
  next
    case False
    then have "kheap_add_loop s used i (e # es) = kheap_add_loop s used (Suc i) es"
      unfolding step
      by (cases "i \<noteq> used \<and> e820_type e = 1") (simp_all only: simp_thms if_True if_False)
    then show ?thesis
      using Cons.IH [OF Cons.prems(1), of "Suc i"] Cons.prems(2) by auto
  qed
qed

lemma allowable_region_loop_in:
  "allowable_region_loop es i = Some (j, e) \<Longrightarrow> e \<in> set es \<and> PEACHOS_HEAP_MINIMUM_SIZE_BYTES < e820_length e"
  by (induction es arbitrary: i) (auto split: if_splits)

text \<open>
  The start of the allocator: the first heap is built in the region found, the multiheap lists it,
  and no other region of the map is ever added to it.
\<close>

lemma kheap_init_ok:
  assumes region: "kheap_get_allowable_memory_region_for_minimal_heap es = Some (used, e)"
    and fit: "\<forall>e\<in>set es. unat (base_addr e) + unat (e820_length e) < 2 ^ 52"
    and hp: "hp < PEACHOS_MINIMAL_HEAP_TABLE_ADDRESS" and table: "minimal_table_fits e"
  shows "\<exists>s'. kheap_init s hp es = Some s' \<and> kernel_ready s' \<and> heap_list s' = [hp]"
proof -
  let ?b = "base_addr e" and ?l = "e820_length e"
  have e: "e \<in> set es" "PEACHOS_HEAP_MINIMUM_SIZE_BYTES < ?l"
    using allowable_region_loop_in region
    by (auto simp: kheap_get_allowable_memory_region_for_minimal_heap_def)
  have fe: "unat ?b + unat ?l < 2 ^ 52" using fit e(1) by blast
  obtain t a z n where lay: "minimal_heap_layout ?b (?b + ?l) = (t, a, z, n)" "a mod 4096 = 0"
    "z mod 4096 = 0" "a < z" "2 \<le> unat n" "unat z = unat a + unat n * 4096"
    "PEACHOS_MINIMAL_HEAP_TABLE_ADDRESS \<le> a" "unat z \<le> unat ?b + unat ?l" "unat n < 2 ^ 52"
    using minimal_heap_layout_ok [OF fe e(2)] by (elim exE conjE) (rule that)
  let ?tbl = "read_bytes (kmem s) t (unat n)"
  have zb: "unat z < 2 ^ 52" using lay(8) fe by simp
  have a0: "0 < a" using lay(7) by (rule less_le_trans [rotated]) simp
  have cond: "a mod 4096 = 0 \<and> z mod 4096 = 0 \<and> unat z = unat a + length ?tbl * 4096"
    using lay(2,3,6) by simp
  obtain h where h: "heap_create (heap_at s hp) a z ?tbl = (0, h)" "heap_wf h"
    "heap_rep Map.empty (heap_entries h)"
    using heap_create_result [of a z ?tbl "heap_at s hp"] a0 lay(4,9) zb cond by (auto simp: less_imp_le)
  have hx: "saddr h = a" "eaddr h = z" "\<not> block_allocated_callback h" "\<not> block_free_callback h"
    "length (heap_entries h) = unat n"
    using h(1) by (auto simp: heap_create_def Let_def split: if_splits)
  have ok: "pool_ok h" using h(2,3) hx lay(2) zb by (auto simp: pool_ok_def)
  have fr: "block_free (heap_entries h ! i)" if "i < unat n" for i
    using heap_rep_free_iff [OF h(3), of i] that hx(5) by (simp add: covered_def)
  have bf: "blocks_for 40 = 1" "blocks_for 32 = 1" "unat (40 :: u64) < 2 ^ 31" "unat (32 :: u64) < 2 ^ 31"
    by (simp_all add: blocks_for_eq)
  have n0: "0 < unat n" using lay(5) by linarith
  let ?s1 = "s\<lparr>heap_at := (heap_at s)(hp := h)\<rparr>"
  obtain m1 b1 where z1: "heap_zalloc (kmem s) h 40 = Some (m1, malloc_result h 1 b1, heap_block_to_address h (int b1))"
    "b1 < length (heap_entries h)" "pool_ok (malloc_result h 1 b1)" "heap_block_to_address h (int b1) \<noteq> 0"
    using ok bf(1,3) by (cases rule: heap_zalloc_single [where m = "kmem s"]) (use fr hx(5) n0 in auto)
  let ?h1 = "malloc_result h 1 b1"
  obtain i where i: "i < unat n" "i \<noteq> b1"
  proof (cases "b1 = 0")
    case True
    then show ?thesis using that [of 1] lay(5) by simp
  next
    case False
    then show ?thesis using that [of 0] lay(5) by simp
  qed
  have fr1: "block_free (heap_entries ?h1 ! i)"
    using fr [OF i(1)] i hx(5) malloc_one_entries [OF z1(2)] by simp
  obtain m2 b2 where z2: "heap_zalloc m1 ?h1 32 = Some (m2, malloc_result ?h1 1 b2, heap_block_to_address ?h1 (int b2))"
    "pool_ok (malloc_result ?h1 1 b2)" "heap_block_to_address ?h1 (int b2) \<noteq> 0"
    using z1(3) bf(2,4) by (cases rule: heap_zalloc_single [where m = m1]) (use fr1 hx(5) i in auto)
  let ?h2 = "malloc_result ?h1 1 b2"
  let ?sh = "\<lparr>mh_heap = hp, mh_paging_heap = 0, mh_flags = 1\<rparr>"
  let ?mh = "\<lparr>mh_address = heap_block_to_address h (int b1), starting_heap = hp, first_multiheap = [],
      max_end_data_addr = 0, multiheap_flags = 0, total_heaps = 0\<rparr>"
  let ?s4 = "s\<lparr>heap_at := (heap_at s)(hp := ?h2), kernel_multiheap := ?mh\<lparr>first_multiheap := [?sh], total_heaps := 1\<rparr>, kmem := m2\<rparr>"
  have new: "multiheap_new ?s1 hp = Some (s\<lparr>heap_at := (heap_at s)(hp := ?h1), kmem := m1\<rparr>, Some ?mh)"
    using z1(1,4) by (simp add: multiheap_new_def zalloc_at_def)
  have add: "multiheap_add_existing_heap
      (s\<lparr>heap_at := (heap_at s)(hp := ?h1), kmem := m1, kernel_multiheap := ?mh\<rparr>) hp 1 = Some (?s4, 0)"
    using z2(1,3)
    by (simp add: multiheap_add_existing_heap_def multiheap_add_heap_def zalloc_at_def
        multiheap_can_add_heap_def multiheap_is_ready_def Let_def)
  have same: "saddr ?h2 = a" "eaddr ?h2 = z" using hx by simp_all
  have rdy: "kernel_ready ?s4"
    using z2(2) same lay(7) hp
    by (auto simp: kernel_ready_def kernel_inv_def heap_list_def physical_pools_def structs_outside_def
        multiheap_heap_allows_paging_def)
  obtain s' where s': "kheap_add_loop ?s4 used 0 es = Some s'" "kernel_ready s'"
    "kernel_multiheap s' = kernel_multiheap ?s4"
    using kheap_add_loop_ok [OF rdy fit] by blast
  have "kheap_init s hp es = Some s'"
    using region lay(1) h(1) new add s'(1) table by (simp add: kheap_init_def)
  then show ?thesis using s'(2,3) by (simp add: heap_list_def)
qed

subsection \<open>Properties of the kernel allocator and its page tables\<close>

text \<open>A kernel with one pool of eight blocks, the first of which holds an empty root table.\<close>

definition kernel8 :: kernel where
  "kernel8 = \<lparr>kmem = (\<lambda>_. 0), tables = (\<lambda>_ _. null_desc),
     current_paging_desc = Some \<lparr>pml = 0x1000, level = 4\<rparr>, cr3 = 0x1000, tlb_invalidated = [],
     heap_at = (\<lambda>_. malloc_result heap8 1 0),
     kernel_multiheap = \<lparr>mh_address = 0x200, starting_heap = 0x100,
       first_multiheap = [\<lparr>mh_heap = 0x100, mh_paging_heap = 0, mh_flags = 1\<rparr>],
       max_end_data_addr = 0, multiheap_flags = 0, total_heaps = 1\<rparr>\<rparr>"

lemma heap8_pool: "pool_ok (malloc_result heap8 1 0)"
proof (rule pool_ok_malloc)
  show "pool_ok heap8"
    using heap8_wf heap8_rep
    by (auto simp: pool_ok_def heap8_def heap_create_def heap_validate_alignment_def heap_validate_table_def)
qed (use heap8_free_run_1 in simp_all)

lemma kernel8_ready: "kernel_ready kernel8"
  using heap8_pool
  by (simp add: kernel_ready_def kernel_inv_def physical_pools_def structs_outside_def heap_list_def
      kernel8_def multiheap_heap_allows_paging_def)

lemma kernel8_inv: "kernel_inv kernel8"
  using kernel8_ready by (simp add: kernel_ready_def)

lemma heap8_entries_1: "heap_entries (malloc_result heap8 1 0) = SINGLE_BLOCK # replicate 7 0"
proof -
  have "replicate 8 (0 :: u8) = 0 # replicate 7 0" by (simp add: numeral_eq_Suc)
  then show ?thesis
    using malloc_one_entries [of 0 heap8] by simp
qed

lemma kernel8_pages: "free_pages kernel8 = 7" "0x1000 \<in> live_pages kernel8"
proof -
  have f: "block_free 0" "\<not> block_free SINGLE_BLOCK" by (simp_all add: block_free_def heap_get_entry_type_def)
  show "free_pages kernel8 = 7"
    using f by (simp add: free_pages_def heap_list_def kernel8_def heap8_entries_1 [unfolded One_nat_def])
  have "heap_block_to_address (malloc_result heap8 1 0) (int 0) \<in> live_blocks (malloc_result heap8 1 0)"
    using f(2) unfolding live_blocks_def heap8_entries_1 by (intro CollectI exI [of _ 0]) simp
  then show "0x1000 \<in> live_pages kernel8"
    by (simp add: live_pages_def heap_list_def kernel8_def heap_block_to_address_def)
qed

lemma kernel8_tree: "pt_tree (tables kernel8) 0x1000 (live_pages kernel8)"
proof -
  have "table_at (tables kernel8) 0x1000 p = Some u \<longleftrightarrow> p = [] \<and> u = 0x1000" for p u
    by (cases p) (auto simp: kernel8_def)
  then show ?thesis
    using kernel8_pages(2) unfolding pt_tree_def by (auto simp: kernel8_def)
qed

text \<open>
  C20. \<^bold>\<open>Mapping a page.\<close> With the kernel's \<open>kzalloc\<close> and three pages to spare, \<open>paging_map\<close> returns
  \<open>0\<close>; the processor then translates the page to the frame with the rights asked for, and not at
  all without the present flag; the translation of every other page is the same as before; the
  tables are still a tree in allocated pages; and the entry is flushed if it was in use.
\<close>

theorem kernel_paging_map_translates:
  assumes "kernel_inv s" "pt_tree (tables s) (pml desc) (live_pages s)" "3 \<le> free_pages s"
    and "pa mod 4096 = 0" "pa < 2 ^ 52"
  shows "\<exists>s'. paging_map kzalloc s desc va pa flags = Some (s', 0) \<and>
    kernel_inv s' \<and> pt_tree (tables s') (pml desc) (live_pages s') \<and>
    (\<forall>va'. mmu_translate (tables s') (pml desc) va' =
       (if same_page va' va
        then if flags AND PAGING_IS_PRESENT \<noteq> 0
             then Some (pa + (va' AND 0xFFF), flags AND PAGING_IS_WRITEABLE \<noteq> 0,
                        flags AND PAGING_ACCESS_FROM_ALL \<noteq> 0)
             else None
        else mmu_translate (tables s) (pml desc) va')) \<and>
    (mmu_translate (tables s) (pml desc) va \<noteq> None \<longrightarrow>
       tlb_invalidated s' = tlb_invalidated s @ [va])"
  using kpages.paging_map_translates [of s desc pa va flags] assms
  unfolding kpages.ready_def by blast

theorem kernel_paging_map_translates_witness:
  "\<exists>s'. paging_map kzalloc kernel8 \<lparr>pml = 0x1000, level = 4\<rparr> 0x40000000 0x5000 3 = Some (s', 0) \<and>
     mmu_translate (tables s') 0x1000 0x40000123 = Some (0x5123, True, False)"
proof -
  have sp: "same_page 0x40000123 0x40000000" by (simp add: same_page_def)
  show ?thesis
    using kernel_paging_map_translates [OF kernel8_inv, of "\<lparr>pml = 0x1000, level = 4\<rparr>" "0x5000" "0x40000000" 3]
      kernel8_tree kernel8_pages(1) sp by (auto simp: word_less_nat_alt)
qed

text \<open>
  \<^bold>\<open>Mapping a range.\<close> With three pages to spare for each page mapped, \<open>paging_map_to\<close> maps the
  pages of an aligned range one to one, in order, and no other page.
\<close>

theorem kernel_paging_map_to_translates:
  assumes "kernel_inv s" "pt_tree (tables s) (pml desc) (live_pages s)" "3 * n \<le> free_pages s"
    and "n < 2 ^ 31" "va mod 4096 = 0" "pa mod 4096 = 0" "unat pa + n * 4096 \<le> 2 ^ 52"
    and "flags AND PAGING_IS_PRESENT \<noteq> 0"
  shows "\<exists>s'. paging_map_to kzalloc s desc va pa (pa + of_nat n * 4096) flags = Some (s', 0) \<and>
    kernel_inv s' \<and> pt_tree (tables s') (pml desc) (live_pages s') \<and>
    (\<forall>x. \<not> page_in_range x va n \<longrightarrow>
      mmu_translate (tables s') (pml desc) x = mmu_translate (tables s) (pml desc) x) \<and>
    (\<forall>i x. i < n \<longrightarrow> same_page x (va + of_nat i * 4096) \<longrightarrow>
      mmu_translate (tables s') (pml desc) x =
        Some (pa + of_nat i * 4096 + (x AND 0xFFF), flags AND PAGING_IS_WRITEABLE \<noteq> 0,
              flags AND PAGING_ACCESS_FROM_ALL \<noteq> 0))"
  using kpages.paging_map_to_translates [of s desc n va pa flags] assms
  unfolding kpages.ready_def by blast

theorem kernel_paging_map_to_translates_witness:
  "\<exists>s'. paging_map_to kzalloc kernel8 \<lparr>pml = 0x1000, level = 4\<rparr> 0x7000 0x7000 0x9000 1 = Some (s', 0) \<and>
     mmu_translate (tables s') 0x1000 0x8004 = Some (0x8004, False, False)"
proof -
  obtain s' where s': "paging_map_to kzalloc kernel8 \<lparr>pml = 0x1000, level = 4\<rparr> 0x7000 0x7000 0x9000 1 = Some (s', 0)"
    "\<And>i x. i < 2 \<Longrightarrow> same_page x (0x7000 + of_nat i * 4096) \<Longrightarrow>
      mmu_translate (tables s') 0x1000 x = Some (0x7000 + of_nat i * 4096 + (x AND 0xFFF), False, False)"
    using kernel_paging_map_to_translates [OF kernel8_inv, of "\<lparr>pml = 0x1000, level = 4\<rparr>" 2 "0x7000" "0x7000" 1]
      kernel8_tree kernel8_pages(1) by auto
  have "same_page 0x8004 (0x7000 + of_nat 1 * 4096)" by (simp add: same_page_def)
  from s'(2) [OF _ this] show ?thesis using s'(1) by simp
qed

text \<open>
  C37. \<^bold>\<open>The start of the allocator.\<close> When the memory map has a usable region of more than 100 MiB, in which the table of
  the first heap ends before its pool (for some sizes of the region it does not, and then the first blocks handed out are the table), and no region reaches \<open>2 ^ 52\<close>, \<open>kheap_init\<close> leaves an allocator in its invariant, with the first
  heap in its list. That heap is the only one: every other usable region fails to be added.
\<close>

theorem kheap_init_establishes_allocator:
  assumes "kheap_get_allowable_memory_region_for_minimal_heap es = Some (used, e)"
    and "\<forall>e\<in>set es. unat (base_addr e) + unat (e820_length e) < 2 ^ 52"
    and "hp < PEACHOS_MINIMAL_HEAP_TABLE_ADDRESS" "minimal_table_fits e"
  shows "\<exists>s'. kheap_init s hp es = Some s' \<and> kernel_ready s' \<and> heap_list s' = [hp]"
  using assms by (rule kheap_init_ok)

definition map2 :: "e820_entry list" where
  "map2 = [\<lparr>base_addr = 0, e820_length = 0x9F000, e820_type = 1, extended_attr = 0\<rparr>,
           \<lparr>base_addr = 0x100000, e820_length = 0x8000000, e820_type = 1, extended_attr = 0\<rparr>]"

theorem kheap_init_establishes_allocator_witness:
  "\<exists>s'. kheap_init kernel8 0x200000 map2 = Some s' \<and> kernel_ready s' \<and> heap_list s' = [0x200000]"
  by (rule kheap_init_establishes_allocator [where used = 1 and
      e = "\<lparr>base_addr = 0x100000, e820_length = 0x8000000, e820_type = 1, extended_attr = 0\<rparr>"])
    (simp_all add: map2_def kheap_get_allowable_memory_region_for_minimal_heap_def minimal_table_fits_def minimal_heap_layout_def
       paging_is_aligned_def paging_align_address_def paging_align_to_lower_page_def Let_def)

text \<open>
  \<^bold>\<open>No heap is ever added.\<close> \<open>multiheap_add\<close> hands \<open>heap_create\<close> a zeroed table, whose number of
  entries is \<open>0\<close>, so for every region of at least one block it fails; it gives back what it had
  allocated or has none, and the list of heaps is unchanged.
\<close>

theorem multiheap_add_never_adds:
  assumes "kernel_ready s" "start mod 4096 = 0" "end_addr mod 4096 = 0" "start < end_addr"
  shows "\<exists>s' res. multiheap_add s start end_addr flags = Some (s', res) \<and> res < 0 \<and>
    kernel_ready s' \<and> kernel_multiheap s' = kernel_multiheap s"
  using assms by (rule multiheap_add_fails)

theorem multiheap_add_never_adds_witness:
  "\<exists>s' res. multiheap_add kernel8 0x2000000 0x3000000 2 = Some (s', res) \<and> res < 0 \<and>
    kernel_ready s' \<and> kernel_multiheap s' = kernel_multiheap kernel8"
  by (rule multiheap_add_never_adds [OF kernel8_ready]) (simp_all add: word_less_nat_alt)

text \<open>
  \<^bold>\<open>The table of the first heap may overlap its pool.\<close> The space left for the table is computed
  from the size without it, rounded down; for a region of 28680 blocks and one more at
  \<open>0x1000000\<close> the table has one entry more than there are bytes before the pool.
\<close>

theorem minimal_heap_table_overlaps_pool:
  "\<exists>t a e n. minimal_heap_layout 0x1000000 0x8008000 = (t, a, e, n) \<and> t + n = a + 1"
  using minimal_heap_layout_overlap by simp

end
