(* ===== verification/Vector.thy ===== *)
theory Vector
  imports MultiHeap "HOL-Library.Multiset"
begin

section \<open>Vectors: vector.c\<close>

text \<open>
  The growable arrays of \<open>lib/vector/vector.c\<close> over the bytes of memory. The functions take the
  allocator they call as a parameter: \<open>kre\<close> for \<open>krealloc\<close>, \<open>kz\<close> for \<open>kzalloc\<close> and \<open>kp\<close> for
  \<open>kpzalloc\<close>. What the proofs need of it is the locale \<open>realloc_provider\<close> of Memory and its
  extension \<open>zalloc_provider\<close>, which the kernel allocator discharges.

  \<open>struct vector\<close> is the record \<open>vector\<close>; a function returns it updated, beside the state and the
  C result.
\<close>

record vector =
  vmemory :: u64
  vflags :: u32
  e_size :: u64
  t_elems :: u64
  tm_elems :: u64
  t_reserved_elements :: u64

definition vector_offset :: "vector \<Rightarrow> u64 \<Rightarrow> u64" where
  "vector_offset vec index = e_size vec * index"

definition vector_valid_bounds :: "vector \<Rightarrow> u64 \<Rightarrow> int" where
  "vector_valid_bounds vec index = (if index < t_elems vec then 0 else - EINVARG)"

definition vector_memory_at_index :: "vector \<Rightarrow> u64 \<Rightarrow> u64" where
  "vector_memory_at_index vec index = vmemory vec + vector_offset vec index"

definition vector_count :: "vector \<Rightarrow> u64" where
  "vector_count vec = t_elems vec"

text \<open>The address of the new \<open>struct vector\<close> and its contents.\<close>

definition vector_new ::
  "('s kstate_scheme \<Rightarrow> u64 \<Rightarrow> ('s kstate_scheme \<times> u64) option) \<Rightarrow> 's kstate_scheme \<Rightarrow>
   u64 \<Rightarrow> u64 \<Rightarrow> u32 \<Rightarrow> ('s kstate_scheme \<times> (u64 \<times> vector) option) option" where
  "vector_new kp s element_size reserved flags = do {
     (s', p) \<leftarrow> kp s 48;
     Some (s', if p = 0 then None
               else Some (p, \<lparr>vmemory = 0, vflags = flags, e_size = element_size, t_elems = 0,
                              tm_elems = 0, t_reserved_elements = reserved\<rparr>))
   }"

subsection \<open>Growing\<close>

definition vector_resize ::
  "('s kstate_scheme \<Rightarrow> u64 \<Rightarrow> u64 \<Rightarrow> ('s kstate_scheme \<times> u64) option) \<Rightarrow> 's kstate_scheme \<Rightarrow>
   vector \<Rightarrow> u64 \<Rightarrow> ('s kstate_scheme \<times> vector \<times> int) option" where
  "vector_resize kre s vec total_needed_elements =
     (let total_elements_required = t_elems vec + total_needed_elements in
      if tm_elems vec > total_elements_required then Some (s, vec, 0)
      else do {
        let final = t_reserved_elements vec + total_elements_required;
        let total_bytes_required = final * e_size vec;
        (s', p) \<leftarrow> kre s (vmemory vec) total_bytes_required;
        if p = 0 then Some (s', vec\<lparr>vmemory := 0\<rparr>, - ENOMEM)
        else Some (s', vec\<lparr>vmemory := p, tm_elems := final\<rparr>, 0)
      })"

definition vector_grow ::
  "('s kstate_scheme \<Rightarrow> u64 \<Rightarrow> u64 \<Rightarrow> ('s kstate_scheme \<times> u64) option) \<Rightarrow> 's kstate_scheme \<Rightarrow>
   vector \<Rightarrow> u64 \<Rightarrow> ('s kstate_scheme \<times> vector \<times> int) option" where
  "vector_grow kre s vec total_elements = do {
     (s', vec', res) \<leftarrow> vector_resize kre s vec total_elements;
     if res < 0 then Some (s', vec', res)
     else Some (s', vec'\<lparr>t_elems := t_elems vec' + total_elements\<rparr>, res)
   }"

definition vector_push ::
  "('s kstate_scheme \<Rightarrow> u64 \<Rightarrow> u64 \<Rightarrow> ('s kstate_scheme \<times> u64) option) \<Rightarrow> 's kstate_scheme \<Rightarrow>
   vector \<Rightarrow> u64 \<Rightarrow> ('s kstate_scheme \<times> vector \<times> int) option" where
  "vector_push kre s vec elem = do {
     (s1, vec1, res) \<leftarrow> vector_resize kre s vec 1;
     if res < 0 then Some (s1, vec1, res)
     else do {
       let res = int_of_size (t_elems vec1);
       m \<leftarrow> memcpy (kmem s1) (vector_memory_at_index vec1 (t_elems vec1)) elem
              (int_of_size (e_size vec1));
       Some (s1\<lparr>kmem := m\<rparr>, vec1\<lparr>t_elems := t_elems vec1 + 1\<rparr>, res)
     }
   }"

subsection \<open>Reading and writing elements\<close>

text \<open>The index is an \<open>int\<close>, and a \<open>size_t\<close> again in the calls it makes.\<close>

definition vector_overwrite :: "memory \<Rightarrow> vector \<Rightarrow> int \<Rightarrow> u64 \<Rightarrow> u64 \<Rightarrow> (memory \<times> int) option" where
  "vector_overwrite m vec index elem elem_size =
     (let res = vector_valid_bounds vec (size_of_int index) in
      if res < 0 then Some (m, res)
      else if elem_size < e_size vec then Some (m, - EINVARG)
      else do {
        m' \<leftarrow> memcpy m (vector_memory_at_index vec (size_of_int index)) elem (int_of_size (e_size vec));
        Some (m', res)
      })"

text \<open>On an error the output buffer is cleared; with a null buffer that is a write to null.\<close>

definition vector_at :: "memory \<Rightarrow> vector \<Rightarrow> u64 \<Rightarrow> u64 \<Rightarrow> u64 \<Rightarrow> (memory \<times> int) option" where
  "vector_at m vec index data_out sz =
     (let res = (if sz < e_size vec then - EINVARG
                 else if data_out = 0 then - EINVARG
                 else vector_valid_bounds vec index)
      in if res < 0 then
           (if data_out = 0 then None else do { m' \<leftarrow> memset m data_out 0 sz; Some (m', res) })
         else do {
           m' \<leftarrow> memcpy m data_out (vector_memory_at_index vec index) (int_of_size (e_size vec));
           Some (m', 0)
         })"

definition vector_back :: "memory \<Rightarrow> vector \<Rightarrow> u64 \<Rightarrow> u64 \<Rightarrow> (memory \<times> int) option" where
  "vector_back m vec data_out sz = vector_at m vec (t_elems vec - 1) data_out sz"

text \<open>\<open>tmp_buf\<close> is the address of the buffer on the stack. The result is the code and the index.\<close>

primrec vector_has_loop ::
  "memory \<Rightarrow> vector \<Rightarrow> u64 \<Rightarrow> u64 \<Rightarrow> u64 \<Rightarrow> nat \<Rightarrow> nat \<Rightarrow> (memory \<times> int \<times> nat) option" where
  "vector_has_loop m vec elem tmp_buf elem_size i 0 = Some (m, - EOUTOFRANGE, i)"
| "vector_has_loop m vec elem tmp_buf elem_size i (Suc n) = do {
     (m', _) \<leftarrow> vector_at m vec (of_nat i) tmp_buf elem_size;
     if memcmp m' elem tmp_buf (int_of_size elem_size) = 0 then Some (m', 0, i)
     else vector_has_loop m' vec elem tmp_buf elem_size (Suc i) n
   }"

definition vector_has ::
  "memory \<Rightarrow> vector \<Rightarrow> u64 \<Rightarrow> u64 \<Rightarrow> u64 \<Rightarrow> (memory \<times> int \<times> nat option) option" where
  "vector_has m vec elem_val_ptr elem_size tmp_buf =
     (if e_size vec \<noteq> elem_size then Some (m, - EINVARG, None)
      else do {
        (m', res, i) \<leftarrow> vector_has_loop m vec elem_val_ptr tmp_buf elem_size 0 (unat (vector_count vec));
        Some (m', res, Some i)
      })"

subsection \<open>Removing elements\<close>

definition vector_pop :: "vector \<Rightarrow> vector \<times> int" where
  "vector_pop vec =
     (if t_elems vec = 0 then (vec, - EIO) else (vec\<lparr>t_elems := t_elems vec - 1\<rparr>, 0))"

text \<open>The search: the C result and the index found, \<open>- 1\<close> when there is none.\<close>

primrec pop_element_search ::
  "memory \<Rightarrow> vector \<Rightarrow> u64 \<Rightarrow> u64 \<Rightarrow> u64 \<Rightarrow> nat \<Rightarrow> nat \<Rightarrow> (memory \<times> int \<times> int) option" where
  "pop_element_search m vec tmp_mem mem_val sz i 0 = Some (m, 0, - 1)"
| "pop_element_search m vec tmp_mem mem_val sz i (Suc n) = do {
     (m', res) \<leftarrow> vector_at m vec (of_nat i) tmp_mem sz;
     if res < 0 then Some (m', res, - 1)
     else if memcmp m' tmp_mem mem_val (int_of_size sz) = 0 then Some (m', res, int i)
     else pop_element_search m' vec tmp_mem mem_val sz (Suc i) n
   }"

definition vector_pop_element ::
  "('s kstate_scheme \<Rightarrow> u64 \<Rightarrow> ('s kstate_scheme \<times> u64) option) \<Rightarrow> 's kstate_scheme \<Rightarrow>
   vector \<Rightarrow> u64 \<Rightarrow> u64 \<Rightarrow> ('s kstate_scheme \<times> vector \<times> int) option" where
  "vector_pop_element kz s vec mem_val sz =
     (if sz \<noteq> e_size vec then Some (s, vec, - EINVARG)
      else do {
        let total_elements = vector_count vec;
        (s1, tmp_mem) \<leftarrow> kz s sz;
        if tmp_mem = 0 then Some (s1, vec, - ENOMEM)
        else do {
          (m, res, index_to_remove) \<leftarrow>
            pop_element_search (kmem s1) vec tmp_mem mem_val sz 0 (unat total_elements);
          let s2 = s1\<lparr>kmem := m\<rparr>;
          if res < 0 then Some (s2, vec, res)
          else if index_to_remove = - 1 then Some (s2, vec, - EIO)
          else if size_of_int index_to_remove = total_elements - 1 then
            let (vec', res') = vector_pop vec in Some (s2, vec', res')
          else do {
            let to_delete = vmemory vec + size_of_int index_to_remove * sz;
            let next_elem = to_delete + sz;
            let total_elements_to_copy = t_elems vec - size_of_int index_to_remove - 1;
            m' \<leftarrow> memcpy (kmem s2) to_delete next_elem (int_of_size (total_elements_to_copy * sz));
            Some (s2\<lparr>kmem := m'\<rparr>, vec\<lparr>t_elems := t_elems vec - 1\<rparr>, res)
          }
        }
      })"

subsection \<open>Reordering\<close>

text \<open>
  The reorder callback reads the two elements through pointers. The inner loop returns whether it
  ran to its end; the code leaves both loops when an access fails.
\<close>

primrec reorder_inner ::
  "(memory \<Rightarrow> u64 \<Rightarrow> u64 \<Rightarrow> int) \<Rightarrow> memory \<Rightarrow> vector \<Rightarrow> u64 \<Rightarrow> u64 \<Rightarrow> nat \<Rightarrow> nat \<Rightarrow> (memory \<times> bool) option" where
  "reorder_inner f m vec elem1 elem2 j 0 = Some (m, True)"
| "reorder_inner f m vec elem1 elem2 j (Suc n) = do {
     (m1, r1) \<leftarrow> vector_at m vec (of_nat j) elem1 (e_size vec);
     if r1 < 0 then Some (m1, False)
     else do {
       (m2, r2) \<leftarrow> vector_at m1 vec (of_nat j + 1) elem2 (e_size vec);
       if r2 < 0 then Some (m2, False)
       else if f m2 elem1 elem2 > 0 then do {
         (m3, r3) \<leftarrow> vector_overwrite m2 vec (int_of_size (of_nat j)) elem2 (e_size vec);
         if r3 < 0 then Some (m3, False)
         else do {
           (m4, r4) \<leftarrow> vector_overwrite m3 vec (int_of_size (of_nat j + 1)) elem1 (e_size vec);
           if r4 < 0 then Some (m4, False)
           else reorder_inner f m4 vec elem1 elem2 (Suc j) n
         }
       } else reorder_inner f m2 vec elem1 elem2 (Suc j) n
     }
   }"

primrec reorder_outer ::
  "(memory \<Rightarrow> u64 \<Rightarrow> u64 \<Rightarrow> int) \<Rightarrow> memory \<Rightarrow> vector \<Rightarrow> u64 \<Rightarrow> u64 \<Rightarrow> nat \<Rightarrow> nat \<Rightarrow> nat \<Rightarrow> memory option" where
  "reorder_outer f m vec elem1 elem2 cnt i 0 = Some m"
| "reorder_outer f m vec elem1 elem2 cnt i (Suc n) = do {
     (m', continue) \<leftarrow> reorder_inner f m vec elem1 elem2 0 (cnt - i - 1);
     if continue then reorder_outer f m' vec elem1 elem2 cnt (Suc i) n else Some m'
   }"

definition vector_reorder ::
  "('s kstate_scheme \<Rightarrow> u64 \<Rightarrow> ('s kstate_scheme \<times> u64) option) \<Rightarrow>
   (memory \<Rightarrow> u64 \<Rightarrow> u64 \<Rightarrow> int) \<Rightarrow> 's kstate_scheme \<Rightarrow> vector \<Rightarrow> 's kstate_scheme option" where
  "vector_reorder kz f s vec =
     (let cnt = unat (vector_count vec) in
      if cnt < 2 then Some s
      else do {
        (s1, elem1) \<leftarrow> kz s (e_size vec);
        (s2, elem2) \<leftarrow> kz s1 (e_size vec);
        if elem1 = 0 \<or> elem2 = 0 then Some s2
        else do {
          m \<leftarrow> reorder_outer f (kmem s2) vec elem1 elem2 cnt 0 (cnt - 1);
          Some (s2\<lparr>kmem := m\<rparr>)
        }
      })"

text \<open>\<open>vector_free\<close> passes the data and the structure to \<open>kfree\<close>.\<close>

definition vector_free :: "vector \<Rightarrow> u64 \<Rightarrow> u64 list" where
  "vector_free vec vec_ptr = (if vmemory vec \<noteq> 0 then [vmemory vec] else []) @ [vec_ptr]"

subsection \<open>The elements of a vector\<close>

definition vector_elems :: "memory \<Rightarrow> vector \<Rightarrow> u8 list list" where
  "vector_elems m vec =
     map (\<lambda>i. read_bytes m (vmemory vec + of_nat (i * unat (e_size vec))) (unat (e_size vec)))
       [0..<unat (t_elems vec)]"

lemma length_vector_elems [simp]: "length (vector_elems m vec) = unat (t_elems vec)"
  by (simp add: vector_elems_def)

lemma nth_vector_elems [simp]:
  "i < unat (t_elems vec) \<Longrightarrow> vector_elems m vec ! i =
     read_bytes m (vmemory vec + of_nat (i * unat (e_size vec))) (unat (e_size vec))"
  by (simp add: vector_elems_def)

lemma vector_address: "vector_memory_at_index vec (of_nat i) = vmemory vec + of_nat (i * unat (e_size vec))"
  by (simp add: vector_memory_at_index_def vector_offset_def)

lemma vector_address_unat: "vector_memory_at_index vec k = vmemory vec + of_nat (unat k * unat (e_size vec))"
  using vector_address [of vec "unat k"] by simp

lemma separate_offsets:
  assumes "a + k \<le> b" "b + l \<le> 2 ^ 64"
  shows "separate (p + of_nat a) k (p + of_nat b) l"
  unfolding separate_def
proof (intro allI impI)
  fix i j assume "i < k" "j < l"
  then have "p + of_nat (a + i) \<noteq> p + of_nat (b + j)"
    using assms by (subst offset_eq_iff) simp_all
  then show "p + of_nat a + of_nat i \<noteq> p + of_nat b + of_nat j" by (simp add: add.assoc)
qed

lemma elem_index_bound: "i < t \<Longrightarrow> j < e \<Longrightarrow> i * e + j < t * (e :: nat)"
proof -
  assume "i < t" "j < e"
  then have "i * e + j < Suc i * e" by simp
  also have "\<dots> \<le> t * e" using \<open>i < t\<close> by (intro mult_le_mono1) simp
  finally show ?thesis .
qed

lemma vector_elems_cong:
  assumes "\<And>i. i < unat (t_elems vec) * unat (e_size vec) \<Longrightarrow>
      m' (vmemory vec' + of_nat i) = m (vmemory vec + of_nat i)"
    and "t_elems vec' = t_elems vec" "e_size vec' = e_size vec"
  shows "vector_elems m' vec' = vector_elems m vec"
proof (rule nth_equalityI)
  fix i assume "i < length (vector_elems m' vec')"
  then have i: "i < unat (t_elems vec)" using assms(2) by simp
  have "m' (vmemory vec' + of_nat (i * unat (e_size vec)) + of_nat j)
      = m (vmemory vec + of_nat (i * unat (e_size vec)) + of_nat j)" if "j < unat (e_size vec)" for j
    using assms(1) [OF elem_index_bound [OF i that]] by (simp add: add.assoc)
  then show "vector_elems m' vec' ! i = vector_elems m vec ! i"
    using i assms(2,3) by (auto intro!: read_bytes_cong)
qed (simp add: assms(2))

context realloc_provider begin

definition vec_ok :: "'s kstate_scheme \<Rightarrow> vector \<Rightarrow> bool" where
  "vec_ok s vec \<longleftrightarrow> inv s \<and> 0 < unat (e_size vec) \<and> unat (e_size vec) < 2 ^ 30 \<and>
     unat (t_elems vec) \<le> unat (tm_elems vec) \<and>
     (vmemory vec = 0 \<and> tm_elems vec = 0 \<or>
      (\<exists>n. own s (vmemory vec) n \<and> unat (tm_elems vec) * unat (e_size vec) \<le> n))"

text \<open>What a call leaves alone: memory outside the pool and the allocations other than \<open>p\<close>.\<close>

definition others_kept :: "'s kstate_scheme \<Rightarrow> 's kstate_scheme \<Rightarrow> u64 \<Rightarrow> u64 \<Rightarrow> bool" where
  "others_kept s s' p q \<longleftrightarrow> pool s' = pool s \<and> (\<forall>x. x \<notin> pool s \<longrightarrow> kmem s' x = kmem s x) \<and>
     (\<forall>p2 n2. own s p2 n2 \<longrightarrow> p2 \<noteq> p \<longrightarrow> own s' p2 n2 \<and> p2 \<noteq> q \<and>
        read_bytes (kmem s') p2 n2 = read_bytes (kmem s) p2 n2)"

text \<open>Where a resize is defined: it needs no memory, or the allocator can give it.\<close>

definition resize_defined :: "'s kstate_scheme \<Rightarrow> vector \<Rightarrow> u64 \<Rightarrow> bool" where
  "resize_defined s vec k \<longleftrightarrow> t_elems vec + k < tm_elems vec \<or>
     ((unat (t_reserved_elements vec) + unat (t_elems vec) + unat k) * unat (e_size vec) < 2 ^ 30 \<and>
      (vmemory vec = 0 \<or>
       can s (vmemory vec) ((t_reserved_elements vec + (t_elems vec + k)) * e_size vec)))"

lemma vector_resize_cases:
  assumes ok: "vec_ok s vec" and k: "k \<noteq> 0" "unat (t_elems vec) + unat k < 2 ^ 64"
    and rd: "resize_defined s vec k"
  obtains (fail) "vector_resize kre s vec k = Some (s, vec\<lparr>vmemory := 0\<rparr>, - ENOMEM)"
  | (resized) s' vec' where "vector_resize kre s vec k = Some (s', vec', 0)" "vec_ok s' vec'"
      "t_elems vec' = t_elems vec" "e_size vec' = e_size vec" "vmemory vec' \<noteq> 0"
      "unat (t_elems vec) + unat k \<le> unat (tm_elems vec')"
      "vector_elems (kmem s') vec' = vector_elems (kmem s) vec"
      "others_kept s s' (vmemory vec) (vmemory vec')"
proof (cases "t_elems vec + k < tm_elems vec")
  case True
  have inv: "inv s" using ok by (simp add: vec_ok_def)
  have "tm_elems vec \<noteq> 0" using True by (metis word_not_simps(1))
  then obtain n where n: "own s (vmemory vec) n" using ok by (auto simp: vec_ok_def)
  have "vmemory vec \<noteq> 0" using own_range [OF inv n] by auto
  moreover have "unat (t_elems vec + k) = unat (t_elems vec) + unat k"
    using k(2) by (subst unat_add_lem [THEN iffD1]) simp_all
  then have "unat (t_elems vec) + unat k \<le> unat (tm_elems vec)"
    using True by (simp add: word_less_nat_alt)
  moreover have "others_kept s s (vmemory vec) (vmemory vec)" by (simp add: others_kept_def)
  ultimately show ?thesis using resized [of s vec] ok True by (simp add: vector_resize_def)
next
  case False
  let ?e = "unat (e_size vec)" and ?t = "unat (t_elems vec)"
  define N where "N = unat (t_reserved_elements vec) + ?t + unat k"
  let ?final = "t_reserved_elements vec + (t_elems vec + k)"
  let ?bytes = "?final * e_size vec"
  have inv: "inv s" and e: "0 < ?e" "?e < 2 ^ 30" and t: "?t \<le> unat (tm_elems vec)"
    using ok by (auto simp: vec_ok_def)
  have lim: "N * ?e < 2 ^ 30" and can: "vmemory vec = 0 \<or> can s (vmemory vec) ?bytes"
    using rd False by (auto simp: resize_defined_def N_def)
  have N: "N < 2 ^ 30" using lim e(1) by (metis le_less_trans mult.right_neutral mult_le_mono2 Suc_leI One_nat_def)
  have final: "unat ?final = N" 
  proof -
    have "?final = of_nat N" by (simp add: N_def add.assoc)
    then show ?thesis using N by simp
  qed
  have bytes: "unat ?bytes = N * ?e"
  proof -
    have b: "?bytes = of_nat (N * ?e)" by (simp add: N_def add.assoc)
    show ?thesis unfolding b by (rule unat_of_nat_u64) (use lim in simp)
  qed
  have N0: "0 < N" using k(1) by (simp add: N_def unat_gt_0)
  have sz: "?bytes \<noteq> 0" "unat ?bytes < 2 ^ 30"
  proof -
    have "unat ?bytes \<noteq> 0" using bytes N0 e(1) by simp
    then show "?bytes \<noteq> 0" by auto
    show "unat ?bytes < 2 ^ 30" using bytes lim by simp
  qed
  have res: "vector_resize kre s vec k =
      (case kre s (vmemory vec) ?bytes of None \<Rightarrow> None
       | Some (s', p) \<Rightarrow> if p = 0 then Some (s', vec\<lparr>vmemory := 0\<rparr>, - ENOMEM)
                        else Some (s', vec\<lparr>vmemory := p, tm_elems := ?final\<rparr>, 0))"
    using False by (auto simp: vector_resize_def Let_def bind_eq_Some_conv split: option.splits)
  have step: "\<exists>s' q. kre s (vmemory vec) ?bytes = Some (s', q) \<and>
      (q = 0 \<and> s' = s \<or> alloc_step inv own pool s s' (vmemory vec) q (N * ?e) \<and>
         (\<forall>i<?t * ?e. kmem s' (q + of_nat i) = kmem s (vmemory vec + of_nat i)))"
  proof (cases "vmemory vec = 0")
    case True
    have "?t = 0"
    proof -
      have "\<not> own s 0 n" for n using own_range [OF inv, of 0 n] by auto
      then have "tm_elems vec = 0" using ok True by (auto simp: vec_ok_def)
      then show ?thesis using t by simp
    qed
    then show ?thesis using alloc [OF inv sz] True bytes by simp
  next
    case vm: False
    then obtain n where n: "own s (vmemory vec) n" "unat (tm_elems vec) * ?e \<le> n"
      using ok by (auto simp: vec_ok_def)
    have "?t * ?e \<le> min n (N * ?e)"
      using n(2) t by (auto simp: N_def intro: order_trans [OF mult_le_mono1])
    then show ?thesis
      using realloc [OF inv n(1), of ?bytes] can vm bytes by (fastforce simp: min_def split: if_splits)
  qed
  then obtain s' q where s': "kre s (vmemory vec) ?bytes = Some (s', q)"
    "q = 0 \<and> s' = s \<or> alloc_step inv own pool s s' (vmemory vec) q (N * ?e) \<and>
       (\<forall>i<?t * ?e. kmem s' (q + of_nat i) = kmem s (vmemory vec + of_nat i))" by blast
  show ?thesis
  proof (cases "q = 0")
    case True
    then show ?thesis using fail res s' by (auto simp: alloc_step_def)
  next
    case q: False
    let ?vec = "vec\<lparr>vmemory := q, tm_elems := ?final\<rparr>"
    have st: "alloc_step inv own pool s s' (vmemory vec) q (N * ?e)"
      "\<And>i. i < ?t * ?e \<Longrightarrow> kmem s' (q + of_nat i) = kmem s (vmemory vec + of_nat i)"
      using s'(2) q by auto
    have "vec_ok s' ?vec" using st(1) e final t by (auto simp: vec_ok_def alloc_step_def N_def)
    moreover have "vector_elems (kmem s') ?vec = vector_elems (kmem s) vec"
      by (rule vector_elems_cong) (use st(2) in simp_all)
    moreover have "others_kept s s' (vmemory vec) q" using st(1) by (simp add: others_kept_def alloc_step_def)
    moreover have "?t + unat k \<le> unat ?final" unfolding final by (simp add: N_def)
    ultimately show ?thesis using resized [of s' ?vec] res s'(1) q by simp
  qed
qed

end

lemma int_of_size_nat: "unat n < 2 ^ 31 \<Longrightarrow> nat (int_of_size n) = unat n \<and> 0 \<le> int_of_size n"
  using int_of_size_small [of n] by (simp only: nat_uint_eq uint_ge_0 simp_thms)

lemma memcpy_size:
  "unat n < 2 ^ 31 \<Longrightarrow> memcpy m d s (int_of_size n) = Some (memcpy_bytes m d s (unat n))"
  using int_of_size_nat [of n] by (simp add: memcpy_def)

text \<open>A write to one region leaves the elements of a vector apart from it.\<close>

lemma vector_elems_outside:
  assumes "separate d n (vmemory vec) (unat (t_elems vec) * unat (e_size vec))"
    and "\<And>x. (\<And>i. i < n \<Longrightarrow> x \<noteq> d + of_nat i) \<Longrightarrow> m' x = m x"
  shows "vector_elems m' vec = vector_elems m vec"
proof (rule vector_elems_cong)
  fix i assume "i < unat (t_elems vec) * unat (e_size vec)"
  then have "vmemory vec + of_nat i \<noteq> d + of_nat j" if "j < n" for j
    using assms(1) that unfolding separate_def by metis
  then show "m' (vmemory vec + of_nat i) = m (vmemory vec + of_nat i)" by (rule assms(2))
qed simp_all

context realloc_provider begin

lemma own_extent:
  assumes "vec_ok s vec" "vmemory vec \<noteq> 0"
  shows "\<exists>n. own s (vmemory vec) n \<and> unat (tm_elems vec) * unat (e_size vec) \<le> n \<and> n < 2 ^ 63"
  using assms own_range [of s "vmemory vec"] unfolding vec_ok_def by fastforce

lemma vec_ok_kmem [simp]: "vec_ok (s\<lparr>kmem := m\<rparr>) vec = vec_ok s vec"
  by (simp add: vec_ok_def mem_frame)

lemma others_kept_write:
  assumes ok: "vec_ok s' vec" "vmemory vec \<noteq> 0" and kept: "others_kept s s' p (vmemory vec)"
    and off: "off + k \<le> unat (tm_elems vec) * unat (e_size vec)"
    and w: "\<And>x. (\<And>i. i < k \<Longrightarrow> x \<noteq> vmemory vec + of_nat (off + i)) \<Longrightarrow> m x = kmem s' x"
  shows "others_kept s (s'\<lparr>kmem := m\<rparr>) p (vmemory vec)"
proof -
  obtain n where n: "own s' (vmemory vec) n" "unat (tm_elems vec) * unat (e_size vec) \<le> n"
    using own_extent [OF ok] by blast
  have inv: "inv s'" using ok by (simp add: vec_ok_def)
  have "m x = kmem s' x" if "x \<notin> pool s'" for x
    using w own_pool [OF inv n(1)] that n(2) off by (metis le_trans nat_add_left_cancel_less less_le_trans)
  moreover have "read_bytes m p2 n2 = read_bytes (kmem s') p2 n2" if "own s' p2 n2" "p2 \<noteq> vmemory vec" for p2 n2
  proof -
    have "separate p2 n2 (vmemory vec) n" by (rule own_separate [OF inv that(1) n(1) that(2)])
    moreover have "off + i < n" if "i < k" for i using that n(2) off by simp
    ultimately have "m (p2 + of_nat j) = kmem s' (p2 + of_nat j)" if "j < n2" for j
      using w that unfolding separate_def by blast
    then show ?thesis by (rule read_bytes_cong)
  qed
  ultimately show ?thesis using kept unfolding others_kept_def by (simp add: mem_frame)
qed

text \<open>A push appends the bytes of the element, which lie outside the pool.\<close>

lemma vector_push_appends:
  assumes ok: "vec_ok s vec" and t: "unat (t_elems vec) < 2 ^ 31 - 1" and rd: "resize_defined s vec 1"
    and elem: "\<And>i. i < unat (e_size vec) \<Longrightarrow> elem + of_nat i \<notin> pool s"
  shows "vector_push kre s vec elem = Some (s, vec\<lparr>vmemory := 0\<rparr>, - ENOMEM) \<or>
    (\<exists>s' vec'. vector_push kre s vec elem = Some (s', vec', int (unat (t_elems vec))) \<and>
       vec_ok s' vec' \<and> e_size vec' = e_size vec \<and>
       vector_elems (kmem s') vec' =
         vector_elems (kmem s) vec @ [read_bytes (kmem s) elem (unat (e_size vec))] \<and>
       others_kept s s' (vmemory vec) (vmemory vec'))"
proof -
  let ?e = "unat (e_size vec)" and ?t = "unat (t_elems vec)"
  have t64: "?t + unat (1 :: u64) < 2 ^ 64" using t by simp
  show ?thesis
  proof (rule vector_resize_cases [OF ok _ t64 rd])
    assume "vector_resize kre s vec 1 = Some (s, vec\<lparr>vmemory := 0\<rparr>, - ENOMEM)"
    then show ?thesis by (simp add: vector_push_def)
  next
    fix s1 vec1
    assume r: "vector_resize kre s vec 1 = Some (s1, vec1, 0)" "vec_ok s1 vec1"
      "t_elems vec1 = t_elems vec" "e_size vec1 = e_size vec" "vmemory vec1 \<noteq> 0"
      "?t + unat (1 :: u64) \<le> unat (tm_elems vec1)"
      "vector_elems (kmem s1) vec1 = vector_elems (kmem s) vec"
      "others_kept s s1 (vmemory vec) (vmemory vec1)"
    obtain n where n: "own s1 (vmemory vec1) n" "unat (tm_elems vec1) * ?e \<le> n" "n < 2 ^ 63"
      using own_extent [OF r(2,5)] r(4) by auto
    have inv: "inv s1" and e: "0 < ?e" "?e < 2 ^ 30" using r(2,4) by (auto simp: vec_ok_def)
    have room: "?t * ?e + ?e \<le> unat (tm_elems vec1) * ?e"
      using r(6) mult_le_mono1 [of "Suc ?t" "unat (tm_elems vec1)" ?e] by simp
    let ?d = "vmemory vec1 + of_nat (?t * ?e)"
    let ?m = "memcpy_bytes (kmem s1) ?d elem ?e"
    let ?vec = "vec1\<lparr>t_elems := t_elems vec1 + 1\<rparr>"
    have tt: "int_of_size (t_elems vec1) = int ?t" using int_of_size_small [of "t_elems vec1"] t r(3) by simp
    have push: "vector_push kre s vec elem = Some (s1\<lparr>kmem := ?m\<rparr>, ?vec, int ?t)"
      using r(1) tt e(2) memcpy_size [of "e_size vec" "kmem s1"]
      by (simp add: vector_push_def Let_def vector_address_unat r(3,4) del: of_nat_mult)
    have t1: "unat (t_elems vec1 + 1) = Suc ?t"
      using t r(3) by (subst unat_add_lem [THEN iffD1]) simp_all
    have in_pool: "?d + of_nat i \<in> pool s" if "i < ?e" for i
    proof -
      have "?t * ?e + i < n" using that room n(2) by simp
      then have "vmemory vec1 + of_nat (?t * ?e + i) \<in> pool s1" by (rule own_pool [OF inv n(1)])
      then show ?thesis using r(8) by (simp add: others_kept_def add.assoc)
    qed
    have new: "read_bytes ?m ?d ?e = read_bytes (kmem s) elem ?e"
    proof -
      have "separate ?d ?e elem ?e"
        unfolding separate_def
      proof (intro allI impI notI)
        fix i j assume ij: "i < ?e" "j < ?e" "?d + of_nat i = elem + of_nat j"
        then show False using in_pool [OF ij(1)] elem [OF ij(2)] by metis
      qed
      then have "read_bytes ?m ?d ?e = read_bytes (kmem s1) elem ?e"
        by (rule memcpy_bytes_separate) (use e in simp)
      also have "\<dots> = read_bytes (kmem s) elem ?e"
        using elem r(8) by (intro read_bytes_cong) (simp add: others_kept_def)
      finally show ?thesis .
    qed
    have outside: "?m x = kmem s1 x" if "\<And>i. i < ?e \<Longrightarrow> x \<noteq> ?d + of_nat i" for x
      by (rule memcpy_bytes_outside) (use that in simp)
    have old: "vector_elems ?m vec1 = vector_elems (kmem s) vec"
    proof -
      have "separate (vmemory vec1 + of_nat 0) (?t * ?e) ?d ?e"
        by (rule separate_offsets) (use room n in simp_all)
      then have "separate ?d ?e (vmemory vec1) (unat (t_elems vec1) * unat (e_size vec1))"
        using separate_sym r(3,4) by simp
      from vector_elems_outside [OF this outside] show ?thesis using r(7) by simp
    qed
    have "vector_elems ?m ?vec = vector_elems ?m vec1 @ [read_bytes ?m ?d ?e]"
      unfolding vector_elems_def using t1 r(3,4) by simp
    moreover have "vec_ok s1 ?vec" using r(2,3,6) t1 unfolding vec_ok_def by simp
    moreover have "others_kept s (s1\<lparr>kmem := ?m\<rparr>) (vmemory vec) (vmemory vec1)"
      by (rule others_kept_write [OF r(2,5,8), of "?t * ?e" ?e])
        (use room r(4) outside in \<open>auto simp: add.assoc\<close>)
    ultimately show ?thesis using push old new r(4) by auto
  qed simp
qed

end

subsection \<open>Reading and removing elements\<close>

lemma read_bytes_offset:
  "read_bytes m (p + of_nat a) n = read_bytes m' (q + of_nat b) n \<longleftrightarrow>
   (\<forall>i<n. m (p + of_nat (a + i)) = m' (q + of_nat (b + i)))"
  by (auto simp: list_eq_iff_nth_eq add.assoc)

lemma elem_separate:
  assumes "separate d k (vmemory vec) (unat (t_elems vec) * unat (e_size vec))" "i < unat (t_elems vec)"
  shows "separate d k (vmemory vec + of_nat (i * unat (e_size vec))) (unat (e_size vec))"
  unfolding separate_def
proof (intro allI impI notI)
  fix a b assume ab: "a < k" "b < unat (e_size vec)"
    "d + of_nat a = vmemory vec + of_nat (i * unat (e_size vec)) + of_nat b"
  have "d + of_nat a = vmemory vec + of_nat (i * unat (e_size vec) + b)"
    using ab(3) by (simp add: add.assoc)
  moreover have "i * unat (e_size vec) + b < unat (t_elems vec) * unat (e_size vec)"
    by (rule elem_index_bound [OF assms(2) ab(2)])
  ultimately show False using assms(1) ab(1) unfolding separate_def by blast
qed

lemma vector_at_ok:
  assumes i: "i < unat (t_elems vec)" and buf: "buf \<noteq> 0" and e: "unat (e_size vec) < 2 ^ 30"
    and sep: "separate buf (unat (e_size vec)) (vmemory vec) (unat (t_elems vec) * unat (e_size vec))"
  shows "\<exists>m'. vector_at m vec (of_nat i) buf (e_size vec) = Some (m', 0) \<and>
    read_bytes m' buf (unat (e_size vec)) = vector_elems m vec ! i \<and>
    vector_elems m' vec = vector_elems m vec \<and>
    (\<forall>x. (\<forall>j<unat (e_size vec). x \<noteq> buf + of_nat j) \<longrightarrow> m' x = m x)"
proof -
  let ?e = "unat (e_size vec)"
  let ?m = "memcpy_bytes m buf (vmemory vec + of_nat (i * ?e)) ?e"
  have i64: "unat (of_nat i :: u64) = i"
    using less_trans [OF i unsigned_less [of "t_elems vec"]] by (intro unat_of_nat_u64) simp
  have "vector_valid_bounds vec (of_nat i) = 0"
    using i i64 by (simp add: vector_valid_bounds_def word_less_nat_alt)
  then have "vector_at m vec (of_nat i) buf (e_size vec) = Some (?m, 0)"
    using buf e memcpy_size [of "e_size vec" m] unfolding vector_at_def vector_address Let_def by simp
  moreover have "read_bytes ?m buf ?e = vector_elems m vec ! i"
    using memcpy_bytes_separate [OF elem_separate [OF sep i]] i e by simp
  moreover have out: "?m x = m x" if "\<And>j. j < ?e \<Longrightarrow> x \<noteq> buf + of_nat j" for x
    by (rule memcpy_bytes_outside) (use that in simp)
  moreover have "vector_elems ?m vec = vector_elems m vec"
    by (rule vector_elems_outside [OF sep out])
  ultimately show ?thesis by blast
qed

text \<open>The search finds the first element equal to the bytes at \<open>mem_val\<close>.\<close>

lemma pop_element_search_ok:
  assumes buf: "buf \<noteq> 0" and e: "unat (e_size vec) < 2 ^ 30"
    and sep: "separate buf (unat (e_size vec)) (vmemory vec) (unat (t_elems vec) * unat (e_size vec))"
    and val: "separate buf (unat (e_size vec)) mv (unat (e_size vec))"
    and n: "i + n = unat (t_elems vec)"
  shows "\<exists>m' r. pop_element_search m vec buf mv (e_size vec) i n = Some (m', 0, r) \<and>
    vector_elems m' vec = vector_elems m vec \<and>
    (\<forall>x. (\<forall>j<unat (e_size vec). x \<noteq> buf + of_nat j) \<longrightarrow> m' x = m x) \<and>
    (r = - 1 \<and> (\<forall>k. i \<le> k \<longrightarrow> k < unat (t_elems vec) \<longrightarrow>
         vector_elems m vec ! k \<noteq> read_bytes m mv (unat (e_size vec))) \<or>
     (\<exists>k. r = int k \<and> i \<le> k \<and> k < unat (t_elems vec) \<and>
        vector_elems m vec ! k = read_bytes m mv (unat (e_size vec)) \<and>
        (\<forall>j. i \<le> j \<longrightarrow> j < k \<longrightarrow> vector_elems m vec ! j \<noteq> read_bytes m mv (unat (e_size vec)))))"
  using n
proof (induction n arbitrary: i m)
  case 0
  then show ?case by auto
next
  case (Suc n)
  let ?e = "unat (e_size vec)"
  have i: "i < unat (t_elems vec)" using Suc.prems by simp
  obtain m1 where m1: "vector_at m vec (of_nat i) buf (e_size vec) = Some (m1, 0)"
    "read_bytes m1 buf ?e = vector_elems m vec ! i" "vector_elems m1 vec = vector_elems m vec"
    "\<And>x. (\<And>j. j < ?e \<Longrightarrow> x \<noteq> buf + of_nat j) \<Longrightarrow> m1 x = m x"
    using vector_at_ok [OF i buf e sep, of m] by blast
  have mv: "read_bytes m1 mv ?e = read_bytes m mv ?e"
  proof (rule read_bytes_cong)
    fix j assume "j < ?e"
    then have "mv + of_nat j \<noteq> buf + of_nat k" if "k < ?e" for k
      using val that unfolding separate_def by metis
    then show "m1 (mv + of_nat j) = m (mv + of_nat j)" by (rule m1(4))
  qed
  have cmp: "memcmp m1 buf mv (int_of_size (e_size vec)) = 0 \<longleftrightarrow> vector_elems m vec ! i = read_bytes m mv ?e"
    using int_of_size_nat [of "e_size vec"] e m1(2) mv
    by (simp add: memcmp_def memcmp_bytes_eq_0_iff)
  show ?case
  proof (cases "vector_elems m vec ! i = read_bytes m mv ?e")
    case True
    then have "pop_element_search m vec buf mv (e_size vec) i (Suc n) = Some (m1, 0, int i)"
      using m1(1) cmp by simp
    then show ?thesis using True i m1(3,4) by (intro exI [of _ m1] exI [of _ "int i"]) auto
  next
    case False
    then have step: "pop_element_search m vec buf mv (e_size vec) i (Suc n) =
        pop_element_search m1 vec buf mv (e_size vec) (Suc i) n"
      using m1(1) cmp by simp
    have i': "Suc i + n = unat (t_elems vec)" using Suc.prems by simp
    obtain m' r where m': "pop_element_search m1 vec buf mv (e_size vec) (Suc i) n = Some (m', 0, r)"
      "vector_elems m' vec = vector_elems m1 vec"
      "\<And>x. (\<And>j. j < ?e \<Longrightarrow> x \<noteq> buf + of_nat j) \<Longrightarrow> m' x = m1 x"
      "r = - 1 \<and> (\<forall>k. Suc i \<le> k \<longrightarrow> k < unat (t_elems vec) \<longrightarrow>
         vector_elems m1 vec ! k \<noteq> read_bytes m1 mv ?e) \<or>
       (\<exists>k. r = int k \<and> Suc i \<le> k \<and> k < unat (t_elems vec) \<and>
         vector_elems m1 vec ! k = read_bytes m1 mv ?e \<and>
         (\<forall>j. Suc i \<le> j \<longrightarrow> j < k \<longrightarrow> vector_elems m1 vec ! j \<noteq> read_bytes m1 mv ?e))"
      using Suc.IH [OF i', of m1] by blast
    have le: "i \<le> k \<longleftrightarrow> k = i \<or> Suc i \<le> k" for k by auto
    have out: "m' x = m x" if "\<forall>j<?e. x \<noteq> buf + of_nat j" for x using m1(4) m'(3) that by metis
    show ?thesis
      unfolding step m'(1)
      using m'(2,4) out False unfolding m1(3) mv le by (intro exI [of _ m'] exI [of _ r]) auto
  qed
qed

lemma remove1_first:
  assumes "k < length xs" "xs ! k = v" "\<forall>j<k. xs ! j \<noteq> v"
  shows "remove1 v xs = take k xs @ drop (Suc k) xs"
proof -
  have "xs = take k xs @ v # drop (Suc k) xs" using id_take_nth_drop [OF assms(1)] assms(2) by simp
  moreover have "v \<notin> set (take k xs)" using assms by (auto simp: in_set_conv_nth)
  ultimately show ?thesis by (metis remove1.simps(2) remove1_append)
qed

text \<open>The forward copy that closes the gap.\<close>

lemma shift_down:
  fixes m :: memory and p :: u64
  assumes "k < t" "t * e \<le> 2 ^ 63" "unat p + t * e < 2 ^ 64"
  defines "m' \<equiv> memcpy_bytes m (p + of_nat (k * e)) (p + of_nat (k * e) + of_nat e) ((t - k - 1) * e)"
  shows "i < k \<Longrightarrow> j < e \<Longrightarrow> m' (p + of_nat (i * e + j)) = m (p + of_nat (i * e + j))"
    and "k \<le> i \<Longrightarrow> i < t - 1 \<Longrightarrow> j < e \<Longrightarrow> m' (p + of_nat (i * e + j)) = m (p + of_nat (Suc i * e + j))"
    and "(\<And>i. i < t * e \<Longrightarrow> x \<noteq> p + of_nat i) \<Longrightarrow> m' x = m x"
proof -
  let ?n = "(t - k - 1) * e"
  have len: "k * e + e + ?n = t * e"
  proof -
    have "k + 1 + (t - k - 1) = t" using assms(1) by simp
    then show ?thesis by (metis add_mult_distrib mult_1)
  qed
  have d: "p + of_nat (k * e) + of_nat i = p + of_nat (k * e + i)" for i by (simp add: add.assoc)
  show "m' (p + of_nat (i * e + j)) = m (p + of_nat (i * e + j))" if "i < k" "j < e"
    unfolding m'_def
  proof (rule memcpy_bytes_outside)
    fix a assume a: "a < ?n"
    have "i * e + j < k * e" by (rule elem_index_bound [OF that])
    then have "i * e + j \<noteq> k * e + a" "i * e + j < 2 ^ 64" "k * e + a < 2 ^ 64" using a len assms(2) by auto
    then show "p + of_nat (i * e + j) \<noteq> p + of_nat (k * e) + of_nat a"
      unfolding d by (subst offset_eq_iff) simp_all
  qed
  show "m' (p + of_nat (i * e + j)) = m (p + of_nat (Suc i * e + j))" if "k \<le> i" "i < t - 1" "j < e"
  proof -
    have ij: "i * e + j = k * e + ((i - k) * e + j)"
      using mult_le_mono1 [OF that(1), of e] diff_mult_distrib [of i k e] by linarith
    have ij': "k * e + e + ((i - k) * e + j) = Suc i * e + j" using ij by simp
    have lt: "(i - k) * e + j < ?n" by (rule elem_index_bound) (use that in auto)
    have "m' (p + of_nat (k * e) + of_nat ((i - k) * e + j))
        = m (p + of_nat (k * e) + of_nat e + of_nat ((i - k) * e + j))"
      unfolding m'_def
    proof (rule memcpy_bytes_inside)
      fix a b assume ab: "a < b" "b < ?n"
      have "a \<noteq> e + b" "a < 2 ^ 64" "e + b < 2 ^ 64" using ab len assms(2) by auto
      then show "p + of_nat (k * e) + of_nat a \<noteq> p + of_nat (k * e) + of_nat e + of_nat b"
        using offset_eq_iff [of a "e + b" "p + of_nat (k * e)"] by (simp add: add.assoc)
    qed (use lt len assms(2) in auto)
    then show ?thesis unfolding ij ij' [symmetric] by (simp add: add.assoc)
  qed
  show "m' x = m x" if "\<And>i. i < t * e \<Longrightarrow> x \<noteq> p + of_nat i"
    unfolding m'_def
  proof (rule memcpy_bytes_outside)
    fix a assume "a < ?n"
    then show "x \<noteq> p + of_nat (k * e) + of_nat a" unfolding d by (intro that) (use len in simp)
  qed
qed

context zalloc_provider begin

text \<open>A temporary buffer is apart from the vector, whose elements it leaves alone.\<close>

lemma zalloc_buffer:
  assumes ok: "vec_ok s vec" and sz: "sz \<noteq> 0" "unat sz < 2 ^ 30"
  obtains (fail) "kz s sz = Some (s, 0)"
  | (buffer) s1 buf where "kz s sz = Some (s1, buf)" "buf \<noteq> 0" "vec_ok s1 vec"
      "vector_elems (kmem s1) vec = vector_elems (kmem s) vec"
      "separate buf (unat sz) (vmemory vec) (unat (t_elems vec) * unat (e_size vec))"
      "\<exists>n. unat sz \<le> n \<and> own s1 buf n" "others_kept s s1 0 buf" "buf \<noteq> vmemory vec"
proof -
  have inv: "inv s" using ok by (simp add: vec_ok_def)
  obtain s1 q where s1: "kz s sz = Some (s1, q)"
    "q = 0 \<and> s1 = s \<or> alloc_step inv own pool s s1 0 q (unat sz)"
    using zalloc [OF inv sz] by blast
  show ?thesis
  proof (cases "q = 0")
    case True
    then show ?thesis using fail s1 by (auto simp: alloc_step_def)
  next
    case False
    then have st: "alloc_step inv own pool s s1 0 q (unat sz)" using s1(2) by simp
    then obtain n' where n': "unat sz \<le> n'" "own s1 q n'" and inv1: "inv s1" by (auto simp: alloc_step_def)
    have kept: "others_kept s s1 0 q" using st by (simp add: alloc_step_def others_kept_def)
    show ?thesis
    proof (cases "vmemory vec = 0")
      case True
      then have "\<not> own s (vmemory vec) n" for n using own_range [OF inv, of 0 n] by auto
      then have t0: "tm_elems vec = 0" "unat (t_elems vec) = 0" using ok by (auto simp: vec_ok_def)
      then have "vec_ok s1 vec" "vector_elems (kmem s1) vec = vector_elems (kmem s) vec"
        "separate q (unat sz) (vmemory vec) (unat (t_elems vec) * unat (e_size vec))"
        using ok True inv1 by (auto simp: vec_ok_def vector_elems_def separate_def)
      then show ?thesis using buffer [of s1 q] s1(1) False n' kept True by auto
    next
      case vm: False
      then obtain n where n: "own s (vmemory vec) n" "unat (tm_elems vec) * unat (e_size vec) \<le> n"
        using ok by (auto simp: vec_ok_def)
      have o: "own s1 (vmemory vec) n" "vmemory vec \<noteq> q"
        "read_bytes (kmem s1) (vmemory vec) n = read_bytes (kmem s) (vmemory vec) n"
        using kept n(1) vm unfolding others_kept_def by auto
      have te: "unat (t_elems vec) * unat (e_size vec) \<le> n"
        using n(2) ok by (meson vec_ok_def le_trans mult_le_mono1)
      have "vec_ok s1 vec" using ok inv1 o(1) n(2) by (auto simp: vec_ok_def)
      moreover have "vector_elems (kmem s1) vec = vector_elems (kmem s) vec"
      proof (rule vector_elems_cong)
        fix i assume "i < unat (t_elems vec) * unat (e_size vec)"
        then have "i < n" using te by simp
        then show "kmem s1 (vmemory vec + of_nat i) = kmem s (vmemory vec + of_nat i)"
          using arg_cong [OF o(3), of "\<lambda>xs. xs ! i"] by simp
      qed simp_all
      moreover have "separate q n' (vmemory vec) n"
        using own_separate [OF inv1 n'(2) o(1)] o(2) by simp
      then have "separate q (unat sz) (vmemory vec) (unat (t_elems vec) * unat (e_size vec))"
        by (rule separate_mono) (use n'(1) te in simp_all)
      ultimately show ?thesis using buffer [of s1 q] s1(1) False n' kept o(2) by auto
    qed
  qed
qed

lemma vec_ok_pop: "vec_ok s vec \<Longrightarrow> t_elems vec \<noteq> 0 \<Longrightarrow> vec_ok s (vec\<lparr>t_elems := t_elems vec - 1\<rparr>)"
  unfolding vec_ok_def
  by (auto simp: unat_minus_one)

lemma vector_pop_element_removes:
  assumes ok: "vec_ok s vec" and sz: "unat (t_elems vec) * unat (e_size vec) < 2 ^ 30"
    and val: "\<And>i. i < unat (e_size vec) \<Longrightarrow> mv + of_nat i \<notin> pool s"
  defines "v \<equiv> read_bytes (kmem s) mv (unat (e_size vec))" and "xs \<equiv> vector_elems (kmem s) vec"
  shows "kz s (e_size vec) = Some (s, 0) \<and>
      vector_pop_element kz s vec mv (e_size vec) = Some (s, vec, - ENOMEM) \<or>
    (\<exists>s' vec' res. vector_pop_element kz s vec mv (e_size vec) = Some (s', vec', res) \<and>
       res = (if v \<in> set xs then 0 else - EIO) \<and> vec_ok s' vec' \<and>
       vector_elems (kmem s') vec' = remove1 v xs)"
proof -
  let ?e = "unat (e_size vec)" and ?t = "unat (t_elems vec)"
  have e: "0 < ?e" "?e < 2 ^ 30" and inv: "inv s" using ok by (auto simp: vec_ok_def)
  have e0: "e_size vec \<noteq> 0" using e(1) by auto
  show ?thesis
  proof (rule zalloc_buffer [OF ok e0 e(2)])
    assume "kz s (e_size vec) = Some (s, 0)"
    then show ?thesis by (simp add: vector_pop_element_def Let_def)
  next
    fix s1 buf
    assume b: "kz s (e_size vec) = Some (s1, buf)" "buf \<noteq> 0" "vec_ok s1 vec"
      "vector_elems (kmem s1) vec = vector_elems (kmem s) vec"
      "separate buf ?e (vmemory vec) (?t * ?e)"
      "\<exists>n. ?e \<le> n \<and> own s1 buf n" "others_kept s s1 0 buf" "buf \<noteq> vmemory vec"
    have inv1: "inv s1" using b(3) by (simp add: vec_ok_def)
    have pool: "pool s1 = pool s" "\<And>x. x \<notin> pool s \<Longrightarrow> kmem s1 x = kmem s x"
      using b(7) by (auto simp: others_kept_def)
    obtain n where n: "?e \<le> n" "own s1 buf n" using b(6) by blast
    have v1: "read_bytes (kmem s1) mv ?e = v"
      unfolding v_def by (rule read_bytes_cong) (use pool val in simp)
    have "separate buf ?e mv ?e"
      unfolding separate_def
    proof (intro allI impI notI)
      fix i j assume ij: "i < ?e" "j < ?e" "buf + of_nat i = mv + of_nat j"
      have "buf + of_nat i \<in> pool s1" by (rule own_pool [OF inv1 n(2)]) (use ij(1) n(1) in simp)
      then show False using val [OF ij(2)] ij(3) pool(1) by simp
    qed
    from pop_element_search_ok [OF b(2) e(2) b(5) this, of 0 ?t "kmem s1"]
    obtain m' r where m': "pop_element_search (kmem s1) vec buf mv (e_size vec) 0 ?t = Some (m', 0, r)"
      "vector_elems m' vec = xs"
      "\<And>x. (\<And>j. j < ?e \<Longrightarrow> x \<noteq> buf + of_nat j) \<Longrightarrow> m' x = kmem s1 x"
      "r = - 1 \<and> (\<forall>k<?t. xs ! k \<noteq> v) \<or>
       (\<exists>k. r = int k \<and> k < ?t \<and> xs ! k = v \<and> (\<forall>j<k. xs ! j \<noteq> v))"
      unfolding v1 b(4) xs_def by auto
    have lxs: "length xs = ?t" by (simp add: xs_def)
    let ?s2 = "s1\<lparr>kmem := m'\<rparr>"
    have step: "vector_pop_element kz s vec mv (e_size vec) =
        (if r = - 1 then Some (?s2, vec, - EIO)
         else if size_of_int r = t_elems vec - 1 then
           let (vec', res') = vector_pop vec in Some (?s2, vec', res')
         else do {
           let to_delete = vmemory vec + size_of_int r * e_size vec;
           let next_elem = to_delete + e_size vec;
           let total_elements_to_copy = t_elems vec - size_of_int r - 1;
           m'' \<leftarrow> memcpy m' to_delete next_elem (int_of_size (total_elements_to_copy * e_size vec));
           Some (?s2\<lparr>kmem := m''\<rparr>, vec\<lparr>t_elems := t_elems vec - 1\<rparr>, 0)
         })"
      using b(1,2) m'(1) by (simp add: vector_pop_element_def Let_def vector_count_def)
    from m'(4) show ?thesis
    proof (elim disjE exE conjE)
      assume r: "r = - 1" "\<forall>k<?t. xs ! k \<noteq> v"
      then have "v \<notin> set xs" using lxs by (auto simp: in_set_conv_nth)
      then show ?thesis using step r(1) b(3) m'(2) by (simp add: remove1_idem)
    next
      fix k assume k: "r = int k" "k < ?t" "xs ! k = v" "\<forall>j<k. xs ! j \<noteq> v"
      have vin: "v \<in> set xs" using k(2,3) lxs by (metis nth_mem)
      have rem: "remove1 v xs = take k xs @ drop (Suc k) xs"
        by (rule remove1_first) (use k lxs in simp_all)
      have t0: "t_elems vec \<noteq> 0" using k(2) by auto
      have k64: "unat (size_of_int r) = k"
        using less_trans [OF k(2) unsigned_less [of "t_elems vec"]] unfolding size_of_int_def k(1)
        by simp
      have t1: "unat (t_elems vec - 1) = ?t - 1" using t0 by (simp add: unat_minus_one)
      let ?vec = "vec\<lparr>t_elems := t_elems vec - 1\<rparr>"
      have ok2: "vec_ok ?s2 ?vec" using vec_ok_pop [OF b(3) t0] by simp
      have last: "size_of_int r = t_elems vec - 1 \<longleftrightarrow> k = ?t - 1"
        using k64 t1 by (metis word_unat_eq_iff)
      show ?thesis
      proof (cases "k = ?t - 1")
        case True
        have "vector_elems m' ?vec = take (?t - 1) (vector_elems m' vec)"
          by (simp add: vector_elems_def t1 take_map)
        then have "vector_elems m' ?vec = take (?t - 1) xs" by (simp add: m'(2))
        moreover have "drop (Suc k) xs = []" using True k(2) lxs by simp
        ultimately show ?thesis
          using step k(1) True last t0 ok2 vin rem by (simp add: vector_pop_def)
      next
        case False
        have sub: "unat (t_elems vec - size_of_int r - 1) = ?t - k - 1"
        proof -
          have "size_of_int r \<le> t_elems vec" using k64 k(2) by (simp add: word_le_nat_alt)
          then have u: "unat (t_elems vec - size_of_int r) = ?t - k" using k64 unat_sub by metis
          then have "t_elems vec - size_of_int r \<noteq> 0" using k(2) by auto
          then show ?thesis using u by (simp add: unat_minus_one)
        qed
        have "(?t - k - 1) * ?e \<le> ?t * ?e" by (intro mult_le_mono1) simp
        then have small: "(?t - k - 1) * ?e < 2 ^ 30" using sz by (rule le_less_trans)
        have prod: "(t_elems vec - size_of_int r - 1) * e_size vec = of_nat ((?t - k - 1) * ?e)"
          unfolding sub [symmetric] by simp
        have bytes: "unat ((t_elems vec - size_of_int r - 1) * e_size vec) = (?t - k - 1) * ?e"
          unfolding prod by (rule unat_of_nat_u64) (rule less_trans [OF small], simp)
        have b31: "unat ((t_elems vec - size_of_int r - 1) * e_size vec) < 2 ^ 31"
          unfolding bytes by (rule less_trans [OF small]) simp
        let ?p = "vmemory vec"
        have dest: "?p + size_of_int r * e_size vec = ?p + of_nat (k * ?e)"
        proof -
          have "size_of_int r = of_nat k" by (simp add: size_of_int_def k(1))
          then show ?thesis by simp
        qed
        let ?m = "memcpy_bytes m' (?p + of_nat (k * ?e)) (?p + of_nat (k * ?e) + of_nat ?e) ((?t - k - 1) * ?e)"
        have res: "vector_pop_element kz s vec mv (e_size vec) = Some (?s2\<lparr>kmem := ?m\<rparr>, ?vec, 0)"
          using step k(1) False last memcpy_size [OF b31, of m'] unfolding bytes
          by (simp add: Let_def size_of_int_def)
        have vm: "vmemory vec \<noteq> 0"
        proof
          assume "vmemory vec = 0"
          moreover have "\<not> own s 0 n" for n using own_range [OF inv, of 0 n] by auto
          ultimately have "tm_elems vec = 0" using ok by (auto simp: vec_ok_def)
          then show False using ok k(2) by (auto simp: vec_ok_def)
        qed
        obtain nv where nv: "own s1 (vmemory vec) nv" "unat (tm_elems vec) * ?e \<le> nv" "nv < 2 ^ 63"
          using own_extent [OF b(3) vm] by blast
        have te: "?t * ?e \<le> nv" using nv(2) ok by (meson vec_ok_def le_trans mult_le_mono1)
        have up: "unat ?p + ?t * ?e < 2 ^ 64" using own_range [OF inv1 nv(1)] te by simp
        have tb: "?t * ?e \<le> 2 ^ 63" using sz by simp
        note shift = shift_down [OF k(2) tb up, where m = m']
        have "vector_elems ?m ?vec = take k xs @ drop (Suc k) xs"
        proof (rule nth_equalityI)
          show "length (vector_elems ?m ?vec) = length (take k xs @ drop (Suc k) xs)"
            using t1 k(2) lxs by simp
          fix i assume "i < length (vector_elems ?m ?vec)"
          then have i: "i < ?t - 1" using t1 by simp
          show "vector_elems ?m ?vec ! i = (take k xs @ drop (Suc k) xs) ! i"
          proof (cases "i < k")
            case True
            have "vector_elems ?m ?vec ! i = vector_elems m' vec ! i"
              using i t1 True k(2) shift(1) [of i]
              by (simp add: read_bytes_offset del: of_nat_mult of_nat_add)
            then show ?thesis using True k(2) lxs m'(2) by (simp add: nth_append)
          next
            case ge: False
            have "vector_elems ?m ?vec ! i = vector_elems m' vec ! Suc i"
              using i t1 ge shift(2) [of i]
              by (simp add: read_bytes_offset del: of_nat_mult of_nat_add)
            then show ?thesis using ge k(2) i lxs m'(2) by (simp add: nth_append)
          qed
        qed
        then show ?thesis using res vin rem ok2 by simp
      qed
    qed
  qed
qed

end

subsection \<open>Bubble sort\<close>

text \<open>The reordering of \<open>vector_reorder\<close> on a list.\<close>

definition bubble_swap :: "('a \<Rightarrow> 'a \<Rightarrow> int) \<Rightarrow> 'a list \<Rightarrow> nat \<Rightarrow> 'a list" where
  "bubble_swap c xs j =
     (if c (xs ! j) (xs ! Suc j) > 0 then xs[j := xs ! Suc j, Suc j := xs ! j] else xs)"

primrec bubble_inner :: "('a \<Rightarrow> 'a \<Rightarrow> int) \<Rightarrow> 'a list \<Rightarrow> nat \<Rightarrow> nat \<Rightarrow> 'a list" where
  "bubble_inner c xs j 0 = xs"
| "bubble_inner c xs j (Suc n) = bubble_inner c (bubble_swap c xs j) (Suc j) n"

primrec bubble_outer :: "('a \<Rightarrow> 'a \<Rightarrow> int) \<Rightarrow> 'a list \<Rightarrow> nat \<Rightarrow> nat \<Rightarrow> 'a list" where
  "bubble_outer c xs i 0 = xs"
| "bubble_outer c xs i (Suc n) = bubble_outer c (bubble_inner c xs 0 (length xs - i - 1)) (Suc i) n"

definition bubble_sort :: "('a \<Rightarrow> 'a \<Rightarrow> int) \<Rightarrow> 'a list \<Rightarrow> 'a list" where
  "bubble_sort c xs = bubble_outer c xs 0 (length xs - 1)"

lemma length_bubble_swap [simp]: "length (bubble_swap c xs j) = length xs"
  by (simp add: bubble_swap_def)

lemma length_bubble_inner [simp]: "length (bubble_inner c xs j n) = length xs"
  by (induction n arbitrary: xs j) simp_all

lemma mset_bubble_swap: "Suc j < length xs \<Longrightarrow> mset (bubble_swap c xs j) = mset xs"
  by (simp add: bubble_swap_def mset_swap)

lemma mset_bubble_inner: "j + n < length xs \<Longrightarrow> mset (bubble_inner c xs j n) = mset xs"
  by (induction n arbitrary: xs j) (simp_all add: mset_bubble_swap)

lemma mset_bubble_outer: "i + n < length xs \<Longrightarrow> mset (bubble_outer c xs i n) = mset xs"
  by (induction n arbitrary: xs i) (simp_all add: mset_bubble_inner)

text \<open>A callback that compares: it never asks to swap both ways, and its order is transitive.\<close>

definition compares :: "('a \<Rightarrow> 'a \<Rightarrow> int) \<Rightarrow> bool" where
  "compares c \<longleftrightarrow> (\<forall>a b. c a b > 0 \<longrightarrow> c b a \<le> 0) \<and>
     (\<forall>a b d. c a b \<le> 0 \<longrightarrow> c b d \<le> 0 \<longrightarrow> c a d \<le> 0)"

lemma bubble_swap_ordered:
  assumes c: "compares c" and j: "Suc j < length xs" and le: "\<forall>a<j. c (xs ! a) (xs ! j) \<le> 0"
  shows "\<forall>a<Suc j. c (bubble_swap c xs j ! a) (bubble_swap c xs j ! Suc j) \<le> 0"
proof (intro allI impI)
  fix a assume a: "a < Suc j"
  show "c (bubble_swap c xs j ! a) (bubble_swap c xs j ! Suc j) \<le> 0"
  proof (cases "c (xs ! j) (xs ! Suc j) > 0")
    case True
    then have "c (xs ! Suc j) (xs ! j) \<le> 0" using c unfolding compares_def by blast
    then show ?thesis using a j le True by (cases "a = j") (simp_all add: bubble_swap_def)
  next
    case False
    then have le': "c (xs ! j) (xs ! Suc j) \<le> 0" by simp
    have "c (xs ! a) (xs ! Suc j) \<le> 0"
    proof (cases "a = j")
      case False
      then have "c (xs ! a) (xs ! j) \<le> 0" using a le by simp
      then show ?thesis using le' c unfolding compares_def by blast
    qed (use le' in simp)
    then show ?thesis using False by (simp add: bubble_swap_def)
  qed
qed

lemma bubble_swap_above: "Suc j < k \<Longrightarrow> bubble_swap c xs j ! k = xs ! k"
  by (simp add: bubble_swap_def)

lemma bubble_swap_source:
  assumes "Suc j < length xs"
  shows "\<exists>a'\<le>max a (Suc j). bubble_swap c xs j ! a = xs ! a'"
proof (cases "c (xs ! j) (xs ! Suc j) > 0")
  case True
  then show ?thesis
    using assms by (intro exI [of _ "if a = j then Suc j else if a = Suc j then j else a"])
      (simp add: bubble_swap_def nth_list_update)
next
  case False
  then show ?thesis by (intro exI [of _ a]) (simp add: bubble_swap_def)
qed

lemma bubble_inner_max:
  assumes c: "compares c"
  shows "j + n < length xs \<Longrightarrow> \<forall>a<j. c (xs ! a) (xs ! j) \<le> 0 \<Longrightarrow>
    (\<forall>a<j + n. c (bubble_inner c xs j n ! a) (bubble_inner c xs j n ! (j + n)) \<le> 0) \<and>
    (\<forall>k>j + n. bubble_inner c xs j n ! k = xs ! k) \<and>
    (\<forall>a\<le>j + n. \<exists>a'\<le>j + n. bubble_inner c xs j n ! a = xs ! a')"
proof (induction n arbitrary: xs j)
  case 0
  then show ?case by auto
next
  case (Suc n)
  let ?s = "bubble_swap c xs j"
  have j: "Suc j < length xs" using Suc.prems(1) by simp
  have IH: "(\<forall>a<Suc j + n. c (bubble_inner c ?s (Suc j) n ! a) (bubble_inner c ?s (Suc j) n ! (Suc j + n)) \<le> 0) \<and>
    (\<forall>k>Suc j + n. bubble_inner c ?s (Suc j) n ! k = ?s ! k) \<and>
    (\<forall>a\<le>Suc j + n. \<exists>a'\<le>Suc j + n. bubble_inner c ?s (Suc j) n ! a = ?s ! a')"
    by (rule Suc.IH) (use Suc.prems(1) bubble_swap_ordered [OF c j Suc.prems(2)] in simp_all)
  have src: "\<exists>a'\<le>j + Suc n. bubble_inner c xs j (Suc n) ! a = xs ! a'" if a: "a \<le> j + Suc n" for a
  proof -
    obtain b where b: "b \<le> Suc j + n" "bubble_inner c ?s (Suc j) n ! a = ?s ! b"
      using IH a by auto
    obtain d where "d \<le> max b (Suc j)" "?s ! b = xs ! d"
      using bubble_swap_source [OF j] by blast
    then show ?thesis using b by (intro exI [of _ d]) (simp add: max_def split: if_splits)
  qed
  have "\<forall>k>j + Suc n. bubble_inner c xs j (Suc n) ! k = xs ! k"
    using IH bubble_swap_above [of j _ c xs] by simp
  then show ?case using IH src by simp
qed

lemma bubble_outer_sorted:
  assumes c: "compares c" and "i + n + 1 = length xs"
    and "\<forall>b<length xs. \<forall>a<b. length xs - i \<le> b \<longrightarrow> c (xs ! a) (xs ! b) \<le> 0"
  shows "\<forall>b<length xs. \<forall>a<b. c (bubble_outer c xs i n ! a) (bubble_outer c xs i n ! b) \<le> 0"
  using assms(2,3)
proof (induction n arbitrary: xs i)
  case 0
  then show ?case by auto
next
  case (Suc n)
  let ?m = "length xs - i - 1"
  let ?ys = "bubble_inner c xs 0 ?m"
  have m: "0 + ?m < length xs" using Suc.prems(1) by simp
  note inner = bubble_inner_max [OF c m, simplified]
  note bm1 = conjunct1 [OF inner] and bm2 = conjunct1 [OF conjunct2 [OF inner]]
    and bm3 = conjunct2 [OF conjunct2 [OF inner]]
  have "c (?ys ! a) (?ys ! b) \<le> 0" if ab: "b < length xs" "a < b" "length xs - Suc i \<le> b" for a b
  proof (cases "b = ?m")
    case True
    then show ?thesis using bm1 ab by simp
  next
    case False
    then have b: "?m < b" using ab by simp
    then have yb: "?ys ! b = xs ! b" using bm2 ab by simp
    obtain a' where a': "a' < b" "?ys ! a = xs ! a'"
    proof (cases "a \<le> ?m")
      case True
      then obtain a' where "a' \<le> ?m" "?ys ! a = xs ! a'" using bm3 by auto
      then show ?thesis using that [of a'] b by simp
    next
      case False
      then show ?thesis using that [of a] bm2 ab by simp
    qed
    have "length xs - i \<le> b" using b by simp
    then show ?thesis using Suc.prems(2) ab(1) a' yb by simp
  qed
  then show ?case using Suc.IH [of "Suc i" ?ys] Suc.prems(1) by simp
qed

lemma bubble_sort_correct:
  assumes "compares c"
  shows "mset (bubble_sort c xs) = mset xs" "sorted_wrt (\<lambda>a b. c a b \<le> 0) (bubble_sort c xs)"
proof -
  show m: "mset (bubble_sort c xs) = mset xs"
    by (cases xs) (simp_all add: bubble_sort_def mset_bubble_outer)
  have len: "length (bubble_sort c xs) = length xs" using m by (rule mset_eq_length)
  show "sorted_wrt (\<lambda>a b. c a b \<le> 0) (bubble_sort c xs)"
  proof (cases xs)
    case Nil
    then show ?thesis by (simp add: bubble_sort_def)
  next
    case (Cons x xs')
    then show ?thesis
      using bubble_outer_sorted [OF assms, of 0 "length xs - 1" xs] len
      by (auto simp: sorted_wrt_iff_nth_less bubble_sort_def)
  qed
qed

text \<open>The loops in memory do what the list functions do.\<close>

lemma vector_overwrite_ok:
  assumes i: "i < unat (t_elems vec)" and e: "unat (e_size vec) < 2 ^ 30"
    and te: "unat (t_elems vec) * unat (e_size vec) \<le> 2 ^ 63"
    and t31: "unat (t_elems vec) \<le> 2 ^ 31"
    and sep: "separate src (unat (e_size vec)) (vmemory vec) (unat (t_elems vec) * unat (e_size vec))"
  shows "\<exists>m'. vector_overwrite m vec (int_of_size (of_nat i)) src (e_size vec) = Some (m', 0) \<and>
    vector_elems m' vec = (vector_elems m vec)[i := read_bytes m src (unat (e_size vec))] \<and>
    (\<forall>x. (\<forall>j<unat (t_elems vec) * unat (e_size vec). x \<noteq> vmemory vec + of_nat j) \<longrightarrow> m' x = m x)"
proof -
  let ?e = "unat (e_size vec)" and ?t = "unat (t_elems vec)"
  let ?d = "vmemory vec + of_nat (i * ?e)"
  let ?m = "memcpy_bytes m ?d src ?e"
  have i64: "unat (of_nat i :: u64) = i"
    using less_trans [OF i unsigned_less [of "t_elems vec"]] by (intro unat_of_nat_u64) simp
  have idx: "size_of_int (int_of_size (of_nat i)) = of_nat i" using i t31 i64 by (intro size_of_int_of_size) simp
  have res: "vector_overwrite m vec (int_of_size (of_nat i)) src (e_size vec) = Some (?m, 0)"
    using i i64 e memcpy_size [of "e_size vec" m] unfolding vector_overwrite_def vector_address Let_def idx
    by (simp add: vector_valid_bounds_def word_less_nat_alt)
  have out: "?m x = m x" if "\<And>j. j < ?e \<Longrightarrow> x \<noteq> ?d + of_nat j" for x
    by (rule memcpy_bytes_outside) (use that in simp)
  have new: "read_bytes ?m ?d ?e = read_bytes m src ?e"
    by (rule memcpy_bytes_separate) (use elem_separate [OF sep i] separate_sym e in auto)
  have other: "read_bytes ?m (vmemory vec + of_nat (k * ?e)) ?e = read_bytes m (vmemory vec + of_nat (k * ?e)) ?e"
    if k: "k < ?t" "k \<noteq> i" for k
  proof -
    have le: "a * ?e + ?e \<le> b * ?e" "b * ?e + ?e \<le> 2 ^ 63" if "a < b" "b < ?t" for a b
      using mult_le_mono1 [of "Suc a" b ?e] mult_le_mono1 [of "Suc b" ?t ?e] that te by auto
    have "separate ?d ?e (vmemory vec + of_nat (k * ?e)) ?e"
    proof (cases "i < k")
      case True
      show ?thesis by (rule separate_offsets) (use le [OF True k(1)] in simp_all)
    next
      case False
      then have "k < i" using k(2) by simp
      have "separate (vmemory vec + of_nat (k * ?e)) ?e ?d ?e"
        by (rule separate_offsets) (use le [OF \<open>k < i\<close> i] in simp_all)
      then show ?thesis using separate_sym by metis
    qed
    then show ?thesis by (rule read_bytes_memcpy_other)
  qed
  have "vector_elems ?m vec = (vector_elems m vec)[i := read_bytes m src ?e]"
    by (rule nth_equalityI) (use new other i in \<open>auto simp: nth_list_update simp del: of_nat_mult\<close>)
  moreover have "?m x = m x" if x: "\<forall>j<?t * ?e. x \<noteq> vmemory vec + of_nat j" for x
  proof (rule out)
    fix j assume "j < ?e"
    then have "x \<noteq> vmemory vec + of_nat (i * ?e + j)" using x elem_index_bound [OF i] by blast
    then show "x \<noteq> ?d + of_nat j" by (simp add: add.assoc)
  qed
  ultimately show ?thesis using res by blast
qed

text \<open>
  A callback that depends on the bytes of the two elements only, and one round of the inner loop:
  read two neighbours, and swap them when the callback says so.
\<close>

definition reads_elements :: "(memory \<Rightarrow> u64 \<Rightarrow> u64 \<Rightarrow> int) \<Rightarrow> (u8 list \<Rightarrow> u8 list \<Rightarrow> int) \<Rightarrow> nat \<Rightarrow> bool" where
  "reads_elements f c e \<longleftrightarrow> (\<forall>m p q. f m p q = c (read_bytes m p e) (read_bytes m q e))"

definition buffers_apart :: "vector \<Rightarrow> u64 \<Rightarrow> u64 \<Rightarrow> bool" where
  "buffers_apart vec p q \<longleftrightarrow> p \<noteq> 0 \<and> q \<noteq> 0 \<and>
     separate p (unat (e_size vec)) q (unat (e_size vec)) \<and>
     separate p (unat (e_size vec)) (vmemory vec) (unat (t_elems vec) * unat (e_size vec)) \<and>
     separate q (unat (e_size vec)) (vmemory vec) (unat (t_elems vec) * unat (e_size vec))"

lemma buffer_kept:
  assumes "separate p n q k" "\<And>x. (\<forall>j<k. x \<noteq> q + of_nat j) \<Longrightarrow> m' x = m x"
  shows "read_bytes m' p n = read_bytes m p n"
  by (rule read_bytes_cong) (use assms in \<open>auto simp: separate_def\<close>)

definition reorder_frame :: "vector \<Rightarrow> u64 \<Rightarrow> u64 \<Rightarrow> memory \<Rightarrow> memory \<Rightarrow> bool" where
  "reorder_frame vec p q m m' \<longleftrightarrow>
     (\<forall>x. (\<forall>j<unat (e_size vec). x \<noteq> p + of_nat j) \<longrightarrow> (\<forall>j<unat (e_size vec). x \<noteq> q + of_nat j) \<longrightarrow>
        (\<forall>j<unat (t_elems vec) * unat (e_size vec). x \<noteq> vmemory vec + of_nat j) \<longrightarrow> m' x = m x)"

lemma reorder_step:
  assumes ap: "buffers_apart vec p q" and e: "unat (e_size vec) < 2 ^ 30"
    and te: "unat (t_elems vec) * unat (e_size vec) \<le> 2 ^ 63"
    and t31: "unat (t_elems vec) \<le> 2 ^ 31"
    and j: "Suc j < unat (t_elems vec)"
    and f: "reads_elements f c (unat (e_size vec))"
  shows "\<exists>m'. reorder_inner f m vec p q j (Suc n) = reorder_inner f m' vec p q (Suc j) n \<and>
    vector_elems m' vec = bubble_swap c (vector_elems m vec) j \<and> reorder_frame vec p q m m'"
proof -
  let ?e = "unat (e_size vec)" and ?t = "unat (t_elems vec)" and ?xs = "vector_elems m vec"
  have a: "p \<noteq> 0" "q \<noteq> 0" "separate p ?e q ?e" "separate p ?e (vmemory vec) (?t * ?e)"
    "separate q ?e (vmemory vec) (?t * ?e)" using ap by (simp_all add: buffers_apart_def)
  have j': "j < ?t" using j by simp
  have j1: "(of_nat j + 1 :: u64) = of_nat (Suc j)" by simp
  obtain m1 where m1: "vector_at m vec (of_nat j) p (e_size vec) = Some (m1, 0)"
    "read_bytes m1 p ?e = ?xs ! j" "vector_elems m1 vec = ?xs"
    "\<And>x. (\<forall>j<?e. x \<noteq> p + of_nat j) \<Longrightarrow> m1 x = m x"
    using vector_at_ok [OF j' a(1) e a(4), of m] by blast
  obtain m2 where m2: "vector_at m1 vec (of_nat (Suc j)) q (e_size vec) = Some (m2, 0)"
    "read_bytes m2 q ?e = ?xs ! Suc j" "vector_elems m2 vec = ?xs"
    "\<And>x. (\<forall>j<?e. x \<noteq> q + of_nat j) \<Longrightarrow> m2 x = m1 x"
    using vector_at_ok [OF j a(2) e a(5), of m1] m1(3) by metis
  have p2: "read_bytes m2 p ?e = ?xs ! j" using buffer_kept [OF a(3) m2(4)] m1(2) by simp
  have fc: "f m2 p q = c (?xs ! j) (?xs ! Suc j)" using f p2 m2(2) by (simp add: reads_elements_def)
  show ?thesis
  proof (cases "c (?xs ! j) (?xs ! Suc j) > 0")
    case False
    then have "reorder_inner f m vec p q j (Suc n) = reorder_inner f m2 vec p q (Suc j) n"
      using m1(1) m2(1) fc by (simp add: j1 del: of_nat_Suc)
    moreover have "vector_elems m2 vec = bubble_swap c ?xs j" using m2(3) False by (simp add: bubble_swap_def)
    moreover have "reorder_frame vec p q m m2" using m1(4) m2(4) by (simp add: reorder_frame_def)
    ultimately show ?thesis by blast
  next
    case True
    obtain m3 where m3: "vector_overwrite m2 vec (int_of_size (of_nat j)) q (e_size vec) = Some (m3, 0)"
      "vector_elems m3 vec = ?xs[j := ?xs ! Suc j]"
      "\<And>x. (\<forall>j<?t * ?e. x \<noteq> vmemory vec + of_nat j) \<Longrightarrow> m3 x = m2 x"
      using vector_overwrite_ok [OF j' e te t31 a(5), of m2] m2(2,3) by metis
    have p3: "read_bytes m3 p ?e = ?xs ! j" using buffer_kept [OF a(4) m3(3)] p2 by simp
    obtain m4 where m4: "vector_overwrite m3 vec (int_of_size (of_nat (Suc j))) p (e_size vec) = Some (m4, 0)"
      "vector_elems m4 vec = ?xs[j := ?xs ! Suc j, Suc j := ?xs ! j]"
      "\<And>x. (\<forall>j<?t * ?e. x \<noteq> vmemory vec + of_nat j) \<Longrightarrow> m4 x = m3 x"
      using vector_overwrite_ok [OF j e te t31 a(4), of m3] m3(2) p3 by metis
    have "reorder_inner f m vec p q j (Suc n) = reorder_inner f m4 vec p q (Suc j) n"
      using True m1(1) m2(1) m3(1) m4(1) fc by (simp add: j1 del: of_nat_Suc)
    moreover have "vector_elems m4 vec = bubble_swap c ?xs j" using m4(2) True by (simp add: bubble_swap_def)
    moreover have "reorder_frame vec p q m m4"
      using m1(4) m2(4) m3(3) m4(3) by (simp add: reorder_frame_def)
    ultimately show ?thesis by blast
  qed
qed

lemma reorder_inner_ok:
  assumes ap: "buffers_apart vec p q" and e: "unat (e_size vec) < 2 ^ 30"
    and te: "unat (t_elems vec) * unat (e_size vec) \<le> 2 ^ 63"
    and t31: "unat (t_elems vec) \<le> 2 ^ 31"
    and f: "reads_elements f c (unat (e_size vec))"
  shows "j + n < unat (t_elems vec) \<Longrightarrow>
    \<exists>m'. reorder_inner f m vec p q j n = Some (m', True) \<and>
      vector_elems m' vec = bubble_inner c (vector_elems m vec) j n \<and> reorder_frame vec p q m m'"
proof (induction n arbitrary: m j)
  case 0
  then show ?case by (simp add: reorder_frame_def)
next
  case (Suc n)
  have j: "Suc j < unat (t_elems vec)" using Suc.prems by simp
  obtain m1 where m1: "reorder_inner f m vec p q j (Suc n) = reorder_inner f m1 vec p q (Suc j) n"
    "vector_elems m1 vec = bubble_swap c (vector_elems m vec) j" "reorder_frame vec p q m m1"
    using reorder_step [OF ap e te t31 j f, of m n] by blast
  obtain m2 where "reorder_inner f m1 vec p q (Suc j) n = Some (m2, True)"
    "vector_elems m2 vec = bubble_inner c (vector_elems m1 vec) (Suc j) n" "reorder_frame vec p q m1 m2"
    using Suc.IH [of "Suc j" m1] Suc.prems by auto
  then show ?case using m1 by (auto simp: reorder_frame_def simp del: reorder_inner.simps(2))
qed

lemma reorder_outer_ok:
  assumes ap: "buffers_apart vec p q" and e: "unat (e_size vec) < 2 ^ 30"
    and te: "unat (t_elems vec) * unat (e_size vec) \<le> 2 ^ 63"
    and t31: "unat (t_elems vec) \<le> 2 ^ 31"
    and f: "reads_elements f c (unat (e_size vec))"
  shows "i + n < unat (t_elems vec) \<Longrightarrow>
    \<exists>m'. reorder_outer f m vec p q (unat (t_elems vec)) i n = Some m' \<and>
      vector_elems m' vec = bubble_outer c (vector_elems m vec) i n \<and> reorder_frame vec p q m m'"
proof (induction n arbitrary: m i)
  case 0
  then show ?case by (simp add: reorder_frame_def)
next
  case (Suc n)
  have j: "0 + (unat (t_elems vec) - i - 1) < unat (t_elems vec)" using Suc.prems by simp
  obtain m1 where m1: "reorder_inner f m vec p q 0 (unat (t_elems vec) - i - 1) = Some (m1, True)"
    "vector_elems m1 vec = bubble_inner c (vector_elems m vec) 0 (unat (t_elems vec) - i - 1)"
    "reorder_frame vec p q m m1"
    using reorder_inner_ok [OF ap e te t31 f j, of m] by blast
  obtain m2 where "reorder_outer f m1 vec p q (unat (t_elems vec)) (Suc i) n = Some m2"
    "vector_elems m2 vec = bubble_outer c (vector_elems m1 vec) (Suc i) n" "reorder_frame vec p q m1 m2"
    using Suc.IH [of "Suc i" m1] Suc.prems by auto
  then show ?case using m1 by (auto simp: reorder_frame_def)
qed

context zalloc_provider begin

lemma vector_reorder_sorts:
  assumes ok: "vec_ok s vec" and t31: "unat (t_elems vec) \<le> 2 ^ 31" and f: "reads_elements f c (unat (e_size vec))"
  shows "\<exists>s'. vector_reorder kz f s vec = Some s' \<and> vec_ok s' vec \<and>
    ((kz s (e_size vec) = Some (s, 0) \<or>
        (\<exists>s1 p. kz s (e_size vec) = Some (s1, p) \<and> p \<noteq> 0 \<and> kz s1 (e_size vec) = Some (s1, 0))) \<and>
       vector_elems (kmem s') vec = vector_elems (kmem s) vec \<or>
     vector_elems (kmem s') vec = bubble_sort c (vector_elems (kmem s) vec))"
proof -
  let ?e = "unat (e_size vec)" and ?t = "unat (t_elems vec)"
  have e: "0 < ?e" "?e < 2 ^ 30" and t: "?t \<le> unat (tm_elems vec)" using ok by (auto simp: vec_ok_def)
  have e0: "e_size vec \<noteq> 0" using e(1) by auto
  show ?thesis
  proof (cases "?t < 2")
    case True
    then have "bubble_sort c (vector_elems (kmem s) vec) = vector_elems (kmem s) vec"
      by (cases "?t = 0") (simp_all add: bubble_sort_def)
    then show ?thesis using True ok by (simp add: vector_reorder_def vector_count_def)
  next
    case t2: False
    have rv: "vector_reorder kz f s vec = do {
        (s1, p) \<leftarrow> kz s (e_size vec); (s2, q) \<leftarrow> kz s1 (e_size vec);
        if p = 0 \<or> q = 0 then Some s2
        else do { m \<leftarrow> reorder_outer f (kmem s2) vec p q ?t 0 (?t - 1); Some (s2\<lparr>kmem := m\<rparr>) } }"
      using t2 by (simp add: vector_reorder_def vector_count_def Let_def)
    have "vmemory vec \<noteq> 0"
      using ok t t2 own_range [of s 0] by (auto simp: vec_ok_def)
    show ?thesis
    proof (rule zalloc_buffer [OF ok e0 e(2)])
      assume p: "kz s (e_size vec) = Some (s, 0)"
      obtain s2 q where "kz s (e_size vec) = Some (s2, q)" using p by blast
      then show ?thesis using rv p ok by auto
    next
      fix s1 p
      assume p: "kz s (e_size vec) = Some (s1, p)" "p \<noteq> 0" "vec_ok s1 vec"
        "vector_elems (kmem s1) vec = vector_elems (kmem s) vec"
        "separate p ?e (vmemory vec) (?t * ?e)" "\<exists>n. ?e \<le> n \<and> own s1 p n"
        "others_kept s s1 0 p" "p \<noteq> vmemory vec"
      obtain n where n: "?e \<le> n" "own s1 p n" using p(6) by blast
      show ?thesis
      proof (rule zalloc_buffer [OF p(3) e0 e(2)])
        assume "kz s1 (e_size vec) = Some (s1, 0)"
        then show ?thesis using rv p by auto
      next
        fix s2 q
        assume q: "kz s1 (e_size vec) = Some (s2, q)" "q \<noteq> 0" "vec_ok s2 vec"
          "vector_elems (kmem s2) vec = vector_elems (kmem s1) vec"
          "separate q ?e (vmemory vec) (?t * ?e)" "\<exists>n. ?e \<le> n \<and> own s2 q n"
          "others_kept s1 s2 0 q" "q \<noteq> vmemory vec"
        obtain k where k: "?e \<le> k" "own s2 q k" using q(6) by blast
        have inv2: "inv s2" using q(3) by (simp add: vec_ok_def)
        have "own s2 p n" "p \<noteq> q" using q(7) n(2) p(2) unfolding others_kept_def by blast+
        then have "separate p n q k" using own_separate [OF inv2] k(2) by blast
        then have "buffers_apart vec p q"
          using p(2,5) q(2,5) n(1) k(1) by (auto simp: buffers_apart_def intro: separate_mono)
        moreover have "?t * ?e \<le> 2 ^ 63"
          using own_extent [OF ok \<open>vmemory vec \<noteq> 0\<close>] t
          by (meson le_trans less_imp_le mult_le_mono1)
        ultimately obtain m' where
          "reorder_outer f (kmem s2) vec p q ?t 0 (?t - 1) = Some m'"
          "vector_elems m' vec = bubble_outer c (vector_elems (kmem s2) vec) 0 (?t - 1)"
          using reorder_outer_ok [OF _ e(2) _ t31 f, of p q 0 "?t - 1" "kmem s2"] t2 by auto
        then show ?thesis using rv p q t2 by (simp add: bubble_sort_def)
      qed
    qed
  qed
qed

end

subsection \<open>Vectors of the kernel\<close>

text \<open>The invariant of a vector in the kernel's heap.\<close>

definition kernel_vector :: "'s kernel_scheme \<Rightarrow> vector \<Rightarrow> bool" where
  "kernel_vector s vec \<longleftrightarrow> kernel_inv s \<and> physical_pools s \<and>
     0 < unat (e_size vec) \<and> unat (e_size vec) < 2 ^ 30 \<and> unat (t_elems vec) \<le> unat (tm_elems vec) \<and>
     (vmemory vec = 0 \<and> tm_elems vec = 0 \<or>
      (\<exists>n. owns s (vmemory vec) n \<and> unat (tm_elems vec) * unat (e_size vec) \<le> n))"

lemma kernel_vector_iff: "kheap.vec_ok s vec \<longleftrightarrow> kernel_vector s vec"
  by (simp add: kheap.vec_ok_def kernel_vector_def)

text \<open>The bytes at a pointer lie outside the heaps, on a stack or in the image of the kernel.\<close>

definition outside_pools :: "'s kernel_scheme \<Rightarrow> u64 \<Rightarrow> nat \<Rightarrow> bool" where
  "outside_pools s p n \<longleftrightarrow> (\<forall>i<n. p + of_nat i \<notin> pool_addresses s)"

text \<open>Room for \<open>k\<close> more elements: the vector has it already, or \<open>krealloc\<close> is defined and gives it.\<close>

definition room_for :: "'s kernel_scheme \<Rightarrow> vector \<Rightarrow> u64 \<Rightarrow> bool" where
  "room_for s vec k \<longleftrightarrow> t_elems vec + k < tm_elems vec \<or>
     (let bytes = (t_reserved_elements vec + (t_elems vec + k)) * e_size vec in
      (unat (t_reserved_elements vec) + unat (t_elems vec) + unat k) * unat (e_size vec) < 2 ^ 30 \<and>
      (vmemory vec = 0 \<or> can_realloc s (vmemory vec) bytes) \<and>
      (case krealloc s (vmemory vec) bytes of None \<Rightarrow> False | Some (s', p) \<Rightarrow> p \<noteq> 0))"

lemma room_for_defined: "room_for s vec k \<Longrightarrow> kheap.resize_defined s vec k"
  unfolding room_for_def kheap.resize_defined_def by (auto simp: Let_def)

lemma room_for_resize: "room_for s vec k \<Longrightarrow> vector_resize krealloc s vec k \<noteq> Some (s', vec', - ENOMEM)"
  unfolding room_for_def vector_resize_def
  by (auto simp: Let_def bind_eq_Some_conv split: option.splits if_splits)

lemma vector_push_kernel:
  assumes "kernel_vector s vec" "unat (t_elems vec) < 2 ^ 31 - 1" and room: "room_for s vec 1"
    and elem: "outside_pools s elem (unat (e_size vec))"
  shows "\<exists>s' vec'. vector_push krealloc s vec elem = Some (s', vec', int (unat (t_elems vec))) \<and>
    kernel_vector s' vec' \<and> e_size vec' = e_size vec \<and>
    vector_elems (kmem s') vec' =
      vector_elems (kmem s) vec @ [read_bytes (kmem s) elem (unat (e_size vec))] \<and>
    kheap.others_kept s s' (vmemory vec) (vmemory vec')"
proof -
  have "vector_push krealloc s vec elem \<noteq> Some (s, vec\<lparr>vmemory := 0\<rparr>, - ENOMEM)"
  proof
    assume p: "vector_push krealloc s vec elem = Some (s, vec\<lparr>vmemory := 0\<rparr>, - ENOMEM)"
    have t64: "unat (t_elems vec) + unat (1 :: u64) < 2 ^ 64" using assms(2) by simp
    show False
    proof (rule kheap.vector_resize_cases [OF assms(1) [folded kernel_vector_iff] _ t64 room_for_defined [OF room]])
      assume "vector_resize krealloc s vec 1 = Some (s, vec\<lparr>vmemory := 0\<rparr>, - ENOMEM)"
      then show False using room_for_resize [OF room] by blast
    next
      fix s' vec'
      assume r: "vector_resize krealloc s vec 1 = Some (s', vec', 0)" "t_elems vec' = t_elems vec"
      then have "0 \<le> int_of_size (t_elems vec')" using assms(2) int_of_size_nat [of "t_elems vec"] by simp
      then show False using p r by (auto simp: vector_push_def Let_def bind_eq_Some_conv)
    qed simp
  qed
  then show ?thesis
    using kheap.vector_push_appends [OF assms(1) [folded kernel_vector_iff] assms(2) room_for_defined [OF room], of elem] elem
    unfolding outside_pools_def kernel_vector_iff by simp
qed

text \<open>Memory outside the pools is apart from a vector in them.\<close>

lemma vector_apart_from_outside:
  assumes "kernel_vector s vec" "outside_pools s q n"
  shows "separate q n (vmemory vec) (unat (t_elems vec) * unat (e_size vec))"
proof (cases "unat (t_elems vec) = 0")
  case True
  then show ?thesis by (simp add: separate_def)
next
  case False
  then obtain k where k: "owns s (vmemory vec) k" "unat (tm_elems vec) * unat (e_size vec) \<le> k"
    and "unat (t_elems vec) \<le> unat (tm_elems vec)" "kernel_inv s"
    using assms(1) unfolding kernel_vector_def by fastforce
  then have te: "unat (t_elems vec) * unat (e_size vec) \<le> k" by (meson le_trans mult_le_mono1)
  show ?thesis
    unfolding separate_def
  proof (intro allI impI notI)
    fix i j assume ij: "i < n" "j < unat (t_elems vec) * unat (e_size vec)"
      "q + of_nat i = vmemory vec + of_nat j"
    have "vmemory vec + of_nat j \<in> pool_addresses s"
      by (rule owns_in_pool_addresses [OF \<open>kernel_inv s\<close> k(1)]) (use ij(2) te in simp)
    then show False using assms(2) ij(1,3) unfolding outside_pools_def by metis
  qed
qed

lemma small_element: "0 < unat e \<Longrightarrow> unat e \<le> 4096 \<Longrightarrow> blocks_for e = 1 \<and> unat e < 2 ^ 31"
proof -
  assume e: "0 < unat e" "unat e \<le> 4096"
  then have "(unat e + 4095) div 4096 = 1" by (intro div_nat_eqI) simp_all
  then show ?thesis using e blocks_for_eq [of e] by simp
qed

lemma read_bytes_outside_pools:
  assumes "kheap.others_kept s s' p q" "outside_pools s a n"
  shows "read_bytes (kmem s') a n = read_bytes (kmem s) a n"
  by (rule read_bytes_cong) (use assms in \<open>simp add: kheap.others_kept_def outside_pools_def\<close>)

text \<open>A vector of two words in the first page of the example kernel.\<close>

definition vec8 :: vector where
  "vec8 = \<lparr>vmemory = 0x1000, vflags = 0, e_size = 8, t_elems = 2, tm_elems = 10, t_reserved_elements = 10\<rparr>"

lemma kernel8_owns: "owns kernel8 0x1000 4096"
proof -
  from heap_rep_malloc_result [OF heap8_rep heap8_free_run_1]
  have "heap_rep [0 \<mapsto> 1] (heap_entries (malloc_result heap8 1 0))" by simp
  then have "owns_in (malloc_result heap8 1 0) 0x1000 4096"
    by (rule owns_inI [of _ _ 0]) (simp_all add: heap_block_to_address_def)
  then show ?thesis by (simp add: owns_def heap_list_def kernel8_def)
qed


lemma vec8_valid: "kernel_vector kernel8 vec8"
  using kernel8_ready kernel8_owns by (auto simp: kernel_vector_def kernel_ready_def vec8_def)

lemma kernel8_zero: "read_bytes (kmem kernel8) p n = replicate n 0"
  by (simp add: kernel8_def list_eq_iff_nth_eq)

lemma vec8_facts: "t_elems vec8 = 2" "e_size vec8 = 8" "vmemory vec8 = 0x1000" "tm_elems vec8 = 10"
  by (simp_all add: vec8_def)

lemma vec8_room: "room_for kernel8 vec8 1" "unat (t_elems vec8) < 2 ^ 31 - 1"
  by (simp_all add: room_for_def vec8_facts)

lemma vec8_elems: "vector_elems (kmem kernel8) vec8 = replicate 2 (replicate 8 0)"
  by (rule nth_equalityI) (simp_all add: vec8_facts kernel8_zero)

lemma kernel8_low: "a + n < 0x1000 \<Longrightarrow> outside_pools kernel8 (of_nat a) n"
proof -
  assume a: "a + n < 0x1000"
  have "\<not> 0x1000 \<le> (of_nat (a + i) :: u64)" if "i < n" for i
  proof -
    have "unat (of_nat (a + i) :: u64) = a + i" using a that by (intro unat_of_nat_u64) simp
    then show ?thesis using a that by (simp add: word_le_nat_alt del: of_nat_add)
  qed
  then show ?thesis by (auto simp: outside_pools_def pool_addresses_def heap_list_def kernel8_def)
qed

lemmas kernel8_buffers =
  kernel8_low [of 16 8, simplified] kernel8_low [of 32 8, simplified]

subsection \<open>Properties\<close>

text \<open>
  C33. \<^bold>\<open>A push appends.\<close> When there is room, \<open>vector_push\<close> over the kernel's \<open>krealloc\<close> returns the
  old number of elements, and the list of elements of the new vector is the old list followed by
  the bytes at the pointer. Allocations of others and memory outside the heaps keep their bytes. There is room when
  the vector has a free place already; or when the \<open>krealloc\<close> to the new size succeeds, the size is below \<open>2 ^ 30\<close>, and the vector either has no
  memory yet or its chain of blocks stops in its own allocation. The element lies outside the heaps, and there are fewer than \<open>2 ^ 31 - 1\<close>
  elements. A \<open>krealloc\<close> that fails loses the elements, and one whose chain runs into a neighbour frees the neighbour: both are excluded here.
\<close>

theorem vector_push_refines_append:
  assumes "kernel_vector s vec" "unat (t_elems vec) < 2 ^ 31 - 1" "room_for s vec 1"
    and "outside_pools s elem (unat (e_size vec))"
  shows "\<exists>s' vec'. vector_push krealloc s vec elem = Some (s', vec', int (unat (t_elems vec))) \<and>
    kernel_vector s' vec' \<and>
    vector_elems (kmem s') vec' =
      vector_elems (kmem s) vec @ [read_bytes (kmem s) elem (unat (e_size vec))] \<and>
    (\<forall>x. x \<notin> pool_addresses s \<longrightarrow> kmem s' x = kmem s x) \<and>
    (\<forall>p n. owns s p n \<longrightarrow> p \<noteq> vmemory vec \<longrightarrow>
       owns s' p n \<and> read_bytes (kmem s') p n = read_bytes (kmem s) p n)"
proof -
  obtain s' vec' where "vector_push krealloc s vec elem = Some (s', vec', int (unat (t_elems vec)))"
    "kernel_vector s' vec'" "kheap.others_kept s s' (vmemory vec) (vmemory vec')"
    "vector_elems (kmem s') vec' =
      vector_elems (kmem s) vec @ [read_bytes (kmem s) elem (unat (e_size vec))]"
    using vector_push_kernel [OF assms] by (elim exE conjE) (rule that)
  then show ?thesis
    by (intro exI [of _ s'] exI [of _ vec']) (simp add: kheap.others_kept_def)
qed

theorem vector_push_refines_append_witness:
  "\<exists>s' vec'. vector_push krealloc kernel8 vec8 0x10 = Some (s', vec', 2) \<and>
     vector_elems (kmem s') vec' = replicate 2 (replicate 8 0) @ [replicate 8 0]"
  using vector_push_refines_append [OF vec8_valid vec8_room(2,1), of "0x10"] kernel8_buffers
  by (simp add: vec8_facts vec8_elems kernel8_zero) blast

text \<open>
  \<^bold>\<open>A pushed element can be read back.\<close> \<open>vector_back\<close> after \<open>vector_push\<close> returns \<open>0\<close> and leaves the
  pushed bytes in the caller's buffer.
\<close>

theorem vector_push_back_roundtrip:
  assumes "kernel_vector s vec" "unat (t_elems vec) < 2 ^ 31 - 1" "room_for s vec 1" "buf \<noteq> 0"
    and "outside_pools s elem (unat (e_size vec))"
    and "outside_pools s buf (unat (e_size vec))"
  shows "\<exists>s' vec' m'. vector_push krealloc s vec elem = Some (s', vec', int (unat (t_elems vec))) \<and>
    vector_back (kmem s') vec' buf (e_size vec) = Some (m', 0) \<and>
    read_bytes m' buf (unat (e_size vec)) = read_bytes (kmem s) elem (unat (e_size vec)) \<and>
    vector_elems m' vec' = vector_elems (kmem s') vec'"
proof -
  obtain s' vec' where p: "vector_push krealloc s vec elem = Some (s', vec', int (unat (t_elems vec)))"
    "kernel_vector s' vec'" "e_size vec' = e_size vec"
    "vector_elems (kmem s') vec' =
      vector_elems (kmem s) vec @ [read_bytes (kmem s) elem (unat (e_size vec))]"
    "kheap.others_kept s s' (vmemory vec) (vmemory vec')"
    using vector_push_kernel [OF assms(1-3,5)] by (elim exE conjE) (rule that)
  have t: "unat (t_elems vec') = Suc (unat (t_elems vec))"
    using arg_cong [OF p(4), of length] by simp
  then have "t_elems vec' - 1 = of_nat (unat (t_elems vec))"
    using unat_minus_one [of "t_elems vec'"] by (metis diff_Suc_1 nat.distinct(1) unat_0 word_unat_eq_iff unsigned_of_nat take_bit_nat_eq_self unsigned_less word_of_nat_eq_iff of_nat_unat ucast_id)
  moreover have "separate buf (unat (e_size vec')) (vmemory vec') (unat (t_elems vec') * unat (e_size vec'))"
    by (rule vector_apart_from_outside [OF p(2)])
      (use assms(6) p(3,5) in \<open>simp add: outside_pools_def pool_addresses_def kheap.others_kept_def\<close>)
  ultimately obtain m' where "vector_back (kmem s') vec' buf (e_size vec) = Some (m', 0)"
    "read_bytes m' buf (unat (e_size vec)) = vector_elems (kmem s') vec' ! unat (t_elems vec)"
    "vector_elems m' vec' = vector_elems (kmem s') vec'"
    using vector_at_ok [of "unat (t_elems vec)" vec' buf "kmem s'"] t p(2,3) assms(4)
    unfolding vector_back_def kernel_vector_def by auto
  then show ?thesis using p(1,4) by (intro exI [of _ s'] exI [of _ vec'] exI [of _ m']) (simp add: nth_append)
qed

theorem vector_push_back_roundtrip_witness:
  "\<exists>s' vec' m'. vector_push krealloc kernel8 vec8 0x10 = Some (s', vec', 2) \<and>
     vector_back (kmem s') vec' 0x20 8 = Some (m', 0) \<and> read_bytes m' 0x20 8 = replicate 8 0"
  using vector_push_back_roundtrip [OF vec8_valid vec8_room(2,1), of "0x20" "0x10"] kernel8_buffers
  by (simp add: vec8_facts kernel8_zero) blast

text \<open>
  \<^bold>\<open>Removing an element.\<close> With a page to spare for the temporary buffer, \<open>vector_pop_element\<close>
  removes the first element equal to the bytes at the pointer and returns \<open>0\<close>; when there is none
  it returns \<open>EIO\<close> and the elements stay.
\<close>

theorem vector_pop_element_refines_remove1:
  assumes "kernel_vector s vec" "unat (e_size vec) \<le> 4096" "0 < free_pages s"
    and "unat (t_elems vec) * unat (e_size vec) < 2 ^ 30"
    and "outside_pools s val (unat (e_size vec))"
  defines "v \<equiv> read_bytes (kmem s) val (unat (e_size vec))" and "xs \<equiv> vector_elems (kmem s) vec"
  shows "\<exists>s' vec' res. vector_pop_element kzalloc s vec val (e_size vec) = Some (s', vec', res) \<and>
    res = (if v \<in> set xs then 0 else - EIO) \<and> kernel_vector s' vec' \<and>
    vector_elems (kmem s') vec' = remove1 v xs"
proof -
  have "blocks_for (e_size vec) = 1 \<and> unat (e_size vec) < 2 ^ 31"
    using assms(1,2) by (intro small_element) (simp_all add: kernel_vector_def)
  moreover have "kernel_inv s" using assms(1) by (simp add: kernel_vector_def)
  ultimately have "kzalloc s (e_size vec) \<noteq> Some (s, 0)"
    using kzalloc_block [of s "e_size vec"] assms(3) by auto
  then show ?thesis
    using kheap.vector_pop_element_removes [OF assms(1) [folded kernel_vector_iff] assms(4), of val] assms(5)
    unfolding v_def xs_def outside_pools_def kernel_vector_iff by blast
qed

theorem vector_pop_element_refines_remove1_witness:
  "\<exists>s' vec' res. vector_pop_element kzalloc kernel8 vec8 0x10 8 = Some (s', vec', res) \<and>
     res = 0 \<and> kernel_vector s' vec' \<and> vector_elems (kmem s') vec' = [replicate 8 0]"
proof -
  have "remove1 v (replicate 2 v) = [v]" for v :: "u8 list" by (simp add: numeral_2_eq_2)
  then show ?thesis
    using vector_pop_element_refines_remove1 [OF vec8_valid, of "0x10"] kernel8_buffers kernel8_pages(1)
    by (simp add: vec8_facts vec8_elems kernel8_zero)
qed

text \<open>
  C34. \<^bold>\<open>Reordering sorts.\<close> With two pages to spare and at most \<open>2 ^ 31\<close> elements of at most a page, \<open>vector_reorder\<close> permutes the elements so that the
  callback asks for no further swap between any two of them, when the callback compares the bytes
  of the elements by a transitive order.
\<close>

theorem vector_reorder_sorted_permutation:
  assumes "kernel_vector s vec" "unat (e_size vec) \<le> 4096" "2 \<le> free_pages s"
    and "reads_elements f c (unat (e_size vec))" "compares c" and "unat (t_elems vec) \<le> 2 ^ 31"
  shows "\<exists>s'. vector_reorder kzalloc f s vec = Some s' \<and> kernel_vector s' vec \<and>
    mset (vector_elems (kmem s') vec) = mset (vector_elems (kmem s) vec) \<and>
    sorted_wrt (\<lambda>a b. c a b \<le> 0) (vector_elems (kmem s') vec)"
proof -
  have b: "blocks_for (e_size vec) = 1" "unat (e_size vec) < 2 ^ 31"
    using small_element [of "e_size vec"] assms(1,2) by (simp_all add: kernel_vector_def)
  have inv: "kernel_inv s" using assms(1) by (simp add: kernel_vector_def)
  obtain s1 p where s1: "kzalloc s (e_size vec) = Some (s1, p)" "kernel_inv s1" "p \<noteq> 0"
    "free_pages s = Suc (free_pages s1)"
    using kzalloc_block [OF inv _ b] assms(3) by auto
  have "kzalloc s1 (e_size vec) \<noteq> Some (s1, 0)" "kzalloc s (e_size vec) \<noteq> Some (s, 0)"
    using kzalloc_block [OF s1(2) _ b] s1 assms(3) by auto
  then obtain s' where s': "vector_reorder kzalloc f s vec = Some s'" "kernel_vector s' vec"
    "vector_elems (kmem s') vec = bubble_sort c (vector_elems (kmem s) vec)"
    using kheap.vector_reorder_sorts [OF assms(1) [folded kernel_vector_iff] assms(6,4)] s1(1)
    unfolding kernel_vector_iff by auto
  then show ?thesis using bubble_sort_correct [OF assms(5)] by auto
qed

text \<open>The order of the first bytes of two elements.\<close>

definition first_byte_order :: "u8 list \<Rightarrow> u8 list \<Rightarrow> int" where
  "first_byte_order xs ys = int (unat (hd xs)) - int (unat (hd ys))"

theorem vector_reorder_sorted_permutation_witness:
  "\<exists>s'. vector_reorder kzalloc (\<lambda>m p q. first_byte_order (read_bytes m p 8) (read_bytes m q 8)) kernel8 vec8 = Some s' \<and>
     sorted_wrt (\<lambda>a b. first_byte_order a b \<le> 0) (vector_elems (kmem s') vec8)"
proof -
  have "reads_elements (\<lambda>m p q. first_byte_order (read_bytes m p 8) (read_bytes m q 8)) first_byte_order
    (unat (e_size vec8))" by (simp add: reads_elements_def vec8_facts)
  moreover have "compares first_byte_order" by (auto simp: compares_def first_byte_order_def)
  ultimately show ?thesis
    using vector_reorder_sorted_permutation [OF vec8_valid] kernel8_pages(1) by (fastforce simp: vec8_facts)
qed

text \<open>
  \<^bold>\<open>A failed resize loses the vector.\<close> When the allocator has no room, \<open>vector_resize\<close> stores its
  null result over the only pointer to the elements and keeps the old capacity: the vector that
  remains has \<open>tm_elems\<close> elements at address \<open>0\<close> and is no longer valid.
\<close>

theorem vector_resize_failure_loses_elements:
  assumes "kernel_vector s vec" "tm_elems vec \<le> t_elems vec + k" "0 < tm_elems vec"
    and "kre s (vmemory vec) ((t_reserved_elements vec + (t_elems vec + k)) * e_size vec) = Some (s', 0)"
  shows "vector_resize kre s vec k = Some (s', vec\<lparr>vmemory := 0\<rparr>, - ENOMEM) \<and>
    \<not> kernel_vector s' (vec\<lparr>vmemory := 0\<rparr>)"
proof -
  have "vector_resize kre s vec k = Some (s', vec\<lparr>vmemory := 0\<rparr>, - ENOMEM)"
    using assms(2,4) by (simp add: vector_resize_def Let_def)
  moreover have "\<not> kernel_vector s' (vec\<lparr>vmemory := 0\<rparr>)"
    using owns_range [of s' 0] assms(3) by (auto simp: kernel_vector_def)
  ultimately show ?thesis by simp
qed

theorem vector_resize_failure_loses_elements_witness:
  "vector_resize (\<lambda>s p n. Some (s, 0)) kernel8 vec8 8 = Some (kernel8, vec8\<lparr>vmemory := 0\<rparr>, - ENOMEM)"
  using vector_resize_failure_loses_elements [OF vec8_valid, of 8 "\<lambda>s p n. Some (s, 0)"]
  by (simp add: vec8_facts)

end
