(* ===== verification/CString.thy ===== *)
theory CString
  imports Prelude
begin

section \<open>C strings: string.c\<close>

text \<open>
  The routines of \<open>string/string.c\<close>. An object of \<open>char\<close>s is the list of its bytes, and a pointer
  into it is the rest of the list from there; a string ends at the first zero byte. A read or a
  write behind the end of the object is \<open>None\<close>. \<open>char\<close> is signed, as the compiler has it, and a
  counter of type \<open>int\<close> that would leave its range is \<open>None\<close> as well.
\<close>

abbreviation (input) INT_MAX :: int where "INT_MAX \<equiv> 2147483647"
abbreviation (input) INT_MIN :: int where "INT_MIN \<equiv> - 2147483648"

definition tolower :: "u8 \<Rightarrow> u8" where
  "tolower s1 = (if sint s1 \<ge> 65 \<and> sint s1 \<le> 90 then s1 + 32 else s1)"

fun strlen_from :: "u8 list \<Rightarrow> int \<Rightarrow> int option" where
  "strlen_from [] i = None"
| "strlen_from (c # cs) i =
     (if c = 0 then Some i else if i = INT_MAX then None else strlen_from cs (i + 1))"

definition strlen :: "u8 list \<Rightarrow> int option" where
  "strlen ptr = strlen_from ptr 0"

text \<open>\<open>strnlen\<close> and \<open>strnlen_terminator\<close> share their loop: the number of bytes before a stop byte.\<close>

fun span_length :: "(u8 \<Rightarrow> bool) \<Rightarrow> u8 list \<Rightarrow> nat \<Rightarrow> nat option" where
  "span_length stops cs 0 = Some 0"
| "span_length stops [] (Suc n) = None"
| "span_length stops (c # cs) (Suc n) =
     (if stops c then Some 0 else map_option Suc (span_length stops cs n))"

definition strnlen :: "u8 list \<Rightarrow> int \<Rightarrow> int option" where
  "strnlen ptr limit = map_option int (span_length (\<lambda>c. c = 0) ptr (nat limit))"

definition strnlen_terminator :: "u8 list \<Rightarrow> int \<Rightarrow> u8 \<Rightarrow> int option" where
  "strnlen_terminator str limit terminator =
     map_option int (span_length (\<lambda>c. c = 0 \<or> c = terminator) str (nat limit))"

fun istrncmp_loop :: "u8 list \<Rightarrow> u8 list \<Rightarrow> nat \<Rightarrow> int option" where
  "istrncmp_loop s1 s2 0 = Some 0"
| "istrncmp_loop (u1 # s1) (u2 # s2) (Suc n) =
     (if u1 \<noteq> u2 \<and> tolower u1 \<noteq> tolower u2 then Some (uint u1 - uint u2)
      else if u1 = 0 then Some 0 else istrncmp_loop s1 s2 n)"
| "istrncmp_loop s1 s2 (Suc n) = None"

definition istrncmp :: "u8 list \<Rightarrow> u8 list \<Rightarrow> int \<Rightarrow> int option" where
  "istrncmp s1 s2 n = istrncmp_loop s1 s2 (nat n)"

fun strncmp_loop :: "u8 list \<Rightarrow> u8 list \<Rightarrow> nat \<Rightarrow> int option" where
  "strncmp_loop s1 s2 0 = Some 0"
| "strncmp_loop (u1 # s1) (u2 # s2) (Suc n) =
     (if u1 \<noteq> u2 then Some (uint u1 - uint u2) else if u1 = 0 then Some 0 else strncmp_loop s1 s2 n)"
| "strncmp_loop s1 s2 (Suc n) = None"

definition strncmp :: "u8 list \<Rightarrow> u8 list \<Rightarrow> int \<Rightarrow> int option" where
  "strncmp str1 str2 n = strncmp_loop str1 str2 (nat n)"

text \<open>The copies: the new contents of the destination object.\<close>

fun strcpy :: "u8 list \<Rightarrow> u8 list \<Rightarrow> u8 list option" where
  "strcpy [] src = None"
| "strcpy dest [] = None"
| "strcpy (d # dest) (c # src) =
     (if c = 0 then Some (0 # dest) else map_option ((#) c) (strcpy dest src))"

fun strncpy_loop :: "u8 list \<Rightarrow> u8 list \<Rightarrow> nat \<Rightarrow> u8 list option" where
  "strncpy_loop [] src n = None"
| "strncpy_loop (d # dest) src 0 = Some (0 # dest)"
| "strncpy_loop (d # dest) [] (Suc n) = None"
| "strncpy_loop (d # dest) (c # src) (Suc n) =
     (if c = 0 then Some (0 # dest) else map_option ((#) c) (strncpy_loop dest src n))"

text \<open>With \<open>count \<le> 0\<close> the loop body is skipped and the terminator is still written.\<close>

definition strncpy :: "u8 list \<Rightarrow> u8 list \<Rightarrow> int \<Rightarrow> u8 list option" where
  "strncpy dest src count = strncpy_loop dest src (nat (count - 1))"

definition isdigit :: "u8 \<Rightarrow> bool" where
  "isdigit c \<longleftrightarrow> sint c \<ge> 48 \<and> sint c \<le> 57"

definition tonumericdigit :: "u8 \<Rightarrow> int" where
  "tonumericdigit c = sint c - 48"

text \<open>
  \<open>itoa\<close> works on the negated number, so that \<open>INT_MIN\<close> has a negation too. The digits go into the
  static buffer \<open>text\<close> (here \<open>buf\<close>) from its end; the result is the buffer and the offset of the string in it.
\<close>

definition put_before :: "u8 list \<Rightarrow> nat \<Rightarrow> int \<Rightarrow> (u8 list \<times> nat) option" where
  "put_before buf loc c = (if loc = 0 then None else Some (buf[loc - 1 := word_of_int c], loc - 1))"

lemma sdiv_10_less: "i \<noteq> 0 \<Longrightarrow> \<bar>i sdiv 10\<bar> < \<bar>i\<bar>" for i :: int
proof -
  assume "i \<noteq> 0"
  then have "\<bar>i\<bar> div 10 < \<bar>i\<bar>" by (intro int_div_less_self) simp_all
  moreover have "\<bar>i sdiv 10\<bar> = \<bar>i\<bar> div 10" using \<open>i \<noteq> 0\<close> by (simp add: signed_divide_int_def abs_mult)
  ultimately show ?thesis by simp
qed

function itoa_loop :: "u8 list \<Rightarrow> nat \<Rightarrow> int \<Rightarrow> (u8 list \<times> nat) option" where
  "itoa_loop buf loc i =
     (if i = 0 then Some (buf, loc)
      else do {
        (buf', loc') \<leftarrow> put_before buf loc (48 - i smod 10);
        itoa_loop buf' loc' (i sdiv 10)
      })"
  by auto
termination
  by (relation "measure (\<lambda>(buf, loc, i). nat \<bar>i\<bar>)") (simp_all add: sdiv_10_less)

declare itoa_loop.simps [simp del]

definition itoa :: "u8 list \<Rightarrow> int \<Rightarrow> (u8 list \<times> nat) option" where
  "itoa buf i = do {
     (buf1, loc) \<leftarrow> itoa_loop (buf[11 := 0]) 11 (if i \<ge> 0 then - i else i);
     (buf2, loc) \<leftarrow> (if loc = 11 then put_before buf1 loc 48 else Some (buf1, loc));
     if i < 0 then put_before buf2 loc 45 else Some (buf2, loc)
   }"


subsection \<open>Strings in objects\<close>

text \<open>The string an object holds, and objects that hold one within their bounds.\<close>

definition cstr :: "u8 list \<Rightarrow> u8 list" where
  "cstr = takeWhile (\<lambda>c. c \<noteq> 0)"

definition terminated :: "u8 list \<Rightarrow> bool" where
  "terminated s \<longleftrightarrow> 0 \<in> set s"

lemma cstr_simps [simp]: "cstr [] = []" "cstr (c # cs) = (if c = 0 then [] else c # cstr cs)"
  by (simp_all add: cstr_def)

lemma cstr_append: "0 \<notin> set xs \<Longrightarrow> cstr (xs @ 0 # ys) = xs"
  by (induction xs) auto

lemma cstr_no_zero [simp]: "0 \<notin> set (cstr s)"
  by (induction s) auto

lemma length_cstr_less: "terminated s \<Longrightarrow> length (cstr s) < length s"
  unfolding terminated_def
proof (induction s)
  case (Cons c s)
  then show ?case by (cases "c = 0") auto
qed simp

lemma terminated_decomp: "terminated s \<Longrightarrow> \<exists>rest. s = cstr s @ 0 # rest"
  unfolding terminated_def
proof (induction s)
  case (Cons c s)
  then show ?case by (cases "c = 0") auto
qed simp

lemma strlen_from_cstr:
  "terminated s \<Longrightarrow> i + int (length (cstr s)) \<le> INT_MAX \<Longrightarrow>
   strlen_from s i = Some (i + int (length (cstr s)))"
  unfolding terminated_def
proof (induction s arbitrary: i)
  case (Cons c s)
  then show ?case by (cases "c = 0") auto
qed simp

lemma strlen_cstr:
  "terminated s \<Longrightarrow> int (length (cstr s)) \<le> INT_MAX \<Longrightarrow> strlen s = Some (int (length (cstr s)))"
  using strlen_from_cstr [of s 0] by (simp add: strlen_def)

lemma span_length_takeWhile:
  "(\<exists>c\<in>set cs. stops c) \<or> n \<le> length cs \<Longrightarrow>
   span_length stops cs n = Some (min n (length (takeWhile (\<lambda>c. \<not> stops c) cs)))"
  by (induction stops cs n rule: span_length.induct) auto

lemma strnlen_cstr:
  "terminated s \<or> nat n \<le> length s \<Longrightarrow> strnlen s n = Some (min (int (nat n)) (int (length (cstr s))))"
  using span_length_takeWhile [of s "\<lambda>c. c = 0" "nat n"]
  by (auto simp: strnlen_def cstr_def terminated_def)

lemma strcpy_cstr:
  "terminated src \<Longrightarrow> length (cstr src) < length dest \<Longrightarrow>
   strcpy dest src = Some (cstr src @ 0 # drop (Suc (length (cstr src))) dest)"
  unfolding terminated_def by (induction dest src rule: strcpy.induct) auto

lemma strncpy_loop_cstr:
  "terminated src \<or> n \<le> length src \<Longrightarrow> n < length dest \<Longrightarrow>
   strncpy_loop dest src n =
     Some (take n (cstr src) @ 0 # drop (Suc (min n (length (cstr src)))) dest)"
  unfolding terminated_def by (induction dest src n rule: strncpy_loop.induct) auto

lemma strncpy_cstr:
  assumes "terminated src \<or> nat (count - 1) \<le> length src" "nat (count - 1) < length dest"
  shows "strncpy dest src count =
    Some (take (nat (count - 1)) (cstr src) @ 0 # drop (Suc (min (nat (count - 1)) (length (cstr src)))) dest)"
  using strncpy_loop_cstr [OF assms] by (simp add: strncpy_def)

lemma tolower_0 [simp]: "tolower c = 0 \<longleftrightarrow> c = 0"
proof
  assume t: "tolower c = 0"
  show "c = 0"
  proof (cases "sint c \<ge> 65 \<and> sint c \<le> 90")
    case True
    then have "c + 32 = 0" using t by (simp add: tolower_def)
    then have "c = - 32" by (simp add: eq_neg_iff_add_eq_0)
    then have "sint c = - 32" by simp
    then show ?thesis using True by linarith
  qed (use t in \<open>simp add: tolower_def split: if_splits\<close>)
qed (simp add: tolower_def)

lemma tolower_zero: "tolower 0 = 0"
  by (simp add: tolower_def)

text \<open>The value of a decimal numeral, by the kernel's own \<open>tonumericdigit\<close>.\<close>

definition digits_value :: "u8 list \<Rightarrow> int" where
  "digits_value ds = foldl (\<lambda>v d. 10 * v + tonumericdigit d) 0 ds"

fun decimal_value :: "u8 list \<Rightarrow> int" where
  "decimal_value [] = 0"
| "decimal_value (c # cs) = (if c = 45 then - digits_value cs else digits_value (c # cs))"

lemma digits_value_snoc: "digits_value (ds @ [d]) = 10 * digits_value ds + tonumericdigit d"
  by (simp add: digits_value_def)

lemma digit_byte:
  assumes "0 \<le> k" "k < 10"
  shows "isdigit (word_of_int (48 + k))" "tonumericdigit (word_of_int (48 + k)) = k"
proof -
  have "k \<in> {0, 1, 2, 3, 4, 5, 6, 7, 8, 9}"
    unfolding insert_iff empty_iff using assms by arith
  then have "sint (word_of_int (48 + k) :: u8) = 48 + k" by auto
  then show "isdigit (word_of_int (48 + k))" "tonumericdigit (word_of_int (48 + k)) = k"
    using assms by (simp_all add: isdigit_def tonumericdigit_def)
qed

lemma isdigit_nonzero: "isdigit c \<Longrightarrow> c \<noteq> 0 \<and> c \<noteq> 45"
  by (auto simp: isdigit_def)

lemma negative_digit:
  fixes i :: int
  assumes "i \<le> 0"
  shows "- (i smod 10) = (- i) mod 10" "i sdiv 10 = - ((- i) div 10)"
  using assms by (auto simp: signed_divide_int_def signed_modulo_int_def minus_div_mult_eq_mod [symmetric] sgn_if)


subsection \<open>itoa\<close>

lemma itoa_loop_digits:
  assumes "i \<le> 0" "- i < 10 ^ k" "k \<le> loc" "loc \<le> length buf"
  shows "\<exists>b loc'. itoa_loop buf loc i = Some (b, loc') \<and> length b = length buf \<and> loc - k \<le> loc' \<and>
    loc' \<le> loc \<and> (i \<noteq> 0 \<longrightarrow> loc' < loc) \<and> drop loc b = drop loc buf \<and>
    list_all isdigit (take (loc - loc') (drop loc' b)) \<and>
    digits_value (take (loc - loc') (drop loc' b)) = - i"
  using assms
proof (induction k arbitrary: i loc buf)
  case 0
  then show ?case by (subst itoa_loop.simps) (simp add: digits_value_def)
next
  case (Suc k)
  show ?case
  proof (cases "i = 0")
    case True
    then show ?thesis by (subst itoa_loop.simps) (simp add: digits_value_def)
  next
    case False
    obtain n where n: "loc = Suc n" using Suc.prems(3) by (cases loc) auto
    let ?d = "(- i) mod 10" and ?q = "(- i) div 10"
    let ?buf = "buf[n := word_of_int (48 + ?d)]"
    have d: "0 \<le> ?d" "?d < 10" by simp_all
    have dig: "48 - i smod 10 = 48 + ?d" using negative_digit(1) [OF Suc.prems(1)] by simp
    have i: "itoa_loop buf loc i = itoa_loop ?buf n (- ?q)"
      using False n negative_digit(2) [OF Suc.prems(1)]
      by (subst itoa_loop.simps) (simp add: put_before_def dig del: of_int_add)
    have "10 * ?q \<le> - i" by simp
    then have q: "- ?q \<le> 0" "- (- ?q) < 10 ^ k" using Suc.prems(1,2) by simp_all
    have k: "k \<le> n" "n \<le> length ?buf" using Suc.prems(3,4) n by simp_all
    from Suc.IH [OF q k] obtain b loc' where b: "itoa_loop ?buf n (- ?q) = Some (b, loc')"
      "length b = length buf" "n - k \<le> loc'" "loc' \<le> n" "drop n b = drop n ?buf"
      "list_all isdigit (take (n - loc') (drop loc' b))"
      "digits_value (take (n - loc') (drop loc' b)) = ?q"
      by (simp del: of_int_add) blast
    have hd: "b ! n = word_of_int (48 + ?d)"
      using arg_cong [OF b(5), of hd] b(2) n Suc.prems(4) by (simp add: hd_drop_conv_nth del: of_int_add)
    have snoc: "take (Suc n - loc') (drop loc' b) = take (n - loc') (drop loc' b) @ [word_of_int (48 + ?d)]"
      using n b(2,4) hd Suc.prems(4) by (simp add: Suc_diff_le take_Suc_conv_app_nth del: of_int_add)
    have "drop loc b = drop loc buf"
      using arg_cong [OF b(5), of "drop 1"] n by (simp del: of_int_add)
    moreover have "10 * ?q + ?d = - i" by simp
    ultimately show ?thesis
      using i b(1-4,6,7) digit_byte [OF d] n
      by (intro exI [of _ b] exI [of _ loc']) (simp add: snoc digits_value_snoc del: of_int_add)
  qed
qed

text \<open>A digit string at the end of the buffer, with and without a sign.\<close>

lemma digits_string:
  assumes "list_all isdigit s"
  shows "cstr (s @ [0]) = s" "s \<noteq> [] \<Longrightarrow> decimal_value s = digits_value s"
proof -
  have "0 \<notin> set s" using assms isdigit_nonzero by (fastforce simp: list_all_iff)
  then show "cstr (s @ [0]) = s" by (rule cstr_append)
  show "decimal_value s = digits_value s" if "s \<noteq> []"
    using assms isdigit_nonzero that by (cases s) auto
qed

lemma itoa_result:
  assumes "drop loc b = s @ [0]" "list_all isdigit s" "s \<noteq> []" "length b = 12"
  shows "loc < 11" "b ! 11 = 0" "strlen (drop loc b) = Some (int (11 - loc))"
    "decimal_value (cstr (drop loc b)) = digits_value s"
proof -
  have l: "12 - loc = Suc (length s)" using arg_cong [OF assms(1), of length] assms(4) by simp
  then show loc: "loc < 11" using assms(3) by (cases s) auto
  have s: "length s = 11 - loc" using l loc by simp
  have "b ! 11 = (s @ [0]) ! (11 - loc)"
    unfolding assms(1) [symmetric] using loc assms(4) by simp
  then show "b ! 11 = 0" using s by (simp add: nth_append)
  show "strlen (drop loc b) = Some (int (11 - loc))"
    unfolding assms(1) using digits_string(1) [OF assms(2)] s
    by (subst strlen_cstr) (simp_all add: terminated_def)
  show "decimal_value (cstr (drop loc b)) = digits_value s"
    unfolding assms(1) using digits_string [OF assms(2)] assms(3) by simp
qed

lemma itoa_result_minus:
  assumes "drop loc b = 45 # s @ [0]" "list_all isdigit s" "length b = 12"
  shows "loc < 11" "b ! 11 = 0" "strlen (drop loc b) = Some (int (11 - loc))"
    "decimal_value (cstr (drop loc b)) = - digits_value s"
proof -
  have l: "12 - loc = Suc (Suc (length s))" using arg_cong [OF assms(1), of length] assms(3) by simp
  then show loc: "loc < 11" by simp
  have s: "Suc (length s) = 11 - loc" using l by simp
  have "b ! 11 = (45 # s @ [0]) ! (11 - loc)"
    unfolding assms(1) [symmetric] using loc assms(3) by simp
  then show "b ! 11 = 0" using s [symmetric] by (simp add: nth_append)
  show "strlen (drop loc b) = Some (int (11 - loc))"
    unfolding assms(1) using digits_string(1) [OF assms(2)] s
    by (subst strlen_cstr) (simp_all add: terminated_def)
  show "decimal_value (cstr (drop loc b)) = - digits_value s"
    unfolding assms(1) using digits_string [OF assms(2)] by simp
qed

subsection \<open>Properties\<close>

text \<open>
  \<^bold>\<open>itoa and the numeral.\<close> For every value of an \<open>int\<close>, \<open>INT_MIN\<close> included, \<open>itoa\<close> stays inside its
  buffer of 12 bytes, ends the string with a zero byte, and the numeral it leaves has the value it
  was given.
\<close>

theorem itoa_roundtrip:
  assumes "INT_MIN \<le> i" "i \<le> INT_MAX" "length buf = 12"
  shows "\<exists>b loc. itoa buf i = Some (b, loc) \<and> length b = 12 \<and> loc < 11 \<and> b ! 11 = 0 \<and>
    strlen (drop loc b) = Some (int (11 - loc)) \<and> decimal_value (cstr (drop loc b)) = i"
proof -
  define j where "j = (if i \<ge> 0 then - i else i)"
  have j: "j \<le> 0" "- j < 10 ^ 10" "10 \<le> (11 :: nat)" using assms by (auto simp: j_def)
  have len: "11 \<le> length (buf[11 := 0 :: u8])" using assms(3) by simp
  have z: "drop 11 (buf[11 := 0 :: u8]) = [0]" using assms(3) by (auto simp: list_eq_iff_nth_eq)
  from itoa_loop_digits [OF j len] assms(3)
  obtain b loc where b: "itoa_loop (buf[11 := 0]) 11 j = Some (b, loc)" "length b = 12" "1 \<le> loc" "loc \<le> 11"
    "j \<noteq> 0 \<longrightarrow> loc < 11" "drop 11 b = [0]" "list_all isdigit (take (11 - loc) (drop loc b))"
    "digits_value (take (11 - loc) (drop loc b)) = - j"
    unfolding z by auto
  have it: "itoa buf i = (do {
      (b2, loc) \<leftarrow> (if loc = 11 then put_before b loc 48 else Some (b, loc));
      if i < 0 then put_before b2 loc 45 else Some (b2, loc) })"
    using b(1) by (simp add: itoa_def j_def)
  have dr: "drop loc b = take (11 - loc) (drop loc b) @ [0]"
    using b(4,6) append_take_drop_id [of "11 - loc" "drop loc b"] by simp
  consider (zero) "loc = 11" "j = 0" | (pos) "loc < 11" "i \<ge> 0" | (neg) "loc < 11" "i < 0"
    using b(4,5) by linarith
  then show ?thesis
  proof cases
    case zero
    have "drop 10 (b[10 := 48]) = [48, 0]"
      using b(2,6) by (simp add: list_eq_iff_nth_eq nth_Cons split: nat.splits) 
    moreover have "i = 0" using zero(2) by (simp add: j_def split: if_splits)
    ultimately show ?thesis
      using it zero(1) b(2) itoa_result [of 10 "b[10 := 48]" "[48]"]
      by (simp add: put_before_def digits_value_def tonumericdigit_def isdigit_def)
  next
    case pos
    then show ?thesis
      using it b(2,7,8) dr itoa_result [of loc b "take (11 - loc) (drop loc b)"] by (simp add: j_def)
  next
    case neg
    let ?b = "b[loc - 1 := 45]"
    have "drop (loc - 1) ?b = 45 # take (11 - loc) (drop loc b) @ [0]"
      using b(2,3,4) dr by (simp add: drop_update_swap Cons_nth_drop_Suc [symmetric])
    then show ?thesis
      using it neg b(2,3,7,8) itoa_result_minus [of "loc - 1" ?b "take (11 - loc) (drop loc b)"]
      by (simp add: j_def put_before_def)
  qed
qed

theorem itoa_roundtrip_witness:
  "\<exists>b loc. itoa (replicate 12 0) INT_MIN = Some (b, loc) \<and> decimal_value (cstr (drop loc b)) = INT_MIN"
  using itoa_roundtrip [of INT_MIN "replicate 12 0"] by auto

lemma uint_eq_iff: "uint a = uint b \<longleftrightarrow> a = b" for a b :: u8
  using word_uint_eq_iff [of a b] by blast

lemmas compare_bytes = uint_eq_iff uint_0_iff tolower_zero

lemma istrncmp_loop_0:
  "istrncmp_loop s1 s2 n = Some 0 \<longleftrightarrow> strncmp_loop (map tolower s1) (map tolower s2) n = Some 0"
  by (induction s1 s2 n rule: istrncmp_loop.induct) (auto simp: compare_bytes)

text \<open>
  \<^bold>\<open>Comparing without case.\<close> \<open>istrncmp\<close> finds two strings equal exactly when \<open>strncmp\<close> finds their
  lower-case forms equal, on every pair of objects and every bound.
\<close>

theorem istrncmp_is_strncmp_of_lower:
  "istrncmp s1 s2 n = Some 0 \<longleftrightarrow> strncmp (map tolower s1) (map tolower s2) n = Some 0"
  unfolding istrncmp_def strncmp_def by (rule istrncmp_loop_0)

lemma strncmp_loop_cstr:
  "terminated s1 \<Longrightarrow> terminated s2 \<Longrightarrow>
   \<exists>r. strncmp_loop s1 s2 n = Some r \<and> (r = 0 \<longleftrightarrow> take n (cstr s1) = take n (cstr s2))"
  unfolding terminated_def
  by (induction s1 s2 n rule: strncmp_loop.induct) (auto simp: compare_bytes)

lemma strncmp_cstr:
  "terminated s1 \<Longrightarrow> terminated s2 \<Longrightarrow>
   strncmp s1 s2 n = Some 0 \<longleftrightarrow> take (nat n) (cstr s1) = take (nat n) (cstr s2)"
  using strncmp_loop_cstr [of s1 s2 "nat n"] by (auto simp: strncmp_def)

text \<open>
  \<^bold>\<open>A bounded copy.\<close> Into an object of at least \<open>count\<close> bytes, \<open>strncpy\<close> writes the first \<open>count - 1\<close>
  characters of the source string and a zero byte, and leaves the rest of the object.
\<close>

theorem strncpy_copies_prefix:
  assumes "1 \<le> count" "nat count \<le> length dest" "terminated src"
  shows "\<exists>d. strncpy dest src count = Some d \<and> length d = length dest \<and>
    cstr d = take (nat count - 1) (cstr src) \<and> drop (nat count) d = drop (nat count) dest"
proof -
  have n: "nat (count - 1) = nat count - 1" "nat (count - 1) < length dest" using assms(1,2) by linarith+
  let ?t = "take (nat count - 1) (cstr src)"
  let ?d = "?t @ 0 # drop (Suc (min (nat count - 1) (length (cstr src)))) dest"
  have "0 \<notin> set ?t" using cstr_no_zero [of src] set_take_subset by fastforce
  then have "cstr ?d = ?t" by (rule cstr_append)
  moreover have "length ?d = length dest" using n assms(1) by (simp add: min_def)
  moreover have "drop (nat count) ?d = drop (nat count) dest"
  proof -
    obtain k where "nat count = Suc k" using assms(1) by (cases "nat count") auto
    then show ?thesis by (cases "k \<le> length (cstr src)") (simp_all add: drop_Cons')
  qed
  moreover have "strncpy dest src count = Some ?d"
    using strncpy_cstr [OF disjI1 [OF assms(3)] n(2)] unfolding n(1) .
  ultimately show ?thesis by (intro exI conjI)
qed

theorem strncpy_copies_prefix_witness:
  "\<exists>d. strncpy [9, 9, 9, 9] [80, 69, 65, 67, 72, 0] 3 = Some d \<and> cstr d = [80, 69] \<and> drop 3 d = [9]"
  using strncpy_copies_prefix [of 3 "[9, 9, 9, 9]" "[80, 69, 65, 67, 72, 0]"]
  by (auto simp: terminated_def)

end
