(* ===== verification/PathParser.thy ===== *)
theory PathParser
  imports CString
begin

section \<open>Paths: pparser.c\<close>

text \<open>
  The parser of \<open>fs/pparser.c\<close> for paths \<open>drive:/part/part\<close>. A pointer into the path is the rest
  of the object from there. The linked list of parts is a list, and each part is the 108-byte
  buffer \<open>kzalloc\<close> returns for it. \<open>primary\<close> is the id of the disk \<open>disk_primary_fs_disk\<close> returns.
\<close>

abbreviation (input) SLASH :: u8 where "SLASH \<equiv> 47"
abbreviation (input) COLON :: u8 where "COLON \<equiv> 58"
abbreviation (input) AT_SIGN :: u8 where "AT_SIGN \<equiv> 64"

record path_root =
  drive_no :: int
  parts :: "u8 list list"

definition pathparser_path_valid_format :: "u8 list \<Rightarrow> bool option" where
  "pathparser_path_valid_format filename = do {
     len \<leftarrow> strnlen filename PEACHOS_MAX_PATH;
     Some (len \<ge> 3 \<and> (isdigit (filename ! 0) \<or> filename ! 0 = AT_SIGN) \<and>
           filename ! 1 = COLON \<and> filename ! 2 = SLASH)
   }"

text \<open>The drive number or an error, and where the path goes on.\<close>

definition pathparser_get_drive_by_path :: "int option \<Rightarrow> u8 list \<Rightarrow> (int \<times> u8 list) option" where
  "pathparser_get_drive_by_path primary path = do {
     valid \<leftarrow> pathparser_path_valid_format path;
     if \<not> valid then Some (- EBADPATH, path)
     else if path ! 0 = AT_SIGN then
       (case primary of None \<Rightarrow> Some (- EIO, path) | Some disk_id \<Rightarrow> Some (disk_id, drop 3 path))
     else Some (tonumericdigit (path ! 0), drop 3 path)
   }"

definition pathparser_create_root :: "'a allocator \<Rightarrow> 'a \<Rightarrow> int \<Rightarrow> 'a \<times> path_root option" where
  "pathparser_create_root kz a drive_number =
     (let (a', ok) = kz a 16 in (a', if ok then Some \<lparr>drive_no = drive_number, parts = []\<rparr> else None))"

text \<open>The copy up to the next separator: the path there, the buffer and the number of bytes.\<close>

fun path_part_loop :: "u8 list \<Rightarrow> u8 list \<Rightarrow> nat \<Rightarrow> (u8 list \<times> u8 list \<times> nat) option" where
  "path_part_loop [] buf i = None"
| "path_part_loop (c # path) buf i =
     (if c = SLASH \<or> c = 0 then Some (c # path, buf, i)
      else if i < length buf then path_part_loop path (buf[i := c]) (i + 1)
      else None)"

definition pathparser_get_path_part ::
  "'a allocator \<Rightarrow> 'a \<Rightarrow> u8 list \<Rightarrow> ('a \<times> u8 list option \<times> u8 list) option" where
  "pathparser_get_path_part kz a path =
     (let (a', ok) = kz a 108 in
      if \<not> ok then Some (a', None, path)
      else do {
        (path', buf, i) \<leftarrow> path_part_loop path (replicate 108 0) 0;
        let path'' = (if hd path' = SLASH then tl path' else path');
        Some (a', if i = 0 then None else Some buf, path'')
      })"

definition pathparser_parse_path_part ::
  "'a allocator \<Rightarrow> 'a \<Rightarrow> u8 list \<Rightarrow> ('a \<times> u8 list option \<times> u8 list) option" where
  "pathparser_parse_path_part kz a path = do {
     (a1, part_str, path1) \<leftarrow> pathparser_get_path_part kz a path;
     case part_str of
       None \<Rightarrow> Some (a1, None, path1)
     | Some str \<Rightarrow> (let (a2, ok) = kz a1 16 in Some (a2, if ok then Some str else None, path1))
   }"

lemma path_part_loop_rest:
  "path_part_loop path buf i = Some (path', buf', i') \<Longrightarrow>
   path' \<noteq> [] \<and> length path = length path' + (i' - i) \<and> i \<le> i' \<and> length buf' = length buf"
  by (induction path buf i rule: path_part_loop.induct) (auto split: if_splits)

lemma parse_path_part_shorter:
  "pathparser_parse_path_part kz a path = Some (a', Some str, path') \<Longrightarrow> length path' < length path"
  by (auto simp: pathparser_parse_path_part_def pathparser_get_path_part_def bind_eq_Some_conv Let_def
      split: if_splits option.splits prod.splits dest!: path_part_loop_rest)

text \<open>The loop over the remaining parts. Each round but the last consumes part of the path.\<close>

function pathparser_parse_rest :: "'a allocator \<Rightarrow> 'a \<Rightarrow> u8 list \<Rightarrow> ('a \<times> u8 list list) option" where
  "pathparser_parse_rest kz a path =
     (case pathparser_parse_path_part kz a path of
        None \<Rightarrow> None
      | Some (a', None, path') \<Rightarrow> Some (a', [])
      | Some (a', Some str, path') \<Rightarrow>
          map_option (\<lambda>(a'', strs). (a'', str # strs)) (pathparser_parse_rest kz a' path'))"
  by pat_completeness auto
termination
  by (relation "measure (\<lambda>(kz, a, path). length path)") (auto dest: parse_path_part_shorter)

declare pathparser_parse_rest.simps [simp del]

definition pathparser_parse ::
  "'a allocator \<Rightarrow> 'a \<Rightarrow> int option \<Rightarrow> u8 list \<Rightarrow> ('a \<times> path_root option) option" where
  "pathparser_parse kz a primary path = do {
     len \<leftarrow> strlen path;
     if len > PEACHOS_MAX_PATH then Some (a, None)
     else do {
       (res, tmp_path) \<leftarrow> pathparser_get_drive_by_path primary path;
       if res < 0 then Some (a, None)
       else case pathparser_create_root kz a res of
         (a1, None) \<Rightarrow> Some (a1, None)
       | (a1, Some root) \<Rightarrow> do {
           (a2, first_part, tmp_path) \<leftarrow> pathparser_parse_path_part kz a1 tmp_path;
           case first_part of
             None \<Rightarrow> Some (a2, None)
           | Some str \<Rightarrow> do {
               (a3, strs) \<leftarrow> pathparser_parse_rest kz a2 tmp_path;
               Some (a3, Some (root\<lparr>parts := str # strs\<rparr>))
             }
         }
     }
   }"


subsection \<open>Paths as text\<close>

text \<open>The text of a path: the drive, then each part behind a slash. A part is a file name: not empty, without separators.\<close>

definition part_name :: "u8 list \<Rightarrow> bool" where
  "part_name p \<longleftrightarrow> p \<noteq> [] \<and> SLASH \<notin> set p \<and> 0 \<notin> set p"

definition path_text :: "u8 \<Rightarrow> u8 list list \<Rightarrow> u8 list" where
  "path_text drive ps = [drive, COLON] @ concat (map (\<lambda>p. SLASH # p) ps)"

definition part_buffer :: "u8 list \<Rightarrow> u8 list" where
  "part_buffer p = p @ replicate (108 - length p) 0"

lemma cstr_part_buffer: "0 \<notin> set p \<Longrightarrow> length p < 108 \<Longrightarrow> cstr (part_buffer p) = p"
proof -
  assume p: "0 \<notin> set p" "length p < 108"
  then have "part_buffer p = p @ 0 # replicate (107 - length p) 0"
    by (simp add: part_buffer_def flip: replicate_Suc)
  then show ?thesis using cstr_append [OF p(1)] by simp
qed

lemma path_part_loop_name:
  assumes "SLASH \<notin> set p" "0 \<notin> set p" "c = SLASH \<or> c = 0"
  shows "length p \<le> length rest' \<Longrightarrow>
    path_part_loop (p @ c # rest) (pre @ rest') (length pre) =
      Some (c # rest, pre @ p @ drop (length p) rest', length pre + length p)"
  using assms(1,2)
proof (induction p arbitrary: pre rest')
  case Nil
  then show ?case using assms(3) by simp
next
  case (Cons x p)
  then obtain y r where r: "rest' = y # r" by (cases rest') auto
  then show ?case using Cons.prems Cons.IH [of r "pre @ [x]"] by auto
qed

lemma get_path_part_name:
  assumes "part_name p" "length p \<le> 108" "c = SLASH \<or> c = 0" "never_fails kz"
  shows "\<exists>a'. pathparser_get_path_part kz a (p @ c # rest) =
    Some (a', Some (part_buffer p), if c = SLASH then rest else c # rest)"
proof -
  obtain a' where kz: "kz a 108 = (a', True)"
    using never_fails_D [OF assms(4)] by blast
  have "path_part_loop (p @ c # rest) (replicate 108 0) 0 = Some (c # rest, part_buffer p, length p)"
    using path_part_loop_name [of p c "replicate 108 0" rest "[]"] assms
    by (simp add: part_name_def part_buffer_def)
  then show ?thesis using kz assms(1,3) by (auto simp: pathparser_get_path_part_def part_name_def)
qed

lemma parse_path_part_name:
  assumes "part_name p" "length p \<le> 108" "c = SLASH \<or> c = 0" "never_fails kz"
  shows "\<exists>a'. pathparser_parse_path_part kz a (p @ c # rest) =
    Some (a', Some (part_buffer p), if c = SLASH then rest else c # rest)"
proof -
  obtain a' where a': "pathparser_get_path_part kz a (p @ c # rest) =
    Some (a', Some (part_buffer p), if c = SLASH then rest else c # rest)"
    using get_path_part_name [OF assms] by blast
  obtain a'' where "kz a' 16 = (a'', True)"
    using never_fails_D [OF assms(4)] by blast
  then show ?thesis using a' by (simp add: pathparser_parse_path_part_def)
qed

lemma parse_path_part_end:
  assumes "never_fails kz" "c = SLASH \<or> c = 0"
  shows "\<exists>a' rest'. pathparser_parse_path_part kz a (c # rest) = Some (a', None, rest')"
  using assms by (auto simp: pathparser_parse_path_part_def pathparser_get_path_part_def Let_def split: prod.splits)

text \<open>The tail of a path from behind the slash of its first part on.\<close>

lemma parse_rest_names:
  assumes "never_fails kz" "list_all part_name ps" "\<forall>p\<in>set ps. length p \<le> 108"
  shows "\<exists>a'. pathparser_parse_rest kz a (tl (concat (map (\<lambda>p. SLASH # p) ps) @ 0 # junk)) =
    Some (a', map part_buffer ps) \<or> ps = []"
  using assms(2,3)
proof (induction ps arbitrary: a)
  case Nil
  then show ?case by simp
next
  case (Cons p ps)
  have p: "part_name p" "length p \<le> 108" using Cons.prems by simp_all
  show ?case
  proof (cases ps)
    case Nil
    obtain a1 where a1: "pathparser_parse_path_part kz a (p @ 0 # junk) = Some (a1, Some (part_buffer p), 0 # junk)"
      using parse_path_part_name [OF p _ assms(1), of 0 a junk] by auto
    obtain a2 r where "pathparser_parse_path_part kz a1 (0 # junk) = Some (a2, None, r)"
      using parse_path_part_end [OF assms(1), of 0] by blast
    then have "pathparser_parse_rest kz a1 (0 # junk) = Some (a2, [])"
      by (subst pathparser_parse_rest.simps) simp
    then show ?thesis using a1 Nil by (subst pathparser_parse_rest.simps) simp
  next
    case (Cons q qs)
    let ?rest = "tl (concat (map (\<lambda>p. SLASH # p) ps) @ 0 # junk)"
    have split: "concat (map (\<lambda>p. SLASH # p) ps) @ 0 # junk = SLASH # ?rest" using Cons by simp
    obtain a1 where a1: "pathparser_parse_path_part kz a (p @ SLASH # ?rest) = Some (a1, Some (part_buffer p), ?rest)"
      using parse_path_part_name [OF p _ assms(1), of SLASH a ?rest] by auto
    obtain a2 where "pathparser_parse_rest kz a1 ?rest = Some (a2, map part_buffer ps)"
      using Cons.IH [of a1] Cons.prems Cons by auto
    then show ?thesis using a1 split by (subst pathparser_parse_rest.simps) simp
  qed
qed


lemma cstr_path:
  assumes "list_all part_name ps" "drive \<noteq> 0"
  shows "cstr (path_text drive ps @ 0 # junk) = path_text drive ps"
proof -
  have "0 \<notin> set (path_text drive ps)"
    using assms by (auto simp: path_text_def list_all_iff part_name_def)
  then show ?thesis by (rule cstr_append)
qed

definition drive_value :: "int option \<Rightarrow> u8 \<Rightarrow> int" where
  "drive_value primary drive = (if drive = AT_SIGN then the primary else tonumericdigit drive)"

text \<open>What the checks before the parts leave of a path in the right format.\<close>

lemma parse_prefix:
  assumes drive: "isdigit drive \<or> drive = AT_SIGN \<and> primary \<noteq> None \<and> the primary \<ge> 0"
    and len: "Suc (Suc (Suc (length (cstr rest)))) \<le> 108" "terminated rest"
    and nf: "never_fails kz"
  shows "\<exists>a1. pathparser_parse kz a primary ([drive, COLON, SLASH] @ rest) =
    (do { (a2, first_part, tmp_path) \<leftarrow> pathparser_parse_path_part kz a1 rest;
       case first_part of
         None \<Rightarrow> Some (a2, None)
       | Some str \<Rightarrow> do {
           (a3, strs) \<leftarrow> pathparser_parse_rest kz a2 tmp_path;
           Some (a3, Some (\<lparr>drive_no = drive_value primary drive, parts = []\<rparr>\<lparr>parts := str # strs\<rparr>))
         } })"
proof -
  let ?path = "[drive, COLON, SLASH] @ rest"
  have d0: "drive \<noteq> 0" using drive by (auto simp: isdigit_def)
  have t: "terminated ?path" using len(2) by (simp add: terminated_def)
  have c: "cstr ?path = [drive, COLON, SLASH] @ cstr rest" using d0 by simp
  have "strlen ?path = Some (int (length (cstr ?path)))"
    using t len(1) c by (intro strlen_cstr) simp_all
  moreover have "strnlen ?path 108 = Some (min 108 (int (length (cstr ?path))))"
    using t strnlen_cstr [of ?path 108] by simp
  ultimately have "pathparser_get_drive_by_path primary ?path = Some (drive_value primary drive, rest)"
    using len(1) drive unfolding c
    by (auto simp: pathparser_get_drive_by_path_def pathparser_path_valid_format_def drive_value_def
        isdigit_def)
  moreover have "\<not> drive_value primary drive < 0"
    using drive by (auto simp: drive_value_def isdigit_def tonumericdigit_def)
  moreover have "strlen ?path = Some (int (length (cstr ?path)))" "\<not> int (length (cstr ?path)) > 108"
    using strlen_cstr [OF t] len(1) c by simp_all
  moreover obtain a1 where "kz a 16 = (a1, True)"
    using never_fails_D [OF nf] by blast
  ultimately show ?thesis
    by (intro exI [of _ a1]) (simp add: pathparser_parse_def pathparser_create_root_def)
qed

lemma pathparser_parse_text:
  assumes nf: "never_fails kz" and ps: "ps \<noteq> []" "list_all part_name ps"
    and drive: "isdigit drive \<or> drive = AT_SIGN \<and> primary \<noteq> None \<and> the primary \<ge> 0"
    and len: "length (path_text drive ps) \<le> 108"
  shows "\<exists>a'. pathparser_parse kz a primary (path_text drive ps @ 0 # junk) =
    Some (a', Some \<lparr>drive_no = drive_value primary drive, parts = map part_buffer ps\<rparr>)"
proof -
  obtain p qs where pq: "ps = p # qs" using ps(1) by (cases ps) auto
  let ?tail = "concat (map (\<lambda>p. SLASH # p) qs) @ 0 # junk"
  have whole: "path_text drive ps @ 0 # junk = [drive, COLON, SLASH] @ p @ ?tail"
    by (simp add: path_text_def pq)
  have d0: "drive \<noteq> 0" using drive by (auto simp: isdigit_def)
  have names: "part_name p" "list_all part_name qs" using ps(2) pq by simp_all
  have lens: "length q \<le> 108" if "q \<in> set ps" for q
  proof -
    have "length q \<le> length (concat (map (\<lambda>p. SLASH # p) ps))"
      using that by (induction ps) auto
    then show ?thesis using len by (simp add: path_text_def)
  qed
  have c: "cstr (p @ ?tail) = p @ concat (map (\<lambda>p. SLASH # p) qs)"
    using cstr_path [OF ps(2) d0, of junk] d0 by (simp add: whole path_text_def pq)
  have l: "Suc (Suc (Suc (length (cstr (p @ ?tail))))) \<le> 108"
    using len unfolding c by (simp add: path_text_def pq)
  have "terminated (p @ ?tail)" by (simp add: terminated_def)
  from parse_prefix [OF drive l this nf]
  obtain a1 where a1: "pathparser_parse kz a primary ([drive, COLON, SLASH] @ (p @ ?tail)) =
    (do { (a2, first_part, tmp_path) \<leftarrow> pathparser_parse_path_part kz a1 (p @ ?tail);
       case first_part of None \<Rightarrow> Some (a2, None)
       | Some str \<Rightarrow> do { (a3, strs) \<leftarrow> pathparser_parse_rest kz a2 tmp_path;
           Some (a3, Some (\<lparr>drive_no = drive_value primary drive, parts = []\<rparr>\<lparr>parts := str # strs\<rparr>)) } })"
    by blast
  show ?thesis
  proof (cases qs)
    case Nil
    obtain a2 where a2: "pathparser_parse_path_part kz a1 (p @ 0 # junk) = Some (a2, Some (part_buffer p), 0 # junk)"
      using parse_path_part_name [OF names(1) _ _ nf, of 0 a1 junk] lens pq by auto
    obtain a3 r where "pathparser_parse_path_part kz a2 (0 # junk) = Some (a3, None, r)"
      using parse_path_part_end [OF nf, of 0] by blast
    then have "pathparser_parse_rest kz a2 (0 # junk) = Some (a3, [])"
      by (subst pathparser_parse_rest.simps) simp
    then show ?thesis using a1 a2 Nil whole pq by simp
  next
    case (Cons q rs)
    have tail: "?tail = SLASH # tl ?tail" using Cons by simp
    obtain a2 where a2: "pathparser_parse_path_part kz a1 (p @ SLASH # tl ?tail) =
        Some (a2, Some (part_buffer p), tl ?tail)"
      using parse_path_part_name [OF names(1) _ _ nf, of SLASH a1 "tl ?tail"] lens pq by auto
    obtain a3 where "pathparser_parse_rest kz a2 (tl ?tail) = Some (a3, map part_buffer qs)"
      using parse_rest_names [OF nf names(2), of a2 junk] lens pq Cons by auto
    then show ?thesis using a1 a2 whole pq unfolding tail [symmetric] by simp
  qed
qed


text \<open>No call leaves the path object or the buffer of a part.\<close>

lemma path_part_loop_defined:
  "terminated path \<Longrightarrow> i + length (cstr path) \<le> length buf \<Longrightarrow>
   \<exists>path' buf' i'. path_part_loop path buf i = Some (path', buf', i') \<and>
     terminated path' \<and> length (cstr path') \<le> length (cstr path)"
proof (induction path buf i rule: path_part_loop.induct)
  case (2 c path buf i)
  then show ?case by (cases "c = 0 \<or> c = SLASH") (auto simp: terminated_def le_Suc_eq)
qed (simp add: terminated_def)

lemma parse_path_part_defined:
  assumes "terminated path" "length (cstr path) \<le> 108"
  shows "\<exists>a' part path'. pathparser_parse_path_part kz a path = Some (a', part, path') \<and>
    terminated path' \<and> length (cstr path') \<le> length (cstr path)"
proof -
  obtain path' buf i where l: "path_part_loop path (replicate 108 0) 0 = Some (path', buf, i)"
    "terminated path'" "length (cstr path') \<le> length (cstr path)"
    using path_part_loop_defined [of path 0 "replicate 108 0"] assms by auto
  have "terminated (tl path')" "length (cstr (tl path')) \<le> length (cstr path)" if "hd path' = SLASH"
    using l(2,3) that by (cases path'; auto simp: terminated_def)+
  then show ?thesis
    using l assms
    by (auto simp: pathparser_parse_path_part_def pathparser_get_path_part_def Let_def split: prod.splits)
qed

lemma parse_rest_defined:
  "terminated path \<Longrightarrow> length (cstr path) \<le> 108 \<Longrightarrow> pathparser_parse_rest kz a path \<noteq> None"
proof (induction kz a path rule: pathparser_parse_rest.induct)
  case (1 kz a path)
  obtain a' part path' where p: "pathparser_parse_path_part kz a path = Some (a', part, path')"
    "terminated path'" "length (cstr path') \<le> 108"
    using parse_path_part_defined [OF 1(2,3), of kz a] 1(3) by auto
  show ?case
  proof (cases part)
    case None
    then show ?thesis using p by (subst pathparser_parse_rest.simps) simp
  next
    case (Some str)
    then show ?thesis using p 1(1) [OF p(1)] by (subst pathparser_parse_rest.simps) auto
  qed
qed

subsection \<open>Properties\<close>

text \<open>
  C40. \<^bold>\<open>Parsing is the inverse of writing a path.\<close> For a drive digit, or \<open>@\<close> with a primary disk, and
  file names that make a path of at most 108 characters, \<open>pathparser_parse\<close> returns the drive and
  exactly these names, when the allocator serves every request.
\<close>

theorem pathparser_parse_roundtrip:
  assumes "never_fails kz" "ps \<noteq> []" "list_all part_name ps"
    and "isdigit drive \<or> drive = AT_SIGN \<and> primary \<noteq> None \<and> the primary \<ge> 0"
    and "length (path_text drive ps) \<le> 108"
  shows "\<exists>a' r. pathparser_parse kz a primary (path_text drive ps @ 0 # junk) = Some (a', Some r) \<and>
    drive_no r = drive_value primary drive \<and> map cstr (parts r) = ps"
proof -
  have "cstr (part_buffer p) = p" if "p \<in> set ps" for p
  proof -
    have "length p \<le> length (concat (map (\<lambda>p. SLASH # p) ps))" using that by (induction ps) auto
    then show ?thesis
      using assms(3,5) that by (intro cstr_part_buffer) (auto simp: list_all_iff part_name_def path_text_def)
  qed
  then show ?thesis using pathparser_parse_text [OF assms, of a junk] by (auto simp: map_idI)
qed

text \<open>The path \<open>0:/bin/sh\<close>, with an allocator that always succeeds.\<close>

theorem pathparser_parse_roundtrip_witness:
  "\<exists>a' r. pathparser_parse (\<lambda>a n. (a, True)) () None [48, 58, 47, 98, 105, 110, 47, 115, 104, 0] = Some (a', Some r) \<and>
     drive_no r = 0 \<and> map cstr (parts r) = [[98, 105, 110], [115, 104]]"
  using pathparser_parse_roundtrip [of "\<lambda>a n. (a, True)" "[[98, 105, 110], [115, 104]]" 48 None "()" "[]"]
  by (simp add: never_fails_def part_name_def isdigit_def path_text_def drive_value_def tonumericdigit_def)

text \<open>
  \<^bold>\<open>The parser stays in bounds.\<close> Whatever the zero-terminated path is, and whichever allocations
  fail, \<open>pathparser_parse\<close> returns: no read leaves the path and no write leaves the 108 bytes of a
  part.
\<close>

theorem pathparser_parse_in_bounds:
  assumes "terminated path" "int (length (cstr path)) \<le> INT_MAX"
  shows "pathparser_parse kz a primary path \<noteq> None"
proof -
  have len: "strlen path = Some (int (length (cstr path)))" by (rule strlen_cstr [OF assms])
  have nlen: "strnlen path 108 = Some (min 108 (int (length (cstr path))))"
    using assms(1) strnlen_cstr [of path 108] by simp
  have d: "terminated (drop 3 path) \<and> length (cstr (drop 3 path)) \<le> length (cstr path)"
    if "3 \<le> length (cstr path)"
  proof -
    obtain rest where "path = cstr path @ 0 # rest" using terminated_decomp [OF assms(1)] by blast
    then have "drop 3 path = drop 3 (cstr path) @ 0 # rest" using that by (metis drop_append diff_is_0_eq drop_0)
    moreover have "0 \<notin> set (drop 3 (cstr path))" using cstr_no_zero [of path] set_drop_subset by fastforce
    ultimately show ?thesis using cstr_append by (simp add: terminated_def)
  qed
  have rest: "pathparser_parse_path_part kz a1 (drop 3 path) \<bind> (\<lambda>(a2, first_part, tmp_path).
      case first_part of None \<Rightarrow> Some (a2, None)
      | Some str \<Rightarrow> pathparser_parse_rest kz a2 tmp_path \<bind> (\<lambda>(a3, strs). Some (a3, Some (root\<lparr>parts := str # strs\<rparr>)))) \<noteq> None"
    if l: "3 \<le> length (cstr path)" "length (cstr path) \<le> 108" for a1 root
  proof -
    have "length (cstr (drop 3 path)) \<le> 108" using d l by fastforce
    then obtain a2 part tmp where p: "pathparser_parse_path_part kz a1 (drop 3 path) = Some (a2, part, tmp)"
      "terminated tmp" "length (cstr tmp) \<le> 108"
      using parse_path_part_defined [of "drop 3 path" kz a1] d l by auto
    then show ?thesis using parse_rest_defined [OF p(2,3), of kz a2] by (auto split: option.splits)
  qed
  show ?thesis
    using len nlen rest
    by (auto simp: pathparser_parse_def pathparser_get_drive_by_path_def pathparser_path_valid_format_def
        split: option.splits prod.splits if_splits)
qed

theorem pathparser_parse_in_bounds_witness:
  "pathparser_parse (\<lambda>a n. (a, False)) () None [48, 58, 47, 0] \<noteq> None"
  by (rule pathparser_parse_in_bounds) (simp_all add: terminated_def)

text \<open>
  \<^bold>\<open>A doubled slash ends the path.\<close> What follows an empty component is dropped without an error: the
  path before it is the result.
\<close>

theorem pathparser_doubled_slash_truncates:
  assumes "never_fails kz" "part_name p" "isdigit drive"
    and "length (cstr rest) + length p \<le> 103" "terminated rest"
  shows "\<exists>a'. pathparser_parse kz a primary ([drive, COLON, SLASH] @ p @ [SLASH, SLASH] @ rest) =
    Some (a', Some \<lparr>drive_no = tonumericdigit drive, parts = [part_buffer p]\<rparr>)"
proof -
  let ?r = "p @ SLASH # SLASH # rest"
  have p0: "0 \<notin> set p" using assms(2) by (simp add: part_name_def)
  then have c: "cstr ?r = p @ SLASH # SLASH # cstr rest" by (induction p) auto
  have l: "Suc (Suc (Suc (length (cstr ?r)))) \<le> 108" "terminated ?r"
    using assms(4,5) unfolding c by (simp_all add: terminated_def)
  obtain a1 where a1: "pathparser_parse kz a primary ([drive, COLON, SLASH] @ ?r) =
    (do { (a2, first_part, tmp_path) \<leftarrow> pathparser_parse_path_part kz a1 ?r;
       case first_part of None \<Rightarrow> Some (a2, None)
       | Some str \<Rightarrow> do { (a3, strs) \<leftarrow> pathparser_parse_rest kz a2 tmp_path;
           Some (a3, Some (\<lparr>drive_no = drive_value primary drive, parts = []\<rparr>\<lparr>parts := str # strs\<rparr>)) } })"
    using parse_prefix [OF disjI1 [OF assms(3)] l assms(1)] by blast
  obtain a2 where a2: "pathparser_parse_path_part kz a1 ?r = Some (a2, Some (part_buffer p), SLASH # rest)"
    using parse_path_part_name [OF assms(2) _ _ assms(1), of SLASH a1 "SLASH # rest"] assms(4) by auto
  obtain a3 x where "pathparser_parse_path_part kz a2 (SLASH # rest) = Some (a3, None, x)"
    using parse_path_part_end [OF assms(1), of SLASH] by blast
  then have "pathparser_parse_rest kz a2 (SLASH # rest) = Some (a3, [])"
    by (subst pathparser_parse_rest.simps) simp
  moreover have "drive_value primary drive = tonumericdigit drive"
    using assms(3) by (auto simp: drive_value_def isdigit_def)
  ultimately show ?thesis using a1 a2 by simp
qed

text \<open>The path \<open>0:/a//b\<close>.\<close>

theorem pathparser_doubled_slash_truncates_witness:
  "\<exists>a'. pathparser_parse (\<lambda>a n. (a, True)) () None [48, 58, 47, 97, 47, 47, 98, 0] =
     Some (a', Some \<lparr>drive_no = 0, parts = [part_buffer [97]]\<rparr>)"
  using pathparser_doubled_slash_truncates [of "\<lambda>a n. (a, True)" "[97]" 48 "[98, 0]" "()" None]
  by (simp add: never_fails_def part_name_def isdigit_def terminated_def tonumericdigit_def)

end
