(* ===== verification/DiskCache.thy ===== *)
theory DiskCache
  imports Prelude
begin

section \<open>The sector cache: streamer.c, first half\<close>

text \<open>
  The cache of \<open>disk/streamer.c\<close>: sectors by their byte offset on the hardware disk, in three levels
  of buckets. An array of pointers is a partial map, whose absent keys are the null pointers; an
  index outside the array is \<open>None\<close>. A level-3 bucket is named by its three indices, which is how
  the round-robin queue refers to it. \<open>kfree\<close> does nothing in this kernel, so a bucket that
  \<open>diskstreamer_cache_bucket_level3_free\<close> frees keeps its contents and its place.
\<close>

abbreviation (input) DISK_STREAMER_CACHE_STATUS_NEW_CACHE_ENTRY :: int where
  "DISK_STREAMER_CACHE_STATUS_NEW_CACHE_ENTRY \<equiv> 1"
abbreviation (input) DISK_STREAMER_CACHE_STATUS_CACHE_FOUND :: int where
  "DISK_STREAMER_CACHE_STATUS_CACHE_FOUND \<equiv> 0"
abbreviation (input) DISK_STREAMER_MAX_CACHE_SECTOR_SIZE :: nat where
  "DISK_STREAMER_MAX_CACHE_SECTOR_SIZE \<equiv> 2048"
abbreviation (input) DISK_STREAM_LEVEL3_SECTORS_ARRAY_SIZE :: int where
  "DISK_STREAM_LEVEL3_SECTORS_ARRAY_SIZE \<equiv> 64"
abbreviation (input) DISK_STREAM_BUCKET_ARRAY_SIZE :: int where
  "DISK_STREAM_BUCKET_ARRAY_SIZE \<equiv> 1024"
abbreviation (input) DISK_STREAM_CACHE_ROUNDROBIN_MAX :: int where
  "DISK_STREAM_CACHE_ROUNDROBIN_MAX \<equiv> 1024"

definition DISK_STREAM_BUCKET3_BYTE_SIZE :: "int \<Rightarrow> int" where
  "DISK_STREAM_BUCKET3_BYTE_SIZE sector_size = 64 * sector_size"

definition DISK_STREAM_BUCKET2_BYTE_SIZE :: "int \<Rightarrow> int" where
  "DISK_STREAM_BUCKET2_BYTE_SIZE sector_size = DISK_STREAM_BUCKET3_BYTE_SIZE sector_size * 1024"

definition DISK_STREAM_BUCKET1_BYTE_SIZE :: "int \<Rightarrow> int" where
  "DISK_STREAM_BUCKET1_BYTE_SIZE sector_size = DISK_STREAM_BUCKET2_BYTE_SIZE sector_size * 1024"

record cache_bucket_level3 =
  sectors :: "nat \<rightharpoonup> u8 list"
  total_sectors :: u64
  roundrobin_count :: int

record cache_bucket_level2 =
  buckets2 :: "nat \<rightharpoonup> cache_bucket_level3"
  total_buckets2 :: u64

record cache_bucket_level1 =
  buckets1 :: "nat \<rightharpoonup> cache_bucket_level2"
  total_buckets1 :: u64

type_synonym level3_ref = "nat \<times> nat \<times> nat"

record cache_round_robin =
  queue :: "nat \<rightharpoonup> level3_ref"
  rr_pos :: int

record stream_cache =
  buckets :: "nat \<rightharpoonup> cache_bucket_level1"
  cache_total :: u64
  mem_roundrobin :: cache_round_robin

definition empty_cache :: stream_cache where
  "empty_cache = \<lparr>buckets = Map.empty, cache_total = 0, mem_roundrobin = \<lparr>queue = Map.empty, rr_pos = 0\<rparr>\<rparr>"

definition diskstreamer_cache_new :: "'a allocator \<Rightarrow> 'a \<Rightarrow> 'a \<times> stream_cache option" where
  "diskstreamer_cache_new kz a = (let (a', ok) = kz a 8224 in (a', if ok then Some empty_cache else None))"

text \<open>
  The three lookups create the bucket when it is absent. The first grows the array of pointers
  with \<open>krealloc\<close>. The result says whether there is a bucket now.
\<close>

definition diskstreamer_cache_bucket_level1_get ::
  "'a allocator \<Rightarrow> 'a \<Rightarrow> stream_cache \<Rightarrow> int \<Rightarrow> ('a \<times> stream_cache \<times> bool) option" where
  "diskstreamer_cache_bucket_level1_get kz a cache index = do {
     let grow = cache_total cache \<le> size_of_int index;
     let new_total = size_of_int (index + 1);
     let (a1, ok) = (if grow then kz a (new_total * 8) else (a, True));
     if \<not> ok then Some (a1, cache, False)
     else do {
       let cache1 = (if grow then cache\<lparr>cache_total := new_total\<rparr> else cache);
       if index < 0 then None
       else case buckets cache1 (nat index) of
         Some _ \<Rightarrow> Some (a1, cache1, True)
       | None \<Rightarrow>
           (let (a2, ok) = kz a1 8200 in
            if \<not> ok then Some (a2, cache1, False)
            else Some (a2, cache1\<lparr>buckets := (buckets cache1)(nat index \<mapsto>
                        \<lparr>buckets1 = Map.empty, total_buckets1 = 0\<rparr>)\<rparr>, True))
     }
   }"

definition diskstreamer_cache_bucket_level2_get ::
  "'a allocator \<Rightarrow> 'a \<Rightarrow> cache_bucket_level1 \<Rightarrow> int \<Rightarrow> ('a \<times> cache_bucket_level1 \<times> bool) option" where
  "diskstreamer_cache_bucket_level2_get kz a level1_bucket index =
     (if index \<ge> DISK_STREAM_BUCKET_ARRAY_SIZE then Some (a, level1_bucket, False)
      else if index < 0 then None
      else case buckets1 level1_bucket (nat index) of
        Some _ \<Rightarrow> Some (a, level1_bucket, True)
      | None \<Rightarrow>
          (let (a', ok) = kz a 8200 in
           if \<not> ok then Some (a', level1_bucket, False)
           else Some (a', level1_bucket\<lparr>buckets1 := (buckets1 level1_bucket)(nat index \<mapsto>
                       \<lparr>buckets2 = Map.empty, total_buckets2 = 0\<rparr>)\<rparr>, True)))"

definition diskstreamer_cache_bucket_level3_get ::
  "'a allocator \<Rightarrow> 'a \<Rightarrow> cache_bucket_level2 \<Rightarrow> int \<Rightarrow> ('a \<times> cache_bucket_level2 \<times> bool) option" where
  "diskstreamer_cache_bucket_level3_get kz a level2 index =
     (if index \<ge> DISK_STREAM_BUCKET_ARRAY_SIZE then Some (a, level2, False)
      else if index < 0 then None
      else case buckets2 level2 (nat index) of
        Some _ \<Rightarrow> Some (a, level2, True)
      | None \<Rightarrow>
          (let (a', ok) = kz a 528 in
           if \<not> ok then Some (a', level2, False)
           else Some (a', level2\<lparr>buckets2 := (buckets2 level2)(nat index \<mapsto>
                       \<lparr>sectors = Map.empty, total_sectors = 0, roundrobin_count = 0\<rparr>)\<rparr>, True)))"

text \<open>Reading and updating the bucket a reference names.\<close>

definition level3_at :: "stream_cache \<Rightarrow> level3_ref \<Rightarrow> cache_bucket_level3 option" where
  "level3_at cache r = (case r of (i, j, k) \<Rightarrow> do {
     l1 \<leftarrow> buckets cache i; l2 \<leftarrow> buckets1 l1 j; buckets2 l2 k })"

definition level3_update ::
  "stream_cache \<Rightarrow> level3_ref \<Rightarrow> (cache_bucket_level3 \<Rightarrow> cache_bucket_level3) \<Rightarrow> stream_cache" where
  "level3_update cache r f = (case r of (i, j, k) \<Rightarrow>
     cache\<lparr>buckets := (buckets cache)(i := map_option (\<lambda>l1.
       l1\<lparr>buckets1 := (buckets1 l1)(j := map_option (\<lambda>l2.
         l2\<lparr>buckets2 := (buckets2 l2)(k := map_option f (buckets2 l2 k))\<rparr>) (buckets1 l1 j))\<rparr>) (buckets cache i))\<rparr>)"

text \<open>
  The queue of the last 1024 additions. The bucket that falls out of it would be freed when its
  count is zero; see above. The position is an \<open>int\<close> and overflows.
\<close>

definition diskstreamer_cache_round_robin_add :: "stream_cache \<Rightarrow> level3_ref \<Rightarrow> stream_cache option" where
  "diskstreamer_cache_round_robin_add cache level3 = do {
     let rr = mem_roundrobin cache;
     let index = rr_pos rr smod DISK_STREAM_CACHE_ROUNDROBIN_MAX;
     if index < 0 \<or> rr_pos rr = 2147483647 then None
     else do {
       let cache1 = (case queue rr (nat index) of
           None \<Rightarrow> cache
         | Some old_elem \<Rightarrow>
             level3_update cache old_elem (\<lambda>l3. l3\<lparr>roundrobin_count := roundrobin_count l3 - 1\<rparr>));
       let cache2 = level3_update cache1 level3 (\<lambda>l3. l3\<lparr>roundrobin_count := roundrobin_count l3 + 1\<rparr>);
       Some (cache2\<lparr>mem_roundrobin := \<lparr>queue = (queue rr)(nat index \<mapsto> level3), rr_pos = rr_pos rr + 1\<rparr>\<rparr>)
     }
   }"

text \<open>
  The lookup of the sector at a byte offset. The result is the status and where the sector is.
  The last two lines of the address arithmetic are in the unsigned type of \<open>sizeof\<close>.
\<close>

type_synonym sector_ref = "level3_ref \<times> nat"

definition diskstreamer_cache_find ::
  "'a allocator \<Rightarrow> 'a \<Rightarrow> stream_cache option \<Rightarrow> int \<Rightarrow> int \<Rightarrow>
   ('a \<times> stream_cache option \<times> int \<times> sector_ref option) option" where
  "diskstreamer_cache_find kz a disk_cache disk_sector_size pos =
     (case disk_cache of
        None \<Rightarrow> Some (a, None, - ENOENT, None)
      | Some cache \<Rightarrow>
          if disk_sector_size = 0 then None
          else do {
            let level1_size = DISK_STREAM_BUCKET1_BYTE_SIZE disk_sector_size;
            let level2_size = DISK_STREAM_BUCKET2_BYTE_SIZE disk_sector_size;
            let level3_size = DISK_STREAM_BUCKET3_BYTE_SIZE disk_sector_size;
            let level1_bucket = pos sdiv level1_size;
            let pos_in_level1 = pos smod level1_size;
            let level2_bucket = pos_in_level1 sdiv level2_size;
            let pos_in_level2 = pos_in_level1 smod level2_size;
            let level3_bucket = pos_in_level2 sdiv level3_size;
            (a1, cache1, ok1) \<leftarrow> diskstreamer_cache_bucket_level1_get kz a cache level1_bucket;
            if \<not> ok1 then Some (a1, Some cache1, - EINVAL, None)
            else do {
              l1 \<leftarrow> buckets cache1 (nat level1_bucket);
              (a2, l1', ok2) \<leftarrow> diskstreamer_cache_bucket_level2_get kz a1 l1 level2_bucket;
              let cache2 = cache1\<lparr>buckets := (buckets cache1)(nat level1_bucket \<mapsto> l1')\<rparr>;
              if \<not> ok2 then Some (a2, Some cache2, - EINVAL, None)
              else do {
                l2 \<leftarrow> buckets1 l1' (nat level2_bucket);
                (a3, l2', ok3) \<leftarrow> diskstreamer_cache_bucket_level3_get kz a2 l2 level3_bucket;
                let l1'' = l1'\<lparr>buckets1 := (buckets1 l1')(nat level2_bucket \<mapsto> l2')\<rparr>;
                let cache3 = cache2\<lparr>buckets := (buckets cache2)(nat level1_bucket \<mapsto> l1'')\<rparr>;
                if \<not> ok3 then Some (a3, Some cache3, - EINVAL, None)
                else do {
                  let pos_in_level3 = pos_in_level2 smod level3_size;
                  let byte_offset = int_of_size (word_of_int pos_in_level3 mod (512 * word_of_int disk_sector_size));
                  let sector_index = byte_offset sdiv disk_sector_size;
                  let ref = (nat level1_bucket, nat level2_bucket, nat level3_bucket);
                  l3 \<leftarrow> level3_at cache3 ref;
                  if sector_index < 0 \<or> sector_index \<ge> DISK_STREAM_LEVEL3_SECTORS_ARRAY_SIZE then None
                  else case sectors l3 (nat sector_index) of
                    Some _ \<Rightarrow> Some (a3, Some cache3, DISK_STREAMER_CACHE_STATUS_CACHE_FOUND, Some (ref, nat sector_index))
                  | None \<Rightarrow>
                      (let (a4, ok) = kz a3 2048 in
                       if \<not> ok then Some (a4, Some cache3, - ENOMEM, None)
                       else do {
                         let cache4 = level3_update cache3 ref (\<lambda>l3. l3\<lparr>
                             sectors := (sectors l3)(nat sector_index \<mapsto> replicate DISK_STREAMER_MAX_CACHE_SECTOR_SIZE 0),
                             total_sectors := total_sectors l3 + 1\<rparr>);
                         cache5 \<leftarrow> diskstreamer_cache_round_robin_add cache4 ref;
                         Some (a4, Some cache5, DISK_STREAMER_CACHE_STATUS_NEW_CACHE_ENTRY, Some (ref, nat sector_index))
                       })
                }
              }
            }
          })"


subsection \<open>The cache as a map of sectors\<close>

text \<open>The sector a reference names, and the reference of a sector of the hardware disk.\<close>

definition sector_at :: "stream_cache \<Rightarrow> sector_ref \<Rightarrow> u8 list option" where
  "sector_at cache r = do { l3 \<leftarrow> level3_at cache (fst r); sectors l3 (snd r) }"

definition sector_ref_of :: "nat \<Rightarrow> sector_ref" where
  "sector_ref_of s = ((s div 64 div 1024 div 1024, s div 64 div 1024 mod 1024, s div 64 mod 1024), s mod 64)"

lemma sector_ref_of_inj: "sector_ref_of s = sector_ref_of t \<longleftrightarrow> s = t"
proof
  assume "sector_ref_of s = sector_ref_of t"
  then have e: "s div 64 div 1024 div 1024 = t div 64 div 1024 div 1024"
    "s div 64 div 1024 mod 1024 = t div 64 div 1024 mod 1024"
    "s div 64 mod 1024 = t div 64 mod 1024" "s mod 64 = t mod 64"
    unfolding sector_ref_of_def prod.inject by blast+
  have "s div 64 div 1024 = t div 64 div 1024" using e(1,2) by (metis div_mult_mod_eq)
  then have "s div 64 = t div 64" using e(3) by (metis div_mult_mod_eq)
  then show "s = t" using e(4) by (metis div_mult_mod_eq)
qed simp

lemma level3_at_update:
  "level3_at (level3_update cache r f) r' =
    (if r = r' then map_option f (level3_at cache r) else level3_at cache r')"
  by (cases r; cases r') (auto simp: level3_at_def level3_update_def split: option.splits bind_splits)

lemma level3_at_rr [simp]: "level3_at (cache\<lparr>mem_roundrobin := x\<rparr>) = level3_at cache"
  by (simp add: level3_at_def fun_eq_iff)

lemma sector_at_count:
  "(\<And>l3. sectors (f l3) = sectors l3) \<Longrightarrow> sector_at (level3_update cache r f) = sector_at cache"
  by (auto simp: sector_at_def fun_eq_iff level3_at_update split: bind_splits)

lemma mem_roundrobin_update [simp]: "mem_roundrobin (level3_update cache r f) = mem_roundrobin cache"
  by (cases r) (simp add: level3_update_def)

lemma round_robin_add_sectors:
  assumes "0 \<le> rr_pos (mem_roundrobin cache)" "rr_pos (mem_roundrobin cache) < 2147483647"
  shows "\<exists>cache'. diskstreamer_cache_round_robin_add cache r = Some cache' \<and>
    sector_at cache' = sector_at cache \<and>
    rr_pos (mem_roundrobin cache') = rr_pos (mem_roundrobin cache) + 1"
proof -
  let ?p = "rr_pos (mem_roundrobin cache)"
  have i: "\<not> (?p smod 1024 < 0 \<or> ?p = 2147483647)"
    using assms pos_mod_sign [of 1024 ?p] by (auto simp: signed_modulo_int_def sgn_if not_less)
  have s: "sector_at (c\<lparr>mem_roundrobin := x\<rparr>) = sector_at c" for c :: stream_cache and x
    by (simp add: sector_at_def fun_eq_iff)
  show ?thesis
    using i by (auto simp: diskstreamer_cache_round_robin_add_def Let_def s sector_at_count split: option.splits)
qed

text \<open>The lookups of the buckets change no sector.\<close>

lemma level1_get_ok:
  assumes "never_fails kz" "0 \<le> index"
  shows "\<exists>a' cache' l1. diskstreamer_cache_bucket_level1_get kz a cache index = Some (a', cache', True) \<and>
    buckets cache' (nat index) = Some l1 \<and> level3_at cache' = level3_at cache \<and>
    mem_roundrobin cache' = mem_roundrobin cache"
proof -
  define grow where "grow = (cache_total cache \<le> size_of_int index)"
  define c1 where "c1 = (if grow then cache\<lparr>cache_total := size_of_int (index + 1)\<rparr> else cache)"
  obtain a1 where a1: "(if grow then kz a (size_of_int (index + 1) * 8) else (a, True)) = (a1, True)"
    using never_fails_D [OF assms(1)] by (cases grow) auto
  obtain a2 where a2: "kz a1 8200 = (a2, True)" using never_fails_D [OF assms(1)] by blast
  have c1: "buckets c1 = buckets cache" "mem_roundrobin c1 = mem_roundrobin cache"
    by (simp_all add: c1_def)
  have get: "diskstreamer_cache_bucket_level1_get kz a cache index =
    (case buckets c1 (nat index) of Some _ \<Rightarrow> Some (a1, c1, True)
     | None \<Rightarrow> Some (a2, c1\<lparr>buckets := (buckets c1)(nat index \<mapsto> \<lparr>buckets1 = Map.empty, total_buckets1 = 0\<rparr>)\<rparr>, True))"
    using assms(2) a1 a2
    by (auto simp: diskstreamer_cache_bucket_level1_get_def Let_def grow_def [symmetric] c1_def [symmetric] split: option.splits)
  show ?thesis
  proof (cases "buckets c1 (nat index)")
    case None
    have "level3_at (c1\<lparr>buckets := (buckets c1)(nat index \<mapsto> \<lparr>buckets1 = Map.empty, total_buckets1 = 0\<rparr>)\<rparr>) = level3_at cache"
      using None c1 by (auto simp: level3_at_def fun_eq_iff)
    then show ?thesis using None get c1 by simp
  next
    case (Some l1)
    have "level3_at c1 = level3_at cache" using c1 by (simp add: level3_at_def fun_eq_iff)
    then show ?thesis using Some get c1 by auto
  qed
qed

lemma level2_get_ok:
  assumes "never_fails kz" "0 \<le> index" "index < 1024"
  shows "\<exists>a' l1' l2. diskstreamer_cache_bucket_level2_get kz a l1 index = Some (a', l1', True) \<and>
    buckets1 l1' (nat index) = Some l2 \<and>
    (\<forall>j k. (buckets1 l1' j \<bind> (\<lambda>l2. buckets2 l2 k)) = (buckets1 l1 j \<bind> (\<lambda>l2. buckets2 l2 k)))"
proof (cases "buckets1 l1 (nat index)")
  case None
  obtain a' where "kz a 8200 = (a', True)" using never_fails_D [OF assms(1)] by blast
  then show ?thesis using assms None by (auto simp: diskstreamer_cache_bucket_level2_get_def)
qed (use assms in \<open>auto simp: diskstreamer_cache_bucket_level2_get_def\<close>)

lemma level3_get_ok:
  assumes "never_fails kz" "0 \<le> index" "index < 1024"
  shows "\<exists>a' l2' l3. diskstreamer_cache_bucket_level3_get kz a l2 index = Some (a', l2', True) \<and>
    buckets2 l2' (nat index) = Some l3 \<and>
    (\<forall>k i. (buckets2 l2' k \<bind> (\<lambda>l3. sectors l3 i)) = (buckets2 l2 k \<bind> (\<lambda>l3. sectors l3 i)))"
proof (cases "buckets2 l2 (nat index)")
  case None
  obtain a' where "kz a 528 = (a', True)" using never_fails_D [OF assms(1)] by blast
  then show ?thesis using assms None by (auto simp: diskstreamer_cache_bucket_level3_get_def)
qed (use assms in \<open>auto simp: diskstreamer_cache_bucket_level3_get_def\<close>)


text \<open>The address arithmetic of the lookup, for the first byte of sector \<open>s\<close>.\<close>

lemma sdiv_pos: "0 \<le> a \<Longrightarrow> 0 < b \<Longrightarrow> a sdiv b = a div b" for a b :: int
  by (auto simp: signed_divide_int_def sgn_if)

lemma smod_pos: "0 \<le> a \<Longrightarrow> 0 < b \<Longrightarrow> a smod b = a mod b" for a b :: int
  by (auto simp: signed_modulo_int_def sgn_if)

lemma scaled_split:
  fixes x c b :: int
  assumes "0 \<le> x" "0 < c" "0 < b"
  shows "(x * c) sdiv (b * c) = x div b" "(x * c) smod (b * c) = (x mod b) * c"
  using assms by (simp_all add: sdiv_pos smod_pos mult_mod_left)

lemma small_offset:
  assumes "0 \<le> x" "x < 64" "0 < ss" "ss \<le> 2048"
  shows "int_of_size (word_of_int (x * ss) mod (512 * word_of_int ss)) = x * ss"
proof -
  have "x * ss \<le> 63 * ss" using assms by (intro mult_right_mono) simp_all
  then have b: "0 \<le> x * ss" "x * ss < 512 * ss" "512 * ss \<le> 2 ^ 20" using assms by simp_all
  have u: "uint (word_of_int (x * ss) :: u64) = x * ss" "uint (512 * word_of_int ss :: u64) = 512 * ss"
  proof -
    show "uint (word_of_int (x * ss) :: u64) = x * ss"
      unfolding uint_word_of_int using b by (intro mod_pos_pos_trivial) simp_all
    have e: "(512 * word_of_int ss :: u64) = word_of_int (512 * ss)" by simp
    show "uint (512 * word_of_int ss :: u64) = 512 * ss"
      unfolding e uint_word_of_int using b by (intro mod_pos_pos_trivial) simp_all
  qed
  have m: "uint (word_of_int (x * ss) mod (512 * word_of_int ss) :: u64) = x * ss"
    unfolding uint_mod_distrib u using b(1,2) by simp
  have "uint (word_of_int (x * ss) mod (512 * word_of_int ss) :: u64) < 2 ^ 31"
    unfolding m using b by simp
  from int_of_size_uint [OF this] show ?thesis using m by simp
qed

lemma cache_address:
  fixes ss :: int and s :: nat
  assumes ss: "0 < ss" "ss \<le> 2048"
  defines "pos \<equiv> int s * ss"
  defines "p1 \<equiv> pos smod DISK_STREAM_BUCKET1_BYTE_SIZE ss"
  defines "p2 \<equiv> p1 smod DISK_STREAM_BUCKET2_BYTE_SIZE ss"
  defines "p3 \<equiv> p2 smod DISK_STREAM_BUCKET3_BYTE_SIZE ss"
  shows "pos sdiv DISK_STREAM_BUCKET1_BYTE_SIZE ss = int (s div 64 div 1024 div 1024)"
    and "p1 sdiv DISK_STREAM_BUCKET2_BYTE_SIZE ss = int (s div 64 div 1024 mod 1024)"
    and "p2 sdiv DISK_STREAM_BUCKET3_BYTE_SIZE ss = int (s div 64 mod 1024)"
    and "int_of_size (word_of_int p3 mod (512 * word_of_int ss)) sdiv ss = int (s mod 64)"
proof -
  have sz: "DISK_STREAM_BUCKET1_BYTE_SIZE ss = 67108864 * ss" "DISK_STREAM_BUCKET2_BYTE_SIZE ss = 65536 * ss"
    "DISK_STREAM_BUCKET3_BYTE_SIZE ss = 64 * ss"
    by (simp_all add: DISK_STREAM_BUCKET1_BYTE_SIZE_def DISK_STREAM_BUCKET2_BYTE_SIZE_def
        DISK_STREAM_BUCKET3_BYTE_SIZE_def)
  have n1: "s div 67108864 = s div 64 div 1024 div 1024"
    by (simp add: div_mult2_eq [symmetric])
  have n2: "s mod 67108864 div 65536 = s div 64 div 1024 mod 1024"
    using mod_mult2_eq [of s 65536 1024] by (simp add: div_mult2_eq [symmetric])
  have "s mod 67108864 mod 65536 = s mod 65536" by (rule mod_mod_cancel) simp
  moreover have "s mod 65536 div 64 = s div 64 mod 1024" using mod_mult2_eq [of s 64 1024] by simp
  moreover have "s mod 65536 mod 64 = s mod 64" by (rule mod_mod_cancel) simp
  ultimately have n3: "s mod 67108864 mod 65536 div 64 = s div 64 mod 1024"
    and n4: "s mod 67108864 mod 65536 mod 64 = s mod 64" by simp_all
  have p: "p1 = (int s mod 67108864) * ss" "p2 = (int s mod 67108864 mod 65536) * ss"
    "p3 = (int s mod 67108864 mod 65536 mod 64) * ss"
    using ss by (simp_all only: p1_def p2_def p3_def pos_def sz scaled_split pos_mod_sign of_nat_0_le_iff zero_less_numeral)
  show "pos sdiv DISK_STREAM_BUCKET1_BYTE_SIZE ss = int (s div 64 div 1024 div 1024)"
    using ss by (simp add: pos_def sz scaled_split n1 [symmetric] zdiv_int)
  show "p1 sdiv DISK_STREAM_BUCKET2_BYTE_SIZE ss = int (s div 64 div 1024 mod 1024)"
    using ss by (simp add: p sz scaled_split n2 [symmetric] zdiv_int zmod_int)
  show "p2 sdiv DISK_STREAM_BUCKET3_BYTE_SIZE ss = int (s div 64 mod 1024)"
    using ss unfolding p sz n3 [symmetric] zdiv_int zmod_int by (subst scaled_split) simp_all
  have "int_of_size (word_of_int p3 mod (512 * word_of_int ss)) = (int s mod 67108864 mod 65536 mod 64) * ss"
    unfolding p by (rule small_offset) (use ss in simp_all)
  then show "int_of_size (word_of_int p3 mod (512 * word_of_int ss)) sdiv ss = int (s mod 64)"
    using ss unfolding n4 [symmetric] zmod_int by (simp add: sdiv_pos)
qed


text \<open>
  The lookup of sector \<open>s\<close> of the hardware disk, when no allocation fails: a sector that is there is
  found, one that is not is added with all bytes zero, and no other sector changes.
\<close>

definition zero_sector :: "u8 list" where
  "zero_sector = replicate DISK_STREAMER_MAX_CACHE_SECTOR_SIZE 0"

lemma sector_at_bucket:
  "sector_at cache ((i, j, k), n) = do { l1 \<leftarrow> buckets cache i; l2 \<leftarrow> buckets1 l1 j; l3 \<leftarrow> buckets2 l2 k; sectors l3 n }"
  by (simp add: sector_at_def level3_at_def bind_assoc)

lemma buckets_path:
  assumes kz: "never_fails kz" and j: "0 \<le> j" "j < 1024" and k: "0 \<le> k" "k < 1024" and i: "0 \<le> i"
  shows "\<exists>a1 c1 l1 a2 l1' l2 a3 l2' l3.
    diskstreamer_cache_bucket_level1_get kz a cache i = Some (a1, c1, True) \<and> buckets c1 (nat i) = Some l1 \<and>
    diskstreamer_cache_bucket_level2_get kz a1 l1 j = Some (a2, l1', True) \<and> buckets1 l1' (nat j) = Some l2 \<and>
    diskstreamer_cache_bucket_level3_get kz a2 l2 k = Some (a3, l2', True) \<and> buckets2 l2' (nat k) = Some l3 \<and>
    mem_roundrobin c1 = mem_roundrobin cache \<and>
    sector_at (c1\<lparr>buckets := (buckets c1)(nat i \<mapsto> l1'\<lparr>buckets1 := (buckets1 l1')(nat j \<mapsto> l2')\<rparr>)\<rparr>) = sector_at cache"
proof -
  obtain a1 c1 l1 where 1: "diskstreamer_cache_bucket_level1_get kz a cache i = Some (a1, c1, True)"
    "buckets c1 (nat i) = Some l1" "level3_at c1 = level3_at cache" "mem_roundrobin c1 = mem_roundrobin cache"
    using level1_get_ok [OF kz i] by blast
  obtain a2 l1' l2 where 2: "diskstreamer_cache_bucket_level2_get kz a1 l1 j = Some (a2, l1', True)"
    "buckets1 l1' (nat j) = Some l2"
    "\<And>j k. (buckets1 l1' j \<bind> (\<lambda>l2. buckets2 l2 k)) = (buckets1 l1 j \<bind> (\<lambda>l2. buckets2 l2 k))"
    using level2_get_ok [OF kz j] by blast
  obtain a3 l2' l3 where 3: "diskstreamer_cache_bucket_level3_get kz a2 l2 k = Some (a3, l2', True)"
    "buckets2 l2' (nat k) = Some l3"
    "\<And>k i. (buckets2 l2' k \<bind> (\<lambda>l3. sectors l3 i)) = (buckets2 l2 k \<bind> (\<lambda>l3. sectors l3 i))"
    using level3_get_ok [OF kz k] by blast
  let ?c = "c1\<lparr>buckets := (buckets c1)(nat i \<mapsto> l1'\<lparr>buckets1 := (buckets1 l1')(nat j \<mapsto> l2')\<rparr>)\<rparr>"
  have "sector_at ?c r = sector_at cache r" for r
  proof -
    obtain x y z n where r: "r = ((x, y, z), n)" by (metis prod.exhaust)
    have c1: "sector_at cache r = sector_at c1 r" using 1(3) by (simp add: sector_at_def)
    show ?thesis
    proof (cases "x = nat i")
      case False
      then show ?thesis unfolding c1 by (simp add: r sector_at_bucket)
    next
      case x: True
      have old: "sector_at c1 r = (buckets1 l1 y \<bind> (\<lambda>l2. buckets2 l2 z)) \<bind> (\<lambda>l3. sectors l3 n)"
        using x 1(2) by (simp add: r sector_at_bucket bind_assoc)
      also have "\<dots> = (buckets1 l1' y \<bind> (\<lambda>l2. buckets2 l2 z)) \<bind> (\<lambda>l3. sectors l3 n)"
        by (simp add: 2(3))
      also have "\<dots> = sector_at ?c r"
        using x 2(2) 3(3) [of z n] by (cases "y = nat j") (simp_all add: r sector_at_bucket bind_assoc)
      finally show ?thesis unfolding c1 by simp
    qed
  qed
  then show ?thesis using 1 2 3 by blast
qed

lemma cache_find_sector:
  assumes kz: "never_fails kz" and ss: "0 < ss" "ss \<le> 2048"
    and rr: "0 \<le> rr_pos (mem_roundrobin cache)" "rr_pos (mem_roundrobin cache) < 2147483647"
  shows "\<exists>a' cache' st. diskstreamer_cache_find kz a (Some cache) ss (int s * ss) =
      Some (a', Some cache', st, Some (sector_ref_of s)) \<and>
    (st = DISK_STREAMER_CACHE_STATUS_CACHE_FOUND \<and> sector_at cache (sector_ref_of s) \<noteq> None \<and>
       sector_at cache' = sector_at cache \<and>
       rr_pos (mem_roundrobin cache') = rr_pos (mem_roundrobin cache) \<or>
     st = DISK_STREAMER_CACHE_STATUS_NEW_CACHE_ENTRY \<and> sector_at cache (sector_ref_of s) = None \<and>
       sector_at cache' = (sector_at cache)(sector_ref_of s \<mapsto> zero_sector) \<and>
       rr_pos (mem_roundrobin cache') = rr_pos (mem_roundrobin cache) + 1)"
proof -
  let ?i = "s div 64 div 1024 div 1024" and ?j = "s div 64 div 1024 mod 1024"
    and ?k = "s div 64 mod 1024" and ?n = "s mod 64"
  note addr = cache_address [OF ss, of s]
  obtain a1 c1 l1 a2 l1' l2 a3 l2' l3 where b:
    "diskstreamer_cache_bucket_level1_get kz a cache (int ?i) = Some (a1, c1, True)" "buckets c1 ?i = Some l1"
    "diskstreamer_cache_bucket_level2_get kz a1 l1 (int ?j) = Some (a2, l1', True)" "buckets1 l1' ?j = Some l2"
    "diskstreamer_cache_bucket_level3_get kz a2 l2 (int ?k) = Some (a3, l2', True)" "buckets2 l2' ?k = Some l3"
    "mem_roundrobin c1 = mem_roundrobin cache"
    "sector_at (c1\<lparr>buckets := (buckets c1)(?i \<mapsto> l1'\<lparr>buckets1 := (buckets1 l1')(?j \<mapsto> l2')\<rparr>)\<rparr>) = sector_at cache"
    using buckets_path [OF kz, of "int ?j" "int ?k" "int ?i" a cache] by (auto simp del: of_nat_mod of_nat_div zmod_int zdiv_int)
  define c3 where "c3 = c1\<lparr>buckets := (buckets c1)(?i \<mapsto> l1'\<lparr>buckets1 := (buckets1 l1')(?j \<mapsto> l2')\<rparr>)\<rparr>"
  have l3: "level3_at c3 (?i, ?j, ?k) = Some l3" using b(6) by (simp add: c3_def level3_at_def)
  have sec: "sectors l3 ?n = sector_at cache (sector_ref_of s)"
    unfolding b(8) [symmetric] c3_def [symmetric] using l3 by (simp add: sector_at_def sector_ref_of_def)
  have ref: "((?i, ?j, ?k), ?n) = sector_ref_of s" by (simp add: sector_ref_of_def)
  have n64: "\<not> 64 \<le> s mod 64" by (simp add: not_le)
  show ?thesis
  proof (cases "sectors l3 ?n")
    case (Some x)
    have "diskstreamer_cache_find kz a (Some cache) ss (int s * ss) =
      Some (a3, Some c3, DISK_STREAMER_CACHE_STATUS_CACHE_FOUND, Some (sector_ref_of s))"
      using ss b(1-6) l3 n64 Some
      by (simp add: diskstreamer_cache_find_def Let_def addr c3_def [symmetric] ref
          del: of_nat_mod of_nat_div zmod_int zdiv_int)
    moreover have "sector_at c3 = sector_at cache" using b(8) by (simp add: c3_def)
    moreover have "mem_roundrobin c3 = mem_roundrobin cache" using b(7) by (simp add: c3_def)
    ultimately show ?thesis using Some sec by simp
  next
    case None
    let ?c4 = "level3_update c3 (?i, ?j, ?k) (\<lambda>l3. l3\<lparr>
        sectors := (sectors l3)(?n \<mapsto> zero_sector), total_sectors := total_sectors l3 + 1\<rparr>)"
    obtain a4 where a4: "kz a3 2048 = (a4, True)" using never_fails_D [OF kz] by blast
    have rr4: "mem_roundrobin ?c4 = mem_roundrobin cache" using b(7) by (simp add: c3_def)
    obtain c5 where c5: "diskstreamer_cache_round_robin_add ?c4 (?i, ?j, ?k) = Some c5"
      "sector_at c5 = sector_at ?c4" "rr_pos (mem_roundrobin c5) = rr_pos (mem_roundrobin cache) + 1"
      using round_robin_add_sectors [of ?c4 "(?i, ?j, ?k)"] rr unfolding rr4 by blast
    have "diskstreamer_cache_find kz a (Some cache) ss (int s * ss) =
      Some (a4, Some c5, DISK_STREAMER_CACHE_STATUS_NEW_CACHE_ENTRY, Some (sector_ref_of s))"
      using ss b(1-6) l3 n64 None a4 c5(1)
      by (simp add: diskstreamer_cache_find_def Let_def addr c3_def [symmetric] ref zero_sector_def
          del: of_nat_mod of_nat_div zmod_int zdiv_int)
    moreover have "sector_at ?c4 r = ((sector_at c3)(sector_ref_of s \<mapsto> zero_sector)) r" for r
      using l3 by (auto simp: sector_at_def level3_at_update sector_ref_of_def prod_eq_iff)
    then have "sector_at c5 = (sector_at cache)(sector_ref_of s \<mapsto> zero_sector)"
      using c5(2) b(8) by (auto simp: c3_def)
    ultimately show ?thesis using None sec c5(3) by simp
  qed
qed

end
