(* ===== verification/Disk.thy ===== *)
theory Disk
  imports DiskCache CString
begin

section \<open>Disks and their drivers: disk.c, driver.c\<close>

text \<open>
  The table of disks of \<open>disk/disk.c\<close> and the registry of drivers of \<open>disk/driver.c\<close>. A vector of
  pointers is the list of its elements (Vector shows that its operations are the list operations);
  a disk is named by its index in the table, a driver by a number. What a driver does when it is
  called is a parameter: its functions are fields of the record \<open>disk_driver\<close>, and a null function
  pointer is \<open>None\<close>. The private data of a file system is kept by its own theory.
\<close>

abbreviation (input) PEACHOS_DISK_TYPE_REAL :: int where "PEACHOS_DISK_TYPE_REAL \<equiv> 0"
abbreviation (input) PEACHOS_DISK_TYPE_PARTITION :: int where "PEACHOS_DISK_TYPE_PARTITION \<equiv> 1"

text \<open>The name \<open>"PEACH      "\<close> and its terminator.\<close>

definition PEACHOS_KERNEL_FILESYSTEM_NAME :: "u8 list" where
  "PEACHOS_KERNEL_FILESYSTEM_NAME = [80, 69, 65, 67, 72, 32, 32, 32, 32, 32, 32, 0]"

record disk =
  disk_type :: int
  sector_size :: int
  disk_id :: int
  filesystem :: "nat option"
  driver :: nat
  hardware_disk :: nat
  disk_cache :: "stream_cache option"
  starting_lba :: u64
  ending_lba :: u64
  driver_private :: u64

record 'a disk_state =
  heap_state :: 'a
  disk_vector :: "disk list"
  primary_fs_disk :: "nat option"
  disk_driver_vec :: "nat list"

text \<open>
  The functions of a driver: \<open>read\<close> and \<open>mount_partition\<close> get the disk, the block numbers as the
  prototype types them, and \<open>read\<close> gives the result code and the bytes it writes to the buffer.
\<close>

record 's disk_driver =
  driver_name :: "u8 list"
  drv_loaded :: "('s \<Rightarrow> 's \<times> int) option"
  drv_mount :: "('s \<Rightarrow> 's \<times> int) option"
  drv_read :: "('s \<Rightarrow> nat \<Rightarrow> u32 \<Rightarrow> int \<Rightarrow> 's \<times> int \<times> u8 list) option"
  drv_mount_partition :: "'s \<Rightarrow> nat \<Rightarrow> int \<Rightarrow> int \<Rightarrow> 's \<times> int \<times> nat option"

definition disk_get :: "('a, 'b) disk_state_scheme \<Rightarrow> int \<Rightarrow> nat option" where
  "disk_get s index =
     (if index \<ge> int (length (disk_vector s)) then None
      else if index < 0 then None
      else Some (nat index))"

definition disk_hardware_disk :: "('a, 'b) disk_state_scheme \<Rightarrow> nat \<Rightarrow> nat" where
  "disk_hardware_disk s d = hardware_disk (disk_vector s ! d)"

definition disk_private_data_driver :: "('a, 'b) disk_state_scheme \<Rightarrow> nat \<Rightarrow> u64" where
  "disk_private_data_driver s d = driver_private (disk_vector s ! d)"

definition disk_primary_fs_disk :: "('a, 'b) disk_state_scheme \<Rightarrow> nat option" where
  "disk_primary_fs_disk s = primary_fs_disk s"

text \<open>Block numbers. The addition is in \<open>size_t\<close>, and a \<open>long\<close> result reads it as signed.\<close>

definition disk_real_sector :: "disk \<Rightarrow> u32 \<Rightarrow> int" where
  "disk_real_sector idisk lba = sint (starting_lba idisk + ucast lba)"

definition disk_real_offset :: "disk \<Rightarrow> u32 \<Rightarrow> int" where
  "disk_real_offset idisk lba = sint (word_of_int (disk_real_sector idisk lba) * size_of_int (sector_size idisk))"

definition disk_read_block ::
  "(nat \<Rightarrow> ('a, 'b) disk_state_scheme disk_driver) \<Rightarrow> ('a, 'b) disk_state_scheme \<Rightarrow> nat \<Rightarrow> u32 \<Rightarrow> int \<Rightarrow>
   ('a, 'b) disk_state_scheme \<times> int \<times> u8 list" where
  "disk_read_block drivers s d lba n =
     (let idisk = disk_vector s ! d;
          absolute_lba = starting_lba idisk + ucast lba;
          absolute_ending_lba = absolute_lba + size_of_int n
      in if absolute_ending_lba > ending_lba idisk \<and> starting_lba idisk \<noteq> 0 \<and> ending_lba idisk \<noteq> 0
         then (s, - EIO, [])
         else case drv_read (drivers (driver idisk)) of
           None \<Rightarrow> (s, - EIO, [])
         | Some rd \<Rightarrow> rd s d (ucast absolute_lba) n)"

definition disk_create_new ::
  "'a allocator \<Rightarrow> ('a, 'b) disk_state_scheme \<Rightarrow> nat \<Rightarrow> nat option \<Rightarrow> int \<Rightarrow> int \<Rightarrow> int \<Rightarrow> u64 \<Rightarrow> u64 \<Rightarrow>
   ('a, 'b) disk_state_scheme \<times> int \<times> nat option" where
  "disk_create_new kz s drv hw typ start_lba end_lba sec_size priv =
     (let (a1, ok) = kz (heap_state s) 80; s1 = s\<lparr>heap_state := a1\<rparr>; new = length (disk_vector s) in
      if \<not> ok then (s1, - ENOMEM, None)
      else if hw \<noteq> None \<and> typ = PEACHOS_DISK_TYPE_REAL then (s1, - EINVARG, None)
      else let hw' = (if typ = PEACHOS_DISK_TYPE_REAL then Some new else hw) in
        case hw' of
          None \<Rightarrow> (s1, - EINVARG, None)
        | Some h \<Rightarrow>
            if h \<noteq> new \<and> disk_type (disk_vector s ! h) \<noteq> PEACHOS_DISK_TYPE_REAL then (s1, - EINVARG, None)
            else let (a2, cache) = diskstreamer_cache_new kz a1 in
              (s1\<lparr>heap_state := a2, disk_vector := disk_vector s @
                 [\<lparr>disk_type = typ, sector_size = int_of_size sec_size, disk_id = int new, filesystem = None,
                   driver = drv, hardware_disk = h, disk_cache = cache,
                   starting_lba = size_of_int start_lba, ending_lba = size_of_int end_lba,
                   driver_private = priv\<rparr>]\<rparr>, 0, Some new))"

text \<open>\<open>strncmp\<close> of the names over the 20 bytes of the name field.\<close>

definition disk_driver_registered ::
  "(nat \<Rightarrow> 's disk_driver) \<Rightarrow> ('a, 'b) disk_state_scheme \<Rightarrow> nat \<Rightarrow> bool" where
  "disk_driver_registered drivers s drv =
     list_ex (\<lambda>current. strncmp (driver_name (drivers current)) (driver_name (drivers drv)) 20 = Some 0)
       (disk_driver_vec s)"

definition disk_driver_register ::
  "(nat \<Rightarrow> ('a, 'b) disk_state_scheme disk_driver) \<Rightarrow> ('a, 'b) disk_state_scheme \<Rightarrow> nat \<Rightarrow>
   ('a, 'b) disk_state_scheme \<times> int" where
  "disk_driver_register drivers s drv =
     (if disk_driver_registered drivers s drv then (s, - EISTKN)
      else let s1 = s\<lparr>disk_driver_vec := disk_driver_vec s @ [drv]\<rparr> in
        case drv_loaded (drivers drv) of
          None \<Rightarrow> (s1, 0)
        | Some ld \<Rightarrow>
            (let (s2, res) = ld s1 in
             if res < 0 then (s2\<lparr>disk_driver_vec := remove1 drv (disk_driver_vec s2)\<rparr>, res) else (s2, res)))"

text \<open>\<open>pata\<close> and \<open>nvme\<close> are the drivers the two \<open>init\<close> functions return.\<close>

definition disk_driver_system_load_drivers ::
  "(nat \<Rightarrow> ('a, 'b) disk_state_scheme disk_driver) \<Rightarrow> ('a, 'b) disk_state_scheme \<Rightarrow> nat \<Rightarrow> nat \<Rightarrow>
   ('a, 'b) disk_state_scheme \<times> int" where
  "disk_driver_system_load_drivers drivers s pata nvme =
     (let (s1, res) = disk_driver_register drivers s pata in
      if res < 0 then (s1, res) else disk_driver_register drivers s1 nvme)"

definition disk_driver_system_init ::
  "'a allocator \<Rightarrow> (nat \<Rightarrow> ('a, 'b) disk_state_scheme disk_driver) \<Rightarrow> ('a, 'b) disk_state_scheme \<Rightarrow> nat \<Rightarrow> nat \<Rightarrow>
   ('a, 'b) disk_state_scheme \<times> int" where
  "disk_driver_system_init kz drivers s pata nvme =
     (let (a1, ok) = kz (heap_state s) 48 in
      if \<not> ok then (s\<lparr>heap_state := a1\<rparr>, - ENOMEM)
      else disk_driver_system_load_drivers drivers (s\<lparr>heap_state := a1, disk_driver_vec := []\<rparr>) pata nvme)"

definition disk_driver_mount_partition ::
  "(nat \<Rightarrow> ('a, 'b) disk_state_scheme disk_driver) \<Rightarrow> ('a, 'b) disk_state_scheme \<Rightarrow> nat \<Rightarrow> nat \<Rightarrow> int \<Rightarrow> int \<Rightarrow>
   ('a, 'b) disk_state_scheme \<times> int \<times> nat option" where
  "disk_driver_mount_partition drivers s drv d start_lba end_lba =
     (if drv \<noteq> driver (disk_vector s ! d) then (s, - EINVARG, None)
      else if disk_type (disk_vector s ! d) \<noteq> PEACHOS_DISK_TYPE_REAL then (s, - EUNIMP, None)
      else drv_mount_partition (drivers drv) s d start_lba end_lba)"

definition disk_create_partition ::
  "(nat \<Rightarrow> ('a, 'b) disk_state_scheme disk_driver) \<Rightarrow> ('a, 'b) disk_state_scheme \<Rightarrow> nat \<Rightarrow> int \<Rightarrow> int \<Rightarrow>
   ('a, 'b) disk_state_scheme \<times> int \<times> nat option" where
  "disk_create_partition drivers s d start_lba end_lba =
     disk_driver_mount_partition drivers s (driver (disk_vector s ! d)) d start_lba end_lba"

text \<open>The drivers of the vector, as it is when the loop reaches them.\<close>

primrec mount_all_loop ::
  "(nat \<Rightarrow> ('a, 'b) disk_state_scheme disk_driver) \<Rightarrow> ('a, 'b) disk_state_scheme \<Rightarrow> nat \<Rightarrow> nat \<Rightarrow>
   ('a, 'b) disk_state_scheme" where
  "mount_all_loop drivers s i 0 = s"
| "mount_all_loop drivers s i (Suc n) =
     (let s1 = (if i < length (disk_driver_vec s) then
                  (case drv_mount (drivers (disk_driver_vec s ! i)) of None \<Rightarrow> s | Some mt \<Rightarrow> fst (mt s))
                else s)
      in mount_all_loop drivers s1 (Suc i) n)"

definition disk_driver_mount_all ::
  "(nat \<Rightarrow> ('a, 'b) disk_state_scheme disk_driver) \<Rightarrow> ('a, 'b) disk_state_scheme \<Rightarrow> ('a, 'b) disk_state_scheme \<times> int" where
  "disk_driver_mount_all drivers s = (mount_all_loop drivers s 0 (length (disk_driver_vec s)), 0)"

definition disk_mount_all ::
  "(nat \<Rightarrow> ('a, 'b) disk_state_scheme disk_driver) \<Rightarrow> ('a, 'b) disk_state_scheme \<Rightarrow> ('a, 'b) disk_state_scheme \<times> int" where
  "disk_mount_all drivers s = disk_driver_mount_all drivers s"

definition disk_search_and_init ::
  "'a allocator \<Rightarrow> (nat \<Rightarrow> ('a, 'b) disk_state_scheme disk_driver) \<Rightarrow> ('a, 'b) disk_state_scheme \<Rightarrow> nat \<Rightarrow> nat \<Rightarrow>
   ('a, 'b) disk_state_scheme \<times> int" where
  "disk_search_and_init kz drivers s pata nvme =
     (let (s1, res) = disk_driver_system_init kz drivers s pata nvme in
      if res < 0 then (s1, - EIO)
      else let (a2, ok) = kz (heap_state s1) 48 in
        if \<not> ok then (s1\<lparr>heap_state := a2\<rparr>, - ENOMEM)
        else disk_mount_all drivers (s1\<lparr>heap_state := a2, disk_vector := []\<rparr>))"

text \<open>
  Mounting a file system: \<open>resolve\<close> stands for \<open>fs_resolve\<close>, and \<open>volume_name\<close> for the call through
  the file system's table, which fills the 11 bytes of \<open>fs_name\<close>.
\<close>

definition disk_filesystem_mount ::
  "(('a, 'b) disk_state_scheme \<Rightarrow> nat \<Rightarrow> ('a, 'b) disk_state_scheme \<times> nat option) \<Rightarrow>
   (('a, 'b) disk_state_scheme \<Rightarrow> nat \<Rightarrow> nat \<Rightarrow> u8 list \<Rightarrow> u8 list option) \<Rightarrow>
   ('a, 'b) disk_state_scheme \<Rightarrow> nat \<Rightarrow> (('a, 'b) disk_state_scheme \<times> int) option" where
  "disk_filesystem_mount resolve volume_name s d =
     (let (s1, fs) = resolve s d;
          s2 = s1\<lparr>disk_vector := (disk_vector s1)[d := (disk_vector s1 ! d)\<lparr>filesystem := fs\<rparr>]\<rparr>
      in case fs of
           None \<Rightarrow> Some (s2, 0)
         | Some f \<Rightarrow> do {
             primary_name \<leftarrow> strncpy (replicate 11 0) PEACHOS_KERNEL_FILESYSTEM_NAME 11;
             fs_name \<leftarrow> volume_name s2 d f (replicate 11 0);
             cmp \<leftarrow> strncmp fs_name primary_name 11;
             Some (if cmp = 0 then s2\<lparr>primary_fs_disk := Some d\<rparr> else s2, 0)
           })"

end
