(* ===== verification/File.thy ===== *)
theory File
  imports PathParser Disk
begin

section \<open>Open files: file.c\<close>

text \<open>
  The virtual file layer of \<open>fs/file.c\<close>: the table of file systems and the table of descriptors. A
  file system is the record of its functions, over the state of the disks \<open>'d\<close> and the private data
  \<open>'p\<close> of an open file; \<open>open\<close> gives \<open>Inl e\<close> for the pointer \<open>ERROR(e)\<close> and \<open>Inr p\<close> for private data.
  The file systems of the table are named by number, and \<open>fs\<close> gives their functions.
\<close>

abbreviation (input) SEEK_SET :: u32 where "SEEK_SET \<equiv> 0"
abbreviation (input) SEEK_CUR :: u32 where "SEEK_CUR \<equiv> 1"
abbreviation (input) SEEK_END :: u32 where "SEEK_END \<equiv> 2"

abbreviation (input) FILE_MODE_READ :: u32 where "FILE_MODE_READ \<equiv> 0"
abbreviation (input) FILE_MODE_WRITE :: u32 where "FILE_MODE_WRITE \<equiv> 1"
abbreviation (input) FILE_MODE_APPEND :: u32 where "FILE_MODE_APPEND \<equiv> 2"
abbreviation (input) FILE_MODE_INVALID :: u32 where "FILE_MODE_INVALID \<equiv> 3"

abbreviation (input) FILE_STAT_READ_ONLY :: u32 where "FILE_STAT_READ_ONLY \<equiv> 1"

record file_stat =
  stat_flags :: u32
  filesize :: u32

record ('d, 'p) filesystem =
  fs_resolve_fn :: "'d \<Rightarrow> nat \<Rightarrow> ('d \<times> int) option"
  fs_open :: "'d \<Rightarrow> nat \<Rightarrow> u8 list list \<Rightarrow> u32 \<Rightarrow> ('d \<times> (int + 'p)) option"
  fs_read :: "'d \<Rightarrow> nat \<Rightarrow> 'p \<Rightarrow> u32 \<Rightarrow> u32 \<Rightarrow> u8 list \<Rightarrow> ('d \<times> 'p \<times> int \<times> u8 list) option"
  fs_seek :: "'p \<Rightarrow> u32 \<Rightarrow> u32 \<Rightarrow> ('p \<times> int) option"
  fs_stat :: "'p \<Rightarrow> file_stat \<Rightarrow> (file_stat \<times> int) option"
  fs_close :: "'p \<Rightarrow> int option"

record 'p file_descriptor =
  index :: int
  desc_filesystem :: nat
  desc_private :: 'p
  desc_disk :: nat

record ('d, 'p) file_state =
  disks :: 'd
  filesystems :: "nat option list"
  file_descriptors :: "'p file_descriptor option list"

definition first_free :: "'x option list \<Rightarrow> nat option" where
  "first_free xs = (let n = length (takeWhile (\<lambda>x. x \<noteq> None) xs) in if n < length xs then Some n else None)"

definition fs_get_free_filesystem :: "('d, 'p) file_state \<Rightarrow> nat option" where
  "fs_get_free_filesystem s = first_free (filesystems s)"

text \<open>With no free slot the kernel prints a message and loops for ever.\<close>

definition fs_insert_filesystem :: "('d, 'p) file_state \<Rightarrow> nat \<Rightarrow> ('d, 'p) file_state option" where
  "fs_insert_filesystem s f =
     (case fs_get_free_filesystem s of
        None \<Rightarrow> None
      | Some i \<Rightarrow> Some (s\<lparr>filesystems := (filesystems s)[i := Some f]\<rparr>))"

definition fs_load :: "('d, 'p) file_state \<Rightarrow> nat \<Rightarrow> ('d, 'p) file_state option" where
  "fs_load s fat16_fs = fs_insert_filesystem (s\<lparr>filesystems := replicate 12 None\<rparr>) fat16_fs"

definition fs_init :: "('d, 'p) file_state \<Rightarrow> nat \<Rightarrow> ('d, 'p) file_state option" where
  "fs_init s fat16_fs = fs_load (s\<lparr>file_descriptors := replicate 512 None\<rparr>) fat16_fs"

definition file_free_descriptor :: "('d, 'p) file_state \<Rightarrow> 'p file_descriptor \<Rightarrow> ('d, 'p) file_state" where
  "file_free_descriptor s desc =
     s\<lparr>file_descriptors := (file_descriptors s)[nat (index desc - 1) := None]\<rparr>"

text \<open>
  The code creates the descriptor and then fills in its fields, so the fields are arguments here.
  It does not test what \<open>kzalloc\<close> returned.
\<close>

definition file_new_descriptor ::
  "'a allocator \<Rightarrow> 'a \<Rightarrow> ('d, 'p) file_state \<Rightarrow> nat \<Rightarrow> 'p \<Rightarrow> nat \<Rightarrow> ('a \<times> ('d, 'p) file_state \<times> int) option" where
  "file_new_descriptor kz a s f p d =
     (case first_free (file_descriptors s) of
        None \<Rightarrow> Some (a, s, - ENOMEM)
      | Some i \<Rightarrow> (let (a', ok) = kz a 32 in
          if \<not> ok then None
          else Some (a', s\<lparr>file_descriptors := (file_descriptors s)[i := Some \<lparr>index = int i + 1,
                       desc_filesystem = f, desc_private = p, desc_disk = d\<rparr>]\<rparr>, int i + 1)))"

definition file_get_descriptor :: "('d, 'p) file_state \<Rightarrow> int \<Rightarrow> 'p file_descriptor option" where
  "file_get_descriptor s fd =
     (if fd \<le> 0 \<or> fd \<ge> PEACHOS_MAX_FILE_DESCRIPTORS then None else file_descriptors s ! nat (fd - 1))"

primrec fs_resolve_loop ::
  "(nat \<Rightarrow> ('d, 'p) filesystem) \<Rightarrow> 'd \<Rightarrow> nat \<Rightarrow> nat option list \<Rightarrow> ('d \<times> nat option) option" where
  "fs_resolve_loop fs d disk [] = Some (d, None)"
| "fs_resolve_loop fs d disk (slot # slots) =
     (case slot of
        None \<Rightarrow> fs_resolve_loop fs d disk slots
      | Some f \<Rightarrow> do {
          (d', res) \<leftarrow> fs_resolve_fn (fs f) d disk;
          if res = 0 then Some (d', Some f) else fs_resolve_loop fs d' disk slots
        })"

definition fs_resolve ::
  "(nat \<Rightarrow> ('d, 'p) filesystem) \<Rightarrow> ('d, 'p) file_state \<Rightarrow> nat \<Rightarrow> (('d, 'p) file_state \<times> nat option) option" where
  "fs_resolve fs s disk = do {
     (d', f) \<leftarrow> fs_resolve_loop fs (disks s) disk (filesystems s);
     Some (s\<lparr>disks := d'\<rparr>, f)
   }"

definition file_get_mode_by_string :: "u8 list \<Rightarrow> u32 option" where
  "file_get_mode_by_string str = do {
     r \<leftarrow> strncmp str [114, 0] 1;
     w \<leftarrow> strncmp str [119, 0] 1;
     a \<leftarrow> strncmp str [97, 0] 1;
     Some (if r = 0 then FILE_MODE_READ else if w = 0 then FILE_MODE_WRITE
           else if a = 0 then FILE_MODE_APPEND else FILE_MODE_INVALID)
   }"

text \<open>
  Every failure of \<open>fopen\<close> returns \<open>0\<close>. When the file system's \<open>open\<close> fails, the error path passes the
  error pointer to \<open>close\<close>, which reads through it: an access to no object, so \<open>None\<close>. A failing
  \<open>file_new_descriptor\<close> closes the private data.
\<close>

definition fopen ::
  "'a allocator \<Rightarrow> (nat \<Rightarrow> (('a, 'b) disk_state_scheme, 'p) filesystem) \<Rightarrow>
   (('a, 'b) disk_state_scheme, 'p) file_state \<Rightarrow> u8 list \<Rightarrow> u8 list \<Rightarrow>
   ((('a, 'b) disk_state_scheme, 'p) file_state \<times> int) option" where
  "fopen kz fs s filename mode_str = do {
     (a1, root) \<leftarrow> pathparser_parse kz (heap_state (disks s))
        (map_option (\<lambda>d. disk_id (disk_vector (disks s) ! d)) (disk_primary_fs_disk (disks s))) filename;
     let s1 = s\<lparr>disks := (disks s)\<lparr>heap_state := a1\<rparr>\<rparr>;
     case root of
       None \<Rightarrow> Some (s1, 0)
     | Some r \<Rightarrow>
         if parts r = [] then Some (s1, 0)
         else case disk_get (disks s1) (drive_no r) of
           None \<Rightarrow> Some (s1, 0)
         | Some d \<Rightarrow> (case filesystem (disk_vector (disks s1) ! d) of
             None \<Rightarrow> Some (s1, 0)
           | Some f \<Rightarrow> do {
               mode \<leftarrow> file_get_mode_by_string mode_str;
               if mode = FILE_MODE_INVALID then Some (s1, 0)
               else do {
                 (d2, opened) \<leftarrow> fs_open (fs f) (disks s1) d (parts r) mode;
                 let s2 = s1\<lparr>disks := d2\<rparr>;
                 case opened of
                   Inl err \<Rightarrow> None
                 | Inr p \<Rightarrow> do {
                     (a3, s3, res) \<leftarrow> file_new_descriptor kz (heap_state d2) s2 f p d;
                     let s4 = s3\<lparr>disks := (disks s3)\<lparr>heap_state := a3\<rparr>\<rparr>;
                     if res < 0 then do { _ \<leftarrow> fs_close (fs f) p; Some (s4, 0) }
                     else Some (s4, res)
                   }
               }
             })
   }"

definition fstat ::
  "(nat \<Rightarrow> ('d, 'p) filesystem) \<Rightarrow> ('d, 'p) file_state \<Rightarrow> int \<Rightarrow> file_stat \<Rightarrow> (file_stat \<times> int) option" where
  "fstat fs s fd stat =
     (case file_get_descriptor s fd of
        None \<Rightarrow> Some (stat, - EIO)
      | Some desc \<Rightarrow> fs_stat (fs (desc_filesystem desc)) (desc_private desc) stat)"

definition fclose ::
  "(nat \<Rightarrow> ('d, 'p) filesystem) \<Rightarrow> ('d, 'p) file_state \<Rightarrow> int \<Rightarrow> (('d, 'p) file_state \<times> int) option" where
  "fclose fs s fd =
     (case file_get_descriptor s fd of
        None \<Rightarrow> Some (s, - EIO)
      | Some desc \<Rightarrow> do {
          res \<leftarrow> fs_close (fs (desc_filesystem desc)) (desc_private desc);
          Some (if res = PEACHOS_ALL_OK then file_free_descriptor s desc else s, res)
        })"

text \<open>The private data a call has changed goes back into the descriptor's slot.\<close>

definition store_private :: "('d, 'p) file_state \<Rightarrow> 'p file_descriptor \<Rightarrow> 'p \<Rightarrow> ('d, 'p) file_state" where
  "store_private s desc p =
     s\<lparr>file_descriptors := (file_descriptors s)[nat (index desc - 1) := Some (desc\<lparr>desc_private := p\<rparr>)]\<rparr>"

definition fseek ::
  "(nat \<Rightarrow> ('d, 'p) filesystem) \<Rightarrow> ('d, 'p) file_state \<Rightarrow> int \<Rightarrow> int \<Rightarrow> u32 \<Rightarrow> (('d, 'p) file_state \<times> int) option" where
  "fseek fs s fd offset whence =
     (case file_get_descriptor s fd of
        None \<Rightarrow> Some (s, - EIO)
      | Some desc \<Rightarrow> do {
          (p, res) \<leftarrow> fs_seek (fs (desc_filesystem desc)) (desc_private desc) (word_of_int offset) whence;
          Some (store_private s desc p, res)
        })"

text \<open>The object at the pointer of \<open>fread\<close> is the list \<open>ptr\<close> of its bytes, and its new bytes are the last result.\<close>

definition fread ::
  "(nat \<Rightarrow> ('d, 'p) filesystem) \<Rightarrow> ('d, 'p) file_state \<Rightarrow> u8 list \<Rightarrow> u32 \<Rightarrow> u32 \<Rightarrow> int \<Rightarrow>
   (('d, 'p) file_state \<times> int \<times> u8 list) option" where
  "fread fs s ptr sz nmemb fd =
     (if sz = 0 \<or> nmemb = 0 \<or> fd < 1 then Some (s, - EINVARG, ptr)
      else case file_get_descriptor s fd of
        None \<Rightarrow> Some (s, - EINVARG, ptr)
      | Some desc \<Rightarrow> do {
          (d', p, res, ptr') \<leftarrow> fs_read (fs (desc_filesystem desc)) (disks s) (desc_disk desc) (desc_private desc) sz nmemb ptr;
          Some (store_private (s\<lparr>disks := d'\<rparr>) desc p, res, ptr')
        })"

subsection \<open>The descriptor table\<close>

text \<open>
  What every call keeps: the table has its 512 slots, and the descriptor in a slot knows the slot's
  number.
\<close>

definition descriptors_ok :: "('d, 'p) file_state \<Rightarrow> bool" where
  "descriptors_ok s \<longleftrightarrow> length (file_descriptors s) = 512 \<and>
     (\<forall>i < 512. \<forall>desc. file_descriptors s ! i = Some desc \<longrightarrow> index desc = int i + 1)"

text \<open>The states the calls reach, for any file systems and from any boot of the layer.\<close>

inductive file_reachable ::
  "'a allocator \<Rightarrow> (nat \<Rightarrow> (('a, 'b) disk_state_scheme, 'p) filesystem) \<Rightarrow>
   (('a, 'b) disk_state_scheme, 'p) file_state \<Rightarrow> bool"
  for kz fs where
  boot: "fs_init s0 fat16_fs = Some s \<Longrightarrow> file_reachable kz fs s"
| resolved: "file_reachable kz fs s \<Longrightarrow> fs_resolve fs s d = Some (s', f) \<Longrightarrow> file_reachable kz fs s'"
| opened: "file_reachable kz fs s \<Longrightarrow> fopen kz fs s path mode = Some (s', fd) \<Longrightarrow> file_reachable kz fs s'"
| closed: "file_reachable kz fs s \<Longrightarrow> fclose fs s fd = Some (s', res) \<Longrightarrow> file_reachable kz fs s'"
| moved: "file_reachable kz fs s \<Longrightarrow> fseek fs s fd offset whence = Some (s', res) \<Longrightarrow> file_reachable kz fs s'"
| read: "file_reachable kz fs s \<Longrightarrow> fread fs s ptr sz nmemb fd = Some (s', res, out) \<Longrightarrow> file_reachable kz fs s'"

lemma first_free_Some: "first_free xs = Some n \<longleftrightarrow> n < length xs \<and> xs ! n = None \<and> (\<forall>i<n. xs ! i \<noteq> None)"
proof (induction xs arbitrary: n)
  case (Cons x xs)
  show ?case
  proof (cases x)
    case None
    then show ?thesis by (cases n) (auto simp: first_free_def)
  next
    case (Some y)
    have e: "first_free (x # xs) = map_option Suc (first_free xs)" by (simp add: first_free_def Some Let_def)
    show ?thesis
      unfolding e by (cases n) (auto simp: Cons.IH Some less_Suc_eq_0_disj)
  qed
qed (simp add: first_free_def)

lemma first_free_None: "first_free xs = None \<longleftrightarrow> None \<notin> set xs"
  by (induction xs) (auto simp: first_free_def Let_def split: if_splits)

lemma nth_update_cases: "xs[i := x] ! j = y \<Longrightarrow> (i = j \<and> y = x) \<or> xs ! j = y"
  by (metis list_update_beyond not_le_imp_less nth_list_update_eq nth_list_update_neq)

lemma descriptors_ok_update:
  "descriptors_ok s \<Longrightarrow> i < 512 \<Longrightarrow> index desc = int i + 1 \<Longrightarrow>
   descriptors_ok (s\<lparr>file_descriptors := (file_descriptors s)[i := Some desc]\<rparr>)"
  by (auto simp: descriptors_ok_def nth_list_update)

lemma descriptors_ok_disks [simp]: "descriptors_ok (s\<lparr>disks := d\<rparr>) = descriptors_ok s"
  by (simp add: descriptors_ok_def)

lemma file_get_descriptor_ok:
  assumes "descriptors_ok s" "file_get_descriptor s fd = Some desc"
  shows "0 < fd" "fd < 512" "index desc = fd" "file_descriptors s ! nat (fd - 1) = Some desc"
proof -
  show b: "0 < fd" "fd < 512" and s: "file_descriptors s ! nat (fd - 1) = Some desc"
    using assms(2) by (auto simp: file_get_descriptor_def split: if_splits)
  have "nat (fd - 1) < 512" using b by simp
  then have "index desc = int (nat (fd - 1)) + 1" using assms(1) s unfolding descriptors_ok_def by blast
  then show "index desc = fd" using b by simp
qed

lemma file_new_descriptor_ok:
  assumes "file_new_descriptor kz a s f p d = Some (a', s', res)"
  shows "res < 0 \<and> s' = s \<or> (\<exists>i. first_free (file_descriptors s) = Some i \<and> res = int i + 1 \<and>
    s' = s\<lparr>file_descriptors := (file_descriptors s)[i := Some \<lparr>index = int i + 1,
              desc_filesystem = f, desc_private = p, desc_disk = d\<rparr>]\<rparr>)"
  using assms by (auto simp: file_new_descriptor_def split: option.splits prod.splits if_splits)

text \<open>The outcome of \<open>fopen\<close>: a new descriptor in the first free slot, or the table as it was.\<close>

definition new_descriptor_in :: "('d, 'p) file_state \<Rightarrow> ('d, 'p) file_state \<Rightarrow> int \<Rightarrow> nat \<Rightarrow> 'p file_descriptor \<Rightarrow> bool" where
  "new_descriptor_in s s' fd i desc \<longleftrightarrow> first_free (file_descriptors s) = Some i \<and> fd = int i + 1 \<and> index desc = fd \<and>
     file_descriptors s' = (file_descriptors s)[i := Some desc]"

lemma fopen_outcome:
  assumes "fopen kz fs s path mode = Some (s', fd)"
  shows "file_descriptors s' = file_descriptors s \<and> fd = 0 \<or> (\<exists>i desc. new_descriptor_in s s' fd i desc)"
proof -
  define opened where "opened s' fd \<longleftrightarrow> (\<exists>i desc. new_descriptor_in s s' fd i desc)" for s' fd
  have new: "opened s3 res" if n: "file_new_descriptor kz a (s\<lparr>disks := d2\<rparr>) f p d = Some (a3, s3, res)" "0 \<le> res"
    for a d2 f p d a3 s3 res
  proof -
    obtain i where "first_free (file_descriptors s) = Some i" "res = int i + 1"
      "s3 = s\<lparr>disks := d2, file_descriptors := (file_descriptors s)[i := Some \<lparr>index = int i + 1,
              desc_filesystem = f, desc_private = p, desc_disk = d\<rparr>]\<rparr>"
      using file_new_descriptor_ok [OF n(1)] n(2) by auto
    then have "new_descriptor_in s s3 res i \<lparr>index = int i + 1, desc_filesystem = f, desc_private = p, desc_disk = d\<rparr>"
      by (simp add: new_descriptor_in_def)
    then show ?thesis unfolding opened_def by blast
  qed
  have keep: "opened (s'\<lparr>disks := d\<rparr>) fd = opened s' fd" for s' d fd
    by (simp add: opened_def new_descriptor_in_def)
  have "file_descriptors s' = file_descriptors s \<and> fd = 0 \<or> opened s' fd"
    using assms unfolding fopen_def Let_def
    by (auto split: bind_splits option.splits prod.splits if_splits sum.splits simp: keep not_less
        dest: new file_new_descriptor_ok)
  then show ?thesis by (simp add: opened_def)
qed

lemma descriptors_ok_fopen:
  assumes "descriptors_ok s" "fopen kz fs s path mode = Some (s', fd)"
  shows "descriptors_ok s'"
  using fopen_outcome [OF assms(2)] assms(1)
  by (auto simp: descriptors_ok_def new_descriptor_in_def dest!: nth_update_cases)

lemma descriptors_ok_store:
  assumes "descriptors_ok s" "file_get_descriptor s fd = Some desc"
  shows "descriptors_ok (store_private s desc p)"
  using file_get_descriptor_ok [OF assms] assms(1) unfolding store_private_def
  by (intro descriptors_ok_update) auto

lemma descriptors_ok_free: "descriptors_ok s \<Longrightarrow> descriptors_ok (file_free_descriptor s desc)"
  by (auto simp: descriptors_ok_def file_free_descriptor_def dest!: nth_update_cases)

lemma file_get_descriptor_disks [simp]: "file_get_descriptor (s\<lparr>disks := d\<rparr>) fd = file_get_descriptor s fd"
  by (simp add: file_get_descriptor_def)

lemma reachable_descriptors_ok: "file_reachable kz fs s \<Longrightarrow> descriptors_ok s"
proof (induction rule: file_reachable.induct)
  case (boot s0 fat16_fs s)
  then show ?case
    by (auto simp: fs_init_def fs_load_def fs_insert_filesystem_def descriptors_ok_def split: option.splits)
next
  case (resolved s d s' f)
  then show ?case by (auto simp: fs_resolve_def split: bind_splits)
next
  case (opened s path mode s' fd)
  then show ?case by (blast intro: descriptors_ok_fopen)
next
  case (closed s fd s' res)
  then show ?case by (auto simp: fclose_def descriptors_ok_free split: option.splits bind_splits if_splits)
next
  case (moved s fd offset whence s' res)
  then show ?case by (auto simp: fseek_def descriptors_ok_store split: option.splits bind_splits)
next
  case (read s ptr sz nmemb fd s' res out)
  then show ?case by (auto simp: fread_def descriptors_ok_store split: option.splits bind_splits if_splits)
qed

text \<open>
  \<^bold>\<open>Descriptors are named by their slots.\<close> In every state the calls reach, whatever the file systems do,
  the descriptor found for a number carries that number, and the number is between 1 and 511.
\<close>

theorem descriptor_numbers_agree:
  assumes "file_reachable kz fs s" "file_get_descriptor s fd = Some desc"
  shows "index desc = fd \<and> 1 \<le> fd \<and> fd \<le> 511"
  using file_get_descriptor_ok [OF reachable_descriptors_ok [OF assms(1)] assms(2)] by simp

text \<open>
  A disk whose file system 0 opens every path, and whose file system 1 finds nothing: the private data is
  one byte.
\<close>

definition byte_fs :: "nat \<Rightarrow> ((nat, unit) disk_state_scheme, u8) filesystem" where
  "byte_fs f = \<lparr>fs_resolve_fn = (\<lambda>d i. Some (d, 0)),
     fs_open = (\<lambda>d i path mode. Some (d, if f = 0 then Inr 7 else Inl (- EIO))),
     fs_read = (\<lambda>d i p sz n buf. Some (d, p, 0, buf)), fs_seek = (\<lambda>p off wh. Some (p, 0)),
     fs_stat = (\<lambda>p st. Some (st, 0)), fs_close = (\<lambda>p. Some 0)\<rparr>"

definition byte_disk :: "nat \<Rightarrow> (nat, unit) disk_state_scheme" where
  "byte_disk f = \<lparr>heap_state = 0, disk_vector = [\<lparr>disk_type = 0, sector_size = 512, disk_id = 0,
      filesystem = Some f, driver = 0, hardware_disk = 0, disk_cache = None,
      starting_lba = 0, ending_lba = 0, driver_private = 0\<rparr>],
     primary_fs_disk = None, disk_driver_vec = [0], \<dots> = ()\<rparr>"

definition byte_state :: "nat \<Rightarrow> u8 file_descriptor option list \<Rightarrow> ((nat, unit) disk_state_scheme, u8) file_state" where
  "byte_state f ds = \<lparr>disks = byte_disk f, filesystems = Some 0 # replicate 11 None, file_descriptors = ds\<rparr>"

lemma byte_path: "pathparser_parse (\<lambda>a n. (a, True)) (0 :: nat) primary [48, 58, 47, 97, 0] =
   Some (0, Some \<lparr>drive_no = 0, parts = [part_buffer [97]]\<rparr>)"
  by code_simp

lemma byte_mode: "file_get_mode_by_string [114, 0] = Some FILE_MODE_READ"
  by code_simp

lemma fopen_byte_state:
  assumes "length ds = 512"
  shows "fopen (\<lambda>a n. (a, True)) byte_fs (byte_state 0 ds) [48, 58, 47, 97, 0] [114, 0] =
    (case first_free ds of None \<Rightarrow> Some (byte_state 0 ds, 0)
     | Some i \<Rightarrow> Some (byte_state 0 (ds[i := Some \<lparr>index = int i + 1, desc_filesystem = 0, desc_private = 7, desc_disk = 0\<rparr>]), int i + 1))"
  by (simp add: fopen_def byte_state_def byte_disk_def byte_path byte_mode byte_fs_def file_new_descriptor_def disk_get_def
      split: option.split)

text \<open>
  \<^bold>\<open>Open and close.\<close> When the file system's \<open>close\<close> reports success, closing a file right after opening
  it succeeds and leaves the table of descriptors as it was, for every number except 512.
\<close>

theorem fopen_fclose_roundtrip:
  assumes "file_reachable kz fs s" "fopen kz fs s path mode = Some (s1, fd)" "fd \<noteq> 0" "fd \<noteq> 512"
    and "\<forall>f p. fs_close (fs f) p = Some 0"
  shows "\<exists>s2. fclose fs s1 fd = Some (s2, 0) \<and> file_descriptors s2 = file_descriptors s"
proof -
  have ok: "descriptors_ok s" by (rule reachable_descriptors_ok [OF assms(1)])
  obtain i desc where n: "new_descriptor_in s s1 fd i desc"
    using fopen_outcome [OF assms(2)] assms(3) by auto
  then have i: "i < 511" "fd = int i + 1" "file_descriptors s ! i = None"
    using assms(4) ok by (auto simp: new_descriptor_in_def first_free_Some descriptors_ok_def)
  have g: "file_get_descriptor s1 fd = Some desc" "index desc = int i + 1"
    using n i ok by (simp_all add: new_descriptor_in_def file_get_descriptor_def descriptors_ok_def)
  have "(file_descriptors s1)[i := None] = file_descriptors s"
    using n i(3) by (simp add: new_descriptor_in_def) (metis list_update_id)
  then show ?thesis using g assms(5) by (simp add: fclose_def file_free_descriptor_def)
qed

text \<open>A state with the first \<open>n\<close> descriptors in use is reached by opening \<open>n\<close> files.\<close>

definition open_files :: "nat \<Rightarrow> u8 file_descriptor option list" where
  "open_files n = map (\<lambda>i. Some \<lparr>index = int i + 1, desc_filesystem = 0, desc_private = 7, desc_disk = 0\<rparr>) [0..<n] @
     replicate (512 - n) None"

lemma first_free_open_files: "n < 512 \<Longrightarrow> first_free (open_files n) = Some n"
  by (auto simp: first_free_Some open_files_def nth_append)

lemma open_files_Suc:
  "n < 512 \<Longrightarrow> (open_files n)[n := Some \<lparr>index = int n + 1, desc_filesystem = 0, desc_private = 7, desc_disk = 0\<rparr>] = open_files (Suc n)"
  by (rule nth_equalityI) (auto simp: open_files_def nth_append nth_list_update)

lemma fopen_open_files:
  "n < 512 \<Longrightarrow> fopen (\<lambda>a n. (a, True)) byte_fs (byte_state 0 (open_files n)) [48, 58, 47, 97, 0] [114, 0] =
     Some (byte_state 0 (open_files (Suc n)), int n + 1)"
  by (subst fopen_byte_state) (simp_all add: first_free_open_files open_files_Suc, simp add: open_files_def)

lemma open_files_reachable: "n \<le> 512 \<Longrightarrow> file_reachable (\<lambda>a n. (a, True)) byte_fs (byte_state 0 (open_files n))"
proof (induction n)
  case 0
  have "fs_init (byte_state 0 []) 0 = Some (byte_state 0 (open_files 0))"
    by (simp add: fs_init_def fs_load_def fs_insert_filesystem_def fs_get_free_filesystem_def first_free_def
        byte_state_def open_files_def)
      (simp add: eval_nat_numeral)
  then show ?case by (rule file_reachable.boot)
next
  case (Suc n)
  then show ?case by (auto intro: file_reachable.opened [OF _ fopen_open_files])
qed

theorem fopen_fclose_roundtrip_witness:
  "\<exists>s2. fclose byte_fs (byte_state 0 (open_files 4)) 4 = Some (s2, 0) \<and>
     file_descriptors s2 = file_descriptors (byte_state 0 (open_files 3))"
proof (rule fopen_fclose_roundtrip)
  show "file_reachable (\<lambda>a n. (a, True)) byte_fs (byte_state 0 (open_files 3))" by (simp add: open_files_reachable)
  show "fopen (\<lambda>a n. (a, True)) byte_fs (byte_state 0 (open_files 3)) [48, 58, 47, 97, 0] [114, 0] =
    Some (byte_state 0 (open_files 4), 4)"
    using fopen_open_files [of 3] by simp
qed (simp_all add: byte_fs_def)

theorem descriptor_numbers_agree_witness:
  "index \<lparr>index = 1, desc_filesystem = 0, desc_private = 7 :: u8, desc_disk = 0\<rparr> = 1 \<and> (1 :: int) \<le> 1 \<and> (1 :: int) \<le> 511"
  by (rule descriptor_numbers_agree [OF open_files_reachable [of 2]])
    (simp_all add: file_get_descriptor_def byte_state_def open_files_def nth_append)

text \<open>
  \<^bold>\<open>The last descriptor is unusable.\<close> When 511 files are open, \<open>fopen\<close> gives the number 512, which every
  other call rejects: the file cannot be read or closed, and its slot is lost.
\<close>

theorem fopen_last_descriptor_unusable:
  assumes "file_reachable kz fs s" "first_free (file_descriptors s) = Some 511"
    and "fopen kz fs s path mode = Some (s1, fd)" "fd \<noteq> 0"
  shows "fd = 512 \<and> fclose fs s1 fd = Some (s1, - EIO) \<and> fread fs s1 ptr sz n fd = Some (s1, - EINVARG, ptr) \<and>
    fseek fs s1 fd off wh = Some (s1, - EIO) \<and> fstat fs s1 fd st = Some (st, - EIO) \<and>
    first_free (file_descriptors s1) = None"
proof -
  have ok: "descriptors_ok s" by (rule reachable_descriptors_ok [OF assms(1)])
  obtain i desc where n: "new_descriptor_in s s1 fd i desc"
    using fopen_outcome [OF assms(3)] assms(4) by auto
  then have i: "fd = 512" "file_descriptors s1 = (file_descriptors s)[511 := Some desc]"
    using assms(2) by (auto simp: new_descriptor_in_def)
  have "file_descriptors s1 ! j \<noteq> None" if "j < 512" for j
    using that assms(2) ok unfolding i(2) by (cases "j = 511") (auto simp: first_free_Some descriptors_ok_def)
  then have "first_free (file_descriptors s1) = None"
    using ok unfolding first_free_None in_set_conv_nth i(2) by (auto simp: descriptors_ok_def)
  moreover have "file_get_descriptor s1 512 = None" by (simp add: file_get_descriptor_def)
  ultimately show ?thesis by (simp add: i(1) fclose_def fread_def fseek_def fstat_def)
qed

theorem fopen_last_descriptor_unusable_witness:
  "(512 :: int) = 512 \<and> fclose byte_fs (byte_state 0 (open_files 512)) 512 = Some (byte_state 0 (open_files 512), - EIO) \<and>
    fread byte_fs (byte_state 0 (open_files 512)) [0] 1 1 512 = Some (byte_state 0 (open_files 512), - EINVARG, [0]) \<and>
    fseek byte_fs (byte_state 0 (open_files 512)) 512 0 0 = Some (byte_state 0 (open_files 512), - EIO) \<and>
    fstat byte_fs (byte_state 0 (open_files 512)) 512 \<lparr>stat_flags = 0, filesize = 0\<rparr> =
      Some (\<lparr>stat_flags = 0, filesize = 0\<rparr>, - EIO) \<and>
    first_free (file_descriptors (byte_state 0 (open_files 512))) = None"
proof (rule fopen_last_descriptor_unusable)
  show "file_reachable (\<lambda>a n. (a, True)) byte_fs (byte_state 0 (open_files 511))" by (simp add: open_files_reachable)
  show "first_free (file_descriptors (byte_state 0 (open_files 511))) = Some 511"
    using first_free_open_files [of 511] by (simp add: byte_state_def)
  show "fopen (\<lambda>a n. (a, True)) byte_fs (byte_state 0 (open_files 511)) [48, 58, 47, 97, 0] [114, 0] =
    Some (byte_state 0 (open_files 512), 512)"
    using fopen_open_files [of 511] by simp
qed simp

text \<open>
  A file that cannot be opened. When the path is valid, its disk has a file system and that file
  system's \<open>open\<close> returns an error, \<open>fopen\<close> does not return: its error path passes the error pointer to
  \<open>close\<close>, which reads the descriptor it points to.
\<close>

lemma fopen_failed_open_faults:
  assumes "pathparser_parse kz (heap_state (disks s))
      (map_option (\<lambda>d. disk_id (disk_vector (disks s) ! d)) (disk_primary_fs_disk (disks s))) path = Some (a1, Some r)"
    and "parts r \<noteq> []" "disk_get (disks s) (drive_no r) = Some d"
    and "filesystem (disk_vector (disks s) ! d) = Some f"
    and "file_get_mode_by_string mode = Some md" "md \<noteq> FILE_MODE_INVALID"
    and "fs_open (fs f) ((disks s)\<lparr>heap_state := a1\<rparr>) d (parts r) md = Some (d2, Inl err)"
  shows "fopen kz fs s path mode = None"
  using assms by (simp add: fopen_def disk_get_def)

end
