(* ===== verification/Streamer.thy ===== *)
theory Streamer
  imports Disk
begin

section \<open>Reading bytes of a disk: streamer.c, second half\<close>

text \<open>
  The byte streams of \<open>disk/streamer.c\<close> over the sectors of a disk. \<open>out\<close> of \<open>diskstreamer_read\<close> is
  the list of the bytes the call has stored from the buffer's start on. The arithmetic is that of \<open>int\<close>, and an overflow
  is \<open>None\<close>, as is an access outside the 2048 bytes of a cached sector.
\<close>

record disk_stream =
  pos :: int
  stream_sector_size :: int
  stream_disk :: nat

definition int_range :: "int \<Rightarrow> int option" where
  "int_range i = (if INT_MIN \<le> i \<and> i \<le> INT_MAX then Some i else None)"

text \<open>The code writes to the stream without testing what \<open>kzalloc\<close> returned.\<close>

definition diskstreamer_new_from_disk ::
  "'a allocator \<Rightarrow> ('a, 'b) disk_state_scheme \<Rightarrow> nat \<Rightarrow> (('a, 'b) disk_state_scheme \<times> disk_stream) option" where
  "diskstreamer_new_from_disk kz s d =
     (let (a1, ok) = kz (heap_state s) 16 in
      if \<not> ok then None
      else Some (s\<lparr>heap_state := a1\<rparr>,
                 \<lparr>pos = 0, stream_sector_size = sector_size (disk_vector s ! d), stream_disk = d\<rparr>))"

definition diskstreamer_new ::
  "'a allocator \<Rightarrow> ('a, 'b) disk_state_scheme \<Rightarrow> int \<Rightarrow> (('a, 'b) disk_state_scheme \<times> disk_stream option) option" where
  "diskstreamer_new kz s did =
     (case disk_get s did of
        None \<Rightarrow> Some (s, None)
      | Some d \<Rightarrow> map_option (\<lambda>(s', st). (s', Some st)) (diskstreamer_new_from_disk kz s d))"

definition diskstreamer_seek :: "disk_stream \<Rightarrow> int \<Rightarrow> disk_stream \<times> int" where
  "diskstreamer_seek stream new_pos = (stream\<lparr>pos := new_pos\<rparr>, 0)"

text \<open>Storing a block into the buffer of a cached sector, and the lookup on the cache of a disk.\<close>

definition sector_fill :: "stream_cache \<Rightarrow> sector_ref \<Rightarrow> u8 list \<Rightarrow> stream_cache" where
  "sector_fill cache r bytes = level3_update cache (fst r) (\<lambda>l3.
     l3\<lparr>sectors := (sectors l3)(snd r := map_option (\<lambda>buf. bytes @ drop (length bytes) buf) (sectors l3 (snd r)))\<rparr>)"

definition set_cache ::
  "('a, 'b) disk_state_scheme \<Rightarrow> nat \<Rightarrow> stream_cache option \<Rightarrow> ('a, 'b) disk_state_scheme" where
  "set_cache s d c = s\<lparr>disk_vector := (disk_vector s)[d := (disk_vector s ! d)\<lparr>disk_cache := c\<rparr>]\<rparr>"

definition cache_find_on ::
  "'a allocator \<Rightarrow> ('a, 'b) disk_state_scheme \<Rightarrow> nat \<Rightarrow> int \<Rightarrow>
   (('a, 'b) disk_state_scheme \<times> int \<times> sector_ref option) option" where
  "cache_find_on kz s d offset = do {
     (a', c', res, ref) \<leftarrow> diskstreamer_cache_find kz (heap_state s)
        (disk_cache (disk_vector s ! d)) (sector_size (disk_vector s ! d)) (int_of_size (word_of_int offset));
     Some (set_cache (s\<lparr>heap_state := a'\<rparr>) d c', res, ref)
   }"

definition cached_sector :: "('a, 'b) disk_state_scheme \<Rightarrow> nat \<Rightarrow> sector_ref \<Rightarrow> u8 list option" where
  "cached_sector s d ref = do { c \<leftarrow> disk_cache (disk_vector s ! d); sector_at c ref }"

text \<open>Making the sector \<open>i\<close> of the disk cached: the code's result, and the sector when it is not negative.\<close>

definition load_sector ::
  "'a allocator \<Rightarrow> (nat \<Rightarrow> ('a, 'b) disk_state_scheme disk_driver) \<Rightarrow> ('a, 'b) disk_state_scheme \<Rightarrow> nat \<Rightarrow> int \<Rightarrow>
   (('a, 'b) disk_state_scheme \<times> int option \<times> int \<times> sector_ref option) option" where
  "load_sector kz drivers s d i = do {
     (s1, cache_res, ref) \<leftarrow> cache_find_on kz s d (disk_real_offset (disk_vector s ! d) (word_of_int i));
     if cache_res = DISK_STREAMER_CACHE_STATUS_NEW_CACHE_ENTRY then do {
       r \<leftarrow> ref;
       let (s2, res, bytes) = disk_read_block drivers s1 d (word_of_int i) 1;
       if length bytes > DISK_STREAMER_MAX_CACHE_SECTOR_SIZE then None
       else Some (set_cache s2 d (map_option (\<lambda>c. sector_fill c r bytes) (disk_cache (disk_vector s2 ! d))),
                  Some res, cache_res, ref)
     } else Some (s1, None, cache_res, ref)
   }"

text \<open>
  The loop over the sectors, \<open>n\<close> rounds from sector \<open>i\<close> on. It returns the state, the stream, the
  bytes stored so far and the result of the last read.
\<close>

primrec read_loop ::
  "'a allocator \<Rightarrow> (nat \<Rightarrow> ('a, 'b) disk_state_scheme disk_driver) \<Rightarrow> ('a, 'b) disk_state_scheme \<Rightarrow> disk_stream \<Rightarrow>
   u8 list \<Rightarrow> int \<Rightarrow> int \<Rightarrow> int \<Rightarrow> nat \<Rightarrow>
   (('a, 'b) disk_state_scheme \<times> disk_stream \<times> u8 list \<times> int) option" where
  "read_loop kz drivers s stream out res i remaining 0 = Some (s, stream, out, res)"
| "read_loop kz drivers s stream out res i remaining (Suc n) = do {
     let offset_in_sector = pos stream smod stream_sector_size stream;
     let amount_read = (if remaining < stream_sector_size stream then remaining
                        else stream_sector_size stream - offset_in_sector);
     (s1, read_res, cache_res, ref) \<leftarrow> load_sector kz drivers s (stream_disk stream) i;
     if cache_res < 0 then Some (s1, stream, out, cache_res)
     else do {
       let res1 = (case read_res of None \<Rightarrow> res | Some r \<Rightarrow> r);
       if res1 < 0 \<and> read_res \<noteq> None then Some (s1, stream, out, res1)
       else do {
         buf \<leftarrow> Option.bind ref (cached_sector s1 (stream_disk stream));
         if amount_read > 0 \<and> (offset_in_sector < 0 \<or> offset_in_sector + amount_read > int (length buf)) then None
         else do {
           new_pos \<leftarrow> int_range (pos stream + amount_read);
           read_loop kz drivers s1 (stream\<lparr>pos := new_pos\<rparr>)
             (out @ take (nat amount_read) (drop (nat offset_in_sector) buf)) res1 (i + 1)
             (remaining - amount_read) n
         }
       }
     }
   }"

definition diskstreamer_read ::
  "'a allocator \<Rightarrow> (nat \<Rightarrow> ('a, 'b) disk_state_scheme disk_driver) \<Rightarrow> ('a, 'b) disk_state_scheme \<Rightarrow> disk_stream \<Rightarrow> int \<Rightarrow>
   (('a, 'b) disk_state_scheme \<times> disk_stream \<times> u8 list \<times> int) option" where
  "diskstreamer_read kz drivers s stream count =
     (let offset = pos stream; ss = stream_sector_size stream in
      if ss = 0 then None
      else do {
        let offset_aligned_down = offset - offset smod ss;
        let starting_sector = offset_aligned_down sdiv ss;
        final_offset \<leftarrow> int_range (offset + count);
        final_offset_aligned_up \<leftarrow> int_range (if final_offset smod ss \<noteq> 0 then final_offset + (ss - final_offset smod ss) else final_offset);
        let ending_sector = final_offset_aligned_up sdiv ss;
        total_bytes_aligned \<leftarrow> int_range (final_offset_aligned_up - offset_aligned_down);
        if total_bytes_aligned sdiv ss < 0 then None
        else read_loop kz drivers s stream [] 0 starting_sector count (nat (ending_sector - starting_sector + 1))
      })"

text \<open>Closing a stream passes it to \<open>kfree\<close>, which does nothing.\<close>

subsection \<open>A stream over a medium\<close>

text \<open>
  The hardware disk as its sectors of \<open>ss\<close> bytes, and its bytes by their offset. A driver serves a
  disk when it answers a read of one sector with its bytes and the code \<open>0\<close>, and changes nothing the
  stream looks at.
\<close>

definition medium_byte :: "(nat \<Rightarrow> u8 list) \<Rightarrow> nat \<Rightarrow> nat \<Rightarrow> u8" where
  "medium_byte medium ss b = medium (b div ss) ! (b mod ss)"

definition serves :: "('s disk_driver) \<Rightarrow> nat \<Rightarrow> (nat \<Rightarrow> u8 list) \<Rightarrow> bool" where
  "serves drv d medium \<longleftrightarrow> (\<exists>rd. drv_read drv = Some rd \<and> (\<forall>s lba. rd s d lba 1 = (s, 0, medium (unat lba))))"

text \<open>
  The state of a disk a stream reads: disk \<open>d\<close> starts at block \<open>l0\<close> of a medium with \<open>ss\<close> bytes per sector,
  its driver serves it, every cached sector holds the bytes of the medium, and the round-robin
  counter has room for \<open>k\<close> more additions.
\<close>

definition stream_inv ::
  "(nat \<Rightarrow> ('a, 'b) disk_state_scheme disk_driver) \<Rightarrow> (nat \<Rightarrow> u8 list) \<Rightarrow> nat \<Rightarrow> nat \<Rightarrow> nat \<Rightarrow> nat \<Rightarrow>
   ('a, 'b) disk_state_scheme \<Rightarrow> bool" where
  "stream_inv drivers medium ss l0 d k s \<longleftrightarrow>
     d < length (disk_vector s) \<and> 0 < ss \<and> ss \<le> 2048 \<and> (\<forall>n. length (medium n) = ss) \<and>
     sector_size (disk_vector s ! d) = int ss \<and> starting_lba (disk_vector s ! d) = of_nat l0 \<and>
     serves (drivers (driver (disk_vector s ! d))) d medium \<and>
     (\<exists>c. disk_cache (disk_vector s ! d) = Some c \<and> 0 \<le> rr_pos (mem_roundrobin c) \<and>
        rr_pos (mem_roundrobin c) + int k < 2147483647 \<and>
        (\<forall>n b. sector_at c (sector_ref_of n) = Some b \<longrightarrow> length b = 2048 \<and> take ss b = medium n))"

lemma sint_of_nat_u64: "n < 2 ^ 63 \<Longrightarrow> sint (of_nat n :: u64) = int n"
  by (simp add: sint_uint unsigned_of_nat take_bit_nat_eq_self signed_take_bit_int_eq_self)

lemma real_offset_of_nat:
  assumes "starting_lba dk = of_nat l0" "sector_size dk = int ss" "(l0 + i) * ss \<le> 2147483647" "0 < ss"
    and "l0 + i < 2 ^ 31"
  shows "disk_real_offset dk (word_of_int (int i)) = int ((l0 + i) * ss)"
    and "int_of_size (word_of_int (int ((l0 + i) * ss))) = int ((l0 + i) * ss)"
proof -
  have u: "ucast (of_nat i :: u32) = (of_nat i :: u64)"
    using assms(5) by (intro word_uint_eqI) (simp add: unsigned_ucast_eq unsigned_of_nat take_bit_nat_eq_self)
  have w: "starting_lba dk + ucast (word_of_int (int i) :: u32) = of_nat (l0 + i)"
    unfolding assms(1) of_int_of_nat_eq u by simp
  have s: "disk_real_sector dk (word_of_int (int i)) = int (l0 + i)"
    unfolding disk_real_sector_def w by (rule sint_of_nat_u64) (use assms(5) in simp)
  have p: "word_of_int (int (l0 + i)) * size_of_int (int ss) = (of_nat ((l0 + i) * ss) :: u64)"
    by (simp add: size_of_int_def)
  show "disk_real_offset dk (word_of_int (int i)) = int ((l0 + i) * ss)"
    unfolding disk_real_offset_def s assms(2) p by (rule sint_of_nat_u64) (use assms(3) in simp)
  have "uint (word_of_int (int ((l0 + i) * ss)) :: u64) = int ((l0 + i) * ss)"
    using assms(3) unfolding of_int_of_nat_eq by (simp add: unsigned_of_nat take_bit_nat_eq_self del: of_nat_mult of_nat_add)
  moreover have "int ((l0 + i) * ss) \<le> int 2147483647" using assms(3) by (simp only: of_nat_le_iff)
  then have "int ((l0 + i) * ss) < 2 ^ 31" by (rule le_less_trans) simp
  ultimately show "int_of_size (word_of_int (int ((l0 + i) * ss))) = int ((l0 + i) * ss)"
    using int_of_size_uint by metis
qed

lemma sector_at_fill:
  "sector_at (sector_fill c r bytes) r' =
    (if r = r' then map_option (\<lambda>buf. bytes @ drop (length bytes) buf) (sector_at c r) else sector_at c r')"
  by (cases r; cases r')
    (auto simp: sector_fill_def sector_at_def level3_at_update split: bind_splits option.splits)

lemma rr_fill [simp]: "mem_roundrobin (sector_fill c r bytes) = mem_roundrobin c"
  by (simp add: sector_fill_def)

lemma set_cache_simps [simp]:
  assumes "d < length (disk_vector s)"
  shows "disk_vector (set_cache s d c) ! d = (disk_vector s ! d)\<lparr>disk_cache := c\<rparr>"
    "length (disk_vector (set_cache s d c)) = length (disk_vector s)"
    "heap_state (set_cache s d c) = heap_state s"
    "set_cache (set_cache s d c) d c' = set_cache s d c'"
  using assms by (simp_all add: set_cache_def)

text \<open>Loading sector \<open>i\<close> of the disk.\<close>

definition block_in_range :: "disk \<Rightarrow> nat \<Rightarrow> bool" where
  "block_in_range dk b \<longleftrightarrow> b < unat (ending_lba dk) \<or> starting_lba dk = 0 \<or> ending_lba dk = 0"

lemma load_sector_ok:
  assumes kz: "never_fails kz" and inv: "stream_inv drivers medium ss l0 d (Suc k) s"
    and b: "(l0 + i) * ss \<le> 2147483647" "block_in_range (disk_vector s ! d) (l0 + i)"
  shows "\<exists>s' rr cr ref buf a' c'. load_sector kz drivers s d (int i) = Some (s', rr, cr, Some ref) \<and> 0 \<le> cr \<and>
    (rr = None \<or> rr = Some 0) \<and> cached_sector s' d ref = Some buf \<and> length buf = 2048 \<and>
    take ss buf = medium (l0 + i) \<and>
    (cached_sector s d (sector_ref_of (l0 + i)) = None \<longrightarrow> buf = medium (l0 + i) @ drop ss zero_sector) \<and>
    s' = set_cache (s\<lparr>heap_state := a'\<rparr>) d (Some c') \<and>
    stream_inv drivers medium ss l0 d k s'"
proof -
  let ?dk = "disk_vector s ! d"
  obtain c where c: "disk_cache ?dk = Some c" "0 \<le> rr_pos (mem_roundrobin c)"
    "rr_pos (mem_roundrobin c) + int (Suc k) < 2147483647"
    "\<And>n b. sector_at c (sector_ref_of n) = Some b \<Longrightarrow> length b = 2048 \<and> take ss b = medium n"
    and d: "d < length (disk_vector s)" and ss: "0 < ss" "ss \<le> 2048" "\<And>n. length (medium n) = ss"
    "sector_size ?dk = int ss" "starting_lba ?dk = of_nat l0"
    and sv: "serves (drivers (driver ?dk)) d medium"
    using inv unfolding stream_inv_def by blast
  have "l0 + i \<le> (l0 + i) * ss" using ss(1) by (cases ss) (simp_all add: trans_le_add1)
  also note b(1)
  finally have li: "l0 + i < 2 ^ 31" by (rule le_less_trans) simp
  note off = real_offset_of_nat [OF ss(5,4) b(1) ss(1) li]
  obtain rd where rd: "drv_read (drivers (driver ?dk)) = Some rd" "\<And>s lba. rd s d lba 1 = (s, 0, medium (unat lba))"
    using sv unfolding serves_def by blast
  obtain a' c1 st where f: "diskstreamer_cache_find kz (heap_state s) (Some c) (int ss) (int ((l0 + i) * ss)) =
      Some (a', Some c1, st, Some (sector_ref_of (l0 + i)))"
    "st = 0 \<and> sector_at c (sector_ref_of (l0 + i)) \<noteq> None \<and> sector_at c1 = sector_at c \<and>
       rr_pos (mem_roundrobin c1) = rr_pos (mem_roundrobin c) \<or>
     st = 1 \<and> sector_at c (sector_ref_of (l0 + i)) = None \<and>
       sector_at c1 = (sector_at c)(sector_ref_of (l0 + i) \<mapsto> zero_sector) \<and>
       rr_pos (mem_roundrobin c1) = rr_pos (mem_roundrobin c) + 1"
    using cache_find_sector [OF kz, of "int ss" c "heap_state s" "l0 + i"] ss(1,2) c(2,3) by auto
  let ?r = "sector_ref_of (l0 + i)" and ?s1 = "set_cache (s\<lparr>heap_state := a'\<rparr>) d (Some c1)"
  have find: "cache_find_on kz s d (disk_real_offset ?dk (word_of_int (int i))) = Some (?s1, st, Some ?r)"
    unfolding cache_find_on_def off c(1) ss(4) f(1) by simp
  have block: "disk_read_block drivers ?s1 d (word_of_int (int i)) 1 = (?s1, 0, medium (l0 + i))"
  proof -
    have u: "ucast (of_nat i :: u32) = (of_nat i :: u64)"
      using li by (intro word_uint_eqI) (simp add: unsigned_ucast_eq unsigned_of_nat take_bit_nat_eq_self)
    have abs: "starting_lba ?dk + ucast (word_of_int (int i) :: u32) = of_nat (l0 + i)"
      unfolding ss(5) of_int_of_nat_eq u by simp
    have "unat (ucast (of_nat (l0 + i) :: u64) :: u32) = l0 + i"
      using li by (simp add: unsigned_ucast_eq unsigned_of_nat take_bit_nat_eq_self del: of_nat_add)
    moreover have "\<not> (of_nat (l0 + i) + size_of_int 1 > ending_lba ?dk \<and> starting_lba ?dk \<noteq> 0 \<and> ending_lba ?dk \<noteq> 0)"
    proof -
      have "of_nat (l0 + i) + size_of_int 1 = (of_nat (Suc (l0 + i)) :: u64)" by (simp add: size_of_int_def)
      moreover have "unat (of_nat (Suc (l0 + i)) :: u64) = Suc (l0 + i)" using li by (intro unat_of_nat_u64) simp
      ultimately show ?thesis
        using b(2) by (auto simp: block_in_range_def word_less_nat_alt not_less simp del: of_nat_add of_nat_Suc)
    qed
    ultimately show ?thesis
      using d rd abs by (simp add: disk_read_block_def Let_def del: of_nat_add)
  qed
  show ?thesis
  proof (cases "st = 0")
    case True
    obtain buf where buf: "sector_at c ?r = Some buf" using f(2) True by auto
    have l: "load_sector kz drivers s d (int i) = Some (?s1, None, 0, Some ?r)"
      using find True by (simp add: load_sector_def)
    have "stream_inv drivers medium ss l0 d k ?s1"
      using d ss sv c(2-4) f(2) True by (simp add: stream_inv_def)
    then show ?thesis
      using l buf c(4) [OF buf] d f(2) True
      by (intro exI [of _ ?s1] exI [of _ None] exI [of _ 0] exI [of _ ?r] exI [of _ buf] exI [of _ a'] exI [of _ c1])
        (simp add: cached_sector_def c(1))
  next
    case False
    let ?c2 = "sector_fill c1 ?r (medium (l0 + i))"
    let ?s2 = "set_cache (s\<lparr>heap_state := a'\<rparr>) d (Some ?c2)"
    let ?buf = "medium (l0 + i) @ drop ss zero_sector"
    have st: "st = 1" and c1: "sector_at c1 = (sector_at c)(?r \<mapsto> zero_sector)"
      "rr_pos (mem_roundrobin c1) = rr_pos (mem_roundrobin c) + 1" using f(2) False by auto
    have l: "load_sector kz drivers s d (int i) = Some (?s2, Some 0, 1, Some ?r)"
      using find st block d ss(2,3) by (simp add: load_sector_def)
    have sec: "sector_at ?c2 x = ((sector_at c)(?r \<mapsto> ?buf)) x" for x
      unfolding sector_at_fill c1(1) using ss(3) by simp
    have buf: "length ?buf = 2048" "take ss ?buf = medium (l0 + i)" using ss(2,3) by (simp_all add: zero_sector_def)
    have "length b = 2048 \<and> take ss b = medium n" if "sector_at ?c2 (sector_ref_of n) = Some b" for n b
      using that c(4) buf unfolding sec by (auto simp: sector_ref_of_inj split: if_splits)
    then have "stream_inv drivers medium ss l0 d k ?s2"
      using d ss sv c(2,3) c1(2) by (simp add: stream_inv_def)
    then show ?thesis
      using l buf d sec
      by (intro exI [of _ ?s2] exI [of _ "Some 0"] exI [of _ 1] exI [of _ ?r] exI [of _ ?buf] exI [of _ a'] exI [of _ ?c2])
        (simp add: cached_sector_def)
  qed
qed

lemma stream_inv_simps:
  assumes "stream_inv drivers medium ss l0 d k s"
  shows "d < length (disk_vector s)" "0 < ss" "ss \<le> 2048" "length (medium n) = ss"
    "sector_size (disk_vector s ! d) = int ss"
  using assms by (simp_all add: stream_inv_def)

lemma bytes_in_sector:
  assumes "take ss buf = medium n" "length (medium n) = ss" "off + k \<le> ss"
  shows "take k (drop off buf) = map (\<lambda>j. medium_byte medium ss (n * ss + off + j)) [0..<k]"
proof (rule nth_equalityI)
  have l: "ss \<le> length buf" using assms(1,2) by (metis length_take min.cobounded1 min.commute)
  show "length (take k (drop off buf)) = length (map (\<lambda>j. medium_byte medium ss (n * ss + off + j)) [0..<k])"
    using l assms(3) by simp
  fix j assume "j < length (take k (drop off buf))"
  then have j: "j < k" by simp
  then have o: "off + j < ss" using assms(3) by simp
  have "take k (drop off buf) ! j = take ss buf ! (off + j)" using j o l by simp
  also have "\<dots> = medium_byte medium ss (n * ss + off + j)"
    using o assms(1) by (simp add: medium_byte_def add.assoc)
  finally show "take k (drop off buf) ! j = map (\<lambda>j. medium_byte medium ss (n * ss + off + j)) [0..<k] ! j"
    using j by simp
qed

text \<open>One round: \<open>amt\<close> bytes of the loaded sector are stored.\<close>

lemma read_loop_step:
  assumes l: "load_sector kz drivers s d (int i) = Some (s1, rr, cr, Some ref)" "0 \<le> cr"
    "rr = None \<or> rr = Some 0" "cached_sector s1 d ref = Some buf" "length buf = 2048"
    and st: "pos stream = int p" "stream_sector_size stream = int ss" "stream_disk stream = d" "0 < ss"
    and amt: "amt = (if r < ss then r else ss - p mod ss)" "amt \<le> r" "p mod ss + amt \<le> 2048"
    and lim: "p + r \<le> 2147483647" "res = 0"
  shows "\<exists>res1. res1 = 0 \<and> read_loop kz drivers s stream out res (int i) (int r) (Suc n) =
    read_loop kz drivers s1 (stream\<lparr>pos := int (p + amt)\<rparr>) (out @ take amt (drop (p mod ss) buf)) res1
      (int (Suc i)) (int (r - amt)) n"
proof -
  let ?off = "p mod ss"
  have off: "?off < ss" using st(4) by simp
  have sm: "int p smod int ss = int ?off" using st(4) by (simp add: smod_pos zmod_int)
  have am: "(if int r < int ss then int r else int ss - int ?off) = int amt"
    using off by (simp add: amt(1) of_nat_diff)
  define res1 where "res1 = (case rr of None \<Rightarrow> res | Some r \<Rightarrow> r)"
  have res1: "res1 = 0" using l(3) lim(2) by (auto simp: res1_def)
  have rng: "int_range (int p + int amt) = Some (int (p + amt))"
    using amt(2) lim(1) by (simp add: int_range_def)
  have room: "\<not> (0 < int amt \<and> (int ?off < 0 \<or> int (length buf) < int ?off + int amt))"
    using amt(3) l(5) by simp
  have "read_loop kz drivers s stream out res (int i) (int r) (Suc n) =
    read_loop kz drivers s1 (stream\<lparr>pos := int (p + amt)\<rparr>) (out @ take amt (drop ?off buf)) res1
      (int (Suc i)) (int (r - amt)) n"
    unfolding read_loop.simps(2) Let_def st sm am
    using l(1,2,4) res1 room rng amt(2)
    by (auto simp: of_nat_diff res1_def [symmetric] add.commute)
  then show ?thesis using res1 by blast
qed

text \<open>What a read changes of the state: the heap and the cache of the disk.\<close>

definition cache_changed :: "nat \<Rightarrow> ('a, 'b) disk_state_scheme \<Rightarrow> ('a, 'b) disk_state_scheme \<Rightarrow> bool" where
  "cache_changed d s s' \<longleftrightarrow> (\<exists>a c. s' = set_cache (s\<lparr>heap_state := a\<rparr>) d c)"

lemma cache_changed_refl: "d < length (disk_vector s) \<Longrightarrow> cache_changed d s s"
  unfolding cache_changed_def set_cache_def
  by (rule exI [of _ "heap_state s"], rule exI [of _ "disk_cache (disk_vector s ! d)"]) simp

lemma cache_changed_trans: "cache_changed d s s1 \<Longrightarrow> cache_changed d s1 s2 \<Longrightarrow> d < length (disk_vector s) \<Longrightarrow> cache_changed d s s2"
  unfolding cache_changed_def set_cache_def by (elim exE) auto

lemma cache_changed_disk:
  "cache_changed d s s' \<Longrightarrow> d < length (disk_vector s) \<Longrightarrow>
   \<exists>c. disk_vector s' ! d = (disk_vector s ! d)\<lparr>disk_cache := c\<rparr>"
  unfolding cache_changed_def by auto

text \<open>The loop from position \<open>p\<close> with \<open>r\<close> bytes to go and \<open>n\<close> rounds left.\<close>

lemma read_loop_ok:
  assumes kz: "never_fails kz" and st: "stream_sector_size stream = int ss" "stream_disk stream = d"
  shows "stream_inv drivers medium ss l0 d (n + k) s \<Longrightarrow> pos stream = int p \<Longrightarrow> res = 0 \<Longrightarrow>
    (r < ss \<longrightarrow> p mod ss + r \<le> ss) \<Longrightarrow> (0 < r \<longrightarrow> i = p div ss \<and> p + r \<le> (i + n) * ss) \<Longrightarrow> p + r \<le> 2147483647 \<Longrightarrow>
    (l0 + i + n) * ss \<le> 2147483647 \<Longrightarrow> (\<forall>j<n. block_in_range (disk_vector s ! d) (l0 + i + j)) \<Longrightarrow>
    stream_sector_size stream = int ss \<Longrightarrow> stream_disk stream = d \<Longrightarrow>
    \<exists>s' res'. read_loop kz drivers s stream out res (int i) (int r) n =
      Some (s', stream\<lparr>pos := int (p + r)\<rparr>,
            out @ map (\<lambda>j. medium_byte medium ss (l0 * ss + p + j)) [0..<r], res') \<and>
      res' = 0 \<and> stream_inv drivers medium ss l0 d k s' \<and> cache_changed d s s'"
proof (induction n arbitrary: s stream p r i out res)
  case 0
  have "r = 0"
  proof (rule ccontr)
    assume "r \<noteq> 0"
    then have h: "i = p div ss" "p + r \<le> i * ss" using 0(5) by auto
    have "p div ss * ss \<le> p" by (rule div_times_less_eq_dividend)
    then have "p + r \<le> p" using h(2) unfolding h(1) by (rule order_trans [rotated])
    then show False using \<open>r \<noteq> 0\<close> by simp
  qed
  then show ?case using 0 cache_changed_refl stream_inv_simps(1) [OF 0(1)] by simp
next
  case (Suc n)
  let ?off = "p mod ss"
  define amt where "amt = (if r < ss then r else ss - ?off)"
  have ss: "0 < ss" "ss \<le> 2048" "\<And>n. length (medium n) = ss" using stream_inv_simps [OF Suc.prems(1)] by simp_all
  have off: "?off < ss" using ss(1) by simp
  have amt: "amt \<le> r" "?off + amt \<le> ss" using Suc.prems(4) off by (auto simp: amt_def)
  have d: "d < length (disk_vector s)" using stream_inv_simps [OF Suc.prems(1)] by simp
  have b: "(l0 + i) * ss \<le> 2147483647"
    using Suc.prems(7) by (rule order_trans [rotated]) (rule mult_le_mono1, simp)
  have rng: "block_in_range (disk_vector s ! d) (l0 + i)" using Suc.prems(8) by (metis add.right_neutral zero_less_Suc)
  obtain s1 rr cr ref buf a' c' where l: "load_sector kz drivers s d (int i) = Some (s1, rr, cr, Some ref)" "0 \<le> cr"
    "rr = None \<or> rr = Some 0" "cached_sector s1 d ref = Some buf" "length buf = 2048" "take ss buf = medium (l0 + i)"
    "s1 = set_cache (s\<lparr>heap_state := a'\<rparr>) d (Some c')" "stream_inv drivers medium ss l0 d (n + k) s1"
    using load_sector_ok [OF kz Suc.prems(1) [unfolded add_Suc] b rng] by blast
  have ch: "cache_changed d s s1" unfolding cache_changed_def using l(7) by blast
  let ?st = "stream\<lparr>pos := int (p + amt)\<rparr>" and ?out = "out @ take amt (drop ?off buf)"
  have room: "?off + amt \<le> 2048" using amt(2) ss(2) by simp
  obtain res1 where res1: "res1 = 0" and step: "read_loop kz drivers s stream out res (int i) (int r) (Suc n) =
      read_loop kz drivers s1 ?st ?out res1 (int (Suc i)) (int (r - amt)) n"
    using read_loop_step [OF l(1-5) Suc.prems(2,9,10) ss(1) amt_def amt(1) room Suc.prems(6,3)] by blast
  have c1: "r - amt < ss \<longrightarrow> (p + amt) mod ss + (r - amt) \<le> ss"
    and c2: "0 < r - amt \<longrightarrow> Suc i = (p + amt) div ss \<and> (p + amt) + (r - amt) \<le> (Suc i + n) * ss"
  proof -
    have next_sector: "p + amt = Suc i * ss" if "0 < r - amt"
    proof -
      have i: "i = p div ss" using that Suc.prems(5) by simp
      have "amt = ss - ?off" using that by (auto simp: amt_def split: if_splits)
      moreover have "p div ss * ss + ?off = p" by (rule div_mult_mod_eq)
      moreover have "Suc (p div ss) * ss = p div ss * ss + ss" by simp
      ultimately show ?thesis unfolding i using off by linarith
    qed
    show "r - amt < ss \<longrightarrow> (p + amt) mod ss + (r - amt) \<le> ss"
    proof (cases "0 < r - amt")
      case True
      then show ?thesis using next_sector by simp
    next
      case False
      then show ?thesis using ss(1) by (simp add: less_imp_le)
    qed
    show "0 < r - amt \<longrightarrow> Suc i = (p + amt) div ss \<and> (p + amt) + (r - amt) \<le> (Suc i + n) * ss"
      using next_sector ss(1) amt(1) Suc.prems(5) by auto
  qed
  have rngs: "\<forall>j<n. block_in_range (disk_vector s1 ! d) (l0 + Suc i + j)"
  proof (intro allI impI)
    fix j assume "j < n"
    then have "block_in_range (disk_vector s ! d) (l0 + i + Suc j)" using Suc.prems(8) by blast
    then show "block_in_range (disk_vector s1 ! d) (l0 + Suc i + j)"
      using d by (simp add: l(7) block_in_range_def)
  qed
  have h: "pos ?st = int (p + amt)" "stream_sector_size ?st = int ss" "stream_disk ?st = d"
    and lim: "(p + amt) + (r - amt) \<le> 2147483647" "(l0 + Suc i + n) * ss \<le> 2147483647"
    using Suc.prems(6,7,9,10) amt(1) by simp_all
  obtain s' res' where r: "read_loop kz drivers s1 ?st ?out res1 (int (Suc i)) (int (r - amt)) n =
      Some (s', ?st\<lparr>pos := int (p + amt + (r - amt))\<rparr>,
            ?out @ map (\<lambda>j. medium_byte medium ss (l0 * ss + (p + amt) + j)) [0..<r - amt], res')"
    "res' = 0" "stream_inv drivers medium ss l0 d k s'" "cache_changed d s1 s'"
    using Suc.IH [OF l(8) h(1) res1 c1 c2 lim rngs h(2,3), of ?out] by blast
  have "take amt (drop ?off buf) = map (\<lambda>j. medium_byte medium ss (l0 * ss + p + j)) [0..<amt]"
  proof (cases "0 < r")
    case True
    then have i: "i = p div ss" using Suc.prems(5) by simp
    have "(l0 + i) * ss + ?off = l0 * ss + p" unfolding i by (simp add: add_mult_distrib)
    then show ?thesis using bytes_in_sector [of ss buf medium "l0 + i", OF l(6) ss(3) amt(2)] by simp
  next
    case False
    then show ?thesis using amt(1) by simp
  qed
  moreover have "map f [0..<amt] @ map (\<lambda>j. f (amt + j)) [0..<r - amt] = map f [0..<r]" for f :: "nat \<Rightarrow> u8"
    by (rule nth_equalityI) (use amt(1) in \<open>auto simp: nth_append\<close>)
  from this [of "\<lambda>j. medium_byte medium ss (l0 * ss + p + j)"]
  have "map (\<lambda>j. medium_byte medium ss (l0 * ss + p + j)) [0..<amt] @
      map (\<lambda>j. medium_byte medium ss (l0 * ss + (p + amt) + j)) [0..<r - amt] =
      map (\<lambda>j. medium_byte medium ss (l0 * ss + p + j)) [0..<r]"
    by (simp add: add.assoc)
  ultimately show ?case using step r amt(1) cache_changed_trans [OF ch r(4) d] by simp
qed

definition sector_ceiling :: "nat \<Rightarrow> nat \<Rightarrow> nat" where
  "sector_ceiling ss b = (b + ss - 1) div ss"

lemma sector_ceiling_mult:
  assumes "0 < ss"
  shows "sector_ceiling ss b * ss = (if b mod ss \<noteq> 0 then b + (ss - b mod ss) else b)"
proof -
  obtain a r where b: "b = a * ss + r" "r < ss" using assms by (metis div_mult_mod_eq mod_less_divisor)
  show ?thesis
  proof (cases "r = 0")
    case True
    have "(a * ss + (ss - 1)) div ss = a" using assms by (intro div_nat_eqI) (simp_all add: algebra_simps)
    then show ?thesis using True b assms by (simp add: sector_ceiling_def)
  next
    case False
    have "(a * ss + r + ss - 1) div ss = Suc a"
      by (rule div_nat_eqI) (use False b(2) in \<open>simp_all add: algebra_simps\<close>)
    then show ?thesis using False b by (simp add: sector_ceiling_def)
  qed
qed

text \<open>The sectors a read of \<open>n\<close> bytes at \<open>p\<close> visits: up to and with the one behind its last byte.\<close>

definition read_rounds :: "nat \<Rightarrow> nat \<Rightarrow> nat \<Rightarrow> nat" where
  "read_rounds ss p n = Suc (sector_ceiling ss (p + n)) - p div ss"

lemma diskstreamer_read_loop:
  assumes ss: "0 < ss" "stream_sector_size stream = int ss" "pos stream = int p"
    and lim: "p + n + ss \<le> 2147483647"
  shows "diskstreamer_read kz drivers s stream (int n) =
    read_loop kz drivers s stream [] 0 (int (p div ss)) (int n) (read_rounds ss p n)"
    and "p div ss \<le> sector_ceiling ss (p + n)" "p + n \<le> sector_ceiling ss (p + n) * ss"
    "sector_ceiling ss (p + n) * ss < p + n + ss"
proof -
  let ?c = "sector_ceiling ss (p + n)" and ?i = "p div ss"
  note up = sector_ceiling_mult [OF ss(1), of "p + n"]
  have md: "(p + n) mod ss < ss" using ss(1) by simp
  show c: "p + n \<le> ?c * ss" "?c * ss < p + n + ss" unfolding up using ss(1) md by (auto split: if_splits)
  have "?i * ss \<le> ?c * ss" using c(1) div_times_less_eq_dividend [of p ss] by linarith
  then show i: "?i \<le> ?c" using ss(1) by simp
  have m: "int p smod int ss = int (p mod ss)" "int (p + n) smod int ss = int ((p + n) mod ss)"
    using ss(1) by (simp_all add: smod_pos zmod_int)
  have dn: "int p - int (p mod ss) = int (?i * ss)" using minus_mod_eq_div_mult [of p ss] mod_less_eq_dividend [of p ss] by linarith
  have un: "(if int ((p + n) mod ss) \<noteq> 0 then int (p + n) + (int ss - int ((p + n) mod ss)) else int (p + n)) = int (?c * ss)"
    unfolding up using md by (simp add: of_nat_diff)
  have q: "int (k * ss) sdiv int ss = int k" for k using ss(1) by (simp add: sdiv_pos)
  have r: "int_range (int p + int n) = Some (int (p + n))" "int_range (int (?c * ss)) = Some (int (?c * ss))"
    "int_range (int (?c * ss) - int (?i * ss)) = Some (int ((?c - ?i) * ss))"
  proof -
    have "int (p + n) \<le> 2147483647" "int (?c * ss) \<le> 2147483647" using lim c(2) by linarith+
    moreover have "int (?c * ss) - int (?i * ss) = int ((?c - ?i) * ss)"
      using i by (simp add: of_nat_diff diff_mult_distrib left_diff_distrib)
    moreover have "(?c - ?i) * ss \<le> ?c * ss" by simp
    then have "int ((?c - ?i) * ss) \<le> int (?c * ss)" by (simp only: of_nat_le_iff)
    ultimately show "int_range (int p + int n) = Some (int (p + n))" "int_range (int (?c * ss)) = Some (int (?c * ss))"
      "int_range (int (?c * ss) - int (?i * ss)) = Some (int ((?c - ?i) * ss))"
      by (simp_all add: int_range_def del: of_nat_mult)
  qed
  have rounds: "nat (int ?c - int ?i + 1) = read_rounds ss p n" using i by (simp add: read_rounds_def)
  show "diskstreamer_read kz drivers s stream (int n) =
    read_loop kz drivers s stream [] 0 (int ?i) (int n) (read_rounds ss p n)"
    unfolding diskstreamer_read_def ss(2,3) Let_def m dn r(1) Option.bind_lunit un r(2) r(3) q rounds
    using ss(1) by simp
qed

text \<open>What a read needs: the offsets of all visited sectors are ints, and the disk has these sectors.\<close>

definition readable :: "disk \<Rightarrow> nat \<Rightarrow> nat \<Rightarrow> nat \<Rightarrow> nat \<Rightarrow> bool" where
  "readable dk ss l0 p n \<longleftrightarrow> p + n + ss \<le> 2147483647 \<and> (l0 + sector_ceiling ss (p + n) + 1) * ss \<le> 2147483647 \<and>
     (\<forall>j<read_rounds ss p n. block_in_range dk (l0 + p div ss + j))"

lemma diskstreamer_read_ok:
  assumes "never_fails kz" "stream_inv drivers medium ss l0 d (read_rounds ss p n + k) s"
    and "stream_sector_size stream = int ss" "stream_disk stream = d" "pos stream = int p"
    and "readable (disk_vector s ! d) ss l0 p n" "n < ss \<longrightarrow> p mod ss + n \<le> ss"
  shows "\<exists>s' res. diskstreamer_read kz drivers s stream (int n) =
      Some (s', stream\<lparr>pos := int (p + n)\<rparr>,
            map (\<lambda>j. medium_byte medium ss (l0 * ss + p + j)) [0..<n], res) \<and>
    res = 0 \<and> stream_inv drivers medium ss l0 d k s' \<and> cache_changed d s s'"
proof -
  have ss: "0 < ss" using stream_inv_simps [OF assms(2)] by simp
  have lim: "p + n + ss \<le> 2147483647" "(l0 + sector_ceiling ss (p + n) + 1) * ss \<le> 2147483647"
    "\<forall>j<read_rounds ss p n. block_in_range (disk_vector s ! d) (l0 + p div ss + j)"
    using assms(6) by (simp_all add: readable_def)
  note r = diskstreamer_read_loop [OF ss assms(3,5) lim(1)]
  have ir: "p div ss + read_rounds ss p n = Suc (sector_ceiling ss (p + n))"
    using r(2) by (simp add: read_rounds_def)
  have a: "0 < n \<longrightarrow> p div ss = p div ss \<and> p + n \<le> (p div ss + read_rounds ss p n) * ss"
    unfolding ir using r(3) by simp
  have b: "(l0 + p div ss + read_rounds ss p n) * ss \<le> 2147483647"
    using lim(2) ir by (simp add: add.assoc)
  have c: "p + n \<le> 2147483647" using lim(1) by simp
  show ?thesis
    using read_loop_ok [OF assms(1,3,4,2,5) refl assms(7) a c b lim(3) assms(3,4), of "[]"]
    unfolding r(1) by simp
qed

text \<open>
  C32. \<^bold>\<open>A stream reads the bytes of the disk.\<close> When no allocation fails, the driver serves the disk and the
  cached sectors hold the disk's bytes, a read that starts and ends in one sector, or has at least
  the length of a sector, stores exactly the bytes of the disk at the stream's position, returns
  \<open>0\<close>, moves the position behind them, and leaves a cache that agrees with the
  disk again.
\<close>

theorem diskstreamer_read_correct:
  assumes "never_fails kz" "stream_inv drivers medium ss l0 d (read_rounds ss p n + k) s"
    and "stream_sector_size stream = int ss" "stream_disk stream = d" "pos stream = int p"
    and "readable (disk_vector s ! d) ss l0 p n" "n < ss \<longrightarrow> p mod ss + n \<le> ss"
  shows "\<exists>s' res. diskstreamer_read kz drivers s stream (int n) =
      Some (s', stream\<lparr>pos := int (p + n)\<rparr>,
            map (\<lambda>j. medium_byte medium ss (l0 * ss + p + j)) [0..<n], res) \<and>
    res = 0 \<and> stream_inv drivers medium ss l0 d k s'"
  using diskstreamer_read_ok [OF assms] by blast


text \<open>A disk of one partition over a medium whose sector \<open>n\<close> is filled with the byte \<open>n\<close>.\<close>

definition numbered_medium :: "nat \<Rightarrow> u8 list" where
  "numbered_medium n = replicate 512 (of_nat n)"

definition numbered_driver :: "(unit, unit) disk_state_scheme disk_driver" where
  "numbered_driver = \<lparr>driver_name = replicate 20 0, drv_loaded = None, drv_mount = None,
     drv_read = Some (\<lambda>s d lba n. (s, 0, numbered_medium (unat lba))),
     drv_mount_partition = (\<lambda>s d a b. (s, - EUNIMP, None))\<rparr>"

definition numbered_state :: "(unit, unit) disk_state_scheme" where
  "numbered_state = \<lparr>heap_state = (), disk_vector = [\<lparr>disk_type = 1, sector_size = 512, disk_id = 0,
      filesystem = None, driver = 0, hardware_disk = 0, disk_cache = Some empty_cache,
      starting_lba = 34, ending_lba = 1000, driver_private = 0\<rparr>],
     primary_fs_disk = None, disk_driver_vec = [0], \<dots> = ()\<rparr>"

lemma sector_at_empty [simp]: "sector_at empty_cache r = None"
  by (simp add: sector_at_def level3_at_def empty_cache_def split: prod.splits)

lemma numbered_inv:
  assumes "k < 2147483647"
  shows "stream_inv (\<lambda>_. numbered_driver) numbered_medium 512 34 0 k numbered_state"
  using assms
  by (auto simp: stream_inv_def numbered_state_def serves_def numbered_driver_def numbered_medium_def)
    (simp_all add: empty_cache_def)

lemma numbered_readable:
  assumes "p + n \<le> 400000"
  shows "readable (disk_vector numbered_state ! 0) 512 34 p n"
proof -
  have c: "sector_ceiling 512 (p + n) \<le> 782"
    using div_le_mono [of "p + n + 512 - 1" 400511 512] assms by (simp add: sector_ceiling_def)
  then have "p div 512 + j \<le> 782" if "j < read_rounds 512 p n" for j
    using that unfolding read_rounds_def by linarith
  then have "34 + p div 512 + j < 1000" if "j < read_rounds 512 p n" for j using that by fastforce
  then show ?thesis
    using c assms by (auto simp: readable_def block_in_range_def numbered_state_def)
qed

theorem diskstreamer_read_correct_witness:
  "\<exists>s' res. diskstreamer_read (\<lambda>a n. (a, True)) (\<lambda>_. numbered_driver) numbered_state
      \<lparr>pos = 1000, stream_sector_size = 512, stream_disk = 0\<rparr> 700 =
      Some (s', \<lparr>pos = 1700, stream_sector_size = 512, stream_disk = 0\<rparr>,
            map (\<lambda>j. medium_byte numbered_medium 512 (18408 + j)) [0..<700], res) \<and> res = 0"
proof -
  have r: "read_rounds 512 1000 700 = 4" by (simp add: read_rounds_def sector_ceiling_def)
  show ?thesis
    using diskstreamer_read_correct [of "\<lambda>a n. (a, True)" "\<lambda>_. numbered_driver" numbered_medium 512 34 0 1000 700 0
        numbered_state "\<lparr>pos = 1000, stream_sector_size = 512, stream_disk = 0\<rparr>"]
      numbered_inv [of 4] numbered_readable [of 1000 700]
    by (auto simp: r never_fails_def)
qed

text \<open>
  \<^bold>\<open>A short read across a sector boundary.\<close> A read of less than a sector that crosses into the next
  one takes the bytes behind the boundary from the rest of the first sector's cache buffer: for a
  sector that was not cached yet they are zero, whatever the disk holds. The call reports success.
\<close>

theorem diskstreamer_read_crossing_is_wrong:
  assumes "never_fails kz" "stream_inv drivers medium ss l0 d (read_rounds ss p n) s"
    and "stream_sector_size stream = int ss" "stream_disk stream = d" "pos stream = int p"
    and "readable (disk_vector s ! d) ss l0 p n"
    and "n < ss" "ss < p mod ss + n" "p mod ss + n \<le> 2048"
    and "cached_sector s d (sector_ref_of (l0 + p div ss)) = None"
  shows "\<exists>s' res. diskstreamer_read kz drivers s stream (int n) =
      Some (s', stream\<lparr>pos := int (p + n)\<rparr>,
            map (\<lambda>j. medium_byte medium ss (l0 * ss + p + j)) [0..<ss - p mod ss] @
            replicate (p mod ss + n - ss) 0, res) \<and> res = 0"
proof -
  let ?i = "p div ss" and ?off = "p mod ss"
  have ss: "0 < ss" "ss \<le> 2048" "\<And>n. length (medium n) = ss" using stream_inv_simps [OF assms(2)] by simp_all
  have lim: "p + n + ss \<le> 2147483647" "(l0 + sector_ceiling ss (p + n) + 1) * ss \<le> 2147483647"
    "\<forall>j<read_rounds ss p n. block_in_range (disk_vector s ! d) (l0 + ?i + j)"
    using assms(6) by (simp_all add: readable_def)
  note r = diskstreamer_read_loop [OF ss(1) assms(3,5) lim(1)]
  have ir: "?i + read_rounds ss p n = Suc (sector_ceiling ss (p + n))" using r(2) by (simp add: read_rounds_def)
  obtain k where k: "read_rounds ss p n = Suc k" using r(2) by (simp add: read_rounds_def Suc_diff_le)
  have b: "(l0 + ?i) * ss \<le> 2147483647"
    by (rule order_trans [OF _ lim(2)]) (rule mult_le_mono1, use r(2) in simp)
  have rng: "block_in_range (disk_vector s ! d) (l0 + ?i)" using lim(3) k by (metis add.right_neutral zero_less_Suc)
  obtain s1 rr cr ref buf a' c' where l: "load_sector kz drivers s d (int ?i) = Some (s1, rr, cr, Some ref)" "0 \<le> cr"
    "rr = None \<or> rr = Some 0" "cached_sector s1 d ref = Some buf" "length buf = 2048" "take ss buf = medium (l0 + ?i)"
    "buf = medium (l0 + ?i) @ drop ss zero_sector"
    "s1 = set_cache (s\<lparr>heap_state := a'\<rparr>) d (Some c')" "stream_inv drivers medium ss l0 d k s1"
    using load_sector_ok [OF assms(1) assms(2) [unfolded k] b rng] assms(10) by blast
  let ?st = "stream\<lparr>pos := int (p + n)\<rparr>" and ?out = "[] @ take n (drop ?off buf)"
  have amt: "n = (if n < ss then n else ss - ?off)" and pn: "p + n \<le> 2147483647" using assms(7) lim(1) by simp_all
  obtain res1 where res1: "res1 = 0" and step: "read_loop kz drivers s stream [] 0 (int ?i) (int n) (Suc k) =
      read_loop kz drivers s1 ?st ?out res1 (int (Suc ?i)) (int (n - n)) k"
    using read_loop_step [OF l(1-5) assms(5,3,4) ss(1) amt order_refl assms(9) pn refl] by blast
  have h: "stream_sector_size ?st = int ss" "stream_disk ?st = d" "pos ?st = int (p + n)" using assms by simp_all
  have z: "0 < ss \<longrightarrow> (p + n) mod ss + 0 \<le> ss" using ss(1) by (simp add: less_imp_le)
  have z2: "0 < (0 :: nat) \<longrightarrow> Suc ?i = (p + n) div ss \<and> p + n + 0 \<le> (Suc ?i + k) * ss" by simp
  have z3: "p + n + 0 \<le> 2147483647" "(l0 + Suc ?i + k) * ss \<le> 2147483647" 
    using pn lim(2) ir k by (simp_all add: add.assoc)
  have z4: "\<forall>j<k. block_in_range (disk_vector s1 ! d) (l0 + Suc ?i + j)"
  proof (intro allI impI)
    fix j assume "j < k"
    then have "Suc j < read_rounds ss p n" using k by simp
    then have "block_in_range (disk_vector s ! d) (l0 + ?i + Suc j)" using lim(3) by blast
    then show "block_in_range (disk_vector s1 ! d) (l0 + Suc ?i + j)"
      using stream_inv_simps [OF assms(2)] by (simp add: l(8) block_in_range_def)
  qed
  have l9: "stream_inv drivers medium ss l0 d (k + 0) s1" using l(9) by simp
  obtain s' res' where fin: "read_loop kz drivers s1 ?st ?out res1 (int (Suc ?i)) (int 0) k =
      Some (s', ?st\<lparr>pos := int (p + n + 0)\<rparr>, ?out @ map (\<lambda>j. medium_byte medium ss (l0 * ss + (p + n) + j)) [0..<0], res')"
    "res' = 0"
    using read_loop_ok [OF assms(1) h(1,2) l9 h(3) res1 z z2 z3 z4 h(1,2), of ?out] by blast
  have off: "?off < ss" using ss(1) by simp
  have head: "take (ss - ?off) (drop ?off buf) = map (\<lambda>j. medium_byte medium ss (l0 * ss + p + j)) [0..<ss - ?off]"
  proof -
    have "(l0 + ?i) * ss + ?off = l0 * ss + p" by (simp add: add_mult_distrib)
    moreover have "?off + (ss - ?off) \<le> ss" using off by simp
    ultimately show ?thesis using bytes_in_sector [of ss buf medium "l0 + ?i", OF l(6) ss(3)] by simp
  qed
  have "n = (ss - ?off) + (?off + n - ss)" using assms(8) off by simp
  then have "take n (drop ?off buf) = take (ss - ?off) (drop ?off buf) @ take (?off + n - ss) (drop (ss - ?off) (drop ?off buf))"
    by (metis take_add)
  moreover have "drop (ss - ?off) (drop ?off buf) = replicate (2048 - ss) 0"
    using off ss(3) by (simp add: l(7) zero_sector_def)
  ultimately have "take n (drop ?off buf) =
      map (\<lambda>j. medium_byte medium ss (l0 * ss + p + j)) [0..<ss - ?off] @ replicate (?off + n - ss) 0"
    using head assms(9) by simp
  then show ?thesis unfolding r(1) k step using fin by simp
qed

theorem diskstreamer_read_crossing_is_wrong_witness:
  "\<exists>s' res. diskstreamer_read (\<lambda>a n. (a, True)) (\<lambda>_. numbered_driver) numbered_state
      \<lparr>pos = 510, stream_sector_size = 512, stream_disk = 0\<rparr> 4 =
      Some (s', \<lparr>pos = 514, stream_sector_size = 512, stream_disk = 0\<rparr>, [34, 34, 0, 0], res) \<and> res = 0"
proof -
  have r: "read_rounds 512 510 4 = 3" by (simp add: read_rounds_def sector_ceiling_def)
  have c: "cached_sector numbered_state 0 x = None" for x by (simp add: cached_sector_def numbered_state_def)
  have m: "medium_byte numbered_medium 512 17918 = 34" "medium_byte numbered_medium 512 17919 = 34"
    by (simp_all add: medium_byte_def numbered_medium_def)
  show ?thesis
    using diskstreamer_read_crossing_is_wrong [of "\<lambda>a n. (a, True)" "\<lambda>_. numbered_driver" numbered_medium 512 34 0 510 4
        numbered_state "\<lparr>pos = 510, stream_sector_size = 512, stream_disk = 0\<rparr>"]
      numbered_inv [of 3] numbered_readable [of 510 4]
    by (auto simp: r never_fails_def c m upt_conv_Cons numeral_2_eq_2)
qed


text \<open>
  \<^bold>\<open>A failed read stays in the cache.\<close> When the driver fails to read a sector that is not cached, the
  call returns the driver's error but keeps the zeroed buffer: the next access to the sector finds
  it in the cache, reports success and serves zeros.
\<close>

theorem failed_read_stays_cached:
  assumes "never_fails kz" "d < length (disk_vector s)" "0 < ss" "ss \<le> 2048"
    and "sector_size (disk_vector s ! d) = int ss" "starting_lba (disk_vector s ! d) = of_nat l0"
    and "disk_cache (disk_vector s ! d) = Some c" "0 \<le> rr_pos (mem_roundrobin c)"
    and "rr_pos (mem_roundrobin c) < 1000000000" "sector_at c (sector_ref_of (l0 + i)) = None"
    and "(l0 + i) * ss \<le> 2147483647" "e < 0"
    and "\<And>s lba n. disk_read_block drivers s d lba n = (s, e, [])"
  shows "\<exists>s1 s2 ref. load_sector kz drivers s d (int i) = Some (s1, Some e, DISK_STREAMER_CACHE_STATUS_NEW_CACHE_ENTRY, Some ref) \<and>
    load_sector kz drivers s1 d (int i) = Some (s2, None, DISK_STREAMER_CACHE_STATUS_CACHE_FOUND, Some ref) \<and>
    cached_sector s2 d ref = Some zero_sector"
proof -
  have "l0 + i \<le> (l0 + i) * ss" using assms(3) by (cases ss) (simp_all add: trans_le_add1)
  also note assms(11)
  finally have li: "l0 + i < 2 ^ 31" by (rule le_less_trans) simp
  note off = real_offset_of_nat [OF assms(6,5,11,3) li]
  let ?r = "sector_ref_of (l0 + i)"
  obtain a1 c1 where f1: "diskstreamer_cache_find kz (heap_state s) (Some c) (int ss) (int ((l0 + i) * ss)) =
      Some (a1, Some c1, 1, Some ?r)"
    "sector_at c1 = (sector_at c)(?r \<mapsto> zero_sector)" "rr_pos (mem_roundrobin c1) = rr_pos (mem_roundrobin c) + 1"
    using cache_find_sector [OF assms(1), of "int ss" c "heap_state s" "l0 + i"] assms(3,4,8-10) by auto
  have fill: "sector_at (sector_fill c1 ?r []) = sector_at c1" "mem_roundrobin (sector_fill c1 ?r []) = mem_roundrobin c1"
    by (auto simp: fun_eq_iff sector_at_fill option.map_ident)
  let ?c1 = "sector_fill c1 ?r []" and ?s1 = "set_cache (s\<lparr>heap_state := a1\<rparr>) d (Some (sector_fill c1 ?r []))"
  have l1: "load_sector kz drivers s d (int i) = Some (?s1, Some e, 1, Some ?r)"
  proof -
    have "cache_find_on kz s d (disk_real_offset (disk_vector s ! d) (word_of_int (int i))) =
        Some (set_cache (s\<lparr>heap_state := a1\<rparr>) d (Some c1), 1, Some ?r)"
      unfolding cache_find_on_def off assms(5,7) f1(1) by simp
    then show ?thesis using assms(2) by (simp add: load_sector_def assms(13))
  qed
  obtain a2 c2 where f2: "diskstreamer_cache_find kz a1 (Some ?c1) (int ss) (int ((l0 + i) * ss)) =
      Some (a2, Some c2, 0, Some ?r)" "sector_at c2 = sector_at ?c1"
    using cache_find_sector [OF assms(1), of "int ss" ?c1 a1 "l0 + i"] assms(3,4,8,9) fill f1(2,3) by auto
  let ?s2 = "set_cache (s\<lparr>heap_state := a2\<rparr>) d (Some c2)"
  have off1: "disk_real_offset ((disk_vector s ! d)\<lparr>disk_cache := Some ?c1\<rparr>) (word_of_int (int i)) = int ((l0 + i) * ss)"
    using off(1) by (simp add: disk_real_offset_def disk_real_sector_def)
  have dv: "disk_vector ?s1 ! d = (disk_vector s ! d)\<lparr>disk_cache := Some ?c1\<rparr>" "heap_state ?s1 = a1"
    using assms(2) by simp_all
  have l2: "load_sector kz drivers ?s1 d (int i) = Some (?s2, None, 0, Some ?r)"
  proof -
    have "cache_find_on kz ?s1 d (disk_real_offset (disk_vector ?s1 ! d) (word_of_int (int i))) = Some (?s2, 0, Some ?r)"
      unfolding cache_find_on_def dv off1 off(2) using assms(2,5) f2(1) by (simp add: set_cache_def)
    then show ?thesis by (simp add: load_sector_def)
  qed
  have "cached_sector ?s2 d ?r = Some zero_sector"
    using assms(2) f2(2) fill(1) f1(2) by (simp add: cached_sector_def)
  then show ?thesis using l1 l2 by blast
qed

theorem failed_read_stays_cached_witness:
  "\<exists>s1 s2 ref. load_sector (\<lambda>a n. (a, True)) (\<lambda>_. numbered_driver\<lparr>drv_read := None\<rparr>) numbered_state 0 (int 5) =
      Some (s1, Some (- EIO), 1, Some ref) \<and>
    load_sector (\<lambda>a n. (a, True)) (\<lambda>_. numbered_driver\<lparr>drv_read := None\<rparr>) s1 0 (int 5) = Some (s2, None, 0, Some ref) \<and>
    cached_sector s2 0 ref = Some zero_sector"
  by (rule failed_read_stays_cached [where ss = 512 and ?l0.0 = 34 and c = empty_cache])
    (simp_all add: never_fails_def numbered_state_def disk_read_block_def numbered_driver_def Let_def,
      simp_all add: empty_cache_def)

end
