(* ===== verification/Fat16.thy ===== *)
theory Fat16
  imports File Streamer
begin

section \<open>The FAT16 file system: fat16.c\<close>

text \<open>
  Reading directories and files of a FAT16 volume, as \<open>fs/fat/fat16.c\<close> does it over the disk streams.
  The packed structures of the disk are decoded from their bytes, and the private data of a mounted
  file system hangs off its disk. A buffer the code fills is the list of its bytes, and a store
  outside it is \<open>None\<close>. Items and directories on the heap are values: nothing changes them after
  their creation.
\<close>

abbreviation (input) PEACHOS_FAT16_SIGNATURE :: u8 where "PEACHOS_FAT16_SIGNATURE \<equiv> 0x29"
abbreviation (input) PEACHOS_FAT16_FAT_ENTRY_SIZE :: int where "PEACHOS_FAT16_FAT_ENTRY_SIZE \<equiv> 2"
abbreviation (input) PEACHOS_FAT16_BAD_SECTOR :: u16 where "PEACHOS_FAT16_BAD_SECTOR \<equiv> 0xFF7"

abbreviation (input) FAT_FILE_READ_ONLY :: u8 where "FAT_FILE_READ_ONLY \<equiv> 0x01"
abbreviation (input) FAT_FILE_SUBDIRECTORY :: u8 where "FAT_FILE_SUBDIRECTORY \<equiv> 0x10"

subsection \<open>Structures on the disk\<close>

definition le16 :: "u8 list \<Rightarrow> nat \<Rightarrow> u16" where
  "le16 b o1 = ucast (b ! o1) OR push_bit 8 (ucast (b ! (o1 + 1)))"

definition le32 :: "u8 list \<Rightarrow> nat \<Rightarrow> u32" where
  "le32 b o1 = ucast (le16 b o1) OR push_bit 16 (ucast (le16 b (o1 + 2)))"

record fat_header_extended =
  drive_number :: u8
  win_nt_bit :: u8
  signature :: u8
  volume_id :: u32
  volume_id_string :: "u8 list"
  system_id_string :: "u8 list"

record fat_header =
  short_jmp_ins :: "u8 list"
  oem_identifier :: "u8 list"
  bytes_per_sector :: u16
  sectors_per_cluster :: u8
  reserved_sectors :: u16
  fat_copies :: u8
  root_dir_entries :: u16
  number_of_sectors :: u16
  media_type :: u8
  sectors_per_fat :: u16
  sectors_per_track :: u16
  number_of_heads :: u16
  hidden_setors :: u32
  sectors_big :: u32

record fat_h =
  primary_header :: fat_header
  extended_header :: fat_header_extended

definition decode_header :: "u8 list \<Rightarrow> fat_h" where
  "decode_header b = \<lparr>
     primary_header = \<lparr>short_jmp_ins = take 3 b, oem_identifier = take 8 (drop 3 b), bytes_per_sector = le16 b 11,
       sectors_per_cluster = b ! 13, reserved_sectors = le16 b 14, fat_copies = b ! 16, root_dir_entries = le16 b 17,
       number_of_sectors = le16 b 19, media_type = b ! 21, sectors_per_fat = le16 b 22, sectors_per_track = le16 b 24,
       number_of_heads = le16 b 26, hidden_setors = le32 b 28, sectors_big = le32 b 32\<rparr>,
     extended_header = \<lparr>drive_number = b ! 36, win_nt_bit = b ! 37, signature = b ! 38, volume_id = le32 b 39,
       volume_id_string = take 11 (drop 43 b), system_id_string = take 8 (drop 54 b)\<rparr>\<rparr>"

record fat_directory_item =
  item_filename :: "u8 list"
  item_ext :: "u8 list"
  attribute :: u8
  reserved :: u8
  creation_time_tenths_of_a_sec :: u8
  creation_time :: u16
  creation_date :: u16
  last_access :: u16
  high_16_bits_first_cluster :: u16
  last_mod_time :: u16
  last_mod_date :: u16
  low_16_bits_first_cluster :: u16
  item_filesize :: u32

definition decode_item :: "u8 list \<Rightarrow> fat_directory_item" where
  "decode_item b = \<lparr>item_filename = take 8 b, item_ext = take 3 (drop 8 b), attribute = b ! 11, reserved = b ! 12,
     creation_time_tenths_of_a_sec = b ! 13, creation_time = le16 b 14, creation_date = le16 b 16,
     last_access = le16 b 18, high_16_bits_first_cluster = le16 b 20, last_mod_time = le16 b 22,
     last_mod_date = le16 b 24, low_16_bits_first_cluster = le16 b 26, item_filesize = le32 b 28\<rparr>"

text \<open>An array of items in a buffer.\<close>

definition decode_items :: "u8 list \<Rightarrow> fat_directory_item list" where
  "decode_items b = map (\<lambda>i. decode_item (take 32 (drop (32 * i) b))) [0..<length b div 32]"

subsection \<open>Directories, items and private data\<close>

text \<open>The item pointer of a directory may be null.\<close>

record fat_directory =
  dir_item :: "fat_directory_item list option"
  dir_total :: int
  sector_pos :: int
  ending_sector_pos :: int

datatype fat_item =
    FAT_ITEM_TYPE_DIRECTORY "fat_directory option"
  | FAT_ITEM_TYPE_FILE "fat_directory_item option"

record fat_file_descriptor =
  desc_item :: fat_item
  desc_pos :: u32

record fat_private =
  header :: fat_h
  root_directory :: fat_directory
  cluster_read_stream :: disk_stream
  fat_read_stream :: disk_stream
  directory_stream :: disk_stream
  fat_name :: "u8 list"

record 'a fat_disks = "'a disk_state" +
  fs_private :: "nat \<Rightarrow> fat_private option"

text \<open>The three streams of a volume, which the code passes by pointer.\<close>

datatype volume_stream = Cluster_Stream | Fat_Stream | Directory_Stream

primrec stream_of :: "volume_stream \<Rightarrow> fat_private \<Rightarrow> disk_stream" where
  "stream_of Cluster_Stream p = cluster_read_stream p"
| "stream_of Fat_Stream p = fat_read_stream p"
| "stream_of Directory_Stream p = directory_stream p"

primrec set_stream :: "volume_stream \<Rightarrow> disk_stream \<Rightarrow> fat_private \<Rightarrow> fat_private" where
  "set_stream Cluster_Stream st p = p\<lparr>cluster_read_stream := st\<rparr>"
| "set_stream Fat_Stream st p = p\<lparr>fat_read_stream := st\<rparr>"
| "set_stream Directory_Stream st p = p\<lparr>directory_stream := st\<rparr>"

definition update_private :: "'a fat_disks \<Rightarrow> nat \<Rightarrow> (fat_private \<Rightarrow> fat_private) \<Rightarrow> 'a fat_disks" where
  "update_private s d f = s\<lparr>fs_private := (fs_private s)(d := map_option f (fs_private s d))\<rparr>"

text \<open>Seeking and reading on a stream of a mounted volume.\<close>

definition volume_seek :: "'a fat_disks \<Rightarrow> nat \<Rightarrow> volume_stream \<Rightarrow> int \<Rightarrow> 'a fat_disks" where
  "volume_seek s d which new_pos = update_private s d (\<lambda>p. set_stream which (fst (diskstreamer_seek (stream_of which p) new_pos)) p)"

definition volume_read ::
  "'a allocator \<Rightarrow> (nat \<Rightarrow> 'a fat_disks disk_driver) \<Rightarrow> 'a fat_disks \<Rightarrow> nat \<Rightarrow> volume_stream \<Rightarrow> int \<Rightarrow>
   ('a fat_disks \<times> u8 list \<times> int) option" where
  "volume_read kz drivers s d which n = do {
     p \<leftarrow> fs_private s d;
     (s1, st, out, res) \<leftarrow> diskstreamer_read kz drivers s (stream_of which p) n;
     Some (update_private s1 d (set_stream which st), out, res)
   }"

text \<open>Bytes stored into a buffer from an offset on.\<close>

definition store_at :: "u8 list \<Rightarrow> nat \<Rightarrow> u8 list \<Rightarrow> u8 list option" where
  "store_at buf o1 bytes =
     (if o1 + length bytes \<le> length buf then Some (take o1 buf @ bytes @ drop (o1 + length bytes) buf) else None)"

definition disk_sector_size :: "'a fat_disks \<Rightarrow> nat \<Rightarrow> int" where
  "disk_sector_size s d = sector_size (disk_vector s ! d)"

subsection \<open>Mounting\<close>

definition fat16_init_private ::
  "'a allocator \<Rightarrow> 'a fat_disks \<Rightarrow> nat \<Rightarrow> ('a fat_disks \<times> fat_private) option" where
  "fat16_init_private kz s d = do {
     (s1, st1) \<leftarrow> diskstreamer_new_from_disk kz s d;
     (s2, st2) \<leftarrow> diskstreamer_new_from_disk kz s1 d;
     (s3, st3) \<leftarrow> diskstreamer_new_from_disk kz s2 d;
     Some (s3, \<lparr>header = decode_header (replicate 62 0),
       root_directory = \<lparr>dir_item = None, dir_total = 0, sector_pos = 0, ending_sector_pos = 0\<rparr>,
       cluster_read_stream = st1, fat_read_stream = st2, directory_stream = st3, fat_name = replicate 11 0\<rparr>)
   }"

definition fat16_sector_to_absolute :: "'a fat_disks \<Rightarrow> nat \<Rightarrow> int \<Rightarrow> int option" where
  "fat16_sector_to_absolute s d sector = int_range (sector * disk_sector_size s d)"

text \<open>
  The scan of a directory for its end, one item of 32 bytes after the other. The item starts out
  undefined, and a byte of it that no read has stored is not read.
\<close>

partial_function (option) total_items_loop ::
  "'a allocator \<Rightarrow> (nat \<Rightarrow> 'a fat_disks disk_driver) \<Rightarrow> 'a fat_disks \<Rightarrow> nat \<Rightarrow> u8 list \<Rightarrow> int \<Rightarrow>
   ('a fat_disks \<times> int) option" where
  "total_items_loop kz drivers s d item i = do {
     (s1, out, res) \<leftarrow> volume_read kz drivers s d Directory_Stream 32;
     if length out > 32 then None
     else if res \<noteq> PEACHOS_ALL_OK then Some (s1, - EIO)
     else if out @ drop (length out) item = [] then None
     else if hd (out @ drop (length out) item) = 0x00 then Some (s1, i)
     else if hd (out @ drop (length out) item) = 0xE5
       then total_items_loop kz drivers s1 d (out @ drop (length out) item) i
     else if i = INT_MAX then None
     else total_items_loop kz drivers s1 d (out @ drop (length out) item) (i + 1)
   }"

definition fat16_get_total_items_for_directory ::
  "'a allocator \<Rightarrow> (nat \<Rightarrow> 'a fat_disks disk_driver) \<Rightarrow> 'a fat_disks \<Rightarrow> nat \<Rightarrow> u32 \<Rightarrow> ('a fat_disks \<times> int) option" where
  "fat16_get_total_items_for_directory kz drivers s d directory_start_sector =
     (let directory_start_pos = sint (directory_start_sector * word_of_int (disk_sector_size s d)) in
      total_items_loop kz drivers (volume_seek s d Directory_Stream directory_start_pos) d [] 0)"

definition fat16_get_root_directory ::
  "'a allocator \<Rightarrow> (nat \<Rightarrow> 'a fat_disks disk_driver) \<Rightarrow> 'a fat_disks \<Rightarrow> nat \<Rightarrow> ('a fat_disks \<times> int) option" where
  "fat16_get_root_directory kz drivers s d = do {
     p \<leftarrow> fs_private s d;
     let ph = primary_header (header p);
     let root_dir_sector_pos = uint (fat_copies ph) * uint (sectors_per_fat ph) + uint (reserved_sectors ph);
     let root_dir_size = uint (root_dir_entries ph) * 32;
     if disk_sector_size s d = 0 then None
     else do {
       let sectors = root_dir_size sdiv disk_sector_size s d;
       let total_sectors = (if root_dir_size smod disk_sector_size s d \<noteq> 0 then sectors + 1 else sectors);
       (s1, total_items) \<leftarrow> fat16_get_total_items_for_directory kz drivers s d (word_of_int root_dir_sector_pos);
       let (a2, ok) = kz (heap_state s1) (size_of_int root_dir_size);
       let s2 = s1\<lparr>heap_state := a2\<rparr>;
       if \<not> ok then Some (s2, - ENOMEM)
       else do {
         start \<leftarrow> fat16_sector_to_absolute s2 d root_dir_sector_pos;
         (s3, out, res) \<leftarrow> volume_read kz drivers (volume_seek s2 d Directory_Stream start) d Directory_Stream root_dir_size;
         dir \<leftarrow> store_at (replicate (nat root_dir_size) 0) 0 out;
         if res \<noteq> PEACHOS_ALL_OK then Some (s3, - EIO)
         else do {
           ending \<leftarrow> int_range (root_dir_sector_pos + total_sectors);
           Some (update_private s3 d (\<lambda>p. p\<lparr>root_directory := \<lparr>dir_item = Some (decode_items dir),
                   dir_total = total_items, sector_pos = root_dir_sector_pos, ending_sector_pos = ending\<rparr>\<rparr>), 0)
         }
       }
     }
   }"

text \<open>
  \<open>resolve\<close> writes the file system (here its number) and the private data into the disk. The volume's
  name is what \<open>strncpy\<close> makes of the 11 bytes of the header.
\<close>

definition fat16_resolve ::
  "'a allocator \<Rightarrow> (nat \<Rightarrow> 'a fat_disks disk_driver) \<Rightarrow> nat \<Rightarrow> 'a fat_disks \<Rightarrow> nat \<Rightarrow> ('a fat_disks \<times> int) option" where
  "fat16_resolve kz drivers fat16_fs_no s d =
     (let (a1, ok) = kz (heap_state s) 128 in
      if \<not> ok then None
      else do {
        (s1, p) \<leftarrow> fat16_init_private kz (s\<lparr>heap_state := a1\<rparr>) d;
        let s2 = s1\<lparr>fs_private := (fs_private s1)(d := Some p),
                   disk_vector := (disk_vector s1)[d := (disk_vector s1 ! d)\<lparr>filesystem := Some fat16_fs_no\<rparr>]\<rparr>;
        (s3, stream) \<leftarrow> diskstreamer_new_from_disk kz s2 d;
        (s4, stream, out, res) \<leftarrow> diskstreamer_read kz drivers s3 stream 62;
        bytes \<leftarrow> store_at (replicate 62 0) 0 out;
        let s5 = update_private s4 d (\<lambda>p. p\<lparr>header := decode_header bytes\<rparr>);
        let dismount = (\<lambda>s. s\<lparr>fs_private := (fs_private s)(d := None)\<rparr>);
        if res \<noteq> PEACHOS_ALL_OK then Some (dismount s5, - EIO)
        else if signature (extended_header (decode_header bytes)) \<noteq> PEACHOS_FAT16_SIGNATURE
          then Some (dismount s5, - EFSNOTUS)
        else do {
          (s6, res) \<leftarrow> fat16_get_root_directory kz drivers s5 d;
          if res \<noteq> PEACHOS_ALL_OK then Some (dismount s6, - EIO)
          else do {
            name \<leftarrow> strncpy (replicate 11 0) (volume_id_string (extended_header (decode_header bytes))) 11;
            Some (update_private s6 d (\<lambda>p. p\<lparr>fat_name := name\<rparr>), 0)
          }
        }
      })"

definition fat16_volume_name :: "fat_private \<Rightarrow> u8 list \<Rightarrow> int \<Rightarrow> u8 list option" where
  "fat16_volume_name private_data name_out max_len = strncpy name_out (fat_name private_data) max_len"


subsection \<open>Names and items\<close>

text \<open>The characters up to a zero byte or a blank, at most \<open>size\<close> of them; the input is the list.\<close>

fun proper_string_loop :: "u8 list \<Rightarrow> nat \<Rightarrow> nat \<Rightarrow> u8 list option" where
  "proper_string_loop [] i sz = None"
| "proper_string_loop (c # cs) i sz =
     (if c = 0x00 \<or> c = 0x20 then Some []
      else if i \<ge> sz - 1 then Some [c]
      else map_option ((#) c) (proper_string_loop cs (Suc i) sz))"

definition fat16_to_proper_string :: "u8 list \<Rightarrow> nat \<Rightarrow> u8 list option" where
  "fat16_to_proper_string str sz = proper_string_loop str 0 sz"

text \<open>The name and the extension in a zeroed buffer; the terminators the code writes are zeros in it.\<close>

definition fat16_get_full_relative_filename :: "fat_directory_item \<Rightarrow> int \<Rightarrow> u8 list option" where
  "fat16_get_full_relative_filename item max_len = do {
     name \<leftarrow> fat16_to_proper_string (item_filename item) 8;
     dotted \<leftarrow> (if item_ext item ! 0 \<noteq> 0x00 \<and> item_ext item ! 0 \<noteq> 0x20
        then map_option ((#) 0x2E) (fat16_to_proper_string (item_ext item) 3) else Some []);
     if length name + length dotted < nat max_len
     then Some (name @ dotted @ replicate (nat max_len - length name - length dotted) 0) else None
   }"

definition fat16_clone_directory_item ::
  "'a allocator \<Rightarrow> 'a fat_disks \<Rightarrow> fat_directory_item \<Rightarrow> int \<Rightarrow> 'a fat_disks \<times> fat_directory_item option" where
  "fat16_clone_directory_item kz s item sz =
     (if sz < 32 then (s, None)
      else let (a1, ok) = kz (heap_state s) (size_of_int sz) in
        (s\<lparr>heap_state := a1\<rparr>, if ok then Some item else None))"

text \<open>The shift is of an \<open>int\<close>, so a high half from \<open>0x8000\<close> on overflows.\<close>

definition fat16_get_first_cluster :: "fat_directory_item \<Rightarrow> u32 option" where
  "fat16_get_first_cluster item =
     (if high_16_bits_first_cluster item \<ge> 0x8000 then None
      else Some (push_bit 16 (ucast (high_16_bits_first_cluster item)) OR ucast (low_16_bits_first_cluster item)))"

subsection \<open>Clusters\<close>

definition fat16_cluster_to_sector :: "fat_private \<Rightarrow> int \<Rightarrow> int option" where
  "fat16_cluster_to_sector p cluster = do {
     ahead \<leftarrow> int_range (cluster - 2);
     sectors \<leftarrow> int_range (ahead * uint (sectors_per_cluster (primary_header (header p))));
     int_range (ending_sector_pos (root_directory p) + sectors)
   }"

definition fat16_get_first_fat_sector :: "fat_private \<Rightarrow> u32" where
  "fat16_get_first_fat_sector p = ucast (reserved_sectors (primary_header (header p)))"

text \<open>The entry of a cluster, or a negative code. Every mounted volume has its three streams.\<close>

definition fat16_get_fat_entry ::
  "'a allocator \<Rightarrow> (nat \<Rightarrow> 'a fat_disks disk_driver) \<Rightarrow> 'a fat_disks \<Rightarrow> nat \<Rightarrow> int \<Rightarrow> ('a fat_disks \<times> int) option" where
  "fat16_get_fat_entry kz drivers s d cluster = do {
     p \<leftarrow> fs_private s d;
     let fat_table_position = fat16_get_first_fat_sector p * word_of_int (disk_sector_size s d);
     let entry_position = sint (fat_table_position + word_of_int (cluster * PEACHOS_FAT16_FAT_ENTRY_SIZE));
     (s1, out, res) \<leftarrow> volume_read kz drivers (volume_seek s d Fat_Stream entry_position) d Fat_Stream 2;
     result \<leftarrow> store_at [0, 0] 0 out;
     Some (s1, if res < 0 then res else uint (le16 result 0))
   }"

text \<open>Following the chain: the entry is cut to 16 bits before it is tested.\<close>

primrec cluster_loop ::
  "'a allocator \<Rightarrow> (nat \<Rightarrow> 'a fat_disks disk_driver) \<Rightarrow> 'a fat_disks \<Rightarrow> nat \<Rightarrow> u16 \<Rightarrow> nat \<Rightarrow> ('a fat_disks \<times> int) option" where
  "cluster_loop kz drivers s d cluster_to_use 0 = Some (s, uint cluster_to_use)"
| "cluster_loop kz drivers s d cluster_to_use (Suc n) = do {
     (s1, result) \<leftarrow> fat16_get_fat_entry kz drivers s d (uint cluster_to_use);
     let entry = (word_of_int result :: u16);
     if entry \<ge> 0xFFF8 then Some (s1, - EOUTOFRANGE)
     else if entry = PEACHOS_FAT16_BAD_SECTOR \<or> (entry \<ge> 0xFFF0 \<and> entry \<le> 0xFFF6) \<or> entry = 0x0000
       then Some (s1, - EIO)
     else cluster_loop kz drivers s1 d entry n
   }"

definition fat16_get_cluster_for_offset ::
  "'a allocator \<Rightarrow> (nat \<Rightarrow> 'a fat_disks disk_driver) \<Rightarrow> 'a fat_disks \<Rightarrow> nat \<Rightarrow> u16 \<Rightarrow> int \<Rightarrow> ('a fat_disks \<times> int) option" where
  "fat16_get_cluster_for_offset kz drivers s d starting_cluster offset = do {
     p \<leftarrow> fs_private s d;
     size_of_cluster_bytes \<leftarrow> int_range (uint (sectors_per_cluster (primary_header (header p))) * disk_sector_size s d);
     if size_of_cluster_bytes = 0 then None
     else cluster_loop kz drivers s d starting_cluster (nat (offset sdiv size_of_cluster_bytes))
   }"

text \<open>
  Reading through the chain: \<open>buf\<close> is the buffer, stored from \<open>bytes_read\<close> on. The loop ends when
  \<open>total\<close> bytes are read or a step fails.
\<close>

partial_function (option) read_internal_loop ::
  "'a allocator \<Rightarrow> (nat \<Rightarrow> 'a fat_disks disk_driver) \<Rightarrow> 'a fat_disks \<Rightarrow> nat \<Rightarrow> volume_stream \<Rightarrow> u16 \<Rightarrow> int \<Rightarrow>
   int \<Rightarrow> int \<Rightarrow> int \<Rightarrow> nat \<Rightarrow> u8 list \<Rightarrow> ('a fat_disks \<times> int \<times> u8 list) option" where
  "read_internal_loop kz drivers s d which cluster size_of_cluster_bytes starting_offset tot bytes_read o1 buf =
     (if tot > 0 then do {
        (s1, res) \<leftarrow> fat16_get_cluster_for_offset kz drivers s d cluster starting_offset;
        if res < 0 then Some (s1, res, buf)
        else do {
          p \<leftarrow> fs_private s1 d;
          starting_sector \<leftarrow> fat16_cluster_to_sector p (uint (word_of_int res :: u16));
          sector_start \<leftarrow> int_range (starting_sector * disk_sector_size s1 d);
          starting_pos \<leftarrow> int_range (sector_start + starting_offset smod size_of_cluster_bytes);
          left \<leftarrow> int_range (size_of_cluster_bytes - starting_offset smod size_of_cluster_bytes);
          (s2, out, res) \<leftarrow> volume_read kz drivers (volume_seek s1 d which starting_pos) d which (min left tot);
          buf1 \<leftarrow> store_at buf (o1 + nat bytes_read) out;
          if res \<noteq> PEACHOS_ALL_OK then Some (s2, if res < 0 then res else bytes_read, buf1)
          else do {
            next_offset \<leftarrow> int_range (starting_offset + min left tot);
            read_internal_loop kz drivers s2 d which cluster size_of_cluster_bytes next_offset (tot - min left tot)
              (bytes_read + min left tot) o1 buf1
          }
        }
      } else Some (s, bytes_read, buf))"

definition fat16_read_internal_from_stream ::
  "'a allocator \<Rightarrow> (nat \<Rightarrow> 'a fat_disks disk_driver) \<Rightarrow> 'a fat_disks \<Rightarrow> nat \<Rightarrow> volume_stream \<Rightarrow> u16 \<Rightarrow> int \<Rightarrow>
   int \<Rightarrow> nat \<Rightarrow> u8 list \<Rightarrow> ('a fat_disks \<times> int \<times> u8 list) option" where
  "fat16_read_internal_from_stream kz drivers s d which cluster offset tot o1 buf = do {
     p \<leftarrow> fs_private s d;
     size_of_cluster_bytes \<leftarrow> int_range (uint (sectors_per_cluster (primary_header (header p))) * disk_sector_size s d);
     read_internal_loop kz drivers s d which cluster size_of_cluster_bytes offset tot 0 o1 buf
   }"

definition fat16_read_internal ::
  "'a allocator \<Rightarrow> (nat \<Rightarrow> 'a fat_disks disk_driver) \<Rightarrow> 'a fat_disks \<Rightarrow> nat \<Rightarrow> int \<Rightarrow> int \<Rightarrow> int \<Rightarrow> nat \<Rightarrow> u8 list \<Rightarrow>
   ('a fat_disks \<times> int \<times> u8 list) option" where
  "fat16_read_internal kz drivers s d starting_cluster offset tot o1 buf =
     fat16_read_internal_from_stream kz drivers s d Cluster_Stream (word_of_int starting_cluster) offset tot o1 buf"

subsection \<open>Looking up a path\<close>

text \<open>
  Loading a directory. A failure frees the directory and still returns it, and so does a read of a
  positive number of bytes, since the code compares the count with \<open>0\<close>; \<open>kfree\<close> does nothing, so the
  directory stays what it is.
\<close>

definition fat16_load_fat_directory ::
  "'a allocator \<Rightarrow> (nat \<Rightarrow> 'a fat_disks disk_driver) \<Rightarrow> 'a fat_disks \<Rightarrow> nat \<Rightarrow> fat_directory_item \<Rightarrow>
   ('a fat_disks \<times> fat_directory option) option" where
  "fat16_load_fat_directory kz drivers s d item =
     (if attribute item AND FAT_FILE_SUBDIRECTORY = 0 then Some (s, None)
      else let (a1, ok) = kz (heap_state s) 24; s1 = s\<lparr>heap_state := a1\<rparr> in
        if \<not> ok then Some (s1, None)
        else do {
          p \<leftarrow> fs_private s1 d;
          first \<leftarrow> fat16_get_first_cluster item;
          let cluster = sint first;
          cluster_sector \<leftarrow> fat16_cluster_to_sector p cluster;
          (s2, total_items) \<leftarrow> fat16_get_total_items_for_directory kz drivers s1 d (word_of_int cluster_sector);
          let directory_size = int_of_size (word_of_int total_items * 32);
          let (a3, ok) = kz (heap_state s2) (size_of_int directory_size);
          let s3 = s2\<lparr>heap_state := a3\<rparr>;
          let directory = \<lparr>dir_item = None, dir_total = total_items, sector_pos = 0, ending_sector_pos = 0\<rparr>;
          if \<not> ok then Some (s3, Some directory)
          else do {
            (s4, res, buf) \<leftarrow> fat16_read_internal kz drivers s3 d cluster 0 directory_size 0 (replicate (nat directory_size) 0);
            Some (s4, Some (directory\<lparr>dir_item := Some (decode_items buf)\<rparr>))
          }
        })"

definition fat16_new_fat_item_for_directory_item ::
  "'a allocator \<Rightarrow> (nat \<Rightarrow> 'a fat_disks disk_driver) \<Rightarrow> 'a fat_disks \<Rightarrow> nat \<Rightarrow> fat_directory_item \<Rightarrow>
   ('a fat_disks \<times> fat_item option) option" where
  "fat16_new_fat_item_for_directory_item kz drivers s d item =
     (let (a1, ok) = kz (heap_state s) 16; s1 = s\<lparr>heap_state := a1\<rparr> in
      if \<not> ok then Some (s1, None)
      else if attribute item AND FAT_FILE_SUBDIRECTORY \<noteq> 0 then do {
        (s2, directory) \<leftarrow> fat16_load_fat_directory kz drivers s1 d item;
        Some (s2, Some (FAT_ITEM_TYPE_DIRECTORY directory))
      } else let (s2, copy) = fat16_clone_directory_item kz s1 item 32 in
        Some (s2, Some (FAT_ITEM_TYPE_FILE copy)))"

text \<open>The loop over the items \<open>i, i + 1, \<dots>\<close> of a directory; a later match replaces an earlier one.\<close>

primrec find_item_loop ::
  "'a allocator \<Rightarrow> (nat \<Rightarrow> 'a fat_disks disk_driver) \<Rightarrow> 'a fat_disks \<Rightarrow> nat \<Rightarrow> fat_directory_item list \<Rightarrow> u8 list \<Rightarrow>
   fat_item option \<Rightarrow> nat \<Rightarrow> nat \<Rightarrow> ('a fat_disks \<times> fat_item option) option" where
  "find_item_loop kz drivers s d items name f_item i 0 = Some (s, f_item)"
| "find_item_loop kz drivers s d items name f_item i (Suc n) =
     (if i \<ge> length items then None
      else do {
        tmp_filename \<leftarrow> fat16_get_full_relative_filename (items ! i) PEACHOS_MAX_PATH;
        cmp \<leftarrow> istrncmp tmp_filename name PEACHOS_MAX_PATH;
        (s1, f_item1) \<leftarrow> (if cmp = 0 then fat16_new_fat_item_for_directory_item kz drivers s d (items ! i)
           else Some (s, f_item));
        find_item_loop kz drivers s1 d items name f_item1 (Suc i) n
      })"

definition fat16_find_item_in_directory ::
  "'a allocator \<Rightarrow> (nat \<Rightarrow> 'a fat_disks disk_driver) \<Rightarrow> 'a fat_disks \<Rightarrow> nat \<Rightarrow> fat_directory \<Rightarrow> u8 list \<Rightarrow>
   ('a fat_disks \<times> fat_item option) option" where
  "fat16_find_item_in_directory kz drivers s d directory name =
     (case dir_item directory of
        None \<Rightarrow> if dir_total directory > 0 then None else Some (s, None)
      | Some items \<Rightarrow> find_item_loop kz drivers s d items name None 0 (nat (dir_total directory)))"

text \<open>
  The rest of the path. A component that was not found leaves the null pointer in \<open>current_item\<close>, which
  the next round reads through.
\<close>

fun directory_entry_loop ::
  "'a allocator \<Rightarrow> (nat \<Rightarrow> 'a fat_disks disk_driver) \<Rightarrow> 'a fat_disks \<Rightarrow> nat \<Rightarrow> fat_item option \<Rightarrow> u8 list list \<Rightarrow>
   ('a fat_disks \<times> fat_item option) option" where
  "directory_entry_loop kz drivers s d current_item [] = Some (s, current_item)"
| "directory_entry_loop kz drivers s d None (part # rest) = None"
| "directory_entry_loop kz drivers s d (Some (FAT_ITEM_TYPE_FILE item)) (part # rest) = Some (s, None)"
| "directory_entry_loop kz drivers s d (Some (FAT_ITEM_TYPE_DIRECTORY None)) (part # rest) = None"
| "directory_entry_loop kz drivers s d (Some (FAT_ITEM_TYPE_DIRECTORY (Some directory))) (part # rest) = do {
     (s1, tmp_item) \<leftarrow> fat16_find_item_in_directory kz drivers s d directory part;
     directory_entry_loop kz drivers s1 d tmp_item rest
   }"

definition fat16_get_directory_entry ::
  "'a allocator \<Rightarrow> (nat \<Rightarrow> 'a fat_disks disk_driver) \<Rightarrow> 'a fat_disks \<Rightarrow> nat \<Rightarrow> u8 list list \<Rightarrow>
   ('a fat_disks \<times> fat_item option) option" where
  "fat16_get_directory_entry kz drivers s d path = do {
     p \<leftarrow> fs_private s d;
     if path = [] then None
     else do {
       (s1, root_item) \<leftarrow> fat16_find_item_in_directory kz drivers s d (root_directory p) (hd path);
       if root_item = None then Some (s1, None) else directory_entry_loop kz drivers s1 d root_item (tl path)
     }
   }"

subsection \<open>The functions of the file system\<close>

definition fat16_open ::
  "'a allocator \<Rightarrow> (nat \<Rightarrow> 'a fat_disks disk_driver) \<Rightarrow> 'a fat_disks \<Rightarrow> nat \<Rightarrow> u8 list list \<Rightarrow> u32 \<Rightarrow>
   ('a fat_disks \<times> (int + fat_file_descriptor)) option" where
  "fat16_open kz drivers s d path mode =
     (if mode \<noteq> FILE_MODE_READ then Some (s, Inl (- ERDONLY))
      else let (a1, ok) = kz (heap_state s) 16; s1 = s\<lparr>heap_state := a1\<rparr> in
        if \<not> ok then Some (s1, Inl (- ENOMEM))
        else do {
          (s2, entry) \<leftarrow> fat16_get_directory_entry kz drivers s1 d path;
          Some (s2, case entry of None \<Rightarrow> Inl (- EIO) | Some item \<Rightarrow> Inr \<lparr>desc_item = item, desc_pos = 0\<rparr>)
        })"

text \<open>\<open>close\<close> frees the descriptor and what hangs off it.\<close>

definition fat16_close :: "fat_file_descriptor \<Rightarrow> int option" where
  "fat16_close desc = Some 0"

definition fat16_stat :: "fat_file_descriptor \<Rightarrow> file_stat \<Rightarrow> (file_stat \<times> int) option" where
  "fat16_stat desc stat =
     (case desc_item desc of
        FAT_ITEM_TYPE_DIRECTORY _ \<Rightarrow> Some (stat, - EINVARG)
      | FAT_ITEM_TYPE_FILE None \<Rightarrow> None
      | FAT_ITEM_TYPE_FILE (Some ritem) \<Rightarrow>
          Some (\<lparr>stat_flags = (if attribute ritem AND FAT_FILE_READ_ONLY \<noteq> 0 then FILE_STAT_READ_ONLY else 0),
                 filesize = item_filesize ritem\<rparr>, 0))"

text \<open>
  Reading \<open>nmemb\<close> blocks. The item of a directory is no directory item: the code reads its cluster
  from behind the \<open>struct fat_directory\<close>.
\<close>

primrec fat16_read_loop ::
  "'a allocator \<Rightarrow> (nat \<Rightarrow> 'a fat_disks disk_driver) \<Rightarrow> 'a fat_disks \<Rightarrow> nat \<Rightarrow> fat_directory_item \<Rightarrow> u32 \<Rightarrow> int \<Rightarrow> nat \<Rightarrow>
   u8 list \<Rightarrow> nat \<Rightarrow> ('a fat_disks \<times> int \<times> int \<times> u8 list) option" where
  "fat16_read_loop kz drivers s d item sz offset o1 buf 0 = Some (s, offset, 0, buf)"
| "fat16_read_loop kz drivers s d item sz offset o1 buf (Suc n) = do {
     first \<leftarrow> fat16_get_first_cluster item;
     (s1, res, buf1) \<leftarrow> fat16_read_internal kz drivers s d (sint first) offset (sint sz) o1 buf;
     if res < 0 then Some (s1, offset, res, buf1)
     else fat16_read_loop kz drivers s1 d item sz (sint (word_of_int offset + sz)) (o1 + unat sz) buf1 n
   }"

definition fat16_read ::
  "'a allocator \<Rightarrow> (nat \<Rightarrow> 'a fat_disks disk_driver) \<Rightarrow> 'a fat_disks \<Rightarrow> nat \<Rightarrow> fat_file_descriptor \<Rightarrow> u32 \<Rightarrow> u32 \<Rightarrow>
   u8 list \<Rightarrow> ('a fat_disks \<times> fat_file_descriptor \<times> int \<times> u8 list) option" where
  "fat16_read kz drivers s d desc sz nmemb buf =
     (case desc_item desc of
        FAT_ITEM_TYPE_DIRECTORY _ \<Rightarrow> None
      | FAT_ITEM_TYPE_FILE None \<Rightarrow> None
      | FAT_ITEM_TYPE_FILE (Some item) \<Rightarrow> do {
          (s1, offset, res, buf1) \<leftarrow> fat16_read_loop kz drivers s d item sz (sint (desc_pos desc)) 0 buf (unat nmemb);
          if res < 0 then Some (s1, desc, res, buf1)
          else Some (s1, desc\<lparr>desc_pos := word_of_int offset\<rparr>, sint nmemb, buf1)
        })"

definition fat16_seek :: "fat_file_descriptor \<Rightarrow> u32 \<Rightarrow> u32 \<Rightarrow> (fat_file_descriptor \<times> int) option" where
  "fat16_seek desc offset seek_mode =
     (case desc_item desc of
        FAT_ITEM_TYPE_DIRECTORY _ \<Rightarrow> Some (desc, - EINVARG)
      | FAT_ITEM_TYPE_FILE None \<Rightarrow> None
      | FAT_ITEM_TYPE_FILE (Some ritem) \<Rightarrow>
          if offset \<ge> item_filesize ritem then Some (desc, - EIO)
          else if seek_mode = SEEK_SET then Some (desc\<lparr>desc_pos := offset\<rparr>, 0)
          else if seek_mode = SEEK_END then Some (desc, - EUNIMP)
          else if seek_mode = SEEK_CUR then Some (desc\<lparr>desc_pos := desc_pos desc + offset\<rparr>, 0)
          else Some (desc, - EINVARG))"

text \<open>The table \<open>fat16_fs\<close>, under the number it has in the table of file systems.\<close>

definition fat16_fs ::
  "'a allocator \<Rightarrow> (nat \<Rightarrow> 'a fat_disks disk_driver) \<Rightarrow> nat \<Rightarrow> ('a fat_disks, fat_file_descriptor) filesystem" where
  "fat16_fs kz drivers no = \<lparr>
     fs_resolve_fn = fat16_resolve kz drivers no,
     fs_open = fat16_open kz drivers,
     fs_read = fat16_read kz drivers,
     fs_seek = fat16_seek,
     fs_stat = fat16_stat,
     fs_close = fat16_close\<rparr>"

end
