(* ===== verification/FatVolume.thy ===== *)
theory FatVolume
  imports Fat16
begin

section \<open>Mounted FAT16 volumes: what the file system reads\<close>

text \<open>
  The correctness of Fat16 over a medium: the scan of a directory, the look-up of a file by its name, the
  chain of clusters, and reading a file. A volume is described by the bytes of its medium, and the results
  are stated in terms of these bytes.
\<close>

subsection \<open>A mounted volume\<close>

text \<open>
  The bytes of a volume: those of the medium from block \<open>l0\<close> on. A volume is mounted on disk \<open>d\<close> when the
  disk's streams read it (\<open>stream_inv\<close>, with room for \<open>k\<close> more cached sectors), the first \<open>lim\<close> bytes are in
  reach of the \<open>int\<close> offsets and on the disk, and the private data holds this header and this root directory.
\<close>

definition volume_byte :: "(nat \<Rightarrow> u8 list) \<Rightarrow> nat \<Rightarrow> nat \<Rightarrow> nat \<Rightarrow> u8" where
  "volume_byte medium ss l0 p = medium_byte medium ss (l0 * ss + p)"

definition volume_bytes :: "(nat \<Rightarrow> u8 list) \<Rightarrow> nat \<Rightarrow> nat \<Rightarrow> nat \<Rightarrow> nat \<Rightarrow> u8 list" where
  "volume_bytes medium ss l0 p n = map (\<lambda>j. volume_byte medium ss l0 (p + j)) [0..<n]"

definition mounted ::
  "(nat \<Rightarrow> 'a fat_disks disk_driver) \<Rightarrow> (nat \<Rightarrow> u8 list) \<Rightarrow> nat \<Rightarrow> nat \<Rightarrow> nat \<Rightarrow> nat \<Rightarrow> fat_h \<Rightarrow> fat_directory \<Rightarrow> nat \<Rightarrow>
   'a fat_disks \<Rightarrow> bool" where
  "mounted drivers medium ss l0 lim d h root k s \<longleftrightarrow>
     stream_inv drivers medium ss l0 d k s \<and> 512 \<le> ss \<and> ss mod 32 = 0 \<and>
     (\<forall>p n. p + n \<le> lim \<longrightarrow> readable (disk_vector s ! d) ss l0 p n) \<and>
     (\<exists>p. fs_private s d = Some p \<and> header p = h \<and> root_directory p = root \<and>
        (\<forall>w. stream_sector_size (stream_of w p) = int ss \<and> stream_disk (stream_of w p) = d))"

definition volume_pos :: "'a fat_disks \<Rightarrow> nat \<Rightarrow> volume_stream \<Rightarrow> int option" where
  "volume_pos s d w = map_option (\<lambda>p. pos (stream_of w p)) (fs_private s d)"

lemma stream_inv_mono: "stream_inv drivers medium ss l0 d k s \<Longrightarrow> k' \<le> k \<Longrightarrow> stream_inv drivers medium ss l0 d k' s"
  unfolding stream_inv_def by fastforce

lemma mounted_mono: "mounted drivers medium ss l0 lim d h root k s \<Longrightarrow> k' \<le> k \<Longrightarrow> mounted drivers medium ss l0 lim d h root k' s"
  unfolding mounted_def using stream_inv_mono by blast

lemma stream_of_set_stream [simp]:
  "stream_of w (set_stream w' st p) = (if w = w' then st else stream_of w p)"
  "header (set_stream w' st p) = header p" "root_directory (set_stream w' st p) = root_directory p"
  by (cases w; cases w'; simp)+

lemma stream_inv_private [simp]:
  "stream_inv drivers medium ss l0 d k (s\<lparr>fs_private := f\<rparr>) = stream_inv drivers medium ss l0 d k s"
  by (simp add: stream_inv_def)

lemma fs_private_set_cache [simp]: "fs_private (set_cache s d c) = fs_private s"
  by (simp add: set_cache_def)

lemma stream_inv_heap [simp]:
  "stream_inv drivers medium ss l0 d k (s\<lparr>heap_state := a\<rparr>) = stream_inv drivers medium ss l0 d k s"
  by (simp add: stream_inv_def)

lemma mounted_heap [simp]:
  "mounted drivers medium ss l0 lim d h root k (s\<lparr>heap_state := a\<rparr>) = mounted drivers medium ss l0 lim d h root k s"
  by (simp add: mounted_def)

lemma disk_vector_update_private [simp]: "disk_vector (update_private s d f) = disk_vector s"
  by (simp add: update_private_def)

lemma mounted_seek:
  "mounted drivers medium ss l0 lim d h root k s \<Longrightarrow> mounted drivers medium ss l0 lim d h root k (volume_seek s d w q)"
  unfolding mounted_def volume_seek_def update_private_def diskstreamer_seek_def by auto

lemma volume_pos_seek:
  "mounted drivers medium ss l0 lim d h root k s \<Longrightarrow> volume_pos (volume_seek s d w q) d w = Some q"
  unfolding mounted_def volume_seek_def update_private_def diskstreamer_seek_def volume_pos_def by auto

lemma mounted_sector_size: "mounted drivers medium ss l0 lim d h root k s \<Longrightarrow> disk_sector_size s d = int ss"
  by (simp add: mounted_def stream_inv_def disk_sector_size_def)

lemma mounted_private: "mounted drivers medium ss l0 lim d h root k s \<Longrightarrow>
    \<exists>p. fs_private s d = Some p \<and> header p = h \<and> root_directory p = root"
  unfolding mounted_def by blast

text \<open>A bound on the sectors a read caches.\<close>

lemma read_rounds_le:
  assumes "0 < ss"
  shows "read_rounds ss p n \<le> n div ss + 3"
proof -
  have "p + n + ss - 1 < (p div ss + n div ss + 3) * ss"
  proof -
    have "p < (p div ss + 1) * ss" "n < (n div ss + 1) * ss"
      using assms by (simp_all add: dividend_less_div_times)
    then show ?thesis by (simp add: algebra_simps)
  qed
  then have "sector_ceiling ss (p + n) < p div ss + n div ss + 3"
    unfolding sector_ceiling_def using assms by (simp add: less_mult_imp_div_less)
  then show ?thesis by (simp add: read_rounds_def)
qed

text \<open>A read of a mounted volume that starts and ends in one sector, or has the length of a sector.\<close>

lemma volume_read_ok:
  assumes kz: "never_fails kz" and m: "mounted drivers medium ss l0 lim d h root (n div ss + 3 + k) s"
    and p: "volume_pos s d w = Some (int p)" "p + n \<le> lim" "n < ss \<longrightarrow> p mod ss + n \<le> ss"
  shows "\<exists>s'. volume_read kz drivers s d w (int n) = Some (s', volume_bytes medium ss l0 p n, 0) \<and>
    mounted drivers medium ss l0 lim d h root k s' \<and> volume_pos s' d w = Some (int (p + n))"
proof -
  have inv: "stream_inv drivers medium ss l0 d (n div ss + 3 + k) s"
    and rd: "\<And>p n. p + n \<le> lim \<Longrightarrow> readable (disk_vector s ! d) ss l0 p n"
    and ss: "512 \<le> ss" "ss mod 32 = 0" using m by (simp_all add: mounted_def)
  obtain pr where pr: "fs_private s d = Some pr" "header pr = h" "root_directory pr = root"
    "\<And>w. stream_sector_size (stream_of w pr) = int ss" "\<And>w. stream_disk (stream_of w pr) = d"
    using m unfolding mounted_def by blast
  have pos: "pos (stream_of w pr) = int p" using p(1) pr(1) by (simp add: volume_pos_def)
  have d: "d < length (disk_vector s)" by (rule stream_inv_simps(1) [OF inv])
  have inv': "stream_inv drivers medium ss l0 d (read_rounds ss p n + k) s"
    by (rule stream_inv_mono [OF inv]) (use read_rounds_le [of ss p n] ss in simp)
  obtain s1 where s1: "diskstreamer_read kz drivers s (stream_of w pr) (int n) =
      Some (s1, (stream_of w pr)\<lparr>pos := int (p + n)\<rparr>, map (\<lambda>j. medium_byte medium ss (l0 * ss + p + j)) [0..<n], 0)"
    "stream_inv drivers medium ss l0 d k s1" "cache_changed d s s1"
    using diskstreamer_read_ok [OF kz inv' pr(4,5) pos rd [OF p(2)] p(3)] by blast
  let ?s' = "update_private s1 d (set_stream w ((stream_of w pr)\<lparr>pos := int (p + n)\<rparr>))"
  have priv: "fs_private s1 = fs_private s" using s1(3) by (auto simp: cache_changed_def)
  obtain c where c: "disk_vector s1 ! d = (disk_vector s ! d)\<lparr>disk_cache := c\<rparr>"
    using cache_changed_disk [OF s1(3) d] by blast
  have "volume_read kz drivers s d w (int n) = Some (?s', volume_bytes medium ss l0 p n, 0)"
    by (simp add: volume_read_def pr(1) s1(1) volume_bytes_def volume_byte_def add.assoc)
  moreover have "readable (disk_vector s1 ! d) ss l0 p n" if "p + n \<le> lim" for p n
    using rd [OF that] by (simp add: c readable_def block_in_range_def)
  then have "mounted drivers medium ss l0 lim d h root k ?s'"
    using s1(2) ss pr by (auto simp: mounted_def update_private_def priv)
  moreover have "volume_pos ?s' d w = Some (int (p + n))"
    by (simp add: volume_pos_def update_private_def priv pr(1))
  ultimately show ?thesis by blast
qed

lemma length_volume_bytes [simp]: "length (volume_bytes medium ss l0 p n) = n"
  by (simp add: volume_bytes_def)

lemma nth_volume_bytes [simp]: "j < n \<Longrightarrow> volume_bytes medium ss l0 p n ! j = volume_byte medium ss l0 (p + j)"
  by (simp add: volume_bytes_def)

subsection \<open>Directories\<close>

text \<open>The directory at byte \<open>p\<close> of a volume ends at item \<open>m\<close>, and \<open>used_items\<close> of its items are not deleted.\<close>

definition first_byte :: "(nat \<Rightarrow> u8 list) \<Rightarrow> nat \<Rightarrow> nat \<Rightarrow> nat \<Rightarrow> nat \<Rightarrow> u8" where
  "first_byte medium ss l0 p j = volume_byte medium ss l0 (p + 32 * j)"

definition ends_at :: "(nat \<Rightarrow> u8 list) \<Rightarrow> nat \<Rightarrow> nat \<Rightarrow> nat \<Rightarrow> nat \<Rightarrow> bool" where
  "ends_at medium ss l0 p m \<longleftrightarrow> first_byte medium ss l0 p m = 0 \<and> (\<forall>j<m. first_byte medium ss l0 p j \<noteq> 0)"

definition used_items :: "(nat \<Rightarrow> u8 list) \<Rightarrow> nat \<Rightarrow> nat \<Rightarrow> nat \<Rightarrow> nat \<Rightarrow> nat" where
  "used_items medium ss l0 p m = length (filter (\<lambda>j. first_byte medium ss l0 p j \<noteq> 0xE5) [0..<m])"

lemma used_items_Suc:
  "used_items medium ss l0 p (Suc m) = (if first_byte medium ss l0 p 0 = 0xE5 then 0 else 1) + used_items medium ss l0 (p + 32) m"
proof -
  have "[0..<Suc m] = 0 # map Suc [0..<m]" by (simp add: upt_conv_Cons map_Suc_upt del: upt_Suc)
  then show ?thesis unfolding used_items_def by (simp add: first_byte_def filter_map o_def add.assoc del: upt_Suc)
qed

lemma used_items_le: "used_items medium ss l0 p m \<le> m"
  unfolding used_items_def using length_filter_le [of _ "[0..<m]"] by simp

lemma item_in_sector:
  fixes p ss :: nat
  assumes "p mod 32 = 0" "ss mod 32 = 0" "512 \<le> ss"
  shows "p mod ss + 32 \<le> ss"
proof -
  obtain a where a: "p = 32 * a" using assms(1) by (meson mod_0_imp_dvd dvdE)
  obtain b where b: "ss = 32 * b" using assms(2) by (meson mod_0_imp_dvd dvdE)
  have "a mod b < b" using assms(3) unfolding b by simp
  then have "32 * (a mod b) + 32 \<le> 32 * b" by linarith
  then show ?thesis unfolding a b by (simp only: mult_mod_right)
qed

lemma total_items_loop_ok:
  assumes kz: "never_fails kz"
  shows "mounted drivers medium ss l0 lim d h root (3 * Suc m + k) s \<Longrightarrow>
    volume_pos s d Directory_Stream = Some (int p) \<Longrightarrow> p mod 32 = 0 \<Longrightarrow> p + 32 * Suc m \<le> lim \<Longrightarrow>
    ends_at medium ss l0 p m \<Longrightarrow> length item \<le> 32 \<Longrightarrow> i + int m < INT_MAX \<Longrightarrow>
    \<exists>s'. total_items_loop kz drivers s d item i = Some (s', i + int (used_items medium ss l0 p m)) \<and>
      mounted drivers medium ss l0 lim d h root k s'"
proof (induction m arbitrary: s p item i)
  case (0 s p item i)
  have ss: "512 \<le> ss" "ss mod 32 = 0" using 0(1) by (simp_all add: mounted_def)
  have m: "mounted drivers medium ss l0 lim d h root (32 div ss + 3 + k) s" using 0(1) ss by simp
  have "p + 32 \<le> lim" "32 < ss \<longrightarrow> p mod ss + 32 \<le> ss"
    using 0(3,4) item_in_sector [OF 0(3) ss(2,1)] by simp_all
  then obtain s' where s': "volume_read kz drivers s d Directory_Stream (int 32) = Some (s', volume_bytes medium ss l0 p 32, 0)"
    "mounted drivers medium ss l0 lim d h root k s'"
    using volume_read_ok [OF kz m 0(2)] by blast
  have "hd (volume_bytes medium ss l0 p 32) = 0" "volume_bytes medium ss l0 p 32 \<noteq> []"
    using 0(5) by (simp_all add: hd_conv_nth ends_at_def first_byte_def flip: length_greater_0_conv)
  then show ?case
    using s' 0(6) by (subst total_items_loop.simps) (auto simp: used_items_def)
next
  case (Suc m s p item i)
  have ss: "512 \<le> ss" "ss mod 32 = 0" using Suc.prems(1) by (simp_all add: mounted_def)
  have mt: "mounted drivers medium ss l0 lim d h root (32 div ss + 3 + (3 * Suc m + k)) s"
    by (rule mounted_mono [OF Suc.prems(1)]) (use ss in simp)
  have lim: "p + 32 \<le> lim" "32 < ss \<longrightarrow> p mod ss + 32 \<le> ss"
    using Suc.prems(3,4) item_in_sector [OF Suc.prems(3) ss(2,1)] by simp_all
  let ?b = "volume_bytes medium ss l0 p 32"
  obtain s1 where s1: "volume_read kz drivers s d Directory_Stream (int 32) = Some (s1, ?b, 0)"
    "mounted drivers medium ss l0 lim d h root (3 * Suc m + k) s1"
    "volume_pos s1 d Directory_Stream = Some (int (p + 32))"
    using volume_read_ok [OF kz mt Suc.prems(2) lim] by blast
  have hd: "hd ?b = first_byte medium ss l0 p 0" "?b \<noteq> []"
    by (simp_all add: hd_conv_nth first_byte_def flip: length_greater_0_conv)
  have nz: "first_byte medium ss l0 p 0 \<noteq> 0" using Suc.prems(5) by (simp add: ends_at_def)
  have e: "ends_at medium ss l0 (p + 32) m"
    unfolding ends_at_def
  proof (intro conjI allI impI)
    show "first_byte medium ss l0 (p + 32) m = 0"
      using Suc.prems(5) by (simp add: ends_at_def first_byte_def add.assoc)
    fix j assume "j < m"
    then have "Suc j < Suc m" by simp
    then have "first_byte medium ss l0 p (Suc j) \<noteq> 0" using Suc.prems(5) unfolding ends_at_def by blast
    then show "first_byte medium ss l0 (p + 32) j \<noteq> 0" by (simp add: first_byte_def add.assoc)
  qed
  have a: "(p + 32) mod 32 = 0" "p + 32 + 32 * Suc m \<le> lim" using Suc.prems(3,4) by simp_all
  define i' where "i' = i + (if first_byte medium ss l0 p 0 = 0xE5 then 0 else 1)"
  have i': "i' + int m < INT_MAX" "i \<noteq> INT_MAX" using Suc.prems(7) by (auto simp: i'_def)
  have "total_items_loop kz drivers s d item i = total_items_loop kz drivers s1 d ?b i'"
    using s1(1) hd nz Suc.prems(6) i'(2) by (subst total_items_loop.simps) (auto simp: i'_def)
  moreover obtain s' where "total_items_loop kz drivers s1 d ?b i' = Some (s', i' + int (used_items medium ss l0 (p + 32) m))"
    "mounted drivers medium ss l0 lim d h root k s'"
    using Suc.IH [OF s1(2,3) a e _ i'(1), of ?b] by auto
  ultimately show ?case by (auto simp: used_items_Suc i'_def)
qed

lemma get_total_items_ok:
  assumes kz: "never_fails kz" and m: "mounted drivers medium ss l0 lim d h root (3 * Suc n + k) s"
    and lim: "sector * ss + 32 * Suc n \<le> lim" "lim \<le> 2147483647" and e: "ends_at medium ss l0 (sector * ss) n"
  shows "\<exists>s'. fat16_get_total_items_for_directory kz drivers s d (of_nat sector) =
      Some (s', int (used_items medium ss l0 (sector * ss) n)) \<and>
    mounted drivers medium ss l0 lim d h root k s'"
proof -
  have ss: "512 \<le> ss" "ss mod 32 = 0" using m by (simp_all add: mounted_def)
  have "sint (of_nat sector * word_of_int (disk_sector_size s d) :: u32) = int (sector * ss)"
  proof -
    have "of_nat sector * word_of_int (disk_sector_size s d) = (of_nat (sector * ss) :: u32)"
      using mounted_sector_size [OF m] by simp
    moreover have "sector * ss < 2 ^ 31" using lim by (intro le_less_trans [of "sector * ss" 2147483647]) simp_all
    ultimately show ?thesis
      by (simp add: sint_uint unsigned_of_nat take_bit_nat_eq_self signed_take_bit_int_eq_self del: of_nat_mult)
  qed
  moreover have "(sector * ss) mod 32 = 0" using ss(2) by (simp add: mod_mult_right_eq [symmetric])
  moreover have "32 * Suc n \<le> 2147483647" using lim by (metis add_leE order_trans)
  then have "0 + int n < INT_MAX" by simp
  ultimately show ?thesis
    using total_items_loop_ok [OF kz mounted_seek [OF m] volume_pos_seek [OF m], of "sector * ss" "[]" 0] lim(1) e
    unfolding fat16_get_total_items_for_directory_def by auto
qed

subsection \<open>Names\<close>

lemma istrncmp_loop_cstr:
  "terminated s1 \<Longrightarrow> terminated s2 \<Longrightarrow>
   \<exists>r. istrncmp_loop s1 s2 n = Some r \<and>
     (r = 0 \<longleftrightarrow> take n (map tolower (cstr s1)) = take n (map tolower (cstr s2)))"
  unfolding terminated_def
proof (induction s1 s2 n rule: istrncmp_loop.induct)
  case (2 u1 s1 u2 s2 n)
  then show ?case
    by (cases "u1 = 0"; cases "u2 = 0"; cases "tolower u1 = tolower u2")
      (auto simp: compare_bytes tolower_zero dest: sym [of "tolower _" 0])
qed auto

text \<open>
  The 8.3 name of an item: the name up to a zero byte or a blank, then a dot and the extension unless that
  is empty.
\<close>

definition name_field :: "u8 list \<Rightarrow> u8 list" where
  "name_field = takeWhile (\<lambda>c. c \<noteq> 0 \<and> c \<noteq> 0x20)"

definition short_name :: "fat_directory_item \<Rightarrow> u8 list" where
  "short_name item = name_field (item_filename item) @
     (if name_field (item_ext item) = [] then [] else 0x2E # name_field (item_ext item))"

definition item_ok :: "fat_directory_item \<Rightarrow> bool" where
  "item_ok item \<longleftrightarrow> length (item_filename item) = 8 \<and> length (item_ext item) = 3"

definition named :: "u8 list \<Rightarrow> fat_directory_item \<Rightarrow> bool" where
  "named name item \<longleftrightarrow> map tolower (short_name item) = map tolower (cstr name)"

lemma proper_string_loop_field:
  "length str + i = sz \<Longrightarrow> 0 < length str \<Longrightarrow> proper_string_loop str i sz = Some (name_field str)"
proof (induction str arbitrary: i)
  case (Cons c cs)
  then show ?case by (cases cs) (auto simp: name_field_def)
qed simp

lemma full_filename_ok:
  assumes "item_ok item"
  shows "\<exists>buf. fat16_get_full_relative_filename item PEACHOS_MAX_PATH = Some buf \<and> terminated buf \<and> cstr buf = short_name item \<and>
    length (short_name item) \<le> 12"
proof -
  obtain e es where e: "item_ext item = e # es" using assms unfolding item_ok_def by (metis Suc_length_conv numeral_3_eq_3)
  have n: "fat16_to_proper_string (item_filename item) 8 = Some (name_field (item_filename item))"
    and x: "fat16_to_proper_string (item_ext item) 3 = Some (name_field (item_ext item))"
    using assms by (simp_all add: fat16_to_proper_string_def proper_string_loop_field item_ok_def flip: length_greater_0_conv)
  have l: "length (name_field (item_filename item)) \<le> 8" "length (name_field (item_ext item)) \<le> 3"
    using assms length_takeWhile_le [of _ "item_filename item"] length_takeWhile_le [of _ "item_ext item"]
    by (simp_all add: name_field_def item_ok_def)
  have ne: "item_ext item ! 0 \<noteq> 0x00 \<and> item_ext item ! 0 \<noteq> 0x20 \<longleftrightarrow> name_field (item_ext item) \<noteq> []"
    by (simp add: e name_field_def)
  have sl: "length (short_name item) \<le> 12" using l by (simp add: short_name_def)
  have "0 < 108 - length (short_name item)" using sl by simp
  then obtain k where k: "108 - length (short_name item) = Suc k" using gr0_implies_Suc by blast
  have "fat16_get_full_relative_filename item PEACHOS_MAX_PATH = Some (short_name item @ replicate (Suc k) 0)"
    using sl l unfolding fat16_get_full_relative_filename_def n x ne Option.bind_lunit k [symmetric]
    by (cases "name_field (item_ext item) = []") (simp_all add: short_name_def)
  moreover have "0 \<notin> set (short_name item)"
    by (auto simp: short_name_def name_field_def dest: set_takeWhileD)
  ultimately show ?thesis using sl by (auto simp: cstr_append terminated_def)
qed

text \<open>Comparing an item with a component of a path.\<close>

lemma compare_name:
  assumes "item_ok item" "terminated name" "length (cstr name) \<le> 107"
  shows "\<exists>tmp cmp. fat16_get_full_relative_filename item PEACHOS_MAX_PATH = Some tmp \<and>
    istrncmp tmp name PEACHOS_MAX_PATH = Some cmp \<and> (cmp = 0 \<longleftrightarrow> named name item)"
proof -
  obtain buf where buf: "fat16_get_full_relative_filename item PEACHOS_MAX_PATH = Some buf" "terminated buf"
    "cstr buf = short_name item" "length (short_name item) \<le> 12"
    using full_filename_ok [OF assms(1)] by blast
  then show ?thesis
    using istrncmp_loop_cstr [OF buf(2) assms(2), of 108] assms(3) by (auto simp: istrncmp_def named_def)
qed

subsection \<open>Looking up a file\<close>

lemma find_append: "find P (xs @ ys) = (case find P xs of None \<Rightarrow> find P ys | Some x \<Rightarrow> Some x)"
  by (induction xs) auto

text \<open>A regular file: its fields have their lengths and it is no directory.\<close>

definition regular :: "fat_directory_item \<Rightarrow> bool" where
  "regular item \<longleftrightarrow> item_ok item \<and> attribute item AND FAT_FILE_SUBDIRECTORY = 0"

text \<open>An item that is no directory if it has the name.\<close>

definition file_if_named :: "u8 list \<Rightarrow> fat_directory_item \<Rightarrow> bool" where
  "file_if_named name item \<longleftrightarrow> item_ok item \<and> (named name item \<longrightarrow> regular item)"

lemma regular_file_if_named: "regular item \<Longrightarrow> file_if_named name item"
  by (simp add: file_if_named_def regular_def)

lemma new_item_regular:
  assumes "never_fails kz" "regular item"
  shows "\<exists>a. fat16_new_fat_item_for_directory_item kz drivers s d item = Some (s\<lparr>heap_state := a\<rparr>, Some (FAT_ITEM_TYPE_FILE (Some item)))"
proof -
  obtain a1 where a1: "kz (heap_state s) 16 = (a1, True)" using never_fails_D [OF assms(1)] by blast
  obtain a2 where a2: "kz a1 (size_of_int 32) = (a2, True)" using never_fails_D [OF assms(1)] by blast
  show ?thesis
    using assms(2) by (intro exI [of _ a2])
      (simp add: fat16_new_fat_item_for_directory_item_def a1 a2 fat16_clone_directory_item_def regular_def)
qed

lemma find_item_loop_files:
  assumes kz: "never_fails kz" and name: "terminated name" "length (cstr name) \<le> 107"
  shows "i + n \<le> length items \<Longrightarrow> (\<forall>j<n. file_if_named name (items ! (i + j))) \<Longrightarrow>
    \<exists>a. find_item_loop kz drivers s d items name f i n = Some (s\<lparr>heap_state := a\<rparr>,
      case find (named name) (rev (take n (drop i items))) of None \<Rightarrow> f | Some item \<Rightarrow> Some (FAT_ITEM_TYPE_FILE (Some item)))"
proof (induction n arbitrary: i f s)
  case 0
  then show ?case by (intro exI [of _ "heap_state s"]) simp
next
  case (Suc n)
  have r: "file_if_named name (items ! i)" using Suc.prems(2) by (metis add.right_neutral zero_less_Suc)
  then have "item_ok (items ! i)" by (simp add: file_if_named_def)
  then obtain tmp cmp where c: "fat16_get_full_relative_filename (items ! i) PEACHOS_MAX_PATH = Some tmp"
    "istrncmp tmp name PEACHOS_MAX_PATH = Some cmp" "cmp = 0 \<longleftrightarrow> named name (items ! i)"
    using compare_name name by blast
  obtain a where a: "named name (items ! i) \<Longrightarrow> fat16_new_fat_item_for_directory_item kz drivers s d (items ! i) =
      Some (s\<lparr>heap_state := a\<rparr>, Some (FAT_ITEM_TYPE_FILE (Some (items ! i))))"
    using new_item_regular [OF kz] r unfolding file_if_named_def by blast
  have i: "i < length items" "Suc i + n \<le> length items" using Suc.prems(1) by simp_all
  have rest: "\<forall>j<n. file_if_named name (items ! (Suc i + j))" using Suc.prems(2) by (metis Suc_less_eq add_Suc_shift)
  have split: "take (Suc n) (drop i items) = items ! i # take n (drop (Suc i) items)"
    using i(1) by (simp add: Cons_nth_drop_Suc [symmetric])
  define f' where "f' = (if named name (items ! i) then Some (FAT_ITEM_TYPE_FILE (Some (items ! i))) else f)"
  define s' where "s' = (if named name (items ! i) then s\<lparr>heap_state := a\<rparr> else s)"
  have step: "find_item_loop kz drivers s d items name f i (Suc n) = find_item_loop kz drivers s' d items name f' (Suc i) n"
    using i(1) c a by (simp add: f'_def s'_def)
  have heap: "s'\<lparr>heap_state := b\<rparr> = s\<lparr>heap_state := b\<rparr>" for b by (simp add: s'_def)
  show ?case
    unfolding step split
    using Suc.IH [OF i(2) rest, of s' f'] unfolding heap
    by (auto simp: find_append f'_def split: option.splits)
qed

lemma open_files:
  assumes kz: "never_fails kz" and p: "fs_private s d = Some p" "dir_item (root_directory p) = Some items"
    "dir_total (root_directory p) = int n" "n \<le> length items" "\<forall>j<n. file_if_named name (items ! j)"
    and name: "terminated name" "length (cstr name) \<le> 107"
  shows "\<exists>a. fat16_open kz drivers s d [name] FILE_MODE_READ = Some (s\<lparr>heap_state := a\<rparr>,
    case find (named name) (rev (take n items)) of
      None \<Rightarrow> Inl (- EIO)
    | Some item \<Rightarrow> Inr \<lparr>desc_item = FAT_ITEM_TYPE_FILE (Some item), desc_pos = 0\<rparr>)"
proof -
  obtain a1 where a1: "kz (heap_state s) 16 = (a1, True)" using never_fails_D [OF kz] by blast
  have l: "0 + n \<le> length items" "\<forall>j<n. file_if_named name (items ! (0 + j))" using p(4,5) by simp_all
  obtain a2 where f: "find_item_loop kz drivers (s\<lparr>heap_state := a1\<rparr>) d items name None 0 n = Some (s\<lparr>heap_state := a1\<rparr>\<lparr>heap_state := a2\<rparr>,
      case find (named name) (rev (take n (drop 0 items))) of None \<Rightarrow> None | Some item \<Rightarrow> Some (FAT_ITEM_TYPE_FILE (Some item)))"
    using find_item_loop_files [OF kz name l] by blast
  show ?thesis
    using p f by (intro exI [of _ a2], cases "find (named name) (rev (take n items))")
      (simp_all add: fat16_open_def a1 fat16_get_directory_entry_def fat16_find_item_in_directory_def)
qed

subsection \<open>The root directory\<close>

definition root_sector :: "fat_h \<Rightarrow> nat" where
  "root_sector h = unat (fat_copies (primary_header h)) * unat (sectors_per_fat (primary_header h)) +
     unat (reserved_sectors (primary_header h))"

definition root_entries :: "fat_h \<Rightarrow> nat" where
  "root_entries h = unat (root_dir_entries (primary_header h))"

text \<open>The item at index \<open>j\<close> of the directory at byte \<open>p\<close> of the volume.\<close>

definition entry_at :: "(nat \<Rightarrow> u8 list) \<Rightarrow> nat \<Rightarrow> nat \<Rightarrow> nat \<Rightarrow> nat \<Rightarrow> fat_directory_item" where
  "entry_at medium ss l0 p j = decode_item (volume_bytes medium ss l0 (p + 32 * j) 32)"

definition root_loaded :: "(nat \<Rightarrow> u8 list) \<Rightarrow> nat \<Rightarrow> nat \<Rightarrow> fat_h \<Rightarrow> nat \<Rightarrow> fat_directory" where
  "root_loaded medium ss l0 h n = \<lparr>
     dir_item = Some (map (entry_at medium ss l0 (root_sector h * ss)) [0..<root_entries h]),
     dir_total = int (used_items medium ss l0 (root_sector h * ss) n), sector_pos = int (root_sector h),
     ending_sector_pos = int (root_sector h + sector_ceiling ss (32 * root_entries h))\<rparr>"

lemma decode_items_volume_bytes:
  "decode_items (volume_bytes medium ss l0 p (32 * n)) = map (entry_at medium ss l0 p) [0..<n]"
proof (rule nth_equalityI)
  fix i assume "i < length (decode_items (volume_bytes medium ss l0 p (32 * n)))"
  then have i: "i < n" by (simp add: decode_items_def)
  then have "32 * i + 32 \<le> 32 * n" by linarith
  then have "take 32 (drop (32 * i) (volume_bytes medium ss l0 p (32 * n))) = volume_bytes medium ss l0 (p + 32 * i) 32"
    by (intro nth_equalityI) (simp_all add: add.assoc)
  then show "decode_items (volume_bytes medium ss l0 p (32 * n)) ! i = map (entry_at medium ss l0 p) [0..<n] ! i"
    using i by (simp add: decode_items_def entry_at_def)
qed (simp add: decode_items_def)

lemma ceiling_as_division:
  assumes "0 < ss"
  shows "(if b mod ss \<noteq> 0 then b div ss + 1 else b div ss) = sector_ceiling ss b"
proof -
  have "b + (ss - b mod ss) = (b - b mod ss) + ss"
    using mod_less_divisor [OF assms, of b] mod_less_eq_dividend [of b ss] by linarith
  then have "b + (ss - b mod ss) = (b div ss + 1) * ss" unfolding minus_mod_eq_div_mult by simp
  moreover have "b = b div ss * ss" if "b mod ss = 0" using that div_mult_mod_eq [of b ss] by simp
  ultimately have "sector_ceiling ss b * ss = (if b mod ss \<noteq> 0 then b div ss + 1 else b div ss) * ss"
    unfolding sector_ceiling_mult [OF assms] by (auto simp del: mult_Suc)
  then show ?thesis using assms by simp
qed

lemma mounted_root:
  "mounted drivers medium ss l0 lim d h root k s \<Longrightarrow>
   mounted drivers medium ss l0 lim d h root' k (update_private s d (\<lambda>p. p\<lparr>root_directory := root'\<rparr>))"
proof -
  have "stream_of w (p\<lparr>root_directory := root'\<rparr>) = stream_of w p" for w p by (cases w) simp_all
  then show "mounted drivers medium ss l0 lim d h root k s \<Longrightarrow>
    mounted drivers medium ss l0 lim d h root' k (update_private s d (\<lambda>p. p\<lparr>root_directory := root'\<rparr>))"
    unfolding mounted_def update_private_def by auto
qed

lemma get_root_directory_ok:
  assumes kz: "never_fails kz"
    and m: "mounted drivers medium ss l0 lim d h root (3 * Suc n + (32 * root_entries h div ss + 3 + k)) s"
    and e: "ends_at medium ss l0 (root_sector h * ss) n"
    and lim: "root_sector h * ss + 32 * Suc n \<le> lim" "root_sector h * ss + 32 * root_entries h \<le> lim" "lim \<le> 2147483647"
  shows "\<exists>s'. fat16_get_root_directory kz drivers s d = Some (s', 0) \<and>
    mounted drivers medium ss l0 lim d h (root_loaded medium ss l0 h n) k s'"
proof -
  let ?R = "root_sector h" and ?n = "32 * root_entries h"
  have ss: "512 \<le> ss" "disk_sector_size s d = int ss" using m mounted_sector_size [OF m] by (simp_all add: mounted_def)
  obtain p where p: "fs_private s d = Some p" "header p = h" using mounted_private [OF m] by blast
  obtain s1 where s1: "fat16_get_total_items_for_directory kz drivers s d (of_nat ?R) =
      Some (s1, int (used_items medium ss l0 (?R * ss) n))"
    "mounted drivers medium ss l0 lim d h root (?n div ss + 3 + k) s1"
    using get_total_items_ok [OF kz m lim(1,3) e] by blast
  obtain a2 where a2: "kz (heap_state s1) (size_of_int (int ?n)) = (a2, True)" using never_fails_D [OF kz] by blast
  let ?s2 = "s1\<lparr>heap_state := a2\<rparr>"
  have m2: "mounted drivers medium ss l0 lim d h root (?n div ss + 3 + k) ?s2" using s1(2) by simp
  have start: "fat16_sector_to_absolute ?s2 d (int ?R) = Some (int (?R * ss))"
  proof -
    have "int (?R * ss) \<le> 2147483647" using lim(1,3) by linarith
    moreover have "int ?R * int ss = int (?R * ss)" by simp
    ultimately show ?thesis
      using mounted_sector_size [OF m2] by (simp add: fat16_sector_to_absolute_def int_range_def del: of_nat_mult)
  qed
  have rd: "?n < ss \<longrightarrow> (?R * ss) mod ss + ?n \<le> ss" by simp
  obtain s3 where s3: "volume_read kz drivers (volume_seek ?s2 d Directory_Stream (int (?R * ss))) d Directory_Stream (int ?n) =
      Some (s3, volume_bytes medium ss l0 (?R * ss) ?n, 0)" "mounted drivers medium ss l0 lim d h root k s3"
    using volume_read_ok [OF kz mounted_seek [OF m2] volume_pos_seek [OF m2] lim(2) rd] by blast
  have dir: "store_at (replicate (nat (int ?n)) 0) 0 (volume_bytes medium ss l0 (?R * ss) ?n) = Some (volume_bytes medium ss l0 (?R * ss) ?n)"
    by (simp add: store_at_def)
  have R: "uint (fat_copies (primary_header h)) * uint (sectors_per_fat (primary_header h)) + uint (reserved_sectors (primary_header h)) = int ?R"
    by (simp add: root_sector_def)
  have n: "uint (root_dir_entries (primary_header h)) * 32 = int ?n" by (simp add: root_entries_def)
  have wR: "word_of_int (int ?R) = (of_nat ?R :: u32)" by simp
  have sec: "(if int ?n smod int ss \<noteq> 0 then int ?n sdiv int ss + 1 else int ?n sdiv int ss) = int (sector_ceiling ss ?n)"
  proof -
    have "int ?n smod int ss = int (?n mod ss)" "int ?n sdiv int ss = int (?n div ss)"
      using ss(1) by (simp_all add: sdiv_pos smod_pos zmod_int zdiv_int del: of_nat_mult)
    then show ?thesis using ceiling_as_division [of ss ?n] ss(1) by (auto split: if_splits)
  qed
  have ending: "int_range (int ?R + int (sector_ceiling ss ?n)) = Some (int (?R + sector_ceiling ss ?n))"
  proof -
    have "?R + sector_ceiling ss ?n \<le> ?R * ss + ?n"
    proof (rule add_mono)
      show "?R \<le> ?R * ss" using ss(1) by simp
      have "?n \<le> ?n * ss" using ss(1) by simp
      then have "?n + ss - 1 \<le> ?n * ss + (ss - 1)" using ss(1) by linarith
      then have "sector_ceiling ss ?n \<le> (?n * ss + (ss - 1)) div ss" unfolding sector_ceiling_def by (rule div_le_mono)
      also have "(m * ss + r) div ss = m" if "r < ss" for m r using that by (intro div_nat_eqI) (simp_all add: mult.commute)
      then have "(?n * ss + (ss - 1)) div ss = ?n" using ss(1) by (metis diff_less less_le_trans zero_less_numeral zero_less_one)
      finally show "sector_ceiling ss ?n \<le> ?n" .
    qed
    then have "?R + sector_ceiling ss ?n \<le> 2147483647" using lim(2,3) by linarith
    then show ?thesis by (simp add: int_range_def)
  qed
  have "fat16_get_root_directory kz drivers s d =
    Some (update_private s3 d (\<lambda>p. p\<lparr>root_directory := root_loaded medium ss l0 h n\<rparr>), 0)"
    unfolding fat16_get_root_directory_def p(1) Option.bind_lunit Let_def p(2) R n wR s1(1) ss(2) prod.case a2 start sec s3(1) dir ending
      decode_items_volume_bytes root_loaded_def
    using ss(1) by simp
  then show ?thesis using mounted_root [OF s3(2)] by blast
qed

subsection \<open>Following a chain of clusters\<close>

definition reserved_bytes :: "fat_h \<Rightarrow> nat \<Rightarrow> nat" where
  "reserved_bytes h ss = unat (reserved_sectors (primary_header h)) * ss"

definition fat_entry :: "(nat \<Rightarrow> u8 list) \<Rightarrow> nat \<Rightarrow> nat \<Rightarrow> fat_h \<Rightarrow> u16 \<Rightarrow> u16" where
  "fat_entry medium ss l0 h c = le16 (volume_bytes medium ss l0 (reserved_bytes h ss + 2 * unat c) 2) 0"

text \<open>The numbers of data clusters, save the one the code takes for the mark of a bad sector.\<close>

definition linked :: "u16 \<Rightarrow> bool" where
  "linked e \<longleftrightarrow> 2 \<le> e \<and> e < 0xFFF0 \<and> e \<noteq> PEACHOS_FAT16_BAD_SECTOR"

primrec fat_chain :: "(nat \<Rightarrow> u8 list) \<Rightarrow> nat \<Rightarrow> nat \<Rightarrow> fat_h \<Rightarrow> u16 \<Rightarrow> nat \<Rightarrow> u16 option" where
  "fat_chain medium ss l0 h c 0 = Some c"
| "fat_chain medium ss l0 h c (Suc n) =
     (if linked (fat_entry medium ss l0 h c) then fat_chain medium ss l0 h (fat_entry medium ss l0 h c) n else None)"

definition cluster_sectors :: "fat_h \<Rightarrow> nat" where
  "cluster_sectors h = unat (sectors_per_cluster (primary_header h))"

lemma aligned_in_sector:
  fixes p ss z :: nat
  assumes "p mod z = 0" "ss mod z = 0" "z \<le> ss" "0 < z"
  shows "p mod ss + z \<le> ss"
proof -
  obtain a where a: "p = z * a" using assms(1) by (meson mod_0_imp_dvd dvdE)
  obtain b where b: "ss = z * b" using assms(2) by (meson mod_0_imp_dvd dvdE)
  have "0 < b" using assms(3,4) unfolding b by (cases b) simp_all
  then have "a mod b + 1 \<le> b" by (simp add: Suc_leI)
  then have "z * (a mod b + 1) \<le> z * b" by (rule mult_le_mono2)
  then show ?thesis unfolding a b by (simp only: mult_mod_right distrib_left mult_1_right)
qed

lemma u32_position:
  assumes "a * ss + 2 * c \<le> 2147483647" "a < 65536" "c < 65536"
  shows "sint (of_nat a * word_of_int (int ss) + word_of_int (int c * 2) :: u32) = int (a * ss + 2 * c)"
proof -
  have "of_nat a * word_of_int (int ss) + word_of_int (int c * 2) = (of_nat (a * ss + 2 * c) :: u32)"
    by (simp add: mult.commute)
  moreover have "a * ss + 2 * c < 2 ^ 31" using assms(1) by (intro le_less_trans [OF assms(1)]) simp
  ultimately show ?thesis
    by (simp add: sint_uint unsigned_of_nat take_bit_nat_eq_self signed_take_bit_int_eq_self del: of_nat_mult of_nat_add)
qed

lemma get_fat_entry_ok:
  assumes kz: "never_fails kz" and m: "mounted drivers medium ss l0 lim d h root (3 + k) s"
    and lim: "reserved_bytes h ss + 2 * unat c + 2 \<le> lim" "lim \<le> 2147483647"
  shows "\<exists>s'. fat16_get_fat_entry kz drivers s d (uint c) = Some (s', uint (fat_entry medium ss l0 h c)) \<and>
    mounted drivers medium ss l0 lim d h root k s'"
proof -
  have ss: "512 \<le> ss" "ss mod 32 = 0" "disk_sector_size s d = int ss"
    using m mounted_sector_size [OF m] by (simp_all add: mounted_def)
  obtain p where p: "fs_private s d = Some p" "header p = h" using mounted_private [OF m] by blast
  let ?a = "unat (reserved_sectors (primary_header h))" and ?q = "reserved_bytes h ss + 2 * unat c"
  have q: "?q = ?a * ss + 2 * unat c" by (simp add: reserved_bytes_def)
  have b: "unat c < 65536" "?a < 65536"
    using unsigned_less [of c] unsigned_less [of "reserved_sectors (primary_header h)"] by simp_all
  have "?a * ss + 2 * unat c \<le> 2147483647" using lim unfolding q by linarith
  note pos = u32_position [OF this b(2,1)]
  have f: "fat16_get_first_fat_sector p = of_nat ?a"
    by (simp add: fat16_get_first_fat_sector_def p(2))
  have c: "uint c * 2 = int (unat c) * 2" by simp
  have m3: "mounted drivers medium ss l0 lim d h root (2 div ss + 3 + k) s" using m ss(1) by simp
  have "2 dvd ss" using ss(2) by (meson dvd_trans mod_0_imp_dvd even_numeral)
  then have al: "2 < ss \<longrightarrow> ?q mod ss + 2 \<le> ss"
    using ss(1) by (intro impI aligned_in_sector) (simp_all add: q mod_eq_0_iff_dvd)
  obtain s1 where s1: "volume_read kz drivers (volume_seek s d Fat_Stream (int ?q)) d Fat_Stream (int 2) =
      Some (s1, volume_bytes medium ss l0 ?q 2, 0)" "mounted drivers medium ss l0 lim d h root k s1"
    using volume_read_ok [OF kz mounted_seek [OF m3] volume_pos_seek [OF m3] lim(1) al] by blast
  have st: "store_at [0, 0] 0 (volume_bytes medium ss l0 ?q 2) = Some (volume_bytes medium ss l0 ?q 2)"
    by (simp add: store_at_def)
  have "fat16_get_fat_entry kz drivers s d (uint c) = Some (s1, uint (fat_entry medium ss l0 h c))"
    using s1(1) st
    unfolding fat16_get_fat_entry_def p(1) Option.bind_lunit Let_def f ss(3) c pos q [symmetric] fat_entry_def by simp
  then show ?thesis using s1(2) by blast
qed

lemma cluster_loop_ok:
  assumes kz: "never_fails kz" and lim: "lim \<le> 2147483647"
  shows "mounted drivers medium ss l0 lim d h root (3 * n + k) s \<Longrightarrow>
    (\<forall>i<n. \<exists>cl. fat_chain medium ss l0 h c i = Some cl \<and> reserved_bytes h ss + 2 * unat cl + 2 \<le> lim) \<Longrightarrow>
    fat_chain medium ss l0 h c n = Some cl \<Longrightarrow>
    \<exists>s'. cluster_loop kz drivers s d c n = Some (s', uint cl) \<and> mounted drivers medium ss l0 lim d h root k s'"
proof (induction n arbitrary: s c)
  case (Suc n)
  let ?e = "fat_entry medium ss l0 h c"
  have m: "mounted drivers medium ss l0 lim d h root (3 + (3 * n + k)) s" using Suc.prems(1) by (simp add: add.assoc)
  have c: "reserved_bytes h ss + 2 * unat c + 2 \<le> lim" using Suc.prems(2) by (auto dest: spec [of _ 0])
  have l: "linked ?e" "fat_chain medium ss l0 h ?e n = Some cl" using Suc.prems(3) by (simp_all split: if_splits)
  obtain s1 where s1: "fat16_get_fat_entry kz drivers s d (uint c) = Some (s1, uint ?e)"
    "mounted drivers medium ss l0 lim d h root (3 * n + k) s1"
    using get_fat_entry_ok [OF kz m c lim] by blast
  have e: "\<not> ?e \<ge> 0xFFF8" "\<not> (?e = PEACHOS_FAT16_BAD_SECTOR \<or> (?e \<ge> 0xFFF0 \<and> ?e \<le> 0xFFF6) \<or> ?e = 0x0000)"
    using l(1) by (auto simp: linked_def word_le_nat_alt word_less_nat_alt)
  have "\<forall>i<n. \<exists>cl. fat_chain medium ss l0 h ?e i = Some cl \<and> reserved_bytes h ss + 2 * unat cl + 2 \<le> lim"
    using Suc.prems(2) l(1) by (auto dest: spec [of _ "Suc _"])
  then obtain s' where "cluster_loop kz drivers s1 d ?e n = Some (s', uint cl)" "mounted drivers medium ss l0 lim d h root k s'"
    using Suc.IH [OF s1(2) _ l(2)] by blast
  then show ?case using s1(1) e by (auto simp: Let_def)
qed simp

subsection \<open>The bytes of a file\<close>

text \<open>
  A file from cluster \<open>c\<close> on has its first \<open>M + 1\<close> clusters on the volume: their FAT entries and their
  data lie below \<open>lim\<close>. \<open>data\<close> is the sector of cluster 2.
\<close>

definition cluster_start :: "fat_h \<Rightarrow> nat \<Rightarrow> nat \<Rightarrow> u16 \<Rightarrow> nat" where
  "cluster_start h ss data cl = (data + (unat cl - 2) * cluster_sectors h) * ss"

definition file_clusters :: "(nat \<Rightarrow> u8 list) \<Rightarrow> nat \<Rightarrow> nat \<Rightarrow> nat \<Rightarrow> fat_h \<Rightarrow> nat \<Rightarrow> u16 \<Rightarrow> nat \<Rightarrow> bool" where
  "file_clusters medium ss l0 lim h data c M \<longleftrightarrow>
     (\<forall>i\<le>M. \<exists>cl. fat_chain medium ss l0 h c i = Some cl \<and> 2 \<le> cl \<and> reserved_bytes h ss + 2 * unat cl + 2 \<le> lim \<and>
        cluster_start h ss data cl + cluster_sectors h * ss \<le> lim)"

definition file_byte :: "(nat \<Rightarrow> u8 list) \<Rightarrow> nat \<Rightarrow> nat \<Rightarrow> fat_h \<Rightarrow> nat \<Rightarrow> u16 \<Rightarrow> nat \<Rightarrow> u8" where
  "file_byte medium ss l0 h data c j = (let cs = cluster_sectors h * ss in
     volume_byte medium ss l0 (cluster_start h ss data (the (fat_chain medium ss l0 h c (j div cs))) + j mod cs))"

lemma cluster_size_range:
  assumes "mounted drivers medium ss l0 lim d h root k s" "cluster_sectors h * ss \<le> lim" "lim \<le> 2147483647"
  shows "int_range (uint (sectors_per_cluster (primary_header h)) * disk_sector_size s d) = Some (int (cluster_sectors h * ss))"
proof -
  have "uint (sectors_per_cluster (primary_header h)) * disk_sector_size s d = int (cluster_sectors h * ss)"
    using mounted_sector_size [OF assms(1)] by (simp add: cluster_sectors_def)
  moreover have "int (cluster_sectors h * ss) \<le> 2147483647" using assms(2,3) by linarith
  ultimately show ?thesis by (simp add: int_range_def del: of_nat_mult)
qed

lemma get_cluster_ok:
  assumes kz: "never_fails kz" and m: "mounted drivers medium ss l0 lim d h root (3 * M + k) s" and lim: "lim \<le> 2147483647"
    and f: "file_clusters medium ss l0 lim h data c M" and off: "off div (cluster_sectors h * ss) \<le> M"
    and cs: "0 < cluster_sectors h" "cluster_sectors h * ss \<le> lim"
  shows "\<exists>s' cl. fat16_get_cluster_for_offset kz drivers s d c (int off) = Some (s', uint cl) \<and>
    mounted drivers medium ss l0 lim d h root k s' \<and>
    fat_chain medium ss l0 h c (off div (cluster_sectors h * ss)) = Some cl"
proof -
  let ?cs = "cluster_sectors h * ss" and ?n = "off div (cluster_sectors h * ss)"
  obtain p where p: "fs_private s d = Some p" "header p = h" using mounted_private [OF m] by blast
  have "0 < ss" using m by (simp add: mounted_def)
  have sz: "int_range (uint (sectors_per_cluster (primary_header h)) * disk_sector_size s d) = Some (int ?cs)"
    by (rule cluster_size_range [OF m cs(2) lim])
  have n: "nat (int off sdiv int ?cs) = ?n" using cs(1) \<open>0 < ss\<close> by (simp add: sdiv_pos zdiv_int del: of_nat_mult flip: zdiv_int)
  obtain cl where cl: "fat_chain medium ss l0 h c ?n = Some cl" using f off unfolding file_clusters_def by blast
  have m': "mounted drivers medium ss l0 lim d h root (3 * ?n + k) s" by (rule mounted_mono [OF m]) (use off in simp)
  have e: "\<forall>i<?n. \<exists>cl. fat_chain medium ss l0 h c i = Some cl \<and> reserved_bytes h ss + 2 * unat cl + 2 \<le> lim"
    using f off unfolding file_clusters_def by (meson less_imp_le order_trans)
  obtain s' where "cluster_loop kz drivers s d c ?n = Some (s', uint cl)" "mounted drivers medium ss l0 lim d h root k s'"
    using cluster_loop_ok [OF kz lim m' e cl] by blast
  then show ?thesis
    using cl cs(1) \<open>0 < ss\<close>
    unfolding fat16_get_cluster_for_offset_def p Option.bind_lunit sz n by (simp del: of_nat_mult)
qed

text \<open>Where a read of at most the rest of a cluster lies in its sectors.\<close>

lemma cluster_rest_in_sector:
  fixes off spc ss :: nat
  assumes "0 < ss" "spc * ss - off mod (spc * ss) < ss" "0 < spc"
  shows "off mod ss + (spc * ss - off mod (spc * ss)) \<le> ss"
proof -
  define x where "x = off mod (spc * ss)"
  have x: "x < spc * ss" using assms(1,3) by (simp add: x_def)
  have m: "x mod ss = off mod ss" unfolding x_def by (rule mod_mod_cancel) simp
  have q: "x = x div ss * ss + x mod ss" by (metis div_mult_mod_eq)
  have r: "x mod ss < ss" using assms(1) by simp
  have "spc * ss < ss + x" using assms(2) x unfolding x_def [symmetric] by linarith
  moreover have "x < x div ss * ss + ss" using q r by linarith
  ultimately have "spc * ss < x div ss * ss + ss + ss" by linarith
  then have "spc * ss < (x div ss + 2) * ss" by (simp only: add_mult_distrib mult_2 add.assoc)
  then have "spc < x div ss + 2" by (simp only: mult_less_cancel2)
  moreover have "x div ss < spc" using x by (simp add: less_mult_imp_div_less)
  ultimately have "spc = x div ss + 1" by linarith
  then have "spc * ss = x div ss * ss + ss" by simp
  then show ?thesis using q m r unfolding x_def [symmetric] by linarith
qed

lemma map_upt_shift: "map f [0..<a] @ map (\<lambda>j. f (a + j)) [0..<b] = map f [0..<a + b]"
  by (rule nth_equalityI) (auto simp: nth_append)

lemma store_at_next:
  assumes "length bytes = n" "o1 + n \<le> length buf"
  shows "store_at buf o1 bytes = Some (take o1 buf @ bytes @ drop (o1 + n) buf)"
  using assms by (simp add: store_at_def)

text \<open>The position of a byte of a cluster, in the arithmetic of the code.\<close>

lemma cluster_position:
  assumes m: "mounted drivers medium ss l0 lim d h root k s" and p: "header p = h" "root_directory p = root"
    and E: "ending_sector_pos root = int data" and cl: "2 \<le> cl" "cluster_start h ss data cl + cluster_sectors h * ss \<le> lim"
    and lim: "lim \<le> 2147483647"
  shows "fat16_cluster_to_sector p (uint cl) = Some (int (data + (unat cl - 2) * cluster_sectors h))"
    and "int_range (int (data + (unat cl - 2) * cluster_sectors h) * disk_sector_size s d) = Some (int (cluster_start h ss data cl))"
proof -
  have ss: "0 < ss" using m by (simp add: mounted_def)
  have c2: "2 \<le> unat cl" using cl(1) by (simp add: word_le_nat_alt)
  have "unat cl < 65536" using unsigned_less [of cl] by simp
  then have "- 2147483648 \<le> int (unat cl - 2) \<and> int (unat cl - 2) \<le> 2147483647" by simp
  moreover have "uint cl - 2 = int (unat cl - 2)" using c2 by (simp add: of_nat_diff)
  ultimately have a: "int_range (uint cl - 2) = Some (int (unat cl - 2))" by (simp only: int_range_def if_True simp_thms)
  let ?n = "(unat cl - 2) * cluster_sectors h"
  have "data + ?n \<le> cluster_start h ss data cl" unfolding cluster_start_def using ss by simp
  then have n: "data + ?n \<le> 2147483647" "cluster_start h ss data cl \<le> 2147483647" using cl(2) lim by linarith+
  then have "int ?n \<le> 2147483647" "int (data + ?n) \<le> 2147483647" by linarith+
  then have b: "int_range (int ?n) = Some (int ?n)" "int_range (int (data + ?n)) = Some (int (data + ?n))"
    by (simp_all add: int_range_def del: of_nat_mult of_nat_add)
  have u: "int (unat cl - 2) * uint (sectors_per_cluster (primary_header h)) = int ?n"
    by (simp add: cluster_sectors_def)
  show "fat16_cluster_to_sector p (uint cl) = Some (int (data + ?n))"
    unfolding fat16_cluster_to_sector_def p a Option.bind_lunit u b(1) E using b(2) by simp
  have "int (data + ?n) * disk_sector_size s d = int (cluster_start h ss data cl)"
    using mounted_sector_size [OF m] by (simp add: cluster_start_def)
  moreover have "int (cluster_start h ss data cl) \<le> 2147483647" using n(2) by linarith
  ultimately show "int_range (int (data + ?n) * disk_sector_size s d) = Some (int (cluster_start h ss data cl))"
    by (simp add: int_range_def del: of_nat_mult of_nat_add)
qed

text \<open>
  The reading loop. \<open>N\<close> bounds its rounds, and every round caches at most \<open>read_budget\<close> sectors: one read
  per entry of the chain and the sectors of a cluster.
\<close>

definition read_budget :: "fat_h \<Rightarrow> nat \<Rightarrow> nat" where
  "read_budget h M = 3 * M + cluster_sectors h + 3"

lemma read_internal_loop_ok:
  assumes kz: "never_fails kz" and lim: "lim \<le> 2147483647" and E: "ending_sector_pos root = int data"
    and f: "file_clusters medium ss l0 lim h data c M"
    and cs: "0 < cluster_sectors h" "cluster_sectors h * ss \<le> lim" "Suc M * (cluster_sectors h * ss) \<le> 2147483647"
  shows "mounted drivers medium ss l0 lim d h root (N * read_budget h M + k) s \<Longrightarrow>
    (0 < tot \<longrightarrow> off mod (cluster_sectors h * ss) + tot \<le> N * (cluster_sectors h * ss)) \<Longrightarrow>
    off + tot \<le> Suc M * (cluster_sectors h * ss) \<Longrightarrow>
    (ss \<le> tot \<or> off mod ss + tot \<le> ss) \<Longrightarrow> o1 + br + tot \<le> length buf \<Longrightarrow>
    \<exists>s'. read_internal_loop kz drivers s d w c (int (cluster_sectors h * ss)) (int off) (int tot) (int br) o1 buf =
      Some (s', int (br + tot), take (o1 + br) buf @ map (\<lambda>j. file_byte medium ss l0 h data c (off + j)) [0..<tot] @
              drop (o1 + br + tot) buf) \<and>
      mounted drivers medium ss l0 lim d h root k s'"
proof (induction N arbitrary: s off tot br buf)
  case 0
  then show ?case by (subst read_internal_loop.simps) simp
next
  case (Suc N)
  let ?cs = "cluster_sectors h * ss"
  show ?case
  proof (cases "tot = 0")
    case True
    have "mounted drivers medium ss l0 lim d h root k s" by (rule mounted_mono [OF Suc.prems(1)]) simp
    then show ?thesis using True by (subst read_internal_loop.simps) simp
  next
    case False
    have ss: "0 < ss" using Suc.prems(1) by (simp add: mounted_def)
    have cs0: "0 < ?cs" using cs(1) ss by simp
    have x: "off mod ?cs < ?cs" using cs0 by simp
    define n where "n = min (?cs - off mod ?cs) tot"
    have n: "0 < n" "n \<le> tot" "off mod ?cs + n \<le> ?cs" using False x by (auto simp: n_def)
    have "off < Suc M * ?cs" using Suc.prems(3) False by linarith
    then have M: "off div ?cs \<le> M" by (metis less_Suc_eq_le less_mult_imp_div_less)
    have m: "mounted drivers medium ss l0 lim d h root (3 * M + (cluster_sectors h + 3 + (N * read_budget h M + k))) s"
      by (rule mounted_mono [OF Suc.prems(1)]) (simp add: read_budget_def)
    obtain s1 cl where s1: "fat16_get_cluster_for_offset kz drivers s d c (int off) = Some (s1, uint cl)"
      "mounted drivers medium ss l0 lim d h root (cluster_sectors h + 3 + (N * read_budget h M + k)) s1"
      "fat_chain medium ss l0 h c (off div ?cs) = Some cl"
      using get_cluster_ok [OF kz m lim f M cs(1,2)] by blast
    have cl: "2 \<le> cl" "cluster_start h ss data cl + ?cs \<le> lim"
      using f M s1(3) unfolding file_clusters_def by fastforce+
    obtain p where p: "fs_private s1 d = Some p" "header p = h" "root_directory p = root"
      using mounted_private [OF s1(2)] by blast
    note pos = cluster_position [OF s1(2) p(2,3) E cl lim]
    let ?q = "cluster_start h ss data cl + off mod ?cs"
    have sm: "int off smod int ?cs = int (off mod ?cs)" using cs0 by (simp add: smod_pos zmod_int del: of_nat_mult)
    have q: "?q + n \<le> lim" using cl(2) n(3) by linarith
    then have r1: "int_range (int (cluster_start h ss data cl) + int (off mod ?cs)) = Some (int ?q)"
      using lim unfolding int_range_def by (simp del: of_nat_mult)
    have r2: "int_range (int ?cs - int (off mod ?cs)) = Some (int (?cs - off mod ?cs))"
      using x cs(2) lim by (simp add: int_range_def of_nat_diff del: of_nat_mult)
    have mn: "min (int (?cs - off mod ?cs)) (int tot) = int n" unfolding n_def by (simp del: of_nat_mult)
    have qs: "?q mod ss = off mod ss"
    proof -
      have "cluster_start h ss data cl mod ss = 0" by (simp add: cluster_start_def)
      moreover have "off mod ?cs mod ss = off mod ss" by (rule mod_mod_cancel) simp
      ultimately show ?thesis by (metis add_0 mod_add_eq mod_mod_trivial)
    qed
    have al: "n < ss \<longrightarrow> ?q mod ss + n \<le> ss"
    proof
      assume "n < ss"
      show "?q mod ss + n \<le> ss"
      proof (cases "n = tot")
        case True
        then show ?thesis using Suc.prems(4) \<open>n < ss\<close> unfolding qs by linarith
      next
        case False
        then have "n = ?cs - off mod ?cs" by (auto simp: n_def min_def split: if_splits)
        then show ?thesis using cluster_rest_in_sector [OF ss _ cs(1), of off] \<open>n < ss\<close> unfolding qs by simp
      qed
    qed
    have "n div ss \<le> cluster_sectors h"
    proof -
      have "n div ss \<le> ?cs div ss" using n(3) by (intro div_le_mono) simp
      then show ?thesis using ss by simp
    qed
    then have m1: "mounted drivers medium ss l0 lim d h root (n div ss + 3 + (N * read_budget h M + k)) s1"
      by (intro mounted_mono [OF s1(2)]) simp
    let ?bytes = "volume_bytes medium ss l0 ?q n"
    obtain s2 where s2: "volume_read kz drivers (volume_seek s1 d w (int ?q)) d w (int n) = Some (s2, ?bytes, 0)"
      "mounted drivers medium ss l0 lim d h root (N * read_budget h M + k) s2"
      using volume_read_ok [OF kz mounted_seek [OF m1] volume_pos_seek [OF m1] q al] by blast
    let ?buf = "take (o1 + br) buf @ ?bytes @ drop (o1 + br + n) buf"
    have st: "store_at buf (o1 + nat (int br)) ?bytes = Some ?buf"
      using store_at_next [of ?bytes n "o1 + br" buf] Suc.prems(5) n(2) by simp
    have nx: "int_range (int off + int n) = Some (int (off + n))"
    proof -
      have "off + n \<le> 2147483647" using Suc.prems(3) n(2) cs(3) by linarith
      then show ?thesis by (simp add: int_range_def)
    qed
    have step: "read_internal_loop kz drivers s d w c (int ?cs) (int off) (int tot) (int br) o1 buf =
      read_internal_loop kz drivers s2 d w c (int ?cs) (int (off + n)) (int (tot - n)) (int (br + n)) o1 ?buf"
    proof -
      have wcl: "word_of_int (uint cl) = cl" by simp
      have tn: "int tot - int n = int (tot - n)" using n(2) by (simp add: of_nat_diff)
      have pos0: "0 < int tot" "\<not> uint cl < 0" using False by simp_all
      show ?thesis
        unfolding read_internal_loop.simps [of kz drivers s] s1(1) Option.bind_lunit prod.case p(1) wcl pos(1) pos(2) sm r1 r2 mn s2(1) st nx tn
        using pos0 by simp
    qed
    have bytes: "?bytes = map (\<lambda>j. file_byte medium ss l0 h data c (off + j)) [0..<n]"
    proof (rule nth_equalityI)
      fix j assume "j < length ?bytes"
      then have j: "j < n" by simp
      then have jx: "off mod ?cs + j < ?cs" using n(3) by linarith
      have off: "off + j = off div ?cs * ?cs + (off mod ?cs + j)" by (metis add.assoc div_mult_mod_eq)
      have "(off + j) div ?cs = off div ?cs" "(off + j) mod ?cs = off mod ?cs + j"
        using jx cs0 unfolding off by (metis add.commute add_0 div_less div_mult_self3 less_numeral_extra(3), metis mod_less mod_mult_self3)
      then show "?bytes ! j = map (\<lambda>j. file_byte medium ss l0 h data c (off + j)) [0..<n] ! j"
        using j s1(3) by (simp add: file_byte_def Let_def add.assoc)
    qed simp
    have next_cluster: "(off + n) mod ?cs = 0 \<and> off mod ?cs + n = ?cs" if "n < tot"
    proof -
      have "n = ?cs - off mod ?cs" using that by (auto simp: n_def min_def split: if_splits)
      then have "off mod ?cs + n = ?cs" using x by linarith
      moreover then have "off + n = off div ?cs * ?cs + ?cs" by (metis add.assoc div_mult_mod_eq)
      ultimately show ?thesis by simp
    qed
    have a1: "0 < tot - n \<longrightarrow> (off + n) mod ?cs + (tot - n) \<le> N * ?cs"
    proof
      assume "0 < tot - n"
      then have c: "(off + n) mod ?cs = 0" "off mod ?cs + n = ?cs" using next_cluster by simp_all
      have "off mod ?cs + tot \<le> ?cs + N * ?cs" using Suc.prems(2) False by simp
      then show "(off + n) mod ?cs + (tot - n) \<le> N * ?cs" using c n(2) by linarith
    qed
    have a2: "(off + n) + (tot - n) \<le> Suc M * ?cs" using Suc.prems(3) n(2) by simp
    have a3: "ss \<le> tot - n \<or> (off + n) mod ss + (tot - n) \<le> ss"
    proof (cases "n = tot")
      case True
      then show ?thesis using ss by (simp add: less_imp_le)
    next
      case False
      then have "(off + n) mod ?cs mod ss = 0" using next_cluster n(2) by simp
      moreover have "(off + n) mod ?cs mod ss = (off + n) mod ss" by (rule mod_mod_cancel) simp
      ultimately show ?thesis by linarith
    qed
    have a4: "o1 + (br + n) + (tot - n) \<le> length ?buf" using Suc.prems(5) n(2) by simp
    obtain s' where s': "read_internal_loop kz drivers s2 d w c (int ?cs) (int (off + n)) (int (tot - n)) (int (br + n)) o1 ?buf =
        Some (s', int (br + n + (tot - n)), take (o1 + (br + n)) ?buf @
          map (\<lambda>j. file_byte medium ss l0 h data c (off + n + j)) [0..<tot - n] @ drop (o1 + (br + n) + (tot - n)) ?buf)"
      "mounted drivers medium ss l0 lim d h root k s'"
      using Suc.IH [OF s2(2) a1 a2 a3 a4] by blast
    have b1: "take (o1 + (br + n)) ?buf = take (o1 + br) buf @ ?bytes" using Suc.prems(5) by simp
    have b2: "drop (o1 + (br + n) + (tot - n)) ?buf = drop (o1 + br + tot) buf"
      using Suc.prems(5) n(2) by (simp add: ac_simps)
    have b3: "?bytes @ map (\<lambda>j. file_byte medium ss l0 h data c (off + n + j)) [0..<tot - n] =
        map (\<lambda>j. file_byte medium ss l0 h data c (off + j)) [0..<tot]"
      using map_upt_shift [of "\<lambda>j. file_byte medium ss l0 h data c (off + j)" n "tot - n"] n(2)
      unfolding bytes by (simp add: add.assoc)
    have b4: "br + n + (tot - n) = br + tot" using n(2) by simp
    show ?thesis
      unfolding step s'(1) b1 b2 b4 append_assoc b3 [symmetric] using s'(2) by simp
  qed
qed

lemma read_internal_ok:
  assumes kz: "never_fails kz" and lim: "lim \<le> 2147483647" and E: "ending_sector_pos root = int data"
    and f: "file_clusters medium ss l0 lim h data c M"
    and cs: "0 < cluster_sectors h" "cluster_sectors h * ss \<le> lim" "Suc M * (cluster_sectors h * ss) \<le> 2147483647"
    and m: "mounted drivers medium ss l0 lim d h root (N * read_budget h M + k) s"
    and N: "off mod (cluster_sectors h * ss) + tot \<le> N * (cluster_sectors h * ss)"
    and tot: "off + tot \<le> Suc M * (cluster_sectors h * ss)" "ss \<le> tot \<or> off mod ss + tot \<le> ss" "o1 + tot \<le> length buf"
  shows "\<exists>s'. fat16_read_internal kz drivers s d (uint c) (int off) (int tot) o1 buf =
      Some (s', int tot, take o1 buf @ map (\<lambda>j. file_byte medium ss l0 h data c (off + j)) [0..<tot] @ drop (o1 + tot) buf) \<and>
      mounted drivers medium ss l0 lim d h root k s'"
proof -
  obtain p where p: "fs_private s d = Some p" "header p = h" using mounted_private [OF m] by blast
  have sz: "int_range (uint (sectors_per_cluster (primary_header h)) * disk_sector_size s d) = Some (int (cluster_sectors h * ss))"
    by (rule cluster_size_range [OF m cs(2) lim])
  have b: "o1 + 0 + tot \<le> length buf" using tot(3) by simp
  obtain s' where s': "read_internal_loop kz drivers s d Cluster_Stream c (int (cluster_sectors h * ss)) (int off) (int tot) (int 0) o1 buf =
      Some (s', int (0 + tot), take (o1 + 0) buf @ map (\<lambda>j. file_byte medium ss l0 h data c (off + j)) [0..<tot] @ drop (o1 + 0 + tot) buf)"
    "mounted drivers medium ss l0 lim d h root k s'"
    using read_internal_loop_ok [OF kz lim E f cs m impI [OF N] tot(1,2) b] by blast
  have w: "word_of_int (uint c) = c" by simp
  show ?thesis
    using s' unfolding fat16_read_internal_def fat16_read_internal_from_stream_def w p Option.bind_lunit sz by simp
qed

text \<open>
  A read of \<open>n\<close> blocks of \<open>sz\<close> bytes. Each block takes at most \<open>sz div cluster + 2\<close> rounds of the loop.
\<close>

definition block_rounds :: "fat_h \<Rightarrow> nat \<Rightarrow> nat \<Rightarrow> nat" where
  "block_rounds h ss sz = sz div (cluster_sectors h * ss) + 2"

lemma block_rounds_ok:
  assumes "0 < cluster_sectors h * ss"
  shows "off mod (cluster_sectors h * ss) + sz \<le> block_rounds h ss sz * (cluster_sectors h * ss)"
proof -
  let ?cs = "cluster_sectors h * ss"
  have "off mod ?cs < ?cs" "sz mod ?cs < ?cs" using assms by simp_all
  moreover have "sz = sz div ?cs * ?cs + sz mod ?cs" by (metis div_mult_mod_eq)
  moreover have "block_rounds h ss sz * ?cs = sz div ?cs * ?cs + ?cs + ?cs"
    unfolding block_rounds_def by (simp only: add_mult_distrib mult_2 add.assoc)
  ultimately show ?thesis by linarith
qed

lemma sint_small: "n < 2 ^ 31 \<Longrightarrow> sint (of_nat n :: u32) = int n"
  by (simp add: sint_uint unsigned_of_nat take_bit_nat_eq_self signed_take_bit_int_eq_self)

lemma read_loop_blocks:
  assumes kz: "never_fails kz" and lim: "lim \<le> 2147483647" and E: "ending_sector_pos root = int data"
    and f: "file_clusters medium ss l0 lim h data c M"
    and cs: "0 < cluster_sectors h" "cluster_sectors h * ss \<le> lim" "Suc M * (cluster_sectors h * ss) \<le> 2147483647"
    and item: "high_16_bits_first_cluster item = 0" "low_16_bits_first_cluster item = c"
  shows "mounted drivers medium ss l0 lim d h root (n * (block_rounds h ss sz * read_budget h M) + k) s \<Longrightarrow>
    off + n * sz \<le> Suc M * (cluster_sectors h * ss) \<Longrightarrow>
    (\<forall>i<n. ss \<le> sz \<or> (off + i * sz) mod ss + sz \<le> ss) \<Longrightarrow> o1 + n * sz \<le> length buf \<Longrightarrow>
    \<exists>s'. fat16_read_loop kz drivers s d item (of_nat sz) (int off) o1 buf n =
      Some (s', int (off + n * sz), 0, take o1 buf @ map (\<lambda>j. file_byte medium ss l0 h data c (off + j)) [0..<n * sz] @
              drop (o1 + n * sz) buf) \<and>
      mounted drivers medium ss l0 lim d h root k s'"
proof (induction n arbitrary: s off o1 buf)
  case 0
  then show ?case by simp
next
  case (Suc n)
  let ?cs = "cluster_sectors h * ss"
  have cs0: "0 < ?cs" using cs(1) Suc.prems(1) by (simp add: mounted_def)
  have m: "mounted drivers medium ss l0 lim d h root (block_rounds h ss sz * read_budget h M +
      (n * (block_rounds h ss sz * read_budget h M) + k)) s"
    using Suc.prems(1) by (simp add: add.assoc)
  have b: "off + sz \<le> Suc M * ?cs" "o1 + sz \<le> length buf" using Suc.prems(2,4) by simp_all
  have b3: "off + sz \<le> 2147483647" using b(1) cs(3) by (rule order_trans)
  have al: "ss \<le> sz \<or> off mod ss + sz \<le> ss" using Suc.prems(3) by (auto dest: spec [of _ 0])
  have first: "fat16_get_first_cluster item = Some (ucast c)"
    by (simp add: fat16_get_first_cluster_def item)
  have small: "sz < 2 ^ 31" "off + sz < 2 ^ 31"
    using b3 by simp_all
  have "unat c < 2 ^ 31" using unsigned_less [of c] by (rule less_trans) simp
  then have cl: "sint (ucast c :: u32) = uint c" using sint_small [of "unat c"] by simp
  have sz: "sint (of_nat sz :: u32) = int sz" "unat (of_nat sz :: u32) = sz"
    using sint_small [OF small(1)] small(1) by (simp_all add: unsigned_of_nat take_bit_nat_eq_self)
  let ?data = "map (\<lambda>j. file_byte medium ss l0 h data c (off + j)) [0..<sz]"
  let ?buf = "take o1 buf @ ?data @ drop (o1 + sz) buf"
  obtain s1 where s1: "fat16_read_internal kz drivers s d (uint c) (int off) (int sz) o1 buf = Some (s1, int sz, ?buf)"
    "mounted drivers medium ss l0 lim d h root (n * (block_rounds h ss sz * read_budget h M) + k) s1"
    using read_internal_ok [OF kz lim E f cs m block_rounds_ok [OF cs0] b(1) al b(2)] by blast
  have nx: "sint (word_of_int (int off) + of_nat sz :: u32) = int (off + sz)"
    using sint_small [OF small(2)] by simp
  have p1: "off + sz + n * sz \<le> Suc M * ?cs" "o1 + sz + n * sz \<le> length ?buf"
    using Suc.prems(2,4) by simp_all
  have p2: "\<forall>i<n. ss \<le> sz \<or> (off + sz + i * sz) mod ss + sz \<le> ss"
  proof (intro allI impI)
    fix i assume "i < n"
    then have "Suc i < Suc n" by simp
    then have "ss \<le> sz \<or> (off + Suc i * sz) mod ss + sz \<le> ss" using Suc.prems(3) by blast
    then show "ss \<le> sz \<or> (off + sz + i * sz) mod ss + sz \<le> ss" by (simp add: add.assoc)
  qed
  obtain s' where s': "fat16_read_loop kz drivers s1 d item (of_nat sz) (int (off + sz)) (o1 + sz) ?buf n =
      Some (s', int (off + sz + n * sz), 0, take (o1 + sz) ?buf @
        map (\<lambda>j. file_byte medium ss l0 h data c (off + sz + j)) [0..<n * sz] @ drop (o1 + sz + n * sz) ?buf)"
    "mounted drivers medium ss l0 lim d h root k s'"
    using Suc.IH [OF s1(2) p1(1) p2 p1(2)] by blast
  have b1: "take (o1 + sz) ?buf = take o1 buf @ ?data" using b(2) by simp
  have b2: "drop (o1 + sz + n * sz) ?buf = drop (o1 + Suc n * sz) buf" using b(2) by (simp add: ac_simps)
  have b4: "?data @ map (\<lambda>j. file_byte medium ss l0 h data c (off + sz + j)) [0..<n * sz] =
      map (\<lambda>j. file_byte medium ss l0 h data c (off + j)) [0..<Suc n * sz]"
    using map_upt_shift [of "\<lambda>j. file_byte medium ss l0 h data c (off + j)" sz "n * sz"] by (simp add: add.assoc)
  have "fat16_read_loop kz drivers s d item (of_nat sz) (int off) o1 buf (Suc n) =
    fat16_read_loop kz drivers s1 d item (of_nat sz) (int (off + sz)) (o1 + sz) ?buf n"
    unfolding fat16_read_loop.simps(2) first Option.bind_lunit cl sz s1(1) prod.case nx by simp
  then show ?case
    using s' unfolding s'(1) b1 b2 append_assoc b4 [symmetric] by (simp add: add.assoc)
qed

text \<open>
  C1. \<^bold>\<open>Reading a file.\<close> On a mounted volume, a file whose chain has at least \<open>M + 1\<close> data clusters, none of them
  number \<open>0xFF7\<close>, is read as the FAT describes it: from a position \<open>off\<close> on, \<open>n\<close> blocks of \<open>sz\<close> bytes
  within these clusters arrive in the buffer as the bytes of the clusters in chain order, nothing else of
  the buffer changes, the call returns \<open>n\<close>, and the position moves behind the last byte. Blocks that are
  shorter than a sector have to lie in one sector each: a shorter block across the border of two sectors is read wrongly and is not covered. The size of the file plays no part.
\<close>

theorem fat16_read_returns_file_bytes:
  assumes "never_fails kz"
    and "mounted drivers medium ss l0 lim d h root (n * (block_rounds h ss sz * read_budget h M) + k) s"
    and "lim \<le> 2147483647" "ending_sector_pos root = int data"
    and "file_clusters medium ss l0 lim h data c M"
    and "0 < cluster_sectors h" "cluster_sectors h * ss \<le> lim" "Suc M * (cluster_sectors h * ss) \<le> 2147483647"
    and "high_16_bits_first_cluster item = 0" "low_16_bits_first_cluster item = c"
    and "off + n * sz \<le> Suc M * (cluster_sectors h * ss)"
    and "\<forall>i<n. ss \<le> sz \<or> (off + i * sz) mod ss + sz \<le> ss" and "n * sz \<le> length buf" "n \<le> 2147483647"
  shows "\<exists>s'. fat16_read kz drivers s d \<lparr>desc_item = FAT_ITEM_TYPE_FILE (Some item), desc_pos = of_nat off\<rparr> (of_nat sz) (of_nat n) buf =
      Some (s', \<lparr>desc_item = FAT_ITEM_TYPE_FILE (Some item), desc_pos = of_nat (off + n * sz)\<rparr>, int n,
        map (\<lambda>j. file_byte medium ss l0 h data c (off + j)) [0..<n * sz] @ drop (n * sz) buf) \<and>
    mounted drivers medium ss l0 lim d h root k s'"
proof -
  have "off \<le> 2147483647" using assms(8,11) by linarith
  then have off: "sint (of_nat off :: u32) = int off" by (intro sint_small) simp
  have n: "unat (of_nat n :: u32) = n" "sint (of_nat n :: u32) = int n"
    using assms(14) sint_small [of n] by (simp_all add: unsigned_of_nat take_bit_nat_eq_self)
  have buf: "0 + n * sz \<le> length buf" using assms(13) by simp
  obtain s' where "fat16_read_loop kz drivers s d item (of_nat sz) (int off) 0 buf n =
      Some (s', int (off + n * sz), 0, take 0 buf @ map (\<lambda>j. file_byte medium ss l0 h data c (off + j)) [0..<n * sz] @
              drop (0 + n * sz) buf)" "mounted drivers medium ss l0 lim d h root k s'"
    using read_loop_blocks [OF assms(1,3,4,5,6,7,8,9,10,2,11,12) buf] by blast
  then show ?thesis by (simp add: fat16_read_def off n del: of_nat_mult of_nat_add)
qed

subsection \<open>A small volume\<close>

text \<open>
  A volume with sectors of 512 bytes: the header in sector 0, one FAT in sector 1, a root directory of 16
  items in sector 2 and clusters of one sector from sector 3 on. The directory holds a deleted item, the
  file \<open>A\<close> in clusters 2 and 3, and the file \<open>B\<close>. The FAT has \<open>0xFFF7\<close> for cluster 4 and \<open>0x0FF7\<close> for
  cluster 5.
\<close>

definition small_image :: "nat \<Rightarrow> u8" where
  "small_image p =
     (if p = 516 then 3 else if p = 518 \<or> p = 519 then 0xFF
      else if p = 520 \<or> p = 522 then 0xF7 else if p = 521 then 0xFF else if p = 523 then 0x0F
      else if p = 1024 then 0xE5
      else if p = 1056 then 65 else if 1057 \<le> p \<and> p < 1067 then 0x20 else if p = 1082 then 2
      else if p = 1088 then 66 else if 1089 \<le> p \<and> p < 1099 then 0x20
      else if 1536 \<le> p then of_nat p else 0)"

definition small_medium :: "nat \<Rightarrow> u8 list" where
  "small_medium n = map (\<lambda>j. small_image (n * 512 + j)) [0..<512]"

definition small_header :: fat_h where
  "small_header = decode_header ([0, 0, 0, 0, 0, 0, 0, 0, 0, 0, 0, 0, 2, 1, 1, 0, 1, 16, 0, 0, 0, 0, 1, 0] @
     replicate 14 0 @ [0x29] @ replicate 23 0)"

definition small_stream :: disk_stream where
  "small_stream = \<lparr>pos = 0, stream_sector_size = 512, stream_disk = 0\<rparr>"

definition small_disks :: "fat_directory \<Rightarrow> nat fat_disks" where
  "small_disks root = \<lparr>heap_state = 0, disk_vector = [\<lparr>disk_type = 0, sector_size = 512, disk_id = 0,
      filesystem = Some 0, driver = 0, hardware_disk = 0, disk_cache = Some empty_cache,
      starting_lba = 0, ending_lba = 0, driver_private = 0\<rparr>],
     primary_fs_disk = None, disk_driver_vec = [0],
     fs_private = (\<lambda>d. Some \<lparr>header = small_header, root_directory = root, cluster_read_stream = small_stream,
       fat_read_stream = small_stream, directory_stream = small_stream, fat_name = replicate 11 0\<rparr>)\<rparr>"

definition small_driver :: "nat fat_disks disk_driver" where
  "small_driver = \<lparr>driver_name = replicate 20 0, drv_loaded = None, drv_mount = None,
     drv_read = Some (\<lambda>s d lba n. (s, 0, small_medium (unat lba))),
     drv_mount_partition = (\<lambda>s d a b. (s, - EUNIMP, None))\<rparr>"

lemma small_volume_byte: "volume_byte small_medium 512 0 p = small_image p"
  by (simp add: volume_byte_def medium_byte_def small_medium_def)

lemma small_mounted:
  assumes "k < 2147483647"
  shows "mounted (\<lambda>_. small_driver) small_medium 512 0 100000 0 small_header root k (small_disks root)"
proof -
  have "readable (disk_vector (small_disks root) ! 0) 512 0 p n" if "p + n \<le> 100000" for p n
  proof -
    have "sector_ceiling 512 (p + n) \<le> 1000"
      using div_le_mono [of "p + n + 512 - 1" 100511 512] that by (simp add: sector_ceiling_def)
    then show ?thesis using that by (simp add: readable_def block_in_range_def small_disks_def)
  qed
  moreover have "stream_inv (\<lambda>_. small_driver) small_medium 512 0 0 k (small_disks root)"
    using assms by (auto simp: stream_inv_def small_disks_def serves_def small_driver_def small_medium_def)
      (simp_all add: empty_cache_def)
  moreover have "stream_of w \<lparr>header = a, root_directory = b, cluster_read_stream = c, fat_read_stream = c,
      directory_stream = c, fat_name = e\<rparr> = c" for w a b c e by (cases w) simp_all
  ultimately show ?thesis
    by (simp add: mounted_def) (simp add: small_disks_def small_stream_def)
qed

lemma small_header_simps [simp]:
  "cluster_sectors small_header = 1" "reserved_bytes small_header 512 = 512" "root_sector small_header = 2"
  "root_entries small_header = 16"
  by code_simp+

lemma small_entry: "fat_entry small_medium 512 0 small_header c =
    ucast (small_image (512 + 2 * unat c)) OR push_bit 8 (ucast (small_image (512 + 2 * unat c + 1)))"
  by (simp add: fat_entry_def le16_def small_volume_byte)

lemma small_chain: "fat_chain small_medium 512 0 small_header 2 0 = Some 2" "fat_chain small_medium 512 0 small_header 2 1 = Some 3"
  by (simp_all add: small_entry small_image_def linked_def)

lemma small_file: "file_clusters small_medium 512 0 100000 small_header 3 2 1"
proof -
  have "\<exists>cl. fat_chain small_medium 512 0 small_header 2 i = Some cl \<and> 2 \<le> cl \<and> 512 + 2 * unat cl + 2 \<le> 100000 \<and>
      cluster_start small_header 512 3 cl + 512 \<le> 100000" if "i \<le> 1" for i
    using that small_chain by (cases "i = 0") (auto simp: cluster_start_def le_Suc_eq simp del: fat_chain.simps)
  then show ?thesis by (auto simp: file_clusters_def)
qed

definition small_item :: fat_directory_item where
  "small_item = entry_at small_medium 512 0 1024 1"

lemma small_item_bytes: "volume_bytes small_medium 512 0 1056 32 =
    [65, 32, 32, 32, 32, 32, 32, 32, 32, 32, 32, 0, 0, 0, 0, 0, 0, 0, 0, 0, 0, 0, 0, 0, 0, 0, 2, 0, 0, 0, 0, 0]"
  by (simp add: volume_bytes_def small_volume_byte small_image_def upt_rec numeral_2_eq_2 [symmetric])

lemma small_item_cluster: "high_16_bits_first_cluster small_item = 0" "low_16_bits_first_cluster small_item = 2"
  unfolding small_item_def entry_at_def by (simp_all add: small_item_bytes) (code_simp)+

theorem fat16_read_returns_file_bytes_witness:
  "\<exists>s'. fat16_read (\<lambda>a n. (a, True)) (\<lambda>_. small_driver)
      (small_disks \<lparr>dir_item = None, dir_total = 0, sector_pos = 2, ending_sector_pos = 3\<rparr>) 0
      \<lparr>desc_item = FAT_ITEM_TYPE_FILE (Some small_item), desc_pos = 256\<rparr> 256 3 (replicate 800 0) =
      Some (s', \<lparr>desc_item = FAT_ITEM_TYPE_FILE (Some small_item), desc_pos = 1024\<rparr>, 3,
        map (\<lambda>j. of_nat (1792 + j)) [0..<768] @ replicate 32 0)"
proof -
  have b: "block_rounds small_header 512 256 = 2" "read_budget small_header 1 = 7"
    by (simp_all add: block_rounds_def read_budget_def)
  have bytes: "file_byte small_medium 512 0 small_header 3 2 (256 + j) = of_nat (1792 + j)" if "j < 768" for j
  proof (cases "j < 256")
    case True
    then have "(256 + j) div 512 = 0" "(256 + j) mod 512 = 256 + j" by simp_all
    then show ?thesis using small_chain True
      by (simp add: file_byte_def Let_def small_volume_byte cluster_start_def small_image_def del: fat_chain.simps)
  next
    case False
    then have "(256 + j) div 512 = 1" "(256 + j) mod 512 = j - 256" using that by (auto simp: div_nat_eqI mod_if)
    then show ?thesis using small_chain False
      by (simp add: file_byte_def Let_def small_volume_byte cluster_start_def small_image_def del: fat_chain.simps)
  qed
  let ?root = "\<lparr>dir_item = None, dir_total = 0, sector_pos = 2, ending_sector_pos = 3\<rparr>"
  have m: "mounted (\<lambda>_. small_driver) small_medium 512 0 100000 0 small_header ?root
      (3 * (block_rounds small_header 512 256 * read_budget small_header 1) + 0) (small_disks ?root)"
    by (rule small_mounted) (simp add: b [unfolded One_nat_def])
  have al: "\<forall>i<3::nat. 512 \<le> (256 :: nat) \<or> (256 + i * 256) mod 512 + 256 \<le> (512 :: nat)"
  proof (intro allI impI disjI2)
    fix i :: nat assume "i < 3"
    then have "i = 0 \<or> i = 1 \<or> i = 2" by auto
    then show "(256 + i * 256) mod 512 + 256 \<le> 512" by auto
  qed
  obtain s' where s': "fat16_read (\<lambda>a n. (a, True)) (\<lambda>_. small_driver) (small_disks ?root) 0
      \<lparr>desc_item = FAT_ITEM_TYPE_FILE (Some small_item), desc_pos = of_nat 256\<rparr> (of_nat 256) (of_nat 3) (replicate 800 0) =
      Some (s', \<lparr>desc_item = FAT_ITEM_TYPE_FILE (Some small_item), desc_pos = of_nat (256 + 3 * 256)\<rparr>, int 3,
        map (\<lambda>j. file_byte small_medium 512 0 small_header 3 2 (256 + j)) [0..<3 * 256] @ drop (3 * 256) (replicate 800 0))"
    using fat16_read_returns_file_bytes [OF _ m _ _ small_file _ _ _ small_item_cluster _ al, where buf = "replicate 800 0" and kz = "\<lambda>a n. (a, True)"]
    by (auto simp: never_fails_def)
  have "map (\<lambda>j. file_byte small_medium 512 0 small_header 3 2 (256 + j)) [0..<768] = map (\<lambda>j. of_nat (1792 + j)) [0..<768]"
    by (rule map_cong [OF refl], rule bytes) simp
  then show ?thesis using s' by (intro exI [of _ s']) simp
qed

subsection \<open>Directories and paths\<close>

text \<open>
  C39. \<^bold>\<open>The scan of a directory.\<close> It ends when the directory has an item with a zero first byte within reach,
  and counts the items before it that are not deleted.
\<close>

theorem fat16_directory_scan_terminates:
  assumes "never_fails kz" "mounted drivers medium ss l0 lim d h root (3 * Suc n + k) s"
    and "sector * ss + 32 * Suc n \<le> lim" "lim \<le> 2147483647" "ends_at medium ss l0 (sector * ss) n"
  shows "\<exists>s'. fat16_get_total_items_for_directory kz drivers s d (of_nat sector) =
      Some (s', int (card {j. j < n \<and> first_byte medium ss l0 (sector * ss) j \<noteq> 0xE5}))"
proof -
  have "used_items medium ss l0 (sector * ss) n = card {j. j < n \<and> first_byte medium ss l0 (sector * ss) j \<noteq> 0xE5}"
    unfolding used_items_def
    by (subst distinct_card [symmetric]) (auto intro: arg_cong [where f = card])
  then show ?thesis using get_total_items_ok [OF assms] by auto
qed

lemma small_ends: "ends_at small_medium 512 0 1024 3"
proof -
  have "first_byte small_medium 512 0 1024 j \<noteq> 0" if "j < 3" for j
  proof -
    have "j = 0 \<or> j = 1 \<or> j = 2" using that by auto
    then show ?thesis by (auto simp: first_byte_def small_volume_byte small_image_def)
  qed
  then show ?thesis by (simp add: ends_at_def first_byte_def small_volume_byte small_image_def)
qed

theorem fat16_directory_scan_terminates_witness:
  "\<exists>s'. fat16_get_total_items_for_directory (\<lambda>a n. (a, True)) (\<lambda>_. small_driver)
      (small_disks \<lparr>dir_item = None, dir_total = 0, sector_pos = 2, ending_sector_pos = 3\<rparr>) 0 2 = Some (s', 2)"
proof -
  have "{j. j < 3 \<and> first_byte small_medium 512 0 1024 j \<noteq> 0xE5} = {1, 2}"
  proof -
    have "j < 3 \<longleftrightarrow> j = 0 \<or> j = 1 \<or> j = 2" for j :: nat by auto
    then show ?thesis by (auto simp: first_byte_def small_volume_byte small_image_def)
  qed
  then show ?thesis
    using fat16_directory_scan_terminates [OF _ small_mounted, where sector = 2 and n = 3 and kz = "\<lambda>a n. (a, True)" and k = 0
        and root = "\<lparr>dir_item = None, dir_total = 0, sector_pos = 2, ending_sector_pos = 3\<rparr>"] small_ends
    by (simp add: never_fails_def)
qed

text \<open>
  C38. \<^bold>\<open>Opening a file of the root directory.\<close> For a path of one name, of at most 107 characters, which no directory among the first \<open>total\<close> items has, and while memory
  can be allocated, \<open>open\<close> for reading gives the last of these items whose 8.3 name is that name, upper and lower case aside, and the error
  \<open>EIO\<close> when there is none. Directories of other names may be among them.
\<close>

theorem fat16_open_finds_last_match:
  assumes "never_fails kz" "fs_private s d = Some p" "dir_item (root_directory p) = Some items"
    and "dir_total (root_directory p) = int n" "n \<le> length items" "\<forall>j<n. file_if_named name (items ! j)"
    and "terminated name" "length (cstr name) \<le> 107"
  shows "\<exists>a. fat16_open kz drivers s d [name] FILE_MODE_READ = Some (s\<lparr>heap_state := a\<rparr>,
    case find (named name) (rev (take n items)) of
      None \<Rightarrow> Inl (- EIO)
    | Some item \<Rightarrow> Inr \<lparr>desc_item = FAT_ITEM_TYPE_FILE (Some item), desc_pos = 0\<rparr>)"
  by (rule open_files [OF assms])

definition small_items :: "fat_directory_item list" where
  "small_items = map (entry_at small_medium 512 0 1024) [0..<16]"

lemma small_items_nth:
  assumes "j < 16"
  shows "small_items ! j = decode_item (map (\<lambda>i. small_image (1024 + 32 * j + i)) [0..<32])"
  using assms by (simp add: small_items_def entry_at_def volume_bytes_def small_volume_byte)

lemma small_regular: "j < 16 \<Longrightarrow> regular (small_items ! j)"
  by (simp add: small_items_nth regular_def item_ok_def decode_item_def)
    (auto simp: small_image_def)

lemma small_names: "short_name (small_items ! 1) = [65]" "short_name (small_items ! 2) = [66]"
  "short_name (small_items ! 0) = [0xE5]"
  by (simp_all add: small_items_nth short_name_def decode_item_def name_field_def small_image_def upt_rec)

lemma small_named: "named [97, 0] (small_items ! 1)" "named [98, 0] (small_items ! 2)"
  "\<not> named [98, 0] (small_items ! 0)" "\<not> named [98, 0] (small_items ! 1)" "\<not> named [97, 0] (small_items ! 0)"
  unfolding named_def small_names by code_simp+

lemma take_2: "2 \<le> length xs \<Longrightarrow> take 2 xs = [xs ! 0, xs ! 1]"
  by (cases xs; cases "tl xs") auto

text \<open>A directory \<open>B\<close> in front of the items.\<close>

definition mixed_items :: "fat_directory_item list" where
  "mixed_items = (small_items ! 2)\<lparr>attribute := FAT_FILE_SUBDIRECTORY\<rparr> # small_items"

theorem fat16_open_finds_last_match_witness:
  "\<exists>a. fat16_open (\<lambda>a n. (a, True)) (\<lambda>_. small_driver)
      (small_disks \<lparr>dir_item = Some mixed_items, dir_total = 3, sector_pos = 2, ending_sector_pos = 3\<rparr>) 0 [[97, 0]] FILE_MODE_READ =
    Some (small_disks \<lparr>dir_item = Some mixed_items, dir_total = 3, sector_pos = 2, ending_sector_pos = 3\<rparr>\<lparr>heap_state := a\<rparr>,
      Inr \<lparr>desc_item = FAT_ITEM_TYPE_FILE (Some (small_items ! 1)), desc_pos = 0\<rparr>)"
proof -
  let ?root = "\<lparr>dir_item = Some mixed_items, dir_total = 3, sector_pos = 2, ending_sector_pos = 3\<rparr>"
  obtain p where p: "fs_private (small_disks ?root) 0 = Some p" "root_directory p = ?root" by (simp add: small_disks_def)
  have l: "length small_items = 16" by (simp add: small_items_def)
  then have "take 3 mixed_items = [mixed_items ! 0, small_items ! 0, small_items ! 1]"
    by (simp add: mixed_items_def take_2 numeral_3_eq_3 [symmetric] take_Cons')
  then have f: "find (named [97, 0]) (rev (take 3 mixed_items)) = Some (small_items ! 1)"
    using small_named(1) by (simp only: rev.simps append.simps find.simps if_True)
  have m: "file_if_named [97, 0] (mixed_items ! j)" if "j < 3" for j
  proof (cases j)
    case 0
    have it: "item_ok (small_items ! 2)" using small_regular [of 2] by (simp add: regular_def)
    have sn: "short_name (mixed_items ! 0) = [66]" using small_names(2) unfolding short_name_def by (simp add: mixed_items_def split: if_splits)
    have "\<not> named [97, 0] (mixed_items ! 0)" unfolding named_def sn by code_simp
    with it show ?thesis using 0 by (simp add: file_if_named_def item_ok_def mixed_items_def)
  next
    case (Suc i)
    then show ?thesis using that small_regular [of i] by (simp add: mixed_items_def regular_file_if_named)
  qed
  have n: "3 \<le> length mixed_items" using l by (simp add: mixed_items_def)
  show ?thesis
    using fat16_open_finds_last_match [of "\<lambda>a n. (a, True)" "small_disks ?root" 0 p mixed_items 3 "[97, 0]" "\<lambda>_. small_driver"] p
    by (simp add: never_fails_def n m terminated_def f)
qed

text \<open>
  \<^bold>\<open>Deleted items hide files.\<close> Loading the root directory counts the items that are not deleted, and the
  look-up compares that many items from the first on, deleted ones included. A file at a position not
  below the count is not found, although the directory holds it.
\<close>

theorem deleted_items_hide_files:
  assumes "never_fails kz"
    and "mounted drivers medium ss l0 lim d h root (3 * Suc n + (32 * root_entries h div ss + 3 + k)) s"
    and "ends_at medium ss l0 (root_sector h * ss) n" "n \<le> root_entries h"
    and "root_sector h * ss + 32 * Suc n \<le> lim" "root_sector h * ss + 32 * root_entries h \<le> lim" "lim \<le> 2147483647"
    and "\<forall>j<n. regular (entry_at medium ss l0 (root_sector h * ss) j)"
    and "terminated name" "length (cstr name) \<le> 107"
    and "\<forall>j < card {j. j < n \<and> first_byte medium ss l0 (root_sector h * ss) j \<noteq> 0xE5}.
           \<not> named name (entry_at medium ss l0 (root_sector h * ss) j)"
  shows "\<exists>s1 s2. fat16_get_root_directory kz drivers s d = Some (s1, 0) \<and>
    fat16_open kz drivers s1 d [name] FILE_MODE_READ = Some (s2, Inl (- EIO))"
proof -
  let ?u = "used_items medium ss l0 (root_sector h * ss) n"
  let ?items = "map (entry_at medium ss l0 (root_sector h * ss)) [0..<root_entries h]"
  have u: "?u = card {j. j < n \<and> first_byte medium ss l0 (root_sector h * ss) j \<noteq> 0xE5}"
    unfolding used_items_def
    by (subst distinct_card [symmetric]) (auto intro: arg_cong [where f = card])
  obtain s1 where s1: "fat16_get_root_directory kz drivers s d = Some (s1, 0)"
    "mounted drivers medium ss l0 lim d h (root_loaded medium ss l0 h n) k s1"
    using get_root_directory_ok [OF assms(1,2,3,5,6,7)] by blast
  obtain p where p: "fs_private s1 d = Some p" "root_directory p = root_loaded medium ss l0 h n"
    using mounted_private [OF s1(2)] by blast
  have i: "dir_item (root_directory p) = Some ?items" "dir_total (root_directory p) = int ?u"
    by (simp_all add: p(2) root_loaded_def)
  have un: "?u \<le> n" by (rule used_items_le)
  then have l: "?u \<le> length ?items" using assms(4) by simp
  have r: "\<forall>j<?u. file_if_named name (?items ! j)" using assms(8) un l by (simp add: regular_file_if_named)
  have "find (named name) (rev (take ?u ?items)) = None"
    unfolding find_None_iff in_set_conv_nth set_rev using assms(11) l by (auto simp: u)
  then show ?thesis using open_files [OF assms(1) p(1) i l r assms(9,10), of drivers] s1(1) by auto
qed

theorem deleted_items_hide_files_witness:
  "\<exists>s1 s2. fat16_get_root_directory (\<lambda>a n. (a, True)) (\<lambda>_. small_driver)
      (small_disks \<lparr>dir_item = None, dir_total = 0, sector_pos = 0, ending_sector_pos = 0\<rparr>) 0 = Some (s1, 0) \<and>
    fat16_open (\<lambda>a n. (a, True)) (\<lambda>_. small_driver) s1 0 [[98, 0]] FILE_MODE_READ = Some (s2, Inl (- EIO))"
proof -
  have c: "{j. j < 3 \<and> first_byte small_medium 512 0 1024 j \<noteq> 0xE5} = {1, 2}"
  proof -
    have "j < 3 \<longleftrightarrow> j = 0 \<or> j = 1 \<or> j = 2" for j :: nat by auto
    then show ?thesis by (auto simp: first_byte_def small_volume_byte small_image_def)
  qed
  have e: "entry_at small_medium 512 0 1024 j = small_items ! j" if "j < 16" for j using that by (simp add: small_items_def)
  have "\<not> named [98, 0] (small_items ! j)" if "j < 2" for j
  proof -
    have "j = 0 \<or> j = 1" using that by auto
    then show ?thesis using small_named by auto
  qed
  then show ?thesis
    using deleted_items_hide_files [OF _ small_mounted, where n = 3 and k = 0 and kz = "\<lambda>a n. (a, True)" and name = "[98, 0]"
        and root = "\<lparr>dir_item = None, dir_total = 0, sector_pos = 0, ending_sector_pos = 0\<rparr>"] small_ends small_regular
    by (simp add: never_fails_def c e terminated_def)
qed

text \<open>
  \<^bold>\<open>The mark of a bad cluster.\<close> FAT16 marks a bad cluster with \<open>0xFFF7\<close>, and \<open>0x0FF7\<close> is the number of a
  cluster. Following a chain, the code takes the mark for a cluster and that cluster for the mark.
\<close>

theorem fat16_bad_cluster_mark:
  assumes "never_fails kz" "mounted drivers medium ss l0 lim d h root (3 + k) s"
    and "reserved_bytes h ss + 2 * unat c + 2 \<le> lim" "lim \<le> 2147483647"
    and "fat_entry medium ss l0 h c \<in> {0xFFF7, 0x0FF7}"
    and "0 < cluster_sectors h" "cluster_sectors h * ss \<le> lim"
  shows "\<exists>s'. fat16_get_cluster_for_offset kz drivers s d c (int (cluster_sectors h * ss)) =
    Some (s', if fat_entry medium ss l0 h c = 0xFFF7 then 0xFFF7 else - EIO)"
proof -
  let ?cs = "cluster_sectors h * ss"
  obtain p where p: "fs_private s d = Some p" "header p = h" using mounted_private [OF assms(2)] by blast
  have "0 < ss" using assms(2) by (simp add: mounted_def)
  then have cs0: "0 < ?cs" using assms(6) by simp
  have sz: "int_range (uint (sectors_per_cluster (primary_header h)) * disk_sector_size s d) = Some (int ?cs)"
    by (rule cluster_size_range [OF assms(2,7,4)])
  have n: "nat (int ?cs sdiv int ?cs) = Suc 0" using cs0 by (simp add: sdiv_pos del: of_nat_mult)
  obtain s1 where "fat16_get_fat_entry kz drivers s d (uint c) = Some (s1, uint (fat_entry medium ss l0 h c))"
    using get_fat_entry_ok [OF assms(1,2,3,4)] by blast
  then show ?thesis
    using assms(5) cs0 unfolding fat16_get_cluster_for_offset_def p Option.bind_lunit sz n
    by (auto simp: Let_def simp del: of_nat_mult)
qed

theorem fat16_bad_cluster_mark_witness:
  "\<exists>s'. fat16_get_cluster_for_offset (\<lambda>a n. (a, True)) (\<lambda>_. small_driver)
      (small_disks \<lparr>dir_item = None, dir_total = 0, sector_pos = 0, ending_sector_pos = 0\<rparr>) 0 5 512 = Some (s', - EIO)"
proof -
  have "fat_entry small_medium 512 0 small_header 5 = 0x0FF7" by (simp add: small_entry small_image_def)
  then show ?thesis
    using fat16_bad_cluster_mark [OF _ small_mounted, where k = 0 and c = 5 and kz = "\<lambda>a n. (a, True)"
        and root = "\<lparr>dir_item = None, dir_total = 0, sector_pos = 0, ending_sector_pos = 0\<rparr>"]
    by (simp add: never_fails_def)
qed

text \<open>
  \<^bold>\<open>Opening a file that is not there.\<close> When the path names a file the root directory does not have, \<open>fopen\<close>
  does not return: its error path closes the error pointer, and \<open>fat16_close\<close> reads the item through it.
\<close>

theorem fopen_missing_file_faults:
  assumes "never_fails kz" "fs = (\<lambda>f. fat16_fs kz drivers f)"
    and "pathparser_parse kz (heap_state (disks s))
      (map_option (\<lambda>d. disk_id (disk_vector (disks s) ! d)) (disk_primary_fs_disk (disks s))) path =
        Some (a1, Some \<lparr>drive_no = drive, parts = [name]\<rparr>)"
    and "disk_get (disks s) drive = Some d" "filesystem (disk_vector (disks s) ! d) = Some f"
    and "file_get_mode_by_string mode = Some FILE_MODE_READ"
    and "fs_private (disks s) d = Some p" "dir_item (root_directory p) = Some items"
    and "dir_total (root_directory p) = int n" "n \<le> length items" "\<forall>j<n. item_ok (items ! j) \<and> \<not> named name (items ! j)"
    and "terminated name" "length (cstr name) \<le> 107"
  shows "fopen kz fs s path mode = None"
proof -
  let ?s = "(disks s)\<lparr>heap_state := a1\<rparr>"
  have p: "fs_private ?s d = Some p" using assms(7) by simp
  have r: "\<forall>j<n. file_if_named name (items ! j)" using assms(11) by (simp add: file_if_named_def)
  have "find (named name) (rev (take n items)) = None"
    unfolding find_None_iff in_set_conv_nth set_rev using assms(10,11) by auto
  then obtain d2 where "fat16_open kz drivers ?s d [name] FILE_MODE_READ = Some (d2, Inl (- EIO))"
    using open_files [OF assms(1) p assms(8,9,10) r assms(12,13), of drivers] by auto
  then show ?thesis
    using fopen_failed_open_faults [OF assms(3) _ _ assms(5,6)] assms(2,4) by (simp add: fat16_fs_def)
qed

theorem fopen_missing_file_faults_witness:
  "fopen (\<lambda>a n. (a, True)) (fat16_fs (\<lambda>a n. (a, True)) (\<lambda>_. small_driver))
    \<lparr>disks = small_disks \<lparr>dir_item = Some small_items, dir_total = 0, sector_pos = 2, ending_sector_pos = 3\<rparr>,
     filesystems = Some 0 # replicate 11 None, file_descriptors = replicate 512 None\<rparr>
    [48, 58, 47, 97, 0] [114, 0] = None"
  by (rule fopen_missing_file_faults [where drivers = "\<lambda>_. small_driver" and ?a1.0 = 0 and drive = 0 and d = 0 and f = 0
        and name = "part_buffer [97]" and n = 0 and items = small_items])
    (auto simp: never_fails_def byte_path byte_mode small_disks_def disk_get_def part_buffer_def terminated_def cstr_def)

end
