(* ===== verification/TypedVector.thy ===== *)
theory TypedVector
  imports Vector
begin

section \<open>Vectors of structures\<close>

text \<open>
  The vectors of the task and process code hold structures that the model does not place in byte
  memory. Such a vector is the header \<open>struct vector\<close> of \<open>lib/vector/vector.c\<close>, with the addresses and the
  counts, beside the list of its elements. The operations below are those of Vector with the
  copies of the elements' bytes replaced by the update of the list: they grow through the same
  \<open>vector_resize\<close> over the kernel's \<open>krealloc\<close>, test the same bounds and return the same codes.

  A vector that is a null pointer is \<open>None\<close> where it is stored, and so is the result of reading elements
  through the null \<open>memory\<close> that a failed resize leaves behind.
\<close>

record 'a tvec =
  tv_header :: vector
  tv_items :: "'a list"

definition tvec_new :: "'s kernel_scheme \<Rightarrow> u64 \<Rightarrow> u64 \<Rightarrow> ('s kernel_scheme \<times> 'a tvec option) option" where
  "tvec_new s element_size reserved = do {
     (s', v) \<leftarrow> vector_new kpzalloc s element_size reserved 0;
     Some (s', map_option (\<lambda>(_, h). \<lparr>tv_header = h, tv_items = []\<rparr>) v)
   }"

definition tvec_items :: "'a tvec \<Rightarrow> 'a list option" where
  "tvec_items v = (if vmemory (tv_header v) = 0 \<and> tv_items v \<noteq> [] then None else Some (tv_items v))"

text \<open>The error code of \<open>vector_at\<close>, or the element.\<close>

definition tvec_at :: "'a tvec \<Rightarrow> u64 \<Rightarrow> (int + 'a) option" where
  "tvec_at v i =
     (if vector_valid_bounds (tv_header v) i < 0 then Some (Inl (- EINVARG))
      else do { xs \<leftarrow> tvec_items v; if unat i < length xs then Some (Inr (xs ! unat i)) else None })"

text \<open>The index of \<open>vector_overwrite\<close> is an \<open>int\<close>.\<close>

definition tvec_overwrite :: "'a tvec \<Rightarrow> int \<Rightarrow> 'a \<Rightarrow> ('a tvec \<times> int) option" where
  "tvec_overwrite v i x =
     (if vector_valid_bounds (tv_header v) (size_of_int i) < 0 then Some (v, - EINVARG)
      else do { xs \<leftarrow> tvec_items v; Some (v\<lparr>tv_items := xs[unat (size_of_int i) := x]\<rparr>, 0) })"

definition tvec_push :: "'s kernel_scheme \<Rightarrow> 'a tvec \<Rightarrow> 'a \<Rightarrow> ('s kernel_scheme \<times> 'a tvec \<times> int) option" where
  "tvec_push s v x = do {
     (s1, h, res) \<leftarrow> vector_resize krealloc s (tv_header v) 1;
     if res < 0 then Some (s1, v\<lparr>tv_header := h\<rparr>, res)
     else Some (s1, \<lparr>tv_header = h\<lparr>t_elems := t_elems h + 1\<rparr>, tv_items = tv_items v @ [x]\<rparr>, int_of_size (t_elems h))
   }"

text \<open>Growing adds \<open>n\<close> elements with what the memory holds there, \<open>junk\<close>.\<close>

definition tvec_grow ::
  "'s kernel_scheme \<Rightarrow> 'a tvec \<Rightarrow> u64 \<Rightarrow> (nat \<Rightarrow> 'a) \<Rightarrow> ('s kernel_scheme \<times> 'a tvec \<times> int) option" where
  "tvec_grow s v n junk = do {
     (s1, h, res) \<leftarrow> vector_grow krealloc s (tv_header v) n;
     Some (s1, \<lparr>tv_header = h, tv_items = (if res < 0 then tv_items v else tv_items v @ map junk [0..<unat n])\<rparr>, res)
   }"

text \<open>The element is searched by its bytes; on typed elements that is equality.\<close>

definition tvec_pop_element :: "'s kernel_scheme \<Rightarrow> 'a tvec \<Rightarrow> 'a \<Rightarrow> ('s kernel_scheme \<times> 'a tvec \<times> int) option" where
  "tvec_pop_element s v x = do {
     (s1, tmp_mem) \<leftarrow> kzalloc s (e_size (tv_header v));
     if tmp_mem = 0 then Some (s1, v, - ENOMEM)
     else do {
       xs \<leftarrow> tvec_items v;
       if x \<notin> set xs then Some (s1, v, - EIO)
       else Some (s1, \<lparr>tv_header = (tv_header v)\<lparr>t_elems := t_elems (tv_header v) - 1\<rparr>, tv_items = remove1 x xs\<rparr>, 0)
     }
   }"

definition tvec_pop :: "'a tvec \<Rightarrow> 'a tvec \<times> int" where
  "tvec_pop v =
     (if t_elems (tv_header v) = 0 then (v, - EIO)
      else (\<lparr>tv_header = (tv_header v)\<lparr>t_elems := t_elems (tv_header v) - 1\<rparr>, tv_items = butlast (tv_items v)\<rparr>, 0))"

definition tvec_back :: "'a tvec \<Rightarrow> (int + 'a) option" where
  "tvec_back v = tvec_at v (t_elems (tv_header v) - 1)"

text \<open>
  \<open>vector_reorder\<close> is bubble sort; without memory for the two temporaries it returns as it came. Past \<open>2 ^ 31\<close>
  elements the index no longer fits the \<open>int\<close> of \<open>vector_overwrite\<close>, and the result is \<open>None\<close> here: \<open>vector_reorder\<close> of
  Vector follows the code there.
\<close>

definition tvec_reorder :: "'s kernel_scheme \<Rightarrow> 'a tvec \<Rightarrow> ('a \<Rightarrow> 'a \<Rightarrow> int) \<Rightarrow> ('s kernel_scheme \<times> 'a tvec) option" where
  "tvec_reorder s v reorder_function =
     (if t_elems (tv_header v) < 2 then Some (s, v)
      else if 2 ^ 31 < t_elems (tv_header v) then None
      else do {
        (s1, elem1) \<leftarrow> kzalloc s (e_size (tv_header v));
        (s2, elem2) \<leftarrow> kzalloc s1 (e_size (tv_header v));
        if elem1 = 0 \<or> elem2 = 0 then Some (s2, v)
        else do { xs \<leftarrow> tvec_items v; Some (s2, v\<lparr>tv_items := bubble_sort reorder_function xs\<rparr>) }
      })"

text \<open>The list has as many elements as the header says, and there is memory for them.\<close>

definition tvec_ok :: "'a tvec \<Rightarrow> bool" where
  "tvec_ok v \<longleftrightarrow> length (tv_items v) = unat (t_elems (tv_header v)) \<and> (tv_items v = [] \<or> vmemory (tv_header v) \<noteq> 0)"

lemma tvec_ok_items: "tvec_ok v \<Longrightarrow> tvec_items v = Some (tv_items v)"
  by (auto simp: tvec_ok_def tvec_items_def)

lemma tvec_at_ok: "tvec_ok v \<Longrightarrow> i < length (tv_items v) \<Longrightarrow> i < 2 ^ 64 \<Longrightarrow> tvec_at v (of_nat i) = Some (Inr (tv_items v ! i))"
  by (simp add: tvec_at_def tvec_ok_items vector_valid_bounds_def tvec_ok_def word_less_nat_alt)

lemma tvec_at_beyond: "tvec_ok v \<Longrightarrow> length (tv_items v) \<le> unat i \<Longrightarrow> tvec_at v i = Some (Inl (- EINVARG))"
  by (simp add: tvec_at_def vector_valid_bounds_def tvec_ok_def word_less_nat_alt not_less)

lemma tvec_overwrite_ok:
  assumes "tvec_ok v" "i < length (tv_items v)" "i < 2 ^ 64"
  shows "tvec_overwrite v (int i) x = Some (v\<lparr>tv_items := (tv_items v)[i := x]\<rparr>, 0)" "tvec_ok (v\<lparr>tv_items := (tv_items v)[i := x]\<rparr>)"
  using assms by (auto simp: tvec_overwrite_def tvec_ok_items vector_valid_bounds_def tvec_ok_def word_less_nat_alt size_of_int_def)

end
