(* ===== verification/Task.thy ===== *)
theory Task
  imports TypedVector CString
begin

section \<open>Tasks: task.c\<close>

text \<open>
  The doubly linked list of tasks of \<open>task/task.c\<close>, the choice of the next task and the switch to
  it. The tasks and the processes live in stores by their addresses, apart from the byte memory;
  \<open>0\<close> is the null pointer, and reading through it is \<open>None\<close>. The clock is a parameter: \<open>now i\<close> is what the
  \<open>i\<close>-th reading of the time stamp counter within a call gives, in microseconds.
\<close>

abbreviation (input) PEACHOS_PROGRAM_VIRTUAL_ADDRESS :: u64 where "PEACHOS_PROGRAM_VIRTUAL_ADDRESS \<equiv> 0x400000"
abbreviation (input) PEACHOS_USER_PROGRAM_STACK_SIZE :: u64 where "PEACHOS_USER_PROGRAM_STACK_SIZE \<equiv> 16384"
abbreviation (input) PEACHOS_PROGRAM_VIRTUAL_STACK_ADDRESS_START :: u64 where
  "PEACHOS_PROGRAM_VIRTUAL_STACK_ADDRESS_START \<equiv> 0x3FF000"
abbreviation (input) PEACHOS_PROGRAM_VIRTUAL_STACK_ADDRESS_END :: u64 where
  "PEACHOS_PROGRAM_VIRTUAL_STACK_ADDRESS_END \<equiv> 0x3FF000 - 16384"
abbreviation (input) USER_DATA_SEGMENT :: u64 where "USER_DATA_SEGMENT \<equiv> 0x33"
abbreviation (input) USER_CODE_SEGMENT :: u64 where "USER_CODE_SEGMENT \<equiv> 0x2B"
abbreviation (input) PROCESS_FILETYPE_ELF :: u8 where "PROCESS_FILETYPE_ELF \<equiv> 0"
abbreviation (input) PROCESS_FILETYPE_BINARY :: u8 where "PROCESS_FILETYPE_BINARY \<equiv> 1"

subsection \<open>Structures\<close>

record registers =
  rdi :: u64
  rsi :: u64
  rbp :: u64
  rbx :: u64
  rdx :: u64
  rcx :: u64
  rax :: u64
  ip :: u64
  cs :: u64
  flags :: u64
  rsp :: u64
  ss :: u64

record task =
  registers :: registers
  task_process :: u64
  sleep_until_microseconds :: u64
  next_task :: u64
  prev_task :: u64

record process_allocation =
  alloc_ptr :: u64
  alloc_end :: u64
  alloc_size :: u64

record process_file_handle =
  handle_fd :: int
  file_path :: "u8 list"
  mode :: "u8 list"

record process_window =
  user_win :: u64
  kernel_win :: u64

record keyboard_buffer =
  key_buffer :: "u8 list"
  key_tail :: int
  key_head :: int

text \<open>
  An event of a window. The union of the data is two integers: the position of a click or a move, or a key
  in the first one.
\<close>

record window_event =
  event_type :: int
  win_id :: int
  event_window :: u64
  data_x :: int
  data_y :: int

text \<open>
  A process. Its vectors hold allocations, pointers to \<open>struct userland_ptr\<close>, to file handles and to windows,
  and the events of its windows. \<open>program\<close> is the union of the data pointer and the pointer to the ELF file.
\<close>

record process =
  process_id :: u16
  filename :: "u8 list"
  process_task :: u64
  process_paging_desc :: "paging_desc option"
  allocations :: "process_allocation tvec option"
  kernel_userland_ptrs :: "u64 tvec option"
  file_handles :: "u64 tvec option"
  filetype :: u8
  program :: u64
  stack :: u64
  process_size :: u32
  keyboard :: keyboard_buffer
  windows :: "u64 tvec option"
  window_events :: "window_event tvec option"
  event_index :: u64
  total_unpopped :: u64
  argc :: int
  argv :: u64
  sysout_win :: u64

record ktask = kernel +
  tasks :: "u64 \<Rightarrow> task"
  current_task :: u64
  task_tail :: u64
  task_head :: u64
  processes :: "u64 \<Rightarrow> process"

definition null_registers :: registers where
  "null_registers = \<lparr>rdi = 0, rsi = 0, rbp = 0, rbx = 0, rdx = 0, rcx = 0, rax = 0, ip = 0, cs = 0, flags = 0, rsp = 0, ss = 0\<rparr>"

text \<open>What \<open>memset\<close> makes of a new \<open>struct process\<close>.\<close>

definition null_process :: process where
  "null_process = \<lparr>process_id = 0, filename = replicate 108 0, process_task = 0, process_paging_desc = None,
     allocations = None, kernel_userland_ptrs = None, file_handles = None, filetype = 0, program = 0, stack = 0,
     process_size = 0, keyboard = \<lparr>key_buffer = replicate 1024 0, key_tail = 0, key_head = 0\<rparr>, windows = None,
     window_events = None, event_index = 0, total_unpopped = 0, argc = 0, argv = 0, sysout_win = 0\<rparr>"

definition update_task :: "'s ktask_scheme \<Rightarrow> u64 \<Rightarrow> (task \<Rightarrow> task) \<Rightarrow> 's ktask_scheme" where
  "update_task s t f = s\<lparr>tasks := (tasks s)(t := f (tasks s t))\<rparr>"

subsection \<open>The list of tasks\<close>

definition task_init :: "(u64 \<Rightarrow> u64) \<Rightarrow> 's ktask_scheme \<Rightarrow> u64 \<Rightarrow> u64 \<Rightarrow> 's ktask_scheme" where
  "task_init e_entry s t process =
     s\<lparr>tasks := (tasks s)(t := \<lparr>registers = null_registers\<lparr>
         ip := (if filetype (processes s process) = PROCESS_FILETYPE_ELF then e_entry (program (processes s process))
                else PEACHOS_PROGRAM_VIRTUAL_ADDRESS),
         ss := USER_DATA_SEGMENT, cs := USER_CODE_SEGMENT,
         rsp := PEACHOS_PROGRAM_VIRTUAL_STACK_ADDRESS_START\<rparr>,
       task_process = process, sleep_until_microseconds = 0, next_task = 0, prev_task = 0\<rparr>)\<rparr>"

text \<open>Without memory the error path passes the null pointer to \<open>task_free\<close>, which reads through it.\<close>

definition task_new ::
  "('s ktask_scheme \<Rightarrow> u64 \<Rightarrow> ('s ktask_scheme \<times> u64) option) \<Rightarrow> (u64 \<Rightarrow> u64) \<Rightarrow>
   's ktask_scheme \<Rightarrow> u64 \<Rightarrow> ('s ktask_scheme \<times> u64) option" where
  "task_new kz e_entry s process = do {
     (s1, t) \<leftarrow> kz s 128;
     if t = 0 then None
     else let s2 = task_init e_entry s1 t process in
       if task_head s2 = 0 then Some (s2\<lparr>task_head := t, task_tail := t, current_task := t\<rparr>, t)
       else if task_tail s2 = 0 then None
       else let s3 = update_task s2 (task_tail s2) (\<lambda>k. k\<lparr>next_task := t\<rparr>);
                s4 = update_task s3 t (\<lambda>k. k\<lparr>prev_task := task_tail s3\<rparr>)
            in Some (s4\<lparr>task_tail := t\<rparr>, t)
   }"

definition task_get_next :: "'s ktask_scheme \<Rightarrow> u64 option" where
  "task_get_next s =
     (if current_task s = 0 then None
      else Some (if next_task (tasks s (current_task s)) = 0 then task_head s
                 else next_task (tasks s (current_task s))))"

definition task_list_remove :: "'s ktask_scheme \<Rightarrow> u64 \<Rightarrow> 's ktask_scheme option" where
  "task_list_remove s t =
     (if t = 0 then None
      else let
        k = tasks s t;
        s1 = (if prev_task k \<noteq> 0 then update_task s (prev_task k) (\<lambda>p. p\<lparr>next_task := next_task k\<rparr>) else s);
        s2 = (if t = task_head s1 then s1\<lparr>task_head := next_task (tasks s1 t)\<rparr> else s1);
        s3 = (if t = task_tail s2 then s2\<lparr>task_tail := prev_task (tasks s2 t)\<rparr> else s2)
      in if t = current_task s3 then do { n \<leftarrow> task_get_next s3; Some (s3\<lparr>current_task := n\<rparr>) }
         else Some s3)"

text \<open>\<open>kfree\<close> does nothing, so the freed task keeps its contents.\<close>

definition task_free :: "'s ktask_scheme \<Rightarrow> u64 \<Rightarrow> ('s ktask_scheme \<times> int) option" where
  "task_free s t = do { s1 \<leftarrow> task_list_remove s t; Some (s1, 0) }"

subsection \<open>Sleeping tasks and the next task\<close>

definition task_asleep :: "'s ktask_scheme \<Rightarrow> u64 \<Rightarrow> u64 \<Rightarrow> bool" where
  "task_asleep s t tsc = (sleep_until_microseconds (tasks s t) > tsc)"

definition task_sleep :: "'s ktask_scheme \<Rightarrow> u64 \<Rightarrow> u64 \<Rightarrow> u64 \<Rightarrow> 's ktask_scheme" where
  "task_sleep s t microseconds tsc = update_task s t (\<lambda>k. k\<lparr>sleep_until_microseconds := tsc + microseconds\<rparr>)"

text \<open>
  The loop returns the task it stops at, or null, the result, and the number of clock readings. On a
  circular list of sleeping tasks it does not end.
\<close>

partial_function (option) next_task_loop ::
  "(nat \<Rightarrow> u64) \<Rightarrow> 's ktask_scheme \<Rightarrow> u64 \<Rightarrow> nat \<Rightarrow> (u64 \<times> int \<times> nat) option" where
  "next_task_loop now s t i =
     (if t = 0 \<and> task_head s = 0 then Some (0, - EIO, i)
      else if task_asleep s (if t = 0 then task_head s else t) (now i)
        then (if next_task (tasks s (if t = 0 then task_head s else t)) = 0 then Some (0, 0, Suc i)
              else next_task_loop now s (next_task (tasks s (if t = 0 then task_head s else t))) (Suc i))
      else Some ((if t = 0 then task_head s else t), 0, Suc i))"

definition task_get_next_non_sleeping_task ::
  "(nat \<Rightarrow> u64) \<Rightarrow> 's ktask_scheme \<Rightarrow> nat \<Rightarrow> (u64 \<times> int \<times> nat) option" where
  "task_get_next_non_sleeping_task now s i =
     next_task_loop now s (if current_task s \<noteq> 0 then next_task (tasks s (current_task s)) else task_head s) i"

text \<open>Switching loads the page tables of the task's process; a process without tables has none to load.\<close>

definition task_paging_desc :: "'s ktask_scheme \<Rightarrow> u64 \<Rightarrow> paging_desc option" where
  "task_paging_desc s t = (if t = 0 then None else process_paging_desc (processes s (task_process (tasks s t))))"

definition task_current_paging_desc :: "'s ktask_scheme \<Rightarrow> paging_desc option" where
  "task_current_paging_desc s = task_paging_desc s (current_task s)"

definition task_switch :: "'s ktask_scheme \<Rightarrow> u64 \<Rightarrow> ('s ktask_scheme \<times> int) option" where
  "task_switch s t = do {
     desc \<leftarrow> task_paging_desc s t;
     Some (paging_switch (s\<lparr>current_task := t\<rparr>) desc, 0)
   }"

text \<open>
  \<open>task_next\<close> waits until there is a task, then switches to it and returns into its registers, which are
  the result. With no task at all the kernel panics.
\<close>

partial_function (option) task_next_loop :: "(nat \<Rightarrow> u64) \<Rightarrow> 's ktask_scheme \<Rightarrow> nat \<Rightarrow> u64 option" where
  "task_next_loop now s i = do {
     (t, res, j) \<leftarrow> task_get_next_non_sleeping_task now s i;
     if res < 0 then None
     else if t = 0 then task_next_loop now s j
     else Some t
   }"

definition task_next :: "(nat \<Rightarrow> u64) \<Rightarrow> 's ktask_scheme \<Rightarrow> ('s ktask_scheme \<times> registers) option" where
  "task_next now s = do {
     t \<leftarrow> task_next_loop now s 0;
     (s1, _) \<leftarrow> task_switch s t;
     Some (s1, registers (tasks s1 t))
   }"

definition task_page :: "'s ktask_scheme \<Rightarrow> ('s ktask_scheme \<times> int) option" where
  "task_page s = task_switch s (current_task s)"

definition task_page_task :: "'s ktask_scheme \<Rightarrow> u64 \<Rightarrow> ('s ktask_scheme \<times> int) option" where
  "task_page_task s t = do { desc \<leftarrow> task_paging_desc s t; Some (paging_switch s desc, 0) }"

definition task_run_first_ever_task :: "'s ktask_scheme \<Rightarrow> ('s ktask_scheme \<times> registers) option" where
  "task_run_first_ever_task s =
     (if current_task s = 0 then None
      else do { (s1, _) \<leftarrow> task_switch s (task_head s); Some (s1, registers (tasks s1 (task_head s1))) })"

text \<open>The saved registers of an interrupt frame; the frame has the fields of \<open>registers\<close>.\<close>

definition task_save_state :: "'s ktask_scheme \<Rightarrow> u64 \<Rightarrow> registers \<Rightarrow> 's ktask_scheme" where
  "task_save_state s t frame = update_task s t (\<lambda>k. k\<lparr>registers := (registers k)\<lparr>
     ip := ip frame, cs := cs frame, flags := flags frame, rsp := rsp frame, ss := ss frame, rax := rax frame,
     rbp := rbp frame, rbx := rbx frame, rcx := rcx frame, rdi := rdi frame, rdx := rdx frame, rsi := rsi frame\<rparr>\<rparr>)"

definition task_current_save_state :: "'s ktask_scheme \<Rightarrow> registers \<Rightarrow> 's ktask_scheme option" where
  "task_current_save_state s frame =
     (if current_task s = 0 then None else Some (task_save_state s (current_task s) frame))"

definition task_virtual_address_to_physical :: "'s ktask_scheme \<Rightarrow> u64 \<Rightarrow> u64 \<Rightarrow> u64 option" where
  "task_virtual_address_to_physical s t va = do {
     desc \<leftarrow> task_paging_desc s t;
     Some (paging_get_physical_address (tables s) desc va)
   }"


subsection \<open>Reading a task's memory\<close>

text \<open>Loads and stores through page tables; a page that is not present faults. The kernel runs at ring 0.\<close>

definition virt_load :: "page_tables \<Rightarrow> paging_desc \<Rightarrow> memory \<Rightarrow> u64 \<Rightarrow> u8 option" where
  "virt_load T desc m va = map_option (\<lambda>(pa, _). m pa) (mmu_translate T (pml desc) va)"

definition virt_store :: "page_tables \<Rightarrow> paging_desc \<Rightarrow> memory \<Rightarrow> u64 \<Rightarrow> u8 \<Rightarrow> memory option" where
  "virt_store T desc m va c = map_option (\<lambda>(pa, _). m(pa := c)) (mmu_translate T (pml desc) va)"

text \<open>\<open>strncpy\<close> on virtual addresses, \<open>n\<close> characters from index \<open>i\<close> on.\<close>

primrec virt_strncpy_loop :: "page_tables \<Rightarrow> paging_desc \<Rightarrow> memory \<Rightarrow> u64 \<Rightarrow> u64 \<Rightarrow> nat \<Rightarrow> memory option" where
  "virt_strncpy_loop T desc m dest src 0 = virt_store T desc m dest 0"
| "virt_strncpy_loop T desc m dest src (Suc n) = do {
     c \<leftarrow> virt_load T desc m src;
     if c = 0 then virt_store T desc m dest 0
     else do {
       m1 \<leftarrow> virt_store T desc m dest c;
       virt_strncpy_loop T desc m1 (dest + 1) (src + 1) n
     }
   }"

text \<open>
  Copying a string out of a task's memory: the kernel's buffer is mapped into the task, and the
  entry it displaced is mapped back. \<open>kernel_desc\<close> is the kernel's paging descriptor.
\<close>

definition copy_string_from_task ::
  "('s ktask_scheme \<Rightarrow> u64 \<Rightarrow> ('s ktask_scheme \<times> u64) option) \<Rightarrow> paging_desc \<Rightarrow>
   's ktask_scheme \<Rightarrow> u64 \<Rightarrow> u64 \<Rightarrow> u64 \<Rightarrow> int \<Rightarrow> ('s ktask_scheme \<times> int) option" where
  "copy_string_from_task kz kernel_desc s t virtual phys max_len =
     (if max_len \<ge> 4096 then Some (s, - EINVARG)
      else do {
        (s1, tmp) \<leftarrow> kz s (size_of_int max_len);
        if tmp = 0 then Some (s1, - ENOMEM)
        else do {
          let phys_tmp = paging_get_physical_address (tables s1) kernel_desc tmp;
          task_desc \<leftarrow> task_paging_desc s1 t;
          (table, slot) \<leftarrow> paging_get (tables s1) task_desc phys_tmp;
          let old_entry = tables s1 table slot;
          let old_entry_flags = (if read_write old_entry \<or> present old_entry \<or> user_supervisor old_entry then 1 else 0);
          (s2, _) \<leftarrow> paging_map kz s1 task_desc phys_tmp phys_tmp
             (PAGING_IS_WRITEABLE OR PAGING_IS_PRESENT OR PAGING_ACCESS_FROM_ALL);
          (s3, _) \<leftarrow> task_page_task s2 t;
          m1 \<leftarrow> virt_strncpy_loop (tables s3) task_desc (kmem s3) tmp virtual (nat (max_len - 1));
          let s4 = paging_switch (s3\<lparr>kmem := m1\<rparr>) kernel_desc;
          m2 \<leftarrow> virt_strncpy_loop (tables s4) kernel_desc (kmem s4) phys tmp (nat (max_len - 1));
          (s5, _) \<leftarrow> paging_map kz (s4\<lparr>kmem := m2\<rparr>) task_desc phys_tmp (entry_base old_entry) old_entry_flags;
          Some (s5, 0)
        }
      })"

definition task_get_stack_item ::
  "paging_desc \<Rightarrow> 's ktask_scheme \<Rightarrow> u64 \<Rightarrow> int \<Rightarrow> ('s ktask_scheme \<times> u64) option" where
  "task_get_stack_item kernel_desc s t index = do {
     (s1, _) \<leftarrow> task_page_task s t;
     desc \<leftarrow> task_paging_desc s1 t;
     let sp = rsp (registers (tasks s1 t)) + word_of_int (8 * index);
     bytes \<leftarrow> those (map (\<lambda>i. virt_load (tables s1) desc (kmem s1) (sp + of_nat i)) [0..<8]);
     Some (paging_switch s1 kernel_desc, word_rcat (rev bytes))
   }"

subsection \<open>The list of tasks as a list\<close>

text \<open>
  The tasks \<open>ts\<close> are linked in both directions between the head and the tail. \<open>linked_tasks\<close> is the whole
  invariant: the list is not empty exactly when there is a current task, and that is one of it.
\<close>

definition task_links :: "'s ktask_scheme \<Rightarrow> u64 list \<Rightarrow> bool" where
  "task_links s ts \<longleftrightarrow> distinct ts \<and> 0 \<notin> set ts \<and>
     task_head s = (if ts = [] then 0 else hd ts) \<and> task_tail s = (if ts = [] then 0 else last ts) \<and>
     (\<forall>i < length ts. next_task (tasks s (ts ! i)) = (if Suc i < length ts then ts ! Suc i else 0) \<and>
        prev_task (tasks s (ts ! i)) = (if i = 0 then 0 else ts ! (i - 1)))"

definition linked_tasks :: "'s ktask_scheme \<Rightarrow> u64 list \<Rightarrow> bool" where
  "linked_tasks s ts \<longleftrightarrow> task_links s ts \<and> (if ts = [] then current_task s = 0 else current_task s \<in> set ts)"

lemma kernel_inv_tasks [simp]:
  "kernel_inv (s\<lparr>tasks := a\<rparr>) = kernel_inv s" "kernel_inv (s\<lparr>task_head := b\<rparr>) = kernel_inv s"
  "kernel_inv (s\<lparr>task_tail := b\<rparr>) = kernel_inv s" "kernel_inv (s\<lparr>current_task := b\<rparr>) = kernel_inv s"
  by (simp_all add: kernel_inv_def heap_list_def)

text \<open>
  What the tasks need of the allocator: a block that is no live object, and nothing else of the state
  changes but the heap and the byte memory.
\<close>

locale object_allocator =
  fixes kz :: "'s ktask_scheme \<Rightarrow> u64 \<Rightarrow> ('s ktask_scheme \<times> u64) option"
    and inv :: "'s ktask_scheme \<Rightarrow> bool"
    and live :: "'s ktask_scheme \<Rightarrow> u64 set"
    and room :: "'s ktask_scheme \<Rightarrow> nat"
  assumes alloc: "inv s \<Longrightarrow> 0 < room s \<Longrightarrow> 0 < sz \<Longrightarrow> sz \<le> 4096 \<Longrightarrow>
      \<exists>h m p. kz s sz = Some (s\<lparr>heap_at := h, kmem := m\<rparr>, p) \<and> inv (s\<lparr>heap_at := h, kmem := m\<rparr>) \<and>
        p \<noteq> 0 \<and> p \<notin> live s \<and> live (s\<lparr>heap_at := h, kmem := m\<rparr>) = insert p (live s) \<and>
        room s = Suc (room (s\<lparr>heap_at := h, kmem := m\<rparr>))"
    and frame: "inv (s\<lparr>tasks := a\<rparr>) = inv s" "inv (s\<lparr>task_head := b\<rparr>) = inv s" "inv (s\<lparr>task_tail := b\<rparr>) = inv s"
      "inv (s\<lparr>current_task := b\<rparr>) = inv s"
begin

lemma task_new_links:
  assumes inv: "inv s" "0 < room s" and ts: "linked_tasks s ts" "set ts \<subseteq> live s"
  shows "\<exists>s' t. task_new kz e s p = Some (s', t) \<and> t \<notin> live s \<and> t \<noteq> 0 \<and> linked_tasks s' (ts @ [t]) \<and> inv s' \<and>
    task_process (tasks s' t) = p \<and> current_task s' = (if ts = [] then t else current_task s)"
proof -
  obtain h m t where a: "kz s 128 = Some (s\<lparr>heap_at := h, kmem := m\<rparr>, t)" "inv (s\<lparr>heap_at := h, kmem := m\<rparr>)"
    "t \<noteq> 0" "t \<notin> live s"
    using alloc [OF inv, of 128] by auto
  then have t: "t \<notin> set ts" using ts(2) by blast
  have l: "task_links s ts" using ts(1) by (simp add: linked_tasks_def)
  show ?thesis
  proof (cases "ts = []")
    case True
    then show ?thesis
      using a l ts(1) by (simp add: task_new_def task_init_def Let_def task_links_def linked_tasks_def frame)
  next
    case False
    have z: "0 \<notin> set ts" "task_head s = hd ts" "task_tail s = last ts" "distinct ts"
      using l False by (simp_all add: task_links_def)
    then have hz: "task_head s \<noteq> 0" "task_tail s \<noteq> 0" using False by (metis hd_in_set, metis last_in_set)
    have lt: "last ts \<noteq> t" using t False by (metis last_in_set)
    have ln: "last ts = ts ! (length ts - 1)" using False by (rule last_conv_nth)
    have ne: "ts ! i \<noteq> t" if "i < length ts" for i using t that by (metis nth_mem)
    have eq: "ts ! i = last ts \<longleftrightarrow> i = length ts - 1" if "i < length ts" for i
      using that z(4) False unfolding ln by (simp add: nth_eq_iff_index_eq)
    define s' where "s' = (let s2 = task_init e (s\<lparr>heap_at := h, kmem := m\<rparr>) t p;
        s3 = update_task s2 (task_tail s2) (\<lambda>k. k\<lparr>next_task := t\<rparr>);
        s4 = update_task s3 t (\<lambda>k. k\<lparr>prev_task := task_tail s3\<rparr>) in s4\<lparr>task_tail := t\<rparr>)"
    have res: "task_new kz e s p = Some (s', t)"
      using a hz by (simp add: task_new_def s'_def task_init_def Let_def update_task_def)
    have fields: "task_head s' = hd ts" "task_tail s' = t" "current_task s' = current_task s" "inv s'"
      "task_process (tasks s' t) = p" "next_task (tasks s' t) = 0" "prev_task (tasks s' t) = last ts"
      using z lt a(2) by (simp_all add: s'_def task_init_def Let_def update_task_def frame)
    have old: "next_task (tasks s' (ts ! i)) = (if i = length ts - 1 then t else next_task (tasks s (ts ! i)))"
      "prev_task (tasks s' (ts ! i)) = prev_task (tasks s (ts ! i))" if "i < length ts" for i
      using ne [OF that] eq [OF that] z(3) by (auto simp: s'_def task_init_def Let_def update_task_def)
    have "task_links s' (ts @ [t])"
      unfolding task_links_def
    proof (intro conjI allI impI)
      fix i assume i: "i < length (ts @ [t])"
      show "next_task (tasks s' ((ts @ [t]) ! i)) = (if Suc i < length (ts @ [t]) then (ts @ [t]) ! Suc i else 0)"
        using i l fields(6) old(1) by (cases "i = length ts") (auto simp: nth_append task_links_def)
      show "prev_task (tasks s' ((ts @ [t]) ! i)) = (if i = 0 then 0 else (ts @ [t]) ! (i - 1))"
        using i l fields(7) old(2) False ln by (cases "i = length ts") (auto simp: nth_append task_links_def)
    qed (use z t a(3) False fields in auto)
    then show ?thesis using res fields a(3,4) ts(1) False by (auto simp: linked_tasks_def)
  qed
qed

end

interpretation task_heap: object_allocator kzalloc kernel_inv live_pages free_pages
proof unfold_locales
  fix s :: "'s ktask_scheme" and sz :: u64
  assume "kernel_inv s" "0 < free_pages s" and sz: "0 < sz" "sz \<le> 4096"
  moreover have "blocks_for sz = 1" "unat sz < 2 ^ 31"
  proof -
    have "0 < unat sz" "unat sz \<le> 4096" using sz by (simp_all add: unat_gt_0 word_le_nat_alt word_less_nat_alt)
    then show "unat sz < 2 ^ 31" "blocks_for sz = 1"
      using div_nat_eqI [of 4096 1 "unat sz + 4095"] by (simp_all add: blocks_for_eq)
  qed
  ultimately show "\<exists>h m p. kzalloc s sz = Some (s\<lparr>heap_at := h, kmem := m\<rparr>, p) \<and> kernel_inv (s\<lparr>heap_at := h, kmem := m\<rparr>) \<and>
        p \<noteq> 0 \<and> p \<notin> live_pages s \<and> live_pages (s\<lparr>heap_at := h, kmem := m\<rparr>) = insert p (live_pages s) \<and>
        free_pages s = Suc (free_pages (s\<lparr>heap_at := h, kmem := m\<rparr>))"
    using kzalloc_block_state [of s sz] by blast
qed simp_all

subsection \<open>Choosing the next task\<close>

lemma linked_tasks_nth:
  assumes "linked_tasks s ts" "j < length ts"
  shows "next_task (tasks s (ts ! j)) = (if Suc j < length ts then ts ! Suc j else 0)" "ts ! j \<noteq> 0"
proof -
  show "next_task (tasks s (ts ! j)) = (if Suc j < length ts then ts ! Suc j else 0)"
    using assms by (auto simp: linked_tasks_def task_links_def)
  have "0 \<notin> set ts" using assms(1) by (simp add: linked_tasks_def task_links_def)
  then show "ts ! j \<noteq> 0" using assms(2) by (metis nth_mem)
qed

lemma next_task_loop_awake:
  assumes "t \<noteq> 0" "\<not> task_asleep s t (now i)"
  shows "next_task_loop now s t i = Some (t, 0, Suc i)"
  using assms by (subst next_task_loop.simps) simp

lemma next_task_loop_head:
  assumes "task_head s \<noteq> 0" "\<not> task_asleep s (task_head s) (now i)"
  shows "next_task_loop now s 0 i = Some (task_head s, 0, Suc i)"
  using assms by (subst next_task_loop.simps) simp

lemma next_task_loop_all_asleep:
  assumes l: "linked_tasks s ts"
  shows "j < length ts \<Longrightarrow> (\<forall>k i. j \<le> k \<and> k < length ts \<longrightarrow> task_asleep s (ts ! k) (now i)) \<Longrightarrow>
    next_task_loop now s (ts ! j) i = Some (0, 0, i + (length ts - j))"
proof (induction "length ts - j" arbitrary: j i)
  case (Suc n)
  note nx = linked_tasks_nth [OF l Suc.prems(1)]
  show ?case
  proof (cases "Suc j < length ts")
    case True
    have "next_task_loop now s (ts ! Suc j) (Suc i) = Some (0, 0, Suc i + (length ts - Suc j))"
      using Suc.hyps(2) Suc.prems(2) True by (intro Suc.hyps(1)) auto
    then show ?thesis
      using nx Suc.prems linked_tasks_nth(2) [OF l True] True by (subst next_task_loop.simps) simp
  next
    case False
    then have "length ts - j = 1" using Suc.prems(1) by simp
    then show ?thesis using nx Suc.prems False by (subst next_task_loop.simps) simp
  qed
qed simp

text \<open>The task after the current one, the first one after the last.\<close>

lemma next_task_awake:
  assumes l: "linked_tasks s ts" and j: "j < length ts" "current_task s = ts ! j"
    and aw: "\<forall>t\<in>set ts. \<forall>i. \<not> task_asleep s t (now i)"
  shows "task_get_next_non_sleeping_task now s i = Some (ts ! (Suc j mod length ts), 0, Suc i)"
proof (cases "Suc j < length ts")
  case True
  then show ?thesis
    using linked_tasks_nth [OF l j(1)] linked_tasks_nth(2) [OF l True] linked_tasks_nth(2) [OF l j(1)] aw
    by (simp add: task_get_next_non_sleeping_task_def j(2) next_task_loop_awake)
next
  case False
  then have "Suc j = length ts" using j(1) by simp
  moreover have n0: "0 < length ts" using j(1) by linarith
  moreover then have "task_head s = ts ! 0" using l by (simp add: linked_tasks_def task_links_def hd_conv_nth)
  ultimately show ?thesis
    using linked_tasks_nth [OF l j(1)] linked_tasks_nth(2) [OF l, of 0] aw
    by (simp add: task_get_next_non_sleeping_task_def j(2) next_task_loop_head)
qed

lemma linked_tasks_switch:
  "linked_tasks (paging_switch (s\<lparr>current_task := t\<rparr>) desc) ts \<longleftrightarrow> task_links s ts \<and> (if ts = [] then t = 0 else t \<in> set ts)"
  by (simp add: linked_tasks_def task_links_def paging_switch_def)

lemma task_switch_facts:
  assumes "task_paging_desc s t = Some desc"
  shows "task_switch s t = Some (paging_switch (s\<lparr>current_task := t\<rparr>) desc, 0)"
    "task_paging_desc (paging_switch (s\<lparr>current_task := t\<rparr>) desc) = task_paging_desc s"
    "task_asleep (paging_switch (s\<lparr>current_task := t\<rparr>) desc) = task_asleep s"
    "current_task (paging_switch (s\<lparr>current_task := t\<rparr>) desc) = t"
    "tasks (paging_switch (s\<lparr>current_task := t\<rparr>) desc) = tasks s"
  using assms by (auto simp: task_switch_def paging_switch_def task_paging_desc_def task_asleep_def fun_eq_iff)

lemma task_next_awake:
  assumes l: "linked_tasks s ts" and j: "j < length ts" "current_task s = ts ! j"
    and aw: "\<forall>t\<in>set ts. \<forall>i. \<not> task_asleep s t (now i)" and pd: "\<forall>t\<in>set ts. task_paging_desc s t \<noteq> None"
  shows "\<exists>s'. task_next now s = Some (s', registers (tasks s (ts ! (Suc j mod length ts)))) \<and>
    current_task s' = ts ! (Suc j mod length ts) \<and> linked_tasks s' ts \<and> task_asleep s' = task_asleep s \<and>
    task_paging_desc s' = task_paging_desc s"
proof -
  let ?t = "ts ! (Suc j mod length ts)"
  have "0 < length ts" using j(1) by linarith
  then have m: "Suc j mod length ts < length ts" by (rule mod_less_divisor)
  have t: "?t \<in> set ts" "?t \<noteq> 0" using nth_mem [OF m] linked_tasks_nth(2) [OF l m] by simp_all
  obtain desc where d: "task_paging_desc s ?t = Some desc" using pd t(1) by blast
  have "task_next_loop now s 0 = Some ?t"
    using next_task_awake [OF l j aw, of 0] t(2) by (subst task_next_loop.simps) simp
  moreover have "task_links s ts" "ts \<noteq> []" using l j(1) by (auto simp: linked_tasks_def)
  ultimately show ?thesis
    using task_switch_facts [OF d] t(1)
    by (intro exI [of _ "paging_switch (s\<lparr>current_task := ?t\<rparr>) desc"]) (simp add: task_next_def linked_tasks_switch)
qed

text \<open>\<open>n\<close> switches one after the other.\<close>

primrec run_next :: "(nat \<Rightarrow> u64) \<Rightarrow> nat \<Rightarrow> 's ktask_scheme \<Rightarrow> 's ktask_scheme option" where
  "run_next now 0 s = Some s"
| "run_next now (Suc n) s = do { (s1, _) \<leftarrow> task_next now s; run_next now n s1 }"

lemma run_next_awake:
  "linked_tasks s ts \<Longrightarrow> j < length ts \<Longrightarrow> current_task s = ts ! j \<Longrightarrow>
   (\<forall>t\<in>set ts. \<forall>i. \<not> task_asleep s t (now i)) \<Longrightarrow> (\<forall>t\<in>set ts. task_paging_desc s t \<noteq> None) \<Longrightarrow>
   \<exists>s'. run_next now n s = Some s' \<and> current_task s' = ts ! ((j + n) mod length ts)"
proof (induction n arbitrary: s j)
  case (Suc n)
  obtain s1 where s1: "task_next now s = Some (s1, registers (tasks s (ts ! (Suc j mod length ts))))"
    "current_task s1 = ts ! (Suc j mod length ts)" "linked_tasks s1 ts" "task_asleep s1 = task_asleep s"
    "task_paging_desc s1 = task_paging_desc s"
    using task_next_awake [OF Suc.prems] by blast
  have "0 < length ts" using Suc.prems(2) by linarith
  then have m: "Suc j mod length ts < length ts" by (rule mod_less_divisor)
  have "\<exists>s'. run_next now n s1 = Some s' \<and> current_task s' = ts ! ((Suc j mod length ts + n) mod length ts)"
    using Suc.IH [OF s1(3) m s1(2)] Suc.prems(4,5) unfolding s1(4,5) by blast
  then show ?case using s1(1) by (simp add: mod_simps)
qed (auto simp: linked_tasks_def)

subsection \<open>What the scheduler does\<close>

text \<open>
  C28. \<^bold>\<open>A new task joins the list.\<close> Over the kernel's allocator with a free block, \<open>task_new\<close> appends a task at a
  new address to the linked list, in both directions; the first task becomes the current one.
\<close>

theorem task_new_refines_append:
  assumes "kernel_inv s" "0 < free_pages s" "linked_tasks s ts" "set ts \<subseteq> live_pages s"
  shows "\<exists>s' t. task_new kzalloc e s p = Some (s', t) \<and> t \<notin> set ts \<and> linked_tasks s' (ts @ [t]) \<and> kernel_inv s' \<and>
    task_process (tasks s' t) = p \<and> current_task s' = (if ts = [] then t else current_task s)"
  using task_heap.task_new_links [OF assms] assms(4) by blast

text \<open>
  \<^bold>\<open>Every task runs.\<close> While no task of the list sleeps and every process has page tables, each task of the
  list is running after at most as many switches as there are tasks.
\<close>

theorem tasks_run_in_turn:
  assumes "linked_tasks s ts" "t \<in> set ts"
    and "\<forall>t\<in>set ts. \<forall>i. \<not> task_asleep s t (now i)" "\<forall>t\<in>set ts. task_paging_desc s t \<noteq> None"
  shows "\<exists>n s'. 1 \<le> n \<and> n \<le> length ts \<and> run_next now n s = Some s' \<and> current_task s' = t"
proof -
  have "ts \<noteq> []" using assms(2) by auto
  then have "current_task s \<in> set ts" using assms(1) by (simp add: linked_tasks_def)
  then obtain j where j: "j < length ts" "current_task s = ts ! j" by (metis in_set_conv_nth)
  obtain k where k: "k < length ts" "t = ts ! k" using assms(2) by (metis in_set_conv_nth)
  define n where "n = (if j < k then k - j else length ts - j + k)"
  have n: "1 \<le> n" "n \<le> length ts" "(j + n) mod length ts = k"
    using j(1) k(1) by (auto simp: n_def)
  obtain s' where "run_next now n s = Some s'" "current_task s' = ts ! ((j + n) mod length ts)"
    using run_next_awake [OF assms(1) j assms(3,4)] by blast
  then show ?thesis using n k(2) by auto
qed

lemma task_next_loop_never:
  assumes "\<forall>i. \<exists>j. task_get_next_non_sleeping_task now s i = Some (0, 0, j)"
  shows "task_next_loop now s i = None"
proof (rule ccontr)
  assume "task_next_loop now s i \<noteq> None"
  then obtain t where t: "task_next_loop now s i = Some t" by blast
  have "\<not> (\<forall>i. \<exists>j. task_get_next_non_sleeping_task now s i = Some (0, 0, j))"
  proof (rule task_next_loop.raw_induct [OF _ t])
    fix f :: "(nat \<Rightarrow> u64) \<Rightarrow> 'a ktask_scheme \<Rightarrow> nat \<Rightarrow> u64 option" and now s i t
    assume "\<And>now s i t. f now s i = Some t \<Longrightarrow> \<not> (\<forall>i. \<exists>j. task_get_next_non_sleeping_task now s i = Some (0, 0, j))"
      and "do { (t, res, j) \<leftarrow> task_get_next_non_sleeping_task now s i;
        if res < 0 then None else if t = 0 then f now s j else Some t } = Some t"
    then show "\<not> (\<forall>i. \<exists>j. task_get_next_non_sleeping_task now s i = Some (0, 0, j))"
      by (cases "task_get_next_non_sleeping_task now s i") (auto split: if_splits, metis option.inject prod.inject)
  qed
  then show False using assms by blast
qed

text \<open>
  C29. \<^bold>\<open>A sleeping tail holds up the scheduler.\<close> When the current task has a task behind it and all tasks behind
  it are asleep at every reading of the clock, for ever, \<open>task_next\<close> does not return, although tasks before it in the list may be ready: the
  search starts over behind the current task and never wraps round to the head. The task that gave up the
  processor is among those that do not run. So a task behind that sleeps for a time keeps all the others waiting for that time: only one of those behind can end the search.
\<close>

theorem sleeping_tail_starves:
  assumes "linked_tasks s ts" "current_task s = ts ! j" "Suc j < length ts"
    and "\<forall>k i. Suc j \<le> k \<and> k < length ts \<longrightarrow> task_asleep s (ts ! k) (now i)"
  shows "task_next now s = None"
proof -
  have j: "j < length ts" using assms(3) by simp
  have "task_get_next_non_sleeping_task now s i = Some (0, 0, i + (length ts - Suc j))" for i
    using next_task_loop_all_asleep [OF assms(1,3,4)] linked_tasks_nth [OF assms(1) j] assms(2,3)
    by (simp add: task_get_next_non_sleeping_task_def)
  then show ?thesis by (simp add: task_next_def task_next_loop_never)
qed

lemma task_free_inner:
  assumes "t \<noteq> 0" "p \<noteq> 0" "prev_task (tasks s t) = p" "t \<noteq> p" "t \<noteq> task_head s" "t \<noteq> current_task s"
  shows "task_free s t = Some ((let u = update_task s p (\<lambda>k. k\<lparr>next_task := next_task (tasks s t)\<rparr>) in
    if t = task_tail s then u\<lparr>task_tail := p\<rparr> else u), 0)"
proof -
  have u: "tasks (update_task s p k) t = tasks s t" "task_head (update_task s p k) = task_head s"
    "task_tail (update_task s p k) = task_tail s" "current_task (update_task s p k) = current_task s" for k
    using assms(4) by (simp_all add: update_task_def)
  obtain b where b: "(t = task_tail s) = b" by blast
  show ?thesis
    using assms unfolding task_free_def task_list_remove_def Let_def by (simp add: u b)
qed

text \<open>
  \<^bold>\<open>A freed task runs.\<close> Removing a task does not tell its successor about the new predecessor. When two
  neighbours are freed, the first one first, the second stays linked to the tasks before them, and the
  scheduler picks it.
\<close>

theorem freed_task_runs:
  assumes "linked_tasks s (xs @ [a, b, c] @ ys)" "current_task s = a" "\<not> task_asleep s c (now 0)"
  shows "\<exists>s1 s2. task_free s b = Some (s1, 0) \<and> task_free s1 c = Some (s2, 0) \<and>
    task_get_next_non_sleeping_task now s2 0 = Some (c, 0, 1)"
proof -
  let ?ts = "xs @ [a, b, c] @ ys" and ?n = "length xs"
  have l: "task_links s ?ts" using assms(1) by (simp add: linked_tasks_def)
  have d: "distinct ?ts" "0 \<notin> set ?ts" "task_head s = hd ?ts" using l by (simp_all add: task_links_def)
  have at: "\<forall>i < length ?ts. next_task (tasks s (?ts ! i)) = (if Suc i < length ?ts then ?ts ! Suc i else 0) \<and>
      prev_task (tasks s (?ts ! i)) = (if i = 0 then 0 else ?ts ! (i - 1))"
    using l unfolding task_links_def by blast
  have nths: "?ts ! ?n = a" "?ts ! Suc ?n = b" "?ts ! Suc (Suc ?n) = c" "?ts ! (Suc (Suc ?n) - 1) = b"
    "?ts ! (Suc ?n - 1) = a" "\<And>x. Suc (Suc x) \<noteq> 0"
    by (simp_all add: nth_append)
  have f: "next_task (tasks s a) = b" "prev_task (tasks s b) = a" "next_task (tasks s b) = c" "prev_task (tasks s c) = b"
    using at [rule_format, of ?n] at [rule_format, of "Suc ?n"] at [rule_format, of "Suc (Suc ?n)"] unfolding nths
    by (simp_all del: append_Cons append_Cons_eq_iff)
  have ne: "a \<noteq> b" "a \<noteq> c" "b \<noteq> c" "a \<noteq> 0" "b \<noteq> 0" "c \<noteq> 0" using d(1,2) by auto
  have h: "task_head s \<noteq> b" "task_head s \<noteq> c" using d(1,3) by (cases xs; auto)+
  have tl: "task_tail s \<noteq> b"
  proof -
    have "last (c # ys) \<in> set (c # ys)" by (rule last_in_set) simp
    then have "last ?ts \<noteq> b" using d(1) by auto
    then show ?thesis using l by (simp add: task_links_def)
  qed
  define s1 where "s1 = update_task s a (\<lambda>k. k\<lparr>next_task := c\<rparr>)"
  have s1: "task_free s b = Some (s1, 0)"
    using f ne h tl assms(2) by (simp add: task_free_def task_list_remove_def Let_def s1_def update_task_def)
  have g: "prev_task (tasks s1 c) = b" "task_head s1 = task_head s" "current_task s1 = a"
    using f ne assms(2) by (simp_all add: s1_def update_task_def)
  define s2 where "s2 = (let u = update_task s1 b (\<lambda>k. k\<lparr>next_task := next_task (tasks s1 c)\<rparr>) in
    if c = task_tail s1 then u\<lparr>task_tail := b\<rparr> else u)"
  have s2: "task_free s1 c = Some (s2, 0)" "next_task (tasks s2 a) = c" "current_task s2 = a" "\<not> task_asleep s2 c (now 0)"
  proof -
    have u: "tasks (update_task s1 b k) x = (if x = b then k (tasks s1 b) else tasks s1 x)"
      "task_head (update_task s1 b k) = task_head s1" "task_tail (update_task s1 b k) = task_tail s1"
      "current_task (update_task s1 b k) = current_task s1" for k x
      by (simp_all add: update_task_def)
    show "task_free s1 c = Some (s2, 0)"
      unfolding s2_def by (rule task_free_inner) (use ne h g in auto)
    have "next_task (tasks s1 a) = c" "\<not> task_asleep s1 c (now 0)"
      using ne assms(3) by (simp_all add: s1_def update_task_def task_asleep_def)
    then show "next_task (tasks s2 a) = c" "current_task s2 = a" "\<not> task_asleep s2 c (now 0)"
      using ne unfolding s2_def Let_def task_asleep_def by (auto simp: g u split: if_splits)
  qed
  have "task_get_next_non_sleeping_task now s2 0 = Some (c, 0, 1)"
    using s2 ne by (simp add: task_get_next_non_sleeping_task_def next_task_loop_awake)
  then show ?thesis using s1 s2(1) by blast
qed

subsection \<open>Three tasks\<close>

text \<open>Three tasks at \<open>0x2000\<close>, \<open>0x3000\<close> and \<open>0x4000\<close> of one process; the last one sleeps until \<open>z\<close>.\<close>

definition three_tasks :: "u64 \<Rightarrow> u64 \<Rightarrow> ktask" where
  "three_tasks cur z = \<lparr>kmem = (\<lambda>_. 0), tables = (\<lambda>_ _. null_desc),
     current_paging_desc = Some \<lparr>pml = 0x1000, level = 4\<rparr>, cr3 = 0x1000, tlb_invalidated = [],
     heap_at = heap_at kernel8, kernel_multiheap = kernel_multiheap kernel8,
     tasks = (\<lambda>t. \<lparr>registers = null_registers, task_process = 0x9000,
       sleep_until_microseconds = (if t = 0x4000 then z else 0),
       next_task = (if t = 0x2000 then 0x3000 else if t = 0x3000 then 0x4000 else 0),
       prev_task = (if t = 0x3000 then 0x2000 else if t = 0x4000 then 0x3000 else 0)\<rparr>),
     current_task = cur, task_tail = 0x4000, task_head = 0x2000,
     processes = (\<lambda>_. null_process\<lparr>filetype := 1, process_paging_desc := Some \<lparr>pml = 0x1000, level = 4\<rparr>\<rparr>)\<rparr>"

lemma three_tasks_linked: "cur \<in> {0x2000, 0x3000, 0x4000} \<Longrightarrow> linked_tasks (three_tasks cur z) [0x2000, 0x3000, 0x4000]"
  by (auto simp: linked_tasks_def task_links_def three_tasks_def less_Suc_eq)

theorem tasks_run_in_turn_witness:
  "\<exists>n s'. 1 \<le> n \<and> n \<le> length [0x2000 :: u64, 0x3000, 0x4000] \<and> run_next (\<lambda>_. 0) n (three_tasks 0x3000 0) = Some s' \<and>
    current_task s' = 0x2000"
  by (rule tasks_run_in_turn [OF three_tasks_linked]) (simp_all add: three_tasks_def task_asleep_def task_paging_desc_def)

theorem sleeping_tail_starves_witness:
  "task_next (\<lambda>_. 5) (three_tasks 0x3000 10) = None \<and> \<not> task_asleep (three_tasks 0x3000 10) 0x2000 5"
proof
  show "task_next (\<lambda>_. 5) (three_tasks 0x3000 10) = None"
    by (rule sleeping_tail_starves [where j = 1, OF three_tasks_linked])
      (auto simp: three_tasks_def task_asleep_def less_Suc_eq le_Suc_eq)
qed (simp add: three_tasks_def task_asleep_def)

theorem freed_task_runs_witness:
  "\<exists>s1 s2. task_free (three_tasks 0x2000 0) 0x3000 = Some (s1, 0) \<and> task_free s1 0x4000 = Some (s2, 0) \<and>
    task_get_next_non_sleeping_task (\<lambda>_. 0) s2 0 = Some (0x4000, 0, 1)"
  using freed_task_runs [of "three_tasks 0x2000 0" "[]" "0x2000" "0x3000" "0x4000" "[]" "\<lambda>_. 0"] three_tasks_linked [of "0x2000" 0]
  by (simp add: three_tasks_def task_asleep_def)

theorem task_new_refines_append_witness:
  "\<exists>s' t. task_new kzalloc (\<lambda>_. 0) (three_tasks 0 0\<lparr>task_head := 0, task_tail := 0\<rparr>) 0x9000 = Some (s', t) \<and> linked_tasks s' [t]"
proof -
  let ?s = "three_tasks 0 0\<lparr>task_head := 0, task_tail := 0\<rparr>"
  have "kernel_inv ?s" using kernel8_inv by (simp add: kernel_inv_def heap_list_def three_tasks_def)
  moreover have "0 < free_pages ?s"
    using kernel8_pages(1) by (simp add: free_pages_def heap_list_def three_tasks_def)
  moreover have "linked_tasks ?s []" by (simp add: linked_tasks_def task_links_def three_tasks_def)
  ultimately show ?thesis using task_new_refines_append [of ?s "[]"] by fastforce
qed

end
