(* ===== verification/ElfLoader.thy ===== *)
theory ElfLoader
  imports MultiHeap File
begin

section \<open>Loading ELF programs: elf.c and elfloader.c\<close>

text \<open>
  The loader reads a whole file into kernel memory and reads its headers there, so the headers are
  decoded from the bytes of memory. \<open>elf_load\<close> runs over the open files, whose disks carry the kernel's memory.
\<close>

abbreviation (input) PF_W :: u32 where "PF_W \<equiv> 2"
abbreviation (input) PT_LOAD :: u32 where "PT_LOAD \<equiv> 1"
abbreviation (input) ET_EXEC :: u16 where "ET_EXEC \<equiv> 2"
abbreviation (input) EI_CLASS :: nat where "EI_CLASS \<equiv> 4"
abbreviation (input) EI_DATA :: nat where "EI_DATA \<equiv> 5"
abbreviation (input) ELFCLASSNONE :: u8 where "ELFCLASSNONE \<equiv> 0"
abbreviation (input) ELFCLASS64 :: u8 where "ELFCLASS64 \<equiv> 2"
abbreviation (input) ELFDATANONE :: u8 where "ELFDATANONE \<equiv> 0"
abbreviation (input) ELFDATA2LSB :: u8 where "ELFDATA2LSB \<equiv> 1"
abbreviation (input) ELF_MINIMUM_ENTRY :: u64 where "ELF_MINIMUM_ENTRY \<equiv> 0x400000"

subsection \<open>Structures in memory\<close>

definition mem16 :: "memory \<Rightarrow> u64 \<Rightarrow> u16" where
  "mem16 m p = ucast (m p) OR push_bit 8 (ucast (m (p + 1)))"

definition mem32 :: "memory \<Rightarrow> u64 \<Rightarrow> u32" where
  "mem32 m p = ucast (mem16 m p) OR push_bit 16 (ucast (mem16 m (p + 2)))"

definition mem64 :: "memory \<Rightarrow> u64 \<Rightarrow> u64" where
  "mem64 m p = ucast (mem32 m p) OR push_bit 32 (ucast (mem32 m (p + 4)))"

text \<open>Storing bytes at an address.\<close>

definition write_bytes :: "memory \<Rightarrow> u64 \<Rightarrow> u8 list \<Rightarrow> memory" where
  "write_bytes m p bs = (\<lambda>x. if unat (x - p) < length bs then bs ! unat (x - p) else m x)"

record elf64_phdr =
  p_type :: u32
  p_flags :: u32
  p_offset :: u64
  p_vaddr :: u64
  p_paddr :: u64
  p_filesz :: u64
  p_memsz :: u64
  p_align :: u64

record elf64_shdr =
  sh_name :: u32
  sh_type :: u64
  sh_flags :: u64
  sh_addr :: u64
  sh_offset :: u64
  sh_size :: u64
  sh_link :: u32
  sh_info :: u32
  sh_addralign :: u64
  sh_entsize :: u64

record elf_header =
  e_ident :: "u8 list"
  e_type :: u16
  e_machine :: u16
  e_version :: u32
  e_entry :: u64
  e_phoff :: u64
  e_shoff :: u64
  e_flags :: u32
  e_ehsize :: u16
  e_phentsize :: u16
  e_phnum :: u16
  e_shentsize :: u16
  e_shnum :: u16
  e_shstrndx :: u16

definition phdr_at :: "memory \<Rightarrow> u64 \<Rightarrow> elf64_phdr" where
  "phdr_at m p = \<lparr>p_type = mem32 m p, p_flags = mem32 m (p + 4), p_offset = mem64 m (p + 8), p_vaddr = mem64 m (p + 16),
     p_paddr = mem64 m (p + 24), p_filesz = mem64 m (p + 32), p_memsz = mem64 m (p + 40), p_align = mem64 m (p + 48)\<rparr>"

definition shdr_at :: "memory \<Rightarrow> u64 \<Rightarrow> elf64_shdr" where
  "shdr_at m p = \<lparr>sh_name = mem32 m p, sh_type = mem64 m (p + 4), sh_flags = mem64 m (p + 12), sh_addr = mem64 m (p + 20),
     sh_offset = mem64 m (p + 28), sh_size = mem64 m (p + 36), sh_link = mem32 m (p + 44), sh_info = mem32 m (p + 48),
     sh_addralign = mem64 m (p + 52), sh_entsize = mem64 m (p + 60)\<rparr>"

definition header_at :: "memory \<Rightarrow> u64 \<Rightarrow> elf_header" where
  "header_at m p = \<lparr>e_ident = read_bytes m p 16, e_type = mem16 m (p + 16), e_machine = mem16 m (p + 18),
     e_version = mem32 m (p + 20), e_entry = mem64 m (p + 24), e_phoff = mem64 m (p + 32), e_shoff = mem64 m (p + 40),
     e_flags = mem32 m (p + 48), e_ehsize = mem16 m (p + 52), e_phentsize = mem16 m (p + 54), e_phnum = mem16 m (p + 56),
     e_shentsize = mem16 m (p + 58), e_shnum = mem16 m (p + 60), e_shstrndx = mem16 m (p + 62)\<rparr>"

record elf_file =
  elf_filename :: "u8 list"
  in_memory_size :: int
  elf_memory :: u64
  virtual_base_address :: u64
  virtual_end_address :: u64
  physical_base_address :: u64
  physical_end_address :: u64

subsection \<open>Reading the headers\<close>

definition elf_get_entry :: "elf_header \<Rightarrow> u64" where
  "elf_get_entry h = e_entry h"

definition elf_get_entry_ptr :: "elf_header \<Rightarrow> u64" where
  "elf_get_entry_ptr h = e_entry h"

definition elf_valid_signature :: "elf_header \<Rightarrow> bool" where
  "elf_valid_signature h \<longleftrightarrow> take 4 (e_ident h) = [0x7F, 69, 76, 70]"

definition elf_valid_class :: "elf_header \<Rightarrow> bool" where
  "elf_valid_class h \<longleftrightarrow> e_ident h ! EI_CLASS = ELFCLASSNONE \<or> e_ident h ! EI_CLASS = ELFCLASS64"

definition elf_valid_encoding :: "elf_header \<Rightarrow> bool" where
  "elf_valid_encoding h \<longleftrightarrow> e_ident h ! EI_DATA = ELFDATANONE \<or> e_ident h ! EI_DATA = ELFDATA2LSB"

definition elf_is_executable :: "elf_header \<Rightarrow> bool" where
  "elf_is_executable h \<longleftrightarrow> e_type h = ET_EXEC \<and> e_entry h \<ge> ELF_MINIMUM_ENTRY"

definition elf_has_program_header :: "elf_header \<Rightarrow> bool" where
  "elf_has_program_header h \<longleftrightarrow> e_phoff h \<noteq> 0"

definition elf_header_of :: "memory \<Rightarrow> elf_file \<Rightarrow> elf_header" where
  "elf_header_of m ef = header_at m (elf_memory ef)"

text \<open>The addresses of the tables, from the address of the header and its contents.\<close>

definition elf_sheader :: "u64 \<Rightarrow> elf_header \<Rightarrow> u64" where
  "elf_sheader p h = p + e_shoff h"

definition elf_pheader :: "u64 \<Rightarrow> elf_header \<Rightarrow> u64" where
  "elf_pheader p h = (if e_phoff h = 0 then 0 else p + e_phoff h)"

definition elf_program_header :: "u64 \<Rightarrow> elf_header \<Rightarrow> int \<Rightarrow> u64" where
  "elf_program_header p h i = elf_pheader p h + 56 * word_of_int i"

definition elf_section :: "u64 \<Rightarrow> elf_header \<Rightarrow> int \<Rightarrow> u64" where
  "elf_section p h i = elf_sheader p h + 68 * word_of_int i"

definition elf_phdr_phys_address :: "elf_file \<Rightarrow> elf64_phdr \<Rightarrow> u64" where
  "elf_phdr_phys_address ef ph = elf_memory ef + p_offset ph"

definition elf_str_table :: "memory \<Rightarrow> u64 \<Rightarrow> elf_header \<Rightarrow> u64" where
  "elf_str_table m p h = p + sh_offset (shdr_at m (elf_section p h (uint (e_shstrndx h))))"

definition elf_validate_loaded :: "elf_header \<Rightarrow> int" where
  "elf_validate_loaded h =
     (if elf_valid_signature h \<and> elf_valid_class h \<and> elf_valid_encoding h \<and> elf_has_program_header h \<and> elf_is_executable h
      then PEACHOS_ALL_OK else - EINFORMAT)"

subsection \<open>Processing the program headers\<close>

text \<open>The bytes behind the file's part of a segment are cleared from the lowest segment's address on.\<close>

definition elf_process_phdr_pt_load :: "memory \<Rightarrow> elf_file \<Rightarrow> elf64_phdr \<Rightarrow> (memory \<times> elf_file \<times> int) option" where
  "elf_process_phdr_pt_load m ef ph = do {
     let ef1 = (if virtual_base_address ef \<ge> p_vaddr ph \<or> virtual_base_address ef = 0
       then ef\<lparr>virtual_base_address := p_vaddr ph, physical_base_address := elf_memory ef + p_offset ph\<rparr> else ef);
     let end_virtual_address = p_vaddr ph + p_filesz ph;
     let ef2 = (if virtual_end_address ef1 \<le> end_virtual_address \<or> virtual_end_address ef1 = 0
       then ef1\<lparr>virtual_end_address := end_virtual_address,
                physical_end_address := elf_memory ef1 + p_offset ph + p_filesz ph\<rparr> else ef1);
     m' \<leftarrow> (if p_memsz ph > p_filesz ph
           then memset m (physical_base_address ef2 + p_filesz ph) 0 (p_memsz ph - p_filesz ph) else Some m);
     Some (m', ef2, 0)
   }"

definition elf_process_pheader :: "memory \<Rightarrow> elf_file \<Rightarrow> elf64_phdr \<Rightarrow> (memory \<times> elf_file \<times> int) option" where
  "elf_process_pheader m ef ph = (if p_type ph = PT_LOAD then elf_process_phdr_pt_load m ef ph else Some (m, ef, 0))"

text \<open>
  The loop over the headers reads the header again in each turn. Clearing memory can only make the number of
  headers smaller, so the number before the loop bounds the turns.
\<close>

primrec pheaders_loop :: "memory \<Rightarrow> elf_file \<Rightarrow> int \<Rightarrow> nat \<Rightarrow> (memory \<times> elf_file \<times> int) option" where
  "pheaders_loop m ef i 0 = Some (m, ef, 0)"
| "pheaders_loop m ef i (Suc n) =
     (let h = elf_header_of m ef in
      if i < uint (e_phnum h) then do {
        (m', ef', res) \<leftarrow> elf_process_pheader m ef (phdr_at m (elf_program_header (elf_memory ef) h i));
        if res < 0 then Some (m', ef', res) else pheaders_loop m' ef' (i + 1) n
      } else Some (m, ef, 0))"

definition elf_process_pheaders :: "memory \<Rightarrow> elf_file \<Rightarrow> (memory \<times> elf_file \<times> int) option" where
  "elf_process_pheaders m ef = pheaders_loop m ef 0 (unat (e_phnum (elf_header_of m ef)))"

definition elf_process_loaded :: "memory \<Rightarrow> elf_file \<Rightarrow> (memory \<times> elf_file \<times> int) option" where
  "elf_process_loaded m ef =
     (let res = elf_validate_loaded (elf_header_of m ef) in
      if res < 0 then Some (m, ef, res) else elf_process_pheaders m ef)"

subsection \<open>Loading a file\<close>

text \<open>The kernel's memory under the open files.\<close>

definition with_heap :: "(('a, 'b) disk_state_scheme, 'p) file_state \<Rightarrow> 'a \<Rightarrow> (('a, 'b) disk_state_scheme, 'p) file_state" where
  "with_heap F s = F\<lparr>disks := (disks F)\<lparr>heap_state := s\<rparr>\<rparr>"

abbreviation heap_of :: "(('a, 'b) disk_state_scheme, 'p) file_state \<Rightarrow> 'a" where
  "heap_of F \<equiv> heap_state (disks F)"

definition null_elf_file :: elf_file where
  "null_elf_file = \<lparr>elf_filename = replicate 108 0, in_memory_size = 0, elf_memory = 0, virtual_base_address = 0,
     virtual_end_address = 0, physical_base_address = 0, physical_end_address = 0\<rparr>"

text \<open>
  \<open>al\<close> is the allocator as the file layer calls it, and \<open>fs\<close> the file systems. The result is the code and,
  on success, the address and contents of the \<open>struct elf_file\<close>. Without memory for it or for the
  file the code writes through a null pointer. \<open>kfree\<close> does nothing.
\<close>

definition elf_load ::
  "'s kernel_scheme allocator \<Rightarrow> (nat \<Rightarrow> (('s kernel_scheme, 'b) disk_state_scheme, 'p) filesystem) \<Rightarrow>
   (('s kernel_scheme, 'b) disk_state_scheme, 'p) file_state \<Rightarrow> u8 list \<Rightarrow>
   ((('s kernel_scheme, 'b) disk_state_scheme, 'p) file_state \<times> int \<times> (u64 \<times> elf_file) option) option" where
  "elf_load al fs F fname = do {
     (s1, ef) \<leftarrow> kzalloc (heap_of F) 152;
     if ef = 0 then None
     else do {
       (F2, fd) \<leftarrow> fopen al fs (with_heap F s1) fname [114, 0];
       if fd \<le> 0 then do { (F3, _) \<leftarrow> fclose fs F2 0; Some (F3, - EIO, None) }
       else do {
         (stat, res) \<leftarrow> fstat fs F2 fd \<lparr>stat_flags = 0, filesize = 0\<rparr>;
         if res < 0 then do { (F3, _) \<leftarrow> fclose fs F2 fd; Some (F3, res, None) }
         else do {
           let n = unat (filesize stat);
           (s3, mem) \<leftarrow> kzalloc (heap_of F2) (ucast (filesize stat));
           if mem = 0 \<and> n \<noteq> 0 then None
           else do {
             (F4, res, bytes) \<leftarrow> fread fs (with_heap F2 s3) (read_bytes (kmem s3) mem n) (filesize stat) 1 fd;
             let s4 = (heap_of F4)\<lparr>kmem := write_bytes (kmem (heap_of F4)) mem bytes\<rparr>;
             if res < 0 then do { (F5, _) \<leftarrow> fclose fs (with_heap F4 s4) fd; Some (F5, res, None) }
             else do {
               (m, elf, res) \<leftarrow> elf_process_loaded (kmem s4) (null_elf_file\<lparr>elf_memory := mem\<rparr>);
               (F5, _) \<leftarrow> fclose fs (with_heap F4 (s4\<lparr>kmem := m\<rparr>)) fd;
               Some (F5, res, if res < 0 then None else Some (ef, elf))
             }
           }
         }
       }
     }
   }"

subsection \<open>What loading does to the memory of a program\<close>

lemma memset_small: "unat n < 2 ^ 31 \<Longrightarrow> memset m p c n = Some (memset_bytes m p (word_of_int c) (unat n))"
  by (simp add: memset_def)

lemma pt_load_first:
  assumes "virtual_base_address ef = 0" "p_memsz ph \<le> p_filesz ph"
  shows "\<exists>ef'. elf_process_phdr_pt_load m ef ph = Some (m, ef', 0) \<and> elf_memory ef' = elf_memory ef \<and>
    virtual_base_address ef' = p_vaddr ph \<and> physical_base_address ef' = elf_phdr_phys_address ef ph"
  using assms by (auto simp: elf_process_phdr_pt_load_def elf_phdr_phys_address_def Let_def)

lemma pt_load_higher:
  assumes "virtual_base_address ef \<noteq> 0" "virtual_base_address ef < p_vaddr ph" "p_filesz ph < p_memsz ph"
    "unat (p_memsz ph - p_filesz ph) < 2 ^ 31"
  shows "\<exists>ef'. elf_process_phdr_pt_load m ef ph =
    Some (memset_bytes m (physical_base_address ef + p_filesz ph) 0 (unat (p_memsz ph - p_filesz ph)), ef', 0)"
  using assms by (auto simp: elf_process_phdr_pt_load_def Let_def memset_small)

text \<open>
  C30. \<^bold>\<open>One segment is loaded as the format says.\<close> For the first segment of a file, the bytes behind the file's part
  become zero up to the size in memory, nothing else changes, and the bases are the segment's.
\<close>

theorem elf_segment_image:
  assumes "virtual_base_address ef = 0" "virtual_end_address ef = 0" "p_type ph = PT_LOAD"
    "p_filesz ph \<le> p_memsz ph" "unat (p_memsz ph) < 2 ^ 31"
  shows "\<exists>m' ef'. elf_process_pheader m ef ph = Some (m', ef', 0) \<and>
    (\<forall>k < unat (p_memsz ph). m' (elf_phdr_phys_address ef ph + of_nat k) =
       (if k < unat (p_filesz ph) then m (elf_phdr_phys_address ef ph + of_nat k) else 0)) \<and>
    (\<forall>x. (\<forall>k < unat (p_memsz ph). x \<noteq> elf_phdr_phys_address ef ph + of_nat k) \<longrightarrow> m' x = m x) \<and>
    virtual_base_address ef' = p_vaddr ph \<and> virtual_end_address ef' = p_vaddr ph + p_filesz ph \<and>
    physical_base_address ef' = elf_phdr_phys_address ef ph"
proof -
  let ?p = "elf_phdr_phys_address ef ph" and ?f = "unat (p_filesz ph)" and ?n = "unat (p_memsz ph - p_filesz ph)"
  have n: "unat (p_memsz ph) = ?f + ?n" "?n < 2 ^ 31" "?f < 2 ^ 31"
    using assms(4,5) by (simp_all add: unat_sub word_le_nat_alt)
  let ?m' = "memset_bytes m (?p + p_filesz ph) 0 ?n"
  have at: "?m' (?p + of_nat k) = (if k < ?f then m (?p + of_nat k) else 0)" if k: "k < ?f + ?n" for k
  proof -
    have "(\<exists>i<?n. ?p + of_nat k = ?p + p_filesz ph + of_nat i) \<longleftrightarrow> ?f \<le> k"
    proof
      assume "\<exists>i<?n. ?p + of_nat k = ?p + p_filesz ph + of_nat i"
      then obtain i where i: "i < ?n" "?p + of_nat k = ?p + of_nat (?f + i)" by (auto simp: add.assoc)
      moreover have "k < 2 ^ 64" "?f + i < 2 ^ 64" using i(1) k n(2,3) by simp_all
      ultimately have "k = ?f + i" using offset_eq_iff by blast
      then show "?f \<le> k" by simp
    next
      assume le: "?f \<le> k"
      then have "(of_nat k :: u64) = p_filesz ph + of_nat (k - ?f)" by (simp add: of_nat_diff)
      then show "\<exists>i<?n. ?p + of_nat k = ?p + p_filesz ph + of_nat i"
        using k le by (intro exI [of _ "k - ?f"]) (auto simp: add.assoc)
    qed
    then show ?thesis by (auto simp: memset_bytes_apply)
  qed
  have other: "?m' x = m x" if x: "\<forall>k < ?f + ?n. x \<noteq> ?p + of_nat k" for x
  proof -
    have "x \<noteq> ?p + p_filesz ph + of_nat i" if i: "i < ?n" for i
      using x [rule_format, of "?f + i"] i by (simp add: add.assoc)
    then show ?thesis by (auto simp: memset_bytes_apply)
  qed
  have le: "\<not> p_filesz ph < p_memsz ph \<Longrightarrow> ?n = 0" using assms(4) by (simp add: order.antisym not_less)
  let ?ef = "ef\<lparr>virtual_base_address := p_vaddr ph, physical_base_address := ?p,
    virtual_end_address := p_vaddr ph + p_filesz ph, physical_end_address := ?p + p_filesz ph\<rparr>"
  have "elf_process_pheader m ef ph = Some (?m', ?ef, 0)"
    using assms(1-3) le n(2)
    by (auto simp: elf_process_pheader_def elf_process_phdr_pt_load_def Let_def memset_small elf_phdr_phys_address_def)
  then show ?thesis
    using at other n(1) by (intro exI [of _ ?m'] exI [of _ ?ef]) simp
qed

text \<open>
  \<^bold>\<open>The second segment is cleared inside the first one.\<close> For a program of two segments in rising
  addresses, of which only the second is larger in memory than in the file, loading clears bytes counted
  from the first segment's address: the second segment keeps what the file has behind it, and when it is the
  shorter one in the file, the first one loses its contents there.
\<close>

theorem elf_second_segment_clears_first:
  assumes "virtual_base_address ef = 0" "h = elf_header_of m ef" "e_phnum h = 2"
    "p1 = phdr_at m (elf_program_header (elf_memory ef) h 0)" "p2 = phdr_at m (elf_program_header (elf_memory ef) h 1)"
    "p_type p1 = PT_LOAD" "p_type p2 = PT_LOAD" "0 < p_vaddr p1" "p_vaddr p1 < p_vaddr p2"
    "p_memsz p1 = p_filesz p1" "p_filesz p2 < p_memsz p2" "unat (p_memsz p2) < 2 ^ 31"
  shows "\<exists>m' ef'. elf_process_pheaders m ef = Some (m', ef', 0) \<and>
    (\<forall>x. m' x = (if \<exists>i < unat (p_memsz p2 - p_filesz p2). x = elf_phdr_phys_address ef p1 + p_filesz p2 + of_nat i
       then 0 else m x))"
proof -
  obtain ef1 where ef1: "elf_process_phdr_pt_load m ef p1 = Some (m, ef1, 0)" "elf_memory ef1 = elf_memory ef"
    "virtual_base_address ef1 = p_vaddr p1" "physical_base_address ef1 = elf_phdr_phys_address ef p1"
    using pt_load_first [of ef p1 m] assms(1,10) by auto
  have h1: "elf_header_of m ef1 = h" using ef1(2) assms(2) by (simp add: elf_header_of_def)
  have n: "unat (p_memsz p2 - p_filesz p2) < 2 ^ 31"
    using assms(11,12) by (simp add: unat_sub word_le_nat_alt word_less_nat_alt)
  have v: "p_vaddr p1 \<noteq> 0" using assms(8) by (simp add: word_gt_0)
  obtain ef2 where ef2: "elf_process_phdr_pt_load m ef1 p2 =
    Some (memset_bytes m (physical_base_address ef1 + p_filesz p2) 0 (unat (p_memsz p2 - p_filesz p2)), ef2, 0)"
    using pt_load_higher [of ef1 p2 m] assms(9,11) n ef1(3) v by auto
  have "pheaders_loop m ef 0 2 = Some (memset_bytes m (physical_base_address ef1 + p_filesz p2) 0
      (unat (p_memsz p2 - p_filesz p2)), ef2, 0)"
  proof -
    have two: "(2 :: nat) = Suc (Suc 0)" by simp
    have c: "uint (e_phnum h) = 2" using assms(3) by simp
    show ?thesis
      using assms(4-7) ef1(1) ef2
      unfolding two by (simp add: Let_def elf_process_pheader_def c h1 ef1(2) assms(2) [symmetric])
  qed
  then show ?thesis
    using assms(2,3) ef1(4) by (simp add: elf_process_pheaders_def memset_bytes_apply)
qed

subsection \<open>A program with two segments\<close>

text \<open>
  A file at \<open>0x10000\<close> with program headers at its offset 64: \<open>0x20\<close> bytes of code at offset \<open>0x100\<close> for the address
  \<open>0x400000\<close>, and at offset \<open>0x200\<close> eight bytes of data for \<open>0x401000\<close>, where sixteen are wanted.
\<close>

definition two_segments :: memory where
  "two_segments = (\<lambda>_. 0)(0x10020 := 64, 0x10038 := 2,
     0x10040 := 1, 0x10049 := 1, 0x10052 := 0x40, 0x10060 := 0x20, 0x10068 := 0x20,
     0x10078 := 1, 0x10081 := 2, 0x10089 := 0x10, 0x1008A := 0x40, 0x10098 := 8, 0x100A0 := 0x10, 0x10108 := 0xC3)"

lemma two_segments_header:
  "e_phnum (header_at two_segments 0x10000) = 2" "e_phoff (header_at two_segments 0x10000) = 64"
  by (simp_all add: header_at_def mem16_def mem32_def mem64_def two_segments_def)

lemma two_segments_phdrs:
  "p_type (phdr_at two_segments 0x10040) = 1" "p_vaddr (phdr_at two_segments 0x10040) = 0x400000"
  "p_filesz (phdr_at two_segments 0x10040) = 0x20" "p_memsz (phdr_at two_segments 0x10040) = 0x20"
  "p_offset (phdr_at two_segments 0x10040) = 0x100"
  "p_type (phdr_at two_segments 0x10078) = 1" "p_vaddr (phdr_at two_segments 0x10078) = 0x401000"
  "p_filesz (phdr_at two_segments 0x10078) = 8" "p_memsz (phdr_at two_segments 0x10078) = 0x10"
  by (simp_all add: phdr_at_def mem16_def mem32_def mem64_def two_segments_def)

lemma two_segments_tables:
  "elf_header_of m (null_elf_file\<lparr>elf_memory := 0x10000\<rparr>) = header_at m 0x10000"
  "e_phoff h = 64 \<Longrightarrow> elf_program_header 0x10000 h 0 = 0x10040"
  "e_phoff h = 64 \<Longrightarrow> elf_program_header 0x10000 h 1 = 0x10078"
  by (simp_all add: elf_header_of_def elf_program_header_def elf_pheader_def)

lemma null_elf_file_simps:
  "virtual_base_address (null_elf_file\<lparr>elf_memory := p\<rparr>) = 0" "virtual_end_address (null_elf_file\<lparr>elf_memory := p\<rparr>) = 0"
  "elf_memory (null_elf_file\<lparr>elf_memory := p\<rparr>) = p"
  by (simp_all add: null_elf_file_def)

theorem elf_segment_image_witness:
  "\<exists>m' ef'. elf_process_pheader two_segments (null_elf_file\<lparr>elf_memory := 0x10000\<rparr>) (phdr_at two_segments 0x10040) = Some (m', ef', 0) \<and>
     m' 0x10108 = 0xC3 \<and> virtual_base_address ef' = 0x400000"
proof -
  obtain m' ef' where r: "elf_process_pheader two_segments (null_elf_file\<lparr>elf_memory := 0x10000\<rparr>) (phdr_at two_segments 0x10040) = Some (m', ef', 0)"
    "\<forall>k < 0x20. m' (0x10100 + of_nat k) = two_segments (0x10100 + of_nat k)" "virtual_base_address ef' = 0x400000"
    using elf_segment_image [of "null_elf_file\<lparr>elf_memory := 0x10000\<rparr>" "phdr_at two_segments 0x10040" two_segments]
    by (auto simp: two_segments_phdrs null_elf_file_simps elf_phdr_phys_address_def)
  have "m' 0x10108 = 0xC3" using r(2) [rule_format, of 8] by (simp add: two_segments_def)
  then show ?thesis using r by blast
qed

theorem elf_second_segment_clears_first_witness:
  "\<exists>m' ef'. elf_process_pheaders two_segments (null_elf_file\<lparr>elf_memory := 0x10000\<rparr>) = Some (m', ef', 0) \<and>
     two_segments 0x10108 = 0xC3 \<and> m' 0x10108 = 0"
proof -
  obtain m' ef' where r: "elf_process_pheaders two_segments (null_elf_file\<lparr>elf_memory := 0x10000\<rparr>) = Some (m', ef', 0)"
    "\<forall>x. m' x = (if \<exists>i < unat (8 :: u64). x = 0x10100 + 8 + of_nat i then 0 else two_segments x)"
    using elf_second_segment_clears_first [of "null_elf_file\<lparr>elf_memory := 0x10000\<rparr>" _ two_segments, OF _ refl _ refl refl]
    by (auto simp: two_segments_tables two_segments_header two_segments_phdrs null_elf_file_simps elf_phdr_phys_address_def)
  have "\<exists>i < 8. (of_nat i :: u64) = 0" by (rule exI [of _ 0]) simp
  then have "m' 0x10108 = 0" using r(2) [rule_format, of "0x10108"] by simp
  then show ?thesis using r(1) by (auto simp: two_segments_def)
qed

end
