(* ===== verification/Process.thy ===== *)
theory Process
  imports Task ElfLoader
begin

section \<open>Processes: process.c, the part on the kernel's memory\<close>

text \<open>
  The process table, the windows and events of a process, its memory and its arguments. The structures that
  processes point to live in stores by their addresses; \<open>0\<close> is the null pointer. What uses open files is in
  ProcessFile. The window system is a parameter: the record of the functions of \<open>graphics/window.c\<close> that the code
  calls, over the same state.
\<close>

abbreviation (input) PROCESS_MAX_WINDOW_EVENTS_RECORDED :: u64 where "PROCESS_MAX_WINDOW_EVENTS_RECORDED \<equiv> 1000"
abbreviation (input) WINDOW_MAX_TITLE :: int where "WINDOW_MAX_TITLE \<equiv> 128"
abbreviation (input) WINDOW_EVENT_TYPE_FOCUS :: int where "WINDOW_EVENT_TYPE_FOCUS \<equiv> 1"
abbreviation (input) WINDOW_EVENT_TYPE_MOUSE_MOVE :: int where "WINDOW_EVENT_TYPE_MOUSE_MOVE \<equiv> 3"
abbreviation (input) WINDOW_EVENT_TYPE_MOUSE_CLICK :: int where "WINDOW_EVENT_TYPE_MOUSE_CLICK \<equiv> 4"
abbreviation (input) WINDOW_EVENT_TYPE_WINDOW_CLOSE :: int where "WINDOW_EVENT_TYPE_WINDOW_CLOSE \<equiv> 5"

record pstate = ktask +
  process_vector :: "u64 tvec option"
  current_process :: u64
  handle_at :: "u64 \<Rightarrow> process_file_handle"
  window_at :: "u64 \<Rightarrow> process_window"
  elf_files :: "u64 \<Rightarrow> elf_file"
  userland_ptr_at :: "u64 \<Rightarrow> u64"

text \<open>The geometry of a window's body, as \<open>window->graphics\<close> has it.\<close>

record window_body =
  relative_x :: u32
  relative_y :: u32
  body_width :: u32
  body_height :: u32

record 's window_system =
  ws_screen :: "'s \<Rightarrow> u32 \<times> u32"
  ws_body :: "'s \<Rightarrow> u64 \<Rightarrow> window_body"
  ws_create :: "'s \<Rightarrow> u8 list \<Rightarrow> u64 \<Rightarrow> u64 \<Rightarrow> int \<Rightarrow> int \<Rightarrow> int \<Rightarrow> int \<Rightarrow> ('s \<times> u64) option"
  ws_close :: "'s \<Rightarrow> u64 \<Rightarrow> 's option"
  ws_register_handler :: "'s \<Rightarrow> u64 \<Rightarrow> 's option"

definition update_process :: "'s ktask_scheme \<Rightarrow> u64 \<Rightarrow> (process \<Rightarrow> process) \<Rightarrow> 's ktask_scheme" where
  "update_process s p f = s\<lparr>processes := (processes s)(p := f (processes s p))\<rparr>"

definition process_virtual_address_to_physical :: "'s ktask_scheme \<Rightarrow> u64 \<Rightarrow> u64 \<Rightarrow> u64 option" where
  "process_virtual_address_to_physical s p virt_addr = do {
     desc \<leftarrow> process_paging_desc (processes s p);
     Some (paging_get_physical_address (tables s) desc virt_addr)
   }"

text \<open>The \<open>n\<close> bytes of an integer in memory.\<close>

definition le_bytes :: "nat \<Rightarrow> 'a :: len word \<Rightarrow> u8 list" where
  "le_bytes n w = map (\<lambda>i. ucast (drop_bit (8 * i) w)) [0..<n]"

subsection \<open>Setting up\<close>

definition process_system_init :: "'s pstate_scheme \<Rightarrow> 's pstate_scheme option" where
  "process_system_init s = do {
     (s1, v) \<leftarrow> tvec_new s 8 10;
     Some (s1\<lparr>process_vector := v\<rparr>)
   }"

text \<open>The events a new vector grows by are what the memory held there: \<open>junk\<close>.\<close>

definition process_init :: "(nat \<Rightarrow> window_event) \<Rightarrow> 's ktask_scheme \<Rightarrow> u64 \<Rightarrow> 's ktask_scheme option" where
  "process_init junk s p = do {
     let s0 = update_process s p (\<lambda>_. null_process);
     (s1, a) \<leftarrow> tvec_new s0 24 10;
     let s1 = update_process s1 p (\<lambda>k. k\<lparr>allocations := a\<rparr>);
     (s2, f) \<leftarrow> tvec_new s1 8 4;
     let s2 = update_process s2 p (\<lambda>k. k\<lparr>file_handles := f\<rparr>);
     (s3, u) \<leftarrow> tvec_new s2 8 4;
     let s3 = update_process s3 p (\<lambda>k. k\<lparr>kernel_userland_ptrs := u\<rparr>);
     (s4, w) \<leftarrow> tvec_new s3 8 4;
     let s4 = update_process s4 p (\<lambda>k. k\<lparr>windows := w\<rparr>);
     (s5, e) \<leftarrow> tvec_new s4 24 100;
     ev \<leftarrow> e;
     (s6, ev', _) \<leftarrow> tvec_grow s5 ev PROCESS_MAX_WINDOW_EVENTS_RECORDED junk;
     Some (update_process s6 p (\<lambda>k. k\<lparr>window_events := Some ev'\<rparr>))
   }"

definition process_current_set :: "'s pstate_scheme \<Rightarrow> u64 \<Rightarrow> 's pstate_scheme" where
  "process_current_set s p = s\<lparr>current_process := p\<rparr>"

definition process_switch :: "'s pstate_scheme \<Rightarrow> u64 \<Rightarrow> 's pstate_scheme \<times> int" where
  "process_switch s p = (s\<lparr>current_process := p\<rparr>, 0)"

text \<open>An index outside the table gives the error pointer, of which \<open>ERROR(EINVARG)\<close> makes the address \<open>2\<close>.\<close>

definition process_get :: "'s pstate_scheme \<Rightarrow> int \<Rightarrow> u64 option" where
  "process_get s i = do {
     v \<leftarrow> process_vector s;
     r \<leftarrow> tvec_at v (word_of_int i);
     Some (case r of Inl _ \<Rightarrow> 2 | Inr p \<Rightarrow> p)
   }"

subsection \<open>Windows of a process\<close>

definition process_owns_kernel_window :: "'s pstate_scheme \<Rightarrow> u64 \<Rightarrow> u64 \<Rightarrow> bool option" where
  "process_owns_kernel_window s p w = do {
     v \<leftarrow> windows (processes s p);
     wins \<leftarrow> tvec_items v;
     Some (find (\<lambda>win. win \<noteq> 0 \<and> kernel_win (window_at s win) = w) wins \<noteq> None)
   }"

primrec owner_loop :: "'s pstate_scheme \<Rightarrow> u64 list \<Rightarrow> u64 \<Rightarrow> u64 option" where
  "owner_loop s [] w = Some 0"
| "owner_loop s (p # ps) w =
     (if p = 0 then owner_loop s ps w
      else do { owns \<leftarrow> process_owns_kernel_window s p w; if owns then Some p else owner_loop s ps w })"

definition process_get_from_kernel_window :: "'s pstate_scheme \<Rightarrow> u64 \<Rightarrow> u64 option" where
  "process_get_from_kernel_window s w = do {
     v \<leftarrow> process_vector s;
     ps \<leftarrow> tvec_items v;
     owner_loop s ps w
   }"

definition process_window_get_from_user_window :: "'s pstate_scheme \<Rightarrow> u64 \<Rightarrow> u64 \<Rightarrow> u64 option" where
  "process_window_get_from_user_window s p uw = do {
     v \<leftarrow> windows (processes s p);
     wins \<leftarrow> tvec_items v;
     Some (case find (\<lambda>win. win \<noteq> 0 \<and> user_win (window_at s win) = uw) wins of None \<Rightarrow> 0 | Some win \<Rightarrow> win)
   }"

definition process_window_get_from_kernel_window :: "'s pstate_scheme \<Rightarrow> u64 \<Rightarrow> u64 \<Rightarrow> u64 option" where
  "process_window_get_from_kernel_window s p w = do {
     v \<leftarrow> windows (processes s p);
     wins \<leftarrow> tvec_items v;
     Some (case find (\<lambda>win. win \<noteq> 0 \<and> kernel_win (window_at s win) = w) wins of None \<Rightarrow> 0 | Some win \<Rightarrow> win)
   }"

definition process_set_sysout_window :: "'s ktask_scheme \<Rightarrow> u64 \<Rightarrow> u64 \<Rightarrow> 's ktask_scheme" where
  "process_set_sysout_window s p win = update_process s p (\<lambda>k. k\<lparr>sysout_win := win\<rparr>)"

primrec close_windows_loop ::
  "'s pstate_scheme window_system \<Rightarrow> 's pstate_scheme \<Rightarrow> u64 \<Rightarrow> nat \<Rightarrow> nat \<Rightarrow> 's pstate_scheme option" where
  "close_windows_loop ws s p i 0 = Some s"
| "close_windows_loop ws s p i (Suc n) = do {
     v \<leftarrow> windows (processes s p);
     r \<leftarrow> tvec_at v (of_nat i);
     let win = (case r of Inl _ \<Rightarrow> 0 | Inr win \<Rightarrow> win);
     s' \<leftarrow> (if win \<noteq> 0 \<and> kernel_win (window_at s win) \<noteq> 0 then ws_close ws s (kernel_win (window_at s win)) else Some s);
     close_windows_loop ws s' p (Suc i) n
   }"

definition process_close_windows ::
  "'s pstate_scheme window_system \<Rightarrow> 's pstate_scheme \<Rightarrow> u64 \<Rightarrow> 's pstate_scheme option" where
  "process_close_windows ws s p = do {
     v \<leftarrow> windows (processes s p);
     close_windows_loop ws s p 0 (unat (t_elems (tv_header v)))
   }"

subsection \<open>The queue of window events\<close>

definition process_push_window_event :: "'s ktask_scheme \<Rightarrow> u64 \<Rightarrow> window_event \<Rightarrow> ('s ktask_scheme \<times> int) option" where
  "process_push_window_event s p event = do {
     let k = processes s p;
     let element_index = int_of_size (event_index k mod PROCESS_MAX_WINDOW_EVENTS_RECORDED);
     v \<leftarrow> window_events k;
     (v', _) \<leftarrow> tvec_overwrite v element_index (event\<lparr>event_window := 0\<rparr>);
     Some (update_process s p (\<lambda>k. k\<lparr>window_events := Some v', total_unpopped := total_unpopped k + 1\<rparr>), 0)
   }"

text \<open>The buffer for the event is cleared when the element cannot be read.\<close>

definition process_pop_window_event :: "'s ktask_scheme \<Rightarrow> u64 \<Rightarrow> window_event \<Rightarrow> ('s ktask_scheme \<times> int \<times> window_event) option" where
  "process_pop_window_event s p event_out =
     (if p = 0 then Some (s, - EINVARG, event_out)
      else if total_unpopped (processes s p) > 0 then do {
        v \<leftarrow> window_events (processes s p);
        r \<leftarrow> tvec_at v 0;
        let ev = (case r of Inl _ \<Rightarrow> \<lparr>event_type = 0, win_id = 0, event_window = 0, data_x = 0, data_y = 0\<rparr> | Inr e \<Rightarrow> e);
        Some (update_process s p (\<lambda>k. k\<lparr>total_unpopped := total_unpopped k - 1\<rparr>), 0, ev)
      } else Some (s, - EOUTOFRANGE, event_out))"

text \<open>The position relative to the window's body, in the mixed signed and unsigned arithmetic of the code.\<close>

definition process_window_event_get_relative_window_body_coords :: "window_body \<Rightarrow> window_event \<Rightarrow> window_event \<times> int" where
  "process_window_event_get_relative_window_body_coords b event =
     (let rel_body_x = sint (word_of_int (data_x event) - relative_x b);
          rel_body_y = sint (word_of_int (data_y event) - relative_y b)
      in if rel_body_x < 0 \<or> rel_body_y < 0 \<or> rel_body_x > uint (body_width b) \<or> rel_body_y > uint (body_height b)
         then (event, - EINVARG)
         else (event\<lparr>data_x := rel_body_x, data_y := rel_body_y\<rparr>, 0))"

definition process_window_event_modify_for_userspace_mouse_click :: "window_body \<Rightarrow> window_event \<Rightarrow> window_event \<times> int" where
  "process_window_event_modify_for_userspace_mouse_click b event = process_window_event_get_relative_window_body_coords b event"

definition process_window_event_modify_for_userspace_mouse_move :: "window_body \<Rightarrow> window_event \<Rightarrow> window_event \<times> int" where
  "process_window_event_modify_for_userspace_mouse_move b event = process_window_event_get_relative_window_body_coords b event"

definition process_window_event_modify_for_userspace :: "window_body \<Rightarrow> window_event \<Rightarrow> window_event \<times> int" where
  "process_window_event_modify_for_userspace b event =
     (if event_type event = WINDOW_EVENT_TYPE_MOUSE_CLICK then process_window_event_modify_for_userspace_mouse_click b event
      else if event_type event = WINDOW_EVENT_TYPE_MOUSE_MOVE then process_window_event_modify_for_userspace_mouse_move b event
      else (event, 0))"

definition process_window_event_handler_event_focus :: "'s pstate_scheme \<Rightarrow> u64 \<Rightarrow> 's pstate_scheme \<times> int" where
  "process_window_event_handler_event_focus s p = (process_current_set s p, 0)"

subsection \<open>Allocations of a process\<close>

definition null_allocation :: process_allocation where
  "null_allocation = \<lparr>alloc_ptr = 0, alloc_end = 0, alloc_size = 0\<rparr>"

definition set_allocations :: "'s ktask_scheme \<Rightarrow> u64 \<Rightarrow> process_allocation tvec \<Rightarrow> 's ktask_scheme" where
  "set_allocations s p v = update_process s p (\<lambda>k. k\<lparr>allocations := Some v\<rparr>)"

text \<open>The index of the first element with a property, counted from \<open>i\<close>.\<close>

fun index_from :: "('x \<Rightarrow> bool) \<Rightarrow> 'x list \<Rightarrow> nat \<Rightarrow> nat option" where
  "index_from P [] i = None"
| "index_from P (x # xs) i = (if P x then Some i else index_from P xs (Suc i))"

definition process_find_free_allocation_index :: "'s ktask_scheme \<Rightarrow> u64 \<Rightarrow> ('s ktask_scheme \<times> int) option" where
  "process_find_free_allocation_index s p = do {
     v \<leftarrow> allocations (processes s p);
     as \<leftarrow> tvec_items v;
     case index_from (\<lambda>a. alloc_ptr a = 0) as 0 of
       Some i \<Rightarrow> Some (s, int i)
     | None \<Rightarrow> do {
         (s1, v', res) \<leftarrow> tvec_push s v null_allocation;
         Some (set_allocations s1 p v', res)
       }
   }"

definition process_allocation_set_map ::
  "'s ktask_scheme \<Rightarrow> u64 \<Rightarrow> int \<Rightarrow> u64 \<Rightarrow> u64 \<Rightarrow> ('s ktask_scheme \<times> int) option" where
  "process_allocation_set_map s p allocation_entry_index ptr sz = do {
     desc \<leftarrow> process_paging_desc (processes s p);
     (s1, res) \<leftarrow> paging_map_to kzalloc s desc ptr ptr (paging_align_address (ptr + sz))
        (PAGING_IS_WRITEABLE OR PAGING_IS_PRESENT OR PAGING_ACCESS_FROM_ALL);
     if res < 0 then Some (s1, res)
     else do {
       v \<leftarrow> allocations (processes s1 p);
       r \<leftarrow> tvec_at v (word_of_int allocation_entry_index);
       case r of
         Inl e \<Rightarrow> Some (s1, e)
       | Inr a \<Rightarrow> do {
           (v', _) \<leftarrow> tvec_overwrite v allocation_entry_index
              \<lparr>alloc_ptr = ptr, alloc_end = ptr + sz, alloc_size = sz\<rparr>;
           Some (set_allocations s1 p v', 0)
         }
     }
   }"

text \<open>
  The code is the result of the last \<open>vector_at\<close>: with no match it is \<open>0\<close> too, unless there are no elements. The
  index is written on a match only.
\<close>

definition process_allocation_exists :: "'s ktask_scheme \<Rightarrow> u64 \<Rightarrow> u64 \<Rightarrow> (int \<times> nat option) option" where
  "process_allocation_exists s p ptr = do {
     v \<leftarrow> allocations (processes s p);
     as \<leftarrow> tvec_items v;
     Some (if as = [] then - ENOTFOUND else 0, index_from (\<lambda>a. alloc_ptr a = ptr) as 0)
   }"

definition process_malloc :: "'s ktask_scheme \<Rightarrow> u64 \<Rightarrow> u64 \<Rightarrow> ('s ktask_scheme \<times> u64) option" where
  "process_malloc s p sz = do {
     (s1, ptr) \<leftarrow> kzalloc s sz;
     if ptr = 0 then Some (s1, 0)
     else do {
       (s2, index) \<leftarrow> process_find_free_allocation_index s1 p;
       if index < 0 then Some (kfree s2 ptr, 0)
       else do {
         (s3, res) \<leftarrow> process_allocation_set_map s2 p index ptr sz;
         Some (if res < 0 then (kfree s3 ptr, 0) else (s3, ptr))
       }
     }
   }"

text \<open>With a pointer that is not found the index stays \<open>0\<close>.\<close>

definition process_realloc :: "'s ktask_scheme \<Rightarrow> u64 \<Rightarrow> u64 \<Rightarrow> u64 \<Rightarrow> ('s ktask_scheme \<times> u64) option" where
  "process_realloc s p old_virt_ptr new_size =
     (if old_virt_ptr = 0 then process_malloc s p new_size
      else do {
        (res, found) \<leftarrow> process_allocation_exists s p old_virt_ptr;
        if res < 0 then Some (s, 0)
        else do {
          let old_allocation_index = (case found of None \<Rightarrow> 0 | Some i \<Rightarrow> i);
          old_phys_ptr \<leftarrow> task_virtual_address_to_physical s (process_task (processes s p)) old_virt_ptr;
          if old_phys_ptr = 0 then Some (s, 0)
          else do {
            (s1, new_ptr) \<leftarrow> krealloc s old_phys_ptr new_size;
            if new_ptr = 0 then Some (s1, 0)
            else do {
              (s2, res) \<leftarrow> process_allocation_set_map s1 p (int old_allocation_index) new_ptr new_size;
              Some (s2, new_ptr)
            }
          }
        }
      })"

definition process_is_process_pointer :: "'s ktask_scheme \<Rightarrow> u64 \<Rightarrow> u64 \<Rightarrow> bool option" where
  "process_is_process_pointer s p ptr = do {
     v \<leftarrow> allocations (processes s p);
     as \<leftarrow> tvec_items v;
     Some (find (\<lambda>a. alloc_ptr a = ptr) as \<noteq> None)
   }"

definition process_allocation_unjoin :: "'s ktask_scheme \<Rightarrow> u64 \<Rightarrow> u64 \<Rightarrow> 's ktask_scheme option" where
  "process_allocation_unjoin s p ptr = do {
     v \<leftarrow> allocations (processes s p);
     as \<leftarrow> tvec_items v;
     Some (set_allocations s p (v\<lparr>tv_items := map (\<lambda>a. if alloc_ptr a = ptr then null_allocation else a) as\<rparr>))
   }"

definition process_get_allocation_by_start_addr :: "'s ktask_scheme \<Rightarrow> u64 \<Rightarrow> u64 \<Rightarrow> process_allocation option option" where
  "process_get_allocation_by_start_addr s p addr = do {
     v \<leftarrow> allocations (processes s p);
     as \<leftarrow> tvec_items v;
     Some (find (\<lambda>a. alloc_ptr a = addr) as)
   }"

definition process_free :: "'s ktask_scheme \<Rightarrow> u64 \<Rightarrow> u64 \<Rightarrow> 's ktask_scheme option" where
  "process_free s p ptr = do {
     found \<leftarrow> process_get_allocation_by_start_addr s p ptr;
     case found of
       None \<Rightarrow> Some s
     | Some a \<Rightarrow> do {
         desc \<leftarrow> process_paging_desc (processes s p);
         (s1, res) \<leftarrow> paging_map_to kzalloc s desc (alloc_ptr a) (alloc_ptr a)
            (paging_align_address (alloc_ptr a + alloc_size a)) 0;
         if res < 0 then Some s1
         else do { s2 \<leftarrow> process_allocation_unjoin s1 p ptr; Some (kfree s2 ptr) }
       }
   }"

primrec terminate_allocations_loop :: "'s ktask_scheme \<Rightarrow> u64 \<Rightarrow> nat \<Rightarrow> nat \<Rightarrow> 's ktask_scheme option" where
  "terminate_allocations_loop s p i 0 = Some s"
| "terminate_allocations_loop s p i (Suc n) = do {
     v \<leftarrow> allocations (processes s p);
     r \<leftarrow> tvec_at v (of_nat i);
     case r of
       Inl _ \<Rightarrow> Some s
     | Inr a \<Rightarrow> do {
         s' \<leftarrow> (if alloc_ptr a \<noteq> 0 then process_free s p (alloc_ptr a) else Some s);
         terminate_allocations_loop s' p (Suc i) n
       }
   }"

definition process_terminate_allocations :: "'s ktask_scheme \<Rightarrow> u64 \<Rightarrow> ('s ktask_scheme \<times> int) option" where
  "process_terminate_allocations s p = do {
     v \<leftarrow> allocations (processes s p);
     s' \<leftarrow> terminate_allocations_loop s p 0 (unat (t_elems (tv_header v)));
     Some (s', 0)
   }"

text \<open>Freeing the program's data is \<open>kfree\<close> and \<open>elf_close\<close>, which change nothing: only the code is left.\<close>

definition process_free_binary_data :: "'s ktask_scheme \<Rightarrow> u64 \<Rightarrow> 's ktask_scheme \<times> int" where
  "process_free_binary_data s p = (if program (processes s p) \<noteq> 0 then kfree s (program (processes s p)) else s, 0)"

definition process_free_elf_data :: "'s pstate_scheme \<Rightarrow> u64 \<Rightarrow> 's pstate_scheme \<times> int" where
  "process_free_elf_data s p =
     (let ef = program (processes s p) in
      (if ef \<noteq> 0 then kfree (kfree s (elf_memory (elf_files s ef))) ef else s, 0))"

definition process_free_program_data :: "'s pstate_scheme \<Rightarrow> u64 \<Rightarrow> 's pstate_scheme \<times> int" where
  "process_free_program_data s p =
     (if filetype (processes s p) = PROCESS_FILETYPE_BINARY then process_free_binary_data s p
      else if filetype (processes s p) = PROCESS_FILETYPE_ELF then process_free_elf_data s p
      else (s, - EINVARG))"

subsection \<open>The process table\<close>

text \<open>With no process left to switch to, the kernel panics.\<close>

definition process_switch_to_any :: "'s pstate_scheme \<Rightarrow> 's pstate_scheme option" where
  "process_switch_to_any s = do {
     v \<leftarrow> process_vector s;
     ps \<leftarrow> tvec_items v;
     p \<leftarrow> find (\<lambda>p. p \<noteq> 0) ps;
     Some (fst (process_switch s p))
   }"

definition process_unlink :: "'s pstate_scheme \<Rightarrow> u64 \<Rightarrow> 's pstate_scheme option" where
  "process_unlink s p = do {
     v \<leftarrow> process_vector s;
     (v', _) \<leftarrow> tvec_overwrite v (uint (process_id (processes s p))) 0;
     let s1 = s\<lparr>process_vector := Some v'\<rparr>;
     if current_process s1 = p then process_switch_to_any s1 else Some s1
   }"

text \<open>The result is the index of a null element, or of a new one.\<close>

definition process_get_free_slot :: "'s pstate_scheme \<Rightarrow> ('s pstate_scheme \<times> int) option" where
  "process_get_free_slot s = do {
     v \<leftarrow> process_vector s;
     ps \<leftarrow> tvec_items v;
     case index_from (\<lambda>p. p = 0) ps 0 of
       Some i \<Rightarrow> Some (s, int i)
     | None \<Rightarrow> do {
         (s1, v', res) \<leftarrow> tvec_push s v 0;
         Some (s1\<lparr>process_vector := Some v'\<rparr>, res)
       }
   }"

subsection \<open>Closing and creating windows\<close>

definition process_window_closed :: "'s pstate_scheme \<Rightarrow> u64 \<Rightarrow> u64 \<Rightarrow> 's pstate_scheme option" where
  "process_window_closed s p win = do {
     v \<leftarrow> windows (processes s p);
     (s1, v', _) \<leftarrow> tvec_pop_element s v win;
     let s2 = update_process s1 p (\<lambda>k. k\<lparr>windows := Some v'\<rparr>);
     s3 \<leftarrow> process_free s2 p (user_win (window_at s2 win));
     Some (kfree s3 win)
   }"

definition process_window_event_handler_event_close :: "'s pstate_scheme \<Rightarrow> u64 \<Rightarrow> u64 \<Rightarrow> ('s pstate_scheme \<times> int) option" where
  "process_window_event_handler_event_close s w p = do {
     win \<leftarrow> process_window_get_from_kernel_window s p w;
     if win \<noteq> 0 then do { s' \<leftarrow> process_window_closed s p win; Some (s', 0) } else Some (s, 0)
   }"

definition process_window_event_handler_kernel_handle_event ::
  "'s pstate_scheme \<Rightarrow> u64 \<Rightarrow> u64 \<Rightarrow> window_event \<Rightarrow> ('s pstate_scheme \<times> int) option" where
  "process_window_event_handler_kernel_handle_event s w p event =
     (if event_type event = WINDOW_EVENT_TYPE_FOCUS then Some (process_window_event_handler_event_focus s p)
      else if event_type event = WINDOW_EVENT_TYPE_WINDOW_CLOSE then process_window_event_handler_event_close s w p
      else Some (s, 0))"

definition process_window_event_handler ::
  "'s pstate_scheme window_system \<Rightarrow> 's pstate_scheme \<Rightarrow> u64 \<Rightarrow> window_event \<Rightarrow> ('s pstate_scheme \<times> int) option" where
  "process_window_event_handler ws s w event = do {
     p \<leftarrow> process_get_from_kernel_window s w;
     if p = 0 then Some (s, 0)
     else do {
       (s1, _) \<leftarrow> (if event_type event \<noteq> WINDOW_EVENT_TYPE_MOUSE_MOVE then
            (let (cloned_event, res) = process_window_event_modify_for_userspace (ws_body ws s (event_window event)) event in
             if res \<ge> 0 then process_push_window_event s p cloned_event else Some (s, res))
          else Some (s, 0));
       process_window_event_handler_kernel_handle_event s1 w p event
     }
   }"

text \<open>
  Without memory for the structure the error path reads through the null pointer. The user's structure has the
  title, the width and the height; the kernel writes it at its virtual address.
\<close>

definition process_window_create ::
  "'s pstate_scheme window_system \<Rightarrow> 's pstate_scheme \<Rightarrow> u64 \<Rightarrow> u8 list \<Rightarrow> int \<Rightarrow> int \<Rightarrow> int \<Rightarrow> int \<Rightarrow> ('s pstate_scheme \<times> u64) option" where
  "process_window_create ws s p title width height wflags wid = do {
     (s1, win) \<leftarrow> kzalloc s 16;
     if win = 0 then None
     else do {
       let (screen_width, screen_height) = ws_screen ws s1;
       let abs_x = ucast (screen_width div 2 - word_of_int (width sdiv 2));
       let abs_y = ucast (screen_height div 2 - word_of_int (height sdiv 2));
       (s2, kw) \<leftarrow> ws_create ws s1 title abs_x abs_y width height wflags wid;
       let s3 = s2\<lparr>window_at := (window_at s2)(win := \<lparr>user_win = 0, kernel_win = kw\<rparr>)\<rparr>;
       if kw = 0 then Some (kfree s3 win, 0)
       else do {
         (s4, uw) \<leftarrow> process_malloc s3 p 136;
         let s5 = s4\<lparr>window_at := (window_at s4)(win := \<lparr>user_win = uw, kernel_win = kw\<rparr>)\<rparr>;
         if uw = 0 then do { s6 \<leftarrow> ws_close ws s5 kw; Some (kfree s6 win, 0) }
         else do {
           let m1 = write_bytes (kmem s5) (uw + 128) (le_bytes 4 (word_of_int width :: u32));
           let m2 = write_bytes m1 (uw + 132) (le_bytes 4 (word_of_int height :: u32));
           t \<leftarrow> strncpy (read_bytes m2 uw 128) title WINDOW_MAX_TITLE;
           s6 \<leftarrow> ws_register_handler ws (s5\<lparr>kmem := write_bytes m2 uw t\<rparr>) kw;
           v \<leftarrow> windows (processes s6 p);
           (s7, v', _) \<leftarrow> tvec_push s6 v win;
           Some (update_process s7 p (\<lambda>k. k\<lparr>windows := Some v'\<rparr>), win)
         }
       }
     }
   }"

subsection \<open>Arguments of a program\<close>

text \<open>The linked list of \<open>struct command_argument\<close> is the list of its strings.\<close>

definition process_count_command_arguments :: "u8 list list \<Rightarrow> nat" where
  "process_count_command_arguments root_argument = length root_argument"

definition process_get_arguments :: "'s ktask_scheme \<Rightarrow> u64 \<Rightarrow> int \<times> u64" where
  "process_get_arguments s p = (argc (processes s p), argv (processes s p))"

text \<open>The loop writes each string into the process's memory and its address into \<open>argv\<close>; the code is the result.\<close>

primrec inject_loop :: "'s ktask_scheme \<Rightarrow> u64 \<Rightarrow> u64 \<Rightarrow> nat \<Rightarrow> u8 list list \<Rightarrow> ('s ktask_scheme \<times> int) option" where
  "inject_loop s p argv_ptr i [] = Some (s, 0)"
| "inject_loop s p argv_ptr i (argument # rest) = do {
     (s1, argument_str) \<leftarrow> process_malloc s p 512;
     if argument_str = 0 then Some (s1, - ENOMEM)
     else do {
       t \<leftarrow> strncpy (read_bytes (kmem s1) argument_str 512) argument 512;
       let m1 = write_bytes (kmem s1) argument_str t;
       let m2 = write_bytes m1 (argv_ptr + 8 * of_nat i) (le_bytes 8 argument_str);
       inject_loop (s1\<lparr>kmem := m2\<rparr>) p argv_ptr (Suc i) rest
     }
   }"

definition process_inject_arguments :: "'s ktask_scheme \<Rightarrow> u64 \<Rightarrow> u8 list list \<Rightarrow> ('s ktask_scheme \<times> int) option" where
  "process_inject_arguments s p root_argument =
     (let n = process_count_command_arguments root_argument in
      if n = 0 then Some (s, - EIO)
      else do {
        (s1, argv_ptr) \<leftarrow> process_malloc s p (8 * of_nat n);
        if argv_ptr = 0 then Some (s1, - ENOMEM)
        else do {
          (s2, res) \<leftarrow> inject_loop s1 p argv_ptr 0 root_argument;
          Some (if res < 0 then (s2, res)
                else (update_process s2 p (\<lambda>k. k\<lparr>argc := int n, argv := argv_ptr\<rparr>), 0))
        }
      })"

subsection \<open>Which memory a process may pass to the kernel\<close>

record allocation_request =
  request_allocation :: process_allocation
  request_is_stack :: bool
  peek_addr :: u64
  peek_end :: u64
  total_bytes_left :: u64

definition process_is_stack_memory :: "u64 \<Rightarrow> bool" where
  "process_is_stack_memory addr \<longleftrightarrow>
     addr \<ge> PEACHOS_PROGRAM_VIRTUAL_STACK_ADDRESS_END \<and> addr \<le> PEACHOS_PROGRAM_VIRTUAL_STACK_ADDRESS_START"

text \<open>The number of bytes left is computed as in the code.\<close>

definition process_get_allocation_by_addr :: "'s ktask_scheme \<Rightarrow> u64 \<Rightarrow> u64 \<Rightarrow> allocation_request option option" where
  "process_get_allocation_by_addr s p addr =
     (if process_is_stack_memory addr then
        Some (Some \<lparr>request_allocation = \<lparr>alloc_ptr = PEACHOS_PROGRAM_VIRTUAL_STACK_ADDRESS_END,
                alloc_end = PEACHOS_PROGRAM_VIRTUAL_STACK_ADDRESS_START, alloc_size = PEACHOS_USER_PROGRAM_STACK_SIZE\<rparr>,
           request_is_stack = True, peek_addr = addr, peek_end = PEACHOS_PROGRAM_VIRTUAL_STACK_ADDRESS_START,
           total_bytes_left = PEACHOS_PROGRAM_VIRTUAL_STACK_ADDRESS_START - addr\<rparr>)
      else do {
        v \<leftarrow> allocations (processes s p);
        as \<leftarrow> tvec_items v;
        Some (map_option (\<lambda>a. \<lparr>request_allocation = a, request_is_stack = False, peek_addr = addr, peek_end = alloc_end a,
            total_bytes_left = alloc_end a - (addr - alloc_ptr a)\<rparr>)
          (find (\<lambda>a. addr \<ge> alloc_ptr a \<and> addr \<le> alloc_end a) as))
      })"

text \<open>The test of \<open>process_validate_memory_or_terminate\<close>, before it terminates the process on an error.\<close>

definition validate_memory :: "'s ktask_scheme \<Rightarrow> u64 \<Rightarrow> u64 \<Rightarrow> u64 \<Rightarrow> int option" where
  "validate_memory s p virt_addr space_needed = do {
     r \<leftarrow> process_get_allocation_by_addr s p virt_addr;
     Some (case r of
       None \<Rightarrow> - EIO
     | Some req \<Rightarrow> if total_bytes_left req < space_needed then - EINVARG else 0)
   }"

subsection \<open>Mapping a program\<close>

definition process_map_binary :: "'s ktask_scheme \<Rightarrow> u64 \<Rightarrow> ('s ktask_scheme \<times> int) option" where
  "process_map_binary s p = do {
     let k = processes s p;
     desc \<leftarrow> process_paging_desc k;
     (s1, _) \<leftarrow> paging_map_to kzalloc s desc PEACHOS_PROGRAM_VIRTUAL_ADDRESS (program k)
        (paging_align_address (program k + ucast (process_size k)))
        (PAGING_IS_PRESENT OR PAGING_ACCESS_FROM_ALL OR PAGING_IS_WRITEABLE);
     Some (s1, 0)
   }"

primrec map_elf_loop :: "'s ktask_scheme \<Rightarrow> paging_desc \<Rightarrow> elf_file \<Rightarrow> u64 \<Rightarrow> int \<Rightarrow> nat \<Rightarrow> int \<Rightarrow> ('s ktask_scheme \<times> int) option" where
  "map_elf_loop s desc ef phdrs i 0 res = Some (s, res)"
| "map_elf_loop s desc ef phdrs i (Suc n) res = do {
     let phdr = phdr_at (kmem s) (phdrs + 56 * word_of_int i);
     let phdr_phys_address = elf_phdr_phys_address ef phdr;
     let flags = PAGING_IS_PRESENT OR PAGING_ACCESS_FROM_ALL;
     let flags = (if p_flags phdr AND PF_W \<noteq> 0 then flags OR PAGING_IS_WRITEABLE else flags);
     (s1, res1) \<leftarrow> paging_map_to kzalloc s desc (paging_align_to_lower_page (p_vaddr phdr))
        (paging_align_to_lower_page phdr_phys_address) (paging_align_address (phdr_phys_address + p_memsz phdr)) flags;
     if res1 < 0 then Some (s1, res1) else map_elf_loop s1 desc ef phdrs (i + 1) n res1
   }"

definition process_map_elf :: "'s pstate_scheme \<Rightarrow> u64 \<Rightarrow> ('s pstate_scheme \<times> int) option" where
  "process_map_elf s p = do {
     let ef = elf_files s (program (processes s p));
     let h = elf_header_of (kmem s) ef;
     desc \<leftarrow> process_paging_desc (processes s p);
     map_elf_loop s desc ef (elf_pheader (elf_memory ef) h) 0 (unat (e_phnum h)) 0
   }"

definition process_map_memory :: "e820_entry list \<Rightarrow> 's pstate_scheme \<Rightarrow> u64 \<Rightarrow> ('s pstate_scheme \<times> int) option" where
  "process_map_memory es s p = do {
     desc \<leftarrow> process_paging_desc (processes s p);
     (s1, _) \<leftarrow> paging_map_e820_memory_regions kzalloc s es desc;
     (s2, res) \<leftarrow> (if filetype (processes s1 p) = PROCESS_FILETYPE_ELF then process_map_elf s1 p
                  else if filetype (processes s1 p) = PROCESS_FILETYPE_BINARY then process_map_binary s1 p else None);
     if res < 0 then Some (s2, res)
     else do {
       let st = stack (processes s2 p);
       (s3, _) \<leftarrow> paging_map_to kzalloc s2 desc PEACHOS_PROGRAM_VIRTUAL_STACK_ADDRESS_END st
          (paging_align_address (st + PEACHOS_USER_PROGRAM_STACK_SIZE))
          (PAGING_IS_PRESENT OR PAGING_ACCESS_FROM_ALL OR PAGING_IS_WRITEABLE);
       Some (s3, res)
     }
   }"

text \<open>
  The range is counted in pages by \<open>paging_map_range\<close>, and the number of bytes is passed. When mapping fails the
  allocation stays.
\<close>

definition process_map_into_userspace ::
  "'s ktask_scheme \<Rightarrow> u64 \<Rightarrow> u64 \<Rightarrow> u64 \<Rightarrow> u32 \<Rightarrow> ('s ktask_scheme \<times> int \<times> u64 option) option" where
  "process_map_into_userspace s p phys_ptr t_size map_flags =
     (if \<not> paging_is_aligned phys_ptr then Some (s, - EINVARG, None)
      else if \<not> paging_is_aligned (phys_ptr + t_size) then Some (s, - EINVARG, None)
      else do {
        (s1, virt_ptr) \<leftarrow> process_malloc s p t_size;
        if virt_ptr = 0 then Some (s1, - ENOMEM, None)
        else do {
          desc \<leftarrow> process_paging_desc (processes s1 p);
          (s2, res) \<leftarrow> paging_map_range kzalloc s1 desc virt_ptr phys_ptr t_size (map_flags OR PAGING_ACCESS_FROM_ALL);
          Some (s2, res, if res < 0 then None else Some virt_ptr)
        }
      })"

text \<open>The pixels, the width and the height of the graphics; a null pointer to it is \<open>None\<close>.\<close>

definition process_map_graphics_framebuffer_pixels_into_userspace ::
  "'s ktask_scheme \<Rightarrow> u64 \<Rightarrow> (u64 \<times> u32 \<times> u32) option \<Rightarrow> ('s ktask_scheme \<times> int \<times> (u64 option \<times> u64) option) option" where
  "process_map_graphics_framebuffer_pixels_into_userspace s p graphics_in =
     (case graphics_in of
        None \<Rightarrow> Some (s, - EINVARG, None)
      | Some (pixels, graphics_width, graphics_height) \<Rightarrow>
          if pixels = 0 then Some (s, - EINVARG, None)
          else do {
            let memory_size = paging_align_value_to_upper_page (ucast graphics_width * ucast graphics_height * 4);
            (s1, res, virt_addr) \<leftarrow> process_map_into_userspace s p pixels memory_size
               (PAGING_ACCESS_FROM_ALL OR PAGING_CACHE_DISABLED OR PAGING_IS_PRESENT OR PAGING_IS_WRITEABLE);
            Some (s1, res, if res < 0 then None else Some (virt_addr, memory_size))
          })"

subsection \<open>Pointers handed to user programs: userlandptr.c\<close>

text \<open>
  A \<open>struct userland_ptr\<close> holds a kernel pointer; its address is the name a program has for it, and it is in the
  vector of the process. A push that fails is not noticed.
\<close>

definition process_userland_pointer_create :: "'s pstate_scheme \<Rightarrow> u64 \<Rightarrow> u64 \<Rightarrow> ('s pstate_scheme \<times> u64) option" where
  "process_userland_pointer_create s p kernel_ptr = do {
     (s1, up) \<leftarrow> kzalloc s 8;
     if up = 0 then Some (s1, 0)
     else do {
       let s2 = s1\<lparr>userland_ptr_at := (userland_ptr_at s1)(up := kernel_ptr)\<rparr>;
       v \<leftarrow> kernel_userland_ptrs (processes s2 p);
       (s3, v', _) \<leftarrow> tvec_push s2 v up;
       Some (update_process s3 p (\<lambda>k. k\<lparr>kernel_userland_ptrs := Some v'\<rparr>), up)
     }
   }"

definition process_userland_pointer_registered :: "'s ktask_scheme \<Rightarrow> u64 \<Rightarrow> u64 \<Rightarrow> bool option" where
  "process_userland_pointer_registered s p up = do {
     v \<leftarrow> kernel_userland_ptrs (processes s p);
     ups \<leftarrow> tvec_items v;
     Some (find (\<lambda>current_ptr. current_ptr \<noteq> 0 \<and> current_ptr = up) ups \<noteq> None)
   }"

definition process_userland_pointer_release :: "'s pstate_scheme \<Rightarrow> u64 \<Rightarrow> u64 \<Rightarrow> 's pstate_scheme option" where
  "process_userland_pointer_release s p up = do {
     registered \<leftarrow> process_userland_pointer_registered s p up;
     if \<not> registered then Some s
     else do {
       v \<leftarrow> kernel_userland_ptrs (processes s p);
       (s1, v', _) \<leftarrow> tvec_pop_element s v up;
       Some (kfree (update_process s1 p (\<lambda>k. k\<lparr>kernel_userland_ptrs := Some v'\<rparr>)) up)
     }
   }"

definition process_userland_pointer_kernel_ptr :: "'s pstate_scheme \<Rightarrow> u64 \<Rightarrow> u64 \<Rightarrow> u64 option" where
  "process_userland_pointer_kernel_ptr s p up = do {
     registered \<leftarrow> process_userland_pointer_registered s p up;
     Some (if \<not> registered then 0 else userland_ptr_at s up)
   }"

subsection \<open>What allocation and mapping leave alone\<close>

text \<open>
  The allocator and the mapping functions change the heaps, the bytes of memory, the page tables and the
  trace of invalidations, and nothing else of the kernel's state: not the tasks and the processes.
\<close>

definition heap_step :: "'s kernel_scheme \<Rightarrow> 's kernel_scheme \<Rightarrow> bool" where
  "heap_step s s' \<longleftrightarrow> (\<exists>h m T l. s' = s\<lparr>heap_at := h, kmem := m, tables := T, tlb_invalidated := l\<rparr>)"

lemma heap_step_refl [simp]: "heap_step s s"
proof -
  have "s = s\<lparr>heap_at := heap_at s, kmem := kmem s, tables := tables s, tlb_invalidated := tlb_invalidated s\<rparr>" by simp
  then show ?thesis unfolding heap_step_def by blast
qed

lemma heap_step_trans: "heap_step s s1 \<Longrightarrow> heap_step s1 s2 \<Longrightarrow> heap_step s s2"
  unfolding heap_step_def by (elim exE) auto

lemma heap_step_updates [simp]:
  "heap_step s (s'\<lparr>heap_at := h\<rparr>) = heap_step s s'" "heap_step s (s'\<lparr>kmem := m\<rparr>) = heap_step s s'"
  "heap_step s (s'\<lparr>tables := T\<rparr>) = heap_step s s'" "heap_step s (s'\<lparr>tlb_invalidated := l\<rparr>) = heap_step s s'"
  for s s' :: "'s kernel_scheme"
proof -
  have parts: "heap_step s s' \<longleftrightarrow> cr3 s' = cr3 s \<and> current_paging_desc s' = current_paging_desc s \<and>
      kernel_multiheap s' = kernel_multiheap s \<and> kernel.more s' = kernel.more s" for s s' :: "'s kernel_scheme"
    unfolding heap_step_def
    by (rule iffI, force, rule exI [of _ "heap_at s'"], rule exI [of _ "kmem s'"], rule exI [of _ "tables s'"],
      rule exI [of _ "tlb_invalidated s'"]) (auto intro!: kernel.equality)
  show "heap_step s (s'\<lparr>heap_at := h\<rparr>) = heap_step s s'" "heap_step s (s'\<lparr>kmem := m\<rparr>) = heap_step s s'"
    "heap_step s (s'\<lparr>tables := T\<rparr>) = heap_step s s'" "heap_step s (s'\<lparr>tlb_invalidated := l\<rparr>) = heap_step s s'"
    by (simp_all add: parts)
qed

lemma malloc_at_step: "malloc_at s hp sz = Some (s', p) \<Longrightarrow> heap_step s s'"
  by (auto simp: malloc_at_def bind_eq_Some_conv)

lemma realloc_at_step: "realloc_at s hp q sz = Some (s', p) \<Longrightarrow> heap_step s s'"
  by (auto simp: realloc_at_def bind_eq_Some_conv)

lemma alloc_first_pass_step: "alloc_first_pass_loop s shs sz = Some (s', p) \<Longrightarrow> heap_step s s'"
proof (induction shs arbitrary: s)
  case (Cons sh shs)
  then show ?case
    by (auto simp: bind_eq_Some_conv split: if_splits dest: malloc_at_step heap_step_trans)
qed simp

lemma kzalloc_step: "kzalloc s sz = Some (s', p) \<Longrightarrow> heap_step s s'"
  by (auto simp: kzalloc_def kmalloc_def multiheap_alloc_def multiheap_alloc_first_pass_def bind_eq_Some_conv
      split: if_splits dest: alloc_first_pass_step)

lemma krealloc_step: "krealloc s q sz = Some (s', p) \<Longrightarrow> heap_step s s'"
  by (auto simp: krealloc_def multiheap_realloc_def multiheap_alloc_def multiheap_alloc_first_pass_def bind_eq_Some_conv
      split: option.splits dest: alloc_first_pass_step realloc_at_step)

lemma child_table_step: "paging_child_table kzalloc s t i = Some (s', c) \<Longrightarrow> heap_step s s'"
  by (auto simp: paging_child_table_def kzalloc_table_def Let_def bind_eq_Some_conv split: if_splits dest: kzalloc_step)

lemma paging_map_step: "paging_map kzalloc s desc va pa fl = Some (s', res) \<Longrightarrow> heap_step s s'"
  by (auto simp: paging_map_def Let_def bind_eq_Some_conv split: if_splits dest!: child_table_step dest: heap_step_trans)

lemma map_range_step: "map_range_loop kzalloc s desc va pa n fl res = Some (s', res') \<Longrightarrow> heap_step s s'"
proof (induction n arbitrary: s va pa res)
  case (Suc n)
  then show ?case
    by (auto simp: bind_eq_Some_conv split: if_splits dest!: paging_map_step Suc.IH intro: heap_step_trans)
qed simp

lemma paging_map_to_step: "paging_map_to kzalloc s desc va pa pe fl = Some (s', res) \<Longrightarrow> heap_step s s'"
  by (auto simp: paging_map_to_def paging_map_range_def Let_def split: if_splits dest: map_range_step)

lemma vector_resize_step: "vector_resize krealloc s v n = Some (s', v', res) \<Longrightarrow> heap_step s s'"
  by (auto simp: vector_resize_def Let_def bind_eq_Some_conv split: if_splits dest: krealloc_step)

lemma tvec_push_step: "tvec_push s v x = Some (s', v', res) \<Longrightarrow> heap_step s s'"
  by (auto simp: tvec_push_def bind_eq_Some_conv split: if_splits dest: vector_resize_step)

lemma heap_step_processes:
  fixes s :: "'s pstate_scheme"
  assumes "heap_step s s'"
  shows "processes s' = processes s" "tasks s' = tasks s" "process_vector s' = process_vector s"
    "handle_at s' = handle_at s" "window_at s' = window_at s" "current_process s' = current_process s"
  using assms by (auto simp: heap_step_def)

subsection \<open>Events, pointers and the test of a program's memory\<close>

text \<open>A run of events into the queue, and \<open>n\<close> events out of it.\<close>

primrec push_events :: "'s ktask_scheme \<Rightarrow> u64 \<Rightarrow> window_event list \<Rightarrow> 's ktask_scheme option" where
  "push_events s p [] = Some s"
| "push_events s p (e # es) = do { (s1, _) \<leftarrow> process_push_window_event s p e; push_events s1 p es }"

primrec pop_events :: "'s ktask_scheme \<Rightarrow> u64 \<Rightarrow> nat \<Rightarrow> (int \<times> window_event) list option" where
  "pop_events s p 0 = Some []"
| "pop_events s p (Suc n) = do {
     (s1, res, e) \<leftarrow> process_pop_window_event s p \<lparr>event_type = 0, win_id = 0, event_window = 0, data_x = 0, data_y = 0\<rparr>;
     es \<leftarrow> pop_events s1 p n;
     Some ((res, e) # es)
   }"

lemma update_process_simps [simp]:
  "processes (update_process s p f) p = f (processes s p)"
  "processes (update_process s p f) = (processes s)(p := f (processes s p))"
  by (simp_all add: update_process_def)

lemma push_event:
  assumes "window_events (processes s p) = Some v" "tvec_ok v" "tv_items v \<noteq> []" "event_index (processes s p) = 0"
  shows "process_push_window_event s p e =
    Some (update_process s p (\<lambda>k. k\<lparr>window_events := Some (v\<lparr>tv_items := (tv_items v)[0 := e\<lparr>event_window := 0\<rparr>]\<rparr>),
      total_unpopped := total_unpopped k + 1\<rparr>), 0)"
    "tvec_ok (v\<lparr>tv_items := (tv_items v)[0 := e\<lparr>event_window := 0\<rparr>]\<rparr>)"
  using assms tvec_overwrite_ok [of v 0 "e\<lparr>event_window := 0\<rparr>"]
  by (simp_all add: process_push_window_event_def int_of_size_small)

lemma push_events_slot:
  assumes "window_events (processes s p) = Some v" "tvec_ok v" "tv_items v \<noteq> []" "event_index (processes s p) = 0" "es \<noteq> []"
  shows "\<exists>s' v'. push_events s p es = Some s' \<and> window_events (processes s' p) = Some v' \<and> tvec_ok v' \<and> tv_items v' \<noteq> [] \<and>
    tv_items v' ! 0 = (last es)\<lparr>event_window := 0\<rparr> \<and>
    total_unpopped (processes s' p) = total_unpopped (processes s p) + of_nat (length es)"
  using assms
proof (induction es arbitrary: s v)
  case (Cons e es)
  let ?v = "v\<lparr>tv_items := (tv_items v)[0 := e\<lparr>event_window := 0\<rparr>]\<rparr>"
  let ?s = "update_process s p (\<lambda>k. k\<lparr>window_events := Some ?v, total_unpopped := total_unpopped k + 1\<rparr>)"
  note push = push_event [OF Cons.prems(1-4), of e]
  show ?case
  proof (cases "es = []")
    case True
    then show ?thesis using push Cons.prems(3) by (auto simp: nth_list_update)
  next
    case False
    show ?thesis
      using Cons.IH [of ?s ?v] push Cons.prems(3,4) False by (auto simp: add.assoc)
  qed
qed simp

lemma pop_events_slot:
  assumes "window_events (processes s p) = Some v" "tvec_ok v" "tv_items v \<noteq> []" "p \<noteq> 0"
    "unat (total_unpopped (processes s p)) = n"
  shows "pop_events s p n = Some (replicate n (0, tv_items v ! 0))"
  using assms
proof (induction n arbitrary: s)
  case (Suc n)
  let ?s = "update_process s p (\<lambda>k. k\<lparr>total_unpopped := total_unpopped k - 1\<rparr>)"
  have pos: "0 < total_unpopped (processes s p)" using Suc.prems(5) by (metis unat_gt_0 zero_less_Suc word_gt_0)
  then have "unat (total_unpopped (processes s p) - 1) = n" using Suc.prems(5) by (simp add: unat_minus_one word_gt_0)
  moreover have "tvec_at v 0 = Some (Inr (tv_items v ! 0))"
    using tvec_at_ok [of v 0] Suc.prems(2,3) by simp
  ultimately show ?case
    using Suc.IH [of ?s] Suc.prems(1-4) pos by (simp add: process_pop_window_event_def)
qed simp

lemma find_split: "\<forall>b\<in>set xs. \<not> P b \<Longrightarrow> P a \<Longrightarrow> find P (xs @ a # ys) = Some a"
  by (induction xs) auto

lemma validate_memory_spec:
  assumes "allocations (processes s p) = Some v" "tvec_ok v" "tv_items v = xs @ a # ys"
    and "\<forall>b\<in>set xs. \<not> (alloc_ptr b \<le> addr \<and> addr \<le> alloc_end b)"
    and "alloc_ptr a \<le> addr" "addr \<le> alloc_end a" "\<not> process_is_stack_memory addr"
  shows "validate_memory s p addr n =
    Some (if unat n \<le> (unat (alloc_end a) - unat addr) + unat (alloc_ptr a) then 0 else - EINVARG)"
proof -
  have le: "unat (alloc_ptr a) \<le> unat addr" "unat addr \<le> unat (alloc_end a)"
    using assms(5,6) by (simp_all add: word_le_nat_alt)
  have "unat (addr - alloc_ptr a) = unat addr - unat (alloc_ptr a)" using assms(5) by (rule unat_sub)
  moreover from this have "unat (alloc_end a - (addr - alloc_ptr a)) = unat (alloc_end a) - (unat addr - unat (alloc_ptr a))"
    using le by (subst unat_sub) (simp_all add: word_le_nat_alt)
  ultimately have left: "unat (alloc_end a - (addr - alloc_ptr a)) = (unat (alloc_end a) - unat addr) + unat (alloc_ptr a)"
    using le by simp
  show ?thesis
    using find_split [of xs "\<lambda>a. alloc_ptr a \<le> addr \<and> addr \<le> alloc_end a" a ys] assms
    by (simp add: validate_memory_def process_get_allocation_by_addr_def tvec_ok_items word_less_nat_alt left)
qed

subsection \<open>Properties\<close>

text \<open>
  C22. \<^bold>\<open>The check of a program's memory lets it pass its allocation.\<close> For an address in an allocation of the
  process, the validation accepts any size up to the rest of the allocation plus the allocation's own
  address: it subtracts what is used from the end address and not from the size.
\<close>

theorem validate_accepts_beyond_allocation:
  assumes "allocations (processes s p) = Some v" "tvec_ok v" "tv_items v = xs @ a # ys"
    and "\<forall>b\<in>set xs. \<not> (alloc_ptr b \<le> addr \<and> addr \<le> alloc_end b)"
    and "alloc_ptr a \<le> addr" "addr \<le> alloc_end a" "\<not> process_is_stack_memory addr"
  shows "validate_memory s p addr n =
    Some (if unat n \<le> (unat (alloc_end a) - unat addr) + unat (alloc_ptr a) then 0 else - EINVARG)"
  by (rule validate_memory_spec [OF assms])

text \<open>
  \<^bold>\<open>Only the last window event arrives.\<close> The write position of the queue never moves and the reader takes
  element 0: after any number of events, each pop returns a copy of the last one.
\<close>

theorem window_events_only_last:
  assumes "window_events (processes s p) = Some v" "tvec_ok v" "tv_items v \<noteq> []" "p \<noteq> 0"
    and "event_index (processes s p) = 0" "total_unpopped (processes s p) = 0"
    and "es \<noteq> []" "length es < 2 ^ 64"
  shows "\<exists>s'. push_events s p es = Some s' \<and>
    pop_events s' p (length es) = Some (replicate (length es) (0, (last es)\<lparr>event_window := 0\<rparr>))"
proof -
  obtain s' v' where s': "push_events s p es = Some s'" "window_events (processes s' p) = Some v'" "tvec_ok v'"
    "tv_items v' \<noteq> []" "tv_items v' ! 0 = (last es)\<lparr>event_window := 0\<rparr>"
    "total_unpopped (processes s' p) = of_nat (length es)"
    using push_events_slot [OF assms(1-3,5,7)] assms(6) by auto
  show ?thesis
    using pop_events_slot [OF s'(2-4) assms(4), of "length es"] s'(1,5,6) assms(8) by simp
qed

lemma kzalloc_small:
  assumes "kernel_inv s" "0 < free_pages s" "0 < unat sz" "unat sz \<le> 4096"
  shows "\<exists>s' p. kzalloc s sz = Some (s', p) \<and> kernel_inv s' \<and> heap_step s s' \<and> tables s' = tables s \<and>
    p \<notin> live_pages s \<and> live_pages s' = insert p (live_pages s) \<and> free_pages s = Suc (free_pages s') \<and>
    p \<noteq> 0 \<and> p mod 4096 = 0 \<and> p < 2 ^ 52"
proof -
  have b: "blocks_for sz = 1" 
  proof -
    have "(unat sz + 4095) div 4096 = 1" using assms(3,4) by linarith
    then show ?thesis using assms(4) by (subst blocks_for_eq) simp_all
  qed
  have small: "unat sz < 2 ^ 31" using assms(4) by simp
  obtain s' p where r: "kzalloc s sz = Some (s', p)" "kernel_inv s'" "tables s' = tables s"
    "p \<notin> live_pages s" "live_pages s' = insert p (live_pages s)" "free_pages s = Suc (free_pages s')"
    "p \<noteq> 0" "p mod 4096 = 0" "p < 2 ^ 52"
    using kzalloc_block_state [OF assms(1,2) b small] by (elim exE conjE) (rule that)
  show ?thesis using r kzalloc_step [OF r(1)] by (intro exI [of _ s'] exI [of _ p]) simp
qed

lemma kernel_state_update [simp]:
  "kernel_inv (update_process s p f) = kernel_inv s" "free_pages (update_process s p f) = free_pages s"
  "live_pages (update_process s p f) = live_pages s" "tables (update_process s p f) = tables s"
  "heap_at (update_process s p f) = heap_at s" "kmem (update_process s p f) = kmem s"
  by (simp_all add: update_process_def kernel_inv_def free_pages_def live_pages_def heap_list_def)

lemma kernel_state_userland [simp]:
  "kernel_inv (s\<lparr>userland_ptr_at := u\<rparr>) = kernel_inv s" "free_pages (s\<lparr>userland_ptr_at := u\<rparr>) = free_pages s"
  "live_pages (s\<lparr>userland_ptr_at := u\<rparr>) = live_pages s"
  by (simp_all add: kernel_inv_def free_pages_def live_pages_def heap_list_def)

text \<open>
  \<^bold>\<open>A pointer handed out comes back, until it is released.\<close> The address made for a kernel pointer is new, it gives
  that pointer back, and after its release it gives the null pointer, as any address does that is not
  registered with the process.
\<close>

theorem userland_pointer_roundtrip:
  assumes "kernel_inv s" "2 \<le> free_pages s" "kernel_userland_ptrs (processes s p) = Some v" "tvec_ok v"
    and "set (tv_items v) \<subseteq> live_pages s" "e_size (tv_header v) = 8" "vmemory (tv_header v) \<noteq> 0"
    and "t_elems (tv_header v) + 1 < tm_elems (tv_header v)" "t_elems (tv_header v) < 2 ^ 31"
  shows "\<exists>s1 up s2. process_userland_pointer_create s p k = Some (s1, up) \<and> up \<notin> live_pages s \<and>
    process_userland_pointer_kernel_ptr s1 p up = Some k \<and>
    process_userland_pointer_release s1 p up = Some s2 \<and>
    process_userland_pointer_kernel_ptr s2 p up = Some 0 \<and>
    (\<forall>x. x \<notin> set (tv_items v) \<longrightarrow> x \<noteq> up \<longrightarrow> process_userland_pointer_kernel_ptr s1 p x = Some 0)"
proof -
  obtain s1 up where up: "kzalloc s 8 = Some (s1, up)" "kernel_inv s1" "heap_step s s1" "up \<notin> live_pages s"
    "free_pages s = Suc (free_pages s1)" "up \<noteq> 0"
    using kzalloc_small [of s 8] assms(1,2) by auto
  note kept = heap_step_processes [OF up(3)]
  have new: "up \<notin> set (tv_items v)" using up(4) assms(5) by auto
  define v' where "v' = \<lparr>tv_header = (tv_header v)\<lparr>t_elems := t_elems (tv_header v) + 1\<rparr>, tv_items = tv_items v @ [up]\<rparr>"
  define s2 where "s2 = update_process (s1\<lparr>userland_ptr_at := (userland_ptr_at s1)(up := k)\<rparr>) p
    (\<lambda>k. k\<lparr>kernel_userland_ptrs := Some v'\<rparr>)"
  have push: "tvec_push u v up = Some (u, v', int_of_size (t_elems (tv_header v)))" for u :: "'a pstate_scheme"
    using assms(8) by (simp add: tvec_push_def vector_resize_def Let_def v'_def)
  have c: "process_userland_pointer_create s p k = Some (s2, up)"
    using up(1,6) kept assms(3) by (simp add: process_userland_pointer_create_def push s2_def)
  have items: "tvec_items v' = Some (tv_items v @ [up])"
    using assms(7) by (simp add: tvec_items_def v'_def)
  have at: "kernel_userland_ptrs (processes s2 p) = Some v'" "userland_ptr_at s2 up = k"
    by (simp_all add: s2_def update_process_def)
  have reg: "process_userland_pointer_registered s2 p x = Some (x \<noteq> 0 \<and> (x \<in> set (tv_items v) \<or> x = up))" for x
    using at(1) items by (auto simp: process_userland_pointer_registered_def find_None_iff)
  have k: "kernel_inv s2" "0 < free_pages s2"
    using up(2,5) assms(2) by (simp_all add: s2_def)
  obtain s3 tmp where tmp: "kzalloc s2 8 = Some (s3, tmp)" "heap_step s2 s3" "tmp \<noteq> 0"
    using kzalloc_small [OF k, of 8] by auto
  define v'' where "v'' = \<lparr>tv_header = (tv_header v')\<lparr>t_elems := t_elems (tv_header v') - 1\<rparr>, tv_items = remove1 up (tv_items v @ [up])\<rparr>"
  have pop: "tvec_pop_element s2 v' up = Some (s3, v'', 0)"
  proof -
    have e: "e_size (tv_header v') = 8" using assms(6) by (simp add: v'_def)
    show ?thesis using tmp(1,3) items by (simp add: tvec_pop_element_def e v''_def)
  qed
  define s4 where "s4 = update_process s3 p (\<lambda>k. k\<lparr>kernel_userland_ptrs := Some v''\<rparr>)"
  have r: "process_userland_pointer_release s2 p up = Some s4"
    using reg [of up] up(6) at(1) pop by (simp add: process_userland_pointer_release_def s4_def kfree_def)
  have gone: "up \<notin> set (tv_items v'')" using new by (simp add: v''_def remove1_append)
  have "vmemory (tv_header v'') \<noteq> 0" using assms(7) by (simp add: v''_def v'_def)
  then have "process_userland_pointer_kernel_ptr s4 p up = Some 0"
    using gone by (auto simp: process_userland_pointer_kernel_ptr_def process_userland_pointer_registered_def s4_def
        tvec_items_def find_None_iff)
  then show ?thesis
    using c r up(4,6) reg at(2) by (intro exI [of _ s2] exI [of _ up] exI [of _ s4])
      (auto simp: process_userland_pointer_kernel_ptr_def)
qed

subsection \<open>Memory of a process\<close>

lemma pt_tree_mono: "pt_tree T root L \<Longrightarrow> L \<subseteq> L' \<Longrightarrow> pt_tree T root L'"
  unfolding pt_tree_def by blast

text \<open>Mapping one page to itself, as \<open>process_malloc\<close> and \<open>process_free\<close> do.\<close>

lemma map_own_page:
  assumes "kernel_inv s" "pt_tree (tables s) (pml desc) (live_pages s)" "3 \<le> free_pages s"
    and "ptr mod 4096 = 0" "ptr < 2 ^ 52"
  shows "\<exists>s'. paging_map_to kzalloc s desc ptr ptr (ptr + 4096) fl = Some (s', 0) \<and> heap_step s s' \<and>
    kernel_inv s' \<and> pt_tree (tables s') (pml desc) (live_pages s') \<and> free_pages s \<le> free_pages s' + 3 \<and>
    live_pages s \<subseteq> live_pages s' \<and>
    (\<forall>x. mmu_translate (tables s') (pml desc) x =
       (if same_page x ptr
        then if fl AND PAGING_IS_PRESENT \<noteq> 0
             then Some (ptr + (x AND 0xFFF), fl AND PAGING_IS_WRITEABLE \<noteq> 0, fl AND PAGING_ACCESS_FROM_ALL \<noteq> 0)
             else None
        else mmu_translate (tables s) (pml desc) x))"
proof -
  obtain s' where s': "paging_map kzalloc s desc ptr ptr fl = Some (s', 0)" "kpages.ready s' (pml desc)"
    "free_pages s \<le> free_pages s' + 3" "live_pages s \<subseteq> live_pages s'"
    "\<forall>x. mmu_translate (tables s') (pml desc) x =
       (if same_page x ptr
        then if fl AND PAGING_IS_PRESENT \<noteq> 0
             then Some (ptr + (x AND 0xFFF), fl AND PAGING_IS_WRITEABLE \<noteq> 0, fl AND PAGING_ACCESS_FROM_ALL \<noteq> 0)
             else None
        else mmu_translate (tables s) (pml desc) x)"
    using kpages.paging_map_translates [of s desc ptr ptr fl] assms unfolding kpages.ready_def by blast
  have u: "unat (ptr + 4096) = unat ptr + 4096"
    using assms(5) by (subst unat_add_lem [THEN iffD1]) (simp_all add: word_less_nat_alt)
  have al: "(ptr + 4096) mod 4096 = 0" using assms(4) u by (simp add: word_unat_eq_iff unat_mod)
  have le: "\<not> ptr + 4096 < ptr" using u by (simp add: word_less_nat_alt)
  have "paging_map_to kzalloc s desc ptr ptr (ptr + 4096) fl = paging_map_range kzalloc s desc ptr ptr 1 fl"
    using assms(4) al le by (simp add: paging_map_to_def Let_def)
  then have "paging_map_to kzalloc s desc ptr ptr (ptr + 4096) fl = Some (s', 0)"
    using s'(1) by (simp add: paging_map_range_def)
  then show ?thesis
    using s'(2-5) paging_map_to_step [of s desc ptr ptr "ptr + 4096" fl s' 0] unfolding kpages.ready_def by blast
qed

lemma align_one_page:
  assumes "ptr mod 4096 = 0" "ptr < 2 ^ 52" "0 < unat n" "unat n \<le> 4096"
  shows "paging_align_address (ptr + n) = ptr + 4096"
proof -
  have p: "unat ptr mod 4096 = 0" "unat ptr < 2 ^ 52"
    using assms(1,2) by (simp_all add: word_unat_eq_iff unat_mod word_less_nat_alt)
  have u: "unat (ptr + n) = unat ptr + unat n" "unat (ptr + 4096) = unat ptr + 4096"
    using p(2) assms(4) by (subst unat_add_lem [THEN iffD1]; simp)+
  show ?thesis
  proof (cases "unat n = 4096")
    case True
    then have "n = 4096" by (simp add: word_unat_eq_iff)
    moreover have "(ptr + 4096) mod 4096 = 0" using p(1) u(2) by (simp add: word_unat_eq_iff unat_mod)
    ultimately show ?thesis by (simp add: paging_align_address_def)
  next
    case False
    then have "unat (ptr + n) mod 4096 = unat n" using u(1) p(1) assms(4) by (simp add: mod_add_eq [symmetric])
    then have m: "(ptr + n) mod 4096 = n" by (simp add: word_unat_eq_iff unat_mod)
    have "n \<noteq> 0" using assms(3) by auto
    then show ?thesis by (simp add: paging_align_address_def m)
  qed
qed

text \<open>The state of a process's memory: the kernel can allocate, and the process has page tables and a table of allocations.\<close>

definition process_memory :: "'s ktask_scheme \<Rightarrow> u64 \<Rightarrow> paging_desc \<Rightarrow> process_allocation tvec \<Rightarrow> bool" where
  "process_memory s p desc v \<longleftrightarrow> kernel_inv s \<and> process_paging_desc (processes s p) = Some desc \<and>
     pt_tree (tables s) (pml desc) (live_pages s) \<and> allocations (processes s p) = Some v \<and> tvec_ok v"

lemma index_from_Some: "index_from P xs k = Some i \<Longrightarrow> k \<le> i \<and> i - k < length xs \<and> P (xs ! (i - k))"
proof (induction xs arbitrary: k)
  case (Cons x xs)
  show ?case
  proof (cases "P x")
    case False
    then have "Suc k \<le> i \<and> i - Suc k < length xs \<and> P (xs ! (i - Suc k))" using Cons by simp
    then show ?thesis by (auto simp: nth_Cons' Suc_diff_Suc)
  qed (use Cons.prems in auto)
qed simp

text \<open>The address of a block that is an allocation by itself.\<close>

definition page_block :: "'s kernel_scheme \<Rightarrow> u64 \<Rightarrow> bool" where
  "page_block s q \<longleftrightarrow> (\<exists>hp\<in>set (heap_list s). \<exists>b<length (heap_entries (heap_at s hp)).
     heap_entries (heap_at s hp) ! b = SINGLE_BLOCK \<and> q = heap_block_to_address (heap_at s hp) (int b))"

lemma single_block_rep:
  assumes rep: "heap_rep A es" and b: "b < length es" "es ! b = SINGLE_BLOCK"
  shows "A b = Some 1"
proof -
  have "\<not> block_free (es ! b)" using b(2) by (simp add: block_free_def heap_get_entry_type_def)
  then have "covered A b" using heap_rep_free_iff [OF rep b(1)] by simp
  then obtain c n where c: "A c = Some n" "c \<le> b" "b < c + n" by (rule coveredE)
  have ok: "entry_ok n (b - c) (es ! b)" by (rule heap_repD(4) [OF rep c])
  have z: "b = c" using ok b(2) c(2,3) by (cases "b - c") (auto simp: entry_ok_def split: if_splits)
  have "n = 1" using ok b(2) heap_repD(1) [OF rep c(1)] unfolding z by (auto simp: entry_ok_def split: if_splits)
  then show ?thesis using c(1) z by simp
qed

lemma krealloc_page_block:
  assumes inv: "kernel_inv s" "physical_pools s" and q: "page_block s q" and sz: "0 < unat sz" "unat sz \<le> 4096"
  shows "krealloc s q sz = Some (s, q)"
proof -
  obtain hp b where b: "hp \<in> set (heap_list s)" "b < length (heap_entries (heap_at s hp))"
    "heap_entries (heap_at s hp) ! b = SINGLE_BLOCK" "q = heap_block_to_address (heap_at s hp) (int b)"
    using q unfolding page_block_def by blast
  note wf = kernel_invD(2) [OF inv(1) b(1)]
  obtain A where A: "heap_rep A (heap_entries (heap_at s hp))"
    using kernel_invD(1) [OF inv(1) b(1)] by (auto simp: pool_ok_def)
  note one = single_block_rep [OF A b(2,3)]
  have c: "contained A (heap_entries (heap_at s hp)) b 1" by (simp add: contained_def b(3))
  have k: "blocks_for sz = 1"
  proof -
    have "(unat sz + 4095) div 4096 = 1" using sz by linarith
    then show ?thesis using sz(2) by (subst blocks_for_eq) simp_all
  qed
  have "sz \<noteq> 0" using sz(1) by auto
  then have r: "heap_realloc (kmem s) (heap_at s hp) q sz = Some (kmem s, heap_at s hp, q)"
    using heap_realloc_same [OF wf A one c _ k] b(4) by simp
  obtain sh where "multiheap_get_heap_and_paging_heap_for_address s q = Some (Some sh, None, q)" "mh_heap sh = hp"
    using heap_of_pool_address [OF inv b(1), of q] block_addr_range [OF wf b(2)] b(4) by auto
  then show ?thesis using r by (simp add: krealloc_def multiheap_realloc_def realloc_at_def)
qed

text \<open>Allocating a page takes one free block of one heap.\<close>

lemma kmalloc_page_state:
  assumes inv: "kernel_inv s" and "0 < free_pages s" and sz: "0 < unat sz" "unat sz \<le> 4096"
  shows "\<exists>hp b. hp \<in> set (heap_list s) \<and> free_run (heap_entries (heap_at s hp)) 1 b \<and>
    kmalloc s sz = Some (s\<lparr>heap_at := (heap_at s)(hp := malloc_result (heap_at s hp) 1 b)\<rparr>,
      heap_block_to_address (heap_at s hp) (int b)) \<and> heap_block_to_address (heap_at s hp) (int b) \<noteq> 0"
proof -
  let ?shs = "first_multiheap (kernel_multiheap s)"
  have k: "blocks_for sz = 1"
  proof -
    have "(unat sz + 4095) div 4096 = 1" using sz by linarith
    then show ?thesis using sz(2) by (subst blocks_for_eq) simp_all
  qed
  obtain hp b where f: "hp \<in> mh_heap ` set ?shs" "free_run (heap_entries (heap_at s hp)) 1 b"
    "alloc_first_pass_loop s ?shs sz =
       Some (s\<lparr>heap_at := (heap_at s)(hp := malloc_result (heap_at s hp) 1 b)\<rparr>,
             heap_block_to_address (heap_at s hp) (int b))"
    "heap_block_to_address (heap_at s hp) (int b) \<noteq> 0"
    by (rule alloc_first_pass_loop_cases [OF kernel_inv_wf [OF inv] k])
      (use free_pages_pos [OF assms(2)] in auto)
  show ?thesis using f by (intro exI [of _ hp] exI [of _ b])
    (simp add: heap_list_def kmalloc_def multiheap_alloc_def multiheap_alloc_first_pass_def)
qed

lemma page_block_malloc:
  assumes inv: "kernel_inv s" and hp: "hp \<in> set (heap_list s)" and run: "free_run (heap_entries (heap_at s hp)) 1 b"
  defines "s' \<equiv> s\<lparr>heap_at := (heap_at s)(hp := malloc_result (heap_at s hp) 1 b)\<rparr>"
  shows "page_block s q \<Longrightarrow> page_block s' q" "page_block s' (heap_block_to_address (heap_at s hp) (int b))"
    "physical_pools s' = physical_pools s" "kernel_inv s'"
proof -
  have b: "b < length (heap_entries (heap_at s hp))" "block_free (heap_entries (heap_at s hp) ! b)"
    using run by (simp_all only: free_run_one)
  have es: "heap_entries (malloc_result (heap_at s hp) 1 b) = (heap_entries (heap_at s hp))[b := SINGLE_BLOCK]"
    using marked_one [OF b(1)] by (simp add: malloc_result_def)
  have hl: "heap_list s' = heap_list s" by (simp add: s'_def heap_list_def)
  have nf: "\<not> block_free SINGLE_BLOCK" by (simp add: block_free_def heap_get_entry_type_def)
  show "page_block s' (heap_block_to_address (heap_at s hp) (int b))"
    unfolding page_block_def hl using hp b(1) es by (intro bexI [of _ hp] exI [of _ b]) (simp_all add: s'_def)
  show "page_block s q \<Longrightarrow> page_block s' q"
  proof -
    assume "page_block s q"
    then obtain hq c where c: "hq \<in> set (heap_list s)" "c < length (heap_entries (heap_at s hq))"
      "heap_entries (heap_at s hq) ! c = SINGLE_BLOCK" "q = heap_block_to_address (heap_at s hq) (int c)"
      unfolding page_block_def by blast
    show ?thesis
      unfolding page_block_def hl using c es b nf by (intro bexI [of _ hq] exI [of _ c]) (auto simp: s'_def nth_list_update)
  qed
  show "physical_pools s' = physical_pools s"
    by (simp add: physical_pools_def hl) (auto simp: s'_def)
  show "kernel_inv s'" unfolding s'_def
    by (rule kernel_inv_heap_at [OF inv hp pool_ok_malloc [OF kernel_invD(1) [OF inv hp] run] same_pool_malloc_result]) simp
qed

lemma kernel_kmem_frame:
  "page_block (s\<lparr>kmem := m\<rparr>) = page_block s" "physical_pools (s\<lparr>kmem := m\<rparr>) = physical_pools s"
  "kernel_inv (s\<lparr>kmem := m\<rparr>) = kernel_inv s"
  by (simp_all add: page_block_def physical_pools_def kernel_inv_def heap_list_def fun_eq_iff)

lemma kzalloc_page_keeps:
  assumes "kernel_inv s" "0 < free_pages s" "0 < unat sz" "unat sz \<le> 4096" "kzalloc s sz = Some (s', p)"
  shows "page_block s q \<Longrightarrow> page_block s' q" "physical_pools s' = physical_pools s"
proof -
  obtain hp b where k: "hp \<in> set (heap_list s)" "free_run (heap_entries (heap_at s hp)) 1 b"
    "kmalloc s sz = Some (s\<lparr>heap_at := (heap_at s)(hp := malloc_result (heap_at s hp) 1 b)\<rparr>,
      heap_block_to_address (heap_at s hp) (int b))" "heap_block_to_address (heap_at s hp) (int b) \<noteq> 0"
    using kmalloc_page_state [OF assms(1-4)] by blast
  obtain m where s': "s' = (s\<lparr>heap_at := (heap_at s)(hp := malloc_result (heap_at s hp) 1 b)\<rparr>)\<lparr>kmem := m\<rparr>"
    using assms(5) k(3,4) by (auto simp: kzalloc_def bind_eq_Some_conv)
  note f = page_block_malloc [OF assms(1) k(1,2)]
  show "page_block s q \<Longrightarrow> page_block s' q" "physical_pools s' = physical_pools s"
    unfolding s' kernel_kmem_frame using f(1,3) by simp_all
qed

lemma kmalloc_small:
  assumes "kernel_inv s" "0 < free_pages s" "0 < unat sz" "unat sz \<le> 4096"
  shows "\<exists>s' p. kmalloc s sz = Some (s', p) \<and> kernel_inv s' \<and> heap_step s s' \<and> tables s' = tables s \<and>
    live_pages s' = insert p (live_pages s) \<and> free_pages s = Suc (free_pages s') \<and> p \<noteq> 0 \<and>
    page_block s' p \<and> physical_pools s' = physical_pools s"
proof -
  obtain hp b where k: "hp \<in> set (heap_list s)" "free_run (heap_entries (heap_at s hp)) 1 b"
    "kmalloc s sz = Some (s\<lparr>heap_at := (heap_at s)(hp := malloc_result (heap_at s hp) 1 b)\<rparr>,
      heap_block_to_address (heap_at s hp) (int b))" "heap_block_to_address (heap_at s hp) (int b) \<noteq> 0"
    using kmalloc_page_state [OF assms] by blast
  let ?p = "heap_block_to_address (heap_at s hp) (int b)"
  let ?s = "s\<lparr>heap_at := (heap_at s)(hp := malloc_result (heap_at s hp) 1 b)\<rparr>"
  obtain s2 q where z: "kzalloc s sz = Some (s2, q)" "heap_step s s2"  "tables s2 = tables s"
    "live_pages s2 = insert q (live_pages s)" "free_pages s = Suc (free_pages s2)"
    using kzalloc_small [OF assms] by (elim exE conjE) (rule that)
  obtain m where s2: "s2 = ?s\<lparr>kmem := m\<rparr>" "q = ?p"
    using z(1) k(3,4) by (auto simp: kzalloc_def bind_eq_Some_conv)
  have l: "live_pages (?s\<lparr>kmem := m\<rparr>) = live_pages ?s" "free_pages (?s\<lparr>kmem := m\<rparr>) = free_pages ?s"
    by (simp_all add: live_pages_def free_pages_def heap_list_def)
  note f = page_block_malloc [OF assms(1) k(1,2)]
  have "?s = s\<lparr>heap_at := heap_at ?s, kmem := kmem s, tables := tables s, tlb_invalidated := tlb_invalidated s\<rparr>" by simp
  then have "heap_step s ?s" unfolding heap_step_def by blast
  then show ?thesis using k(3,4) z(3-5) f(2-4) unfolding s2 l by (intro exI [of _ ?s] exI [of _ ?p]) simp
qed

subsection \<open>A table of allocations that can take one more\<close>

text \<open>
  \<open>push_ready\<close>: the vector has a free place behind its elements; or it has never been grown, or lies in one page of
  the kernel heap, and one more element with the reserve fits in a page.
\<close>

definition push_ready :: "'s kernel_scheme \<Rightarrow> vector \<Rightarrow> bool" where
  "push_ready s h \<longleftrightarrow>
     (if t_elems h + 1 < tm_elems h then vmemory h \<noteq> 0
      else physical_pools s \<and> (vmemory h = 0 \<or> page_block s (vmemory h)) \<and> 0 < unat (e_size h) \<and>
        (unat (t_reserved_elements h) + unat (t_elems h) + 1) * unat (e_size h) \<le> 4096)"

lemma push_bytes:
  assumes "0 < unat (e_size h)" "(unat (t_reserved_elements h) + unat (t_elems h) + 1) * unat (e_size h) \<le> 4096"
  shows "0 < unat ((t_reserved_elements h + (t_elems h + 1)) * e_size h)"
    "unat ((t_reserved_elements h + (t_elems h + 1)) * e_size h) \<le> 4096"
proof -
  let ?n = "(unat (t_reserved_elements h) + unat (t_elems h) + 1) * unat (e_size h)"
  have "(t_reserved_elements h + (t_elems h + 1)) * e_size h = of_nat ?n" by (simp add: algebra_simps)
  then have "unat ((t_reserved_elements h + (t_elems h + 1)) * e_size h) = ?n"
    using unat_of_nat_u64 [of ?n] assms(2) by simp
  then show "0 < unat ((t_reserved_elements h + (t_elems h + 1)) * e_size h)"
    "unat ((t_reserved_elements h + (t_elems h + 1)) * e_size h) \<le> 4096" using assms by simp_all
qed

lemma push_ready_step:
  assumes inv: "kernel_inv s" and room: "0 < free_pages s" and h: "push_ready s h"
  shows "\<exists>s' h'. vector_resize krealloc s h 1 = Some (s', h', 0) \<and> kernel_inv s' \<and> heap_step s s' \<and> tables s' = tables s \<and>
    t_elems h' = t_elems h \<and> vmemory h' \<noteq> 0 \<and> live_pages s \<subseteq> live_pages s' \<and>
    free_pages s \<le> free_pages s' + (if vmemory h = 0 then 1 else 0)"
proof (cases "t_elems h + 1 < tm_elems h")
  case True
  then show ?thesis using inv h by (intro exI [of _ s] exI [of _ h]) (simp add: vector_resize_def push_ready_def)
next
  case False
  let ?final = "t_reserved_elements h + (t_elems h + 1)"
  let ?b = "?final * e_size h"
  have p: "physical_pools s" "vmemory h = 0 \<or> page_block s (vmemory h)" "0 < unat ?b" "unat ?b \<le> 4096"
    using h False push_bytes by (auto simp: push_ready_def)
  obtain s' q where q: "krealloc s (vmemory h) ?b = Some (s', q)" "q \<noteq> 0" "kernel_inv s'" "heap_step s s'" "tables s' = tables s"
    "live_pages s \<subseteq> live_pages s'" "free_pages s \<le> free_pages s' + (if vmemory h = 0 then 1 else 0)"
  proof (cases "vmemory h = 0")
    case True
    obtain s' q where "kmalloc s ?b = Some (s', q)" "kernel_inv s'" "heap_step s s'" "tables s' = tables s"
      "live_pages s' = insert q (live_pages s)" "free_pages s = Suc (free_pages s')" "q \<noteq> 0"
      using kmalloc_small [OF inv room p(3,4)] by (elim exE conjE) (rule that)
    then show ?thesis using True krealloc_null [OF inv p(1)] by (intro that [of s' q]) auto
  next
    case False
    then have "page_block s (vmemory h)" using p(2) by simp
    from krealloc_page_block [OF inv p(1) this p(3,4)] False show ?thesis using inv by (intro that [of s "vmemory h"]) simp_all
  qed
  have "vector_resize krealloc s h 1 = Some (s', h\<lparr>vmemory := q, tm_elems := ?final\<rparr>, 0)"
    using False q(1,2) by (simp add: vector_resize_def Let_def)
  then show ?thesis using q(2-7) by (intro exI [of _ s'] exI [of _ "h\<lparr>vmemory := q, tm_elems := ?final\<rparr>"]) simp
qed

text \<open>The table after an allocation is recorded: in its first null entry, or behind its elements.\<close>

definition recorded :: "process_allocation \<Rightarrow> process_allocation list \<Rightarrow> process_allocation list" where
  "recorded a xs = (case index_from (\<lambda>a. alloc_ptr a = 0) xs 0 of Some i \<Rightarrow> xs[i := a] | None \<Rightarrow> xs @ [a])"

definition has_null_entry :: "process_allocation tvec \<Rightarrow> bool" where
  "has_null_entry v \<longleftrightarrow> (\<exists>a\<in>set (tv_items v). alloc_ptr a = 0)"

definition table_ready :: "'s kernel_scheme \<Rightarrow> process_allocation tvec \<Rightarrow> bool" where
  "table_ready s v \<longleftrightarrow> has_null_entry v \<or> t_elems (tv_header v) < 2 ^ 31 \<and> push_ready s (tv_header v)"

text \<open>The free pages that an allocation of a page may take: the page, three page tables, and a page for a table that has none.\<close>

definition pages_needed :: "process_allocation tvec \<Rightarrow> nat" where
  "pages_needed v = (if has_null_entry v \<or> vmemory (tv_header v) \<noteq> 0 then 4 else 5)"

lemma index_from_None: "index_from P xs k = None \<longleftrightarrow> (\<forall>x\<in>set xs. \<not> P x)"
  by (induction xs arbitrary: k) auto

lemma table_ready_kzalloc:
  assumes "kernel_inv s" "0 < free_pages s" "0 < unat sz" "unat sz \<le> 4096" "kzalloc s sz = Some (s', p)" "table_ready s v"
  shows "table_ready s' v"
  using kzalloc_page_keeps [OF assms(1-5)] assms(6) by (auto simp: table_ready_def push_ready_def)

lemma find_free_step:
  assumes mem: "kernel_inv s" "allocations (processes s p) = Some v" "tvec_ok v" and room: "0 < free_pages s" and ready: "table_ready s v"
  shows "\<exists>s1 v1 i. process_find_free_allocation_index s p = Some (s1, int i) \<and> i < length (tv_items v1) \<and> i < 2 ^ 64 \<and>
    kernel_inv s1 \<and> tables s1 = tables s \<and> live_pages s \<subseteq> live_pages s1 \<and> free_pages s + 4 \<le> free_pages s1 + pages_needed v \<and> tvec_ok v1 \<and>
    processes s1 = (processes s)(p := (processes s p)\<lparr>allocations := Some v1\<rparr>) \<and>
    (\<forall>a. (tv_items v1)[i := a] = recorded a (tv_items v)) \<and> (has_null_entry v \<longrightarrow> v1 = v)"
proof -
  have "unat (t_elems (tv_header v)) < 2 ^ 64" by (rule order.strict_trans2 [OF unsigned_less]) simp
  then have lim: "length (tv_items v) < 2 ^ 64" using mem(3) by (simp add: tvec_ok_def)
  show ?thesis
  proof (cases "index_from (\<lambda>a. alloc_ptr a = 0) (tv_items v) 0")
    case (Some i)
    have i: "i < length (tv_items v)" using index_from_Some [OF Some] by simp
    have "processes s = (processes s)(p := (processes s p)\<lparr>allocations := Some v\<rparr>)" using mem(2) by (auto simp: fun_eq_iff)
    then show ?thesis using Some mem i lim tvec_ok_items [OF mem(3)]
      by (intro exI [of _ s] exI [of _ v] exI [of _ i]) (simp add: process_find_free_allocation_index_def recorded_def pages_needed_def)
  next
    case None
    then have nn: "\<not> has_null_entry v" by (simp add: index_from_None has_null_entry_def)
    have t: "t_elems (tv_header v) < 2 ^ 31" and pr: "push_ready s (tv_header v)" using ready nn by (simp_all add: table_ready_def)
    obtain s1 h where r: "vector_resize krealloc s (tv_header v) 1 = Some (s1, h, 0)" "kernel_inv s1" "heap_step s s1" "tables s1 = tables s"
      "t_elems h = t_elems (tv_header v)" "vmemory h \<noteq> 0" "live_pages s \<subseteq> live_pages s1" "free_pages s \<le> free_pages s1 + (if vmemory (tv_header v) = 0 then 1 else 0)"
      using push_ready_step [OF mem(1) room pr] by (elim exE conjE) (rule that)
    let ?n = "length (tv_items v)"
    let ?v = "\<lparr>tv_header = h\<lparr>t_elems := t_elems h + 1\<rparr>, tv_items = tv_items v @ [null_allocation]\<rparr>"
    have n: "unat (t_elems h) = ?n" "?n < 2 ^ 31" using mem(3) t r(5) by (simp_all add: tvec_ok_def word_less_nat_alt)
    have n1: "unat (t_elems h + 1) = Suc ?n" using n by (subst unat_add_lem [THEN iffD1]) simp_all
    have ix: "int_of_size (t_elems h) = int ?n" using int_of_size_nat [of "t_elems h"] n by auto
    have "process_find_free_allocation_index s p = Some (set_allocations s1 p ?v, int ?n)"
      using None mem(2) tvec_ok_items [OF mem(3)] r(1) ix by (simp add: process_find_free_allocation_index_def tvec_push_def)
    moreover have "tvec_ok ?v" using n1 r(6) by (simp add: tvec_ok_def)
    moreover have "processes s1 = processes s" using r(3) by (auto simp: heap_step_def)
    ultimately show ?thesis using r(2,4,7,8) lim n nn None
      by (intro exI [of _ "set_allocations s1 p ?v"] exI [of _ ?v] exI [of _ ?n]) (simp add: set_allocations_def recorded_def pages_needed_def split: if_splits)
  qed
qed

lemma recorded_split:
  "\<exists>ys zs. (\<forall>a. recorded a xs = ys @ a # zs) \<and> set ys \<subseteq> set xs \<and> set zs \<subseteq> set xs"
proof (cases "index_from (\<lambda>a. alloc_ptr a = 0) xs 0")
  case None
  then show ?thesis by (intro exI [of _ xs] exI [of _ "[]"]) (simp add: recorded_def)
next
  case (Some i)
  then have "i < length xs" using index_from_Some by fastforce
  then show ?thesis using Some
    by (intro exI [of _ "take i xs"] exI [of _ "drop (Suc i) xs"])
      (auto simp: recorded_def upd_conv_take_nth_drop dest: in_set_takeD in_set_dropD)
qed

lemma recorded_null:
  assumes "has_null_entry v" "\<forall>a\<in>set (tv_items v). alloc_ptr a = 0 \<longrightarrow> a = null_allocation"
  shows "recorded null_allocation (tv_items v) = tv_items v"
proof -
  obtain i where i: "index_from (\<lambda>a. alloc_ptr a = 0) (tv_items v) 0 = Some i"
    using assms(1) index_from_None [of "\<lambda>a. alloc_ptr a = 0" "tv_items v" 0] by (auto simp: has_null_entry_def)
  have k: "i < length (tv_items v)" "alloc_ptr (tv_items v ! i) = 0" using index_from_Some [OF i] by simp_all
  then have "tv_items v ! i = null_allocation" using assms(2) nth_mem by blast
  then show ?thesis using i k(1) list_update_id [of "tv_items v" i] by (simp add: recorded_def)
qed

lemma process_malloc_step:
  assumes mem: "process_memory s p desc v" and room: "pages_needed v \<le> free_pages s" and ready: "table_ready s v"
    and n: "0 < unat n" "unat n \<le> 4096"
  shows "\<exists>s' ptr v'. process_malloc s p n = Some (s', ptr) \<and> ptr \<noteq> 0 \<and> ptr \<notin> live_pages s \<and> ptr mod 4096 = 0 \<and> ptr < 2 ^ 52 \<and>
    ptr \<in> live_pages s' \<and> live_pages s \<subseteq> live_pages s' \<and> free_pages s \<le> free_pages s' + pages_needed v \<and>
    process_memory s' p desc v' \<and> processes s' = (processes s)(p := (processes s p)\<lparr>allocations := Some v'\<rparr>) \<and>
    tv_items v' = recorded \<lparr>alloc_ptr = ptr, alloc_end = ptr + n, alloc_size = n\<rparr> (tv_items v) \<and>
    (has_null_entry v \<longrightarrow> tv_header v' = tv_header v) \<and>
    (\<forall>x. mmu_translate (tables s') (pml desc) x =
       (if same_page x ptr then Some (ptr + (x AND 0xFFF), True, True) else mmu_translate (tables s) (pml desc) x))"
proof -
  have facts: "kernel_inv s" "process_paging_desc (processes s p) = Some desc" "pt_tree (tables s) (pml desc) (live_pages s)"
    "allocations (processes s p) = Some v" "tvec_ok v" using mem by (simp_all add: process_memory_def)
  have pn: "4 \<le> pages_needed v" by (simp add: pages_needed_def)
  then have some: "0 < free_pages s" using room by simp
  obtain s1 ptr where a: "kzalloc s n = Some (s1, ptr)" "kernel_inv s1" "heap_step s s1" "tables s1 = tables s"
    "ptr \<notin> live_pages s" "live_pages s1 = insert ptr (live_pages s)" "free_pages s = Suc (free_pages s1)"
    "ptr \<noteq> 0" "ptr mod 4096 = 0" "ptr < 2 ^ 52"
    using kzalloc_small [OF facts(1) some n] by (elim exE conjE) (rule that)
  have p1: "processes s1 = processes s" using a(3) by (auto simp: heap_step_def)
  have al: "allocations (processes s1 p) = Some v" using p1 facts(4) by simp
  have some1: "0 < free_pages s1" using a(7) room pn by simp
  let ?a = "\<lparr>alloc_ptr = ptr, alloc_end = ptr + n, alloc_size = n\<rparr>"
  obtain s2 v1 i where f: "process_find_free_allocation_index s1 p = Some (s2, int i)" "i < length (tv_items v1)" "i < 2 ^ 64"
    "kernel_inv s2" "tables s2 = tables s1" "live_pages s1 \<subseteq> live_pages s2" "free_pages s1 + 4 \<le> free_pages s2 + pages_needed v" "tvec_ok v1"
    "processes s2 = (processes s1)(p := (processes s1 p)\<lparr>allocations := Some v1\<rparr>)"
    "(tv_items v1)[i := ?a] = recorded ?a (tv_items v)" "has_null_entry v \<longrightarrow> v1 = v"
    using find_free_step [OF a(2) al facts(5) some1 table_ready_kzalloc [OF facts(1) some n a(1) ready]]
    by (elim exE conjE) (rule that; (assumption | blast))
  have live: "live_pages s \<subseteq> live_pages s2" "ptr \<in> live_pages s2" using a(6) f(6) by auto
  have "pt_tree (tables s2) (pml desc) (live_pages s2)" using pt_tree_mono [OF facts(3) live(1)] a(4) f(5) by simp
  then obtain s3 where m: "paging_map_to kzalloc s2 desc ptr ptr (ptr + 4096)
      (PAGING_IS_WRITEABLE OR PAGING_IS_PRESENT OR PAGING_ACCESS_FROM_ALL) = Some (s3, 0)" "heap_step s2 s3" "kernel_inv s3"
    "pt_tree (tables s3) (pml desc) (live_pages s3)" "free_pages s2 \<le> free_pages s3 + 3" "live_pages s2 \<subseteq> live_pages s3"
    "\<And>x. mmu_translate (tables s3) (pml desc) x =
       (if same_page x ptr then Some (ptr + (x AND 0xFFF), True, True) else mmu_translate (tables s2) (pml desc) x)"
    using map_own_page [OF f(4) _ _ a(9,10), of desc "PAGING_IS_WRITEABLE OR PAGING_IS_PRESENT OR PAGING_ACCESS_FROM_ALL"]
      room a(7) f(7) by auto
  have p3: "processes s3 = processes s2" using m(2) by (auto simp: heap_step_def)
  let ?v = "v1\<lparr>tv_items := recorded ?a (tv_items v)\<rparr>"
  note ow = tvec_overwrite_ok [OF f(8,2,3), of ?a, unfolded f(10)]
  have "process_allocation_set_map s2 p (int i) ptr n = Some (set_allocations s3 p ?v, 0)"
    using facts(2) p1 f(9) p3 m(1) ow(1) tvec_at_ok [OF f(8,2,3)]
    by (simp add: process_allocation_set_map_def align_one_page [OF a(9,10) n])
  then have r: "process_malloc s p n = Some (set_allocations s3 p ?v, ptr)"
    using a(1,8) f(1) by (simp add: process_malloc_def)
  have mem': "process_memory (set_allocations s3 p ?v) p desc ?v"
    using m(3,4) facts(2) p1 f(9) p3 ow(2) by (simp add: process_memory_def set_allocations_def)
  have pr: "processes (set_allocations s3 p ?v) = (processes s)(p := (processes s p)\<lparr>allocations := Some ?v\<rparr>)"
    using p1 f(9) p3 by (simp add: set_allocations_def)
  have fp: "free_pages s \<le> free_pages s3 + pages_needed v" using a(7) f(7) m(5) by simp
  have h: "has_null_entry v \<longrightarrow> tv_header ?v = tv_header v" using f(11) by simp
  show ?thesis
  proof (rule exI [of _ "set_allocations s3 p ?v"], rule exI [of _ ptr], rule exI [of _ ?v], intro conjI allI)
    show "process_malloc s p n = Some (set_allocations s3 p ?v, ptr)" by (rule r)
    show "ptr \<in> live_pages (set_allocations s3 p ?v)" "live_pages s \<subseteq> live_pages (set_allocations s3 p ?v)"
      using live m(6) by (auto simp: set_allocations_def)
    show "free_pages s \<le> free_pages (set_allocations s3 p ?v) + pages_needed v" using fp by (simp add: set_allocations_def)
    show "mmu_translate (tables (set_allocations s3 p ?v)) (pml desc) x =
       (if same_page x ptr then Some (ptr + (x AND 0xFFF), True, True) else mmu_translate (tables s) (pml desc) x)" for x
      using m(7) a(4) f(5) by (simp add: set_allocations_def)
  qed (use mem' pr a h in \<open>simp_all\<close>)
qed

lemma free_recorded:
  assumes "\<forall>a\<in>set xs. alloc_ptr a \<noteq> alloc_ptr b"
  shows "find (\<lambda>a. alloc_ptr a = alloc_ptr b) (recorded b xs) = Some b"
    "map (\<lambda>a. if alloc_ptr a = alloc_ptr b then null_allocation else a) (recorded b xs) = recorded null_allocation xs"
proof -
  obtain ys zs where s: "recorded a xs = ys @ a # zs" "set ys \<subseteq> set xs" "set zs \<subseteq> set xs" for a
    using recorded_split [of xs] by blast
  have n: "alloc_ptr a \<noteq> alloc_ptr b" if "a \<in> set ys \<union> set zs" for a using that s(2,3) assms by auto
  show "find (\<lambda>a. alloc_ptr a = alloc_ptr b) (recorded b xs) = Some b"
    unfolding s(1) by (rule find_split) (use n in auto)
  have k: "map (\<lambda>a. if alloc_ptr a = alloc_ptr b then null_allocation else a) ws = ws" if "set ws \<subseteq> set ys \<union> set zs" for ws
    using that n by (intro map_idI) auto
  show "map (\<lambda>a. if alloc_ptr a = alloc_ptr b then null_allocation else a) (recorded b xs) = recorded null_allocation xs"
    unfolding s(1) using k [of ys] k [of zs] by simp
qed

lemma process_free_step:
  assumes mem: "process_memory s p desc v" and room: "3 \<le> free_pages s"
    and a: "find (\<lambda>a. alloc_ptr a = ptr) (tv_items v) = Some a"
    and ptr: "ptr mod 4096 = 0" "ptr < 2 ^ 52" and n: "0 < unat (alloc_size a)" "unat (alloc_size a) \<le> 4096"
  shows "\<exists>s'. process_free s p ptr = Some s' \<and> live_pages s \<subseteq> live_pages s' \<and>
    (let v' = v\<lparr>tv_items := map (\<lambda>a. if alloc_ptr a = ptr then null_allocation else a) (tv_items v)\<rparr> in
      process_memory s' p desc v' \<and> processes s' = (processes s)(p := (processes s p)\<lparr>allocations := Some v'\<rparr>)) \<and>
    (\<forall>x. mmu_translate (tables s') (pml desc) x = (if same_page x ptr then None else mmu_translate (tables s) (pml desc) x))"
proof -
  have facts: "kernel_inv s" "process_paging_desc (processes s p) = Some desc" "pt_tree (tables s) (pml desc) (live_pages s)"
    "allocations (processes s p) = Some v" "tvec_ok v" using mem by (simp_all add: process_memory_def)
  have ap: "alloc_ptr a = ptr" using a by (auto simp: find_Some_iff)
  obtain s1 where m: "paging_map_to kzalloc s desc ptr ptr (ptr + 4096) 0 = Some (s1, 0)" "heap_step s s1" "kernel_inv s1"
    "pt_tree (tables s1) (pml desc) (live_pages s1)" "live_pages s \<subseteq> live_pages s1"
    "\<And>x. mmu_translate (tables s1) (pml desc) x = (if same_page x ptr then None else mmu_translate (tables s) (pml desc) x)"
    using map_own_page [OF facts(1,3) room ptr, of 0] by auto
  have p1: "processes s1 = processes s" using m(2) by (auto simp: heap_step_def)
  let ?v = "v\<lparr>tv_items := map (\<lambda>a. if alloc_ptr a = ptr then null_allocation else a) (tv_items v)\<rparr>"
  have "process_free s p ptr = Some (set_allocations s1 p ?v)"
    using facts(2,4) p1 m(1) a tvec_ok_items [OF facts(5)]
    by (simp add: process_free_def process_get_allocation_by_start_addr_def process_allocation_unjoin_def ap kfree_def
        align_one_page [OF ptr n])
  moreover have "tvec_ok ?v" using facts(5) by (simp add: tvec_ok_def)
  ultimately show ?thesis
    using m(3-6) p1 facts(2) by (intro exI [of _ "set_allocations s1 p ?v"]) (auto simp: process_memory_def set_allocations_def)
qed

subsection \<open>Properties of a process's memory\<close>

text \<open>
  C21. \<^bold>\<open>Allocating memory for a process.\<close> With pages to spare, and a table of allocations with a null entry or with
  room for one more, a request of at most a page gives a new page: the first null entry records it, or a new entry at the
  end, the process alone changes, and its page tables now translate exactly that page to itself, writable from user
  mode. There is room for one more behind the elements, or the table has never been grown, as \<open>process_init\<close> leaves
  it, or it lies in one page of the heap and with its reserve still fits in a page. A table beyond a page has to move, and is not covered.
\<close>

theorem process_malloc_maps_page:
  assumes "process_memory s p desc v" "pages_needed v \<le> free_pages s" "table_ready s v" "0 < unat n" "unat n \<le> 4096"
  shows "\<exists>s' ptr v'. process_malloc s p n = Some (s', ptr) \<and> ptr \<noteq> 0 \<and> ptr \<notin> live_pages s \<and> ptr mod 4096 = 0 \<and>
    processes s' = (processes s)(p := (processes s p)\<lparr>allocations := Some v'\<rparr>) \<and> process_memory s' p desc v' \<and>
    tv_items v' = recorded \<lparr>alloc_ptr = ptr, alloc_end = ptr + n, alloc_size = n\<rparr> (tv_items v) \<and>
    (\<forall>x. mmu_translate (tables s') (pml desc) x =
       (if same_page x ptr then Some (ptr + (x AND 0xFFF), True, True) else mmu_translate (tables s) (pml desc) x))"
  using process_malloc_step [OF assms] by (elim exE conjE) (intro exI conjI; assumption)

text \<open>
  C27. \<^bold>\<open>Allocating and freeing.\<close> After \<open>process_malloc\<close> and \<open>process_free\<close> of its result the process differs in the table of
  allocations alone: the entry that was taken is null. With a null entry in the table before, the process is as it was; without one, the
  table has become one null entry longer. The page is not mapped any more, but it is not given back: it stays
  allocated in the kernel's heap. The conditions are those of the allocation, with three pages more.
\<close>

theorem process_malloc_free_roundtrip:
  assumes "process_memory s p desc v" "pages_needed v + 3 \<le> free_pages s" "table_ready s v"
    and "\<forall>a\<in>set (tv_items v). alloc_ptr a = 0 \<or> alloc_ptr a \<in> live_pages s"
    and "0 < unat n" "unat n \<le> 4096"
  shows "\<exists>s' ptr s'' v''. process_malloc s p n = Some (s', ptr) \<and> process_free s' p ptr = Some s'' \<and>
    processes s'' = (processes s)(p := (processes s p)\<lparr>allocations := Some v''\<rparr>) \<and>
    tv_items v'' = recorded null_allocation (tv_items v) \<and>
    (has_null_entry v \<and> (\<forall>a\<in>set (tv_items v). alloc_ptr a = 0 \<longrightarrow> a = null_allocation) \<longrightarrow> processes s'' = processes s) \<and>
    ptr \<notin> live_pages s \<and> ptr \<in> live_pages s'' \<and>
    (\<forall>x. mmu_translate (tables s'') (pml desc) x =
       (if same_page x ptr then None else mmu_translate (tables s) (pml desc) x))"
proof -
  have r: "pages_needed v \<le> free_pages s" using assms(2) by simp
  obtain s' ptr v' where m: "process_malloc s p n = Some (s', ptr)" "ptr \<noteq> 0" "ptr \<notin> live_pages s" "ptr mod 4096 = 0"
    "ptr < 2 ^ 52" "ptr \<in> live_pages s'" "live_pages s \<subseteq> live_pages s'" "free_pages s \<le> free_pages s' + pages_needed v"
    "process_memory s' p desc v'" "processes s' = (processes s)(p := (processes s p)\<lparr>allocations := Some v'\<rparr>)"
    "tv_items v' = recorded \<lparr>alloc_ptr = ptr, alloc_end = ptr + n, alloc_size = n\<rparr> (tv_items v)"
    "has_null_entry v \<longrightarrow> tv_header v' = tv_header v"
    "\<And>x. mmu_translate (tables s') (pml desc) x =
       (if same_page x ptr then Some (ptr + (x AND 0xFFF), True, True) else mmu_translate (tables s) (pml desc) x)"
    using process_malloc_step [OF assms(1) r assms(3,5,6)] by (elim exE conjE) (rule that; (assumption | blast))
  let ?a = "\<lparr>alloc_ptr = ptr, alloc_end = ptr + n, alloc_size = n\<rparr>"
  have other: "\<forall>a\<in>set (tv_items v). alloc_ptr a \<noteq> alloc_ptr ?a" using assms(4) m(2,3) by auto
  note fr = free_recorded [OF other, simplified]
  let ?v = "v'\<lparr>tv_items := recorded null_allocation (tv_items v)\<rparr>"
  obtain s'' where f: "process_free s' p ptr = Some s''" "live_pages s' \<subseteq> live_pages s''"
    "processes s'' = (processes s')(p := (processes s' p)\<lparr>allocations := Some ?v\<rparr>)"
    "\<And>x. mmu_translate (tables s'') (pml desc) x =
       (if same_page x ptr then None else mmu_translate (tables s') (pml desc) x)"
    using process_free_step [OF m(9) _ _ m(4,5), of ?a] assms(2,5,6) m(8) fr by (auto simp: Let_def m(11))
  have p: "processes s'' = (processes s)(p := (processes s p)\<lparr>allocations := Some ?v\<rparr>)" using f(3) m(10) by simp
  have "processes s'' = processes s"
    if "has_null_entry v" "\<forall>a\<in>set (tv_items v). alloc_ptr a = 0 \<longrightarrow> a = null_allocation"
  proof -
    have "?v = v" using m(12) that(1) recorded_null [OF that] by simp
    moreover have "allocations (processes s p) = Some v" using assms(1) by (simp add: process_memory_def)
    ultimately show ?thesis using p by (auto simp: fun_eq_iff)
  qed
  then show ?thesis using m(1,3,6,13) f(1,2,4) p
    by (intro exI [of _ s'] exI [of _ ptr] exI [of _ s''] exI [of _ ?v]) auto
qed

subsection \<open>Recording an allocation\<close>

lemma set_map_cases:
  assumes "process_allocation_set_map s p i ptr n = Some (s', res)"
  shows "\<exists>s1. heap_step s s1 \<and> (s' = s1 \<or> (\<exists>v x v' r. allocations (processes s1 p) = Some v \<and>
    tvec_overwrite v i x = Some (v', r) \<and> s' = set_allocations s1 p v'))"
proof -
  obtain desc s1 r where m: "process_paging_desc (processes s p) = Some desc"
    "paging_map_to kzalloc s desc ptr ptr (paging_align_address (ptr + n))
        (PAGING_IS_WRITEABLE OR PAGING_IS_PRESENT OR PAGING_ACCESS_FROM_ALL) = Some (s1, r)"
    using assms by (auto simp: process_allocation_set_map_def bind_eq_Some_conv)
  show ?thesis
  proof (cases "r < 0")
    case True
    then show ?thesis using assms m paging_map_to_step [OF m(2)] by (auto simp: process_allocation_set_map_def)
  next
    case False
    then obtain v x where v: "allocations (processes s1 p) = Some v" "tvec_at v (word_of_int i) = Some x"
      using assms m by (auto simp: process_allocation_set_map_def bind_eq_Some_conv)
    show ?thesis
      using assms m v False paging_map_to_step [OF m(2)]
      by (cases x) (auto simp: process_allocation_set_map_def bind_eq_Some_conv, blast)
  qed
qed

subsection \<open>A system with one process\<close>

text \<open>The kernel of the examples with the process \<open>k\<close> at \<open>0x9000\<close> and its task at \<open>0x2000\<close>.\<close>

definition vector_of :: "u64 \<Rightarrow> 'a list \<Rightarrow> 'a tvec" where
  "vector_of e xs = \<lparr>tv_header = \<lparr>vmemory = 0x7000, vflags = 0, e_size = e, t_elems = of_nat (length xs),
     tm_elems = of_nat (length xs) + 10, t_reserved_elements = 10\<rparr>, tv_items = xs\<rparr>"

definition one_process :: "process \<Rightarrow> pstate" where
  "one_process k = \<lparr>kmem = kmem kernel8, tables = tables kernel8, current_paging_desc = Some \<lparr>pml = 0x1000, level = 4\<rparr>,
     cr3 = 0x1000, tlb_invalidated = [], heap_at = heap_at kernel8, kernel_multiheap = kernel_multiheap kernel8,
     tasks = (\<lambda>_. \<lparr>registers = null_registers, task_process = 0x9000, sleep_until_microseconds = 0, next_task = 0, prev_task = 0\<rparr>),
     current_task = 0x2000, task_tail = 0x2000, task_head = 0x2000, processes = (\<lambda>_. null_process)(0x9000 := k),
     process_vector = Some (vector_of 8 [0x9000]), current_process = 0x9000,
     handle_at = (\<lambda>_. \<lparr>handle_fd = 1, file_path = [], mode = []\<rparr>), window_at = (\<lambda>_. \<lparr>user_win = 0, kernel_win = 0\<rparr>),
     elf_files = (\<lambda>_. null_elf_file), userland_ptr_at = (\<lambda>_. 0)\<rparr>"

lemma vector_of_ok: "length xs < 2 ^ 64 \<Longrightarrow> tvec_ok (vector_of e xs)" "tv_items (vector_of e xs) = xs"
  by (simp_all add: vector_of_def tvec_ok_def)

lemma vector_of_header:
  "vmemory (tv_header (vector_of e xs)) = 0x7000" "e_size (tv_header (vector_of e xs)) = e"
  "t_elems (tv_header (vector_of e xs)) = of_nat (length xs)" "tm_elems (tv_header (vector_of e xs)) = of_nat (length xs) + 10"
  by (simp_all add: vector_of_def)

lemma one_process_at [simp]: "processes (one_process k) 0x9000 = k"
  by (simp add: one_process_def)

lemma one_process_kernel:
  "kernel_inv (one_process k)" "free_pages (one_process k) = free_pages kernel8" "live_pages (one_process k) = live_pages kernel8"
  "tables (one_process k) = tables kernel8"
  using kernel8_inv by (simp_all add: kernel_inv_def free_pages_def live_pages_def heap_list_def one_process_def)

lemma null_process_simps:
  "event_index null_process = 0" "total_unpopped null_process = 0"
  by (simp_all add: null_process_def)

lemma one_process_memory:
  assumes "length xs < 2 ^ 64"
  shows "process_memory (one_process (null_process\<lparr>process_paging_desc := Some \<lparr>pml = 0x1000, level = 4\<rparr>,
    allocations := Some (vector_of 24 xs)\<rparr>)) 0x9000 \<lparr>pml = 0x1000, level = 4\<rparr> (vector_of 24 xs)"
  using kernel8_tree vector_of_ok(1) [OF assms] by (simp add: process_memory_def one_process_kernel)

theorem validate_accepts_beyond_allocation_witness:
  "validate_memory (one_process (null_process\<lparr>allocations := Some (vector_of 24 [\<lparr>alloc_ptr = 0x500000, alloc_end = 0x501000, alloc_size = 0x1000\<rparr>])\<rparr>))
     0x9000 0x500000 0x501000 = Some 0"
  using validate_accepts_beyond_allocation [of "one_process (null_process\<lparr>allocations := Some (vector_of 24 [\<lparr>alloc_ptr = 0x500000, alloc_end = 0x501000, alloc_size = 0x1000\<rparr>])\<rparr>)" "0x9000" "vector_of 24 [\<lparr>alloc_ptr = 0x500000, alloc_end = 0x501000, alloc_size = 0x1000\<rparr>]"
      "[]" "\<lparr>alloc_ptr = 0x500000, alloc_end = 0x501000, alloc_size = 0x1000\<rparr>" "[]" "0x500000" "0x501000"]
  by (simp add: vector_of_ok process_is_stack_memory_def)

theorem window_events_only_last_witness:
  "\<exists>s'. push_events (one_process (null_process\<lparr>window_events := Some (vector_of 24 [\<lparr>event_type = 0, win_id = 0, event_window = 0, data_x = 0, data_y = 0\<rparr>])\<rparr>))
     0x9000 [\<lparr>event_type = 6, win_id = 1, event_window = 5, data_x = 65, data_y = 0\<rparr>, \<lparr>event_type = 6, win_id = 1, event_window = 5, data_x = 66, data_y = 0\<rparr>] = Some s' \<and>
     pop_events s' 0x9000 2 = Some (replicate 2 (0, \<lparr>event_type = 6, win_id = 1, event_window = 0, data_x = 66, data_y = 0\<rparr>))"
  unfolding numeral_2_eq_2 using window_events_only_last [of "one_process (null_process\<lparr>window_events := Some (vector_of 24 [\<lparr>event_type = 0, win_id = 0, event_window = 0, data_x = 0, data_y = 0\<rparr>])\<rparr>)"
      "0x9000" _ "[\<lparr>event_type = 6, win_id = 1, event_window = 5, data_x = 65, data_y = 0\<rparr>, \<lparr>event_type = 6, win_id = 1, event_window = 5, data_x = 66, data_y = 0\<rparr>]"]
  by (simp add: vector_of_ok null_process_simps del: push_events.simps pop_events.simps)

theorem userland_pointer_roundtrip_witness:
  "\<exists>s1 up s2. process_userland_pointer_create (one_process (null_process\<lparr>kernel_userland_ptrs := Some (vector_of 8 [])\<rparr>)) 0x9000 0xABC = Some (s1, up) \<and>
     process_userland_pointer_kernel_ptr s1 0x9000 up = Some 0xABC \<and> process_userland_pointer_release s1 0x9000 up = Some s2 \<and>
     process_userland_pointer_kernel_ptr s2 0x9000 up = Some 0"
  using userland_pointer_roundtrip [of "one_process (null_process\<lparr>kernel_userland_ptrs := Some (vector_of 8 [])\<rparr>)" "0x9000" "vector_of 8 []" "0xABC"]
  by (simp add: vector_of_ok one_process_kernel kernel8_pages(1) vector_of_header) blast

lemma page_offset: "ptr mod 4096 = 0 \<Longrightarrow> ptr AND 0xFFF = 0" for ptr :: u64
proof -
  have "ptr AND mask 12 = ptr mod 2 ^ 12" by (simp only: take_bit_eq_mask [symmetric] take_bit_eq_mod)
  moreover have "mask 12 = (0xFFF :: u64)" by (simp add: mask_eq_exp_minus_1)
  ultimately show "ptr mod 4096 = 0 \<Longrightarrow> ptr AND 0xFFF = 0" by simp
qed

text \<open>The table of a process that has allocated nothing, as \<open>process_init\<close> makes it.\<close>

definition new_table :: "process_allocation tvec" where
  "new_table = \<lparr>tv_header = \<lparr>vmemory = 0, vflags = 0, e_size = 24, t_elems = 0, tm_elems = 0, t_reserved_elements = 10\<rparr>, tv_items = []\<rparr>"

lemma new_table_memory:
  "process_memory (one_process (null_process\<lparr>process_paging_desc := Some \<lparr>pml = 0x1000, level = 4\<rparr>, allocations := Some new_table\<rparr>))
     0x9000 \<lparr>pml = 0x1000, level = 4\<rparr> new_table"
  using kernel8_tree by (simp add: process_memory_def one_process_kernel new_table_def tvec_ok_def)

lemma new_table_ready: "table_ready (one_process k) new_table"
  using kernel8_ready by (simp add: new_table_def table_ready_def push_ready_def physical_pools_def kernel_ready_def heap_list_def one_process_def)

theorem process_malloc_maps_page_witness:
  "\<exists>s' ptr. process_malloc (one_process (null_process\<lparr>process_paging_desc := Some \<lparr>pml = 0x1000, level = 4\<rparr>,
       allocations := Some new_table\<rparr>)) 0x9000 100 = Some (s', ptr) \<and>
     mmu_translate (tables s') (pml \<lparr>pml = 0x1000, level = 4\<rparr>) ptr = Some (ptr, True, True)"
proof -
  have n: "0 < unat (100 :: u64)" "unat (100 :: u64) \<le> 4096" by simp_all
  have r: "pages_needed new_table \<le> free_pages (one_process k)" for k by (simp add: one_process_kernel kernel8_pages(1) pages_needed_def)
  show ?thesis
    using process_malloc_maps_page [OF new_table_memory r new_table_ready n]
    by (elim exE conjE) (intro exI conjI, assumption, simp add: page_offset)
qed

lemma empty_table_ready: "table_ready (one_process k) (vector_of 24 [])"
  by (simp add: table_ready_def push_ready_def vector_of_def)

theorem process_malloc_free_roundtrip_witness:
  "\<exists>s' ptr s'' v''. process_malloc (one_process (null_process\<lparr>process_paging_desc := Some \<lparr>pml = 0x1000, level = 4\<rparr>,
       allocations := Some (vector_of 24 [])\<rparr>)) 0x9000 100 = Some (s', ptr) \<and>
     process_free s' 0x9000 ptr = Some s'' \<and>
     allocations (processes s'' 0x9000) = Some v'' \<and> tv_items v'' = [null_allocation]"
proof -
  have n: "0 < unat (100 :: u64)" "unat (100 :: u64) \<le> 4096" "length ([] :: process_allocation list) < 2 ^ 64" by simp_all
  have r: "pages_needed (vector_of 24 []) + 3 \<le> free_pages (one_process k)" for k
    by (simp add: one_process_kernel kernel8_pages(1) pages_needed_def vector_of_header)
  have l: "\<forall>a\<in>set (tv_items (vector_of 24 [])). alloc_ptr a = 0 \<or> alloc_ptr a \<in> live_pages (one_process k)" for k
    by (simp add: vector_of_ok)
  show ?thesis
    using process_malloc_free_roundtrip [OF one_process_memory [OF n(3)] r empty_table_ready l n(1,2)]
    by (elim exE conjE) (intro exI conjI, assumption, assumption, simp, simp add: vector_of_ok recorded_def)
qed

end
