(* ===== verification/ProcessFile.thy ===== *)
theory ProcessFile
  imports Process
begin

section \<open>Processes and files: loading, running and ending a process\<close>

text \<open>
  The part of \<open>task/process.c\<close> that uses open files. The state is that of the file layer, whose disks carry the
  kernel's memory with the processes in it (\<open>heap_of\<close>). \<open>al\<close> is the allocator as the file layer calls it, \<open>fs\<close> the
  file systems, and \<open>ws\<close> the window system.
\<close>

type_synonym ('s, 'b, 'p) process_system = "(('s pstate_scheme, 'b) disk_state_scheme, 'p) file_state"
type_synonym ('s, 'b, 'p) filesystems = "nat \<Rightarrow> (('s pstate_scheme, 'b) disk_state_scheme, 'p) File.filesystem"

subsection \<open>File handles of a process\<close>

definition process_file_handle_get :: "'s pstate_scheme \<Rightarrow> u64 \<Rightarrow> int \<Rightarrow> u64 option" where
  "process_file_handle_get s p fd = do {
     v \<leftarrow> file_handles (processes s p);
     hs \<leftarrow> tvec_items v;
     Some (case find (\<lambda>h. h \<noteq> 0 \<and> handle_fd (handle_at s h) = fd) hs of None \<Rightarrow> 0 | Some h \<Rightarrow> h)
   }"

text \<open>The structure is requested with the size of a pointer. A push that fails is not noticed.\<close>

definition process_fopen ::
  "'s pstate_scheme allocator \<Rightarrow> ('s, 'b, 'p) filesystems \<Rightarrow> ('s, 'b, 'p) process_system \<Rightarrow> u64 \<Rightarrow> u8 list \<Rightarrow> u8 list \<Rightarrow>
   (('s, 'b, 'p) process_system \<times> int) option" where
  "process_fopen al fs F p path mode_str = do {
     (F1, fd) \<leftarrow> fopen al fs F path mode_str;
     if fd \<le> 0 then do { (F2, _) \<leftarrow> fclose fs F1 fd; Some (F2, - EIO) }
     else do {
       (s2, h) \<leftarrow> kzalloc (heap_of F1) 8;
       if h = 0 then do { (F2, _) \<leftarrow> fclose fs (with_heap F1 s2) fd; Some (F2, - ENOMEM) }
       else do {
         path_copy \<leftarrow> strncpy (replicate 108 0) path PEACHOS_MAX_PATH;
         mode_copy \<leftarrow> strncpy (replicate 2 0) mode_str 2;
         let s3 = s2\<lparr>handle_at := (handle_at s2)(h := \<lparr>handle_fd = fd, file_path = path_copy, mode = mode_copy\<rparr>)\<rparr>;
         v \<leftarrow> file_handles (processes s3 p);
         (s4, v', _) \<leftarrow> tvec_push s3 v h;
         Some (with_heap F1 (update_process s4 p (\<lambda>k. k\<lparr>file_handles := Some v'\<rparr>)), fd)
       }
     }
   }"

definition process_fclose ::
  "('s, 'b, 'p) filesystems \<Rightarrow> ('s, 'b, 'p) process_system \<Rightarrow> u64 \<Rightarrow> int \<Rightarrow> (('s, 'b, 'p) process_system \<times> int) option" where
  "process_fclose fs F p fd = do {
     h \<leftarrow> process_file_handle_get (heap_of F) p fd;
     if h = 0 then Some (F, - EINVARG)
     else do {
       (F1, _) \<leftarrow> fclose fs F (handle_fd (handle_at (heap_of F) h));
       let s1 = heap_of F1;
       v \<leftarrow> file_handles (processes s1 p);
       (s2, v', _) \<leftarrow> tvec_pop_element s1 v h;
       Some (with_heap F1 (kfree (update_process s2 p (\<lambda>k. k\<lparr>file_handles := Some v'\<rparr>)) h), 0)
     }
   }"

definition process_fseek ::
  "('s, 'b, 'p) filesystems \<Rightarrow> ('s, 'b, 'p) process_system \<Rightarrow> u64 \<Rightarrow> int \<Rightarrow> int \<Rightarrow> u32 \<Rightarrow>
   (('s, 'b, 'p) process_system \<times> int) option" where
  "process_fseek fs F p fd offset whence = do {
     h \<leftarrow> process_file_handle_get (heap_of F) p fd;
     if h = 0 then Some (F, - EIO) else fseek fs F (handle_fd (handle_at (heap_of F) h)) offset whence
   }"

primrec close_handles_loop ::
  "('s, 'b, 'p) filesystems \<Rightarrow> ('s, 'b, 'p) process_system \<Rightarrow> u64 list \<Rightarrow> ('s, 'b, 'p) process_system option" where
  "close_handles_loop fs F [] = Some F"
| "close_handles_loop fs F (h # hs) =
     (if h = 0 then close_handles_loop fs F hs
      else do {
        (F1, _) \<leftarrow> fclose fs F (handle_fd (handle_at (heap_of F) h));
        close_handles_loop fs (with_heap F1 (kfree (heap_of F1) h)) hs
      })"

definition process_close_file_handles ::
  "('s, 'b, 'p) filesystems \<Rightarrow> ('s, 'b, 'p) process_system \<Rightarrow> u64 \<Rightarrow> (('s, 'b, 'p) process_system \<times> int) option" where
  "process_close_file_handles fs F p = do {
     v \<leftarrow> file_handles (processes (heap_of F) p);
     hs \<leftarrow> tvec_items v;
     F1 \<leftarrow> close_handles_loop fs F hs;
     Some (with_heap F1 (update_process (heap_of F1) p (\<lambda>k. k\<lparr>file_handles := None\<rparr>)), 0)
   }"

subsection \<open>Ending a process\<close>

text \<open>The vectors are freed, which is \<open>kfree\<close> again; the one of the windows is not.\<close>

definition process_free_process ::
  "('s, 'b, 'p) filesystems \<Rightarrow> 's pstate_scheme window_system \<Rightarrow> ('s, 'b, 'p) process_system \<Rightarrow> u64 \<Rightarrow>
   (('s, 'b, 'p) process_system \<times> int) option" where
  "process_free_process fs ws F p = do {
     s1 \<leftarrow> process_close_windows ws (heap_of F) p;
     (s2, _) \<leftarrow> process_terminate_allocations s1 p;
     let (s3, _) = process_free_program_data s2 p;
     (F4, _) \<leftarrow> process_close_file_handles fs (with_heap F s3) p;
     let s4 = heap_of F4;
     _ \<leftarrow> allocations (processes s4 p);
     _ \<leftarrow> kernel_userland_ptrs (processes s4 p);
     _ \<leftarrow> window_events (processes s4 p);
     let s5 = update_process s4 p (\<lambda>k. k\<lparr>allocations := None, kernel_userland_ptrs := None, window_events := None\<rparr>);
     let s6 = (if stack (processes s5 p) \<noteq> 0
       then update_process (kfree s5 (stack (processes s5 p))) p (\<lambda>k. k\<lparr>stack := 0\<rparr>) else s5);
     s7 \<leftarrow> (if process_task (processes s6 p) \<noteq> 0 then do {
            (s', _) \<leftarrow> task_free s6 (process_task (processes s6 p));
            Some (update_process s' p (\<lambda>k. k\<lparr>process_task := 0\<rparr>))
          } else Some s6);
     Some (with_heap F4 (kfree s7 p), 0)
   }"

definition process_terminate ::
  "('s, 'b, 'p) filesystems \<Rightarrow> 's pstate_scheme window_system \<Rightarrow> ('s, 'b, 'p) process_system \<Rightarrow> u64 \<Rightarrow>
   (('s, 'b, 'p) process_system \<times> int) option" where
  "process_terminate fs ws F p = do {
     s1 \<leftarrow> process_unlink (heap_of F) p;
     process_free_process fs ws (with_heap F s1) p
   }"

subsection \<open>Reading a file into a process\<close>

definition process_validate_memory_or_terminate ::
  "('s, 'b, 'p) filesystems \<Rightarrow> 's pstate_scheme window_system \<Rightarrow> ('s, 'b, 'p) process_system \<Rightarrow> u64 \<Rightarrow> u64 \<Rightarrow> u64 \<Rightarrow>
   (('s, 'b, 'p) process_system \<times> int) option" where
  "process_validate_memory_or_terminate fs ws F p virt_addr space_needed = do {
     res \<leftarrow> validate_memory (heap_of F) p virt_addr space_needed;
     if res < 0 then do { (F1, _) \<leftarrow> process_terminate fs ws F p; Some (F1, res) } else Some (F, res)
   }"

text \<open>
  The number is not looked up among the handles of the process. The two fields are read and written at the
  physical address.
\<close>

definition process_fstat ::
  "('s, 'b, 'p) filesystems \<Rightarrow> 's pstate_scheme window_system \<Rightarrow> ('s, 'b, 'p) process_system \<Rightarrow> u64 \<Rightarrow> int \<Rightarrow> u64 \<Rightarrow>
   (('s, 'b, 'p) process_system \<times> int) option" where
  "process_fstat fs ws F p fd virt_filestat_addr = do {
     (F1, res) \<leftarrow> process_validate_memory_or_terminate fs ws F p virt_filestat_addr 8;
     if res < 0 then Some (F1, res)
     else do {
       let s = heap_of F1;
       phys \<leftarrow> process_virtual_address_to_physical s p virt_filestat_addr;
       if phys = 0 then Some (F1, - EINVARG)
       else do {
         (stat, res) \<leftarrow> fstat fs F1 fd \<lparr>stat_flags = mem32 (kmem s) phys, filesize = mem32 (kmem s) (phys + 4)\<rparr>;
         let m = write_bytes (kmem s) phys (le_bytes 4 (stat_flags stat) @ le_bytes 4 (filesize stat));
         Some (with_heap F1 (s\<lparr>kmem := m\<rparr>), res)
       }
     }
   }"

text \<open>The size is validated as a 64-bit product, and \<open>fread\<close> takes the two factors in 32 bits.\<close>

definition process_fread ::
  "('s, 'b, 'p) filesystems \<Rightarrow> 's pstate_scheme window_system \<Rightarrow> ('s, 'b, 'p) process_system \<Rightarrow> u64 \<Rightarrow> u64 \<Rightarrow> u64 \<Rightarrow> u64 \<Rightarrow> int \<Rightarrow>
   (('s, 'b, 'p) process_system \<times> int) option" where
  "process_fread fs ws F p virt_ptr sz nmemb fd = do {
     h \<leftarrow> process_file_handle_get (heap_of F) p fd;
     if h = 0 then Some (F, - EIO)
     else do {
       let true_size = sz * nmemb;
       (F1, res) \<leftarrow> process_validate_memory_or_terminate fs ws F p virt_ptr true_size;
       if res < 0 then Some (F1, res)
       else do {
         let s = heap_of F1;
         phys_ptr \<leftarrow> task_virtual_address_to_physical s (process_task (processes s p)) virt_ptr;
         if phys_ptr = 0 then Some (F1, res)
         else do {
           let n = unat (ucast sz :: u32) * unat (ucast nmemb :: u32);
           (F2, res, bytes) \<leftarrow> fread fs F1 (read_bytes (kmem s) phys_ptr n) (ucast sz) (ucast nmemb) (handle_fd (handle_at s h));
           let s2 = heap_of F2;
           Some (with_heap F2 (s2\<lparr>kmem := write_bytes (kmem s2) phys_ptr bytes\<rparr>), res)
         }
       }
     }
   }"

subsection \<open>Loading a program\<close>

definition process_load_binary ::
  "'s pstate_scheme allocator \<Rightarrow> ('s, 'b, 'p) filesystems \<Rightarrow> ('s, 'b, 'p) process_system \<Rightarrow> u8 list \<Rightarrow> u64 \<Rightarrow>
   (('s, 'b, 'p) process_system \<times> int) option" where
  "process_load_binary al fs F fname p = do {
     (F1, fd) \<leftarrow> fopen al fs F fname [114, 0];
     if fd = 0 then do { (F2, _) \<leftarrow> fclose fs F1 fd; Some (F2, - EIO) }
     else do {
       (stat, res) \<leftarrow> fstat fs F1 fd \<lparr>stat_flags = 0, filesize = 0\<rparr>;
       if res \<noteq> PEACHOS_ALL_OK then do { (F2, _) \<leftarrow> fclose fs F1 fd; Some (F2, res) }
       else do {
         (s2, ptr) \<leftarrow> kzalloc (heap_of F1) (ucast (filesize stat));
         if ptr = 0 then do { (F2, _) \<leftarrow> fclose fs (with_heap F1 s2) fd; Some (F2, - ENOMEM) }
         else do {
           (F3, n, bytes) \<leftarrow> fread fs (with_heap F1 s2) (read_bytes (kmem s2) ptr (unat (filesize stat))) (filesize stat) 1 fd;
           let s3 = (heap_of F3)\<lparr>kmem := write_bytes (kmem (heap_of F3)) ptr bytes\<rparr>;
           if n \<noteq> 1 then do { (F4, _) \<leftarrow> fclose fs (with_heap F3 (kfree s3 ptr)) fd; Some (F4, - EIO) }
           else do {
             let s4 = update_process s3 p (\<lambda>k. k\<lparr>filetype := PROCESS_FILETYPE_BINARY, program := ptr, process_size := filesize stat\<rparr>);
             (F4, _) \<leftarrow> fclose fs (with_heap F3 s4) fd;
             Some (F4, 0)
           }
         }
       }
     }
   }"

definition process_load_elf ::
  "'s pstate_scheme allocator \<Rightarrow> ('s, 'b, 'p) filesystems \<Rightarrow> ('s, 'b, 'p) process_system \<Rightarrow> u8 list \<Rightarrow> u64 \<Rightarrow>
   (('s, 'b, 'p) process_system \<times> int) option" where
  "process_load_elf al fs F fname p = do {
     (F1, res, ef) \<leftarrow> elf_load al fs F fname;
     case ef of
       None \<Rightarrow> Some (F1, res)
     | Some (a, elf) \<Rightarrow>
         let s = heap_of F1; s1 = s\<lparr>elf_files := (elf_files s)(a := elf)\<rparr>
         in Some (with_heap F1 (update_process s1 p (\<lambda>k. k\<lparr>filetype := PROCESS_FILETYPE_ELF, program := a\<rparr>)), res)
   }"

definition process_load_data ::
  "'s pstate_scheme allocator \<Rightarrow> ('s, 'b, 'p) filesystems \<Rightarrow> ('s, 'b, 'p) process_system \<Rightarrow> u8 list \<Rightarrow> u64 \<Rightarrow>
   (('s, 'b, 'p) process_system \<times> int) option" where
  "process_load_data al fs F fname p = do {
     (F1, res) \<leftarrow> process_load_elf al fs F fname p;
     if res = - EINFORMAT then process_load_binary al fs F1 fname p else Some (F1, res)
   }"

text \<open>
  Giving the process its slot: what comes after its data is loaded. The result is the code; the boolean says
  whether the caller's pointer was set. \<open>ERROR_I\<close> of the task's address is its lower half.
\<close>

definition process_start ::
  "e820_entry list \<Rightarrow> 's pstate_scheme \<Rightarrow> u8 list \<Rightarrow> u64 \<Rightarrow> int \<Rightarrow> ('s pstate_scheme \<times> int \<times> bool) option" where
  "process_start es s fname p slot = do {
     (s1, st) \<leftarrow> kzalloc s PEACHOS_USER_PROGRAM_STACK_SIZE;
     let s1 = update_process s1 p (\<lambda>k. k\<lparr>stack := st\<rparr>);
     if st = 0 then Some (s1, - ENOMEM, False)
     else do {
       name \<leftarrow> strncpy (filename (processes s1 p)) fname PEACHOS_MAX_PATH;
       let s2 = update_process s1 p (\<lambda>k. k\<lparr>filename := name, process_id := word_of_int slot\<rparr>);
       (s3, desc) \<leftarrow> paging_desc_new kzalloc s2 PAGING_MAP_LEVEL_4;
       let s3 = update_process s3 p (\<lambda>k. k\<lparr>process_paging_desc := desc\<rparr>);
       if desc = None then Some (s3, - EIO, False)
       else do {
         (s4, res) \<leftarrow> process_map_memory es s3 p;
         if res < 0 then Some (s4, res, False)
         else do {
           (s5, t) \<leftarrow> task_new kzalloc (\<lambda>a. e_entry (elf_header_of (kmem s4) (elf_files s4 a))) s4 p;
           if (ucast t :: u32) = 0 then Some (update_process s5 p (\<lambda>k. k\<lparr>process_task := 0\<rparr>), 0, False)
           else do {
             let s6 = update_process s5 p (\<lambda>k. k\<lparr>process_task := t\<rparr>);
             v \<leftarrow> process_vector s6;
             (v', _) \<leftarrow> tvec_overwrite v slot p;
             Some (s6\<lparr>process_vector := Some v'\<rparr>, res, True)
           }
         }
       }
     }
   }"

text \<open>
  With a taken slot the error path tests a pointer that was never set: \<open>None\<close>. The last result is the new
  value of the caller's pointer, \<open>None\<close> where it is left alone.
\<close>

definition process_load_for_slot ::
  "'s pstate_scheme allocator \<Rightarrow> ('s, 'b, 'p) filesystems \<Rightarrow> 's pstate_scheme window_system \<Rightarrow> e820_entry list \<Rightarrow>
   (nat \<Rightarrow> window_event) \<Rightarrow> ('s, 'b, 'p) process_system \<Rightarrow> u8 list \<Rightarrow> int \<Rightarrow>
   (('s, 'b, 'p) process_system \<times> int \<times> u64 option) option" where
  "process_load_for_slot al fs ws es junk F fname process_slot = do {
     taken \<leftarrow> process_get (heap_of F) process_slot;
     if taken \<noteq> 0 then None
     else do {
       (s1, p) \<leftarrow> kzalloc (heap_of F) 1272;
       if p = 0 then Some (with_heap F s1, - ENOMEM, None)
       else do {
         s2 \<leftarrow> process_init junk s1 p;
         (F3, res) \<leftarrow> process_load_data al fs (with_heap F s2) fname p;
         if res < 0 then do { (F4, _) \<leftarrow> process_free_process fs ws F3 p; Some (F4, res, Some 0) }
         else do {
           (s4, res, set_pointer) \<leftarrow> process_start es (heap_of F3) fname p process_slot;
           if res < 0 then do { (F5, _) \<leftarrow> process_free_process fs ws (with_heap F3 s4) p; Some (F5, res, Some 0) }
           else Some (with_heap F3 s4, res, if set_pointer then Some p else None)
         }
       }
     }
   }"

definition process_load ::
  "'s pstate_scheme allocator \<Rightarrow> ('s, 'b, 'p) filesystems \<Rightarrow> 's pstate_scheme window_system \<Rightarrow> e820_entry list \<Rightarrow>
   (nat \<Rightarrow> window_event) \<Rightarrow> ('s, 'b, 'p) process_system \<Rightarrow> u8 list \<Rightarrow>
   (('s, 'b, 'p) process_system \<times> int \<times> u64 option) option" where
  "process_load al fs ws es junk F fname = do {
     (s1, process_slot) \<leftarrow> process_get_free_slot (heap_of F);
     if process_slot < 0 then Some (with_heap F s1, - EISTKN, None)
     else process_load_for_slot al fs ws es junk (with_heap F s1) fname process_slot
   }"

text \<open>When loading succeeds without setting the pointer, what is switched to is what it held before.\<close>

definition process_load_switch ::
  "'s pstate_scheme allocator \<Rightarrow> ('s, 'b, 'p) filesystems \<Rightarrow> 's pstate_scheme window_system \<Rightarrow> e820_entry list \<Rightarrow>
   (nat \<Rightarrow> window_event) \<Rightarrow> ('s, 'b, 'p) process_system \<Rightarrow> u8 list \<Rightarrow> u64 \<Rightarrow>
   (('s, 'b, 'p) process_system \<times> int \<times> u64) option" where
  "process_load_switch al fs ws es junk F fname old = do {
     (F1, res, ptr) \<leftarrow> process_load al fs ws es junk F fname;
     let p = (case ptr of None \<Rightarrow> old | Some p \<Rightarrow> p);
     Some (if res = 0 then with_heap F1 (fst (process_switch (heap_of F1) p)) else F1, res, p)
   }"

subsection \<open>What a process may do with files\<close>

lemma with_heap_simps [simp]:
  "heap_of (with_heap F s) = s" "with_heap F (heap_of F) = F" "with_heap (with_heap F s) s' = with_heap F s'"
  "file_descriptors (with_heap F s) = file_descriptors F" "descriptors_ok (with_heap F s) = descriptors_ok F"
  "file_get_descriptor (with_heap F s) d = file_get_descriptor F d"
  by (simp_all add: with_heap_def descriptors_ok_def file_get_descriptor_def)

lemma write_bytes_at: "k < length bs \<Longrightarrow> length bs < 2 ^ 64 \<Longrightarrow> write_bytes m p bs (p + of_nat k) = bs ! k"
  by (simp add: write_bytes_def)

lemma fclose_frees:
  assumes "descriptors_ok F" "\<forall>f q. fs_close (fs f) q = Some 0"
  shows "\<exists>F' res. fclose fs F fd = Some (F', res) \<and> disks F' = disks F \<and> descriptors_ok F' \<and>
    (\<forall>d. file_get_descriptor F' d = (if d = fd then None else file_get_descriptor F d))"
proof (cases "file_get_descriptor F fd")
  case None
  then show ?thesis using assms(1) by (auto simp: fclose_def)
next
  case (Some desc)
  note d = file_get_descriptor_ok [OF assms(1) Some]
  let ?F = "file_free_descriptor F desc"
  have l: "length (file_descriptors F) = 512" using assms(1) by (simp add: descriptors_ok_def)
  have "descriptors_ok ?F"
    using assms(1) d(1-3) by (auto simp: descriptors_ok_def file_free_descriptor_def nth_list_update)
  moreover have "file_get_descriptor ?F d = (if d = fd then None else file_get_descriptor F d)" for d
    using d(1-3) l by (auto simp: file_get_descriptor_def file_free_descriptor_def nth_list_update)
  moreover have "fclose fs F fd = Some (?F, 0)" using Some assms(2) by (simp add: fclose_def)
  ultimately show ?thesis by (auto simp: file_free_descriptor_def)
qed

lemma close_handles_loop_closes:
  assumes "\<forall>f q. fs_close (fs f) q = Some 0" "descriptors_ok F"
  shows "\<exists>F'. close_handles_loop fs F hs = Some F' \<and> disks F' = disks F \<and>
    (\<forall>d. file_get_descriptor F' d =
       (if \<exists>h\<in>set hs. h \<noteq> 0 \<and> handle_fd (handle_at (heap_of F) h) = d then None else file_get_descriptor F d))"
  using assms(2)
proof (induction hs arbitrary: F)
  case (Cons h hs)
  show ?case
  proof (cases "h = 0")
    case True
    then show ?thesis using Cons.IH [OF Cons.prems] by auto
  next
    case False
    obtain F1 r where F1: "fclose fs F (handle_fd (handle_at (heap_of F) h)) = Some (F1, r)" "disks F1 = disks F" "descriptors_ok F1"
      "\<forall>d. file_get_descriptor F1 d = (if d = handle_fd (handle_at (heap_of F) h) then None else file_get_descriptor F d)"
      using fclose_frees [OF Cons.prems assms(1)] by blast
    obtain F' where F': "close_handles_loop fs F1 hs = Some F'" "disks F' = disks F1"
      "\<forall>d. file_get_descriptor F' d =
         (if \<exists>h\<in>set hs. h \<noteq> 0 \<and> handle_fd (handle_at (heap_of F1) h) = d then None else file_get_descriptor F1 d)"
      using Cons.IH [OF F1(3)] by blast
    show ?thesis
      using False F1(1,2,4) F' by (auto simp: kfree_def)
  qed
qed simp

text \<open>
  \<^bold>\<open>A process's files are closed with it.\<close> \<open>process_close_file_handles\<close> frees exactly the descriptors behind the
  handles of the process; the other descriptors stay open.
\<close>

theorem process_close_file_handles_closes_own:
  assumes "descriptors_ok F" "\<forall>f q. fs_close (fs f) q = Some 0"
    and "file_handles (processes (heap_of F) p) = Some v" "tvec_ok v"
  shows "\<exists>F'. process_close_file_handles fs F p = Some (F', 0) \<and> file_handles (processes (heap_of F') p) = None \<and>
    (\<forall>d. file_get_descriptor F' d =
       (if \<exists>h\<in>set (tv_items v). h \<noteq> 0 \<and> handle_fd (handle_at (heap_of F) h) = d then None else file_get_descriptor F d))"
proof -
  obtain F' where F': "close_handles_loop fs F (tv_items v) = Some F'" "disks F' = disks F"
    "\<forall>d. file_get_descriptor F' d =
       (if \<exists>h\<in>set (tv_items v). h \<noteq> 0 \<and> handle_fd (handle_at (heap_of F) h) = d then None else file_get_descriptor F d)"
    using close_handles_loop_closes [of fs F "tv_items v"] assms(1,2) by blast
  then show ?thesis
    using assms(3) tvec_ok_items [OF assms(4)] by (auto simp: process_close_file_handles_def update_process_def)
qed

text \<open>
  C31. \<^bold>\<open>Reading, seeking and closing need an own handle.\<close> With the number of a file another process has open, the calls
  return an error and change nothing.
\<close>

theorem process_foreign_descriptor_refused:
  assumes "file_handles (processes (heap_of F) p) = Some v" "tvec_ok v"
    and "\<forall>h\<in>set (tv_items v). h \<noteq> 0 \<longrightarrow> handle_fd (handle_at (heap_of F) h) \<noteq> fd"
  shows "process_fread fs ws F p virt_ptr sz nmemb fd = Some (F, - EIO) \<and>
    process_fseek fs F p fd offset whence = Some (F, - EIO) \<and> process_fclose fs F p fd = Some (F, - EINVARG)"
proof -
  have "process_file_handle_get (heap_of F) p fd = Some 0"
    using assms by (auto simp: process_file_handle_get_def tvec_ok_items find_None_iff split: option.splits)
      (metis (mono_tags, lifting) assms(3) find_Some_iff nth_mem)
  then show ?thesis by (simp add: process_fread_def process_fseek_def process_fclose_def)
qed

text \<open>
  \<^bold>\<open>A file overwrites what is behind an allocation.\<close> A read of more bytes than the allocation holds passes the check of
  the program's memory, and all the bytes go to physical memory from the buffer's address on.
\<close>

theorem process_fread_past_allocation:
  assumes "process_file_handle_get (heap_of F) p fd = Some h" "h \<noteq> 0"
    and "allocations (processes (heap_of F) p) = Some v" "tvec_ok v" "tv_items v = xs @ a # ys"
    and "\<forall>b\<in>set xs. \<not> (alloc_ptr b \<le> addr \<and> addr \<le> alloc_end b)"
    and "alloc_ptr a \<le> addr" "addr \<le> alloc_end a" "\<not> process_is_stack_memory addr"
    and "unat (sz * nmemb) \<le> (unat (alloc_end a) - unat addr) + unat (alloc_ptr a)"
    and "task_virtual_address_to_physical (heap_of F) (process_task (processes (heap_of F) p)) addr = Some phys" "phys \<noteq> 0"
    and "fread fs F (read_bytes (kmem (heap_of F)) phys (unat (ucast sz :: u32) * unat (ucast nmemb :: u32)))
      (ucast sz) (ucast nmemb) (handle_fd (handle_at (heap_of F) h)) = Some (F2, res, bytes)" "length bytes < 2 ^ 64"
  shows "\<exists>F'. process_fread fs ws F p addr sz nmemb fd = Some (F', res) \<and>
    (\<forall>k < length bytes. kmem (heap_of F') (phys + of_nat k) = bytes ! k)"
proof -
  have v: "validate_memory (heap_of F) p addr (sz * nmemb) = Some 0"
    using validate_memory_spec [OF assms(3-9), of "sz * nmemb"] assms(10) by simp
  let ?F' = "with_heap F2 ((heap_of F2)\<lparr>kmem := write_bytes (kmem (heap_of F2)) phys bytes\<rparr>)"
  have "process_fread fs ws F p addr sz nmemb fd = Some (?F', res)"
    using assms(1,2,11-13) v by (simp add: process_fread_def process_validate_memory_or_terminate_def Let_def)
  then show ?thesis using assms(14) by (intro exI [of _ ?F']) (simp add: write_bytes_at)
qed

subsection \<open>A process with an open file\<close>

text \<open>
  The descriptor 1 is open, on a file system whose files have the byte \<open>0xEE\<close> everywhere. The page tables map every
  page to the frame at \<open>0x500000\<close>.
\<close>

definition ee_filesystem :: "nat \<Rightarrow> ((pstate, unit) disk_state_scheme, nat) File.filesystem" where
  "ee_filesystem f = \<lparr>fs_resolve_fn = (\<lambda>d i. Some (d, 0)), fs_open = (\<lambda>d i path m. Some (d, Inr 0)),
     fs_read = (\<lambda>d i q n k buf. Some (d, q, 1, replicate (length buf) 0xEE)), fs_seek = (\<lambda>q a b. Some (q, 0)),
     fs_stat = (\<lambda>q st. Some (st, 0)), fs_close = (\<lambda>q. Some 0)\<rparr>"

definition one_file :: "pstate \<Rightarrow> ((pstate, unit) disk_state_scheme, nat) file_state" where
  "one_file s = \<lparr>disks = \<lparr>heap_state = s, disk_vector = [], primary_fs_disk = None, disk_driver_vec = []\<rparr>,
     filesystems = replicate 12 None,
     file_descriptors = Some \<lparr>index = 1, desc_filesystem = 0, desc_private = 0, desc_disk = 0\<rparr> # replicate 511 None\<rparr>"

text \<open>A window system without windows.\<close>

definition no_windows :: "pstate window_system" where
  "no_windows = \<lparr>ws_screen = (\<lambda>s. (0, 0)), ws_body = (\<lambda>s w. \<lparr>relative_x = 0, relative_y = 0, body_width = 0, body_height = 0\<rparr>),
     ws_create = (\<lambda>s t x y w h f i. Some (s, 0)), ws_close = (\<lambda>s w. Some s), ws_register_handler = (\<lambda>s w. Some s)\<rparr>"

definition one_frame :: page_tables where
  "one_frame t i = null_desc\<lparr>entry_address := (if t = 0x4000 then 0x500 else ucast (t div 4096) + 1), present := True\<rparr>"

definition file_process :: process where
  "file_process = null_process\<lparr>process_paging_desc := Some \<lparr>pml = 0x1000, level = 4\<rparr>, process_task := 0x2000,
     allocations := Some (vector_of 24 [\<lparr>alloc_ptr = 0x500000, alloc_end = 0x501000, alloc_size = 0x1000\<rparr>]),
     file_handles := Some (vector_of 8 [0x8000])\<rparr>"

lemma one_file_simps:
  "heap_of (one_file s) = s" "descriptors_ok (one_file s)"
  "file_get_descriptor (one_file s) 1 = Some \<lparr>index = 1, desc_filesystem = 0, desc_private = 0, desc_disk = 0\<rparr>"
  by (auto simp: one_file_def descriptors_ok_def file_get_descriptor_def nth_Cons')

lemma file_process_simps:
  "file_handles file_process = Some (vector_of 8 [0x8000])" "process_task file_process = 0x2000"
  "allocations file_process = Some (vector_of 24 [\<lparr>alloc_ptr = 0x500000, alloc_end = 0x501000, alloc_size = 0x1000\<rparr>])"
  "process_paging_desc file_process = Some \<lparr>pml = 0x1000, level = 4\<rparr>"
  by (simp_all add: file_process_def)

lemma one_process_stores:
  "handle_at (one_process k) h = \<lparr>handle_fd = 1, file_path = [], mode = []\<rparr>" "task_process (tasks (one_process k) t) = 0x9000"
  by (simp_all add: one_process_def)

lemma ee_fread:
  "fread ee_filesystem (one_file s) buf n k 1 =
     (if n = 0 \<or> k = 0 then Some (one_file s, - EINVARG, buf) else Some (one_file s, 1, replicate (length buf) 0xEE))"
  by (simp add: fread_def one_file_simps ee_filesystem_def store_private_def) (simp add: one_file_def)

theorem process_close_file_handles_closes_own_witness:
  "\<exists>F'. process_close_file_handles ee_filesystem (one_file (one_process file_process)) 0x9000 = Some (F', 0) \<and>
     file_get_descriptor (one_file (one_process file_process)) 1 \<noteq> None \<and> file_get_descriptor F' 1 = None"
proof -
  have c: "\<forall>f q. fs_close (ee_filesystem f) q = Some 0" by (simp add: ee_filesystem_def)
  have h: "file_handles (processes (heap_of (one_file (one_process file_process))) 0x9000) = Some (vector_of 8 [0x8000])"
    by (simp add: one_file_simps file_process_simps)
  show ?thesis
    using process_close_file_handles_closes_own [OF one_file_simps(2) c h vector_of_ok(1)]
    by (auto simp: vector_of_ok one_file_simps one_process_stores)
qed

theorem process_foreign_descriptor_refused_witness:
  "process_fread ee_filesystem no_windows (one_file (one_process file_process)) 0x9000 0x500000 1 1 2 =
     Some (one_file (one_process file_process), - EIO)"
proof -
  have h: "file_handles (processes (heap_of (one_file (one_process file_process))) 0x9000) = Some (vector_of 8 [0x8000])"
    by (simp add: one_file_simps file_process_simps)
  show ?thesis
    using process_foreign_descriptor_refused [OF h vector_of_ok(1), of 2 ee_filesystem no_windows "0x500000" 1 1]
    by (simp add: vector_of_ok one_file_simps one_process_stores)
qed

lemma one_frame_translates: "paging_get_physical_address one_frame \<lparr>pml = 0x1000, level = 4\<rparr> 0x500000 = 0x500000"
proof -
  have n: "\<not> paging_null_entry (one_frame t i)" for t i
    by (simp add: paging_null_entry_def one_frame_def null_desc_def)
  have b: "entry_base (one_frame 0x1000 i) = 0x2000" "entry_base (one_frame 0x2000 i) = 0x3000"
    "entry_base (one_frame 0x3000 i) = 0x4000" "entry_base (one_frame 0x4000 i) = 0x500000" for i
    by (simp_all add: entry_base_def one_frame_def push_bit_eq_mult)
  show ?thesis by (simp add: paging_get_physical_address_def paging_get_def n b Let_def)
qed

theorem process_fread_past_allocation_witness:
  "\<exists>F'. process_fread ee_filesystem no_windows (one_file ((one_process file_process)\<lparr>tables := one_frame\<rparr>)) 0x9000 0x500000 0x2000 1 1 =
     Some (F', 1) \<and> kmem (heap_of F') 0x501800 = 0xEE"
proof -
  let ?s = "(one_process file_process)\<lparr>tables := one_frame\<rparr>"
  let ?a = "\<lparr>alloc_ptr = 0x500000, alloc_end = 0x501000, alloc_size = 0x1000\<rparr>"
  have h: "process_file_handle_get (heap_of (one_file ?s)) 0x9000 1 = Some 0x8000"
    by (simp add: process_file_handle_get_def one_file_simps file_process_simps tvec_ok_items vector_of_ok one_process_stores)
  have al: "allocations (processes (heap_of (one_file ?s)) 0x9000) = Some (vector_of 24 [?a])"
    by (simp add: one_file_simps file_process_simps)
  have phys: "task_virtual_address_to_physical (heap_of (one_file ?s)) (process_task (processes (heap_of (one_file ?s)) 0x9000)) 0x500000 = Some 0x500000"
    by (simp add: one_file_simps file_process_simps task_virtual_address_to_physical_def task_paging_desc_def one_process_stores
        one_frame_translates)
  have rd: "fread ee_filesystem (one_file ?s) (read_bytes (kmem (heap_of (one_file ?s))) 0x500000 (unat (ucast (0x2000 :: u64) :: u32) * unat (ucast (1 :: u64) :: u32)))
      (ucast (0x2000 :: u64)) (ucast (1 :: u64)) (handle_fd (handle_at (heap_of (one_file ?s)) 0x8000)) =
    Some (one_file ?s, 1, replicate 0x2000 0xEE)"
    by (simp add: one_file_simps one_process_stores ee_fread read_bytes_def)
  have n: "length [?a] < 2 ^ 64" "length (replicate 0x2000 (0xEE :: u8)) < 2 ^ 64" by simp_all
  obtain F' where F': "process_fread ee_filesystem no_windows (one_file ?s) 0x9000 0x500000 0x2000 1 1 = Some (F', 1)"
    "\<forall>k < length (replicate 0x2000 (0xEE :: u8)). kmem (heap_of F') (0x500000 + of_nat k) = replicate 0x2000 0xEE ! k"
    using process_fread_past_allocation [OF h _ al vector_of_ok(1) [OF n(1)], of "[]" ?a "[]" "0x500000" "0x2000" 1,
        OF _ _ _ _ _ _ _ phys _ rd n(2)]
    by (auto simp: vector_of_ok process_is_stack_memory_def)
  have "kmem (heap_of F') (0x500000 + of_nat 0x1800) = replicate 0x2000 0xEE ! 0x1800"
    by (rule F'(2) [rule_format]) simp
  then show ?thesis using F'(1) by (simp add: nth_replicate)
qed

end
