(* ===== verification/Keyboard.thy ===== *)
theory Keyboard
  imports Process
begin

section \<open>Keyboards: keyboard.c and classic.c\<close>

text \<open>
  The list of keyboards with their listeners, the ring buffer of keys in each process, and the driver of
  the classic keyboard. The store \<open>keyboard_at\<close> holds the keyboards and \<open>listener_at\<close> the function that a copied
  listener points to. What a listener and the initialisation of a driver do is an argument, by the address of the function.
\<close>

abbreviation (input) KEYBOARD_CAPS_LOCK_ON :: int where "KEYBOARD_CAPS_LOCK_ON \<equiv> 1"
abbreviation (input) KEYBOARD_CAPS_LOCK_OFF :: int where "KEYBOARD_CAPS_LOCK_OFF \<equiv> 0"
abbreviation (input) KEYBOARD_EVENT_KEY_PRESS :: int where "KEYBOARD_EVENT_KEY_PRESS \<equiv> 1"

text \<open>The union of an event's data is one integer: the key or the state of caps lock.\<close>

record keyboard_event =
  kevent_type :: int
  kevent_data :: int

record keyboard_device =
  keyboard_init_function :: u64
  capslock_state :: int
  key_listeners :: "u64 tvec option"
  next_keyboard :: u64

record kbstate = pstate +
  keyboard_at :: "u64 \<Rightarrow> keyboard_device"
  keyboard_list_head :: u64
  keyboard_list_last :: u64
  listener_at :: "u64 \<Rightarrow> u64"

type_synonym 's listener_calls = "u64 \<Rightarrow> 's \<Rightarrow> u64 \<Rightarrow> keyboard_event \<Rightarrow> 's option"

definition update_keyboard :: "'s kbstate_scheme \<Rightarrow> u64 \<Rightarrow> (keyboard_device \<Rightarrow> keyboard_device) \<Rightarrow> 's kbstate_scheme" where
  "update_keyboard s kb f = s\<lparr>keyboard_at := (keyboard_at s)(kb := f (keyboard_at s kb))\<rparr>"

subsection \<open>Keyboards and listeners\<close>

definition keyboard_set_capslock :: "'s kbstate_scheme \<Rightarrow> u64 \<Rightarrow> int \<Rightarrow> 's kbstate_scheme" where
  "keyboard_set_capslock s kb st = update_keyboard s kb (\<lambda>k. k\<lparr>capslock_state := st\<rparr>)"

definition keyboard_get_capslock :: "'s kbstate_scheme \<Rightarrow> u64 \<Rightarrow> int" where
  "keyboard_get_capslock s kb = capslock_state (keyboard_at s kb)"

definition keyboard_default :: "'s kbstate_scheme \<Rightarrow> u64" where
  "keyboard_default s = keyboard_list_head s"

text \<open>The keyboard is linked before its driver is started, and stays linked when that fails. \<open>None\<close> is the panic.\<close>

definition keyboard_insert ::
  "(u64 \<Rightarrow> 's kbstate_scheme \<Rightarrow> ('s kbstate_scheme \<times> int) option) \<Rightarrow> 's kbstate_scheme \<Rightarrow> u64 \<Rightarrow> ('s kbstate_scheme \<times> int) option" where
  "keyboard_insert run_init s kb =
     (if keyboard_init_function (keyboard_at s kb) = 0 then Some (s, - EINVARG)
      else do {
        let s1 = (if keyboard_list_last s \<noteq> 0
          then (update_keyboard s (keyboard_list_last s) (\<lambda>k. k\<lparr>next_keyboard := kb\<rparr>))\<lparr>keyboard_list_last := kb\<rparr>
          else s\<lparr>keyboard_list_head := kb, keyboard_list_last := kb\<rparr>);
        (s2, res) \<leftarrow> run_init (keyboard_init_function (keyboard_at s1 kb)) s1;
        if res < 0 then Some (s2, res)
        else if key_listeners (keyboard_at s2 kb) \<noteq> None then None
        else do {
          (s3, v) \<leftarrow> tvec_new s2 8 4;
          Some (update_keyboard s3 kb (\<lambda>k. k\<lparr>key_listeners := v\<rparr>), res)
        }
      })"

definition keyboard_register_handler :: "'s kbstate_scheme \<Rightarrow> u64 \<Rightarrow> u64 \<Rightarrow> ('s kbstate_scheme \<times> int) option" where
  "keyboard_register_handler s keyboard_ptr on_event =
     (let kb = (if keyboard_ptr = 0 then keyboard_default s else keyboard_ptr)
      in if kb = 0 then Some (s, - EINVARG)
      else do {
        (s1, listener_clone) \<leftarrow> kzalloc s 8;
        if listener_clone = 0 then Some (s1, - ENOMEM)
        else do {
          let s2 = s1\<lparr>listener_at := (listener_at s1)(listener_clone := on_event)\<rparr>;
          v \<leftarrow> key_listeners (keyboard_at s2 kb);
          (s3, v', _) \<leftarrow> tvec_push s2 v listener_clone;
          Some (update_keyboard s3 kb (\<lambda>k. k\<lparr>key_listeners := Some v'\<rparr>), 0)
        }
      })"

text \<open>
  The number of listeners is read once; the vector is read again for each, because a listener may change it. Past
  the end \<open>vector_at\<close> leaves the null pointer.
\<close>

primrec listeners_loop ::
  "'s kbstate_scheme listener_calls \<Rightarrow> 's kbstate_scheme \<Rightarrow> u64 \<Rightarrow> keyboard_event \<Rightarrow> nat \<Rightarrow> nat \<Rightarrow> 's kbstate_scheme option" where
  "listeners_loop call s kb ev i 0 = Some s"
| "listeners_loop call s kb ev i (Suc n) = do {
     v \<leftarrow> key_listeners (keyboard_at s kb);
     r \<leftarrow> tvec_at v (of_nat i);
     let listener = (case r of Inl _ \<Rightarrow> 0 | Inr l \<Rightarrow> l);
     s1 \<leftarrow> (if listener \<noteq> 0 then call (listener_at s listener) s kb ev else Some s);
     listeners_loop call s1 kb ev (Suc i) n
   }"

definition keyboard_push_event_to_listeners ::
  "'s kbstate_scheme listener_calls \<Rightarrow> 's kbstate_scheme \<Rightarrow> u64 \<Rightarrow> keyboard_event \<Rightarrow> 's kbstate_scheme option" where
  "keyboard_push_event_to_listeners call s kb ev =
     (if kb = 0 then None
      else do { v \<leftarrow> key_listeners (keyboard_at s kb); listeners_loop call s kb ev 0 (unat (t_elems (tv_header v))) })"

definition keyboard_get_listener_ptr :: "'s kbstate_scheme \<Rightarrow> u64 \<Rightarrow> u64 \<Rightarrow> u64 option" where
  "keyboard_get_listener_ptr s kb on_event = do {
     v \<leftarrow> key_listeners (keyboard_at s kb);
     ls \<leftarrow> tvec_items v;
     Some (case find (\<lambda>l. l \<noteq> 0 \<and> on_event \<noteq> 0 \<and> on_event = listener_at s l) ls of None \<Rightarrow> 0 | Some l \<Rightarrow> l)
   }"

definition keyboard_unregister_handler :: "'s kbstate_scheme \<Rightarrow> u64 \<Rightarrow> u64 \<Rightarrow> ('s kbstate_scheme \<times> int) option" where
  "keyboard_unregister_handler s kb on_event = do {
     l \<leftarrow> keyboard_get_listener_ptr s kb on_event;
     s1 \<leftarrow> (if l \<noteq> 0 then do {
              v \<leftarrow> key_listeners (keyboard_at s kb);
              (s', v', _) \<leftarrow> tvec_pop_element s v l;
              Some (update_keyboard s' kb (\<lambda>k. k\<lparr>key_listeners := Some v'\<rparr>))
            } else Some s);
     Some (kfree s1 l, 0)
   }"

subsection \<open>The keys of a process\<close>

text \<open>The counters are signed, and the remainder is taken in the unsigned type of \<open>sizeof\<close>. Signed overflow of a counter is undefined.\<close>

definition keyboard_get_tail_index :: "process \<Rightarrow> nat" where
  "keyboard_get_tail_index k = unat (size_of_int (key_tail (keyboard k)) mod size_of_int PEACHOS_KEYBOARD_BUFFER_SIZE)"

definition keyboard_backspace :: "'s kbstate_scheme \<Rightarrow> u64 \<Rightarrow> 's kbstate_scheme option" where
  "keyboard_backspace s p =
     (if key_tail (keyboard (processes s p)) = - (2 ^ 31) then None
      else let s1 = update_process s p (\<lambda>k. k\<lparr>keyboard := (keyboard k)\<lparr>key_tail := key_tail (keyboard k) - 1\<rparr>\<rparr>);
               real_index = keyboard_get_tail_index (processes s1 p)
           in Some (update_process s1 p (\<lambda>k. k\<lparr>keyboard := (keyboard k)\<lparr>key_buffer := (key_buffer (keyboard k))[real_index := 0]\<rparr>\<rparr>)))"

definition keyboard_push :: "'s kbstate_scheme listener_calls \<Rightarrow> 's kbstate_scheme \<Rightarrow> u8 \<Rightarrow> 's kbstate_scheme option" where
  "keyboard_push call s c =
     (let p = current_process s
      in if p = 0 then Some s
      else if c = 0 then Some s
      else if key_tail (keyboard (processes s p)) = 2 ^ 31 - 1 then None
      else let real_index = keyboard_get_tail_index (processes s p);
               s1 = update_process s p (\<lambda>k. k\<lparr>keyboard := (keyboard k)\<lparr>key_buffer := (key_buffer (keyboard k))[real_index := c],
                      key_tail := key_tail (keyboard k) + 1\<rparr>\<rparr>)
           in keyboard_push_event_to_listeners call s1 (keyboard_default s1)
                \<lparr>kevent_type = KEYBOARD_EVENT_KEY_PRESS, kevent_data = sint c\<rparr>)"

definition keyboard_pop :: "'s kbstate_scheme \<Rightarrow> ('s kbstate_scheme \<times> u8) option" where
  "keyboard_pop s =
     (if current_task s = 0 then Some (s, 0)
      else let p = task_process (tasks s (current_task s));
               kb = keyboard (processes s p);
               real_index = unat (size_of_int (key_head kb) mod size_of_int PEACHOS_KEYBOARD_BUFFER_SIZE);
               c = key_buffer kb ! real_index
           in if c = 0 then Some (s, 0)
              else if key_head kb = 2 ^ 31 - 1 then None
              else Some (update_process s p (\<lambda>k. k\<lparr>keyboard := kb\<lparr>key_buffer := (key_buffer kb)[real_index := 0],
                           key_head := key_head kb + 1\<rparr>\<rparr>), c))"

subsection \<open>The classic keyboard\<close>

definition keyboard_scan_set_one :: "u8 list" where
  "keyboard_scan_set_one = [
     0x00, 0x1B, 49, 50, 51, 52, 53,
     54, 55, 56, 57, 48, 45, 61,
     0x08, 9, 81, 87, 69, 82, 84,
     89, 85, 73, 79, 80, 91, 93,
     0x0d, 0x00, 65, 83, 68, 70, 71,
     72, 74, 75, 76, 59, 39, 96,
     0x00, 92, 90, 88, 67, 86, 66,
     78, 77, 44, 46, 47, 0x00, 42,
     0x00, 0x20, 0x00, 0x00, 0x00, 0x00,
     0x00, 0x00, 0x00, 0x00, 0x00, 0x00,
     0x00, 55, 56, 57, 45, 52, 53,
     54, 43, 49, 50, 51, 48, 46]"

text \<open>The byte behind the table is read when the scan code is its size: \<open>None\<close>.\<close>

definition classic_keyboard_scancode_to_char :: "'s kbstate_scheme \<Rightarrow> u64 \<Rightarrow> u8 \<Rightarrow> u8 option" where
  "classic_keyboard_scancode_to_char s classic_keyboard scancode =
     (if unat scancode > length keyboard_scan_set_one then Some 0
      else if unat scancode = length keyboard_scan_set_one then None
      else let c = keyboard_scan_set_one ! unat scancode
           in Some (if keyboard_get_capslock s classic_keyboard = KEYBOARD_CAPS_LOCK_OFF \<and> 65 \<le> c \<and> c \<le> 90 then c + 32 else c))"

text \<open>\<open>kernel_page\<close> of \<open>kernel.c\<close>, with the kernel's descriptor as its argument; the segment registers are not in the state.\<close>

definition kernel_page :: "'s kpaging_scheme \<Rightarrow> paging_desc \<Rightarrow> 's kpaging_scheme" where
  "kernel_page s kernel_desc = paging_switch s kernel_desc"

text \<open>The scan code is what the keyboard's port gives. A released key returns before the task's page tables are back.\<close>

definition classic_keyboard_handle_interrupt ::
  "'s kbstate_scheme listener_calls \<Rightarrow> paging_desc \<Rightarrow> u64 \<Rightarrow> 's kbstate_scheme \<Rightarrow> u8 \<Rightarrow> 's kbstate_scheme option" where
  "classic_keyboard_handle_interrupt call kernel_desc classic_keyboard s scancode =
     (let s1 = kernel_page s kernel_desc
      in if scancode AND 0x80 \<noteq> 0 then Some s1
      else do {
        let s2 = (if scancode = 0x3A
          then keyboard_set_capslock s1 classic_keyboard
                 (if keyboard_get_capslock s1 classic_keyboard = KEYBOARD_CAPS_LOCK_ON then KEYBOARD_CAPS_LOCK_OFF else KEYBOARD_CAPS_LOCK_ON)
          else s1);
        c \<leftarrow> classic_keyboard_scancode_to_char s2 classic_keyboard scancode;
        s3 \<leftarrow> (if c \<noteq> 0 then keyboard_push call s2 c else Some s2);
        (s4, _) \<leftarrow> task_page s3;
        Some s4
      })"

subsection \<open>The ring buffer as a queue\<close>

text \<open>
  The positions from head to tail hold keys and the others are zero. \<open>keyboard_queue\<close> is what is in it.
\<close>

definition ring_ok :: "keyboard_buffer \<Rightarrow> bool" where
  "ring_ok k \<longleftrightarrow> length (key_buffer k) = 1024 \<and> 0 \<le> key_head k \<and> key_head k \<le> key_tail k \<and>
     key_tail k \<le> key_head k + 1024 \<and> key_tail k < 2 ^ 31 \<and>
     (\<forall>i \<in> {key_head k..<key_tail k}. key_buffer k ! nat (i mod 1024) \<noteq> 0) \<and>
     (\<forall>i \<in> {key_tail k..<key_head k + 1024}. key_buffer k ! nat (i mod 1024) = 0)"

definition ring_keys :: "keyboard_buffer \<Rightarrow> u8 list" where
  "ring_keys k = map (\<lambda>i. key_buffer k ! nat (i mod 1024)) [key_head k..key_tail k - 1]"

text \<open>What a key and a read do to the buffer, with the result of the read.\<close>

definition ring_push :: "keyboard_buffer \<Rightarrow> u8 \<Rightarrow> keyboard_buffer" where
  "ring_push k c = k\<lparr>key_buffer := (key_buffer k)[nat (key_tail k mod 1024) := c], key_tail := key_tail k + 1\<rparr>"

definition ring_pop :: "keyboard_buffer \<Rightarrow> keyboard_buffer \<times> u8" where
  "ring_pop k =
     (let c = key_buffer k ! nat (key_head k mod 1024)
      in if c = 0 then (k, 0)
         else (k\<lparr>key_buffer := (key_buffer k)[nat (key_head k mod 1024) := 0], key_head := key_head k + 1\<rparr>, c))"

lemma ring_index: "unat (size_of_int i mod size_of_int PEACHOS_KEYBOARD_BUFFER_SIZE) = nat (i mod 1024)"
proof -
  have "uint (size_of_int i mod size_of_int PEACHOS_KEYBOARD_BUFFER_SIZE) = i mod 1024"
    by (simp add: size_of_int_def uint_mod uint_word_of_int mod_mod_cancel)
  then show ?thesis by (metis unat_eq_nat_uint)
qed

lemma ring_distinct:
  fixes i j h :: int
  assumes "h \<le> i" "i < h + 1024" "h \<le> j" "j < h + 1024" "i mod 1024 = j mod 1024"
  shows "i = j"
proof -
  have "1024 dvd i - j" using assms(5) by (simp add: mod_eq_dvd_iff)
  then obtain d where d: "i - j = 1024 * d" by (auto elim: dvdE)
  then have "- 1 < d" "d < 1" using assms by linarith+
  then show ?thesis using d by simp
qed

lemma ring_push_ok:
  assumes k: "ring_ok k" and room: "key_tail k < key_head k + 1024" and lt: "key_tail k < 2 ^ 31 - 1" and c: "c \<noteq> 0"
  shows "ring_ok (ring_push k c)" "ring_keys (ring_push k c) = ring_keys k @ [c]"
proof -
  let ?t = "key_tail k" and ?b = "key_buffer k"
  have l: "length ?b = 1024" and ge: "0 \<le> key_head k" "key_head k \<le> ?t" using k by (auto simp: ring_ok_def)
  have at: "?b[nat (?t mod 1024) := c] ! nat (i mod 1024) = (if i = ?t then c else ?b ! nat (i mod 1024))"
    if "key_head k \<le> i" "i < key_head k + 1024" for i
  proof (cases "i = ?t")
    case False
    then have "i mod 1024 \<noteq> ?t mod 1024" using ring_distinct [of "key_head k" i ?t] that ge room by auto
    then show ?thesis using False by (simp add: nth_list_update eq_nat_nat_iff)
  qed (simp add: l nat_less_iff)
  show "ring_ok (ring_push k c)"
    using k room lt c by (auto simp: ring_ok_def ring_push_def at)
  have "[key_head k..?t] = [key_head k..?t - 1] @ [?t]" using ge by (simp add: upto_rec2)
  then show "ring_keys (ring_push k c) = ring_keys k @ [c]"
    using ge room by (auto simp: ring_keys_def ring_push_def at)
qed

lemma ring_pop_empty: "ring_ok k \<Longrightarrow> key_head k = key_tail k \<Longrightarrow> ring_pop k = (k, 0)"
  by (simp add: ring_ok_def ring_pop_def)

lemma ring_keys_empty: "ring_ok k \<Longrightarrow> ring_keys k = [] \<longleftrightarrow> key_head k = key_tail k"
  by (auto simp: ring_keys_def ring_ok_def)

lemma ring_keys_length: "ring_ok k \<Longrightarrow> int (length (ring_keys k)) = key_tail k - key_head k"
  by (auto simp: ring_keys_def ring_ok_def)

lemma ring_pop_ok:
  assumes k: "ring_ok k" and x: "ring_keys k = x # xs"
  shows "ring_ok (fst (ring_pop k))" "ring_keys (fst (ring_pop k)) = xs" "snd (ring_pop k) = x"
proof -
  let ?h = "key_head k" and ?b = "key_buffer k"
  have l: "length ?b = 1024" and ge: "0 \<le> ?h" "?h < key_tail k" "key_tail k \<le> ?h + 1024"
    using k ring_keys_empty [OF k] x by (auto simp: ring_ok_def)
  have split: "[?h..key_tail k - 1] = ?h # [?h + 1..key_tail k - 1]" using ge by (simp add: upto_rec1)
  have hd: "?b ! nat (?h mod 1024) = x" and tl: "map (\<lambda>i. ?b ! nat (i mod 1024)) [?h + 1..key_tail k - 1] = xs"
    using x by (auto simp: ring_keys_def split)
  have nz: "x \<noteq> 0" using k hd ge by (auto simp: ring_ok_def)
  have at: "?b[nat (?h mod 1024) := 0] ! nat (i mod 1024) = (if i mod 1024 = ?h mod 1024 then 0 else ?b ! nat (i mod 1024))" for i
    by (auto simp: l nat_less_iff nth_list_update eq_nat_nat_iff)
  have ne: "i mod 1024 \<noteq> ?h mod 1024" if "?h < i" "i < ?h + 1024" for i
    using ring_distinct [of ?h i ?h] that ge by auto
  have e: "ring_pop k = (k\<lparr>key_buffer := ?b[nat (?h mod 1024) := 0], key_head := ?h + 1\<rparr>, x)"
    using nz by (simp add: ring_pop_def hd)
  show "ring_ok (fst (ring_pop k))"
  proof -
    have "?b[nat (?h mod 1024) := 0] ! nat (i mod 1024) = 0" if "key_tail k \<le> i" "i < ?h + 1 + 1024" for i
    proof (cases "i = ?h + 1024")
      case False
      then show ?thesis using k that at [of i] by (auto simp: ring_ok_def)
    qed (simp add: at)
    moreover have "?b[nat (?h mod 1024) := 0] ! nat (i mod 1024) \<noteq> 0" if "?h + 1 \<le> i" "i < key_tail k" for i
      using k that ne [of i] ge by (auto simp: ring_ok_def at)
    ultimately show ?thesis using k ge by (auto simp: e ring_ok_def)
  qed
  have "map (\<lambda>i. ?b[nat (?h mod 1024) := 0] ! nat (i mod 1024)) [?h + 1..key_tail k - 1]
      = map (\<lambda>i. ?b ! nat (i mod 1024)) [?h + 1..key_tail k - 1]"
    using ge ne by (auto simp: at)
  then show "ring_keys (fst (ring_pop k)) = xs" by (simp add: e ring_keys_def tl)
  show "snd (ring_pop k) = x" by (simp add: e)
qed

subsection \<open>Keys in order\<close>

text \<open>
  What typing and reading look like from outside: a queue of at most 1024 keys. \<open>queue_run\<close> is that
  specification, undefined on a key that finds it full, and \<open>keyboard_run\<close> the same calls of the kernel.
\<close>

datatype key_op = Key u8 | Read

primrec queue_run :: "u8 list \<Rightarrow> key_op list \<Rightarrow> (u8 list \<times> u8 list) option" where
  "queue_run q [] = Some (q, [])"
| "queue_run q (x # xs) =
     (case x of
        Key c \<Rightarrow> if c = 0 then queue_run q xs else if length q < 1024 then queue_run (q @ [c]) xs else None
      | Read \<Rightarrow> do {
          (q', out) \<leftarrow> queue_run (tl q) xs;
          Some (q', (case q of [] \<Rightarrow> 0 | c # _ \<Rightarrow> c) # out)
        })"

primrec keyboard_run :: "'s kbstate_scheme listener_calls \<Rightarrow> 's kbstate_scheme \<Rightarrow> key_op list \<Rightarrow> ('s kbstate_scheme \<times> u8 list) option" where
  "keyboard_run call s [] = Some (s, [])"
| "keyboard_run call s (x # xs) =
     (case x of
        Key c \<Rightarrow> do { s1 \<leftarrow> keyboard_push call s c; keyboard_run call s1 xs }
      | Read \<Rightarrow> do { (s1, c) \<leftarrow> keyboard_pop s; (s2, out) \<leftarrow> keyboard_run call s1 xs; Some (s2, c # out) })"

text \<open>The same on the buffer alone.\<close>

primrec ring_run :: "keyboard_buffer \<Rightarrow> key_op list \<Rightarrow> keyboard_buffer \<times> u8 list" where
  "ring_run k [] = (k, [])"
| "ring_run k (x # xs) =
     (case x of
        Key c \<Rightarrow> ring_run (if c = 0 then k else ring_push k c) xs
      | Read \<Rightarrow> (let (k1, c) = ring_pop k; (k2, out) = ring_run k1 xs in (k2, c # out)))"

text \<open>
  The process \<open>p\<close> is in the foreground and runs, there is a keyboard with its vector of listeners, and the
  listeners return and leave alone what this depends on.
\<close>

definition same_typing :: "u64 \<Rightarrow> 's kbstate_scheme \<Rightarrow> 's kbstate_scheme \<Rightarrow> bool" where
  "same_typing p s s' \<longleftrightarrow> current_process s' = current_process s \<and> current_task s' = current_task s \<and>
     task_process (tasks s' (current_task s)) = task_process (tasks s (current_task s)) \<and>
     keyboard_list_head s' = keyboard_list_head s \<and>
     key_listeners (keyboard_at s' (keyboard_list_head s)) = key_listeners (keyboard_at s (keyboard_list_head s))"

definition typing :: "'s kbstate_scheme \<Rightarrow> u64 \<Rightarrow> bool" where
  "typing s p \<longleftrightarrow> p \<noteq> 0 \<and> current_process s = p \<and> current_task s \<noteq> 0 \<and> task_process (tasks s (current_task s)) = p \<and>
     keyboard_list_head s \<noteq> 0 \<and> (\<exists>v. key_listeners (keyboard_at s (keyboard_list_head s)) = Some v \<and> tvec_ok v)"

definition listeners_return :: "'s kbstate_scheme listener_calls \<Rightarrow> u64 \<Rightarrow> bool" where
  "listeners_return call p \<longleftrightarrow> (\<forall>f s kb ev. \<exists>s'. call f s kb ev = Some s' \<and> same_typing p s s' \<and>
     keyboard (processes s' p) = keyboard (processes s p))"

lemma same_typing_typing: "same_typing p s s' \<Longrightarrow> typing s p \<Longrightarrow> typing s' p"
  by (auto simp: same_typing_def typing_def)

lemma listeners_loop_typing:
  assumes "listeners_return call p" "typing s p"
    "i + n \<le> length (tv_items (the (key_listeners (keyboard_at s (keyboard_list_head s)))))"
  shows "\<exists>s'. listeners_loop call s (keyboard_list_head s) ev i n = Some s' \<and> typing s' p \<and>
    keyboard (processes s' p) = keyboard (processes s p)"
  using assms(2,3)
proof (induction n arbitrary: s i)
  case (Suc n)
  let ?kb = "keyboard_list_head s"
  obtain v where v: "key_listeners (keyboard_at s ?kb) = Some v" "tvec_ok v" using Suc.prems(1) by (auto simp: typing_def)
  have i: "i < length (tv_items v)" using Suc.prems(2) v(1) by simp
  have "length (tv_items v) < 2 ^ 64" using v(2) unsigned_less [of "t_elems (tv_header v)"] by (simp add: tvec_ok_def)
  with i have at: "tvec_at v (of_nat i) = Some (Inr (tv_items v ! i))" using tvec_at_ok [OF v(2)] by simp
  have "\<exists>s1. (if tv_items v ! i \<noteq> 0 then call (listener_at s (tv_items v ! i)) s ?kb ev else Some s) = Some s1 \<and>
      same_typing p s s1 \<and> keyboard (processes s1 p) = keyboard (processes s p)"
    using assms(1) by (cases "tv_items v ! i = 0") (auto simp: listeners_return_def same_typing_def)
  then obtain s1 where s1: "(if tv_items v ! i \<noteq> 0 then call (listener_at s (tv_items v ! i)) s ?kb ev else Some s) = Some s1"
      "same_typing p s s1" "keyboard (processes s1 p) = keyboard (processes s p)" by (elim exE conjE) (rule that)
  have h: "keyboard_list_head s1 = ?kb" "key_listeners (keyboard_at s1 ?kb) = Some v"
    using s1(2) v(1) by (auto simp: same_typing_def)
  from Suc.IH [OF same_typing_typing [OF s1(2) Suc.prems(1)], of "Suc i"] Suc.prems(2)
  obtain s' where s': "listeners_loop call s1 ?kb ev (Suc i) n = Some s'" "typing s' p"
      "keyboard (processes s' p) = keyboard (processes s1 p)"
    by (auto simp: h v(1))
  have "listeners_loop call s ?kb ev i (Suc n) = Some s'"
    by (simp only: listeners_loop.simps v(1) Option.bind.simps at Let_def sum.case s1(1) s'(1))
  with s' s1(3) show ?case by (intro exI [of _ s']) (simp del: listeners_loop.simps)
qed auto

lemma keyboard_push_ring:
  assumes "listeners_return call p" "typing s p" "key_tail (keyboard (processes s p)) \<noteq> 2 ^ 31 - 1"
  shows "\<exists>s'. keyboard_push call s c = Some s' \<and> typing s' p \<and>
    keyboard (processes s' p) = (if c = 0 then keyboard (processes s p) else ring_push (keyboard (processes s p)) c)"
proof (cases "c = 0")
  case False
  let ?s1 = "update_process s p (\<lambda>k. k\<lparr>keyboard := ring_push (keyboard k) c\<rparr>)"
  obtain v where v: "key_listeners (keyboard_at s (keyboard_list_head s)) = Some v" "tvec_ok v" and nz: "keyboard_list_head s \<noteq> 0"
    using assms(2) by (auto simp: typing_def)
  have s1: "typing ?s1 p" "keyboard_list_head ?s1 = keyboard_list_head s" "keyboard_at ?s1 = keyboard_at s"
      "keyboard (processes ?s1 p) = ring_push (keyboard (processes s p)) c"
    using assms(2) by (auto simp: typing_def update_process_def)
  have len: "unat (t_elems (tv_header v)) = length (tv_items v)" using v(2) by (simp add: tvec_ok_def)
  define ev where "ev = \<lparr>kevent_type = KEYBOARD_EVENT_KEY_PRESS, kevent_data = sint c\<rparr>"
  have upd: "update_process s p (\<lambda>k. k\<lparr>keyboard := (keyboard k)\<lparr>key_buffer := (key_buffer (keyboard k))
        [keyboard_get_tail_index (processes s p) := c], key_tail := key_tail (keyboard k) + 1\<rparr>\<rparr>) = ?s1"
    by (simp add: update_process_def ring_push_def keyboard_get_tail_index_def ring_index)
  have "current_process s = p" "p \<noteq> 0" using assms(2) by (auto simp: typing_def)
  then have "keyboard_push call s c = keyboard_push_event_to_listeners call ?s1 (keyboard_list_head ?s1) ev"
    using assms(3) False by (simp only: keyboard_push_def Let_def upd keyboard_default_def ev_def if_False)
  also have "\<dots> = listeners_loop call ?s1 (keyboard_list_head ?s1) ev 0 (length (tv_items v))"
    by (simp add: keyboard_push_event_to_listeners_def s1(2,3) nz v(1) len)
  finally have e: "keyboard_push call s c = listeners_loop call ?s1 (keyboard_list_head ?s1) ev 0 (length (tv_items v))" .
  show ?thesis using listeners_loop_typing [OF assms(1) s1(1), of 0 "length (tv_items v)" ev]
    by (simp add: e s1(2,3,4) v(1) False del: update_process_simps)
next
  case True
  then show ?thesis using assms(2) by (auto simp: keyboard_push_def typing_def Let_def)
qed

lemma keyboard_pop_ring:
  assumes "typing s p" "key_head (keyboard (processes s p)) \<noteq> 2 ^ 31 - 1"
  shows "\<exists>s'. keyboard_pop s = Some (s', snd (ring_pop (keyboard (processes s p)))) \<and> typing s' p \<and>
    keyboard (processes s' p) = fst (ring_pop (keyboard (processes s p)))"
  using assms by (auto simp: keyboard_pop_def Let_def typing_def ring_index ring_pop_def update_process_def)

lemma ring_push_counters [simp]: "key_tail (ring_push k c) = key_tail k + 1" "key_head (ring_push k c) = key_head k"
  by (simp_all add: ring_push_def)

lemma ring_pop_counters: "key_tail (fst (ring_pop k)) = key_tail k" "key_head (fst (ring_pop k)) \<le> key_head k + 1"
  by (simp_all add: ring_pop_def Let_def)

lemma keyboard_run_ring:
  assumes "listeners_return call p" "typing s p"
    "key_tail (keyboard (processes s p)) + int (length xs) < 2 ^ 31" "key_head (keyboard (processes s p)) + int (length xs) < 2 ^ 31"
  shows "\<exists>s'. keyboard_run call s xs = Some (s', snd (ring_run (keyboard (processes s p)) xs)) \<and> typing s' p \<and>
    keyboard (processes s' p) = fst (ring_run (keyboard (processes s p)) xs)"
  using assms(2-)
proof (induction xs arbitrary: s)
  case (Cons x xs)
  let ?k = "keyboard (processes s p)"
  show ?case
  proof (cases x)
    case (Key c)
    have "key_tail ?k \<noteq> 2 ^ 31 - 1" using Cons.prems(2) by simp
    from keyboard_push_ring [OF assms(1) Cons.prems(1) this, of c] obtain s1 where
      s1: "keyboard_push call s c = Some s1" "typing s1 p" "keyboard (processes s1 p) = (if c = 0 then ?k else ring_push ?k c)"
      by (elim exE conjE) (rule that)
    show ?thesis using Cons.IH [OF s1(2)] Cons.prems(2,3) by (auto simp: s1(1,3) Key split: if_splits)
  next
    case Read
    have "key_head ?k \<noteq> 2 ^ 31 - 1" using Cons.prems(3) by simp
    from keyboard_pop_ring [OF Cons.prems(1) this] obtain s1 where
      s1: "keyboard_pop s = Some (s1, snd (ring_pop ?k))" "typing s1 p" "keyboard (processes s1 p) = fst (ring_pop ?k)"
      by (elim exE conjE) (rule that)
    show ?thesis using Cons.IH [OF s1(2)] Cons.prems(2,3) ring_pop_counters [of ?k]
      by (auto simp: s1(1,3) Read split: prod.splits)
  qed
qed simp

lemma ring_run_queue:
  assumes "ring_ok k" "queue_run (ring_keys k) xs = Some (q, out)" "key_tail k + int (length xs) < 2 ^ 31"
  shows "ring_ok (fst (ring_run k xs)) \<and> ring_keys (fst (ring_run k xs)) = q \<and> snd (ring_run k xs) = out"
  using assms
proof (induction xs arbitrary: k out)
  case (Cons x xs)
  show ?case
  proof (cases x)
    case (Key c)
    show ?thesis
    proof (cases "c = 0")
      case True
      then show ?thesis using Cons.IH [OF Cons.prems(1)] Cons.prems(2,3) by (simp add: Key)
    next
      case False
      with Cons.prems(2) have "length (ring_keys k) < 1024" by (simp add: Key split: if_splits)
      then have room: "key_tail k < key_head k + 1024" using ring_keys_length [OF Cons.prems(1)] by linarith
      have lt: "key_tail k < 2 ^ 31 - 1" using Cons.prems(3) by simp
      note push = ring_push_ok [OF Cons.prems(1) room lt False]
      show ?thesis using Cons.IH [OF push(1)] Cons.prems(2,3) False by (simp add: Key push(2) split: if_splits)
    qed
  next
    case Read
    show ?thesis
    proof (cases "ring_keys k")
      case Nil
      then have "ring_pop k = (k, 0)" using ring_pop_empty ring_keys_empty Cons.prems(1) by auto
      then show ?thesis using Cons.IH [OF Cons.prems(1)] Cons.prems(2,3) Nil
        by (auto simp: Read bind_eq_Some_conv split: prod.splits)
    next
      case (Cons y ys)
      note pop = ring_pop_ok [OF Cons.prems(1) Cons]
      obtain k1 where k1: "ring_pop k = (k1, y)" using pop(3) by (cases "ring_pop k") auto
      show ?thesis using Cons.IH [OF pop(1)] Cons.prems(2,3) Cons ring_pop_counters(1) [of k] pop(2)
        by (auto simp: Read k1 bind_eq_Some_conv split: prod.splits)
    qed
  qed
qed auto

text \<open>
  Full, the buffer takes one more key over its oldest one. The counters then disagree about where the buffer
  ends, and once it has been read no new key is seen.
\<close>

lemma ring_pop_tail: "ring_pop (k\<lparr>key_tail := t\<rparr>) = (case ring_pop k of (k', c) \<Rightarrow> (k'\<lparr>key_tail := t\<rparr>, c))"
  by (cases "key_buffer k ! nat (key_head k mod 1024) = 0") (simp_all add: ring_pop_def)

lemma ring_run_reads_tail:
  "ring_run (k\<lparr>key_tail := t\<rparr>) (replicate n Read) = (case ring_run k (replicate n Read) of (k', c) \<Rightarrow> (k'\<lparr>key_tail := t\<rparr>, c))"
  by (induction n arbitrary: k) (auto simp: ring_pop_tail split: prod.splits)

lemma ring_run_append: "ring_run k (xs @ ys) = (case ring_run k xs of (k1, out) \<Rightarrow> case ring_run k1 ys of (k2, out') \<Rightarrow> (k2, out @ out'))"
proof (induction xs arbitrary: k)
  case (Cons x xs)
  then show ?case by (cases x) (auto split: prod.splits)
qed (simp split: prod.splits)

lemma ring_run_counters:
  "key_tail (fst (ring_run k (replicate n Read))) = key_tail k"
  by (induction n arbitrary: k) (auto simp: ring_pop_counters(1) dest: arg_cong [of _ _ key_tail] split: prod.splits,
    metis fst_conv ring_pop_counters(1))

lemma queue_run_reads: "length q = n \<Longrightarrow> queue_run q (replicate n Read) = Some ([], q)"
  by (induction n arbitrary: q) (auto simp: length_Suc_conv)

lemma ring_overflow:
  assumes k: "ring_ok k" and full: "length (ring_keys k) = 1024" and c: "c \<noteq> 0" and d: "d \<noteq> 0" and lt: "key_tail k < 2 ^ 30"
  shows "snd (ring_run k (Key c # replicate 1024 Read @ [Key d, Read])) = c # tl (ring_keys k) @ [0]"
proof -
  let ?h = "key_head k" and ?b = "key_buffer k"
  have t: "key_tail k = ?h + 1024" using ring_keys_length [OF k] full by simp
  have l: "length ?b = 1024" and ge: "0 \<le> ?h" using k by (auto simp: ring_ok_def)
  define k2 where "k2 = k\<lparr>key_buffer := ?b[nat (?h mod 1024) := c]\<rparr>"
  have push: "ring_push k c = k2\<lparr>key_tail := ?h + 1025\<rparr>"
    by (simp add: ring_push_def k2_def t)
  have at: "?b[nat (?h mod 1024) := c] ! nat (i mod 1024) = (if i mod 1024 = ?h mod 1024 then c else ?b ! nat (i mod 1024))" for i
    by (auto simp: l nat_less_iff nth_list_update eq_nat_nat_iff)
  have ok2: "ring_ok k2" using k c t by (auto simp: ring_ok_def k2_def at)
  have split: "[?h..1023 + ?h] = ?h # [?h + 1..1023 + ?h]" by (simp add: upto_rec1)
  have "i mod 1024 \<noteq> ?h mod 1024" if "?h < i" "i < ?h + 1024" for i
    using ring_distinct [of ?h i ?h] that by auto
  then have keys2: "ring_keys k2 = c # tl (ring_keys k)"
    by (auto simp: ring_keys_def k2_def at t split)
  have "queue_run (ring_keys k2) (replicate 1024 Read) = Some ([], ring_keys k2)"
    by (rule queue_run_reads) (simp add: keys2 full)
  from ring_run_queue [OF ok2 this] lt obtain k3 where
    k3: "ring_run k2 (replicate 1024 Read) = (k3, c # tl (ring_keys k))" "ring_ok k3" "ring_keys k3 = []"
    by (cases "ring_run k2 (replicate 1024 Read)") (auto simp: k2_def keys2 [unfolded k2_def])
  have h3: "key_head k3 = ?h + 1024" "key_tail k3 = ?h + 1024"
    using ring_run_counters [of k2 1024] k3 ring_keys_empty [OF k3(2)] t by (auto simp: k2_def)
  have zero: "key_buffer k3 ! nat (i mod 1024) = 0" if "?h + 1024 \<le> i" "i < ?h + 2048" for i
    using k3(2) that by (auto simp: ring_ok_def h3)
  have l3: "length (key_buffer k3) = 1024" using k3(2) by (simp add: ring_ok_def)
  have ne: "(?h + 1025) mod 1024 \<noteq> (?h + 1024) mod 1024" using ring_distinct [of "?h + 1024" "?h + 1025" "?h + 1024"] by auto
  have pop: "snd (ring_pop (ring_push (k3\<lparr>key_tail := ?h + 1025\<rparr>) d)) = 0"
    using ne zero [of "?h + 1024"] by (simp add: ring_push_def ring_pop_def h3 nth_list_update eq_nat_nat_iff Let_def)
  have r: "ring_run (ring_push k c) (replicate 1024 Read) = (k3\<lparr>key_tail := ?h + 1025\<rparr>, c # tl (ring_keys k))"
    by (simp only: push ring_run_reads_tail k3(1) prod.case)
  obtain k4 where k4: "ring_pop (ring_push (k3\<lparr>key_tail := ?h + 1025\<rparr>) d) = (k4, 0)"
    using pop by (cases "ring_pop (ring_push (k3\<lparr>key_tail := ?h + 1025\<rparr>) d)") auto
  show ?thesis
    by (simp only: ring_run.simps key_op.case ring_run_append r prod.case c d if_False k4 Let_def snd_conv append_Cons append_Nil)
qed

definition typed_process :: kbstate where
  "typed_process = pstate.extend (one_process null_process)
     (kbstate.fields (\<lambda>_. \<lparr>keyboard_init_function = 1, capslock_state = 0, key_listeners = Some (vector_of 8 []), next_keyboard = 0\<rparr>)
        0xA000 0xA000 (\<lambda>_. 0))"

text \<open>
  C15. While no more than 1024 keys wait, the kernel's keyboard is a queue: any typing and reading gives the
  process exactly the keys in the order in which they were pressed, and null when none waits.
\<close>

theorem keyboard_refines_queue:
  assumes "listeners_return call p" "typing s p" "ring_ok (keyboard (processes s p))"
    "queue_run (ring_keys (keyboard (processes s p))) xs = Some (q, out)"
    "key_tail (keyboard (processes s p)) + int (length xs) < 2 ^ 31"
  shows "\<exists>s'. keyboard_run call s xs = Some (s', out) \<and> typing s' p \<and> ring_ok (keyboard (processes s' p)) \<and>
    ring_keys (keyboard (processes s' p)) = q"
proof -
  have "key_head (keyboard (processes s p)) + int (length xs) < 2 ^ 31" using assms(3,5) by (auto simp: ring_ok_def)
  from keyboard_run_ring [OF assms(1,2,5) this] ring_run_queue [OF assms(3,4,5)] show ?thesis by (elim exE conjE) auto
qed

lemma typed_process_typing:
  "typing typed_process 0x9000" "ring_ok (keyboard (processes typed_process 0x9000))"
  "ring_keys (keyboard (processes typed_process 0x9000)) = []" "key_tail (keyboard (processes typed_process 0x9000)) = 0"
  by (auto simp: typed_process_def typing_def ring_ok_def ring_keys_def pstate.defs kbstate.defs one_process_def null_process_def
      tvec_ok_def vector_of_def nat_less_iff)

theorem keyboard_refines_queue_witness:
  "\<exists>s'. keyboard_run (\<lambda>f s kb ev. Some s) typed_process [Key 104, Key 105, Read, Read, Read] = Some (s', [104, 105, 0])"
  using keyboard_refines_queue [of "\<lambda>f s kb ev. Some s" "0x9000" typed_process "[Key 104, Key 105, Read, Read, Read]" "[]" "[104, 105, 0]"]
    typed_process_typing by (auto simp: listeners_return_def same_typing_def)

text \<open>
  C16. One key more than the buffer holds breaks the order for good: the extra key is given out first, in place of
  the oldest one, and after all 1024 are read the next key typed is not seen by the process.
\<close>

theorem keyboard_overflow_loses_keys:
  assumes "listeners_return call p" "typing s p" "ring_ok (keyboard (processes s p))"
    "length (ring_keys (keyboard (processes s p))) = 1024" "key_tail (keyboard (processes s p)) < 2 ^ 30" "c \<noteq> 0" "d \<noteq> 0"
  shows "\<exists>s'. keyboard_run call s (Key c # replicate 1024 Read @ [Key d, Read])
    = Some (s', c # tl (ring_keys (keyboard (processes s p))) @ [0])"
proof -
  let ?xs = "Key c # replicate 1024 Read @ [Key d, Read]"
  have "key_tail (keyboard (processes s p)) + int (length ?xs) < 2 ^ 31"
    "key_head (keyboard (processes s p)) + int (length ?xs) < 2 ^ 31" using assms(3,5) by (auto simp: ring_ok_def)
  from keyboard_run_ring [OF assms(1,2) this] ring_overflow [OF assms(3,4,6,7,5)] show ?thesis by (elim exE) auto
qed

definition full_keyboard :: kbstate where
  "full_keyboard = update_process typed_process 0x9000 (\<lambda>k. k\<lparr>keyboard := \<lparr>key_buffer = replicate 1024 65, key_tail = 1024, key_head = 0\<rparr>\<rparr>)"

lemma full_keyboard_typing:
  "typing full_keyboard 0x9000" "ring_ok (keyboard (processes full_keyboard 0x9000))"
  "ring_keys (keyboard (processes full_keyboard 0x9000)) = replicate 1024 65" "key_tail (keyboard (processes full_keyboard 0x9000)) = 1024"
proof -
  show "typing full_keyboard 0x9000" using typed_process_typing(1) by (auto simp: full_keyboard_def typing_def update_process_def)
  have at: "replicate 1024 (65 :: u8) ! nat (i mod 1024) = 65" for i :: int
    by (rule nth_replicate) (simp add: nat_less_iff)
  show "ring_ok (keyboard (processes full_keyboard 0x9000))" by (auto simp: full_keyboard_def ring_ok_def at)
  show "ring_keys (keyboard (processes full_keyboard 0x9000)) = replicate 1024 65"
    by (simp add: full_keyboard_def ring_keys_def at map_replicate_const)
  show "key_tail (keyboard (processes full_keyboard 0x9000)) = 1024" by (simp add: full_keyboard_def)
qed

theorem keyboard_overflow_loses_keys_witness:
  "\<exists>s'. keyboard_run (\<lambda>f s kb ev. Some s) full_keyboard (Key 66 # replicate 1024 Read @ [Key 67, Read])
     = Some (s', 66 # replicate 1023 65 @ [0])"
  using keyboard_overflow_loses_keys [of "\<lambda>f s kb ev. Some s" "0x9000" full_keyboard 66 67] full_keyboard_typing
  by (simp add: listeners_return_def same_typing_def tl_replicate)

end
