(* ===== verification/Image.thy ===== *)
theory Image
  imports Keyboard ProcessFile
begin

section \<open>Images: image.c and bmp.c\<close>

text \<open>
  The registered image formats, the loader for uncompressed 24-bit bitmaps, and loading an image from a file. The
  pixels of an image are a list, or \<open>None\<close> while the pointer to them is null. The functions of a
  format are arguments by their address; for the only format of the kernel they are those of \<open>bmp.c\<close>.
\<close>

record image_pixel =
  pix_R :: u8
  pix_G :: u8
  pix_B :: u8
  pix_A :: u8

record image =
  img_width :: u32
  img_height :: u32
  img_data :: "image_pixel list option"
  img_format :: u64

record image_format =
  mime_type :: "u8 list"
  image_load_function :: u64
  image_free_function :: u64
  on_register_function :: u64
  on_unregister_function :: u64

record istate = kbstate +
  image_formats :: "u64 tvec option"
  image_at :: "u64 \<Rightarrow> image"
  image_format_at :: "u64 \<Rightarrow> image_format"

record 's image_functions =
  if_load :: "u64 \<Rightarrow> 's \<Rightarrow> u64 \<Rightarrow> u64 \<Rightarrow> ('s \<times> u64) option"
  if_free :: "u64 \<Rightarrow> 's \<Rightarrow> u64 \<Rightarrow> 's option"
  if_register :: "u64 \<Rightarrow> 's \<Rightarrow> u64 \<Rightarrow> ('s \<times> int) option"
  if_unregister :: "u64 \<Rightarrow> 's \<Rightarrow> u64 \<Rightarrow> 's option"

definition null_pixel :: image_pixel where
  "null_pixel = \<lparr>pix_R = 0, pix_G = 0, pix_B = 0, pix_A = 0\<rparr>"

subsection \<open>Bitmaps\<close>

record bmp_header =
  bf_type :: "u8 list"
  bf_offbits :: u32

record bmp_image_header =
  bi_width :: int
  bi_height :: int
  bi_bits_per_pixel :: u16
  bi_compression :: u32

text \<open>The fields of the two headers that the loader reads; the structs are packed.\<close>

definition bmp_header_at :: "memory \<Rightarrow> u64 \<Rightarrow> bmp_header" where
  "bmp_header_at m p = \<lparr>bf_type = [m p, m (p + 1)], bf_offbits = mem32 m (p + 10)\<rparr>"

definition bmp_image_header_at :: "memory \<Rightarrow> u64 \<Rightarrow> bmp_image_header" where
  "bmp_image_header_at m p = \<lparr>bi_width = sint (mem32 m (p + 4)), bi_height = sint (mem32 m (p + 8)),
     bi_bits_per_pixel = mem16 m (p + 14), bi_compression = mem32 m (p + 16)\<rparr>"

text \<open>The two loops over the rows and columns, writing each pixel to its place.\<close>

primrec bmp_columns_loop :: "memory \<Rightarrow> u64 \<Rightarrow> nat \<Rightarrow> nat \<Rightarrow> nat \<Rightarrow> nat \<Rightarrow> image_pixel list \<Rightarrow> image_pixel list" where
  "bmp_columns_loop m row_ptr width dest_row col 0 data = data"
| "bmp_columns_loop m row_ptr width dest_row col (Suc n) data =
     (let bmp_pixel = row_ptr + of_nat (col * 3)
      in bmp_columns_loop m row_ptr width dest_row (Suc col) n (data[dest_row * width + col :=
           \<lparr>pix_R = m (bmp_pixel + 2), pix_G = m (bmp_pixel + 1), pix_B = m bmp_pixel, pix_A = 0\<rparr>]))"

primrec bmp_rows_loop :: "memory \<Rightarrow> u64 \<Rightarrow> u64 \<Rightarrow> bool \<Rightarrow> nat \<Rightarrow> nat \<Rightarrow> nat \<Rightarrow> nat \<Rightarrow> image_pixel list \<Rightarrow> image_pixel list" where
  "bmp_rows_loop m bmp_first_pixel_ptr padded_row_size bottom_up width height row 0 data = data"
| "bmp_rows_loop m bmp_first_pixel_ptr padded_row_size bottom_up width height row (Suc n) data =
     (let row_ptr = bmp_first_pixel_ptr + of_nat row * padded_row_size;
          dest_row = (if bottom_up then height - 1 - row else row)
      in bmp_rows_loop m bmp_first_pixel_ptr padded_row_size bottom_up width height (Suc row) n
           (bmp_columns_loop m row_ptr width dest_row 0 width data))"

text \<open>
  The result is the address of the image or null. The header of the image is read without a test
  that the file is long enough for it. The negation of the least height overflows.
\<close>

definition bmp_img_load :: "'s istate_scheme \<Rightarrow> u64 \<Rightarrow> u64 \<Rightarrow> ('s istate_scheme \<times> u64) option" where
  "bmp_img_load s mem sz =
     (let header = bmp_header_at (kmem s) mem in
      if sz < 14 then Some (s, 0)
      else if bf_type header \<noteq> [66, 77] then Some (s, 0)
      else if ucast (bf_offbits header) \<ge> sz then Some (s, 0)
      else do {
        let bmp_image_header = bmp_image_header_at (kmem s) (mem + 14);
        (s1, img) \<leftarrow> kzalloc s 32;
        if img = 0 then Some (s1, 0)
        else if bi_compression bmp_image_header \<noteq> 0 then Some (kfree s1 img, 0)
        else if bi_bits_per_pixel bmp_image_header \<noteq> 24 then Some (kfree s1 img, 0)
        else if bi_height bmp_image_header = - (2 ^ 31) then None
        else do {
          let bottom_up = (bi_height bmp_image_header > 0);
          let height = (if bottom_up then bi_height bmp_image_header else - bi_height bmp_image_header);
          let width = bi_width bmp_image_header;
          if width \<le> 0 \<or> height \<le> 0 then Some (kfree s1 img, 0)
          else do {
            let pixel_data_size = size_of_int width * size_of_int height * 4;
            (s2, data_ptr) \<leftarrow> kzalloc s1 pixel_data_size;
            if data_ptr = 0 then Some (kfree s2 img, 0)
            else do {
              let padded_row_size = (size_of_int width * 3 + 3) AND NOT 3;
              if ucast (bf_offbits header) + padded_row_size * size_of_int height > sz
              then Some (kfree (kfree s2 data_ptr) img, 0)
              else do {
                let data = bmp_rows_loop (kmem s2) (mem + ucast (bf_offbits header)) padded_row_size bottom_up
                     (nat width) (nat height) 0 (nat height) (replicate (nat width * nat height) null_pixel);
                Some (s2\<lparr>image_at := (image_at s2)(img := \<lparr>img_width = word_of_int width, img_height = word_of_int height,
                   img_data = Some data, img_format = 0\<rparr>)\<rparr>, img)
              }
            }
          }
        }
      })"

definition bmp_img_free :: "'s istate_scheme \<Rightarrow> u64 \<Rightarrow> 's istate_scheme" where
  "bmp_img_free s img = kfree s img"

subsection \<open>Image formats\<close>

primrec format_get_loop :: "'s istate_scheme \<Rightarrow> u64 list \<Rightarrow> u8 list \<Rightarrow> u64 option" where
  "format_get_loop s [] mime = Some 0"
| "format_get_loop s (f # fs) mime =
     (if f = 0 then format_get_loop s fs mime
      else do {
        c \<leftarrow> strncmp (mime_type (image_format_at s f)) mime 64;
        if c = 0 then Some f else format_get_loop s fs mime
      })"

definition graphics_image_format_get :: "'s istate_scheme \<Rightarrow> u8 list \<Rightarrow> u64 option" where
  "graphics_image_format_get s mime = do { v \<leftarrow> image_formats s; fs \<leftarrow> tvec_items v; format_get_loop s fs mime }"

text \<open>The first format that recognises the bytes loads them.\<close>

primrec load_from_memory_loop ::
  "'s istate_scheme image_functions \<Rightarrow> 's istate_scheme \<Rightarrow> u64 list \<Rightarrow> u64 \<Rightarrow> u64 \<Rightarrow> ('s istate_scheme \<times> u64) option" where
  "load_from_memory_loop fns s [] mem max_size = Some (s, 0)"
| "load_from_memory_loop fns s (f # fs) mem max_size = do {
     (s1, img) \<leftarrow> if_load fns (image_load_function (image_format_at s f)) s mem max_size;
     if img \<noteq> 0 then Some (s1\<lparr>image_at := (image_at s1)(img := (image_at s1 img)\<lparr>img_format := f\<rparr>)\<rparr>, img)
     else load_from_memory_loop fns s1 fs mem max_size
   }"

definition graphics_image_load_from_memory ::
  "'s istate_scheme image_functions \<Rightarrow> 's istate_scheme \<Rightarrow> u64 \<Rightarrow> u64 \<Rightarrow> ('s istate_scheme \<times> u64) option" where
  "graphics_image_load_from_memory fns s mem max_size = do {
     v \<leftarrow> image_formats s;
     fs \<leftarrow> tvec_items v;
     load_from_memory_loop fns s fs mem max_size
   }"

definition graphics_image_get_pixel :: "image \<Rightarrow> int \<Rightarrow> int \<Rightarrow> image_pixel option" where
  "graphics_image_get_pixel img x y = do {
     data \<leftarrow> img_data img;
     let i = unat (word_of_int y * img_width img + word_of_int x);
     if i < length data then Some (data ! i) else None
   }"

definition graphics_image_free :: "'s istate_scheme image_functions \<Rightarrow> 's istate_scheme \<Rightarrow> u64 \<Rightarrow> 's istate_scheme option" where
  "graphics_image_free fns s img = if_free fns (image_free_function (image_format_at s (img_format (image_at s img)))) s img"

definition graphics_image_format_unload ::
  "'s istate_scheme image_functions \<Rightarrow> 's istate_scheme \<Rightarrow> u64 \<Rightarrow> 's istate_scheme option" where
  "graphics_image_format_unload fns s f =
     (if on_unregister_function (image_format_at s f) \<noteq> 0
      then if_unregister fns (on_unregister_function (image_format_at s f)) s f else Some s)"

definition graphics_image_format_register ::
  "'s istate_scheme image_functions \<Rightarrow> 's istate_scheme \<Rightarrow> u64 \<Rightarrow> ('s istate_scheme \<times> int) option" where
  "graphics_image_format_register fns s f = do {
     existing_format \<leftarrow> graphics_image_format_get s (mime_type (image_format_at s f));
     (s1, res) \<leftarrow>
       (if existing_format \<noteq> 0 then Some (s, - EISTKN)
        else do {
          v \<leftarrow> image_formats s;
          (s', v', res) \<leftarrow> tvec_push s v f;
          let s' = s'\<lparr>image_formats := Some v'\<rparr>;
          if res < 0 then Some (s', res) else if_register fns (on_register_function (image_format_at s' f)) s' f
        });
     if res < 0 then do { s2 \<leftarrow> (if f \<noteq> 0 then graphics_image_format_unload fns s1 f else Some s1); Some (s2, res) }
     else Some (s1, res)
   }"

definition graphics_image_formats_load ::
  "'s istate_scheme image_functions \<Rightarrow> u64 \<Rightarrow> 's istate_scheme \<Rightarrow> ('s istate_scheme \<times> int) option" where
  "graphics_image_formats_load fns bmp_img_format s = do { (s1, _) \<leftarrow> graphics_image_format_register fns s bmp_img_format; Some (s1, 0) }"

definition graphics_image_formats_init ::
  "'s istate_scheme image_functions \<Rightarrow> u64 \<Rightarrow> 's istate_scheme \<Rightarrow> ('s istate_scheme \<times> int) option" where
  "graphics_image_formats_init fns bmp_img_format s = do {
     (s1, v) \<leftarrow> tvec_new s 8 10;
     if v = None then Some (s1\<lparr>image_formats := None\<rparr>, - ENOMEM)
     else graphics_image_formats_load fns bmp_img_format (s1\<lparr>image_formats := v\<rparr>)
   }"

partial_function (option) graphics_image_formats_unload ::
  "'s istate_scheme image_functions \<Rightarrow> 's istate_scheme \<Rightarrow> 's istate_scheme option" where
  "graphics_image_formats_unload fns s = do {
     v \<leftarrow> image_formats s;
     if t_elems (tv_header v) = 0 then Some s
     else do {
       r \<leftarrow> tvec_back v;
       let f = (case r of Inl _ \<Rightarrow> 0 | Inr f \<Rightarrow> f);
       s1 \<leftarrow> (if f \<noteq> 0 then graphics_image_format_unload fns s f else Some s);
       v1 \<leftarrow> image_formats s1;
       graphics_image_formats_unload fns (s1\<lparr>image_formats := Some (fst (tvec_pop v1))\<rparr>)
     }
   }"

text \<open>The functions of the bitmap format; registering and unregistering it do nothing.\<close>

definition bmp_img_format_register :: "'s istate_scheme \<Rightarrow> u64 \<Rightarrow> ('s istate_scheme \<times> int) option" where
  "bmp_img_format_register s f = Some (s, 0)"

definition bmp_functions :: "'s istate_scheme image_functions" where
  "bmp_functions = \<lparr>if_load = (\<lambda>_. bmp_img_load), if_free = (\<lambda>_ s img. Some (bmp_img_free s img)),
     if_register = (\<lambda>_. bmp_img_format_register), if_unregister = (\<lambda>_ s f. Some s)\<rparr>"

subsection \<open>Loading from a file\<close>

text \<open>
  The test for a failed \<open>fopen\<close> is for a negative number, and \<open>fopen\<close> fails with \<open>0\<close>; then \<open>fstat\<close> fails. The image is
  kept when \<open>fread\<close> reads nothing and does not fail.
\<close>

type_synonym ('k, 'b, 'p) image_system = "('k istate_ext kbstate_ext, 'b, 'p) process_system"

definition graphics_image_load ::
  "'k istate_scheme image_functions \<Rightarrow> 'k istate_scheme allocator \<Rightarrow> ('k istate_ext kbstate_ext, 'b, 'p) filesystems \<Rightarrow>
   ('k, 'b, 'p) image_system \<Rightarrow> u8 list \<Rightarrow> (('k, 'b, 'p) image_system \<times> u64) option" where
  "graphics_image_load fns al fs F path = do {
     (F1, fd) \<leftarrow> fopen al fs F path [114, 0];
     if fd < 0 then do { (F2, _) \<leftarrow> fclose fs F1 fd; Some (F2, 0) }
     else do {
       (stat, res) \<leftarrow> fstat fs F1 fd \<lparr>stat_flags = 0, filesize = 0\<rparr>;
       if res < 0 then do { (F2, _) \<leftarrow> fclose fs F1 fd; Some (F2, 0) }
       else do {
         (s2, img_memory) \<leftarrow> kzalloc (heap_of F1) (ucast (filesize stat));
         if img_memory = 0 then do { (F3, _) \<leftarrow> fclose fs (with_heap F1 s2) fd; Some (F3, 0) }
         else do {
           (F3, res, bytes) \<leftarrow> fread fs (with_heap F1 s2) (read_bytes (kmem s2) img_memory (unat (filesize stat))) (filesize stat) 1 fd;
           let s3 = (heap_of F3)\<lparr>kmem := write_bytes (kmem (heap_of F3)) img_memory bytes\<rparr>;
           if res < 0 then do { (F4, _) \<leftarrow> fclose fs (with_heap F3 s3) fd; Some (with_heap F4 (kfree (heap_of F4) img_memory), 0) }
           else do {
             (s4, img) \<leftarrow> graphics_image_load_from_memory fns s3 img_memory (ucast (filesize stat));
             (F5, _) \<leftarrow> fclose fs (with_heap F3 s4) fd;
             Some (with_heap F5 (kfree (heap_of F5) img_memory), img)
           }
         }
       }
     }
   }"

subsection \<open>The pixels of a loaded bitmap\<close>

text \<open>The pixel whose three bytes are at \<open>p\<close>, and a file that the loader accepts.\<close>

definition bmp_pixel_at :: "memory \<Rightarrow> u64 \<Rightarrow> image_pixel" where
  "bmp_pixel_at m p = \<lparr>pix_R = m (p + 2), pix_G = m (p + 1), pix_B = m p, pix_A = 0\<rparr>"

definition bmp_row_size :: "nat \<Rightarrow> nat" where
  "bmp_row_size w = (w * 3 + 3) div 4 * 4"

definition valid_bmp :: "memory \<Rightarrow> u64 \<Rightarrow> u64 \<Rightarrow> nat \<Rightarrow> nat \<Rightarrow> bool \<Rightarrow> bool" where
  "valid_bmp m mem sz w h bottom_up \<longleftrightarrow>
     14 \<le> sz \<and> unat sz < 2 ^ 32 \<and> bf_type (bmp_header_at m mem) = [66, 77] \<and>
     bi_compression (bmp_image_header_at m (mem + 14)) = 0 \<and> bi_bits_per_pixel (bmp_image_header_at m (mem + 14)) = 24 \<and>
     bi_width (bmp_image_header_at m (mem + 14)) = int w \<and>
     bi_height (bmp_image_header_at m (mem + 14)) = (if bottom_up then int h else - int h) \<and> 0 < w \<and> 0 < h \<and>
     unat (bf_offbits (bmp_header_at m mem)) + bmp_row_size w * h \<le> unat sz"

lemma bmp_columns_length [simp]: "length (bmp_columns_loop m r w d c n data) = length data"
  by (induction n arbitrary: c data) (simp_all add: Let_def)

lemma bmp_columns_nth:
  assumes "i < length data"
  shows "bmp_columns_loop m r w d c n data ! i =
    (if d * w + c \<le> i \<and> i < d * w + c + n then bmp_pixel_at m (r + of_nat ((i - d * w) * 3)) else data ! i)"
  using assms
proof (induction n arbitrary: c data)
  case (Suc n)
  show ?case
  proof (cases "i = d * w + c")
    case True
    then have "bmp_pixel_at m (r + of_nat ((i - d * w) * 3)) = bmp_pixel_at m (r + of_nat (c * 3))" by simp
    then show ?thesis using Suc.IH [of _ "Suc c"] Suc.prems True by (simp add: Let_def bmp_pixel_at_def)
  next
    case False
    then show ?thesis using Suc.IH [of _ "Suc c"] Suc.prems by (auto simp: Let_def)
  qed
qed (auto simp: Let_def)

lemma bmp_rows_length [simp]: "length (bmp_rows_loop m f p bu w h r n data) = length data"
  by (induction n arbitrary: r data) (simp_all add: Let_def)

lemma row_col_unique: "x < w \<Longrightarrow> (d * w \<le> y * w + x \<and> y * w + x < d * w + w) \<longleftrightarrow> d = y" for x w d y :: nat
proof
  assume x: "x < w" and r: "d * w \<le> y * w + x \<and> y * w + x < d * w + w"
  then have "(y * w + x) div w = y" by simp
  moreover have "(y * w + x) div w = d"
    using r x by (intro div_nat_eqI) (auto simp: algebra_simps)
  ultimately show "d = y" by simp
qed auto

lemma row_col_lt: "x < w \<Longrightarrow> y < h \<Longrightarrow> y * w + x < w * h" for x w y h :: nat
proof -
  assume x: "x < w" and y: "y < h"
  have "y * w + x < y * w + w" using x by simp
  also have "\<dots> = Suc y * w" by simp
  also have "\<dots> \<le> h * w" using y by (intro mult_right_mono) simp_all
  finally show ?thesis by (simp add: mult.commute)
qed

lemma bmp_rows_nth:
  assumes "x < w" "y < h" "r + n \<le> h" "length data = w * h"
  shows "bmp_rows_loop m f p bu w h r n data ! (y * w + x) =
    (let sr = (if bu then h - 1 - y else y)
     in if r \<le> sr \<and> sr < r + n then bmp_pixel_at m (f + of_nat sr * p + of_nat (3 * x)) else data ! (y * w + x))"
  using assms(3,4)
proof (induction n arbitrary: r data)
  case (Suc n)
  let ?d = "if bu then h - 1 - r else r"
  let ?data = "bmp_columns_loop m (f + of_nat r * p) w ?d 0 w data"
  have i: "y * w + x < length data" unfolding Suc.prems(2) using assms(1,2) by (rule row_col_lt)
  have d: "?d = y \<longleftrightarrow> (if bu then h - 1 - y else y) = r" using assms(2) Suc.prems(1) by auto
  have at: "?data ! (y * w + x) = (if ?d = y then bmp_pixel_at m (f + of_nat r * p + of_nat (x * 3)) else data ! (y * w + x))"
    using bmp_columns_nth [OF i, of m "f + of_nat r * p" w ?d 0 w] row_col_unique [OF assms(1), of ?d y] by (auto split: if_splits)
  define sr where "sr = (if bu then h - 1 - y else y)"
  have "bmp_rows_loop m f p bu w h r (Suc n) data ! (y * w + x) = bmp_rows_loop m f p bu w h (Suc r) n ?data ! (y * w + x)"
    by (simp add: Let_def)
  also have "\<dots> = (if Suc r \<le> sr \<and> sr < Suc r + n then bmp_pixel_at m (f + of_nat sr * p + of_nat (3 * x)) else ?data ! (y * w + x))"
    using Suc.IH [of "Suc r" ?data] Suc.prems by (simp add: Let_def sr_def)
  also have "\<dots> = (if r \<le> sr \<and> sr < r + Suc n then bmp_pixel_at m (f + of_nat sr * p + of_nat (3 * x)) else data ! (y * w + x))"
    using d unfolding sr_def [symmetric] at by (auto simp: mult.commute [of x 3])
  finally show ?case by (simp add: Let_def sr_def)
qed (auto simp: Let_def)

lemma padded_row_size: "w < 2 ^ 31 \<Longrightarrow> unat ((of_nat w * 3 + 3) AND NOT 3 :: u64) = bmp_row_size w"
proof -
  assume w: "w < 2 ^ 31"
  have e: "(of_nat w * 3 + 3 :: u64) = of_nat (w * 3 + 3)" by simp
  have "unat (of_nat (w * 3 + 3) :: u64) = w * 3 + 3" by (rule unat_of_nat_u64) (use w in simp)
  moreover have "a AND NOT 3 = drop_bit 2 a * 4" for a :: u64
  proof -
    have "a AND NOT (mask 2) = push_bit 2 (drop_bit 2 a)" 
    proof (rule bit_eqI)
      fix n
      have "2 \<le> n \<Longrightarrow> Suc (Suc (n - 2)) = n" by simp
      then show "bit (a AND NOT (mask 2)) n \<longleftrightarrow> bit (push_bit 2 (drop_bit 2 a)) n" by (auto simp: bit_simps)
    qed
    then show ?thesis by (simp add: mask_numeral push_bit_eq_mult)
  qed
  ultimately show ?thesis using w unfolding e bmp_row_size_def
    by (simp add: unat_word_ariths drop_bit_eq_div unat_div)
qed

text \<open>
  C17. A valid uncompressed 24-bit bitmap is loaded: every pixel of the image has the colours of its place in
  the file, with the rows turned over when the bitmap is stored from the bottom up.
\<close>

theorem bmp_load_pixels:
  assumes "valid_bmp (kmem s) mem sz w h bottom_up" "kzalloc s 32 = Some (s1, img)" "img \<noteq> 0"
    "kzalloc s1 (of_nat w * of_nat h * 4) = Some (s2, data_ptr)" "data_ptr \<noteq> 0"
  shows "\<exists>s' im. bmp_img_load s mem sz = Some (s', img) \<and> image_at s' img = im \<and> unat (img_width im) = w \<and> unat (img_height im) = h \<and>
    (\<forall>x y. x < w \<and> y < h \<longrightarrow> graphics_image_get_pixel im (int x) (int y) = Some (bmp_pixel_at (kmem s2)
      (mem + of_nat (unat (bf_offbits (bmp_header_at (kmem s) mem)) + (if bottom_up then h - 1 - y else y) * bmp_row_size w + 3 * x))))"
proof -
  let ?m = "kmem s" and ?off = "unat (bf_offbits (bmp_header_at (kmem s) mem))" and ?R = "bmp_row_size w"
  let ?p = "(size_of_int (int w) * 3 + 3) AND NOT 3 :: u64"
  note v = assms(1) [unfolded valid_bmp_def]
  have R: "3 * w \<le> ?R" unfolding bmp_row_size_def by linarith
  have Rh: "?R * h < 2 ^ 32" using v by linarith
  have "?R * 1 \<le> ?R * h" using v by (intro mult_le_mono) auto
  then have "?R \<le> ?R * h" by (simp only: mult_1_right)
  then have "3 * w < 2 ^ 32" using Rh R by (meson le_less_trans)
  then have wlt: "w < 2 ^ 31" by simp
  have "3 * h \<le> ?R * h" using v R by (intro mult_le_mono; linarith)
  then have "3 * h < 2 ^ 32" using Rh by (rule order.strict_trans1)
  then have "h < 2 ^ 31" by simp
  note wlt = wlt this Rh
  have wh: "w * h < 2 ^ 32"
  proof -
    have "w * h \<le> ?R * h" using R by (intro mult_le_mono) auto
    then show ?thesis using wlt(3) by linarith
  qed
  have p: "unat ?p = ?R" using padded_row_size [OF wlt(1)] by (simp add: size_of_int_def)
  have pw: "?p = of_nat ?R" by (simp flip: p)
  have uc: "(ucast a :: u64) = of_nat (unat a)" for a :: u32 by simp
  have total: "ucast (bf_offbits (bmp_header_at ?m mem)) + ?p * size_of_int (int h) = (of_nat (?off + ?R * h) :: u64)"
    unfolding pw uc by (simp add: size_of_int_def del: of_nat_unat)
  have le: "\<not> (of_nat (?off + ?R * h) :: u64) > sz"
    using v by (simp add: word_less_nat_alt del: of_nat_add of_nat_mult)
  define data where "data = bmp_rows_loop (kmem s2) (mem + ucast (bf_offbits (bmp_header_at ?m mem))) ?p bottom_up w h 0 h (replicate (w * h) null_pixel)"
  define im where "im = \<lparr>img_width = word_of_int (int w), img_height = word_of_int (int h), img_data = Some data, img_format = 0\<rparr>"
  have "?off < unat sz" using v wlt R by (cases "?R * h") auto
  then have off: "\<not> ucast (bf_offbits (bmp_header_at ?m mem)) \<ge> sz" 
    using unsigned_less [of sz, where 'a = nat] by (simp add: word_le_nat_alt unsigned_ucast_eq take_bit_nat_eq_self)
  have load: "bmp_img_load s mem sz = Some (s2\<lparr>image_at := (image_at s2)(img := im)\<rparr>, img)"
  proof -
    let ?hd = "bmp_header_at ?m mem" and ?ih = "bmp_image_header_at ?m (mem + 14)"
    have c: "\<not> sz < 14" "bf_type ?hd = [66, 77]" "bi_compression ?ih = 0" "bi_bits_per_pixel ?ih = 24" "bi_width ?ih = int w"
      "(0 < bi_height ?ih) = bottom_up" "(if bottom_up then bi_height ?ih else - bi_height ?ih) = int h" "bi_height ?ih \<noteq> - (2 ^ 31)"
      "\<not> (int w \<le> 0 \<or> int h \<le> 0)"
      using v wlt by auto
    have n: "size_of_int (int w) * size_of_int (int h) * 4 = (of_nat w * of_nat h * 4 :: u64)" by (simp add: size_of_int_def)
    show ?thesis
      unfolding bmp_img_load_def Let_def c(2-8) n
      by (simp only: if_False if_True c(1,8,9) simp_thms off assms(2-5) n Option.bind.simps prod.case total le data_def im_def nat_int)
  qed
  have pix: "graphics_image_get_pixel im (int x) (int y) = Some (bmp_pixel_at (kmem s2)
      (mem + of_nat (?off + (if bottom_up then h - 1 - y else y) * ?R + 3 * x)))" if "x < w" "y < h" for x y
  proof -
    have i: "y * w + x < w * h" using that by (rule row_col_lt)
    have "unat (word_of_int (int y) * img_width im + word_of_int (int x)) = y * w + x"
    proof -
      have "(word_of_int (int y) * img_width im + word_of_int (int x) :: u32) = of_nat (y * w + x)" by (simp add: im_def)
      moreover have "unat (of_nat (y * w + x) :: u32) = y * w + x"
        using order.strict_trans [OF i wh] by (simp only: unat_of_nat take_bit_nat_eq_self len_num1 len_bit0) simp
      ultimately show ?thesis by (simp only:)
    qed
    then have "graphics_image_get_pixel im (int x) (int y) = Some (data ! (y * w + x))"
      using i by (simp add: graphics_image_get_pixel_def im_def data_def)
    moreover have "data ! (y * w + x) = bmp_pixel_at (kmem s2)
        (mem + of_nat ?off + of_nat (if bottom_up then h - 1 - y else y) * of_nat ?R + of_nat (3 * x))"
      using bmp_rows_nth [OF that, of 0 h "replicate (w * h) null_pixel" "kmem s2" "mem + of_nat ?off" "of_nat ?R" bottom_up] that
      unfolding data_def pw uc by (simp only: Let_def length_replicate) auto
    moreover have "mem + of_nat ?off + of_nat (if bottom_up then h - 1 - y else y) * of_nat ?R + of_nat (3 * x)
        = mem + of_nat (?off + (if bottom_up then h - 1 - y else y) * ?R + 3 * x)"
      by (simp only: of_nat_add of_nat_mult add.assoc)
    ultimately show ?thesis by (simp only:)
  qed
  have "unat (img_width im) = w" "unat (img_height im) = h"
    using wlt by (simp_all add: im_def unat_of_nat take_bit_nat_eq_self)
  then show ?thesis using load pix by (intro exI [of _ "s2\<lparr>image_at := (image_at s2)(img := im)\<rparr>"] exI [of _ im]) (simp del: of_nat_add of_nat_mult)
qed


text \<open>A bitmap of two rows of one pixel each, in the memory of a kernel with no image loaded.\<close>

definition bmp_file :: "u8 list" where
  "bmp_file =
     [66, 77, 0, 0, 0, 0, 0, 0, 0, 0, 54, 0, 0, 0, 40, 0, 0, 0, 1, 0, 0, 0, 2, 0, 0, 0, 1, 0, 24, 0,
      0, 0, 0, 0, 0, 0, 0, 0, 0, 0, 0, 0, 0, 0, 0, 0, 0, 0, 0, 0, 0, 0, 0, 0, 1, 2, 3, 0, 4, 5, 6, 0]"

definition bmp_state :: istate where
  "bmp_state = kbstate.extend typed_process (istate.fields None (\<lambda>_. \<lparr>img_width = 0, img_height = 0, img_data = None, img_format = 0\<rparr>)
      (\<lambda>_. \<lparr>mime_type = replicate 64 0, image_load_function = 0, image_free_function = 0, on_register_function = 0, on_unregister_function = 0\<rparr>))
     \<lparr>kmem := write_bytes (\<lambda>_. 0) 0x100 bmp_file\<rparr>"

lemma bmp_state_kernel: "kernel_inv bmp_state" "free_pages bmp_state = free_pages kernel8"
  using kernel8_inv by (simp_all add: kernel_inv_def free_pages_def heap_list_def bmp_state_def typed_process_def one_process_def
      pstate.defs kbstate.defs istate.defs)

lemma bmp_state_valid: "valid_bmp (kmem bmp_state) 0x100 62 1 2 True"
  by (simp add: valid_bmp_def bmp_state_def bmp_header_at_def bmp_image_header_at_def mem32_def mem16_def write_bytes_def bmp_file_def bmp_row_size_def)


theorem bmp_load_pixels_witness:
  "\<exists>s' img im. bmp_img_load bmp_state 0x100 62 = Some (s', img) \<and> image_at s' img = im \<and> unat (img_width im) = 1 \<and> unat (img_height im) = 2"
proof -
  obtain s1 img where 1: "kzalloc bmp_state 32 = Some (s1, img)" "kernel_inv s1" "free_pages bmp_state = Suc (free_pages s1)" "img \<noteq> 0"
    using kzalloc_small [OF bmp_state_kernel(1), of 32] bmp_state_kernel(2) kernel8_pages(1) by auto
  obtain s2 p where 2: "kzalloc s1 (of_nat 1 * of_nat 2 * 4) = Some (s2, p)" "p \<noteq> 0"
    using kzalloc_small [OF 1(2), of 8] 1(3) bmp_state_kernel(2) kernel8_pages(1) by auto
  show ?thesis using bmp_load_pixels [OF bmp_state_valid 1(1,4) 2] by auto
qed

end
