(* ===== verification/Graphics.thy ===== *)
theory Graphics
  imports Image
begin

section \<open>Graphics: graphics.c\<close>

text \<open>
  The tree of rectangles with their own pixels, and what they draw to the screen. The store \<open>graphics_at\<close> holds the
  rectangles by address, the null page among them. The pixels are arrays in the store \<open>pixel_arrays\<close> by the
  address of their allocation, and access outside an array is \<open>None\<close>. \<open>screen\<close> is the framebuffer, a device: its pixels by
  their index from the address that all rectangles share.

  A function that walks the tree is a partial function: \<open>None\<close> is a fault or a walk that does not end.
\<close>

abbreviation (input) GRAPHICS_FLAG_ALLOW_OUT_OF_BOUNDS :: u32 where "GRAPHICS_FLAG_ALLOW_OUT_OF_BOUNDS \<equiv> 1"
abbreviation (input) GRAPHICS_FLAG_CLONED_FRAMEBUFFER :: u32 where "GRAPHICS_FLAG_CLONED_FRAMEBUFFER \<equiv> 2"
abbreviation (input) GRAPHICS_FLAG_DO_NOT_COPY_PIXELS :: u32 where "GRAPHICS_FLAG_DO_NOT_COPY_PIXELS \<equiv> 8"
abbreviation (input) GRAPHICS_FLAG_DO_NOT_OVERWRITE_TRANSPARENT_PIXELS :: u32 where
  "GRAPHICS_FLAG_DO_NOT_OVERWRITE_TRANSPARENT_PIXELS \<equiv> 16"

record framebuffer_pixel =
  blue :: u8
  green :: u8
  red :: u8
  reserved :: u8

record graphics_info =
  framebuffer :: u64
  horizontal_resolution :: u32
  vertical_resolution :: u32
  pixels_per_scanline :: u32
  gi_pixels :: u64
  gi_width :: u32
  gi_height :: u32
  starting_x :: u32
  starting_y :: u32
  gi_relative_x :: u32
  gi_relative_y :: u32
  gi_parent :: u64
  gi_children :: "u64 tvec option"
  gi_flags :: u32
  z_index :: u32
  ignore_color :: framebuffer_pixel
  transparency_key :: framebuffer_pixel
  mouse_click :: u64
  mouse_move :: u64

record gstate = istate +
  graphics_at :: "u64 \<Rightarrow> graphics_info"
  pixel_arrays :: "u64 \<Rightarrow> framebuffer_pixel list"
  screen :: "nat \<Rightarrow> framebuffer_pixel"
  loaded_graphics_info :: u64
  graphics_info_vector :: "u64 tvec option"
  real_framebuffer :: u64

definition black :: framebuffer_pixel where
  "black = \<lparr>blue = 0, green = 0, red = 0, reserved = 0\<rparr>"

definition null_graphics :: graphics_info where
  "null_graphics = \<lparr>framebuffer = 0, horizontal_resolution = 0, vertical_resolution = 0, pixels_per_scanline = 0, gi_pixels = 0,
     gi_width = 0, gi_height = 0, starting_x = 0, starting_y = 0, gi_relative_x = 0, gi_relative_y = 0, gi_parent = 0,
     gi_children = None, gi_flags = 0, z_index = 0, ignore_color = black, transparency_key = black, mouse_click = 0, mouse_move = 0\<rparr>"

definition update_graphics :: "'s gstate_scheme \<Rightarrow> u64 \<Rightarrow> (graphics_info \<Rightarrow> graphics_info) \<Rightarrow> 's gstate_scheme" where
  "update_graphics s g f = s\<lparr>graphics_at := (graphics_at s)(g := f (graphics_at s g))\<rparr>"

text \<open>Reading and writing element \<open>i\<close> of a pixel array.\<close>

definition pixel_read :: "'s gstate_scheme \<Rightarrow> u64 \<Rightarrow> nat \<Rightarrow> framebuffer_pixel option" where
  "pixel_read s a i = (if i < length (pixel_arrays s a) then Some (pixel_arrays s a ! i) else None)"

definition pixel_write :: "'s gstate_scheme \<Rightarrow> u64 \<Rightarrow> nat \<Rightarrow> framebuffer_pixel \<Rightarrow> 's gstate_scheme option" where
  "pixel_write s a i px =
     (if i < length (pixel_arrays s a) then Some (s\<lparr>pixel_arrays := (pixel_arrays s)(a := (pixel_arrays s a)[i := px])\<rparr>) else None)"

definition graphics_children :: "'s gstate_scheme \<Rightarrow> u64 \<Rightarrow> u64 list option" where
  "graphics_children s g = do { v \<leftarrow> gi_children (graphics_at s g); tvec_items v }"

subsection \<open>Drawing into a rectangle's pixels\<close>

definition graphics_bounds_check :: "graphics_info \<Rightarrow> int \<Rightarrow> int \<Rightarrow> bool" where
  "graphics_bounds_check gi x y = (\<not> (x < 0 \<or> y < 0 \<or> (word_of_int x :: u32) \<ge> gi_width gi \<or> (word_of_int y :: u32) \<ge> gi_height gi))"

definition graphics_screen_info :: "'s gstate_scheme \<Rightarrow> u64" where
  "graphics_screen_info s = loaded_graphics_info s"

definition graphics_draw_pixel :: "'s gstate_scheme \<Rightarrow> u64 \<Rightarrow> u32 \<Rightarrow> u32 \<Rightarrow> framebuffer_pixel \<Rightarrow> 's gstate_scheme option" where
  "graphics_draw_pixel s g x y pixel =
     (let gi = graphics_at s g in
      if ignore_color gi \<noteq> black \<and> ignore_color gi = pixel then Some s
      else if x < gi_width gi \<and> y < gi_height gi then pixel_write s (gi_pixels gi) (unat (y * gi_width gi + x)) pixel
      else Some s)"

definition graphics_draw_image :: "'s gstate_scheme \<Rightarrow> u64 \<Rightarrow> u64 \<Rightarrow> int \<Rightarrow> int \<Rightarrow> 's gstate_scheme option" where
  "graphics_draw_image s graphics_info img x y =
     (if img = 0 then Some s
      else let g = (if graphics_info = 0 then loaded_graphics_info s else graphics_info);
               w = unat (img_width (image_at s img)); h = unat (img_height (image_at s img))
        in for_each (\<lambda>lx. for_each (\<lambda>ly s. do {
             data \<leftarrow> img_data (image_at s img);
             px \<leftarrow> (if ly * w + lx < length data then Some (data ! (ly * w + lx)) else None);
             graphics_draw_pixel s g (word_of_int (x + int lx)) (word_of_int (y + int ly))
               \<lparr>blue = pix_B px, green = pix_G px, red = pix_R px, reserved = 0\<rparr>
           }) [0..<h]) [0..<w] s)"

definition graphics_draw_rect ::
  "'s gstate_scheme \<Rightarrow> u64 \<Rightarrow> u32 \<Rightarrow> u32 \<Rightarrow> u64 \<Rightarrow> u64 \<Rightarrow> framebuffer_pixel \<Rightarrow> 's gstate_scheme option" where
  "graphics_draw_rect s g x y width height pixel_color =
     (let x_end = x + ucast width; y_end = y + ucast height
      in for_each (\<lambda>lx. for_each (\<lambda>ly s. graphics_draw_pixel s g (of_nat lx) (of_nat ly) pixel_color)
           [unat y..<unat y_end]) [unat x..<unat x_end] s)"

text \<open>The code, and the pixel where it is read.\<close>

definition graphics_pixel_get :: "'s gstate_scheme \<Rightarrow> u64 \<Rightarrow> u32 \<Rightarrow> u32 \<Rightarrow> (int \<times> framebuffer_pixel option) option" where
  "graphics_pixel_get s g x y =
     (let gi = graphics_at s g in
      if \<not> graphics_bounds_check gi (sint x) (sint y) then Some (- EINVARG, None)
      else do { px \<leftarrow> pixel_read s (gi_pixels gi) (unat (y * gi_width gi + x)); Some (0, Some px) })"

definition graphics_ignore_color :: "'s gstate_scheme \<Rightarrow> u64 \<Rightarrow> framebuffer_pixel \<Rightarrow> 's gstate_scheme" where
  "graphics_ignore_color s g pixel_color = update_graphics s g (\<lambda>gi. gi\<lparr>ignore_color := pixel_color\<rparr>)"

definition graphics_transparency_key_set :: "'s gstate_scheme \<Rightarrow> u64 \<Rightarrow> framebuffer_pixel \<Rightarrow> 's gstate_scheme" where
  "graphics_transparency_key_set s g pixel_color = update_graphics s g (\<lambda>gi. gi\<lparr>transparency_key := pixel_color\<rparr>)"

definition graphics_transparency_key_remove :: "'s gstate_scheme \<Rightarrow> u64 \<Rightarrow> 's gstate_scheme" where
  "graphics_transparency_key_remove s g = update_graphics s g (\<lambda>gi. gi\<lparr>transparency_key := black\<rparr>)"

definition graphics_ignore_color_finish :: "'s gstate_scheme \<Rightarrow> u64 \<Rightarrow> 's gstate_scheme" where
  "graphics_ignore_color_finish s g = update_graphics s g (\<lambda>gi. gi\<lparr>ignore_color := black\<rparr>)"

text \<open>
  The write is outside the test that the pixel is in the destination, which only guards the transparency test.
\<close>

definition graphics_paste_pixels_to_pixels ::
  "'s gstate_scheme \<Rightarrow> u64 \<Rightarrow> u64 \<Rightarrow> u32 \<Rightarrow> u32 \<Rightarrow> u32 \<Rightarrow> u32 \<Rightarrow> u32 \<Rightarrow> u32 \<Rightarrow> u32 \<Rightarrow> 's gstate_scheme option" where
  "graphics_paste_pixels_to_pixels s g_in g_out src_x src_y width height dst_x dst_y fl =
     (let gi = graphics_at s g_in; go = graphics_at s g_out;
          src_x_end = min (src_x + width) (gi_width gi); src_y_end = min (src_y + height) (gi_height gi);
          final_w = src_x_end - src_x; final_h = src_y_end - src_y;
          has_transparency_key = (transparency_key go \<noteq> black)
      in for_each (\<lambda>lx. for_each (\<lambda>ly s. do {
           (_, px) \<leftarrow> graphics_pixel_get s g_in (src_x + of_nat lx) (src_y + of_nat ly);
           let pixel = (case px of None \<Rightarrow> black | Some p \<Rightarrow> p);
           let dx = dst_x + of_nat lx;
           let dy = dst_y + of_nat ly;
           keep \<leftarrow> (if dx < gi_width go \<and> dy < gi_height go \<and> fl AND GRAPHICS_FLAG_DO_NOT_OVERWRITE_TRANSPARENT_PIXELS \<noteq> 0 \<and> has_transparency_key
                   then do { p \<leftarrow> pixel_read s (gi_pixels go) (unat (dy * gi_width go + dx)); Some (p = transparency_key go) }
                   else Some False);
           if keep then Some s else pixel_write s (gi_pixels go) (unat (dy * gi_width go + dx)) pixel
         }) [0..<unat final_h]) [0..<unat final_w] s)"

subsection \<open>Drawing to the screen\<close>

text \<open>One pixel of the copy to the screen.\<close>

definition paste_pixel :: "'s gstate_scheme \<Rightarrow> u64 \<Rightarrow> u32 \<Rightarrow> u32 \<Rightarrow> u32 \<Rightarrow> u32 \<Rightarrow> 's gstate_scheme option" where
  "paste_pixel s g sx sy dx dy =
     (let gi = graphics_at s g in do {
        p \<leftarrow> pixel_read s (gi_pixels gi) (unat (sy * gi_width gi + sx));
        if transparency_key gi \<noteq> black \<and> p = transparency_key gi then Some s
        else Some (s\<lparr>screen := (screen s)(unat (dy * pixels_per_scanline (graphics_at s (graphics_screen_info s)) + dx) := p)\<rparr>)
      })"

definition graphics_paste_pixels_to_framebuffer ::
  "'s gstate_scheme \<Rightarrow> u64 \<Rightarrow> u32 \<Rightarrow> u32 \<Rightarrow> u32 \<Rightarrow> u32 \<Rightarrow> u32 \<Rightarrow> u32 \<Rightarrow> 's gstate_scheme option" where
  "graphics_paste_pixels_to_framebuffer s g src_x src_y width height dst_abs_x dst_abs_y =
     (let gi = graphics_at s g; scr = graphics_at s (graphics_screen_info s);
          src_x_end = min (src_x + width) (gi_width gi); src_y_end = min (src_y + height) (gi_height gi);
          final_w = src_x_end - src_x; final_h = src_y_end - src_y;
          screen_w = horizontal_resolution scr; screen_h = vertical_resolution scr;
          dst_x_end = min (dst_abs_x + final_w) screen_w; dst_y_end = min (dst_abs_y + final_h) screen_h;
          clipped_w = dst_x_end - dst_abs_x; clipped_h = dst_y_end - dst_abs_y
      in if g = 0 then Some s
         else if final_w = 0 \<or> final_h = 0 then Some s
         else if dst_abs_x \<ge> screen_w \<or> dst_abs_y \<ge> screen_h then Some s
         else if clipped_w = 0 \<or> clipped_h = 0 then Some s
         else for_each (\<lambda>ly. for_each (\<lambda>lx s.
                paste_pixel s g (src_x + of_nat lx) (src_y + of_nat ly) (dst_abs_x + of_nat lx) (dst_abs_y + of_nat ly))
              [0..<unat clipped_w]) [0..<unat clipped_h] s)"

definition graphics_redraw_only :: "'s gstate_scheme \<Rightarrow> u64 \<Rightarrow> 's gstate_scheme option" where
  "graphics_redraw_only s g =
     (if g = 0 then Some s
      else graphics_paste_pixels_to_framebuffer s g 0 0 (gi_width (graphics_at s g)) (gi_height (graphics_at s g))
             (starting_x (graphics_at s g)) (starting_y (graphics_at s g)))"

text \<open>\<open>graphics_redraw_children\<close> is the loop.\<close>

partial_function (option) graphics_redraw :: "u64 \<Rightarrow> 's gstate_scheme \<Rightarrow> 's gstate_scheme option" where
  "graphics_redraw g s =
     (if g = 0 then Some s
      else do {
        s1 \<leftarrow> graphics_redraw_only s g;
        children \<leftarrow> graphics_children s1 g;
        for_each (\<lambda>child s. if child \<noteq> 0 then graphics_redraw child s else Some s) children s1
      })"

definition graphics_redraw_all :: "'s gstate_scheme \<Rightarrow> 's gstate_scheme option" where
  "graphics_redraw_all s = graphics_redraw (graphics_screen_info s) s"

text \<open>The region, cut to the rectangle, in coordinates of the rectangle, and a child's part of it: \<open>None\<close> when they are apart.\<close>

definition clip_region :: "graphics_info \<Rightarrow> u32 \<Rightarrow> u32 \<Rightarrow> u32 \<Rightarrow> u32 \<Rightarrow> u32 \<times> u32" where
  "clip_region gi local_x local_y width height =
     ((if local_x + width > gi_width gi then gi_width gi - local_x else width),
      (if local_y + height > gi_height gi then gi_height gi - local_y else height))"

definition child_region :: "graphics_info \<Rightarrow> u32 \<Rightarrow> u32 \<Rightarrow> u32 \<Rightarrow> u32 \<Rightarrow> (u32 \<times> u32 \<times> u32 \<times> u32) option" where
  "child_region child region_abs_left region_abs_top region_abs_right region_abs_bottom =
     (let intersect_left = max (starting_x child) region_abs_left;
          intersect_top = max (starting_y child) region_abs_top;
          intersect_right = min (starting_x child + gi_width child) region_abs_right;
          intersect_bottom = min (starting_y child + gi_height child) region_abs_bottom
      in if intersect_right > intersect_left \<and> intersect_bottom > intersect_top
         then Some (intersect_left - starting_x child, intersect_top - starting_y child,
                intersect_right - intersect_left, intersect_bottom - intersect_top)
         else None)"

partial_function (option) graphics_redraw_region :: "u64 \<Rightarrow> u32 \<Rightarrow> u32 \<Rightarrow> u32 \<Rightarrow> u32 \<Rightarrow> 's gstate_scheme \<Rightarrow> 's gstate_scheme option" where
  "graphics_redraw_region g local_x local_y width height s =
     (if g = 0 then Some s
      else if local_x \<ge> gi_width (graphics_at s g) \<or> local_y \<ge> gi_height (graphics_at s g) then Some s
      else do {
        let (w, h) = clip_region (graphics_at s g) local_x local_y width height;
        let dst_abs_x = starting_x (graphics_at s g) + local_x;
        let dst_abs_y = starting_y (graphics_at s g) + local_y;
        s1 \<leftarrow> graphics_paste_pixels_to_framebuffer s g local_x local_y w h dst_abs_x dst_abs_y;
        children \<leftarrow> graphics_children s1 g;
        for_each (\<lambda>child s.
          if child = 0 then Some s
          else case child_region (graphics_at s child) dst_abs_x dst_abs_y (dst_abs_x + w) (dst_abs_y + h) of
            None \<Rightarrow> Some s
          | Some (child_local_x, child_local_y, intersect_width, intersect_height) \<Rightarrow>
              graphics_redraw_region child child_local_x child_local_y intersect_width intersect_height s) children s1
      })"

definition graphics_redraw_graphics_to_screen :: "'s gstate_scheme \<Rightarrow> u64 \<Rightarrow> u32 \<Rightarrow> u32 \<Rightarrow> u32 \<Rightarrow> u32 \<Rightarrow> 's gstate_scheme option" where
  "graphics_redraw_graphics_to_screen s relative_graphics rel_x rel_y width height =
     graphics_redraw_region (graphics_screen_info s) (starting_x (graphics_at s relative_graphics) + rel_x)
       (starting_y (graphics_at s relative_graphics) + rel_y) width height s"

subsection \<open>Positions in the tree\<close>

partial_function (option) graphics_info_recalculate :: "u64 \<Rightarrow> 's gstate_scheme \<Rightarrow> 's gstate_scheme option" where
  "graphics_info_recalculate g s = do {
     let gi = graphics_at s g;
     let p = graphics_at s (gi_parent gi);
     let s1 = (if gi_parent gi \<noteq> 0 then update_graphics s g (\<lambda>gi. gi\<lparr>starting_x := gi_relative_x gi + starting_x p,
                 starting_y := gi_relative_y gi + starting_y p\<rparr>) else s);
     if gi_children (graphics_at s1 g) = None then Some s1
     else do {
       children \<leftarrow> graphics_children s1 g;
       for_each (\<lambda>child s. graphics_info_recalculate child s) children s1
     }
   }"

text \<open>The two walks up the parents.\<close>

partial_function (option) ignored_branch_loop :: "'s gstate_scheme \<Rightarrow> u64 \<Rightarrow> u64 \<Rightarrow> bool option" where
  "ignored_branch_loop s cur ignored_graphics =
     (if cur = 0 then Some False else if cur = ignored_graphics then Some True
      else ignored_branch_loop s (gi_parent (graphics_at s cur)) ignored_graphics)"

definition graphics_is_in_ignored_branch :: "'s gstate_scheme \<Rightarrow> u64 \<Rightarrow> u64 \<Rightarrow> bool option" where
  "graphics_is_in_ignored_branch s elem ignored_graphics = (if ignored_graphics = 0 then Some False else ignored_branch_loop s elem ignored_graphics)"

definition graphics_has_ancestor :: "'s gstate_scheme \<Rightarrow> u64 \<Rightarrow> u64 \<Rightarrow> bool option" where
  "graphics_has_ancestor s graphics_child graphics_ancestor =
     ignored_branch_loop s (gi_parent (graphics_at s graphics_child)) graphics_ancestor"

definition contains_point :: "graphics_info \<Rightarrow> u64 \<Rightarrow> u64 \<Rightarrow> bool" where
  "contains_point gi x y =
     (x \<ge> ucast (starting_x gi) \<and> x < ucast (starting_x gi + gi_width gi) \<and>
      y \<ge> ucast (starting_y gi) \<and> y < ucast (starting_y gi + gi_height gi))"

partial_function (option) graphics_get_child_at_position ::
  "'s gstate_scheme \<Rightarrow> u64 \<Rightarrow> u64 \<Rightarrow> u64 \<Rightarrow> u64 \<Rightarrow> bool \<Rightarrow> u64 option" where
  "graphics_get_child_at_position s graphics x y ignored_graphics top_first = do {
     in_ignored \<leftarrow> graphics_is_in_ignored_branch s graphics ignored_graphics;
     if in_ignored then Some 0
     else do {
       children \<leftarrow> graphics_children s graphics;
       found \<leftarrow> first_result (\<lambda>child.
         if child = 0 then Some 0
         else do {
           child_ignored \<leftarrow> graphics_is_in_ignored_branch s child ignored_graphics;
           if child_ignored then Some 0
           else if contains_point (graphics_at s child) x y
             then do {
               r \<leftarrow> graphics_get_child_at_position s child x y ignored_graphics top_first;
               Some (if r \<noteq> 0 then r else child)
             }
             else Some 0
         }) (if top_first then rev children else children);
       if found \<noteq> 0 then Some found
       else Some (if contains_point (graphics_at s graphics) x y then graphics else 0)
     }
   }"

definition graphics_get_at_screen_position :: "'s gstate_scheme \<Rightarrow> u64 \<Rightarrow> u64 \<Rightarrow> u64 \<Rightarrow> bool \<Rightarrow> u64 option" where
  "graphics_get_at_screen_position s x y ignored_graphics top_first =
     graphics_get_child_at_position s (graphics_screen_info s) x y ignored_graphics top_first"

subsection \<open>Making and freeing rectangles\<close>

definition graphics_reorder :: "'s gstate_scheme \<Rightarrow> u64 \<Rightarrow> u64 \<Rightarrow> int" where
  "graphics_reorder s first_graphics second_graphics =
     (if z_index (graphics_at s first_graphics) > z_index (graphics_at s second_graphics) then 1 else 0)"

definition graphics_set_z_index :: "'s gstate_scheme \<Rightarrow> u64 \<Rightarrow> u32 \<Rightarrow> 's gstate_scheme option" where
  "graphics_set_z_index s g new_z_index =
     (let s1 = update_graphics s g (\<lambda>gi. gi\<lparr>z_index := new_z_index\<rparr>); p = gi_parent (graphics_at s1 g)
      in if p = 0 then Some s1
         else case gi_children (graphics_at s1 p) of
           None \<Rightarrow> Some s1
         | Some v \<Rightarrow> do {
             (s2, v') \<leftarrow> tvec_reorder s1 v (graphics_reorder s1);
             Some (update_graphics s2 p (\<lambda>gi. gi\<lparr>gi_children := Some v'\<rparr>))
           })"

text \<open>
  The bounds are those of the whole screen, not of the parent. The number of pixels is multiplied in 32 bits. A push that
  fails is not noticed. The address is null when the rectangle was not made; \<open>None\<close> is also the panic for a null source.
\<close>

definition graphics_info_create_relative ::
  "'s gstate_scheme \<Rightarrow> u64 \<Rightarrow> u64 \<Rightarrow> u64 \<Rightarrow> u64 \<Rightarrow> u64 \<Rightarrow> u32 \<Rightarrow> ('s gstate_scheme \<times> u64) option" where
  "graphics_info_create_relative s source_graphics x y width height fl =
     (if source_graphics = 0 then None
      else do {
        (s1, g) \<leftarrow> kzalloc s 104;
        if g = 0 then Some (s1, 0)
        else do {
          let src = graphics_at s1 source_graphics;
          let parent_x = (ucast (starting_x src) :: u64);
          let parent_y = (ucast (starting_y src) :: u64);
          let sx = parent_x + x;
          let sy = parent_y + y;
          if fl AND GRAPHICS_FLAG_ALLOW_OUT_OF_BOUNDS = 0 \<and>
             (sx + width > parent_x + ucast (horizontal_resolution src) \<or> sy + height > parent_y + ucast (vertical_resolution src))
          then Some (kfree s1 g, 0)
          else do {
            let s2 = update_graphics s1 g (\<lambda>_. null_graphics\<lparr>horizontal_resolution := horizontal_resolution src,
                  vertical_resolution := vertical_resolution src, pixels_per_scanline := pixels_per_scanline src,
                  gi_width := ucast width, gi_height := ucast height, starting_x := ucast sx, starting_y := ucast sy,
                  gi_relative_x := ucast x, gi_relative_y := ucast y, framebuffer := framebuffer src, gi_parent := source_graphics\<rparr>);
            (s3, v) \<leftarrow> tvec_new s2 8 4;
            let s3 = update_graphics s3 g (\<lambda>gi. gi\<lparr>gi_children := v\<rparr>);
            let total = (ucast width :: u32) * ucast height;
            (s4, px) \<leftarrow> kzalloc s3 (ucast total * 4);
            if px = 0 then Some (kfree (update_graphics s4 g (\<lambda>gi. gi\<lparr>gi_children := None\<rparr>)) g, 0)
            else do {
              let s5 = (update_graphics s4 g (\<lambda>gi. gi\<lparr>gi_pixels := px\<rparr>))
                \<lparr>pixel_arrays := (pixel_arrays s4)(px := replicate (unat total) black)\<rparr>;
              s6 \<leftarrow> (if fl AND GRAPHICS_FLAG_DO_NOT_COPY_PIXELS = 0
                then graphics_paste_pixels_to_pixels s5 source_graphics g (ucast x) (ucast y) (ucast width) (ucast height) 0 0
                       GRAPHICS_FLAG_DO_NOT_OVERWRITE_TRANSPARENT_PIXELS
                else Some s5);
              let s7 = update_graphics s6 g (\<lambda>gi. gi\<lparr>gi_flags := gi_flags gi AND NOT GRAPHICS_FLAG_CLONED_FRAMEBUFFER\<rparr>);
              pv \<leftarrow> gi_children (graphics_at s7 source_graphics);
              (s8, pv', _) \<leftarrow> tvec_push s7 pv g;
              let s9 = update_graphics s8 source_graphics (\<lambda>gi. gi\<lparr>gi_children := Some pv'\<rparr>);
              s10 \<leftarrow> graphics_set_z_index s9 g (ucast (t_elems (tv_header pv')));
              Some (s10, g)
            }
          }
        }
      })"

text \<open>
  Each child takes itself out of the vector that the loop walks, so the loop of \<open>graphics_info_children_free\<close> skips the one
  behind it.
\<close>

partial_function (option) graphics_info_free :: "u64 \<Rightarrow> 's gstate_scheme \<Rightarrow> 's gstate_scheme option" where
  "graphics_info_free g s =
     (if g = 0 then Some s
      else do {
        s1 \<leftarrow> (case gi_children (graphics_at s g) of
            None \<Rightarrow> Some s
          | Some v \<Rightarrow> for_each (\<lambda>i s. do {
              v \<leftarrow> gi_children (graphics_at s g);
              r \<leftarrow> tvec_at v (of_nat i);
              case r of Inl _ \<Rightarrow> Some s | Inr child \<Rightarrow> graphics_info_free child s
            }) [0..<unat (t_elems (tv_header v))] s);
        let s2 = update_graphics s1 g (\<lambda>gi. gi\<lparr>gi_pixels := 0\<rparr>);
        let s3 = (if framebuffer (graphics_at s2 g) \<noteq> 0 \<and> gi_flags (graphics_at s2 g) AND GRAPHICS_FLAG_CLONED_FRAMEBUFFER \<noteq> 0
          then update_graphics s2 g (\<lambda>gi. gi\<lparr>framebuffer := 0\<rparr>) else s2);
        let p = gi_parent (graphics_at s3 g);
        s4 \<leftarrow> (if p = 0 then Some s3
          else do {
            pv \<leftarrow> gi_children (graphics_at s3 p);
            (s', pv', _) \<leftarrow> tvec_pop_element s3 pv g;
            Some (update_graphics s' p (\<lambda>gi. gi\<lparr>gi_children := Some pv'\<rparr>))
          });
        Some (if g = loaded_graphics_info s4 then s4 else kfree s4 g)
      })"

text \<open>
  The size of the framebuffer is computed from its width. The rectangle's own pixels are as many as that. The new
  memory is mapped to the framebuffer of the machine.
\<close>

definition graphics_setup ::
  "'s gstate_ext istate_scheme image_functions \<Rightarrow> u64 \<Rightarrow> paging_desc \<Rightarrow> 's gstate_scheme \<Rightarrow> u64 \<Rightarrow> 's gstate_scheme option" where
  "graphics_setup fns bmp_img_format kernel_desc s main =
     (if loaded_graphics_info s \<noteq> 0 then None
      else do {
        let gi = graphics_at s main;
        let framebuffer_size = (ucast (horizontal_resolution gi) * ucast (pixels_per_scanline gi) * 4 :: u64);
        let s1 = s\<lparr>real_framebuffer := framebuffer gi\<rparr>;
        (s2, new_framebuffer_memory) \<leftarrow> kzalloc s1 framebuffer_size;
        (s3, v) \<leftarrow> tvec_new s2 8 4;
        (s4, px) \<leftarrow> kzalloc s3 framebuffer_size;
        let s5 = (update_graphics s4 main (\<lambda>gi. gi\<lparr>framebuffer := new_framebuffer_memory, gi_children := v, gi_pixels := px,
              gi_width := horizontal_resolution gi, gi_height := vertical_resolution gi, gi_relative_x := 0, gi_relative_y := 0,
              starting_x := 0, starting_y := 0\<rparr>))
            \<lparr>pixel_arrays := (if px = 0 then pixel_arrays s4 else (pixel_arrays s4)(px := replicate (unat framebuffer_size div 4) black))\<rparr>;
        (s6, _) \<leftarrow> paging_map_to kzalloc s5 kernel_desc new_framebuffer_memory (framebuffer gi) (framebuffer gi + framebuffer_size)
           (PAGING_IS_WRITEABLE OR PAGING_IS_PRESENT);
        let s7 = s6\<lparr>loaded_graphics_info := main\<rparr>;
        s8 \<leftarrow> for_each (\<lambda>y. for_each (\<lambda>x s. graphics_draw_pixel s main (of_nat x) (of_nat y) black)
           [0..<unat (horizontal_resolution gi)]) [0..<unat (vertical_resolution gi)] s7;
        (s9, iv) \<leftarrow> tvec_new s8 8 4;
        iv \<leftarrow> iv;
        (s10, iv', _) \<leftarrow> tvec_push s9 iv main;
        (s11, _) \<leftarrow> graphics_image_formats_init fns bmp_img_format (s10\<lparr>graphics_info_vector := Some iv'\<rparr>);
        graphics_redraw_all s11
      })"

subsection \<open>The mouse on a rectangle\<close>

definition graphics_click_handler_set :: "'s gstate_scheme \<Rightarrow> u64 \<Rightarrow> u64 \<Rightarrow> 's gstate_scheme" where
  "graphics_click_handler_set s g click_function = update_graphics s g (\<lambda>gi. gi\<lparr>mouse_click := click_function\<rparr>)"

definition graphics_move_handler_set :: "'s gstate_scheme \<Rightarrow> u64 \<Rightarrow> u64 \<Rightarrow> 's gstate_scheme" where
  "graphics_move_handler_set s g move_function = update_graphics s g (\<lambda>gi. gi\<lparr>mouse_move := move_function\<rparr>)"

text \<open>What a handler does is an argument, by its address.\<close>

record 's graphics_calls =
  gc_click :: "u64 \<Rightarrow> 's \<Rightarrow> u64 \<Rightarrow> u64 \<Rightarrow> u64 \<Rightarrow> int \<Rightarrow> 's option"
  gc_move :: "u64 \<Rightarrow> 's \<Rightarrow> u64 \<Rightarrow> u64 \<Rightarrow> u64 \<Rightarrow> u64 \<Rightarrow> u64 \<Rightarrow> 's option"

text \<open>A rectangle without a handler passes the event up, with the position in its parent.\<close>

partial_function (option) graphics_mouse_click ::
  "'s gstate_scheme graphics_calls \<Rightarrow> 's gstate_scheme \<Rightarrow> u64 \<Rightarrow> u64 \<Rightarrow> u64 \<Rightarrow> int \<Rightarrow> 's gstate_scheme option" where
  "graphics_mouse_click calls s g rel_x rel_y type =
     (if mouse_click (graphics_at s g) \<noteq> 0 then gc_click calls (mouse_click (graphics_at s g)) s g rel_x rel_y type
      else if gi_parent (graphics_at s g) \<noteq> 0
        then graphics_mouse_click calls s (gi_parent (graphics_at s g)) (ucast (gi_relative_x (graphics_at s g)) + rel_x)
               (ucast (gi_relative_y (graphics_at s g)) + rel_y) type
      else Some s)"

definition graphics_mouse_click_handler ::
  "'s gstate_scheme graphics_calls \<Rightarrow> 's gstate_scheme \<Rightarrow> u64 \<Rightarrow> int \<Rightarrow> int \<Rightarrow> int \<Rightarrow> 's gstate_scheme option" where
  "graphics_mouse_click_handler calls s mouse_graphics clicked_x clicked_y type = do {
     g \<leftarrow> graphics_get_at_screen_position s (size_of_int clicked_x) (size_of_int clicked_y) mouse_graphics True;
     if g = 0 then Some s
     else let gi = graphics_at s g in
       if clicked_x < sint (starting_x gi) \<or> clicked_y < sint (starting_y gi) then Some s
       else let rel_x = word_of_int clicked_x - starting_x gi; rel_y = word_of_int clicked_y - starting_y gi
         in if graphics_bounds_check gi (sint rel_x) (sint rel_y)
            then graphics_mouse_click calls s g (ucast rel_x) (ucast rel_y) type else Some s
   }"

partial_function (option) graphics_mouse_move ::
  "'s gstate_scheme graphics_calls \<Rightarrow> 's gstate_scheme \<Rightarrow> u64 \<Rightarrow> u64 \<Rightarrow> u64 \<Rightarrow> u64 \<Rightarrow> u64 \<Rightarrow> 's gstate_scheme option" where
  "graphics_mouse_move calls s g moved_rel_x moved_rel_y moved_abs_x moved_abs_y =
     (if mouse_move (graphics_at s g) \<noteq> 0
      then gc_move calls (mouse_move (graphics_at s g)) s g moved_rel_x moved_rel_y moved_abs_x moved_abs_y
      else if gi_parent (graphics_at s g) \<noteq> 0
        then graphics_mouse_move calls s (gi_parent (graphics_at s g)) (ucast (gi_relative_x (graphics_at s g)) + moved_rel_x)
               (ucast (gi_relative_y (graphics_at s g)) + moved_rel_y) moved_abs_x moved_abs_y
      else Some s)"

definition graphics_mouse_move_handler ::
  "'s gstate_scheme graphics_calls \<Rightarrow> 's gstate_scheme \<Rightarrow> u64 \<Rightarrow> int \<Rightarrow> int \<Rightarrow> 's gstate_scheme option" where
  "graphics_mouse_move_handler calls s mouse_graphics moved_x moved_y = do {
     g \<leftarrow> graphics_get_at_screen_position s (size_of_int moved_x) (size_of_int moved_y) mouse_graphics True;
     if g = 0 then Some s
     else let gi = graphics_at s g; rel_x = word_of_int moved_x - starting_x gi; rel_y = word_of_int moved_y - starting_y gi
       in if graphics_bounds_check gi (sint rel_x) (sint rel_y)
          then graphics_mouse_move calls s g (ucast rel_x) (ucast rel_y) (size_of_int moved_x) (size_of_int moved_y) else Some s
   }"

end
