(* ===== verification/Painting.thy ===== *)
theory Painting
  imports Graphics
begin

section \<open>What is drawn and what is clicked\<close>

text \<open>
  The meaning of the tree of rectangles as a picture, and that the drawing functions of \<open>graphics.c\<close> put that picture on the
  screen: copies to the screen, redrawing a rectangle and a region of it, and the search for the rectangle under the mouse.
\<close>

subsection \<open>What a copy to the screen does\<close>

text \<open>The pixel at \<open>(x, y)\<close> of a framebuffer, and a screen whose pixels have different indices below \<open>2 ^ 32\<close>.\<close>

definition screen_index :: "'s gstate_scheme \<Rightarrow> nat \<Rightarrow> nat \<Rightarrow> nat" where
  "screen_index s x y = y * unat (pixels_per_scanline (graphics_at s (loaded_graphics_info s))) + x"

definition screen_size :: "'s gstate_scheme \<Rightarrow> nat \<times> nat" where
  "screen_size s = (unat (horizontal_resolution (graphics_at s (loaded_graphics_info s))),
     unat (vertical_resolution (graphics_at s (loaded_graphics_info s))))"

definition screen_ok :: "'s gstate_scheme \<Rightarrow> bool" where
  "screen_ok s \<longleftrightarrow> fst (screen_size s) \<le> unat (pixels_per_scanline (graphics_at s (loaded_graphics_info s))) \<and>
     snd (screen_size s) * unat (pixels_per_scanline (graphics_at s (loaded_graphics_info s))) < 2 ^ 32"

text \<open>The pixel at \<open>(x, y)\<close> of a rectangle, \<open>None\<close> where it is transparent, and a rectangle whose pixels are there.\<close>

definition layer_pixel :: "'s gstate_scheme \<Rightarrow> u64 \<Rightarrow> nat \<Rightarrow> nat \<Rightarrow> framebuffer_pixel option" where
  "layer_pixel s g x y =
     (let gi = graphics_at s g; p = pixel_arrays s (gi_pixels gi) ! (y * unat (gi_width gi) + x)
      in if transparency_key gi \<noteq> black \<and> p = transparency_key gi then None else Some p)"

definition drawable :: "'s gstate_scheme \<Rightarrow> u64 \<Rightarrow> bool" where
  "drawable s g \<longleftrightarrow> (let gi = graphics_at s g in
     unat (gi_width gi) * unat (gi_height gi) \<le> length (pixel_arrays s (gi_pixels gi)) \<and>
     unat (gi_width gi) * unat (gi_height gi) < 2 ^ 32 \<and>
     unat (starting_x gi) + unat (gi_width gi) < 2 ^ 32 \<and> unat (starting_y gi) + unat (gi_height gi) < 2 ^ 32)"

lemma screen_update [simp]:
  "screen_index (s\<lparr>screen := c\<rparr>) = screen_index s" "screen_size (s\<lparr>screen := c\<rparr>) = screen_size s"
  "screen_ok (s\<lparr>screen := c\<rparr>) = screen_ok s" "layer_pixel (s\<lparr>screen := c\<rparr>) = layer_pixel s" "drawable (s\<lparr>screen := c\<rparr>) = drawable s"
  "graphics_children (s\<lparr>screen := c\<rparr>) = graphics_children s" "graphics_screen_info (s\<lparr>screen := c\<rparr>) = graphics_screen_info s"
  by (simp_all add: fun_eq_iff screen_index_def screen_size_def screen_ok_def layer_pixel_def drawable_def graphics_children_def
      graphics_screen_info_def)

lemma for_each_screen:
  assumes "\<And>x c. x \<in> set xs \<Longrightarrow> f x (s\<lparr>screen := c\<rparr>) = Some (s\<lparr>screen := G x c\<rparr>)"
  shows "for_each f xs (s\<lparr>screen := c\<rparr>) = Some (s\<lparr>screen := fold G xs c\<rparr>)"
  using assms by (induction xs arbitrary: c) simp_all

lemma fold_product: "fold (\<lambda>y. fold (F y) xs) ys c = fold (\<lambda>(y, x). F y x) (List.product ys xs) c"
  by (induction ys arbitrary: c) (simp_all add: fold_map comp_def)

text \<open>Writes at different places: each place has the value of its write, unless that one was left out.\<close>

lemma fold_writes:
  assumes "inj_on i (set xs)" "distinct xs"
  shows "fold (\<lambda>x c. case v x of None \<Rightarrow> c | Some p \<Rightarrow> c(i x := p)) xs c j =
    (if \<exists>x\<in>set xs. i x = j then (case v (THE x. x \<in> set xs \<and> i x = j) of None \<Rightarrow> c j | Some p \<Rightarrow> p) else c j)"
  using assms
proof (induction xs arbitrary: c)
  case (Cons a xs)
  let ?c = "case v a of None \<Rightarrow> c | Some p \<Rightarrow> c(i a := p)"
  have IH: "fold (\<lambda>x c. case v x of None \<Rightarrow> c | Some p \<Rightarrow> c(i x := p)) xs ?c j =
    (if \<exists>x\<in>set xs. i x = j then (case v (THE x. x \<in> set xs \<and> i x = j) of None \<Rightarrow> ?c j | Some p \<Rightarrow> p) else ?c j)"
    using Cons by (auto simp: inj_on_insert)
  show ?case
  proof (cases "i a = j")
    case True
    then have n: "\<not> (\<exists>x\<in>set xs. i x = j)" using Cons.prems by (auto simp: inj_on_def)
    then have "(THE x. x \<in> set (a # xs) \<and> i x = j) = a" using True by (intro the_equality) auto
    then show ?thesis using True n IH by (auto split: option.splits)
  next
    case False
    then have e: "(x \<in> set (a # xs) \<and> i x = j) = (x \<in> set xs \<and> i x = j)" for x by auto
    have "?c j = c j" using False by (auto split: option.splits)
    then show ?thesis using IH False by (simp only: fold_simps e) auto
  qed
qed simp

lemma row_index_inj: "(y :: nat) * w + x = y' * w + x' \<Longrightarrow> x < w \<Longrightarrow> x' < w \<Longrightarrow> y = y' \<and> x = x'"
  by (metis add.commute div_mult_self3 div_less less_nat_zero_code mod_less mod_mult_self1 mod_mult_self3 mult.commute nat_arith.rule0 add_cancel_left_left neq0_conv)

lemma unat_add_small: "unat a + unat b < 2 ^ 32 \<Longrightarrow> unat (a + b :: u32) = unat a + unat b"
  by (simp add: unat_word_ariths)

lemma unat_of_nat_u32 [simp]: "n < 2 ^ 32 \<Longrightarrow> unat (of_nat n :: u32) = n"
  by (simp add: unat_of_nat take_bit_nat_eq_self)

lemma unat_index:
  fixes a b w :: u32
  assumes "unat a * unat w + unat b < 2 ^ 32"
  shows "unat (a * w + b) = unat a * unat w + unat b"
  using assms by (simp add: unat_word_ariths)

lemma unat_min: "unat (min a b) = min (unat a) (unat b)" for a b :: "'a :: len word"
  by (simp add: min_def word_le_nat_alt)

lemma unat_max: "unat (max a b) = max (unat a) (unat b)" for a b :: "'a :: len word"
  by (simp add: max_def word_le_nat_alt)

definition over :: "framebuffer_pixel option \<Rightarrow> framebuffer_pixel \<Rightarrow> framebuffer_pixel" where
  "over p c = (case p of None \<Rightarrow> c | Some p \<Rightarrow> p)"

lemma row_col_less: "(y :: nat) * w + x < h * w" if "x < w" "y < h"
proof -
  have "y * w + x < Suc y * w" using that by simp
  also have "\<dots> \<le> h * w" using that by (intro mult_right_mono) auto
  finally show ?thesis .
qed

lemma paste_pixel_screen:
  assumes ok: "screen_ok s" "drawable s g"
    and src: "sx < unat (gi_width (graphics_at s g))" "sy < unat (gi_height (graphics_at s g))"
    and dst: "dx < fst (screen_size s)" "dy < snd (screen_size s)"
  shows "paste_pixel (s\<lparr>screen := c\<rparr>) g (of_nat sx) (of_nat sy) (of_nat dx) (of_nat dy) =
    Some (s\<lparr>screen := (case layer_pixel s g sx sy of None \<Rightarrow> c | Some p \<Rightarrow> c(screen_index s dx dy := p))\<rparr>)"
proof -
  let ?gi = "graphics_at s g" and ?pps = "pixels_per_scanline (graphics_at s (loaded_graphics_info s))"
  have "sy * unat (gi_width ?gi) + sx < unat (gi_height ?gi) * unat (gi_width ?gi)" using src by (rule row_col_less)
  then have i: "sy * unat (gi_width ?gi) + sx < length (pixel_arrays s (gi_pixels ?gi))" "sy * unat (gi_width ?gi) + sx < 2 ^ 32"
    using ok(2) by (auto simp: drawable_def Let_def mult.commute)
  have "sx < 2 ^ 32" "sy < 2 ^ 32" using src unsigned_less [of "gi_width ?gi", where 'a = nat] unsigned_less [of "gi_height ?gi", where 'a = nat] by auto
  then have read: "unat (of_nat sy * gi_width ?gi + of_nat sx :: u32) = sy * unat (gi_width ?gi) + sx"
    using i(2) unat_index [of "of_nat sy" "gi_width ?gi" "of_nat sx"] by simp
  have dpps: "dx < unat ?pps" using dst(1) ok(1) by (simp add: screen_ok_def)
  have "dy * unat ?pps + dx < snd (screen_size s) * unat ?pps" using dpps dst(2) by (rule row_col_less)
  then have j: "dy * unat ?pps + dx < 2 ^ 32" using ok(1) by (simp add: screen_ok_def)
  have "dx < 2 ^ 32" "dy < 2 ^ 32" using dst unsigned_less [of "horizontal_resolution (graphics_at s (loaded_graphics_info s))", where 'a = nat]
      unsigned_less [of "vertical_resolution (graphics_at s (loaded_graphics_info s))", where 'a = nat] by (auto simp: screen_size_def)
  then have at: "unat (of_nat dy * ?pps + of_nat dx :: u32) = screen_index s dx dy"
    using j unat_index [of "of_nat dy" ?pps "of_nat dx"] by (simp add: screen_index_def)
  show ?thesis
    using i(1) by (simp add: paste_pixel_def Let_def pixel_read_def read at layer_pixel_def graphics_screen_info_def)
qed

lemma screen_index_inj: "screen_ok s \<Longrightarrow> x < fst (screen_size s) \<Longrightarrow> x' < fst (screen_size s) \<Longrightarrow>
    screen_index s x y = screen_index s x' y' \<Longrightarrow> x = x' \<and> y = y'"
  using row_index_inj [of y _ x y' x'] unfolding screen_index_def screen_ok_def by fastforce

text \<open>The copy of a rectangle of pixels: inside its destination it lays the source over the screen, elsewhere it leaves it.\<close>

lemma paste_to_framebuffer:
  assumes ok: "screen_ok s" "drawable s g" "g \<noteq> 0"
    and src: "unat sx + unat w \<le> unat (gi_width (graphics_at s g))" "unat sy + unat h \<le> unat (gi_height (graphics_at s g))"
    and dst: "unat dx + unat w < 2 ^ 32" "unat dy + unat h < 2 ^ 32"
  shows "\<exists>c. graphics_paste_pixels_to_framebuffer s g sx sy w h dx dy = Some (s\<lparr>screen := c\<rparr>) \<and>
    (\<forall>X Y. X < fst (screen_size s) \<and> Y < snd (screen_size s) \<longrightarrow> c (screen_index s X Y) =
      (if unat dx \<le> X \<and> X < unat dx + unat w \<and> unat dy \<le> Y \<and> Y < unat dy + unat h
       then over (layer_pixel s g (unat sx + (X - unat dx)) (unat sy + (Y - unat dy))) (screen s (screen_index s X Y))
       else screen s (screen_index s X Y)))"
proof -
  let ?gi = "graphics_at s g" and ?scr = "graphics_at s (graphics_screen_info s)"
  have u32: "unat (sx + w) = unat sx + unat w" "unat (sy + h) = unat sy + unat h" 
    using src unsigned_less [of "gi_width ?gi", where 'a = nat] unsigned_less [of "gi_height ?gi", where 'a = nat]
    by (auto intro!: unat_add_small)
  have ends: "min (sx + w) (gi_width ?gi) - sx = w" "min (sy + h) (gi_height ?gi) - sy = h"
    using src u32 by (auto simp: min_def word_le_nat_alt)
  define cw where "cw = min (dx + w) (horizontal_resolution ?scr) - dx"
  define ch where "ch = min (dy + h) (vertical_resolution ?scr) - dy"
  have res: "unat (horizontal_resolution ?scr) = fst (screen_size s)" "unat (vertical_resolution ?scr) = snd (screen_size s)"
    by (simp_all add: screen_size_def graphics_screen_info_def)
  show ?thesis
  proof (cases "w = 0 \<or> h = 0 \<or> dx \<ge> horizontal_resolution ?scr \<or> dy \<ge> vertical_resolution ?scr")
    case True
    then have "graphics_paste_pixels_to_framebuffer s g sx sy w h dx dy = Some (s\<lparr>screen := screen s\<rparr>)"
      by (auto simp: graphics_paste_pixels_to_framebuffer_def Let_def ends)
    moreover have "\<not> (unat dx \<le> X \<and> X < unat dx + unat w \<and> unat dy \<le> Y \<and> Y < unat dy + unat h)"
      if "X < fst (screen_size s)" "Y < snd (screen_size s)" for X Y
      using True that by (auto simp: word_le_nat_alt res)
    ultimately show ?thesis by (intro exI [of _ "screen s"]) auto
  next
    case False
    then have in_scr: "unat dx < fst (screen_size s)" "unat dy < snd (screen_size s)" by (auto simp: word_le_nat_alt res)
    have "dx \<le> min (dx + w) (horizontal_resolution ?scr)" "dy \<le> min (dy + h) (vertical_resolution ?scr)"
      using in_scr dst by (auto simp: word_le_nat_alt unat_min unat_add_small res)
    then have uc: "unat cw = min (unat dx + unat w) (fst (screen_size s)) - unat dx" "unat ch = min (unat dy + unat h) (snd (screen_size s)) - unat dy"
      using dst by (simp_all add: cw_def ch_def unat_sub unat_min unat_add_small res)
    have ule: "unat dx + unat cw \<le> fst (screen_size s)" "unat dy + unat ch \<le> snd (screen_size s)" "unat cw \<le> unat w" "unat ch \<le> unat h"
      using uc in_scr by linarith+
    have w: "0 < unat w" "0 < unat h" using False by (auto simp: unat_gt_0)
    then have nz: "cw \<noteq> 0" "ch \<noteq> 0" using uc in_scr by (auto simp: unat_eq_0 [symmetric])
    define V where "V = (\<lambda>(ly, lx). layer_pixel s g (unat sx + lx) (unat sy + ly))"
    define I where "I = (\<lambda>(ly, lx). screen_index s (unat dx + lx) (unat dy + ly))"
    let ?F = "\<lambda>p c. case V p of None \<Rightarrow> c | Some q \<Rightarrow> c(I p := q)"
    let ?ps = "List.product [0..<unat ch] [0..<unat cw]"
    have step: "paste_pixel (s\<lparr>screen := c\<rparr>) g (sx + of_nat lx) (sy + of_nat ly) (dx + of_nat lx) (dy + of_nat ly)
        = Some (s\<lparr>screen := ?F (ly, lx) c\<rparr>)" if "lx < unat cw" "ly < unat ch" for lx ly c
    proof -
      have "unat sx + lx < unat (gi_width ?gi)" "unat sy + ly < unat (gi_height ?gi)"
        "unat dx + lx < fst (screen_size s)" "unat dy + ly < snd (screen_size s)"
        using that ule src by linarith+
      note paste_pixel_screen [OF ok(1,2) this, of c]
      then show ?thesis by (simp add: V_def I_def cong: option.case_cong)
    qed
    have "graphics_paste_pixels_to_framebuffer s g sx sy w h dx dy =
        for_each (\<lambda>ly. for_each (\<lambda>lx s. paste_pixel s g (sx + of_nat lx) (sy + of_nat ly) (dx + of_nat lx) (dy + of_nat ly))
           [0..<unat cw]) [0..<unat ch] (s\<lparr>screen := screen s\<rparr>)"
    proof -
      have f: "w \<noteq> 0" "h \<noteq> 0" "\<not> horizontal_resolution ?scr \<le> dx" "\<not> vertical_resolution ?scr \<le> dy" using False by auto
      have e: "(s\<lparr>screen := screen s\<rparr>) = s" by simp
      show ?thesis unfolding graphics_paste_pixels_to_framebuffer_def Let_def ends cw_def [symmetric] ch_def [symmetric] e
        by (simp only: f nz ok(3) if_False simp_thms)
    qed
    also have "\<dots> = Some (s\<lparr>screen := fold (\<lambda>ly. fold (\<lambda>lx. ?F (ly, lx)) [0..<unat cw]) [0..<unat ch] (screen s)\<rparr>)"
      by (intro for_each_screen) (simp add: step)
    finally have loops: "graphics_paste_pixels_to_framebuffer s g sx sy w h dx dy =
        Some (s\<lparr>screen := fold (\<lambda>ly. fold (\<lambda>lx. ?F (ly, lx)) [0..<unat cw]) [0..<unat ch] (screen s)\<rparr>)" .
    have r: "graphics_paste_pixels_to_framebuffer s g sx sy w h dx dy = Some (s\<lparr>screen := fold ?F ?ps (screen s)\<rparr>)"
    proof -
      have e: "(\<lambda>(ly, lx). ?F (ly, lx)) = ?F" by (rule ext, rule ext) (simp split: prod.split)
      show ?thesis using loops unfolding fold_product e .
    qed
    have inj: "inj_on I (set ?ps)"
    proof (rule inj_onI, clarify)
      fix ly lx ly' lx'
      assume "(ly, lx) \<in> set ?ps" "(ly', lx') \<in> set ?ps" and e: "I (ly, lx) = I (ly', lx')"
      then have "unat dx + lx < fst (screen_size s)" "unat dx + lx' < fst (screen_size s)" using ule(1) by auto
      from screen_index_inj [OF ok(1) this] e show "ly = ly' \<and> lx = lx'" unfolding I_def prod.case by (metis add_left_cancel)
    qed
    have at: "fold ?F ?ps (screen s) (screen_index s X Y) = (if unat dx \<le> X \<and> X < unat dx + unat w \<and> unat dy \<le> Y \<and> Y < unat dy + unat h
       then over (layer_pixel s g (unat sx + (X - unat dx)) (unat sy + (Y - unat dy))) (screen s (screen_index s X Y))
       else screen s (screen_index s X Y))" if XY: "X < fst (screen_size s)" "Y < snd (screen_size s)" for X Y
    proof -
      have hit: "I p = screen_index s X Y \<longleftrightarrow> p = (Y - unat dy, X - unat dx) \<and> unat dx \<le> X \<and> unat dy \<le> Y" if "p \<in> set ?ps" for p
      proof -
        obtain ly lx where p: "p = (ly, lx)" "lx < unat cw" "ly < unat ch" using \<open>p \<in> set ?ps\<close> by auto
        have "unat dx + lx < fst (screen_size s)" using p ule(1) by linarith
        then show ?thesis using screen_index_inj [OF ok(1) _ XY(1), of "unat dx + lx" "unat dy + ly" Y] by (auto simp: I_def p)
      qed
      have "(\<exists>p\<in>set ?ps. I p = screen_index s X Y) \<longleftrightarrow> unat dx \<le> X \<and> X < unat dx + unat w \<and> unat dy \<le> Y \<and> Y < unat dy + unat h"
        (is "?E \<longleftrightarrow> ?R")
      proof
        assume ?E
        then obtain p where p: "p \<in> set ?ps" "I p = screen_index s X Y" by blast
        then have q: "p = (Y - unat dy, X - unat dx)" "unat dx \<le> X" "unat dy \<le> Y" using hit [OF p(1)] by simp_all
        have "Y - unat dy < unat ch" "X - unat dx < unat cw" using p(1) unfolding q(1) by simp_all
        then show ?R using q(2,3) ule(3,4) by linarith
      next
        assume ?R
        then have "Y - unat dy < unat ch" "X - unat dx < unat cw" using uc XY by linarith+
        then have "(Y - unat dy, X - unat dx) \<in> set ?ps" by simp
        then show ?E using hit \<open>?R\<close> by blast
      qed
      moreover have "(THE p. p \<in> set ?ps \<and> I p = screen_index s X Y) = (Y - unat dy, X - unat dx)" if ?E
        using that hit by (intro the_equality) auto
      ultimately show ?thesis using fold_writes [OF inj, of V "screen s" "screen_index s X Y"]
        by (auto simp: distinct_product over_def V_def)
    qed
    show ?thesis using r at by blast
  qed
qed

subsection \<open>The picture on the screen\<close>

text \<open>
  What the tree of rectangles stands for: layers with their rectangle on the screen, their pixels and the layers above
  them. \<open>paint\<close> is the colour a point of the screen has after a layer and everything above it is laid over it, and \<open>topmost_at m\<close>
  the topmost rectangle there without \<open>m\<close> and its branch: the last in the order of painting of those that contain the point
  with all the rectangles below them, transparent or not.
\<close>

datatype layer = Layer (layer_address: u64) (layer_rect: "nat \<times> nat \<times> nat \<times> nat")
  (layer_pixels: "nat \<Rightarrow> nat \<Rightarrow> framebuffer_pixel option") (sublayers: "layer list")

fun inside :: "nat \<times> nat \<times> nat \<times> nat \<Rightarrow> nat \<Rightarrow> nat \<Rightarrow> bool" where
  "inside (x, y, w, h) X Y \<longleftrightarrow> x \<le> X \<and> X < x + w \<and> y \<le> Y \<and> Y < y + h"

fun within :: "nat \<times> nat \<times> nat \<times> nat \<Rightarrow> nat \<times> nat \<times> nat \<times> nat \<Rightarrow> bool" where
  "within (x, y, w, h) (x', y', w', h') \<longleftrightarrow> x' \<le> x \<and> x + w \<le> x' + w' \<and> y' \<le> y \<and> y + h \<le> y' + h'"

fun paint :: "layer \<Rightarrow> nat \<Rightarrow> nat \<Rightarrow> framebuffer_pixel \<Rightarrow> framebuffer_pixel" where
  "paint (Layer a (x, y, w, h) px ls) X Y c =
     fold (\<lambda>l. paint l X Y) ls (if inside (x, y, w, h) X Y then over (px (X - x) (Y - y)) c else c)"

fun topmost_at :: "u64 \<Rightarrow> layer \<Rightarrow> nat \<Rightarrow> nat \<Rightarrow> u64 \<Rightarrow> u64" where
  "topmost_at m (Layer a r px ls) X Y b = (if a = m \<or> \<not> inside r X Y then b else fold (\<lambda>l. topmost_at m l X Y) ls a)"

fun nested :: "layer \<Rightarrow> bool" where
  "nested (Layer a r px ls) \<longleftrightarrow> (\<forall>l\<in>set ls. nested l \<and> within (layer_rect l) r)"

definition graphics_rect :: "graphics_info \<Rightarrow> nat \<times> nat \<times> nat \<times> nat" where
  "graphics_rect gi = (unat (starting_x gi), unat (starting_y gi), unat (gi_width gi), unat (gi_height gi))"

inductive represents :: "'s gstate_scheme \<Rightarrow> u64 \<Rightarrow> layer \<Rightarrow> bool" for s where
  "g \<noteq> 0 \<Longrightarrow> drawable s g \<Longrightarrow> graphics_children s g = Some kids \<Longrightarrow> length ls = length (filter (\<lambda>c. c \<noteq> 0) kids) \<Longrightarrow>
   (\<forall>i<length ls. represents s (filter (\<lambda>c. c \<noteq> 0) kids ! i) (ls ! i)) \<Longrightarrow>
   represents s g (Layer g (graphics_rect (graphics_at s g)) (layer_pixel s g) ls)"

text \<open>Each layer's rectangle knows the rectangle below it.\<close>

fun linked :: "'s gstate_scheme \<Rightarrow> u64 \<Rightarrow> layer \<Rightarrow> bool" where
  "linked s p (Layer a r px ls) \<longleftrightarrow> gi_parent (graphics_at s a) = p \<and> (\<forall>l\<in>set ls. linked s a l)"

text \<open>A function of screens that does the same to every point on its own.\<close>

definition pointwise :: "'s gstate_scheme \<Rightarrow> ('s gstate_scheme \<Rightarrow> 's gstate_scheme option) \<Rightarrow>
    (nat \<Rightarrow> nat \<Rightarrow> framebuffer_pixel \<Rightarrow> framebuffer_pixel) \<Rightarrow> bool" where
  "pointwise s f p \<longleftrightarrow> (\<forall>c. \<exists>c'. f (s\<lparr>screen := c\<rparr>) = Some (s\<lparr>screen := c'\<rparr>) \<and>
     (\<forall>X Y. X < fst (screen_size s) \<and> Y < snd (screen_size s) \<longrightarrow> c' (screen_index s X Y) = p X Y (c (screen_index s X Y))))"

lemma pointwise_id: "pointwise s Some (\<lambda>X Y c. c)"
  by (auto simp: pointwise_def)

lemma pointwise_comp:
  assumes "pointwise s f p" "pointwise s f' p'"
  shows "pointwise s (\<lambda>s. do { s1 \<leftarrow> f s; f' s1 }) (\<lambda>X Y c. p' X Y (p X Y c))"
  unfolding pointwise_def
proof
  fix c
  obtain c1 where c1: "f (s\<lparr>screen := c\<rparr>) = Some (s\<lparr>screen := c1\<rparr>)"
    "\<forall>X Y. X < fst (screen_size s) \<and> Y < snd (screen_size s) \<longrightarrow> c1 (screen_index s X Y) = p X Y (c (screen_index s X Y))"
    using assms(1) unfolding pointwise_def by blast
  obtain c2 where c2: "f' (s\<lparr>screen := c1\<rparr>) = Some (s\<lparr>screen := c2\<rparr>)"
    "\<forall>X Y. X < fst (screen_size s) \<and> Y < snd (screen_size s) \<longrightarrow> c2 (screen_index s X Y) = p' X Y (c1 (screen_index s X Y))"
    using assms(2) unfolding pointwise_def by blast
  show "\<exists>c'. (do { s1 \<leftarrow> f (s\<lparr>screen := c\<rparr>); f' s1 }) = Some (s\<lparr>screen := c'\<rparr>) \<and>
     (\<forall>X Y. X < fst (screen_size s) \<and> Y < snd (screen_size s) \<longrightarrow> c' (screen_index s X Y) = p' X Y (p X Y (c (screen_index s X Y))))"
    using c1 c2 by (intro exI [of _ c2]) auto
qed

lemma pointwise_cong:
  assumes "pointwise s f p" "\<And>X Y c. X < fst (screen_size s) \<Longrightarrow> Y < snd (screen_size s) \<Longrightarrow> p X Y c = p' X Y c"
    "\<And>c. f (s\<lparr>screen := c\<rparr>) = f' (s\<lparr>screen := c\<rparr>)"
  shows "pointwise s f' p'"
  using assms by (auto simp: pointwise_def)

text \<open>The loop over the children, null pointers left out, is the composition over the layers.\<close>

lemma pointwise_children:
  assumes "length ls = length (filter (\<lambda>c. c \<noteq> 0) kids)"
    "\<forall>i<length ls. pointwise s (f (filter (\<lambda>c. c \<noteq> 0) kids ! i)) (p (ls ! i))"
  shows "pointwise s (for_each (\<lambda>c s. if c = 0 then Some s else f c s) kids) (\<lambda>X Y. fold (\<lambda>l. p l X Y) ls)"
  using assms
proof (induction kids arbitrary: ls)
  case Nil
  then have "ls = []" by simp
  then show ?case by (intro pointwise_cong [OF pointwise_id]) simp_all
next
  case (Cons a kids)
  show ?case
  proof (cases "a = 0")
    case True
    then have "pointwise s (for_each (\<lambda>c s. if c = 0 then Some s else f c s) kids) (\<lambda>X Y. fold (\<lambda>l. p l X Y) ls)"
      using Cons by simp
    then show ?thesis by (rule pointwise_cong) (simp_all add: True)
  next
    case False
    with Cons.prems(1) obtain l ls' where ls: "ls = l # ls'" by (cases ls) auto
    have "pointwise s (f a) (p l)" using Cons.prems(2) False by (auto simp: ls)
    moreover have "pointwise s (for_each (\<lambda>c s. if c = 0 then Some s else f c s) kids) (\<lambda>X Y. fold (\<lambda>l. p l X Y) ls')"
    proof (rule Cons.IH)
      show "\<forall>i<length ls'. pointwise s (f (filter (\<lambda>c. c \<noteq> 0) kids ! i)) (p (ls' ! i))"
        using Cons.prems(2) False by (auto simp: ls dest: spec [of _ "Suc _"])
    qed (use Cons.prems(1) False in \<open>simp add: ls\<close>)
    ultimately show ?thesis
      by (rule pointwise_cong [OF pointwise_comp]) (simp_all add: ls False)
  qed
qed

lemma pointwise_paste:
  assumes "screen_ok s" "drawable s g" "g \<noteq> 0" "unat sx + unat w \<le> unat (gi_width (graphics_at s g))"
    "unat sy + unat h \<le> unat (gi_height (graphics_at s g))" "unat dx + unat w < 2 ^ 32" "unat dy + unat h < 2 ^ 32"
  shows "pointwise s (\<lambda>s. graphics_paste_pixels_to_framebuffer s g sx sy w h dx dy) (\<lambda>X Y c.
    if inside (unat dx, unat dy, unat w, unat h) X Y then over (layer_pixel s g (unat sx + (X - unat dx)) (unat sy + (Y - unat dy))) c else c)"
  unfolding pointwise_def
proof
  fix c
  show "\<exists>c'. graphics_paste_pixels_to_framebuffer (s\<lparr>screen := c\<rparr>) g sx sy w h dx dy = Some (s\<lparr>screen := c'\<rparr>) \<and>
    (\<forall>X Y. X < fst (screen_size s) \<and> Y < snd (screen_size s) \<longrightarrow> c' (screen_index s X Y) =
      (if inside (unat dx, unat dy, unat w, unat h) X Y then over (layer_pixel s g (unat sx + (X - unat dx)) (unat sy + (Y - unat dy))) (c (screen_index s X Y))
       else c (screen_index s X Y)))"
  proof -
    have u: "graphics_at (s\<lparr>screen := c\<rparr>) = graphics_at s" "screen (s\<lparr>screen := c\<rparr>) = c" "s\<lparr>screen := c, screen := c'\<rparr> = s\<lparr>screen := c'\<rparr>" for c'
      by simp_all
    show ?thesis using paste_to_framebuffer [of "s\<lparr>screen := c\<rparr>" g sx w sy h dx dy, unfolded screen_update u, OF assms]
      by (simp only: inside.simps)
  qed
qed

lemma redraw_pointwise:
  assumes "represents s g L" "screen_ok s"
  shows "pointwise s (graphics_redraw g) (paint L)"
  using assms(1)
proof induction
  case (1 g kids ls)
  let ?gi = "graphics_at s g"
  have d: "unat (starting_x ?gi) + unat (gi_width ?gi) < 2 ^ 32" "unat (starting_y ?gi) + unat (gi_height ?gi) < 2 ^ 32"
    using 1(2) by (auto simp: drawable_def Let_def)
  have only: "pointwise s (\<lambda>s. graphics_redraw_only s g) (\<lambda>X Y c. if inside (graphics_rect ?gi) X Y
      then over (layer_pixel s g (X - unat (starting_x ?gi)) (Y - unat (starting_y ?gi))) c else c)"
  proof (rule pointwise_cong)
    show "pointwise s (\<lambda>s. graphics_paste_pixels_to_framebuffer s g 0 0 (gi_width ?gi) (gi_height ?gi) (starting_x ?gi) (starting_y ?gi))
        (\<lambda>X Y c. if inside (unat (starting_x ?gi), unat (starting_y ?gi), unat (gi_width ?gi), unat (gi_height ?gi)) X Y
         then over (layer_pixel s g (unat (0 :: u32) + (X - unat (starting_x ?gi))) (unat (0 :: u32) + (Y - unat (starting_y ?gi)))) c else c)"
      by (rule pointwise_paste [OF assms(2) 1(2,1)]) (use d in simp_all)
  qed (simp_all add: graphics_rect_def graphics_redraw_only_def 1(1))
  have "pointwise s (for_each (\<lambda>c s. if c = 0 then Some s else graphics_redraw c s) kids) (\<lambda>X Y. fold (\<lambda>l. paint l X Y) ls)"
    using 1(4,5) by (intro pointwise_children) auto
  note comp = pointwise_comp [OF only this]
  show ?case
  proof (rule pointwise_cong [OF comp])
    fix c
    obtain c1 where "graphics_redraw_only (s\<lparr>screen := c\<rparr>) g = Some (s\<lparr>screen := c1\<rparr>)" using only unfolding pointwise_def by blast
    then have "graphics_redraw g (s\<lparr>screen := c\<rparr>)
        = for_each (\<lambda>child s. if child \<noteq> 0 then graphics_redraw child s else Some s) kids (s\<lparr>screen := c1\<rparr>)"
      by (simp only: graphics_redraw.simps [of g "s\<lparr>screen := c\<rparr>"] 1(1,3) if_False Option.bind.simps screen_update)
    also have "(\<lambda>child s. if child \<noteq> 0 then graphics_redraw child s else Some s) = (\<lambda>c s. if c = 0 then Some s else graphics_redraw c s)"
      by (intro ext) simp
    finally show "(do { s1 \<leftarrow> graphics_redraw_only (s\<lparr>screen := c\<rparr>) g; for_each (\<lambda>c s. if c = 0 then Some s else graphics_redraw c s) kids s1 })
        = graphics_redraw g (s\<lparr>screen := c\<rparr>)"
      by (simp only: \<open>graphics_redraw_only (s\<lparr>screen := c\<rparr>) g = Some (s\<lparr>screen := c1\<rparr>)\<close> Option.bind.simps)
  qed (auto simp: graphics_rect_def)
qed

lemma represents_layer:
  assumes "represents s g L"
  shows "layer_rect L = graphics_rect (graphics_at s g)" "g \<noteq> 0" "drawable s g" "layer_address L = g"
  using assms by (auto elim: represents.cases)

lemma within_inside: "within r r' \<Longrightarrow> inside r X Y \<Longrightarrow> inside r' X Y"
  by (cases r; cases r') auto

lemma fold_id: "(\<And>x. x \<in> set xs \<Longrightarrow> f x c = c) \<Longrightarrow> fold f xs c = c"
  by (induction xs) auto

lemma paint_outside: "nested L \<Longrightarrow> \<not> inside (layer_rect L) X Y \<Longrightarrow> paint L X Y c = c"
proof (induction L X Y c rule: paint.induct)
  case (1 a x y w h px ls X Y c)
  have "paint l X Y d = d" if "l \<in> set ls" for l d
    using 1 that within_inside [of "layer_rect l" "(x, y, w, h)" X Y] by (auto simp del: inside.simps within.simps)
  then have "fold (\<lambda>l. paint l X Y) ls d = d" for d by (rule fold_id)
  moreover have "\<not> inside (x, y, w, h) X Y" using 1(3) by (simp only: layer.sel not_False_eq_True)
  ultimately show ?case by (simp only: paint.simps if_False)
qed

text \<open>A region cut to a rectangle, and the part of a region that a child gets, as sets of points.\<close>

lemma clip_region_points:
  assumes c: "clip_region gi lx ly w h = (w', h')" and lt: "lx < gi_width gi" "ly < gi_height gi"
    and nw: "unat lx + unat w < 2 ^ 32" "unat ly + unat h < 2 ^ 32"
  shows "unat lx + unat w' \<le> unat (gi_width gi)" "unat ly + unat h' \<le> unat (gi_height gi)"
    "unat w' = min (unat w) (unat (gi_width gi) - unat lx)" "unat h' = min (unat h) (unat (gi_height gi) - unat ly)"
proof -
  have u: "unat (lx + w) = unat lx + unat w" "unat (ly + h) = unat ly + unat h" using nw by (simp_all add: unat_add_small)
  have s: "unat (gi_width gi - lx) = unat (gi_width gi) - unat lx" "unat (gi_height gi - ly) = unat (gi_height gi) - unat ly"
    using lt by (simp_all add: unat_sub less_imp_le)
  show w: "unat w' = min (unat w) (unat (gi_width gi) - unat lx)" and h: "unat h' = min (unat h) (unat (gi_height gi) - unat ly)"
    using c u s by (auto simp: clip_region_def word_less_nat_alt split: if_splits)
  show "unat lx + unat w' \<le> unat (gi_width gi)" "unat ly + unat h' \<le> unat (gi_height gi)"
    using w h lt by (auto simp: word_less_nat_alt)
qed

lemma child_region_points:
  assumes "unat (starting_x ch) + unat (gi_width ch) < 2 ^ 32" "unat (starting_y ch) + unat (gi_height ch) < 2 ^ 32"
    and r: "unat l \<le> unat r" "unat t \<le> unat b"
  shows "child_region ch l t r b = None \<Longrightarrow> inside (unat l, unat t, unat r - unat l, unat b - unat t) X Y \<Longrightarrow>
      \<not> inside (graphics_rect ch) X Y"
    and "child_region ch l t r b = Some (cx, cy, iw, ih) \<Longrightarrow>
      unat cx + unat iw \<le> unat (gi_width ch) \<and> unat cy + unat ih \<le> unat (gi_height ch) \<and>
      (inside (unat (starting_x ch) + unat cx, unat (starting_y ch) + unat cy, unat iw, unat ih) X Y \<longleftrightarrow>
       inside (unat l, unat t, unat r - unat l, unat b - unat t) X Y \<and> inside (graphics_rect ch) X Y)"
proof -
  let ?x = "unat (starting_x ch)" and ?y = "unat (starting_y ch)" and ?w = "unat (gi_width ch)" and ?h = "unat (gi_height ch)"
  define L where "L = max (starting_x ch) l"
  define T where "T = max (starting_y ch) t"
  define R where "R = min (starting_x ch + gi_width ch) r"
  define B where "B = min (starting_y ch + gi_height ch) b"
  have u: "unat L = max ?x (unat l)" "unat T = max ?y (unat t)" "unat R = min (?x + ?w) (unat r)" "unat B = min (?y + ?h) (unat b)"
    using assms by (simp_all add: L_def T_def R_def B_def unat_max unat_min unat_add_small)
  have c: "child_region ch l t r b = (if R > L \<and> B > T then Some (L - starting_x ch, T - starting_y ch, R - L, B - T) else None)"
    by (simp add: child_region_def Let_def L_def T_def R_def B_def)
  show "\<not> inside (graphics_rect ch) X Y" if "child_region ch l t r b = None"
    "inside (unat l, unat t, unat r - unat l, unat b - unat t) X Y"
  proof -
    have "\<not> (unat L < unat R \<and> unat T < unat B)" using that(1) by (auto simp: c word_less_nat_alt split: if_splits)
    then show ?thesis using that(2) r unfolding u by (auto simp: graphics_rect_def)
  qed
  assume "child_region ch l t r b = Some (cx, cy, iw, ih)"
  then have lt: "unat L < unat R" "unat T < unat B" and e: "cx = L - starting_x ch" "cy = T - starting_y ch" "iw = R - L" "ih = B - T"
    by (auto simp: c word_less_nat_alt split: if_splits)
  have ue: "unat cx = unat L - ?x" "unat cy = unat T - ?y" "unat iw = unat R - unat L" "unat ih = unat B - unat T"
  proof -
    have "starting_x ch \<le> L" "starting_y ch \<le> T" by (simp_all add: L_def T_def)
    moreover have "L \<le> R" "T \<le> B" using lt by (simp_all add: word_le_nat_alt)
    ultimately show "unat cx = unat L - ?x" "unat cy = unat T - ?y" "unat iw = unat R - unat L" "unat ih = unat B - unat T"
      unfolding e by (simp_all add: unat_sub)
  qed
  have lx: "?x \<le> unat L" "?y \<le> unat T" using u by auto
  have "unat cx + unat iw \<le> ?w" "unat cy + unat ih \<le> ?h" using ue lt lx u by linarith+
  moreover have "inside (?x + unat cx, ?y + unat cy, unat iw, unat ih) X Y \<longleftrightarrow> unat L \<le> X \<and> X < unat R \<and> unat T \<le> Y \<and> Y < unat B"
    using ue lt lx by auto
  moreover have "\<dots> \<longleftrightarrow> inside (unat l, unat t, unat r - unat l, unat b - unat t) X Y \<and> inside (graphics_rect ch) X Y"
    using lt r unfolding u by (auto simp: graphics_rect_def)
  ultimately show "unat cx + unat iw \<le> ?w \<and> unat cy + unat ih \<le> ?h \<and>
      (inside (?x + unat cx, ?y + unat cy, unat iw, unat ih) X Y \<longleftrightarrow>
       inside (unat l, unat t, unat r - unat l, unat b - unat t) X Y \<and> inside (graphics_rect ch) X Y)" by blast
qed

text \<open>What a region of a rectangle is redrawn to: the same picture, cut to the region.\<close>

lemma redraw_region_pointwise:
  assumes "represents s g L" "screen_ok s" "nested L" "unat lx + unat w < 2 ^ 32" "unat ly + unat h < 2 ^ 32"
  shows "pointwise s (graphics_redraw_region g lx ly w h) (\<lambda>X Y c.
    if inside (unat (starting_x (graphics_at s g)) + unat lx, unat (starting_y (graphics_at s g)) + unat ly, unat w, unat h) X Y \<and>
       inside (graphics_rect (graphics_at s g)) X Y then paint L X Y c else c)"
  using assms(1,3-)
proof (induction arbitrary: lx ly w h)
  case (1 g kids ls)
  let ?gi = "graphics_at s g"
  let ?x = "unat (starting_x ?gi)" and ?y = "unat (starting_y ?gi)"
  have d: "?x + unat (gi_width ?gi) < 2 ^ 32" "?y + unat (gi_height ?gi) < 2 ^ 32"
    using 1(2) by (auto simp: drawable_def Let_def)
  show ?case
  proof (cases "lx \<ge> gi_width ?gi \<or> ly \<ge> gi_height ?gi")
    case True
    then have "graphics_redraw_region g lx ly w h (s\<lparr>screen := c\<rparr>) = Some (s\<lparr>screen := c\<rparr>)" for c
      by (subst graphics_redraw_region.simps) auto
    then show ?thesis using True by (intro pointwise_cong [OF pointwise_id]) (auto simp: graphics_rect_def word_le_nat_alt)
  next
    case False
    then have lt: "lx < gi_width ?gi" "ly < gi_height ?gi" by (auto simp: not_le)
    obtain w' h' where clip: "clip_region ?gi lx ly w h = (w', h')" by (cases "clip_region ?gi lx ly w h")
    note cl = clip_region_points [OF clip lt 1(7,8)]
    let ?dx = "starting_x ?gi + lx" and ?dy = "starting_y ?gi + ly"
    have ud: "unat ?dx = ?x + unat lx" "unat ?dy = ?y + unat ly" "unat (?dx + w') = ?x + unat lx + unat w'" "unat (?dy + h') = ?y + unat ly + unat h'"
      using d cl(1,2) by (simp_all add: unat_add_small)
    define R where "R = (unat ?dx, unat ?dy, unat w', unat h')"
    have Rin: "inside R X Y \<longleftrightarrow> inside (?x + unat lx, ?y + unat ly, unat w, unat h) X Y \<and> inside (graphics_rect ?gi) X Y" for X Y
      using lt unfolding R_def ud cl(3,4) graphics_rect_def by (auto simp: word_less_nat_alt)
    let ?F = "\<lambda>child s. case child_region (graphics_at s child) ?dx ?dy (?dx + w') (?dy + h') of None \<Rightarrow> Some s
          | Some (cx, cy, iw, ih) \<Rightarrow> graphics_redraw_region child cx cy iw ih s"
    have "pointwise s (?F (filter (\<lambda>c. c \<noteq> 0) kids ! i)) (\<lambda>X Y c. if inside R X Y then paint (ls ! i) X Y c else c)"
      if i: "i < length ls" for i
    proof -
      let ?c = "filter (\<lambda>c. c \<noteq> 0) kids ! i" and ?l = "ls ! i"
      let ?ci = "graphics_at s ?c"
      have rep: "represents s ?c ?l" and nest: "nested ?l" using 1(5,6) i by auto
      note lay = represents_layer [OF rep]
      have cd: "unat (starting_x ?ci) + unat (gi_width ?ci) < 2 ^ 32" "unat (starting_y ?ci) + unat (gi_height ?ci) < 2 ^ 32"
        using lay(3) by (auto simp: drawable_def Let_def)
      have le: "unat ?dx \<le> unat (?dx + w')" "unat ?dy \<le> unat (?dy + h')" unfolding ud by simp_all
      have R: "R = (unat ?dx, unat ?dy, unat (?dx + w') - unat ?dx, unat (?dy + h') - unat ?dy)"
        unfolding R_def ud by simp
      have out: "paint ?l X Y c = c" if "\<not> inside (graphics_rect ?ci) X Y" for X Y c
        using paint_outside [OF nest] that lay(1) by simp
      note cr = child_region_points [OF cd le, folded R]
      show ?thesis
      proof (cases "child_region ?ci ?dx ?dy (?dx + w') (?dy + h')")
        case None
        then show ?thesis
          by (intro pointwise_cong [OF pointwise_id]) (auto simp: out cr(1) simp del: inside.simps)
      next
        case (Some r)
        obtain cx cy iw ih where r: "r = (cx, cy, iw, ih)" by (cases r)
        note cr2 = cr(2) [OF Some [unfolded r]]
        have nw: "unat cx + unat iw < 2 ^ 32" "unat cy + unat ih < 2 ^ 32"
          using cr2 [of 0 0] cd by linarith+
        have IH: "pointwise s (graphics_redraw_region ?c cx cy iw ih) (\<lambda>X Y c.
            if inside (unat (starting_x ?ci) + unat cx, unat (starting_y ?ci) + unat cy, unat iw, unat ih) X Y \<and>
               inside (graphics_rect ?ci) X Y then paint ?l X Y c else c)"
          using 1(5) i nest nw by blast
        show ?thesis
          by (rule pointwise_cong [OF IH]) (use cr2 Some r out in \<open>auto simp del: inside.simps\<close>)
      qed
    qed
    then have loop: "pointwise s (for_each (\<lambda>c s. if c = 0 then Some s else ?F c s) kids)
        (\<lambda>X Y. fold (\<lambda>l c. if inside R X Y then paint l X Y c else c) ls)"
      using 1(4) by (intro pointwise_children) auto
    have paste: "pointwise s (\<lambda>s. graphics_paste_pixels_to_framebuffer s g lx ly w' h' ?dx ?dy) (\<lambda>X Y c.
        if inside R X Y then over (layer_pixel s g (unat lx + (X - unat ?dx)) (unat ly + (Y - unat ?dy))) c else c)"
      unfolding R_def by (rule pointwise_paste [OF assms(2) 1(2,1) cl(1,2)]) (use ud d cl in auto)
    show ?thesis
    proof (rule pointwise_cong [OF pointwise_comp [OF paste loop]])
      fix X Y c
      have "fold (\<lambda>l c. if inside R X Y then paint l X Y c else c) ls c' = (if inside R X Y then fold (\<lambda>l. paint l X Y) ls c' else c')" for c'
        by (cases "inside R X Y") (simp_all add: fold_id)
      moreover have "unat lx + (X - unat ?dx) = X - ?x" "unat ly + (Y - unat ?dy) = Y - ?y" if "inside R X Y"
        using that unfolding R_def ud by auto
      moreover have "paint (Layer g (graphics_rect ?gi) (layer_pixel s g) ls) X Y c = fold (\<lambda>l. paint l X Y) ls
          (if inside (graphics_rect ?gi) X Y then over (layer_pixel s g (X - ?x) (Y - ?y)) c else c)"
        by (simp add: graphics_rect_def)
      moreover have "inside R X Y \<Longrightarrow> inside (graphics_rect ?gi) X Y" using Rin by blast
      ultimately show "fold (\<lambda>l c. if inside R X Y then paint l X Y c else c) ls
          (if inside R X Y then over (layer_pixel s g (unat lx + (X - unat ?dx)) (unat ly + (Y - unat ?dy))) c else c) =
        (if inside (?x + unat lx, ?y + unat ly, unat w, unat h) X Y \<and> inside (graphics_rect ?gi) X Y
         then paint (Layer g (graphics_rect ?gi) (layer_pixel s g) ls) X Y c else c)"
        unfolding Rin [symmetric] by (cases "inside R X Y") (simp_all only: if_True if_False simp_thms)
    next
      fix c
      obtain c1 where c1: "graphics_paste_pixels_to_framebuffer (s\<lparr>screen := c\<rparr>) g lx ly w' h' ?dx ?dy = Some (s\<lparr>screen := c1\<rparr>)"
        using paste unfolding pointwise_def by blast
      have ga: "graphics_at (s\<lparr>screen := c\<rparr>) = graphics_at s" by simp
      show "(do { s1 \<leftarrow> graphics_paste_pixels_to_framebuffer (s\<lparr>screen := c\<rparr>) g lx ly w' h' ?dx ?dy;
            for_each (\<lambda>c s. if c = 0 then Some s else ?F c s) kids s1 })
          = graphics_redraw_region g lx ly w h (s\<lparr>screen := c\<rparr>)"
        using False by (simp only: graphics_redraw_region.simps [of g lx ly w h "s\<lparr>screen := c\<rparr>"] ga 1(1,3) clip Let_def prod.case c1
            if_False Option.bind.simps screen_update)
    qed
  qed
qed

subsection \<open>What is clicked\<close>

lemma first_result_append:
  "first_result f (xs @ ys) = do { r \<leftarrow> first_result f xs; if r \<noteq> 0 then Some r else first_result f ys }"
proof (induction xs)
  case (Cons x xs)
  show ?case by (cases "f x") (simp_all add: Cons.IH)
qed simp

text \<open>At one point a layer hides what is below it or is not there.\<close>

definition hides_or_not :: "(u64 \<Rightarrow> u64) \<Rightarrow> bool" where
  "hides_or_not f \<longleftrightarrow> (\<forall>b. f b = b) \<or> (\<exists>a. a \<noteq> 0 \<and> (\<forall>b. f b = a))"

lemma hides_or_not_fold: "(\<And>l. l \<in> set ls \<Longrightarrow> hides_or_not (F l)) \<Longrightarrow> hides_or_not (fold F ls)"
proof (induction ls)
  case (Cons l ls)
  have "hides_or_not (fold F ls)" "hides_or_not (F l)" using Cons by simp_all
  then show ?case unfolding hides_or_not_def fold_simps(2) by (elim disjE exE conjE) (simp_all add: comp_def)
qed (simp add: hides_or_not_def id_def)

lemma topmost_hides:
  assumes "represents s g L"
  shows "hides_or_not (topmost_at m L X Y) \<and> (inside (layer_rect L) X Y \<longrightarrow> g \<noteq> m \<longrightarrow> topmost_at m L X Y b \<noteq> 0)"
  using assms
proof (induction arbitrary: b)
  case (1 g kids ls)
  have "hides_or_not (topmost_at m l X Y)" if "l \<in> set ls" for l
    using 1 that by (fastforce simp: in_set_conv_nth)
  then have h: "hides_or_not (fold (\<lambda>l. topmost_at m l X Y) ls)" by (rule hides_or_not_fold)
  show ?case using h 1(1) by (auto simp: hides_or_not_def)
qed

lemma contains_point_inside:
  assumes "drawable s g" "X < 2 ^ 32" "Y < 2 ^ 32"
  shows "contains_point (graphics_at s g) (of_nat X) (of_nat Y) = inside (graphics_rect (graphics_at s g)) X Y"
proof -
  have uc: "unat (ucast a :: u64) = unat a" for a :: u32
    using unsigned_less [of a, where 'a = nat] by (simp add: unsigned_ucast_eq take_bit_nat_eq_self)
  have "unat (starting_x (graphics_at s g)) + unat (gi_width (graphics_at s g)) < 2 ^ 32"
    "unat (starting_y (graphics_at s g)) + unat (gi_height (graphics_at s g)) < 2 ^ 32"
    using assms(1) by (auto simp: drawable_def Let_def)
  then show ?thesis using assms(2,3)
    by (auto simp: contains_point_def graphics_rect_def word_le_nat_alt word_less_nat_alt uc unat_add_small)
qed

lemma hit_children:
  assumes "length ls = length (filter (\<lambda>c. c \<noteq> 0) kids)"
    "\<forall>i<length ls. f (filter (\<lambda>c. c \<noteq> 0) kids ! i) = Some (F (ls ! i) 0) \<and> hides_or_not (F (ls ! i))"
    "f 0 = Some 0"
  shows "first_result f (rev kids) = Some (fold F ls 0)"
  using assms(1,2)
proof (induction kids arbitrary: ls)
  case (Cons a kids)
  show ?case
  proof (cases "a = 0")
    case True
    then show ?thesis using Cons assms(3) by (simp add: first_result_append)
  next
    case False
    with Cons.prems(1) obtain l ls' where ls: "ls = l # ls'" by (cases ls) auto
    have l: "f a = Some (F l 0)" "hides_or_not (F l)" using Cons.prems(2) False by (auto simp: ls)
    have ls': "\<forall>i<length ls'. f (filter (\<lambda>c. c \<noteq> 0) kids ! i) = Some (F (ls' ! i) 0) \<and> hides_or_not (F (ls' ! i))"
      using Cons.prems(2) False by (auto simp: ls dest: spec [of _ "Suc _"])
    then have IH: "first_result f (rev kids) = Some (fold F ls' 0)" using Cons.IH Cons.prems(1) False by (simp add: ls)
    have "hides_or_not (fold F ls')"
      using ls' by (intro hides_or_not_fold) (auto simp: in_set_conv_nth)
    then show ?thesis using l by (auto simp: first_result_append IH ls hides_or_not_def)
  qed
qed simp

lemma not_in_ignored_branch:
  assumes "ignored_branch_loop s p m = Some False" "gi_parent (graphics_at s c) = p" "c \<noteq> 0"
  shows "graphics_is_in_ignored_branch s c m = Some (c = m)" "c \<noteq> m \<Longrightarrow> ignored_branch_loop s c m = Some False"
proof -
  show *: "c \<noteq> m \<Longrightarrow> ignored_branch_loop s c m = Some False"
    using assms by (subst ignored_branch_loop.simps) simp
  show "graphics_is_in_ignored_branch s c m = Some (c = m)"
    using assms(3) * by (cases "c = m") (simp_all add: graphics_is_in_ignored_branch_def ignored_branch_loop.simps [of s m m])
qed

lemma linked_parent: "represents s g L \<Longrightarrow> linked s p L \<Longrightarrow> gi_parent (graphics_at s g) = p"
  by (induction rule: represents.induct) simp

lemma hit_topmost:
  assumes "represents s g L" "linked s p L" "ignored_branch_loop s p m = Some False" "X < 2 ^ 32" "Y < 2 ^ 32" "inside (layer_rect L) X Y"
  shows "graphics_get_child_at_position s g (of_nat X) (of_nat Y) m True = Some (topmost_at m L X Y 0)"
  using assms(1,2,3,6)
proof (induction arbitrary: p)
  case (1 g kids ls)
  note ig = not_in_ignored_branch [OF 1(7) _ 1(1)]
  have gp: "gi_parent (graphics_at s g) = p" using 1(6) by simp
  show ?case
  proof (cases "g = m")
    case True
    then show ?thesis using ig(1) [OF gp] by (subst graphics_get_child_at_position.simps) simp
  next
    case False
    let ?F = "\<lambda>child. if child = 0 then Some 0
         else do {
           child_ignored \<leftarrow> graphics_is_in_ignored_branch s child m;
           if child_ignored then Some 0
           else if contains_point (graphics_at s child) (of_nat X) (of_nat Y)
             then do {
               r \<leftarrow> graphics_get_child_at_position s child (of_nat X) (of_nat Y) m True;
               Some (if r \<noteq> 0 then r else child)
             }
             else Some 0
         }"
    have child: "?F (filter (\<lambda>c. c \<noteq> 0) kids ! i) = Some (topmost_at m (ls ! i) X Y 0) \<and> hides_or_not (topmost_at m (ls ! i) X Y)"
      if i: "i < length ls" for i
    proof -
      let ?c = "filter (\<lambda>c. c \<noteq> 0) kids ! i" and ?l = "ls ! i"
      have rep: "represents s ?c ?l" and lk: "linked s g ?l" using 1(5,6) i by auto
      have IH: "graphics_get_child_at_position s ?c (of_nat X) (of_nat Y) m True = Some (topmost_at m ?l X Y 0)"
        if "inside (layer_rect ?l) X Y"
        using 1(5) i lk ig(2) [OF gp False] that by blast
      note lay = represents_layer [OF rep]
      note hd = topmost_hides [OF rep, of m X Y 0]
      note ci = not_in_ignored_branch(1) [OF ig(2) [OF gp False] linked_parent [OF rep lk] lay(2)]
      have cp: "contains_point (graphics_at s ?c) (of_nat X) (of_nat Y) = inside (layer_rect ?l) X Y"
        using contains_point_inside [OF lay(3) assms(4,5)] lay(1) by simp
      have out: "topmost_at m ?l X Y 0 = 0" if "?c = m \<or> \<not> inside (layer_rect ?l) X Y"
        using rep that by (cases rule: represents.cases) auto
      show ?thesis
        using hd lay(2) ci out IH by (cases "inside (layer_rect ?l) X Y") (auto simp: cp)
    qed
    have loop: "first_result ?F (rev kids) = Some (fold (\<lambda>l. topmost_at m l X Y) ls 0)"
      by (rule hit_children) (use 1(4) child in auto)
    have "hides_or_not (fold (\<lambda>l. topmost_at m l X Y) ls)"
      by (rule hides_or_not_fold) (use child in \<open>auto simp: in_set_conv_nth\<close>)
    moreover have "contains_point (graphics_at s g) (of_nat X) (of_nat Y) = True"
      using contains_point_inside [OF 1(2) assms(4,5)] 1(8) by simp
    moreover have "graphics_is_in_ignored_branch s g m = Some False" using ig(1) [OF gp] False by simp
    moreover have "inside (graphics_rect (graphics_at s g)) X Y" using 1(8) by simp
    ultimately show ?thesis using False
      by (simp only: graphics_get_child_at_position.simps [of s g] if_True if_False Option.bind.simps 1(3) loop topmost_at.simps)
         (auto simp: hides_or_not_def)
  qed
qed

subsection \<open>Copying pixels from beyond the source\<close>

lemma for_each_reaches:
  assumes "for_each f xs s = Some s'" "x \<in> set xs" "P s" "\<And>x s s'. P s \<Longrightarrow> f x s = Some s' \<Longrightarrow> P s'"
  shows "\<exists>t t'. P t \<and> f x t = Some t'"
  using assms(1-3)
proof (induction xs arbitrary: s)
  case (Cons a xs)
  obtain t where t: "f a s = Some t" "for_each f xs t = Some s'" using Cons.prems(1) by (auto simp: bind_eq_Some_conv)
  show ?case
  proof (cases "x = a")
    case False
    then show ?thesis using Cons.IH [OF t(2)] Cons.prems(2) assms(4) [OF Cons.prems(3) t(1)] by auto
  qed (use Cons.prems(3) t(1) in blast)
qed simp

lemma copy_overruns:
  fixes s :: "'s gstate_scheme"
  assumes src: "unat (gi_width (graphics_at s g_in)) < unat src_x" "unat src_x + unat w < 2 ^ 32"
      "unat src_y + unat h \<le> unat (gi_height (graphics_at s g_in))" "0 < unat h"
    and out: "gi_width (graphics_at s g_out) = w" "length (pixel_arrays s (gi_pixels (graphics_at s g_out))) = unat w * unat h" "unat w * unat h < 2 ^ 31"
  shows "graphics_paste_pixels_to_pixels s g_in g_out src_x src_y w h 0 0 fl = None"
proof (rule ccontr)
  let ?gi = "graphics_at s g_in" and ?go = "graphics_at s g_out"
  define P where "P = (\<lambda>t :: 's gstate_scheme. graphics_at t = graphics_at s \<and>
     length (pixel_arrays t (gi_pixels (graphics_at s g_out))) = unat w * unat h)"
  define body where "body = (\<lambda>lx ly (t :: 's gstate_scheme). do {
       (_, px) \<leftarrow> graphics_pixel_get t g_in (src_x + of_nat lx) (src_y + of_nat ly);
       let pixel = (case px of None \<Rightarrow> black | Some p \<Rightarrow> p);
       let dx = 0 + of_nat lx;
       let dy = 0 + of_nat ly;
       keep \<leftarrow> (if dx < gi_width ?go \<and> dy < gi_height ?go \<and> fl AND GRAPHICS_FLAG_DO_NOT_OVERWRITE_TRANSPARENT_PIXELS \<noteq> 0 \<and> transparency_key ?go \<noteq> black
               then do { p \<leftarrow> pixel_read t (gi_pixels ?go) (unat (dy * gi_width ?go + dx)); Some (p = transparency_key ?go) }
               else Some False);
       if keep then Some t else pixel_write t (gi_pixels ?go) (unat (dy * gi_width ?go + dx)) pixel
     })"
  have uy: "unat (src_y + h) = unat src_y + unat h"
    using src(3) unsigned_less [of "gi_height ?gi", where 'a = nat] by (intro unat_add_small) simp
  have fh: "min (src_y + h) (gi_height ?gi) - src_y = h"
    using src(3) uy by (simp add: min_def word_le_nat_alt)
  define fw where "fw = min (src_x + w) (gi_width ?gi) - src_x"
  have "min (src_x + w) (gi_width ?gi) = gi_width ?gi" using src(1,2) by (simp add: min_def word_le_nat_alt unat_add_small)
  then have "fw + src_x = gi_width ?gi" by (simp add: fw_def)
  moreover have "unat (fw + src_x) = unat fw + unat src_x" if "unat fw \<le> unat w"
    using that src(2) by (intro unat_add_small) simp
  ultimately have fw: "unat w < unat fw" using src(1) by (metis linorder_not_le not_add_less2)
  assume "graphics_paste_pixels_to_pixels s g_in g_out src_x src_y w h 0 0 fl \<noteq> None"
  then obtain s' where "for_each (\<lambda>lx. for_each (body lx) [0..<unat h]) [0..<unat fw] s = Some s'"
    unfolding graphics_paste_pixels_to_pixels_def Let_def fh fw_def [symmetric] body_def by auto
  moreover have step: "P t'" if "P t" "body lx ly t = Some t'" for lx ly t t'
    using that by (auto simp: P_def body_def Let_def bind_eq_Some_conv pixel_write_def split: if_splits)
  moreover have "P t'" if "P t" "for_each (body lx) [0..<unat h] t = Some t'" for lx t t'
    using for_each_inv [where P = P, OF that(2,1)] step by blast
  moreover have "P s" using out(2) by (simp add: P_def)
  moreover have "unat w \<in> set [0..<unat fw]" using fw by simp
  ultimately obtain t t' where t: "P t" "for_each (body (unat w)) [0..<unat h] t = Some t'"
    using for_each_reaches [of "\<lambda>lx. for_each (body lx) [0..<unat h]" "[0..<unat fw]" s s' "unat w" P] by blast
  have "unat h - 1 \<in> set [0..<unat h]" using src(4) by simp
  then obtain u u' where u: "P u" "body (unat w) (unat h - 1) u = Some u'"
    using for_each_reaches [where P = P, OF t(2) _ t(1)] step by blast
  have "unat (of_nat (unat h - 1) * gi_width ?go + of_nat (unat w) :: u32) = unat w * unat h"
  proof -
    have hw: "(unat h - 1) * unat w + unat w = unat w * unat h" using src(4) by (cases "unat h") (simp_all add: mult.commute)
    have "unat h - 1 < 2 ^ 32" using unsigned_less [of h, where 'a = nat] by simp
    then have "unat (of_nat (unat h - 1) :: u32) = unat h - 1" by simp
    then show ?thesis using unat_index [of "of_nat (unat h - 1)" w w] hw out(1,3) by simp
  qed
  moreover have "\<not> (0 + of_nat (unat w) :: u32) < gi_width ?go" using out(1) by simp
  ultimately show False
    using u by (auto simp: body_def P_def Let_def bind_eq_Some_conv pixel_write_def)
qed

text \<open>A screen of four by four pixels with one rectangle of two by two in its middle, white with one transparent corner.\<close>

definition white :: framebuffer_pixel where
  "white = \<lparr>blue = 255, green = 255, red = 255, reserved = 0\<rparr>"

definition small_screen :: gstate where
  "small_screen = istate.extend bmp_state (gstate.fields
     (\<lambda>g. if g = 0x1000 then null_graphics\<lparr>horizontal_resolution := 4, vertical_resolution := 4, pixels_per_scanline := 4,
            gi_width := 4, gi_height := 4, gi_pixels := 0x2000, gi_children := Some (vector_of 8 [0x3000])\<rparr>
          else if g = 0x3000 then null_graphics\<lparr>horizontal_resolution := 4, vertical_resolution := 4, pixels_per_scanline := 4,
            gi_width := 2, gi_height := 2, starting_x := 1, starting_y := 1, gi_relative_x := 1, gi_relative_y := 1, gi_pixels := 0x4000,
            gi_parent := 0x1000, gi_children := Some (vector_of 8 []), transparency_key := white\<rparr>
          else null_graphics)
     (\<lambda>a. if a = 0x2000 then replicate 16 black else if a = 0x4000 then [white, white\<lparr>red := 1\<rparr>, white\<lparr>red := 2\<rparr>, white\<lparr>red := 3\<rparr>] else [])
     (\<lambda>_. white\<lparr>red := 7\<rparr>) 0x1000 None 0)"

definition small_layers :: layer where
  "small_layers = Layer 0x1000 (0, 0, 4, 4) (layer_pixel small_screen 0x1000)
     [Layer 0x3000 (1, 1, 2, 2) (layer_pixel small_screen 0x3000) []]"

lemma small_screen_simps [simp]:
  "graphics_at small_screen 0x1000 = null_graphics\<lparr>horizontal_resolution := 4, vertical_resolution := 4, pixels_per_scanline := 4,
     gi_width := 4, gi_height := 4, gi_pixels := 0x2000, gi_children := Some (vector_of 8 [0x3000])\<rparr>"
  "graphics_at small_screen 0x3000 = null_graphics\<lparr>horizontal_resolution := 4, vertical_resolution := 4, pixels_per_scanline := 4,
     gi_width := 2, gi_height := 2, starting_x := 1, starting_y := 1, gi_relative_x := 1, gi_relative_y := 1, gi_pixels := 0x4000,
     gi_parent := 0x1000, gi_children := Some (vector_of 8 []), transparency_key := white\<rparr>"
  "pixel_arrays small_screen 0x2000 = replicate 16 black"
  "pixel_arrays small_screen 0x4000 = [white, white\<lparr>red := 1\<rparr>, white\<lparr>red := 2\<rparr>, white\<lparr>red := 3\<rparr>]"
  "screen small_screen = (\<lambda>_. white\<lparr>red := 7\<rparr>)" "loaded_graphics_info small_screen = 0x1000"
  by (simp_all add: small_screen_def istate.defs gstate.defs)

lemma small_screen_represents: "represents small_screen 0x1000 small_layers" "screen_ok small_screen" "nested small_layers"
    "screen_size small_screen = (4, 4)"
proof -
  have k: "graphics_children small_screen 0x1000 = Some [0x3000]" "graphics_children small_screen 0x3000 = Some []"
    by (simp_all add: graphics_children_def vector_of_def tvec_items_def null_graphics_def)
  have d: "drawable small_screen 0x1000" "drawable small_screen 0x3000"
    by (simp_all add: drawable_def null_graphics_def Let_def)
  have r: "graphics_rect (graphics_at small_screen 0x1000) = (0, 0, 4, 4)" "graphics_rect (graphics_at small_screen 0x3000) = (1, 1, 2, 2)"
    by (simp_all add: graphics_rect_def null_graphics_def)
  have "represents small_screen 0x3000 (Layer 0x3000 (graphics_rect (graphics_at small_screen 0x3000)) (layer_pixel small_screen 0x3000) [])"
    by (rule represents.intros [OF _ d(2) k(2)]) simp_all
  then have "represents small_screen 0x1000 (Layer 0x1000 (graphics_rect (graphics_at small_screen 0x1000)) (layer_pixel small_screen 0x1000)
      [Layer 0x3000 (graphics_rect (graphics_at small_screen 0x3000)) (layer_pixel small_screen 0x3000) []])"
    by (intro represents.intros [OF _ d(1) k(1)]) simp_all
  then show "represents small_screen 0x1000 small_layers" unfolding r small_layers_def .
  show "screen_ok small_screen" by (simp add: screen_ok_def screen_size_def)
  show "nested small_layers" by (simp add: small_layers_def)
  show "screen_size small_screen = (4, 4)" by (simp add: screen_size_def)
qed

text \<open>
  C2. Redrawing a rectangle puts exactly the picture of its layers on the screen: each point gets the colour that the
  rectangle and everything above it give it when they are laid over what was there.
\<close>

theorem redraw_paints_layers:
  assumes "represents s g L" "screen_ok s"
  shows "\<exists>c. graphics_redraw g s = Some (s\<lparr>screen := c\<rparr>) \<and>
    (\<forall>X Y. X < fst (screen_size s) \<and> Y < snd (screen_size s) \<longrightarrow>
      c (screen_index s X Y) = paint L X Y (screen s (screen_index s X Y)))"
  using redraw_pointwise [OF assms] unfolding pointwise_def by (auto dest!: spec [of _ "screen s"])

theorem redraw_paints_layers_witness:
  "\<exists>c. graphics_redraw 0x1000 small_screen = Some (small_screen\<lparr>screen := c\<rparr>) \<and>
     c (screen_index small_screen 1 1) = black \<and> c (screen_index small_screen 2 1) = white\<lparr>red := 1\<rparr>"
proof -
  obtain c where c: "graphics_redraw 0x1000 small_screen = Some (small_screen\<lparr>screen := c\<rparr>)"
    "\<forall>X Y. X < fst (screen_size small_screen) \<and> Y < snd (screen_size small_screen) \<longrightarrow>
      c (screen_index small_screen X Y) = paint small_layers X Y (screen small_screen (screen_index small_screen X Y))"
    using redraw_paints_layers [OF small_screen_represents(1,2)] by blast
  have p: "paint small_layers 1 1 a = black" "paint small_layers 2 1 a = white\<lparr>red := 1\<rparr>" for a
    by (simp_all add: small_layers_def layer_pixel_def over_def null_graphics_def white_def black_def)
  show ?thesis using c(1) c(2) [rule_format, of 1 1] c(2) [rule_format, of 2 1] small_screen_represents(4) p by auto
qed

text \<open>
  C3. Redrawing a region is redrawing everything, cut to the region, on two conditions: every rectangle of the tree lies inside its parent, and the corner and the size of the
  region do not wrap in 32 bits. Then the screen is inside the region as after a full redraw of the rectangle, and outside as it was. A child that sticks out of its parent
  is drawn in full by one and cut by the other, and is not covered.
\<close>

theorem redraw_region_is_full_redraw:
  assumes "represents s g L" "screen_ok s" "nested L" "unat lx + unat w < 2 ^ 32" "unat ly + unat h < 2 ^ 32"
  shows "\<exists>c full. graphics_redraw_region g lx ly w h s = Some (s\<lparr>screen := c\<rparr>) \<and> graphics_redraw g s = Some (s\<lparr>screen := full\<rparr>) \<and>
    (\<forall>X Y. X < fst (screen_size s) \<and> Y < snd (screen_size s) \<longrightarrow> c (screen_index s X Y) =
      (if inside (unat (starting_x (graphics_at s g)) + unat lx, unat (starting_y (graphics_at s g)) + unat ly, unat w, unat h) X Y \<and>
          inside (graphics_rect (graphics_at s g)) X Y
       then full (screen_index s X Y) else screen s (screen_index s X Y)))"
proof -
  obtain c where c: "graphics_redraw_region g lx ly w h s = Some (s\<lparr>screen := c\<rparr>)"
    "\<forall>X Y. X < fst (screen_size s) \<and> Y < snd (screen_size s) \<longrightarrow> c (screen_index s X Y) =
      (if inside (unat (starting_x (graphics_at s g)) + unat lx, unat (starting_y (graphics_at s g)) + unat ly, unat w, unat h) X Y \<and>
          inside (graphics_rect (graphics_at s g)) X Y
       then paint L X Y (screen s (screen_index s X Y)) else screen s (screen_index s X Y))"
    using redraw_region_pointwise [OF assms] unfolding pointwise_def by (auto simp del: inside.simps dest!: spec [of _ "screen s"])
  obtain full where f: "graphics_redraw g s = Some (s\<lparr>screen := full\<rparr>)"
    "\<forall>X Y. X < fst (screen_size s) \<and> Y < snd (screen_size s) \<longrightarrow>
      full (screen_index s X Y) = paint L X Y (screen s (screen_index s X Y))"
    using redraw_pointwise [OF assms(1,2)] unfolding pointwise_def by (auto dest!: spec [of _ "screen s"])
  show ?thesis using c f by (intro exI [of _ c] exI [of _ full]) (simp del: inside.simps)
qed

theorem redraw_region_is_full_redraw_witness:
  "\<exists>c full. graphics_redraw_region 0x1000 2 1 1 1 small_screen = Some (small_screen\<lparr>screen := c\<rparr>) \<and>
     graphics_redraw 0x1000 small_screen = Some (small_screen\<lparr>screen := full\<rparr>) \<and>
     c (screen_index small_screen 2 1) = full (screen_index small_screen 2 1) \<and> c (screen_index small_screen 1 1) = white\<lparr>red := 7\<rparr>"
proof -
  have nw: "unat (2 :: u32) + unat (1 :: u32) < 2 ^ 32" "unat (1 :: u32) + unat (1 :: u32) < 2 ^ 32" by simp_all
  obtain c full where c: "graphics_redraw_region 0x1000 2 1 1 1 small_screen = Some (small_screen\<lparr>screen := c\<rparr>)"
      "graphics_redraw 0x1000 small_screen = Some (small_screen\<lparr>screen := full\<rparr>)" and
    p: "\<forall>X Y. X < fst (screen_size small_screen) \<and> Y < snd (screen_size small_screen) \<longrightarrow> c (screen_index small_screen X Y) =
      (if inside (unat (starting_x (graphics_at small_screen 0x1000)) + unat (2 :: u32), unat (starting_y (graphics_at small_screen 0x1000)) + unat (1 :: u32), unat (1 :: u32), unat (1 :: u32)) X Y \<and>
          inside (graphics_rect (graphics_at small_screen 0x1000)) X Y
       then full (screen_index small_screen X Y) else screen small_screen (screen_index small_screen X Y))"
    using redraw_region_is_full_redraw [OF small_screen_represents(1-3) nw] by (elim exE conjE) (rule that)
  show ?thesis using c p [rule_format, of 2 1] p [rule_format, of 1 1] small_screen_represents(4)
    by (auto simp: null_graphics_def graphics_rect_def)
qed

text \<open>
  C4. Where a click goes: at a point of the screen's rectangle, and whatever rectangle is to be ignored with its children (the callers give that of
  the mouse pointer), the search from the top finds the topmost of the others, or null when there is none. Each rectangle on the way has to contain
  the point, so a part that sticks out of its parent is not found although it is painted; and a transparent pixel counts like any other, so the rectangle found need not be the one whose
  colour is seen. The tree on the screen has to be well formed: the children of a rectangle name it as their parent.
\<close>

theorem click_hits_topmost:
  assumes "represents s (graphics_screen_info s) L" "linked s 0 L" "inside (layer_rect L) X Y" "X < 2 ^ 32" "Y < 2 ^ 32"
  shows "graphics_get_at_screen_position s (of_nat X) (of_nat Y) m True = Some (topmost_at m L X Y 0)"
proof -
  have "ignored_branch_loop s 0 m = Some False" by (simp add: ignored_branch_loop.simps)
  from hit_topmost [OF assms(1,2) this assms(4,5,3)] show ?thesis by (simp add: graphics_get_at_screen_position_def)
qed

theorem click_hits_topmost_witness:
  "graphics_get_at_screen_position small_screen 2 2 0 True = Some 0x3000 \<and> graphics_get_at_screen_position small_screen 1 1 0 True = Some 0x3000 \<and>
   graphics_get_at_screen_position small_screen 2 2 0x3000 True = Some 0x1000"
  using click_hits_topmost [where s = small_screen and L = small_layers and X = 2 and Y = 2 and m = 0]
    click_hits_topmost [where s = small_screen and L = small_layers and X = 1 and Y = 1 and m = 0]
    click_hits_topmost [where s = small_screen and L = small_layers and X = 2 and Y = 2 and m = "0x3000"] small_screen_represents
  by (simp add: graphics_screen_info_def small_layers_def null_graphics_def graphics_rect_def)

text \<open>
  C5. Making a rectangle that begins right of its parent's edge overruns memory: the width that is copied wraps, and the copy
  writes behind the end of the new rectangle's pixels.
\<close>

theorem copy_beyond_parent_overruns:
  assumes "unat (gi_width (graphics_at s g_in)) < unat src_x" "unat src_x + unat w < 2 ^ 32"
    "unat src_y + unat h \<le> unat (gi_height (graphics_at s g_in))" "0 < unat h" "gi_width (graphics_at s g_out) = w"
    "length (pixel_arrays s (gi_pixels (graphics_at s g_out))) = unat w * unat h" "unat w * unat h < 2 ^ 31"
  shows "graphics_paste_pixels_to_pixels s g_in g_out src_x src_y w h 0 0 GRAPHICS_FLAG_DO_NOT_OVERWRITE_TRANSPARENT_PIXELS = None"
  using copy_overruns [OF assms] .

theorem copy_beyond_parent_overruns_witness:
  "graphics_paste_pixels_to_pixels small_screen 0x1000 0x3000 5 0 2 2 0 0 16 = None"
  using copy_beyond_parent_overruns [where s = small_screen and g_in = "0x1000" and src_x = 5 and w = 2 and src_y = 0 and h = 2 and g_out = "0x3000"] by (simp add: null_graphics_def)

end
