(* ===== verification/Terminal.thy ===== *)
theory Terminal
  imports Painting
begin

section \<open>Fonts and terminals: font.c and terminal.c\<close>

text \<open>
  Characters as bit patterns, and terminals: a cursor in rows and columns over a rectangle. The stores hold
  fonts and terminals by address. The bytes of a font are a list, the saved background of a terminal is a pixel array of Graphics;
  access outside them is \<open>None\<close>. Saving a background may read more pixels than the rectangle has: \<open>pixels_behind\<close> is what is read there.
\<close>

abbreviation (input) TERMINAL_FLAG_BACKSPACE_ALLOWED :: u32 where "TERMINAL_FLAG_BACKSPACE_ALLOWED \<equiv> 1"

record font =
  character_count :: u64
  character_data :: "u8 list"
  bits_width_per_character :: u64
  bits_height_per_character :: u64
  subtract_from_ascii_char_index_for_drawing :: u8
  font_filename :: "u8 list"

record terminal =
  term_graphics :: u64
  terminal_background :: u64
  text_row :: u64
  text_col :: u64
  bounds_abs_x :: u64
  bounds_abs_y :: u64
  bounds_width :: u64
  bounds_height :: u64
  term_font :: u64
  font_color :: framebuffer_pixel
  term_flags :: u32

record tstate = gstate +
  font_at :: "u64 \<Rightarrow> font"
  loaded_fonts :: "u64 tvec option"
  system_font :: u64
  terminal_at :: "u64 \<Rightarrow> terminal"
  terminal_vector :: "u64 tvec option"
  pixels_behind :: "u64 \<Rightarrow> nat \<Rightarrow> framebuffer_pixel"

definition update_terminal :: "'s tstate_scheme \<Rightarrow> u64 \<Rightarrow> (terminal \<Rightarrow> terminal) \<Rightarrow> 's tstate_scheme" where
  "update_terminal s t f = s\<lparr>terminal_at := (terminal_at s)(t := f (terminal_at s t))\<rparr>"

subsection \<open>Fonts\<close>

definition bytes_for_bits :: "u64 \<Rightarrow> u64" where
  "bytes_for_bits n = n div 8 + (if n mod 8 \<noteq> 0 then 1 else 0)"

definition font_get_system_font :: "'s tstate_scheme \<Rightarrow> u64" where
  "font_get_system_font s = system_font s"

definition font_create :: "'s tstate_scheme \<Rightarrow> u8 list \<Rightarrow> u64 \<Rightarrow> u64 \<Rightarrow> u64 \<Rightarrow> u8 \<Rightarrow> ('s tstate_scheme \<times> u64) option" where
  "font_create s data n_chars width height subtract = do {
     (s1, f) \<leftarrow> kzalloc s 152;
     if f = 0 then Some (s1, 0)
     else Some (s1\<lparr>font_at := (font_at s1)(f := \<lparr>character_count = n_chars, character_data = data, bits_width_per_character = width,
       bits_height_per_character = height, subtract_from_ascii_char_index_for_drawing = subtract, font_filename = replicate 108 0\<rparr>)\<rparr>, f)
   }"

text \<open>
  The bits of a character are those of its pixels that are not black. At most 255 characters have memory, and the loops go over
  all characters of the image.
\<close>

definition font_set_bit :: "u8 list \<Rightarrow> u64 \<Rightarrow> u64 \<Rightarrow> u8 list option" where
  "font_set_bit data char_offset bit_index =
     (let byte_index = unat (char_offset + bit_index div 8)
      in if byte_index < length data then Some (data[byte_index := (data ! byte_index) OR push_bit (unat (bit_index mod 8)) 1]) else None)"

definition font_image_data :: "image \<Rightarrow> u64 \<Rightarrow> u64 \<Rightarrow> u64 \<Rightarrow> nat \<Rightarrow> nat \<Rightarrow> u8 list \<Rightarrow> u8 list option" where
  "font_image_data img pixel_width pixel_height y_offset total_rows characters_per_row data =
     for_each (\<lambda>row. for_each (\<lambda>col. for_each (\<lambda>x. for_each (\<lambda>y data. do {
       let abs_x = of_nat col * pixel_width + of_nat x;
       let abs_y = of_nat row * pixel_height + of_nat y;
       pixel \<leftarrow> graphics_image_get_pixel img (int_of_size abs_x) (int_of_size abs_y);
       if pix_R pixel \<noteq> 0 \<or> pix_B pixel \<noteq> 0 \<or> pix_G pixel \<noteq> 0
       then font_set_bit data (of_nat (row * characters_per_row + col) * bytes_for_bits (pixel_width * pixel_height)) (of_nat y * pixel_width + of_nat x)
       else Some data
     }) [unat y_offset..<unat pixel_height]) [0..<unat pixel_width]) [0..<characters_per_row]) [0..<total_rows] data"

definition font_load_from_image ::
  "'k tstate_ext gstate_ext istate_scheme image_functions \<Rightarrow> 'k tstate_scheme allocator \<Rightarrow>
   ('k tstate_ext gstate_ext istate_ext kbstate_ext, 'b, 'p) filesystems \<Rightarrow>
   ('k tstate_ext gstate_ext, 'b, 'p) image_system \<Rightarrow> u8 list \<Rightarrow> u64 \<Rightarrow> u64 \<Rightarrow> u64 \<Rightarrow>
   (('k tstate_ext gstate_ext, 'b, 'p) image_system \<times> u64) option" where
  "font_load_from_image fns al fs F fname pixel_width pixel_height y_offset = do {
     (F1, img_font) \<leftarrow> graphics_image_load fns al fs F fname;
     if img_font = 0 then Some (F1, 0)
     else if pixel_width = 0 \<or> pixel_height = 0 then None
     else do {
       let img = image_at (heap_of F1) img_font;
       let characters_per_row = (ucast (img_width img) :: u64) div pixel_width;
       let total_rows = (ucast (img_height img) :: u64) div pixel_height;
       let total_characters = min (total_rows * characters_per_row) 255;
       let data_size = bytes_for_bits (total_characters * pixel_width * pixel_height);
       (s2, data_ptr) \<leftarrow> kzalloc (heap_of F1) data_size;
       if data_ptr = 0 then Some (with_heap F1 s2, 0)
       else do {
         data \<leftarrow> font_image_data img pixel_width pixel_height y_offset (unat total_rows) (unat characters_per_row)
            (replicate (unat data_size) 0);
         (s3, f) \<leftarrow> font_create s2 data total_characters pixel_width pixel_height 32;
         Some (with_heap F1 s3, f)
       }
     }
   }"

primrec loaded_font_loop :: "'s tstate_scheme \<Rightarrow> u64 list \<Rightarrow> u8 list \<Rightarrow> u64 option" where
  "loaded_font_loop s [] fname = Some 0"
| "loaded_font_loop s (f # fs) fname =
     (if f = 0 then loaded_font_loop s fs fname
      else do {
        c \<leftarrow> strncmp (font_filename (font_at s f)) fname 108;
        if c = 0 then Some f else loaded_font_loop s fs fname
      })"

definition font_get_loaded_font :: "'s tstate_scheme \<Rightarrow> u8 list \<Rightarrow> u64 option" where
  "font_get_loaded_font s fname = do { v \<leftarrow> loaded_fonts s; fs \<leftarrow> tvec_items v; loaded_font_loop s fs fname }"

definition font_load ::
  "'k tstate_ext gstate_ext istate_scheme image_functions \<Rightarrow> 'k tstate_scheme allocator \<Rightarrow>
   ('k tstate_ext gstate_ext istate_ext kbstate_ext, 'b, 'p) filesystems \<Rightarrow>
   ('k tstate_ext gstate_ext, 'b, 'p) image_system \<Rightarrow> u8 list \<Rightarrow> (('k tstate_ext gstate_ext, 'b, 'p) image_system \<times> u64) option" where
  "font_load fns al fs F fname = do {
     f \<leftarrow> font_get_loaded_font (heap_of F) fname;
     if f \<noteq> 0 then Some (F, f)
     else do {
       (F1, f) \<leftarrow> font_load_from_image fns al fs F fname 9 16 4;
       if f = 0 then Some (F1, 0)
       else do {
         let s = heap_of F1;
         name \<leftarrow> strncpy (font_filename (font_at s f)) fname 108;
         let s1 = s\<lparr>font_at := (font_at s)(f := (font_at s f)\<lparr>font_filename := name\<rparr>)\<rparr>;
         v \<leftarrow> loaded_fonts s1;
         (s2, v', _) \<leftarrow> tvec_push s1 v f;
         Some (with_heap F1 (s2\<lparr>loaded_fonts := Some v'\<rparr>), f)
       }
     }
   }"

text \<open>\<open>None\<close> is also the panic without the system font.\<close>

definition font_system_init ::
  "'k tstate_ext gstate_ext istate_scheme image_functions \<Rightarrow> 'k tstate_scheme allocator \<Rightarrow>
   ('k tstate_ext gstate_ext istate_ext kbstate_ext, 'b, 'p) filesystems \<Rightarrow>
   ('k tstate_ext gstate_ext, 'b, 'p) image_system \<Rightarrow> u8 list \<Rightarrow> (('k tstate_ext gstate_ext, 'b, 'p) image_system \<times> int) option" where
  "font_system_init fns al fs F sysfont_path = do {
     (s1, v) \<leftarrow> tvec_new (heap_of F) 8 4;
     if v = None then Some (with_heap F (s1\<lparr>loaded_fonts := None\<rparr>), - ENOMEM)
     else do {
       (F2, f) \<leftarrow> font_load fns al fs (with_heap F (s1\<lparr>loaded_fonts := v\<rparr>)) sysfont_path;
       if f = 0 then None else Some (with_heap F2 ((heap_of F2)\<lparr>system_font := f\<rparr>), 0)
     }
   }"

text \<open>One pixel of a character: the bytes of the character begin at \<open>character_index\<close>.\<close>

definition font_bit :: "font \<Rightarrow> u64 \<Rightarrow> nat \<Rightarrow> nat \<Rightarrow> bool option" where
  "font_bit fo character_index x y =
     (let bit_index = of_nat y * bits_width_per_character fo + of_nat x; byte_index = unat (character_index + bit_index div 8)
      in if byte_index < length (character_data fo) then Some (bit (character_data fo ! byte_index) (unat (bit_index mod 8))) else None)"

definition font_pixel ::
  "font \<Rightarrow> u64 \<Rightarrow> int \<Rightarrow> int \<Rightarrow> framebuffer_pixel \<Rightarrow> u64 \<Rightarrow> nat \<Rightarrow> nat \<Rightarrow> 's gstate_scheme \<Rightarrow> 's gstate_scheme option" where
  "font_pixel fo g screen_x screen_y color character_index x y s = do {
     b \<leftarrow> font_bit fo character_index x y;
     if b then graphics_draw_pixel s g (word_of_int (screen_x + int x)) (word_of_int (screen_y + int y)) color else Some s
   }"

text \<open>The test against the number of characters lets the one behind the last pass.\<close>

definition font_draw_from_index ::
  "'s tstate_scheme \<Rightarrow> u64 \<Rightarrow> u64 \<Rightarrow> int \<Rightarrow> int \<Rightarrow> int \<Rightarrow> framebuffer_pixel \<Rightarrow> ('s tstate_scheme \<times> int) option" where
  "font_draw_from_index s g f screen_x screen_y index_character color =
     (if f = 0 then Some (s, - EINVARG)
      else let fo = font_at s f; w = bits_width_per_character fo; h = bits_height_per_character fo in
        if size_of_int index_character > character_count fo then Some (s, 0)
        else do {
          let character_index = size_of_int index_character * bytes_for_bits (w * h);
          s1 \<leftarrow> for_each (\<lambda>x. for_each (\<lambda>y. font_pixel fo g screen_x screen_y color character_index x y) [0..<unat h]) [0..<unat w] s;
          s2 \<leftarrow> graphics_redraw_graphics_to_screen s1 g (word_of_int screen_x) (word_of_int screen_y) (ucast w) (ucast h);
          Some (s2, 0)
        })"

definition font_draw ::
  "'s tstate_scheme \<Rightarrow> u64 \<Rightarrow> u64 \<Rightarrow> int \<Rightarrow> int \<Rightarrow> int \<Rightarrow> framebuffer_pixel \<Rightarrow> ('s tstate_scheme \<times> int) option" where
  "font_draw s g f screen_x screen_y character color =
     font_draw_from_index s g f screen_x screen_y (character - uint (subtract_from_ascii_char_index_for_drawing (font_at s f))) color"

fun font_draw_text_loop ::
  "'s tstate_scheme \<Rightarrow> u64 \<Rightarrow> u64 \<Rightarrow> int \<Rightarrow> int \<Rightarrow> u8 list \<Rightarrow> framebuffer_pixel \<Rightarrow> int \<Rightarrow> ('s tstate_scheme \<times> int) option" where
  "font_draw_text_loop s g f x y [] color res = None"
| "font_draw_text_loop s g f x y (c # str) color res =
     (if c = 0 then Some (s, res)
      else do {
        (s1, res) \<leftarrow> font_draw s g f x y (sint c) color;
        if res < 0 then Some (s1, res)
        else font_draw_text_loop s1 g f (x + int_of_size (bits_width_per_character (font_at s1 f))) y str color res
      })"

definition font_draw_text ::
  "'s tstate_scheme \<Rightarrow> u64 \<Rightarrow> u64 \<Rightarrow> int \<Rightarrow> int \<Rightarrow> u8 list \<Rightarrow> framebuffer_pixel \<Rightarrow> ('s tstate_scheme \<times> int) option" where
  "font_draw_text s g f screen_x screen_y str color =
     font_draw_text_loop s g (if f = 0 then font_get_system_font s else f) screen_x screen_y str color 0"


subsection \<open>Terminals\<close>

definition terminal_abs_x_for_next_character :: "'s tstate_scheme \<Rightarrow> u64 \<Rightarrow> u64" where
  "terminal_abs_x_for_next_character s t =
     (let tm = terminal_at s t in bounds_abs_x tm + text_col tm * bits_width_per_character (font_at s (term_font tm)))"

definition terminal_abs_y_for_next_character :: "'s tstate_scheme \<Rightarrow> u64 \<Rightarrow> u64" where
  "terminal_abs_y_for_next_character s t =
     (let tm = terminal_at s t in bounds_abs_y tm + text_row tm * bits_height_per_character (font_at s (term_font tm)))"

definition terminal_system_setup :: "'s tstate_scheme \<Rightarrow> 's tstate_scheme option" where
  "terminal_system_setup s = do { (s', v) \<leftarrow> tvec_new s 8 4; Some (s'\<lparr>terminal_vector := v\<rparr>) }"

text \<open>
  The copy takes the first pixels of the rectangle, as many as the terminal has, whatever the position and the size of
  the rectangle. Without memory the terminal has no background.
\<close>

definition terminal_background_save :: "'s tstate_scheme \<Rightarrow> u64 \<Rightarrow> 's tstate_scheme option" where
  "terminal_background_save s t =
     (let tm = terminal_at s t; total_pixels = bounds_width tm * bounds_height tm; buffer_size = total_pixels * 4 in do {
        (s1, bg) \<leftarrow> (if terminal_background tm \<noteq> 0 then Some (s, terminal_background tm)
          else do {
            (s', p) \<leftarrow> kzalloc s buffer_size;
            Some ((update_terminal s' t (\<lambda>tm. tm\<lparr>terminal_background := p\<rparr>))
              \<lparr>pixel_arrays := (if p = 0 then pixel_arrays s' else (pixel_arrays s')(p := replicate (unat buffer_size div 4) black))\<rparr>, p)
          });
        if bg = 0 then Some s1
        else do {
          let n = unat buffer_size div 4;
          let src = gi_pixels (graphics_at s1 (term_graphics tm));
          let dst = pixel_arrays s1 bg;
          if n > length dst then None
          else Some (s1\<lparr>pixel_arrays := (pixel_arrays s1)(bg :=
                 map (\<lambda>i. if i < length (pixel_arrays s1 src) then pixel_arrays s1 src ! i else pixels_behind s1 src i) [0..<n] @ drop n dst)\<rparr>)
        }
      })"

definition terminal_free :: "'s tstate_scheme \<Rightarrow> u64 \<Rightarrow> 's tstate_scheme option" where
  "terminal_free s t =
     (if t = 0 then None
      else do {
        let bg = terminal_background (terminal_at s t);
        let s1 = (if bg \<noteq> 0 then update_terminal (kfree s bg) t (\<lambda>tm. tm\<lparr>terminal_background := 0\<rparr>) else s);
        v \<leftarrow> terminal_vector s1;
        (s2, v', _) \<leftarrow> tvec_pop_element s1 v t;
        Some (kfree (s2\<lparr>terminal_vector := Some v'\<rparr>) t)
      })"

text \<open>The address is null when the terminal was not made. Without memory for it the clean-up frees the null pointer.\<close>

definition terminal_create ::
  "'s tstate_scheme \<Rightarrow> u64 \<Rightarrow> int \<Rightarrow> int \<Rightarrow> u64 \<Rightarrow> u64 \<Rightarrow> u64 \<Rightarrow> framebuffer_pixel \<Rightarrow> u32 \<Rightarrow> ('s tstate_scheme \<times> u64) option" where
  "terminal_create s g x y width height f color fl =
     (if f = 0 then Some (s, 0)
      else if g = 0 then Some (s, 0)
      else if x < 0 \<or> y < 0 \<or> (word_of_int x :: u32) \<ge> horizontal_resolution (graphics_at s g) \<or>
              (word_of_int y :: u32) \<ge> vertical_resolution (graphics_at s g) then Some (s, 0)
      else do {
        (s1, t) \<leftarrow> kzalloc s 80;
        if t = 0 then do { s2 \<leftarrow> terminal_free s1 t; Some (s2, 0) }
        else do {
          let s2 = update_terminal s1 t (\<lambda>_. \<lparr>term_graphics = g, terminal_background = 0, text_row = 0, text_col = 0,
                bounds_abs_x = size_of_int x, bounds_abs_y = size_of_int y, bounds_width = width, bounds_height = height,
                term_font = f, font_color = color, term_flags = fl\<rparr>);
          s3 \<leftarrow> terminal_background_save s2 t;
          v \<leftarrow> terminal_vector s3;
          (s4, v', _) \<leftarrow> tvec_push s3 v t;
          Some (s4\<lparr>terminal_vector := Some v'\<rparr>, t)
        }
      })"

text \<open>A point is compared with the width and the height of a terminal, not with its right and lower edge.\<close>

primrec terminal_position_loop :: "'s tstate_scheme \<Rightarrow> u64 list \<Rightarrow> u64 \<Rightarrow> u64 \<Rightarrow> u64 \<Rightarrow> u64" where
  "terminal_position_loop s [] x y ignore_terminal = 0"
| "terminal_position_loop s (t # ts) x y ignore_terminal =
     (if t = ignore_terminal then terminal_position_loop s ts x y ignore_terminal
      else if x \<ge> bounds_abs_x (terminal_at s t) \<and> x \<le> bounds_width (terminal_at s t) \<and>
              y \<ge> bounds_abs_y (terminal_at s t) \<and> y \<le> bounds_height (terminal_at s t) then t
      else terminal_position_loop s ts x y ignore_terminal)"

definition terminal_get_at_screen_position :: "'s tstate_scheme \<Rightarrow> u64 \<Rightarrow> u64 \<Rightarrow> u64 \<Rightarrow> u64 option" where
  "terminal_get_at_screen_position s x y ignore_terminal = do {
     v \<leftarrow> terminal_vector s;
     ts \<leftarrow> tvec_items v;
     Some (terminal_position_loop s ts x y ignore_terminal)
   }"

subsection \<open>The cursor\<close>

definition terminal_total_cols :: "'s tstate_scheme \<Rightarrow> u64 \<Rightarrow> int option" where
  "terminal_total_cols s t =
     (let tm = terminal_at s t; w = bits_width_per_character (font_at s (term_font tm))
      in if w = 0 then None else Some (int_of_size (bounds_width tm div w)))"

definition terminal_total_rows :: "'s tstate_scheme \<Rightarrow> u64 \<Rightarrow> int option" where
  "terminal_total_rows s t =
     (let tm = terminal_at s t; h = bits_height_per_character (font_at s (term_font tm))
      in if h = 0 then None else Some (int_of_size (bounds_height tm div h)))"

definition terminal_cursor_row :: "'s tstate_scheme \<Rightarrow> u64 \<Rightarrow> int" where
  "terminal_cursor_row s t = int_of_size (text_row (terminal_at s t))"

definition terminal_cursor_col :: "'s tstate_scheme \<Rightarrow> u64 \<Rightarrow> int" where
  "terminal_cursor_col s t = int_of_size (text_col (terminal_at s t))"

text \<open>A newline past the last row goes to the first.\<close>

definition terminal_handle_newline :: "'s tstate_scheme \<Rightarrow> u64 \<Rightarrow> 's tstate_scheme option" where
  "terminal_handle_newline s t = do {
     let s1 = update_terminal s t (\<lambda>tm. tm\<lparr>text_row := text_row tm + 1\<rparr>);
     rows \<leftarrow> terminal_total_rows s1 t;
     let s2 = (if text_row (terminal_at s1 t) \<ge> size_of_int rows then update_terminal s1 t (\<lambda>tm. tm\<lparr>text_row := 0\<rparr>) else s1);
     Some (update_terminal s2 t (\<lambda>tm. tm\<lparr>text_col := 0\<rparr>))
   }"

definition terminal_update_position_after_draw :: "'s tstate_scheme \<Rightarrow> u64 \<Rightarrow> 's tstate_scheme option" where
  "terminal_update_position_after_draw s t = do {
     let s1 = update_terminal s t (\<lambda>tm. tm\<lparr>text_col := text_col tm + 1\<rparr>);
     cols \<leftarrow> terminal_total_cols s1 t;
     rows \<leftarrow> terminal_total_rows s1 t;
     let s2 = (if text_col (terminal_at s1 t) \<ge> size_of_int cols
       then update_terminal s1 t (\<lambda>tm. tm\<lparr>text_row := text_row tm + 1, text_col := 0\<rparr>) else s1);
     Some (if text_row (terminal_at s2 t) \<ge> size_of_int rows
       then update_terminal s2 t (\<lambda>tm. tm\<lparr>text_row := 0, text_col := 0\<rparr>) else s2)
   }"

definition terminal_cursor_set :: "'s tstate_scheme \<Rightarrow> u64 \<Rightarrow> int \<Rightarrow> int \<Rightarrow> ('s tstate_scheme \<times> int) option" where
  "terminal_cursor_set s t row col = do {
     cols \<leftarrow> terminal_total_cols s t;
     rows \<leftarrow> terminal_total_rows s t;
     if col < 0 \<or> size_of_int col \<ge> size_of_int cols then Some (s, - EINVARG)
     else if row < 0 \<or> size_of_int row \<ge> size_of_int rows then Some (s, - EINVARG)
     else Some (update_terminal s t (\<lambda>tm. tm\<lparr>text_row := size_of_int row, text_col := size_of_int col\<rparr>), 0)
   }"

subsection \<open>Writing\<close>

definition terminal_bounds_check :: "terminal \<Rightarrow> u64 \<Rightarrow> u64 \<Rightarrow> bool" where
  "terminal_bounds_check tm abs_x abs_y =
     (abs_x \<ge> bounds_abs_x tm \<and> abs_x \<le> bounds_abs_x tm + bounds_width tm \<and>
      abs_y \<ge> bounds_abs_y tm \<and> abs_y \<le> bounds_abs_y tm + bounds_height tm)"

text \<open>One pixel of the background. It is read at the loop's own coordinates, without \<open>sx\<close> and \<open>sy\<close>.\<close>

definition restore_pixel :: "terminal \<Rightarrow> int \<Rightarrow> int \<Rightarrow> nat \<Rightarrow> nat \<Rightarrow> 's gstate_scheme \<Rightarrow> 's gstate_scheme option" where
  "restore_pixel tm sx sy x y s =
     (let abs_x = bounds_abs_x tm + size_of_int sx + of_nat x; abs_y = bounds_abs_y tm + size_of_int sy + of_nat y
      in if abs_x > bounds_width tm \<or> abs_y > bounds_height tm then Some s
         else do {
           p \<leftarrow> pixel_read s (terminal_background tm) (unat (of_nat y * bounds_width tm + of_nat x));
           graphics_draw_pixel s (term_graphics tm) (ucast abs_x) (ucast abs_y) p
         })"

definition terminal_restore_background :: "'s tstate_scheme \<Rightarrow> u64 \<Rightarrow> int \<Rightarrow> int \<Rightarrow> int \<Rightarrow> int \<Rightarrow> 's tstate_scheme option" where
  "terminal_restore_background s t sx sy width height = do {
     let tm = terminal_at s t;
     s1 \<leftarrow> for_each (\<lambda>x. for_each (\<lambda>y. restore_pixel tm sx sy x y) [0..<nat height]) [0..<nat width] s;
     graphics_redraw_graphics_to_screen s1 (term_graphics tm) (ucast (bounds_abs_x tm + size_of_int sx))
       (ucast (bounds_abs_y tm + size_of_int sy)) (word_of_int width) (word_of_int height)
   }"

text \<open>The cell before the cursor's: from the first cell it goes to the first column of the last row.\<close>

definition previous_cell :: "int \<Rightarrow> int \<Rightarrow> int \<Rightarrow> int \<Rightarrow> int \<times> int" where
  "previous_cell total_rows total_cols current_row current_col =
     (let (row, col) = (current_row, current_col - 1);
          (row, col) = (if col < 0 then (row - 1, total_cols - 1) else (row, col));
          (row, col) = (if row < 0 then (total_rows - 1, 0) else (row, col));
          (row, col) = (if col \<ge> total_cols then (row + 1, 0) else (row, col))
      in if row \<ge> total_rows then (0, 0) else (row, col))"

definition terminal_backspace :: "'s tstate_scheme \<Rightarrow> u64 \<Rightarrow> ('s tstate_scheme \<times> int) option" where
  "terminal_backspace s t =
     (if term_flags (terminal_at s t) AND TERMINAL_FLAG_BACKSPACE_ALLOWED = 0 then Some (s, 0)
      else do {
        rows \<leftarrow> terminal_total_rows s t;
        cols \<leftarrow> terminal_total_cols s t;
        let (row, col) = previous_cell rows cols (terminal_cursor_row s t) (terminal_cursor_col s t);
        (s1, _) \<leftarrow> terminal_cursor_set s t row col;
        let tm = terminal_at s1 t;
        let w = bits_width_per_character (font_at s1 (term_font tm));
        let h = bits_height_per_character (font_at s1 (term_font tm));
        s2 \<leftarrow> terminal_restore_background s1 t (int_of_size (text_col tm * w)) (int_of_size (text_row tm * h)) (int_of_size w) (int_of_size h);
        Some (s2, 0)
      })"

definition terminal_write :: "'s tstate_scheme \<Rightarrow> u64 \<Rightarrow> int \<Rightarrow> ('s tstate_scheme \<times> int) option" where
  "terminal_write s t c =
     (if c = 10 then do { s1 \<leftarrow> terminal_handle_newline s t; Some (s1, 0) }
      else if c = 8 \<and> term_flags (terminal_at s t) AND TERMINAL_FLAG_BACKSPACE_ALLOWED \<noteq> 0
        then do { (s1, _) \<leftarrow> terminal_backspace s t; Some (s1, 0) }
      else do {
        let tm = terminal_at s t;
        (s1, _) \<leftarrow> font_draw s (term_graphics tm) (term_font tm) (int_of_size (terminal_abs_x_for_next_character s t))
          (int_of_size (terminal_abs_y_for_next_character s t)) c (font_color tm);
        s2 \<leftarrow> terminal_update_position_after_draw s1 t;
        Some (s2, 0)
      })"

fun terminal_print_loop :: "'s tstate_scheme \<Rightarrow> u64 \<Rightarrow> u8 list \<Rightarrow> int \<Rightarrow> ('s tstate_scheme \<times> int) option" where
  "terminal_print_loop s t [] res = None"
| "terminal_print_loop s t (c # str) res =
     (if c = 0 then Some (s, res)
      else do {
        (s1, res) \<leftarrow> terminal_write s t (sint c);
        if res < 0 then Some (s1, res) else terminal_print_loop s1 t str res
      })"

definition terminal_print :: "'s tstate_scheme \<Rightarrow> u64 \<Rightarrow> u8 list \<Rightarrow> ('s tstate_scheme \<times> int) option" where
  "terminal_print s t message = terminal_print_loop s t message 0"

subsection \<open>Drawing through a terminal\<close>

definition terminal_pixel_set :: "'s tstate_scheme \<Rightarrow> u64 \<Rightarrow> u64 \<Rightarrow> u64 \<Rightarrow> framebuffer_pixel \<Rightarrow> ('s tstate_scheme \<times> int) option" where
  "terminal_pixel_set s t x y pixel_color =
     (let tm = terminal_at s t; abs_x = bounds_abs_x tm + x; abs_y = bounds_abs_y tm + y
      in if \<not> terminal_bounds_check tm abs_x abs_y then Some (s, - EINVARG)
         else do { s1 \<leftarrow> graphics_draw_pixel s (term_graphics tm) (ucast abs_x) (ucast abs_y) pixel_color; Some (s1, 0) })"

definition terminal_transparency_key_set :: "'s tstate_scheme \<Rightarrow> u64 \<Rightarrow> framebuffer_pixel \<Rightarrow> 's tstate_scheme" where
  "terminal_transparency_key_set s t pixel_color = graphics_transparency_key_set s (term_graphics (terminal_at s t)) pixel_color"

definition terminal_transparency_key_remove :: "'s tstate_scheme \<Rightarrow> u64 \<Rightarrow> 's tstate_scheme" where
  "terminal_transparency_key_remove s t = graphics_transparency_key_remove s (term_graphics (terminal_at s t))"

definition terminal_ignore_color :: "'s tstate_scheme \<Rightarrow> u64 \<Rightarrow> framebuffer_pixel \<Rightarrow> 's tstate_scheme" where
  "terminal_ignore_color s t pixel_color = graphics_ignore_color s (term_graphics (terminal_at s t)) pixel_color"

definition terminal_ignore_color_finish :: "'s tstate_scheme \<Rightarrow> u64 \<Rightarrow> 's tstate_scheme" where
  "terminal_ignore_color_finish s t = graphics_ignore_color_finish s (term_graphics (terminal_at s t))"

definition terminal_draw_image :: "'s tstate_scheme \<Rightarrow> u64 \<Rightarrow> u32 \<Rightarrow> u32 \<Rightarrow> u64 \<Rightarrow> ('s tstate_scheme \<times> int) option" where
  "terminal_draw_image s t x y img =
     (let tm = terminal_at s t; abs_x = bounds_abs_x tm + ucast x; abs_y = bounds_abs_y tm + ucast y
      in if \<not> terminal_bounds_check tm abs_x abs_y then Some (s, - EINVARG)
         else do { s1 \<leftarrow> graphics_draw_image s (term_graphics tm) img (int_of_size abs_x) (int_of_size abs_y); Some (s1, 0) })"

definition terminal_draw_rect ::
  "'s tstate_scheme \<Rightarrow> u64 \<Rightarrow> u32 \<Rightarrow> u32 \<Rightarrow> u64 \<Rightarrow> u64 \<Rightarrow> framebuffer_pixel \<Rightarrow> ('s tstate_scheme \<times> int) option" where
  "terminal_draw_rect s t x y width height pixel_color =
     (let tm = terminal_at s t; abs_x = bounds_abs_x tm + ucast x; abs_y = bounds_abs_y tm + ucast y
      in if \<not> terminal_bounds_check tm abs_x abs_y then Some (s, - EINVARG)
         else do { s1 \<leftarrow> graphics_draw_rect s (term_graphics tm) (ucast abs_x) (ucast abs_y) width height pixel_color; Some (s1, 0) })"

end
