(* ===== verification/Typing.thy ===== *)
theory Typing
  imports Terminal
begin

section \<open>Terminals at work\<close>

text \<open>
  What the functions of Terminal do on a terminal in order: drawing returns and changes only pixels inside a cell, and
  the cursor moves as a single number that counts cells. The order of a terminal (\<open>term_ok\<close>) is what \<open>terminal_create\<close>
  and the vectors of Graphics set up, spelled out as bounds on the machine's integers and on the arrays.
\<close>

subsection \<open>Drawing returns\<close>

text \<open>
  \<open>drawn s s'\<close>: nothing but the screen and the contents of pixel arrays differ. \<open>paintable s\<close>: the tree of rectangles
  of the screen is what Painting reasons about.
\<close>

definition drawn :: "'s gstate_scheme \<Rightarrow> 's gstate_scheme \<Rightarrow> bool" where
  "drawn s s' \<longleftrightarrow> (\<exists>c arrays. s' = s\<lparr>pixel_arrays := arrays, screen := c\<rparr> \<and> (\<forall>a. length (arrays a) = length (pixel_arrays s a)))"

definition paintable :: "'s gstate_scheme \<Rightarrow> bool" where
  "paintable s \<longleftrightarrow> screen_ok s \<and> (\<exists>L. represents s (loaded_graphics_info s) L \<and> nested L)"

lemma drawn_refl [simp]: "drawn s s"
  unfolding drawn_def by (rule exI [of _ "screen s"], rule exI [of _ "pixel_arrays s"]) simp

lemma drawn_arrays: "(\<And>a. length (arrays a) = length (pixel_arrays s a)) \<Longrightarrow> drawn s (s\<lparr>pixel_arrays := arrays\<rparr>)"
  unfolding drawn_def by (rule exI [of _ "screen s"], rule exI [of _ arrays]) simp

lemma drawn_trans [trans]:
  assumes "drawn s s'" "drawn s' s''"
  shows "drawn s s''"
proof -
  obtain c a where 1: "s' = s\<lparr>pixel_arrays := a, screen := c\<rparr>" "\<forall>x. length (a x) = length (pixel_arrays s x)"
    using assms(1) unfolding drawn_def by (elim exE conjE) (rule that)
  obtain c' a' where 2: "s'' = s'\<lparr>pixel_arrays := a', screen := c'\<rparr>" "\<forall>x. length (a' x) = length (pixel_arrays s' x)"
    using assms(2) unfolding drawn_def by (elim exE conjE) (rule that)
  show ?thesis unfolding drawn_def
    by (rule exI [of _ c'], rule exI [of _ a']) (use 1 2 in simp)
qed

lemma drawn_same:
  assumes "drawn s s'"
  shows "graphics_at s' = graphics_at s" "loaded_graphics_info s' = loaded_graphics_info s" "length (pixel_arrays s' a) = length (pixel_arrays s a)"
    "graphics_children s' = graphics_children s"
  using assms unfolding drawn_def by (auto simp: graphics_children_def fun_eq_iff)

lemma drawn_same_terminals:
  fixes s :: "'s tstate_scheme"
  assumes "drawn s s'"
  shows "terminal_at s' = terminal_at s" "font_at s' = font_at s"
  using assms unfolding drawn_def by auto

lemma drawn_drawable: "drawn s s' \<Longrightarrow> drawable s' g = drawable s g"
  by (simp add: drawable_def drawn_same)

lemma represents_same:
  assumes "represents s g L" and same: "graphics_at s' = graphics_at s" and len: "\<And>a. length (pixel_arrays s a) \<le> length (pixel_arrays s' a)"
  shows "\<exists>L'. represents s' g L' \<and> layer_rect L' = layer_rect L \<and> (nested L \<longrightarrow> nested L')"
  using assms(1)
proof induction
  case (1 g kids ls)
  have "\<forall>i\<in>{..<length ls}. \<exists>L'. represents s' (filter (\<lambda>c. c \<noteq> 0) kids ! i) L' \<and> layer_rect L' = layer_rect (ls ! i) \<and> (nested (ls ! i) \<longrightarrow> nested L')"
    using 1(5) by blast
  then obtain F where F: "\<forall>i\<in>{..<length ls}. represents s' (filter (\<lambda>c. c \<noteq> 0) kids ! i) (F i) \<and>
      layer_rect (F i) = layer_rect (ls ! i) \<and> (nested (ls ! i) \<longrightarrow> nested (F i))"
    by (rule bchoice [THEN exE])
  let ?ls = "map F [0..<length ls]" and ?L = "Layer g (graphics_rect (graphics_at s' g)) (layer_pixel s' g) (map F [0..<length ls])"
  have "represents s' g ?L"
  proof (rule represents.intros)
    show "g \<noteq> 0" by (rule 1(1))
    show "drawable s' g" using 1(2) len order_trans by (fastforce simp: drawable_def Let_def same)
    show "graphics_children s' g = Some kids" using 1(3) by (simp add: graphics_children_def same)
    show "length ?ls = length (filter (\<lambda>c. c \<noteq> 0) kids)" using 1(4) by simp
    show "\<forall>i<length ?ls. represents s' (filter (\<lambda>c. c \<noteq> 0) kids ! i) (?ls ! i)" using F by simp
  qed
  moreover have "layer_rect ?L = layer_rect (Layer g (graphics_rect (graphics_at s g)) (layer_pixel s g) ls)"
    by (simp add: same)
  moreover have "nested ?L" if n: "nested (Layer g (graphics_rect (graphics_at s g)) (layer_pixel s g) ls)"
  proof -
    have "nested (F i) \<and> within (layer_rect (F i)) (graphics_rect (graphics_at s g))" if "i < length ls" for i
      using F n that by simp
    then show ?thesis by (auto simp: same)
  qed
  ultimately show ?case by blast
qed

lemma paintable_same:
  assumes "paintable s" "graphics_at s' = graphics_at s" "loaded_graphics_info s' = loaded_graphics_info s"
    "\<And>a. length (pixel_arrays s a) \<le> length (pixel_arrays s' a)"
  shows "paintable s'"
  using assms(1) represents_same [OF _ assms(2,4)] unfolding paintable_def by (auto simp: screen_ok_def screen_size_def assms(2,3))

lemma paintable_drawn: "paintable s \<Longrightarrow> drawn s s' \<Longrightarrow> paintable s'"
  by (rule paintable_same [of s s']) (use drawn_same [of s s'] in simp_all)

lemma graphics_draw_pixel_returns:
  assumes "drawable s g"
  shows "\<exists>s'. graphics_draw_pixel s g x y p = Some s' \<and> drawn s s'"
proof -
  let ?gi = "graphics_at s g"
  have d: "unat (gi_width ?gi) * unat (gi_height ?gi) \<le> length (pixel_arrays s (gi_pixels ?gi))" "unat (gi_width ?gi) * unat (gi_height ?gi) < 2 ^ 32"
    using assms by (simp_all add: drawable_def Let_def)
  have "\<exists>s'. pixel_write s (gi_pixels ?gi) (unat (y * gi_width ?gi + x)) p = Some s' \<and> drawn s s'" if "x < gi_width ?gi" "y < gi_height ?gi"
  proof -
    have i: "unat y * unat (gi_width ?gi) + unat x < unat (gi_height ?gi) * unat (gi_width ?gi)"
      using that by (intro row_col_less) (simp_all add: word_less_nat_alt)
    then have "unat (y * gi_width ?gi + x) < length (pixel_arrays s (gi_pixels ?gi))"
      using d by (simp add: unat_index mult.commute)
    then show ?thesis by (auto simp: pixel_write_def intro!: drawn_arrays)
  qed
  then show ?thesis by (auto simp: graphics_draw_pixel_def Let_def)
qed

lemma for_each_drawn:
  assumes "\<And>x s'. x \<in> set xs \<Longrightarrow> drawn s s' \<Longrightarrow> \<exists>s''. f x s' = Some s'' \<and> drawn s' s''"
  shows "\<exists>s'. for_each f xs s = Some s' \<and> drawn s s'"
  using assms
proof (induction xs arbitrary: s)
  case (Cons x xs)
  obtain s1 where s1: "f x s = Some s1" "drawn s s1" using Cons.prems [of x s] by auto
  obtain s2 where "for_each f xs s1 = Some s2" "drawn s1 s2"
    using Cons.IH [of s1] Cons.prems drawn_trans [OF s1(2)] by (metis list.set_intros(2))
  then show ?case using s1 drawn_trans by auto
qed simp

lemma redraw_to_screen_returns:
  assumes "paintable s" "unat (starting_x (graphics_at s g) + x) + unat w < 2 ^ 32" "unat (starting_y (graphics_at s g) + y) + unat h < 2 ^ 32"
  shows "\<exists>s'. graphics_redraw_graphics_to_screen s g x y w h = Some s' \<and> drawn s s' \<and> pixel_arrays s' = pixel_arrays s"
proof -
  obtain L where L: "represents s (loaded_graphics_info s) L" "nested L" "screen_ok s"
    using assms(1) unfolding paintable_def by blast
  obtain c where "graphics_redraw_graphics_to_screen s g x y w h = Some (s\<lparr>screen := c\<rparr>)"
    using redraw_region_pointwise [OF L(1,3,2) assms(2,3)] unfolding pointwise_def graphics_redraw_graphics_to_screen_def graphics_screen_info_def
    by (auto dest!: spec [of _ "screen s"])
  moreover have "drawn s (s\<lparr>screen := c\<rparr>)" unfolding drawn_def
    by (rule exI [of _ c], rule exI [of _ "pixel_arrays s"]) simp
  ultimately show ?thesis by simp
qed

subsection \<open>A terminal in order\<close>

text \<open>
  The cells of a terminal are numbered line by line. \<open>term_ok\<close>: the cursor is in a cell, the terminal is inside what
  the machine's integers can count, and its rectangle, its font and, where it may be used, its background have the memory
  that drawing reads and writes.
\<close>

definition term_size :: "'s tstate_scheme \<Rightarrow> u64 \<Rightarrow> nat \<times> nat" where
  "term_size s t = (let tm = terminal_at s t; f = font_at s (term_font tm) in
     (unat (bounds_height tm) div unat (bits_height_per_character f), unat (bounds_width tm) div unat (bits_width_per_character f)))"

definition term_cell :: "'s tstate_scheme \<Rightarrow> u64 \<Rightarrow> nat" where
  "term_cell s t = unat (text_row (terminal_at s t)) * snd (term_size s t) + unat (text_col (terminal_at s t))"

definition cursor_ok :: "'s tstate_scheme \<Rightarrow> u64 \<Rightarrow> bool" where
  "cursor_ok s t \<longleftrightarrow> unat (text_row (terminal_at s t)) < fst (term_size s t) \<and> unat (text_col (terminal_at s t)) < snd (term_size s t)"

definition font_ok :: "font \<Rightarrow> bool" where
  "font_ok f \<longleftrightarrow> 0 < unat (bits_width_per_character f) \<and> 0 < unat (bits_height_per_character f) \<and>
     unat (character_count f) * unat (bytes_for_bits (bits_width_per_character f * bits_height_per_character f)) \<le> length (character_data f) \<and>
     length (character_data f) < 2 ^ 64"

definition frame_ok :: "'s tstate_scheme \<Rightarrow> u64 \<Rightarrow> bool" where
  "frame_ok s t \<longleftrightarrow> (let tm = terminal_at s t; g = graphics_at s (term_graphics tm) in
     drawable s (term_graphics tm) \<and> term_font tm \<noteq> 0 \<and>
     unat (starting_x g) + unat (bounds_abs_x tm) + unat (bounds_width tm) < 2 ^ 31 \<and>
     unat (starting_y g) + unat (bounds_abs_y tm) + unat (bounds_height tm) < 2 ^ 31 \<and>
     (term_flags tm AND TERMINAL_FLAG_BACKSPACE_ALLOWED \<noteq> 0 \<longrightarrow>
        unat (bounds_width tm) * unat (bounds_height tm) \<le> length (pixel_arrays s (terminal_background tm)) \<and>
        terminal_background tm \<noteq> gi_pixels g))"

definition term_ok :: "'s tstate_scheme \<Rightarrow> u64 \<Rightarrow> bool" where
  "term_ok s t \<longleftrightarrow> paintable s \<and> font_ok (font_at s (term_font (terminal_at s t))) \<and> frame_ok s t \<and> cursor_ok s t"

text \<open>What a character does to the number of the cell.\<close>

definition cursor_step :: "nat \<times> nat \<Rightarrow> bool \<Rightarrow> int \<Rightarrow> nat \<Rightarrow> nat" where
  "cursor_step sz erase c p = (case sz of (rows, cols) \<Rightarrow>
     if c = 10 then ((p div cols + 1) mod rows) * cols
     else if c = 8 \<and> erase then (if p = 0 then (rows - 1) * cols else p - 1)
     else (p + 1) mod (rows * cols))"

text \<open>Only the cursor of terminal \<open>t\<close> and what is drawn differ.\<close>

definition moved :: "u64 \<Rightarrow> 's tstate_scheme \<Rightarrow> 's tstate_scheme \<Rightarrow> bool" where
  "moved t s s' \<longleftrightarrow> (\<exists>s1 row col. drawn s s1 \<and> s' = update_terminal s1 t (\<lambda>tm. tm\<lparr>text_row := row, text_col := col\<rparr>))"

subsection \<open>What writing draws\<close>

definition pixel_at :: "'s gstate_scheme \<Rightarrow> u64 \<Rightarrow> nat \<Rightarrow> nat \<Rightarrow> framebuffer_pixel" where
  "pixel_at s g X Y = pixel_arrays s (gi_pixels (graphics_at s g)) ! (Y * unat (gi_width (graphics_at s g)) + X)"

text \<open>
  \<open>painted g hit v s s'\<close>: of all pixel arrays only that of \<open>g\<close> differs, and there the points that are hit have
  value \<open>v\<close> and the others are as before.
\<close>

definition painted :: "u64 \<Rightarrow> (nat \<Rightarrow> nat \<Rightarrow> bool) \<Rightarrow> (nat \<Rightarrow> nat \<Rightarrow> framebuffer_pixel) \<Rightarrow> 's gstate_scheme \<Rightarrow> 's gstate_scheme \<Rightarrow> bool" where
  "painted g hit v s s' \<longleftrightarrow> drawn s s' \<and> (\<forall>a. a \<noteq> gi_pixels (graphics_at s g) \<longrightarrow> pixel_arrays s' a = pixel_arrays s a) \<and>
     (\<forall>X Y. X < unat (gi_width (graphics_at s g)) \<and> Y < unat (gi_height (graphics_at s g)) \<longrightarrow>
        pixel_at s' g X Y = (if hit X Y then v X Y else pixel_at s g X Y))"

lemma painted_none: "painted g (\<lambda>X Y. False) v s s"
  by (simp add: painted_def)

lemma painted_trans:
  assumes "painted g hit v s s'" "painted g hit' v s' s''"
  shows "painted g (\<lambda>X Y. hit X Y \<or> hit' X Y) v s s''"
proof -
  have d: "drawn s s'" "drawn s' s''" using assms by (simp_all add: painted_def)
  show ?thesis using assms drawn_trans [OF d] by (simp add: painted_def drawn_same [OF d(1)])
qed

lemma painted_redrawn:
  assumes "painted g hit v s s'" "drawn s' s''" "pixel_arrays s'' = pixel_arrays s'"
  shows "painted g hit v s s''"
proof -
  have "drawn s s'" using assms(1) by (simp add: painted_def)
  then have "drawn s s''" using assms(2) by (rule drawn_trans)
  moreover have "pixel_at s'' g = pixel_at s' g" by (simp add: pixel_at_def fun_eq_iff assms(3) drawn_same(1) [OF assms(2)])
  ultimately show ?thesis using assms(1) unfolding painted_def assms(3) by simp
qed

lemma painted_cong: "painted g hit v s s' \<Longrightarrow> (\<And>X Y. hit X Y = hit' X Y) \<Longrightarrow> painted g hit' v s s'"
  by (simp add: painted_def)

lemma painted_value: "painted g hit (\<lambda>X Y. p) s s' \<Longrightarrow> (\<And>X Y. hit X Y \<Longrightarrow> v X Y = p) \<Longrightarrow> painted g hit v s s'"
  by (auto simp: painted_def)

definition touched :: "u64 \<Rightarrow> 's gstate_scheme \<Rightarrow> 's gstate_scheme \<Rightarrow> bool" where
  "touched g s s' \<longleftrightarrow> drawn s s' \<and> (\<forall>a. a \<noteq> gi_pixels (graphics_at s g) \<longrightarrow> pixel_arrays s' a = pixel_arrays s a)"

lemma touched_refl [simp]: "touched g s s"
  by (simp add: touched_def)

lemma painted_touched: "touched g s s' \<Longrightarrow> painted g hit v s' s'' \<Longrightarrow> touched g s s''"
  using drawn_trans [of s s' s''] drawn_same(1) [of s s'] by (simp add: touched_def painted_def)

lemma for_each_paints:
  assumes "\<And>x s'. x \<in> set xs \<Longrightarrow> touched g s s' \<Longrightarrow> \<exists>s''. f x s' = Some s'' \<and> painted g (hit x) v s' s''"
  shows "\<exists>s'. for_each f xs s = Some s' \<and> painted g (\<lambda>X Y. \<exists>x\<in>set xs. hit x X Y) v s s'"
proof -
  have "\<exists>s''. for_each f xs s' = Some s'' \<and> painted g (\<lambda>X Y. \<exists>x\<in>set xs. hit x X Y) v s' s''" if "touched g s s'" for s'
    using that assms
  proof (induction xs arbitrary: s')
    case Nil
    then show ?case by (simp add: painted_none)
  next
    case (Cons x xs)
    obtain s1 where s1: "f x s' = Some s1" "painted g (hit x) v s' s1" using Cons.prems by (metis list.set_intros(1))
    obtain s2 where s2: "for_each f xs s1 = Some s2" "painted g (\<lambda>X Y. \<exists>x\<in>set xs. hit x X Y) v s1 s2"
      using Cons.IH [OF painted_touched [OF Cons.prems(1) s1(2)]] Cons.prems(2) by auto
    have "painted g (\<lambda>X Y. \<exists>x\<in>set (x # xs). hit x X Y) v s' s2"
      using painted_trans [OF s1(2) s2(2)] by (rule painted_cong) simp
    then show ?case using s1 s2 by auto
  qed
  then show ?thesis by simp
qed

text \<open>A rectangle of pixels, by columns.\<close>

lemma for_each_paints_rectangle:
  assumes "\<And>x y s'. x < w \<Longrightarrow> y < h \<Longrightarrow> touched g s s' \<Longrightarrow>
    \<exists>s''. f x y s' = Some s'' \<and> painted g (\<lambda>X Y. X = X0 + x \<and> Y = Y0 + y \<and> B X Y) v s' s''"
  shows "\<exists>s'. for_each (\<lambda>x. for_each (f x) [0..<h]) [0..<w] s = Some s' \<and> painted g (\<lambda>X Y. inside (X0, Y0, w, h) X Y \<and> B X Y) v s s'"
proof -
  have "\<exists>s''. for_each (f x) [0..<h] s' = Some s'' \<and> painted g (\<lambda>X Y. \<exists>y\<in>set [0..<h]. X = X0 + x \<and> Y = Y0 + y \<and> B X Y) v s' s''"
    if x: "x \<in> set [0..<w]" and t: "touched g s s'" for x s'
  proof (rule for_each_paints)
    fix y r assume y: "y \<in> set [0..<h]" and t': "touched g s' r"
    have "touched g s r" using t t' drawn_trans [of s s' r] drawn_same(1) [of s s'] by (simp add: touched_def)
    then show "\<exists>r'. f x y r = Some r' \<and> painted g (\<lambda>X Y. X = X0 + x \<and> Y = Y0 + y \<and> B X Y) v r r'"
      using assms x y by simp
  qed
  then obtain s' where s': "for_each (\<lambda>x. for_each (f x) [0..<h]) [0..<w] s = Some s'"
    "painted g (\<lambda>X Y. \<exists>x\<in>set [0..<w]. \<exists>y\<in>set [0..<h]. X = X0 + x \<and> Y = Y0 + y \<and> B X Y) v s s'"
    using for_each_paints [where xs = "[0..<w]" and f = "\<lambda>x. for_each (f x) [0..<h]"
      and hit = "\<lambda>x X Y. \<exists>y\<in>set [0..<h]. X = X0 + x \<and> Y = Y0 + y \<and> B X Y"] by blast
  have "painted g (\<lambda>X Y. inside (X0, Y0, w, h) X Y \<and> B X Y) v s s'"
    using s'(2)
  proof (rule painted_cong)
    fix X Y
    show "(\<exists>x\<in>set [0..<w]. \<exists>y\<in>set [0..<h]. X = X0 + x \<and> Y = Y0 + y \<and> B X Y) = (inside (X0, Y0, w, h) X Y \<and> B X Y)"
    proof
      assume "inside (X0, Y0, w, h) X Y \<and> B X Y"
      then have "X - X0 \<in> set [0..<w]" "Y - Y0 \<in> set [0..<h]" "X = X0 + (X - X0) \<and> Y = Y0 + (Y - Y0) \<and> B X Y" by auto
      then show "\<exists>x\<in>set [0..<w]. \<exists>y\<in>set [0..<h]. X = X0 + x \<and> Y = Y0 + y \<and> B X Y" by blast
    qed auto
  qed
  then show ?thesis using s'(1) by blast
qed

text \<open>A pixel of the colour that the rectangle ignores is not drawn.\<close>

definition shown :: "'s gstate_scheme \<Rightarrow> u64 \<Rightarrow> framebuffer_pixel \<Rightarrow> bool" where
  "shown s g p \<longleftrightarrow> ignore_color (graphics_at s g) = black \<or> ignore_color (graphics_at s g) \<noteq> p"

lemma draw_pixel_paints:
  assumes "drawable s g"
  shows "\<exists>s'. graphics_draw_pixel s g x y p = Some s' \<and> painted g (\<lambda>X Y. X = unat x \<and> Y = unat y \<and> shown s g p) (\<lambda>X Y. p) s s'"
proof -
  let ?gi = "graphics_at s g"
  have d: "unat (gi_height ?gi) * unat (gi_width ?gi) \<le> length (pixel_arrays s (gi_pixels ?gi))" "unat (gi_height ?gi) * unat (gi_width ?gi) < 2 ^ 32"
    using assms by (simp_all add: drawable_def Let_def mult.commute)
  show ?thesis
  proof (cases "x < gi_width ?gi \<and> y < gi_height ?gi \<and> shown s g p")
    case True
    let ?i = "unat y * unat (gi_width ?gi) + unat x"
    have i: "?i < unat (gi_height ?gi) * unat (gi_width ?gi)" using True by (intro row_col_less) (simp_all add: word_less_nat_alt)
    have u: "unat (y * gi_width ?gi + x) = ?i" using i d by (intro unat_index) simp
    let ?s' = "s\<lparr>pixel_arrays := (pixel_arrays s)(gi_pixels ?gi := (pixel_arrays s (gi_pixels ?gi))[?i := p])\<rparr>"
    have "graphics_draw_pixel s g x y p = Some ?s'"
      using True i d by (auto simp: graphics_draw_pixel_def Let_def pixel_write_def u shown_def)
    moreover have "painted g (\<lambda>X Y. X = unat x \<and> Y = unat y \<and> shown s g p) (\<lambda>X Y. p) s ?s'"
      unfolding painted_def
    proof (intro conjI allI impI)
      show "drawn s ?s'" by (rule drawn_arrays) simp
      show "pixel_arrays ?s' a = pixel_arrays s a" if "a \<noteq> gi_pixels ?gi" for a using that by simp
      fix X Y assume XY: "X < unat (gi_width ?gi) \<and> Y < unat (gi_height ?gi)"
      have "unat x < unat (gi_width ?gi)" using True by (simp add: word_less_nat_alt)
      then have "Y * unat (gi_width ?gi) + X = ?i \<longleftrightarrow> X = unat x \<and> Y = unat y" using XY row_index_inj by blast
      then show "pixel_at ?s' g X Y = (if X = unat x \<and> Y = unat y \<and> shown s g p then p else pixel_at s g X Y)"
        using i d True by (auto simp: pixel_at_def nth_list_update)
    qed
    ultimately show ?thesis by blast
  next
    case False
    have "graphics_draw_pixel s g x y p = Some s" using False by (auto simp: graphics_draw_pixel_def Let_def shown_def)
    moreover have "painted g (\<lambda>X Y. X = unat x \<and> Y = unat y \<and> shown s g p) (\<lambda>X Y. p) s s"
      using False by (auto simp: painted_def word_less_nat_alt)
    ultimately show ?thesis by blast
  qed
qed



lemma drawn_moved: "drawn s s' \<Longrightarrow> moved t s s'"
  unfolding moved_def
  by (rule exI [of _ s'], rule exI [of _ "text_row (terminal_at s' t)"], rule exI [of _ "text_col (terminal_at s' t)"])
    (simp add: update_terminal_def)

lemma moved_cursor: "moved t s (update_terminal s t (\<lambda>tm. tm\<lparr>text_row := row, text_col := col\<rparr>))"
  unfolding moved_def by (rule exI [of _ s], rule exI [of _ row], rule exI [of _ col]) simp

lemma moved_same:
  assumes "moved t s s'"
  shows "\<exists>row col. terminal_at s' t = (terminal_at s t)\<lparr>text_row := row, text_col := col\<rparr>" "font_at s' = font_at s" "graphics_at s' = graphics_at s"
    "length (pixel_arrays s' a) = length (pixel_arrays s a)"
proof -
  obtain s1 row col where s1: "drawn s s1" "s' = update_terminal s1 t (\<lambda>tm. tm\<lparr>text_row := row, text_col := col\<rparr>)"
    using assms unfolding moved_def by blast
  have "terminal_at s' t = (terminal_at s t)\<lparr>text_row := row, text_col := col\<rparr>"
    using s1 by (simp add: update_terminal_def drawn_same_terminals)
  then show "\<exists>row col. terminal_at s' t = (terminal_at s t)\<lparr>text_row := row, text_col := col\<rparr>" by (intro exI)
  show "font_at s' = font_at s" "graphics_at s' = graphics_at s" "length (pixel_arrays s' a) = length (pixel_arrays s a)"
    using s1 by (simp_all add: update_terminal_def drawn_same drawn_same_terminals)
qed

lemma moved_frame:
  assumes m: "moved t s s'"
  shows "term_size s' t = term_size s t" "frame_ok s' t = frame_ok s t" "term_flags (terminal_at s' t) = term_flags (terminal_at s t)"
    "term_font (terminal_at s' t) = term_font (terminal_at s t)"
proof -
  obtain row col where t: "terminal_at s' t = (terminal_at s t)\<lparr>text_row := row, text_col := col\<rparr>"
    using moved_same(1) [OF m] by blast
  note same = t moved_same(2-) [OF m]
  show "term_size s' t = term_size s t" "term_flags (terminal_at s' t) = term_flags (terminal_at s t)"
    "term_font (terminal_at s' t) = term_font (terminal_at s t)"
    by (simp_all add: term_size_def Let_def same)
  show "frame_ok s' t = frame_ok s t" by (simp add: frame_ok_def Let_def same drawable_def)
qed

lemma moved_paintable:
  assumes "paintable s" "moved t s s'"
  shows "paintable s'"
proof -
  obtain s1 row col where s1: "drawn s s1" "s' = update_terminal s1 t (\<lambda>tm. tm\<lparr>text_row := row, text_col := col\<rparr>)"
    using assms(2) unfolding moved_def by blast
  have "paintable s1" using assms(1) s1(1) by (rule paintable_drawn)
  then show ?thesis by (rule paintable_same) (simp_all add: s1(2) update_terminal_def)
qed

lemma moved_ok: "term_ok s t \<Longrightarrow> moved t s s' \<Longrightarrow> cursor_ok s' t \<Longrightarrow> term_ok s' t"
  using moved_paintable [of s t s'] moved_frame [of t s s'] moved_same(2) [of t s s'] by (simp add: term_ok_def)

lemma moved_trans:
  assumes "moved t s s'" "moved t s' s''"
  shows "moved t s s''"
proof -
  obtain s1 row col where 1: "drawn s s1" "s' = update_terminal s1 t (\<lambda>tm. tm\<lparr>text_row := row, text_col := col\<rparr>)"
    using assms(1) unfolding moved_def by blast
  obtain s2 row' col' where 2: "drawn s' s2" "s'' = update_terminal s2 t (\<lambda>tm. tm\<lparr>text_row := row', text_col := col'\<rparr>)"
    using assms(2) unfolding moved_def by blast
  obtain c a where c: "s2 = s'\<lparr>pixel_arrays := a, screen := c\<rparr>" "\<forall>x. length (a x) = length (pixel_arrays s' x)"
    using 2(1) unfolding drawn_def by (elim exE conjE) (rule that)
  have "s'' = update_terminal (s1\<lparr>pixel_arrays := a, screen := c\<rparr>) t (\<lambda>tm. tm\<lparr>text_row := row', text_col := col'\<rparr>)"
    unfolding 2(2) c(1) 1(2) by (simp add: update_terminal_def)
  moreover have "drawn s1 (s1\<lparr>pixel_arrays := a, screen := c\<rparr>)" unfolding drawn_def
    by (rule exI [of _ c], rule exI [of _ a]) (use c(2) 1(2) in \<open>simp add: update_terminal_def\<close>)
  then have "drawn s (s1\<lparr>pixel_arrays := a, screen := c\<rparr>)" using 1(1) drawn_trans by blast
  ultimately show ?thesis unfolding moved_def by blast
qed

subsection \<open>The steps of the cursor\<close>

lemma term_size_less:
  assumes "frame_ok s t"
  shows "fst (term_size s t) < 2 ^ 31" "snd (term_size s t) < 2 ^ 31"
proof -
  have "unat (bounds_height (terminal_at s t)) < 2 ^ 31" "unat (bounds_width (terminal_at s t)) < 2 ^ 31"
    using assms by (simp_all add: frame_ok_def Let_def)
  then show "fst (term_size s t) < 2 ^ 31" "snd (term_size s t) < 2 ^ 31"
    unfolding term_size_def Let_def by (simp_all add: le_less_trans [OF div_le_dividend])
qed

lemma size_of_int_nat: "n < 2 ^ 64 \<Longrightarrow> unat (size_of_int (int n)) = n"
  by (simp add: size_of_int_def)

lemma total_cells:
  assumes "frame_ok s t" "font_ok (font_at s (term_font (terminal_at s t)))"
  shows "terminal_total_cols s t = Some (int (snd (term_size s t)))" "terminal_total_rows s t = Some (int (fst (term_size s t)))"
proof -
  have "bits_width_per_character (font_at s (term_font (terminal_at s t))) \<noteq> 0" "bits_height_per_character (font_at s (term_font (terminal_at s t))) \<noteq> 0"
    using assms(2) by (auto simp: font_ok_def)
  moreover have "int_of_size (bounds_width (terminal_at s t) div bits_width_per_character (font_at s (term_font (terminal_at s t)))) = int (snd (term_size s t))"
    "int_of_size (bounds_height (terminal_at s t) div bits_height_per_character (font_at s (term_font (terminal_at s t)))) = int (fst (term_size s t))"
    using term_size_less [OF assms(1)] by (simp_all add: int_of_size_small unat_div term_size_def Let_def uint_nat)
  ultimately show "terminal_total_cols s t = Some (int (snd (term_size s t)))" "terminal_total_rows s t = Some (int (fst (term_size s t)))"
    by (simp_all add: terminal_total_cols_def terminal_total_rows_def Let_def)
qed


lemma cell_div: "(c :: nat) < n \<Longrightarrow> (r * n + c) div n = r"
  by (simp add: add.commute [of _ c])

lemma cell_less: "(r :: nat) < m \<Longrightarrow> c < n \<Longrightarrow> r * n + c < m * n"
  by (rule row_col_less)

lemma cursor_fits:
  assumes "frame_ok s t" "cursor_ok s t"
  shows "unat (text_row (terminal_at s t) + 1) = unat (text_row (terminal_at s t)) + 1"
    "unat (text_col (terminal_at s t) + 1) = unat (text_col (terminal_at s t)) + 1"
    "unat (text_row (terminal_at s t)) < 2 ^ 31" "unat (text_col (terminal_at s t)) < 2 ^ 31"
proof -
  show l: "unat (text_row (terminal_at s t)) < 2 ^ 31" "unat (text_col (terminal_at s t)) < 2 ^ 31"
    using assms(2) term_size_less [OF assms(1)] by (simp_all add: cursor_ok_def)
  show "unat (text_row (terminal_at s t) + 1) = unat (text_row (terminal_at s t)) + 1"
    "unat (text_col (terminal_at s t) + 1) = unat (text_col (terminal_at s t)) + 1"
    using l by (simp_all add: unat_word_ariths)
qed

text \<open>Where the cursor is after an update of its row and column.\<close>

lemma update_cursor:
  assumes "s' = update_terminal s t (\<lambda>tm. tm\<lparr>text_row := row, text_col := col\<rparr>)"
  shows "terminal_at s' t = (terminal_at s t)\<lparr>text_row := row, text_col := col\<rparr>" "moved t s s'" "term_size s' t = term_size s t"
    "term_cell s' t = unat row * snd (term_size s t) + unat col"
    "cursor_ok s' t \<longleftrightarrow> unat row < fst (term_size s t) \<and> unat col < snd (term_size s t)"
proof -
  show a: "terminal_at s' t = (terminal_at s t)\<lparr>text_row := row, text_col := col\<rparr>" using assms by (simp add: update_terminal_def)
  show m: "moved t s s'" unfolding assms by (rule moved_cursor)
  show b: "term_size s' t = term_size s t" using m by (rule moved_frame)
  show "term_cell s' t = unat row * snd (term_size s t) + unat col"
    "cursor_ok s' t \<longleftrightarrow> unat row < fst (term_size s t) \<and> unat col < snd (term_size s t)"
    by (simp_all add: term_cell_def cursor_ok_def a b)
qed

lemma newline_step:
  assumes "frame_ok s t" "font_ok (font_at s (term_font (terminal_at s t)))" "cursor_ok s t"
  shows "\<exists>s'. terminal_handle_newline s t = Some s' \<and> moved t s s' \<and> cursor_ok s' t \<and>
    term_cell s' t = cursor_step (term_size s t) erase 10 (term_cell s t)"
proof -
  let ?r = "text_row (terminal_at s t)" and ?c = "text_col (terminal_at s t)" and ?rows = "fst (term_size s t)" and ?cols = "snd (term_size s t)"
  let ?s1 = "update_terminal s t (\<lambda>tm. tm\<lparr>text_row := text_row tm + 1\<rparr>)"
  have s1: "?s1 = update_terminal s t (\<lambda>tm. tm\<lparr>text_row := ?r + 1, text_col := ?c\<rparr>)" by (simp add: update_terminal_def)
  note m1 = update_cursor(1-3) [OF s1]
  have rows: "terminal_total_rows ?s1 t = Some (int ?rows)"
    using total_cells(2) [of ?s1 t] assms moved_frame [OF m1(2)] moved_same(2) [OF m1(2)] by simp
  have l: "?rows < 2 ^ 31" "?cols < 2 ^ 31" using term_size_less [OF assms(1)] by simp_all
  note ok = assms(3) [unfolded cursor_ok_def]
  have cmp: "text_row (terminal_at ?s1 t) \<ge> size_of_int (int ?rows) \<longleftrightarrow> ?rows \<le> unat ?r + 1"
    using cursor_fits(1) [OF assms(1,3)] l m1(1) by (simp add: word_le_nat_alt size_of_int_nat)
  define row where "row = (if ?rows \<le> unat ?r + 1 then 0 else ?r + 1)"
  let ?s' = "update_terminal s t (\<lambda>tm. tm\<lparr>text_row := row, text_col := 0\<rparr>)"
  have run: "terminal_handle_newline s t = Some ?s'"
    unfolding terminal_handle_newline_def Let_def rows bind.bind_lunit cmp row_def by (simp add: update_terminal_def)
  note m = update_cursor [OF refl, where s = s and t = t and row = row and col = 0]
  have row: "unat row = (unat ?r + 1) mod ?rows"
    using ok cursor_fits(1) [OF assms(1,3)] by (auto simp: row_def le_Suc_eq)
  have "term_cell s t div ?cols = unat ?r" using ok by (simp add: term_cell_def cell_div)
  then have "term_cell ?s' t = cursor_step (term_size s t) erase 10 (term_cell s t)"
    by (simp add: m row cursor_step_def case_prod_beta)
  moreover have "cursor_ok ?s' t" using ok by (simp add: m row)
  ultimately show ?thesis using run m(2) by blast
qed

lemma draw_step:
  assumes "frame_ok s t" "font_ok (font_at s (term_font (terminal_at s t)))" "cursor_ok s t" "c \<noteq> 10" "c \<noteq> 8 \<or> \<not> erase"
  shows "\<exists>s'. terminal_update_position_after_draw s t = Some s' \<and> moved t s s' \<and> cursor_ok s' t \<and>
    term_cell s' t = cursor_step (term_size s t) erase c (term_cell s t)"
proof -
  let ?r = "text_row (terminal_at s t)" and ?c = "text_col (terminal_at s t)" and ?rows = "fst (term_size s t)" and ?cols = "snd (term_size s t)"
  let ?s1 = "update_terminal s t (\<lambda>tm. tm\<lparr>text_col := text_col tm + 1\<rparr>)"
  have s1: "?s1 = update_terminal s t (\<lambda>tm. tm\<lparr>text_row := ?r, text_col := ?c + 1\<rparr>)" by (simp add: update_terminal_def)
  note m1 = update_cursor(1-3) [OF s1]
  have sz: "terminal_total_rows ?s1 t = Some (int ?rows)" "terminal_total_cols ?s1 t = Some (int ?cols)"
    using total_cells [of ?s1 t] assms moved_frame [OF m1(2)] moved_same(2) [OF m1(2)] by simp_all
  have l: "?rows < 2 ^ 31" "?cols < 2 ^ 31" using term_size_less [OF assms(1)] by simp_all
  note ok = assms(3) [unfolded cursor_ok_def] and fits = cursor_fits [OF assms(1,3)]
  have cmp: "text_col (terminal_at ?s1 t) \<ge> size_of_int (int ?cols) \<longleftrightarrow> ?cols \<le> unat ?c + 1"
    using fits(2) l m1(1) by (simp add: word_le_nat_alt size_of_int_nat)
  define row1 where "row1 = (if ?cols \<le> unat ?c + 1 then ?r + 1 else ?r)"
  define col1 where "col1 = (if ?cols \<le> unat ?c + 1 then 0 else ?c + 1)"
  define over_end where "over_end \<longleftrightarrow> ?rows \<le> unat row1"
  define row where "row = (if over_end then 0 else row1)"
  define col where "col = (if over_end then 0 else col1)"
  let ?s2 = "update_terminal s t (\<lambda>tm. tm\<lparr>text_row := row1, text_col := col1\<rparr>)"
  have cmp2: "text_row (terminal_at ?s2 t) \<ge> size_of_int (int ?rows) \<longleftrightarrow> over_end"
    using l by (simp add: word_le_nat_alt size_of_int_nat update_terminal_def over_end_def)
  have s2: "(if ?cols \<le> unat ?c + 1 then update_terminal ?s1 t (\<lambda>tm. tm\<lparr>text_row := text_row tm + 1, text_col := 0\<rparr>) else ?s1) = ?s2"
    by (simp add: update_terminal_def row1_def col1_def)
  let ?s' = "update_terminal s t (\<lambda>tm. tm\<lparr>text_row := row, text_col := col\<rparr>)"
  have run: "terminal_update_position_after_draw s t = Some ?s'"
    unfolding terminal_update_position_after_draw_def Let_def sz bind.bind_lunit cmp s2 cmp2
    by (simp add: update_terminal_def row_def col_def)
  note m = update_cursor [OF refl, where s = s and t = t and row = row and col = col]
  have cell: "unat row * ?cols + unat col = (term_cell s t + 1) mod (?rows * ?cols) \<and> unat row < ?rows \<and> unat col < ?cols"
  proof (cases "?cols \<le> unat ?c + 1")
    case True
    then have "?cols = unat ?c + 1" using ok by simp
    then have t: "term_cell s t + 1 = (unat ?r + 1) * ?cols" by (simp add: term_cell_def)
    show ?thesis
    proof (cases "unat ?r + 1 = ?rows")
      case True
      then show ?thesis using t fits(1) \<open>?cols = _\<close> by (simp add: row_def col_def over_end_def row1_def)
    next
      case False
      then have "unat ?r + 1 < ?rows" using ok by simp
      then have "(unat ?r + 1) * ?cols < ?rows * ?cols" using \<open>?cols = _\<close> by (simp only: mult_less_cancel2) simp
      then show ?thesis using t fits(1) \<open>?cols = _\<close> \<open>unat ?r + 1 < ?rows\<close> unfolding t
        by (simp add: row_def col_def over_end_def row1_def col1_def)
    qed
  next
    case False
    then have "unat ?r * ?cols + (unat ?c + 1) < ?rows * ?cols" using ok by (intro cell_less) simp_all
    then show ?thesis using False ok fits(2) by (simp add: term_cell_def row_def col_def over_end_def row1_def col1_def)
  qed
  have "term_cell ?s' t = cursor_step (term_size s t) erase c (term_cell s t)"
    using assms(4,5) cell by (auto simp: m cursor_step_def split: prod.split)
  moreover have "cursor_ok ?s' t" using cell by (simp add: m)
  ultimately show ?thesis using run m(2) by blast
qed

lemma backspace_cursor:
  assumes "frame_ok s t" "font_ok (font_at s (term_font (terminal_at s t)))" "cursor_ok s t"
    and fl: "term_flags (terminal_at s t) AND TERMINAL_FLAG_BACKSPACE_ALLOWED \<noteq> 0"
  shows "\<exists>s1. moved t s s1 \<and> cursor_ok s1 t \<and> pixel_arrays s1 = pixel_arrays s \<and> term_cell s1 t = cursor_step (term_size s t) True 8 (term_cell s t) \<and>
    terminal_backspace s t = (let tm = terminal_at s1 t; w = bits_width_per_character (font_at s1 (term_font tm));
        h = bits_height_per_character (font_at s1 (term_font tm)) in do {
        s2 \<leftarrow> terminal_restore_background s1 t (int_of_size (text_col tm * w)) (int_of_size (text_row tm * h)) (int_of_size w) (int_of_size h);
        Some (s2, 0) })"
proof -
  define r where "r = unat (text_row (terminal_at s t))"
  define c where "c = unat (text_col (terminal_at s t))"
  define rows where "rows = fst (term_size s t)"
  define cols where "cols = snd (term_size s t)"
  note sz = total_cells [OF assms(1,2), folded rows_def cols_def]
  have l: "rows < 2 ^ 31" "cols < 2 ^ 31" using term_size_less [OF assms(1)] by (simp_all add: rows_def cols_def)
  have ok: "r < rows" "c < cols" using assms(3) by (simp_all add: cursor_ok_def r_def c_def rows_def cols_def)
  have cur: "terminal_cursor_row s t = int r" "terminal_cursor_col s t = int c"
    using cursor_fits(3,4) [OF assms(1,3)] by (simp_all only: terminal_cursor_row_def terminal_cursor_col_def int_of_size_small r_def c_def uint_nat)
  define row where "row = (if 0 < c then r else if 0 < r then r - 1 else rows - 1)"
  define col where "col = (if 0 < c then c - 1 else if 0 < r then cols - 1 else 0)"
  have new: "row < rows" "col < cols" using ok by (auto simp: row_def col_def)
  let ?s1 = "update_terminal s t (\<lambda>tm. tm\<lparr>text_row := size_of_int (int row), text_col := size_of_int (int col)\<rparr>)"
  have u: "unat (size_of_int (int row)) = row" "unat (size_of_int (int col)) = col" "unat (size_of_int (int rows)) = rows" "unat (size_of_int (int cols)) = cols"
    using new l by (simp_all add: size_of_int_nat)
  have set: "terminal_cursor_set s t (int row) (int col) = Some (?s1, 0)"
    using new by (simp add: terminal_cursor_set_def sz word_le_nat_alt u)
  note m = update_cursor [OF refl, where s = s and t = t and row = "size_of_int (int row)" and col = "size_of_int (int col)"]
  have prev: "previous_cell (int rows) (int cols) (int r) (int c) = (int row, int col)"
    using ok by (auto simp: previous_cell_def Let_def row_def col_def of_nat_diff)
  have "terminal_backspace s t = (let tm = terminal_at ?s1 t; w = bits_width_per_character (font_at ?s1 (term_font tm));
        h = bits_height_per_character (font_at ?s1 (term_font tm)) in do {
        s2 \<leftarrow> terminal_restore_background ?s1 t (int_of_size (text_col tm * w)) (int_of_size (text_row tm * h)) (int_of_size w) (int_of_size h);
        Some (s2, 0) })"
    using fl unfolding terminal_backspace_def by (simp add: sz cur prev set)
  moreover have "cursor_ok ?s1 t" using new by (simp add: m(5) u rows_def cols_def)
  moreover have "pixel_arrays ?s1 = pixel_arrays s" by (simp add: update_terminal_def)
  moreover have "term_cell ?s1 t = cursor_step (term_size s t) True 8 (term_cell s t)"
  proof -
    have cell: "term_cell s t = r * cols + c" by (simp add: term_cell_def r_def c_def cols_def)
    have sz': "term_size s t = (rows, cols)" by (simp add: rows_def cols_def)
    have "row * cols + col = (if r * cols + c = 0 then (rows - 1) * cols else r * cols + c - 1)"
      using ok by (auto simp: row_def col_def diff_mult_distrib)
    then show ?thesis by (simp add: m(4) u cursor_step_def sz' cell)
  qed
  ultimately show ?thesis using m(2) by blast
qed


subsection \<open>What a cell's drawing touches\<close>

lemma cell_geometry:
  assumes "frame_ok s t" "font_ok (font_at s (term_font (terminal_at s t)))" "cursor_ok s t"
  defines "tm \<equiv> terminal_at s t"
  defines "w \<equiv> bits_width_per_character (font_at s (term_font tm))" and "h \<equiv> bits_height_per_character (font_at s (term_font tm))"
  shows "unat (text_col tm) * unat w + unat w \<le> unat (bounds_width tm)" "unat (text_row tm) * unat h + unat h \<le> unat (bounds_height tm)"
    "unat (text_col tm * w) = unat (text_col tm) * unat w" "unat (text_row tm * h) = unat (text_row tm) * unat h"
    "unat (bounds_abs_x tm + text_col tm * w) = unat (bounds_abs_x tm) + unat (text_col tm) * unat w"
    "unat (bounds_abs_y tm + text_row tm * h) = unat (bounds_abs_y tm) + unat (text_row tm) * unat h"
proof -
  have lim: "unat (bounds_abs_x tm) + unat (bounds_width tm) < 2 ^ 31" "unat (bounds_abs_y tm) + unat (bounds_height tm) < 2 ^ 31"
    using assms(1) by (simp_all add: frame_ok_def Let_def tm_def)
  have cur: "unat (text_col tm) < unat (bounds_width tm) div unat w" "unat (text_row tm) < unat (bounds_height tm) div unat h"
    using assms(3) by (simp_all add: cursor_ok_def term_size_def Let_def tm_def w_def h_def)
  have edge: "c * u + u \<le> W" if "c < W div u" for c u W :: nat
  proof -
    have "Suc c * u \<le> (W div u) * u" using that by (intro mult_le_mono1) simp
    also have "\<dots> \<le> W" by simp
    finally show ?thesis by simp
  qed
  show e: "unat (text_col tm) * unat w + unat w \<le> unat (bounds_width tm)" "unat (text_row tm) * unat h + unat h \<le> unat (bounds_height tm)"
    using edge cur by blast+
  show p: "unat (text_col tm * w) = unat (text_col tm) * unat w" "unat (text_row tm * h) = unat (text_row tm) * unat h"
    using e lim by (simp_all add: unat_word_ariths)
  show "unat (bounds_abs_x tm + text_col tm * w) = unat (bounds_abs_x tm) + unat (text_col tm) * unat w"
    "unat (bounds_abs_y tm + text_row tm * h) = unat (bounds_abs_y tm) + unat (text_row tm) * unat h"
    using e lim p by (simp_all add: unat_word_ariths(1))
qed

lemma character_fits:
  assumes "frame_ok s t" "font_ok (font_at s (term_font (terminal_at s t)))" "cursor_ok s t"
  defines "tm \<equiv> terminal_at s t"
  shows "unat (starting_x (graphics_at s (term_graphics tm))) + unat (terminal_abs_x_for_next_character s t) + unat (bits_width_per_character (font_at s (term_font tm))) < 2 ^ 31"
    "unat (starting_y (graphics_at s (term_graphics tm))) + unat (terminal_abs_y_for_next_character s t) + unat (bits_height_per_character (font_at s (term_font tm))) < 2 ^ 31"
    "drawable s (term_graphics tm)" "term_font tm \<noteq> 0"
  using cell_geometry [OF assms(1-3)] assms(1)
  by (simp_all add: terminal_abs_x_for_next_character_def terminal_abs_y_for_next_character_def Let_def frame_ok_def tm_def)

lemma redraw_cell_returns:
  assumes "paintable s" "unat (starting_x (graphics_at s g)) + unat x + unat w < 2 ^ 32" "unat (starting_y (graphics_at s g)) + unat y + unat h < 2 ^ 32"
  shows "\<exists>s'. graphics_redraw_graphics_to_screen s g x y w h = Some s' \<and> drawn s s' \<and> pixel_arrays s' = pixel_arrays s"
  using assms by (intro redraw_to_screen_returns) (simp_all add: unat_add_small)

lemma unat_ucast_u32: "unat (a :: u64) < 2 ^ 32 \<Longrightarrow> unat (ucast a :: u32) = unat a"
  by (simp add: unsigned_ucast_eq take_bit_nat_eq_self)

lemma unat_int_of_size:
  assumes "unat (a :: u64) < 2 ^ 31"
  shows "unat (word_of_int (int_of_size a) :: u32) = unat a" "size_of_int (int_of_size a) = a" "nat (int_of_size a) = unat a" "int_of_size a = int (unat a)"
proof -
  show i: "int_of_size a = int (unat a)" using assms by (simp only: int_of_size_small uint_nat)
  show "unat (word_of_int (int_of_size a) :: u32) = unat a" "nat (int_of_size a) = unat a"
    unfolding i using assms unat_ucast_u32 [of a] by simp_all
  show "size_of_int (int_of_size a) = a" unfolding i by (simp add: size_of_int_def)
qed

lemma div_8_enough: "k < N \<Longrightarrow> k div 8 < N div 8 + (if N mod 8 = 0 then 0 else 1)" for k N :: nat
proof (cases "N mod 8 = 0")
  assume "k < N" and m: "N mod 8 = 0"
  then have "k < N div 8 * 8" by (simp add: mod_eq_0_iff_dvd)
  then show ?thesis using m by (simp add: less_mult_imp_div_less)
qed (simp add: le_imp_less_Suc div_le_mono)

lemma bytes_for_bits_enough:
  assumes "k < unat n"
  shows "k div 8 < unat (bytes_for_bits n)"
proof -
  have "unat n div 8 < 2 ^ 61" using unsigned_less [of n, where 'a = nat] by (simp add: div_less_iff_less_mult)
  then have "unat (n div 8 + 1) = unat n div 8 + 1" by (simp add: unat_word_ariths(1) unat_div)
  moreover have "n mod 8 = 0 \<longleftrightarrow> unat n mod 8 = 0" by (simp add: word_unat_eq_iff unat_mod)
  ultimately have "unat (bytes_for_bits n) = unat n div 8 + (if unat n mod 8 = 0 then 0 else 1)"
    by (simp add: bytes_for_bits_def unat_div)
  then show ?thesis using div_8_enough [OF assms] by (simp only:)
qed

lemma font_bit_returns:
  assumes f: "font_ok fo" "size_of_int i < character_count fo" and xy: "x < unat (bits_width_per_character fo)" "y < unat (bits_height_per_character fo)"
    and lim: "unat (bits_width_per_character fo) < 2 ^ 31" "unat (bits_height_per_character fo) < 2 ^ 31"
  shows "font_bit fo (size_of_int i * bytes_for_bits (bits_width_per_character fo * bits_height_per_character fo)) x y =
    (let k = y * unat (bits_width_per_character fo) + x in Some (bit (character_data fo ! (unat (size_of_int i) *
       unat (bytes_for_bits (bits_width_per_character fo * bits_height_per_character fo)) + k div 8)) (k mod 8)))"
proof -
  let ?w = "bits_width_per_character fo" and ?h = "bits_height_per_character fo"
  let ?B = "bytes_for_bits (?w * ?h)" and ?k = "y * unat ?w + x"
  have wh: "unat ?h * unat ?w < 2 ^ 31 * 2 ^ 31" using lim by (intro mult_strict_mono') simp_all
  have k: "?k < unat ?h * unat ?w" using xy by (rule row_col_less)
  have "unat (?w * ?h) = unat ?h * unat ?w" using wh by (simp add: unat_word_ariths mult.commute)
  then have kB: "?k div 8 < unat ?B" using bytes_for_bits_enough [of ?k "?w * ?h"] k by simp
  have "unat (of_nat y :: u64) = y" "unat (of_nat x :: u64) = x" using xy lim by simp_all
  then have bi: "unat (of_nat y * ?w + of_nat x) = ?k" using k wh by (simp add: unat_word_ariths)
  have "unat (size_of_int i) * unat ?B + ?k div 8 < unat (character_count fo) * unat ?B"
    using f(2) kB by (intro row_col_less) (simp_all add: word_less_nat_alt)
  also have "\<dots> \<le> length (character_data fo)" using f(1) by (simp add: font_ok_def)
  finally have less: "unat (size_of_int i) * unat ?B + ?k div 8 < length (character_data fo)" .
  moreover have "unat (size_of_int i * ?B + (of_nat y * ?w + of_nat x) div 8) = unat (size_of_int i) * unat ?B + ?k div 8"
  proof -
    define d where "d = (of_nat y * ?w + of_nat x) div 8"
    have "unat d = ?k div 8" by (simp only: d_def unat_div bi) simp
    moreover have "length (character_data fo) < 2 ^ 64" using f(1) by (simp add: font_ok_def)
    ultimately show ?thesis using less unfolding d_def [symmetric] by (simp add: unat_word_ariths)
  qed
  moreover have "unat ((of_nat y * ?w + of_nat x) mod 8) = ?k mod 8" by (simp only: unat_mod bi) simp
  ultimately show ?thesis by (simp add: font_bit_def Let_def)
qed

text \<open>Characters that the font has or has not: the one behind the last is read though it has no bits.\<close>

definition drawable_char :: "font \<Rightarrow> int \<Rightarrow> bool" where
  "drawable_char f c \<longleftrightarrow> size_of_int (c - uint (subtract_from_ascii_char_index_for_drawing f)) \<noteq> character_count f"


text \<open>The bit of character \<open>c\<close> at \<open>(x, y)\<close>: the characters' bytes follow each other, and the bits in them line by line.\<close>

definition char_bit :: "font \<Rightarrow> int \<Rightarrow> nat \<Rightarrow> nat \<Rightarrow> bool" where
  "char_bit fo c x y \<longleftrightarrow> (let i = unat (size_of_int (c - uint (subtract_from_ascii_char_index_for_drawing fo)));
     k = y * unat (bits_width_per_character fo) + x
     in i < unat (character_count fo) \<and>
        bit (character_data fo ! (i * unat (bytes_for_bits (bits_width_per_character fo * bits_height_per_character fo)) + k div 8)) (k mod 8))"

definition in_cell :: "nat \<Rightarrow> nat \<Rightarrow> font \<Rightarrow> nat \<Rightarrow> nat \<Rightarrow> bool" where
  "in_cell x y fo = inside (x, y, unat (bits_width_per_character fo), unat (bits_height_per_character fo))"

lemma font_draw_paints:
  fixes s :: "'s tstate_scheme"
  assumes "paintable s" "drawable s g" "f \<noteq> 0" "font_ok (font_at s f)" "drawable_char (font_at s f) c"
    "unat (starting_x (graphics_at s g)) + unat X + unat (bits_width_per_character (font_at s f)) < 2 ^ 31"
    "unat (starting_y (graphics_at s g)) + unat Y + unat (bits_height_per_character (font_at s f)) < 2 ^ 31"
  shows "\<exists>s' r. font_draw s g f (int_of_size X) (int_of_size Y) c color = Some (s', r) \<and>
    painted g (\<lambda>x y. in_cell (unat X) (unat Y) (font_at s f) x y \<and> char_bit (font_at s f) c (x - unat X) (y - unat Y) \<and> shown s g color) (\<lambda>_ _. color) s s'"
proof -
  let ?fo = "font_at s f"
  let ?w = "bits_width_per_character ?fo" and ?h = "bits_height_per_character ?fo"
  define i where "i = c - uint (subtract_from_ascii_char_index_for_drawing ?fo)"
  define at where "at = size_of_int i * bytes_for_bits (?w * ?h)"
  show ?thesis
  proof (cases "size_of_int i > character_count ?fo")
    case True
    then have "\<not> char_bit ?fo c x y" for x y by (simp add: char_bit_def Let_def i_def word_less_nat_alt)
    then show ?thesis using True assms(3) by (simp add: font_draw_def font_draw_from_index_def Let_def i_def painted_none)
  next
    case False
    then have i: "size_of_int i < character_count ?fo" using assms(5) by (simp add: drawable_char_def i_def)
    have small: "unat X < 2 ^ 31" "unat Y < 2 ^ 31" "unat ?w < 2 ^ 32" "unat ?h < 2 ^ 32" using assms(6,7) by simp_all
    let ?v = "\<lambda>_ _. color" and ?B = "\<lambda>X' Y'. char_bit ?fo c (X' - unat X) (Y' - unat Y) \<and> shown s g color"
    have "\<exists>s1. for_each (\<lambda>x. for_each (font_pixel ?fo g (int_of_size X) (int_of_size Y) color at x) [0..<unat ?h]) [0..<unat ?w] s = Some s1 \<and>
        painted g (\<lambda>X' Y'. inside (unat X, unat Y, unat ?w, unat ?h) X' Y' \<and> ?B X' Y') ?v s s1"
    proof (rule for_each_paints_rectangle)
      fix x y s' assume x: "x < unat ?w" and y: "y < unat ?h" and t: "touched g s s'"
      have b: "drawn s s'" using t by (simp add: touched_def)
      have "unat ?w < 2 ^ 31" "unat ?h < 2 ^ 31" using assms(6,7) by simp_all
      then have fb: "font_bit ?fo at x y = Some (char_bit ?fo c x y)" using font_bit_returns [OF assms(4) i, of x y] x y i
        unfolding at_def by (simp add: char_bit_def Let_def i_def word_less_nat_alt)
      have u: "unat (word_of_int (int_of_size X + int x) :: u32) = unat X + x" "unat (word_of_int (int_of_size Y + int y) :: u32) = unat Y + y"
      proof -
        have "unat X + x < 2 ^ 32" "unat Y + y < 2 ^ 32" using x y assms(6,7) by simp_all
        then have "unat (of_nat (unat X + x) :: u32) = unat X + x" "unat (of_nat (unat Y + y) :: u32) = unat Y + y" by (simp_all only: unat_of_nat_u32)
        then show "unat (word_of_int (int_of_size X + int x) :: u32) = unat X + x" "unat (word_of_int (int_of_size Y + int y) :: u32) = unat Y + y"
          by (simp_all only: unat_int_of_size(4) [OF small(1)] unat_int_of_size(4) [OF small(2)] of_nat_add [symmetric] of_int_of_nat_eq)
      qed
      show "\<exists>s''. font_pixel ?fo g (int_of_size X) (int_of_size Y) color at x y s' = Some s'' \<and>
          painted g (\<lambda>X' Y'. X' = unat X + x \<and> Y' = unat Y + y \<and> ?B X' Y') ?v s' s''"
      proof (cases "char_bit ?fo c x y")
        case True
        have "drawable s' g" and sh: "shown s' g color = shown s g color"
          using assms(2) b by (simp_all add: drawn_drawable drawn_same shown_def)
        then obtain s'' where s'': "graphics_draw_pixel s' g (word_of_int (int_of_size X + int x)) (word_of_int (int_of_size Y + int y)) color = Some s''"
          "painted g (\<lambda>X' Y'. X' = unat X + x \<and> Y' = unat Y + y \<and> shown s g color) ?v s' s''"
          using draw_pixel_paints [of s' g "word_of_int (int_of_size X + int x)" "word_of_int (int_of_size Y + int y)" color] unfolding u sh by blast
        have "painted g (\<lambda>X' Y'. X' = unat X + x \<and> Y' = unat Y + y \<and> ?B X' Y') ?v s' s''"
          using s''(2) by (rule painted_cong) (use True in auto)
        then show ?thesis using s''(1) True by (simp add: font_pixel_def fb)
      next
        case False
        have "painted g (\<lambda>X' Y'. X' = unat X + x \<and> Y' = unat Y + y \<and> ?B X' Y') ?v s' s'"
          using painted_none by (rule painted_cong) (use False in auto)
        then show ?thesis using False by (simp add: font_pixel_def fb)
      qed
    qed
    then obtain s1 where s1: "for_each (\<lambda>x. for_each (font_pixel ?fo g (int_of_size X) (int_of_size Y) color at x) [0..<unat ?h]) [0..<unat ?w] s = Some s1"
        "painted g (\<lambda>x y. in_cell (unat X) (unat Y) ?fo x y \<and> ?B x y) ?v s s1" unfolding in_cell_def by blast
    have d1: "drawn s s1" using s1(2) by (simp add: painted_def)
    obtain s2 where s2: "graphics_redraw_graphics_to_screen s1 g (word_of_int (int_of_size X)) (word_of_int (int_of_size Y)) (ucast ?w) (ucast ?h) = Some s2"
      "drawn s1 s2" "pixel_arrays s2 = pixel_arrays s1"
      using redraw_cell_returns [OF paintable_drawn [OF assms(1) d1], of g "word_of_int (int_of_size X)" "ucast ?w" "word_of_int (int_of_size Y)" "ucast ?h"]
        assms(6,7) by (auto simp: drawn_same [OF d1] unat_int_of_size(1) [OF small(1)] unat_int_of_size(1) [OF small(2)] unat_ucast_u32 [OF small(3)] unat_ucast_u32 [OF small(4)])
    have "font_draw s g f (int_of_size X) (int_of_size Y) c color = Some (s2, 0)"
      using assms(3) False unfolding font_draw_def font_draw_from_index_def Let_def i_def [symmetric] at_def [symmetric] s1(1) bind.bind_lunit s2(1) by simp
    moreover have "painted g (\<lambda>x y. in_cell (unat X) (unat Y) ?fo x y \<and> ?B x y) (\<lambda>_ _. color) s s2"
      using s1(2) s2(2,3) by (rule painted_redrawn)
    ultimately show ?thesis by blast
  qed
qed

lemma unat_add_of_nat: "unat a + n < 2 ^ 64 \<Longrightarrow> unat (a + of_nat n :: u64) = unat a + n"
  by (simp add: unat_word_ariths(1))

text \<open>The loop of \<open>terminal_restore_background\<close>, for a cell, as far as the odd test against the width and the height lets it.\<close>

lemma restore_paints:
  assumes "paintable s" "frame_ok s t" "font_ok (font_at s (term_font (terminal_at s t)))" "cursor_ok s t"
    and fl: "term_flags (terminal_at s t) AND TERMINAL_FLAG_BACKSPACE_ALLOWED \<noteq> 0"
  defines "tm \<equiv> terminal_at s t"
  defines "fo \<equiv> font_at s (term_font tm)"
  defines "cx \<equiv> unat (bounds_abs_x tm + text_col tm * bits_width_per_character fo)"
    and "cy \<equiv> unat (bounds_abs_y tm + text_row tm * bits_height_per_character fo)"
  defines "v \<equiv> \<lambda>X Y. pixel_arrays s (terminal_background tm) ! ((Y - cy) * unat (bounds_width tm) + (X - cx))"
  assumes ne: "terminal_background tm \<noteq> gi_pixels (graphics_at s (term_graphics tm))"
  shows "\<exists>s'. terminal_restore_background s t (int_of_size (text_col tm * bits_width_per_character fo)) (int_of_size (text_row tm * bits_height_per_character fo))
      (int_of_size (bits_width_per_character fo)) (int_of_size (bits_height_per_character fo)) = Some s' \<and>
    painted (term_graphics tm) (\<lambda>X Y. in_cell cx cy fo X Y \<and> X \<le> unat (bounds_width tm) \<and> Y \<le> unat (bounds_height tm) \<and> shown s (term_graphics tm) (v X Y)) v s s'"
proof -
  let ?w = "bits_width_per_character fo" and ?h = "bits_height_per_character fo" and ?g = "term_graphics tm"
  note g = cell_geometry [OF assms(2-4), folded tm_def, folded fo_def, folded cx_def cy_def]
  have lim: "unat (starting_x (graphics_at s ?g)) + unat (bounds_abs_x tm) + unat (bounds_width tm) < 2 ^ 31"
    "unat (starting_y (graphics_at s ?g)) + unat (bounds_abs_y tm) + unat (bounds_height tm) < 2 ^ 31"
    and d: "drawable s ?g"
    and bg: "unat (bounds_width tm) * unat (bounds_height tm) \<le> length (pixel_arrays s (terminal_background tm))"
    using assms(2) fl by (simp_all add: frame_ok_def Let_def tm_def)
  have small: "unat (text_col tm * ?w) < 2 ^ 31" "unat (text_row tm * ?h) < 2 ^ 31" "unat ?w < 2 ^ 31" "unat ?h < 2 ^ 31" "cx < 2 ^ 32" "cy < 2 ^ 32"
    using g lim by simp_all
  have area: "unat (bounds_height tm) * unat (bounds_width tm) < 2 ^ 31 * 2 ^ 31"
    using lim by (intro mult_strict_mono') simp_all
  let ?R = "\<lambda>X Y. X \<le> unat (bounds_width tm) \<and> Y \<le> unat (bounds_height tm)"
  let ?B = "\<lambda>X Y. ?R X Y \<and> shown s ?g (v X Y)"
  have "\<exists>s1. for_each (\<lambda>x. for_each (restore_pixel tm (int_of_size (text_col tm * ?w)) (int_of_size (text_row tm * ?h)) x) [0..<unat ?h]) [0..<unat ?w] s = Some s1 \<and>
      painted ?g (\<lambda>X Y. inside (cx, cy, unat ?w, unat ?h) X Y \<and> ?B X Y) v s s1"
  proof (rule for_each_paints_rectangle)
    fix x y s' assume x: "x < unat ?w" and y: "y < unat ?h" and t: "touched ?g s s'"
    have b: "drawn s s'" and bk: "pixel_arrays s' (terminal_background tm) = pixel_arrays s (terminal_background tm)" using t ne by (simp_all add: touched_def)
    have i: "y * unat (bounds_width tm) + x < unat (bounds_height tm) * unat (bounds_width tm)"
      using x y g(1,2) by (intro row_col_less) simp_all
    have n: "unat (of_nat y :: u64) = y" "unat (of_nat x :: u64) = x" using x y small by simp_all
    have ui: "unat (of_nat y * bounds_width tm + of_nat x) = y * unat (bounds_width tm) + x"
      using n i area by (simp add: unat_word_ariths)
    have ax: "unat (bounds_abs_x tm + text_col tm * ?w + of_nat x) = cx + x" "unat (bounds_abs_y tm + text_row tm * ?h + of_nat y) = cy + y"
      using small x y by (simp_all add: unat_add_of_nat cx_def cy_def)
    show "\<exists>s''. restore_pixel tm (int_of_size (text_col tm * ?w)) (int_of_size (text_row tm * ?h)) x y s' = Some s'' \<and>
        painted ?g (\<lambda>X Y. X = cx + x \<and> Y = cy + y \<and> ?B X Y) v s' s''"
    proof (cases "?R (cx + x) (cy + y)")
      case True
      let ?p = "pixel_arrays s (terminal_background tm) ! (y * unat (bounds_width tm) + x)"
      have u: "unat (ucast (bounds_abs_x tm + text_col tm * ?w + of_nat x) :: u32) = cx + x" "unat (ucast (bounds_abs_y tm + text_row tm * ?h + of_nat y) :: u32) = cy + y"
        using True lim by (simp_all add: unat_ucast_u32 ax)
      have v: "v (cx + x) (cy + y) = ?p" by (simp add: v_def)
      have "drawable s' ?g" and sh: "shown s' ?g ?p = shown s ?g ?p"
        using d b by (simp_all add: drawn_drawable drawn_same shown_def)
      then obtain s'' where s'': "graphics_draw_pixel s' ?g (ucast (bounds_abs_x tm + text_col tm * ?w + of_nat x)) (ucast (bounds_abs_y tm + text_row tm * ?h + of_nat y)) ?p = Some s''"
        "painted ?g (\<lambda>X Y. X = cx + x \<and> Y = cy + y \<and> shown s ?g ?p) (\<lambda>X Y. ?p) s' s''"
        using draw_pixel_paints [of s' ?g "ucast (bounds_abs_x tm + text_col tm * ?w + of_nat x)" "ucast (bounds_abs_y tm + text_row tm * ?h + of_nat y)" ?p]
        unfolding u sh by blast
      have rd: "pixel_read s' (terminal_background tm) (unat (of_nat y * bounds_width tm + of_nat x)) = Some ?p"
        using i bg by (simp add: pixel_read_def ui bk mult.commute)
      have "restore_pixel tm (int_of_size (text_col tm * ?w)) (int_of_size (text_row tm * ?h)) x y s' = Some s''"
        unfolding restore_pixel_def Let_def unat_int_of_size(2) [OF small(1)] unat_int_of_size(2) [OF small(2)] rd word_less_nat_alt ax
        using True s''(1) by simp
      moreover have "painted ?g (\<lambda>X Y. X = cx + x \<and> Y = cy + y \<and> shown s ?g ?p) v s' s''"
        using s''(2) by (rule painted_value) (use v in auto)
      then have "painted ?g (\<lambda>X Y. X = cx + x \<and> Y = cy + y \<and> ?B X Y) v s' s''"
        by (rule painted_cong) (use True v in auto)
      ultimately show ?thesis by blast
    next
      case False
      have "restore_pixel tm (int_of_size (text_col tm * ?w)) (int_of_size (text_row tm * ?h)) x y s' = Some s'"
        unfolding restore_pixel_def Let_def unat_int_of_size(2) [OF small(1)] unat_int_of_size(2) [OF small(2)] word_less_nat_alt ax
        using False by auto
      moreover have "painted ?g (\<lambda>X Y. X = cx + x \<and> Y = cy + y \<and> ?B X Y) v s' s'"
        using painted_none by (rule painted_cong) (use False in auto)
      ultimately show ?thesis by blast
    qed
  qed
  then obtain s1 where s1: "for_each (\<lambda>x. for_each (restore_pixel tm (int_of_size (text_col tm * ?w)) (int_of_size (text_row tm * ?h)) x) [0..<unat ?h]) [0..<unat ?w] s = Some s1"
      "painted ?g (\<lambda>X Y. in_cell cx cy fo X Y \<and> ?B X Y) v s s1" unfolding in_cell_def by blast
  have d1: "drawn s s1" using s1(2) by (simp add: painted_def)
  have e: "unat (starting_x (graphics_at s1 ?g)) + unat (ucast (bounds_abs_x tm + text_col tm * ?w) :: u32) + unat (word_of_int (int_of_size ?w) :: u32) < 2 ^ 32"
    "unat (starting_y (graphics_at s1 ?g)) + unat (ucast (bounds_abs_y tm + text_row tm * ?h) :: u32) + unat (word_of_int (int_of_size ?h) :: u32) < 2 ^ 32"
  proof -
    have u: "unat (ucast (bounds_abs_x tm + text_col tm * ?w) :: u32) = cx" "unat (ucast (bounds_abs_y tm + text_row tm * ?h) :: u32) = cy"
      using small(5,6) unfolding cx_def cy_def by (simp_all only: unat_ucast_u32)
    note r = drawn_same(1) [OF d1] u unat_int_of_size(1) [OF small(3)] unat_int_of_size(1) [OF small(4)]
    have p: "(2 :: nat) ^ 31 \<le> 2 ^ 32" by simp
    show "unat (starting_x (graphics_at s1 ?g)) + unat (ucast (bounds_abs_x tm + text_col tm * ?w) :: u32) + unat (word_of_int (int_of_size ?w) :: u32) < 2 ^ 32"
      unfolding r using g(1,5) lim(1) p by linarith
    show "unat (starting_y (graphics_at s1 ?g)) + unat (ucast (bounds_abs_y tm + text_row tm * ?h) :: u32) + unat (word_of_int (int_of_size ?h) :: u32) < 2 ^ 32"
      unfolding r using g(2,6) lim(2) p by linarith
  qed
  obtain s2 where s2: "graphics_redraw_graphics_to_screen s1 ?g (ucast (bounds_abs_x tm + text_col tm * ?w))
       (ucast (bounds_abs_y tm + text_row tm * ?h)) (word_of_int (int_of_size ?w)) (word_of_int (int_of_size ?h)) = Some s2" "drawn s1 s2" "pixel_arrays s2 = pixel_arrays s1"
    using redraw_cell_returns [OF paintable_drawn [OF assms(1) d1] e] by blast
  have "terminal_restore_background s t (int_of_size (text_col tm * ?w)) (int_of_size (text_row tm * ?h)) (int_of_size ?w) (int_of_size ?h) = Some s2"
    unfolding terminal_restore_background_def tm_def [symmetric]
    by (simp only: Let_def unat_int_of_size(2,3) [OF small(1)] unat_int_of_size(2,3) [OF small(2)]
      unat_int_of_size(3) [OF small(3)] unat_int_of_size(3) [OF small(4)] s1(1) bind.bind_lunit s2(1))
  moreover have "painted ?g (\<lambda>X Y. in_cell cx cy fo X Y \<and> ?B X Y) v s s2"
    using s1(2) s2(2,3) by (rule painted_redrawn)
  ultimately show ?thesis by (intro exI conjI) simp_all
qed

subsection \<open>Writing returns and moves the cursor\<close>

lemma restore_returns:
  assumes "paintable s" "frame_ok s t" "font_ok (font_at s (term_font (terminal_at s t)))" "cursor_ok s t"
    and fl: "term_flags (terminal_at s t) AND TERMINAL_FLAG_BACKSPACE_ALLOWED \<noteq> 0"
  defines "tm \<equiv> terminal_at s t"
  defines "w \<equiv> bits_width_per_character (font_at s (term_font tm))" and "h \<equiv> bits_height_per_character (font_at s (term_font tm))"
  shows "\<exists>s'. terminal_restore_background s t (int_of_size (text_col tm * w)) (int_of_size (text_row tm * h)) (int_of_size w) (int_of_size h) = Some s' \<and>
    drawn s s'"
  using restore_paints [OF assms(1-5)] assms(2) fl unfolding tm_def w_def h_def by (auto simp: frame_ok_def Let_def painted_def)

lemma font_draw_returns:
  fixes s :: "'s tstate_scheme"
  assumes "paintable s" "drawable s g" "f \<noteq> 0" "font_ok (font_at s f)" "drawable_char (font_at s f) c"
    "unat (starting_x (graphics_at s g)) + unat X + unat (bits_width_per_character (font_at s f)) < 2 ^ 31"
    "unat (starting_y (graphics_at s g)) + unat Y + unat (bits_height_per_character (font_at s f)) < 2 ^ 31"
  shows "\<exists>s' r. font_draw s g f (int_of_size X) (int_of_size Y) c color = Some (s', r) \<and> drawn s s'"
  using font_draw_paints [OF assms] unfolding painted_def by blast

lemma write_step:
  assumes ok: "term_ok s t" and c: "drawable_char (font_at s (term_font (terminal_at s t))) c"
  shows "\<exists>s'. terminal_write s t c = Some (s', 0) \<and> moved t s s' \<and> term_ok s' t \<and>
    term_cell s' t = cursor_step (term_size s t) (term_flags (terminal_at s t) AND TERMINAL_FLAG_BACKSPACE_ALLOWED \<noteq> 0) c (term_cell s t)"
proof -
  let ?erase = "term_flags (terminal_at s t) AND TERMINAL_FLAG_BACKSPACE_ALLOWED \<noteq> 0"
  have o: "paintable s" "font_ok (font_at s (term_font (terminal_at s t)))" "frame_ok s t" "cursor_ok s t" using ok by (simp_all add: term_ok_def)
  consider (newline) "c = 10" | (backspace) "c = 8" "?erase" | (draw) "c \<noteq> 10" "c \<noteq> 8 \<or> \<not> ?erase" by blast
  then show ?thesis
  proof cases
    case newline
    obtain s' where s': "terminal_handle_newline s t = Some s'" "moved t s s'" "cursor_ok s' t"
      "term_cell s' t = cursor_step (term_size s t) ?erase 10 (term_cell s t)"
      using newline_step [OF o(3,2,4)] by blast
    then show ?thesis using newline moved_ok [OF ok s'(2,3)] by (simp add: terminal_write_def)
  next
    case backspace
    obtain s1 where s1: "moved t s s1" "cursor_ok s1 t" "term_cell s1 t = cursor_step (term_size s t) True 8 (term_cell s t)"
      "terminal_backspace s t = (let tm = terminal_at s1 t; w = bits_width_per_character (font_at s1 (term_font tm));
        h = bits_height_per_character (font_at s1 (term_font tm)) in do {
        s2 \<leftarrow> terminal_restore_background s1 t (int_of_size (text_col tm * w)) (int_of_size (text_row tm * h)) (int_of_size w) (int_of_size h);
        Some (s2, 0) })"
      using backspace_cursor [OF o(3,2,4) backspace(2)] by blast
    have ok1: "term_ok s1 t" using ok s1(1,2) by (rule moved_ok)
    have fl: "term_flags (terminal_at s1 t) AND TERMINAL_FLAG_BACKSPACE_ALLOWED \<noteq> 0" using backspace(2) moved_frame(3) [OF s1(1)] by simp
    obtain s' where s': "terminal_backspace s t = Some (s', 0)" "drawn s1 s'"
      using restore_returns [OF _ _ _ _ fl] ok1 s1(4) by (auto simp: term_ok_def Let_def)
    have m: "moved t s1 s'" using s'(2) by (rule drawn_moved)
    have "cursor_ok s' t" "term_cell s' t = term_cell s1 t"
      using s1(2) moved_frame(1) [OF m] drawn_same_terminals(1) [OF s'(2)] by (simp_all add: cursor_ok_def term_cell_def)
    then show ?thesis using backspace s'(1) s1(3) moved_trans [OF s1(1) m] moved_ok [OF ok1 m] by (simp add: terminal_write_def)
  next
    case draw
    let ?tm = "terminal_at s t"
    note fits = character_fits [OF o(3,2,4)]
    obtain s1 r where s1: "font_draw s (term_graphics ?tm) (term_font ?tm) (int_of_size (terminal_abs_x_for_next_character s t))
          (int_of_size (terminal_abs_y_for_next_character s t)) c (font_color ?tm) = Some (s1, r)" "drawn s s1"
      using font_draw_returns [OF o(1) fits(3,4) o(2) c fits(1,2)] by blast
    have m: "moved t s s1" using s1(2) by (rule drawn_moved)
    have same: "term_cell s1 t = term_cell s t" "cursor_ok s1 t" "term_size s1 t = term_size s t"
      using o(4) moved_frame(1) [OF m] drawn_same_terminals(1) [OF s1(2)] by (simp_all add: cursor_ok_def term_cell_def)
    have ok1: "term_ok s1 t" using ok m same(2) by (rule moved_ok)
    then obtain s' where s': "terminal_update_position_after_draw s1 t = Some s'" "moved t s1 s'" "cursor_ok s' t"
      "term_cell s' t = cursor_step (term_size s t) ?erase c (term_cell s t)"
      using draw_step [OF _ _ _ draw, of s1 t] same by (auto simp: term_ok_def)
    then show ?thesis using draw s1(1) moved_trans [OF m s'(2)] moved_ok [OF ok1 s'(2,3)] by (auto simp: terminal_write_def Let_def)
  qed
qed

lemma print_loop:
  assumes "term_ok s t" "\<forall>c\<in>set str. c \<noteq> 0 \<and> drawable_char (font_at s (term_font (terminal_at s t))) (sint c)"
  shows "\<exists>s'. terminal_print_loop s t (str @ [0]) 0 = Some (s', 0) \<and> moved t s s' \<and> term_ok s' t \<and>
    term_cell s' t = fold (\<lambda>c. cursor_step (term_size s t) (term_flags (terminal_at s t) AND TERMINAL_FLAG_BACKSPACE_ALLOWED \<noteq> 0) (sint c)) str (term_cell s t)"
  using assms
proof (induction str arbitrary: s)
  case Nil
  then show ?case using drawn_moved [OF drawn_refl, of t s] by simp
next
  case (Cons c str)
  obtain s1 where s1: "terminal_write s t (sint c) = Some (s1, 0)" "moved t s s1" "term_ok s1 t"
    "term_cell s1 t = cursor_step (term_size s t) (term_flags (terminal_at s t) AND TERMINAL_FLAG_BACKSPACE_ALLOWED \<noteq> 0) (sint c) (term_cell s t)"
    using write_step [OF Cons.prems(1), of "sint c"] Cons.prems(2) by auto
  note same = moved_frame [OF s1(2)] moved_same(2) [OF s1(2)]
  show ?case using Cons.IH [OF s1(3)] Cons.prems(2) s1 same moved_trans [OF s1(2)] by (auto simp: same)
qed


lemma update_position_pixels:
  "terminal_update_position_after_draw s t = Some s' \<Longrightarrow> pixel_arrays s' = pixel_arrays s \<and> graphics_at s' = graphics_at s"
  by (auto simp: terminal_update_position_after_draw_def update_terminal_def Let_def bind_eq_Some_conv)

text \<open>The whole of an ordinary character and of a backspace.\<close>

lemma write_draws:
  assumes ok: "term_ok s t" and c: "drawable_char (font_at s (term_font (terminal_at s t))) c" "c \<noteq> 10" "c \<noteq> 8"
  defines "g \<equiv> term_graphics (terminal_at s t)" and "fo \<equiv> font_at s (term_font (terminal_at s t))" and "color \<equiv> font_color (terminal_at s t)"
    and "cx \<equiv> unat (terminal_abs_x_for_next_character s t)" and "cy \<equiv> unat (terminal_abs_y_for_next_character s t)"
  shows "\<exists>s'. terminal_write s t c = Some (s', 0) \<and>
    (\<forall>X Y. X < unat (gi_width (graphics_at s g)) \<and> Y < unat (gi_height (graphics_at s g)) \<longrightarrow>
      pixel_at s' g X Y = (if in_cell cx cy fo X Y \<and> char_bit fo c (X - cx) (Y - cy) \<and> shown s g color then color else pixel_at s g X Y))"
proof -
  let ?tm = "terminal_at s t"
  have o: "paintable s" "font_ok (font_at s (term_font ?tm))" "frame_ok s t" "cursor_ok s t" using ok by (simp_all add: term_ok_def)
  note fits = character_fits [OF o(3,2,4)]
  obtain s1 r where s1: "font_draw s g (term_font ?tm) (int_of_size (terminal_abs_x_for_next_character s t))
        (int_of_size (terminal_abs_y_for_next_character s t)) c color = Some (s1, r)"
      "painted g (\<lambda>x y. in_cell cx cy fo x y \<and> char_bit fo c (x - cx) (y - cy) \<and> shown s g color) (\<lambda>_ _. color) s s1"
    using font_draw_paints [OF o(1) fits(3,4) o(2) c(1) fits(1,2)] unfolding g_def fo_def color_def cx_def cy_def by blast
  have d: "drawn s s1" using s1(2) by (simp add: painted_def)
  have m: "moved t s s1" using d by (rule drawn_moved)
  have cur: "cursor_ok s1 t" using o(4) moved_frame(1) [OF m] drawn_same_terminals(1) [OF d] by (simp add: cursor_ok_def)
  have "term_ok s1 t" using ok m cur by (rule moved_ok)
  then obtain s' where s': "terminal_update_position_after_draw s1 t = Some s'"
    using draw_step [OF _ _ _ c(2), of s1 t False] cur by (auto simp: term_ok_def)
  have "pixel_at s' = pixel_at s1" using update_position_pixels [OF s'] by (simp add: pixel_at_def fun_eq_iff)
  moreover have "terminal_write s t c = Some (s', 0)" using c s1(1) s' by (simp add: terminal_write_def Let_def g_def color_def)
  ultimately show ?thesis using s1(2) unfolding painted_def by (intro exI [of _ s']) simp
qed

lemma backspace_draws:
  assumes ok: "term_ok s t" and fl: "term_flags (terminal_at s t) AND TERMINAL_FLAG_BACKSPACE_ALLOWED \<noteq> 0"
  defines "tm \<equiv> terminal_at s t"
  defines "g \<equiv> term_graphics tm" and "fo \<equiv> font_at s (term_font tm)"
  defines "corner \<equiv> \<lambda>x y. pixel_arrays s (terminal_background tm) ! (y * unat (bounds_width tm) + x)"
  shows "\<exists>s'. terminal_backspace s t = Some (s', 0) \<and> moved t s s' \<and> cursor_ok s' t \<and>
    term_cell s' t = cursor_step (term_size s t) True 8 (term_cell s t) \<and>
    (let cx = unat (terminal_abs_x_for_next_character s' t); cy = unat (terminal_abs_y_for_next_character s' t) in
     \<forall>X Y. X < unat (gi_width (graphics_at s g)) \<and> Y < unat (gi_height (graphics_at s g)) \<longrightarrow>
       pixel_at s' g X Y = (if in_cell cx cy fo X Y \<and> X \<le> unat (bounds_width tm) \<and> Y \<le> unat (bounds_height tm) \<and> shown s g (corner (X - cx) (Y - cy))
         then corner (X - cx) (Y - cy) else pixel_at s g X Y))"
proof -
  have o: "font_ok (font_at s (term_font tm))" "frame_ok s t" "cursor_ok s t" using ok by (simp_all add: term_ok_def tm_def)
  obtain s1 where s1: "moved t s s1" "cursor_ok s1 t" "pixel_arrays s1 = pixel_arrays s"
    and cell: "term_cell s1 t = cursor_step (term_size s t) True 8 (term_cell s t)" and s1':
    "terminal_backspace s t = (let tm = terminal_at s1 t; w = bits_width_per_character (font_at s1 (term_font tm));
        h = bits_height_per_character (font_at s1 (term_font tm)) in do {
        s2 \<leftarrow> terminal_restore_background s1 t (int_of_size (text_col tm * w)) (int_of_size (text_row tm * h)) (int_of_size w) (int_of_size h);
        Some (s2, 0) })"
    using backspace_cursor [OF o(2) o(1) [unfolded tm_def] o(3) fl] by blast
  obtain row col where t1: "terminal_at s1 t = tm\<lparr>text_row := row, text_col := col\<rparr>" using moved_same(1) [OF s1(1)] unfolding tm_def by blast
  note same = moved_same(2,3) [OF s1(1)] s1(3)
  have ok1: "term_ok s1 t" using ok s1(1,2) by (rule moved_ok)
  have fl1: "term_flags (terminal_at s1 t) AND TERMINAL_FLAG_BACKSPACE_ALLOWED \<noteq> 0" using fl t1 by (simp add: tm_def)
  have ne: "terminal_background (terminal_at s1 t) \<noteq> gi_pixels (graphics_at s1 (term_graphics (terminal_at s1 t)))"
    using ok1 fl1 by (simp add: term_ok_def frame_ok_def Let_def)
  have o1: "paintable s1" "frame_ok s1 t" "font_ok (font_at s1 (term_font (terminal_at s1 t)))" "cursor_ok s1 t" using ok1 by (simp_all add: term_ok_def)
  define cx where "cx = unat (terminal_abs_x_for_next_character s1 t)"
  define cy where "cy = unat (terminal_abs_y_for_next_character s1 t)"
  obtain s' where s': "terminal_backspace s t = Some (s', 0)"
    "painted g (\<lambda>X Y. in_cell cx cy fo X Y \<and> X \<le> unat (bounds_width tm) \<and> Y \<le> unat (bounds_height tm) \<and> shown s g (corner (X - cx) (Y - cy)))
       (\<lambda>X Y. corner (X - cx) (Y - cy)) s1 s'"
    using restore_paints [OF o1 fl1 ne]
    by (auto simp: s1' t1 same cx_def cy_def g_def fo_def corner_def shown_def Let_def terminal_abs_x_for_next_character_def terminal_abs_y_for_next_character_def)
  have dr: "drawn s1 s'" using s'(2) by (simp add: painted_def)
  note d = drawn_same_terminals [OF dr]
  have m: "moved t s s'" using s1(1) drawn_moved [OF dr] by (rule moved_trans)
  have cur: "cursor_ok s' t" "term_cell s' t = term_cell s1 t"
    using s1(2) moved_frame(1) [OF drawn_moved [OF dr, of t]] d(1) by (simp_all add: cursor_ok_def term_cell_def)
  have c': "unat (terminal_abs_x_for_next_character s' t) = cx" "unat (terminal_abs_y_for_next_character s' t) = cy"
    unfolding cx_def cy_def terminal_abs_x_for_next_character_def terminal_abs_y_for_next_character_def d by simp_all
  have p: "pixel_at s1 = pixel_at s" by (simp add: pixel_at_def fun_eq_iff same)
  show ?thesis unfolding Let_def
    by (rule exI [of _ s']) (use s' m cur cell in \<open>simp add: c' painted_def p same(2)\<close>)
qed

subsection \<open>Properties\<close>

text \<open>
  C11. Printing a string returns and moves the cursor as the abstract terminal does: a character goes to the next cell and from the
  last to the first, a newline to the start of the next line, a backspace one cell back, and from the first cell to the last line.
\<close>

theorem terminal_print_moves_cursor:
  assumes "term_ok s t" "\<forall>c\<in>set str. c \<noteq> 0 \<and> drawable_char (font_at s (term_font (terminal_at s t))) (sint c)"
  shows "\<exists>s'. terminal_print s t (str @ [0]) = Some (s', 0) \<and> term_ok s' t \<and>
    term_cell s' t = fold (\<lambda>c. cursor_step (term_size s t) (term_flags (terminal_at s t) AND TERMINAL_FLAG_BACKSPACE_ALLOWED \<noteq> 0) (sint c)) str (term_cell s t)"
  using print_loop [OF assms] unfolding terminal_print_def by blast

text \<open>A terminal of two lines with two cells of one pixel on the small screen of Painting. Its font has an \<open>A\<close>, which is one dot, and an empty \<open>B\<close>.\<close>

definition small_terminal :: tstate where
  "small_terminal = gstate.extend (small_screen\<lparr>pixel_arrays := (pixel_arrays small_screen)(0x7000 := [white, black, black, black])\<rparr>) (tstate.fields
     (\<lambda>_. \<lparr>character_count = 2, character_data = [1, 0], bits_width_per_character = 1, bits_height_per_character = 1,
        subtract_from_ascii_char_index_for_drawing = 65, font_filename = []\<rparr>) None 0x6000
     (\<lambda>_. \<lparr>term_graphics = 0x3000, terminal_background = 0x7000, text_row = 1, text_col = 1, bounds_abs_x = 0, bounds_abs_y = 0,
        bounds_width = 2, bounds_height = 2, term_font = 0x6000, font_color = white\<lparr>red := 9\<rparr>, term_flags = 1\<rparr>) None (\<lambda>_ _. black))"

lemma small_terminal_simps [simp]:
  "graphics_at small_terminal = graphics_at small_screen" "loaded_graphics_info small_terminal = 0x1000"
  "pixel_arrays small_terminal = (pixel_arrays small_screen)(0x7000 := [white, black, black, black])"
  "terminal_at small_terminal t = \<lparr>term_graphics = 0x3000, terminal_background = 0x7000, text_row = 1, text_col = 1, bounds_abs_x = 0, bounds_abs_y = 0,
        bounds_width = 2, bounds_height = 2, term_font = 0x6000, font_color = white\<lparr>red := 9\<rparr>, term_flags = 1\<rparr>"
  "font_at small_terminal f = \<lparr>character_count = 2, character_data = [1, 0], bits_width_per_character = 1, bits_height_per_character = 1,
        subtract_from_ascii_char_index_for_drawing = 65, font_filename = []\<rparr>"
  by (simp_all add: small_terminal_def gstate.defs tstate.defs)

lemma small_terminal_ok: "term_ok small_terminal t" "term_size small_terminal t = (2, 2)" "term_cell small_terminal t = 3"
proof -
  have "paintable small_screen" using small_screen_represents by (auto simp: paintable_def)
  then have "paintable small_terminal"
    by (rule paintable_same) (simp_all add: small_screen_def istate.defs gstate.defs)
  moreover have "unat (bytes_for_bits 1) = 1" by (simp add: bytes_for_bits_def)
  moreover have "drawable small_terminal 0x3000" by (simp add: drawable_def null_graphics_def)
  ultimately show "term_ok small_terminal t" by (simp add: term_ok_def font_ok_def frame_ok_def cursor_ok_def term_size_def null_graphics_def)
  show "term_size small_terminal t = (2, 2)" "term_cell small_terminal t = 3" by (simp_all add: term_size_def term_cell_def)
qed

theorem terminal_print_moves_cursor_witness:
  "\<exists>s'. terminal_print small_terminal 0x5000 [65, 66, 10, 8, 0] = Some (s', 0) \<and> term_ok s' 0x5000 \<and> term_cell s' 0x5000 = 1"
proof -
  obtain s' where s': "terminal_print small_terminal 0x5000 ([65, 66, 10, 8] @ [0]) = Some (s', 0)" "term_ok s' 0x5000"
    "term_cell s' 0x5000 = fold (\<lambda>c. cursor_step (term_size small_terminal 0x5000)
       (term_flags (terminal_at small_terminal 0x5000) AND TERMINAL_FLAG_BACKSPACE_ALLOWED \<noteq> 0) (sint c)) [65, 66, 10, 8 :: u8] (term_cell small_terminal 0x5000)"
    using terminal_print_moves_cursor [OF small_terminal_ok(1), where str = "[65, 66, 10, 8]"] by (auto simp: drawable_char_def size_of_int_def)
  moreover have "fold (\<lambda>c. cursor_step (2, 2) True (sint c)) [65, 66, 10, 8 :: u8] 3 = 1"
    by (simp add: cursor_step_def)
  ultimately show ?thesis by (simp add: small_terminal_ok(2,3))
qed

text \<open>
  C10. Writing a character other than newline and backspace draws its bits, and nothing else, into the cell of the cursor, and moves the cursor to the next cell, from the last
  to the first: where a bit is set the pixel gets the terminal's colour, unless that is the colour its rectangle ignores, and every other pixel of the
  rectangle stays as it was. The character is any that is not exactly one past the end of the font; one further outside has no bits.
\<close>

theorem terminal_write_draws_character:
  assumes ok: "term_ok s t" and c: "drawable_char (font_at s (term_font (terminal_at s t))) c" "c \<noteq> 10" "c \<noteq> 8"
  defines "g \<equiv> term_graphics (terminal_at s t)" and "fo \<equiv> font_at s (term_font (terminal_at s t))" and "color \<equiv> font_color (terminal_at s t)"
    and "cx \<equiv> unat (terminal_abs_x_for_next_character s t)" and "cy \<equiv> unat (terminal_abs_y_for_next_character s t)"
  shows "\<exists>s'. terminal_write s t c = Some (s', 0) \<and> term_ok s' t \<and>
    term_cell s' t = (term_cell s t + 1) mod (fst (term_size s t) * snd (term_size s t)) \<and>
    (\<forall>X Y. X < unat (gi_width (graphics_at s g)) \<and> Y < unat (gi_height (graphics_at s g)) \<longrightarrow>
      pixel_at s' g X Y = (if in_cell cx cy fo X Y \<and> char_bit fo c (X - cx) (Y - cy) \<and> shown s g color then color else pixel_at s g X Y))"
proof -
  obtain s' where s': "terminal_write s t c = Some (s', 0)"
    "\<forall>X Y. X < unat (gi_width (graphics_at s g)) \<and> Y < unat (gi_height (graphics_at s g)) \<longrightarrow>
      pixel_at s' g X Y = (if in_cell cx cy fo X Y \<and> char_bit fo c (X - cx) (Y - cy) \<and> shown s g color then color else pixel_at s g X Y)"
    using write_draws [OF ok c] unfolding g_def fo_def color_def cx_def cy_def by blast
  have "term_ok s' t" "term_cell s' t = (term_cell s t + 1) mod (fst (term_size s t) * snd (term_size s t))"
    using write_step [OF ok c(1)] s'(1) c(2,3) by (auto simp: cursor_step_def split: prod.splits)
  then show ?thesis using s' by blast
qed

theorem terminal_write_draws_character_witness:
  "\<exists>s'. terminal_write small_terminal 0x5000 65 = Some (s', 0) \<and> term_cell s' 0x5000 = 0 \<and> pixel_at s' 0x3000 1 1 = white\<lparr>red := 9\<rparr> \<and> pixel_at s' 0x3000 0 0 = white"
proof -
  obtain s' where s': "terminal_write small_terminal 0x5000 65 = Some (s', 0)" "term_cell s' 0x5000 = 0" and
    p: "\<forall>X Y. X < unat (gi_width (graphics_at small_terminal 0x3000)) \<and> Y < unat (gi_height (graphics_at small_terminal 0x3000)) \<longrightarrow>
      pixel_at s' 0x3000 X Y = (if in_cell 1 1 (font_at small_terminal 0x6000) X Y \<and> char_bit (font_at small_terminal 0x6000) 65 (X - 1) (Y - 1) \<and>
          shown small_terminal 0x3000 (white\<lparr>red := 9\<rparr>) then white\<lparr>red := 9\<rparr> else pixel_at small_terminal 0x3000 X Y)"
    using terminal_write_draws_character [OF small_terminal_ok(1), where c = 65 and t = "0x5000"] small_terminal_ok(2,3)
    by (auto simp: drawable_char_def size_of_int_def terminal_abs_x_for_next_character_def terminal_abs_y_for_next_character_def)
  have b: "char_bit (font_at small_terminal 0x6000) 65 0 0" by (simp add: char_bit_def size_of_int_def)
  show ?thesis using s' p [rule_format, of 1 1] p [rule_format, of 0 0] b
    by (auto simp: in_cell_def shown_def null_graphics_def pixel_at_def)
qed

text \<open>
  C14. Backspace fills the cell it goes back to with the upper left corner of the saved background, whichever cell it is: the pixel
  that the loop reads is the one at its own offset inside the cell.
\<close>

theorem terminal_backspace_restores_corner:
  assumes ok: "term_ok s t" and fl: "term_flags (terminal_at s t) AND TERMINAL_FLAG_BACKSPACE_ALLOWED \<noteq> 0"
  defines "tm \<equiv> terminal_at s t"
  defines "g \<equiv> term_graphics tm" and "fo \<equiv> font_at s (term_font tm)"
  shows "\<exists>s'. terminal_backspace s t = Some (s', 0) \<and> moved t s s' \<and> cursor_ok s' t \<and>
    term_cell s' t = cursor_step (term_size s t) True 8 (term_cell s t) \<and>
    (let cx = unat (terminal_abs_x_for_next_character s' t); cy = unat (terminal_abs_y_for_next_character s' t);
         corner = (\<lambda>x y. pixel_arrays s (terminal_background tm) ! (y * unat (bounds_width tm) + x)) in
     \<forall>X Y. X < unat (gi_width (graphics_at s g)) \<and> Y < unat (gi_height (graphics_at s g)) \<longrightarrow>
       pixel_at s' g X Y = (if in_cell cx cy fo X Y \<and> X \<le> unat (bounds_width tm) \<and> Y \<le> unat (bounds_height tm) \<and> shown s g (corner (X - cx) (Y - cy))
         then corner (X - cx) (Y - cy) else pixel_at s g X Y))"
  using backspace_draws [OF ok fl] unfolding tm_def g_def fo_def Let_def .

theorem terminal_backspace_restores_corner_witness:
  "\<exists>s'. terminal_backspace small_terminal 0x5000 = Some (s', 0) \<and> pixel_at s' 0x3000 0 1 = white \<and> pixel_arrays small_terminal 0x7000 ! 2 = black"
proof -
  obtain s' where s': "terminal_backspace small_terminal 0x5000 = Some (s', 0)" "moved 0x5000 small_terminal s'" "cursor_ok s' 0x5000" "term_cell s' 0x5000 = 2" and
    p: "let cx = unat (terminal_abs_x_for_next_character s' 0x5000); cy = unat (terminal_abs_y_for_next_character s' 0x5000);
         corner = (\<lambda>x y. pixel_arrays small_terminal 0x7000 ! (y * 2 + x)) in
     \<forall>X Y. X < 2 \<and> Y < 2 \<longrightarrow> pixel_at s' 0x3000 X Y = (if in_cell cx cy (font_at small_terminal 0x6000) X Y \<and> X \<le> 2 \<and> Y \<le> 2 \<and> shown small_terminal 0x3000 (corner (X - cx) (Y - cy))
         then corner (X - cx) (Y - cy) else pixel_at small_terminal 0x3000 X Y)"
    using terminal_backspace_restores_corner [OF small_terminal_ok(1), where t = "0x5000"] unfolding small_terminal_ok(2,3)
    by (auto simp: cursor_step_def null_graphics_def Let_def cong: if_cong)
  obtain row col where t: "terminal_at s' 0x5000 = (terminal_at small_terminal 0x5000)\<lparr>text_row := row, text_col := col\<rparr>"
    using moved_same(1) [OF s'(2)] by blast
  have "term_size s' 0x5000 = (2, 2)" using moved_frame(1) [OF s'(2)] small_terminal_ok(2) by simp
  then have "unat row * 2 + unat col = 2" "unat col < 2" using s'(3,4) by (simp_all add: term_cell_def cursor_ok_def t)
  then have "unat row = 1" "unat col = 0" by presburger+
  then have "unat (terminal_abs_x_for_next_character s' 0x5000) = 0" "unat (terminal_abs_y_for_next_character s' 0x5000) = 1"
    using moved_same(2) [OF s'(2)] by (simp_all add: terminal_abs_x_for_next_character_def terminal_abs_y_for_next_character_def t Let_def)
  then have "pixel_at s' 0x3000 0 1 = white"
    using p unfolding Let_def by (auto simp: in_cell_def shown_def null_graphics_def dest!: spec [of _ 0] spec [of _ 1])
  then show ?thesis using s'(1) by simp
qed

end
