(* ===== verification/Window.thy ===== *)
theory Window
  imports Typing
begin

section \<open>Windows: window.c\<close>

text \<open>
  Windows over the rectangles of Graphics and the terminals of Terminal. The store \<open>kwindow_at\<close> holds the windows by address,
  the null page among them; \<open>windows_vector\<close> is the vector of the windows on the screen. An event handler is an address, and what
  the handler at an address does is an argument of the functions that push events.
\<close>

abbreviation (input) WINDOW_MAX_TITLE :: nat where "WINDOW_MAX_TITLE \<equiv> 128"
abbreviation (input) WINDOW_BORDER_PIXEL_SIZE :: u64 where "WINDOW_BORDER_PIXEL_SIZE \<equiv> 2"
abbreviation (input) WINDOW_TITLE_BAR_HEIGHT :: u64 where "WINDOW_TITLE_BAR_HEIGHT \<equiv> 32"
abbreviation (input) WINDOW_FLAG_BORDERLESS :: u32 where "WINDOW_FLAG_BORDERLESS \<equiv> 1"
abbreviation (input) WINDOW_FLAG_CLICK_THROUGH :: u32 where "WINDOW_FLAG_CLICK_THROUGH \<equiv> 2"
abbreviation (input) WINDOW_FLAG_BACKGROUND_TRANSPARENT :: u32 where "WINDOW_FLAG_BACKGROUND_TRANSPARENT \<equiv> 4"
abbreviation (input) WINDOW_EVENT_TYPE_LOST_FOCUS :: int where "WINDOW_EVENT_TYPE_LOST_FOCUS \<equiv> 2"
abbreviation (input) WINDOW_EVENT_TYPE_KEY_PRESS :: int where "WINDOW_EVENT_TYPE_KEY_PRESS \<equiv> 6"

record window =
  window_ident :: int
  title_bar_terminal :: u64
  body_terminal :: u64
  root_graphics :: u64
  title_bar_graphics :: u64
  body_graphics :: u64
  close_btn_x :: u64
  close_btn_y :: u64
  close_btn_width :: u64
  close_btn_height :: u64
  event_handlers :: "u64 tvec option"
  win_width :: u64
  win_height :: u64
  win_x :: u64
  win_y :: u64
  win_zindex :: u64
  win_title :: "u8 list"
  win_flags :: u32

record wstate = tstate +
  kwindow_at :: "u64 \<Rightarrow> window"
  windows_vector :: "u64 tvec option"
  close_icon :: u64
  window_moving :: u64
  focused_window :: u64
  window_autoincrement_id_current :: int

type_synonym 's event_calls = "u64 \<Rightarrow> 's \<Rightarrow> u64 \<Rightarrow> window_event \<Rightarrow> 's option"

definition null_window :: window where
  "null_window = \<lparr>window_ident = 0, title_bar_terminal = 0, body_terminal = 0, root_graphics = 0, title_bar_graphics = 0, body_graphics = 0,
     close_btn_x = 0, close_btn_y = 0, close_btn_width = 0, close_btn_height = 0, event_handlers = None, win_width = 0, win_height = 0,
     win_x = 0, win_y = 0, win_zindex = 0, win_title = replicate WINDOW_MAX_TITLE 0, win_flags = 0\<rparr>"

definition null_event :: window_event where
  "null_event = \<lparr>event_type = 0, win_id = 0, event_window = 0, data_x = 0, data_y = 0\<rparr>"

definition update_window :: "'s wstate_scheme \<Rightarrow> u64 \<Rightarrow> (window \<Rightarrow> window) \<Rightarrow> 's wstate_scheme" where
  "update_window s w f = s\<lparr>kwindow_at := (kwindow_at s)(w := f (kwindow_at s w))\<rparr>"

text \<open>The pointer that \<open>vector_at\<close> leaves in its buffer: it clears the buffer on an error.\<close>

definition element_or_null :: "int + u64 \<Rightarrow> u64" where
  "element_or_null r = (case r of Inl _ \<Rightarrow> 0 | Inr x \<Rightarrow> x)"

subsection \<open>Events\<close>

definition window_event_handler_unregister :: "'s wstate_scheme \<Rightarrow> u64 \<Rightarrow> u64 \<Rightarrow> 's wstate_scheme option" where
  "window_event_handler_unregister s w handler = do {
     v \<leftarrow> event_handlers (kwindow_at s w);
     (s1, v', _) \<leftarrow> tvec_pop_element s v handler;
     Some (update_window s1 w (\<lambda>win. win\<lparr>event_handlers := Some v'\<rparr>))
   }"

definition window_event_handler_register :: "'s wstate_scheme \<Rightarrow> u64 \<Rightarrow> u64 \<Rightarrow> 's wstate_scheme option" where
  "window_event_handler_register s w handler = do {
     v \<leftarrow> event_handlers (kwindow_at s w);
     (s1, v', _) \<leftarrow> tvec_push s v handler;
     Some (update_window s1 w (\<lambda>win. win\<lparr>event_handlers := Some v'\<rparr>))
   }"

text \<open>
  The loop of \<open>window_drop_event_handlers\<close>: it ends when the first element is null or there is none.
\<close>

partial_function (option) drop_handlers_loop :: "u64 \<Rightarrow> u64 \<Rightarrow> 's wstate_scheme \<Rightarrow> 's wstate_scheme option" where
  "drop_handlers_loop w handler s =
     (if handler = 0 then Some s
      else do {
        s1 \<leftarrow> window_event_handler_unregister s w handler;
        v \<leftarrow> event_handlers (kwindow_at s1 w);
        r \<leftarrow> tvec_at v 0;
        drop_handlers_loop w (element_or_null r) s1
      })"

definition window_drop_event_handlers :: "'s wstate_scheme \<Rightarrow> u64 \<Rightarrow> 's wstate_scheme option" where
  "window_drop_event_handlers s w = do {
     v \<leftarrow> event_handlers (kwindow_at s w);
     r \<leftarrow> tvec_at v 0;
     drop_handlers_loop w (element_or_null r) s
   }"

text \<open>The number of handlers is read once, the vector again for each, because a handler may change it.\<close>

primrec event_push_loop :: "'s wstate_scheme event_calls \<Rightarrow> 's wstate_scheme \<Rightarrow> u64 \<Rightarrow> window_event \<Rightarrow> nat \<Rightarrow> nat \<Rightarrow> 's wstate_scheme option" where
  "event_push_loop call s w event i 0 = Some s"
| "event_push_loop call s w event i (Suc n) = do {
     v \<leftarrow> event_handlers (kwindow_at s w);
     r \<leftarrow> tvec_at v (of_nat i);
     s1 \<leftarrow> (if element_or_null r \<noteq> 0 then call (element_or_null r) s w event else Some s);
     event_push_loop call s1 w event (Suc i) n
   }"

definition window_event_push :: "'s wstate_scheme event_calls \<Rightarrow> 's wstate_scheme \<Rightarrow> u64 \<Rightarrow> window_event \<Rightarrow> 's wstate_scheme option" where
  "window_event_push call s w event = do {
     v \<leftarrow> event_handlers (kwindow_at s w);
     event_push_loop call s w (event\<lparr>event_window := w, win_id := window_ident (kwindow_at s w)\<rparr>) 0 (unat (t_elems (tv_header v)))
   }"

definition window_click :: "'s wstate_scheme event_calls \<Rightarrow> 's wstate_scheme \<Rightarrow> u64 \<Rightarrow> int \<Rightarrow> int \<Rightarrow> 's wstate_scheme option" where
  "window_click call s w rel_x rel_y =
     window_event_push call s w (null_event\<lparr>event_type := WINDOW_EVENT_TYPE_MOUSE_CLICK, data_x := rel_x, data_y := rel_y\<rparr>)"

text \<open>The handler that every window has.\<close>

definition window_event_handler :: "'s wstate_scheme \<Rightarrow> u64 \<Rightarrow> window_event \<Rightarrow> 's wstate_scheme \<times> int" where
  "window_event_handler s w win_event = (s, 0)"

text \<open>The number of the window is not copied.\<close>

definition window_event_to_userland :: "window_event \<Rightarrow> window_event \<Rightarrow> window_event" where
  "window_event_to_userland kernel_win_event_in userland_win_event_out =
     userland_win_event_out\<lparr>event_type := event_type kernel_win_event_in, data_x := data_x kernel_win_event_in, data_y := data_y kernel_win_event_in\<rparr>"

definition window_focused :: "'s wstate_scheme \<Rightarrow> u64" where
  "window_focused s = focused_window s"

definition window_keyboard_event_listener_on_event_keypress ::
  "'s wstate_scheme event_calls \<Rightarrow> 's wstate_scheme \<Rightarrow> u64 \<Rightarrow> keyboard_event \<Rightarrow> 's wstate_scheme option" where
  "window_keyboard_event_listener_on_event_keypress call s win ev =
     window_event_push call s win (null_event\<lparr>event_type := WINDOW_EVENT_TYPE_KEY_PRESS, data_x := kevent_data ev\<rparr>)"

definition window_keyboard_event_listener_on_event ::
  "'s wstate_scheme event_calls \<Rightarrow> 's wstate_scheme \<Rightarrow> u64 \<Rightarrow> keyboard_event \<Rightarrow> 's wstate_scheme option" where
  "window_keyboard_event_listener_on_event call s kb ev =
     (if window_focused s \<noteq> 0 \<and> kevent_type ev = KEYBOARD_EVENT_KEY_PRESS
      then window_keyboard_event_listener_on_event_keypress call s (window_focused s) ev else Some s)"


subsection \<open>Finding windows\<close>

definition window_owns_graphics :: "'s wstate_scheme \<Rightarrow> u64 \<Rightarrow> u64 \<Rightarrow> bool option" where
  "window_owns_graphics s win graphics =
     (if graphics = root_graphics (kwindow_at s win) then Some True else graphics_has_ancestor s graphics (root_graphics (kwindow_at s win)))"

primrec owner_window_loop :: "'s wstate_scheme \<Rightarrow> u64 list \<Rightarrow> u64 \<Rightarrow> u64 option" where
  "owner_window_loop s [] graphics = Some 0"
| "owner_window_loop s (w # ws) graphics =
     (if w = 0 then owner_window_loop s ws graphics
      else do {
        owns \<leftarrow> window_owns_graphics s w graphics;
        if owns then Some w else owner_window_loop s ws graphics
      })"

definition window_get_from_graphics :: "'s wstate_scheme \<Rightarrow> u64 \<Rightarrow> u64 option" where
  "window_get_from_graphics s graphics = do { v \<leftarrow> windows_vector s; ws \<leftarrow> tvec_items v; owner_window_loop s ws graphics }"

text \<open>The left and upper edge are those of the window, the others those of its rectangle.\<close>

definition window_contains :: "'s wstate_scheme \<Rightarrow> u64 \<Rightarrow> u64 \<Rightarrow> u64 \<Rightarrow> bool" where
  "window_contains s w abs_x abs_y =
     (let win = kwindow_at s w; g = graphics_at s (root_graphics win) in
      abs_x \<ge> win_x win \<and> abs_x < ucast (starting_x g) + ucast (gi_width g) \<and>
      abs_y \<ge> win_y win \<and> abs_y < ucast (starting_y g) + ucast (gi_height g))"

definition window_get_at_position :: "'s wstate_scheme \<Rightarrow> u64 \<Rightarrow> u64 \<Rightarrow> u64 \<Rightarrow> u64 option" where
  "window_get_at_position s abs_x abs_y ignore_window = do {
     v \<leftarrow> windows_vector s;
     ws \<leftarrow> tvec_items v;
     Some (case find (\<lambda>w. w \<noteq> 0 \<and> w \<noteq> ignore_window \<and> window_contains s w abs_x abs_y) ws of None \<Rightarrow> 0 | Some w \<Rightarrow> w)
   }"

subsection \<open>The order of the windows\<close>

definition window_reorder :: "'s wstate_scheme \<Rightarrow> u64 \<Rightarrow> u64 \<Rightarrow> int" where
  "window_reorder s win1 win2 = (if win_zindex (kwindow_at s win1) < win_zindex (kwindow_at s win2) then 1 else 0)"

text \<open>The index goes to the rectangle; the field by which the vector is sorted is not set.\<close>

definition window_set_z_index :: "'s wstate_scheme \<Rightarrow> u64 \<Rightarrow> int \<Rightarrow> 's wstate_scheme option" where
  "window_set_z_index s w zindex = do {
     s1 \<leftarrow> graphics_set_z_index s (root_graphics (kwindow_at s w)) (word_of_int zindex);
     v \<leftarrow> windows_vector s1;
     (s2, v') \<leftarrow> tvec_reorder s1 v (window_reorder s1);
     Some (s2\<lparr>windows_vector := Some v'\<rparr>)
   }"

definition window_bring_to_top :: "'s wstate_scheme \<Rightarrow> u64 \<Rightarrow> 's wstate_scheme option" where
  "window_bring_to_top s w = do {
     v \<leftarrow> gi_children (graphics_at s (graphics_screen_info s));
     child \<leftarrow> (if t_elems (tv_header v) > 0
       then do { r \<leftarrow> tvec_at v (t_elems (tv_header v) - 1); Some (element_or_null r) } else Some 0);
     let last_index = (if child \<noteq> 0 then ucast (z_index (graphics_at s child)) else 0);
     window_set_z_index s w (int_of_size (last_index + 1))
   }"

definition window_get_largest_zindex :: "'s wstate_scheme \<Rightarrow> u64 option" where
  "window_get_largest_zindex s = do {
     v \<leftarrow> windows_vector s;
     if t_elems (tv_header v) > 0
     then do { r \<leftarrow> tvec_at v 0; Some (if element_or_null r \<noteq> 0 then win_zindex (kwindow_at s (element_or_null r)) else 0) }
     else Some 0
   }"

primrec recalculate_zindexes_loop :: "'s wstate_scheme \<Rightarrow> nat \<Rightarrow> nat \<Rightarrow> u64 \<Rightarrow> ('s wstate_scheme \<times> u64) option" where
  "recalculate_zindexes_loop s i 0 last_zindex = Some (s, last_zindex)"
| "recalculate_zindexes_loop s i (Suc n) last_zindex = do {
     v \<leftarrow> windows_vector s;
     r \<leftarrow> tvec_at v (of_nat i);
     let w = element_or_null r;
     if w = 0 then recalculate_zindexes_loop s (Suc i) n last_zindex
     else do {
       cv \<leftarrow> gi_children (graphics_at s (root_graphics (kwindow_at s w)));
       let z = t_elems (tv_header cv) + of_nat i + 1;
       s1 \<leftarrow> graphics_set_z_index s (root_graphics (kwindow_at s w)) (ucast z);
       recalculate_zindexes_loop s1 (Suc i) n z
     }
   }"

definition window_recalculate_zindexes :: "'s wstate_scheme \<Rightarrow> ('s wstate_scheme \<times> int) option" where
  "window_recalculate_zindexes s = do {
     v \<leftarrow> windows_vector s;
     (s1, z) \<leftarrow> recalculate_zindexes_loop s 0 (unat (t_elems (tv_header v))) 0;
     Some (s1, int_of_size z)
   }"

subsection \<open>Drawing\<close>

definition window_redraw :: "'s wstate_scheme \<Rightarrow> u64 \<Rightarrow> 's wstate_scheme option" where
  "window_redraw s w = graphics_redraw (root_graphics (kwindow_at s w)) s"

definition window_redraw_body_region :: "'s wstate_scheme \<Rightarrow> u64 \<Rightarrow> int \<Rightarrow> int \<Rightarrow> int \<Rightarrow> int \<Rightarrow> 's wstate_scheme option" where
  "window_redraw_body_region s w x y width height =
     graphics_redraw_region (body_graphics (kwindow_at s w)) (word_of_int x) (word_of_int y) (word_of_int width) (word_of_int height) s"

definition window_redraw_region :: "'s wstate_scheme \<Rightarrow> u64 \<Rightarrow> int \<Rightarrow> int \<Rightarrow> int \<Rightarrow> int \<Rightarrow> 's wstate_scheme option" where
  "window_redraw_region s w x y width height =
     graphics_redraw_region (root_graphics (kwindow_at s w)) (word_of_int x) (word_of_int y) (word_of_int width) (word_of_int height) s"

definition window_draw_title_bar :: "'s wstate_scheme \<Rightarrow> u64 \<Rightarrow> framebuffer_pixel \<Rightarrow> 's wstate_scheme option" where
  "window_draw_title_bar s w title_bar_bg_color =
     (let win = kwindow_at s w; tt = title_bar_terminal win in
      if w = 0 \<or> title_bar_graphics win = 0 then Some s
      else do {
        (s1, _) \<leftarrow> terminal_draw_rect s tt 0 0 (ucast (gi_width (graphics_at s (title_bar_graphics win)))) WINDOW_TITLE_BAR_HEIGHT title_bar_bg_color;
        (s2, _) \<leftarrow> terminal_cursor_set s1 tt 0 0;
        (s3, _) \<leftarrow> terminal_print s2 tt (win_title win);
        (s4, _) \<leftarrow> terminal_draw_image (terminal_ignore_color s3 tt white) tt (ucast (close_btn_x win)) (ucast (close_btn_y win)) (close_icon s3);
        Some (terminal_ignore_color_finish s4 tt)
      })"

definition window_title_set :: "'s wstate_scheme \<Rightarrow> u64 \<Rightarrow> u8 list \<Rightarrow> 's wstate_scheme option" where
  "window_title_set s w title = do {
     t \<leftarrow> strncpy (win_title (kwindow_at s w)) title (int WINDOW_MAX_TITLE);
     s1 \<leftarrow> window_draw_title_bar (update_window s w (\<lambda>win. win\<lparr>win_title := t\<rparr>)) w black;
     window_redraw s1 w
   }"

subsection \<open>The focus\<close>

definition window_unfocus :: "'s wstate_scheme event_calls \<Rightarrow> 's wstate_scheme \<Rightarrow> u64 \<Rightarrow> 's wstate_scheme option" where
  "window_unfocus call s w = do {
     s1 \<leftarrow> window_draw_title_bar s w black;
     let g = graphics_at s1 (root_graphics (kwindow_at s1 w));
     s2 \<leftarrow> graphics_redraw_region (graphics_screen_info s1) (starting_x g) (starting_y g) (gi_width g) (gi_height g) s1;
     window_event_push call s2 w (null_event\<lparr>event_type := WINDOW_EVENT_TYPE_LOST_FOCUS\<rparr>)
   }"

definition window_focus :: "'s wstate_scheme event_calls \<Rightarrow> 's wstate_scheme \<Rightarrow> u64 \<Rightarrow> 's wstate_scheme option" where
  "window_focus call s w =
     (if w = 0 then Some s
      else if focused_window s = w then Some s
      else do {
        let old_focused_window = focused_window s;
        let s0 = s\<lparr>focused_window := w\<rparr>;
        s1 \<leftarrow> (if old_focused_window \<noteq> 0 \<and> title_bar_graphics (kwindow_at s0 old_focused_window) \<noteq> 0
          then window_unfocus call s0 old_focused_window else Some s0);
        s2 \<leftarrow> window_bring_to_top s1 w;
        s3 \<leftarrow> (if title_bar_graphics (kwindow_at s2 w) \<noteq> 0 then window_draw_title_bar s2 w (black\<lparr>red := 0xff\<rparr>) else Some s2);
        let g = root_graphics (kwindow_at s3 w);
        s4 \<leftarrow> graphics_redraw_graphics_to_screen s3 g 0 0 (gi_width (graphics_at s3 g)) (gi_height (graphics_at s3 g));
        window_event_push call s4 w (null_event\<lparr>event_type := WINDOW_EVENT_TYPE_FOCUS\<rparr>)
      })"


subsection \<open>Moving a window\<close>

text \<open>
  The two stripes that a move uncovers: \<open>x_redraw\<close> and \<open>y_redraw\<close>, each a position and a size. The gaps are signed
  differences; one that, or whose negation, does not fit an \<open>int\<close> is undefined.
\<close>

definition int_difference :: "int \<Rightarrow> int \<Rightarrow> int option" where
  "int_difference a b = (if - (2 ^ 31) < a - b \<and> a - b < 2 ^ 31 then Some (a - b) else None)"

definition uncovered_stripes :: "graphics_info \<Rightarrow> int \<Rightarrow> int \<Rightarrow> int \<Rightarrow> int \<Rightarrow> (int \<times> int \<times> int \<times> int) \<times> (int \<times> int \<times> int \<times> int)" where
  "uncovered_stripes g old_screen_x old_screen_y x_gap y_gap =
     ((if x_gap \<ge> 0 then sint (starting_x g + gi_width g) else sint (starting_x g + word_of_int x_gap), old_screen_y, \<bar>x_gap\<bar>, sint (gi_height g)),
      (old_screen_x, if y_gap \<ge> 0 then sint (starting_y g + gi_height g) else sint (starting_y g + word_of_int y_gap), sint (gi_width g), \<bar>y_gap\<bar>))"

text \<open>A window that would end past the screen's edge is put one pixel before it, even where that is left of the screen.\<close>

definition window_position_set :: "'s wstate_scheme \<Rightarrow> u64 \<Rightarrow> u64 \<Rightarrow> u64 \<Rightarrow> ('s wstate_scheme \<times> int) option" where
  "window_position_set s w new_x new_y = do {
     let win = kwindow_at s w;
     let scr = graphics_at s (graphics_screen_info s);
     let root = root_graphics win;
     let new_x = (if new_x + win_width win > ucast (gi_width scr) then ucast (gi_width scr) - win_width win - 1 else new_x);
     let new_y = (if new_y + win_height win > ucast (gi_height scr) then ucast (gi_height scr) - win_height win - 1 else new_y);
     let old_screen_x = sint (starting_x (graphics_at s root));
     let old_screen_y = sint (starting_y (graphics_at s root));
     let s1 = update_graphics s root (\<lambda>gi. gi\<lparr>gi_relative_x := ucast new_x, gi_relative_y := ucast new_y, starting_x := ucast new_x, starting_y := ucast new_y\<rparr>);
     let s2 = update_window s1 w (\<lambda>win. win\<lparr>win_x := new_x, win_y := new_y\<rparr>);
     s3 \<leftarrow> window_bring_to_top s2 w;
     s4 \<leftarrow> graphics_info_recalculate root s3;
     let g = graphics_at s4 root;
     x_gap \<leftarrow> int_difference old_screen_x (sint (starting_x g));
     y_gap \<leftarrow> int_difference old_screen_y (sint (starting_y g));
     let ((xx, xy, xw, xh), (yx, yy, yw, yh)) = uncovered_stripes g old_screen_x old_screen_y x_gap y_gap;
     s6 \<leftarrow> (if (word_of_int xw :: u32) > gi_width g \<or> (word_of_int xh :: u32) > gi_height g \<or>
              (word_of_int yw :: u32) > gi_width g \<or> (word_of_int yh :: u32) > gi_height g
       then graphics_redraw_region (graphics_screen_info s4) (word_of_int old_screen_x) (word_of_int old_screen_y) (gi_width g) (gi_height g) s4
       else do {
         s5 \<leftarrow> graphics_redraw_region (graphics_screen_info s4) (word_of_int xx) (word_of_int xy) (word_of_int xw) (word_of_int xh) s4;
         graphics_redraw_region (graphics_screen_info s5) (word_of_int yx) (word_of_int yy) (word_of_int yw) (word_of_int yh) s5
       });
     s7 \<leftarrow> window_redraw s6 w;
     Some (s7, 0)
   }"

text \<open>The pointer's position less half of the title bar, without a sign.\<close>

definition window_screen_mouse_move_handler :: "'s wstate_scheme event_calls \<Rightarrow> 's wstate_scheme \<Rightarrow> int \<Rightarrow> int \<Rightarrow> 's wstate_scheme option" where
  "window_screen_mouse_move_handler call s moved_to_x moved_to_y =
     (let w = window_moving s; tb = title_bar_graphics (kwindow_at s w) in
      if w = 0 then Some s
      else do {
        s1 \<leftarrow> (if tb \<noteq> 0
          then do {
            (s', _) \<leftarrow> window_position_set s w (ucast (word_of_int moved_to_x - gi_width (graphics_at s tb) div 2 :: u32))
               (ucast (word_of_int moved_to_y - gi_height (graphics_at s tb) div 2 :: u32));
            Some s'
          }
          else Some s);
        let g = graphics_at s1 (root_graphics (kwindow_at s1 w));
        window_event_push call s1 w (null_event\<lparr>event_type := WINDOW_EVENT_TYPE_MOUSE_MOVE,
          data_x := sint (word_of_int moved_to_x - starting_x g :: u32), data_y := sint (word_of_int moved_to_y - starting_y g :: u32)\<rparr>)
      })"

text \<open>The window of the pointer is the argument that the search leaves out.\<close>

definition window_click_handler :: "'s wstate_scheme event_calls \<Rightarrow> 's wstate_scheme \<Rightarrow> u64 \<Rightarrow> int \<Rightarrow> int \<Rightarrow> 's wstate_scheme option" where
  "window_click_handler call s pointer_window abs_x abs_y = do {
     w \<leftarrow> window_get_at_position s (size_of_int abs_x) (size_of_int abs_y) pointer_window;
     if w = 0 then Some s
     else do {
       let g = graphics_at s (root_graphics (kwindow_at s w));
       s1 \<leftarrow> window_click call s w (sint (word_of_int abs_x - starting_x g :: u32)) (sint (word_of_int abs_y - starting_y g :: u32));
       window_focus call s1 w
     }
   }"

subsection \<open>Closing a window\<close>

text \<open>\<open>vector_free\<close> is \<open>kfree\<close>, which changes nothing.\<close>

definition window_free :: "'s wstate_scheme \<Rightarrow> u64 \<Rightarrow> 's wstate_scheme option" where
  "window_free s w = do {
     s1 \<leftarrow> window_drop_event_handlers s w;
     v \<leftarrow> windows_vector s1;
     (s2, v', _) \<leftarrow> tvec_pop_element s1 v w;
     let s3 = s2\<lparr>windows_vector := Some v'\<rparr>;
     s4 \<leftarrow> terminal_free s3 (body_terminal (kwindow_at s3 w));
     s5 \<leftarrow> terminal_free s4 (title_bar_terminal (kwindow_at s4 w));
     s6 \<leftarrow> graphics_info_free (root_graphics (kwindow_at s5 w)) s5;
     Some (kfree s6 w)
   }"

definition window_close :: "'s wstate_scheme event_calls \<Rightarrow> 's wstate_scheme \<Rightarrow> u64 \<Rightarrow> 's wstate_scheme option" where
  "window_close call s w = do {
     s1 \<leftarrow> window_event_push call s w (null_event\<lparr>event_type := WINDOW_EVENT_TYPE_WINDOW_CLOSE\<rparr>);
     s2 \<leftarrow> window_free s1 w;
     graphics_redraw_all s2
   }"

definition window_title_bar_clicked :: "'s wstate_scheme event_calls \<Rightarrow> 's wstate_scheme \<Rightarrow> u64 \<Rightarrow> u64 \<Rightarrow> u64 \<Rightarrow> 's wstate_scheme option" where
  "window_title_bar_clicked call s title_graphics rel_x rel_y = do {
     w \<leftarrow> window_get_from_graphics s title_graphics;
     if w = 0 then Some s
     else do {
       let win = kwindow_at s w;
       if rel_x \<ge> close_btn_x win \<and> rel_x < close_btn_x win + close_btn_width win \<and>
          rel_y \<ge> close_btn_y win \<and> rel_y < close_btn_y win + close_btn_height win
       then window_close call s w
       else Some (s\<lparr>window_moving := (if window_moving s = w then 0 else w)\<rparr>)
     }
   }"

definition window_title_bar_mouse_moved :: "'s wstate_scheme \<Rightarrow> u64 \<Rightarrow> 's wstate_scheme" where
  "window_title_bar_mouse_moved s title_graphics = s"

subsection \<open>Making a window\<close>

text \<open>The addresses of the handlers that a new window is given.\<close>

record window_handlers =
  wh_title_bar_clicked :: u64
  wh_title_bar_mouse_moved :: u64
  wh_event_handler :: u64

text \<open>The end of \<open>window_create\<close> when something failed: the rectangles stay in the tree.\<close>

definition window_create_failed :: "'s wstate_scheme \<Rightarrow> u64 \<Rightarrow> ('s wstate_scheme \<times> u64) option" where
  "window_create_failed s w = do {
     s1 \<leftarrow> (if body_terminal (kwindow_at s w) \<noteq> 0
       then do { s' \<leftarrow> terminal_free s (body_terminal (kwindow_at s w)); Some (update_window s' w (\<lambda>win. win\<lparr>body_terminal := 0\<rparr>)) } else Some s);
     s2 \<leftarrow> (if title_bar_terminal (kwindow_at s1 w) \<noteq> 0
       then do { s' \<leftarrow> terminal_free s1 (title_bar_terminal (kwindow_at s1 w)); Some (update_window s' w (\<lambda>win. win\<lparr>title_bar_terminal := 0\<rparr>)) } else Some s1);
     v \<leftarrow> windows_vector s2;
     (s3, v', _) \<leftarrow> tvec_pop_element s2 v w;
     Some (kfree (s3\<lparr>windows_vector := Some v'\<rparr>) w, 0)
   }"

text \<open>
  The parts of a window with a border: the title bar with its handlers and the three borders. \<open>Inr\<close> is the left border and
  the title bar; the pointers of the other borders are declared again inside the block and are null behind it.
\<close>

definition window_frame_create ::
  "window_handlers \<Rightarrow> 's wstate_scheme \<Rightarrow> u64 \<Rightarrow> u64 \<Rightarrow> u64 \<Rightarrow> u64 \<Rightarrow> ('s wstate_scheme \<times> (u64 \<times> u64) option) option" where
  "window_frame_create hs s w root width height = do {
     let total_window_width_bounds = width + WINDOW_BORDER_PIXEL_SIZE * 2;
     let total_window_height_bounds = height + (WINDOW_TITLE_BAR_HEIGHT + WINDOW_BORDER_PIXEL_SIZE);
     (s1, title_bar) \<leftarrow> graphics_info_create_relative s root WINDOW_BORDER_PIXEL_SIZE 0 width WINDOW_TITLE_BAR_HEIGHT 0;
     if title_bar = 0 then Some (s1, None)
     else do {
       let s2 = graphics_move_handler_set (graphics_click_handler_set s1 title_bar (wh_title_bar_clicked hs)) title_bar (wh_title_bar_mouse_moved hs);
       let s3 = update_window s2 w (\<lambda>win. win\<lparr>title_bar_graphics := title_bar\<rparr>);
       (s4, border_left) \<leftarrow> graphics_info_create_relative s3 root 0 WINDOW_TITLE_BAR_HEIGHT WINDOW_BORDER_PIXEL_SIZE height 0;
       if border_left = 0 then Some (s4, None)
       else do {
         (s5, border_right) \<leftarrow> graphics_info_create_relative s4 root (total_window_width_bounds - WINDOW_BORDER_PIXEL_SIZE)
            WINDOW_TITLE_BAR_HEIGHT WINDOW_BORDER_PIXEL_SIZE height 0;
         if border_right = 0 then Some (s5, None)
         else do {
           (s6, border_bottom) \<leftarrow> graphics_info_create_relative s5 root 0 (total_window_height_bounds - WINDOW_BORDER_PIXEL_SIZE)
              width WINDOW_BORDER_PIXEL_SIZE 0;
           Some (s6, if border_bottom = 0 then None else Some (title_bar, border_left))
         }
       }
     }
   }"

text \<open>Fills a rectangle with one colour.\<close>

definition fill_graphics :: "'s gstate_scheme \<Rightarrow> u64 \<Rightarrow> framebuffer_pixel \<Rightarrow> 's gstate_scheme option" where
  "fill_graphics s g color = graphics_draw_rect s g 0 0 (ucast (gi_width (graphics_at s g))) (ucast (gi_height (graphics_at s g))) color"

text \<open>The close button, the title bar and the borders of a new window. Two of the borders are the null pointer.\<close>

definition window_frame_draw :: "'s wstate_scheme \<Rightarrow> u64 \<Rightarrow> u64 \<Rightarrow> 's wstate_scheme option" where
  "window_frame_draw s w border_left = do {
     let tt = terminal_at s (title_bar_terminal (kwindow_at s w));
     let icon = image_at s (close_icon s);
     let s1 = update_window s w (\<lambda>win. win\<lparr>close_btn_x := bounds_width tt - ucast (img_width icon) - ucast (img_width icon div 2),
           close_btn_y := bounds_height tt div 2 - ucast (img_height icon div 2),
           close_btn_width := ucast (img_width icon), close_btn_height := ucast (img_height icon)\<rparr>);
     s2 \<leftarrow> window_draw_title_bar s1 w black;
     s3 \<leftarrow> fill_graphics s2 border_left black;
     s4 \<leftarrow> fill_graphics s3 0 black;
     fill_graphics s4 0 black
   }"

text \<open>The last steps: the vector, the order, the handler, the focus, and a redraw of everything.\<close>

definition window_show :: "'s wstate_scheme event_calls \<Rightarrow> window_handlers \<Rightarrow> 's wstate_scheme \<Rightarrow> u64 \<Rightarrow> 's wstate_scheme option" where
  "window_show call hs s w = do {
     v \<leftarrow> windows_vector s;
     (s1, v', _) \<leftarrow> tvec_push s v w;
     let s2 = s1\<lparr>windows_vector := Some v'\<rparr>;
     cv \<leftarrow> gi_children (graphics_at s2 (root_graphics (kwindow_at s2 w)));
     s3 \<leftarrow> window_set_z_index s2 w (int_of_size (t_elems (tv_header cv) + 1));
     s4 \<leftarrow> window_event_handler_register s3 w (wh_event_handler hs);
     s5 \<leftarrow> window_focus call s4 w;
     graphics_redraw_all s5
   }"

text \<open>
  The address is null when the window was not made. \<open>None\<close> is the panic without a window system, and, for an empty window, the
  error path that reads a pointer that was not set.
\<close>

definition window_create ::
  "'s wstate_scheme event_calls \<Rightarrow> window_handlers \<Rightarrow> 's wstate_scheme \<Rightarrow> u64 \<Rightarrow> u64 \<Rightarrow> u8 list \<Rightarrow> u64 \<Rightarrow> u64 \<Rightarrow> u64 \<Rightarrow> u64 \<Rightarrow> u32 \<Rightarrow> int \<Rightarrow>
   ('s wstate_scheme \<times> u64) option" where
  "window_create call hs s graphics_info f title x y width height fl wid =
     (if windows_vector s = None then None
      else if width < 1 \<or> height < 1 then None
      else do {
        let f = (if f = 0 then font_get_system_font s else f);
        let border = (fl AND WINDOW_FLAG_BORDERLESS = 0);
        (s1, w) \<leftarrow> kzalloc s 264;
        if w = 0 then Some (s1, 0)
        else do {
          let (s2, wid) = (if wid = - 1 then (s1\<lparr>window_autoincrement_id_current := window_autoincrement_id_current s1 + 1\<rparr>, window_autoincrement_id_current s1)
                else (s1, wid));
          t \<leftarrow> strncpy (replicate WINDOW_MAX_TITLE 0) title (int WINDOW_MAX_TITLE);
          (s3, hv) \<leftarrow> tvec_new s2 8 4;
          let s4 = update_window s3 w (\<lambda>_. null_window\<lparr>win_title := t, win_x := x, win_y := y, win_width := width, win_height := height,
                win_flags := fl, window_ident := wid, event_handlers := hv\<rparr>);
          let total_window_width_bounds = (if border then width + WINDOW_BORDER_PIXEL_SIZE * 2 else width);
          let total_window_height_bounds = (if border then height + (WINDOW_TITLE_BAR_HEIGHT + WINDOW_BORDER_PIXEL_SIZE) else height);
          (s5, root) \<leftarrow> graphics_info_create_relative s4 graphics_info x y total_window_width_bounds total_window_height_bounds GRAPHICS_FLAG_DO_NOT_COPY_PIXELS;
          if root = 0 then window_create_failed s5 w
          else do {
            s6 \<leftarrow> (if fl AND WINDOW_FLAG_BACKGROUND_TRANSPARENT \<noteq> 0
              then fill_graphics (graphics_transparency_key_set s5 root white) root white else Some s5);
            let s7 = update_window s6 w (\<lambda>win. win\<lparr>root_graphics := root\<rparr>);
            (s8, frame) \<leftarrow> (if border then window_frame_create hs s7 w root width height else Some (s7, Some (0, 0)));
            case frame of
              None \<Rightarrow> window_create_failed s8 w
            | Some (title_bar, border_left) \<Rightarrow> do {
                (s9, body) \<leftarrow> graphics_info_create_relative s8 root (if border then WINDOW_BORDER_PIXEL_SIZE else 0)
                   (if border then WINDOW_TITLE_BAR_HEIGHT else 0) width height 0;
                if body = 0 then window_create_failed s9 w
                else do {
                  let s10 = update_window s9 w (\<lambda>win. win\<lparr>body_graphics := body\<rparr>);
                  (s11, tt) \<leftarrow> (if border
                    then do {
                      (s', tt) \<leftarrow> terminal_create s10 title_bar 0 0 total_window_width_bounds WINDOW_TITLE_BAR_HEIGHT f white 0;
                      Some (update_window s' w (\<lambda>win. win\<lparr>title_bar_terminal := tt\<rparr>), tt)
                    }
                    else Some (s10, 0));
                  if border \<and> tt = 0 then window_create_failed s11 w
                  else do {
                    (s12, bt) \<leftarrow> terminal_create s11 body 0 0 width height f (black\<lparr>red := 0xff\<rparr>) TERMINAL_FLAG_BACKSPACE_ALLOWED;
                    let s13 = update_window s12 w (\<lambda>win. win\<lparr>body_terminal := bt\<rparr>);
                    if bt = 0 then window_create_failed s13 w
                    else do {
                      (s14, _) \<leftarrow> terminal_draw_rect s13 bt 0 0 width height white;
                      s15 \<leftarrow> terminal_background_save s14 bt;
                      let s16 = (if fl AND WINDOW_FLAG_BACKGROUND_TRANSPARENT \<noteq> 0 then terminal_transparency_key_set s15 bt white else s15);
                      s17 \<leftarrow> (if border then window_frame_draw s16 w border_left else Some s16);
                      s18 \<leftarrow> window_show call hs s17 w;
                      Some (s18, w)
                    }
                  }
                }
              }
          }
        }
      })"

subsection \<open>Starting the window system\<close>

definition window_system_initialize ::
  "'k wstate_ext tstate_ext gstate_ext istate_scheme image_functions \<Rightarrow> 'k wstate_scheme allocator \<Rightarrow>
   ('k wstate_ext tstate_ext gstate_ext istate_ext kbstate_ext, 'b, 'p) filesystems \<Rightarrow>
   ('k wstate_ext tstate_ext gstate_ext, 'b, 'p) image_system \<Rightarrow> u8 list \<Rightarrow> (('k wstate_ext tstate_ext gstate_ext, 'b, 'p) image_system \<times> int) option" where
  "window_system_initialize fns al fs F icon_path = do {
     (s1, v) \<leftarrow> tvec_new (heap_of F) 8 10;
     if v = None then Some (with_heap F (s1\<lparr>windows_vector := None\<rparr>), - ENOMEM)
     else do {
       (F2, icon) \<leftarrow> graphics_image_load fns al fs (with_heap F (s1\<lparr>windows_vector := v\<rparr>)) icon_path;
       let s2 = (heap_of F2)\<lparr>close_icon := icon\<rparr>;
       if icon = 0 then Some (with_heap F2 s2, - EIO)
       else Some (with_heap F2 (s2\<lparr>window_moving := 0, focused_window := 0, window_autoincrement_id_current := 100000\<rparr>), 0)
     }
   }"

subsection \<open>Dropping the handlers of a window\<close>

lemma heap_step_windows:
  fixes s :: "'s wstate_scheme"
  assumes "heap_step s s'"
  shows "kwindow_at s' = kwindow_at s" "windows_vector s' = windows_vector s" "graphics_at s' = graphics_at s"
  using assms by (auto simp: heap_step_def)

lemma kernel_state_window [simp]:
  "kernel_inv (update_window s w f) = kernel_inv s" "free_pages (update_window s w f) = free_pages s"
  "kwindow_at (update_window s w f) = (kwindow_at s)(w := f (kwindow_at s w))"
  by (simp_all add: update_window_def kernel_inv_def free_pages_def heap_list_def)

text \<open>Without a free page there is no page.\<close>

lemma kzalloc_exhausted:
  assumes inv: "kernel_inv s" and full: "free_pages s = 0" and sz: "blocks_for sz = 1"
  shows "kzalloc s sz = Some (s, 0)"
proof -
  let ?shs = "first_multiheap (kernel_multiheap s)"
  have nf: "\<not> free_run (heap_entries (heap_at s hp)) 1 b" if "hp \<in> mh_heap ` set ?shs" for hp b
  proof
    assume "free_run (heap_entries (heap_at s hp)) 1 b"
    then have "heap_entries (heap_at s hp) ! b \<in> set (filter block_free (heap_entries (heap_at s hp)))"
      by (simp only: free_run_one) simp
    moreover have "filter block_free (heap_entries (heap_at s hp)) = []"
      using full that by (auto simp: free_pages_def heap_list_def)
    ultimately show False by simp
  qed
  have "alloc_first_pass_loop s ?shs sz = Some (s, 0)"
    by (rule alloc_first_pass_loop_cases [OF kernel_inv_wf [OF inv] sz]) (use nf in auto)
  then show ?thesis by (simp add: kzalloc_def kmalloc_def multiheap_alloc_def multiheap_alloc_first_pass_def)
qed

text \<open>A step that changes nothing is repeated for ever.\<close>

lemma drop_handlers_loop_stuck:
  assumes "h \<noteq> 0" "window_event_handler_unregister s w h = Some s" "event_handlers (kwindow_at s w) = Some v" "tvec_at v 0 = Some (Inr h)"
  shows "drop_handlers_loop w h s = None"
proof -
  have "\<not> (h \<noteq> 0 \<and> window_event_handler_unregister s w h = Some s \<and>
      (\<exists>v. event_handlers (kwindow_at s w) = Some v \<and> tvec_at v 0 = Some (Inr h)))" if "drop_handlers_loop w h s = Some s'" for s'
    by (rule drop_handlers_loop.raw_induct [where P = "\<lambda>w h s s'. \<not> (h \<noteq> 0 \<and> window_event_handler_unregister s w h = Some s \<and>
      (\<exists>v. event_handlers (kwindow_at s w) = Some v \<and> tvec_at v 0 = Some (Inr h)))", OF _ that])
      (fastforce simp: bind_eq_Some_conv element_or_null_def split: if_splits)
  then show ?thesis using assms by (cases "drop_handlers_loop w h s") auto
qed

lemma unregister_first:
  fixes s :: "'s wstate_scheme"
  assumes "kernel_inv s" "event_handlers (kwindow_at s w) = Some v" "tvec_ok v" "tv_items v = h # hs" "e_size (tv_header v) = 8"
    and "0 < free_pages s"
  shows "\<exists>s1 v1. window_event_handler_unregister s w h = Some s1 \<and> kernel_inv s1 \<and> event_handlers (kwindow_at s1 w) = Some v1 \<and>
    tvec_ok v1 \<and> tv_items v1 = hs \<and> e_size (tv_header v1) = 8 \<and> free_pages s = Suc (free_pages s1) \<and>
    (\<forall>u. u \<noteq> w \<longrightarrow> kwindow_at s1 u = kwindow_at s u)"
proof -
  obtain s1 p where z: "kzalloc s 8 = Some (s1, p)" "kernel_inv s1" "heap_step s s1" "free_pages s = Suc (free_pages s1)" "p \<noteq> 0"
    using kzalloc_small [OF assms(1,6), of 8] by auto
  let ?v = "\<lparr>tv_header = (tv_header v)\<lparr>t_elems := t_elems (tv_header v) - 1\<rparr>, tv_items = hs\<rparr>"
  have n: "unat (t_elems (tv_header v)) = Suc (length hs)" "vmemory (tv_header v) \<noteq> 0"
    using assms(3,4) by (auto simp: tvec_ok_def)
  then have "unat (t_elems (tv_header v) - 1) = length hs" by (subst unat_sub) (simp_all add: word_le_nat_alt)
  then have ok: "tvec_ok ?v" using n(2) by (simp add: tvec_ok_def)
  have "tvec_pop_element s v h = Some (s1, ?v, 0)"
    using z(1,5) assms(4,5) tvec_ok_items [OF assms(3)] by (simp add: tvec_pop_element_def)
  then have "window_event_handler_unregister s w h = Some (update_window s1 w (\<lambda>win. win\<lparr>event_handlers := Some ?v\<rparr>))"
    by (simp add: window_event_handler_unregister_def assms(2))
  then show ?thesis using z(2,4) ok assms(5) heap_step_windows(1) [OF z(3)]
    by (intro exI [of _ "update_window s1 w (\<lambda>win. win\<lparr>event_handlers := Some ?v\<rparr>)"] exI [of _ ?v]) simp
qed

lemma unregister_exhausted:
  assumes "kernel_inv s" "event_handlers (kwindow_at s w) = Some v" "e_size (tv_header v) = 8" "free_pages s = 0"
  shows "window_event_handler_unregister s w h = Some s"
proof -
  have "kzalloc s 8 = Some (s, 0)" by (rule kzalloc_exhausted [OF assms(1,4)]) (simp add: blocks_for_eq)
  moreover have "update_window s w (\<lambda>win. win\<lparr>event_handlers := Some v\<rparr>) = s"
    using assms(2) by (simp add: update_window_def fun_upd_idem)
  ultimately show ?thesis
    by (simp add: window_event_handler_unregister_def assms(2,3) tvec_pop_element_def)
qed

lemma drop_handlers_loop_cases:
  fixes s :: "'s wstate_scheme"
  assumes "kernel_inv s" "event_handlers (kwindow_at s w) = Some v" "tvec_ok v" "tv_items v = h # hs" "0 \<notin> set (tv_items v)"
    and "e_size (tv_header v) = 8"
  shows "(Suc (length hs) \<le> free_pages s \<longrightarrow> (\<exists>s' v'. drop_handlers_loop w h s = Some s' \<and> kernel_inv s' \<and>
      event_handlers (kwindow_at s' w) = Some v' \<and> tv_items v' = [] \<and> free_pages s = free_pages s' + Suc (length hs) \<and>
      (\<forall>u. u \<noteq> w \<longrightarrow> kwindow_at s' u = kwindow_at s u))) \<and>
    (free_pages s < Suc (length hs) \<longrightarrow> drop_handlers_loop w h s = None)"
  using assms
proof (induction hs arbitrary: s v h)
  case (Cons g gs)
  have at: "tvec_at v 0 = Some (Inr h)" using tvec_at_ok [OF Cons.prems(3), of 0] Cons.prems(4) by simp
  have h: "h \<noteq> 0" using Cons.prems(4,5) by auto
  show ?case
  proof (cases "free_pages s")
    case 0
    show ?thesis using 0 drop_handlers_loop_stuck [OF h unregister_exhausted [OF Cons.prems(1,2,6) 0] Cons.prems(2) at] by simp
  next
    case (Suc n)
    then obtain s1 v1 where s1: "window_event_handler_unregister s w h = Some s1" "kernel_inv s1" "event_handlers (kwindow_at s1 w) = Some v1"
      "tvec_ok v1" "tv_items v1 = g # gs" "e_size (tv_header v1) = 8" "free_pages s = Suc (free_pages s1)"
      "\<forall>u. u \<noteq> w \<longrightarrow> kwindow_at s1 u = kwindow_at s u"
      using unregister_first [OF Cons.prems(1-4,6)] by auto
    have "tvec_at v1 0 = Some (Inr g)" using tvec_at_ok [OF s1(4), of 0] s1(5) by simp
    then have r: "drop_handlers_loop w h s = drop_handlers_loop w g s1"
      using h s1(1,3) by (subst drop_handlers_loop.simps) (simp add: element_or_null_def)
    have nz: "0 \<notin> set (tv_items v1)" using Cons.prems(4,5) s1(5) by simp
    show ?thesis using Cons.IH [OF s1(2-5) nz s1(6)] s1(7,8) unfolding r by auto
  qed
next
  case Nil
  have at: "tvec_at v 0 = Some (Inr h)" using tvec_at_ok [OF Nil.prems(3), of 0] Nil.prems(4) by simp
  have h: "h \<noteq> 0" using Nil.prems(4,5) by auto
  show ?case
  proof (cases "free_pages s")
    case 0
    show ?thesis using 0 drop_handlers_loop_stuck [OF h unregister_exhausted [OF Nil.prems(1,2,6) 0] Nil.prems(2) at] by simp
  next
    case (Suc n)
    then obtain s1 v1 where s1: "window_event_handler_unregister s w h = Some s1" "kernel_inv s1" "event_handlers (kwindow_at s1 w) = Some v1"
      "tvec_ok v1" "tv_items v1 = []" "free_pages s = Suc (free_pages s1)" "\<forall>u. u \<noteq> w \<longrightarrow> kwindow_at s1 u = kwindow_at s u"
      using unregister_first [OF Nil.prems(1-4,6)] by auto
    have "tvec_at v1 0 = Some (Inl (- EINVARG))" using tvec_at_beyond [OF s1(4), of 0] s1(5) by simp
    then have "drop_handlers_loop w h s = Some s1"
      using h s1(1,3) by (subst drop_handlers_loop.simps) (simp add: element_or_null_def drop_handlers_loop.simps)
    then show ?thesis using s1 by auto
  qed
qed

text \<open>
  C12. \<^bold>\<open>Dropping the handlers of a window.\<close> Each handler that is dropped takes a page of the kernel heap, for the buffer of \<open>vector_pop_element\<close>, which is not
  given back. With as many free pages as handlers \<open>window_drop_event_handlers\<close> ends, with no handler left and the other windows as they were; with
  fewer it does not end, because the last handlers are never found.
\<close>

theorem window_handlers_dropped:
  assumes "kernel_inv s" "event_handlers (kwindow_at s w) = Some v" "tvec_ok v" "0 \<notin> set (tv_items v)" "e_size (tv_header v) = 8"
  shows "(length (tv_items v) \<le> free_pages s \<longrightarrow> (\<exists>s' v'. window_drop_event_handlers s w = Some s' \<and> kernel_inv s' \<and>
      event_handlers (kwindow_at s' w) = Some v' \<and> tv_items v' = [] \<and> free_pages s = free_pages s' + length (tv_items v) \<and>
      (\<forall>u. u \<noteq> w \<longrightarrow> kwindow_at s' u = kwindow_at s u))) \<and>
    (free_pages s < length (tv_items v) \<longrightarrow> window_drop_event_handlers s w = None)"
proof (cases "tv_items v")
  case Nil
  then have "tvec_at v 0 = Some (Inl (- EINVARG))" using tvec_at_beyond [OF assms(3), of 0] by simp
  then have "window_drop_event_handlers s w = Some s"
    by (simp add: window_drop_event_handlers_def assms(2) element_or_null_def drop_handlers_loop.simps)
  then show ?thesis using Nil assms(1,2) by simp
next
  case (Cons h hs)
  have "tvec_at v 0 = Some (Inr h)" using tvec_at_ok [OF assms(3), of 0] Cons by simp
  then have "window_drop_event_handlers s w = drop_handlers_loop w h s"
    by (simp add: window_drop_event_handlers_def assms(2) element_or_null_def)
  then show ?thesis using drop_handlers_loop_cases [OF assms(1-3) Cons assms(4,5)] Cons by simp
qed

definition small_desktop :: wstate where
  "small_desktop = tstate.extend small_terminal (wstate.fields
     (\<lambda>w. if w = 0x8000 then null_window\<lparr>root_graphics := 0x3000, win_x := 1, win_y := 1, win_width := 2, win_height := 2,
            event_handlers := Some (vector_of 8 [0x9000])\<rparr>
          else if w = 0x8200 then null_window\<lparr>root_graphics := 0x1000, win_width := 4, win_height := 4,
            event_handlers := Some (vector_of 8 [0x9000])\<rparr>
          else null_window)
     (Some (vector_of 8 [0x8200, 0x8000])) 0 0 0 100000)"

lemma small_desktop_simps [simp]:
  "kwindow_at small_desktop 0x8000 = null_window\<lparr>root_graphics := 0x3000, win_x := 1, win_y := 1, win_width := 2, win_height := 2,
     event_handlers := Some (vector_of 8 [0x9000])\<rparr>"
  "kwindow_at small_desktop 0x8200 = null_window\<lparr>root_graphics := 0x1000, win_width := 4, win_height := 4,
     event_handlers := Some (vector_of 8 [0x9000])\<rparr>"
  "windows_vector small_desktop = Some (vector_of 8 [0x8200, 0x8000])" "graphics_at small_desktop = graphics_at small_terminal"
  by (simp_all add: small_desktop_def small_terminal_def tstate.defs gstate.defs wstate.defs)

lemma event_vector_ok: "length xs < 2 ^ 64 \<Longrightarrow> tvec_ok (vector_of n xs)"
  by (simp add: tvec_ok_def vector_of_def)

subsection \<open>Stacking does not reach the vector of windows\<close>

lemma bubble_sort_equal: "(\<And>a b. c a b \<le> 0) \<Longrightarrow> bubble_sort c xs = xs"
proof -
  assume c: "\<And>a b. c a b \<le> 0"
  have "bubble_swap c xs j = xs" for xs j using c [of "xs ! j" "xs ! Suc j"] by (simp add: bubble_swap_def)
  then have "bubble_inner c xs j n = xs" for xs j n by (induction n arbitrary: j) simp_all
  then have "bubble_outer c xs i n = xs" for xs i n by (induction n arbitrary: i) simp_all
  then show ?thesis by (simp add: bubble_sort_def)
qed

lemma tvec_reorder_equal:
  assumes "tvec_reorder s v c = Some (s', v')" "\<And>a b. c a b \<le> 0"
  shows "v' = v" "heap_step s s'"
proof -
  have "bubble_sort c xs = xs" for xs by (rule bubble_sort_equal) (rule assms)
  then show "v' = v" using assms(1)
    by (auto simp: tvec_reorder_def tvec_items_def bind_eq_Some_conv split: if_splits)
  show "heap_step s s'" using assms(1) by (auto simp: tvec_reorder_def bind_eq_Some_conv split: if_splits dest!: kzalloc_step dest: heap_step_trans)
qed

lemma graphics_set_z_index_frame:
  fixes s :: "'s wstate_scheme"
  assumes "graphics_set_z_index s g z = Some s'"
  shows "kwindow_at s' = kwindow_at s" "windows_vector s' = windows_vector s"
    "starting_x (graphics_at s' a) = starting_x (graphics_at s a)" "starting_y (graphics_at s' a) = starting_y (graphics_at s a)"
    "gi_width (graphics_at s' a) = gi_width (graphics_at s a)" "gi_height (graphics_at s' a) = gi_height (graphics_at s a)"
proof -
  have "tvec_reorder s1 v c = Some (s2, v') \<Longrightarrow> heap_step s1 s2" for s1 s2 :: "'s wstate_scheme" and v v' :: "u64 tvec" and c
    by (auto simp: tvec_reorder_def bind_eq_Some_conv split: if_splits dest!: kzalloc_step dest: heap_step_trans)
  note step = heap_step_windows [OF this]
  show "kwindow_at s' = kwindow_at s" "windows_vector s' = windows_vector s"
    "starting_x (graphics_at s' a) = starting_x (graphics_at s a)" "starting_y (graphics_at s' a) = starting_y (graphics_at s a)"
    "gi_width (graphics_at s' a) = gi_width (graphics_at s a)" "gi_height (graphics_at s' a) = gi_height (graphics_at s a)"
    using assms by (auto simp: graphics_set_z_index_def update_graphics_def Let_def bind_eq_Some_conv step split: if_splits option.splits)
qed

lemma window_set_z_index_frame:
  fixes s :: "'s wstate_scheme"
  assumes "window_set_z_index s w z = Some s'" "\<And>a b. win_zindex (kwindow_at s a) = win_zindex (kwindow_at s b)"
  shows "windows_vector s' = windows_vector s" "kwindow_at s' = kwindow_at s" "window_contains s' a x y = window_contains s a x y"
proof -
  obtain s1 v s2 v' where s1: "graphics_set_z_index s (root_graphics (kwindow_at s w)) (word_of_int z) = Some s1" "windows_vector s1 = Some v"
    "tvec_reorder s1 v (window_reorder s1) = Some (s2, v')" "s' = s2\<lparr>windows_vector := Some v'\<rparr>"
    using assms(1) by (auto simp: window_set_z_index_def bind_eq_Some_conv)
  note f = graphics_set_z_index_frame [OF s1(1)]
  have "window_reorder s1 a b \<le> 0" for a b using assms(2) [of a b] by (simp add: window_reorder_def f(1))
  from tvec_reorder_equal [OF s1(3) this] have v: "v' = v" and h: "heap_step s1 s2" by simp_all
  show "windows_vector s' = windows_vector s" "kwindow_at s' = kwindow_at s" "window_contains s' a x y = window_contains s a x y"
    using s1(2,4) f v heap_step_windows [OF h] by (simp_all add: window_contains_def Let_def)
qed

text \<open>
  C13. Bringing a window to the top changes what is drawn last and not where a click goes: the window that
  \<open>window_get_at_position\<close> finds is the one it found before, because the field by which the windows are sorted is never set.
\<close>

theorem bring_to_top_keeps_click_target:
  assumes "window_bring_to_top s w = Some s'" "\<And>a b. win_zindex (kwindow_at s a) = win_zindex (kwindow_at s b)"
  shows "window_get_at_position s' x y ignore_window = window_get_at_position s x y ignore_window"
proof -
  obtain z where "window_set_z_index s w z = Some s'" using assms(1) by (auto simp: window_bring_to_top_def bind_eq_Some_conv)
  from window_set_z_index_frame [OF this assms(2)] show ?thesis
    by (simp add: window_get_at_position_def)
qed

lemma kernel_state_graphics:
  "kernel_inv (update_graphics s g f) = kernel_inv s" "free_pages (update_graphics s g f) = free_pages s"
  by (simp_all add: update_graphics_def kernel_inv_def free_pages_def heap_list_def)

lemma small_desktop_kernel: "kernel_inv small_desktop" "free_pages small_desktop = free_pages kernel8"
  using bmp_state_kernel by (simp_all add: kernel_inv_def free_pages_def heap_list_def small_desktop_def small_terminal_def small_screen_def
      istate.defs gstate.defs tstate.defs wstate.defs)

theorem window_handlers_dropped_witness:
  "\<exists>s' v'. window_drop_event_handlers small_desktop 0x8000 = Some s' \<and> event_handlers (kwindow_at s' 0x8000) = Some v' \<and> tv_items v' = []"
  using window_handlers_dropped [OF small_desktop_kernel(1), of "0x8000" "vector_of 8 [0x9000]"]
  by (simp add: event_vector_ok small_desktop_kernel(2) kernel8_pages(1)) (auto simp: vector_of_def)

theorem bring_to_top_keeps_click_target_witness:
  "\<exists>s'. window_bring_to_top small_desktop 0x8000 = Some s' \<and> window_get_at_position s' 1 1 0 = Some 0x8200"
proof -
  have eq: "win_zindex (kwindow_at small_desktop a) = win_zindex (kwindow_at small_desktop b)" for a b
    by (simp add: small_desktop_def tstate.defs wstate.defs null_window_def)
  define s1 where "s1 = update_graphics (update_graphics small_desktop 0x3000 (\<lambda>gi. gi\<lparr>z_index := 1\<rparr>)) 0x1000 (\<lambda>gi. gi\<lparr>gi_children := Some (vector_of 8 [0x3000])\<rparr>)"
  have w: "kwindow_at s1 = kwindow_at small_desktop" "windows_vector s1 = Some (vector_of 8 [0x8200, 0x8000])"
    by (simp_all add: s1_def update_graphics_def)
  have scr: "loaded_graphics_info small_desktop = 0x1000" by (simp add: small_desktop_def small_terminal_def small_screen_def istate.defs gstate.defs tstate.defs wstate.defs)
  have k: "kernel_inv s1" "free_pages s1 = free_pages kernel8" by (simp_all add: s1_def kernel_state_graphics small_desktop_kernel)
  obtain s2 p where 2: "kzalloc s1 8 = Some (s2, p)" "kernel_inv s2" "free_pages s1 = Suc (free_pages s2)" "p \<noteq> 0"
    using kzalloc_small [OF k(1), of 8] k(2) kernel8_pages(1) by auto
  obtain s3 q where 3: "kzalloc s2 8 = Some (s3, q)" "q \<noteq> 0"
    using kzalloc_small [OF 2(2), of 8] 2(3) k(2) kernel8_pages(1) by auto
  have z: "graphics_set_z_index small_desktop 0x3000 1 = Some s1"
    by (simp add: graphics_set_z_index_def s1_def update_graphics_def Let_def tvec_reorder_def vector_of_def)
  have "tvec_reorder s1 (vector_of 8 [0x8200, 0x8000]) (window_reorder s1) = Some (s3, (vector_of 8 [0x8200, 0x8000])\<lparr>tv_items := bubble_sort (window_reorder s1) [0x8200, 0x8000]\<rparr>)"
    using 2(1,4) 3 by (simp add: tvec_reorder_def tvec_items_def vector_of_def)
  then obtain s' where s': "window_bring_to_top small_desktop 0x8000 = Some s'"
    by (auto simp: window_bring_to_top_def window_set_z_index_def graphics_screen_info_def scr tvec_at_def tvec_items_def vector_valid_bounds_def element_or_null_def
        int_of_size_def null_window_def null_graphics_def vector_of_def z [unfolded vector_of_def] w(2) [unfolded vector_of_def])
  have "window_get_at_position small_desktop 1 1 0 = Some 0x8200"
    by (simp add: window_get_at_position_def tvec_items_def vector_of_def window_contains_def null_window_def null_graphics_def)
  then show ?thesis using s' bring_to_top_keeps_click_target [OF s' eq, of 1 1 0] by simp
qed

end
