(* ===== verification/Interrupt.thy ===== *)
theory Interrupt
  imports Window
begin

section \<open>Interrupts: idt.c, irq.c and kernel.c\<close>

text \<open>
  The descriptor table, the callbacks of the interrupts, and the masks of the two interrupt controllers. A callback is an address; what
  the callback at an address does is an argument. A callback that starts a task does not return: its result has the registers
  with which the processor goes on. Acknowledging an interrupt writes to ports that are not in the state.
\<close>

abbreviation (input) PEACHOS_TOTAL_INTERRUPTS :: nat where "PEACHOS_TOTAL_INTERRUPTS \<equiv> 512"
abbreviation (input) KERNEL_LONG_MODE_CODE_SELECTOR :: u16 where "KERNEL_LONG_MODE_CODE_SELECTOR \<equiv> 0x18"
abbreviation (input) PIC_SLAVE_STARTING_IRQ :: int where "PIC_SLAVE_STARTING_IRQ \<equiv> 8"

record idt_desc =
  offset_1 :: u16
  selector :: u16
  ist :: u8
  type_attr :: u8
  offset_2 :: u16
  offset_3 :: u32
  idt_reserved :: u32

record idt =
  idt_descriptors :: "idt_desc list"
  interrupt_callbacks :: "u64 list"

type_synonym 's interrupt_calls = "u64 \<Rightarrow> 's \<Rightarrow> registers \<Rightarrow> ('s \<times> registers option) option"

subsection \<open>The descriptor table\<close>

definition idt_set :: "idt \<Rightarrow> nat \<Rightarrow> u64 \<Rightarrow> idt option" where
  "idt_set t interrupt_no addr =
     (if interrupt_no \<ge> length (idt_descriptors t) then None
      else let d = (idt_descriptors t ! interrupt_no)\<lparr>offset_1 := ucast (addr AND 0xffff), selector := KERNEL_LONG_MODE_CODE_SELECTOR, ist := 0,
                 type_attr := (if interrupt_no \<le> 0x31 then 0x8E else 0xEE),
                 offset_2 := ucast (drop_bit 16 addr AND 0xffff), offset_3 := ucast (drop_bit 32 addr AND 0xffffffff)\<rparr>
           in Some (t\<lparr>idt_descriptors := (idt_descriptors t)[interrupt_no := d]\<rparr>))"

definition idt_register_interrupt_callback :: "idt \<Rightarrow> int \<Rightarrow> u64 \<Rightarrow> idt \<times> int" where
  "idt_register_interrupt_callback t interrupt callback =
     (if interrupt < 0 \<or> interrupt \<ge> int PEACHOS_TOTAL_INTERRUPTS then (t, - EINVARG)
      else (t\<lparr>interrupt_callbacks := (interrupt_callbacks t)[nat interrupt := callback]\<rparr>, 0))"

text \<open>The two loops of \<open>idt_init\<close>: a descriptor for every interrupt, and the callback of the exceptions.\<close>

primrec idt_set_loop :: "(nat \<Rightarrow> u64) \<Rightarrow> nat \<Rightarrow> idt \<Rightarrow> idt option" where
  "idt_set_loop pointers 0 t = Some t"
| "idt_set_loop pointers (Suc i) t = do { t1 \<leftarrow> idt_set_loop pointers i t; idt_set t1 i (pointers i) }"

primrec exception_loop :: "u64 \<Rightarrow> nat \<Rightarrow> idt \<Rightarrow> idt" where
  "exception_loop handler 0 t = t"
| "exception_loop handler (Suc i) t = fst (idt_register_interrupt_callback (exception_loop handler i t) (int i) handler)"

record idt_entries =
  interrupt_pointer_table :: "nat \<Rightarrow> u64"
  idt_zero_entry :: u64
  isr80h_wrapper_entry :: u64
  exception_handler :: u64
  clock_handler :: u64

definition idt_init :: "idt_entries \<Rightarrow> idt \<Rightarrow> idt option" where
  "idt_init e t = do {
     let t0 = t\<lparr>idt_descriptors := replicate PEACHOS_TOTAL_INTERRUPTS
         \<lparr>offset_1 = 0, selector = 0, ist = 0, type_attr = 0, offset_2 = 0, offset_3 = 0, idt_reserved = 0\<rparr>\<rparr>;
     t1 \<leftarrow> idt_set_loop (interrupt_pointer_table e) PEACHOS_TOTAL_INTERRUPTS t0;
     t2 \<leftarrow> idt_set t1 0 (idt_zero_entry e);
     t3 \<leftarrow> idt_set t2 0x80 (isr80h_wrapper_entry e);
     let t4 = exception_loop (exception_handler e) 0x20 t3;
     Some (fst (idt_register_interrupt_callback t4 0x20 (clock_handler e)))
   }"

subsection \<open>Handling an interrupt\<close>

text \<open>The callbacks of the exceptions and of the clock. An exception panics.\<close>

definition idt_handle_exception :: "'s \<Rightarrow> registers \<Rightarrow> ('s \<times> registers option) option" where
  "idt_handle_exception s frame = None"

definition idt_clock :: "(nat \<Rightarrow> u64) \<Rightarrow> 's ktask_scheme \<Rightarrow> registers \<Rightarrow> ('s ktask_scheme \<times> registers option) option" where
  "idt_clock now s frame =
     (if current_task s = 0 then Some (s, None)
      else do { (s1, regs) \<leftarrow> task_next now s; Some (s1, Some regs) })"

definition interrupt_handler ::
  "'s ktask_scheme interrupt_calls \<Rightarrow> paging_desc \<Rightarrow> idt \<Rightarrow> 's ktask_scheme \<Rightarrow> nat \<Rightarrow> registers \<Rightarrow> ('s ktask_scheme \<times> registers option) option" where
  "interrupt_handler call kernel_desc t s interrupt frame =
     (if interrupt \<ge> length (interrupt_callbacks t) then None
      else do {
        let s1 = kernel_page s kernel_desc;
        let callback = interrupt_callbacks t ! interrupt;
        (s2, resumed) \<leftarrow> (if callback \<noteq> 0 then do {
               s' \<leftarrow> (if current_task s1 \<noteq> 0 then task_current_save_state s1 frame else Some s1);
               call callback s' frame
             } else Some (s1, None));
        if resumed \<noteq> None then Some (s2, resumed)
        else if current_task s2 \<noteq> 0 then do { (s3, _) \<leftarrow> task_page s2; Some (s3, None) }
        else Some (s2, None)
      })"

subsection \<open>The masks of the interrupt controllers: irq.c\<close>

text \<open>The masks of the master and of the slave, as the ports 0x21 and 0xA1 give and take them. A shift by more than 31 places is undefined.\<close>

record pic_masks =
  master_mask :: u8
  slave_mask :: u8

definition IRQ_enable :: "pic_masks \<Rightarrow> int \<Rightarrow> pic_masks option" where
  "IRQ_enable m irq =
     (let slave = (irq \<ge> PIC_SLAVE_STARTING_IRQ); relative_irq = (if slave then irq - PIC_SLAVE_STARTING_IRQ else irq)
      in if relative_irq < 0 \<or> relative_irq \<ge> 31 then None
         else Some (if slave then m\<lparr>slave_mask := slave_mask m AND ucast (NOT (push_bit (nat relative_irq) 1 :: u32))\<rparr>
                    else m\<lparr>master_mask := master_mask m AND ucast (NOT (push_bit (nat relative_irq) 1 :: u32))\<rparr>))"

definition IRQ_disable :: "pic_masks \<Rightarrow> int \<Rightarrow> pic_masks option" where
  "IRQ_disable m irq =
     (let slave = (irq \<ge> PIC_SLAVE_STARTING_IRQ); relative_irq = (if slave then irq - PIC_SLAVE_STARTING_IRQ else irq)
      in if relative_irq < 0 \<or> relative_irq \<ge> 31 then None
         else Some (if slave then m\<lparr>slave_mask := slave_mask m OR ucast (push_bit (nat relative_irq) 1 :: u32)\<rparr>
                    else m\<lparr>master_mask := master_mask m OR ucast (push_bit (nat relative_irq) 1 :: u32)\<rparr>))"

subsection \<open>What the tables hold\<close>

lemma idt_set_callbacks:
  "idt_set t i a = Some t' \<Longrightarrow> interrupt_callbacks t' = interrupt_callbacks t \<and> length (idt_descriptors t') = length (idt_descriptors t)"
  by (auto simp: idt_set_def Let_def split: if_splits)

lemma idt_set_loop_total:
  "n \<le> length (idt_descriptors t) \<Longrightarrow> \<exists>t'. idt_set_loop f n t = Some t' \<and> interrupt_callbacks t' = interrupt_callbacks t \<and>
     length (idt_descriptors t') = length (idt_descriptors t)"
proof (induction n)
  case (Suc n)
  then obtain t1 where t1: "idt_set_loop f n t = Some t1" "interrupt_callbacks t1 = interrupt_callbacks t"
    "length (idt_descriptors t1) = length (idt_descriptors t)" by auto
  then obtain t2 where "idt_set t1 n (f n) = Some t2" using Suc.prems by (auto simp: idt_set_def Let_def)
  then show ?case using t1 idt_set_callbacks by fastforce
qed simp

lemma exception_loop_descriptors: "idt_descriptors (exception_loop h n t) = idt_descriptors t"
  by (induction n) (simp_all add: idt_register_interrupt_callback_def)

lemma exception_loop_callbacks:
  "n \<le> 512 \<Longrightarrow> length (interrupt_callbacks t) = 512 \<Longrightarrow>
   interrupt_callbacks (exception_loop h n t) = replicate n h @ drop n (interrupt_callbacks t)"
proof (induction n)
  case (Suc n)
  have "drop n (interrupt_callbacks t) = interrupt_callbacks t ! n # drop (Suc n) (interrupt_callbacks t)"
    using Suc.prems by (intro Cons_nth_drop_Suc [symmetric]) simp
  moreover have "n < 512" using Suc.prems(1) by simp
  ultimately show ?case
    using Suc by (simp add: idt_register_interrupt_callback_def list_update_append replicate_append_same [symmetric] del: replicate_append_same)
qed simp

lemma idt_init_callbacks:
  assumes "idt_init e t = Some t'" "length (interrupt_callbacks t) = 512"
  shows "interrupt_callbacks t' = replicate 0x20 (exception_handler e) @ clock_handler e # drop 0x21 (interrupt_callbacks t)"
proof -
  obtain t1 t2 t3 where t: "idt_set_loop (interrupt_pointer_table e) PEACHOS_TOTAL_INTERRUPTS
       (t\<lparr>idt_descriptors := replicate PEACHOS_TOTAL_INTERRUPTS
         \<lparr>offset_1 = 0, selector = 0, ist = 0, type_attr = 0, offset_2 = 0, offset_3 = 0, idt_reserved = 0\<rparr>\<rparr>) = Some t1"
    "idt_set t1 0 (idt_zero_entry e) = Some t2" "idt_set t2 0x80 (isr80h_wrapper_entry e) = Some t3"
    "t' = fst (idt_register_interrupt_callback (exception_loop (exception_handler e) 0x20 t3) 0x20 (clock_handler e))"
    using assms(1) by (auto simp: idt_init_def Let_def bind_eq_Some_conv simp del: idt_set_loop.simps exception_loop.simps)
  have "interrupt_callbacks t1 = interrupt_callbacks t"
    using t(1) idt_set_loop_total [of 512 "t\<lparr>idt_descriptors := replicate PEACHOS_TOTAL_INTERRUPTS
         \<lparr>offset_1 = 0, selector = 0, ist = 0, type_attr = 0, offset_2 = 0, offset_3 = 0, idt_reserved = 0\<rparr>\<rparr>" "interrupt_pointer_table e"]
    by (auto simp del: idt_set_loop.simps)
  then have c: "interrupt_callbacks t3 = interrupt_callbacks t" using idt_set_callbacks [OF t(2)] idt_set_callbacks [OF t(3)] by simp
  then have "interrupt_callbacks (exception_loop (exception_handler e) 0x20 t3)
      = replicate 0x20 (exception_handler e) @ drop 0x20 (interrupt_callbacks t)"
    using exception_loop_callbacks [of "0x20" t3] assms(2) by (simp del: exception_loop.simps)
  moreover have "drop 0x20 (interrupt_callbacks t) = interrupt_callbacks t ! 0x20 # drop 0x21 (interrupt_callbacks t)"
    using assms(2) Cons_nth_drop_Suc [of "0x20" "interrupt_callbacks t"] by simp
  ultimately show ?thesis
    unfolding t(4) by (simp add: idt_register_interrupt_callback_def list_update_append del: exception_loop.simps)
qed

subsection \<open>Preemption\<close>

lemma save_state_facts:
  "tasks (task_save_state s t f) = (tasks s)(t := (tasks s t)\<lparr>registers := f\<rparr>)"
  "current_task (task_save_state s t f) = current_task s" "task_head (task_save_state s t f) = task_head s"
  "task_tail (task_save_state s t f) = task_tail s" "processes (task_save_state s t f) = processes s"
proof -
  show "tasks (task_save_state s t f) = (tasks s)(t := (tasks s t)\<lparr>registers := f\<rparr>)"
    by (cases "registers (tasks s t)", cases f) (simp add: task_save_state_def update_task_def)
qed (simp_all add: task_save_state_def update_task_def)

lemma save_state_links:
  "next_task (tasks (task_save_state s t f) x) = next_task (tasks s x)" "prev_task (tasks (task_save_state s t f) x) = prev_task (tasks s x)"
  "task_process (tasks (task_save_state s t f) x) = task_process (tasks s x)"
  "sleep_until_microseconds (tasks (task_save_state s t f) x) = sleep_until_microseconds (tasks s x)"
  by (simp_all add: save_state_facts)

lemma save_state_frames:
  "task_asleep (task_save_state s t f) = task_asleep s" "task_paging_desc (task_save_state s t f) = task_paging_desc s"
  "linked_tasks (task_save_state s t f) ts = linked_tasks s ts"
  by (simp_all add: task_asleep_def task_paging_desc_def linked_tasks_def task_links_def save_state_links save_state_facts(2-5) fun_eq_iff)

lemma kernel_page_facts:
  fixes s :: "'s ktask_scheme"
  shows "tasks (kernel_page s d) = tasks s" "current_task (kernel_page s d) = current_task s" "linked_tasks (kernel_page s d) ts = linked_tasks s ts"
  "task_asleep (kernel_page s d) = task_asleep s" "task_paging_desc (kernel_page s d) = task_paging_desc s"
  by (simp_all add: kernel_page_def paging_switch_def linked_tasks_def task_links_def task_asleep_def task_paging_desc_def fun_eq_iff)

text \<open>Interrupts of the clock, one after the other: the frames with which they find the processor, and the registers with which it goes on.\<close>

primrec clock_ticks ::
  "'s ktask_scheme interrupt_calls \<Rightarrow> paging_desc \<Rightarrow> idt \<Rightarrow> 's ktask_scheme \<Rightarrow> registers list \<Rightarrow> ('s ktask_scheme \<times> registers list) option" where
  "clock_ticks call kernel_desc t s [] = Some (s, [])"
| "clock_ticks call kernel_desc t s (f # fs) = do {
     (s1, resumed) \<leftarrow> interrupt_handler call kernel_desc t s 0x20 f;
     regs \<leftarrow> resumed;
     (s2, rs) \<leftarrow> clock_ticks call kernel_desc t s1 fs;
     Some (s2, regs # rs)
   }"

lemma clock_tick:
  assumes l: "linked_tasks s ts" and j: "j < length ts" "current_task s = ts ! j"
    and aw: "\<forall>t\<in>set ts. \<forall>i. \<not> task_asleep s t (now i)" and pd: "\<forall>t\<in>set ts. task_paging_desc s t \<noteq> None"
    and c: "length (interrupt_callbacks t) > 0x20" "interrupt_callbacks t ! 0x20 = a" "a \<noteq> 0" "call a = idt_clock now"
  shows "\<exists>s'. interrupt_handler call kd t s 0x20 f = Some (s', Some ((registers \<circ> (tasks s)(ts ! j := (tasks s (ts ! j))\<lparr>registers := f\<rparr>)) (ts ! (Suc j mod length ts)))) \<and>
    current_task s' = ts ! (Suc j mod length ts) \<and> linked_tasks s' ts \<and> task_asleep s' = task_asleep s \<and>
    task_paging_desc s' = task_paging_desc s \<and> tasks s' = (tasks s)(ts ! j := (tasks s (ts ! j))\<lparr>registers := f\<rparr>)"
proof -
  let ?s = "task_save_state (kernel_page s kd) (ts ! j) f"
  have nz: "ts ! j \<noteq> 0" using linked_tasks_nth(2) [OF l j(1)] .
  have sv: "task_current_save_state (kernel_page s kd) f = Some ?s" using j(2) nz by (simp add: task_current_save_state_def kernel_page_facts)
  have l': "linked_tasks ?s ts" "current_task ?s = ts ! j" "\<forall>t\<in>set ts. \<forall>i. \<not> task_asleep ?s t (now i)"
    "\<forall>t\<in>set ts. task_paging_desc ?s t \<noteq> None" "task_asleep ?s = task_asleep s" "task_paging_desc ?s = task_paging_desc s"
    using l j aw pd by (simp_all add: save_state_frames save_state_facts kernel_page_facts)
  obtain s' where s': "task_next now ?s = Some (s', registers (tasks ?s (ts ! (Suc j mod length ts))))"
    "current_task s' = ts ! (Suc j mod length ts)" "linked_tasks s' ts" "task_asleep s' = task_asleep ?s" "task_paging_desc s' = task_paging_desc ?s"
    using task_next_awake [OF l'(1) j(1) l'(2,3,4)] by blast
  have ts': "tasks s' = tasks ?s"
    using s'(1) by (auto simp: task_next_def task_switch_def bind_eq_Some_conv paging_switch_def)
  have "call a ?s f = Some (s', Some (registers (tasks ?s (ts ! (Suc j mod length ts)))))"
    using s'(1) nz l'(2) by (simp add: c(4) idt_clock_def)
  then have "interrupt_handler call kd t s 0x20 f = Some (s', Some (registers (tasks ?s (ts ! (Suc j mod length ts)))))"
    using c(1,2,3) sv j(2) nz by (simp add: interrupt_handler_def kernel_page_facts)
  then show ?thesis using s' ts' l' by (simp add: save_state_facts kernel_page_facts)
qed

lemma mod_wrap: "j < n \<Longrightarrow> m < n \<Longrightarrow> (j + m) mod n = (if j + m < n then j + m else j + m - n)" for n :: nat
  by (simp add: le_mod_geq)

lemma clock_ticks_registers:
  assumes c: "length (interrupt_callbacks t) > 0x20" "interrupt_callbacks t ! 0x20 = a" "a \<noteq> 0" "call a = idt_clock now"
  shows "linked_tasks s ts \<Longrightarrow> j < length ts \<Longrightarrow> current_task s = ts ! j \<Longrightarrow>
    (\<forall>t\<in>set ts. \<forall>i. \<not> task_asleep s t (now i)) \<Longrightarrow> (\<forall>t\<in>set ts. task_paging_desc s t \<noteq> None) \<Longrightarrow>
    \<exists>s' rs. clock_ticks call kd t s fs = Some (s', rs) \<and> length rs = length fs \<and>
      (\<forall>i < length fs. rs ! i = (if Suc i < length ts then registers (tasks s (ts ! ((j + Suc i) mod length ts))) else fs ! (Suc i - length ts)))"
proof (induction fs arbitrary: s j)
  case (Cons f fs)
  let ?n = "length ts" and ?T = "(tasks s)(ts ! j := (tasks s (ts ! j))\<lparr>registers := f\<rparr>)"
  obtain s1 where s1: "interrupt_handler call kd t s 0x20 f = Some (s1, Some ((registers \<circ> ?T) (ts ! (Suc j mod ?n))))"
    "current_task s1 = ts ! (Suc j mod ?n)" "linked_tasks s1 ts" "task_asleep s1 = task_asleep s"
    "task_paging_desc s1 = task_paging_desc s" "tasks s1 = ?T"
    using clock_tick [where call = call and now = now, OF Cons.prems c] by blast
  have m: "Suc j mod ?n < ?n" using Cons.prems(2) by (intro mod_less_divisor) linarith
  obtain s2 rs where s2: "clock_ticks call kd t s1 fs = Some (s2, rs)" "length rs = length fs"
    "\<forall>i < length fs. rs ! i = (if Suc i < ?n then registers (?T (ts ! ((Suc j mod ?n + Suc i) mod ?n))) else fs ! (Suc i - ?n))"
    using Cons.IH [OF s1(3) m s1(2)] Cons.prems(4,5) unfolding s1(4,5,6) by blast
  have d: "distinct ts" using Cons.prems(1) by (simp add: linked_tasks_def task_links_def)
  have T: "registers (?T (ts ! ((j + k) mod ?n))) = (if k mod ?n = 0 then f else registers (tasks s (ts ! ((j + k) mod ?n))))" for k
  proof -
    have n0: "0 < ?n" using Cons.prems(2) by linarith
    have "ts ! ((j + k) mod ?n) = ts ! j \<longleftrightarrow> (j + k) mod ?n = j"
      using d Cons.prems(2) n0 by (simp add: nth_eq_iff_index_eq)
    also have "\<dots> \<longleftrightarrow> k mod ?n = 0"
    proof -
      have "(j + k) mod ?n = (if j + k mod ?n < ?n then j + k mod ?n else j + k mod ?n - ?n)"
        using mod_wrap [OF Cons.prems(2) mod_less_divisor [OF n0, of k]] by (simp only: mod_add_right_eq)
      then show ?thesis using Cons.prems(2) mod_less_divisor [OF n0, of k] by auto
    qed
    finally show ?thesis by auto
  qed
  have "((registers \<circ> ?T) (ts ! (Suc j mod ?n)) # rs) ! i =
      (if Suc i < ?n then registers (tasks s (ts ! ((j + Suc i) mod ?n))) else (f # fs) ! (Suc i - ?n))" if i: "i < length (f # fs)" for i
  proof (cases i)
    case 0
    have "Suc 0 mod ?n = 0 \<longleftrightarrow> ?n = Suc 0" using Cons.prems(2) by (cases "?n = Suc 0") auto
    then show ?thesis using T [of "Suc 0"] Cons.prems(2) 0 by (auto simp del: fun_upd_apply)
  next
    case (Suc k)
    have k: "rs ! k = (if Suc k < ?n then registers (?T (ts ! ((j + Suc (Suc k)) mod ?n))) else fs ! (Suc k - ?n))"
    proof -
      have "(Suc j mod ?n + Suc k) mod ?n = (Suc j + Suc k) mod ?n" by (rule mod_add_left_eq)
      then have "(Suc j mod ?n + Suc k) mod ?n = (j + Suc (Suc k)) mod ?n" by simp
      then show ?thesis using s2(3) [rule_format, of k] i Suc by (simp only: length_Cons Suc_less_eq)
    qed
    show ?thesis
    proof (cases "Suc (Suc k) < ?n")
      case True
      then show ?thesis using k T [of "Suc (Suc k)"] Suc by (simp del: fun_upd_apply)
    next
      case False
      show ?thesis
      proof (cases "Suc (Suc k) = ?n")
        case True
        then have "Suc k < ?n" by simp
        then show ?thesis using k T [of "Suc (Suc k)"] Suc True by (simp del: fun_upd_apply)
      next
        case F2: False
        then have "\<not> Suc k < ?n" "Suc (Suc k) - ?n = Suc (Suc k - ?n)" using False by auto
        then show ?thesis using k Suc False by simp
      qed
    qed
  qed
  then show ?case using s1(1) s2(1,2) by simp
qed simp


definition empty_idt :: idt where
  "empty_idt = \<lparr>idt_descriptors = [], interrupt_callbacks = replicate 512 0\<rparr>"

definition sample_entries :: idt_entries where
  "sample_entries = \<lparr>interrupt_pointer_table = (\<lambda>i. 0x100000 + 32 * of_nat i), idt_zero_entry = 0x110000, isr80h_wrapper_entry = 0x111000,
     exception_handler = 0x112000, clock_handler = 0x113000\<rparr>"

lemma idt_init_total: "\<exists>t'. idt_init e t = Some t'"
proof -
  obtain t1 where t1: "idt_set_loop (interrupt_pointer_table e) 512
       (t\<lparr>idt_descriptors := replicate 512
         \<lparr>offset_1 = 0, selector = 0, ist = 0, type_attr = 0, offset_2 = 0, offset_3 = 0, idt_reserved = 0\<rparr>\<rparr>) = Some t1" "length (idt_descriptors t1) = 512"
    using idt_set_loop_total [of 512 "t\<lparr>idt_descriptors := replicate 512
         \<lparr>offset_1 = 0, selector = 0, ist = 0, type_attr = 0, offset_2 = 0, offset_3 = 0, idt_reserved = 0\<rparr>\<rparr>" "interrupt_pointer_table e"]
    by (auto simp del: idt_set_loop.simps)
  obtain t2 where t2: "idt_set t1 0 (idt_zero_entry e) = Some t2" using t1(2) by (auto simp: idt_set_def Let_def)
  obtain t3 where t3: "idt_set t2 0x80 (isr80h_wrapper_entry e) = Some t3"
    using idt_set_callbacks [OF t2] t1(2) by (auto simp: idt_set_def Let_def)
  show ?thesis using t1(1) t2 t3 by (simp add: idt_init_def Let_def del: idt_set_loop.simps exception_loop.simps)
qed


end
