(* ===== verification/Syscall.thy ===== *)
theory Syscall
  imports Interrupt
begin

section \<open>System calls: isr80h.c and the handler in idt.c\<close>

text \<open>
  The commands that a program calls through interrupt 0x80. They work on the whole system: the files over the disks over the kernel's state.
  \<open>kernel_env\<close> holds what stays the same: the kernel's page tables, the file systems, the handlers of windows, the readings of the clock, the
  contents of fresh memory for events, and the address of the array that a command has on its stack. A command gives a value, or it does not return
  and the processor goes on with the registers of a task.
\<close>

type_synonym ('k, 'b, 'p) kernel_system = "('k wstate_ext tstate_ext gstate_ext istate_ext kbstate_ext, 'b, 'p) process_system"

record ('k, 'b, 'p) kernel_env =
  env_kernel_desc :: paging_desc
  env_allocator :: "'k wstate_scheme allocator"
  env_filesystems :: "('k wstate_ext tstate_ext gstate_ext istate_ext kbstate_ext, 'b, 'p) filesystems"
  env_e820 :: "e820_entry list"
  env_events :: "nat \<Rightarrow> window_event"
  env_calls :: "'k wstate_scheme event_calls"
  env_handlers :: window_handlers
  env_process_handler :: u64
  env_now :: "nat \<Rightarrow> u64"
  env_buffer :: u64

type_synonym outcome = "u64 + registers"

definition int_of_long :: "u64 \<Rightarrow> int" where
  "int_of_long x = sint (ucast x :: u32)"

definition u64_of_int :: "int \<Rightarrow> u64" where
  "u64_of_int i = word_of_int i"

text \<open>A string in memory, up to its terminator.\<close>

partial_function (option) string_at :: "memory \<Rightarrow> u64 \<Rightarrow> u8 list option" where
  "string_at m a = (if m a = 0 then Some [0] else do { cs \<leftarrow> string_at m (a + 1); Some (m a # cs) })"

text \<open>The windows that the code of processes uses are those of window.c.\<close>

definition kernel_window_system :: "('k, 'b, 'p) kernel_env \<Rightarrow> 'k wstate_scheme window_system" where
  "kernel_window_system E = \<lparr>
     ws_screen = (\<lambda>s. (gi_width (graphics_at s (graphics_screen_info s)), gi_height (graphics_at s (graphics_screen_info s)))),
     ws_body = (\<lambda>s w. let g = graphics_at s (body_graphics (kwindow_at s w)) in
        \<lparr>relative_x = gi_relative_x g, relative_y = gi_relative_y g, body_width = gi_width g, body_height = gi_height g\<rparr>),
     ws_create = (\<lambda>s title x y width height fl wid. window_create (env_calls E) (env_handlers E) s (graphics_screen_info s) 0 title x y
        (word_of_int width) (word_of_int height) (word_of_int fl) wid),
     ws_close = window_close (env_calls E),
     ws_register_handler = (\<lambda>s w. window_event_handler_register s w (env_process_handler E))\<rparr>"

text \<open>What the commands use of the current task.\<close>

definition current_process_of :: "'s ktask_scheme \<Rightarrow> u64" where
  "current_process_of s = task_process (tasks s (current_task s))"

definition stack_item :: "('k, 'b, 'p) kernel_env \<Rightarrow> 'k wstate_scheme \<Rightarrow> int \<Rightarrow> ('k wstate_scheme \<times> u64) option" where
  "stack_item E s i = task_get_stack_item (env_kernel_desc E) s (current_task s) i"

definition user_to_physical :: "'k wstate_scheme \<Rightarrow> u64 \<Rightarrow> u64 option" where
  "user_to_physical s a = task_virtual_address_to_physical s (current_task s) a"

subsection \<open>Commands on the state of the kernel\<close>

definition isr80h_command0_sum :: "('k, 'b, 'p) kernel_env \<Rightarrow> 'k wstate_scheme \<Rightarrow> ('k wstate_scheme \<times> outcome) option" where
  "isr80h_command0_sum E s = do {
     (s1, v2) \<leftarrow> stack_item E s 1;
     (s2, v1) \<leftarrow> stack_item E s1 0;
     Some (s2, Inl (v1 + v2))
   }"

definition process_print_char :: "'k wstate_scheme \<Rightarrow> u64 \<Rightarrow> int \<Rightarrow> 'k wstate_scheme option" where
  "process_print_char s p c =
     (let t = body_terminal (kwindow_at s (kernel_win (window_at s (sysout_win (processes s p)))))
      in if t \<noteq> 0 then do { (s1, _) \<leftarrow> terminal_write s t c; Some s1 } else Some s)"

definition process_print :: "'k wstate_scheme \<Rightarrow> u64 \<Rightarrow> u8 list \<Rightarrow> 'k wstate_scheme option" where
  "process_print s p message =
     (let t = body_terminal (kwindow_at s (kernel_win (window_at s (sysout_win (processes s p)))))
      in if t \<noteq> 0 then do { (s1, _) \<leftarrow> terminal_print s t message; Some s1 } else Some s)"

text \<open>When the copy fails the array keeps what was on the stack, and that is printed.\<close>

definition isr80h_command1_print :: "('k, 'b, 'p) kernel_env \<Rightarrow> 'k wstate_scheme \<Rightarrow> ('k wstate_scheme \<times> outcome) option" where
  "isr80h_command1_print E s = do {
     (s1, user_space_msg_buffer) \<leftarrow> stack_item E s 0;
     (s2, _) \<leftarrow> copy_string_from_task kzalloc (env_kernel_desc E) s1 (current_task s1) user_space_msg_buffer (env_buffer E) 1024;
     s3 \<leftarrow> process_print s2 (current_process_of s2) (read_bytes (kmem s2) (env_buffer E) 1024);
     Some (s3, Inl 0)
   }"

definition isr80h_command2_getkey :: "('k, 'b, 'p) kernel_env \<Rightarrow> 'k wstate_scheme \<Rightarrow> ('k wstate_scheme \<times> outcome) option" where
  "isr80h_command2_getkey E s = do { (s1, c) \<leftarrow> keyboard_pop s; Some (s1, Inl (scast c)) }"

definition isr80h_command3_putchar :: "('k, 'b, 'p) kernel_env \<Rightarrow> 'k wstate_scheme \<Rightarrow> ('k wstate_scheme \<times> outcome) option" where
  "isr80h_command3_putchar E s = do {
     (s1, x) \<leftarrow> stack_item E s 0;
     s2 \<leftarrow> process_print_char s1 (current_process_of s1) (sint (ucast x :: u8));
     Some (s2, Inl 0)
   }"

definition isr80h_command4_malloc :: "('k, 'b, 'p) kernel_env \<Rightarrow> 'k wstate_scheme \<Rightarrow> ('k wstate_scheme \<times> outcome) option" where
  "isr80h_command4_malloc E s = do {
     (s1, sz) \<leftarrow> stack_item E s 0;
     (s2, ptr) \<leftarrow> process_malloc s1 (current_process_of s1) sz;
     Some (s2, Inl ptr)
   }"

definition isr80h_command5_free :: "('k, 'b, 'p) kernel_env \<Rightarrow> 'k wstate_scheme \<Rightarrow> ('k wstate_scheme \<times> outcome) option" where
  "isr80h_command5_free E s = do {
     (s1, ptr) \<leftarrow> stack_item E s 0;
     s2 \<leftarrow> process_free s1 (current_process_of s1) ptr;
     Some (s2, Inl 0)
   }"

text \<open>The address of the arguments is not tested. The structure has the number at 0 and the vector at 8.\<close>

definition isr80h_command8_get_program_arguments :: "('k, 'b, 'p) kernel_env \<Rightarrow> 'k wstate_scheme \<Rightarrow> ('k wstate_scheme \<times> outcome) option" where
  "isr80h_command8_get_program_arguments E s = do {
     (s1, a) \<leftarrow> stack_item E s 0;
     arguments \<leftarrow> user_to_physical s1 a;
     let (n, v) = process_get_arguments s1 (current_process_of s1);
     let m = write_bytes (kmem s1) arguments (le_bytes 4 (word_of_int n :: u32));
     Some (s1\<lparr>kmem := write_bytes m (arguments + 8) (le_bytes 8 v)\<rparr>, Inl 0)
   }"

definition isr80h_command15_realloc :: "('k, 'b, 'p) kernel_env \<Rightarrow> 'k wstate_scheme \<Rightarrow> ('k wstate_scheme \<times> outcome) option" where
  "isr80h_command15_realloc E s = do {
     (s1, userland_virt_addr) \<leftarrow> stack_item E s 0;
     (s2, new_ptr_size) \<leftarrow> stack_item E s1 1;
     (s3, new_alloc_addr) \<leftarrow> process_realloc s2 (current_process_of s2) userland_virt_addr new_ptr_size;
     Some (s3, Inl new_alloc_addr)
   }"

definition isr80h_command25_udelay :: "('k, 'b, 'p) kernel_env \<Rightarrow> 'k wstate_scheme \<Rightarrow> ('k wstate_scheme \<times> outcome) option" where
  "isr80h_command25_udelay E s = do {
     (s1, microseconds) \<leftarrow> stack_item E s 0;
     let s2 = task_sleep s1 (current_task s1) microseconds (env_now E 0);
     (s3, regs) \<leftarrow> task_next (\<lambda>i. env_now E (Suc i)) s2;
     Some (s3, Inr regs)
   }"

subsection \<open>Commands on windows and graphics\<close>

definition isr80h_window_from_process_window_virt :: "'k wstate_scheme \<Rightarrow> u64 \<Rightarrow> u64 option" where
  "isr80h_window_from_process_window_virt s proc_win_virt_addr = do {
     proc_win \<leftarrow> process_window_get_from_user_window s (current_process_of s) proc_win_virt_addr;
     Some (if proc_win = 0 then 0 else kernel_win (window_at s proc_win))
   }"

definition isr80h_command16_window_create :: "('k, 'b, 'p) kernel_env \<Rightarrow> 'k wstate_scheme \<Rightarrow> ('k wstate_scheme \<times> outcome) option" where
  "isr80h_command16_window_create E s = do {
     (s1, window_title_user_ptr) \<leftarrow> stack_item E s 0;
     (s2, res) \<leftarrow> copy_string_from_task kzalloc (env_kernel_desc E) s1 (current_task s1) window_title_user_ptr (env_buffer E) (int WINDOW_MAX_TITLE);
     if res < 0 then Some (s2, Inl 0)
     else do {
       (s3, width) \<leftarrow> stack_item E s2 1;
       (s4, height) \<leftarrow> stack_item E s3 2;
       (s5, fl) \<leftarrow> stack_item E s4 3;
       (s6, wid) \<leftarrow> stack_item E s5 4;
       (s7, win) \<leftarrow> process_window_create (kernel_window_system E) s6 (current_process_of s6) (read_bytes (kmem s6) (env_buffer E) WINDOW_MAX_TITLE)
          (int_of_long width) (int_of_long height) (int_of_long fl) (int_of_long wid);
       Some (s7, Inl (if win = 0 then 0 else user_win (window_at s7 win)))
     }
   }"

definition isr80h_command17_sysout_to_window :: "('k, 'b, 'p) kernel_env \<Rightarrow> 'k wstate_scheme \<Rightarrow> ('k wstate_scheme \<times> outcome) option" where
  "isr80h_command17_sysout_to_window E s = do {
     (s1, user_win_ptr) \<leftarrow> stack_item E s 0;
     if user_win_ptr = 0 then Some (s1, Inl 0)
     else do {
       proc_win \<leftarrow> process_window_get_from_user_window s1 (current_process_of s1) user_win_ptr;
       Some (if proc_win \<noteq> 0 then process_set_sysout_window s1 (current_process_of s1) proc_win else s1, Inl 0)
     }
   }"

text \<open>The event of a program in memory: the type at 0, the number at 4, the window at 8 and the data at 16.\<close>

definition user_event_at :: "memory \<Rightarrow> u64 \<Rightarrow> window_event" where
  "user_event_at m a = \<lparr>event_type = sint (mem32 m a), win_id = sint (mem32 m (a + 4)), event_window = mem64 m (a + 8),
     data_x = sint (mem32 m (a + 16)), data_y = sint (mem32 m (a + 20))\<rparr>"

definition user_event_bytes :: "window_event \<Rightarrow> u8 list" where
  "user_event_bytes e = le_bytes 4 (word_of_int (event_type e) :: u32) @ le_bytes 4 (word_of_int (win_id e) :: u32) @ le_bytes 8 (event_window e) @
     le_bytes 4 (word_of_int (data_x e) :: u32) @ le_bytes 4 (word_of_int (data_y e) :: u32)"

definition isr80h_command18_get_window_event :: "('k, 'b, 'p) kernel_env \<Rightarrow> 'k wstate_scheme \<Rightarrow> ('k wstate_scheme \<times> outcome) option" where
  "isr80h_command18_get_window_event E s = do {
     (s1, win_event_out_virtual_address) \<leftarrow> stack_item E s 0;
     if win_event_out_virtual_address = 0 then Some (s1, Inl (u64_of_int (- EINVARG)))
     else do {
       win_event_out \<leftarrow> user_to_physical s1 win_event_out_virtual_address;
       if win_event_out = 0 then Some (s1, Inl (u64_of_int (- EINVARG)))
       else do {
         (s2, res, ev) \<leftarrow> process_pop_window_event s1 (current_process_of s1) null_event;
         if res < 0 then Some (s2, Inl (u64_of_int res))
         else
           let out = window_event_to_userland ev (user_event_at (kmem s2) win_event_out)
           in Some (s2\<lparr>kmem := write_bytes (kmem s2) win_event_out (user_event_bytes out)\<rparr>, Inl (u64_of_int res))
       }
     }
   }"

text \<open>
  The description of a rectangle for a program: its position, its size, and the pointer that stands for it. The field of the pixels keeps
  the bytes of fresh memory. \<open>graphics_metadata\<close> writes it.
\<close>

definition graphics_metadata :: "'k wstate_scheme \<Rightarrow> u64 \<Rightarrow> u64 \<Rightarrow> u64 \<Rightarrow> 'k wstate_scheme" where
  "graphics_metadata s a g up =
     (let gi = graphics_at s g;
          m = write_bytes (kmem s) a (le_bytes 8 (ucast (gi_relative_x gi) :: u64) @ le_bytes 8 (ucast (gi_relative_y gi) :: u64) @
                le_bytes 8 (ucast (gi_width gi) :: u64) @ le_bytes 8 (ucast (gi_height gi) :: u64))
      in s\<lparr>kmem := write_bytes m (a + 40) (le_bytes 8 up)\<rparr>)"

definition isr80h_graphics_make_userland_metadata :: "'k wstate_scheme \<Rightarrow> u64 \<Rightarrow> u64 \<Rightarrow> ('k wstate_scheme \<times> u64) option" where
  "isr80h_graphics_make_userland_metadata s p g = do {
     (s1, up) \<leftarrow> process_userland_pointer_create s p g;
     if up = 0 then Some (s1, 0)
     else do {
       (s2, a) \<leftarrow> process_malloc s1 p 48;
       Some (if a = 0 then (s2, 0) else (graphics_metadata s2 a g up, a))
     }
   }"

definition isr80h_command19_window_graphics_get :: "('k, 'b, 'p) kernel_env \<Rightarrow> 'k wstate_scheme \<Rightarrow> ('k wstate_scheme \<times> outcome) option" where
  "isr80h_command19_window_graphics_get E s = do {
     (s1, user_win_ptr) \<leftarrow> stack_item E s 0;
     if user_win_ptr = 0 then Some (s1, Inl 0)
     else do {
       w \<leftarrow> isr80h_window_from_process_window_virt s1 user_win_ptr;
       if w = 0 then Some (s1, Inl 0)
       else do {
         (s2, a) \<leftarrow> isr80h_graphics_make_userland_metadata s1 (current_process_of s1) (body_graphics (kwindow_at s1 w));
         Some (s2, Inl a)
       }
     }
   }"

definition isr80h_command20_graphics_pixels_get :: "('k, 'b, 'p) kernel_env \<Rightarrow> 'k wstate_scheme \<Rightarrow> ('k wstate_scheme \<times> outcome) option" where
  "isr80h_command20_graphics_pixels_get E s = do {
     (s1, virt) \<leftarrow> stack_item E s 0;
     if virt = 0 then Some (s1, Inl 0)
     else do {
       ptr \<leftarrow> user_to_physical s1 virt;
       if ptr = 0 then Some (s1, Inl 0)
       else do {
         g \<leftarrow> process_userland_pointer_kernel_ptr s1 (current_process_of s1) (mem64 (kmem s1) (ptr + 40));
         if g = 0 then Some (s1, Inl 0)
         else let gi = graphics_at s1 g in
           if gi_pixels gi = 0 then Some (s1, Inl 0)
           else do {
             (s2, res, mapped) \<leftarrow> process_map_graphics_framebuffer_pixels_into_userspace s1 (current_process_of s1)
                (Some (gi_pixels gi, gi_width gi, gi_height gi));
             Some (s2, Inl (if res < 0 then 0 else case mapped of Some (Some a, _) \<Rightarrow> a | _ \<Rightarrow> 0))
           }
       }
     }
   }"

definition isr80h_command21_window_redraw :: "('k, 'b, 'p) kernel_env \<Rightarrow> 'k wstate_scheme \<Rightarrow> ('k wstate_scheme \<times> outcome) option" where
  "isr80h_command21_window_redraw E s = do {
     (s1, user_win_ptr) \<leftarrow> stack_item E s 0;
     if user_win_ptr = 0 then Some (s1, Inl 0)
     else do {
       w \<leftarrow> isr80h_window_from_process_window_virt s1 user_win_ptr;
       if w = 0 then Some (s1, Inl 0) else do { s2 \<leftarrow> window_redraw s1 w; Some (s2, Inl 0) }
     }
   }"

text \<open>The translated address is not tested before it is read.\<close>

definition isr80h_command22_graphics_create :: "('k, 'b, 'p) kernel_env \<Rightarrow> 'k wstate_scheme \<Rightarrow> ('k wstate_scheme \<times> outcome) option" where
  "isr80h_command22_graphics_create E s = do {
     (s1, x) \<leftarrow> stack_item E s 4;
     (s2, y) \<leftarrow> stack_item E s1 3;
     (s3, width) \<leftarrow> stack_item E s2 2;
     (s4, height) \<leftarrow> stack_item E s3 1;
     (s5, virt) \<leftarrow> stack_item E s4 0;
     if virt = 0 then Some (s5, Inl 0)
     else do {
       ptr \<leftarrow> user_to_physical s5 virt;
       g \<leftarrow> process_userland_pointer_kernel_ptr s5 (current_process_of s5) (mem64 (kmem s5) (ptr + 40));
       if g = 0 then Some (s5, Inl 0)
       else do {
         (s6, child) \<leftarrow> graphics_info_create_relative s5 g x y width height 0;
         if child = 0 then Some (s6, Inl 0)
         else do {
           (s7, up) \<leftarrow> process_userland_pointer_create s6 (current_process_of s6) child;
           if up = 0 then Some (s7, Inl 0)
           else do {
             (s8, a) \<leftarrow> process_malloc s7 (current_process_of s7) 48;
             Some (if a = 0 then (s8, Inl 0) else (graphics_metadata s8 a child up, Inl a))
           }
         }
       }
     }
   }"

definition isr80h_command23_window_redraw_region :: "('k, 'b, 'p) kernel_env \<Rightarrow> 'k wstate_scheme \<Rightarrow> ('k wstate_scheme \<times> outcome) option" where
  "isr80h_command23_window_redraw_region E s = do {
     (s1, x) \<leftarrow> stack_item E s 0;
     (s2, y) \<leftarrow> stack_item E s1 1;
     (s3, width) \<leftarrow> stack_item E s2 2;
     (s4, height) \<leftarrow> stack_item E s3 3;
     (s5, user_window_ptr) \<leftarrow> stack_item E s4 4;
     if user_window_ptr = 0 then Some (s5, Inl (u64_of_int (- EINVARG)))
     else do {
       w \<leftarrow> isr80h_window_from_process_window_virt s5 user_window_ptr;
       if w = 0 then Some (s5, Inl (u64_of_int (- EINVARG)))
       else do {
         s6 \<leftarrow> window_redraw_body_region s5 w (int_of_long x) (int_of_long y) (int_of_long width) (int_of_long height);
         Some (s6, Inl 0)
       }
     }
   }"

definition isr80h_command24_update_window_title :: "('k, 'b, 'p) kernel_env \<Rightarrow> 'k wstate_scheme \<Rightarrow> u64 \<Rightarrow> ('k wstate_scheme \<times> int) option" where
  "isr80h_command24_update_window_title E s w = do {
     (s1, a) \<leftarrow> stack_item E s 2;
     title_ptr \<leftarrow> user_to_physical s1 a;
     if title_ptr = 0 then Some (s1, - EINVARG)
     else do { s2 \<leftarrow> window_title_set s1 w (read_bytes (kmem s1) title_ptr WINDOW_MAX_TITLE); Some (s2, 0) }
   }"

definition isr80h_command24_update_window :: "('k, 'b, 'p) kernel_env \<Rightarrow> 'k wstate_scheme \<Rightarrow> ('k wstate_scheme \<times> outcome) option" where
  "isr80h_command24_update_window E s = do {
     (s1, update_type) \<leftarrow> stack_item E s 0;
     (s2, user_win_ptr) \<leftarrow> stack_item E s1 1;
     if user_win_ptr = 0 then Some (s2, Inl (u64_of_int (- EINVARG)))
     else do {
       w \<leftarrow> isr80h_window_from_process_window_virt s2 user_win_ptr;
       if w = 0 then Some (s2, Inl (u64_of_int (- EINVARG)))
       else if update_type = 0 then do { (s3, res) \<leftarrow> isr80h_command24_update_window_title E s2 w; Some (s3, Inl (u64_of_int res)) }
       else Some (s2, Inl (u64_of_int (- EINVARG)))
     }
   }"

subsection \<open>Commands on files and processes\<close>

text \<open>A command that uses only the kernel's state, on the whole system.\<close>

definition on_kernel ::
  "('k wstate_scheme \<Rightarrow> ('k wstate_scheme \<times> outcome) option) \<Rightarrow> ('k, 'b, 'p) kernel_system \<Rightarrow> (('k, 'b, 'p) kernel_system \<times> outcome) option" where
  "on_kernel f F = do { (s, r) \<leftarrow> f (heap_of F); Some (with_heap F s, r) }"

text \<open>Starting a loaded process: \<open>task_switch\<close> and \<open>task_return\<close>. A null process is read through.\<close>

definition start_process :: "('k, 'b, 'p) kernel_system \<Rightarrow> u64 \<Rightarrow> (('k, 'b, 'p) kernel_system \<times> outcome) option" where
  "start_process F p =
     (if p = 0 then None
      else do {
        let t = process_task (processes (heap_of F) p);
        (s, _) \<leftarrow> task_switch (heap_of F) t;
        Some (with_heap F s, Inr (registers (tasks s t)))
      })"

text \<open>The path is an array of 108 bytes whose contents are those of the stack; its first three bytes are set, and the name is copied behind them.\<close>

definition isr80h_command6_process_load_start ::
  "('k, 'b, 'p) kernel_env \<Rightarrow> ('k, 'b, 'p) kernel_system \<Rightarrow> (('k, 'b, 'p) kernel_system \<times> outcome) option" where
  "isr80h_command6_process_load_start E F = do {
     (s1, filename_user_ptr) \<leftarrow> stack_item E (heap_of F) 0;
     (s2, res) \<leftarrow> copy_string_from_task kzalloc (env_kernel_desc E) s1 (current_task s1) filename_user_ptr (env_buffer E) PEACHOS_MAX_PATH;
     if res < 0 then Some (with_heap F s2, Inl 0)
     else do {
       rest \<leftarrow> strcpy (replicate 105 0) (read_bytes (kmem s2) (env_buffer E) (nat PEACHOS_MAX_PATH));
       (F3, res, p) \<leftarrow> process_load_switch (env_allocator E) (env_filesystems E) (kernel_window_system E) (env_e820 E) (env_events E)
          (with_heap F s2) ([48, 58, 47] @ rest) 0;
       if res < 0 then Some (F3, Inl 0) else start_process F3 p
     }
   }"

text \<open>The list of arguments in memory: strings of 512 bytes, each with the address of the next. A circular list has no end.\<close>

partial_function (option) arguments_at :: "memory \<Rightarrow> u64 \<Rightarrow> u8 list list option" where
  "arguments_at m a = (if a = 0 then Some [] else do { rest \<leftarrow> arguments_at m (mem64 m (a + 512)); Some (read_bytes m a 512 # rest) })"

definition isr80h_command7_invoke_system_command ::
  "('k, 'b, 'p) kernel_env \<Rightarrow> ('k, 'b, 'p) kernel_system \<Rightarrow> (('k, 'b, 'p) kernel_system \<times> outcome) option" where
  "isr80h_command7_invoke_system_command E F = do {
     (s1, a) \<leftarrow> stack_item E (heap_of F) 0;
     arguments \<leftarrow> user_to_physical s1 a;
     if arguments = 0 \<or> kmem s1 arguments = 0 then Some (with_heap F s1, Inl (u64_of_int (- EINVARG)))
     else do {
       program_name \<leftarrow> string_at (kmem s1) arguments;
       rest \<leftarrow> strncpy (replicate 105 0) program_name PEACHOS_MAX_PATH;
       (F2, res, p) \<leftarrow> process_load_switch (env_allocator E) (env_filesystems E) (kernel_window_system E) (env_e820 E) (env_events E)
          (with_heap F s1) ([64, 58, 47] @ rest) 0;
       if res < 0 then Some (F2, Inl (u64_of_int res))
       else if p = 0 then None
       else do {
         root_command_argument \<leftarrow> arguments_at (kmem (heap_of F2)) arguments;
         (s3, res) \<leftarrow> process_inject_arguments (heap_of F2) p root_command_argument;
         if res < 0 then Some (with_heap F2 s3, Inl (u64_of_int res)) else start_process (with_heap F2 s3) p
       }
     }
   }"

definition isr80h_command9_exit :: "('k, 'b, 'p) kernel_env \<Rightarrow> ('k, 'b, 'p) kernel_system \<Rightarrow> (('k, 'b, 'p) kernel_system \<times> outcome) option" where
  "isr80h_command9_exit E F = do {
     (F1, _) \<leftarrow> process_terminate (env_filesystems E) (kernel_window_system E) F (current_process_of (heap_of F));
     (s2, regs) \<leftarrow> task_next (env_now E) (heap_of F1);
     Some (with_heap F1 s2, Inr regs)
   }"

definition isr80h_command10_fopen :: "('k, 'b, 'p) kernel_env \<Rightarrow> ('k, 'b, 'p) kernel_system \<Rightarrow> (('k, 'b, 'p) kernel_system \<times> outcome) option" where
  "isr80h_command10_fopen E F = do {
     (s1, filename_virt) \<leftarrow> stack_item E (heap_of F) 0;
     filename_addr \<leftarrow> user_to_physical s1 filename_virt;
     if filename_addr = 0 then Some (with_heap F s1, Inl (u64_of_int (- 1)))
     else do {
       (s2, mode_virt) \<leftarrow> stack_item E s1 1;
       mode_addr \<leftarrow> user_to_physical s2 mode_virt;
       if mode_addr = 0 then Some (with_heap F s2, Inl (u64_of_int (- 1)))
       else do {
         name \<leftarrow> string_at (kmem s2) filename_addr;
         mode_str \<leftarrow> string_at (kmem s2) mode_addr;
         (F3, fd) \<leftarrow> process_fopen (env_allocator E) (env_filesystems E) (with_heap F s2) (current_process_of s2) name mode_str;
         Some (F3, Inl (u64_of_int fd))
       }
     }
   }"

definition isr80h_command11_fclose :: "('k, 'b, 'p) kernel_env \<Rightarrow> ('k, 'b, 'p) kernel_system \<Rightarrow> (('k, 'b, 'p) kernel_system \<times> outcome) option" where
  "isr80h_command11_fclose E F = do {
     (s1, fd) \<leftarrow> stack_item E (heap_of F) 0;
     (F2, _) \<leftarrow> process_fclose (env_filesystems E) (with_heap F s1) (current_process_of s1) (int_of_long fd);
     Some (F2, Inl 0)
   }"

definition isr80h_command12_fread :: "('k, 'b, 'p) kernel_env \<Rightarrow> ('k, 'b, 'p) kernel_system \<Rightarrow> (('k, 'b, 'p) kernel_system \<times> outcome) option" where
  "isr80h_command12_fread E F = do {
     (s1, buffer_virt_addr) \<leftarrow> stack_item E (heap_of F) 0;
     (s2, sz) \<leftarrow> stack_item E s1 1;
     (s3, n) \<leftarrow> stack_item E s2 2;
     (s4, fd) \<leftarrow> stack_item E s3 3;
     (F5, res) \<leftarrow> process_fread (env_filesystems E) (kernel_window_system E) (with_heap F s4) (current_process_of s4) buffer_virt_addr sz n (int_of_long fd);
     Some (F5, Inl (u64_of_int res))
   }"

definition isr80h_command13_fseek :: "('k, 'b, 'p) kernel_env \<Rightarrow> ('k, 'b, 'p) kernel_system \<Rightarrow> (('k, 'b, 'p) kernel_system \<times> outcome) option" where
  "isr80h_command13_fseek E F = do {
     (s1, fd) \<leftarrow> stack_item E (heap_of F) 0;
     (s2, offset) \<leftarrow> stack_item E s1 1;
     (s3, whence) \<leftarrow> stack_item E s2 2;
     (F4, res) \<leftarrow> process_fseek (env_filesystems E) (with_heap F s3) (current_process_of s3) (int_of_long fd) (int_of_long offset) (ucast whence);
     Some (F4, Inl (u64_of_int res))
   }"

definition isr80h_command14_fstat :: "('k, 'b, 'p) kernel_env \<Rightarrow> ('k, 'b, 'p) kernel_system \<Rightarrow> (('k, 'b, 'p) kernel_system \<times> outcome) option" where
  "isr80h_command14_fstat E F = do {
     (s1, fd) \<leftarrow> stack_item E (heap_of F) 0;
     (s2, virt_file_stat_addr) \<leftarrow> stack_item E s1 1;
     (F3, res) \<leftarrow> process_fstat (env_filesystems E) (kernel_window_system E) (with_heap F s2) (current_process_of s2) (int_of_long fd) virt_file_stat_addr;
     Some (F3, Inl (u64_of_int res))
   }"

subsection \<open>The table of commands\<close>

datatype isr80h_command =
    Sum | Print | Getkey | Putchar | Malloc | Free | Process_load_start | Invoke_system_command | Get_program_arguments | Exit
  | Fopen | Fclose | Fread | Fseek | Fstat | Realloc | Window_create | Sysout_to_window | Get_window_event | Window_graphics_get
  | Graphics_pixels_get | Window_redraw | Graphics_create | Window_redraw_region | Update_window | Udelay

abbreviation (input) PEACHOS_MAX_ISR80H_COMMANDS :: nat where "PEACHOS_MAX_ISR80H_COMMANDS \<equiv> 1024"

text \<open>The table of pointers; the functions are named by a datatype, and \<open>isr80h_call\<close> is the call through the pointer.\<close>

definition isr80h_register_command :: "isr80h_command option list \<Rightarrow> int \<Rightarrow> isr80h_command \<Rightarrow> isr80h_command option list option" where
  "isr80h_register_command tbl command_id command =
     (if command_id < 0 \<or> command_id \<ge> int PEACHOS_MAX_ISR80H_COMMANDS then None
      else if tbl ! nat command_id \<noteq> None then None
      else Some (tbl[nat command_id := Some command]))"

definition isr80h_register_commands :: "isr80h_command option list \<Rightarrow> isr80h_command option list option" where
  "isr80h_register_commands tbl = do {
     tbl \<leftarrow> isr80h_register_command tbl 0 Sum;
     tbl \<leftarrow> isr80h_register_command tbl 1 Print;
     tbl \<leftarrow> isr80h_register_command tbl 2 Getkey;
     tbl \<leftarrow> isr80h_register_command tbl 3 Putchar;
     tbl \<leftarrow> isr80h_register_command tbl 4 Malloc;
     tbl \<leftarrow> isr80h_register_command tbl 5 Free;
     tbl \<leftarrow> isr80h_register_command tbl 6 Process_load_start;
     tbl \<leftarrow> isr80h_register_command tbl 7 Invoke_system_command;
     tbl \<leftarrow> isr80h_register_command tbl 8 Get_program_arguments;
     tbl \<leftarrow> isr80h_register_command tbl 9 Exit;
     tbl \<leftarrow> isr80h_register_command tbl 10 Fopen;
     tbl \<leftarrow> isr80h_register_command tbl 11 Fclose;
     tbl \<leftarrow> isr80h_register_command tbl 12 Fread;
     tbl \<leftarrow> isr80h_register_command tbl 13 Fseek;
     tbl \<leftarrow> isr80h_register_command tbl 14 Fstat;
     tbl \<leftarrow> isr80h_register_command tbl 15 Realloc;
     tbl \<leftarrow> isr80h_register_command tbl 16 Window_create;
     tbl \<leftarrow> isr80h_register_command tbl 17 Sysout_to_window;
     tbl \<leftarrow> isr80h_register_command tbl 18 Get_window_event;
     tbl \<leftarrow> isr80h_register_command tbl 19 Window_graphics_get;
     tbl \<leftarrow> isr80h_register_command tbl 20 Graphics_pixels_get;
     tbl \<leftarrow> isr80h_register_command tbl 21 Window_redraw;
     tbl \<leftarrow> isr80h_register_command tbl 22 Graphics_create;
     tbl \<leftarrow> isr80h_register_command tbl 23 Window_redraw_region;
     tbl \<leftarrow> isr80h_register_command tbl 24 Update_window;
     isr80h_register_command tbl 25 Udelay
   }"

fun isr80h_call ::
  "('k, 'b, 'p) kernel_env \<Rightarrow> isr80h_command \<Rightarrow> ('k, 'b, 'p) kernel_system \<Rightarrow> (('k, 'b, 'p) kernel_system \<times> outcome) option" where
  "isr80h_call E Sum F = on_kernel (isr80h_command0_sum E) F"
| "isr80h_call E Print F = on_kernel (isr80h_command1_print E) F"
| "isr80h_call E Getkey F = on_kernel (isr80h_command2_getkey E) F"
| "isr80h_call E Putchar F = on_kernel (isr80h_command3_putchar E) F"
| "isr80h_call E Malloc F = on_kernel (isr80h_command4_malloc E) F"
| "isr80h_call E Free F = on_kernel (isr80h_command5_free E) F"
| "isr80h_call E Process_load_start F = isr80h_command6_process_load_start E F"
| "isr80h_call E Invoke_system_command F = isr80h_command7_invoke_system_command E F"
| "isr80h_call E Get_program_arguments F = on_kernel (isr80h_command8_get_program_arguments E) F"
| "isr80h_call E Exit F = isr80h_command9_exit E F"
| "isr80h_call E Fopen F = isr80h_command10_fopen E F"
| "isr80h_call E Fclose F = isr80h_command11_fclose E F"
| "isr80h_call E Fread F = isr80h_command12_fread E F"
| "isr80h_call E Fseek F = isr80h_command13_fseek E F"
| "isr80h_call E Fstat F = isr80h_command14_fstat E F"
| "isr80h_call E Realloc F = on_kernel (isr80h_command15_realloc E) F"
| "isr80h_call E Window_create F = on_kernel (isr80h_command16_window_create E) F"
| "isr80h_call E Sysout_to_window F = on_kernel (isr80h_command17_sysout_to_window E) F"
| "isr80h_call E Get_window_event F = on_kernel (isr80h_command18_get_window_event E) F"
| "isr80h_call E Window_graphics_get F = on_kernel (isr80h_command19_window_graphics_get E) F"
| "isr80h_call E Graphics_pixels_get F = on_kernel (isr80h_command20_graphics_pixels_get E) F"
| "isr80h_call E Window_redraw F = on_kernel (isr80h_command21_window_redraw E) F"
| "isr80h_call E Graphics_create F = on_kernel (isr80h_command22_graphics_create E) F"
| "isr80h_call E Window_redraw_region F = on_kernel (isr80h_command23_window_redraw_region E) F"
| "isr80h_call E Update_window F = on_kernel (isr80h_command24_update_window E) F"
| "isr80h_call E Udelay F = on_kernel (isr80h_command25_udelay E) F"

subsection \<open>The handler\<close>

definition isr80h_handle_command ::
  "('k, 'b, 'p) kernel_env \<Rightarrow> isr80h_command option list \<Rightarrow> ('k, 'b, 'p) kernel_system \<Rightarrow> int \<Rightarrow> (('k, 'b, 'p) kernel_system \<times> outcome) option" where
  "isr80h_handle_command E tbl F command =
     (if command < 0 \<or> command \<ge> int PEACHOS_MAX_ISR80H_COMMANDS then Some (F, Inl 0)
      else case tbl ! nat command of None \<Rightarrow> Some (F, Inl 0) | Some c \<Rightarrow> isr80h_call E c F)"

definition isr80h_handler ::
  "('k, 'b, 'p) kernel_env \<Rightarrow> isr80h_command option list \<Rightarrow> ('k, 'b, 'p) kernel_system \<Rightarrow> int \<Rightarrow> registers \<Rightarrow>
   (('k, 'b, 'p) kernel_system \<times> outcome) option" where
  "isr80h_handler E tbl F command frame = do {
     s1 \<leftarrow> task_current_save_state (kernel_page (heap_of F) (env_kernel_desc E)) frame;
     (F2, r) \<leftarrow> isr80h_handle_command E tbl (with_heap F s1) command;
     case r of
       Inr regs \<Rightarrow> Some (F2, Inr regs)
     | Inl res \<Rightarrow> do { (s3, _) \<leftarrow> task_page (heap_of F2); Some (with_heap F2 s3, Inl res) }
   }"

subsection \<open>The table of commands\<close>

definition system_commands :: "isr80h_command list" where
  "system_commands = [Sum, Print, Getkey, Putchar, Malloc, Free, Process_load_start, Invoke_system_command, Get_program_arguments, Exit,
     Fopen, Fclose, Fread, Fseek, Fstat, Realloc, Window_create, Sysout_to_window, Get_window_event, Window_graphics_get,
     Graphics_pixels_get, Window_redraw, Graphics_create, Window_redraw_region, Update_window, Udelay]"

definition commands_to :: "nat \<Rightarrow> isr80h_command option list" where
  "commands_to n = map Some (take n system_commands) @ replicate (1024 - n) None"

lemma register_next:
  assumes "n < 26" "i = int n" "c = system_commands ! n"
  shows "isr80h_register_command (commands_to n) i c = Some (commands_to (Suc n))"
proof -
  have l: "length system_commands = 26" by (simp add: system_commands_def)
  have "replicate (1024 - n) None = (None :: isr80h_command option) # replicate (1024 - Suc n) None"
  proof -
    have "1024 - n = Suc (1024 - Suc n)" using assms(1) by linarith
    then show ?thesis by (simp only: replicate_Suc)
  qed
  moreover have "map Some (take (Suc n) system_commands) = map Some (take n system_commands) @ [Some (system_commands ! n)]"
    using assms(1) l by (simp add: take_Suc_conv_app_nth)
  ultimately show ?thesis
    using assms l by (simp add: isr80h_register_command_def commands_to_def nth_append list_update_append min_def)
qed

lemma system_commands_registered:
  "isr80h_register_commands (replicate 1024 None) = Some (commands_to 26)"
proof -
  have z: "replicate 1024 None = commands_to 0" by (simp add: commands_to_def)
  have n: "commands_to 26 = commands_to (Suc (Suc (Suc (Suc (Suc (Suc (Suc (Suc (Suc (Suc (Suc (Suc (Suc (Suc (Suc (Suc (Suc (Suc (Suc (Suc
      (Suc (Suc (Suc (Suc (Suc (Suc 0))))))))))))))))))))))))))" by (simp add: eval_nat_numeral)
  show ?thesis
    unfolding z n isr80h_register_commands_def by (simp add: register_next system_commands_def)
qed

lemma command_at: "isr80h_handle_command E (commands_to 26) F c =
    (if 0 \<le> c \<and> c < 26 then isr80h_call E (system_commands ! nat c) F else Some (F, Inl 0))"
proof -
  have "length system_commands = 26" by (simp add: system_commands_def)
  then show ?thesis by (auto simp: isr80h_handle_command_def commands_to_def nth_append)
qed

text \<open>
  C24. \<^bold>\<open>The table of system calls.\<close> \<open>isr80h_register_commands\<close> fills an empty table without a panic. Then the numbers from 0 to 25 call the commands in
  their order, and every other number gives 0 and changes nothing.
\<close>

theorem system_call_table:
  "\<exists>tbl. isr80h_register_commands (replicate PEACHOS_MAX_ISR80H_COMMANDS None) = Some tbl \<and>
    (\<forall>E F c. isr80h_handle_command E tbl F c = (if 0 \<le> c \<and> c < 26 then isr80h_call E (system_commands ! nat c) F else Some (F, Inl 0)))"
  using system_commands_registered command_at by blast

subsection \<open>Back to a program\<close>

text \<open>\<open>in_current_task\<close>: the page tables are those of the current task.\<close>

definition in_current_task :: "'s ktask_scheme \<Rightarrow> bool" where
  "in_current_task s \<longleftrightarrow> (\<exists>desc. task_current_paging_desc s = Some desc \<and> current_paging_desc s = Some desc \<and> cr3 s = pml desc)"

lemma task_switch_current:
  assumes "task_switch s t = Some (s', r)"
  shows "in_current_task s'" "current_task s' = t" "tasks s' = tasks s"
  using assms by (auto simp: task_switch_def in_current_task_def task_current_paging_desc_def task_paging_desc_def paging_switch_def bind_eq_Some_conv
      split: if_splits)

lemma task_next_current:
  assumes "task_next now s = Some (s', regs)"
  shows "in_current_task s' \<and> regs = registers (tasks s' (current_task s'))"
  using assms by (auto simp: task_next_def bind_eq_Some_conv dest: task_switch_current)

lemma start_process_current:
  assumes "start_process F p = Some (F', r)"
  shows "in_current_task (heap_of F') \<and> r = Inr (registers (tasks (heap_of F') (current_task (heap_of F'))))"
  using assms by (auto simp: start_process_def Let_def bind_eq_Some_conv task_switch_current split: if_splits dest: task_switch_current)

text \<open>Only four commands can end without a value.\<close>

lemmas value_commands = isr80h_command0_sum_def isr80h_command1_print_def isr80h_command2_getkey_def isr80h_command3_putchar_def
  isr80h_command4_malloc_def isr80h_command5_free_def isr80h_command8_get_program_arguments_def isr80h_command10_fopen_def
  isr80h_command11_fclose_def isr80h_command12_fread_def isr80h_command13_fseek_def isr80h_command14_fstat_def isr80h_command15_realloc_def

lemmas window_commands = isr80h_command16_window_create_def isr80h_command17_sysout_to_window_def isr80h_command18_get_window_event_def
  isr80h_command19_window_graphics_get_def isr80h_command20_graphics_pixels_get_def isr80h_command21_window_redraw_def
  isr80h_command22_graphics_create_def isr80h_command23_window_redraw_region_def isr80h_command24_update_window_def

lemma command_resumes:
  assumes "isr80h_call E c F = Some (F', Inr regs)"
  shows "in_current_task (heap_of F') \<and> regs = registers (tasks (heap_of F') (current_task (heap_of F')))"
proof (cases c)
  case Process_load_start
  then show ?thesis
    using assms by (auto simp: isr80h_command6_process_load_start_def bind_eq_Some_conv split: if_splits dest!: start_process_current)
next
  case Invoke_system_command
  then show ?thesis
    using assms by (auto simp: isr80h_command7_invoke_system_command_def bind_eq_Some_conv split: if_splits dest!: start_process_current)
next
  case Exit
  then show ?thesis
    using assms by (auto simp: isr80h_command9_exit_def bind_eq_Some_conv dest!: task_next_current)
next
  case Udelay
  then show ?thesis
    using assms by (auto simp: on_kernel_def isr80h_command25_udelay_def bind_eq_Some_conv dest!: task_next_current)
qed (use assms in \<open>auto simp: on_kernel_def value_commands window_commands bind_eq_Some_conv Let_def split: if_splits prod.splits\<close>)

text \<open>
  C8. \<^bold>\<open>A system call ends in a task.\<close> Whatever the command was: when the handler gives the processor back, the page tables that are loaded are those of the
  current task's process; and when it does not return to its caller, the processor goes on with the registers saved for the current task.
\<close>

theorem system_call_ends_in_task:
  assumes "isr80h_handler E tbl F command frame = Some (F', r)"
  shows "in_current_task (heap_of F') \<and> (\<forall>regs. r = Inr regs \<longrightarrow> regs = registers (tasks (heap_of F') (current_task (heap_of F'))))"
proof -
  obtain s1 F2 r2 where h: "isr80h_handle_command E tbl (with_heap F s1) command = Some (F2, r2)"
    "(case r2 of Inr regs \<Rightarrow> Some (F2, Inr regs) | Inl res \<Rightarrow> do { (s3, _) \<leftarrow> task_page (heap_of F2); Some (with_heap F2 s3, Inl res) }) = Some (F', r)"
    using assms by (auto simp: isr80h_handler_def bind_eq_Some_conv)
  show ?thesis
  proof (cases r2)
    case (Inl res)
    then show ?thesis using h(2) by (auto simp: bind_eq_Some_conv task_page_def dest: task_switch_current)
  next
    case (Inr regs)
    then have "\<exists>c. isr80h_call E c (with_heap F s1) = Some (F2, Inr regs)"
      using h(1) by (auto simp: isr80h_handle_command_def split: if_splits option.splits)
    then show ?thesis using h(2) Inr by (auto dest: command_resumes)
  qed
qed

subsection \<open>Two calls from beginning to end\<close>

text \<open>\<open>user_word\<close>: the eight bytes at an address of a program.\<close>

definition user_word :: "'s ktask_scheme \<Rightarrow> paging_desc \<Rightarrow> u64 \<Rightarrow> u64 option" where
  "user_word s desc a = do {
     bytes \<leftarrow> those (map (\<lambda>i. virt_load (tables s) desc (kmem s) (a + of_nat i)) [0..<8]);
     Some (word_rcat (rev bytes))
   }"

lemma stack_item_at:
  assumes "current_task s \<noteq> 0" "task_paging_desc s (current_task s) = Some desc"
    and "user_word s desc (rsp (registers (tasks s (current_task s))) + word_of_int (8 * i)) = Some x"
  shows "stack_item E s i = Some (paging_switch s (env_kernel_desc E), x)"
proof -
  have d: "task_paging_desc (paging_switch s d) t = task_paging_desc s t" "tables (paging_switch s d) = tables s"
    "kmem (paging_switch s d) = kmem s" "tasks (paging_switch s d) = tasks s" "paging_switch (paging_switch s d) e = paging_switch s e" for d e t
    by (simp_all add: paging_switch_def task_paging_desc_def)
  show ?thesis
    using assms by (auto simp: stack_item_def task_get_stack_item_def task_page_task_def d user_word_def bind_eq_Some_conv)
qed

text \<open>The state in which a command finds the kernel.\<close>

definition entered :: "('k, 'b, 'p) kernel_env \<Rightarrow> 'k wstate_scheme \<Rightarrow> registers \<Rightarrow> 'k wstate_scheme" where
  "entered E s frame = task_save_state (paging_switch s (env_kernel_desc E)) (current_task s) frame"

lemma entered_facts:
  "current_task (entered E s frame) = current_task s" "tables (entered E s frame) = tables s" "kmem (entered E s frame) = kmem s"
  "processes (entered E s frame) = processes s" "tasks (entered E s frame) = (tasks s)(current_task s := (tasks s (current_task s))\<lparr>registers := frame\<rparr>)"
  "task_paging_desc (entered E s frame) t = task_paging_desc s t" "heap_at (entered E s frame) = heap_at s"
  "kernel_multiheap (entered E s frame) = kernel_multiheap s"
  by (simp_all add: entered_def save_state_frames save_state_facts)
    (simp_all add: task_save_state_def update_task_def paging_switch_def task_paging_desc_def)

lemma entered_word: "user_word (entered E s frame) desc a = user_word s desc a"
  by (simp add: user_word_def entered_facts)

lemma handler_value:
  assumes "current_task (heap_of F) \<noteq> 0" "isr80h_handle_command E tbl (with_heap F (entered E (heap_of F) frame)) c = Some (F2, Inl x)"
    and "task_paging_desc (heap_of F2) (current_task (heap_of F2)) = Some desc"
  shows "isr80h_handler E tbl F c frame = Some (with_heap F2 (paging_switch (heap_of F2) desc), Inl x)"
proof -
  have "task_current_save_state (kernel_page (heap_of F) (env_kernel_desc E)) frame = Some (entered E (heap_of F) frame)"
    using assms(1) by (simp add: task_current_save_state_def kernel_page_def entered_def paging_switch_def)
  moreover have "paging_switch (heap_of F2 \<lparr>current_task := current_task (heap_of F2)\<rparr>) desc = paging_switch (heap_of F2) desc" by simp
  ultimately show ?thesis using assms(2,3) by (simp add: isr80h_handler_def task_page_def task_switch_def)
qed

text \<open>
  C25. \<^bold>\<open>Adding through a system call.\<close> A program that puts two numbers on its stack and calls command 0 gets their sum, and the kernel's state is as it was but
  for the registers it saved and the page tables, which are the program's again.
\<close>

theorem system_call_sum:
  assumes "current_task (heap_of F) \<noteq> 0" "task_paging_desc (heap_of F) (current_task (heap_of F)) = Some desc"
    and "user_word (heap_of F) desc (rsp frame) = Some v1" "user_word (heap_of F) desc (rsp frame + 8) = Some v2"
  shows "isr80h_handler E (commands_to 26) F 0 frame =
    Some (with_heap F (paging_switch (task_save_state (heap_of F) (current_task (heap_of F)) frame) desc), Inl (v1 + v2))"
proof -
  let ?s = "entered E (heap_of F) frame"
  have p: "task_paging_desc (paging_switch s d) t = task_paging_desc s t" "user_word (paging_switch s d) e a = user_word s e a"
    "tasks (paging_switch s d) = tasks s" "current_task (paging_switch s d) = current_task s" for d e t a and s :: "'x wstate_scheme"
    by (simp_all add: paging_switch_def task_paging_desc_def user_word_def)
  let ?k = "paging_switch ?s (env_kernel_desc E)"
  have "stack_item E ?s 1 = Some (?k, v2)" by (rule stack_item_at) (use assms in \<open>simp_all add: entered_facts entered_word\<close>)
  moreover have "stack_item E ?k 0 = Some (?k, v1)"
  proof -
    have "paging_switch ?k (env_kernel_desc E) = ?k" by (simp add: paging_switch_def)
    then show ?thesis using stack_item_at [of ?k desc 0 v1 E] assms by (simp add: p entered_facts entered_word)
  qed
  ultimately have c: "isr80h_handle_command E (commands_to 26) (with_heap F ?s) 0 = Some (with_heap F ?k, Inl (v1 + v2))"
    by (simp add: command_at system_commands_def on_kernel_def isr80h_command0_sum_def)
  have s: "paging_switch ?k desc = paging_switch (task_save_state (heap_of F) (current_task (heap_of F)) frame) desc"
    by (simp add: entered_def paging_switch_def task_save_state_def update_task_def)
  have "isr80h_handler E (commands_to 26) F 0 frame = Some (with_heap (with_heap F ?k) (paging_switch (heap_of (with_heap F ?k)) desc), Inl (v1 + v2))"
    by (rule handler_value [OF assms(1) c]) (use assms(2) in \<open>simp add: p entered_facts\<close>)
  then show ?thesis by (simp add: s)
qed

lemma malloc_keeps_tasks:
  fixes s :: "'s pstate_scheme"
  assumes "process_malloc s p n = Some (s', ptr)"
  shows "tasks s' = tasks s \<and> current_task s' = current_task s"
proof -
  have st: "tasks s' = tasks s \<and> current_task s' = current_task s" if "heap_step s s'" for s s' :: "'s pstate_scheme"
    using that by (auto simp: heap_step_def)
  have fi: "tasks s' = tasks s \<and> current_task s' = current_task s" if "process_find_free_allocation_index s p = Some (s', i)" for s s' :: "'s pstate_scheme" and i
    using that by (auto simp: process_find_free_allocation_index_def set_allocations_def update_process_def bind_eq_Some_conv split: option.splits
        dest!: tvec_push_step st)
  have sm: "tasks s' = tasks s \<and> current_task s' = current_task s" if "process_allocation_set_map s p i a n = Some (s', r)" for s s' :: "'s pstate_scheme" and i a r
    using set_map_cases [OF that] by (auto simp: set_allocations_def update_process_def dest: st)
  show ?thesis
    using assms by (auto simp: process_malloc_def kfree_def bind_eq_Some_conv split: if_splits dest!: kzalloc_step st fi sm)
qed

text \<open>
  C6. \<^bold>\<open>Memory through a system call.\<close> A program that calls command 4 with at most a page's size on its stack gets a new page: the address is returned, the program's page
  tables are loaded and translate that page to itself, writable from user mode, every other address as before, the table of allocations records it, and the registers of the
  call are saved. That takes free pages, and a table of allocations with a null entry or with room for one more: the table of a program that has allocated nothing, one with a place left, or one
  that still fits in its page.
\<close>

theorem system_call_malloc_maps_page:
  assumes "current_task (heap_of F) \<noteq> 0" "p = task_process (tasks (heap_of F) (current_task (heap_of F)))"
    and "process_memory (heap_of F) p desc v" "pages_needed v \<le> free_pages (heap_of F)" "table_ready (heap_of F) v"
    and "user_word (heap_of F) desc (rsp frame) = Some n" "0 < unat n" "unat n \<le> 4096"
  shows "\<exists>F' ptr v'. isr80h_handler E (commands_to 26) F 4 frame = Some (F', Inl ptr) \<and> ptr \<noteq> 0 \<and> ptr \<notin> live_pages (heap_of F) \<and> ptr mod 4096 = 0 \<and>
    cr3 (heap_of F') = pml desc \<and> registers (tasks (heap_of F') (current_task (heap_of F))) = frame \<and>
    allocations (processes (heap_of F') p) = Some v' \<and> tv_items v' = recorded \<lparr>alloc_ptr = ptr, alloc_end = ptr + n, alloc_size = n\<rparr> (tv_items v) \<and>
    (\<forall>x. mmu_translate (tables (heap_of F')) (pml desc) x =
       (if same_page x ptr then Some (ptr + (x AND 0xFFF), True, True) else mmu_translate (tables (heap_of F)) (pml desc) x))"
proof -
  let ?s = "heap_of F" and ?e = "entered E (heap_of F) frame"
  let ?k = "paging_switch ?e (env_kernel_desc E)"
  have pd: "task_paging_desc ?s (current_task ?s) = Some desc"
    using assms(1-3) by (simp add: task_paging_desc_def process_memory_def)
  have it: "stack_item E ?e 0 = Some (?k, n)"
    by (rule stack_item_at) (use assms(1,6) pd in \<open>simp_all add: entered_facts entered_word\<close>)
  have f: "tables ?k = tables ?s" "processes ?k = processes ?s" "current_task ?k = current_task ?s" "heap_at ?k = heap_at ?s"
    "kernel_multiheap ?k = kernel_multiheap ?s" "task_process (tasks ?k t) = task_process (tasks ?s t)"
    "registers (tasks ?k (current_task ?s)) = frame" for t
    by (simp_all add: paging_switch_def entered_facts)
  have lp: "live_pages ?k = live_pages ?s" "free_pages ?k = free_pages ?s" "kernel_inv ?k = kernel_inv ?s"
    by (simp_all add: live_pages_def free_pages_def kernel_inv_def heap_list_def f)
  have mem: "process_memory ?k p desc v" using assms(3) by (simp add: process_memory_def f lp)
  have room: "pages_needed v \<le> free_pages ?k" using assms(4) by (simp add: lp)
  have pb: "page_block ?k = page_block ?s" "physical_pools ?k = physical_pools ?s"
    by (simp_all add: fun_eq_iff page_block_def physical_pools_def heap_list_def f)
  have ready: "table_ready ?k v" using assms(5) unfolding table_ready_def push_ready_def pb .
  obtain s' ptr v' where m: "process_malloc ?k p n = Some (s', ptr)" "ptr \<noteq> 0" "ptr \<notin> live_pages ?k" "ptr mod 4096 = 0"
    "process_memory s' p desc v'" "tv_items v' = recorded \<lparr>alloc_ptr = ptr, alloc_end = ptr + n, alloc_size = n\<rparr> (tv_items v)"
    "\<forall>x. mmu_translate (tables s') (pml desc) x =
       (if same_page x ptr then Some (ptr + (x AND 0xFFF), True, True) else mmu_translate (tables ?k) (pml desc) x)"
    using process_malloc_step [OF mem room ready assms(7,8)] by (elim exE conjE) (rule that; assumption)
  have ts: "tasks s' = tasks ?k" "current_task s' = current_task ?s" using malloc_keeps_tasks [OF m(1)] f(3) by simp_all
  have "current_process_of ?k = p" using assms(2) by (simp add: current_process_of_def f)
  then have c: "isr80h_handle_command E (commands_to 26) (with_heap F ?e) 4 = Some (with_heap F s', Inl ptr)"
    using it m(1) by (simp add: command_at system_commands_def on_kernel_def isr80h_command4_malloc_def)
  have d: "task_paging_desc (heap_of (with_heap F s')) (current_task (heap_of (with_heap F s'))) = Some desc"
    using m(5) assms(1,2) by (simp add: task_paging_desc_def ts f process_memory_def)
  have "isr80h_handler E (commands_to 26) F 4 frame = Some (with_heap (with_heap F s') (paging_switch (heap_of (with_heap F s')) desc), Inl ptr)"
    by (rule handler_value [OF assms(1) c d])
  moreover have "allocations (processes s' p) = Some v'" using m(5) by (simp add: process_memory_def)
  ultimately show ?thesis
    using m(2-4,6,7) f lp ts by (intro exI conjI) (auto simp: paging_switch_def)
qed

subsection \<open>A program on a small desktop\<close>

text \<open>One process with the page tables at \<open>0x1000\<close>, the memory \<open>m\<close> and an empty table of allocations with room for more.\<close>

definition calling_process :: process where
  "calling_process = null_process\<lparr>process_paging_desc := Some \<lparr>pml = 0x1000, level = 4\<rparr>,
     allocations := Some (vector_of 24 [])\<rparr>"

definition calling_desktop :: wstate where
  "calling_desktop = small_desktop\<lparr>processes := (\<lambda>_. calling_process), tables := tables kernel8\<rparr>"

definition one_system :: "wstate \<Rightarrow> (unit, unit, nat) kernel_system" where
  "one_system s = \<lparr>disks = \<lparr>heap_state = s, disk_vector = [], primary_fs_disk = None, disk_driver_vec = []\<rparr>,
     filesystems = replicate 12 None, file_descriptors = replicate 512 None\<rparr>"

definition sample_env :: "(unit, unit, nat) kernel_env" where
  "sample_env = \<lparr>env_kernel_desc = \<lparr>pml = 0xF000, level = 4\<rparr>, env_allocator = (\<lambda>s n. (s, True)),
     env_filesystems = (\<lambda>_. \<lparr>fs_resolve_fn = (\<lambda>d i. Some (d, - 1)), fs_open = (\<lambda>d i path m. Some (d, Inl (- 1))),
       fs_read = (\<lambda>d i q n k buf. Some (d, q, 0, buf)), fs_seek = (\<lambda>q a b. Some (q, 0)), fs_stat = (\<lambda>q st. Some (st, 0)), fs_close = (\<lambda>q. Some 0)\<rparr>),
     env_e820 = [], env_events = (\<lambda>_. null_event), env_calls = (\<lambda>_ s _ _. Some s),
     env_handlers = \<lparr>wh_title_bar_clicked = 1, wh_title_bar_mouse_moved = 2, wh_event_handler = 3\<rparr>,
     env_process_handler = 4, env_now = (\<lambda>_. 0), env_buffer = 0xE000\<rparr>"

lemma one_system_simps [simp]: "heap_of (one_system s) = s" "with_heap (one_system s) s' = one_system s'"
  by (simp_all add: one_system_def with_heap_def)

lemma calling_desktop_simps:
  "current_task calling_desktop = 0x2000" "task_process (tasks calling_desktop t) = 0x9000"
  "processes calling_desktop p = calling_process" "tables calling_desktop = tables kernel8"
  "kernel_inv calling_desktop" "free_pages calling_desktop = free_pages kernel8" "live_pages calling_desktop = live_pages kernel8"
proof -
  have small: "current_task small_desktop = 0x2000" "task_process (tasks small_desktop t) = 0x9000" "heap_at small_desktop = heap_at kernel8"
    "kernel_multiheap small_desktop = kernel_multiheap kernel8"
    by (simp_all add: small_desktop_def small_terminal_def small_screen_def bmp_state_def typed_process_def one_process_def
        pstate.defs kbstate.defs istate.defs gstate.defs tstate.defs wstate.defs)
  show "current_task calling_desktop = 0x2000" "task_process (tasks calling_desktop t) = 0x9000"
    "processes calling_desktop p = calling_process" "tables calling_desktop = tables kernel8"
    "kernel_inv calling_desktop" "free_pages calling_desktop = free_pages kernel8" "live_pages calling_desktop = live_pages kernel8"
    using kernel8_inv by (simp_all add: calling_desktop_def small kernel_inv_def free_pages_def live_pages_def heap_list_def)
qed

lemma calling_memory:
  "process_memory calling_desktop 0x9000 \<lparr>pml = 0x1000, level = 4\<rparr> (vector_of 24 [])"
  using kernel8_tree vector_of_ok(1) [of "[] :: process_allocation list" 24]
  by (simp add: process_memory_def calling_desktop_simps calling_process_def)

lemma page_word:
  fixes ptr :: u64
  assumes "ptr mod 4096 = 0" "k < 4096"
  shows "same_page (ptr + of_nat k) ptr" "(ptr + of_nat k) AND 0xFFF = of_nat k"
proof -
  define q where "q = unat ptr div 4096"
  have "unat (ptr mod 4096) = 0" using assms(1) by simp
  then have "unat ptr mod 4096 = 0" by (simp add: unat_mod)
  then have q: "unat ptr = 4096 * q" using mult_div_mod_eq [of 4096 "unat ptr"] by (simp add: q_def)
  have "unat ptr < 2 ^ 64" by (rule order.strict_trans2 [OF unsigned_less]) simp
  then have u: "unat (ptr + of_nat k) = 4096 * q + k" using q assms(2) by (simp add: unat_word_ariths unat_of_nat take_bit_nat_def)
  have d: "a mod (4096 * 2 ^ 36) div 4096 = a div 4096 mod 2 ^ 36" for a :: nat by (subst mod_mult2_eq) simp
  have "(4096 * q + k) mod (4096 * 2 ^ 36) div 4096 = (4096 * q) mod (4096 * 2 ^ 36) div 4096" unfolding d using assms(2) by simp
  moreover have "(2 :: nat) ^ 48 = 4096 * 2 ^ 36" by simp
  ultimately have "(4096 * q + k) mod 2 ^ 48 div 4096 = (4096 * q) mod 2 ^ 48 div 4096" by (simp only:)
  then show "same_page (ptr + of_nat k) ptr" unfolding same_page_unat u q .
  have "(ptr + of_nat k) AND mask 12 = (ptr + of_nat k) mod 2 ^ 12" by (simp only: take_bit_eq_mask [symmetric] take_bit_eq_mod)
  moreover have "mask 12 = (0xFFF :: u64)" by (simp add: mask_eq_exp_minus_1)
  ultimately have "unat ((ptr + of_nat k) AND 0xFFF) = (4096 * q + k) mod 4096" by (simp add: unat_mod u)
  then have "unat ((ptr + of_nat k) AND 0xFFF) = k" using assms(2) by simp
  moreover have "unat (of_nat k :: u64) = k" using assms(2) by (simp add: unat_of_nat take_bit_nat_def)
  ultimately show "(ptr + of_nat k) AND 0xFFF = of_nat k" by (simp add: word_unat_eq_iff)
qed

lemma user_word_at_page:
  assumes "ptr mod 4096 = 0"
    and "\<And>x. same_page x ptr \<Longrightarrow> mmu_translate (tables s) (pml desc) x = Some (ptr + (x AND 0xFFF), True, True)"
    and "\<And>i. i < 8 \<Longrightarrow> kmem s (ptr + of_nat i) = (if i = 0 then 100 else 0)"
  shows "user_word s desc ptr = Some 100"
proof -
  have "virt_load (tables s) desc (kmem s) (ptr + of_nat i) = Some (if i = 0 then 100 else 0)" if "i < 8" for i
    using assms(2) [OF page_word(1) [OF assms(1), of i]] page_word(2) [OF assms(1), of i] assms(3) [OF that] that
    by (simp add: virt_load_def)
  from this [of 0] this [of 1] this [of 2] this [of 3] this [of 4] this [of 5] this [of 6] this [of 7]
  have "map (\<lambda>i. virt_load (tables s) desc (kmem s) (ptr + of_nat i)) [0..<8] = [Some 100, Some 0, Some 0, Some 0, Some 0, Some 0, Some 0, Some 0]"
    by (simp add: upt_rec)
  then show ?thesis unfolding user_word_def by (simp only:) (simp add: word_rcat_def)
qed

theorem system_call_malloc_maps_page_witness:
  "\<exists>s F' a ptr. isr80h_handler sample_env (commands_to 26) (one_system s) 4 (null_registers\<lparr>rsp := a\<rparr>) = Some (F', Inl ptr) \<and>
     mmu_translate (tables (heap_of F')) 0x1000 ptr = Some (ptr, True, True)"
proof -
  let ?d = "\<lparr>pml = 0x1000, level = 4\<rparr>" and ?v = "vector_of 24 []"
  let ?a = "0x5000000 :: u64"
  have n: "0 < unat (100 :: u64)" "unat (100 :: u64) \<le> 4096" "?a mod 4096 = 0" "?a < 2 ^ 52" by (simp_all add: word_less_nat_alt)
  have mem0: "kernel_inv calling_desktop" "pt_tree (tables calling_desktop) (pml ?d) (live_pages calling_desktop)" "3 \<le> free_pages calling_desktop"
    using calling_memory by (simp_all add: process_memory_def calling_desktop_simps kernel8_pages(1))
  obtain s where m: "heap_step calling_desktop s" "kernel_inv s" "pt_tree (tables s) (pml ?d) (live_pages s)" "free_pages calling_desktop \<le> free_pages s + 3"
    "\<And>x. mmu_translate (tables s) (pml ?d) x =
       (if same_page x ?a then Some (?a + (x AND 0xFFF), True, True) else mmu_translate (tables calling_desktop) (pml ?d) x)"
    using map_own_page [OF mem0 n(3,4), of "PAGING_IS_WRITEABLE OR PAGING_IS_PRESENT OR PAGING_ACCESS_FROM_ALL"] by auto
  have ts: "tasks s = tasks calling_desktop" "current_task s = current_task calling_desktop" "processes s = processes calling_desktop"
    using m(1) by (auto simp: heap_step_def)
  let ?s = "s\<lparr>kmem := (\<lambda>x. if x = ?a then 100 else 0)\<rparr>"
  have k: "kernel_inv ?s = kernel_inv s" "live_pages ?s = live_pages s" "free_pages ?s = free_pages s"
    by (simp_all add: kernel_inv_def live_pages_def free_pages_def heap_list_def)
  have mem: "process_memory ?s 0x9000 ?d ?v" using calling_memory m(2,3) unfolding process_memory_def k by (simp add: ts)
  have i1: "table_ready ?s ?v" by (simp add: table_ready_def push_ready_def vector_of_def)
  have room: "pages_needed ?v \<le> free_pages ?s"
    using m(4) unfolding k by (simp add: calling_desktop_simps kernel8_pages(1) pages_needed_def vector_of_header)
  have w: "user_word ?s ?d ?a = Some 100"
  proof (rule user_word_at_page [OF n(3)])
    show "kmem ?s (?a + of_nat i) = (if i = 0 then 100 else 0)" if "i < 8" for i
    proof -
      have "(of_nat i :: u64) = 0 \<longleftrightarrow> i = 0" using that by (simp add: word_unat_eq_iff unat_of_nat take_bit_nat_def)
      then show ?thesis by simp
    qed
  qed (use m(5) in simp)
  have t: "current_task ?s \<noteq> 0" "0x9000 = task_process (tasks ?s (current_task ?s))" by (simp_all add: ts calling_desktop_simps)
  have w': "user_word ?s ?d (rsp (null_registers\<lparr>rsp := ?a\<rparr>)) = Some 100" using w by simp
  obtain F' ptr where r: "isr80h_handler sample_env (commands_to 26) (one_system ?s) 4 (null_registers\<lparr>rsp := ?a\<rparr>) = Some (F', Inl ptr)"
    "ptr mod 4096 = 0" "\<forall>x. mmu_translate (tables (heap_of F')) (pml ?d) x =
       (if same_page x ptr then Some (ptr + (x AND 0xFFF), True, True) else mmu_translate (tables ?s) (pml ?d) x)"
    using system_call_malloc_maps_page [of "one_system ?s", unfolded one_system_simps, OF t mem room i1 w' n(1,2), of sample_env]
    by (elim exE conjE) (rule that; assumption)
  have "mmu_translate (tables (heap_of F')) 0x1000 ptr = Some (ptr, True, True)"
    using r(3) [rule_format, of ptr] page_offset [OF r(2)] by simp
  then show ?thesis using r(1) by blast
qed

theorem system_call_sum_witness:
  "isr80h_handler sample_env (commands_to 26) (one_system (calling_desktop\<lparr>tables := one_frame,
     kmem := (\<lambda>a. if a = 0x500000 then 5 else if a = 0x500008 then 7 else 0)\<rparr>)) 0 (null_registers\<lparr>rsp := 0x500000\<rparr>) =
   Some (one_system (paging_switch (task_save_state (calling_desktop\<lparr>tables := one_frame,
     kmem := (\<lambda>a. if a = 0x500000 then 5 else if a = 0x500008 then 7 else 0)\<rparr>) 0x2000 (null_registers\<lparr>rsp := 0x500000\<rparr>)) \<lparr>pml = 0x1000, level = 4\<rparr>), Inl 12)"
proof -
  let ?s = "calling_desktop\<lparr>tables := one_frame, kmem := (\<lambda>a. if a = 0x500000 then 5 else if a = 0x500008 then 7 else 0)\<rparr>"
  let ?d = "\<lparr>pml = 0x1000, level = 4\<rparr>"
  have b: "entry_base (one_frame 0x1000 i) = 0x2000" "entry_base (one_frame 0x2000 i) = 0x3000"
    "entry_base (one_frame 0x3000 i) = 0x4000" "entry_base (one_frame 0x4000 i) = 0x500000" "present (one_frame t i)" for t i
    by (simp_all add: entry_base_def one_frame_def push_bit_eq_mult)
  have m: "\<exists>w u. mmu_translate one_frame 0x1000 va = Some (0x500000 + (va AND 0xFFF), w, u)" for va
    by (simp add: mmu_translate_def walk_indices_def b Let_def)
  have l: "virt_load one_frame ?d mm va = Some (mm (0x500000 + (va AND 0xFFF)))" for mm va
    using m [of va] by (auto simp: virt_load_def)
  have "user_word ?s ?d 0x500000 = Some 5" "user_word ?s ?d 0x500008 = Some 7"
    by (simp_all add: user_word_def l upt_rec word_rcat_def)
  moreover have "task_paging_desc ?s 0x2000 = Some ?d"
    by (simp add: task_paging_desc_def calling_desktop_simps calling_process_def)
  ultimately show ?thesis
    using system_call_sum [of "one_system ?s" ?d "null_registers\<lparr>rsp := 0x500000\<rparr>" 5 7 sample_env] by (simp add: calling_desktop_simps)
qed

theorem system_call_ends_in_task_witness:
  "\<exists>F'. isr80h_handler sample_env (commands_to 26) (one_system calling_desktop) 100 null_registers = Some (F', Inl 0) \<and> in_current_task (heap_of F')"
proof -
  have c: "isr80h_handle_command sample_env (commands_to 26) (with_heap (one_system calling_desktop) (entered sample_env calling_desktop null_registers)) 100 =
      Some (one_system (entered sample_env calling_desktop null_registers), Inl 0)"
    by (simp add: command_at)
  have "isr80h_handler sample_env (commands_to 26) (one_system calling_desktop) 100 null_registers =
      Some (with_heap (one_system (entered sample_env calling_desktop null_registers))
        (paging_switch (heap_of (one_system (entered sample_env calling_desktop null_registers))) \<lparr>pml = 0x1000, level = 4\<rparr>), Inl 0)"
    by (rule handler_value) (use c in \<open>simp_all add: entered_facts calling_desktop_simps task_paging_desc_def calling_process_def\<close>)
  then show ?thesis using system_call_ends_in_task by blast
qed

end
