(* ===== verification/Mouse.thy ===== *)
theory Mouse
  imports Interrupt
begin

section \<open>Mice: mouse.c and ps2mouse.c\<close>

text \<open>
  The mice are a state beside that of the kernel: the structures by address, the vector of the drivers, and the static variables of the PS/2 mouse. Handlers,
  initialisation and drawing are called by address. The handlers that the sources register, in window.c and graphics.c, work on windows and rectangles only; a
  handler here changes the kernel's state and not the mice.
\<close>

abbreviation (input) MOUSE_GRAPHIC_DEFAULT_WIDTH :: int where "MOUSE_GRAPHIC_DEFAULT_WIDTH \<equiv> 10"
abbreviation (input) MOUSE_GRAPHIC_DEFAULT_HEIGHT :: int where "MOUSE_GRAPHIC_DEFAULT_HEIGHT \<equiv> 10"
abbreviation (input) MOUSE_GRAPHIC_ZINDEX :: int where "MOUSE_GRAPHIC_ZINDEX \<equiv> 100000"
abbreviation (input) MOUSE_NO_CLICK :: int where "MOUSE_NO_CLICK \<equiv> 0"
abbreviation (input) MOUSE_LEFT_BUTTON_CLICKED :: int where "MOUSE_LEFT_BUTTON_CLICKED \<equiv> 1"
abbreviation (input) MOUSE_RIGHT_BUTTON_CLICKED :: int where "MOUSE_RIGHT_BUTTON_CLICKED \<equiv> 2"
abbreviation (input) ISR_MOUSE_INTERRUPT :: int where "ISR_MOUSE_INTERRUPT \<equiv> 0x2c"
abbreviation (input) IRQ_PS2_MOUSE :: int where "IRQ_PS2_MOUSE \<equiv> 12"
abbreviation (input) PS2_COMMUNICATION_PORT :: u16 where "PS2_COMMUNICATION_PORT \<equiv> 0x60"
abbreviation (input) PS2_STATUS_PORT :: u16 where "PS2_STATUS_PORT \<equiv> 0x64"

record mouse =
  mouse_init_function :: u64
  mouse_draw_function :: u64
  coords_x :: int
  coords_y :: int
  graphic_window :: u64
  graphic_width :: int
  graphic_height :: int
  click_handlers :: "u64 tvec option"
  move_handlers :: "u64 tvec option"

record mice =
  mouse_at :: "u64 \<Rightarrow> mouse"
  mouse_driver_vector :: "u64 tvec option"
  ps2_packet :: "u8 list"
  packet_byte_count :: int
  ps2_device_id :: u8
  mouse_packet_size :: int

record 's mouse_calls =
  call_init :: "u64 \<Rightarrow> 's \<Rightarrow> mice \<Rightarrow> u64 \<Rightarrow> ('s \<times> mice \<times> int) option"
  call_draw :: "u64 \<Rightarrow> 's \<Rightarrow> mouse \<Rightarrow> 's option"
  call_click :: "u64 \<Rightarrow> 's \<Rightarrow> mouse \<Rightarrow> int \<Rightarrow> int \<Rightarrow> int \<Rightarrow> 's option"
  call_move :: "u64 \<Rightarrow> 's \<Rightarrow> mouse \<Rightarrow> int \<Rightarrow> int \<Rightarrow> 's option"
  default_draw :: u64

definition update_mouse :: "mice \<Rightarrow> u64 \<Rightarrow> (mouse \<Rightarrow> mouse) \<Rightarrow> mice" where
  "update_mouse M m f = M\<lparr>mouse_at := (mouse_at M)(m := f (mouse_at M m))\<rparr>"

subsection \<open>Drivers\<close>

definition mouse_system_init :: "'s wstate_scheme \<Rightarrow> mice \<Rightarrow> ('s wstate_scheme \<times> mice \<times> int) option" where
  "mouse_system_init s M = do {
     (s1, v) \<leftarrow> tvec_new s 8 4;
     Some (s1, M\<lparr>mouse_driver_vector := v\<rparr>, if v = None then - ENOMEM else 0)
   }"

definition mouse_draw_default_impl :: "'s wstate_scheme \<Rightarrow> mouse \<Rightarrow> 's wstate_scheme option" where
  "mouse_draw_default_impl s m = do {
     let win_term = body_terminal (kwindow_at s (graphic_window m));
     let t = terminal_at s win_term;
     (s1, _) \<leftarrow> terminal_draw_rect s win_term 0 0 (bounds_width t) (bounds_height t) (black\<lparr>red := 0xf3\<rparr>);
     Some s1
   }"

definition mouse_draw :: "'s wstate_scheme mouse_calls \<Rightarrow> 's wstate_scheme \<Rightarrow> mice \<Rightarrow> u64 \<Rightarrow> 's wstate_scheme option" where
  "mouse_draw fns s M m = call_draw fns (mouse_draw_function (mouse_at M m)) s (mouse_at M m)"

text \<open>The window of a mouse is made when it has none, and drawn above everything; that it could not be made is not tested.\<close>

definition mouse_register ::
  "'s wstate_scheme mouse_calls \<Rightarrow> 's wstate_scheme event_calls \<Rightarrow> window_handlers \<Rightarrow> 's wstate_scheme \<Rightarrow> mice \<Rightarrow> u64 \<Rightarrow>
   ('s wstate_scheme \<times> mice \<times> int) option" where
  "mouse_register fns call hs s M m =
     (if mouse_driver_vector M = None then None
      else if m = 0 then Some (s, M, - EINVARG)
      else do {
        (s1, cv) \<leftarrow> tvec_new s 8 4;
        let M1 = update_mouse M m (\<lambda>k. k\<lparr>click_handlers := cv\<rparr>);
        if cv = None then Some (s1, M1, - ENOMEM)
        else do {
          (s2, mv) \<leftarrow> tvec_new s1 8 4;
          let M2 = update_mouse M1 m (\<lambda>k. k\<lparr>move_handlers := mv\<rparr>);
          if mv = None then Some (s2, M2, - ENOMEM)
          else do {
            (s3, M3, res) \<leftarrow> call_init fns (mouse_init_function (mouse_at M2 m)) s2 M2 m;
            if res < 0 then Some (s3, M3, res)
            else do {
              let scr = graphics_at s3 (graphics_screen_info s3);
              let M4 = update_mouse M3 m (\<lambda>k. k\<lparr>coords_x := sint (gi_width scr div 2), coords_y := sint (gi_height scr div 2)\<rparr>);
              let M5 = (if mouse_draw_function (mouse_at M4 m) = 0
                then update_mouse M4 m (\<lambda>k. k\<lparr>mouse_draw_function := default_draw fns, graphic_width := MOUSE_GRAPHIC_DEFAULT_WIDTH,
                       graphic_height := MOUSE_GRAPHIC_DEFAULT_HEIGHT\<rparr>) else M4);
              let k = mouse_at M5 m;
              if graphic_width k \<le> 0 \<or> graphic_height k \<le> 0 then Some (s3, M5, - EINVARG)
              else do {
                (s6, M6) \<leftarrow> (if graphic_window k = 0
                  then do {
                    (s', w) \<leftarrow> window_create call hs s3 (graphics_screen_info s3) 0 [0] (word_of_int (coords_x k)) (word_of_int (coords_y k))
                       (word_of_int (graphic_width k)) (word_of_int (graphic_height k))
                       (WINDOW_FLAG_BACKGROUND_TRANSPARENT OR WINDOW_FLAG_BORDERLESS OR WINDOW_FLAG_CLICK_THROUGH) (- 1);
                    s'' \<leftarrow> window_set_z_index s' w MOUSE_GRAPHIC_ZINDEX;
                    Some (s'', update_mouse M5 m (\<lambda>k. k\<lparr>graphic_window := w\<rparr>))
                  } else Some (s3, M5));
                s7 \<leftarrow> mouse_draw fns s6 M6 m;
                v \<leftarrow> mouse_driver_vector M6;
                (s8, v', _) \<leftarrow> tvec_push s7 v m;
                Some (s8, M6\<lparr>mouse_driver_vector := Some v'\<rparr>, res)
              }
            }
          }
        }
      })"

definition mouse_system_load_static_drivers ::
  "'s wstate_scheme mouse_calls \<Rightarrow> 's wstate_scheme event_calls \<Rightarrow> window_handlers \<Rightarrow> u64 \<Rightarrow> 's wstate_scheme \<Rightarrow> mice \<Rightarrow>
   ('s wstate_scheme \<times> mice \<times> int) option" where
  "mouse_system_load_static_drivers fns call hs ps2_mouse s M = mouse_register fns call hs s M ps2_mouse"

subsection \<open>Position and events\<close>

definition mouse_position_set :: "'s wstate_scheme \<Rightarrow> mice \<Rightarrow> u64 \<Rightarrow> u64 \<Rightarrow> u64 \<Rightarrow> ('s wstate_scheme \<times> mice) option" where
  "mouse_position_set s M m x y = do {
     let M1 = update_mouse M m (\<lambda>k. k\<lparr>coords_x := sint (ucast x :: u32), coords_y := sint (ucast y :: u32)\<rparr>);
     (s1, _) \<leftarrow> window_position_set s (graphic_window (mouse_at M1 m)) x y;
     Some (s1, M1)
   }"

primrec handlers_loop :: "(u64 \<Rightarrow> 's \<Rightarrow> 's option) \<Rightarrow> u64 list \<Rightarrow> 's \<Rightarrow> 's option" where
  "handlers_loop call [] s = Some s"
| "handlers_loop call (h # hs) s = do { s1 \<leftarrow> (if h \<noteq> 0 then call h s else Some s); handlers_loop call hs s1 }"

definition mouse_click :: "'s wstate_scheme mouse_calls \<Rightarrow> 's wstate_scheme \<Rightarrow> mouse \<Rightarrow> int \<Rightarrow> 's wstate_scheme option" where
  "mouse_click fns s k type = do {
     v \<leftarrow> click_handlers k;
     hs \<leftarrow> tvec_items v;
     handlers_loop (\<lambda>h s. call_click fns h s k (coords_x k) (coords_y k) type) hs s
   }"

definition mouse_moved :: "'s wstate_scheme mouse_calls \<Rightarrow> 's wstate_scheme \<Rightarrow> mouse \<Rightarrow> 's wstate_scheme option" where
  "mouse_moved fns s k = do {
     v \<leftarrow> move_handlers k;
     hs \<leftarrow> tvec_items v;
     handlers_loop (\<lambda>h s. call_move fns h s k (coords_x k) (coords_y k)) hs s
   }"

subsection \<open>Registering handlers\<close>

text \<open>The four functions work on one mouse, or on every mouse when the pointer is null; without a driver they panic. \<open>on_mice\<close> is what they share.\<close>

primrec mice_loop ::
  "('s wstate_scheme \<Rightarrow> mice \<Rightarrow> u64 \<Rightarrow> ('s wstate_scheme \<times> mice) option) \<Rightarrow> u64 list \<Rightarrow> 's wstate_scheme \<Rightarrow> mice \<Rightarrow> ('s wstate_scheme \<times> mice) option" where
  "mice_loop f [] s M = Some (s, M)"
| "mice_loop f (m # ms) s M = do { (s1, M1) \<leftarrow> (if m \<noteq> 0 then f s M m else Some (s, M)); mice_loop f ms s1 M1 }"

definition on_mice ::
  "('s wstate_scheme \<Rightarrow> mice \<Rightarrow> u64 \<Rightarrow> ('s wstate_scheme \<times> mice) option) \<Rightarrow> 's wstate_scheme \<Rightarrow> mice \<Rightarrow> u64 \<Rightarrow> ('s wstate_scheme \<times> mice) option" where
  "on_mice f s M m =
     (if m \<noteq> 0 then f s M m
      else do {
        v \<leftarrow> mouse_driver_vector M;
        ms \<leftarrow> tvec_items v;
        if ms = [] then None else mice_loop f ms s M
      })"

definition mouse_unregister_move_handler :: "'s wstate_scheme \<Rightarrow> mice \<Rightarrow> u64 \<Rightarrow> u64 \<Rightarrow> ('s wstate_scheme \<times> mice) option" where
  "mouse_unregister_move_handler s M m move_handler = on_mice (\<lambda>s M m. do {
     v \<leftarrow> move_handlers (mouse_at M m);
     (s1, v', _) \<leftarrow> tvec_pop_element s v move_handler;
     Some (s1, update_mouse M m (\<lambda>k. k\<lparr>move_handlers := Some v'\<rparr>))
   }) s M m"

definition mouse_unregister_click_handler :: "'s wstate_scheme \<Rightarrow> mice \<Rightarrow> u64 \<Rightarrow> u64 \<Rightarrow> ('s wstate_scheme \<times> mice) option" where
  "mouse_unregister_click_handler s M m click_handler = on_mice (\<lambda>s M m. do {
     v \<leftarrow> click_handlers (mouse_at M m);
     (s1, v', _) \<leftarrow> tvec_pop_element s v click_handler;
     Some (s1, update_mouse M m (\<lambda>k. k\<lparr>click_handlers := Some v'\<rparr>))
   }) s M m"

definition mouse_register_move_handler :: "'s wstate_scheme \<Rightarrow> mice \<Rightarrow> u64 \<Rightarrow> u64 \<Rightarrow> ('s wstate_scheme \<times> mice) option" where
  "mouse_register_move_handler s M m move_handler = on_mice (\<lambda>s M m. do {
     v \<leftarrow> move_handlers (mouse_at M m);
     (s1, v', _) \<leftarrow> tvec_push s v move_handler;
     Some (s1, update_mouse M m (\<lambda>k. k\<lparr>move_handlers := Some v'\<rparr>))
   }) s M m"

definition mouse_register_click_handler :: "'s wstate_scheme \<Rightarrow> mice \<Rightarrow> u64 \<Rightarrow> u64 \<Rightarrow> ('s wstate_scheme \<times> mice) option" where
  "mouse_register_click_handler s M m click_handler = on_mice (\<lambda>s M m. do {
     v \<leftarrow> click_handlers (mouse_at M m);
     (s1, v', _) \<leftarrow> tvec_push s v click_handler;
     Some (s1, update_mouse M m (\<lambda>k. k\<lparr>click_handlers := Some v'\<rparr>))
   }) s M m"

subsection \<open>The PS/2 mouse\<close>

text \<open>
  The ports: the bytes that \<open>insb\<close> gives, one after the other, and what was sent. The delays are not in the state. The result of
  \<open>ps2_mouse_wait\<close> is never used by its callers.
\<close>

record ports =
  answers :: "nat \<Rightarrow> u8"
  reads_done :: nat
  sent :: "(u16 \<times> u8) list"

definition insb :: "ports \<Rightarrow> u16 \<Rightarrow> ports \<times> u8" where
  "insb p port = (p\<lparr>reads_done := Suc (reads_done p)\<rparr>, answers p (reads_done p))"

definition outb :: "ports \<Rightarrow> u16 \<Rightarrow> u8 \<Rightarrow> ports" where
  "outb p port x = p\<lparr>sent := sent p @ [(port, x)]\<rparr>"

definition ps2_mouse_wait :: "ports \<Rightarrow> int \<Rightarrow> ports \<times> int" where
  "ps2_mouse_wait p type =
     (let (p1, x) = insb p PS2_STATUS_PORT
      in (p1, if type = 0 then (if x AND 2 = 0 then 0 else - ETIMEOUT) else (if x AND 1 \<noteq> 0 then 0 else - ETIMEOUT)))"

definition ps2_mouse_write :: "ports \<Rightarrow> u8 \<Rightarrow> ports" where
  "ps2_mouse_write p x =
     (let p1 = fst (ps2_mouse_wait p 1); p2 = outb p1 PS2_STATUS_PORT 0xD4; p3 = fst (ps2_mouse_wait p2 1)
      in outb p3 PS2_COMMUNICATION_PORT x)"

text \<open>The mouse answers to a command: wait, then read the byte.\<close>

definition ps2_answer :: "ports \<Rightarrow> ports \<times> u8" where
  "ps2_answer p = insb (fst (ps2_mouse_wait p 1)) PS2_COMMUNICATION_PORT"

definition ps2_mouse_init ::
  "u64 \<Rightarrow> idt \<Rightarrow> pic_masks \<Rightarrow> ports \<Rightarrow> mice \<Rightarrow> (idt \<times> pic_masks \<times> ports \<times> mice \<times> int) option" where
  "ps2_mouse_init handler t pm p M = do {
     let t1 = fst (idt_register_interrupt_callback t ISR_MOUSE_INTERRUPT handler);
     pm1 \<leftarrow> IRQ_enable pm IRQ_PS2_MOUSE;
     let p1 = outb (fst (ps2_mouse_wait p 0)) PS2_STATUS_PORT 0xA8;
     let p2 = outb (fst (ps2_mouse_wait p1 0)) PS2_STATUS_PORT 0x20;
     let (p3, config_val) = ps2_answer p2;
     let p4 = outb (fst (ps2_mouse_wait p3 0)) PS2_STATUS_PORT 0x60;
     let p5 = outb p4 PS2_COMMUNICATION_PORT ((config_val AND NOT 0x20) OR 2);
     let p6 = ps2_mouse_write p5 0xFF;
     let (p7, ack) = ps2_answer p6;
     if ack \<noteq> 0xFA then Some (t1, pm1, p7, M, - EIO)
     else do {
       let (p8, self_test) = ps2_answer p7;
       if self_test \<noteq> 0xAA then Some (t1, pm1, p8, M, - EIO)
       else do {
         let (p9, device_id) = ps2_answer p8;
         let p10 = ps2_mouse_write p9 0xF4;
         let (p11, ack) = ps2_answer p10;
         if ack \<noteq> 0xFA then Some (t1, pm1, p11, M, - EIO)
         else Some (t1, pm1, p11, M\<lparr>ps2_device_id := device_id, mouse_packet_size := (if device_id = 3 then 4 else 3)\<rparr>, 0)
       }
     }
   }"

text \<open>What a complete packet does: the movement, cut to the screen, then the click and the handlers of movement. \<open>clamp_coordinate\<close> is one axis.\<close>

definition clamp_coordinate :: "int \<Rightarrow> u32 \<Rightarrow> int \<Rightarrow> int" where
  "clamp_coordinate result extent graphic =
     (let r = (if result < 0 then 0 else result); limit = sint (extent - word_of_int graphic) in if r > limit then limit else r)"

definition packet_type :: "u8 \<Rightarrow> int" where
  "packet_type b = (if b AND 1 \<noteq> 0 then MOUSE_LEFT_BUTTON_CLICKED
     else if drop_bit 1 b AND 1 \<noteq> 0 then MOUSE_RIGHT_BUTTON_CLICKED else MOUSE_NO_CLICK)"

definition ps2_packet_complete ::
  "'s wstate_scheme mouse_calls \<Rightarrow> u64 \<Rightarrow> 's wstate_scheme \<Rightarrow> mice \<Rightarrow> u8 list \<Rightarrow> ('s wstate_scheme \<times> mice) option" where
  "ps2_packet_complete fns m s M packet = do {
     let k = mouse_at M m;
     let dx = sint (packet ! 1);
     let dy = sint (- (packet ! 2));
     let scr = graphics_at s (graphics_screen_info s);
     let x_result = clamp_coordinate (coords_x k + dx) (gi_width scr) (graphic_width k);
     let y_result = clamp_coordinate (coords_y k + dy) (gi_height scr) (graphic_height k);
     (s1, M1) \<leftarrow> mouse_position_set s M m (word_of_int x_result) (word_of_int y_result);
     s2 \<leftarrow> (if packet_type (packet ! 0) \<noteq> MOUSE_NO_CLICK then mouse_click fns s1 (mouse_at M1 m) (packet_type (packet ! 0)) else Some s1);
     s3 \<leftarrow> mouse_moved fns s2 (mouse_at M1 m);
     Some (s3, M1)
   }"

text \<open>The byte is what the port gives. A first byte without bit 3 is skipped, to get back in step with the packets.\<close>

definition ps2_mouse_handle_interrupt ::
  "'s wstate_scheme mouse_calls \<Rightarrow> u64 \<Rightarrow> 's wstate_scheme \<Rightarrow> mice \<Rightarrow> u8 \<Rightarrow> ('s wstate_scheme \<times> mice) option" where
  "ps2_mouse_handle_interrupt fns m s M x =
     (if packet_byte_count M = 0 \<and> x AND 8 = 0 then Some (s, M)
      else if packet_byte_count M < 0 \<or> packet_byte_count M \<ge> int (length (ps2_packet M)) then None
      else let M1 = M\<lparr>ps2_packet := (ps2_packet M)[nat (packet_byte_count M) := x], packet_byte_count := packet_byte_count M + 1\<rparr>
        in if size_of_int (packet_byte_count M1) < size_of_int (mouse_packet_size M1) then Some (s, M1)
           else ps2_packet_complete fns m s (M1\<lparr>packet_byte_count := 0\<rparr>) (ps2_packet M1))"

subsection \<open>Bytes and packets\<close>

text \<open>
  The bytes of the mouse, cut into packets: bytes without bit 3 are dropped until a packet begins, and what is left at the end is an unfinished one.
\<close>

definition ps2_sync :: "u8 list \<Rightarrow> u8 list" where
  "ps2_sync = dropWhile (\<lambda>b. b AND 8 = 0)"

function ps2_packets :: "nat \<Rightarrow> u8 list \<Rightarrow> u8 list list" where
  "ps2_packets n bs =
     (if n = 0 \<or> length (ps2_sync bs) < n then []
      else take n (ps2_sync bs) # ps2_packets n (drop n (ps2_sync bs)))"
  by pat_completeness auto
termination
proof (relation "measure (\<lambda>(n, bs). length bs)")
  fix n :: nat and bs :: "u8 list"
  assume "\<not> (n = 0 \<or> length (ps2_sync bs) < n)"
  moreover have "length (ps2_sync bs) \<le> length bs" by (simp add: ps2_sync_def length_dropWhile_le)
  ultimately show "((n, drop n (ps2_sync bs)), n, bs) \<in> measure (\<lambda>(n, bs). length bs)" by auto
qed simp

declare ps2_packets.simps [simp del]

primrec ps2_bytes ::
  "'s wstate_scheme mouse_calls \<Rightarrow> u64 \<Rightarrow> 's wstate_scheme \<Rightarrow> mice \<Rightarrow> u8 list \<Rightarrow> ('s wstate_scheme \<times> mice) option" where
  "ps2_bytes fns m s M [] = Some (s, M)"
| "ps2_bytes fns m s M (b # bs) = do { (s1, M1) \<leftarrow> ps2_mouse_handle_interrupt fns m s M b; ps2_bytes fns m s1 M1 bs }"

primrec ps2_events ::
  "'s wstate_scheme mouse_calls \<Rightarrow> u64 \<Rightarrow> 's wstate_scheme \<Rightarrow> mice \<Rightarrow> u8 list list \<Rightarrow> ('s wstate_scheme \<times> mice) option" where
  "ps2_events fns m s M [] = Some (s, M)"
| "ps2_events fns m s M (p # ps) = do { (s1, M1) \<leftarrow> ps2_packet_complete fns m s M p; ps2_events fns m s1 M1 ps }"

lemma ps2_bytes_append:
  "ps2_bytes fns m s M (xs @ ys) = do { (s1, M1) \<leftarrow> ps2_bytes fns m s M xs; ps2_bytes fns m s1 M1 ys }"
  by (induction xs arbitrary: s M) (auto split: bind_splits)

text \<open>What an interrupt leaves to the next one: the bytes of an unfinished packet.\<close>

definition receiving :: "mice \<Rightarrow> nat \<Rightarrow> u8 list \<Rightarrow> bool" where
  "receiving M n bs \<longleftrightarrow> n \<in> {3, 4} \<and> mouse_packet_size M = int n \<and> length (ps2_packet M) = 4 \<and> length bs < n \<and>
     packet_byte_count M = int (length bs) \<and> take (length bs) (ps2_packet M) = bs"

definition same_mouse :: "mice \<Rightarrow> mice \<Rightarrow> bool" where
  "same_mouse M M' \<longleftrightarrow> mouse_at M' = mouse_at M \<and> mouse_packet_size M' = mouse_packet_size M"

lemma packet_complete_same:
  assumes "same_mouse M M'"
  shows "rel_option (\<lambda>(s, A) (s', B). s' = s \<and> same_mouse A B \<and> ps2_packet B = ps2_packet M' \<and> packet_byte_count B = packet_byte_count M')
     (ps2_packet_complete fns m s M p) (ps2_packet_complete fns m s M' p)"
  using assms by (auto simp: ps2_packet_complete_def mouse_position_set_def update_mouse_def same_mouse_def Let_def split: bind_splits)

lemma packet_complete_prefix:
  "ps2_packet_complete fns m s M (x # y # z # r) = ps2_packet_complete fns m s M [x, y, z]"
  by (simp add: ps2_packet_complete_def Let_def cong: if_cong)

lemma size_of_int_less: "size_of_int 1 < size_of_int 3" "size_of_int 2 < size_of_int 3" "size_of_int 1 < size_of_int 4"
  "size_of_int 2 < size_of_int 4" "size_of_int 3 < size_of_int 4" "\<not> size_of_int 3 < size_of_int 3" "\<not> size_of_int 4 < size_of_int 4"
  by (simp_all add: size_of_int_def)

lemma receiving_ready:
  "receiving M n [] \<longleftrightarrow> n \<in> {3, 4} \<and> mouse_packet_size M = int n \<and> length (ps2_packet M) = 4 \<and> packet_byte_count M = 0"
  by (auto simp: receiving_def)

lemma length_3: "3 \<le> length xs \<Longrightarrow> \<exists>x y z q. xs = x # y # z # q"
  by (auto simp: numeral_eq_Suc Suc_le_length_iff)

lemma length_4: "length xs = 4 \<longleftrightarrow> (\<exists>a b c d. xs = [a, b, c, d])"
  by (auto simp: numeral_eq_Suc length_Suc_conv)

lemma bytes_of_packet:
  assumes "receiving M n []" "length pk = n" "hd pk AND 8 \<noteq> 0"
  shows "\<exists>M' r. ps2_bytes fns m s M pk = ps2_packet_complete fns m s M' (pk @ r) \<and> same_mouse M M' \<and> receiving M' n []"
proof -
  obtain a b c d where p: "ps2_packet M = [a, b, c, d]" using assms(1) by (auto simp: receiving_ready length_4)
  consider x y z where "n = 3" "pk = [x, y, z]" | x y z w where "n = 4" "pk = [x, y, z, w]"
    using assms(1,2) by (auto simp: receiving_ready numeral_eq_Suc length_Suc_conv)
  then show ?thesis
  proof cases
    case 1
    have b: "(do { (s1, M1) \<leftarrow> X; Some (s1, M1) }) = X" for X :: "('x \<times> mice) option" by (cases X) auto
    show ?thesis
      using assms(1,3) p 1
      by (intro exI [of _ "M\<lparr>ps2_packet := [x, y, z, d], packet_byte_count := 0\<rparr>"] exI [of _ "[d]"])
        (simp add: receiving_ready same_mouse_def ps2_mouse_handle_interrupt_def size_of_int_less b numeral_2_eq_2)
  next
    case 2
    have b: "(do { (s1, M1) \<leftarrow> X; Some (s1, M1) }) = X" for X :: "('x \<times> mice) option" by (cases X) auto
    show ?thesis
      using assms(1,3) p 2
      by (intro exI [of _ "M\<lparr>ps2_packet := [x, y, z, w], packet_byte_count := 0\<rparr>"] exI [of _ "[]"])
        (simp add: receiving_ready same_mouse_def ps2_mouse_handle_interrupt_def size_of_int_less b numeral_2_eq_2 numeral_3_eq_3)
  qed
qed

lemma bytes_unfinished:
  assumes "receiving M n []" "length r < n" "r = [] \<or> hd r AND 8 \<noteq> 0"
  shows "\<exists>M'. ps2_bytes fns m s M r = Some (s, M') \<and> same_mouse M M'"
proof -
  obtain a b c d where p: "ps2_packet M = [a, b, c, d]" using assms(1) by (auto simp: receiving_ready length_4)
  have "length r < 4" using assms(1,2) by (auto simp: receiving_ready)
  then have "length r = 0 \<or> length r = 1 \<or> length r = 2 \<or> length r = 3" by linarith
  then consider "r = []" | x where "r = [x]" | x y where "r = [x, y]" | x y z where "n = 4" "r = [x, y, z]"
    using assms(1,2) by (auto simp: receiving_ready numeral_eq_Suc length_Suc_conv)
  then show ?thesis
    using assms(1,3) p
    by cases (auto simp: receiving_ready same_mouse_def ps2_mouse_handle_interrupt_def size_of_int_less)
qed

lemma bytes_sync: "packet_byte_count M = 0 \<Longrightarrow> ps2_bytes fns m s M bs = ps2_bytes fns m s M (ps2_sync bs)"
  by (induction bs) (simp_all add: ps2_sync_def ps2_mouse_handle_interrupt_def)

lemma bytes_packets:
  "receiving M n [] \<Longrightarrow> same_mouse M M' \<Longrightarrow>
   rel_option (\<lambda>(s, A) (s', B). s' = s \<and> mouse_at B = mouse_at A) (ps2_bytes fns m s M bs) (ps2_events fns m s M' (ps2_packets n bs))"
proof (induction n bs arbitrary: s M M' rule: ps2_packets.induct)
  case (1 n bs)
  let ?r = "ps2_sync bs"
  have sy: "ps2_bytes fns m s M bs = ps2_bytes fns m s M ?r" using "1.prems"(1) by (intro bytes_sync) (simp add: receiving_ready)
  have hd: "?r = [] \<or> hd ?r AND 8 \<noteq> 0" unfolding ps2_sync_def using hd_dropWhile [of "\<lambda>b. b AND 8 = 0" bs] by blast
  show ?case
  proof (cases "n = 0 \<or> length ?r < n")
    case True
    then have "length ?r < n" using "1.prems"(1) by (auto simp: receiving_ready)
    then obtain M2 where "ps2_bytes fns m s M ?r = Some (s, M2)" "same_mouse M M2"
      using bytes_unfinished [OF "1.prems"(1) _ hd] by blast
    then show ?thesis using True "1.prems"(2) unfolding sy by (simp add: ps2_packets.simps [of n bs] same_mouse_def)
  next
    case False
    let ?p = "take n ?r"
    have p: "length ?p = n" "hd ?p AND 8 \<noteq> 0" using False hd by (auto simp: hd_conv_nth)
    obtain M1 r where m: "ps2_bytes fns m s M ?p = ps2_packet_complete fns m s M1 (?p @ r)" "same_mouse M M1" "receiving M1 n []"
      using bytes_of_packet [OF "1.prems"(1) p] by blast
    have "3 \<le> length ?p" using p(1) "1.prems"(1) by (auto simp: receiving_ready)
    then obtain x y z q where q: "?p = x # y # z # q" using length_3 by blast
    have pc: "ps2_packet_complete fns m s M1 (?p @ r) = ps2_packet_complete fns m s M1 ?p"
      unfolding q by (simp add: packet_complete_prefix [of _ _ _ _ x y z "q @ r"] packet_complete_prefix [of _ _ _ _ x y z q])
    have sm: "same_mouse M1 M'" using m(2) "1.prems"(2) by (simp add: same_mouse_def)
    have split: "ps2_bytes fns m s M bs = do { (s1, A) \<leftarrow> ps2_packet_complete fns m s M1 ?p; ps2_bytes fns m s1 A (drop n ?r) }"
      unfolding sy m(1) [symmetric] pc [symmetric] by (simp add: ps2_bytes_append [symmetric])
    have ev: "ps2_packets n bs = ?p # ps2_packets n (drop n ?r)" using False by (simp add: ps2_packets.simps [of n bs])
    note rel = packet_complete_same [OF sm, of fns m s ?p]
    show ?thesis
    proof (cases "ps2_packet_complete fns m s M1 ?p")
      case None
      then show ?thesis using rel unfolding split ev by simp
    next
      case (Some sA)
      then obtain s1 A where A: "ps2_packet_complete fns m s M1 ?p = Some (s1, A)" by (cases sA) auto
      then obtain B where B: "ps2_packet_complete fns m s M' ?p = Some (s1, B)" "same_mouse A B" using rel by (auto elim: option.rel_cases)
      have "same_mouse M1 M1" by (simp add: same_mouse_def)
      then have "ps2_packet A = ps2_packet M1" "packet_byte_count A = packet_byte_count M1" "mouse_packet_size A = mouse_packet_size M1"
        using A by (auto simp: ps2_packet_complete_def mouse_position_set_def update_mouse_def Let_def split: bind_splits)
      then have "receiving A n []" using m(3) by (simp add: receiving_ready)
      then show ?thesis using "1.IH" [OF False _ B(2), of s1] unfolding split ev by (simp add: A B(1))
    qed
  qed
qed

text \<open>
  C9. \<^bold>\<open>The bytes of a mouse are its packets.\<close> When the driver waits for a packet, any run of interrupts has the effect of the complete packets among their bytes,
  in order: bytes that cannot begin a packet are dropped, and an unfinished packet at the end has no effect.
\<close>

theorem mouse_refines_packets:
  assumes "mouse_packet_size M = int n" "n \<in> {3, 4}" "length (ps2_packet M) = 4" "packet_byte_count M = 0"
  shows "map_option (\<lambda>(s, A). (s, mouse_at A)) (ps2_bytes fns m s M bs) =
    map_option (\<lambda>(s, A). (s, mouse_at A)) (ps2_events fns m s M (ps2_packets n bs))"
proof -
  have "rel_option (\<lambda>(s, A) (s', B). s' = s \<and> mouse_at B = mouse_at A) (ps2_bytes fns m s M bs) (ps2_events fns m s M (ps2_packets n bs))"
    by (rule bytes_packets) (use assms in \<open>auto simp: receiving_ready same_mouse_def\<close>)
  then show ?thesis by (auto elim!: option.rel_cases)
qed

subsection \<open>The mouse stays on the screen\<close>

lemma clamp_coordinate_eq:
  assumes "0 \<le> graphic" "graphic \<le> uint extent" "uint extent < 2 ^ 31"
  shows "clamp_coordinate r extent graphic = max 0 (min (uint extent - graphic) r)"
proof -
  have "uint (extent - word_of_int graphic) = uint extent - graphic"
    using assms by (simp add: uint_word_ariths uint_word_of_int_eq take_bit_int_eq_self)
  then have "sint (extent - word_of_int graphic) = uint extent - graphic"
    using assms by (simp add: sint_uint signed_take_bit_int_eq_self)
  then show ?thesis using assms by (simp add: clamp_coordinate_def Let_def)
qed

text \<open>
  C26. \<^bold>\<open>The mouse stays on the screen.\<close> A complete packet moves the coordinates by what it says and cuts them so that the picture of the mouse lies on the screen. The
  vertical movement is turned round in 8 bits, where the lowest value is its own negation.
\<close>

theorem mouse_coordinates_clamped:
  assumes "ps2_packet_complete fns m s M packet = Some (s', M')" "scr = graphics_at s (graphics_screen_info s)"
    and "0 \<le> graphic_width (mouse_at M m)" "graphic_width (mouse_at M m) \<le> uint (gi_width scr)" "uint (gi_width scr) < 2 ^ 31"
    and "0 \<le> graphic_height (mouse_at M m)" "graphic_height (mouse_at M m) \<le> uint (gi_height scr)" "uint (gi_height scr) < 2 ^ 31"
  shows "coords_x (mouse_at M' m) = max 0 (min (uint (gi_width scr) - graphic_width (mouse_at M m)) (coords_x (mouse_at M m) + sint (packet ! 1))) \<and>
    coords_y (mouse_at M' m) = max 0 (min (uint (gi_height scr) - graphic_height (mouse_at M m))
      (coords_y (mouse_at M m) + (if packet ! 2 = 0x80 then - 128 else - sint (packet ! 2))))"
proof -
  have narrow: "sint (ucast (word_of_int r :: u64) :: u32) = r" if "0 \<le> r" "r < 2 ^ 31" for r
    using that by (simp add: ucast_eq uint_word_of_int_eq take_bit_int_eq_self sint_sbintrunc' signed_take_bit_int_eq_self)
  have neg: "sint (- b) = (if b = 0x80 then - 128 else - sint b)" for b :: u8
  proof (cases "sint b = - 128")
    case True
    have "b = 0x80" by (rule signed_word_eqI [where ?'a = int]) (simp add: True)
    then show ?thesis by simp
  next
    case False
    have r: "- 128 \<le> sint b" "sint b < 128" using sint_ge [of b] sint_lt [of b] by simp_all
    have "sint (- b) = signed_take_bit 7 (- sint b)" by (simp add: sint_word_ariths)
    also have "\<dots> = - sint b" using r False by (intro signed_take_bit_int_eq_self) simp_all
    finally have "sint (- b) = - sint b" .
    moreover have "b \<noteq> 0x80" using False by auto
    ultimately show ?thesis by simp
  qed
  let ?k = "mouse_at M m"
  let ?x = "clamp_coordinate (coords_x ?k + sint (packet ! 1)) (gi_width scr) (graphic_width ?k)"
  let ?y = "clamp_coordinate (coords_y ?k + sint (- (packet ! 2))) (gi_height scr) (graphic_height ?k)"
  have c: "coords_x (mouse_at M' m) = sint (ucast (word_of_int ?x :: u64) :: u32)" "coords_y (mouse_at M' m) = sint (ucast (word_of_int ?y :: u64) :: u32)"
    using assms(1,2) by (auto simp: ps2_packet_complete_def mouse_position_set_def update_mouse_def Let_def split: bind_splits)
  have x: "?x = max 0 (min (uint (gi_width scr) - graphic_width ?k) (coords_x ?k + sint (packet ! 1)))"
    and y: "?y = max 0 (min (uint (gi_height scr) - graphic_height ?k) (coords_y ?k + sint (- (packet ! 2))))"
    by (rule clamp_coordinate_eq; fact)+
  have small: "0 \<le> max 0 (min (uint e - g) r) \<and> max 0 (min (uint e - g) r) < 2 ^ 31" if "0 \<le> g" "uint e < 2 ^ 31" for e :: u32 and g r :: int
    using that by auto
  have sx: "sint (ucast (word_of_int ?x :: u64) :: u32) = ?x" using narrow small [OF assms(3,5)] unfolding x by blast
  have sy: "sint (ucast (word_of_int ?y :: u64) :: u32) = ?y" using narrow small [OF assms(6,8)] unfolding y by blast
  show ?thesis using trans [OF c(1) trans [OF sx x]] trans [OF c(2) trans [OF sy y]] unfolding neg by blast
qed

subsection \<open>A mouse on a small screen\<close>

text \<open>The window of the mouse is all there is; the framebuffer has no pixels.\<close>

definition mouse_desktop :: wstate where
  "mouse_desktop = small_desktop\<lparr>graphics_at := (\<lambda>g. if g = 0x1000
       then null_graphics\<lparr>gi_width := 40, gi_height := 40, gi_children := Some (vector_of 8 [])\<rparr>
       else null_graphics\<lparr>gi_width := 10, gi_height := 10, starting_x := 15, starting_y := 15, gi_children := Some (vector_of 8 [])\<rparr>),
     kwindow_at := (\<lambda>_. null_window\<lparr>root_graphics := 0x3000, win_x := 15, win_y := 15, win_width := 10, win_height := 10\<rparr>),
     windows_vector := Some (vector_of 8 [0x8000])\<rparr>"

definition one_mouse :: mice where
  "one_mouse = \<lparr>mouse_at = (\<lambda>_. \<lparr>mouse_init_function = 1, mouse_draw_function = 2, coords_x = 15, coords_y = 15, graphic_window = 0x8000,
       graphic_width = 10, graphic_height = 10, click_handlers = Some (vector_of 8 []), move_handlers = Some (vector_of 8 [])\<rparr>),
     mouse_driver_vector = Some (vector_of 8 [0x6000]), ps2_packet = [0, 0, 0, 0], packet_byte_count = 0, ps2_device_id = 0, mouse_packet_size = 3\<rparr>"

definition no_mouse_calls :: "wstate mouse_calls" where
  "no_mouse_calls = \<lparr>call_init = (\<lambda>_ s M _. Some (s, M, 0)), call_draw = (\<lambda>_ s _. Some s), call_click = (\<lambda>_ s _ _ _ _. Some s),
     call_move = (\<lambda>_ s _ _ _. Some s), default_draw = 3\<rparr>"

lemma paste_to_nothing:
  "horizontal_resolution (graphics_at s (graphics_screen_info s)) = 0 \<Longrightarrow> graphics_paste_pixels_to_framebuffer s g x y w h dx dy = Some s"
  by (simp add: graphics_paste_pixels_to_framebuffer_def Let_def)

lemma redraw_flat:
  assumes "horizontal_resolution (graphics_at s (graphics_screen_info s)) = 0" "graphics_children s g = Some []"
  shows "graphics_redraw g s = Some s" "graphics_redraw_region g x y w h s = Some s"
  using assms by (subst graphics_redraw.simps, simp add: graphics_redraw_only_def paste_to_nothing,
    subst graphics_redraw_region.simps, simp add: paste_to_nothing Let_def split: prod.split)

lemma recalculate_flat:
  assumes "gi_parent (graphics_at s g) = 0" "graphics_children s g = Some []"
  shows "graphics_info_recalculate g s = Some s"
  using assms by (subst graphics_info_recalculate.simps) (simp add: Let_def)

theorem mouse_coordinates_clamped_witness:
  "\<exists>s' M'. ps2_packet_complete no_mouse_calls 0x6000 mouse_desktop one_mouse [8, 100, 0x80] = Some (s', M') \<and>
     coords_x (mouse_at M' 0x6000) = 30 \<and> coords_y (mouse_at M' 0x6000) = 0"
proof -
  have desk: "loaded_graphics_info mouse_desktop = 0x1000" "windows_vector mouse_desktop = Some (vector_of 8 [0x8000])"
    "kwindow_at mouse_desktop w = null_window\<lparr>root_graphics := 0x3000, win_x := 15, win_y := 15, win_width := 10, win_height := 10\<rparr>"
    "graphics_at mouse_desktop 0x1000 = null_graphics\<lparr>gi_width := 40, gi_height := 40, gi_children := Some (vector_of 8 [])\<rparr>"
    "graphics_at mouse_desktop 0x3000 = null_graphics\<lparr>gi_width := 10, gi_height := 10, starting_x := 15, starting_y := 15, gi_children := Some (vector_of 8 [])\<rparr>" for w
    by (simp_all add: mouse_desktop_def small_desktop_def small_terminal_def small_screen_def istate.defs gstate.defs tstate.defs wstate.defs)
  have "\<exists>s'. window_position_set mouse_desktop 0x8000 30 0 = Some (s', 0)"
    by (simp add: window_position_set_def window_bring_to_top_def window_set_z_index_def graphics_set_z_index_def window_redraw_def
        recalculate_flat redraw_flat Let_def desk update_graphics_def update_window_def graphics_screen_info_def graphics_children_def
        tvec_reorder_def vector_of_def null_graphics_def tvec_items_def uncovered_stripes_def int_difference_def null_window_def)
  then have "\<exists>s'. ps2_packet_complete no_mouse_calls 0x6000 mouse_desktop one_mouse [8, 100, 0x80] = Some (s', update_mouse one_mouse 0x6000 (\<lambda>k. k\<lparr>coords_x := 30, coords_y := 0\<rparr>))"
    by (auto simp: ps2_packet_complete_def mouse_position_set_def one_mouse_def clamp_coordinate_def desk graphics_screen_info_def null_graphics_def
        packet_type_def update_mouse_def Let_def mouse_moved_def tvec_items_def vector_of_def)
  then obtain s' M' where pc: "ps2_packet_complete no_mouse_calls 0x6000 mouse_desktop one_mouse [8, 100, 0x80] = Some (s', M')" by blast
  have "coords_x (mouse_at M' 0x6000) = 30 \<and> coords_y (mouse_at M' 0x6000) = 0"
    using mouse_coordinates_clamped [OF pc refl] by (simp add: desk graphics_screen_info_def one_mouse_def null_graphics_def)
  then show ?thesis using pc by blast
qed

theorem mouse_refines_packets_witness:
  "map_option (\<lambda>(s, A). (s, mouse_at A)) (ps2_bytes no_mouse_calls 0x6000 mouse_desktop one_mouse [0x07, 0x28, 0x55]) = Some (mouse_desktop, mouse_at one_mouse)"
proof -
  have "ps2_packets 3 [0x07, 0x28, 0x55] = []" by (simp add: ps2_packets.simps ps2_sync_def)
  then show ?thesis using mouse_refines_packets [of one_mouse 3 no_mouse_calls "0x6000" mouse_desktop "[0x07, 0x28, 0x55]"]
    by (simp add: one_mouse_def)
qed

end
