(* ===== verification/Pci.thy ===== *)
theory Pci
  imports ElfLoader TypedVector
begin

section \<open>Devices on the PCI bus: pci.c\<close>

text \<open>
  Configuration registers, the sizes of base address registers, the scan of the buses and the bridges above a device. What
  the ports and mapped registers answer is the record \<open>config_hardware\<close> over a state of the hardware. The store \<open>pci_device_at\<close> holds the
  devices by address; the static variables are the record \<open>pci\<close>, beside the state of the kernel.
\<close>

abbreviation (input) PCI_ECAM_MAX_RANGES :: nat where "PCI_ECAM_MAX_RANGES \<equiv> 8"
abbreviation (input) PCI_ECAM_BUS_SHIFT :: nat where "PCI_ECAM_BUS_SHIFT \<equiv> 20"
abbreviation (input) PCI_ECAM_DEV_SHIFT :: nat where "PCI_ECAM_DEV_SHIFT \<equiv> 15"
abbreviation (input) PCI_ECAM_FUNC_SHIFT :: nat where "PCI_ECAM_FUNC_SHIFT \<equiv> 12"
abbreviation (input) PCI_CFG_ADDRESS :: u16 where "PCI_CFG_ADDRESS \<equiv> 0xCF8"
abbreviation (input) PCI_DATA_ADDRESS :: u16 where "PCI_DATA_ADDRESS \<equiv> 0xCFC"
abbreviation (input) PCI_HEADER_VENDOR_OFFSET :: u8 where "PCI_HEADER_VENDOR_OFFSET \<equiv> 0x00"
abbreviation (input) PCI_HEADER_DEVICE_OFFSET :: u8 where "PCI_HEADER_DEVICE_OFFSET \<equiv> 0x02"
abbreviation (input) PCI_HEADER_COMMAND_OFFSET :: u8 where "PCI_HEADER_COMMAND_OFFSET \<equiv> 0x04"
abbreviation (input) PCI_HEADER_REVISION_ID_OFFSET :: u8 where "PCI_HEADER_REVISION_ID_OFFSET \<equiv> 0x08"
abbreviation (input) PCI_HEADER_HEADER_TYPE_OFFSET :: u8 where "PCI_HEADER_HEADER_TYPE_OFFSET \<equiv> 0x0E"
abbreviation (input) PCI_HEADER_BAR0_OFFSET :: u8 where "PCI_HEADER_BAR0_OFFSET \<equiv> 0x10"
abbreviation (input) PCI_BRIDGE_PRIMARY_BUS_OFFSET :: u8 where "PCI_BRIDGE_PRIMARY_BUS_OFFSET \<equiv> 0x18"
abbreviation (input) PCI_BRIDGE_SECONDARY_BUS_OFFSET :: u8 where "PCI_BRIDGE_SECONDARY_BUS_OFFSET \<equiv> 0x19"
abbreviation (input) PCI_BRIDGE_SUBORDINATE_BUS_OFFSET :: u8 where "PCI_BRIDGE_SUBORDINATE_BUS_OFFSET \<equiv> 0x1A"
abbreviation (input) PCI_DEVICE_IO_MEMORY :: int where "PCI_DEVICE_IO_MEMORY \<equiv> 0"
abbreviation (input) PCI_DEVICE_IO_PORT :: int where "PCI_DEVICE_IO_PORT \<equiv> 1"
abbreviation (input) PCI_DEVICE_BAR_FLAG_64BIT :: u32 where "PCI_DEVICE_BAR_FLAG_64BIT \<equiv> 0x01"
abbreviation (input) PCI_DEVICE_BAR_FLAG_IS_EXT :: u32 where "PCI_DEVICE_BAR_FLAG_IS_EXT \<equiv> 0x02"
abbreviation (input) PCI_DEVICE_BAR_FLAG_PREFETCHABLE :: u32 where "PCI_DEVICE_BAR_FLAG_PREFETCHABLE \<equiv> 0x04"

record pci_device_bar =
  bar_type :: int
  bar_flags :: u32
  bar_addr :: u64
  bar_size :: u64

record pci_address =
  pci_bus :: u8
  pci_slot :: u8
  pci_func :: u8

record pci_device =
  pci_addr :: pci_address
  pci_bars :: "pci_device_bar list"
  vendor :: u16
  device_id :: u16
  class_base :: int
  class_subclass :: int
  is_bridge :: bool
  primary_bus :: u8
  secondary_bus :: u8
  subordinate_bus :: u8
  parent_bridge :: u64

record pci_ecam_range =
  seg_group :: u16
  start_bus :: u8
  end_bus :: u8
  phys_base :: u64
  virt_base :: u64

record 'h config_hardware =
  outdw :: "'h \<Rightarrow> u16 \<Rightarrow> u32 \<Rightarrow> 'h"
  insdw :: "'h \<Rightarrow> u16 \<Rightarrow> 'h \<times> u32"
  mapped_read :: "'h \<Rightarrow> u64 \<Rightarrow> 'h \<times> u32"
  mapped_write :: "'h \<Rightarrow> u64 \<Rightarrow> u32 \<Rightarrow> 'h"

text \<open>The used entries of \<open>g_ecam\<close>; their number is \<open>g_ecam_count\<close>.\<close>

record 'h pci =
  hardware :: 'h
  g_ecam :: "pci_ecam_range list"
  g_ecam_enabled :: bool
  pci_device_vector :: "u64 tvec option"
  pci_device_at :: "u64 \<Rightarrow> pci_device"

definition null_bar :: pci_device_bar where
  "null_bar = \<lparr>bar_type = 0, bar_flags = 0, bar_addr = 0, bar_size = 0\<rparr>"

definition null_pci_device :: pci_device where
  "null_pci_device = \<lparr>pci_addr = \<lparr>pci_bus = 0, pci_slot = 0, pci_func = 0\<rparr>, pci_bars = replicate 6 null_bar, vendor = 0,
     device_id = 0, class_base = 0, class_subclass = 0, is_bridge = False, primary_bus = 0, secondary_bus = 0,
     subordinate_bus = 0, parent_bridge = 0\<rparr>"

subsection \<open>Configuration registers\<close>

definition pci_cfg_addr_legacy :: "u8 \<Rightarrow> u8 \<Rightarrow> u8 \<Rightarrow> u8 \<Rightarrow> u32" where
  "pci_cfg_addr_legacy bus slot func offset =
     0x80000000 OR push_bit 16 (ucast bus) OR push_bit 11 (ucast slot) OR push_bit 8 (ucast func) OR ucast (offset AND 0xFC)"

definition pci_ecam_cfg_ptr :: "'h pci \<Rightarrow> u8 \<Rightarrow> u8 \<Rightarrow> u8 \<Rightarrow> u16 \<Rightarrow> u64" where
  "pci_ecam_cfg_ptr P bus slot func offset =
     (if \<not> g_ecam_enabled P then 0
      else if offset \<ge> 4096 then 0
      else case find (\<lambda>r. \<not> (bus < start_bus r \<or> bus < end_bus r)) (g_ecam P) of
             None \<Rightarrow> 0
           | Some r \<Rightarrow> virt_base r + push_bit PCI_ECAM_BUS_SHIFT (ucast (bus - start_bus r)) + push_bit PCI_ECAM_DEV_SHIFT (ucast slot)
               + push_bit PCI_ECAM_FUNC_SHIFT (ucast func) + ucast offset)"

definition pci_ecam_install_range :: "'h pci \<Rightarrow> u16 \<Rightarrow> u64 \<Rightarrow> u8 \<Rightarrow> u8 \<Rightarrow> u64 \<Rightarrow> 'h pci \<times> int" where
  "pci_ecam_install_range P seg phys first_bus last_bus virt =
     (if length (g_ecam P) \<ge> PCI_ECAM_MAX_RANGES then (P, - ENOMEM)
      else if virt = 0 \<or> first_bus > last_bus then (P, - EINVAL)
      else (P\<lparr>g_ecam := g_ecam P @ [\<lparr>seg_group = seg, start_bus = first_bus, end_bus = last_bus, phys_base = phys, virt_base = virt\<rparr>],
              g_ecam_enabled := True\<rparr>, 0))"

text \<open>The entries of the table, 16 bytes each behind a header of 44 bytes. \<open>mapper\<close> is the function that the caller gives.\<close>

definition mcfg_entry ::
  "('s kernel_scheme \<Rightarrow> u64 \<Rightarrow> u64 \<Rightarrow> ('s kernel_scheme \<times> u64) option) \<Rightarrow> u64 \<Rightarrow>
   's kernel_scheme \<times> 'h pci \<times> nat \<Rightarrow> ('s kernel_scheme \<times> 'h pci \<times> nat) option" where
  "mcfg_entry mapper ent = (\<lambda>(s, P, installed).
     let first_bus = kmem s (ent + 10); last_bus = kmem s (ent + 11)
     in if first_bus > last_bus then Some (s, P, installed)
        else let map_sz = push_bit PCI_ECAM_BUS_SHIFT (ucast last_bus - ucast first_bus + 1 :: u64);
                 phys = mem64 (kmem s) ent + push_bit PCI_ECAM_BUS_SHIFT (ucast first_bus)
             in do {
               (s1, v) \<leftarrow> mapper s phys map_sz;
               if v = 0 then Some (s1, P, installed)
               else let (P1, res) = pci_ecam_install_range P (mem16 (kmem s1) (ent + 8)) phys first_bus last_bus v
                    in Some (s1, P1, if res = 0 then Suc installed else installed)
             })"

definition pci_ecam_init_from_mcfg ::
  "('s kernel_scheme \<Rightarrow> u64 \<Rightarrow> u64 \<Rightarrow> ('s kernel_scheme \<times> u64) option) \<Rightarrow> 's kernel_scheme \<Rightarrow> 'h pci \<Rightarrow> u64 \<Rightarrow>
   ('s kernel_scheme \<times> 'h pci \<times> int) option" where
  "pci_ecam_init_from_mcfg mapper s P mcfg =
     (if mcfg = 0 then Some (s, P, - EINVAL)
      else let len = mem32 (kmem s) (mcfg + 4)
      in if len < 44 then Some (s, P, - EINVAL)
         else do {
           (s1, P1, installed) \<leftarrow> for_each (\<lambda>i. mcfg_entry mapper (mcfg + 44 + of_nat (16 * i))) [0..<(unat len - 44) div 16] (s, P, 0);
           Some (s1, P1, if installed > 0 then 0 else - ENOENT)
         })"

definition pci_ecam_available :: "'h pci \<Rightarrow> bool" where
  "pci_ecam_available P = g_ecam_enabled P"

text \<open>Reading and writing a register by its pointer, or through the two ports.\<close>

definition config_read :: "'h config_hardware \<Rightarrow> 'h pci \<Rightarrow> u64 \<Rightarrow> u32 \<Rightarrow> 'h pci \<times> u32" where
  "config_read hw P p address =
     (let (h, v) = (if p \<noteq> 0 then mapped_read hw (hardware P) p
                    else insdw hw (outdw hw (hardware P) PCI_CFG_ADDRESS address) PCI_DATA_ADDRESS)
      in (P\<lparr>hardware := h\<rparr>, v))"

definition config_write :: "'h config_hardware \<Rightarrow> 'h pci \<Rightarrow> u64 \<Rightarrow> u32 \<Rightarrow> u32 \<Rightarrow> 'h pci" where
  "config_write hw P p address v =
     P\<lparr>hardware := (if p \<noteq> 0 then mapped_write hw (hardware P) p v
                    else outdw hw (outdw hw (hardware P) PCI_CFG_ADDRESS address) PCI_DATA_ADDRESS v)\<rparr>"

definition pci_cfg_read_dword :: "'h config_hardware \<Rightarrow> 'h pci \<Rightarrow> u8 \<Rightarrow> u8 \<Rightarrow> u8 \<Rightarrow> u8 \<Rightarrow> 'h pci \<times> u32" where
  "pci_cfg_read_dword hw P bus slot func offset =
     (let off = offset AND 0xFC in config_read hw P (pci_ecam_cfg_ptr P bus slot func (ucast off)) (pci_cfg_addr_legacy bus slot func off))"

definition pci_cfg_read_word :: "'h config_hardware \<Rightarrow> 'h pci \<Rightarrow> u8 \<Rightarrow> u8 \<Rightarrow> u8 \<Rightarrow> u8 \<Rightarrow> 'h pci \<times> u16" where
  "pci_cfg_read_word hw P bus slot func offset =
     (let off = offset AND 0xFC;
          (P1, v) = config_read hw P (pci_ecam_cfg_ptr P bus slot func (ucast off)) (pci_cfg_addr_legacy bus slot func off)
      in (P1, ucast (drop_bit (unat (offset AND 2) * 8) v AND 0xFFFF)))"

definition pci_cfg_read_byte :: "'h config_hardware \<Rightarrow> 'h pci \<Rightarrow> u8 \<Rightarrow> u8 \<Rightarrow> u8 \<Rightarrow> u8 \<Rightarrow> 'h pci \<times> u8" where
  "pci_cfg_read_byte hw P bus slot func offset =
     (let (P1, v) = pci_cfg_read_dword hw P bus slot func (offset AND 0xFC)
      in (P1, ucast (drop_bit (unat (offset AND 3) * 8) v)))"

definition pci_cfg_write_dword :: "'h config_hardware \<Rightarrow> 'h pci \<Rightarrow> u8 \<Rightarrow> u8 \<Rightarrow> u8 \<Rightarrow> u8 \<Rightarrow> u32 \<Rightarrow> 'h pci" where
  "pci_cfg_write_dword hw P bus slot func offset v =
     (let off = offset AND 0xFC in config_write hw P (pci_ecam_cfg_ptr P bus slot func (ucast off)) (pci_cfg_addr_legacy bus slot func off) v)"

definition pci_cfg_write_word :: "'h config_hardware \<Rightarrow> 'h pci \<Rightarrow> u8 \<Rightarrow> u8 \<Rightarrow> u8 \<Rightarrow> u8 \<Rightarrow> u16 \<Rightarrow> 'h pci" where
  "pci_cfg_write_word hw P bus slot func offset v =
     (let off = offset AND 0xFC; p = pci_ecam_cfg_ptr P bus slot func (ucast off); address = pci_cfg_addr_legacy bus slot func off;
          (P1, tmp) = config_read hw P p address;
          tmp' = (if offset AND 2 = 0 then (tmp AND 0xFFFF0000) OR ucast v else (tmp AND 0x0000FFFF) OR push_bit 16 (ucast v))
      in config_write hw P1 p address tmp')"

subsection \<open>The sizes of the base address registers\<close>

text \<open>All ones are written, what the register keeps of them is read, and the old value is written back.\<close>

definition size_register :: "'h config_hardware \<Rightarrow> 'h pci \<Rightarrow> u8 \<Rightarrow> u8 \<Rightarrow> u8 \<Rightarrow> u8 \<Rightarrow> u32 \<Rightarrow> 'h pci \<times> u32" where
  "size_register hw P bus slot func off orig =
     (let P1 = pci_cfg_write_dword hw P bus slot func off 0xFFFFFFFF;
          (P2, szv) = pci_cfg_read_dword hw P1 bus slot func off
      in (pci_cfg_write_dword hw P2 bus slot func off orig, szv))"

text \<open>A register of 32 bits: the mask of the address bits is extended to 64 bits before it is negated.\<close>

definition bar32 :: "pci_device_bar \<Rightarrow> u32 \<Rightarrow> u32 \<Rightarrow> pci_device_bar" where
  "bar32 bar base masked =
     (if masked = 0 then bar\<lparr>bar_size := 0\<rparr> else bar\<lparr>bar_addr := ucast base, bar_size := NOT (ucast masked) + 1\<rparr>)"

function pci_size_bars_loop ::
  "'h config_hardware \<Rightarrow> u8 \<Rightarrow> u8 \<Rightarrow> u8 \<Rightarrow> nat \<Rightarrow> nat \<Rightarrow> 'h pci \<Rightarrow> pci_device_bar list \<Rightarrow> 'h pci \<times> pci_device_bar list" where
  "pci_size_bars_loop hw bus slot func bar_count i P bars =
     (if i \<ge> bar_count then (P, bars)
      else let off = PCI_HEADER_BAR0_OFFSET + of_nat (i * 4);
               (P1, lo_orig) = pci_cfg_read_dword hw P bus slot func off;
               is_io = (lo_orig AND 1 \<noteq> 0);
               bar = \<lparr>bar_type = (if is_io then PCI_DEVICE_IO_PORT else PCI_DEVICE_IO_MEMORY),
                      bar_flags = (if \<not> is_io \<and> lo_orig AND 8 \<noteq> 0 then PCI_DEVICE_BAR_FLAG_PREFETCHABLE else 0),
                      bar_addr = 0, bar_size = 0\<rparr>
           in if is_io then
                let (P2, szv) = size_register hw P1 bus slot func off lo_orig
                in pci_size_bars_loop hw bus slot func bar_count (Suc i) P2 (bars[i := bar32 bar (lo_orig AND 0xFFFFFFFC) (szv AND 0xFFFFFFFC)])
              else if drop_bit 1 lo_orig AND 3 = 2 \<and> i + 1 < bar_count then
                let (P2, hi_orig) = pci_cfg_read_dword hw P1 bus slot func (off + 4);
                    P3 = pci_cfg_write_dword hw P2 bus slot func off 0xFFFFFFFF;
                    P4 = pci_cfg_write_dword hw P3 bus slot func (off + 4) 0xFFFFFFFF;
                    (P5, lo_sz) = pci_cfg_read_dword hw P4 bus slot func off;
                    (P6, hi_sz) = pci_cfg_read_dword hw P5 bus slot func (off + 4);
                    P7 = pci_cfg_write_dword hw P6 bus slot func off lo_orig;
                    P8 = pci_cfg_write_dword hw P7 bus slot func (off + 4) hi_orig;
                    base64 = push_bit 32 (ucast hi_orig) OR ucast (lo_orig AND 0xFFFFFFF0);
                    mask64 = push_bit 32 (ucast hi_sz) OR ucast (lo_sz AND 0xFFFFFFF0);
                    bar1 = (if mask64 = 0 then bar
                            else bar\<lparr>bar_addr := base64, bar_size := NOT mask64 + 1, bar_flags := bar_flags bar OR PCI_DEVICE_BAR_FLAG_64BIT\<rparr>);
                    ext = \<lparr>bar_type = bar_type bar, bar_flags = PCI_DEVICE_BAR_FLAG_IS_EXT, bar_addr = drop_bit 32 base64, bar_size = 0\<rparr>
                in pci_size_bars_loop hw bus slot func bar_count (i + 2) P8 (bars[i := bar1, Suc i := ext])
              else
                let (P2, szv) = size_register hw P1 bus slot func off lo_orig
                in pci_size_bars_loop hw bus slot func bar_count (Suc i) P2 (bars[i := bar32 bar (lo_orig AND 0xFFFFFFF0) (szv AND 0xFFFFFFF0)]))"
  by auto

termination by (relation "measure (\<lambda>(hw, bus, slot, func, n, i, P, bars). n - i)") auto

declare pci_size_bars_loop.simps [simp del]

text \<open>The number of registers, by the type of the header.\<close>

definition bar_count_of :: "u8 \<Rightarrow> nat" where
  "bar_count_of header = (if header AND 0x7F = 0 then 6 else if header AND 0x7F = 1 then 2 else 0)"

definition pci_size_bars :: "'h config_hardware \<Rightarrow> 'h pci \<Rightarrow> u8 \<Rightarrow> u8 \<Rightarrow> u8 \<Rightarrow> pci_device_bar list \<Rightarrow> 'h pci \<times> pci_device_bar list" where
  "pci_size_bars hw P bus slot func bars =
     (let (P1, ht) = pci_cfg_read_byte hw P bus slot func PCI_HEADER_HEADER_TYPE_OFFSET;
          bar_count = bar_count_of ht;
          (P2, cmd_orig) = pci_cfg_read_word hw P1 bus slot func PCI_HEADER_COMMAND_OFFSET;
          P3 = pci_cfg_write_word hw P2 bus slot func PCI_HEADER_COMMAND_OFFSET (cmd_orig AND NOT 7);
          (P4, bars') = pci_size_bars_loop hw bus slot func bar_count 0 P3 bars
      in (pci_cfg_write_word hw P4 bus slot func PCI_HEADER_COMMAND_OFFSET cmd_orig, bars'))"

subsection \<open>The scan of the buses\<close>

definition device_update :: "'h pci \<Rightarrow> u64 \<Rightarrow> (pci_device \<Rightarrow> pci_device) \<Rightarrow> 'h pci" where
  "device_update P p f = P\<lparr>pci_device_at := (pci_device_at P)(p := f (pci_device_at P p))\<rparr>"

text \<open>
  One function of a device: its structure is made and pushed, whether or not the push succeeds, and the answer is the bus behind
  it and its address, when there is a bus to scan.
\<close>

definition pci_scan_function ::
  "'h config_hardware \<Rightarrow> u8 \<Rightarrow> u64 \<Rightarrow> u8 \<Rightarrow> u8 \<Rightarrow> 's kernel_scheme \<Rightarrow> 'h pci \<Rightarrow>
   ('s kernel_scheme \<times> 'h pci \<times> (u8 \<times> u64) option) option" where
  "pci_scan_function hw bus parent dev func s P =
     (let (P1, ven) = pci_cfg_read_word hw P bus dev func PCI_HEADER_VENDOR_OFFSET
      in if ven = 0xFFFF then Some (s, P1, None)
         else do {
           (s1, device) \<leftarrow> kzalloc s 176;
           if device = 0 then None
           else let (P2, did) = pci_cfg_read_word hw P1 bus dev func PCI_HEADER_DEVICE_OFFSET;
                    (P3, classreg) = pci_cfg_read_dword hw P2 bus dev func PCI_HEADER_REVISION_ID_OFFSET;
                    (P4, bars) = pci_size_bars hw P3 bus dev func (pci_bars null_pci_device);
                    P5 = P4\<lparr>pci_device_at := (pci_device_at P4)(device := null_pci_device\<lparr>
                      pci_addr := \<lparr>pci_bus = bus, pci_slot = dev, pci_func = func\<rparr>, vendor := ven, device_id := did,
                      class_base := uint (drop_bit 24 classreg AND 0xFF), class_subclass := uint (drop_bit 16 classreg AND 0xFF),
                      parent_bridge := parent, is_bridge := False, primary_bus := bus, secondary_bus := 0, subordinate_bus := 0,
                      pci_bars := bars\<rparr>)\<rparr>
                in do {
                  v \<leftarrow> pci_device_vector P5;
                  (s2, v', _) \<leftarrow> tvec_push s1 v device;
                  let P6 = P5\<lparr>pci_device_vector := Some v'\<rparr>;
                  let (P7, ht) = pci_cfg_read_byte hw P6 bus dev func PCI_HEADER_HEADER_TYPE_OFFSET;
                  if ht AND 0x7F \<noteq> 1 then Some (s2, P7, None)
                  else let (P8, prim) = pci_cfg_read_byte hw P7 bus dev func PCI_BRIDGE_PRIMARY_BUS_OFFSET;
                           (P9, sec) = pci_cfg_read_byte hw P8 bus dev func PCI_BRIDGE_SECONDARY_BUS_OFFSET;
                           (P10, sub) = pci_cfg_read_byte hw P9 bus dev func PCI_BRIDGE_SUBORDINATE_BUS_OFFSET;
                           P11 = device_update P10 device (\<lambda>d. d\<lparr>is_bridge := True, primary_bus := prim, secondary_bus := sec, subordinate_bus := sub\<rparr>)
                       in Some (s2, P11, if sec \<noteq> 0 \<and> sec \<le> sub then Some (sec, device) else None)
                }
         })"

partial_function (option) pci_scan_bus ::
  "'h config_hardware \<Rightarrow> u8 \<Rightarrow> u64 \<Rightarrow> 's kernel_scheme \<times> 'h pci \<Rightarrow> ('s kernel_scheme \<times> 'h pci) option" where
  "pci_scan_bus hw bus parent S = for_each (\<lambda>dev (s, P).
     let (P1, vendor0) = pci_cfg_read_word hw P bus (of_nat dev) 0 PCI_HEADER_VENDOR_OFFSET
     in if vendor0 = 0xFFFF then Some (s, P1)
        else let (P2, hdr0) = pci_cfg_read_byte hw P1 bus (of_nat dev) 0 PCI_HEADER_HEADER_TYPE_OFFSET;
                 func_limit = (if hdr0 AND 0x80 \<noteq> 0 then 8 else 1)
             in for_each (\<lambda>func (s, P). do {
                  (s1, P1, behind) \<leftarrow> pci_scan_function hw bus parent (of_nat dev) (of_nat func) s P;
                  case behind of None \<Rightarrow> Some (s1, P1) | Some (sec, device) \<Rightarrow> pci_scan_bus hw sec device (s1, P1)
                }) [0..<func_limit] (s, P2)) [0..<32] S"

definition pci_init :: "'h config_hardware \<Rightarrow> 's kernel_scheme \<Rightarrow> 'h pci \<Rightarrow> ('s kernel_scheme \<times> 'h pci \<times> int) option" where
  "pci_init hw s P = do {
     (s1, v) \<leftarrow> tvec_new s 8 16;
     if v = None then Some (s1, P\<lparr>pci_device_vector := None\<rparr>, - ENOMEM)
     else do { (s2, P2) \<leftarrow> pci_scan_bus hw 0 0 (s1, P\<lparr>pci_device_vector := v\<rparr>); Some (s2, P2, 0) }
   }"

definition pci_device_count :: "'h pci \<Rightarrow> u64 option" where
  "pci_device_count P = map_option (\<lambda>v. t_elems (tv_header v)) (pci_device_vector P)"

definition pci_device_base_class :: "'h pci \<Rightarrow> u64 \<Rightarrow> int" where
  "pci_device_base_class P d = class_base (pci_device_at P d)"

definition pci_device_subclass :: "'h pci \<Rightarrow> u64 \<Rightarrow> int" where
  "pci_device_subclass P d = class_subclass (pci_device_at P d)"

definition pci_device_get :: "'h pci \<Rightarrow> u64 \<Rightarrow> (int + u64) option" where
  "pci_device_get P i = do {
     n \<leftarrow> pci_device_count P;
     if i \<ge> n then Some (Inl (- EOUTOFRANGE)) else do { v \<leftarrow> pci_device_vector P; tvec_at v i }
   }"

subsection \<open>Bus mastering\<close>

definition command_bits :: "bool \<Rightarrow> bool \<Rightarrow> u16" where
  "command_bits need_io need_mem = 4 OR (if need_mem then 2 else 0) OR (if need_io then 1 else 0)"

definition enable_command :: "'h config_hardware \<Rightarrow> 'h pci \<Rightarrow> u64 \<Rightarrow> u16 \<Rightarrow> 'h pci" where
  "enable_command hw P p bits =
     (let a = pci_addr (pci_device_at P p);
          (P1, cmd) = pci_cfg_read_word hw P (pci_bus a) (pci_slot a) (pci_func a) PCI_HEADER_COMMAND_OFFSET
      in pci_cfg_write_word hw P1 (pci_bus a) (pci_slot a) (pci_func a) PCI_HEADER_COMMAND_OFFSET (cmd OR bits))"

partial_function (option) pci_enable_upstream_path :: "'h config_hardware \<Rightarrow> 'h pci \<Rightarrow> u64 \<Rightarrow> bool \<Rightarrow> bool \<Rightarrow> 'h pci option" where
  "pci_enable_upstream_path hw P p need_io need_mem =
     (if p = 0 then Some P
      else let P1 = enable_command hw P p (command_bits need_io need_mem)
           in pci_enable_upstream_path hw P1 (parent_bridge (pci_device_at P1 p)) need_io need_mem)"

text \<open>The kinds of addresses a device needs: those of its registers that have a size and are no upper halves.\<close>

definition bar_counts :: "pci_device_bar \<Rightarrow> bool" where
  "bar_counts bar \<longleftrightarrow> bar_size bar \<noteq> 0 \<and> bar_flags bar AND PCI_DEVICE_BAR_FLAG_IS_EXT = 0"

definition needs_mem :: "pci_device_bar list \<Rightarrow> bool" where
  "needs_mem bars \<longleftrightarrow> list_ex (\<lambda>bar. bar_counts bar \<and> bar_type bar = PCI_DEVICE_IO_MEMORY) bars"

definition needs_io :: "pci_device_bar list \<Rightarrow> bool" where
  "needs_io bars \<longleftrightarrow> list_ex (\<lambda>bar. bar_counts bar \<and> bar_type bar \<noteq> PCI_DEVICE_IO_MEMORY) bars"

definition pci_enable_bus_master :: "'h config_hardware \<Rightarrow> 'h pci \<Rightarrow> u64 \<Rightarrow> 'h pci option" where
  "pci_enable_bus_master hw P d =
     (let bars = pci_bars (pci_device_at P d); need_mem = needs_mem bars; need_io = needs_io bars;
          P1 = enable_command hw P d (command_bits need_io need_mem)
      in if parent_bridge (pci_device_at P1 d) \<noteq> 0
         then pci_enable_upstream_path hw P1 (parent_bridge (pci_device_at P1 d)) need_io need_mem else Some P1)"

subsection \<open>Sizing against the registers\<close>

text \<open>
  What the two ports promise: the address port selects a register, the data port reads it without changing any, and a write
  changes the selected register alone, to what the register makes of its old value and the written one. A base address
  register keeps its bits outside the mask and takes those inside; the bits of the address are in the mask.
\<close>

definition config_ports :: "'h config_hardware \<Rightarrow> ('h \<Rightarrow> u32 \<Rightarrow> u32) \<Rightarrow> (u32 \<Rightarrow> u32 \<Rightarrow> u32 \<Rightarrow> u32) \<Rightarrow> bool" where
  "config_ports hw reg store \<longleftrightarrow> (\<forall>h a v.
     snd (insdw hw (outdw hw h PCI_CFG_ADDRESS a) PCI_DATA_ADDRESS) = reg h a \<and>
     reg (fst (insdw hw (outdw hw h PCI_CFG_ADDRESS a) PCI_DATA_ADDRESS)) = reg h \<and>
     reg (outdw hw (outdw hw h PCI_CFG_ADDRESS a) PCI_DATA_ADDRESS v) = (reg h)(a := store a (reg h a) v))"

definition bar_address :: "u8 \<Rightarrow> u8 \<Rightarrow> u8 \<Rightarrow> nat \<Rightarrow> u32" where
  "bar_address bus slot func i = pci_cfg_addr_legacy bus slot func (PCI_HEADER_BAR0_OFFSET + of_nat (i * 4))"

definition bar_register :: "(u32 \<Rightarrow> u32 \<Rightarrow> u32) \<Rightarrow> u32 \<Rightarrow> bool" where
  "bar_register st m \<longleftrightarrow> (\<forall>old v. st old v = (old AND NOT m) OR (v AND m))"

text \<open>The bars of a list of registers, by their values and masks. The lowest bits of a value are its type.\<close>

definition decode_flags :: "u32 \<Rightarrow> pci_device_bar" where
  "decode_flags v = \<lparr>bar_type = of_bool (bit v 0), bar_flags = (if \<not> bit v 0 \<and> bit v 3 then PCI_DEVICE_BAR_FLAG_PREFETCHABLE else 0),
     bar_addr = 0, bar_size = 0\<rparr>"

definition address_bits :: "u32 \<Rightarrow> u32" where
  "address_bits v = (if bit v 0 then 0xFFFFFFFC else 0xFFFFFFF0)"

definition decode_bar :: "u32 \<Rightarrow> u32 \<Rightarrow> pci_device_bar" where
  "decode_bar v m = (if (v OR m) AND address_bits v = 0 then decode_flags v
     else (decode_flags v)\<lparr>bar_addr := ucast (v AND address_bits v), bar_size := - ucast ((v OR m) AND address_bits v)\<rparr>)"

definition decode_bar64 :: "u32 \<Rightarrow> u32 \<Rightarrow> u32 \<Rightarrow> u32 \<Rightarrow> pci_device_bar" where
  "decode_bar64 v m w k =
     (let mask = push_bit 32 (ucast (w OR k)) OR ucast ((v OR m) AND address_bits v)
      in if mask = 0 then decode_flags v
         else (decode_flags v)\<lparr>bar_addr := push_bit 32 (ucast w) OR ucast (v AND address_bits v), bar_size := - mask,
           bar_flags := bar_flags (decode_flags v) OR PCI_DEVICE_BAR_FLAG_64BIT\<rparr>)"

fun decode_bars :: "(u32 \<times> u32) list \<Rightarrow> pci_device_bar list" where
  "decode_bars [] = []"
| "decode_bars [(v, m)] = [decode_bar v m]"
| "decode_bars ((v, m) # (w, k) # rs) =
     (if \<not> bit v 0 \<and> \<not> bit v 1 \<and> bit v 2
      then decode_bar64 v m w k # \<lparr>bar_type = 0, bar_flags = PCI_DEVICE_BAR_FLAG_IS_EXT, bar_addr = ucast w, bar_size = 0\<rparr> # decode_bars rs
      else decode_bar v m # decode_bars ((w, k) # rs))"

lemma length_decode_bars [simp]: "length (decode_bars rs) = length rs"
  by (induction rs rule: decode_bars.induct) auto

lemma legacy_offset: "pci_cfg_addr_legacy b s f off AND 0xFC = ucast (off AND 0xFC)"
proof -
  have c: "(0xFC :: u32) = push_bit 2 (mask 6)" "(0xFC :: u8) = push_bit 2 (mask 6)"
    by (simp_all add: mask_eq_exp_minus_1)
  have e: "bit (0x80000000 :: int) n \<longleftrightarrow> n = 31" for n
    using bit_exp_iff [of 31 n, where 'a = int] by auto
  show ?thesis unfolding pci_cfg_addr_legacy_def c
    by (rule bit_word_eqI) (auto simp: bit_simps e)
qed

lemma legacy_aligned [simp]: "pci_cfg_addr_legacy b s f (off AND 0xFC) = pci_cfg_addr_legacy b s f off"
  by (simp add: pci_cfg_addr_legacy_def)

lemma legacy_eq_iff: "pci_cfg_addr_legacy b s f o1 = pci_cfg_addr_legacy b s f o2 \<longleftrightarrow> o1 AND 0xFC = o2 AND 0xFC"
proof
  assume "pci_cfg_addr_legacy b s f o1 = pci_cfg_addr_legacy b s f o2"
  then have "(ucast (o1 AND 0xFC) :: u32) = ucast (o2 AND 0xFC)" by (metis legacy_offset)
  then have "ucast (ucast (o1 AND 0xFC) :: u32) = (ucast (ucast (o2 AND 0xFC) :: u32) :: u8)" by (rule arg_cong)
  moreover have "ucast (ucast x :: u32) = x" for x :: u8 by (rule bit_word_eqI) (simp add: bit_simps)
  ultimately show "o1 AND 0xFC = o2 AND 0xFC" by simp
next
  assume "o1 AND 0xFC = o2 AND 0xFC"
  then show "pci_cfg_addr_legacy b s f o1 = pci_cfg_addr_legacy b s f o2" by (metis legacy_aligned)
qed

lemma no_pointer [simp]: "\<not> g_ecam_enabled P \<Longrightarrow> pci_ecam_cfg_ptr P b s f off = 0"
  by (simp add: pci_ecam_cfg_ptr_def)

lemma read_dword_ports:
  assumes "config_ports hw reg store" "\<not> g_ecam_enabled P"
  obtains h where "pci_cfg_read_dword hw P b s f off = (P\<lparr>hardware := h\<rparr>, reg (hardware P) (pci_cfg_addr_legacy b s f off))"
    "reg h = reg (hardware P)"
proof
  let ?r = "insdw hw (outdw hw (hardware P) PCI_CFG_ADDRESS (pci_cfg_addr_legacy b s f off)) PCI_DATA_ADDRESS"
  show "reg (fst ?r) = reg (hardware P)" using assms(1) by (simp add: config_ports_def)
  have "snd ?r = reg (hardware P) (pci_cfg_addr_legacy b s f off)" using assms(1) by (simp add: config_ports_def)
  then show "pci_cfg_read_dword hw P b s f off = (P\<lparr>hardware := fst ?r\<rparr>, reg (hardware P) (pci_cfg_addr_legacy b s f off))"
    by (simp add: pci_cfg_read_dword_def config_read_def assms(2) case_prod_beta)
qed

lemma write_dword_ports:
  assumes "config_ports hw reg store" "\<not> g_ecam_enabled P"
  obtains h where "pci_cfg_write_dword hw P b s f off v = P\<lparr>hardware := h\<rparr>"
    "reg h = (reg (hardware P))(pci_cfg_addr_legacy b s f off := store (pci_cfg_addr_legacy b s f off) (reg (hardware P) (pci_cfg_addr_legacy b s f off)) v)"
proof
  let ?h = "outdw hw (outdw hw (hardware P) PCI_CFG_ADDRESS (pci_cfg_addr_legacy b s f off)) PCI_DATA_ADDRESS v"
  show "reg ?h = (reg (hardware P))(pci_cfg_addr_legacy b s f off := store (pci_cfg_addr_legacy b s f off) (reg (hardware P) (pci_cfg_addr_legacy b s f off)) v)"
    using assms(1) by (simp add: config_ports_def)
  show "pci_cfg_write_dword hw P b s f off v = P\<lparr>hardware := ?h\<rparr>"
    by (simp add: pci_cfg_write_dword_def config_write_def assms(2))
qed

lemma masked_store:
  assumes "bar_register st m"
  shows "st v 0xFFFFFFFF = v OR m" "st (v OR m) v = v"
proof -
  have st: "st old v = (old AND NOT m) OR (v AND m)" for old v using assms by (simp add: bar_register_def)
  have f: "(0xFFFFFFFF :: u32) = - 1" by simp
  show "st v 0xFFFFFFFF = v OR m" unfolding st f by (rule bit_word_eqI) (auto simp: bit_simps)
  show "st (v OR m) v = v" unfolding st by (rule bit_word_eqI) (auto simp: bit_simps)
qed

lemma type_bits:
  fixes v :: u32
  shows "v AND 1 \<noteq> 0 \<longleftrightarrow> bit v 0" "v AND 8 \<noteq> 0 \<longleftrightarrow> bit v 3"
    "drop_bit 1 v AND 3 = 2 \<longleftrightarrow> \<not> bit v 1 \<and> bit v 2"
proof -
  show "v AND 1 \<noteq> 0 \<longleftrightarrow> bit v 0" by (simp add: and_one_eq bit_0 odd_iff_mod_2_eq_one)
  have "(8 :: u32) = push_bit 3 1" by simp
  then show "v AND 8 \<noteq> 0 \<longleftrightarrow> bit v 3" by (metis bit_iff_and_push_bit_not_eq_0)
  show "drop_bit 1 v AND 3 = 2 \<longleftrightarrow> \<not> bit v 1 \<and> bit v 2"
  proof
    assume a: "drop_bit 1 v AND 3 = 2"
    have "bit (drop_bit 1 v AND 3) n \<longleftrightarrow> bit (2 :: u32) n" for n using a by simp
    from this [of 0] this [of 1] show "\<not> bit v 1 \<and> bit v 2" by (simp add: bit_and_iff bit_drop_bit_eq numeral_2_eq_2)
  next
    assume a: "\<not> bit v 1 \<and> bit v 2"
    show "drop_bit 1 v AND 3 = 2"
    proof (rule bit_word_eqI)
      fix n
      show "bit (drop_bit 1 v AND 3) n \<longleftrightarrow> bit (2 :: u32) n"
        using a by (cases n; cases "n - 1") (auto simp: bit_and_iff bit_drop_bit_eq numeral_2_eq_2)
    qed
  qed
qed


lemma write_at:
  assumes "config_ports hw reg st" "\<not> g_ecam_enabled P" "reg h = R" "a = pci_cfg_addr_legacy b s f off" "R' = R(a := st a (R a) v)"
  shows "\<exists>h'. pci_cfg_write_dword hw (P\<lparr>hardware := h\<rparr>) b s f off v = P\<lparr>hardware := h'\<rparr> \<and> reg h' = R'"
proof -
  have "\<not> g_ecam_enabled (P\<lparr>hardware := h\<rparr>)" using assms(2) by simp
  from write_dword_ports [OF assms(1) this, of b s f off v]
  obtain h' where "pci_cfg_write_dword hw (P\<lparr>hardware := h\<rparr>) b s f off v = (P\<lparr>hardware := h\<rparr>)\<lparr>hardware := h'\<rparr>"
    "reg h' = (reg (hardware (P\<lparr>hardware := h\<rparr>)))(a := st a (reg (hardware (P\<lparr>hardware := h\<rparr>)) a) v)"
    unfolding assms(4) by blast
  then show ?thesis using assms(3,5) by auto
qed

lemma read_at:
  assumes "config_ports hw reg st" "\<not> g_ecam_enabled P" "reg h = R" "a = pci_cfg_addr_legacy b s f off" "v = R a"
  shows "\<exists>h'. pci_cfg_read_dword hw (P\<lparr>hardware := h\<rparr>) b s f off = (P\<lparr>hardware := h'\<rparr>, v) \<and> reg h' = R"
proof -
  have "\<not> g_ecam_enabled (P\<lparr>hardware := h\<rparr>)" using assms(2) by simp
  from read_dword_ports [OF assms(1) this, of b s f off]
  obtain h' where "pci_cfg_read_dword hw (P\<lparr>hardware := h\<rparr>) b s f off =
      ((P\<lparr>hardware := h\<rparr>)\<lparr>hardware := h'\<rparr>, reg (hardware (P\<lparr>hardware := h\<rparr>)) (pci_cfg_addr_legacy b s f off))"
    "reg h' = reg (hardware (P\<lparr>hardware := h\<rparr>))" by blast
  then show ?thesis using assms(3,4,5) by auto
qed

lemma size_register_ports:
  assumes cp: "config_ports hw reg st" "\<not> g_ecam_enabled P" "reg h = R"
    and br: "bar_register (st (pci_cfg_addr_legacy b s f off)) m" and v: "v = R (pci_cfg_addr_legacy b s f off)"
  shows "\<exists>h'. size_register hw (P\<lparr>hardware := h\<rparr>) b s f off v = (P\<lparr>hardware := h'\<rparr>, v OR m) \<and> reg h' = R"
proof -
  let ?a = "pci_cfg_addr_legacy b s f off" and ?R1 = "R(pci_cfg_addr_legacy b s f off := v OR m)"
  have r1: "?R1 = R(?a := st ?a (R ?a) 0xFFFFFFFF)" using masked_store(1) [OF br, of v] v by simp
  have r2: "R = ?R1(?a := st ?a (?R1 ?a) v)" using masked_store(2) [OF br, of v] v by simp
  obtain h1 where h1: "pci_cfg_write_dword hw (P\<lparr>hardware := h\<rparr>) b s f off 0xFFFFFFFF = P\<lparr>hardware := h1\<rparr>" "reg h1 = ?R1"
    using write_at [OF cp refl r1] by blast
  obtain h2 where h2: "pci_cfg_read_dword hw (P\<lparr>hardware := h1\<rparr>) b s f off = (P\<lparr>hardware := h2\<rparr>, v OR m)" "reg h2 = ?R1"
    using read_at [OF cp(1,2) h1(2) refl] by (metis fun_upd_same)
  obtain h3 where "pci_cfg_write_dword hw (P\<lparr>hardware := h2\<rparr>) b s f off v = P\<lparr>hardware := h3\<rparr>" "reg h3 = R"
    using write_at [OF cp(1,2) h2(2) refl r2] by blast
  then show ?thesis by (auto simp: size_register_def h1(1) h2(1))
qed

lemma bar_offset_distinct:
  assumes "i < 6" "j < 6" "i \<noteq> j"
  shows "bar_address b s f i \<noteq> bar_address b s f j"
proof -
  have "i \<in> {0, 1, 2, 3, 4, 5}" "j \<in> {0, 1, 2, 3, 4, 5}" using assms by auto
  then show ?thesis using assms(3) by (auto simp: bar_address_def legacy_eq_iff)
qed

lemma command_not_bar:
  assumes "i < 6"
  shows "pci_cfg_addr_legacy b s f PCI_HEADER_COMMAND_OFFSET \<noteq> bar_address b s f i"
proof -
  have "i \<in> {0, 1, 2, 3, 4, 5}" using assms by auto
  then show ?thesis by (auto simp: bar_address_def legacy_eq_iff)
qed

lemma bar32_decode:
  "bar32 \<lparr>bar_type = (if v AND 1 \<noteq> 0 then 1 else 0), bar_flags = (if \<not> (v AND 1 \<noteq> 0) \<and> v AND 8 \<noteq> 0 then 4 else 0), bar_addr = 0, bar_size = 0\<rparr>
     (v AND address_bits v) ((v OR m) AND address_bits v) = decode_bar v m"
  unfolding type_bits
  by (simp add: bar32_def decode_bar_def decode_flags_def minus_eq_not_plus_1)

lemma size64_ports:
  assumes cp: "config_ports hw reg st" "\<not> g_ecam_enabled P" "reg h = R"
    and br: "bar_register (st a) m" "bar_register (st a') k" and ne: "a \<noteq> a'"
    and a: "a = pci_cfg_addr_legacy b s f off" "a' = pci_cfg_addr_legacy b s f off'"
    and v: "v = R a" and w: "w = R a'"
  obtains h1 h2 h3 h4 h5 h6 where "pci_cfg_write_dword hw (P\<lparr>hardware := h\<rparr>) b s f off 0xFFFFFFFF = P\<lparr>hardware := h1\<rparr>"
    "pci_cfg_write_dword hw (P\<lparr>hardware := h1\<rparr>) b s f off' 0xFFFFFFFF = P\<lparr>hardware := h2\<rparr>"
    "pci_cfg_read_dword hw (P\<lparr>hardware := h2\<rparr>) b s f off = (P\<lparr>hardware := h3\<rparr>, v OR m)"
    "pci_cfg_read_dword hw (P\<lparr>hardware := h3\<rparr>) b s f off' = (P\<lparr>hardware := h4\<rparr>, w OR k)"
    "pci_cfg_write_dword hw (P\<lparr>hardware := h4\<rparr>) b s f off v = P\<lparr>hardware := h5\<rparr>"
    "pci_cfg_write_dword hw (P\<lparr>hardware := h5\<rparr>) b s f off' w = P\<lparr>hardware := h6\<rparr>" "reg h6 = R"
proof -
  let ?R1 = "R(a := v OR m)" and ?R2 = "R(a := v OR m, a' := w OR k)" and ?R3 = "R(a' := w OR k)"
  have r: "?R1 = R(a := st a (R a) 0xFFFFFFFF)" "?R2 = ?R1(a' := st a' (?R1 a') 0xFFFFFFFF)"
    "?R3 = ?R2(a := st a (?R2 a) v)" "R = ?R3(a' := st a' (?R3 a') w)" "v OR m = ?R2 a" "w OR k = ?R2 a'"
    using ne masked_store [OF br(1), of v] masked_store [OF br(2), of w] v w by (auto simp: fun_eq_iff)
  obtain h1 where h1: "pci_cfg_write_dword hw (P\<lparr>hardware := h\<rparr>) b s f off 0xFFFFFFFF = P\<lparr>hardware := h1\<rparr>" "reg h1 = ?R1"
    using write_at [where st = st and R = "R", OF cp a(1) r(1)] by (elim exE conjE) (rule that)
  obtain h2 where h2: "pci_cfg_write_dword hw (P\<lparr>hardware := h1\<rparr>) b s f off' 0xFFFFFFFF = P\<lparr>hardware := h2\<rparr>" "reg h2 = ?R2"
    using write_at [where st = st and R = "?R1", OF cp(1,2) h1(2) a(2) r(2)] by (elim exE conjE) (rule that)
  obtain h3 where h3: "pci_cfg_read_dword hw (P\<lparr>hardware := h2\<rparr>) b s f off = (P\<lparr>hardware := h3\<rparr>, v OR m)" "reg h3 = ?R2"
    using read_at [where st = st and R = "?R2", OF cp(1,2) h2(2) a(1) r(5)] by (elim exE conjE) (rule that)
  obtain h4 where h4: "pci_cfg_read_dword hw (P\<lparr>hardware := h3\<rparr>) b s f off' = (P\<lparr>hardware := h4\<rparr>, w OR k)" "reg h4 = ?R2"
    using read_at [where st = st and R = "?R2", OF cp(1,2) h3(2) a(2) r(6)] by (elim exE conjE) (rule that)
  obtain h5 where h5: "pci_cfg_write_dword hw (P\<lparr>hardware := h4\<rparr>) b s f off v = P\<lparr>hardware := h5\<rparr>" "reg h5 = ?R3"
    using write_at [where st = st and R = "?R2", OF cp(1,2) h4(2) a(1) r(3)] by (elim exE conjE) (rule that)
  obtain h6 where h6: "pci_cfg_write_dword hw (P\<lparr>hardware := h5\<rparr>) b s f off' w = P\<lparr>hardware := h6\<rparr>" "reg h6 = R"
    using write_at [where st = st and R = "?R3", OF cp(1,2) h5(2) a(2) r(4)] by (elim exE conjE) (rule that)
  show thesis by (rule that [OF h1(1) h2(1) h3(1) h4(1) h5(1) h6])
qed

lemma bar64_decode:
  assumes "\<not> bit v 0"
  shows "(if push_bit 32 (ucast (w OR k)) OR ucast ((v OR m) AND 0xFFFFFFF0) = (0 :: u64)
     then \<lparr>bar_type = (if v AND 1 \<noteq> 0 then 1 else 0), bar_flags = (if \<not> (v AND 1 \<noteq> 0) \<and> v AND 8 \<noteq> 0 then 4 else 0), bar_addr = 0, bar_size = 0\<rparr>
     else \<lparr>bar_type = (if v AND 1 \<noteq> 0 then 1 else 0), bar_flags = (if \<not> (v AND 1 \<noteq> 0) \<and> v AND 8 \<noteq> 0 then 4 else 0), bar_addr = 0, bar_size = 0\<rparr>
       \<lparr>bar_addr := push_bit 32 (ucast w) OR ucast (v AND 0xFFFFFFF0), bar_size := NOT (push_bit 32 (ucast (w OR k)) OR ucast ((v OR m) AND 0xFFFFFFF0)) + 1,
        bar_flags := (if \<not> (v AND 1 \<noteq> 0) \<and> v AND 8 \<noteq> 0 then 4 else 0) OR 1\<rparr>) = decode_bar64 v m w k"
  unfolding type_bits using assms
  by (simp add: decode_bar64_def decode_flags_def address_bits_def minus_eq_not_plus_1)

lemma upper_half: "drop_bit 32 (push_bit 32 (ucast w) OR ucast v :: u64) = ucast w" for w v :: u32
  by (rule bit_word_eqI) (auto simp: bit_simps dest: bit_imp_le_length)

lemma size_bars_loop_ports:
  assumes cp: "config_ports hw reg st" "\<not> g_ecam_enabled P" "n \<le> 6"
    and br: "\<And>i. i < n \<Longrightarrow> bar_register (st (bar_address b s f i)) (m i)"
  shows "\<lbrakk>reg h = R; i \<le> n; length bars = 6\<rbrakk> \<Longrightarrow> \<exists>h'. reg h' = R \<and>
    pci_size_bars_loop hw b s f n i (P\<lparr>hardware := h\<rparr>) bars =
      (P\<lparr>hardware := h'\<rparr>, take i bars @ decode_bars (map (\<lambda>j. (R (bar_address b s f j), m j)) [i..<n]) @ drop n bars)"
proof (induction "n - i" arbitrary: h i bars rule: less_induct)
  case less
  let ?rs = "\<lambda>i. map (\<lambda>j. (R (bar_address b s f j), m j)) [i..<n]"
  show ?case
  proof (cases "i = n")
    case True
    then show ?thesis using less.prems by (auto simp: pci_size_bars_loop.simps)
  next
    case False
    then have i: "i < n" "i < 6" and ge: "\<not> n \<le> i" using less.prems cp(3) by auto
    let ?a = "bar_address b s f i"
    let ?v = "R ?a"
    obtain off where off: "off = PCI_HEADER_BAR0_OFFSET + of_nat (i * 4)" by blast
    have a: "?a = pci_cfg_addr_legacy b s f off" unfolding off by (simp add: bar_address_def)
    have rs: "?rs i = (?v, m i) # ?rs (Suc i)" using i(1) by (simp add: upt_conv_Cons)
    obtain h1 where h1: "pci_cfg_read_dword hw (P\<lparr>hardware := h\<rparr>) b s f off = (P\<lparr>hardware := h1\<rparr>, ?v)" "reg h1 = R"
      using read_at [OF cp(1,2) less.prems(1) a refl] by (elim exE conjE) (rule that)
    have sized: "\<exists>h2. size_register hw (P\<lparr>hardware := h1\<rparr>) b s f off ?v = (P\<lparr>hardware := h2\<rparr>, ?v OR m i) \<and> reg h2 = R"
      using size_register_ports [OF cp(1,2) h1(2), of b s f off "m i" ?v] br [OF i(1)] unfolding a by simp
    note step = pci_size_bars_loop.simps [of hw b s f n i "P\<lparr>hardware := h\<rparr>" bars, folded off]
    show ?thesis
    proof (cases "\<not> bit ?v 0 \<and> \<not> bit ?v 1 \<and> bit ?v 2 \<and> i + 1 < n")
      case True
      let ?a' = "bar_address b s f (Suc i)" and ?w = "R (bar_address b s f (Suc i))"
      have a': "?a' = pci_cfg_addr_legacy b s f (off + 4)" unfolding off by (simp add: bar_address_def algebra_simps)
      have i': "Suc i < n" "Suc i < 6" using True cp(3) by auto
      have ne: "?a \<noteq> ?a'" using bar_offset_distinct [of i "Suc i"] i' by simp
      have rs': "?rs (Suc i) = (?w, m (Suc i)) # ?rs (i + 2)" using i' by (simp add: upt_conv_Cons)
      obtain h2 where h2: "pci_cfg_read_dword hw (P\<lparr>hardware := h1\<rparr>) b s f (off + 4) = (P\<lparr>hardware := h2\<rparr>, ?w)" "reg h2 = R"
        using read_at [OF cp(1,2) h1(2) a' refl] by (elim exE conjE) (rule that)
      obtain g1 g2 g3 g4 g5 g6 where g: "pci_cfg_write_dword hw (P\<lparr>hardware := h2\<rparr>) b s f off 0xFFFFFFFF = P\<lparr>hardware := g1\<rparr>"
        "pci_cfg_write_dword hw (P\<lparr>hardware := g1\<rparr>) b s f (off + 4) 0xFFFFFFFF = P\<lparr>hardware := g2\<rparr>"
        "pci_cfg_read_dword hw (P\<lparr>hardware := g2\<rparr>) b s f off = (P\<lparr>hardware := g3\<rparr>, ?v OR m i)"
        "pci_cfg_read_dword hw (P\<lparr>hardware := g3\<rparr>) b s f (off + 4) = (P\<lparr>hardware := g4\<rparr>, ?w OR m (Suc i))"
        "pci_cfg_write_dword hw (P\<lparr>hardware := g4\<rparr>) b s f off ?v = P\<lparr>hardware := g5\<rparr>"
        "pci_cfg_write_dword hw (P\<lparr>hardware := g5\<rparr>) b s f (off + 4) ?w = P\<lparr>hardware := g6\<rparr>" "reg g6 = R"
        using size64_ports [where m = "m i" and k = "m (Suc i)", OF cp(1,2) h2(2) br [OF i(1)] br [OF i'(1)] ne a a' refl refl] by blast
      let ?ext = "\<lparr>bar_type = 0, bar_flags = PCI_DEVICE_BAR_FLAG_IS_EXT, bar_addr = ucast ?w, bar_size = 0\<rparr>"
      let ?bars = "bars[i := decode_bar64 ?v (m i) ?w (m (Suc i)), Suc i := ?ext]"
      have v0: "\<not> (?v AND 1 \<noteq> 0)" "drop_bit 1 ?v AND 3 = 2" using True unfolding type_bits by auto
      then have c: "drop_bit 1 ?v AND 3 = 2 \<and> i + 1 < n" and nb: "\<not> bit ?v 0" using i' True by auto
      have s: "pci_size_bars_loop hw b s f n i (P\<lparr>hardware := h\<rparr>) bars = pci_size_bars_loop hw b s f n (i + 2) (P\<lparr>hardware := g6\<rparr>) ?bars"
        unfolding step Let_def h1(1) prod.case if_not_P [OF ge] if_not_P [OF v0(1)] if_P [OF c] h2(1) g upper_half
        unfolding bar64_decode [OF nb, symmetric] by (simp add: v0(1))
      have "n - (i + 2) < n - i" "i + 2 \<le> n" "length ?bars = 6" using i' less.prems(3) by auto
      from less.hyps [OF this(1) g(7) this(2,3)] obtain h' where h': "reg h' = R"
        "pci_size_bars_loop hw b s f n (i + 2) (P\<lparr>hardware := g6\<rparr>) ?bars = (P\<lparr>hardware := h'\<rparr>, take (i + 2) ?bars @ decode_bars (?rs (i + 2)) @ drop n ?bars)"
        by blast
      have "take (i + 2) ?bars = take i bars @ [decode_bar64 ?v (m i) ?w (m (Suc i)), ?ext]" "drop n ?bars = drop n bars"
        using i' less.prems(3) by (auto simp: take_Suc_conv_app_nth take_update_swap list_update_append min_def)
      then show ?thesis using h' s True by (auto simp: rs rs')
    next
      case False
      obtain h2 where h2: "size_register hw (P\<lparr>hardware := h1\<rparr>) b s f off ?v = (P\<lparr>hardware := h2\<rparr>, ?v OR m i)" "reg h2 = R"
        using sized by blast
      let ?bars = "bars[i := decode_bar ?v (m i)]"
      have b1: "(?v AND 1 \<noteq> 0) = bit ?v 0" "(drop_bit 1 ?v AND 3 = 2) = (\<not> bit ?v 1 \<and> bit ?v 2)" by (rule type_bits)+
      have s: "pci_size_bars_loop hw b s f n i (P\<lparr>hardware := h\<rparr>) bars = pci_size_bars_loop hw b s f n (Suc i) (P\<lparr>hardware := h2\<rparr>) ?bars"
      proof (cases "bit ?v 0")
        case True
        then have v: "?v AND 1 \<noteq> 0" "address_bits ?v = 0xFFFFFFFC" by (simp_all only: b1 address_bits_def if_True)
        show ?thesis
          unfolding step Let_def h1(1) prod.case if_not_P [OF ge] if_P [OF v(1)] h2(1) bar32_decode [of ?v "m i", unfolded v(2) if_P [OF v(1)], symmetric]
          by (simp add: v)
      next
        case v0: False
        then have v: "\<not> (?v AND 1 \<noteq> 0)" "\<not> (drop_bit 1 ?v AND 3 = 2 \<and> i + 1 < n)" "address_bits ?v = 0xFFFFFFF0"
          using False by (auto simp only: b1 address_bits_def if_False)
        show ?thesis
          unfolding step Let_def h1(1) prod.case if_not_P [OF ge] if_not_P [OF v(1)] if_not_P [OF v(2)] h2(1)
            bar32_decode [of ?v "m i", unfolded v(3) if_not_P [OF v(1)], symmetric]
          by (simp add: v)
      qed
      have "n - Suc i < n - i" "Suc i \<le> n" "length ?bars = 6" using i less.prems(3) by auto
      from less.hyps [OF this(1) h2(2) this(2,3)] obtain h' where h': "reg h' = R"
        "pci_size_bars_loop hw b s f n (Suc i) (P\<lparr>hardware := h2\<rparr>) ?bars = (P\<lparr>hardware := h'\<rparr>, take (Suc i) ?bars @ decode_bars (?rs (Suc i)) @ drop n ?bars)"
        by blast
      have t: "take (Suc i) ?bars = take i bars @ [decode_bar ?v (m i)]" "drop n ?bars = drop n bars"
        using i less.prems(3) by (auto simp: take_Suc_conv_app_nth)
      have "decode_bars (?rs i) = decode_bar ?v (m i) # decode_bars (?rs (Suc i))"
      proof (cases "Suc i < n")
        case True
        then have "?rs (Suc i) = (R (bar_address b s f (Suc i)), m (Suc i)) # ?rs (Suc (Suc i))" by (simp add: upt_conv_Cons)
        then show ?thesis using False True by (auto simp: rs)
      qed (use i in \<open>auto simp: rs\<close>)
      then show ?thesis using h' s t by auto
    qed
  qed
qed


lemma read_word_ports:
  assumes "config_ports hw reg st" "\<not> g_ecam_enabled P" "reg h = R"
  shows "\<exists>h' v. pci_cfg_read_word hw (P\<lparr>hardware := h\<rparr>) b s f off = (P\<lparr>hardware := h'\<rparr>, v) \<and> reg h' = R"
  using read_at [OF assms refl refl, of b s f off] assms(2)
  by (auto simp: pci_cfg_read_word_def pci_cfg_read_dword_def Let_def split: prod.splits)

lemma read_byte_ports:
  assumes "config_ports hw reg st" "\<not> g_ecam_enabled P" "reg h = R"
  shows "\<exists>h'. pci_cfg_read_byte hw (P\<lparr>hardware := h\<rparr>) b s f off =
      (P\<lparr>hardware := h'\<rparr>, ucast (drop_bit (unat (off AND 3) * 8) (R (pci_cfg_addr_legacy b s f off)))) \<and> reg h' = R"
  using read_at [OF assms refl refl, of b s f "off AND 0xFC"]
  by (auto simp: pci_cfg_read_byte_def)

lemma write_word_ports:
  assumes "config_ports hw reg st" "\<not> g_ecam_enabled P" "reg h = R"
  shows "\<exists>h'. pci_cfg_write_word hw (P\<lparr>hardware := h\<rparr>) b s f off v = P\<lparr>hardware := h'\<rparr> \<and>
    (\<forall>a. a \<noteq> pci_cfg_addr_legacy b s f off \<longrightarrow> reg h' a = R a)"
proof -
  obtain h1 w where h1: "pci_cfg_read_dword hw (P\<lparr>hardware := h\<rparr>) b s f off = (P\<lparr>hardware := h1\<rparr>, w)" "reg h1 = R"
    using read_at [OF assms refl refl, of b s f off] by blast
  obtain x where x: "pci_cfg_write_word hw (P\<lparr>hardware := h\<rparr>) b s f off v = pci_cfg_write_dword hw (P\<lparr>hardware := h1\<rparr>) b s f off x"
    using h1(1) assms(2) by (simp add: pci_cfg_write_word_def pci_cfg_read_dword_def pci_cfg_write_dword_def Let_def)
  show ?thesis
    unfolding x using write_at [OF assms(1,2) h1(2) refl refl, of b s f off x] by auto
qed

lemma size_bars_ports:
  assumes cp: "config_ports hw reg st" "\<not> g_ecam_enabled P"
    and n: "n = bar_count_of (ucast (drop_bit 16 (reg (hardware P) (pci_cfg_addr_legacy b s f PCI_HEADER_HEADER_TYPE_OFFSET))))"
    and br: "\<And>i. i < n \<Longrightarrow> bar_register (st (bar_address b s f i)) (m i)"
  shows "\<exists>h. pci_size_bars hw P b s f (replicate 6 null_bar) =
      (P\<lparr>hardware := h\<rparr>, decode_bars (map (\<lambda>i. (reg (hardware P) (bar_address b s f i), m i)) [0..<n]) @ replicate (6 - n) null_bar) \<and>
    (\<forall>a. a \<noteq> pci_cfg_addr_legacy b s f PCI_HEADER_COMMAND_OFFSET \<longrightarrow> reg h a = reg (hardware P) a)"
proof -
  let ?R = "reg (hardware P)" and ?c = "pci_cfg_addr_legacy b s f PCI_HEADER_COMMAND_OFFSET"
  have n6: "n \<le> 6" using n by (simp add: bar_count_of_def split: if_splits)
  have P: "P = P\<lparr>hardware := hardware P\<rparr>" by simp
  obtain h1 where h1: "pci_cfg_read_byte hw P b s f PCI_HEADER_HEADER_TYPE_OFFSET =
      (P\<lparr>hardware := h1\<rparr>, ucast (drop_bit 16 (?R (pci_cfg_addr_legacy b s f PCI_HEADER_HEADER_TYPE_OFFSET))))" "reg h1 = ?R"
    using read_byte_ports [OF cp refl, of "hardware P" b s f PCI_HEADER_HEADER_TYPE_OFFSET] by auto
  obtain h2 cmd where h2: "pci_cfg_read_word hw (P\<lparr>hardware := h1\<rparr>) b s f PCI_HEADER_COMMAND_OFFSET = (P\<lparr>hardware := h2\<rparr>, cmd)" "reg h2 = ?R"
    using read_word_ports [OF cp h1(2)] by blast
  obtain h3 where h3: "pci_cfg_write_word hw (P\<lparr>hardware := h2\<rparr>) b s f PCI_HEADER_COMMAND_OFFSET (cmd AND NOT 7) = P\<lparr>hardware := h3\<rparr>"
    "\<And>a. a \<noteq> ?c \<Longrightarrow> reg h3 a = ?R a"
    using write_word_ports [OF cp h2(2)] by blast
  obtain h4 where h4: "pci_size_bars_loop hw b s f n 0 (P\<lparr>hardware := h3\<rparr>) (replicate 6 null_bar) =
      (P\<lparr>hardware := h4\<rparr>, decode_bars (map (\<lambda>i. (reg h3 (bar_address b s f i), m i)) [0..<n]) @ replicate (6 - n) null_bar)" "reg h4 = reg h3"
    using size_bars_loop_ports [OF cp n6 br refl, of 0 "replicate 6 null_bar" h3] by auto
  obtain h5 where h5: "pci_cfg_write_word hw (P\<lparr>hardware := h4\<rparr>) b s f PCI_HEADER_COMMAND_OFFSET cmd = P\<lparr>hardware := h5\<rparr>"
    "\<And>a. a \<noteq> ?c \<Longrightarrow> reg h5 a = reg h3 a"
    using write_word_ports [OF cp h4(2), of b s f PCI_HEADER_COMMAND_OFFSET cmd] by blast
  have e: "map (\<lambda>i. (reg h3 (bar_address b s f i), m i)) [0..<n] = map (\<lambda>i. (?R (bar_address b s f i), m i)) [0..<n]"
    using n6 h3(2) command_not_bar by (intro map_cong refl) (metis atLeastLessThan_iff set_upt order_less_le_trans)
  have "pci_size_bars hw P b s f (replicate 6 null_bar) = (P\<lparr>hardware := h5\<rparr>, snd (pci_size_bars_loop hw b s f n 0 (P\<lparr>hardware := h3\<rparr>) (replicate 6 null_bar)))"
    unfolding pci_size_bars_def Let_def h1(1) prod.case n [symmetric] h2(1) h3(1) h4(1) h5(1) snd_conv by (rule refl)
  then have "pci_size_bars hw P b s f (replicate 6 null_bar) =
      (P\<lparr>hardware := h5\<rparr>, decode_bars (map (\<lambda>i. (?R (bar_address b s f i), m i)) [0..<n]) @ replicate (6 - n) null_bar)"
    unfolding h4(1) snd_conv e .
  then show ?thesis using h3(2) h5(2) by (intro exI [of _ h5]) simp
qed

subsection \<open>Properties\<close>

text \<open>
  C23. \<^bold>\<open>Sizing base address registers.\<close> When the registers are reached through the two ports, no range of mapped registers being
  installed, and every base address register takes written bits inside a mask of its own and keeps the others, \<open>pci_size_bars\<close> gives the bars that their values
  and masks mean, with the sizes as the code negates them, pairs the two halves of 64-bit registers, and leaves every register but the command register as it was.
\<close>

theorem pci_size_bars_decodes:
  assumes "config_ports hw reg st" "\<not> g_ecam_enabled P"
    and "n = bar_count_of (ucast (drop_bit 16 (reg (hardware P) (pci_cfg_addr_legacy b s f PCI_HEADER_HEADER_TYPE_OFFSET))))"
    and "\<And>i. i < n \<Longrightarrow> bar_register (st (bar_address b s f i)) (m i)"
  shows "\<exists>h. pci_size_bars hw P b s f (replicate 6 null_bar) =
      (P\<lparr>hardware := h\<rparr>, decode_bars (map (\<lambda>i. (reg (hardware P) (bar_address b s f i), m i)) [0..<n]) @ replicate (6 - n) null_bar) \<and>
    (\<forall>a. a \<noteq> pci_cfg_addr_legacy b s f PCI_HEADER_COMMAND_OFFSET \<longrightarrow> reg h a = reg (hardware P) a)"
  using assms by (rule size_bars_ports)

text \<open>Hardware whose registers are a function, with a selected address. A write to a register reaches the bits of its mask.\<close>

definition sample_ports :: "(u32 \<Rightarrow> u32) \<Rightarrow> (u32 \<times> (u32 \<Rightarrow> u32)) config_hardware" where
  "sample_ports mask_of = \<lparr>outdw = (\<lambda>(a, R) port v. if port = PCI_CFG_ADDRESS then (v, R) else (a, R(a := (R a AND NOT (mask_of a)) OR (v AND mask_of a)))),
     insdw = (\<lambda>(a, R) port. ((a, R), R a)), mapped_read = (\<lambda>h p. (h, 0)), mapped_write = (\<lambda>h p v. h)\<rparr>"

lemma sample_ports: "config_ports (sample_ports mask_of) snd (\<lambda>a old v. (old AND NOT (mask_of a)) OR (v AND mask_of a))"
  by (auto simp: config_ports_def sample_ports_def)

text \<open>A device with a 64-bit memory bar of 16 KB, a port bar of 256 bytes and a 32-bit memory bar of 4 KB.\<close>

definition sample_masks :: "u32 \<Rightarrow> u32" where
  "sample_masks a = (if a = 0x80000010 then 0xFFFFC000 else if a = 0x80000014 then 0xFFFFFFFF
     else if a = 0x80000018 then 0xFFFFFF00 else if a = 0x8000001C then 0xFFFFF000 else 0)"

definition sample_values :: "u32 \<Rightarrow> u32" where
  "sample_values a = (if a = 0x80000010 then 0xFE000004 else if a = 0x80000014 then 0x1
     else if a = 0x80000018 then 0xC001 else if a = 0x8000001C then 0xFD000008 else 0)"

definition sample_pci :: "(u32 \<times> (u32 \<Rightarrow> u32)) pci" where
  "sample_pci = \<lparr>hardware = (0, sample_values), g_ecam = [], g_ecam_enabled = False, pci_device_vector = None, pci_device_at = (\<lambda>a. null_pci_device)\<rparr>"

theorem pci_size_bars_decodes_witness:
  "\<exists>h. pci_size_bars (sample_ports sample_masks) sample_pci 0 0 0 (replicate 6 null_bar) =
      (sample_pci\<lparr>hardware := h\<rparr>,
       [\<lparr>bar_type = 0, bar_flags = 1, bar_addr = 0x1FE000000, bar_size = 0x4000\<rparr>, \<lparr>bar_type = 0, bar_flags = 2, bar_addr = 1, bar_size = 0\<rparr>,
        \<lparr>bar_type = 1, bar_flags = 0, bar_addr = 0xC000, bar_size = 0xFFFFFFFF00000100\<rparr>, \<lparr>bar_type = 0, bar_flags = 4, bar_addr = 0xFD000000, bar_size = 0xFFFFFFFF00001000\<rparr>,
        null_bar, null_bar])"
proof -
  have "\<exists>h. pci_size_bars (sample_ports sample_masks) sample_pci 0 0 0 (replicate 6 null_bar) =
      (sample_pci\<lparr>hardware := h\<rparr>, decode_bars (map (\<lambda>i. (snd (hardware sample_pci) (bar_address 0 0 0 i), sample_masks (bar_address 0 0 0 i))) [0..<6]) @ replicate (6 - 6) null_bar) \<and>
    (\<forall>a. a \<noteq> pci_cfg_addr_legacy 0 0 0 PCI_HEADER_COMMAND_OFFSET \<longrightarrow> snd h a = snd (hardware sample_pci) a)"
    by (rule pci_size_bars_decodes [OF sample_ports])
      (simp_all add: sample_pci_def bar_register_def bar_count_of_def sample_values_def pci_cfg_addr_legacy_def)
  moreover have "decode_bars (map (\<lambda>i. (snd (hardware sample_pci) (bar_address 0 0 0 i), sample_masks (bar_address 0 0 0 i))) [0..<6]) =
      [\<lparr>bar_type = 0, bar_flags = 1, bar_addr = 0x1FE000000, bar_size = 0x4000\<rparr>, \<lparr>bar_type = 0, bar_flags = 2, bar_addr = 1, bar_size = 0\<rparr>,
        \<lparr>bar_type = 1, bar_flags = 0, bar_addr = 0xC000, bar_size = 0xFFFFFFFF00000100\<rparr>, \<lparr>bar_type = 0, bar_flags = 4, bar_addr = 0xFD000000, bar_size = 0xFFFFFFFF00001000\<rparr>,
        null_bar, null_bar]"
    by code_simp
  ultimately show ?thesis by auto
qed

text \<open>
  \<^bold>\<open>Sizes are too large.\<close> The size recorded for a 32-bit memory register is too large: a register that decodes \<open>2 ^ k\<close> bytes has
  \<open>2 ^ 64 - 2 ^ 32 + 2 ^ k\<close>, because the mask is extended to 64 bits before it is negated.
\<close>

theorem pci_bar32_size_extended:
  assumes "config_ports hw reg st" "\<not> g_ecam_enabled P"
    and "n = bar_count_of (ucast (drop_bit 16 (reg (hardware P) (pci_cfg_addr_legacy b s f PCI_HEADER_HEADER_TYPE_OFFSET))))" "0 < n"
    and "\<And>i. i < n \<Longrightarrow> bar_register (st (bar_address b s f i)) (m i)"
    and v: "v = reg (hardware P) (bar_address b s f 0)" "\<not> bit v 0" "\<not> bit v 2"
    and k: "m 0 = - (2 ^ k)" "4 \<le> k" "k < 32" "v AND NOT (m 0) AND 0xFFFFFFF0 = 0"
  shows "unat (bar_size (snd (pci_size_bars hw P b s f (replicate 6 null_bar)) ! 0)) = 2 ^ 64 - 2 ^ 32 + 2 ^ k"
proof -
  have n: "[0..<n] = 0 # [1..<n]" using assms(4) by (simp add: upt_conv_Cons)
  have m: "m 0 = NOT (mask k)" and f: "(0xFFFFFFF0 :: u32) = NOT (mask 4)" using k(1) by (simp_all add: mask_eq_exp_minus_1 minus_exp_eq_not_mask)
  have masked: "(v OR m 0) AND 0xFFFFFFF0 = m 0"
  proof (rule bit_word_eqI)
    fix i assume i: "i < LENGTH(32)"
    have "\<not> bit (v AND NOT (m 0) AND 0xFFFFFFF0) i" using k(4) by simp
    then show "bit ((v OR m 0) AND 0xFFFFFFF0) i = bit (m 0) i" using i k(2) unfolding m f by (auto simp: bit_simps)
  qed
  have "m 0 \<noteq> 0"
  proof
    assume "m 0 = 0"
    then have "bit (m 0) k = False" by simp
    then show False using k(3) unfolding m by (simp add: bit_simps)
  qed
  then have "bar_size (decode_bar v (m 0)) = - ucast (m 0)" by (simp add: decode_bar_def address_bits_def v(2) masked)
  moreover have "bar_size (decode_bars ((v, m 0) # rs) ! 0) = bar_size (decode_bar v (m 0))" for rs
    using v by (cases rs) auto
  moreover obtain h where "pci_size_bars hw P b s f (replicate 6 null_bar) =
      (P\<lparr>hardware := h\<rparr>, decode_bars (map (\<lambda>i. (reg (hardware P) (bar_address b s f i), m i)) [0..<n]) @ replicate (6 - n) null_bar)"
    using size_bars_ports [OF assms(1-3,5)] by blast
  ultimately have "bar_size (snd (pci_size_bars hw P b s f (replicate 6 null_bar)) ! 0) = - ucast (m 0)"
    using v(1) by (simp add: n nth_append)
  moreover have "unat (- (ucast (m 0)) :: u64) = 2 ^ 64 - 2 ^ 32 + 2 ^ k"
  proof -
    have p: "(2 :: nat) ^ k < 2 ^ 32" using k(3) by (intro power_strict_increasing) auto
    have "m 0 = of_nat (2 ^ 32 - 2 ^ k)"
    proof -
      have "(of_nat (2 ^ 32 - 2 ^ k) :: u32) + 2 ^ k = of_nat (2 ^ 32 - 2 ^ k + 2 ^ k)" by simp
      also have "\<dots> = of_nat (2 ^ 32)" using p by (simp only: le_add_diff_inverse2 [OF less_imp_le])
      also have "\<dots> = 0" by simp
      finally show ?thesis unfolding k(1) by (metis add_eq_0_iff2)
    qed
    moreover obtain l where l: "l = (2 :: nat) ^ 32 - 2 ^ k" by blast
    ultimately have ml: "m 0 = of_nat l" by simp
    have b: "0 < l" "l < 2 ^ 32" "2 ^ 64 - l = 2 ^ 64 - 2 ^ 32 + 2 ^ k" unfolding l using p by simp_all
    have u: "ucast (m 0) = (of_nat l :: u64)" unfolding ml using b(2) by (simp add: unsigned_of_nat take_bit_nat_eq_self)
    have "(of_nat (2 ^ 64 - l) :: u64) + of_nat l = of_nat (2 ^ 64 - l + l)" by (rule of_nat_add [symmetric])
    also have "2 ^ 64 - l + l = (2 ^ 64 :: nat)" using b(2) by simp
    also have "(of_nat (2 ^ 64) :: u64) = 0" by simp
    finally have "- of_nat l = (of_nat (2 ^ 64 - l) :: u64)" by (metis add_eq_0_iff2)
    then have "unat (- ucast (m 0) :: u64) = 2 ^ 64 - l" unfolding u using b(1) by simp
    then show ?thesis unfolding b(3) .
  qed
  ultimately show ?thesis by simp
qed


text \<open>A disk controller with one 32-bit memory register of 16 KB.\<close>

theorem pci_bar32_size_extended_witness:
  "unat (bar_size (snd (pci_size_bars (sample_ports (\<lambda>a. if a = 0x80000010 then - (2 ^ 14) else 0))
     (sample_pci\<lparr>hardware := (0, \<lambda>a. if a = 0x80000010 then 0xFE000000 else 0)\<rparr>) 0 0 0 (replicate 6 null_bar)) ! 0)) = 18446744069414600704"
proof -
  let ?m = "\<lambda>a :: u32. if a = 0x80000010 then - (2 ^ 14) else 0 :: u32"
    and ?P = "sample_pci\<lparr>hardware := (0, \<lambda>a. if a = 0x80000010 then 0xFE000000 else 0)\<rparr>"
  have "unat (bar_size (snd (pci_size_bars (sample_ports ?m) ?P 0 0 0 (replicate 6 null_bar)) ! 0)) = 2 ^ 64 - 2 ^ 32 + 2 ^ 14"
    by (rule pci_bar32_size_extended [where n = 6 and m = "\<lambda>i. ?m (bar_address 0 0 0 i)" and v = "0xFE000000", OF sample_ports])
      (simp_all add: sample_pci_def bar_register_def bar_count_of_def bar_address_def pci_cfg_addr_legacy_def)
  then show ?thesis by simp
qed

text \<open>The pointer of a register when one range is installed.\<close>

lemma ecam_ptr_inside:
  assumes "g_ecam P = [r]" "bus < end_bus r"
  shows "pci_ecam_cfg_ptr P bus slot func off = 0"
  using assms by (simp add: pci_ecam_cfg_ptr_def)

lemma ecam_ptr_behind:
  assumes P: "g_ecam_enabled P" "g_ecam P = [r]" "start_bus r \<le> end_bus r" "end_bus r \<le> bus"
    and a: "slot < 32" "func < 8" "unat (virt_base r) + 2 ^ 28 \<le> 2 ^ 64"
  shows "unat (pci_ecam_cfg_ptr P bus slot func (ucast (off :: u8))) =
    unat (virt_base r) + ((unat bus - unat (start_bus r)) * 2 ^ 20 + unat slot * 2 ^ 15 + unat func * 2 ^ 12 + unat off)"
proof -
  let ?N = "(unat bus - unat (start_bus r)) * 2 ^ 20 + unat slot * 2 ^ 15 + unat func * 2 ^ 12 + unat off"
  have n: "unat bus < 256" "unat off < 256" "unat slot < 32" "unat func < 8"
    using a(1,2) unsigned_less [of bus, where 'a = nat] unsigned_less [of off, where 'a = nat] by (simp_all add: word_less_nat_alt)
  have up: "\<not> 4096 \<le> (ucast off :: u16)" using n(2) by (simp add: word_le_nat_alt unsigned_ucast_eq take_bit_nat_eq_self)
  have le: "start_bus r \<le> bus" "\<not> (bus < start_bus r \<or> bus < end_bus r)" using P by auto
  have c: "push_bit k (ucast w) = (of_nat (unat w * 2 ^ k) :: u64)" "ucast w = (of_nat (unat w) :: u64)" for w :: u8 and k
    by (simp_all add: push_bit_eq_mult)
  have o: "ucast (ucast off :: u16) = (ucast off :: u64)" by (rule bit_word_eqI) (auto simp: bit_simps dest: bit_imp_le_length)
  have "pci_ecam_cfg_ptr P bus slot func (ucast off) =
      virt_base r + push_bit 20 (ucast (bus - start_bus r)) + push_bit 15 (ucast slot) + push_bit 12 (ucast func) + ucast off"
    using P up le by (simp add: pci_ecam_cfg_ptr_def o)
  also have "\<dots> = virt_base r + of_nat ?N"
    unfolding c unat_sub [OF le(1)] by (simp add: push_bit_eq_mult)
  finally have p: "pci_ecam_cfg_ptr P bus slot func (ucast off) = virt_base r + of_nat ?N" .
  obtain N where N: "?N = N" by simp
  have "N < 2 ^ 28" using n unfolding N [symmetric] by simp
  then have u: "unat (of_nat N :: u64) = N" "unat (virt_base r) + N < 2 ^ 64" using a(3) by simp_all
  then have "unat (virt_base r) + unat (of_nat N :: u64) < 2 ^ LENGTH(64)" by simp
  then have "unat (virt_base r + of_nat N) = unat (virt_base r) + unat (of_nat N :: u64)" by (rule unat_add_lem [THEN iffD1])
  then show ?thesis unfolding p N u(1) .
qed

text \<open>
  \<^bold>\<open>The wrong buses.\<close> A range of mapped registers serves the wrong buses: for every bus of the range but the last the ports are read, and for a
  bus behind the range memory behind it.
\<close>

theorem pci_ecam_serves_wrong_buses:
  assumes "pci_ecam_install_range P seg phys first_bus last_bus virt = (P', 0)" "g_ecam P = []"
  shows "(bus < last_bus \<longrightarrow> pci_cfg_read_dword hw P' bus slot func off = config_read hw P' 0 (pci_cfg_addr_legacy bus slot func off)) \<and>
    (last_bus < bus \<and> slot < 32 \<and> func < 8 \<and> unat virt + 2 ^ 28 \<le> 2 ^ 64 \<longrightarrow>
      (\<exists>p. unat virt + (unat last_bus - unat first_bus + 1) * 2 ^ 20 \<le> unat p \<and>
        pci_cfg_read_dword hw P' bus slot func off = (P'\<lparr>hardware := fst (mapped_read hw (hardware P') p)\<rparr>, snd (mapped_read hw (hardware P') p))))"
proof (intro conjI impI)
  let ?r = "\<lparr>seg_group = seg, start_bus = first_bus, end_bus = last_bus, phys_base = phys, virt_base = virt\<rparr>"
  have P': "g_ecam_enabled P'" "g_ecam P' = [?r]" "start_bus ?r \<le> end_bus ?r"
    using assms by (auto simp: pci_ecam_install_range_def split: if_splits)
  {
    assume "bus < last_bus"
    then show "pci_cfg_read_dword hw P' bus slot func off = config_read hw P' 0 (pci_cfg_addr_legacy bus slot func off)"
      using ecam_ptr_inside [OF P'(2)] by (simp add: pci_cfg_read_dword_def Let_def)
  next
    let ?p = "pci_ecam_cfg_ptr P' bus slot func (ucast (off AND 0xFC))"
    assume a: "last_bus < bus \<and> slot < 32 \<and> func < 8 \<and> unat virt + 2 ^ 28 \<le> 2 ^ 64"
    then have n: "unat last_bus < unat bus" "last_bus \<le> bus" "unat first_bus \<le> unat last_bus"
      using P'(3) by (simp_all add: word_less_nat_alt word_le_nat_alt)
    have "unat ?p = unat virt + ((unat bus - unat first_bus) * 2 ^ 20 + unat slot * 2 ^ 15 + unat func * 2 ^ 12 + unat (off AND 0xFC))"
      using ecam_ptr_behind [OF P', of bus slot func "off AND 0xFC"] a n(2) by simp
    moreover have "unat last_bus - unat first_bus + 1 \<le> unat bus - unat first_bus" using n by simp
    ultimately have l: "unat virt + (unat last_bus - unat first_bus + 1) * 2 ^ 20 \<le> unat ?p" by simp
    then have "?p \<noteq> 0" by (auto simp: unat_eq_zero)
    with l show "\<exists>p. unat virt + (unat last_bus - unat first_bus + 1) * 2 ^ 20 \<le> unat p \<and>
        pci_cfg_read_dword hw P' bus slot func off = (P'\<lparr>hardware := fst (mapped_read hw (hardware P') p)\<rparr>, snd (mapped_read hw (hardware P') p))"
      by (intro exI [of _ ?p]) (simp add: pci_cfg_read_dword_def config_read_def case_prod_beta Let_def)
  }
qed

text \<open>A range for the buses 0 to 15 at 3 GB; bus 0 is read through the ports, and bus 16 behind the range.\<close>

theorem pci_ecam_serves_wrong_buses_witness:
  "let P = fst (pci_ecam_install_range sample_pci 0 0xC0000000 0 15 0xC0000000)
   in pci_cfg_read_dword (sample_ports sample_masks) P 0 1 0 0 = config_read (sample_ports sample_masks) P 0 (pci_cfg_addr_legacy 0 1 0 0) \<and>
     (\<exists>p. 0xC0000000 + 16 * 2 ^ 20 \<le> unat p \<and> pci_cfg_read_dword (sample_ports sample_masks) P 16 0 0 0 =
       (P\<lparr>hardware := fst (mapped_read (sample_ports sample_masks) (hardware P) p)\<rparr>, snd (mapped_read (sample_ports sample_masks) (hardware P) p)))"
proof -
  obtain P where P: "pci_ecam_install_range sample_pci 0 0xC0000000 0 15 0xC0000000 = (P, 0)"
    by (simp add: pci_ecam_install_range_def sample_pci_def)
  have e: "g_ecam sample_pci = []" by (simp add: sample_pci_def)
  show ?thesis
    using pci_ecam_serves_wrong_buses [OF P e, of 0 "sample_ports sample_masks" 1 0 0]
      pci_ecam_serves_wrong_buses [OF P e, of 16 "sample_ports sample_masks" 0 0 0]
    by (simp add: P)
qed

end
