(* ===== verification/Nvme.thy ===== *)
theory Nvme
  imports Pci
begin

section \<open>NVMe disks: nvme.c\<close>

text \<open>
  The registers and queues of a controller, the commands on its queues, mounting, and reading and writing of sectors. Then reading against a controller
  that behaves as its interface documents, and a concrete one that does. The queues
  are in the memory of the kernel, where the controller reads commands and stores completions: \<open>register_write\<close> is given the memory, and
  \<open>transfer\<close> is what the controller does to the memory while the processor waits. The store \<open>nvme_at\<close> holds the private data of the disks.
  The disks carry the state of the kernel; the devices of the bus are beside them.
\<close>

abbreviation (input) NVME_SECTOR_SIZE :: nat where "NVME_SECTOR_SIZE \<equiv> 512"
abbreviation (input) NVME_PCI_BASE_CLASS :: int where "NVME_PCI_BASE_CLASS \<equiv> 1"
abbreviation (input) NVME_PCI_SUBCLASS :: int where "NVME_PCI_SUBCLASS \<equiv> 8"
abbreviation (input) NVME_BASE_REGISTER_CAP :: u32 where "NVME_BASE_REGISTER_CAP \<equiv> 0x00"
abbreviation (input) NVME_BASE_REGISTER_CC :: u32 where "NVME_BASE_REGISTER_CC \<equiv> 0x14"
abbreviation (input) NVME_BASE_REGISTER_CSTS :: u32 where "NVME_BASE_REGISTER_CSTS \<equiv> 0x1C"
abbreviation (input) NVME_BASE_REGISTER_AQA :: u32 where "NVME_BASE_REGISTER_AQA \<equiv> 0x24"
abbreviation (input) NVME_BASE_REGISTER_ASQ :: u32 where "NVME_BASE_REGISTER_ASQ \<equiv> 0x28"
abbreviation (input) NVME_BASE_REGISTER_ACQ :: u32 where "NVME_BASE_REGISTER_ACQ \<equiv> 0x30"
abbreviation (input) NVME_OPCODE_READ :: u8 where "NVME_OPCODE_READ \<equiv> 0x02"
abbreviation (input) NVME_OPCODE_WRITE :: u8 where "NVME_OPCODE_WRITE \<equiv> 0x01"

definition NVME_SQTDBL_OFFSET :: "u32 \<Rightarrow> u8 \<Rightarrow> u32" where
  "NVME_SQTDBL_OFFSET qid dstrd = 0x1000 + (2 * qid) * push_bit (unat dstrd) 4"

definition NVME_CQTDBL_OFFSET :: "u32 \<Rightarrow> u8 \<Rightarrow> u32" where
  "NVME_CQTDBL_OFFSET qid dstrd = 0x1000 + (2 * qid + 1) * push_bit (unat dstrd) 4"

record submission_queue =
  sq_ptr :: u64
  sq_tail :: u16
  sq_size :: u16

text \<open>The phase of the queue of the administrative commands is \<open>admin_cq_phase\<close> in the code.\<close>

record completion_queue =
  cq_ptr :: u64
  cq_head :: u16
  cq_size :: u16
  cq_phase :: u8

record nvme_disk_driver_private =
  nvme_device :: u64
  base_address_nvme :: u64
  doorbell_stride :: u8
  nsid :: u32
  admin_submission_queue :: submission_queue
  admin_completion_queue :: completion_queue
  io_submission_queue :: submission_queue
  io_completion_queue :: completion_queue

record 'h nvme_hardware =
  register_read :: "'h \<Rightarrow> u64 \<Rightarrow> 'h \<times> u32"
  register_write :: "'h \<Rightarrow> memory \<Rightarrow> u64 \<Rightarrow> u32 \<Rightarrow> 'h"
  transfer :: "'h \<Rightarrow> memory \<Rightarrow> 'h \<times> memory"

record ('k, 'b, 'h) nvme_system =
  nvme_disks :: "('k, 'b) disk_state_scheme"
  controller :: 'h
  nvme_at :: "u64 \<Rightarrow> nvme_disk_driver_private"

definition null_nvme_private :: nvme_disk_driver_private where
  "null_nvme_private = \<lparr>nvme_device = 0, base_address_nvme = 0, doorbell_stride = 0, nsid = 0,
     admin_submission_queue = \<lparr>sq_ptr = 0, sq_tail = 0, sq_size = 0\<rparr>,
     admin_completion_queue = \<lparr>cq_ptr = 0, cq_head = 0, cq_size = 0, cq_phase = 0\<rparr>,
     io_submission_queue = \<lparr>sq_ptr = 0, sq_tail = 0, sq_size = 0\<rparr>,
     io_completion_queue = \<lparr>cq_ptr = 0, cq_head = 0, cq_size = 0, cq_phase = 0\<rparr>\<rparr>"

text \<open>The kernel state and its memory within the disks.\<close>

definition kernel_of :: "('s kernel_scheme, 'b, 'h) nvme_system \<Rightarrow> 's kernel_scheme" where
  "kernel_of S = heap_state (nvme_disks S)"

definition with_kernel :: "('s kernel_scheme, 'b, 'h) nvme_system \<Rightarrow> 's kernel_scheme \<Rightarrow> ('s kernel_scheme, 'b, 'h) nvme_system" where
  "with_kernel S s = S\<lparr>nvme_disks := (nvme_disks S)\<lparr>heap_state := s\<rparr>\<rparr>"

definition memory_of :: "('s kernel_scheme, 'b, 'h) nvme_system \<Rightarrow> memory" where
  "memory_of S = kmem (kernel_of S)"

definition with_memory :: "('s kernel_scheme, 'b, 'h) nvme_system \<Rightarrow> memory \<Rightarrow> ('s kernel_scheme, 'b, 'h) nvme_system" where
  "with_memory S m = with_kernel S ((kernel_of S)\<lparr>kmem := m\<rparr>)"

definition private_update ::
  "('s kernel_scheme, 'b, 'h) nvme_system \<Rightarrow> u64 \<Rightarrow> (nvme_disk_driver_private \<Rightarrow> nvme_disk_driver_private) \<Rightarrow> ('s kernel_scheme, 'b, 'h) nvme_system" where
  "private_update S p f = S\<lparr>nvme_at := (nvme_at S)(p := f (nvme_at S p))\<rparr>"

subsection \<open>Registers\<close>

definition nvme_read32 ::
  "'h nvme_hardware \<Rightarrow> ('s kernel_scheme, 'b, 'h) nvme_system \<Rightarrow> u64 \<Rightarrow> u32 \<Rightarrow> ('s kernel_scheme, 'b, 'h) nvme_system \<times> u32" where
  "nvme_read32 hw S p off =
     (let (h, v) = register_read hw (controller S) (base_address_nvme (nvme_at S p) + ucast off) in (S\<lparr>controller := h\<rparr>, v))"

definition nvme_write32 ::
  "'h nvme_hardware \<Rightarrow> ('s kernel_scheme, 'b, 'h) nvme_system \<Rightarrow> u64 \<Rightarrow> u32 \<Rightarrow> u32 \<Rightarrow> ('s kernel_scheme, 'b, 'h) nvme_system" where
  "nvme_write32 hw S p off v =
     S\<lparr>controller := register_write hw (controller S) (memory_of S) (base_address_nvme (nvme_at S p) + ucast off) v\<rparr>"

definition nvme_read64 ::
  "'h nvme_hardware \<Rightarrow> ('s kernel_scheme, 'b, 'h) nvme_system \<Rightarrow> u64 \<Rightarrow> u32 \<Rightarrow> ('s kernel_scheme, 'b, 'h) nvme_system \<times> u64" where
  "nvme_read64 hw S p off =
     (let (S1, lo) = nvme_read32 hw S p off; (S2, hi) = nvme_read32 hw S1 p (off + 4) in (S2, push_bit 32 (ucast hi) OR ucast lo))"

definition nvme_write64 ::
  "'h nvme_hardware \<Rightarrow> ('s kernel_scheme, 'b, 'h) nvme_system \<Rightarrow> u64 \<Rightarrow> u32 \<Rightarrow> u64 \<Rightarrow> ('s kernel_scheme, 'b, 'h) nvme_system" where
  "nvme_write64 hw S p off v = nvme_write32 hw (nvme_write32 hw S p off (ucast (v AND 0xFFFFFFFF))) p (off + 4) (ucast (drop_bit 32 v))"

text \<open>The same by the disk; without private data the kernel panics.\<close>

definition nvme_disk_driver_read_reg ::
  "'h nvme_hardware \<Rightarrow> ('s kernel_scheme, 'b, 'h) nvme_system \<Rightarrow> nat \<Rightarrow> u32 \<Rightarrow> (('s kernel_scheme, 'b, 'h) nvme_system \<times> u32) option" where
  "nvme_disk_driver_read_reg hw S d off =
     (let p = disk_private_data_driver (nvme_disks S) d in if p = 0 then None else Some (nvme_read32 hw S p off))"

definition nvme_disk_driver_write_reg ::
  "'h nvme_hardware \<Rightarrow> ('s kernel_scheme, 'b, 'h) nvme_system \<Rightarrow> nat \<Rightarrow> u32 \<Rightarrow> u32 \<Rightarrow> ('s kernel_scheme, 'b, 'h) nvme_system option" where
  "nvme_disk_driver_write_reg hw S d off v =
     (let p = disk_private_data_driver (nvme_disks S) d in if p = 0 then None else Some (nvme_write32 hw S p off v))"

subsection \<open>Commands\<close>

text \<open>The 16 words of an entry of a submission queue, and their bytes.\<close>

definition nvme_command :: "u8 \<Rightarrow> u32 \<Rightarrow> u64 \<Rightarrow> u64 \<Rightarrow> u32 \<Rightarrow> u32 \<Rightarrow> u32 \<Rightarrow> u32 list" where
  "nvme_command opcode ns prp1 prp2 cdw10 cdw11 cdw12 =
     [ucast opcode, ns, 0, 0, 0, 0, ucast (prp1 AND 0xFFFFFFFF), ucast (drop_bit 32 prp1), ucast (prp2 AND 0xFFFFFFFF), ucast (drop_bit 32 prp2),
      cdw10, cdw11, cdw12, 0, 0, 0]"

definition word_bytes :: "u32 \<Rightarrow> u8 list" where
  "word_bytes w = [ucast w, ucast (drop_bit 8 w), ucast (drop_bit 16 w), ucast (drop_bit 24 w)]"

definition next_index :: "u16 \<Rightarrow> u16 \<Rightarrow> u16" where
  "next_index i n = (if i + 1 \<ge> n then 0 else i + 1)"

text \<open>
  The entry at the tail of a queue is stored, the tail moves on, and the doorbell of queue \<open>qid\<close> is rung. \<open>get\<close> and \<open>put\<close> are the queue
  within the private data.
\<close>

definition post_command ::
  "'h nvme_hardware \<Rightarrow> (nvme_disk_driver_private \<Rightarrow> submission_queue) \<Rightarrow>
   ((submission_queue \<Rightarrow> submission_queue) \<Rightarrow> nvme_disk_driver_private \<Rightarrow> nvme_disk_driver_private) \<Rightarrow> u32 \<Rightarrow>
   ('s kernel_scheme, 'b, 'h) nvme_system \<Rightarrow> nat \<Rightarrow> u32 list \<Rightarrow> ('s kernel_scheme, 'b, 'h) nvme_system option" where
  "post_command hw get put qid S d cmd =
     (let p = disk_private_data_driver (nvme_disks S) d; q = get (nvme_at S p)
      in if p = 0 then None
         else let S1 = with_memory S (write_bytes (memory_of S) (sq_ptr q + 64 * ucast (sq_tail q)) (concat (map word_bytes cmd)));
                  tail' = next_index (sq_tail q) (sq_size q);
                  S2 = private_update S1 p (put (\<lambda>q. q\<lparr>sq_tail := tail'\<rparr>))
              in nvme_disk_driver_write_reg hw S2 d (NVME_SQTDBL_OFFSET qid (doorbell_stride (nvme_at S2 p))) (ucast tail'))"

text \<open>The word of a completion with the phase in bit 16 and the status above it. The loop ends when the phase is the one expected.\<close>

definition completion_word :: "memory \<Rightarrow> u64 \<Rightarrow> u32" where
  "completion_word m cqe = mem32 m (cqe + 12)"

definition phase_of :: "u32 \<Rightarrow> u32" where
  "phase_of st = drop_bit 16 st AND 1"

primrec poll_completion :: "'h nvme_hardware \<Rightarrow> u64 \<Rightarrow> u8 \<Rightarrow> nat \<Rightarrow> ('s kernel_scheme, 'b, 'h) nvme_system \<Rightarrow> ('s kernel_scheme, 'b, 'h) nvme_system" where
  "poll_completion hw cqe phase 0 S = S"
| "poll_completion hw cqe phase (Suc n) S =
     (if phase_of (completion_word (memory_of S) cqe) = ucast phase then S
      else let (h, m) = transfer hw (controller S) (memory_of S)
           in poll_completion hw cqe phase n ((with_memory S m)\<lparr>controller := h\<rparr>))"

definition await_completion ::
  "'h nvme_hardware \<Rightarrow> (nvme_disk_driver_private \<Rightarrow> completion_queue) \<Rightarrow>
   ((completion_queue \<Rightarrow> completion_queue) \<Rightarrow> nvme_disk_driver_private \<Rightarrow> nvme_disk_driver_private) \<Rightarrow> u32 \<Rightarrow>
   ('s kernel_scheme, 'b, 'h) nvme_system \<Rightarrow> nat \<Rightarrow> (('s kernel_scheme, 'b, 'h) nvme_system \<times> int \<times> u64) option" where
  "await_completion hw get put qid S d =
     (let p = disk_private_data_driver (nvme_disks S) d; q = get (nvme_at S p); cqe = cq_ptr q + 16 * ucast (cq_head q);
          S1 = poll_completion hw cqe (cq_phase q) 1000000 S;
          st = completion_word (memory_of S1) cqe
      in if phase_of st \<noteq> ucast (cq_phase q) then Some (S1, - ETIMEOUT, cqe)
         else let status = (ucast (drop_bit 17 st AND 0x7FFF) :: u16);
                  wraps = (cq_head q + 1 \<ge> cq_size q);
                  head' = next_index (cq_head q) (cq_size q);
                  S2 = private_update S1 p (put (\<lambda>q. q\<lparr>cq_head := head', cq_phase := (if wraps then cq_phase q XOR 1 else cq_phase q)\<rparr>))
              in do {
                S3 \<leftarrow> nvme_disk_driver_write_reg hw S2 d (NVME_CQTDBL_OFFSET qid (doorbell_stride (nvme_at S2 p))) (ucast head');
                Some (S3, if status = 0 then 0 else - EIO, cqe)
              })"

definition nvme_admin_cmd_raw ::
  "'h nvme_hardware \<Rightarrow> ('s kernel_scheme, 'b, 'h) nvme_system \<Rightarrow> nat \<Rightarrow> u8 \<Rightarrow> u32 \<Rightarrow> u64 \<Rightarrow> u32 \<Rightarrow> u32 \<Rightarrow>
   (('s kernel_scheme, 'b, 'h) nvme_system \<times> int) option" where
  "nvme_admin_cmd_raw hw S d opcode ns prp1 cdw10 cdw11 = do {
     S1 \<leftarrow> post_command hw admin_submission_queue admin_submission_queue_update 0 S d (nvme_command opcode ns prp1 0 cdw10 cdw11 0);
     (S2, res, _) \<leftarrow> await_completion hw admin_completion_queue admin_completion_queue_update 0 S1 d;
     Some (S2, res)
   }"

definition nvme_create_io_cq ::
  "'h nvme_hardware \<Rightarrow> ('s kernel_scheme, 'b, 'h) nvme_system \<Rightarrow> nat \<Rightarrow> u16 \<Rightarrow> u16 \<Rightarrow> u64 \<Rightarrow> (('s kernel_scheme, 'b, 'h) nvme_system \<times> int) option" where
  "nvme_create_io_cq hw S d qid qsize cq_virt =
     nvme_admin_cmd_raw hw S d 0x05 0 cq_virt (push_bit 16 (ucast qsize - 1) OR ucast qid) 0x01"

definition nvme_create_io_sq ::
  "'h nvme_hardware \<Rightarrow> ('s kernel_scheme, 'b, 'h) nvme_system \<Rightarrow> nat \<Rightarrow> u16 \<Rightarrow> u16 \<Rightarrow> u64 \<Rightarrow> u16 \<Rightarrow> (('s kernel_scheme, 'b, 'h) nvme_system \<times> int) option" where
  "nvme_create_io_sq hw S d qid qsize sq_virt cqid =
     nvme_admin_cmd_raw hw S d 0x01 0 sq_virt (push_bit 16 (ucast qsize - 1) OR ucast qid) (push_bit 16 (ucast cqid) OR 0x01)"

text \<open>The result also has the address of the completion, for \<open>completion_out\<close>.\<close>

definition nvme_admin_send_command ::
  "'h nvme_hardware \<Rightarrow> ('s kernel_scheme, 'b, 'h) nvme_system \<Rightarrow> nat \<Rightarrow> u8 \<Rightarrow> u32 \<Rightarrow> u64 \<Rightarrow> u64 \<Rightarrow> u16 \<Rightarrow>
   (('s kernel_scheme, 'b, 'h) nvme_system \<times> int \<times> u64) option" where
  "nvme_admin_send_command hw S d opcode ns buf lba num_blocks = do {
     S1 \<leftarrow> post_command hw admin_submission_queue admin_submission_queue_update 0 S d
       (nvme_command opcode ns buf 0 (ucast (lba AND 0xFFFFFFFF)) (ucast (drop_bit 32 lba)) (if num_blocks = 0 then 0 else ucast num_blocks - 1));
     await_completion hw admin_completion_queue admin_completion_queue_update 0 S1 d
   }"

text \<open>
  The second page of a transfer and the number of blocks of the command: what lies on the page of the buffer and the next one.
\<close>

definition nvme_prp :: "u64 \<Rightarrow> u16 \<Rightarrow> u64 \<times> u16" where
  "nvme_prp addr nlb =
     (let bytes = ucast nlb * of_nat NVME_SECTOR_SIZE :: u32;
          span = 4096 - ucast (addr AND 4095);
          first_span = (if span > bytes then bytes else span)
      in if bytes > first_span
         then let remain = (if bytes - first_span > 4096 then 4096 else bytes - first_span)
              in (addr + ucast first_span, ucast ((first_span + remain + of_nat NVME_SECTOR_SIZE - 1) div of_nat NVME_SECTOR_SIZE))
         else (0, nlb))"

definition nvme_io_submit_and_poll ::
  "'h nvme_hardware \<Rightarrow> ('s kernel_scheme, 'b, 'h) nvme_system \<Rightarrow> nat \<Rightarrow> u8 \<Rightarrow> u64 \<Rightarrow> u16 \<Rightarrow> u64 \<Rightarrow>
   (('s kernel_scheme, 'b, 'h) nvme_system \<times> int) option" where
  "nvme_io_submit_and_poll hw S d opcode lba nlb buf =
     (let p = disk_private_data_driver (nvme_disks S) d; (prp2, nlb') = nvme_prp buf nlb
      in do {
        S1 \<leftarrow> post_command hw io_submission_queue io_submission_queue_update 1 S d
          (nvme_command opcode (nsid (nvme_at S p)) buf prp2 (ucast (lba AND 0xFFFFFFFF)) (ucast (drop_bit 32 lba)) (ucast nlb' - 1));
        (S2, res, _) \<leftarrow> await_completion hw io_completion_queue io_completion_queue_update 1 S1 d;
        Some (S2, res)
      })"

subsection \<open>Reading and writing sectors\<close>

text \<open>The loop of both functions, which moves on by the number of blocks asked for.\<close>

function nvme_transfer_loop ::
  "'h nvme_hardware \<Rightarrow> nat \<Rightarrow> u8 \<Rightarrow> ('s kernel_scheme, 'b, 'h) nvme_system \<Rightarrow> u64 \<Rightarrow> u64 \<Rightarrow> int \<Rightarrow>
   (('s kernel_scheme, 'b, 'h) nvme_system \<times> int) option" where
  "nvme_transfer_loop hw d opcode S slba p remaining =
     (if remaining \<le> 0 then Some (S, 0)
      else let nlb = (if remaining > 16 then 16 else word_of_int remaining)
           in do {
             (S1, rc) \<leftarrow> nvme_io_submit_and_poll hw S d opcode slba nlb p;
             if rc < 0 then Some (S1, rc)
             else nvme_transfer_loop hw d opcode S1 (slba + ucast nlb) (p + ucast nlb * of_nat NVME_SECTOR_SIZE) (remaining - uint nlb)
           })"
  by auto

termination
  by (relation "measure (\<lambda>(hw, d, opcode, S, slba, p, remaining). nat remaining)") (auto simp: uint_word_of_int)

lemma chunk_blocks: "0 < remaining \<Longrightarrow> uint (if 16 < remaining then 16 else word_of_int remaining :: u16) = min 16 remaining"
  by (simp add: uint_word_of_int)

declare nvme_transfer_loop.simps [simp del]

definition nvme_disk_driver_read ::
  "'h nvme_hardware \<Rightarrow> ('s kernel_scheme, 'b, 'h) nvme_system \<Rightarrow> nat \<Rightarrow> u32 \<Rightarrow> int \<Rightarrow> u64 \<Rightarrow> (('s kernel_scheme, 'b, 'h) nvme_system \<times> int) option" where
  "nvme_disk_driver_read hw S d lba n_sectors buf_out =
     nvme_transfer_loop hw (disk_hardware_disk (nvme_disks S) d) NVME_OPCODE_READ S (ucast lba) buf_out n_sectors"

definition nvme_disk_driver_write ::
  "'h nvme_hardware \<Rightarrow> ('s kernel_scheme, 'b, 'h) nvme_system \<Rightarrow> nat \<Rightarrow> u32 \<Rightarrow> int \<Rightarrow> u64 \<Rightarrow> (('s kernel_scheme, 'b, 'h) nvme_system \<times> int) option" where
  "nvme_disk_driver_write hw S d lba n_sectors buf_in =
     nvme_transfer_loop hw (disk_hardware_disk (nvme_disks S) d) NVME_OPCODE_WRITE S (ucast lba) buf_in n_sectors"

definition nvme_disk_driver_mount_partition ::
  "'s kernel_scheme allocator \<Rightarrow> ('s kernel_scheme, 'b) disk_state_scheme \<Rightarrow> nat \<Rightarrow> int \<Rightarrow> int \<Rightarrow>
   ('s kernel_scheme, 'b) disk_state_scheme \<times> int \<times> nat option" where
  "nvme_disk_driver_mount_partition al s d start_lba end_lba =
     disk_create_new al s (driver (disk_vector s ! d)) (Some (disk_hardware_disk s d)) PEACHOS_DISK_TYPE_PARTITION start_lba end_lba
       (size_of_int (sector_size (disk_vector s ! d))) 0"

subsection \<open>Mounting\<close>

definition nvme_pci_private_new :: "('s kernel_scheme, 'b, 'h) nvme_system \<Rightarrow> u64 \<Rightarrow> (('s kernel_scheme, 'b, 'h) nvme_system \<times> u64) option" where
  "nvme_pci_private_new S dev = do {
     (s1, p) \<leftarrow> kzalloc (kernel_of S) 96;
     let S1 = with_kernel S s1;
     Some (if p = 0 then S1 else private_update S1 p (\<lambda>_. null_nvme_private\<lparr>nvme_device := dev\<rparr>), p)
   }"

text \<open>Freeing does nothing in this kernel, so neither does unmounting.\<close>

definition nvme_pci_device_private_free :: "('s kernel_scheme, 'b, 'h) nvme_system \<Rightarrow> u64 \<Rightarrow> ('s kernel_scheme, 'b, 'h) nvme_system" where
  "nvme_pci_device_private_free S p = (if p \<noteq> 0 then with_kernel S (kfree (kernel_of S) p) else S)"

definition nvme_disk_driver_unmount :: "('s kernel_scheme, 'b, 'h) nvme_system \<Rightarrow> nat \<Rightarrow> ('s kernel_scheme, 'b, 'h) nvme_system" where
  "nvme_disk_driver_unmount S d = nvme_pci_device_private_free S (disk_private_data_driver (nvme_disks S) d)"

definition nvme_pci_device :: "pci_device \<Rightarrow> bool" where
  "nvme_pci_device dev \<longleftrightarrow> class_base dev = NVME_PCI_BASE_CLASS \<and> class_subclass dev = NVME_PCI_SUBCLASS"

definition nvme_pci_mmio_base :: "pci_device \<Rightarrow> u64" where
  "nvme_pci_mmio_base dev = push_bit 32 (bar_addr (pci_bars dev ! 1)) OR (bar_addr (pci_bars dev ! 0) AND 0xFFFFFFFF0)"

text \<open>The registers are mapped to themselves; the result of a mapping is not tested.\<close>

definition nvme_map_mmio_once ::
  "('s kernel_scheme, 'b, 'h) nvme_system \<Rightarrow> paging_desc \<Rightarrow> pci_device \<Rightarrow> u64 \<Rightarrow> ('s kernel_scheme, 'b, 'h) nvme_system option" where
  "nvme_map_mmio_once S kernel_desc dev p =
     (let base = base_address_nvme (nvme_at S p); size0 = bar_size (pci_bars dev ! 0);
          sz = (ucast (if size0 \<noteq> 0 then size0 else 0x2000) :: u32)
      in do {
        s1 \<leftarrow> for_each (\<lambda>i s. do {
            (s', _) \<leftarrow> paging_map kzalloc s kernel_desc (base + of_nat (i * 4096)) (base + of_nat (i * 4096))
              (PAGING_IS_PRESENT OR PAGING_IS_WRITEABLE OR PAGING_CACHE_DISABLED);
            Some s'
          }) [0..<(unat sz + 4095) div 4096] (kernel_of S);
        Some (with_kernel S s1)
      })"

text \<open>The status register is read until its lowest bit is as wanted, \<open>n\<close> times at most, and then once more for the answer.\<close>

primrec poll_ready ::
  "'h nvme_hardware \<Rightarrow> u64 \<Rightarrow> u32 \<Rightarrow> nat \<Rightarrow> ('s kernel_scheme, 'b, 'h) nvme_system \<Rightarrow> ('s kernel_scheme, 'b, 'h) nvme_system" where
  "poll_ready hw p want 0 S = S"
| "poll_ready hw p want (Suc n) S =
     (let (S1, v) = nvme_read32 hw S p NVME_BASE_REGISTER_CSTS in if v AND 1 = want then S1 else poll_ready hw p want n S1)"

definition await_ready ::
  "'h nvme_hardware \<Rightarrow> ('s kernel_scheme, 'b, 'h) nvme_system \<Rightarrow> u64 \<Rightarrow> u32 \<Rightarrow> ('s kernel_scheme, 'b, 'h) nvme_system \<times> bool" where
  "await_ready hw S p want =
     (let (S1, v) = nvme_read32 hw (poll_ready hw p want 5000 S) p NVME_BASE_REGISTER_CSTS in (S1, v AND 1 = want))"

definition nvme_queue_entries :: "u64 \<Rightarrow> u16" where
  "nvme_queue_entries cap = (let mqes = ucast ((cap AND 0xFFFF) + 1) in if 64 \<le> mqes then 64 else mqes)"

text \<open>A controller that takes queues of \<open>2 ^ 16\<close> entries, the most there are, gets queues of size zero: the sum is cut to 16 bits.\<close>

lemma nvme_queue_entries_wrap: "nvme_queue_entries 0xFFFF = 0"
  by (simp add: nvme_queue_entries_def)

text \<open>
  The parts of mounting: the controller is disabled; the administrative queues are made and it is enabled; then the queues for input and output are
  made. A failure unmounts the disk, which stays in the table.
\<close>

definition nvme_disable ::
  "'h nvme_hardware \<Rightarrow> ('s kernel_scheme, 'b, 'h) nvme_system \<Rightarrow> u64 \<Rightarrow> ('s kernel_scheme, 'b, 'h) nvme_system \<times> bool" where
  "nvme_disable hw S p =
     (let (S1, cc) = nvme_read32 hw S p NVME_BASE_REGISTER_CC
      in await_ready hw (nvme_write32 hw S1 p NVME_BASE_REGISTER_CC (cc AND NOT 1)) p 0)"

definition nvme_admin_queues ::
  "'h nvme_hardware \<Rightarrow> ('s kernel_scheme, 'b, 'h) nvme_system \<Rightarrow> u64 \<Rightarrow> u64 \<Rightarrow> (('s kernel_scheme, 'b, 'h) nvme_system \<times> int) option" where
  "nvme_admin_queues hw S p cap =
     (let n = nvme_queue_entries cap in do {
        (s1, sq) \<leftarrow> kzalloc (kernel_of S) (64 * ucast n);
        (s2, cq) \<leftarrow> kzalloc s1 (16 * ucast n);
        let S2 = private_update (with_kernel S s2) p (\<lambda>P. P\<lparr>doorbell_stride := ucast (drop_bit 32 cap AND 0xF),
          admin_submission_queue := \<lparr>sq_ptr = sq, sq_tail = 0, sq_size = n\<rparr>,
          admin_completion_queue := \<lparr>cq_ptr = cq, cq_head = 0, cq_size = n, cq_phase = cq_phase (admin_completion_queue P)\<rparr>\<rparr>);
        if sq = 0 \<or> cq = 0 then Some (S2, - ENOMEM)
        else let S3 = nvme_write32 hw S2 p NVME_BASE_REGISTER_AQA (push_bit 16 (ucast n - 1) OR (ucast n - 1));
                 S4 = nvme_write64 hw S3 p NVME_BASE_REGISTER_ASQ sq;
                 S5 = nvme_write64 hw S4 p NVME_BASE_REGISTER_ACQ cq;
                 S6 = nvme_write32 hw S5 p NVME_BASE_REGISTER_CC (push_bit 16 6 OR push_bit 20 4 OR 1);
                 (S7, enabled) = await_ready hw S6 p 1
             in Some (S7, if enabled then 0 else - EIO)
      })"

definition nvme_io_queues ::
  "'h nvme_hardware \<Rightarrow> ('s kernel_scheme, 'b, 'h) nvme_system \<Rightarrow> nat \<Rightarrow> u64 \<Rightarrow> u64 \<Rightarrow> (('s kernel_scheme, 'b, 'h) nvme_system \<times> int) option" where
  "nvme_io_queues hw S d p cap =
     (let n = nvme_queue_entries cap in do {
        (s1, sq) \<leftarrow> kzalloc (kernel_of S) (64 * ucast n);
        (s2, cq) \<leftarrow> kzalloc s1 (16 * ucast n);
        let S2 = private_update (with_kernel S s2) p (\<lambda>P. P\<lparr>nsid := 1,
          admin_completion_queue := (admin_completion_queue P)\<lparr>cq_phase := 1\<rparr>,
          io_submission_queue := \<lparr>sq_ptr = sq, sq_tail = 0, sq_size = n\<rparr>,
          io_completion_queue := \<lparr>cq_ptr = cq, cq_head = 0, cq_size = n, cq_phase = 1\<rparr>\<rparr>);
        if sq = 0 \<or> cq = 0 then Some (S2, - ENOMEM)
        else do {
          (S3, res) \<leftarrow> nvme_create_io_cq hw S2 d 1 n cq;
          if res < 0 then Some (S3, res) else nvme_create_io_sq hw S3 d 1 n sq 1
        }
      })"

definition nvme_disk_driver_mount_for_device ::
  "'g config_hardware \<Rightarrow> 'h nvme_hardware \<Rightarrow> 's kernel_scheme allocator \<Rightarrow> paging_desc \<Rightarrow> nat \<Rightarrow>
   'g pci \<Rightarrow> ('s kernel_scheme, 'b, 'h) nvme_system \<Rightarrow> u64 \<Rightarrow> ('g pci \<times> ('s kernel_scheme, 'b, 'h) nvme_system \<times> int) option" where
  "nvme_disk_driver_mount_for_device pw hw al kernel_desc drv P S dev = do {
     P1 \<leftarrow> pci_enable_bus_master pw P dev;
     (S1, p) \<leftarrow> nvme_pci_private_new S dev;
     if p = 0 then Some (P1, S1, - ENOMEM)
     else do {
       let device = pci_device_at P1 dev;
       let S2 = private_update S1 p (\<lambda>q. q\<lparr>base_address_nvme := nvme_pci_mmio_base device\<rparr>);
       S3 \<leftarrow> nvme_map_mmio_once S2 kernel_desc device p;
       let (D, res, made) = disk_create_new al (nvme_disks S3) drv None PEACHOS_DISK_TYPE_REAL 0 0 (of_nat NVME_SECTOR_SIZE) p;
       let S4 = S3\<lparr>nvme_disks := D\<rparr>;
       case made of
         None \<Rightarrow> Some (P1, nvme_pci_device_private_free S4 p, res)
       | Some d \<Rightarrow>
           let (S5, disabled) = nvme_disable hw S4 p
           in if \<not> disabled then Some (P1, nvme_disk_driver_unmount S5 d, - EIO)
              else let (S6, cap) = nvme_read64 hw S5 p NVME_BASE_REGISTER_CAP
                   in do {
                     (S7, res) \<leftarrow> nvme_admin_queues hw S6 p cap;
                     if res < 0 then Some (P1, nvme_disk_driver_unmount S7 d, res)
                     else do {
                       (S8, res) \<leftarrow> nvme_io_queues hw S7 d p cap;
                       if res < 0 then Some (P1, nvme_disk_driver_unmount S8 d, res) else Some (P1, S8, 0)
                     }
                   }
     }
   }"

text \<open>The devices of the bus in order, up to the first one that fails.\<close>

primrec nvme_mount_loop ::
  "'g config_hardware \<Rightarrow> 'h nvme_hardware \<Rightarrow> 's kernel_scheme allocator \<Rightarrow> paging_desc \<Rightarrow> nat \<Rightarrow> nat list \<Rightarrow>
   'g pci \<Rightarrow> ('s kernel_scheme, 'b, 'h) nvme_system \<Rightarrow> ('g pci \<times> ('s kernel_scheme, 'b, 'h) nvme_system \<times> int) option" where
  "nvme_mount_loop pw hw al kernel_desc drv [] P S = Some (P, S, 0)"
| "nvme_mount_loop pw hw al kernel_desc drv (i # is) P S = do {
     r \<leftarrow> pci_device_get P (of_nat i);
     case r of
       Inl e \<Rightarrow> Some (P, S, e)
     | Inr dev \<Rightarrow>
         if nvme_pci_device (pci_device_at P dev)
         then do {
           (P1, S1, res) \<leftarrow> nvme_disk_driver_mount_for_device pw hw al kernel_desc drv P S dev;
           if res < 0 then Some (P1, S1, res) else nvme_mount_loop pw hw al kernel_desc drv is P1 S1
         }
         else nvme_mount_loop pw hw al kernel_desc drv is P S
   }"

definition nvme_disk_driver_mount ::
  "'g config_hardware \<Rightarrow> 'h nvme_hardware \<Rightarrow> 's kernel_scheme allocator \<Rightarrow> paging_desc \<Rightarrow> nat \<Rightarrow>
   'g pci \<Rightarrow> ('s kernel_scheme, 'b, 'h) nvme_system \<Rightarrow> ('g pci \<times> ('s kernel_scheme, 'b, 'h) nvme_system \<times> int) option" where
  "nvme_disk_driver_mount pw hw al kernel_desc drv P S = do {
     n \<leftarrow> pci_device_count P;
     nvme_mount_loop pw hw al kernel_desc drv [0..<unat n] P S
   }"

subsection \<open>Reading against a controller\<close>

text \<open>The address of byte \<open>i\<close> of a transfer of at most two pages.\<close>

definition prp_byte :: "u64 \<Rightarrow> u64 \<Rightarrow> nat \<Rightarrow> u64" where
  "prp_byte prp1 prp2 i =
     (let span = 4096 - unat (prp1 AND 4095) in if i < span then prp1 + of_nat i else prp2 + of_nat (i - span))"

definition prp_pages :: "u64 \<Rightarrow> u64 \<Rightarrow> nat \<Rightarrow> bool" where
  "prp_pages prp1 prp2 n \<longleftrightarrow> (let span = 4096 - unat (prp1 AND 4095) in
     n \<le> span \<or> n \<le> span + 4096 \<and> prp2 AND 4095 = 0 \<and> prp2 \<noteq> prp1 - (prp1 AND 4095))"

text \<open>
  What the documentation of the interface promises of a controller, for its queue 1 and a read command in the entry it has reached: after the doorbell is
  rung and some time, the blocks are in the memory the command describes, the entry of the completion queue it has reached has the phase of the
  controller and status 0, and nothing else is changed. \<open>view\<close> is where the controller is: the indices in the two queues, and its phase, which changes
  with each pass through the completion queue. \<open>med\<close> are the bytes of the disk.
\<close>

definition nvme_controller ::
  "'h nvme_hardware \<Rightarrow> ('h \<Rightarrow> u16 \<times> u16 \<times> u8) \<Rightarrow> (nat \<Rightarrow> u8) \<Rightarrow> nvme_disk_driver_private \<Rightarrow> bool" where
  "nvme_controller hw view med P \<longleftrightarrow>
     (let sq = sq_ptr (io_submission_queue P); cq = cq_ptr (io_completion_queue P); n = sq_size (io_submission_queue P);
          base = base_address_nvme P; stride = doorbell_stride P
      in \<forall>h m t hd ph first_page next_page lba cnt. \<forall>m'.
        view h = (t, hd, ph) \<and> t < n \<and> hd < n \<and>
        (\<forall>i<64. m (sq + 64 * ucast t + of_nat i) =
           concat (map word_bytes (nvme_command NVME_OPCODE_READ (nsid P) first_page next_page (ucast ((lba :: u64) AND 0xFFFFFFFF)) (ucast (drop_bit 32 lba)) cnt)) ! i) \<and>
        prp_pages first_page next_page (512 * (unat cnt + 1)) \<longrightarrow>
        (let h1 = register_write hw h m (base + ucast (NVME_SQTDBL_OFFSET 1 stride)) (ucast (next_index t n));
             (h2, m2) = transfer hw h1 m; e = cq + 16 * ucast hd; T = 512 * (unat cnt + 1)
         in phase_of (completion_word m2 e) = ucast ph \<and> drop_bit 17 (completion_word m2 e) AND 0x7FFF = 0 \<and>
            (\<forall>i<T. \<not> unat (prp_byte first_page next_page i - e) < 16 \<longrightarrow> m2 (prp_byte first_page next_page i) = med (512 * unat lba + i)) \<and>
            (\<forall>x. \<not> unat (x - e) < 16 \<and> (\<forall>i<T. x \<noteq> prp_byte first_page next_page i) \<longrightarrow> m2 x = m x) \<and>
            view (register_write hw h2 m' (base + ucast (NVME_CQTDBL_OFFSET 1 stride)) (ucast (next_index hd n))) =
              (next_index t n, next_index hd n, if hd + 1 \<ge> n then ph XOR 1 else ph)))"

text \<open>
  The driver and the controller agree on the indices and the phase, and the entries of the completion queue that the controller has not reached in this
  pass have the other phase.
\<close>

definition queue_byte :: "nvme_disk_driver_private \<Rightarrow> u64 \<Rightarrow> bool" where
  "queue_byte P x \<longleftrightarrow> unat (x - sq_ptr (io_submission_queue P)) < 64 * unat (sq_size (io_submission_queue P)) \<or>
     unat (x - cq_ptr (io_completion_queue P)) < 16 * unat (cq_size (io_completion_queue P))"

definition queues_ok :: "nvme_disk_driver_private \<Rightarrow> bool" where
  "queues_ok P \<longleftrightarrow> 0 < sq_size (io_submission_queue P) \<and> sq_size (io_submission_queue P) \<le> 64 \<and>
     cq_size (io_completion_queue P) = sq_size (io_submission_queue P) \<and>
     sq_tail (io_submission_queue P) < sq_size (io_submission_queue P) \<and> cq_head (io_completion_queue P) < cq_size (io_completion_queue P) \<and>
     cq_phase (io_completion_queue P) \<in> {0, 1} \<and>
     (\<forall>x. \<not> (unat (x - sq_ptr (io_submission_queue P)) < 64 * unat (sq_size (io_submission_queue P)) \<and>
        unat (x - cq_ptr (io_completion_queue P)) < 16 * unat (cq_size (io_completion_queue P))))"

definition phases_ok :: "memory \<Rightarrow> nvme_disk_driver_private \<Rightarrow> bool" where
  "phases_ok m P \<longleftrightarrow> (let q = io_completion_queue P in \<forall>j<unat (cq_size q).
     phase_of (completion_word m (cq_ptr q + 16 * of_nat j)) = ucast (if j < unat (cq_head q) then cq_phase q else cq_phase q XOR 1))"

definition nvme_ready ::
  "'h nvme_hardware \<Rightarrow> ('h \<Rightarrow> u16 \<times> u16 \<times> u8) \<Rightarrow> (nat \<Rightarrow> u8) \<Rightarrow> ('s kernel_scheme, 'b, 'h) nvme_system \<Rightarrow> nat \<Rightarrow> bool" where
  "nvme_ready hw view med S d \<longleftrightarrow>
     (let p = disk_private_data_driver (nvme_disks S) d; P = nvme_at S p
      in p \<noteq> 0 \<and> nvme_controller hw view med P \<and> queues_ok P \<and> phases_ok (memory_of S) P \<and>
         view (controller S) = (sq_tail (io_submission_queue P), cq_head (io_completion_queue P), cq_phase (io_completion_queue P)))"

lemma system_simps [simp]:
  "memory_of (with_memory S m) = m" "memory_of (private_update S p f) = memory_of S" "memory_of (S\<lparr>controller := h\<rparr>) = memory_of S"
  "controller (with_memory S m) = controller S" "controller (private_update S p f) = controller S"
  "nvme_at (with_memory S m) = nvme_at S" "nvme_at (private_update S p f) = (nvme_at S)(p := f (nvme_at S p))" 
  "disk_private_data_driver (nvme_disks (with_memory S m)) = disk_private_data_driver (nvme_disks S)"
  "disk_hardware_disk (nvme_disks (with_memory S m)) = disk_hardware_disk (nvme_disks S)"
  "nvme_disks (private_update S p f) = nvme_disks S"
  by (simp_all add: memory_of_def with_memory_def with_kernel_def kernel_of_def private_update_def disk_private_data_driver_def disk_hardware_disk_def fun_eq_iff)

text \<open>What the memory of a completion or a buffer depends on.\<close>

lemma completion_word_cong:
  assumes "\<And>k. k < 4 \<Longrightarrow> m (e + 12 + of_nat k) = m' (e + 12 + of_nat k)"
  shows "completion_word m e = completion_word m' e"
  using assms [of 0] assms [of 1] assms [of 2] assms [of 3]
  by (simp add: completion_word_def mem32_def mem16_def algebra_simps)

lemma slot_offset:
  fixes q :: u64
  assumes "j < n" "n \<le> 64" "k < sz" "sz \<le> 64"
  shows "unat (q + of_nat (sz * j) + of_nat k - q) = sz * j + k"
proof -
  have "sz * j + k < sz * Suc j" using assms by simp
  also have "\<dots> \<le> 64 * 64" using assms by (intro mult_le_mono) auto
  finally have "sz * j + k < 2 ^ 64" by simp
  moreover have "q + of_nat (sz * j) + of_nat k - q = of_nat (sz * j + k)" by simp
  ultimately show ?thesis by (simp only: unat_of_nat_u64)
qed

lemma queue_pointer: "(sz :: u64) * ucast (i :: u16) = of_nat (unat sz * unat i)"
  by simp

lemma next_index_less: "i < n \<Longrightarrow> next_index i n < n"
  by (auto simp: next_index_def not_le word_gt_0 dest: leD)

lemma and_4095: "unat (x AND 4095 :: u64) = unat x mod 4096"
proof -
  have "x AND 4095 = take_bit 12 x" by (simp add: take_bit_eq_mask mask_eq_exp_minus_1)
  then show ?thesis by (simp add: take_bit_eq_mod unat_mod_distrib)
qed

lemma next_page_aligned: "(x - (x AND 4095) + 4096) AND 4095 = (0 :: u64)"
proof -
  have le: "x AND 4095 \<le> x" by (simp add: word_le_nat_alt and_4095)
  have "unat (x - (x AND 4095)) = unat x - unat x mod 4096" by (simp add: unat_sub [OF le] and_4095)
  then have "unat (x - (x AND 4095) + 4096) mod 4096 = (unat x - unat x mod 4096 + 4096) mod 4096"
    by (simp add: unat_word_ariths mod_mod_cancel)
  also have "unat x - unat x mod 4096 = 4096 * (unat x div 4096)" by (rule minus_mod_eq_mult_div)
  also have "(4096 * (unat x div 4096) + 4096) mod 4096 = 0" by simp
  finally show ?thesis by (simp add: unat_eq_zero [symmetric] and_4095 del: unat_eq_zero)
qed

text \<open>A buffer \<open>512 * k\<close> bytes behind the start of a page.\<close>

lemma nvme_prp_covers:
  assumes o: "unat (buf AND 4095) = 512 * k" and n: "0 < nlb" "nlb \<le> 16"
  defines "prp2 \<equiv> fst (nvme_prp buf nlb)" and "blocks \<equiv> snd (nvme_prp buf nlb)"
  shows "unat blocks = min (unat nlb) (16 - k)" "prp_pages buf prp2 (512 * unat blocks)"
    "\<And>i. i < 512 * unat blocks \<Longrightarrow> prp_byte buf prp2 i = buf + of_nat i"
proof -
  define N where "N = unat nlb"
  have N: "0 < N" "N \<le> 16" "nlb = of_nat N" using n by (auto simp: N_def word_le_nat_alt word_gt_0 unat_gt_0)
  have k: "k < 8"
  proof -
    have "512 * k < 4096" unfolding o [symmetric] and_4095 by simp
    then show ?thesis by simp
  qed
  have small: "unat (of_nat x :: u32) = x" if "x < 2 ^ 32" for x using that by (simp add: unat_of_nat take_bit_nat_eq_self)
  have cast: "ucast (of_nat x :: u64) = (of_nat x :: u32)" if "x < 2 ^ 32" for x
    using that by (simp add: unsigned_of_nat take_bit_nat_eq_self)
  have a: "buf AND 4095 = of_nat (512 * k)" unfolding o [symmetric] by simp
  have a32: "(ucast (buf AND 4095) :: u32) = of_nat (512 * k)" unfolding a using k by (intro cast) simp
  have bytes: "ucast nlb * of_nat NVME_SECTOR_SIZE = (of_nat (512 * N) :: u32)"
    unfolding N(3) using N(2) by (simp add: unsigned_of_nat take_bit_nat_eq_self)
  have span: "(4096 :: u32) - ucast (buf AND 4095) = of_nat (4096 - 512 * k)"
    unfolding a32 using k by (simp add: of_nat_diff)
  have less: "(of_nat x :: u32) < of_nat y \<longleftrightarrow> x < y" if "x < 2 ^ 32" "y < 2 ^ 32" for x y
    using that by (simp only: word_less_nat_alt small)
  have sp: "4096 - unat (buf AND 4095) = 512 * (8 - k)" unfolding o by simp
  have "unat blocks = min (unat nlb) (16 - k) \<and> prp_pages buf prp2 (512 * unat blocks) \<and>
    (\<forall>i < 512 * unat blocks. prp_byte buf prp2 i = buf + of_nat i)"
  proof (cases "N \<le> 8 - k")
    case True
    have b: "\<not> (of_nat (4096 - 512 * k) :: u32) < of_nat (512 * N)" using True k N by (subst less) auto
    then have "nvme_prp buf nlb = (0, nlb)"
      unfolding nvme_prp_def Let_def bytes span by auto
    then have r: "prp2 = 0" "blocks = nlb" by (simp_all add: prp2_def blocks_def)
    show ?thesis using True k N(1,2) by (simp add: r N_def [symmetric] prp_pages_def prp_byte_def sp Let_def)
  next
    case False
    then have F: "8 - k < N" by simp
    let ?R = "min (512 * N - (4096 - 512 * k)) 4096"
    have b: "(of_nat (4096 - 512 * k) :: u32) < of_nat (512 * N)" using F k N by (subst less) auto
    then have nb: "\<not> (of_nat (512 * N) :: u32) < of_nat (4096 - 512 * k)" by simp
    have d: "(of_nat (512 * N) :: u32) - of_nat (4096 - 512 * k) = of_nat (512 * N - (4096 - 512 * k))"
      using F k by (subst of_nat_diff) auto
    have R: "(if 4096 < (of_nat (512 * N) :: u32) - of_nat (4096 - 512 * k) then 4096 else of_nat (512 * N) - of_nat (4096 - 512 * k)) = (of_nat ?R :: u32)"
    proof -
      have "(of_nat 4096 :: u32) < of_nat (512 * N - (4096 - 512 * k)) \<longleftrightarrow> 4096 < 512 * N - (4096 - 512 * k)"
        using N(2) by (intro less) auto
      then show ?thesis unfolding d by (auto simp: min_def)
    qed
    have p: "nvme_prp buf nlb = (buf + ucast (of_nat (4096 - 512 * k) :: u32),
        ucast (((of_nat (4096 - 512 * k) :: u32) + of_nat ?R + of_nat NVME_SECTOR_SIZE - 1) div of_nat NVME_SECTOR_SIZE))"
      unfolding nvme_prp_def Let_def bytes span if_not_P [OF nb] if_P [OF b] R by (rule refl)
    have c64: "ucast (of_nat (4096 - 512 * k) :: u32) = (of_nat (4096 - 512 * k) :: u64)"
      by (simp add: unsigned_of_nat take_bit_nat_eq_self)
    define D where "D = min (8 - k + 8) N"
    have "4096 - 512 * k + ?R = 512 * D" unfolding D_def using F k by (auto simp: min_def)
    then have "(of_nat (4096 - 512 * k) :: u32) + of_nat ?R = of_nat (512 * D)" by (simp only: of_nat_add [symmetric])
    then have w: "(of_nat (4096 - 512 * k) :: u32) + of_nat ?R + of_nat NVME_SECTOR_SIZE - 1 = of_nat (512 * D + 511)" by simp
    have "D \<le> 16" using N(2) by (simp add: D_def)
    obtain E where E: "512 * D + 511 = E" by simp
    have "E < 2 ^ 32" "E div 512 = D" unfolding E [symmetric] using \<open>D \<le> 16\<close> by simp_all
    then have q: "unat (((of_nat (4096 - 512 * k) :: u32) + of_nat ?R + of_nat NVME_SECTOR_SIZE - 1) div of_nat NVME_SECTOR_SIZE) = D"
      unfolding w E by (simp add: unat_div_distrib small)
    have D: "unat blocks = D"
      unfolding blocks_def p snd_conv unsigned_ucast_eq q using \<open>D \<le> 16\<close> by (simp add: take_bit_nat_eq_self)
    have p2: "prp2 = buf + of_nat (4096 - 512 * k)" by (simp only: prp2_def p fst_conv c64)
    then have p3: "prp2 = buf - (buf AND 4095) + 4096" unfolding a using k by (simp add: of_nat_diff)
    have "prp_byte buf prp2 i = buf + of_nat i" for i
      unfolding prp_byte_def Let_def sp p2 using k by (simp add: of_nat_diff right_diff_distrib')
    moreover have "prp2 \<noteq> buf - (buf AND 4095)" "prp2 AND 4095 = 0" unfolding p3 by (simp_all only: next_page_aligned) simp
    moreover have "512 * D \<le> 512 * (8 - k) + 4096" "D = min N (16 - k)" using k by (auto simp: D_def)
    ultimately show ?thesis by (simp add: D N_def [symmetric] prp_pages_def sp Let_def)
  qed
  then show "unat blocks = min (unat nlb) (16 - k)" "prp_pages buf prp2 (512 * unat blocks)"
    "\<And>i. i < 512 * unat blocks \<Longrightarrow> prp_byte buf prp2 i = buf + of_nat i" by auto
qed

lemma length_command [simp]: "length (concat (map word_bytes (nvme_command opcode ns prp1 prp2 a b c))) = 64"
  by (simp add: nvme_command_def word_bytes_def)

lemma poll_completion_second:
  assumes "phase_of (completion_word (memory_of S) e) \<noteq> ucast ph" "transfer hw (controller S) (memory_of S) = (h, m)"
    and "phase_of (completion_word m e) = ucast ph" "1 < n"
  shows "poll_completion hw e ph n S = (with_memory S m)\<lparr>controller := h\<rparr>"
proof -
  obtain n' where "n = Suc (Suc n')" using assms(4) by (metis less_imp_Suc_add One_nat_def add_Suc)
  then show ?thesis using assms by simp
qed

lemma private_frame:
  assumes "nsid P' = nsid P" "base_address_nvme P' = base_address_nvme P" "doorbell_stride P' = doorbell_stride P"
    "sq_ptr (io_submission_queue P') = sq_ptr (io_submission_queue P)" "sq_size (io_submission_queue P') = sq_size (io_submission_queue P)"
    "cq_ptr (io_completion_queue P') = cq_ptr (io_completion_queue P)" "cq_size (io_completion_queue P') = cq_size (io_completion_queue P)"
  shows "nvme_controller hw view med P' = nvme_controller hw view med P" "queue_byte P' = queue_byte P"
  using assms by (simp_all add: nvme_controller_def queue_byte_def fun_eq_iff)

text \<open>The bytes of an entry of a queue.\<close>

lemma entry_byte:
  fixes q :: u64
  assumes "unat i < unat n" "unat n \<le> 64" "k < sz" "sz \<le> 64"
  shows "unat (q + of_nat sz * ucast (i :: u16) + of_nat k - q) = sz * unat i + k"
  using slot_offset [of "unat i" "unat n" k sz q] assms by simp

lemma completion_byte_queue:
  assumes "queues_ok P" "j < unat (cq_size (io_completion_queue P))" "k < 16"
  shows "unat (cq_ptr (io_completion_queue P) + 16 * of_nat j + of_nat k - cq_ptr (io_completion_queue P)) = 16 * j + k"
    "queue_byte P (cq_ptr (io_completion_queue P) + 16 * of_nat j + of_nat k)"
proof -
  have n: "unat (cq_size (io_completion_queue P)) \<le> 64" using assms(1) by (auto simp: queues_ok_def word_le_nat_alt)
  show u: "unat (cq_ptr (io_completion_queue P) + 16 * of_nat j + of_nat k - cq_ptr (io_completion_queue P)) = 16 * j + k"
    using slot_offset [OF assms(2) n assms(3), of "cq_ptr (io_completion_queue P)"] by simp
  show "queue_byte P (cq_ptr (io_completion_queue P) + 16 * of_nat j + of_nat k)"
    unfolding queue_byte_def u using assms(2,3) by simp
qed

lemma completion_byte_not_submission:
  assumes "queues_ok P" "j < unat (cq_size (io_completion_queue P))" "k < 16"
  shows "\<not> unat (cq_ptr (io_completion_queue P) + 16 * of_nat j + of_nat k - sq_ptr (io_submission_queue P)) < 64 * unat (sq_size (io_submission_queue P))"
proof -
  have "unat (cq_ptr (io_completion_queue P) + 16 * of_nat j + of_nat k - cq_ptr (io_completion_queue P)) < 16 * unat (cq_size (io_completion_queue P))"
    unfolding completion_byte_queue(1) [OF assms] using assms(2,3) by simp
  then show ?thesis using assms(1) unfolding queues_ok_def by blast
qed

lemma completion_byte_entry:
  assumes "queues_ok P" "j < unat (cq_size (io_completion_queue P))" "k < 16" "j' < unat (cq_size (io_completion_queue P))" "j \<noteq> j'"
  shows "\<not> unat (cq_ptr (io_completion_queue P) + 16 * of_nat j + of_nat k - (cq_ptr (io_completion_queue P) + 16 * of_nat j')) < 16"
proof -
  let ?q = "cq_ptr (io_completion_queue P)"
  have n: "unat (cq_size (io_completion_queue P)) \<le> 64" using assms(1) by (auto simp: queues_ok_def word_le_nat_alt)
  show ?thesis
  proof
    define l where "l = unat (?q + 16 * of_nat j + of_nat k - (?q + 16 * of_nat j'))"
    assume "unat (?q + 16 * of_nat j + of_nat k - (?q + 16 * of_nat j')) < 16"
    then have l: "l < 16" "?q + 16 * of_nat j + of_nat k - (?q + 16 * of_nat j') = of_nat l" by (simp_all add: l_def)
    then have "?q + 16 * of_nat j + of_nat k = ?q + 16 * of_nat j' + of_nat l" by (metis add.commute diff_add_cancel)
    then have "16 * j + k = 16 * j' + l" using completion_byte_queue(1) [OF assms(1,2,3)] completion_byte_queue(1) [OF assms(1,4) l(1)] by metis
    then show False using assms(3,5) l(1) by arith
  qed
qed

lemma slot_byte_submission:
  assumes "queues_ok P" "x = sq_ptr (io_submission_queue P) + 64 * ucast (sq_tail (io_submission_queue P)) + y" "unat y < 64"
  shows "unat (x - sq_ptr (io_submission_queue P)) < 64 * unat (sq_size (io_submission_queue P))"
proof -
  let ?t = "sq_tail (io_submission_queue P)" and ?n = "sq_size (io_submission_queue P)"
  have t: "unat ?t < unat ?n" "unat ?n \<le> 64" using assms(1) by (auto simp: queues_ok_def word_less_nat_alt word_le_nat_alt)
  have "unat (x - sq_ptr (io_submission_queue P)) = 64 * unat ?t + unat y"
    using entry_byte [OF t assms(3), of "sq_ptr (io_submission_queue P)"] assms(2) by simp
  also have "\<dots> < 64 * unat ?n" using t(1) assms(3) by simp
  finally show ?thesis .
qed

lemma next_phases:
  assumes q: "queues_ok P" "phases_ok m P"
    and reached: "phase_of (completion_word m' (cq_ptr (io_completion_queue P) + 16 * ucast (cq_head (io_completion_queue P)))) = ucast (cq_phase (io_completion_queue P))"
    and other: "\<And>j. j < unat (cq_size (io_completion_queue P)) \<Longrightarrow> j \<noteq> unat (cq_head (io_completion_queue P)) \<Longrightarrow>
      completion_word m' (cq_ptr (io_completion_queue P) + 16 * of_nat j) = completion_word m (cq_ptr (io_completion_queue P) + 16 * of_nat j)"
    and P': "io_completion_queue P' = (io_completion_queue P)\<lparr>cq_head := next_index (cq_head (io_completion_queue P)) (cq_size (io_completion_queue P)),
      cq_phase := (if cq_head (io_completion_queue P) + 1 \<ge> cq_size (io_completion_queue P) then cq_phase (io_completion_queue P) XOR 1 else cq_phase (io_completion_queue P))\<rparr>"
  shows "phases_ok m' P'"
proof -
  let ?q = "io_completion_queue P"
  let ?n = "unat (cq_size ?q)" and ?hd = "unat (cq_head ?q)"
  have n: "?hd < ?n" "?n \<le> 64" using q(1) by (auto simp: queues_ok_def word_le_nat_alt word_less_nat_alt)
  have suc: "unat (cq_head ?q + 1) = ?hd + 1" using n by (simp add: unat_word_ariths)
  have twice: "(x XOR 1) XOR 1 = x" for x :: u8 by (simp add: xor.assoc)
  have word: "phase_of (completion_word m' (cq_ptr ?q + 16 * of_nat j)) = ucast (if j \<le> ?hd then cq_phase ?q else cq_phase ?q XOR 1)" if "j < ?n" for j
  proof (cases "j = ?hd")
    case True
    then show ?thesis using reached by simp
  next
    case False
    then show ?thesis using that q(2) other [OF that False] by (auto simp: phases_ok_def Let_def)
  qed
  show ?thesis
  proof (cases "cq_head ?q + 1 \<ge> cq_size ?q")
    case True
    then have "?n \<le> ?hd + 1" unfolding word_le_nat_alt suc .
    then have "j \<le> ?hd" if "j < ?n" for j using that by simp
    then show ?thesis using word True by (simp add: phases_ok_def P' next_index_def Let_def twice)
  next
    case False
    then have "unat (next_index (cq_head ?q) (cq_size ?q)) = ?hd + 1" by (simp add: next_index_def suc)
    then show ?thesis using word False by (auto simp: phases_ok_def P' Let_def less_Suc_eq_le)
  qed
qed

lemma controller_serves:
  assumes c: "nvme_controller hw view med P" and v: "view h = (t, j, ph)" "t < sq_size (io_submission_queue P)" "j < sq_size (io_submission_queue P)"
    and e: "e = cq_ptr (io_completion_queue P) + 16 * ucast j"
    and slot: "\<forall>i<64. m (sq_ptr (io_submission_queue P) + 64 * ucast t + of_nat i) =
      concat (map word_bytes (nvme_command NVME_OPCODE_READ (nsid P) prp1 prp2 (ucast ((lba :: u64) AND 0xFFFFFFFF)) (ucast (drop_bit 32 lba)) cnt)) ! i"
    and pages: "prp_pages prp1 prp2 (512 * (unat cnt + 1))"
    and h2: "transfer hw (register_write hw h m (base_address_nvme P + ucast (NVME_SQTDBL_OFFSET 1 (doorbell_stride P)))
      (ucast (next_index t (sq_size (io_submission_queue P))))) m = (h2, m2)"
  shows "phase_of (completion_word m2 e) = ucast ph" "drop_bit 17 (completion_word m2 e) AND 0x7FFF = 0"
    "\<forall>i<512 * (unat cnt + 1). \<not> unat (prp_byte prp1 prp2 i - e) < 16 \<longrightarrow> m2 (prp_byte prp1 prp2 i) = med (512 * unat lba + i)"
    "\<forall>x. \<not> unat (x - e) < 16 \<and> (\<forall>i<512 * (unat cnt + 1). x \<noteq> prp_byte prp1 prp2 i) \<longrightarrow> m2 x = m x"
    "\<forall>m'. view (register_write hw h2 m' (base_address_nvme P + ucast (NVME_CQTDBL_OFFSET 1 (doorbell_stride P)))
        (ucast (next_index j (sq_size (io_submission_queue P))))) =
      (next_index t (sq_size (io_submission_queue P)), next_index j (sq_size (io_submission_queue P)),
       if j + 1 \<ge> sq_size (io_submission_queue P) then ph XOR 1 else ph)"
proof -
  note rule = c [unfolded nvme_controller_def Let_def, rule_format, where h = h and m = m and t = t and hd = j and ph = ph and first_page = prp1 and next_page = prp2 and lba = lba and cnt = cnt,
    OF conjI [OF v(1) conjI [OF v(2) conjI [OF v(3) conjI [OF slot pages]]]]]
  note all = rule [unfolded h2 prod.case, folded e]
  show "phase_of (completion_word m2 e) = ucast ph" "drop_bit 17 (completion_word m2 e) AND 0x7FFF = 0" using all by blast+
  show "\<forall>i<512 * (unat cnt + 1). \<not> unat (prp_byte prp1 prp2 i - e) < 16 \<longrightarrow> m2 (prp_byte prp1 prp2 i) = med (512 * unat lba + i)"
    "\<forall>x. \<not> unat (x - e) < 16 \<and> (\<forall>i<512 * (unat cnt + 1). x \<noteq> prp_byte prp1 prp2 i) \<longrightarrow> m2 x = m x" using all by blast+
  show "\<forall>m'. view (register_write hw h2 m' (base_address_nvme P + ucast (NVME_CQTDBL_OFFSET 1 (doorbell_stride P)))
        (ucast (next_index j (sq_size (io_submission_queue P))))) =
      (next_index t (sq_size (io_submission_queue P)), next_index j (sq_size (io_submission_queue P)),
       if j + 1 \<ge> sq_size (io_submission_queue P) then ph XOR 1 else ph)" using all by blast
qed

definition moved_on :: "nvme_disk_driver_private \<Rightarrow> nvme_disk_driver_private" where
  "moved_on P = P\<lparr>io_submission_queue := (io_submission_queue P)\<lparr>sq_tail := next_index (sq_tail (io_submission_queue P)) (sq_size (io_submission_queue P))\<rparr>,
     io_completion_queue := (io_completion_queue P)\<lparr>cq_head := next_index (cq_head (io_completion_queue P)) (cq_size (io_completion_queue P)),
       cq_phase := (if cq_head (io_completion_queue P) + 1 \<ge> cq_size (io_completion_queue P) then cq_phase (io_completion_queue P) XOR 1 else cq_phase (io_completion_queue P))\<rparr>\<rparr>"

lemma moved_on_ok: "queues_ok P \<Longrightarrow> queues_ok (moved_on P)"
  unfolding queues_ok_def moved_on_def by (auto simp: next_index_less)

lemma nvme_io_read:
  assumes r: "nvme_ready hw view med S d" and o: "unat (buf AND 4095) = 512 * k" and n: "0 < nlb" "nlb \<le> 16"
    and blocks: "blocks = min (unat nlb) (16 - k)"
    and free: "\<And>i. i < 512 * blocks \<Longrightarrow> \<not> queue_byte (nvme_at S (disk_private_data_driver (nvme_disks S) d)) (buf + of_nat i)"
  shows "\<exists>S'. nvme_io_submit_and_poll hw S d NVME_OPCODE_READ lba nlb buf = Some (S', 0) \<and> nvme_ready hw view med S' d \<and>
    (\<forall>i<512 * blocks. memory_of S' (buf + of_nat i) = med (512 * unat lba + i)) \<and>
    (\<forall>x. \<not> queue_byte (nvme_at S (disk_private_data_driver (nvme_disks S) d)) x \<and> (\<forall>i<512 * blocks. x \<noteq> buf + of_nat i) \<longrightarrow> memory_of S' x = memory_of S x) \<and>
    disk_private_data_driver (nvme_disks S') d = disk_private_data_driver (nvme_disks S) d \<and>
    queue_byte (nvme_at S' (disk_private_data_driver (nvme_disks S') d)) = queue_byte (nvme_at S (disk_private_data_driver (nvme_disks S) d))"
proof -
  define p where "p = disk_private_data_driver (nvme_disks S) d"
  define P where "P = nvme_at S p"
  let ?sq = "io_submission_queue P" and ?cq = "io_completion_queue P"
  obtain prp2 nlb' where prp: "nvme_prp buf nlb = (prp2, nlb')" by fastforce
  have c: "unat nlb' = blocks" "prp_pages buf prp2 (512 * blocks)" "\<And>i. i < 512 * blocks \<Longrightarrow> prp_byte buf prp2 i = buf + of_nat i"
    using nvme_prp_covers [OF o n] prp blocks by simp_all
  have R: "p \<noteq> 0" "nvme_controller hw view med P" "queues_ok P" "phases_ok (memory_of S) P"
    "view (controller S) = (sq_tail ?sq, cq_head ?cq, cq_phase ?cq)"
    using r by (simp_all add: nvme_ready_def Let_def p_def P_def)
  let ?cnt = "ucast nlb' - 1 :: u32"
  let ?cmd = "nvme_command NVME_OPCODE_READ (nsid P) buf prp2 (ucast (lba AND 0xFFFFFFFF)) (ucast (drop_bit 32 lba)) ?cnt"
  let ?slot = "sq_ptr ?sq + 64 * ucast (sq_tail ?sq)" and ?t = "next_index (sq_tail ?sq) (sq_size ?sq)"
  let ?e = "cq_ptr ?cq + 16 * ucast (cq_head ?cq)" and ?hd = "next_index (cq_head ?cq) (cq_size ?cq)"
  define m1 where "m1 = write_bytes (memory_of S) ?slot (concat (map word_bytes ?cmd))"
  define h1 where "h1 = register_write hw (controller S) m1 (base_address_nvme P + ucast (NVME_SQTDBL_OFFSET 1 (doorbell_stride P))) (ucast ?t)"
  obtain h2 m2 where h2: "transfer hw h1 m1 = (h2, m2)" by fastforce
  have m1: "m1 x = memory_of S x" if "\<not> unat (x - sq_ptr ?sq) < 64 * unat (sq_size ?sq)" for x
    using that slot_byte_submission [OF R(3), of x "x - ?slot"] by (auto simp: m1_def write_bytes_def)
  have k: "k < 8"
  proof -
    have "512 * k < 4096" unfolding o [symmetric] and_4095 by simp
    then show ?thesis by simp
  qed
  have "0 < blocks" using n k by (simp add: blocks word_gt_0 unat_gt_0)
  have cnt: "unat ?cnt + 1 = blocks"
  proof -
    have u: "unat (ucast nlb' :: u32) = blocks" using c(1) unsigned_less [of nlb', where 'a = nat] by (simp add: unsigned_ucast_eq take_bit_nat_eq_self)
    then have "(1 :: u32) \<le> ucast nlb'" using \<open>0 < blocks\<close> by (simp add: word_le_nat_alt)
    then show ?thesis using u \<open>0 < blocks\<close> by (simp add: unat_sub)
  qed
  have idx: "sq_tail ?sq < sq_size ?sq" "cq_head ?cq < sq_size ?sq" "cq_size ?cq = sq_size ?sq" using R(3) by (auto simp: queues_ok_def)
  have slot: "\<forall>i<64. m1 (?slot + of_nat i) = concat (map word_bytes ?cmd) ! i" by (simp add: m1_def write_bytes_def)
  have e: "?e = cq_ptr ?cq + 16 * of_nat (unat (cq_head ?cq))" and hd: "unat (cq_head ?cq) < unat (cq_size ?cq)"
    using idx by (simp_all add: word_less_nat_alt)
  note served = controller_serves [OF R(2,5) idx(1,2) refl slot c(2) [folded cnt] h2 [unfolded h1_def]]
  have served5: "view (register_write hw h2 m' (base_address_nvme P + ucast (NVME_CQTDBL_OFFSET 1 (doorbell_stride P))) (ucast ?hd)) =
      (?t, ?hd, if cq_head ?cq + 1 \<ge> cq_size ?cq then cq_phase ?cq XOR 1 else cq_phase ?cq)" for m'
    using served(5) idx(3) by simp
  have data: "m2 (buf + of_nat i) = med (512 * unat lba + i)" if i: "i < 512 * blocks" for i
  proof -
    have "\<not> unat (buf + of_nat i - ?e) < 16"
    proof
      assume a: "unat (buf + of_nat i - ?e) < 16"
      have "queue_byte P (cq_ptr ?cq + 16 * of_nat (unat (cq_head ?cq)) + of_nat (unat (buf + of_nat i - ?e)))"
        by (rule completion_byte_queue(2) [OF R(3) hd a])
      then show False using free [OF i] by (simp add: p_def [symmetric] P_def [symmetric])
    qed
    then show ?thesis using served(3) i c(3) [OF i] unfolding cnt by metis
  qed
  have same: "m2 x = m1 x" if "\<not> unat (x - ?e) < 16" "\<And>i. i < 512 * blocks \<Longrightarrow> x \<noteq> buf + of_nat i" for x
    using served(4) that c(3) unfolding cnt by metis
  have other: "m2 x = memory_of S x" if "\<not> queue_byte P x" "\<And>i. i < 512 * blocks \<Longrightarrow> x \<noteq> buf + of_nat i" for x
  proof -
    have "\<not> unat (x - ?e) < 16"
    proof
      assume a: "unat (x - ?e) < 16"
      have "queue_byte P (cq_ptr ?cq + 16 * of_nat (unat (cq_head ?cq)) + of_nat (unat (x - ?e)))"
        by (rule completion_byte_queue(2) [OF R(3) hd a])
      then show False using that(1) by simp
    qed
    then show ?thesis using same [of x] m1 [of x] that by (auto simp: queue_byte_def)
  qed
  have words: "completion_word m2 (cq_ptr ?cq + 16 * of_nat j) = completion_word (memory_of S) (cq_ptr ?cq + 16 * of_nat j)"
    if j: "j < unat (cq_size ?cq)" "j \<noteq> unat (cq_head ?cq)" for j
  proof (rule completion_word_cong)
    fix l :: nat assume "l < 4"
    then have l: "12 + l < 16" by simp
    let ?x = "cq_ptr ?cq + 16 * of_nat j + of_nat (12 + l)"
    have "\<not> unat (?x - ?e) < 16" using completion_byte_entry [OF R(3) j(1) l hd j(2)] by simp
    moreover have "?x \<noteq> buf + of_nat i" if "i < 512 * blocks" for i
      using completion_byte_queue(2) [OF R(3) j(1) l] free [OF that] by (metis p_def P_def)
    ultimately have "m2 ?x = memory_of S ?x" using same m1 completion_byte_not_submission [OF R(3) j(1) l] by metis
    then show "m2 (cq_ptr ?cq + 16 * of_nat j + 12 + of_nat l) = memory_of S (cq_ptr ?cq + 16 * of_nat j + 12 + of_nat l)"
      by (simp add: add.assoc)
  qed
  have w1: "phase_of (completion_word m1 ?e) \<noteq> ucast (cq_phase ?cq)"
  proof -
    have "completion_word m1 ?e = completion_word (memory_of S) ?e"
    proof (rule completion_word_cong)
      fix l :: nat assume "l < 4"
      then have "12 + l < 16" by simp
      from m1 [OF completion_byte_not_submission [OF R(3) hd this]]
      show "m1 (?e + 12 + of_nat l) = memory_of S (?e + 12 + of_nat l)" unfolding e by (simp add: add.assoc)
    qed
    moreover have "phase_of (completion_word (memory_of S) ?e) = ucast (cq_phase ?cq XOR 1)"
      using R(4) [unfolded phases_ok_def Let_def, rule_format, OF hd] by simp
    moreover have "cq_phase ?cq = 0 \<or> cq_phase ?cq = 1" using R(3) by (simp add: queues_ok_def)
    ultimately show ?thesis by auto
  qed
  define S1 where "S1 = (private_update (with_memory S m1) p (io_submission_queue_update (\<lambda>q. q\<lparr>sq_tail := ?t\<rparr>)))\<lparr>controller := h1\<rparr>"
  have post: "post_command hw io_submission_queue io_submission_queue_update 1 S d ?cmd = Some S1"
    using R(1) by (simp add: S1_def post_command_def nvme_disk_driver_write_reg_def nvme_write32_def Let_def p_def [symmetric] P_def [symmetric] m1_def [symmetric] h1_def)
  have S1: "memory_of S1 = m1" "controller S1 = h1" "disk_private_data_driver (nvme_disks S1) d = p"
    "nvme_at S1 p = P\<lparr>io_submission_queue := ?sq\<lparr>sq_tail := ?t\<rparr>\<rparr>"
    by (simp_all add: S1_def P_def p_def)
  define S2 where "S2 = (with_memory S1 m2)\<lparr>controller := h2\<rparr>"
  have poll: "poll_completion hw ?e (cq_phase ?cq) 1000000 S1 = S2"
    unfolding S2_def by (rule poll_completion_second) (simp_all add: S1 w1 h2 served(1))
  have S2: "memory_of S2 = m2" "controller S2 = h2" "disk_private_data_driver (nvme_disks S2) d = p" "nvme_at S2 p = nvme_at S1 p"
    by (simp_all add: S2_def S1(3))
  define f :: "nvme_disk_driver_private \<Rightarrow> nvme_disk_driver_private" where "f = io_completion_queue_update (\<lambda>q. q\<lparr>cq_head := ?hd, cq_phase := (if cq_head ?cq + 1 \<ge> cq_size ?cq then cq_phase q XOR 1 else cq_phase q)\<rparr>)"
  define S3 where "S3 = (private_update S2 p f)\<lparr>controller :=
    register_write hw h2 m2 (base_address_nvme P + ucast (NVME_CQTDBL_OFFSET 1 (doorbell_stride P))) (ucast ?hd)\<rparr>"
  have aw: "await_completion hw io_completion_queue io_completion_queue_update 1 S1 d = Some (S3, 0, ?e)"
    using served(1,2) R(1)
    by (simp add: await_completion_def Let_def S1(3,4) poll S2 nvme_disk_driver_write_reg_def nvme_write32_def S3_def f_def cong: if_cong)
  have io: "nvme_io_submit_and_poll hw S d NVME_OPCODE_READ lba nlb buf = Some (S3, 0)"
    by (simp add: nvme_io_submit_and_poll_def Let_def prp p_def [symmetric] P_def [symmetric] post aw)
  have S3: "memory_of S3 = m2" "disk_private_data_driver (nvme_disks S3) d = p" "nvme_at S3 p = moved_on P"
    "controller S3 = register_write hw h2 m2 (base_address_nvme P + ucast (NVME_CQTDBL_OFFSET 1 (doorbell_stride P))) (ucast ?hd)"
    by (simp_all add: S3_def S2 S1(4) moved_on_def f_def)
  have frame: "nvme_controller hw view med (moved_on P) = nvme_controller hw view med P" "queue_byte (moved_on P) = queue_byte P"
    by (rule private_frame; simp add: moved_on_def)+
  have "phases_ok m2 (moved_on P)"
    by (rule next_phases [OF R(3,4) served(1) words]) (simp_all add: moved_on_def)
  then have "nvme_ready hw view med S3 d"
    using R(1,2) moved_on_ok [OF R(3)] served5 unfolding nvme_ready_def Let_def S3 frame by (simp add: moved_on_def)
  then show ?thesis
    unfolding p_def [symmetric] P_def [symmetric] io
    using data other by (intro exI [of _ S3] conjI refl) (simp_all add: S3 frame p_def [symmetric])
qed

text \<open>
  The memory behind a read of \<open>r\<close> sectors from block \<open>b\<close> into a buffer \<open>512 * k\<close> bytes behind the start of a page: of every
  16 sectors the last \<open>k\<close> stay as they were.
\<close>

definition sectors_read :: "(nat \<Rightarrow> u8) \<Rightarrow> nat \<Rightarrow> nat \<Rightarrow> nat \<Rightarrow> u64 \<Rightarrow> memory \<Rightarrow> memory \<Rightarrow> bool" where
  "sectors_read med k b r p m m' \<longleftrightarrow> (\<forall>j<r. \<forall>i<512. m' (p + of_nat (512 * j + i)) =
     (if j mod 16 < 16 - k then med (512 * (b + j) + i) else m (p + of_nat (512 * j + i))))"

definition buffer_only :: "(u64 \<Rightarrow> bool) \<Rightarrow> u64 \<Rightarrow> nat \<Rightarrow> memory \<Rightarrow> memory \<Rightarrow> bool" where
  "buffer_only Q p n m m' \<longleftrightarrow> (\<forall>x. \<not> Q x \<and> (\<forall>i<n. x \<noteq> p + of_nat i) \<longrightarrow> m' x = m x)"

lemma sectors_read_append:
  assumes one: "\<forall>i<512 * blocks. m1 (p + of_nat i) = med (512 * b + i)" "buffer_only Q p (512 * blocks) m m1" "blocks = min c (16 - k)"
    and rest: "sectors_read med k (b + c) r (p + of_nat (512 * c)) m1 m2" "buffer_only Q (p + of_nat (512 * c)) (512 * r) m1 m2"
    and c: "0 < c" "c = 16 \<or> c < 16 \<and> r = 0" and size: "512 * (c + r) < 2 ^ 63" and free: "\<forall>i<512 * (c + r). \<not> Q (p + of_nat i)"
  shows "sectors_read med k b (c + r) p m m2" "buffer_only Q p (512 * (c + r)) m m2"
proof -
  have ne: "p + of_nat x \<noteq> p + of_nat y" if "x \<noteq> y" "x < 512 * (c + r)" "y < 512 * (c + r)" for x y
    using offset_eq_iff [of x y p] that size by simp
  have bl: "blocks \<le> c" using one(3) by simp
  have first: "m1 (p + of_nat x) = m (p + of_nat x)" if "512 * blocks \<le> x" "x < 512 * (c + r)" for x
  proof -
    have "p + of_nat x \<noteq> p + of_nat i" if "i < 512 * blocks" for i
      using \<open>512 * blocks \<le> x\<close> \<open>x < 512 * (c + r)\<close> that by (intro ne) auto
    then show ?thesis using one(2) free that unfolding buffer_only_def by simp
  qed
  have second: "m2 (p + of_nat x) = m1 (p + of_nat x)" if "x < 512 * c" for x
  proof -
    have "p + of_nat x \<noteq> p + of_nat (512 * c) + of_nat i" if "i < 512 * r" for i
      using ne [of x "512 * c + i"] that \<open>x < 512 * c\<close> by (simp add: add.assoc)
    then show ?thesis using rest(2) free that unfolding buffer_only_def by simp
  qed
  show "sectors_read med k b (c + r) p m m2"
    unfolding sectors_read_def
  proof (intro allI impI)
    fix j i :: nat assume j: "j < c + r" and i: "i < 512"
    show "m2 (p + of_nat (512 * j + i)) = (if j mod 16 < 16 - k then med (512 * (b + j) + i) else m (p + of_nat (512 * j + i)))"
    proof (cases "j < c")
      case True
      then have jm: "j mod 16 = j" "512 * j + i < 512 * c" using c i by auto
      have "m2 (p + of_nat (512 * j + i)) = m1 (p + of_nat (512 * j + i))" by (rule second [OF jm(2)])
      also have "\<dots> = (if j < 16 - k then med (512 * b + (512 * j + i)) else m (p + of_nat (512 * j + i)))"
      proof (cases "j < 16 - k")
        case True
        then have "512 * j + i < 512 * blocks" using \<open>j < c\<close> i one(3) by auto
        from one(1) [rule_format, OF this] show ?thesis using True by (simp add: add.assoc)
      next
        case False
        then have "512 * blocks \<le> 512 * j + i" "512 * j + i < 512 * (c + r)" using one(3) i j by auto
        from first [OF this] show ?thesis using False by simp
      qed
      finally show ?thesis by (simp add: jm(1) algebra_simps)
    next
      case False
      then have c16: "c = 16" "j - c < r" using c(2) j by auto
      define l where "l = j - c"
      have l: "l < r" "j = c + l" using c16 False by (auto simp: l_def)
      have "m2 (p + of_nat (512 * c) + of_nat (512 * l + i)) = (if l mod 16 < 16 - k then med (512 * (b + c + l) + i) else m1 (p + of_nat (512 * c) + of_nat (512 * l + i)))"
        using rest(1) l(1) i unfolding sectors_read_def by blast
      moreover have "p + of_nat (512 * c) + of_nat (512 * l + i) = p + of_nat (512 * j + i)" unfolding l(2) by (simp add: algebra_simps)
      moreover have "j mod 16 = l mod 16" unfolding l(2) c16(1) by simp
      moreover have "m1 (p + of_nat (512 * j + i)) = m (p + of_nat (512 * j + i))" using bl l i by (intro first) auto
      ultimately show ?thesis using l(2) by (simp add: add.assoc)
    qed
  qed
  show "buffer_only Q p (512 * (c + r)) m m2"
    unfolding buffer_only_def
  proof (intro allI impI)
    fix x assume x: "\<not> Q x \<and> (\<forall>i<512 * (c + r). x \<noteq> p + of_nat i)"
    have "x \<noteq> p + of_nat (512 * c) + of_nat i" if "i < 512 * r" for i
      using x [THEN conjunct2, rule_format, of "512 * c + i"] that by (simp add: add.assoc)
    then have "m2 x = m1 x" using rest(2) x unfolding buffer_only_def by simp
    also have "\<dots> = m x" using one(2) x bl unfolding buffer_only_def by simp
    finally show "m2 x = m x" .
  qed
qed

lemma nvme_read_loop:
  shows "\<lbrakk>nvme_ready hw view med S d; unat (p AND 4095) = 512 * k; 512 * nat r < 2 ^ 63; unat slba + nat r < 2 ^ 64;
    Q = queue_byte (nvme_at S (disk_private_data_driver (nvme_disks S) d)); \<forall>i<512 * nat r. \<not> Q (p + of_nat i)\<rbrakk> \<Longrightarrow>
    \<exists>S'. nvme_transfer_loop hw d NVME_OPCODE_READ S slba p r = Some (S', 0) \<and>
      sectors_read med k (unat slba) (nat r) p (memory_of S) (memory_of S') \<and> buffer_only Q p (512 * nat r) (memory_of S) (memory_of S')"
proof (induction "nat r" arbitrary: S slba p r rule: less_induct)
  case less
  show ?case
  proof (cases "r \<le> 0")
    case True
    then show ?thesis by (auto simp: nvme_transfer_loop.simps sectors_read_def buffer_only_def)
  next
    case False
    let ?nlb = "if 16 < r then 16 else word_of_int r :: u16"
    define c where "c = min 16 (nat r)"
    have u: "unat ?nlb = c" 
    proof -
      have "unat ?nlb = nat (uint ?nlb)" by simp
      also have "\<dots> = nat (min 16 r)" using chunk_blocks [of r] False by (simp only: not_le)
      also have "\<dots> = c" by (auto simp: c_def min_def)
      finally show ?thesis .
    qed
    have c: "0 < c" "c \<le> 16" "c \<le> nat r" using False by (auto simp: c_def)
    have n: "0 < ?nlb" "?nlb \<le> 16" using u c by (simp_all only: word_le_nat_alt word_less_nat_alt) simp_all
    define blocks where "blocks = min c (16 - k)"
    have "blocks \<le> nat r" using c by (simp add: blocks_def)
    then have free: "\<not> queue_byte (nvme_at S (disk_private_data_driver (nvme_disks S) d)) (p + of_nat i)" if "i < 512 * blocks" for i
      using less.prems(5,6) that by simp
    obtain S1 where S1: "nvme_io_submit_and_poll hw S d NVME_OPCODE_READ slba ?nlb p = Some (S1, 0)" "nvme_ready hw view med S1 d"
      "\<forall>i<512 * blocks. memory_of S1 (p + of_nat i) = med (512 * unat slba + i)" "buffer_only Q p (512 * blocks) (memory_of S) (memory_of S1)"
      "Q = queue_byte (nvme_at S1 (disk_private_data_driver (nvme_disks S1) d))"
      using nvme_io_read [OF less.prems(1,2) n blocks_def [folded u] free, where lba = slba] less.prems(5) unfolding buffer_only_def by auto
    let ?slba = "slba + ucast ?nlb" and ?p = "p + ucast ?nlb * of_nat NVME_SECTOR_SIZE" and ?r = "r - uint ?nlb"
    have "uint ?nlb = int (unat ?nlb)" by (rule uint_nat)
    then have "?r = r - int c" by (simp only: u)
    then have r: "nat ?r = nat r - c" by simp
    have p: "?p = p + of_nat (512 * c)" unfolding u [symmetric] by simp
    have slba: "unat ?slba = unat slba + c"
    proof -
      have "ucast ?nlb = (of_nat c :: u64)" unfolding u [symmetric] by simp
      moreover have "unat slba + c < 2 ^ 64" using less.prems(4) c(3) by simp
      ultimately show ?thesis using c(2) by (simp add: unat_word_ariths)
    qed
    have step: "nvme_transfer_loop hw d NVME_OPCODE_READ S slba p r = nvme_transfer_loop hw d NVME_OPCODE_READ S1 ?slba ?p ?r"
      using False by (subst nvme_transfer_loop.simps) (simp add: S1(1) Let_def)
    have "\<exists>S'. nvme_transfer_loop hw d NVME_OPCODE_READ S1 ?slba ?p ?r = Some (S', 0) \<and>
      sectors_read med k (unat ?slba) (nat ?r) ?p (memory_of S1) (memory_of S') \<and> buffer_only Q ?p (512 * nat ?r) (memory_of S1) (memory_of S')"
    proof (cases "nat ?r = 0")
      case True
      then have "?r \<le> 0" by simp
      then have "nvme_transfer_loop hw d NVME_OPCODE_READ S1 ?slba ?p ?r = Some (S1, 0)" by (simp add: nvme_transfer_loop.simps)
      then show ?thesis unfolding True by (intro exI [of _ S1]) (simp add: sectors_read_def buffer_only_def)
    next
      case False
      then have c16: "c = 16" using c by (auto simp: c_def r)
      have k: "512 * k < 4096" unfolding less.prems(2) [symmetric] and_4095 by simp
      have pages: "8192 = 2 * (4096 :: nat)" by simp
      have "(unat p + 8192) mod 4096 = unat p mod 4096" by (simp only: pages mod_mult_self1)
      then have "unat ?p mod 4096 = unat p mod 4096" unfolding p c16 by (simp add: unat_word_ariths mod_mod_cancel)
      then have 1: "unat (?p AND 4095) = 512 * k" using less.prems(2) by (simp only: and_4095)
      have 2: "nat ?r < nat r" using c by (simp only: r)
      have 3: "512 * nat ?r < 2 ^ 63" using less.prems(3) 2 by linarith
      have 4: "unat ?slba + nat ?r < 2 ^ 64" unfolding slba r using less.prems(4) c(3) by simp
      have 5: "\<forall>i<512 * nat ?r. \<not> Q (?p + of_nat i)"
      proof (intro allI impI)
        fix i assume "i < 512 * nat ?r"
        then have "512 * c + i < 512 * nat r" unfolding r using c(3) by simp
        from less.prems(6) [rule_format, OF this] show "\<not> Q (?p + of_nat i)" unfolding p by (simp add: add.assoc)
      qed
      show ?thesis by (rule less.hyps [OF 2 S1(2) 1 3 4 S1(5) 5])
    qed
    then obtain S' where S': "nvme_transfer_loop hw d NVME_OPCODE_READ S1 ?slba ?p ?r = Some (S', 0)"
      "sectors_read med k (unat slba + c) (nat r - c) (p + of_nat (512 * c)) (memory_of S1) (memory_of S')"
      "buffer_only Q (p + of_nat (512 * c)) (512 * (nat r - c)) (memory_of S1) (memory_of S')"
      unfolding slba r p by blast
    have "c = 16 \<or> c < 16 \<and> nat r - c = 0" using c by (auto simp: c_def)
    moreover have e: "c + (nat r - c) = nat r" using c(3) by simp
    ultimately show ?thesis
      using sectors_read_append [OF S1(3,4) blocks_def S'(2,3) c(1)] less.prems(3,6) S'(1) unfolding step e by blast
  qed
qed

text \<open>
  \<^bold>\<open>Reading sectors.\<close> Against a controller that behaves as the interface documents, and with a buffer that starts \<open>k\<close> sectors behind the start of a
  page and does not touch the queues, a read ends without error, changes nothing but the buffer and the queues, and leaves in the buffer the sectors of the
  disk, apart from the last \<open>k\<close> of every 16: the command describes two pages, and the loop moves on by 16 sectors all the same.
\<close>

theorem nvme_disk_driver_read_sectors:
  assumes "nvme_ready hw view med S (disk_hardware_disk (nvme_disks S) d)" "unat (buf AND 4095) = 512 * k" "n < 2 ^ 31"
    and Q: "Q = queue_byte (nvme_at S (disk_private_data_driver (nvme_disks S) (disk_hardware_disk (nvme_disks S) d)))" "\<forall>i<512 * n. \<not> Q (buf + of_nat i)"
  shows "\<exists>S'. nvme_disk_driver_read hw S d lba (int n) buf = Some (S', 0) \<and>
    (\<forall>j<n. \<forall>i<512. memory_of S' (buf + of_nat (512 * j + i)) =
       (if j mod 16 < 16 - k then med (512 * (unat lba + j) + i) else memory_of S (buf + of_nat (512 * j + i)))) \<and>
    (\<forall>x. \<not> Q x \<and> (\<forall>i<512 * n. x \<noteq> buf + of_nat i) \<longrightarrow> memory_of S' x = memory_of S x)"
proof -
  have l: "unat (ucast lba :: u64) = unat lba" by transfer simp
  have "unat lba < 2 ^ 32" using unsigned_less [of lba, where ?'a = nat] by simp
  then have "unat (ucast lba :: u64) + nat (int n) < 2 ^ 64" unfolding l using assms(3) by simp
  moreover have "512 * nat (int n) < 2 ^ 63" "\<forall>i<512 * nat (int n). \<not> Q (buf + of_nat i)" using assms(3) Q(2) by simp_all
  ultimately show ?thesis
    using nvme_read_loop [OF assms(1,2) _ _ Q(1), where r = "int n" and slba = "ucast lba"]
    unfolding nvme_disk_driver_read_def sectors_read_def buffer_only_def l nat_int by blast
qed

subsection \<open>A controller that meets the assumptions\<close>

text \<open>
  It waits for the doorbell of the submission queue, and then carries out the command in its entry: whether there is a command, the two indices, and the phase are its
  state.
\<close>

definition serve_read :: "(nat \<Rightarrow> u8) \<Rightarrow> nvme_disk_driver_private \<Rightarrow> memory \<Rightarrow> u16 \<Rightarrow> u16 \<Rightarrow> u8 \<Rightarrow> memory" where
  "serve_read med P m t head ph =
     (let slot = sq_ptr (io_submission_queue P) + 64 * ucast t; e = cq_ptr (io_completion_queue P) + 16 * ucast head;
          first_page = mem64 m (slot + 24); next_page = mem64 m (slot + 32); lba = mem64 m (slot + 40); cnt = mem32 m (slot + 48)
      in (\<lambda>x. if unat (x - e) < 16 then (if x = e + 14 then ph else 0)
             else case find (\<lambda>i. prp_byte first_page next_page i = x) [0..<512 * (unat cnt + 1)] of
                    Some i \<Rightarrow> med (512 * unat lba + i) | None \<Rightarrow> m x))"

definition phase_byte :: "bool \<Rightarrow> u8" where
  "phase_byte b = (if b then 1 else 0)"

definition sample_controller :: "(nat \<Rightarrow> u8) \<Rightarrow> nvme_disk_driver_private \<Rightarrow> (bool \<times> u16 \<times> u16 \<times> bool) nvme_hardware" where
  "sample_controller med P =
     (let n = sq_size (io_submission_queue P)
      in \<lparr>register_read = (\<lambda>h a. (h, 0)),
          register_write = (\<lambda>(c, t, head, b) m a v.
            if a = base_address_nvme P + ucast (NVME_SQTDBL_OFFSET 1 (doorbell_stride P)) then (True, t, head, b)
            else if a = base_address_nvme P + ucast (NVME_CQTDBL_OFFSET 1 (doorbell_stride P)) then (False, next_index t n, next_index head n, (head + 1 \<ge> n) \<noteq> b)
            else (c, t, head, b)),
          transfer = (\<lambda>(c, t, head, b) m. ((False, t, head, b), if c then serve_read med P m t head (phase_byte b) else m))\<rparr>)"

definition sample_view :: "bool \<times> u16 \<times> u16 \<times> bool \<Rightarrow> u16 \<times> u16 \<times> u8" where
  "sample_view = (\<lambda>(c, t, head, b). (t, head, phase_byte b))"

lemma page_split: "(a :: nat) mod 4096 + i < 4096 \<Longrightarrow> (a + i) div 4096 = a div 4096"
proof -
  assume i: "a mod 4096 + i < 4096"
  have "a + i = (a mod 4096 + i) + a div 4096 * 4096" by simp
  then have "(a + i) div 4096 = a div 4096 + (a mod 4096 + i) div 4096" using div_mult_self1 [of 4096 "a mod 4096 + i" "a div 4096"] by simp
  then show ?thesis using i by simp
qed

lemma page_offset_sum:
  assumes "unat (x :: u64) mod 4096 + i < 4096"
  shows "unat (x + of_nat i) = unat x + i"
proof -
  have "unat x < 2 ^ 52 * 4096" using unsigned_less [of x, where 'a = nat] by simp
  then have "unat x div 4096 < 2 ^ 52" by (rule less_mult_imp_div_less)
  then have "(unat x + i) div 4096 < 2 ^ 52" by (simp only: page_split [OF assms])
  then have "unat x + i < 2 ^ 52 * 4096" by (simp only: div_less_iff_less_mult)
  then have "unat x + i < 2 ^ 64" by simp
  then show ?thesis by (simp add: unat_word_ariths)
qed

lemma prp_byte_inj:
  assumes "prp_pages prp1 prp2 n" "i < n" "j < n" "prp_byte prp1 prp2 i = prp_byte prp1 prp2 j"
  shows "i = j"
proof -
  define span where "span = 4096 - unat prp1 mod 4096"
  have first: "unat (prp1 + of_nat l) div 4096 = unat prp1 div 4096" "unat (prp1 + of_nat l) = unat prp1 + l" if "l < span" for l
  proof -
    have l: "unat prp1 mod 4096 + l < 4096" using that by (simp add: span_def)
    show u: "unat (prp1 + of_nat l) = unat prp1 + l" using page_offset_sum [OF l] .
    show "unat (prp1 + of_nat l) div 4096 = unat prp1 div 4096" unfolding u by (rule page_split [OF l])
  qed
  have second: "unat (prp2 + of_nat l) div 4096 = unat prp2 div 4096 \<and> unat (prp2 + of_nat l) = unat prp2 + l \<and> unat prp2 div 4096 \<noteq> unat prp1 div 4096"
    if "n - span \<le> 4096" "l < n - span" "prp2 AND 4095 = 0" "prp2 \<noteq> prp1 - (prp1 AND 4095)" for l
  proof -
    have z: "unat prp2 mod 4096 = 0" using arg_cong [OF that(3), of unat] by (simp add: and_4095)
    have u: "unat (prp2 + of_nat l) = unat prp2 + l" using page_offset_sum [of prp2 l] that(1,2) z by simp
    have le: "prp1 AND 4095 \<le> prp1" by (simp add: word_le_nat_alt and_4095)
    have "unat (prp1 - (prp1 AND 4095)) = 4096 * (unat prp1 div 4096)" by (simp add: unat_sub [OF le] and_4095 minus_mod_eq_mult_div)
    moreover have "unat prp2 \<noteq> unat (prp1 - (prp1 AND 4095))" using that(4) by (simp only: word_unat_eq_iff not_False_eq_True)
    moreover have "unat prp2 = 4096 * (unat prp2 div 4096)" using z mult_div_mod_eq [of 4096 "unat prp2"] by simp
    ultimately have "unat prp2 div 4096 \<noteq> unat prp1 div 4096" by metis
    moreover have "unat (prp2 + of_nat l) div 4096 = unat prp2 div 4096" unfolding u using that(1,2) z by (intro page_split) simp
    ultimately show ?thesis using u by blast
  qed
  have b: "prp_byte prp1 prp2 l = (if l < span then prp1 + of_nat l else prp2 + of_nat (l - span))" for l
    by (simp add: prp_byte_def span_def and_4095 Let_def)
  have c: "n \<le> span \<or> n - span \<le> 4096 \<and> prp2 AND 4095 = 0 \<and> prp2 \<noteq> prp1 - (prp1 AND 4095)"
    using assms(1) by (auto simp: prp_pages_def span_def and_4095 Let_def)
  have cross: False if "x < span" "\<not> y < span" "y < n" "prp1 + of_nat x = prp2 + of_nat (y - span)" for x y
  proof -
    have "\<not> n \<le> span" "y - span < n - span" using that(2,3) by auto
    then have "unat (prp2 + of_nat (y - span)) div 4096 = unat prp2 div 4096" "unat prp2 div 4096 \<noteq> unat prp1 div 4096"
      using c second [of "y - span"] by auto
    then show False using first(1) [OF that(1)] that(4) by metis
  qed
  have both: "i < span \<longleftrightarrow> j < span"
  proof (rule ccontr)
    assume ne: "(i < span) \<noteq> (j < span)"
    show False
    proof (cases "i < span")
      case True
      then have j: "\<not> j < span" using ne by blast
      show False using assms(4) unfolding b if_P [OF True] if_not_P [OF j] by (rule cross [OF True j assms(3)])
    next
      case False
      then have j: "j < span" using ne by blast
      show False using assms(4) [symmetric] unfolding b if_P [OF j] if_not_P [OF False] by (rule cross [OF j False assms(2)])
    qed
  qed
  show ?thesis
  proof (cases "i < span")
    case True
    then have j: "j < span" using both by blast
    have "prp1 + of_nat i = prp1 + of_nat j" using assms(4) True j unfolding b by (simp only: if_True)
    then have "unat prp1 + i = unat prp1 + j" using first(2) [OF True] first(2) [OF j] by metis
    then show ?thesis by simp
  next
    case False
    then have c': "n - span \<le> 4096" "prp2 AND 4095 = 0" "prp2 \<noteq> prp1 - (prp1 AND 4095)" using c assms(2) by auto
    have "i - span < n - span" "j - span < n - span" using False both assms(2,3) by auto
    then have u: "unat (prp2 + of_nat (i - span)) = unat prp2 + (i - span)" "unat (prp2 + of_nat (j - span)) = unat prp2 + (j - span)"
      using second [OF c'(1) _ c'(2,3)] by blast+
    have "\<not> j < span" using False both by blast
    then have "prp2 + of_nat (i - span) = prp2 + of_nat (j - span)" using assms(4) False unfolding b by (simp only: if_False)
    then have "unat prp2 + (i - span) = unat prp2 + (j - span)" using u by metis
    then have "i - span = j - span" by simp
    then show ?thesis using False \<open>\<not> j < span\<close> by linarith
  qed
qed

lemma mem32_bytes:
  assumes "m a = ucast w" "m (a + 1) = ucast (drop_bit 8 w)" "m (a + 2) = ucast (drop_bit 16 w)" "m (a + 3) = ucast (drop_bit 24 (w :: u32))"
  shows "mem32 m a = w"
proof (rule bit_word_eqI)
  fix i assume "i < LENGTH(32)"
  then have i: "i < 32" by simp
  show "bit (mem32 m a) i = bit w i"
    using i assms by (cases "i < 8"; cases "i < 16"; cases "i < 24") (auto simp: mem32_def mem16_def bit_simps add.assoc)
qed

lemma mem64_words:
  assumes "mem32 m a = ucast (v AND 0xFFFFFFFF)" "mem32 m (a + 4) = ucast (drop_bit 32 (v :: u64))"
  shows "mem64 m a = v"
proof (rule bit_word_eqI)
  fix i assume "i < LENGTH(64)"
  moreover have "v AND 0xFFFFFFFF = take_bit 32 v" by (simp add: take_bit_eq_mask mask_eq_exp_minus_1)
  ultimately show "bit (mem64 m a) i = bit v i"
    using assms by (cases "i < 32") (auto simp: mem64_def bit_simps)
qed

lemma command_word:
  assumes "\<forall>i<64. m (a + of_nat i) = concat (map word_bytes ws) ! i" "length ws = 16" "j < 16"
  shows "mem32 m (a + of_nat (4 * j)) = ws ! j"
proof (rule mem32_bytes)
  have [simp]: "length (word_bytes w) = 4" for w by (simp add: word_bytes_def)
  have c: "concat (map word_bytes ws) ! (4 * j + k) = word_bytes (ws ! j) ! k" if "k < 4" "j < length ws" for k ws
    using that
  proof (induction ws arbitrary: j)
    case (Cons w ws)
    show ?case
    proof (cases j)
      case 0
      then show ?thesis using Cons.prems by (simp add: nth_append)
    next
      case (Suc j')
      then show ?thesis using Cons.IH [of j'] Cons.prems by (simp add: nth_append)
    qed
  qed simp
  have b: "m (a + of_nat (4 * j) + of_nat k) = word_bytes (ws ! j) ! k" if "k < 4" for k
  proof -
    have "4 * j + k < 64" using assms(3) that by simp
    then have "m (a + of_nat (4 * j + k)) = concat (map word_bytes ws) ! (4 * j + k)" using assms(1) by blast
    then show ?thesis using c [OF that] assms(2,3) by (simp add: add.assoc)
  qed
  show "m (a + of_nat (4 * j)) = ucast (ws ! j)" "m (a + of_nat (4 * j) + 1) = ucast (drop_bit 8 (ws ! j))"
    "m (a + of_nat (4 * j) + 2) = ucast (drop_bit 16 (ws ! j))" "m (a + of_nat (4 * j) + 3) = ucast (drop_bit 24 (ws ! j))"
    using b [of 0] b [of 1] b [of 2] b [of 3] by (simp_all add: word_bytes_def)
qed

lemma command_fields:
  assumes "\<forall>i<64. m (a + of_nat i) = concat (map word_bytes (nvme_command opcode ns prp1 prp2 (ucast ((lba :: u64) AND 0xFFFFFFFF)) (ucast (drop_bit 32 lba)) cnt)) ! i"
  shows "mem64 m (a + 24) = prp1" "mem64 m (a + 32) = prp2" "mem64 m (a + 40) = lba" "mem32 m (a + 48) = cnt"
proof -
  note w = command_word [OF assms]
  have l: "length (nvme_command opcode ns prp1 prp2 (ucast (lba AND 0xFFFFFFFF)) (ucast (drop_bit 32 lba)) cnt) = 16" by (simp add: nvme_command_def)
  show "mem64 m (a + 24) = prp1" using w [OF l, of 6] w [OF l, of 7] by (intro mem64_words) (simp_all add: nvme_command_def add.assoc)
  show "mem64 m (a + 32) = prp2" using w [OF l, of 8] w [OF l, of 9] by (intro mem64_words) (simp_all add: nvme_command_def add.assoc)
  show "mem64 m (a + 40) = lba" using w [OF l, of 10] w [OF l, of 11] by (intro mem64_words) (simp_all add: nvme_command_def add.assoc)
  show "mem32 m (a + 48) = cnt" using w [OF l, of 12] by (simp add: nvme_command_def)
qed

lemma serve_read_meets:
  fixes m :: memory
  assumes slot: "\<forall>i<64. m (sq_ptr (io_submission_queue P) + 64 * ucast t + of_nat i) = concat (map word_bytes
      (nvme_command opcode ns prp1 prp2 (ucast ((lba :: u64) AND 0xFFFFFFFF)) (ucast (drop_bit 32 lba)) cnt)) ! i"
    and pages: "prp_pages prp1 prp2 (512 * (unat cnt + 1))" and e: "e = cq_ptr (io_completion_queue P) + 16 * ucast head"
    and m2: "m2 = serve_read med P m t head (phase_byte b)"
  shows "phase_of (completion_word m2 e) = ucast (phase_byte b)" "drop_bit 17 (completion_word m2 e) AND 0x7FFF = 0"
    "\<forall>i<512 * (unat cnt + 1). \<not> unat (prp_byte prp1 prp2 i - e) < 16 \<longrightarrow> m2 (prp_byte prp1 prp2 i) = med (512 * unat lba + i)"
    "\<forall>x. \<not> unat (x - e) < 16 \<and> (\<forall>i<512 * (unat cnt + 1). x \<noteq> prp_byte prp1 prp2 i) \<longrightarrow> m2 x = m x"
proof -
  let ?T = "512 * (unat cnt + 1)"
  have m: "m2 x = (if unat (x - e) < 16 then (if x = e + 14 then phase_byte b else 0)
      else case find (\<lambda>i. prp_byte prp1 prp2 i = x) [0..<?T] of Some i \<Rightarrow> med (512 * unat lba + i) | None \<Rightarrow> m x)" for x
    by (simp add: m2 serve_read_def Let_def command_fields [OF slot] e cong: option.case_cong)
  have w: "completion_word m2 e = push_bit 16 (ucast (phase_byte b))"
    unfolding completion_word_def mem32_def mem16_def m phase_byte_def by (cases b) (simp_all add: add.assoc)
  show "phase_of (completion_word m2 e) = ucast (phase_byte b)" "drop_bit 17 (completion_word m2 e) AND 0x7FFF = 0"
    unfolding w phase_of_def phase_byte_def by (cases b; simp)+
  show "\<forall>i<?T. \<not> unat (prp_byte prp1 prp2 i - e) < 16 \<longrightarrow> m2 (prp_byte prp1 prp2 i) = med (512 * unat lba + i)"
  proof (intro allI impI)
    fix i assume i: "i < ?T" "\<not> unat (prp_byte prp1 prp2 i - e) < 16"
    have "find (\<lambda>j. prp_byte prp1 prp2 j = prp_byte prp1 prp2 i) [0..<?T] = Some i"
      unfolding find_Some_iff using i(1) prp_byte_inj [OF pages] by (intro exI [of _ i]) (auto dest: less_trans)
    then show "m2 (prp_byte prp1 prp2 i) = med (512 * unat lba + i)" using i(2) by (simp only: m if_False option.case)
  qed
  show "\<forall>x. \<not> unat (x - e) < 16 \<and> (\<forall>i<?T. x \<noteq> prp_byte prp1 prp2 i) \<longrightarrow> m2 x = m x"
  proof (intro allI impI)
    fix x assume x: "\<not> unat (x - e) < 16 \<and> (\<forall>i<?T. x \<noteq> prp_byte prp1 prp2 i)"
    then have "find (\<lambda>j. prp_byte prp1 prp2 j = x) [0..<?T] = None" by (auto simp: find_None_iff)
    then show "m2 x = m x" using x by (simp only: m if_False option.case simp_thms)
  qed
qed

lemma sample_controller_ok:
  assumes "NVME_SQTDBL_OFFSET 1 (doorbell_stride P) \<noteq> NVME_CQTDBL_OFFSET 1 (doorbell_stride P)"
  shows "nvme_controller (sample_controller med P) sample_view med P"
  unfolding nvme_controller_def Let_def
proof (intro allI impI, elim conjE)
  fix h :: "bool \<times> u16 \<times> u16 \<times> bool" and m m' :: memory and t h0 :: u16 and ph :: u8 and first_page next_page lba :: u64 and cnt :: u32
  let ?n = "sq_size (io_submission_queue P)"
  assume v: "sample_view h = (t, h0, ph)" "t < ?n" "h0 < ?n"
    and slot: "\<forall>i<64. m (sq_ptr (io_submission_queue P) + 64 * ucast t + of_nat i) = concat (map word_bytes
      (nvme_command NVME_OPCODE_READ (nsid P) first_page next_page (ucast (lba AND 0xFFFFFFFF)) (ucast (drop_bit 32 lba)) cnt)) ! i"
    and pages: "prp_pages first_page next_page (512 * (unat cnt + 1))"
  show "case transfer (sample_controller med P)
          (register_write (sample_controller med P) h m (base_address_nvme P + ucast (NVME_SQTDBL_OFFSET 1 (doorbell_stride P))) (ucast (next_index t ?n))) m of
    (h2, m2) \<Rightarrow> phase_of (completion_word m2 (cq_ptr (io_completion_queue P) + 16 * ucast h0)) = ucast ph \<and>
      drop_bit 17 (completion_word m2 (cq_ptr (io_completion_queue P) + 16 * ucast h0)) AND 0x7FFF = 0 \<and>
      (\<forall>i<512 * (unat cnt + 1). \<not> unat (prp_byte first_page next_page i - (cq_ptr (io_completion_queue P) + 16 * ucast h0)) < 16 \<longrightarrow>
         m2 (prp_byte first_page next_page i) = med (512 * unat lba + i)) \<and>
      (\<forall>x. \<not> unat (x - (cq_ptr (io_completion_queue P) + 16 * ucast h0)) < 16 \<and> (\<forall>i<512 * (unat cnt + 1). x \<noteq> prp_byte first_page next_page i) \<longrightarrow> m2 x = m x) \<and>
      sample_view (register_write (sample_controller med P) h2 m' (base_address_nvme P + ucast (NVME_CQTDBL_OFFSET 1 (doorbell_stride P))) (ucast (next_index h0 ?n))) =
        (next_index t ?n, next_index h0 ?n, if ?n \<le> h0 + 1 then ph XOR 1 else ph)"
  proof -
    obtain c b where h: "h = (c, t, h0, b)" "ph = phase_byte b" using v(1) by (cases h) (auto simp: sample_view_def)
    let ?a = "base_address_nvme P + ucast (NVME_SQTDBL_OFFSET 1 (doorbell_stride P))"
      and ?b = "base_address_nvme P + ucast (NVME_CQTDBL_OFFSET 1 (doorbell_stride P))"
    have inj: "x = y" if "(ucast x :: u64) = ucast y" for x y :: u32
      using that by transfer (simp add: take_bit_take_bit)
    have "?b \<noteq> ?a" using assms inj by (metis add_left_cancel)
    then have w: "sample_view (register_write (sample_controller med P) (False, t, h0, b) m' ?b v) = (next_index t ?n, next_index h0 ?n, if ?n \<le> h0 + 1 then ph XOR 1 else ph)" for v
      by (simp add: sample_controller_def Let_def sample_view_def h(2) phase_byte_def)
    have tr: "transfer (sample_controller med P) (register_write (sample_controller med P) h m ?a v) m = ((False, t, h0, b), serve_read med P m t h0 ph)" for v
      by (simp add: sample_controller_def Let_def h)
    note s = serve_read_meets [OF slot pages refl refl, where head = h0 and med = med and b = b, folded h(2)]
    show ?thesis unfolding tr prod.case by (intro conjI s w)
  qed
qed

text \<open>A controller with queues of 64 entries and a disk whose sectors are filled with their numbers, and any kernel with an empty memory.\<close>

definition sample_queues :: nvme_disk_driver_private where
  "sample_queues = \<lparr>nvme_device = 0x2000, base_address_nvme = 0xFE000000, doorbell_stride = 0, nsid = 1,
     admin_submission_queue = \<lparr>sq_ptr = 0x4000, sq_tail = 2, sq_size = 64\<rparr>,
     admin_completion_queue = \<lparr>cq_ptr = 0x5000, cq_head = 2, cq_size = 64, cq_phase = 1\<rparr>,
     io_submission_queue = \<lparr>sq_ptr = 0x10000, sq_tail = 0, sq_size = 64\<rparr>,
     io_completion_queue = \<lparr>cq_ptr = 0x11000, cq_head = 0, cq_size = 64, cq_phase = 1\<rparr>\<rparr>"

definition sample_medium :: "nat \<Rightarrow> u8" where
  "sample_medium i = of_nat (i div 512)"

definition sample_nvme :: "'s kernel_scheme \<Rightarrow> ('s kernel_scheme, unit, bool \<times> u16 \<times> u16 \<times> bool) nvme_system" where
  "sample_nvme K =
     \<lparr>nvme_disks = \<lparr>heap_state = K\<lparr>kmem := (\<lambda>_. 0)\<rparr>,
        disk_vector = [\<lparr>disk_type = 0, sector_size = 512, disk_id = 0, filesystem = None, driver = 0, hardware_disk = 0, disk_cache = None,
          starting_lba = 0, ending_lba = 0, driver_private = 0x3000\<rparr>],
        primary_fs_disk = None, disk_driver_vec = []\<rparr>,
      controller = (False, 0, 0, True), nvme_at = (\<lambda>_. sample_queues)\<rparr>"

lemma sample_nvme_ready: "nvme_ready (sample_controller sample_medium sample_queues) sample_view sample_medium (sample_nvme K) 0"
proof -
  have "nvme_controller (sample_controller sample_medium sample_queues) sample_view sample_medium sample_queues"
    by (rule sample_controller_ok) (simp add: sample_queues_def NVME_SQTDBL_OFFSET_def NVME_CQTDBL_OFFSET_def)
  moreover have "queues_ok sample_queues"
    unfolding queues_ok_def
  proof (intro conjI allI)
    fix x :: u64
    show "\<not> (unat (x - sq_ptr (io_submission_queue sample_queues)) < 64 * unat (sq_size (io_submission_queue sample_queues)) \<and>
      unat (x - cq_ptr (io_completion_queue sample_queues)) < 16 * unat (cq_size (io_completion_queue sample_queues)))"
    proof (rule notI, elim conjE)
      define i where "i = unat (x - 0x10000)"
      define j where "j = unat (x - 0x11000)"
      assume "unat (x - sq_ptr (io_submission_queue sample_queues)) < 64 * unat (sq_size (io_submission_queue sample_queues))"
        "unat (x - cq_ptr (io_completion_queue sample_queues)) < 16 * unat (cq_size (io_completion_queue sample_queues))"
      then have less: "i < 4096" "j < 1024" by (simp_all add: sample_queues_def i_def j_def)
      have "x = 0x10000 + of_nat i" "x = 0x11000 + of_nat j" by (simp_all add: i_def j_def)
      then have "(0x10000 :: u64) + of_nat i = 0x10000 + of_nat (4096 + j)" by simp
      then have "i = 4096 + j" using less offset_eq_iff [of i "4096 + j" "0x10000"] by simp
      then show False using less by simp
    qed
  qed (simp_all add: sample_queues_def)
  moreover have "phases_ok (\<lambda>_. 0) sample_queues"
    by (simp add: phases_ok_def sample_queues_def completion_word_def mem32_def mem16_def phase_of_def)
  ultimately show ?thesis
    by (simp add: nvme_ready_def Let_def sample_nvme_def disk_private_data_driver_def memory_of_def kernel_of_def)
      (simp add: sample_queues_def sample_view_def phase_byte_def)
qed

text \<open>Twenty sectors from sector 7 on, into a buffer one sector behind the start of a page: the sixteenth does not arrive.\<close>

theorem nvme_disk_driver_read_sectors_witness:
  "\<exists>S'. nvme_disk_driver_read (sample_controller sample_medium sample_queues) (sample_nvme K) 0 7 20 0x20200 = Some (S', 0) \<and>
     memory_of S' 0x20200 = 7 \<and> memory_of S' 0x21E00 = 21 \<and> memory_of S' 0x22000 = 0 \<and> memory_of S' 0x22200 = 23"
proof -
  define Q where "Q = queue_byte sample_queues"
  have free: "\<forall>i<512 * 20. \<not> Q (0x20200 + of_nat i)"
  proof (intro allI impI)
    fix i :: nat assume i: "i < 512 * 20"
    have "(0x20200 :: u64) + of_nat i - 0x10000 = of_nat (0x10200 + i)" "(0x20200 :: u64) + of_nat i - 0x11000 = of_nat (0xF200 + i)" by simp_all
    moreover have "unat (of_nat (0x10200 + i) :: u64) = 0x10200 + i" "unat (of_nat (0xF200 + i) :: u64) = 0xF200 + i"
      using i by (simp_all add: unat_of_nat_u64 del: of_nat_add)
    ultimately show "\<not> Q (0x20200 + of_nat i)" by (simp add: Q_def queue_byte_def sample_queues_def)
  qed
  have o: "unat ((0x20200 :: u64) AND 4095) = 512 * 1" by simp
  have d: "disk_hardware_disk (nvme_disks (sample_nvme K)) 0 = 0" by (simp add: sample_nvme_def disk_hardware_disk_def)
  have q: "Q = queue_byte (nvme_at (sample_nvme K) (disk_private_data_driver (nvme_disks (sample_nvme K)) 0))" by (simp add: Q_def sample_nvme_def)
  obtain S' where r: "nvme_disk_driver_read (sample_controller sample_medium sample_queues) (sample_nvme K) 0 7 (int 20) 0x20200 = Some (S', 0)"
    and m: "\<forall>j<20. \<forall>i<512. memory_of S' (0x20200 + of_nat (512 * j + i)) =
       (if j mod 16 < 16 - 1 then sample_medium (512 * (unat (7 :: u32) + j) + i) else memory_of (sample_nvme K) (0x20200 + of_nat (512 * j + i)))"
    using nvme_disk_driver_read_sectors [of "sample_controller sample_medium sample_queues" sample_view sample_medium "sample_nvme K" 0, unfolded d,
        OF sample_nvme_ready o _ q free, of 7] by auto
  note m = m [rule_format, of _ 0]
  have "memory_of (sample_nvme K) x = 0" for x by (simp add: sample_nvme_def memory_of_def kernel_of_def)
  then show ?thesis
    using r m [of 0] m [of 14] m [of 15] m [of 16] by (intro exI [of _ S']) (simp add: sample_medium_def)
qed

end
