(* ===== verification/Spec2Isabelle.thy ===== *)
theory Spec2Isabelle
  imports Vector FatVolume ProcessFile Syscall Mouse Pci Nvme
begin

text \<open>
  A model of the kernel in \<open>PeachOS64Bit/src\<close>, with the theorems that make its parts correct. Paths below are relative to
  that directory.

  \<^bold>\<open>The program.\<close> The kernel takes its memory from the map the boot loader leaves (\<open>memory/memory.c\<close>), divides it into heaps
  of 4096-byte blocks (\<open>memory/heap\<close>), and maps it with four-level page tables (\<open>memory/paging\<close>). Vectors (\<open>lib/vector\<close>) and
  strings (\<open>string\<close>) are used everywhere. Drivers give disks (\<open>disk\<close>), which cache their sectors and are read as streams; a file
  layer (\<open>fs\<close>) finds the file system of a disk and serves descriptors, with FAT16 as its file system. Processes
  (\<open>task/process.c\<close>) own tasks (\<open>task/task.c\<close>), page tables, allocations, open files, windows and events; programs are
  loaded by \<open>loader/formats\<close>. Keyboard and mouse (\<open>keyboard\<close>, \<open>mouse\<close>) push events to the process or window in focus. The screen
  is a tree of rectangles (\<open>graphics/graphics.c\<close>) with images, fonts, terminals and windows above it. Interrupts (\<open>idt\<close>) switch
  tasks by the clock and enter the commands of \<open>isr80h\<close> that programs call.

  \<^bold>\<open>The theories\<close>, in the order of import, and the sources they model:

  \<^item> Prelude: machine types, status codes, loops and the lemmas that all parts share.
  \<^item> Memory (\<open>memory/memory.c\<close>), Heap (\<open>memory/heap/heap.c\<close>), Paging (\<open>memory/paging/paging.c\<close>), MultiHeap
    (\<open>multiheap.c\<close>, \<open>kheap.c\<close>): the byte memory, the block table, the page tables, and the kernel's allocator over them.
  \<^item> Vector, TypedVector (\<open>lib/vector/vector.c\<close>): vectors over byte memory, and the same operations for vectors whose
    elements are structures.
  \<^item> CString (\<open>string/string.c\<close>), PathParser (\<open>fs/pparser.c\<close>).
  \<^item> DiskCache, Streamer (\<open>disk/streamer.c\<close>), Disk (\<open>disk/disk.c\<close>, \<open>disk/driver.c\<close>), File (\<open>fs/file.c\<close>), Fat16 and
    FatVolume (\<open>fs/fat/fat16.c\<close>: operations, and their correctness over a medium).
  \<^item> ElfLoader (\<open>loader/formats\<close>), Task (\<open>task/task.c\<close>), Process and ProcessFile (\<open>task/process.c\<close>, \<open>task/userlandptr.c\<close>).
  \<^item> Keyboard (\<open>keyboard\<close>), Image (\<open>graphics/image\<close>), Graphics and Painting (\<open>graphics/graphics.c\<close>: operations, and the
    picture they paint), Terminal and Typing (\<open>graphics/font.c\<close>, \<open>graphics/terminal.c\<close>), Window (\<open>graphics/window.c\<close>).
  \<^item> Interrupt (\<open>idt/idt.c\<close>, \<open>idt/irq.c\<close>), Syscall (\<open>isr80h\<close>), Mouse (\<open>mouse\<close>), Pci (\<open>io/pci.c\<close>: configuration registers, the sizes of
    base address registers, and the scan of the buses), Nvme (\<open>disk/drivers/nvme.c\<close>: the controller's registers and queues, mounting, and sectors).

  \<^bold>\<open>The state.\<close> A C structure is a record with its fields, an object on the kernel heap whose bytes do not matter is an entry of
  a store by address. The static variables of the parts are one record that each layer extends: \<open>kstate\<close> (bytes of memory),
  \<open>kpaging\<close> (page tables), \<open>kernel\<close> (heaps), \<open>ktask\<close> (tasks and processes), \<open>pstate\<close> (process table and what processes point to),
  \<open>kbstate\<close> (keyboards), \<open>istate\<close> (images), \<open>gstate\<close> (rectangles and screen), \<open>tstate\<close> (fonts and terminals), \<open>wstate\<close> (windows).
  Operations are polymorphic in the extension, so an operation of a lower layer runs unchanged on the state of a higher
  one. Disks and files wrap this state: \<open>disk_state\<close> holds it as the state of the heap, \<open>file_state\<close> holds the disks, and the
  system of a program is both (\<open>process_system\<close>, \<open>kernel_system\<close>). Mice, the descriptor table and the interrupt controllers are
  records beside it.

  \<^bold>\<open>Conventions.\<close> A pointer and a \<open>size_t\<close> are \<open>64 word\<close>; an \<open>int\<close> is \<open>int\<close> where the code cannot leave its range, or the conversion
  is written out. An error return is a negative integer. The result \<open>None\<close> of an option means that the code does not return with a
  defined result: a panic, an access outside an object or through the null pointer, a signed overflow, or a loop that
  never ends. A loop that may not end is a \<open>partial_function (option)\<close>, so a theorem that gives \<open>Some\<close> is a theorem that it
  ends; other loops recurse on a list or on their remaining count. The counts that bound a loop are those of the code, and no operation has
  fuel; the recursions of \<open>paging.c\<close> over the levels of the page tables count the level down, as the code does.

  Tables of heap entries are lists beside the byte memory. So the start of the kernel's heap is \<open>None\<close> where the table of the first heap
  would reach into its pool, which the code does not rule out, and the theorem on it asks for a region where it does not.

  \<^bold>\<open>Parameters.\<close> What is not C code of the kernel is an argument: the functions of a file system, of a disk driver and of an image
  format (records of functions, called by number or address), handlers of windows, mice and interrupts, the clock, ports
  and registers of devices and what they do to memory, and what memory holds behind an array that the code reads past (\<open>junk\<close>, \<open>pixels_behind\<close>).

  \<^bold>\<open>Interfaces.\<close> \<open>page_allocator\<close> (Paging) is what the page tables need of \<open>kzalloc\<close>, \<open>realloc_provider\<close> and \<open>zalloc_provider\<close>
  (Memory) what vectors need of \<open>krealloc\<close> and \<open>kzalloc\<close>, and \<open>object_allocator\<close> (Task) what the list of tasks needs. MultiHeap and
  Task interpret them on the kernel's own allocator (\<open>kpages\<close>, \<open>kheap\<close>, \<open>task_heap\<close>).

  \<^bold>\<open>What is shown.\<close>

  \<^item> Memory: the block allocator is first fit and records exactly its allocations; for an allocation whose chain of blocks does not run into a
    neighbour, freeing removes exactly it and reallocation keeps the bytes; the kernel's heap is established by its initialisation; mapping a page makes the walk of the
    processor give that frame.
  \<^item> Containers and text: vectors refine lists, sorting gives a sorted permutation, paths parse back.
  \<^item> Storage: the cache is transparent to streams, a stream read gives the bytes of the medium, FAT16 finds the file it
    is asked for and reads its clusters in the order of the chain, over every layer below.
  \<^item> Processes: allocation maps exactly the new page for the program and records it, in a table that has a null entry or grows
    within a page; descriptors of other processes are refused; and while no task sleeps the tasks of the list go on in turn under the clock with
    the registers they had.
  \<^item> Screen: redrawing paints the layers of the tree; when children lie in their parents, redrawing a region changes the screen as the full
    redraw does inside the region and nowhere else; the rectangle found under a click is the topmost there, transparent pixels or not, apart from the ignored one;
    typing moves an abstract cursor and draws the bitmaps; the handlers of a window are dropped as long as there are free pages.
  \<^item> Devices and commands: the keyboard buffer is a queue up to its size, mouse bytes have the effect of their complete
    packets, every number of a command reaches its command, and every command ends in the page tables of the task; the bars of a
    PCI device are what its base address registers and their masks mean; an NVMe read into a buffer at the start of a page gives the sectors of the disk.

  Several theorems state behaviour that the code surely does not intend: the bounds check of a program's pointers, tasks at the
  tail that sleep, the pages that dropping handlers takes, the corner that a backspace repaints, the copy beyond a source rectangle, the
  overflow of the keyboard buffer, the sizes recorded for 32-bit bars, and the sectors that an NVMe read into any other
  buffer leaves out.

  \<^bold>\<open>Not modelled.\<close>

  \<^item> The assembly (\<open>boot\<close>, \<open>kernel.asm\<close>, \<open>idt.asm\<close>, \<open>task.asm\<close>, \<open>io.asm\<close>, \<open>gdt.asm\<close>, \<open>tss.asm\<close>): entering and leaving an
    interrupt, port input and output, loading of registers. Where C calls it, its result is an argument or a recorded effect.
  \<^item> \<open>kernel.c\<close>: the start-up sequence, which calls the initialisations that are modelled one after the other and then loads a
    program, and printing. \<open>gdt/gdt.c\<close> and \<open>io/cpuid.c\<close>, \<open>io/tsc.c\<close>: encoding of segment descriptors and readings of the clock.
  \<^item> \<open>disk/drivers/pata.c\<close> and \<open>disk/gpt.c\<close>: the ports of the older disks, and the table of partitions. Disk takes what a driver answers as a
    parameter.
  \<^item> \<open>programs\<close>: the user programs and their libraries run outside the kernel. They reach it by the commands of Syscall.
  \<^item> Concurrency: the kernel runs with interrupts disabled, so an operation is one step. An interrupt that arrives while a
    program runs is a step of Interrupt.
\<close>

end
